(* ===== verification/Prelude.thy ===== *)
theory Prelude
  imports Main "HOL-Library.Word"
begin

text \<open>
  Shared vocabulary of the development: names for the C integer types, checked array
  access, the circular-counter macros of \<^verbatim>\<open>src/project_w1/vmac/osdep.h\<close>, the ring view of an
  array that the receive reorder buffer, the transmit block-ack window and the shared FIFO
  have in common, and generic lemmas on words, options and lists.
  A result \<open>None\<close> of a modelled operation stands for behaviour the C code leaves undefined
  (an access outside an array, a dereference of NULL) or for a loop that never returns; the
  properties show that it does not happen from well-formed states.
\<close>

unbundle bit_operations_syntax

type_synonym u8 = "8 word"
type_synonym u16 = "16 word"
type_synonym u32 = "32 word"
type_synonym u64 = "64 word"
type_synonym macaddr = "u8 list"

text \<open>Error numbers of the kernel that the code returns.\<close>

definition ENOENT :: int where "ENOENT = 2"
definition ENOMEM :: int where "ENOMEM = 12"
definition EEXIST :: int where "EEXIST = 17"
definition EINVAL :: int where "EINVAL = 22"

named_theorems ring_simps \<open>facts about circular counters and ring views\<close>
named_theorems w1_splits \<open>case splits used by unfolding proofs\<close>

section \<open>Checked array access\<close>

definition nth_opt :: "'a list \<Rightarrow> nat \<Rightarrow> 'a option" where
  "nth_opt xs i = (if i < length xs then Some (xs ! i) else None)"

lemma nth_opt_Some_iff: "nth_opt xs i = Some x \<longleftrightarrow> i < length xs \<and> xs ! i = x"
  by (simp add: nth_opt_def)

lemma nth_opt_None_iff: "nth_opt xs i = None \<longleftrightarrow> length xs \<le> i"
  by (simp add: nth_opt_def)

lemma nth_opt_in [simp]: "i < length xs \<Longrightarrow> nth_opt xs i = Some (xs ! i)"
  by (simp add: nth_opt_def)

lemma nth_opt_out [simp]: "length xs \<le> i \<Longrightarrow> nth_opt xs i = None"
  by (simp add: nth_opt_def)

section \<open>Words\<close>

lemma unat_ucast_up: "LENGTH('a) \<le> LENGTH('b) \<Longrightarrow> unat (ucast (x :: 'a::len word) :: 'b::len word) = unat x"
  unfolding unsigned_ucast_eq
  by (rule take_bit_nat_eq_self) (meson unsigned_less order_less_le_trans one_le_numeral power_increasing)

lemma unat_u8: "unat (x :: 8 word) < 256"
  by (rule order_less_le_trans [OF unsigned_less]) simp

lemma unat_u16: "unat (x :: 16 word) < 65536"
  by (rule order_less_le_trans [OF unsigned_less]) simp

section \<open>Circular counters\<close>

text \<open>
  \<^verbatim>\<open>CIRCLE_Add_One(d, t)\<close>, \<^verbatim>\<open>CIRCLE_Subtract2(a, b, l)\<close> and \<^verbatim>\<open>CIRCLE_Addition2(a, b, l)\<close>.
  The counters never leave \<open>0 .. t - 1\<close> in the code, so natural numbers lose nothing.
\<close>

definition CIRCLE_Add_One :: "nat \<Rightarrow> nat \<Rightarrow> nat" where
  "CIRCLE_Add_One d t = (if d = t - 1 then 0 else d + 1)"

definition CIRCLE_Subtract2 :: "int \<Rightarrow> int \<Rightarrow> int \<Rightarrow> int" where
  "CIRCLE_Subtract2 a b l = (if a > b then a - b else l + a - b)"

definition CIRCLE_Addition2 :: "nat \<Rightarrow> nat \<Rightarrow> nat \<Rightarrow> nat" where
  "CIRCLE_Addition2 a b l = (if a + b < l then a + b else a + b - l)"

lemma CIRCLE_Add_One_mod [ring_simps]: "d < t \<Longrightarrow> CIRCLE_Add_One d t = (d + 1) mod t"
  by (cases "d = t - 1") (auto simp: CIRCLE_Add_One_def)

lemma CIRCLE_Add_One_less [ring_simps]: "d < t \<Longrightarrow> CIRCLE_Add_One d t < t"
  by (auto simp: CIRCLE_Add_One_def)

lemma CIRCLE_Addition2_mod [ring_simps]:
  "a < l \<Longrightarrow> b \<le> l \<Longrightarrow> CIRCLE_Addition2 a b l = (a + b) mod l"
  by (auto simp: CIRCLE_Addition2_def mod_if)

lemma CIRCLE_Addition2_less: "a < l \<Longrightarrow> b \<le> l \<Longrightarrow> CIRCLE_Addition2 a b l < l"
  by (auto simp: CIRCLE_Addition2_def)

lemma int_and_mask_mod: "(x :: int) AND (2 ^ n - 1) = x mod 2 ^ n"
  by (simp add: take_bit_eq_mod flip: mask_eq_exp_minus_1 take_bit_eq_mask)

lemma int_and_4095: "(x :: int) AND 4095 = x mod 4096"
  using int_and_mask_mod [of x 12] by simp

lemma int_and_127: "(x :: int) AND 127 = x mod 128"
  using int_and_mask_mod [of x 7] by simp

section \<open>Distances on a circle\<close>

text \<open>\<open>cdist a b n\<close> is the number of increments that take \<open>a\<close> to \<open>b\<close> modulo \<open>n\<close>.\<close>

definition cdist :: "nat \<Rightarrow> nat \<Rightarrow> nat \<Rightarrow> nat" where
  "cdist a b n = nat ((int b - int a) mod int n)"

lemma cdist_less: "0 < n \<Longrightarrow> cdist a b n < n"
  unfolding cdist_def by (simp add: nat_less_iff)

lemma cdist_eq: "a < n \<Longrightarrow> b < n \<Longrightarrow> cdist a b n = (if a \<le> b then b - a else n + b - a)"
proof (cases "a \<le> b")
  case True
  assume "a < n" "b < n"
  with True show ?thesis by (simp add: cdist_def mod_pos_pos_trivial nat_diff_distrib)
next
  case False
  assume lt: "a < n" "b < n"
  have "(int b - int a) mod int n = (int b - int a + int n) mod int n" by simp
  also have "\<dots> = int b - int a + int n"
    by (rule mod_pos_pos_trivial) (use False lt in auto)
  finally show ?thesis using False lt by (simp add: cdist_def)
qed

lemma cdist_self [simp]: "cdist a a n = 0"
  by (simp add: cdist_def)

lemma cdist_0_iff: "a < n \<Longrightarrow> b < n \<Longrightarrow> cdist a b n = 0 \<longleftrightarrow> a = b"
  by (auto simp: cdist_eq)

lemma cdist_add [ring_simps]: "a < n \<Longrightarrow> d < n \<Longrightarrow> cdist a ((a + d) mod n) n = d"
  by (auto simp: cdist_eq mod_if)

lemma add_cdist [ring_simps]: "a < n \<Longrightarrow> b < n \<Longrightarrow> (a + cdist a b n) mod n = b"
  by (auto simp: cdist_eq mod_if)

lemma cdist_Suc [ring_simps]:
  assumes "a < n" "b < n" "a \<noteq> b"
  shows "cdist a b n = Suc (cdist ((a + 1) mod n) b n)"
proof (cases "a + 1 = n")
  case True
  with assms show ?thesis by (auto simp: cdist_eq)
next
  case False
  with assms have "(a + 1) mod n = a + 1" by simp
  with assms False show ?thesis by (auto simp: cdist_eq)
qed

section \<open>Ring views of an array\<close>

text \<open>The \<open>k\<close> slots of \<open>ds\<close> that start at \<open>h\<close>, going round the end of the array.\<close>

definition ring_view :: "'a list \<Rightarrow> nat \<Rightarrow> nat \<Rightarrow> 'a list" where
  "ring_view ds h k = map (\<lambda>i. ds ! ((h + i) mod length ds)) [0..<k]"

lemma length_ring_view [simp]: "length (ring_view ds h k) = k"
  by (simp add: ring_view_def)

lemma nth_ring_view [simp]: "i < k \<Longrightarrow> ring_view ds h k ! i = ds ! ((h + i) mod length ds)"
  by (simp add: ring_view_def)

lemma ring_view_0 [simp]: "ring_view ds h 0 = []"
  by (simp add: ring_view_def)

lemma ring_view_Suc:
  "h < length ds \<Longrightarrow> ring_view ds h (Suc k) = ds ! h # ring_view ds ((h + 1) mod length ds) k"
  by (rule nth_equalityI) (auto simp: nth_Cons mod_simps split: nat.splits)

lemma ring_view_append:
  "ring_view ds h (k + m) = ring_view ds h k @ ring_view ds ((h + k) mod length ds) m"
proof (rule nth_equalityI)
  fix i assume "i < length (ring_view ds h (k + m))"
  then have i: "i < k + m" by simp
  show "ring_view ds h (k + m) ! i = (ring_view ds h k @ ring_view ds ((h + k) mod length ds) m) ! i"
  proof (cases "i < k")
    case True
    with i show ?thesis by (simp add: nth_append)
  next
    case False
    have "((h + k) mod length ds + (i - k)) mod length ds = (h + k + (i - k)) mod length ds"
      by (rule mod_add_left_eq)
    with False have "((h + k) mod length ds + (i - k)) mod length ds = (h + i) mod length ds"
      by simp
    with False i show ?thesis by (simp add: nth_append)
  qed
qed simp

lemma mod_add_mid: "(x + n + i) mod n = (x + i) mod (n::nat)"
  by (metis add.assoc add.commute mod_add_self2)

lemma mod_add_inj:
  assumes "i < n" "j < n" "(h + i) mod n = (h + j) mod (n::nat)"
  shows "i = j"
proof -
  have "int n dvd int (h + i) - int (h + j)"
    using assms(3) by (metis mod_eq_dvd_iff zmod_int)
  then have "int n dvd int i - int j" by simp
  with assms(1,2) show ?thesis
    by (metis nat_int mod_pos_pos_trivial of_nat_0_le_iff of_nat_less_iff mod_eq_dvd_iff)
qed

lemma ring_view_update_in:
  assumes "i < k" "k \<le> length ds"
  shows "ring_view (ds[(h + i) mod length ds := x]) h k = (ring_view ds h k)[i := x]"
proof (rule nth_equalityI)
  fix j assume j: "j < length (ring_view (ds[(h + i) mod length ds := x]) h k)"
  with assms have "0 < length ds" by auto
  then have lt: "(h + j) mod length ds < length ds" by simp
  show "ring_view (ds[(h + i) mod length ds := x]) h k ! j = (ring_view ds h k)[i := x] ! j"
  proof (cases "i = j")
    case True
    with j lt show ?thesis by simp
  next
    case False
    with assms j have "(h + i) mod length ds \<noteq> (h + j) mod length ds"
      using mod_add_inj [of i "length ds" j h] by auto
    with False j show ?thesis by simp
  qed
qed simp

lemma ring_view_update_out:
  assumes "k \<le> i" "i < length ds"
  shows "ring_view (ds[(h + i) mod length ds := x]) h k = ring_view ds h k"
proof (rule nth_equalityI)
  fix j assume j: "j < length (ring_view (ds[(h + i) mod length ds := x]) h k)"
  with assms have "(h + i) mod length ds \<noteq> (h + j) mod length ds"
    using mod_add_inj [of i "length ds" j h] by auto
  with j show "ring_view (ds[(h + i) mod length ds := x]) h k ! j = ring_view ds h k ! j"
    by simp
qed simp

section \<open>Queues of optional entries\<close>

fun somes :: "'a option list \<Rightarrow> 'a list" where
  "somes [] = []"
| "somes (None # xs) = somes xs"
| "somes (Some x # xs) = x # somes xs"

lemma somes_append [simp]: "somes (xs @ ys) = somes xs @ somes ys"
  by (induction xs rule: somes.induct) auto

lemma somes_replicate_None [simp]: "somes (replicate n None) = []"
  by (induction n) auto

lemma somes_Cons: "somes (x # xs) = (case x of None \<Rightarrow> somes xs | Some y \<Rightarrow> y # somes xs)"
  by (cases x) auto

lemma set_somes: "set (somes xs) = {x. Some x \<in> set xs}"
  by (induction xs rule: somes.induct) auto

lemma somes_Nil_iff: "somes xs = [] \<longleftrightarrow> (\<forall>x \<in> set xs. x = None)"
  by (induction xs rule: somes.induct) auto

lemma somes_map_Some [simp]: "somes (map Some xs) = xs"
  by (induction xs) auto

text \<open>\<open>shift m w\<close>: a window of fixed length that has moved \<open>m\<close> places to the right.\<close>

definition shift :: "nat \<Rightarrow> 'a option list \<Rightarrow> 'a option list" where
  "shift m w = map (\<lambda>i. if i + m < length w then w ! (i + m) else None) [0..<length w]"

lemma length_shift [simp]: "length (shift m w) = length w"
  by (simp add: shift_def)

lemma nth_shift [simp]: "i < length w \<Longrightarrow> shift m w ! i = (if i + m < length w then w ! (i + m) else None)"
  by (simp add: shift_def)

lemma shift_0 [simp]: "shift 0 w = w"
  by (rule nth_equalityI) simp_all

lemma shift_shift: "shift n (shift m w) = shift (m + n) w"
  by (rule nth_equalityI) (auto simp: add_ac)

lemma shift_drop: "shift m w = drop m w @ replicate (min m (length w)) None"
  by (rule nth_equalityI) (auto simp: nth_append min_def add_ac)

lemma take_shift: "somes (take n (shift m w)) = somes (take n (drop m w))"
  by (simp add: shift_drop)

lemma somes_take_add: "somes (take (m + n) w) = somes (take m w) @ somes (take n (shift m w))"
  by (simp add: take_add take_shift)

section \<open>Copies between arrays\<close>

text \<open>\<open>memcpy\<close> from and to an array, with its bounds: reading \<open>n\<close> entries from \<open>off\<close>, and
  writing a list at \<open>off\<close>.\<close>

definition slice :: "'a list \<Rightarrow> nat \<Rightarrow> nat \<Rightarrow> 'a list option" where
  "slice xs off n = (if off + n \<le> length xs then Some (take n (drop off xs)) else None)"

definition overlay :: "'a list \<Rightarrow> nat \<Rightarrow> 'a list \<Rightarrow> 'a list option" where
  "overlay arr off xs =
     (if off + length xs \<le> length arr
      then Some (take off arr @ xs @ drop (off + length xs) arr) else None)"

lemma slice_Some_iff: "slice xs off n = Some ys \<longleftrightarrow> off + n \<le> length xs \<and> ys = take n (drop off xs)"
  by (auto simp: slice_def)

lemma length_slice: "slice xs off n = Some ys \<Longrightarrow> length ys = n"
  by (auto simp: slice_Some_iff)

lemma length_overlay: "overlay arr off xs = Some ys \<Longrightarrow> length ys = length arr"
  by (auto simp: overlay_def split: if_splits)

lemma overlay_0: "length xs \<le> length arr \<Longrightarrow> overlay arr 0 xs = Some (xs @ drop (length xs) arr)"
  by (simp add: overlay_def)

section \<open>Loops that may fail\<close>

text \<open>A \<open>for\<close> loop over \<open>xs\<close> whose body may hit undefined behaviour, and its invariant rule.\<close>

fun foldo :: "('a \<Rightarrow> 's \<Rightarrow> 's option) \<Rightarrow> 'a list \<Rightarrow> 's \<Rightarrow> 's option" where
  "foldo f [] s = Some s"
| "foldo f (x # xs) s = (case f x s of None \<Rightarrow> None | Some s' \<Rightarrow> foldo f xs s')"

lemma foldo_append: "foldo f (xs @ ys) s = (case foldo f xs s of None \<Rightarrow> None | Some s' \<Rightarrow> foldo f ys s')"
  by (induction xs arbitrary: s) (auto split: option.splits)

lemma foldo_invariant:
  assumes "P s" and "\<And>x s. x \<in> set xs \<Longrightarrow> P s \<Longrightarrow> \<exists>s'. f x s = Some s' \<and> P s'"
  shows "\<exists>s'. foldo f xs s = Some s' \<and> P s'"
  using assms
proof (induction xs arbitrary: s)
  case (Cons x xs)
  from Cons.prems(2) [of x s] Cons.prems(1) obtain s1 where s1: "f x s = Some s1" "P s1" by auto
  with Cons.IH [of s1] Cons.prems(2) show ?case by simp
qed simp

text \<open>The same with a budget: step \<open>x\<close> may spend \<open>w x\<close>.\<close>

lemma foldo_budget:
  assumes "P s (sum_list (map w xs) + b)"
    and "\<And>x s b. x \<in> set xs \<Longrightarrow> P s (w x + b) \<Longrightarrow> \<exists>s'. f x s = Some s' \<and> P s' b"
  shows "\<exists>s'. foldo f xs s = Some s' \<and> P s' b"
  using assms
proof (induction xs arbitrary: s)
  case (Cons x xs)
  have "P s (w x + (sum_list (map w xs) + b))" using Cons.prems(1) by (simp add: add.assoc)
  from Cons.prems(2) [OF _ this] obtain s1 where s1: "f x s = Some s1" "P s1 (sum_list (map w xs) + b)" by auto
  with Cons.IH [of s1] Cons.prems(2) show ?case by simp
qed simp

lemma foldo_stable:
  assumes "foldo f xs s = Some s'" "Q s" and "\<And>y s s'. y \<in> set xs \<Longrightarrow> Q s \<Longrightarrow> f y s = Some s' \<Longrightarrow> Q s'"
  shows "Q s'"
  using assms
proof (induction xs arbitrary: s)
  case (Cons y ys)
  from Cons.prems(1) obtain s1 where s1: "f y s = Some s1" "foldo f ys s1 = Some s'" by (auto split: option.splits)
  from Cons.prems(3) [OF _ Cons.prems(2) s1(1)] have q1: "Q s1" by simp
  show ?case
  proof (rule Cons.IH [OF s1(2) q1])
    fix z u u' assume "z \<in> set ys" "Q u" "f z u = Some u'"
    then show "Q u'" by (intro Cons.prems(3) [of z u u']) simp_all
  qed
qed simp

text \<open>What one step establishes and every step keeps holds at the end.\<close>

lemma foldo_establish:
  assumes "foldo f xs s = Some s'" "x \<in> set xs"
    and keep: "\<And>y s s'. y \<in> set xs \<Longrightarrow> Q s \<Longrightarrow> f y s = Some s' \<Longrightarrow> Q s'"
    and est: "\<And>s s'. f x s = Some s' \<Longrightarrow> Q s'"
  shows "Q s'"
  using assms(1,2) keep
proof (induction xs arbitrary: s)
  case (Cons y ys)
  from Cons.prems(1) obtain s1 where s1: "f y s = Some s1" "foldo f ys s1 = Some s'" by (auto split: option.splits)
  show ?case
  proof (cases "x = y")
    case True
    with est s1 have "Q s1" by blast
    show ?thesis
    proof (rule foldo_stable [where Q = Q, OF s1(2) \<open>Q s1\<close>])
      fix z u u' assume "z \<in> set ys" "Q u" "f z u = Some u'"
      then show "Q u'" by (intro Cons.prems(3) [of z u u']) simp_all
    qed
  next
    case False
    with Cons.prems(2) have x: "x \<in> set ys" by simp
    show ?thesis
    proof (rule Cons.IH [OF s1(2) x])
      fix z u u' assume "z \<in> set ys" "Q u" "f z u = Some u'"
      then show "Q u'" by (intro Cons.prems(3) [of z u u']) simp_all
    qed
  qed
qed simp

text \<open>Reading an array at a signed index.\<close>

definition nth_int :: "'a list \<Rightarrow> int \<Rightarrow> 'a option" where
  "nth_int xs i = (if 0 \<le> i then nth_opt xs (nat i) else None)"

lemma nth_int_Some_iff: "nth_int xs i = Some x \<longleftrightarrow> 0 \<le> i \<and> nat i < length xs \<and> xs ! nat i = x"
  by (simp add: nth_int_def nth_opt_Some_iff)

text \<open>The value of a plain \<open>char\<close> whose initialiser is \<open>x\<close>, on a compiler where \<open>char\<close> is signed
  (\<open>sg\<close>) or not.\<close>

definition c_char :: "bool \<Rightarrow> int \<Rightarrow> int" where
  "c_char sg x = (if sg \<and> 128 \<le> x then x - 256 else x)"

lemma c_char_False [simp]: "c_char False x = x"
  by (simp add: c_char_def)

end
