(* ===== verification/SlotChannel.thy ===== *)
theory SlotChannel
  imports Main
begin

text \<open>
  The interface between a bounded pool of slots that two parties share and the code that passes
  values through it: the producer sends the next free slot, the consumer takes the oldest slot
  in use and returns it when it is done. The locale states what the pool promises; the lemmas
  proved from it say what a client sees when it writes a value into a slot before sending it,
  and reads the slot after taking it: a bounded first-in first-out queue of values.
\<close>

locale slot_channel =
  fixes ok :: "'s \<Rightarrow> bool"
    and free :: "'s \<Rightarrow> 'p list"
    and used :: "'s \<Rightarrow> 'p list"
    and busy :: "'s \<Rightarrow> 'p list"
    and send :: "'s \<Rightarrow> ('p \<times> 's) option"
    and recv :: "'s \<Rightarrow> ('p \<times> 's) option"
    and release :: "'s \<Rightarrow> 's option"
    and cap :: "'s \<Rightarrow> nat"
  assumes apart: "ok s \<Longrightarrow> distinct (busy s @ used s @ free s)"
    and capacity: "ok s \<Longrightarrow> length (busy s @ used s @ free s) = cap s"
    and send_full: "ok s \<Longrightarrow> free s = [] \<Longrightarrow> send s = None"
    and send_slot: "ok s \<Longrightarrow> free s = p # ps \<Longrightarrow> \<exists>t. send s = Some (p, t) \<and> ok t \<and> free t = ps
      \<and> used t = used s @ [p] \<and> busy t = busy s \<and> cap t = cap s"
    and recv_slot: "ok s \<Longrightarrow> used s = p # ps \<Longrightarrow> \<exists>t. recv s = Some (p, t) \<and> ok t \<and> used t = ps
      \<and> busy t = busy s @ [p] \<and> free t = free s \<and> cap t = cap s"
    and release_slot: "ok s \<Longrightarrow> busy s = p # ps \<Longrightarrow> \<exists>t. release s = Some t \<and> ok t
      \<and> busy t = ps \<and> used t = used s \<and> cap t = cap s"
begin

text \<open>A write to the slot being sent shows at the end of the queue and nowhere else.\<close>

lemma send_contents:
  assumes ok: "ok s" and s: "send s = Some (p, t)"
  shows "ok t" and "map (m(p := v)) (used t) = map m (used s) @ [v]"
    and "map (m(p := v)) (busy t) = map m (busy s)" and "busy t = busy s" and "cap t = cap s"
    and "length (free s) = Suc (length (free t))"
proof -
  have "free s \<noteq> []" using send_full [OF ok] s by auto
  then obtain q ps where f: "free s = q # ps" by (cases "free s") auto
  from send_slot [OF ok f] s have t: "ok t" "used t = used s @ [p]" "busy t = busy s"
    "free t = ps" "cap t = cap s" "q = p" by auto
  then have "p \<notin> set (used s)" "p \<notin> set (busy s)" using apart [OF ok] f by auto
  with t show "ok t" "map (m(p := v)) (used t) = map m (used s) @ [v]"
    "map (m(p := v)) (busy t) = map m (busy s)" "busy t = busy s" "cap t = cap s"
    "length (free s) = Suc (length (free t))"
    by (auto simp: f)
qed

lemma send_iff: "ok s \<Longrightarrow> (\<exists>p t. send s = Some (p, t)) \<longleftrightarrow> length (used s) + length (busy s) < cap s"
  using capacity [of s] send_full [of s] send_slot [of s] by (cases "free s") fastforce+

lemma recv_contents:
  assumes ok: "ok s" and u: "map m (used s) = v # vs"
  shows "\<exists>p t. recv s = Some (p, t) \<and> ok t \<and> m p = v \<and> map m (used t) = vs
    \<and> busy t = busy s @ [p] \<and> cap t = cap s"
proof -
  obtain p ps where p: "used s = p # ps" "m p = v" "map m ps = vs" using u by auto
  with recv_slot [OF ok p(1)] show ?thesis by auto
qed

end

end
