(* ===== verification/SharedFifo.thy ===== *)
theory SharedFifo
  imports Prelude SlotChannel
begin

text \<open>
  The general shared FIFO of \<^verbatim>\<open>wifi_share_fifo.c\<close>/\<^verbatim>\<open>wifi_share_fifo.h\<close>: one pool of
  \<open>EltNbr\<close> elements travels round \<open>BlockNbr\<close> blocks; a block gets elements at its \<open>Out\<close>
  index and puts them at the \<open>In\<close> index of the next block. Indices are \<^verbatim>\<open>unsigned int\<close>
  and kept at 32 bits. The critical-section macros only serialise the operations, so each
  operation is one atomic function on the control block; \<^verbatim>\<open>ASSERT\<close> only prints and has no
  effect. An access of \<open>IdxTab\<close> (four entries) beyond its end is \<open>None\<close>.
  The lemmas show that the blocks always own disjoint parts of the pool, that no element is
  lost or duplicated, and that a block sees the elements in the order its predecessor put them.
\<close>

section \<open>The control block\<close>

datatype co_status = CO_STATUS_OK | CO_FAIL | CO_BAD_PARAM | CO_NO_ELT_IN_USE | CO_IDX_OUT_OF_RANGE

definition CO_SF_PROD_ID :: u8 where
  "CO_SF_PROD_ID = 0"

definition CO_SF_BLOCK_DEF_NBR :: nat where
  "CO_SF_BLOCK_DEF_NBR = 2"

record sf_block_idx =
  Flag :: u32
  In :: u32
  Out :: u32

record shared_fifo =
  EltBasePhy :: u64
  EltBasePtr :: u64
  EltNbr :: u32
  EltSize :: u32
  BlockNbr :: u32
  IdxTab :: "sf_block_idx list"

section \<open>The operations\<close>

fun sf_init_blocks :: "nat \<Rightarrow> sf_block_idx list \<Rightarrow> sf_block_idx list" where
  "sf_init_blocks 0 tab = tab"
| "sf_init_blocks (Suc n) tab = (sf_init_blocks n tab)[n := \<lparr>Flag = 0, In = 1, Out = 1\<rparr>]"

definition CO_SharedFifoInit ::
    "shared_fifo \<Rightarrow> u64 \<Rightarrow> u64 \<Rightarrow> u32 \<Rightarrow> u32 \<Rightarrow> u8 \<Rightarrow> shared_fifo option" where
  "CO_SharedFifoInit f basePhy basePtr eltNbr eltSize blockNbr =
     (if unat blockNbr > length (IdxTab f) then None
      else
        let tab = sf_init_blocks (unat blockNbr) (IdxTab f) in
        case nth_opt tab (unat CO_SF_PROD_ID) of
          None \<Rightarrow> None
        | Some b \<Rightarrow> Some \<lparr>EltBasePhy = basePhy, EltBasePtr = basePtr, EltNbr = eltNbr,
                         EltSize = eltSize, BlockNbr = ucast blockNbr,
                         IdxTab = tab[unat CO_SF_PROD_ID := b\<lparr>In := 0\<rparr>]\<rparr>)"

definition CO_SharedFifoGetPtr :: "shared_fifo \<Rightarrow> u32 \<Rightarrow> u64" where
  "CO_SharedFifoGetPtr f idx = EltBasePtr f + ucast (idx * EltSize f)"

definition CO_SharedFifoGetInBlockIdxPtr :: "shared_fifo \<Rightarrow> u8 \<Rightarrow> sf_block_idx option" where
  "CO_SharedFifoGetInBlockIdxPtr f blockID = nth_opt (IdxTab f) (unat blockID)"

definition CO_SharedFifoPick :: "shared_fifo \<Rightarrow> u8 \<Rightarrow> u64 option" where
  "CO_SharedFifoPick f blockID =
     map_option (\<lambda>b. EltBasePtr f + ucast (Out b * EltSize f)) (nth_opt (IdxTab f) (unat blockID))"

definition CO_SharedFifoNbElt :: "shared_fifo \<Rightarrow> u8 \<Rightarrow> u32 option" where
  "CO_SharedFifoNbElt f blockID =
     (case nth_opt (IdxTab f) (unat blockID) of
        None \<Rightarrow> None
      | Some b \<Rightarrow>
          let n = EltNbr f + In b - Out b in
          Some (if n \<ge> EltNbr f then n - EltNbr f else n))"

definition CO_SharedFifoNbEltCont_NonRound :: "shared_fifo \<Rightarrow> u8 \<Rightarrow> u32 option" where
  "CO_SharedFifoNbEltCont_NonRound f blockID =
     (case nth_opt (IdxTab f) (unat blockID) of
        None \<Rightarrow> None
      | Some b \<Rightarrow> Some (if In b \<ge> Out b then In b - Out b else EltNbr f - Out b))"

definition CO_SharedFifoNbEltCont :: "shared_fifo \<Rightarrow> u8 \<Rightarrow> u32 option" where
  "CO_SharedFifoNbEltCont f blockID =
     (case nth_opt (IdxTab f) (unat blockID) of
        None \<Rightarrow> None
      | Some b \<Rightarrow> Some (if In b \<ge> Out b then In b - Out b else EltNbr f + (In b - Out b)))"

definition CO_SharedFifoEmpty :: "shared_fifo \<Rightarrow> u8 \<Rightarrow> bool option" where
  "CO_SharedFifoEmpty f blockID =
     map_option (\<lambda>b. In b \<noteq> Out b) (nth_opt (IdxTab f) (unat blockID))"

text \<open>The shift both index updates share: \<open>TmpIdx\<close>, reduced once by \<open>EltNbr\<close>.\<close>

definition sf_shift :: "shared_fifo \<Rightarrow> u32 \<Rightarrow> u32 \<Rightarrow> u32" where
  "sf_shift f idx nbElt =
     (let tmpIdx = idx + nbElt in if tmpIdx \<ge> EltNbr f then tmpIdx - EltNbr f else tmpIdx)"

definition set_blk :: "shared_fifo \<Rightarrow> u8 \<Rightarrow> sf_block_idx \<Rightarrow> shared_fifo" where
  "set_blk f blockID b = f\<lparr>IdxTab := (IdxTab f)[unat blockID := b]\<rparr>"

text \<open>The returned pointer is an address; \<open>0\<close> is NULL.\<close>

definition CO_SharedFifoGet_NoCritSect ::
    "shared_fifo \<Rightarrow> u8 \<Rightarrow> u32 \<Rightarrow> (co_status \<times> u64 \<times> shared_fifo) option" where
  "CO_SharedFifoGet_NoCritSect f blockID nbElt =
     (case nth_opt (IdxTab f) (unat blockID) of
        None \<Rightarrow> None
      | Some b \<Rightarrow>
        (case CO_SharedFifoNbEltCont f blockID of
           None \<Rightarrow> None
         | Some nbBlocElt \<Rightarrow>
             if nbElt > nbBlocElt then Some (CO_NO_ELT_IN_USE, 0, f)
             else Some (CO_STATUS_OK, CO_SharedFifoGetPtr f (Out b),
                        set_blk f blockID (b\<lparr>Out := sf_shift f (Out b) nbElt\<rparr>))))"

definition CO_SharedFifoGet ::
    "shared_fifo \<Rightarrow> u8 \<Rightarrow> u32 \<Rightarrow> (co_status \<times> u64 \<times> shared_fifo) option" where
  "CO_SharedFifoGet f blockID nbElt = CO_SharedFifoGet_NoCritSect f blockID nbElt"

text \<open>\<open>ret\<close> is the caller's \<^verbatim>\<open>*ReturnEltPtr\<close>, which the success branch leaves alone.\<close>

definition CO_SharedFifo_Pre_Get_NoCritSect ::
    "shared_fifo \<Rightarrow> u8 \<Rightarrow> u32 \<Rightarrow> u64 \<Rightarrow> (co_status \<times> u64) option" where
  "CO_SharedFifo_Pre_Get_NoCritSect f blockID nbElt ret =
     (case nth_opt (IdxTab f) (unat blockID) of
        None \<Rightarrow> None
      | Some b \<Rightarrow>
        (case CO_SharedFifoNbEltCont f blockID of
           None \<Rightarrow> None
         | Some nbBlocElt \<Rightarrow>
             if nbElt > nbBlocElt then Some (CO_NO_ELT_IN_USE, 0)
             else if Out b = 0 then Some (CO_IDX_OUT_OF_RANGE, ret)
             else Some (CO_STATUS_OK, ret)))"

definition CO_SharedFifo_Pre_Get ::
    "shared_fifo \<Rightarrow> u8 \<Rightarrow> u32 \<Rightarrow> u64 \<Rightarrow> (co_status \<times> u64) option" where
  "CO_SharedFifo_Pre_Get f blockID nbElt ret = CO_SharedFifo_Pre_Get_NoCritSect f blockID nbElt ret"

definition CO_SharedFifoGetNElt :: "shared_fifo \<Rightarrow> u8 \<Rightarrow> u32 \<Rightarrow> (u64 \<times> shared_fifo) option" where
  "CO_SharedFifoGetNElt f blockID nbElt =
     (case nth_opt (IdxTab f) (unat blockID) of
        None \<Rightarrow> None
      | Some b \<Rightarrow> Some (CO_SharedFifoGetPtr f (Out b),
                       set_blk f blockID (b\<lparr>Out := sf_shift f (Out b) nbElt\<rparr>)))"

definition sf_next_block :: "shared_fifo \<Rightarrow> u8 \<Rightarrow> u8" where
  "sf_next_block f blockID = (if ucast (blockID + 1) = BlockNbr f then CO_SF_PROD_ID else blockID + 1)"

definition CO_SharedFifoPut_NoCritSect ::
    "shared_fifo \<Rightarrow> u8 \<Rightarrow> u32 \<Rightarrow> (co_status \<times> shared_fifo) option" where
  "CO_SharedFifoPut_NoCritSect f blockID nbElt =
     (let nextBlockID = sf_next_block f blockID in
      case CO_SharedFifoGetInBlockIdxPtr f nextBlockID of
        None \<Rightarrow> None
      | Some b \<Rightarrow> Some (CO_STATUS_OK,
                       set_blk f nextBlockID (b\<lparr>In := sf_shift f (In b) nbElt\<rparr>)))"

definition CO_SharedFifoPut :: "shared_fifo \<Rightarrow> u8 \<Rightarrow> u32 \<Rightarrow> (co_status \<times> shared_fifo) option" where
  "CO_SharedFifoPut f blockID nbElt = CO_SharedFifoPut_NoCritSect f blockID nbElt"

section \<open>Well-formed control blocks\<close>

text \<open>
  \<open>EltNbr\<close> is at most \<open>2 ^ 31\<close>, so the 32-bit sums do not wrap, and both indices of every
  block in use are below it.
\<close>

definition sf_wf :: "shared_fifo \<Rightarrow> bool" where
  "sf_wf f \<longleftrightarrow> length (IdxTab f) = CO_SF_BLOCK_DEF_NBR + 2 \<and> 0 < unat (BlockNbr f)
     \<and> unat (BlockNbr f) \<le> length (IdxTab f)
     \<and> 1 < unat (EltNbr f) \<and> unat (EltNbr f) \<le> 2 ^ 31
     \<and> (\<forall>b < unat (BlockNbr f). unat (In (IdxTab f ! b)) < unat (EltNbr f)
                              \<and> unat (Out (IdxTab f ! b)) < unat (EltNbr f))"

abbreviation sf_in :: "shared_fifo \<Rightarrow> nat \<Rightarrow> nat" where
  "sf_in f b \<equiv> unat (In (IdxTab f ! b))"

abbreviation sf_out :: "shared_fifo \<Rightarrow> nat \<Rightarrow> nat" where
  "sf_out f b \<equiv> unat (Out (IdxTab f ! b))"

text \<open>The number of elements of block \<open>b\<close>, as the circular distance of its two indices.\<close>

definition sf_cnt :: "shared_fifo \<Rightarrow> nat \<Rightarrow> nat" where
  "sf_cnt f b = cdist (sf_out f b) (sf_in f b) (unat (EltNbr f))"

lemma sf_wfD:
  assumes "sf_wf f"
  shows "length (IdxTab f) = 4" "0 < unat (BlockNbr f)" "unat (BlockNbr f) \<le> 4"
    "1 < unat (EltNbr f)" "unat (EltNbr f) \<le> 2 ^ 31"
    "\<And>b. b < unat (BlockNbr f) \<Longrightarrow> sf_in f b < unat (EltNbr f)"
    "\<And>b. b < unat (BlockNbr f) \<Longrightarrow> sf_out f b < unat (EltNbr f)"
  using assms by (auto simp: sf_wf_def CO_SF_BLOCK_DEF_NBR_def)

lemma unat_add_nowrap:
  assumes "unat (a::u32) < 2 ^ 31" "unat (b::u32) \<le> 2 ^ 31"
  shows "unat (a + b) = unat a + unat b"
  using assms by (simp add: unat_word_ariths)

lemma unat_sf_shift:
  assumes "unat (EltNbr f) \<le> 2 ^ 31" "unat idx < unat (EltNbr f)" "unat n \<le> unat (EltNbr f)"
  shows "unat (sf_shift f idx n) = (unat idx + unat n) mod unat (EltNbr f)"
proof -
  have sum: "unat (idx + n) = unat idx + unat n"
    by (rule unat_add_nowrap) (use assms in linarith)+
  show ?thesis
  proof (cases "idx + n \<ge> EltNbr f")
    case True
    then have "unat (EltNbr f) \<le> unat idx + unat n"
      using sum by (simp add: word_le_nat_alt)
    with True sum assms show ?thesis
      by (simp add: sf_shift_def Let_def unat_sub mod_if)
  next
    case False
    then have "unat idx + unat n < unat (EltNbr f)"
      using sum by (simp add: word_le_nat_alt)
    with False sum show ?thesis by (simp add: sf_shift_def Let_def)
  qed
qed

lemma sf_shift_less:
  assumes "unat (EltNbr f) \<le> 2 ^ 31" "unat idx < unat (EltNbr f)" "unat n \<le> unat (EltNbr f)"
  shows "unat (sf_shift f idx n) < unat (EltNbr f)"
proof -
  have "0 < unat (EltNbr f)" using assms(2) by simp
  then show ?thesis by (simp only: unat_sf_shift [OF assms] mod_less_divisor)
qed

section \<open>Element counts\<close>

lemma CO_SharedFifoNbEltCont_cnt:
  assumes wf: "sf_wf f" and b: "unat b < unat (BlockNbr f)"
  shows "\<exists>n. CO_SharedFifoNbEltCont f b = Some n \<and> unat n = sf_cnt f (unat b)"
proof -
  let ?x = "IdxTab f ! unat b"
  note w = sf_wfD [OF wf]
  have lt: "unat (In ?x) < unat (EltNbr f)" "unat (Out ?x) < unat (EltNbr f)"
    using w(6,7) b by auto
  have len: "unat b < length (IdxTab f)" using w b by linarith
  show ?thesis
  proof (cases "In ?x \<ge> Out ?x")
    case True
    then have le: "unat (Out ?x) \<le> unat (In ?x)" by (simp add: word_le_nat_alt)
    have "unat (In ?x - Out ?x) = sf_cnt f (unat b)"
      using True le lt by (simp add: unat_sub sf_cnt_def cdist_eq)
    with True len show ?thesis by (simp add: CO_SharedFifoNbEltCont_def)
  next
    case False
    then have gt: "unat (In ?x) < unat (Out ?x)" by (simp add: word_le_nat_alt)
    have eq: "EltNbr f + (In ?x - Out ?x) = EltNbr f - (Out ?x - In ?x)" by simp
    have d: "unat (Out ?x - In ?x) = unat (Out ?x) - unat (In ?x)"
      using gt by (simp add: unat_sub word_le_nat_alt)
    then have "Out ?x - In ?x \<le> EltNbr f"
      using lt by (simp add: word_le_nat_alt)
    then have "unat (EltNbr f - (Out ?x - In ?x)) = unat (EltNbr f) - (unat (Out ?x) - unat (In ?x))"
      using d by (simp add: unat_sub)
    also have "\<dots> = sf_cnt f (unat b)" using gt lt by (simp add: sf_cnt_def cdist_eq)
    finally have "unat (EltNbr f + (In ?x - Out ?x)) = sf_cnt f (unat b)" by (simp only: eq)
    with False len show ?thesis by (simp add: CO_SharedFifoNbEltCont_def)
  qed
qed

lemma CO_SharedFifoNbElt_cnt:
  assumes wf: "sf_wf f" and b: "unat b < unat (BlockNbr f)"
  shows "\<exists>n. CO_SharedFifoNbElt f b = Some n \<and> unat n = sf_cnt f (unat b)"
proof -
  let ?x = "IdxTab f ! unat b" and ?n = "EltNbr f"
  note w = sf_wfD [OF wf]
  have lt: "unat (In ?x) < unat ?n" "unat (Out ?x) < unat ?n" using w(6,7) b by auto
  have len: "unat b < length (IdxTab f)" using w b by linarith
  have s: "unat (In ?x + ?n) = unat (In ?x) + unat ?n"
    by (rule unat_add_nowrap) (use w lt in linarith)+
  have "Out ?x \<le> In ?x + ?n" using s lt by (simp add: word_le_nat_alt)
  then have d: "unat (?n + In ?x - Out ?x) = unat ?n + unat (In ?x) - unat (Out ?x)"
    using s by (simp add: unat_sub add.commute)
  show ?thesis
  proof (cases "?n + In ?x - Out ?x \<ge> ?n")
    case True
    then have "unat ?n \<le> unat ?n + unat (In ?x) - unat (Out ?x)" using d by (simp add: word_le_nat_alt)
    with lt have le: "unat (Out ?x) \<le> unat (In ?x)" by linarith
    have "unat (?n + In ?x - Out ?x - ?n) = unat ?n + unat (In ?x) - unat (Out ?x) - unat ?n"
      by (simp only: unat_sub [OF True] d)
    then have "unat (?n + In ?x - Out ?x - ?n) = sf_cnt f (unat b)"
      using le lt by (simp add: sf_cnt_def cdist_eq)
    with True len show ?thesis by (simp add: CO_SharedFifoNbElt_def Let_def)
  next
    case False
    then have "unat ?n + unat (In ?x) - unat (Out ?x) < unat ?n" using d by (simp add: word_le_nat_alt)
    with lt have "\<not> unat (Out ?x) \<le> unat (In ?x)" by linarith
    with d lt have "unat (?n + In ?x - Out ?x) = sf_cnt f (unat b)"
      by (simp add: sf_cnt_def cdist_eq)
    with False len show ?thesis by (simp add: CO_SharedFifoNbElt_def Let_def)
  qed
qed

section \<open>The pool as queues of slots\<close>

text \<open>
  A block owns a queue of pool indices (\<open>sf_slots\<close>). Between a get and the matching put it
  holds further ones, whose number the driver's callers track; \<open>held\<close> counts them.
\<close>

definition sf_slots :: "shared_fifo \<Rightarrow> nat \<Rightarrow> nat list" where
  "sf_slots f b = map (\<lambda>i. (sf_out f b + i) mod unat (EltNbr f)) [0..<sf_cnt f b]"

record sf_sys =
  fifo :: shared_fifo
  held :: "nat \<Rightarrow> nat"

abbreviation sf_k :: "sf_sys \<Rightarrow> nat" where
  "sf_k s \<equiv> unat (BlockNbr (fifo s))"

abbreviation sf_n :: "sf_sys \<Rightarrow> nat" where
  "sf_n s \<equiv> unat (EltNbr (fifo s))"

definition sf_next :: "nat \<Rightarrow> nat \<Rightarrow> nat" where
  "sf_next k b = (if b + 1 = k then 0 else b + 1)"

text \<open>
  The held slots are those just before \<open>Out\<close>. One slot belongs to nobody: it is the one at the
  producer's \<open>In\<close> index, kept empty so that a full queue differs from an empty one.
\<close>

definition sf_held_slots :: "sf_sys \<Rightarrow> nat \<Rightarrow> nat list" where
  "sf_held_slots s b =
     map (\<lambda>i. (sf_out (fifo s) b + (sf_n s - held s b) + i) mod sf_n s) [0..<held s b]"

definition sf_spare :: "sf_sys \<Rightarrow> nat" where
  "sf_spare s = sf_in (fifo s) 0"

text \<open>Steps of the callers: a successful get, and a put of elements got before.\<close>

inductive sf_step :: "sf_sys \<Rightarrow> sf_sys \<Rightarrow> bool" where
  get: "unat b < sf_k s \<Longrightarrow> CO_SharedFifoGet (fifo s) b n = Some (CO_STATUS_OK, p, f') \<Longrightarrow>
    sf_step s (s\<lparr>fifo := f', held := (held s)(unat b := held s (unat b) + unat n)\<rparr>)"
| put: "unat b < sf_k s \<Longrightarrow> unat n \<le> held s (unat b) \<Longrightarrow>
    CO_SharedFifoPut (fifo s) b n = Some (CO_STATUS_OK, f') \<Longrightarrow>
    sf_step s (s\<lparr>fifo := f', held := (held s)(unat b := held s (unat b) - unat n)\<rparr>)"

inductive sf_reach :: "sf_sys \<Rightarrow> bool" where
  init: "length (IdxTab f0) = CO_SF_BLOCK_DEF_NBR + 2 \<Longrightarrow> 0 < unat blockNbr \<Longrightarrow>
    1 < unat eltNbr \<Longrightarrow> unat eltNbr \<le> 2 ^ 31 \<Longrightarrow>
    CO_SharedFifoInit f0 phy ptr eltNbr eltSize blockNbr = Some f \<Longrightarrow>
    sf_reach \<lparr>fifo = f, held = (\<lambda>_. 0)\<rparr>"
| step: "sf_reach s \<Longrightarrow> sf_step s t \<Longrightarrow> sf_reach t"

section \<open>Unwrapped indices\<close>

text \<open>
  \<open>sf_ghost s I U\<close>: the indices are the residues of counters that only grow. The out
  counter of a block trails its in counter, and the in counter of the next block trails the out
  counter by the elements held; the producer runs at most \<open>EltNbr - 1\<close> ahead of the last block.
\<close>

definition sf_ghost :: "sf_sys \<Rightarrow> (nat \<Rightarrow> nat) \<Rightarrow> (nat \<Rightarrow> nat) \<Rightarrow> bool" where
  "sf_ghost s I U \<longleftrightarrow>
     (\<forall>b < sf_k s. sf_in (fifo s) b = I b mod sf_n s \<and> sf_out (fifo s) b = U b mod sf_n s
        \<and> U b \<le> I b)
     \<and> (\<forall>b. b + 1 < sf_k s \<longrightarrow> I (b + 1) + held s b = U b)
     \<and> I 0 + held s (sf_k s - 1) = U (sf_k s - 1) + (sf_n s - 1)
     \<and> sf_n s \<le> I 0"

definition sf_inv :: "sf_sys \<Rightarrow> bool" where
  "sf_inv s \<longleftrightarrow> sf_wf (fifo s) \<and> (\<exists>I U. sf_ghost s I U)"

lemma sf_ghostD:
  assumes "sf_ghost s I U"
  shows "\<And>b. b < sf_k s \<Longrightarrow> sf_in (fifo s) b = I b mod sf_n s"
    "\<And>b. b < sf_k s \<Longrightarrow> sf_out (fifo s) b = U b mod sf_n s"
    "\<And>b. b < sf_k s \<Longrightarrow> U b \<le> I b"
    "\<And>b. b + 1 < sf_k s \<Longrightarrow> I (b + 1) + held s b = U b"
    "I 0 + held s (sf_k s - 1) = U (sf_k s - 1) + (sf_n s - 1)"
    "sf_n s \<le> I 0"
  using assms by (simp_all add: sf_ghost_def)

lemma sf_chain:
  assumes g: "sf_ghost s I U" and le: "b \<le> c" and c: "c < sf_k s"
  shows "U c \<le> U b \<and> I c \<le> I b"
  using le c
proof (induction c)
  case 0
  then show ?case by simp
next
  case (Suc c)
  note d = sf_ghostD [OF g]
  show ?case
  proof (cases "b = Suc c")
    case True
    then show ?thesis by simp
  next
    case False
    with Suc have ih: "U c \<le> U b \<and> I c \<le> I b" by simp
    have "I (Suc c) + held s c = U c" using d(4) [of c] Suc.prems(2) by simp
    moreover have "U c \<le> I c" "U (Suc c) \<le> I (Suc c)" using d(3) Suc.prems(2) by simp_all
    ultimately show ?thesis using ih by linarith
  qed
qed

lemma sf_span:
  assumes g: "sf_ghost s I U" and b: "b < sf_k s"
  shows "I b - U b \<le> sf_n s - 1" and "held s b \<le> sf_n s - 1"
proof -
  note d = sf_ghostD [OF g]
  have last: "b \<le> sf_k s - 1" "sf_k s - 1 < sf_k s" using b by auto
  note up = sf_chain [OF g, of 0 b] and dn = sf_chain [OF g last]
  have "I b \<le> I 0" "U (sf_k s - 1) \<le> U b" "U b \<le> I b" using up dn b d(3) by auto
  with d(5) show "I b - U b \<le> sf_n s - 1" by linarith
  show "held s b \<le> sf_n s - 1"
  proof (cases "b + 1 < sf_k s")
    case True
    note dn1 = sf_chain [OF g, of "b + 1" "sf_k s - 1"]
    have "U (sf_k s - 1) \<le> U (b + 1)" "U (b + 1) \<le> I (b + 1)" using dn1 d(3) True by auto
    with d(4) [OF True] d(5) \<open>U b \<le> I b\<close> \<open>I b \<le> I 0\<close> show ?thesis by linarith
  next
    case False
    with b have "b = sf_k s - 1" by simp
    with d(5) \<open>I b \<le> I 0\<close> \<open>U b \<le> I b\<close> show ?thesis by simp
  qed
qed

lemma sf_cnt_ghost:
  assumes g: "sf_ghost s I U" and wf: "sf_wf (fifo s)" and b: "b < sf_k s"
  shows "sf_cnt (fifo s) b = I b - U b"
proof -
  note d = sf_ghostD [OF g] and w = sf_wfD [OF wf]
  have "I b - U b < sf_n s" using sf_span(1) [OF g b] w(4) by linarith
  moreover have "int (I b) - int (U b) = int (I b - U b)" using d(3) b by simp
  ultimately have "(int (I b) - int (U b)) mod int (sf_n s) = int (I b - U b)"
    by (metis mod_pos_pos_trivial of_nat_0_le_iff of_nat_less_iff)
  moreover have "(int (I b mod sf_n s) - int (U b mod sf_n s)) mod int (sf_n s)
      = (int (I b) - int (U b)) mod int (sf_n s)"
    by (simp add: zmod_int mod_diff_eq)
  ultimately show ?thesis using d(1,2) b by (simp add: sf_cnt_def cdist_def)
qed

text \<open>Slot lists in terms of the counters alone.\<close>

definition upt_mod :: "nat \<Rightarrow> nat \<Rightarrow> nat \<Rightarrow> nat list" where
  "upt_mod n a b = map (\<lambda>i. i mod n) [a..<b]"

lemma upt_mod_take: "a + m \<le> b \<Longrightarrow> take m (upt_mod n a b) = upt_mod n a (a + m)"
  by (simp add: upt_mod_def take_map)

lemma upt_mod_drop: "drop m (upt_mod n a b) = upt_mod n (a + m) b"
  by (simp add: upt_mod_def drop_map)

lemma upt_mod_append: "a \<le> b \<Longrightarrow> b \<le> c \<Longrightarrow> upt_mod n a b @ upt_mod n b c = upt_mod n a c"
  unfolding upt_mod_def by (metis le_Suc_ex map_append upt_add_eq_append)

lemma length_upt_mod [simp]: "length (upt_mod n a b) = b - a"
  by (simp add: upt_mod_def)

lemma map_mod_upt: "map (\<lambda>i. (a mod n + i) mod n) [0..<m] = upt_mod n a (a + m)"
  unfolding upt_mod_def by (rule nth_equalityI) (simp_all add: mod_simps)

lemma sf_slots_ghost:
  assumes g: "sf_ghost s I U" and wf: "sf_wf (fifo s)" and b: "b < sf_k s"
  shows "sf_slots (fifo s) b = upt_mod (sf_n s) (U b) (I b)"
  using sf_ghostD(2,3) [OF g b] sf_cnt_ghost [OF g wf b]
  by (simp add: sf_slots_def map_mod_upt)

lemma sf_next_less: "b < k \<Longrightarrow> sf_next k b < k"
  by (simp add: sf_next_def)

lemma sf_held_le:
  assumes g: "sf_ghost s I U" and b: "b < sf_k s"
  shows "held s b \<le> U b"
proof (cases "b + 1 = sf_k s")
  case True
  then have "b = sf_k s - 1" by simp
  then have "I 0 + held s b = U b + (sf_n s - 1)" using sf_ghostD(5) [OF g] by simp
  with sf_ghostD(6) [OF g] show ?thesis by linarith
next
  case False
  with b sf_ghostD(4) [OF g, of b] show ?thesis by simp
qed

lemma sf_held_ghost:
  assumes g: "sf_ghost s I U" and b: "b < sf_k s"
  shows "sf_held_slots s b = upt_mod (sf_n s) (U b - held s b) (U b)"
proof -
  let ?n = "sf_n s" and ?h = "held s b"
  have h: "?h \<le> U b" "?h \<le> ?n" using sf_held_le [OF g b] sf_span(2) [OF g b] by simp_all
  have "(sf_out (fifo s) b + (?n - ?h) + i) mod ?n = (U b - ?h + i) mod ?n" for i
  proof -
    have "(sf_out (fifo s) b + (?n - ?h) + i) mod ?n = (U b + (?n - ?h) + i) mod ?n"
      using sf_ghostD(2) [OF g b] by (simp add: add.assoc mod_add_left_eq)
    also have "U b + (?n - ?h) + i = (U b - ?h + i) + ?n" using h by simp
    finally show ?thesis by simp
  qed
  with h show ?thesis
    unfolding sf_held_slots_def upt_mod_def by (intro nth_equalityI) simp_all
qed

section \<open>Every step keeps the unwrapped indices\<close>

lemma set_blk_simps [simp]:
  "EltNbr (set_blk f b x) = EltNbr f" "BlockNbr (set_blk f b x) = BlockNbr f"
  "EltSize (set_blk f b x) = EltSize f" "EltBasePtr (set_blk f b x) = EltBasePtr f"
  "IdxTab (set_blk f b x) = (IdxTab f)[unat b := x]"
  by (simp_all add: set_blk_def)

lemma CO_SharedFifoGet_cases:
  assumes wf: "sf_wf f" and b: "unat b < unat (BlockNbr f)"
  shows "CO_SharedFifoGet f b n =
    (if unat n \<le> sf_cnt f (unat b)
     then Some (CO_STATUS_OK, CO_SharedFifoGetPtr f (Out (IdxTab f ! unat b)),
       set_blk f b ((IdxTab f ! unat b)\<lparr>Out := sf_shift f (Out (IdxTab f ! unat b)) n\<rparr>))
     else Some (CO_NO_ELT_IN_USE, 0, f))"
proof -
  obtain m where m: "CO_SharedFifoNbEltCont f b = Some m" "unat m = sf_cnt f (unat b)"
    using CO_SharedFifoNbEltCont_cnt [OF wf b] by blast
  have "unat b < length (IdxTab f)" using sf_wfD [OF wf] b by linarith
  with m show ?thesis
    by (auto simp: CO_SharedFifoGet_def CO_SharedFifoGet_NoCritSect_def word_less_nat_alt not_less)
qed

lemma sf_next_block_unat:
  assumes wf: "sf_wf f" and b: "unat b < unat (BlockNbr f)"
  shows "unat (sf_next_block f b) = sf_next (unat (BlockNbr f)) (unat b)"
proof -
  have "unat b < 4" using sf_wfD [OF wf] b by linarith
  then have s: "unat (b + 1) = unat b + 1" by (simp add: unat_word_ariths)
  then have "(ucast (b + 1) = BlockNbr f) = (unat b + 1 = unat (BlockNbr f))"
    using \<open>unat b < 4\<close>
    by (simp add: word_unat_eq_iff unsigned_ucast_eq take_bit_nat_eq_self)
  with s show ?thesis by (simp add: sf_next_block_def sf_next_def CO_SF_PROD_ID_def)
qed

lemma CO_SharedFifoPut_eq:
  assumes wf: "sf_wf f" and b: "unat b < unat (BlockNbr f)"
  shows "CO_SharedFifoPut f b n =
    (let c = sf_next_block f b; x = IdxTab f ! unat c in
     Some (CO_STATUS_OK, set_blk f c (x\<lparr>In := sf_shift f (In x) n\<rparr>)))"
proof -
  have "unat (sf_next_block f b) < length (IdxTab f)"
    using sf_next_block_unat [OF wf b] sf_next_less [OF b] sf_wfD [OF wf] by linarith
  then show ?thesis
    by (simp add: CO_SharedFifoPut_def CO_SharedFifoPut_NoCritSect_def Let_def
        CO_SharedFifoGetInBlockIdxPtr_def)
qed

lemma sf_get_inv:
  assumes wf: "sf_wf (fifo s)" and g: "sf_ghost s I U" and b: "unat b < sf_k s"
    and n: "unat n \<le> sf_cnt (fifo s) (unat b)"
  defines "x \<equiv> IdxTab (fifo s) ! unat b"
  defines "t \<equiv> s\<lparr>fifo := set_blk (fifo s) b (x\<lparr>Out := sf_shift (fifo s) (Out x) n\<rparr>),
                 held := (held s)(unat b := held s (unat b) + unat n)\<rparr>"
  shows "sf_wf (fifo t)" and "sf_ghost t I (U(unat b := U (unat b) + unat n))"
proof -
  note w = sf_wfD [OF wf] and d = sf_ghostD [OF g]
  have len: "unat b < length (IdxTab (fifo s))" using w b by linarith
  have le: "unat n \<le> I (unat b) - U (unat b)" using n sf_cnt_ghost [OF g wf b] by simp
  then have nN: "unat n \<le> sf_n s" using sf_span(1) [OF g b] by linarith
  have out: "unat (sf_shift (fifo s) (Out x) n) = (U (unat b) + unat n) mod sf_n s"
    using unat_sf_shift [of "fifo s" "Out x" n] w(5) w(7) [OF b] nN d(2) [OF b]
    by (simp add: x_def mod_simps)
  have lt: "unat (sf_shift (fifo s) (Out x) n) < sf_n s"
    using out w(4) by simp
  show "sf_wf (fifo t)"
    using wf lt len by (auto simp: t_def sf_wf_def nth_list_update x_def)
  show "sf_ghost t I (U(unat b := U (unat b) + unat n))"
    unfolding sf_ghost_def
  proof (intro conjI allI impI, goal_cases)
    case (1 c) with d(1) len show ?case by (auto simp: t_def nth_list_update x_def)
  next
    case (2 c) with d(2) len out show ?case by (auto simp: t_def nth_list_update x_def)
  next
    case (3 c) with d(3) [of c] le show ?case by (auto simp: t_def)
  next
    case (4 c) with d(4) show ?case by (auto simp: t_def)
  next
    case 5 with d(5) show ?case by (auto simp: t_def)
  next
    case 6 with d(6) show ?case by (simp add: t_def)
  qed
qed

lemma sf_put_inv:
  assumes wf: "sf_wf (fifo s)" and g: "sf_ghost s I U" and b: "unat b < sf_k s"
    and n: "unat n \<le> held s (unat b)"
  defines "c \<equiv> sf_next_block (fifo s) b"
  defines "x \<equiv> IdxTab (fifo s) ! unat c"
  defines "t \<equiv> s\<lparr>fifo := set_blk (fifo s) c (x\<lparr>In := sf_shift (fifo s) (In x) n\<rparr>),
                 held := (held s)(unat b := held s (unat b) - unat n)\<rparr>"
  shows "sf_wf (fifo t)" and "sf_ghost t (I(unat c := I (unat c) + unat n)) U"
proof -
  note w = sf_wfD [OF wf] and d = sf_ghostD [OF g]
  have c: "unat c = sf_next (sf_k s) (unat b)" unfolding c_def by (rule sf_next_block_unat [OF wf b])
  have ck: "unat c < sf_k s" using sf_next_less [OF b] c by simp
  have len: "unat c < length (IdxTab (fifo s))" using w ck by linarith
  have nN: "unat n \<le> sf_n s" using n sf_span(2) [OF g b] by linarith
  have inn: "unat (sf_shift (fifo s) (In x) n) = (I (unat c) + unat n) mod sf_n s"
    using unat_sf_shift [of "fifo s" "In x" n] w(5) w(6) [OF ck] nN d(1) [OF ck]
    by (simp add: x_def mod_simps)
  have lt: "unat (sf_shift (fifo s) (In x) n) < sf_n s" using inn w(4) by simp
  show "sf_wf (fifo t)"
    using wf lt len by (auto simp: t_def sf_wf_def nth_list_update x_def)
  show "sf_ghost t (I(unat c := I (unat c) + unat n)) U"
    unfolding sf_ghost_def
  proof (intro conjI allI impI, goal_cases)
    case (1 e) with d(1) len inn show ?case by (auto simp: t_def nth_list_update x_def)
  next
    case (2 e) with d(2) len show ?case by (auto simp: t_def nth_list_update x_def)
  next
    case (3 e) with d(3) show ?case by (auto simp: t_def intro: trans_le_add1)
  next
    case (4 e)
    then have "I (e + 1) + held s e = U e" using d(4) by (simp add: t_def)
    with 4 n b c show ?case by (auto simp: t_def sf_next_def split: if_splits)
  next
    case 5 with d(5) n b c show ?case by (auto simp: t_def sf_next_def split: if_splits)
  next
    case 6 with d(6) show ?case by (simp add: t_def trans_le_add1)
  qed
qed

section \<open>Reachable states\<close>

lemma length_sf_init_blocks [simp]: "length (sf_init_blocks n tab) = length tab"
  by (induction n) simp_all

lemma nth_sf_init_blocks:
  "i < length tab \<Longrightarrow> sf_init_blocks n tab ! i
     = (if i < n then \<lparr>Flag = 0, In = 1, Out = 1\<rparr> else tab ! i)"
  by (induction n) (auto simp: less_Suc_eq)

lemma sf_init_inv:
  assumes len: "length (IdxTab f0) = CO_SF_BLOCK_DEF_NBR + 2" and k: "0 < unat blockNbr"
    and n: "1 < unat eltNbr" "unat eltNbr \<le> 2 ^ 31"
    and f: "CO_SharedFifoInit f0 phy ptr eltNbr eltSize blockNbr = Some f"
  shows "sf_inv \<lparr>fifo = f, held = (\<lambda>_. 0)\<rparr>" and "unat (BlockNbr f) = unat blockNbr"
    and "EltNbr f = eltNbr"
proof -
  let ?tab = "sf_init_blocks (unat blockNbr) (IdxTab f0)"
  have le: "unat blockNbr \<le> 4"
    using f len by (auto simp: CO_SharedFifoInit_def CO_SF_BLOCK_DEF_NBR_def split: if_splits)
  have feq: "f = \<lparr>EltBasePhy = phy, EltBasePtr = ptr, EltNbr = eltNbr, EltSize = eltSize,
      BlockNbr = ucast blockNbr, IdxTab = ?tab[0 := (?tab ! 0)\<lparr>In := 0\<rparr>]\<rparr>"
    using f len le
    by (auto simp: CO_SharedFifoInit_def CO_SF_BLOCK_DEF_NBR_def CO_SF_PROD_ID_def Let_def)
  show bn: "unat (BlockNbr f) = unat blockNbr"
    using le by (simp add: feq unsigned_ucast_eq take_bit_nat_eq_self)
  show en: "EltNbr f = eltNbr" by (simp add: feq)
  have idx: "IdxTab f ! b = \<lparr>Flag = 0, In = (if b = 0 then 0 else 1), Out = 1\<rparr>"
    if "b < unat blockNbr" for b
    using that le len by (auto simp: feq nth_sf_init_blocks nth_list_update CO_SF_BLOCK_DEF_NBR_def)
  have lenf: "length (IdxTab f) = 4" using len by (simp add: feq CO_SF_BLOCK_DEF_NBR_def)
  have wf: "sf_wf f"
    using idx le k n lenf by (auto simp: sf_wf_def bn en CO_SF_BLOCK_DEF_NBR_def)
  have "sf_ghost \<lparr>fifo = f, held = (\<lambda>_. 0)\<rparr> (\<lambda>b. if b = 0 then unat eltNbr else 1) (\<lambda>_. 1)"
    using idx n k by (auto simp: sf_ghost_def bn en)
  with wf show "sf_inv \<lparr>fifo = f, held = (\<lambda>_. 0)\<rparr>" by (auto simp: sf_inv_def)
qed

lemma sf_step_inv: "sf_step s t \<Longrightarrow> sf_inv s \<Longrightarrow> sf_inv t"
proof (induction rule: sf_step.induct)
  case (get b s n p f')
  then obtain I U where wf: "sf_wf (fifo s)" and g: "sf_ghost s I U" by (auto simp: sf_inv_def)
  have le: "unat n \<le> sf_cnt (fifo s) (unat b)"
    using get.hyps CO_SharedFifoGet_cases [OF wf, of b n] by (auto split: if_splits)
  then have "f' = set_blk (fifo s) b ((IdxTab (fifo s) ! unat b)
      \<lparr>Out := sf_shift (fifo s) (Out (IdxTab (fifo s) ! unat b)) n\<rparr>)"
    using get.hyps CO_SharedFifoGet_cases [OF wf, of b n] by simp
  with sf_get_inv [OF wf g get.hyps(1) le] show ?case by (auto simp: sf_inv_def)
next
  case (put b s n f')
  then obtain I U where wf: "sf_wf (fifo s)" and g: "sf_ghost s I U" by (auto simp: sf_inv_def)
  have "f' = (let c = sf_next_block (fifo s) b; x = IdxTab (fifo s) ! unat c in
      set_blk (fifo s) c (x\<lparr>In := sf_shift (fifo s) (In x) n\<rparr>))"
    using put.hyps CO_SharedFifoPut_eq [OF wf, of b n] by (simp add: Let_def)
  with sf_put_inv [OF wf g put.hyps(1,2)] show ?case by (auto simp: sf_inv_def Let_def)
qed

lemma sf_reach_inv: "sf_reach s \<Longrightarrow> sf_inv s"
proof (induction rule: sf_reach.induct)
  case init
  then show ?case by (rule sf_init_inv(1))
next
  case step
  then show ?case using sf_step_inv by blast
qed

section \<open>The abstract machine: queues of slots\<close>

record sf_abs =
  own :: "nat \<Rightarrow> nat list"
  got :: "nat \<Rightarrow> nat list"
  spare :: nat

definition sf_abs_of :: "sf_sys \<Rightarrow> sf_abs" where
  "sf_abs_of s =
     \<lparr>own = (\<lambda>b. if b < sf_k s then sf_slots (fifo s) b else []),
      got = (\<lambda>b. if b < sf_k s then sf_held_slots s b else []),
      spare = sf_spare s\<rparr>"

text \<open>
  A get moves the first \<open>n\<close> slots of a block to the slots it holds. A put hands the first
  \<open>n\<close> of these to the next block; the last block hands them to the producer by way of the
  spare slot, which is passed on first and replaced by the last slot put.
\<close>

definition abs_get :: "nat \<Rightarrow> nat \<Rightarrow> sf_abs \<Rightarrow> sf_abs" where
  "abs_get b n a = a\<lparr>own := (own a)(b := drop n (own a b)),
                     got := (got a)(b := got a b @ take n (own a b))\<rparr>"

definition abs_put :: "nat \<Rightarrow> nat \<Rightarrow> nat \<Rightarrow> sf_abs \<Rightarrow> sf_abs" where
  "abs_put k b n a =
     (let give = take n (got a b); rest = (got a)(b := drop n (got a b)) in
      if b + 1 = k
      then a\<lparr>own := (own a)(0 := own a 0 @ butlast (spare a # give)), got := rest,
             spare := last (spare a # give)\<rparr>
      else a\<lparr>own := (own a)(b + 1 := own a (b + 1) @ give), got := rest\<rparr>)"

definition sf_pool :: "nat \<Rightarrow> sf_abs \<Rightarrow> nat list" where
  "sf_pool k a = concat (map (\<lambda>b. got a b @ own a b) (rev [0..<k])) @ [spare a]"

lemma sf_abs_of_ghost:
  assumes g: "sf_ghost s I U" and wf: "sf_wf (fifo s)"
  shows "\<And>b. b < sf_k s \<Longrightarrow> own (sf_abs_of s) b = upt_mod (sf_n s) (U b) (I b)"
    and "\<And>b. b < sf_k s \<Longrightarrow> got (sf_abs_of s) b = upt_mod (sf_n s) (U b - held s b) (U b)"
    and "spare (sf_abs_of s) = I 0 mod sf_n s"
  using sf_slots_ghost [OF assms] sf_held_ghost [OF g] sf_ghostD(1) [OF g] sf_wfD(2) [OF wf]
  by (simp_all add: sf_abs_of_def sf_spare_def)

lemma sf_abs_eqI:
  assumes "\<And>b. b < k \<Longrightarrow> own x b = own y b" "\<And>b. b < k \<Longrightarrow> got x b = got y b"
    and "\<And>b. \<not> b < k \<Longrightarrow> own x b = own y b \<and> got x b = got y b"
    and "spare x = spare y"
  shows "(x :: sf_abs) = y"
proof (rule sf_abs.equality)
  show "own x = own y" using assms by (metis ext)
  show "got x = got y" using assms by (metis ext)
qed (use assms(4) in simp_all)

lemma sf_get_abs:
  assumes wf: "sf_wf (fifo s)" and g: "sf_ghost s I U" and b: "unat b < sf_k s"
    and n: "unat n \<le> sf_cnt (fifo s) (unat b)"
  defines "x \<equiv> IdxTab (fifo s) ! unat b"
  defines "t \<equiv> s\<lparr>fifo := set_blk (fifo s) b (x\<lparr>Out := sf_shift (fifo s) (Out x) n\<rparr>),
                 held := (held s)(unat b := held s (unat b) + unat n)\<rparr>"
  shows "sf_abs_of t = abs_get (unat b) (unat n) (sf_abs_of s)"
proof -
  have wt: "sf_wf (fifo t)" and gt: "sf_ghost t I (U(unat b := U (unat b) + unat n))"
    using sf_get_inv [OF wf g b n] by (simp_all add: t_def x_def)
  have k: "sf_k t = sf_k s" "sf_n t = sf_n s" by (simp_all add: t_def)
  have le: "U (unat b) + unat n \<le> I (unat b)"
    using n sf_cnt_ghost [OF g wf b] sf_ghostD(3) [OF g b] by linarith
  note os = sf_abs_of_ghost [OF g wf] and ot = sf_abs_of_ghost [OF gt wt, unfolded k]
  show ?thesis
  proof (rule sf_abs_eqI [where k = "sf_k s"])
    fix c assume c: "c < sf_k s"
    show "own (sf_abs_of t) c = own (abs_get (unat b) (unat n) (sf_abs_of s)) c"
      using os(1) [OF c] ot(1) [OF c] by (cases "c = unat b") (simp_all add: abs_get_def upt_mod_drop)
    show "got (sf_abs_of t) c = got (abs_get (unat b) (unat n) (sf_abs_of s)) c"
      using os(1,2) [OF c] ot(2) [OF c] sf_held_le [OF g c] le
      by (auto simp: abs_get_def t_def upt_mod_take upt_mod_append)
  next
    fix c assume "\<not> c < sf_k s"
    then show "own (sf_abs_of t) c = own (abs_get (unat b) (unat n) (sf_abs_of s)) c
      \<and> got (sf_abs_of t) c = got (abs_get (unat b) (unat n) (sf_abs_of s)) c"
      using b by (auto simp: abs_get_def sf_abs_of_def k)
  qed (simp add: abs_get_def os(3) ot(3))
qed

lemma sf_put_abs:
  assumes wf: "sf_wf (fifo s)" and g: "sf_ghost s I U" and b: "unat b < sf_k s"
    and n: "unat n \<le> held s (unat b)"
  defines "c \<equiv> sf_next_block (fifo s) b"
  defines "x \<equiv> IdxTab (fifo s) ! unat c"
  defines "t \<equiv> s\<lparr>fifo := set_blk (fifo s) c (x\<lparr>In := sf_shift (fifo s) (In x) n\<rparr>),
                 held := (held s)(unat b := held s (unat b) - unat n)\<rparr>"
  shows "sf_abs_of t = abs_put (sf_k s) (unat b) (unat n) (sf_abs_of s)"
proof -
  let ?b = "unat b" and ?n = "sf_n s" and ?h = "held s (unat b)"
  have wt: "sf_wf (fifo t)" and gt: "sf_ghost t (I(unat c := I (unat c) + unat n)) U"
    using sf_put_inv [OF wf g b n] by (simp_all add: t_def x_def c_def)
  have k: "sf_k t = sf_k s" "sf_n t = sf_n s" by (simp_all add: t_def)
  have c: "unat c = sf_next (sf_k s) ?b" unfolding c_def by (rule sf_next_block_unat [OF wf b])
  note os = sf_abs_of_ghost [OF g wf] and ot = sf_abs_of_ghost [OF gt wt, unfolded k]
  note d = sf_ghostD [OF g]
  have hle: "?h \<le> U ?b" by (rule sf_held_le [OF g b])
  have give: "take (unat n) (got (sf_abs_of s) ?b) = upt_mod ?n (U ?b - ?h) (U ?b - ?h + unat n)"
    using os(2) [OF b] n hle by (simp add: upt_mod_take)
  have rest: "drop (unat n) (got (sf_abs_of s) ?b) = upt_mod ?n (U ?b - (?h - unat n)) (U ?b)"
    using os(2) [OF b] n hle by (simp add: upt_mod_drop)
  have got_eq: "got (sf_abs_of t) e = ((got (sf_abs_of s))(?b := drop (unat n) (got (sf_abs_of s) ?b))) e"
    if e: "e < sf_k s" for e
    using os(2) [OF e] ot(2) [OF e] rest by (simp add: t_def)
  have got_out: "got (sf_abs_of t) e = got (sf_abs_of s) e" "own (sf_abs_of t) e = own (sf_abs_of s) e"
    if "\<not> e < sf_k s" for e
    using that by (simp_all add: sf_abs_of_def k)
  show ?thesis
  proof (cases "?b + 1 = sf_k s")
    case False
    then have bk: "?b + 1 < sf_k s" using b by simp
    have c1: "unat c = ?b + 1" using c False by (simp add: sf_next_def)
    have i: "I (?b + 1) = U ?b - ?h" using d(4) [OF bk] by simp
    have own1: "own (sf_abs_of t) (?b + 1) = own (sf_abs_of s) (?b + 1) @ take (unat n) (got (sf_abs_of s) ?b)"
      using os(1) [OF bk] ot(1) [OF bk] d(3) [OF bk]
      by (simp add: give c1 upt_mod_append flip: i)
    have own2: "own (sf_abs_of t) e = own (sf_abs_of s) e" if "e < sf_k s" "e \<noteq> ?b + 1" for e
      using os(1) [OF that(1)] ot(1) [OF that(1)] that c1 by simp
    have sp: "spare (sf_abs_of t) = spare (sf_abs_of s)" using os(3) ot(3) c1 by simp
    show ?thesis
      by (rule sf_abs_eqI [where k = "sf_k s"])
        (use False own1 own2 got_eq got_out sp b bk in \<open>auto simp: abs_put_def Let_def\<close>)
  next
    case True
    then have c0: "unat c = 0" using c by (simp add: sf_next_def)
    have last: "?b = sf_k s - 1" using True by simp
    have k0: "0 < sf_k s" using b by simp
    have i: "I 0 + ?h = U ?b + (?n - 1)" using d(5) last by simp
    have ring: "spare (sf_abs_of s) # take (unat n) (got (sf_abs_of s) ?b) = upt_mod ?n (I 0) (I 0 + unat n + 1)"
    proof -
      have "upt_mod ?n (U ?b - ?h) (U ?b - ?h + unat n) = upt_mod ?n (I 0 + 1) (I 0 + 1 + unat n)"
      proof -
        have "I 0 + 1 = U ?b - ?h + ?n" using i hle sf_wfD(4) [OF wf] by linarith
        then show ?thesis
          unfolding upt_mod_def by (intro nth_equalityI) (simp_all del: upt_Suc add: mod_add_mid)
      qed
      then show ?thesis using os(3)
        by (simp add: give upt_mod_def upt_conv_Cons del: upt_Suc)
    qed
    then have bl: "butlast (spare (sf_abs_of s) # take (unat n) (got (sf_abs_of s) ?b)) = upt_mod ?n (I 0) (I 0 + unat n)"
      and la: "last (spare (sf_abs_of s) # take (unat n) (got (sf_abs_of s) ?b)) = (I 0 + unat n) mod ?n"
      by (simp_all only: ring) (simp_all add: upt_mod_def)
    have own1: "own (sf_abs_of t) 0 = own (sf_abs_of s) 0 @ upt_mod ?n (I 0) (I 0 + unat n)"
      using os(1) [OF k0] ot(1) [OF k0] d(3) [OF k0] by (simp add: c0 upt_mod_append)
    have own2: "own (sf_abs_of t) e = own (sf_abs_of s) e" if "e < sf_k s" "e \<noteq> 0" for e
      using os(1) [OF that(1)] ot(1) [OF that(1)] that c0 by simp
    have sp: "spare (sf_abs_of t) = (I 0 + unat n) mod ?n" using ot(3) c0 by simp
    show ?thesis
      by (rule sf_abs_eqI [where k = "sf_k s"])
        (use True own1 own2 got_eq got_out sp b k0 bl la in \<open>auto simp: abs_put_def Let_def\<close>)
  qed
qed

lemma sf_pool_ghost:
  assumes g: "sf_ghost s I U" and wf: "sf_wf (fifo s)"
  shows "sf_pool (sf_k s) (sf_abs_of s) = upt_mod (sf_n s) (I 0 + 1 - sf_n s) (I 0 + 1)"
proof -
  let ?n = "sf_n s" and ?a = "sf_abs_of s"
  note d = sf_ghostD [OF g] and w = sf_wfD [OF wf]
  have seg: "got ?a b @ own ?a b = upt_mod ?n (U b - held s b) (I b)" if "b < sf_k s" for b
    using sf_abs_of_ghost(1,2) [OF g wf that] d(3) [OF that] by (simp add: upt_mod_append)
  have "concat (map (\<lambda>b. got ?a b @ own ?a b) (rev [0..<Suc j])) = upt_mod ?n (U j - held s j) (I 0)"
    if "j < sf_k s" for j
    using that
  proof (induction j)
    case 0
    then show ?case using seg [of 0] by simp
  next
    case (Suc j)
    have i: "U j - held s j = I (Suc j)" using d(4) [of j] Suc.prems by simp
    have "I (Suc j) \<le> I 0" using sf_chain [OF g, of 0 "Suc j"] Suc.prems by simp
    moreover have "U (Suc j) - held s (Suc j) \<le> I (Suc j)" using d(3) [OF Suc.prems] by simp
    ultimately show ?case
      using Suc seg [OF Suc.prems] by (simp add: upt_mod_append i)
  qed
  from this [of "sf_k s - 1"] have "concat (map (\<lambda>b. got ?a b @ own ?a b) (rev [0..<sf_k s]))
      = upt_mod ?n (U (sf_k s - 1) - held s (sf_k s - 1)) (I 0)"
    using w(2) by simp
  moreover have "U (sf_k s - 1) - held s (sf_k s - 1) = I 0 + 1 - ?n"
    using d(5,6) w(4) by linarith
  ultimately show ?thesis
    using sf_abs_of_ghost(3) [OF g wf] d(6) w(4) by (simp add: sf_pool_def upt_mod_def)
qed

lemma upt_mod_cycle:
  assumes "0 < n"
  shows "distinct (upt_mod n a (a + n))" and "set (upt_mod n a (a + n)) = {..<n}"
proof -
  have "inj_on (\<lambda>i. i mod n) {a..<a + n}"
  proof (rule inj_onI)
    fix x y assume "x \<in> {a..<a + n}" "y \<in> {a..<a + n}" "x mod n = y mod n"
    then have "(a + (x - a)) mod n = (a + (y - a)) mod n" "x - a < n" "y - a < n" "a \<le> x" "a \<le> y"
      by auto
    then have "x - a = y - a" using mod_add_inj by blast
    with \<open>a \<le> x\<close> \<open>a \<le> y\<close> show "x = y" by simp
  qed
  then show d: "distinct (upt_mod n a (a + n))" by (simp add: upt_mod_def distinct_map)
  show "set (upt_mod n a (a + n)) = {..<n}"
  proof (rule card_subset_eq)
    show "set (upt_mod n a (a + n)) \<subseteq> {..<n}" using assms by (auto simp: upt_mod_def)
    show "card (set (upt_mod n a (a + n))) = card {..<n}" using distinct_card [OF d] by simp
  qed simp
qed

lemma sf_pool_partition:
  assumes r: "sf_inv s"
  shows "distinct (sf_pool (sf_k s) (sf_abs_of s))"
    and "set (sf_pool (sf_k s) (sf_abs_of s)) = {..<sf_n s}"
proof -
  obtain I U where wf: "sf_wf (fifo s)" and g: "sf_ghost s I U" using r by (auto simp: sf_inv_def)
  have n: "0 < sf_n s" using sf_wfD(4) [OF wf] by simp
  have "sf_pool (sf_k s) (sf_abs_of s) = upt_mod (sf_n s) (I 0 + 1 - sf_n s) (I 0 + 1 - sf_n s + sf_n s)"
    using sf_pool_ghost [OF g wf] sf_ghostD(6) [OF g] by simp
  with upt_mod_cycle [OF n] show "distinct (sf_pool (sf_k s) (sf_abs_of s))"
    "set (sf_pool (sf_k s) (sf_abs_of s)) = {..<sf_n s}" by simp_all
qed

lemma sf_get_refines:
  assumes inv: "sf_inv s" and b: "unat b < sf_k s"
  shows "\<exists>st p f'. CO_SharedFifoGet (fifo s) b n = Some (st, p, f') \<and>
    (if unat n \<le> length (own (sf_abs_of s) (unat b))
     then st = CO_STATUS_OK \<and> p = CO_SharedFifoGetPtr (fifo s) (Out (IdxTab (fifo s) ! unat b))
       \<and> EltBasePtr f' = EltBasePtr (fifo s) \<and> EltSize f' = EltSize (fifo s)
       \<and> EltNbr f' = EltNbr (fifo s) \<and> BlockNbr f' = BlockNbr (fifo s)
       \<and> (let t = s\<lparr>fifo := f', held := (held s)(unat b := held s (unat b) + unat n)\<rparr> in
          sf_inv t \<and> sf_abs_of t = abs_get (unat b) (unat n) (sf_abs_of s))
     else st = CO_NO_ELT_IN_USE \<and> p = 0 \<and> f' = fifo s)"
proof -
  obtain I U where wf: "sf_wf (fifo s)" and g: "sf_ghost s I U" using inv by (auto simp: sf_inv_def)
  have len: "length (own (sf_abs_of s) (unat b)) = sf_cnt (fifo s) (unat b)"
    using b by (simp add: sf_abs_of_def sf_slots_def)
  show ?thesis
  proof (cases "unat n \<le> sf_cnt (fifo s) (unat b)")
    case True
    with sf_get_abs [OF wf g b True] sf_get_inv [OF wf g b True] show ?thesis
      by (auto simp: CO_SharedFifoGet_cases [OF wf b] len sf_inv_def Let_def)
  next
    case False
    then show ?thesis by (simp add: CO_SharedFifoGet_cases [OF wf b] len)
  qed
qed

lemma sf_put_refines:
  assumes inv: "sf_inv s" and b: "unat b < sf_k s" and n: "unat n \<le> held s (unat b)"
  shows "\<exists>f'. CO_SharedFifoPut (fifo s) b n = Some (CO_STATUS_OK, f')
       \<and> EltBasePtr f' = EltBasePtr (fifo s) \<and> EltSize f' = EltSize (fifo s)
       \<and> EltNbr f' = EltNbr (fifo s) \<and> BlockNbr f' = BlockNbr (fifo s)
       \<and> (let t = s\<lparr>fifo := f', held := (held s)(unat b := held s (unat b) - unat n)\<rparr> in
          sf_inv t \<and> sf_abs_of t = abs_put (sf_k s) (unat b) (unat n) (sf_abs_of s))"
proof -
  obtain I U where wf: "sf_wf (fifo s)" and g: "sf_ghost s I U" using inv by (auto simp: sf_inv_def)
  with sf_put_abs [OF wf g b n] sf_put_inv [OF wf g b n] show ?thesis
    by (auto simp: CO_SharedFifoPut_eq [OF wf b] sf_inv_def Let_def)
qed

lemma sf_own_hd:
  assumes inv: "sf_inv s" and b: "b < sf_k s" and ne: "own (sf_abs_of s) b = i # is"
  shows "sf_out (fifo s) b = i"
proof -
  obtain I U where wf: "sf_wf (fifo s)" and g: "sf_ghost s I U" using inv by (auto simp: sf_inv_def)
  have "0 < sf_cnt (fifo s) b" "i = sf_slots (fifo s) b ! 0"
    using ne b by (auto simp: sf_abs_of_def sf_slots_def upt_eq_Cons_conv)
  with sf_wfD(7) [OF wf b] show ?thesis by (simp add: sf_slots_def)
qed

section \<open>Two blocks as a slot channel\<close>

text \<open>
  With two blocks, where the producer puts each slot right after getting it and the consumer
  holds what it has taken until it puts it back, the FIFO is a channel of slots.
\<close>

definition chan_ptr :: "sf_sys \<Rightarrow> nat \<Rightarrow> u64" where
  "chan_ptr s i = CO_SharedFifoGetPtr (fifo s) (of_nat i)"

definition chan_ok :: "sf_sys \<Rightarrow> bool" where
  "chan_ok s \<longleftrightarrow> sf_inv s \<and> sf_k s = 2 \<and> held s 0 = 0
     \<and> 0 < unat (EltSize (fifo s)) \<and> sf_n s * unat (EltSize (fifo s)) < 2 ^ 32"

definition chan_free :: "sf_sys \<Rightarrow> u64 list" where
  "chan_free s = map (chan_ptr s) (own (sf_abs_of s) 0)"

definition chan_used :: "sf_sys \<Rightarrow> u64 list" where
  "chan_used s = map (chan_ptr s) (own (sf_abs_of s) 1)"

definition chan_busy :: "sf_sys \<Rightarrow> u64 list" where
  "chan_busy s = map (chan_ptr s) (got (sf_abs_of s) 1)"

definition chan_recv :: "sf_sys \<Rightarrow> (u64 \<times> sf_sys) option" where
  "chan_recv s = (case CO_SharedFifoGet (fifo s) 1 1 of
      Some (CO_STATUS_OK, p, f) \<Rightarrow> Some (p, s\<lparr>fifo := f, held := (held s)(1 := held s 1 + 1)\<rparr>)
    | _ \<Rightarrow> None)"

definition chan_release :: "sf_sys \<Rightarrow> sf_sys option" where
  "chan_release s = (case CO_SharedFifoPut (fifo s) 1 1 of
      Some (CO_STATUS_OK, f) \<Rightarrow> Some (s\<lparr>fifo := f, held := (held s)(1 := held s 1 - 1)\<rparr>)
    | _ \<Rightarrow> None)"

definition chan_send :: "sf_sys \<Rightarrow> (u64 \<times> sf_sys) option" where
  "chan_send s = (case CO_SharedFifoGet (fifo s) 0 1 of
      Some (CO_STATUS_OK, p, f) \<Rightarrow>
        (case CO_SharedFifoPut f 0 1 of
           Some (CO_STATUS_OK, f') \<Rightarrow> Some (p, s\<lparr>fifo := f'\<rparr>)
         | _ \<Rightarrow> None)
    | _ \<Rightarrow> None)"

lemma chan_ptr_inj:
  assumes ok: "chan_ok s" and ij: "i < sf_n s" "j < sf_n s" and eq: "chan_ptr s i = chan_ptr s j"
  shows "i = j"
proof -
  let ?z = "EltSize (fifo s)"
  have z: "0 < unat ?z" "sf_n s * unat ?z < 2 ^ 32" using ok by (simp_all add: chan_ok_def)
  have u: "unat (of_nat k * ?z :: u32) = k * unat ?z" if k: "k < sf_n s" for k
  proof -
    have "k * unat ?z < 2 ^ 32" using k z by (meson less_imp_le_nat mult_le_mono1 order_le_less_trans)
    moreover have "k < 2 ^ 32" using k ok by (simp add: chan_ok_def sf_inv_def sf_wf_def)
    ultimately show ?thesis by (simp add: unat_word_ariths unat_of_nat)
  qed
  have "(ucast (of_nat i * ?z :: u32) :: u64) = ucast (of_nat j * ?z :: u32)"
    using eq by (simp add: chan_ptr_def CO_SharedFifoGetPtr_def)
  then have "unat (ucast (of_nat i * ?z :: u32) :: u64) = unat (ucast (of_nat j * ?z :: u32) :: u64)"
    by simp
  then have "unat (of_nat i * ?z :: u32) = unat (of_nat j * ?z :: u32)"
    by (simp add: unat_ucast_up)
  with u ij z show ?thesis by simp
qed

lemma chan_ok_got0: "chan_ok s \<Longrightarrow> got (sf_abs_of s) 0 = []"
  by (simp add: chan_ok_def sf_abs_of_def sf_held_slots_def)

lemma chan_pool:
  assumes ok: "chan_ok s"
  shows "sf_pool (sf_k s) (sf_abs_of s)
    = got (sf_abs_of s) 1 @ own (sf_abs_of s) 1 @ own (sf_abs_of s) 0 @ [spare (sf_abs_of s)]"
  using chan_ok_got0 [OF ok] ok by (simp add: sf_pool_def chan_ok_def numeral_2_eq_2)

lemma chan_apart:
  assumes ok: "chan_ok s"
  shows "distinct (chan_busy s @ chan_used s @ chan_free s)"
    and "length (chan_busy s @ chan_used s @ chan_free s) = sf_n s - 1"
proof -
  let ?xs = "got (sf_abs_of s) 1 @ own (sf_abs_of s) 1 @ own (sf_abs_of s) 0"
  have inv: "sf_inv s" using ok by (simp add: chan_ok_def)
  have p: "sf_pool (sf_k s) (sf_abs_of s) = ?xs @ [spare (sf_abs_of s)]" using chan_pool [OF ok] by simp
  note d = sf_pool_partition [OF inv, unfolded p]
  have all: "chan_busy s @ chan_used s @ chan_free s = map (chan_ptr s) ?xs"
    by (simp add: chan_busy_def chan_used_def chan_free_def)
  have "inj_on (chan_ptr s) (set ?xs)"
    using chan_ptr_inj [OF ok] d(2) by (intro inj_onI) auto
  moreover have "distinct ?xs" using d(1) by auto
  ultimately show "distinct (chan_busy s @ chan_used s @ chan_free s)"
    unfolding all distinct_map by blast
  have "length (?xs @ [spare (sf_abs_of s)]) = sf_n s" using distinct_card [OF d(1)] d(2) by simp
  then show "length (chan_busy s @ chan_used s @ chan_free s) = sf_n s - 1"
    unfolding all by simp
qed

lemma chan_get:
  assumes ok: "chan_ok s" and b: "unat b < 2" and own: "own (sf_abs_of s) (unat b) = i # is"
  shows "\<exists>f. CO_SharedFifoGet (fifo s) b 1 = Some (CO_STATUS_OK, chan_ptr s i, f)
    \<and> EltBasePtr f = EltBasePtr (fifo s) \<and> EltSize f = EltSize (fifo s)
    \<and> EltNbr f = EltNbr (fifo s) \<and> BlockNbr f = BlockNbr (fifo s)
    \<and> (let t = s\<lparr>fifo := f, held := (held s)(unat b := held s (unat b) + 1)\<rparr> in
        sf_inv t \<and> sf_abs_of t = abs_get (unat b) 1 (sf_abs_of s))"
proof -
  have inv: "sf_inv s" and bk: "unat b < sf_k s" using ok b by (simp_all add: chan_ok_def)
  have "of_nat i = Out (IdxTab (fifo s) ! unat b)" using sf_own_hd [OF inv bk own] by auto
  with sf_get_refines [OF inv bk, of 1] own show ?thesis by (auto simp: chan_ptr_def Let_def)
qed

lemma chan_get_none:
  assumes ok: "chan_ok s" and b: "unat b < 2" and own: "own (sf_abs_of s) (unat b) = []"
  shows "CO_SharedFifoGet (fifo s) b 1 = Some (CO_NO_ELT_IN_USE, 0, fifo s)"
  using sf_get_refines [of s b 1] ok b own by (auto simp: chan_ok_def)

lemma chan_ptr_cong:
  "EltBasePtr (fifo t) = EltBasePtr (fifo s) \<Longrightarrow> EltSize (fifo t) = EltSize (fifo s)
    \<Longrightarrow> chan_ptr t = chan_ptr s"
  by (simp add: fun_eq_iff chan_ptr_def CO_SharedFifoGetPtr_def)

lemma chan_send_slot:
  assumes ok: "chan_ok s" and fr: "own (sf_abs_of s) 0 = i # is"
  shows "\<exists>t. chan_send s = Some (chan_ptr s i, t) \<and> chan_ok t \<and> chan_ptr t = chan_ptr s \<and> sf_n t = sf_n s
    \<and> own (sf_abs_of t) 0 = is \<and> own (sf_abs_of t) 1 = own (sf_abs_of s) 1 @ [i]
    \<and> got (sf_abs_of t) 1 = got (sf_abs_of s) 1"
proof -
  obtain f where f: "CO_SharedFifoGet (fifo s) 0 1 = Some (CO_STATUS_OK, chan_ptr s i, f)"
    "EltBasePtr f = EltBasePtr (fifo s)" "EltSize f = EltSize (fifo s)"
    "EltNbr f = EltNbr (fifo s)" "BlockNbr f = BlockNbr (fifo s)"
    and inv: "sf_inv (s\<lparr>fifo := f, held := (held s)(0 := held s 0 + 1)\<rparr>)"
    and abs: "sf_abs_of (s\<lparr>fifo := f, held := (held s)(0 := held s 0 + 1)\<rparr>)
      = abs_get 0 1 (sf_abs_of s)"
    using chan_get [OF ok, of 0] fr by (auto simp: Let_def)
  let ?u = "s\<lparr>fifo := f, held := (held s)(0 := held s 0 + 1)\<rparr>"
  have "unat (0::u8) < sf_k ?u" "unat (1::u32) \<le> held ?u (unat (0::u8))"
    using ok f(5) by (simp_all add: chan_ok_def)
  from sf_put_refines [OF inv this] obtain f' where f': "CO_SharedFifoPut f 0 1 = Some (CO_STATUS_OK, f')"
    "EltBasePtr f' = EltBasePtr f" "EltSize f' = EltSize f" "EltNbr f' = EltNbr f" "BlockNbr f' = BlockNbr f"
    and inv': "sf_inv (s\<lparr>fifo := f', held := held s\<rparr>)"
    and abs': "sf_abs_of (s\<lparr>fifo := f', held := held s\<rparr>) = abs_put 2 0 1 (abs_get 0 1 (sf_abs_of s))"
    using ok f(5) abs by (auto simp: Let_def chan_ok_def)
  have eqs: "s\<lparr>fifo := f', held := held s\<rparr> = s\<lparr>fifo := f'\<rparr>" by simp
  have g0: "got (sf_abs_of s) 0 = []" by (rule chan_ok_got0 [OF ok])
  have a: "own (sf_abs_of (s\<lparr>fifo := f'\<rparr>)) 0 = is"
    "own (sf_abs_of (s\<lparr>fifo := f'\<rparr>)) 1 = own (sf_abs_of s) 1 @ [i]"
    "got (sf_abs_of (s\<lparr>fifo := f'\<rparr>)) 1 = got (sf_abs_of s) 1"
    using abs' fr g0 by (simp_all add: eqs abs_put_def abs_get_def Let_def)
  have "chan_send s = Some (chan_ptr s i, s\<lparr>fifo := f'\<rparr>)" using f f' by (simp add: chan_send_def)
  moreover have "chan_ok (s\<lparr>fifo := f'\<rparr>)" using ok inv' f f' by (simp add: chan_ok_def eqs)
  moreover have "chan_ptr (s\<lparr>fifo := f'\<rparr>) = chan_ptr s" using f f' by (intro chan_ptr_cong) simp_all
  ultimately show ?thesis using a f f' by auto
qed

lemma chan_recv_slot:
  assumes ok: "chan_ok s" and us: "own (sf_abs_of s) 1 = i # is"
  shows "\<exists>t. chan_recv s = Some (chan_ptr s i, t) \<and> chan_ok t \<and> chan_ptr t = chan_ptr s \<and> sf_n t = sf_n s
    \<and> own (sf_abs_of t) 0 = own (sf_abs_of s) 0 \<and> own (sf_abs_of t) 1 = is
    \<and> got (sf_abs_of t) 1 = got (sf_abs_of s) 1 @ [i]"
proof -
  obtain f where f: "CO_SharedFifoGet (fifo s) 1 1 = Some (CO_STATUS_OK, chan_ptr s i, f)"
    "EltBasePtr f = EltBasePtr (fifo s)" "EltSize f = EltSize (fifo s)"
    "EltNbr f = EltNbr (fifo s)" "BlockNbr f = BlockNbr (fifo s)"
    and inv: "sf_inv (s\<lparr>fifo := f, held := (held s)(1 := held s 1 + 1)\<rparr>)"
    and abs: "sf_abs_of (s\<lparr>fifo := f, held := (held s)(1 := held s 1 + 1)\<rparr>)
      = abs_get 1 1 (sf_abs_of s)"
    using chan_get [OF ok, of 1] us by (auto simp: Let_def)
  let ?t = "s\<lparr>fifo := f, held := (held s)(1 := held s 1 + 1)\<rparr>"
  have "chan_ptr ?t = chan_ptr s" using f by (intro chan_ptr_cong) simp_all
  moreover have "chan_ok ?t" using ok inv f by (simp add: chan_ok_def)
  ultimately show ?thesis using f abs us by (auto simp: chan_recv_def abs_get_def)
qed

lemma chan_release_slot:
  assumes ok: "chan_ok s" and bs: "got (sf_abs_of s) 1 = i # is"
  shows "\<exists>t. chan_release s = Some t \<and> chan_ok t \<and> chan_ptr t = chan_ptr s \<and> sf_n t = sf_n s
    \<and> got (sf_abs_of t) 1 = is \<and> own (sf_abs_of t) 1 = own (sf_abs_of s) 1"
proof -
  have inv: "sf_inv s" and k: "sf_k s = 2" using ok by (simp_all add: chan_ok_def)
  have h: "unat (1::u8) < sf_k s" "unat (1::u32) \<le> held s (unat (1::u8))"
    using bs k by (auto simp: sf_abs_of_def sf_held_slots_def upt_eq_Cons_conv)
  from sf_put_refines [OF inv h] obtain f where f: "CO_SharedFifoPut (fifo s) 1 1 = Some (CO_STATUS_OK, f)"
    "EltBasePtr f = EltBasePtr (fifo s)" "EltSize f = EltSize (fifo s)"
    "EltNbr f = EltNbr (fifo s)" "BlockNbr f = BlockNbr (fifo s)"
    and inv': "sf_inv (s\<lparr>fifo := f, held := (held s)(1 := held s 1 - 1)\<rparr>)"
    and abs: "sf_abs_of (s\<lparr>fifo := f, held := (held s)(1 := held s 1 - 1)\<rparr>)
      = abs_put 2 1 1 (sf_abs_of s)"
    by (auto simp: Let_def k)
  let ?t = "s\<lparr>fifo := f, held := (held s)(1 := held s 1 - 1)\<rparr>"
  have "chan_ptr ?t = chan_ptr s" using f by (intro chan_ptr_cong) simp_all
  moreover have "chan_ok ?t" using ok inv' f by (simp add: chan_ok_def)
  ultimately show ?thesis using f abs bs by (auto simp: chan_release_def abs_put_def Let_def)
qed

interpretation sf: slot_channel chan_ok chan_free chan_used chan_busy chan_send chan_recv chan_release
  "\<lambda>s. sf_n s - 1"
proof (unfold_locales, goal_cases)
  case (1 s) then show ?case by (rule chan_apart(1))
next
  case (2 s) then show ?case by (rule chan_apart(2))
next
  case (3 s)
  then have "own (sf_abs_of s) (unat (0::u8)) = []" by (simp add: chan_free_def)
  with 3 chan_get_none [of s 0] show ?case by (simp add: chan_send_def)
next
  case (4 s p ps)
  then obtain i "is" where "own (sf_abs_of s) 0 = i # is" "p = chan_ptr s i" "ps = map (chan_ptr s) is"
    by (auto simp: chan_free_def)
  with chan_send_slot [OF 4(1)] show ?case by (fastforce simp: chan_free_def chan_used_def chan_busy_def)
next
  case (5 s p ps)
  then obtain i "is" where "own (sf_abs_of s) 1 = i # is" "p = chan_ptr s i" "ps = map (chan_ptr s) is"
    by (auto simp: chan_used_def)
  with chan_recv_slot [OF 5(1)] show ?case by (fastforce simp: chan_free_def chan_used_def chan_busy_def)
next
  case (6 s p ps)
  then obtain i "is" where "got (sf_abs_of s) 1 = i # is" "p = chan_ptr s i" "ps = map (chan_ptr s) is"
    by (auto simp: chan_busy_def)
  with chan_release_slot [OF 6(1)] show ?case by (fastforce simp: chan_used_def chan_busy_def)
qed


section \<open>Properties\<close>

text \<open>C1: From every reachable state, a get of \<open>n\<close> elements by a block succeeds exactly when the
  block owns at least \<open>n\<close> elements; it then returns the address of the block's oldest element and
  moves the \<open>n\<close> oldest from its queue to the elements it holds. Otherwise it reports
  \<open>CO_NO_ELT_IN_USE\<close>, returns NULL and changes nothing.\<close>

theorem shared_fifo_get:
  assumes "sf_reach s" and "unat b < unat (BlockNbr (fifo s))"
  shows "\<exists>st p f'. CO_SharedFifoGet (fifo s) b n = Some (st, p, f') \<and>
    (if unat n \<le> length (own (sf_abs_of s) (unat b))
     then st = CO_STATUS_OK \<and> p = CO_SharedFifoGetPtr (fifo s) (Out (IdxTab (fifo s) ! unat b))
       \<and> EltBasePtr f' = EltBasePtr (fifo s) \<and> EltSize f' = EltSize (fifo s)
       \<and> EltNbr f' = EltNbr (fifo s) \<and> BlockNbr f' = BlockNbr (fifo s)
       \<and> (let t = s\<lparr>fifo := f', held := (held s)(unat b := held s (unat b) + unat n)\<rparr> in
          sf_inv t \<and> sf_abs_of t = abs_get (unat b) (unat n) (sf_abs_of s))
     else st = CO_NO_ELT_IN_USE \<and> p = 0 \<and> f' = fifo s)"
  by (rule sf_get_refines [OF sf_reach_inv [OF assms(1)] assms(2)])

definition sf_demo :: sf_sys where
  "sf_demo = \<lparr>fifo = \<lparr>EltBasePhy = 0, EltBasePtr = 4096, EltNbr = 4, EltSize = 16, BlockNbr = 2,
     IdxTab = [\<lparr>Flag = 0, In = 0, Out = 1\<rparr>, \<lparr>Flag = 0, In = 1, Out = 1\<rparr>,
               \<lparr>Flag = 0, In = 7, Out = 7\<rparr>, \<lparr>Flag = 0, In = 7, Out = 7\<rparr>]\<rparr>, held = (\<lambda>_. 0)\<rparr>"

lemma sf_demo_reach: "sf_reach sf_demo"
proof -
  let ?f0 = "\<lparr>EltBasePhy = 0, EltBasePtr = 0, EltNbr = 0, EltSize = 0, BlockNbr = 0,
     IdxTab = replicate 4 \<lparr>Flag = 0, In = 7, Out = 7\<rparr>\<rparr>"
  have "CO_SharedFifoInit ?f0 0 4096 4 16 2 = Some (fifo sf_demo)"
    by code_simp
  then have "sf_reach \<lparr>fifo = fifo sf_demo, held = (\<lambda>_. 0)\<rparr>"
    by (rule sf_reach.init [rotated 4]) (simp_all add: CO_SF_BLOCK_DEF_NBR_def)
  then show ?thesis by (simp add: sf_demo_def)
qed

theorem shared_fifo_get_witness:
  "\<exists>st p f'. CO_SharedFifoGet (fifo sf_demo) 0 2 = Some (st, p, f') \<and> st = CO_STATUS_OK \<and> p = 4112"
proof -
  have b: "unat (0::u8) < unat (BlockNbr (fifo sf_demo))" by code_simp
  have l: "unat (2::u32) \<le> length (own (sf_abs_of sf_demo) (unat (0::u8)))" by code_simp
  have p: "CO_SharedFifoGetPtr (fifo sf_demo) (Out (IdxTab (fifo sf_demo) ! unat (0::u8))) = 4112"
    by code_simp
  from shared_fifo_get [OF sf_demo_reach b, of 2] l p show ?thesis by auto
qed

text \<open>C2: From every reachable state, a put of \<open>n\<close> elements the block holds always succeeds and
  appends the \<open>n\<close> elements the block has held longest to the queue of the next block.\<close>

theorem shared_fifo_put:
  assumes "sf_reach s" and "unat b < unat (BlockNbr (fifo s))" and "unat n \<le> held s (unat b)"
  shows "\<exists>f'. CO_SharedFifoPut (fifo s) b n = Some (CO_STATUS_OK, f')
       \<and> EltBasePtr f' = EltBasePtr (fifo s) \<and> EltSize f' = EltSize (fifo s)
       \<and> EltNbr f' = EltNbr (fifo s) \<and> BlockNbr f' = BlockNbr (fifo s)
       \<and> (let t = s\<lparr>fifo := f', held := (held s)(unat b := held s (unat b) - unat n)\<rparr> in
          sf_inv t \<and> sf_abs_of t = abs_put (sf_k s) (unat b) (unat n) (sf_abs_of s))"
  by (rule sf_put_refines [OF sf_reach_inv [OF assms(1)] assms(2,3)])

definition sf_demo2 :: sf_sys where
  "sf_demo2 = sf_demo\<lparr>fifo := (fifo sf_demo)\<lparr>IdxTab := (IdxTab (fifo sf_demo))
     [0 := \<lparr>Flag = 0, In = 0, Out = 3\<rparr>]\<rparr>, held := (\<lambda>_. 0)(0 := 2)\<rparr>"

lemma sf_demo2_reach: "sf_reach sf_demo2"
proof -
  have "CO_SharedFifoGet (fifo sf_demo) 0 2 = Some (CO_STATUS_OK, 4112, fifo sf_demo2)" by code_simp
  from sf_step.get [OF _ this] have
    "sf_step sf_demo (sf_demo\<lparr>fifo := fifo sf_demo2,
       held := (held sf_demo)(unat (0::u8) := held sf_demo (unat (0::u8)) + unat (2::u32))\<rparr>)"
    by (simp add: sf_demo_def del: unat_numeral)
  moreover have "unat (2::u32) = 2" by simp
  ultimately have "sf_step sf_demo (sf_demo\<lparr>fifo := fifo sf_demo2, held := (held sf_demo)(0 := 2)\<rparr>)"
    by (simp only: unat_0 sf_demo_def sf_sys.simps add_0)
  moreover have "sf_demo\<lparr>fifo := fifo sf_demo2, held := (held sf_demo)(0 := 2)\<rparr> = sf_demo2"
    by (simp add: sf_demo2_def sf_demo_def)
  ultimately show ?thesis using sf_reach.step [OF sf_demo_reach] by simp
qed

theorem shared_fifo_put_witness:
  "\<exists>f'. CO_SharedFifoPut (fifo sf_demo2) 0 2 = Some (CO_STATUS_OK, f')"
proof -
  have b: "unat (0::u8) < unat (BlockNbr (fifo sf_demo2))" by code_simp
  have h: "unat (2::u32) \<le> held sf_demo2 (unat (0::u8))" by (simp add: sf_demo2_def)
  from shared_fifo_put [OF sf_demo2_reach b h] show ?thesis by blast
qed

text \<open>C3: In every reachable state the queues of the blocks, the elements they hold and one spare
  slot split the pool: every pool index occurs exactly once, so no element is lost, duplicated or
  owned by two blocks.\<close>

theorem shared_fifo_partition:
  assumes "sf_reach s"
  shows "distinct (sf_pool (sf_k s) (sf_abs_of s))
    \<and> set (sf_pool (sf_k s) (sf_abs_of s)) = {..<unat (EltNbr (fifo s))}"
  using sf_pool_partition [OF sf_reach_inv [OF assms]] by blast

theorem shared_fifo_partition_witness: "distinct (sf_pool 2 (sf_abs_of sf_demo2))"
proof -
  have "sf_k sf_demo2 = 2" by code_simp
  with shared_fifo_partition [OF sf_demo2_reach] show ?thesis by simp
qed

text \<open>The two count routines agree on every reachable state: \<open>CO_SharedFifoNbElt\<close> and
  \<open>CO_SharedFifoNbEltCont\<close> both return the length of the block's queue, without wrap-around at 32
  bits, and \<open>CO_SharedFifoEmpty\<close> returns true exactly when the queue is not empty.\<close>

theorem shared_fifo_counts:
  assumes "sf_reach s" and "unat b < unat (BlockNbr (fifo s))"
  shows "\<exists>n. CO_SharedFifoNbElt (fifo s) b = Some n \<and> CO_SharedFifoNbEltCont (fifo s) b = Some n
    \<and> unat n = length (own (sf_abs_of s) (unat b))
    \<and> CO_SharedFifoEmpty (fifo s) b = Some (own (sf_abs_of s) (unat b) \<noteq> [])"
proof -
  have wf: "sf_wf (fifo s)" using sf_reach_inv [OF assms(1)] by (simp add: sf_inv_def)
  note w = sf_wfD [OF wf]
  have len: "length (own (sf_abs_of s) (unat b)) = sf_cnt (fifo s) (unat b)"
    using assms(2) by (simp add: sf_abs_of_def sf_slots_def)
  have "sf_cnt (fifo s) (unat b) = 0 \<longleftrightarrow> sf_out (fifo s) (unat b) = sf_in (fifo s) (unat b)"
    using w(6,7) [OF assms(2)] by (simp add: sf_cnt_def cdist_0_iff)
  then have "In (IdxTab (fifo s) ! unat b) \<noteq> Out (IdxTab (fifo s) ! unat b)
      \<longleftrightarrow> own (sf_abs_of s) (unat b) \<noteq> []"
    unfolding length_0_conv [symmetric] len by (auto simp: word_unat_eq_iff)
  moreover have "unat b < length (IdxTab (fifo s))" using w(1,3) assms(2) by linarith
  moreover obtain n m where "CO_SharedFifoNbElt (fifo s) b = Some n" "CO_SharedFifoNbEltCont (fifo s) b = Some m"
    "unat n = sf_cnt (fifo s) (unat b)" "unat m = sf_cnt (fifo s) (unat b)"
    using CO_SharedFifoNbElt_cnt [OF wf assms(2)] CO_SharedFifoNbEltCont_cnt [OF wf assms(2)] by auto
  moreover from this have "n = m" by (simp add: word_unat_eq_iff)
  ultimately show ?thesis using len by (simp add: CO_SharedFifoEmpty_def)
qed

theorem shared_fifo_counts_witness:
  "\<exists>n. CO_SharedFifoNbElt (fifo sf_demo2) 0 = Some n \<and> unat n = 1"
proof -
  have b: "unat (0::u8) < unat (BlockNbr (fifo sf_demo2))" by code_simp
  have "length (own (sf_abs_of sf_demo2) (unat (0::u8))) = 1" by code_simp
  with shared_fifo_counts [OF sf_demo2_reach b] show ?thesis by auto
qed


end
