(* ===== verification/OsTimer.thy ===== *)
theory OsTimer
  imports Prelude
begin

text \<open>
  The timer object of \<^verbatim>\<open>wifi_drv_timer.c\<close>. The kernel timer below it is one field: the period it
  is armed with, or nothing (\<^verbatim>\<open>mod_timer\<close> arms it, \<^verbatim>\<open>del_timer\<close> disarms it and reports whether it was
  armed). \<^verbatim>\<open>cmpxchg(&lock, old, new)\<close> is \<open>cmpxchg\<close>: the previous value and the new one. The
  cancelling thread races with the handler on another core for \<open>timer_lock\<close>: \<open>busy k\<close> tells
  whether its \<open>k\<close>-th attempt finds the lock taken. Context and handler function are the parameter
  \<open>run\<close> of the handler.
\<close>

record os_timer_ext =
  os_timer :: "u32 option"
  timer_lock :: int
  cancel_flag :: bool
  active_flag :: bool
  timer_period :: u32

definition OS_TIMER_NOT_REARMED :: int where
  "OS_TIMER_NOT_REARMED = 1"

definition OS_TIMER_REARMED :: int where
  "OS_TIMER_REARMED = 0"

datatype timer_flags = CANCEL_SLEEP | CANCEL_NO_SLEEP

definition cmpxchg :: "int \<Rightarrow> int \<Rightarrow> int \<Rightarrow> int \<times> int" where
  "cmpxchg cur old new = (cur, if cur = old then new else cur)"

definition OS_SET_TIMER :: "u32 \<Rightarrow> os_timer_ext \<Rightarrow> os_timer_ext" where
  "OS_SET_TIMER ms t = t\<lparr>os_timer := Some ms\<rparr>"

definition OS_CANCEL_TIMER :: "os_timer_ext \<Rightarrow> bool \<times> os_timer_ext" where
  "OS_CANCEL_TIMER t = (os_timer t \<noteq> None, t\<lparr>os_timer := None\<rparr>)"

definition timer_unlock :: "os_timer_ext \<Rightarrow> os_timer_ext" where
  "timer_unlock t = t\<lparr>timer_lock := snd (cmpxchg (timer_lock t) 1 0)\<rparr>"

text \<open>The handler returns the timer object and whether the client's function ran.\<close>

definition os_timer_ex_handler ::
    "(os_timer_ext \<Rightarrow> int \<times> os_timer_ext) \<Rightarrow> os_timer_ext \<Rightarrow> os_timer_ext \<times> bool" where
  "os_timer_ex_handler run t =
     (let (prev, new) = cmpxchg (timer_lock t) 0 1; t = t\<lparr>timer_lock := new\<rparr> in
      if prev = 1 then (t, False)
      else if cancel_flag t then (timer_unlock t, False)
      else
        let (r, t) = run t;
            t = (if r = OS_TIMER_REARMED then OS_SET_TIMER (timer_period t) t
                 else t\<lparr>active_flag := False\<rparr>)
        in (timer_unlock t, True))"

definition os_timer_ex_initialize :: "u32 \<Rightarrow> os_timer_ext" where
  "os_timer_ex_initialize period =
     \<lparr>os_timer = None, timer_lock = 0, cancel_flag = False, active_flag = False, timer_period = period\<rparr>"

definition os_set_timer_period :: "os_timer_ext \<Rightarrow> u32 \<Rightarrow> os_timer_ext" where
  "os_set_timer_period t period = t\<lparr>timer_period := period\<rparr>"

definition os_timer_ex_start :: "os_timer_ext \<Rightarrow> os_timer_ext" where
  "os_timer_ex_start t =
     (let t = t\<lparr>active_flag := True, cancel_flag := False\<rparr> in OS_SET_TIMER (timer_period t) t)"

definition os_timer_ex_start_period :: "os_timer_ext \<Rightarrow> u32 \<Rightarrow> os_timer_ext" where
  "os_timer_ex_start_period t period = os_timer_ex_start (os_set_timer_period t period)"

text \<open>The wait for the lock: the last value of \<open>tick_counter\<close> tested, and whether the lock was
  taken. It returns for every behaviour of the other core.\<close>

function os_timer_wait :: "(nat \<Rightarrow> bool) \<Rightarrow> nat \<Rightarrow> nat \<times> bool" where
  "os_timer_wait busy tick_counter =
     (if busy tick_counter
      then if tick_counter > 1000 then (tick_counter, False)
           else os_timer_wait busy (tick_counter + 1)
      else (tick_counter, True))"
  by pat_completeness auto
termination by (relation "measure (\<lambda>(busy, k). 1002 - k)") auto

declare os_timer_wait.simps [simp del]

definition os_timer_ex_cancel :: "(nat \<Rightarrow> bool) \<Rightarrow> os_timer_ext \<Rightarrow> bool \<times> os_timer_ext" where
  "os_timer_ex_cancel busy t =
     (let t = t\<lparr>cancel_flag := True\<rparr> in
      if \<not> active_flag t then (True, t)
      else
        let (ticks, got) = os_timer_wait busy 0;
            t = t\<lparr>timer_lock := 1\<rparr>;
            (canceled, t) = OS_CANCEL_TIMER t;
            t = t\<lparr>active_flag := False\<rparr>
        in (canceled, timer_unlock t))"

definition os_timer_ex_active :: "os_timer_ext \<Rightarrow> bool" where
  "os_timer_ex_active t = active_flag t"

definition os_timer_ex_del :: "(nat \<Rightarrow> bool) \<Rightarrow> os_timer_ext \<Rightarrow> bool \<times> os_timer_ext" where
  "os_timer_ex_del busy t =
     (if os_timer_ex_active t then os_timer_ex_cancel busy t else (True, t))"

section \<open>Lemmas\<close>

lemma timer_unlock_simps [simp]:
  "active_flag (timer_unlock t) = active_flag t" "cancel_flag (timer_unlock t) = cancel_flag t"
  "os_timer (timer_unlock t) = os_timer t" "timer_period (timer_unlock t) = timer_period t"
  by (simp_all add: timer_unlock_def)

text \<open>At most 1001 waits of ten microseconds, whatever the other core does.\<close>

lemma os_timer_wait_bound: "k \<le> 1001 \<Longrightarrow> fst (os_timer_wait busy k) \<le> 1001"
proof (induction busy k rule: os_timer_wait.induct)
  case (1 busy k)
  then show ?case by (subst os_timer_wait.simps) auto
qed

lemma os_timer_wait_got: "snd (os_timer_wait busy k) \<longleftrightarrow> \<not> busy (fst (os_timer_wait busy k))"
proof (induction busy k rule: os_timer_wait.induct)
  case (1 busy k)
  then show ?case
    by (subst os_timer_wait.simps, subst (2) os_timer_wait.simps) auto
qed

text \<open>The outcome of a cancel does not depend on the race for the lock.\<close>

lemma os_timer_ex_cancel_eq:
  "os_timer_ex_cancel busy t =
     (if active_flag t
      then (os_timer t \<noteq> None,
            t\<lparr>cancel_flag := True, os_timer := None, active_flag := False, timer_lock := 0\<rparr>)
      else (True, t\<lparr>cancel_flag := True\<rparr>))"
  by (simp add: os_timer_ex_cancel_def Let_def OS_CANCEL_TIMER_def timer_unlock_def cmpxchg_def
      split: prod.split)

lemma os_timer_ex_handler_cancelled:
  "cancel_flag t \<Longrightarrow> snd (os_timer_ex_handler run t) = False
     \<and> os_timer (fst (os_timer_ex_handler run t)) = os_timer t"
  by (simp add: os_timer_ex_handler_def Let_def cmpxchg_def)

section \<open>Properties\<close>

text \<open>A cancelled timer is dead until it is started again: whatever the race for its lock,
  cancelling an active timer leaves it inactive, disarmed and unlocked, and a late run of the kernel
  timer neither calls the client's function nor arms the timer again.\<close>

theorem timer_cancel_stops:
  assumes "active_flag t"
  shows "\<not> active_flag (snd (os_timer_ex_cancel busy t))
    \<and> os_timer (snd (os_timer_ex_cancel busy t)) = None
    \<and> timer_lock (snd (os_timer_ex_cancel busy t)) = 0
    \<and> snd (os_timer_ex_handler run (snd (os_timer_ex_cancel busy t))) = False
    \<and> os_timer (fst (os_timer_ex_handler run (snd (os_timer_ex_cancel busy t)))) = None"
  using assms by (simp add: os_timer_ex_cancel_eq os_timer_ex_handler_cancelled)

theorem timer_cancel_stops_witness:
  "os_timer (snd (os_timer_ex_cancel (\<lambda>_. True) (os_timer_ex_start (os_timer_ex_initialize 80)))) = None"
proof -
  have "active_flag (os_timer_ex_start (os_timer_ex_initialize 80))"
    by (simp add: os_timer_ex_start_def OS_SET_TIMER_def)
  from timer_cancel_stops [OF this, of "\<lambda>_. True"] show ?thesis by blast
qed

end
