(* ===== verification/Aggr.thy ===== *)
theory Aggr
  imports Prelude
begin

text \<open>
  What the two ends of a block-ack session share: the sizes of \<^verbatim>\<open>wifi_drv_main.h\<close>, the index of
  a sequence number in a window (\<^verbatim>\<open>DRV_BA_INDEX\<close>), and the parameter field of the ADDBA frames.
\<close>

definition DRV_TID_MAX_BUFS :: nat where "DRV_TID_MAX_BUFS = 128"
definition WME_MAX_BA :: nat where "WME_MAX_BA = 64"
definition WME_NUM_TID :: nat where "WME_NUM_TID = 8"
definition WIFINET_SEQ_MAX :: nat where "WIFINET_SEQ_MAX = 4096"
definition WIFINET_STATUS_SUCCESS :: u16 where "WIFINET_STATUS_SUCCESS = 0"

definition DRV_BA_INDEX :: "nat \<Rightarrow> nat \<Rightarrow> nat" where
  "DRV_BA_INDEX st sq = nat ((int sq - int st) AND (int WIFINET_SEQ_MAX - 1))"

record ba_parameterset =
  amsdusupported :: nat
  bapolicy :: nat
  ba_tid :: nat
  buffersize :: nat

lemma DRV_BA_INDEX_cdist: "DRV_BA_INDEX st sq = cdist st sq 4096"
  by (simp add: DRV_BA_INDEX_def cdist_def WIFINET_SEQ_MAX_def int_and_4095)

lemma DRV_BA_INDEX_less: "DRV_BA_INDEX st sq < 4096"
  by (simp add: DRV_BA_INDEX_cdist cdist_less)

end
