(* ===== verification/RxReorder.thy ===== *)
theory RxReorder
  imports OsTimer Aggr "HOL-Library.Multiset"
begin

text \<open>
  The receive reorder buffer of \<^verbatim>\<open>wifi_drv_recv.c\<close>: per traffic id a scoreboard with a ring of 128
  slots (\<open>pRxDesc\<close>), the sequence number expected next (\<open>seq_next\<close>) and the ring indices of the
  window (\<open>baw_head\<close>, \<open>baw_tail\<close>). Frames arrive out of order, wait in their slot and are handed
  to \<^verbatim>\<open>wifi_mac_input\<close> in sequence.
  Frames are byte lists with an identity. Calls into the other layers (\<^verbatim>\<open>wifi_mac_input\<close>,
  \<^verbatim>\<open>os_skb_free\<close>, the HAL) are entries of an event log; what \<^verbatim>\<open>wifi_mac_input\<close> returns is the
  parameter \<open>ret\<close>, the clock a parameter \<open>now\<close>. The spin locks only serialise the operations.
  Sequence numbers and ring indices are natural numbers: the invariant shows that they stay below
  4096 and 128, so no C integer wraps. \<open>None\<close> is an access outside an array, a dereference of
  NULL, or a loop that does not return.
\<close>

section \<open>Data\<close>

definition DRV_RX_TIMEOUT :: u64 where "DRV_RX_TIMEOUT = 80"
definition WIFINET_STATUS_REFUSED :: u16 where "WIFINET_STATUS_REFUSED = 37"

record sk_buff =
  skb_id :: nat
  skb_data :: "u8 list"

type_synonym rx_status = nat

record drv_rxdesc =
  rx_wbuf :: "sk_buff option"
  rx_time :: u64
  rs :: rx_status

record drv_rx_scoreboard =
  seq_next :: nat
  baw_size :: nat
  baw_head :: nat
  baw_tail :: nat
  seq_reset :: bool
  timer :: os_timer_ext
  pRxDesc :: "drv_rxdesc list option"
  dialogtoken :: u8
  statuscode :: u16
  baparamset :: ba_parameterset
  batimeout :: u16
  userstatuscode :: u16
  rx_addba_exchangecomplete :: bool

datatype ba_role = BA_INITIATOR | BA_RESPONDER

datatype rx_event =
    MacInput sk_buff rx_status
  | SkbFree sk_buff
  | ScanChkLeakap sk_buff
  | HalAddBaOk nat nat nat ba_role
  | HalDelBaOk nat ba_role
  | TxAmpduDel nat
  | AddWorkItem nat

record rx_env =
  rx_ampdu_cnt :: nat
  rx_bar_cnt :: nat
  rx_bardrop_cnt :: nat
  rx_nonqos_cnt :: nat
  rx_ok_cnt :: nat
  rx_dup_cnt :: nat
  rx_skipped_cnt :: nat
  rx_log :: "rx_event list"

record rx_nsta =
  rx_scb :: "drv_rx_scoreboard list"
  cfg_rxaggr :: bool
  env :: rx_env

definition emit :: "rx_event \<Rightarrow> rx_env \<Rightarrow> rx_env" where
  "emit x e = e\<lparr>rx_log := rx_log e @ [x]\<rparr>"

section \<open>Moving the window\<close>

definition rx_desc :: "drv_rx_scoreboard \<Rightarrow> nat \<Rightarrow> drv_rxdesc option" where
  "rx_desc s i = (case pRxDesc s of None \<Rightarrow> None | Some ds \<Rightarrow> nth_opt ds i)"

definition rx_set_desc :: "drv_rx_scoreboard \<Rightarrow> nat \<Rightarrow> drv_rxdesc \<Rightarrow> drv_rx_scoreboard" where
  "rx_set_desc s i d = s\<lparr>pRxDesc := map_option (\<lambda>ds. ds[i := d]) (pRxDesc s)\<rparr>"

definition rx_clear :: "drv_rx_scoreboard \<Rightarrow> nat \<Rightarrow> drv_rxdesc \<Rightarrow> drv_rx_scoreboard" where
  "rx_clear s i d = rx_set_desc s i (d\<lparr>rx_wbuf := None\<rparr>)"

text \<open>The pair of increments at the end of every loop body.\<close>

definition rx_advance :: "drv_rx_scoreboard \<Rightarrow> drv_rx_scoreboard" where
  "rx_advance s = s\<lparr>baw_head := CIRCLE_Add_One (baw_head s) DRV_TID_MAX_BUFS,
                    seq_next := CIRCLE_Add_One (seq_next s) WIFINET_SEQ_MAX\<rparr>"

text \<open>\<open>drv_rx_flush_tid\<close>: everything between head and tail goes up, or is freed.\<close>

partial_function (option) drv_rx_flush_tid ::
    "bool \<Rightarrow> drv_rx_scoreboard \<Rightarrow> rx_env \<Rightarrow> (drv_rx_scoreboard \<times> rx_env) option" where
  "drv_rx_flush_tid drp s e =
     (if baw_head s = baw_tail s then Some (s, e)
      else case rx_desc s (baw_head s) of
        None \<Rightarrow> None
      | Some d \<Rightarrow>
          (case rx_wbuf d of
             None \<Rightarrow> drv_rx_flush_tid drp (rx_advance s) (e\<lparr>rx_skipped_cnt := rx_skipped_cnt e + 1\<rparr>)
           | Some b \<Rightarrow>
               drv_rx_flush_tid drp (rx_advance (rx_clear s (baw_head s) d))
                 (emit (if drp then SkbFree b else MacInput b (rs d))
                   (e\<lparr>rx_ok_cnt := rx_ok_cnt e + 1\<rparr>))))"

text \<open>The two loops of \<open>drv_rx_bar\<close>: up to the slot \<open>desc_id\<close>, then the frames in sequence.\<close>

partial_function (option) rx_bar_skip ::
    "nat \<Rightarrow> drv_rx_scoreboard \<Rightarrow> rx_env \<Rightarrow> (drv_rx_scoreboard \<times> rx_env) option" where
  "rx_bar_skip desc_id s e =
     (if baw_head s = baw_tail s \<or> baw_head s = desc_id then Some (s, e)
      else case rx_desc s (baw_head s) of
        None \<Rightarrow> None
      | Some d \<Rightarrow>
          rx_bar_skip desc_id (rx_advance (rx_clear s (baw_head s) d))
            (case rx_wbuf d of None \<Rightarrow> e | Some b \<Rightarrow> emit (MacInput b (rs d)) e))"

partial_function (option) rx_bar_drain ::
    "drv_rx_scoreboard \<Rightarrow> rx_env \<Rightarrow> (drv_rx_scoreboard \<times> rx_env) option" where
  "rx_bar_drain s e =
     (if baw_head s = baw_tail s then Some (s, e)
      else case rx_desc s (baw_head s) of
        None \<Rightarrow> None
      | Some d \<Rightarrow>
          (case rx_wbuf d of
             None \<Rightarrow> Some (s, e)
           | Some b \<Rightarrow> rx_bar_drain (rx_advance (rx_clear s (baw_head s) d)) (emit (MacInput b (rs d)) e)))"

text \<open>The two loops of \<open>drv_rx_input\<close>: the window slides until \<open>index\<close> lies in it, and the
  frames at its head go up. The slide loop counts \<open>index\<close> down, so it is structural.\<close>

fun rx_slide :: "nat \<Rightarrow> drv_rx_scoreboard \<Rightarrow> rx_env \<Rightarrow> (drv_rx_scoreboard \<times> rx_env) option" where
  "rx_slide 0 s e = Some (s, e)"
| "rx_slide (Suc n) s e =
     (case rx_desc s (baw_head s) of
        None \<Rightarrow> None
      | Some d \<Rightarrow>
          (case rx_wbuf d of
             None \<Rightarrow> rx_slide n (rx_advance s) e
           | Some b \<Rightarrow> rx_slide n (rx_advance (rx_clear s (baw_head s) d))
               ((emit (MacInput b (rs d)) e)\<lparr>rx_ok_cnt := rx_ok_cnt e + 1\<rparr>)))"

partial_function (option) rx_drain ::
    "drv_rx_scoreboard \<Rightarrow> rx_env \<Rightarrow> (drv_rx_scoreboard \<times> rx_env) option" where
  "rx_drain s e =
     (if baw_head s = baw_tail s then Some (s, e)
      else case rx_desc s (baw_head s) of
        None \<Rightarrow> None
      | Some d \<Rightarrow>
          (case rx_wbuf d of
             None \<Rightarrow> Some (s, e)
           | Some b \<Rightarrow> rx_drain (rx_advance (rx_clear s (baw_head s) d))
               (emit (MacInput b (rs d)) (e\<lparr>rx_ok_cnt := rx_ok_cnt e + 1\<rparr>))))"

text \<open>The loop of \<open>drv_rx_sort_timer_ex\<close>. \<open>bawhead\<close> runs ahead of \<open>baw_head\<close>, \<open>cnt\<close> is its
  lead; \<open>clk bawhead\<close> is the clock read at slot \<open>bawhead\<close>. The signed difference of the two
  times is stored in an unsigned long, so it is their difference modulo \<open>2 ^ 64\<close>.\<close>

partial_function (option) rx_sort_loop ::
    "(nat \<Rightarrow> u64) \<Rightarrow> nat \<Rightarrow> nat \<Rightarrow> drv_rx_scoreboard \<Rightarrow> rx_env \<Rightarrow> (drv_rx_scoreboard \<times> rx_env) option" where
  "rx_sort_loop clk bawhead cnt s e =
     (if bawhead = baw_tail s then Some (s, e)
      else case rx_desc s bawhead of
        None \<Rightarrow> None
      | Some d \<Rightarrow>
          (case rx_wbuf d of
             None \<Rightarrow> rx_sort_loop clk (CIRCLE_Add_One bawhead DRV_TID_MAX_BUFS) (cnt + 1) s e
           | Some b \<Rightarrow>
               let diff = clk bawhead - rx_time d in
               if diff < DRV_RX_TIMEOUT then
                 Some (s\<lparr>timer := os_set_timer_period (timer s) (ucast (DRV_RX_TIMEOUT - diff))\<rparr>, e)
               else
                 let e = emit (MacInput b (rs d)) (e\<lparr>rx_ok_cnt := rx_ok_cnt e + 1\<rparr>);
                     s = rx_clear s bawhead d;
                     bawhead = CIRCLE_Add_One bawhead DRV_TID_MAX_BUFS
                 in rx_sort_loop clk bawhead 0
                      (s\<lparr>seq_next := CIRCLE_Addition2 (seq_next s) (cnt + 1) WIFINET_SEQ_MAX,
                         baw_head := bawhead\<rparr>) e))"

definition drv_rx_sort_timer_ex ::
    "(nat \<Rightarrow> u64) \<Rightarrow> drv_rx_scoreboard \<Rightarrow> rx_env \<Rightarrow> (drv_rx_scoreboard \<times> rx_env) option" where
  "drv_rx_sort_timer_ex clk s e =
     (case rx_sort_loop clk (baw_head s) 0 s e of
        None \<Rightarrow> None
      | Some (s, e) \<Rightarrow>
          Some (if baw_head s \<noteq> baw_tail s then s\<lparr>timer := os_timer_ex_start (timer s)\<rparr> else s, e))"

text \<open>The timer's client function defers to the work queue and does not rearm.\<close>

definition drv_rx_sort_timer :: "nat \<Rightarrow> rx_env \<Rightarrow> int \<times> rx_env" where
  "drv_rx_sort_timer tid e = (OS_TIMER_NOT_REARMED, emit (AddWorkItem tid) e)"

section \<open>The operations\<close>

text \<open>Access to one of the eight scoreboards of a station; ids above seven are outside the array.\<close>

definition scb_upd :: "rx_nsta \<Rightarrow> nat \<Rightarrow> (drv_rx_scoreboard \<times> rx_env) \<Rightarrow> rx_nsta" where
  "scb_upd n tid p = n\<lparr>rx_scb := (rx_scb n)[tid := fst p], env := snd p\<rparr>"

definition drv_set_addba_rsp :: "rx_nsta \<Rightarrow> u8 \<Rightarrow> u16 \<Rightarrow> rx_nsta option" where
  "drv_set_addba_rsp n tid_index code =
     (case nth_opt (rx_scb n) (unat tid_index) of
        None \<Rightarrow> None
      | Some s \<Rightarrow> Some (scb_upd n (unat tid_index) (s\<lparr>userstatuscode := code\<rparr>, env n)))"

definition drv_clr_addba_rsp_status :: "rx_nsta \<Rightarrow> rx_nsta" where
  "drv_clr_addba_rsp_status n =
     n\<lparr>rx_scb := map (\<lambda>s. s\<lparr>userstatuscode := WIFINET_STATUS_SUCCESS\<rparr>) (rx_scb n)\<rparr>"

text \<open>\<open>NET_MALLOC\<close> zeroes the memory it returns; \<open>alloc_ok\<close> tells whether it succeeds. The
  timer is cancelled without a race for its lock, which lemma \<open>os_timer_ex_cancel_eq\<close> shows to
  be no restriction.\<close>

definition rx_cancel_timer :: "drv_rx_scoreboard \<Rightarrow> drv_rx_scoreboard" where
  "rx_cancel_timer s = s\<lparr>timer := snd (os_timer_ex_cancel (\<lambda>_. False) (timer s))\<rparr>"

definition drv_rx_addbareq ::
    "bool \<Rightarrow> rx_nsta \<Rightarrow> u8 \<Rightarrow> ba_parameterset \<Rightarrow> u16 \<Rightarrow> nat \<Rightarrow> rx_nsta option" where
  "drv_rx_addbareq alloc_ok n token bap batmo startseqnum =
     (let tid_index = ba_tid bap in
      case nth_opt (rx_scb n) tid_index of
        None \<Rightarrow> None
      | Some s \<Rightarrow>
         (case
           (if \<not> cfg_rxaggr n then Some (s\<lparr>statuscode := WIFINET_STATUS_REFUSED\<rparr>, env n)
            else if userstatuscode s \<noteq> WIFINET_STATUS_SUCCESS then
              Some (s\<lparr>statuscode := userstatuscode s\<rparr>, env n)
            else
              (case
                (if rx_addba_exchangecomplete s \<and> pRxDesc s \<noteq> None then
                   (case drv_rx_flush_tid False (rx_cancel_timer s) (env n) of
                      None \<Rightarrow> None
                    | Some (s, e) \<Rightarrow> Some (s\<lparr>rx_addba_exchangecomplete := False\<rparr>, e))
                 else Some (s, env n)) of
                 None \<Rightarrow> None
               | Some (s, e) \<Rightarrow>
                  (let s = (if buffersize bap \<noteq> 0 then s\<lparr>baw_size := WME_MAX_BA\<rparr> else s);
                       s = s\<lparr>seq_next := startseqnum, statuscode := WIFINET_STATUS_SUCCESS,
                             baparamset := (baparamset s)\<lparr>bapolicy := 1, buffersize := baw_size s\<rparr>,
                             batimeout := 0\<rparr>;
                       s = (if pRxDesc s = None \<and> alloc_ok
                            then s\<lparr>pRxDesc := Some (replicate DRV_TID_MAX_BUFS
                                     \<lparr>rx_wbuf = None, rx_time = 0, rs = 0\<rparr>)\<rparr> else s);
                       s = (if pRxDesc s = None then s\<lparr>statuscode := WIFINET_STATUS_REFUSED\<rparr>
                            else s\<lparr>rx_addba_exchangecomplete := True\<rparr>)
                   in Some (s, e)))) of
            None \<Rightarrow> None
          | Some (s, e) \<Rightarrow>
              Some (scb_upd n tid_index
                (s\<lparr>dialogtoken := token,
                   baparamset := (baparamset s)\<lparr>amsdusupported := 1, ba_tid := tid_index\<rparr>\<rparr>, e))))"

definition drv_rx_addbarsp :: "rx_nsta \<Rightarrow> u8 \<Rightarrow> rx_nsta option" where
  "drv_rx_addbarsp n tid_index =
     (case nth_opt (rx_scb n) (unat tid_index) of
        None \<Rightarrow> None
      | Some s \<Rightarrow>
          Some (if statuscode s = WIFINET_STATUS_SUCCESS
                then n\<lparr>env := emit (HalAddBaOk (unat tid_index) (seq_next s) (baw_size s) BA_RESPONDER) (env n)\<rparr>
                else n))"

definition drv_rxampdu_del :: "rx_nsta \<Rightarrow> u8 \<Rightarrow> rx_nsta option" where
  "drv_rxampdu_del n tid_index =
     (case nth_opt (rx_scb n) (unat tid_index) of
        None \<Rightarrow> None
      | Some s \<Rightarrow>
          if \<not> rx_addba_exchangecomplete s then Some n
          else
            (case drv_rx_flush_tid False (rx_cancel_timer s) (env n) of
               None \<Rightarrow> None
             | Some (s, e) \<Rightarrow>
                 let s = s\<lparr>rx_addba_exchangecomplete := False\<rparr>;
                     s = (if pRxDesc s \<noteq> None then s\<lparr>pRxDesc := None\<rparr> else s)
                 in Some (scb_upd n (unat tid_index) (s, e))))"

definition drv_rx_delba :: "rx_nsta \<Rightarrow> nat \<Rightarrow> bool \<Rightarrow> rx_nsta option" where
  "drv_rx_delba n tid_index initiator =
     (let n = n\<lparr>env := emit (HalDelBaOk tid_index (if initiator then BA_RESPONDER else BA_INITIATOR)) (env n)\<rparr>
      in if initiator then drv_rxampdu_del n (of_nat tid_index)
         else Some (n\<lparr>env := emit (TxAmpduDel tid_index) (env n)\<rparr>))"

text \<open>Fields of a frame. A read past the end of the frame is \<open>None\<close>.\<close>

definition byte_at :: "sk_buff \<Rightarrow> nat \<Rightarrow> u8 option" where
  "byte_at b i = nth_opt (skb_data b) i"

definition le16_at :: "sk_buff \<Rightarrow> nat \<Rightarrow> nat option" where
  "le16_at b i =
     (case (byte_at b i, byte_at b (i + 1)) of
        (Some lo, Some hi) \<Rightarrow> Some (unat lo + 256 * unat hi)
      | _ \<Rightarrow> None)"

text \<open>\<open>i_ctl\<close> is read in the byte order of the (little-endian) host.\<close>

definition drv_rx_bar :: "rx_nsta \<Rightarrow> sk_buff \<Rightarrow> (int \<times> rx_nsta) option" where
  "drv_rx_bar n b =
     (let e = (env n)\<lparr>rx_bar_cnt := rx_bar_cnt (env n) + 1\<rparr> in
      case (le16_at b 16, le16_at b 18) of
        (Some ctl, Some sq) \<Rightarrow>
          let tid_index = ctl div 2 ^ 12; seqnum = sq div 2 ^ 4 in
          (case nth_opt (rx_scb n) tid_index of
             None \<Rightarrow> None
           | Some s \<Rightarrow>
               let index = DRV_BA_INDEX (seq_next s) seqnum in
               if index > baw_size s \<and> int index > int WIFINET_SEQ_MAX - int (baw_size s * 4)
               then Some (0x04, n\<lparr>env := emit (SkbFree b) (e\<lparr>rx_bardrop_cnt := rx_bardrop_cnt e + 1\<rparr>)\<rparr>)
               else
                 (case rx_bar_skip ((baw_head s + index) mod DRV_TID_MAX_BUFS) s e of
                    None \<Rightarrow> None
                  | Some (s, e) \<Rightarrow>
                     (case rx_bar_drain s e of
                        None \<Rightarrow> None
                      | Some (s, e) \<Rightarrow> Some (0x04, scb_upd n tid_index (s, emit (SkbFree b) e)))))
      | _ \<Rightarrow> None)"

text \<open>The part of \<open>drv_rx_input\<close> that runs under the lock of the scoreboard, once the frame is
  known to belong to a block-ack session.\<close>

definition rx_start_timer :: "drv_rx_scoreboard \<Rightarrow> drv_rx_scoreboard" where
  "rx_start_timer s =
     (if baw_head s \<noteq> baw_tail s then
        if \<not> os_timer_ex_active (timer s)
        then s\<lparr>timer := os_timer_ex_start (os_set_timer_period (timer s) (ucast DRV_RX_TIMEOUT))\<rparr>
        else s
      else rx_cancel_timer s)"

definition rx_store ::
    "u64 \<Rightarrow> drv_rx_scoreboard \<Rightarrow> rx_env \<Rightarrow> nat \<Rightarrow> sk_buff \<Rightarrow> rx_status
     \<Rightarrow> (drv_rx_scoreboard \<times> rx_env) option" where
  "rx_store now s e index b st =
     (let desc_id = (baw_head s + index) mod DRV_TID_MAX_BUFS in
      case rx_desc s desc_id of
        None \<Rightarrow> None
      | Some d \<Rightarrow>
          if rx_wbuf d \<noteq> None
          then Some (s, emit (SkbFree b) (e\<lparr>rx_dup_cnt := rx_dup_cnt e + 1\<rparr>))
          else
            let rxdiff = nat ((int (baw_tail s) - int (baw_head s)) AND (int DRV_TID_MAX_BUFS - 1));
                s = rx_set_desc s desc_id \<lparr>rx_wbuf = Some b, rx_time = now, rs = st\<rparr>;
                s = (if index \<ge> rxdiff
                     then s\<lparr>baw_tail := CIRCLE_Add_One desc_id DRV_TID_MAX_BUFS\<rparr> else s)
            in case rx_drain s e of
                 None \<Rightarrow> None
               | Some (s, e) \<Rightarrow> Some (rx_start_timer s, e))"

definition rx_reorder ::
    "u64 \<Rightarrow> drv_rx_scoreboard \<Rightarrow> rx_env \<Rightarrow> nat \<Rightarrow> sk_buff \<Rightarrow> rx_status
     \<Rightarrow> (drv_rx_scoreboard \<times> rx_env) option" where
  "rx_reorder now s e rxseq b st =
     (let s = (if seq_reset s then s\<lparr>seq_reset := False, seq_next := rxseq\<rparr> else s);
          index = DRV_BA_INDEX (seq_next s) rxseq in
      if int index > int WIFINET_SEQ_MAX - int (baw_size s * 4) then Some (s, emit (SkbFree b) e)
      else
        let steps = (if index \<ge> baw_size s then index - baw_size s + 1 else 0) in
        case rx_slide steps s e of
          None \<Rightarrow> None
        | Some (s, e) \<Rightarrow> rx_store now s e (index - steps) b st)"

text \<open>\<open>drv_rx_input\<close>: 0x08 is a data frame, 0x04 with subtype 0x80 a block-ack request.\<close>

definition rx_is_bar :: "u8 \<Rightarrow> bool" where
  "rx_is_bar fc0 \<longleftrightarrow> fc0 AND 0x0c = 0x04 \<and> fc0 AND 0xf0 = 0x80"

definition drv_rx_input ::
    "(sk_buff \<Rightarrow> rx_status \<Rightarrow> int) \<Rightarrow> u64 \<Rightarrow> rx_nsta \<Rightarrow> sk_buff \<Rightarrow> rx_status \<Rightarrow> (int \<times> rx_nsta) option" where
  "drv_rx_input ret now n b st =
     (case (byte_at b 0, byte_at b 1, byte_at b 4) of
        (Some fc0, Some fc1, Some a1) \<Rightarrow>
          let is4addr = (fc1 AND 0x03 = 0x03);
              n = n\<lparr>env := (env n)\<lparr>rx_ampdu_cnt := rx_ampdu_cnt (env n) + 1\<rparr>\<rparr> in
          if fc0 AND 0x03 \<noteq> 0 then Some (-1, n\<lparr>env := emit (SkbFree b) (env n)\<rparr>)
          else
            let b_mcast = (a1 AND 0x01 \<noteq> 0);
                n = n\<lparr>env := emit (ScanChkLeakap b) (env n)\<rparr> in
            if rx_is_bar fc0 then drv_rx_bar n b
            else if fc0 AND 0x0c \<noteq> 0x08 \<or> fc0 AND 0xf0 \<noteq> 0x80 \<or> b_mcast then
              Some (ret b st, n\<lparr>env := emit (MacInput b st)
                     ((env n)\<lparr>rx_nonqos_cnt := rx_nonqos_cnt (env n) + 1\<rparr>)\<rparr>)
            else
              (case byte_at b (if is4addr then 30 else 24) of
                 None \<Rightarrow> None
               | Some qos \<Rightarrow>
                   let tid = unat (qos AND 0x0f) in
                   (case nth_opt (rx_scb n) tid of
                      None \<Rightarrow> None
                    | Some s \<Rightarrow>
                        if \<not> rx_addba_exchangecomplete s then
                          Some (ret b st, n\<lparr>env := emit (MacInput b st)
                                 ((env n)\<lparr>rx_nonqos_cnt := rx_nonqos_cnt (env n) + 1\<rparr>)\<rparr>)
                        else
                          (case le16_at b 22 of
                             None \<Rightarrow> None
                           | Some sq \<Rightarrow>
                              (case rx_reorder now s (env n) (sq div 2 ^ 4) b st of
                                 None \<Rightarrow> None
                               | Some p \<Rightarrow> Some (0x08, scb_upd n tid p)))))
      | _ \<Rightarrow> None)"

section \<open>Set-up and removal of a station\<close>

definition rx_tid_init :: "drv_rx_scoreboard \<Rightarrow> drv_rx_scoreboard" where
  "rx_tid_init s = s\<lparr>seq_reset := True, seq_next := 0, baw_size := WME_MAX_BA, baw_head := 0, baw_tail := 0,
     pRxDesc := None, timer := os_timer_ex_initialize (ucast DRV_RX_TIMEOUT),
     rx_addba_exchangecomplete := False, userstatuscode := WIFINET_STATUS_SUCCESS\<rparr>"


definition rx_tid_clean :: "drv_rx_scoreboard \<Rightarrow> rx_env \<Rightarrow> (drv_rx_scoreboard \<times> rx_env) option" where
  "rx_tid_clean s e =
     (if \<not> rx_addba_exchangecomplete s then Some (s, e)
      else
        case drv_rx_flush_tid True (s\<lparr>timer := snd (os_timer_ex_del (\<lambda>_. False) (timer s))\<rparr>) e of
          None \<Rightarrow> None
        | Some (s, e) \<Rightarrow>
            if pRxDesc s = None then None
            else Some (s\<lparr>pRxDesc := None, rx_addba_exchangecomplete := False\<rparr>, e))"

fun rx_clean_tids :: "drv_rx_scoreboard list \<Rightarrow> rx_env \<Rightarrow> (drv_rx_scoreboard list \<times> rx_env) option" where
  "rx_clean_tids [] e = Some ([], e)"
| "rx_clean_tids (s # ss) e =
     (case rx_tid_clean s e of
        None \<Rightarrow> None
      | Some (s, e) \<Rightarrow>
          (case rx_clean_tids ss e of None \<Rightarrow> None | Some (ss, e) \<Rightarrow> Some (s # ss, e)))"

definition drv_rx_nsta_clean :: "rx_nsta \<Rightarrow> rx_nsta option" where
  "drv_rx_nsta_clean n =
     (if cfg_rxaggr n then
        (case rx_clean_tids (rx_scb n) (env n) of
           None \<Rightarrow> None
         | Some (ss, e) \<Rightarrow> Some (n\<lparr>rx_scb := ss, env := e\<rparr>))
      else Some n)"

definition drv_rx_nsta_free :: "rx_nsta \<Rightarrow> rx_nsta option" where
  "drv_rx_nsta_free n = drv_rx_nsta_clean n"

section \<open>The window of a scoreboard\<close>

text \<open>\<open>rx_win\<close> lists the 128 slots from the head on; entry \<open>i\<close> waits for sequence number
  \<open>seq_next + i\<close>. \<open>rx_dist\<close> is the distance from head to tail.\<close>

definition rx_slot :: "drv_rxdesc \<Rightarrow> (sk_buff \<times> rx_status) option" where
  "rx_slot d = map_option (\<lambda>b. (b, rs d)) (rx_wbuf d)"

definition rx_win :: "drv_rx_scoreboard \<Rightarrow> (sk_buff \<times> rx_status) option list" where
  "rx_win s = (case pRxDesc s of None \<Rightarrow> replicate 128 None
     | Some ds \<Rightarrow> ring_view (map rx_slot ds) (baw_head s) 128)"

definition rx_dist :: "drv_rx_scoreboard \<Rightarrow> nat" where
  "rx_dist s = cdist (baw_head s) (baw_tail s) 128"

definition rx_seqnum :: "sk_buff \<Rightarrow> nat option" where
  "rx_seqnum b = map_option (\<lambda>sq. sq div 2 ^ 4) (le16_at b 22)"

text \<open>The invariant: indices in range, descriptors allocated exactly while a session is open,
  every slot outside the window empty, and every waiting frame in the slot of its sequence number.\<close>

definition rx_wf :: "drv_rx_scoreboard \<Rightarrow> bool" where
  "rx_wf s \<longleftrightarrow> baw_head s < 128 \<and> baw_tail s < 128 \<and> seq_next s < 4096 \<and> baw_size s = 64
     \<and> (rx_addba_exchangecomplete s \<longleftrightarrow> pRxDesc s \<noteq> None)
     \<and> (\<forall>ds. pRxDesc s = Some ds \<longrightarrow> length ds = 128)
     \<and> (pRxDesc s = None \<longrightarrow> baw_head s = baw_tail s)
     \<and> (\<forall>i < 128. rx_dist s \<le> i \<longrightarrow> rx_win s ! i = None)
     \<and> (seq_reset s \<longrightarrow> (\<forall>i < 128. rx_win s ! i = None))
     \<and> (\<forall>i < 128. \<forall>b st. rx_win s ! i = Some (b, st) \<longrightarrow> rx_seqnum b = Some ((seq_next s + i) mod 4096))"

lemma length_rx_win [simp]: "length (rx_win s) = 128"
  by (simp add: rx_win_def split: option.split)

definition rx_rest :: "drv_rx_scoreboard \<Rightarrow> nat \<times> nat \<times> bool \<times> bool \<times> nat option" where
  "rx_rest s = (baw_tail s, baw_size s, seq_reset s, rx_addba_exchangecomplete s,
                map_option length (pRxDesc s))"

text \<open>The window has moved on by \<open>m\<close> slots and what was in them has gone to \<open>f\<close>, in order.\<close>

definition rx_moved ::
    "(sk_buff \<times> rx_status \<Rightarrow> rx_event) \<Rightarrow> nat \<Rightarrow> drv_rx_scoreboard \<Rightarrow> rx_env
      \<Rightarrow> drv_rx_scoreboard \<Rightarrow> rx_env \<Rightarrow> bool" where
  "rx_moved f m s e s' e' \<longleftrightarrow> baw_head s' = (baw_head s + m) mod 128
     \<and> seq_next s' = (seq_next s + m) mod 4096 \<and> rx_win s' = shift m (rx_win s)
     \<and> rx_rest s' = rx_rest s \<and> rx_log e' = rx_log e @ map f (somes (take m (rx_win s)))"

abbreviation mac_input :: "sk_buff \<times> rx_status \<Rightarrow> rx_event" where
  "mac_input p \<equiv> MacInput (fst p) (snd p)"

abbreviation skb_free :: "sk_buff \<times> rx_status \<Rightarrow> rx_event" where
  "skb_free p \<equiv> SkbFree (fst p)"

lemma rx_moved_0: "baw_head s < 128 \<Longrightarrow> seq_next s < 4096 \<Longrightarrow> rx_log e' = rx_log e
    \<Longrightarrow> rx_moved f 0 s e s e'"
  by (simp add: rx_moved_def)

lemma rx_moved_add:
  "rx_moved f m s e s' e' \<Longrightarrow> rx_moved f n s' e' s'' e'' \<Longrightarrow> rx_moved f (m + n) s e s'' e''"
  by (simp add: rx_moved_def shift_shift somes_take_add mod_simps add.assoc)

lemma rx_wfD:
  assumes "rx_wf s"
  shows "baw_head s < 128" "baw_tail s < 128" "seq_next s < 4096" "baw_size s = 64"
    "rx_addba_exchangecomplete s \<longleftrightarrow> pRxDesc s \<noteq> None" "pRxDesc s = Some ds \<Longrightarrow> length ds = 128"
    "pRxDesc s = None \<Longrightarrow> baw_head s = baw_tail s"
    "\<And>i. i < 128 \<Longrightarrow> rx_dist s \<le> i \<Longrightarrow> rx_win s ! i = None"
    "\<And>i. i < 128 \<Longrightarrow> seq_reset s \<Longrightarrow> rx_win s ! i = None"
    "\<And>i b st. i < 128 \<Longrightarrow> rx_win s ! i = Some (b, st) \<Longrightarrow> rx_seqnum b = Some ((seq_next s + i) mod 4096)"
  using assms by (auto simp: rx_wf_def)

lemma rx_dist_0: "rx_wf s \<Longrightarrow> rx_dist s = 0 \<longleftrightarrow> baw_head s = baw_tail s"
  using rx_wfD(1,2) by (simp add: rx_dist_def cdist_0_iff)

lemma rx_dist_less: "rx_dist s < 128"
  by (simp add: rx_dist_def cdist_less)

text \<open>Moving the window keeps the invariant: a move past the tail finds only empty slots.\<close>

lemma rx_moved_dist:
  assumes wf: "rx_wf s" and mv: "rx_moved f m s e s' e'" and m: "m \<le> rx_dist s"
  shows "rx_dist s' = rx_dist s - m"
proof -
  let ?h = "baw_head s" and ?t = "baw_tail s"
  have lt: "?h < 128" "?t < 128" using rx_wfD [OF wf] by auto
  have t: "?t = (?h + rx_dist s) mod 128" using add_cdist [OF lt] by (simp add: rx_dist_def)
  have "(?h + m + (rx_dist s - m)) mod 128 = ?t" using m t by simp
  then have "?t = ((?h + m) mod 128 + (rx_dist s - m)) mod 128" by (simp add: mod_simps)
  moreover have "rx_dist s - m < 128" using rx_dist_less [of s] by linarith
  ultimately have "cdist ((?h + m) mod 128) ?t 128 = rx_dist s - m"
    using cdist_add [of "(?h + m) mod 128" 128 "rx_dist s - m"] by simp
  with mv show ?thesis by (simp add: rx_dist_def rx_moved_def rx_rest_def)
qed

lemma rx_moved_wf:
  assumes wf: "rx_wf s" and mv: "rx_moved f m s e s' e'" and op: "m = 0 \<or> pRxDesc s \<noteq> None"
  shows "rx_wf s'"
proof -
  note w = rx_wfD [OF wf]
  have nth: "rx_win s' ! i = (if i + m < 128 then rx_win s ! (i + m) else None)" if "i < 128" for i
    using mv that by (simp add: rx_moved_def)
  have rest: "rx_rest s' = rx_rest s" "baw_head s' = (baw_head s + m) mod 128"
    "seq_next s' = (seq_next s + m) mod 4096" using mv by (simp_all add: rx_moved_def)
  have past: "rx_win s' ! i = None" if i: "i < 128" "rx_dist s' \<le> i" for i
  proof (cases "m \<le> rx_dist s")
    case True
    with rx_moved_dist [OF wf mv] i have "rx_dist s \<le> i + m" by simp
    with nth w(8) i show ?thesis by simp
  next
    case False
    with nth w(8) i show ?thesis by simp
  qed
  have sync: "rx_seqnum b = Some ((seq_next s' + i) mod 4096)"
    if i: "i < 128" "rx_win s' ! i = Some (b, st)" for i b st
  proof -
    from nth i have "i + m < 128" "rx_win s ! (i + m) = Some (b, st)" by (auto split: if_splits)
    from w(10) [OF this] rest show ?thesis by (simp add: mod_simps add_ac)
  qed
  have reset: "seq_reset s' \<longrightarrow> (\<forall>i < 128. rx_win s' ! i = None)"
    using nth w(9) rest by (simp add: rx_rest_def)
  have "length ds = 128" if "pRxDesc s' = Some ds" for ds
  proof -
    have "map_option length (pRxDesc s) = Some (length ds)" using rest(1) that by (simp add: rx_rest_def)
    with wf show ?thesis by (auto simp: rx_wf_def)
  qed
  moreover have "pRxDesc s' = None \<longleftrightarrow> pRxDesc s = None" using rest(1) by (auto simp: rx_rest_def)
  moreover have "pRxDesc s' = None \<longrightarrow> baw_head s' = baw_tail s'"
  proof
    assume "pRxDesc s' = None"
    then have "pRxDesc s = None" using rest(1) by (auto simp: rx_rest_def)
    with op w(1,7) rest show "baw_head s' = baw_tail s'" by (simp add: rx_rest_def)
  qed
  ultimately show ?thesis
    unfolding rx_wf_def using rest w past sync reset by (auto simp: rx_rest_def)
qed

section \<open>The loops\<close>

lemma rx_advance_simps [simp]:
  "baw_tail (rx_advance s) = baw_tail s" "timer (rx_advance s) = timer s"
  "pRxDesc (rx_advance s) = pRxDesc s" "rx_rest (rx_advance s) = rx_rest s"
  by (simp_all add: rx_advance_def rx_rest_def)

lemma rx_clear_simps [simp]:
  "baw_tail (rx_clear s i d) = baw_tail s" "timer (rx_clear s i d) = timer s"
  "baw_head (rx_clear s i d) = baw_head s" "seq_next (rx_clear s i d) = seq_next s"
  "rx_rest (rx_clear s i d) = rx_rest s" "pRxDesc (rx_clear s i d) = None \<longleftrightarrow> pRxDesc s = None"
  by (auto simp: rx_clear_def rx_set_desc_def rx_rest_def option.map_comp comp_def)

lemma ring_view_shift1:
  assumes "h < length ds" "length ds = n" "\<And>i. i < n \<Longrightarrow> i \<noteq> h \<Longrightarrow> ds' ! i = ds ! i" "ds' ! h = None" "length ds' = n"
  shows "ring_view ds' ((h + 1) mod n) n = shift 1 (ring_view ds h n)"
proof (rule nth_equalityI)
  fix i assume "i < length (ring_view ds' ((h + 1) mod n) n)"
  then have i: "i < n" by simp
  have idx: "((h + 1) mod n + i) mod n = (h + (i + 1)) mod n" by (simp add: mod_simps add_ac)
  show "ring_view ds' ((h + 1) mod n) n ! i = shift 1 (ring_view ds h n) ! i"
  proof (cases "i + 1 < n")
    case True
    have "(h + (i + 1)) mod n \<noteq> (h + 0) mod n"
    proof
      assume "(h + (i + 1)) mod n = (h + 0) mod n"
      from mod_add_inj [OF True _ this] True show False by simp
    qed
    then have ne: "(h + (i + 1)) mod n \<noteq> h" using assms(1,2) by simp
    have "(h + (i + 1)) mod n < n" using True by simp
    from assms(3) [OF this ne] True i idx assms(2,5) show ?thesis by (simp add: add_ac)
  next
    case False
    with i have "i + 1 = n" by simp
    then have "(h + (i + 1)) mod n = h" using assms(1,2) by simp
    with False i idx assms show ?thesis by simp
  qed
qed simp

text \<open>One turn of a loop: the slot at the head is read, emptied when it was full, and the head
  moves on.\<close>

lemma rx_step:
  assumes wf: "rx_wf s" and ds: "pRxDesc s \<noteq> None"
  shows "\<exists>d. rx_desc s (baw_head s) = Some d \<and> rx_slot d = rx_win s ! 0
    \<and> (\<forall>e e'. rx_log e' = rx_log e @ map f (somes [rx_slot d])
        \<longrightarrow> rx_moved f 1 s e (rx_advance (rx_clear s (baw_head s) d)) e')
    \<and> (\<forall>e e'. rx_wbuf d = None \<longrightarrow> rx_log e' = rx_log e \<longrightarrow> rx_moved f 1 s e (rx_advance s) e')"
proof -
  note w = rx_wfD [OF wf]
  obtain ds where ds: "pRxDesc s = Some ds" using ds by auto
  have len: "length ds = 128" using w(6) ds by simp
  let ?d = "ds ! baw_head s"
  have d: "rx_desc s (baw_head s) = Some ?d" using ds len w(1) by (simp add: rx_desc_def)
  have head: "rx_slot ?d = rx_win s ! 0" using ds len w(1) by (simp add: rx_win_def)
  have adv: "baw_head (rx_advance s) = (baw_head s + 1) mod 128"
    "seq_next (rx_advance s) = (seq_next s + 1) mod 4096"
    using w(1,3) by (simp_all add: rx_advance_def ring_simps DRV_TID_MAX_BUFS_def WIFINET_SEQ_MAX_def)
  have take: "take 1 (rx_win s) = [rx_slot ?d]" using head by (simp add: take_Suc_conv_app_nth)
  have none: "rx_slot (?d\<lparr>rx_wbuf := None\<rparr>) = None" by (simp add: rx_slot_def)
  have win1: "rx_win (rx_advance (rx_clear s (baw_head s) ?d)) = shift 1 (rx_win s)"
    using ds len w(1) ring_view_shift1 [of "baw_head s" "map rx_slot ds" 128
        "map rx_slot (ds[baw_head s := ?d\<lparr>rx_wbuf := None\<rparr>])"]
    by (simp add: rx_win_def rx_clear_def rx_set_desc_def rx_advance_def ring_simps
        DRV_TID_MAX_BUFS_def none)
  have win2: "rx_win (rx_advance s) = shift 1 (rx_win s)" if "rx_wbuf ?d = None"
    using ds len w(1) ring_view_shift1 [of "baw_head s" "map rx_slot ds" 128 "map rx_slot ds"] that
    by (simp add: rx_win_def rx_advance_def ring_simps DRV_TID_MAX_BUFS_def rx_slot_def)
  show ?thesis
  proof (intro exI [of _ ?d] conjI allI impI d head)
    fix e e' :: rx_env
    assume "rx_log e' = rx_log e @ map f (somes [rx_slot ?d])"
    moreover have "baw_head (rx_advance (rx_clear s (baw_head s) ?d)) = (baw_head s + 1) mod 128"
      "seq_next (rx_advance (rx_clear s (baw_head s) ?d)) = (seq_next s + 1) mod 4096"
      using adv by (simp_all add: rx_advance_def)
    ultimately show "rx_moved f 1 s e (rx_advance (rx_clear s (baw_head s) ?d)) e'"
      using win1 take by (simp add: rx_moved_def)
  next
    fix e e' :: rx_env
    assume "rx_wbuf ?d = None" "rx_log e' = rx_log e"
    with adv win2 take show "rx_moved f 1 s e (rx_advance s) e'"
      by (simp add: rx_moved_def rx_slot_def)
  qed
qed

lemma emit_log [simp]: "rx_log (emit x e) = rx_log e @ [x]"
  by (simp add: emit_def)

lemma rx_moved_comp:
  assumes "rx_moved f 1 s e s1 e1" "rx_moved f n s1 e1 s' e'"
  shows "rx_moved f (Suc n) s e s' e'"
  using rx_moved_add [OF assms] by simp

text \<open>Every loop returns, and moves the window by some number of slots: a loop \<open>L\<close> that goes on
  while the window is not empty and \<open>P\<close> holds, one slot at a time.\<close>

lemma rx_moved_refl: "rx_wf s \<Longrightarrow> rx_moved f 0 s e s e"
  using rx_moved_0 rx_wfD(1,3) by blast

lemma rx_loop:
  assumes step: "\<And>s e. rx_wf s \<Longrightarrow> baw_head s \<noteq> baw_tail s \<Longrightarrow> P s \<Longrightarrow>
      \<exists>s1 e1. L s e = L s1 e1 \<and> rx_moved f 1 s e s1 e1 \<and> timer s1 = timer s"
    and stop: "\<And>s e. rx_wf s \<Longrightarrow> baw_head s = baw_tail s \<or> \<not> P s \<Longrightarrow> L s e = Some (s, e)"
    and wf: "rx_wf s"
  shows "\<exists>n s' e'. n \<le> rx_dist s \<and> L s e = Some (s', e') \<and> timer s' = timer s \<and> rx_moved f n s e s' e'
    \<and> (n = rx_dist s \<or> \<not> P s') \<and> (\<forall>k < n. \<exists>sk ek. rx_moved f k s e sk ek \<and> P sk)"
  using wf
proof (induction "rx_dist s" arbitrary: s e)
  case 0
  then have "baw_head s = baw_tail s" using rx_dist_0 by metis
  with 0 stop [of s e] rx_moved_refl [OF 0(2)] show ?case by auto
next
  case (Suc n)
  show ?case
  proof (cases "P s")
    case False
    with stop [OF Suc.prems, of e] rx_moved_refl [OF Suc.prems] show ?thesis
      by (intro exI [of _ 0] exI [of _ s] exI [of _ e]) auto
  next
    case True
    have ne: "baw_head s \<noteq> baw_tail s" using rx_dist_0 [OF Suc.prems] Suc.hyps(2) by simp
    then have ds: "pRxDesc s \<noteq> None" using rx_wfD(7) [OF Suc.prems] by blast
    obtain s1 e1 where s1: "L s e = L s1 e1" "rx_moved f 1 s e s1 e1" "timer s1 = timer s"
      using step [OF Suc.prems ne True] by blast
    have "1 \<le> rx_dist s" using Suc.hyps(2) by simp
    then have dist: "rx_dist s1 = rx_dist s - 1" by (rule rx_moved_dist [OF Suc.prems s1(2)])
    have "n = rx_dist s1" using dist Suc.hyps(2) by simp
    from Suc.hyps(1) [OF this rx_moved_wf [OF Suc.prems s1(2) disjI2 [OF ds]], of e1]
    obtain m s' e' where m: "m \<le> rx_dist s1" "L s1 e1 = Some (s', e')" "timer s' = timer s1"
      "rx_moved f m s1 e1 s' e'" "m = rx_dist s1 \<or> \<not> P s'"
      "\<forall>k < m. \<exists>sk ek. rx_moved f k s1 e1 sk ek \<and> P sk" by blast
    have "\<exists>sk ek. rx_moved f k s e sk ek \<and> P sk" if k: "k < Suc m" for k
    proof (cases k)
      case 0
      with True rx_moved_refl [OF Suc.prems] show ?thesis by blast
    next
      case (Suc j)
      with m(6) k obtain sk ek where "rx_moved f j s1 e1 sk ek" "P sk" by auto
      with rx_moved_comp [OF s1(2)] Suc show ?thesis by blast
    qed
    moreover have "Suc m \<le> rx_dist s" "Suc m = rx_dist s \<or> \<not> P s'" using m(1,5) dist Suc.hyps(2) by auto
    ultimately show ?thesis using m(2,3) s1 rx_moved_comp [OF s1(2) m(4)] by metis
  qed
qed

lemma rx_flush_moves:
  assumes wf: "rx_wf s"
  shows "\<exists>s' e'. drv_rx_flush_tid drp s e = Some (s', e') \<and> timer s' = timer s
    \<and> rx_moved (if drp then skb_free else mac_input) (rx_dist s) s e s' e'"
proof -
  let ?f = "if drp then skb_free else mac_input"
  have "\<exists>s1 e1. drv_rx_flush_tid drp s e = drv_rx_flush_tid drp s1 e1 \<and> rx_moved ?f 1 s e s1 e1
      \<and> timer s1 = timer s" if wf: "rx_wf s" and ne: "baw_head s \<noteq> baw_tail s" for s e
  proof -
    have ds: "pRxDesc s \<noteq> None" using rx_wfD(7) [OF wf] ne by blast
    obtain d where d: "rx_desc s (baw_head s) = Some d"
      and mv: "\<And>e e'. rx_log e' = rx_log e @ map ?f (somes [rx_slot d])
        \<Longrightarrow> rx_moved ?f 1 s e (rx_advance (rx_clear s (baw_head s) d)) e'"
      and mvN: "\<And>e e'. rx_wbuf d = None \<Longrightarrow> rx_log e' = rx_log e \<Longrightarrow> rx_moved ?f 1 s e (rx_advance s) e'"
      using rx_step [OF wf ds, of ?f] by blast
    show ?thesis
    proof (cases "rx_wbuf d")
      case None
      with ne d mvN [of "e\<lparr>rx_skipped_cnt := rx_skipped_cnt e + 1\<rparr>" e] show ?thesis
        by (intro exI [of _ "rx_advance s"] exI [of _ "e\<lparr>rx_skipped_cnt := rx_skipped_cnt e + 1\<rparr>"])
          (simp add: drv_rx_flush_tid.simps [of drp s e])
    next
      case (Some b)
      let ?e = "emit (if drp then SkbFree b else MacInput b (rs d)) (e\<lparr>rx_ok_cnt := rx_ok_cnt e + 1\<rparr>)"
      have "rx_moved ?f 1 s e (rx_advance (rx_clear s (baw_head s) d)) ?e"
        by (rule mv) (simp add: rx_slot_def Some)
      with ne d Some show ?thesis
        by (intro exI [of _ "rx_advance (rx_clear s (baw_head s) d)"] exI [of _ ?e])
          (simp add: drv_rx_flush_tid.simps [of drp s e])
    qed
  qed
  moreover have "drv_rx_flush_tid drp s e = Some (s, e)" if "baw_head s = baw_tail s" for s e
    using that by (subst drv_rx_flush_tid.simps) simp
  ultimately show ?thesis
    using rx_loop [of "\<lambda>_. True" "drv_rx_flush_tid drp" ?f, OF _ _ wf] by fastforce
qed

text \<open>\<open>run w\<close>: the number of full slots at the front of a window.\<close>

definition run :: "'a option list \<Rightarrow> nat" where
  "run w = length (takeWhile (\<lambda>x. x \<noteq> None) w)"

lemma run_eqI:
  assumes "n < length w" "w ! n = None" "\<And>k. k < n \<Longrightarrow> w ! k \<noteq> None"
  shows "run w = n"
proof -
  have "takeWhile (\<lambda>x. x \<noteq> None) w = take n w"
    by (rule takeWhile_eq_take_P_nth) (use assms in auto)
  with assms(1) show ?thesis by (simp add: run_def)
qed

lemma rx_run_le: "rx_wf s \<Longrightarrow> run (rx_win s) \<le> rx_dist s"
proof -
  assume wf: "rx_wf s"
  have "rx_win s ! rx_dist s = None" using rx_wfD(8) [OF wf] rx_dist_less by simp
  then show ?thesis
    unfolding run_def using rx_dist_less [of s]
    by (metis (mono_tags, lifting) length_rx_win nth_length_takeWhile leI nth_mem set_takeWhileD takeWhile_nth)
qed

text \<open>A loop that goes on while the head slot is full empties the run of full slots at the head.\<close>

lemma rx_drain_loop:
  assumes eq: "\<And>s e. L s e =
     (if baw_head s = baw_tail s then Some (s, e)
      else case rx_desc s (baw_head s) of
        None \<Rightarrow> None
      | Some d \<Rightarrow>
          (case rx_wbuf d of
             None \<Rightarrow> Some (s, e)
           | Some b \<Rightarrow> L (rx_advance (rx_clear s (baw_head s) d)) (g b (rs d) e)))"
    and g: "\<And>b st e. rx_log (g b st e) = rx_log e @ [MacInput b st]" and wf: "rx_wf s"
  shows "\<exists>s' e'. L s e = Some (s', e') \<and> timer s' = timer s \<and> rx_moved mac_input (run (rx_win s)) s e s' e'"
proof -
  let ?P = "\<lambda>s. rx_win s ! 0 \<noteq> None"
  have step: "\<exists>s1 e1. L s e = L s1 e1 \<and> rx_moved mac_input 1 s e s1 e1 \<and> timer s1 = timer s"
    if wf: "rx_wf s" and ne: "baw_head s \<noteq> baw_tail s" and full: "?P s" for s e
  proof -
    have ds: "pRxDesc s \<noteq> None" using rx_wfD(7) [OF wf] ne by blast
    obtain d where d: "rx_desc s (baw_head s) = Some d" "rx_slot d = rx_win s ! 0"
      and mv: "\<And>e e'. rx_log e' = rx_log e @ map mac_input (somes [rx_slot d])
        \<Longrightarrow> rx_moved mac_input 1 s e (rx_advance (rx_clear s (baw_head s) d)) e'"
      using rx_step [OF wf ds, of mac_input] by blast
    obtain b where b: "rx_wbuf d = Some b" using d(2) full by (auto simp: rx_slot_def)
    have "rx_moved mac_input 1 s e (rx_advance (rx_clear s (baw_head s) d)) (g b (rs d) e)"
      by (rule mv) (simp add: rx_slot_def b g)
    with ne d b show ?thesis
      by (intro exI [of _ "rx_advance (rx_clear s (baw_head s) d)"] exI [of _ "g b (rs d) e"])
        (simp add: eq [of s e])
  qed
  have stop: "L s e = Some (s, e)" if wf: "rx_wf s" and h: "baw_head s = baw_tail s \<or> \<not> ?P s" for s e
  proof (cases "baw_head s = baw_tail s")
    case True
    then show ?thesis by (subst eq) simp
  next
    case False
    then have ds: "pRxDesc s \<noteq> None" using rx_wfD(7) [OF wf] by blast
    obtain d where d: "rx_desc s (baw_head s) = Some d" "rx_slot d = rx_win s ! 0"
      using rx_step [OF wf ds] by blast
    have "rx_slot d = None" using False h d(2) by metis
    then have "rx_wbuf d = None" by (simp add: rx_slot_def)
    with False d show ?thesis by (subst eq) simp
  qed
  obtain n s' e' where n: "n \<le> rx_dist s" "L s e = Some (s', e')" "timer s' = timer s"
    "rx_moved mac_input n s e s' e'" "n = rx_dist s \<or> \<not> ?P s'"
    "\<And>k. k < n \<Longrightarrow> \<exists>sk ek. rx_moved mac_input k s e sk ek \<and> ?P sk"
    using rx_loop [of ?P L mac_input, OF step stop wf, of e] by blast
  have lt: "n < 128" using n(1) rx_dist_less [of s] by simp
  have "rx_win s' ! 0 = rx_win s ! n" using n(4) lt by (simp add: rx_moved_def)
  then have "rx_win s ! n = None" using n(5) lt rx_wfD(8) [OF wf] by (metis order_refl)
  moreover have "rx_win s ! k \<noteq> None" if "k < n" for k
    using n(6) [OF that] that lt by (auto simp: rx_moved_def)
  ultimately have "run (rx_win s) = n" using lt by (intro run_eqI) auto
  with n(2-4) show ?thesis by metis
qed

lemmas rx_drain_moves = rx_drain_loop [OF rx_drain.simps, simplified]

lemmas rx_bar_drain_moves = rx_drain_loop [OF rx_bar_drain.simps, simplified]

lemma rx_bar_skip_moves:
  assumes wf: "rx_wf s" and desc: "desc_id < 128"
  shows "\<exists>s' e'. rx_bar_skip desc_id s e = Some (s', e') \<and> timer s' = timer s
    \<and> rx_moved mac_input (min (rx_dist s) (cdist (baw_head s) desc_id 128)) s e s' e'"
proof -
  let ?P = "\<lambda>s. baw_head s \<noteq> desc_id" and ?L = "rx_bar_skip desc_id"
  have step: "\<exists>s1 e1. ?L s e = ?L s1 e1 \<and> rx_moved mac_input 1 s e s1 e1 \<and> timer s1 = timer s"
    if wf: "rx_wf s" and ne: "baw_head s \<noteq> baw_tail s" and full: "?P s" for s e
  proof -
    have ds: "pRxDesc s \<noteq> None" using rx_wfD(7) [OF wf] ne by blast
    obtain d where d: "rx_desc s (baw_head s) = Some d" "rx_slot d = rx_win s ! 0"
      and mv: "\<And>e e'. rx_log e' = rx_log e @ map mac_input (somes [rx_slot d])
        \<Longrightarrow> rx_moved mac_input 1 s e (rx_advance (rx_clear s (baw_head s) d)) e'"
      using rx_step [OF wf ds, of mac_input] by blast
    let ?e = "case rx_wbuf d of None \<Rightarrow> e | Some b \<Rightarrow> emit (MacInput b (rs d)) e"
    have "rx_moved mac_input 1 s e (rx_advance (rx_clear s (baw_head s) d)) ?e"
      by (rule mv) (simp add: rx_slot_def split: option.split)
    with ne full d show ?thesis
      by (intro exI [of _ "rx_advance (rx_clear s (baw_head s) d)"] exI [of _ ?e])
        (simp add: rx_bar_skip.simps [of desc_id s e])
  qed
  have stop: "?L s e = Some (s, e)" if "baw_head s = baw_tail s \<or> \<not> ?P s" for s e
    using that by (subst rx_bar_skip.simps) auto
  obtain n s' e' where n: "n \<le> rx_dist s" "?L s e = Some (s', e')" "timer s' = timer s"
    "rx_moved mac_input n s e s' e'" "n = rx_dist s \<or> \<not> ?P s'"
    "\<And>k. k < n \<Longrightarrow> \<exists>sk ek. rx_moved mac_input k s e sk ek \<and> ?P sk"
    using rx_loop [of ?P ?L mac_input, OF step stop wf, of e] by blast
  let ?c = "cdist (baw_head s) desc_id 128"
  have h: "baw_head s < 128" using rx_wfD(1) [OF wf] .
  have c: "(baw_head s + ?c) mod 128 = desc_id" "?c < 128"
    using add_cdist [OF h desc] cdist_less [of 128] by auto
  have "n \<le> ?c"
  proof (rule ccontr)
    assume "\<not> n \<le> ?c"
    with n(6) [of ?c] c(1) show False by (auto simp: rx_moved_def)
  qed
  moreover have "n = ?c" if "n \<noteq> rx_dist s"
  proof -
    have "(baw_head s + n) mod 128 = (baw_head s + ?c) mod 128"
      using that n(4,5) c(1) by (simp add: rx_moved_def)
    moreover have "n < 128" using n(1) rx_dist_less [of s] by simp
    ultimately show ?thesis using mod_add_inj c(2) by blast
  qed
  ultimately have "n = min (rx_dist s) ?c" using n(1) by (cases "n = rx_dist s") simp_all
  with n(2-4) show ?thesis by metis
qed

lemma rx_slide_moves:
  "rx_wf s \<Longrightarrow> pRxDesc s \<noteq> None \<Longrightarrow>
   \<exists>s' e'. rx_slide n s e = Some (s', e') \<and> timer s' = timer s \<and> rx_moved mac_input n s e s' e'"
proof (induction n arbitrary: s e)
  case 0
  then show ?case using rx_moved_refl by simp
next
  case (Suc n)
  obtain d where d: "rx_desc s (baw_head s) = Some d"
    and mv: "\<And>e e'. rx_log e' = rx_log e @ map mac_input (somes [rx_slot d])
      \<Longrightarrow> rx_moved mac_input 1 s e (rx_advance (rx_clear s (baw_head s) d)) e'"
    and mvN: "\<And>e e'. rx_wbuf d = None \<Longrightarrow> rx_log e' = rx_log e \<Longrightarrow> rx_moved mac_input 1 s e (rx_advance s) e'"
    using rx_step [OF Suc.prems, of mac_input] by blast
  have step: ?case if m1: "rx_moved mac_input 1 s e s1 e1" and t: "timer s1 = timer s"
    and eq: "rx_slide (Suc n) s e = rx_slide n s1 e1" for s1 e1
  proof -
    have "pRxDesc s1 \<noteq> None" using m1 Suc.prems(2) by (auto simp: rx_moved_def rx_rest_def)
    with Suc.IH [OF rx_moved_wf [OF Suc.prems(1) m1 disjI2 [OF Suc.prems(2)]] this, of e1]
    show ?thesis using eq t rx_moved_comp [OF m1] by metis
  qed
  show ?case
  proof (cases "rx_wbuf d")
    case None
    show ?thesis by (rule step [OF mvN [OF None refl]]) (simp_all add: d None)
  next
    case (Some b)
    show ?thesis
      by (rule step [of _ "(emit (MacInput b (rs d)) e)\<lparr>rx_ok_cnt := rx_ok_cnt e + 1\<rparr>", OF mv])
        (simp_all add: d Some rx_slot_def)
  qed
qed

text \<open>The sort timer. \<open>rx_ripe clk s i\<close>: the frame \<open>i\<close> places from the head has waited its time.\<close>

definition rx_ripe :: "(nat \<Rightarrow> u64) \<Rightarrow> drv_rx_scoreboard \<Rightarrow> nat \<Rightarrow> bool" where
  "rx_ripe clk s i =
     (let j = (baw_head s + i) mod 128 in
      case rx_desc s j of None \<Rightarrow> False | Some d \<Rightarrow> \<not> clk j - rx_time d < DRV_RX_TIMEOUT)"

lemma rx_skip_to:
  assumes wf: "rx_wf s" and c: "c < rx_dist s" and none: "\<forall>k < c. rx_win s ! k = None"
    and j: "j = (baw_head s + c) mod 128" and d: "rx_desc s j = Some d"
    and s1: "s1 = (rx_clear s j d)\<lparr>seq_next := CIRCLE_Addition2 (seq_next s) (c + 1) 4096,
       baw_head := CIRCLE_Add_One j 128\<rparr>"
    and e1: "rx_log e1 = rx_log e @ map f (somes [rx_slot d])"
  shows "rx_moved f (c + 1) s e s1 e1"
    and "\<And>i. i + (c + 1) < 128 \<Longrightarrow> rx_ripe clk s1 i = rx_ripe clk s (i + (c + 1))"
    and "rx_slot d = rx_win s ! c"
proof -
  note w = rx_wfD [OF wf]
  have lt: "c < 127" using c rx_dist_less [of s] by simp
  obtain ds where ds: "pRxDesc s = Some ds" using w(7) c rx_dist_0 [OF wf] by fastforce
  have len: "length ds = 128" using w(6) ds by simp
  have jl: "j < 128" using j by simp
  have dj: "d = ds ! j" using d ds jl len by (simp add: rx_desc_def)
  have slot: "rx_slot d = rx_win s ! c" using dj j ds len lt by (simp add: rx_win_def)
  then show "rx_slot d = rx_win s ! c" .
  have take: "somes (take (c + 1) (rx_win s)) = somes [rx_slot d]"
  proof -
    have "somes (take c (rx_win s)) = []"
      using none by (auto simp: somes_Nil_iff in_set_conv_nth)
    with lt slot show ?thesis by (simp add: take_Suc_conv_app_nth)
  qed
  have ds1: "pRxDesc s1 = Some (ds[j := d\<lparr>rx_wbuf := None\<rparr>])"
    using ds by (simp add: s1 rx_clear_def rx_set_desc_def)
  have head1: "baw_head s1 = (baw_head s + (c + 1)) mod 128"
    using j jl by (simp add: s1 ring_simps mod_simps)
  have seq1: "seq_next s1 = (seq_next s + (c + 1)) mod 4096"
    using w(3) lt by (simp add: s1 CIRCLE_Addition2_mod)
  have idx: "(baw_head s1 + i) mod 128 = (baw_head s + (i + (c + 1))) mod 128" for i
    using head1 by (simp add: mod_simps add_ac)
  have ne: "(baw_head s + (i + (c + 1))) mod 128 \<noteq> j" if "i + (c + 1) < 128" for i
    using mod_add_inj [of "i + (c + 1)" 128 c "baw_head s"] that lt j by auto
  have win: "rx_win s1 = shift (c + 1) (rx_win s)"
  proof (rule nth_equalityI)
    fix i assume "i < length (rx_win s1)"
    then have i: "i < 128" by simp
    have e: "rx_win s1 ! i = rx_slot ((ds[j := d\<lparr>rx_wbuf := None\<rparr>]) ! ((baw_head s1 + i) mod 128))"
      using i ds1 len by (simp add: rx_win_def)
    show "rx_win s1 ! i = shift (c + 1) (rx_win s) ! i"
    proof (cases "i + (c + 1) < 128")
      case True
      have "(ds[j := d\<lparr>rx_wbuf := None\<rparr>]) ! ((baw_head s1 + i) mod 128) = ds ! ((baw_head s1 + i) mod 128)"
        using ne [OF True] idx [of i] by (metis nth_list_update_neq)
      with e i True ds len show ?thesis by (simp add: idx rx_win_def)
    next
      case False
      define k where "k = i + (c + 1) - 128"
      have k: "k \<le> c" "i + (c + 1) = k + 128" using False i by (auto simp: k_def)
      have ik: "(baw_head s1 + i) mod 128 = (baw_head s + k) mod 128"
        by (simp only: idx k(2)) (metis add.assoc mod_add_self2)
      have "rx_win s1 ! i = None"
      proof (cases "k = c")
        case True
        then show ?thesis using e ik j jl len by (simp add: rx_slot_def)
      next
        case False
        then have kc: "k < c" using k(1) by simp
        then have "(baw_head s + k) mod 128 \<noteq> j"
          using mod_add_inj [of k 128 c "baw_head s"] lt j by auto
        with e ik none kc lt ds len show ?thesis by (simp add: rx_win_def)
      qed
      with False i show ?thesis by simp
    qed
  qed simp
  have "rx_rest s1 = rx_rest s" using ds by (simp add: rx_rest_def ds1) (simp add: s1 rx_clear_def rx_set_desc_def)
  with head1 seq1 win take e1 show "rx_moved f (c + 1) s e s1 e1" by (simp add: rx_moved_def)
  show "rx_ripe clk s1 i = rx_ripe clk s (i + (c + 1))" if i: "i + (c + 1) < 128" for i
    using ne [OF i] ds ds1 len by (simp add: rx_ripe_def Let_def idx rx_desc_def)
qed

text \<open>What one run of the sort timer does: the window moves behind the last frame taken. All the
  frames it passes had waited their time; the next frame, if there is one, has not, and the timer
  period is what is left of its time.\<close>

definition rx_sorted_to :: "(nat \<Rightarrow> u64) \<Rightarrow> drv_rx_scoreboard \<Rightarrow> nat \<Rightarrow> bool" where
  "rx_sorted_to clk s m \<longleftrightarrow> m \<le> rx_dist s
     \<and> (m > 0 \<longrightarrow> rx_win s ! (m - 1) \<noteq> None)
     \<and> (\<forall>i < m. rx_win s ! i \<noteq> None \<longrightarrow> rx_ripe clk s i)
     \<and> (\<forall>i < 128. m \<le> i \<longrightarrow> rx_win s ! i \<noteq> None \<longrightarrow> (\<exists>j. m \<le> j \<and> j \<le> i \<and> rx_win s ! j \<noteq> None
          \<and> \<not> rx_ripe clk s j))"

lemma rx_sorted_to_add:
  assumes c: "c < 127" "c < rx_dist s" and none: "\<forall>k < c. rx_win s ! k = None"
    and full: "rx_win s ! c \<noteq> None" and ripe: "rx_ripe clk s c"
    and mv: "rx_moved f (c + 1) s e s1 e1"
    and rp: "\<And>clk i. i + (c + 1) < 128 \<Longrightarrow> rx_ripe clk s1 i = rx_ripe clk s (i + (c + 1))"
    and dist: "rx_dist s1 = rx_dist s - (c + 1)" and so: "rx_sorted_to clk s1 m"
  shows "rx_sorted_to clk s (c + 1 + m)"
proof -
  have win: "rx_win s1 ! i = rx_win s ! (i + (c + 1))" if "i + (c + 1) < 128" for i
    using mv that by (simp add: rx_moved_def)
  note so = so [unfolded rx_sorted_to_def]
  have m: "m \<le> rx_dist s - (c + 1)" using so dist by simp
  then have m2: "m + (c + 1) < 128" using c rx_dist_less [of s] by linarith
  have last: "rx_win s ! (c + 1 + m - 1) \<noteq> None"
  proof (cases "m = 0")
    case True
    then show ?thesis using full by simp
  next
    case False
    then have "rx_win s1 ! (m - 1) \<noteq> None" "m - 1 + (c + 1) = c + 1 + m - 1" using so by auto
    with win [of "m - 1"] m2 show ?thesis by (simp add: add.commute)
  qed
  have ripes: "rx_ripe clk s i" if i: "i < c + 1 + m" "rx_win s ! i \<noteq> None" for i
  proof (cases "i \<le> c")
    case True
    with i none ripe show ?thesis by (metis le_neq_implies_less)
  next
    case False
    define k where "k = i - (c + 1)"
    have k: "i = k + (c + 1)" "k < m" using False i by (auto simp: k_def)
    have "rx_win s1 ! k \<noteq> None" using win [of k] k i(2) m2 by simp
    with so k(2) have "rx_ripe clk s1 k" by blast
    with rp k m2 show ?thesis by simp
  qed
  have rest: "\<exists>j. c + 1 + m \<le> j \<and> j \<le> i \<and> rx_win s ! j \<noteq> None \<and> \<not> rx_ripe clk s j"
    if i: "i < 128" "c + 1 + m \<le> i" "rx_win s ! i \<noteq> None" for i
  proof -
    define k where "k = i - (c + 1)"
    have k: "i = k + (c + 1)" "m \<le> k" "k < 128" using i by (auto simp: k_def)
    have "rx_win s1 ! k \<noteq> None" using win [of k] k i by simp
    then obtain j where j: "m \<le> j" "j \<le> k" "rx_win s1 ! j \<noteq> None" "\<not> rx_ripe clk s1 j"
      using so k by blast
    have "j + (c + 1) < 128" using j(2) k i(1) by simp
    with j win [of j] rp [of j] k show ?thesis by (intro exI [of _ "j + (c + 1)"]) auto
  qed
  show ?thesis unfolding rx_sorted_to_def using last ripes rest m c(2) by auto
qed

lemma rx_sort_loop_moves:
  assumes "rx_wf s" and "c \<le> rx_dist s" and "\<forall>k < c. rx_win s ! k = None"
  shows "\<exists>m s' e'. rx_sort_loop clk ((baw_head s + c) mod 128) c s e = Some (s', e')
    \<and> rx_moved mac_input m s e s' e' \<and> rx_sorted_to clk s m"
  using assms
proof (induction "rx_dist s - c" arbitrary: s e c rule: less_induct)
  case less
  note wf = less.prems(1) and none = less.prems(3)
  let ?j = "(baw_head s + c) mod 128"
  have h: "baw_head s < 128" "baw_tail s < 128" using rx_wfD [OF wf] by auto
  have tail: "(baw_head s + rx_dist s) mod 128 = baw_tail s" using add_cdist [OF h] by (simp add: rx_dist_def)
  show ?case
  proof (cases "c = rx_dist s")
    case True
    have "rx_sorted_to clk s 0"
      using none rx_wfD(8) [OF wf] True by (auto simp: rx_sorted_to_def) (metis not_le option.distinct(1))
    moreover have "rx_sort_loop clk ?j c s e = Some (s, e)"
      using True tail by (subst rx_sort_loop.simps) simp
    ultimately show ?thesis using rx_moved_refl [OF wf] by metis
  next
    case False
    with less.prems(2) have c: "c < rx_dist s" by simp
    then have c127: "c < 127" using rx_dist_less [of s] by simp
    have jt: "?j \<noteq> baw_tail s"
      using mod_add_inj [of c 128 "rx_dist s" "baw_head s"] tail c rx_dist_less [of s] by auto
    obtain d where d: "rx_desc s ?j = Some d"
    proof -
      have "pRxDesc s \<noteq> None" using rx_wfD(7) [OF wf] c rx_dist_0 [OF wf] by fastforce
      with rx_wfD(6) [OF wf] that show ?thesis by (auto simp: rx_desc_def)
    qed
    note sk = rx_skip_to [OF wf c none refl d]
    have slot: "rx_slot d = rx_win s ! c" by (rule sk(3) [OF refl, where e = e and f = mac_input
            and ?e1.0 = "e\<lparr>rx_log := rx_log e @ map mac_input (somes [rx_slot d])\<rparr>"]) simp
    have ripe: "rx_ripe clk s c \<longleftrightarrow> \<not> clk ?j - rx_time d < DRV_RX_TIMEOUT"
      using d by (simp add: rx_ripe_def Let_def)
    have nxt: "CIRCLE_Add_One ?j 128 = (baw_head s + Suc c) mod 128"
      by (simp add: ring_simps mod_simps)
    show ?thesis
    proof (cases "rx_wbuf d")
      case None
      then have "rx_win s ! c = None" using slot by (simp add: rx_slot_def)
      then have "\<forall>k < Suc c. rx_win s ! k = None" using none less_Suc_eq by metis
      moreover have "rx_sort_loop clk ?j c s e = rx_sort_loop clk ((baw_head s + Suc c) mod 128) (Suc c) s e"
        by (subst rx_sort_loop.simps) (use jt d None nxt in \<open>simp add: DRV_TID_MAX_BUFS_def\<close>)
      ultimately show ?thesis using less.hyps [of s "Suc c" e] c wf by simp
    next
      case (Some b)
      then have full: "rx_win s ! c \<noteq> None" using slot by (metis option.distinct(1) option.map_disc_iff rx_slot_def)
      show ?thesis
      proof (cases "rx_ripe clk s c")
        case False
        let ?s = "s\<lparr>timer := os_set_timer_period (timer s) (ucast (DRV_RX_TIMEOUT - (clk ?j - rx_time d)))\<rparr>"
        have "rx_sort_loop clk ?j c s e = Some (?s, e)"
          by (subst rx_sort_loop.simps) (use jt d Some ripe False in \<open>simp add: Let_def\<close>)
        moreover have "rx_moved mac_input 0 s e ?s e"
          using rx_moved_refl [OF wf, of mac_input e] by (simp add: rx_moved_def rx_rest_def rx_win_def split: option.split)
        moreover have "rx_sorted_to clk s 0"
          unfolding rx_sorted_to_def using none full False by (metis le0 not_le not_less_zero)
        ultimately show ?thesis by blast
      next
        case True
        let ?s = "(rx_clear s ?j d)\<lparr>seq_next := CIRCLE_Addition2 (seq_next s) (c + 1) 4096,
          baw_head := CIRCLE_Add_One ?j 128\<rparr>"
        let ?e = "emit (MacInput b (rs d)) (e\<lparr>rx_ok_cnt := rx_ok_cnt e + 1\<rparr>)"
        have log: "rx_log ?e = rx_log e @ map mac_input (somes [rx_slot d])" by (simp add: rx_slot_def Some)
        note mv = sk(1) [OF refl log] and rp = sk(2) [OF refl log]
        have ds: "pRxDesc s \<noteq> None" using d by (cases "pRxDesc s") (auto simp: rx_desc_def)
        have wf1: "rx_wf ?s" by (rule rx_moved_wf [OF wf mv disjI2 [OF ds]])
        have dist1: "rx_dist ?s = rx_dist s - (c + 1)" by (rule rx_moved_dist [OF wf mv]) (use c in simp)
        have "rx_sort_loop clk ?j c s e = rx_sort_loop clk ((baw_head ?s + 0) mod 128) 0 ?s ?e"
          by (subst rx_sort_loop.simps)
            (use jt d Some ripe True in \<open>simp add: Let_def DRV_TID_MAX_BUFS_def WIFINET_SEQ_MAX_def ring_simps\<close>)
        moreover obtain m s' e' where
          "rx_sort_loop clk ((baw_head ?s + 0) mod 128) 0 ?s ?e = Some (s', e')"
          and mv2: "rx_moved mac_input m ?s ?e s' e'" and so: "rx_sorted_to clk ?s m"
        proof -
          have "\<exists>m s' e'. rx_sort_loop clk ((baw_head ?s + 0) mod 128) 0 ?s ?e = Some (s', e')
            \<and> rx_moved mac_input m ?s ?e s' e' \<and> rx_sorted_to clk ?s m"
            by (rule less.hyps) (use c dist1 wf1 in simp_all)
          with that show ?thesis by blast
        qed
        moreover have "rx_sorted_to clk s (c + 1 + m)"
          by (rule rx_sorted_to_add [OF c127 c none full True mv rp dist1 so])
        moreover note rx_moved_add [OF mv mv2]
        ultimately have "rx_sort_loop clk ?j c s e = Some (s', e')
          \<and> rx_moved mac_input (c + 1 + m) s e s' e' \<and> rx_sorted_to clk s (c + 1 + m)" by simp
        then show ?thesis by blast
      qed
    qed
  qed
qed

section \<open>Storing a frame\<close>

text \<open>Abstractly a scoreboard is its window and the sequence number of the window's first slot. A
  frame with number \<open>q\<close> is \<open>index\<close> places ahead. Far behind the window it is old and dropped;
  beyond the block-ack size the window slides first; then the frame goes to its slot unless that is
  taken, and the full run at the head is delivered.\<close>

record rx_abs =
  a_seq :: nat
  a_win :: "(sk_buff \<times> rx_status) option list"
  a_out :: "rx_event list"

definition rx_abs_of :: "drv_rx_scoreboard \<Rightarrow> rx_env \<Rightarrow> rx_abs" where
  "rx_abs_of s e = \<lparr>a_seq = seq_next s, a_win = rx_win s, a_out = rx_log e\<rparr>"

definition abs_move :: "nat \<Rightarrow> rx_abs \<Rightarrow> rx_abs" where
  "abs_move m a = \<lparr>a_seq = (a_seq a + m) mod 4096, a_win = shift m (a_win a),
     a_out = a_out a @ map mac_input (somes (take m (a_win a)))\<rparr>"

definition abs_insert :: "nat \<Rightarrow> sk_buff \<Rightarrow> rx_status \<Rightarrow> rx_abs \<Rightarrow> rx_abs" where
  "abs_insert i b st a =
     (if a_win a ! i \<noteq> None then a\<lparr>a_out := a_out a @ [SkbFree b]\<rparr>
      else let w = (a_win a)[i := Some (b, st)] in abs_move (run w) (a\<lparr>a_win := w\<rparr>))"

definition abs_reorder :: "nat \<Rightarrow> sk_buff \<Rightarrow> rx_status \<Rightarrow> rx_abs \<Rightarrow> rx_abs" where
  "abs_reorder q b st a =
     (let index = cdist (a_seq a) q 4096 in
      if index > 3840 then a\<lparr>a_out := a_out a @ [SkbFree b]\<rparr>
      else let steps = index - 63 in abs_insert (index - steps) b st (abs_move steps a))"

lemma rx_moved_abs: "rx_moved mac_input m s e s' e' \<Longrightarrow> rx_abs_of s' e' = abs_move m (rx_abs_of s e)"
  by (simp add: rx_moved_def rx_abs_of_def abs_move_def)

lemma rx_wf_timer [simp]: "rx_wf (s\<lparr>timer := t\<rparr>) = rx_wf s"
proof -
  have "rx_win (s\<lparr>timer := t\<rparr>) = rx_win s" "rx_dist (s\<lparr>timer := t\<rparr>) = rx_dist s"
    by (simp_all add: rx_win_def rx_dist_def split: option.split)
  then show ?thesis by (simp add: rx_wf_def)
qed

lemma rx_win_upd [simp]:
  "rx_win (s\<lparr>timer := t\<rparr>) = rx_win s" "rx_win (s\<lparr>seq_reset := r\<rparr>) = rx_win s"
  "rx_win (s\<lparr>seq_next := q\<rparr>) = rx_win s" "rx_win (s\<lparr>baw_tail := n\<rparr>) = rx_win s"
  by (simp_all add: rx_win_def split: option.split)

lemma rx_start_timer_simps [simp]:
  "rx_wf (rx_start_timer s) = rx_wf s" "rx_win (rx_start_timer s) = rx_win s"
  "seq_next (rx_start_timer s) = seq_next s"
  "rx_addba_exchangecomplete (rx_start_timer s) = rx_addba_exchangecomplete s"
  "seq_reset (rx_start_timer s) = seq_reset s"
  by (simp_all add: rx_start_timer_def rx_cancel_timer_def)

text \<open>Putting a frame into its empty slot, the tail following when the frame is the last one.\<close>

definition rx_put :: "u64 \<Rightarrow> drv_rx_scoreboard \<Rightarrow> nat \<Rightarrow> sk_buff \<Rightarrow> rx_status \<Rightarrow> drv_rx_scoreboard" where
  "rx_put now s i b st =
     (let j = (baw_head s + i) mod 128;
          s1 = rx_set_desc s j \<lparr>rx_wbuf = Some b, rx_time = now, rs = st\<rparr>
      in if i \<ge> rx_dist s then s1\<lparr>baw_tail := CIRCLE_Add_One j 128\<rparr> else s1)"

lemma rx_put_wf:
  assumes wf: "rx_wf s" and op0: "pRxDesc s \<noteq> None" and i: "i < 127" and free: "rx_win s ! i = None"
    and sync: "rx_seqnum b = Some ((seq_next s + i) mod 4096)" and rst: "\<not> seq_reset s"
  shows "rx_wf (rx_put now s i b st)" and "rx_win (rx_put now s i b st) = (rx_win s)[i := Some (b, st)]"
    and "seq_next (rx_put now s i b st) = seq_next s"
    and "rx_addba_exchangecomplete (rx_put now s i b st) = rx_addba_exchangecomplete s"
    and "\<not> seq_reset (rx_put now s i b st)"
proof -
  note w = rx_wfD [OF wf]
  let ?p = "rx_put now s i b st" and ?j = "(baw_head s + i) mod 128"
  obtain ds where ds: "pRxDesc s = Some ds" using op0 by blast
  have len: "length ds = 128" using w(6) ds by simp
  have pds: "pRxDesc ?p = Some (ds[?j := \<lparr>rx_wbuf = Some b, rx_time = now, rs = st\<rparr>])"
    using ds by (simp add: rx_put_def rx_set_desc_def Let_def)
  have flds: "baw_head ?p = baw_head s" "baw_size ?p = baw_size s" "seq_reset ?p = seq_reset s"
    "baw_tail ?p = (if i \<ge> rx_dist s then CIRCLE_Add_One ?j 128 else baw_tail s)"
    by (simp_all add: rx_put_def rx_set_desc_def Let_def)
  show seq: "seq_next ?p = seq_next s" and cmp: "rx_addba_exchangecomplete ?p = rx_addba_exchangecomplete s"
    by (simp_all add: rx_put_def rx_set_desc_def Let_def)
  show "\<not> seq_reset ?p" using flds(3) rst by simp
  show win: "rx_win ?p = (rx_win s)[i := Some (b, st)]"
    using ring_view_update_in [of i 128 "map rx_slot ds" "baw_head s" "Some (b, st)"] i ds len
    by (simp add: rx_win_def pds flds map_update rx_slot_def)
  have tail: "baw_tail ?p = (baw_head s + max (rx_dist s) (i + 1)) mod 128"
  proof (cases "i \<ge> rx_dist s")
    case True
    then show ?thesis using flds(4) by (simp add: ring_simps mod_simps max_def)
  next
    case False
    have "(baw_head s + rx_dist s) mod 128 = baw_tail s" using add_cdist w(1,2) by (simp add: rx_dist_def)
    moreover have "max (rx_dist s) (i + 1) = rx_dist s" using False by simp
    ultimately show ?thesis using False flds(4) by simp
  qed
  then have dist: "rx_dist ?p = max (rx_dist s) (i + 1)"
    using cdist_add [of "baw_head s" 128 "max (rx_dist s) (i + 1)"] w(1) i rx_dist_less [of s] flds
    by (simp add: rx_dist_def)
  have past: "rx_win ?p ! k = None" if "k < 128" "rx_dist ?p \<le> k" for k
    using that win dist w(8) by auto
  have sy: "rx_seqnum b' = Some ((seq_next ?p + k) mod 4096)"
    if "k < 128" "rx_win ?p ! k = Some (b', st')" for k b' st'
    using that win w(10) sync seq by (cases "k = i") auto
  show "rx_wf ?p"
    unfolding rx_wf_def using past sy w(1,3,4,5) ds pds flds cmp seq tail len rst by simp
qed

lemma rx_store_refines:
  assumes wf: "rx_wf s" and op0: "pRxDesc s \<noteq> None" and i: "i < 127"
    and sync: "rx_seqnum b = Some ((seq_next s + i) mod 4096)" and rst: "\<not> seq_reset s"
  shows "\<exists>s' e'. rx_store now s e i b st = Some (s', e') \<and> rx_wf s'
    \<and> rx_addba_exchangecomplete s' = rx_addba_exchangecomplete s \<and> \<not> seq_reset s'
    \<and> rx_abs_of s' e' = abs_insert i b st (rx_abs_of s e)"
proof -
  note w = rx_wfD [OF wf]
  let ?j = "(baw_head s + i) mod 128"
  obtain ds where ds: "pRxDesc s = Some ds" using op0 by blast
  have len: "length ds = 128" using w(6) ds by simp
  have d: "rx_desc s ?j = Some (ds ! ?j)" using ds len by (simp add: rx_desc_def)
  have slot: "rx_slot (ds ! ?j) = rx_win s ! i" using ds len i by (simp add: rx_win_def)
  have diff: "nat ((int (baw_tail s) - int (baw_head s)) AND (int DRV_TID_MAX_BUFS - 1)) = rx_dist s"
    by (simp add: rx_dist_def cdist_def DRV_TID_MAX_BUFS_def int_and_127)
  show ?thesis
  proof (cases "rx_win s ! i")
    case (Some p)
    then have "rx_wbuf (ds ! ?j) \<noteq> None" using slot by (auto simp: rx_slot_def)
    with d Some wf rst show ?thesis
      by (simp add: rx_store_def Let_def DRV_TID_MAX_BUFS_def rx_abs_of_def abs_insert_def)
  next
    case None
    then have nb: "rx_wbuf (ds ! ?j) = None" using slot by (simp add: rx_slot_def)
    note p = rx_put_wf [OF wf op0 i None sync rst, of now st]
    obtain s' e' where s': "rx_drain (rx_put now s i b st) e = Some (s', e')"
      "rx_moved mac_input (run (rx_win (rx_put now s i b st))) (rx_put now s i b st) e s' e'"
      using rx_drain_moves [OF p(1), of e] by blast
    have "rx_store now s e i b st = Some (rx_start_timer s', e')"
      using d nb s'(1) diff
      by (cases "rx_dist s \<le> i") (simp_all add: rx_store_def rx_put_def Let_def DRV_TID_MAX_BUFS_def)
    moreover have "rx_wf s'"
      by (rule rx_moved_wf [OF p(1) s'(2)]) (use ds in \<open>simp add: rx_put_def rx_set_desc_def Let_def\<close>)
    moreover have "rx_abs_of (rx_start_timer s') e' = abs_insert i b st (rx_abs_of s e)"
      using rx_moved_abs [OF s'(2)] None p(2,3) by (simp add: rx_abs_of_def abs_insert_def Let_def)
    moreover have "rx_addba_exchangecomplete s' = rx_addba_exchangecomplete s" "\<not> seq_reset s'"
      using s'(2) p(4,5) by (simp_all add: rx_moved_def rx_rest_def)
    ultimately show ?thesis by auto
  qed
qed

lemma rx_reorder_refines:
  assumes wf: "rx_wf s" and op0: "rx_addba_exchangecomplete s" and q: "q < 4096" "rx_seqnum b = Some q"
  shows "\<exists>s' e'. rx_reorder now s e q b st = Some (s', e') \<and> rx_wf s' \<and> \<not> seq_reset s'
    \<and> rx_addba_exchangecomplete s'
    \<and> rx_abs_of s' e' = abs_reorder q b st (rx_abs_of (if seq_reset s then s\<lparr>seq_next := q\<rparr> else s) e)"
proof -
  define s0 where "s0 = (if seq_reset s then s\<lparr>seq_reset := False, seq_next := q\<rparr> else s)"
  note w = rx_wfD [OF wf]
  have wf0: "rx_wf s0"
  proof (cases "seq_reset s")
    case True
    have "rx_dist s0 = rx_dist s" "rx_win s0 = rx_win s" by (simp_all add: s0_def rx_dist_def)
    with True w(9) wf q(1) show ?thesis by (simp add: rx_wf_def s0_def)
  next
    case False
    with wf show ?thesis by (simp add: s0_def)
  qed
  note w0 = rx_wfD [OF wf0]
  have cmp0: "rx_addba_exchangecomplete s0" "\<not> seq_reset s0" using op0 by (simp_all add: s0_def)
  then have op: "pRxDesc s0 \<noteq> None" "rx_addba_exchangecomplete s0" "\<not> seq_reset s0" using w0(5) by blast+
  have abs: "rx_abs_of s0 e = rx_abs_of (if seq_reset s then s\<lparr>seq_next := q\<rparr> else s) e"
    by (simp add: rx_abs_of_def s0_def)
  let ?i = "cdist (seq_next s0) q 4096"
  have lim: "int WIFINET_SEQ_MAX - int (baw_size s0 * 4) = 3840" using w0(4) by (simp add: WIFINET_SEQ_MAX_def)
  have steps: "(if ?i \<ge> baw_size s0 then ?i - baw_size s0 + 1 else 0) = ?i - 63" using w0(4) by auto
  have eq: "rx_reorder now s e q b st =
    (if ?i > 3840 then Some (s0, emit (SkbFree b) e)
     else case rx_slide (?i - 63) s0 e of None \<Rightarrow> None
       | Some (s, e) \<Rightarrow> rx_store now s e (?i - (?i - 63)) b st)"
    unfolding rx_reorder_def Let_def DRV_BA_INDEX_cdist s0_def [symmetric] lim steps by simp
  show ?thesis
  proof (cases "?i > 3840")
    case True
    with eq wf0 op abs show ?thesis
      by (simp add: abs_reorder_def rx_abs_of_def)
  next
    case False
    obtain s1 e1 where s1: "rx_slide (?i - 63) s0 e = Some (s1, e1)"
      "rx_moved mac_input (?i - 63) s0 e s1 e1"
      using rx_slide_moves [OF wf0 op(1), of "?i - 63" e] by blast
    have wf1: "rx_wf s1" by (rule rx_moved_wf [OF wf0 s1(2) disjI2 [OF op(1)]])
    have r1: "rx_addba_exchangecomplete s1" "\<not> seq_reset s1" "pRxDesc s1 \<noteq> None"
      using s1(2) op by (auto simp: rx_moved_def rx_rest_def)
    have "(seq_next s0 + ?i) mod 4096 = q" by (rule add_cdist [OF w0(3) q(1)])
    moreover have "seq_next s1 = (seq_next s0 + (?i - 63)) mod 4096" using s1(2) by (simp add: rx_moved_def)
    moreover have "seq_next s0 + (?i - 63) + (?i - (?i - 63)) = seq_next s0 + ?i" by simp
    ultimately have sy: "rx_seqnum b = Some ((seq_next s1 + (?i - (?i - 63))) mod 4096)"
      using q(2) by (simp only: mod_add_left_eq)
    have "?i - (?i - 63) < 127" by simp
    from rx_store_refines [OF wf1 r1(3) this sy r1(2), of now e1 st] obtain s' e' where
      st: "rx_store now s1 e1 (?i - (?i - 63)) b st = Some (s', e')" "rx_wf s'"
      "rx_addba_exchangecomplete s'" "\<not> seq_reset s'" "rx_abs_of s' e' = abs_insert (?i - (?i - 63)) b st (rx_abs_of s1 e1)"
      using r1(1) by auto
    have "rx_abs_of s' e' = abs_reorder q b st (rx_abs_of s0 e)"
      unfolding st(5) rx_moved_abs [OF s1(2)] using False
      by (simp add: abs_reorder_def rx_abs_of_def Let_def)
    then show ?thesis using eq False s1(1) st(1-4) abs by simp
  qed
qed

section \<open>Stations\<close>

definition rx_nok :: "rx_nsta \<Rightarrow> bool" where
  "rx_nok n \<longleftrightarrow> length (rx_scb n) = WME_NUM_TID \<and> (\<forall>s \<in> set (rx_scb n). rx_wf s)"

lemma rx_nok_nth: "rx_nok n \<Longrightarrow> tid < 8 \<Longrightarrow> rx_wf (rx_scb n ! tid)"
  by (simp add: rx_nok_def WME_NUM_TID_def)

lemma rx_nok_upd: "rx_nok n \<Longrightarrow> rx_wf s \<Longrightarrow> rx_nok (scb_upd n tid (s, e))"
  using set_update_subset_insert [of "rx_scb n" tid s] by (auto simp: rx_nok_def scb_upd_def)

lemma rx_nok_env [simp]: "rx_nok (n\<lparr>env := e\<rparr>) = rx_nok n"
  by (simp add: rx_nok_def)

lemma nth_opt_scb: "rx_nok n \<Longrightarrow> tid < 8 \<Longrightarrow> nth_opt (rx_scb n) tid = Some (rx_scb n ! tid)"
  by (simp add: rx_nok_def WME_NUM_TID_def)

lemma rx_moved_wf_le:
  assumes wf: "rx_wf s" and mv: "rx_moved f m s e s' e'" and m: "m \<le> rx_dist s"
  shows "rx_wf s'"
  by (rule rx_moved_wf [OF wf mv]) (use m rx_wfD(7) [OF wf] rx_dist_0 [OF wf] in fastforce)

lemma rx_wf_fields [simp]:
  "rx_wf (s\<lparr>userstatuscode := c\<rparr>) = rx_wf s" "rx_wf (s\<lparr>statuscode := d\<rparr>) = rx_wf s"
  "rx_wf (s\<lparr>dialogtoken := t\<rparr>) = rx_wf s" "rx_wf (s\<lparr>baparamset := p\<rparr>) = rx_wf s"
  "rx_wf (s\<lparr>batimeout := u\<rparr>) = rx_wf s"
proof -
  have w: "rx_win (s\<lparr>userstatuscode := c\<rparr>) = rx_win s" "rx_win (s\<lparr>statuscode := d\<rparr>) = rx_win s"
    "rx_win (s\<lparr>dialogtoken := t\<rparr>) = rx_win s" "rx_win (s\<lparr>baparamset := p\<rparr>) = rx_win s"
    "rx_win (s\<lparr>batimeout := u\<rparr>) = rx_win s"
    by (simp_all add: rx_win_def split: option.split)
  then show "rx_wf (s\<lparr>userstatuscode := c\<rparr>) = rx_wf s" "rx_wf (s\<lparr>statuscode := d\<rparr>) = rx_wf s"
    "rx_wf (s\<lparr>dialogtoken := t\<rparr>) = rx_wf s" "rx_wf (s\<lparr>baparamset := p\<rparr>) = rx_wf s"
    "rx_wf (s\<lparr>batimeout := u\<rparr>) = rx_wf s"
    by (simp_all only: rx_wf_def) (simp_all add: rx_dist_def)
qed


text \<open>A block-ack request moves the window by its distance modulo the ring size, at most up to the
  tail, and then delivers the full run at the new head.\<close>

definition abs_bar :: "nat \<Rightarrow> nat \<Rightarrow> rx_abs \<Rightarrow> rx_abs" where
  "abs_bar d q a =
     (let a = abs_move (min d (cdist (a_seq a) q 4096 mod 128)) a in abs_move (run (a_win a)) a)"

lemma rx_bar_refines:
  assumes wf: "rx_wf s"
  shows "\<exists>s1 e1 s' e'. rx_bar_skip ((baw_head s + DRV_BA_INDEX (seq_next s) q) mod DRV_TID_MAX_BUFS) s e = Some (s1, e1)
    \<and> rx_bar_drain s1 e1 = Some (s', e') \<and> rx_wf s'
    \<and> rx_addba_exchangecomplete s' = rx_addba_exchangecomplete s
    \<and> rx_abs_of s' e' = abs_bar (rx_dist s) q (rx_abs_of s e)"
proof -
  let ?i = "cdist (seq_next s) q 4096"
  have "cdist (baw_head s) ((baw_head s + ?i) mod 128) 128 = cdist (baw_head s) ((baw_head s + ?i mod 128) mod 128) 128"
    by (simp add: mod_simps)
  also have "\<dots> = ?i mod 128" using rx_wfD(1) [OF wf] by (simp add: cdist_add)
  finally have c: "cdist (baw_head s) ((baw_head s + ?i) mod 128) 128 = ?i mod 128" .
  have lt: "(baw_head s + ?i) mod 128 < 128" by simp
  obtain s1 e1 where s1: "rx_bar_skip ((baw_head s + ?i) mod 128) s e = Some (s1, e1)"
    and m1: "rx_moved mac_input (min (rx_dist s) (?i mod 128)) s e s1 e1"
    using rx_bar_skip_moves [OF wf lt, of e] unfolding c by blast
  have wf1: "rx_wf s1" by (rule rx_moved_wf_le [OF wf m1]) simp
  obtain s' e' where s': "rx_bar_drain s1 e1 = Some (s', e')"
    and m2: "rx_moved mac_input (run (rx_win s1)) s1 e1 s' e'"
    using rx_bar_drain_moves [OF wf1, of e1] by blast
  have "rx_wf s'" by (rule rx_moved_wf_le [OF wf1 m2 rx_run_le [OF wf1]])
  moreover have "rx_addba_exchangecomplete s' = rx_addba_exchangecomplete s"
    using m1 m2 by (simp add: rx_moved_def rx_rest_def)
  moreover have "rx_abs_of s' e' = abs_bar (rx_dist s) q (rx_abs_of s e)"
  proof -
    have w: "rx_win s1 = a_win (rx_abs_of s1 e1)" and q: "seq_next s = a_seq (rx_abs_of s e)"
      by (simp_all add: rx_abs_of_def)
    show ?thesis
      unfolding rx_moved_abs [OF m2] w rx_moved_abs [OF m1] abs_bar_def Let_def q [symmetric] by (rule refl)
  qed
  ultimately show ?thesis using s1 s' by (simp add: DRV_BA_INDEX_cdist DRV_TID_MAX_BUFS_def)
qed

section \<open>Every operation keeps the invariant and is defined\<close>


text \<open>Frames the receive path can read: long enough, and with a traffic id below eight.\<close>

definition rx_tid_of :: "sk_buff \<Rightarrow> nat" where
  "rx_tid_of b = unat (skb_data b ! (if skb_data b ! 1 AND 0x03 = 0x03 then 30 else 24) AND 0x0f)"

definition rx_frame_ok :: "sk_buff \<Rightarrow> bool" where
  "rx_frame_ok b \<longleftrightarrow> 32 \<le> length (skb_data b) \<and> rx_tid_of b < 8
     \<and> unat (skb_data b ! 16) + 256 * unat (skb_data b ! 17) < 8 * 4096"




lemma rx_cancel_timer_wf [simp]: "rx_wf (rx_cancel_timer s) = rx_wf s" "rx_dist (rx_cancel_timer s) = rx_dist s"
  "rx_win (rx_cancel_timer s) = rx_win s"
  by (simp_all add: rx_cancel_timer_def rx_dist_def)

text \<open>A full flush leaves an empty window.\<close>

lemma rx_flush_empty:
  assumes wf: "rx_wf s" and fl: "drv_rx_flush_tid drp s e = Some (s', e')"
  shows "rx_wf s'" and "\<forall>i < 128. rx_win s' ! i = None" and "baw_head s' = baw_tail s'"
    and "rx_rest s' = rx_rest s"
    and "rx_log e' = rx_log e @ map (if drp then skb_free else mac_input) (somes (rx_win s))"
proof -
  let ?f = "if drp then skb_free else mac_input"
  have mv: "rx_moved ?f (rx_dist s) s e s' e'"
    using rx_flush_moves [OF wf, of drp e] fl by auto
  show wf': "rx_wf s'" by (rule rx_moved_wf_le [OF wf mv]) simp
  have "rx_dist s' = 0" using rx_moved_dist [OF wf mv] by simp
  with rx_wfD(8) [OF wf'] rx_dist_0 [OF wf'] show "\<forall>i < 128. rx_win s' ! i = None" "baw_head s' = baw_tail s'"
    by auto
  show "rx_rest s' = rx_rest s" using mv by (simp add: rx_moved_def)
  have "somes (drop (rx_dist s) (rx_win s)) = []"
    using rx_wfD(8) [OF wf] by (auto simp: somes_Nil_iff in_set_conv_nth)
  then have "somes (take (rx_dist s) (rx_win s)) = somes (rx_win s)"
    by (metis append.right_neutral append_take_drop_id somes_append)
  with mv show "rx_log e' = rx_log e @ map ?f (somes (rx_win s))" by (simp add: rx_moved_def)
qed

lemma drv_rxampdu_del_ok:
  assumes ok: "rx_nok n" and t: "unat t < 8"
  shows "\<exists>n'. drv_rxampdu_del n t = Some n' \<and> rx_nok n' \<and> length (rx_scb n') = 8
    \<and> \<not> rx_addba_exchangecomplete (rx_scb n' ! unat t)
    \<and> (\<forall>k < 8. k \<noteq> unat t \<longrightarrow> rx_scb n' ! k = rx_scb n ! k)
    \<and> rx_log (env n') = rx_log (env n) @
        (if rx_addba_exchangecomplete (rx_scb n ! unat t)
         then map mac_input (somes (rx_win (rx_scb n ! unat t))) else [])"
proof -
  let ?s = "rx_scb n ! unat t"
  have wf: "rx_wf ?s" by (rule rx_nok_nth [OF ok t])
  have len: "length (rx_scb n) = 8" using ok by (simp add: rx_nok_def WME_NUM_TID_def)
  show ?thesis
  proof (cases "rx_addba_exchangecomplete ?s")
    case False
    with ok t len show ?thesis by (simp add: drv_rxampdu_del_def nth_opt_scb)
  next
    case True
    obtain s' e' where fl: "drv_rx_flush_tid False (rx_cancel_timer ?s) (env n) = Some (s', e')"
      using rx_flush_moves [of "rx_cancel_timer ?s" False "env n"] wf by auto
    have wfc: "rx_wf (rx_cancel_timer ?s)" using wf by simp
    note fe = rx_flush_empty [OF wfc fl]
    let ?s' = "s'\<lparr>rx_addba_exchangecomplete := False, pRxDesc := None\<rparr>"
    have "rx_win ?s' ! i = None" if "i < 128" for i using that by (simp add: rx_win_def)
    with fe(1,3) have wf': "rx_wf ?s'" by (simp add: rx_wf_def)
    have "pRxDesc s' \<noteq> None"
      using True fe(4) rx_wfD(5) [OF wf] by (auto simp: rx_rest_def rx_cancel_timer_def)
    then have "drv_rxampdu_del n t = Some (scb_upd n (unat t) (?s', e'))"
      using True fl nth_opt_scb [OF ok t] by (simp add: drv_rxampdu_del_def)
    moreover have "rx_nok (scb_upd n (unat t) (?s', e'))" by (rule rx_nok_upd [OF ok wf'])
    ultimately show ?thesis using fe(5) t len True by (simp add: scb_upd_def)
  qed
qed




lemma drv_rx_sort_timer_ex_ok:
  assumes wf: "rx_wf s"
  shows "\<exists>m s' e'. drv_rx_sort_timer_ex clk s e = Some (s', e') \<and> rx_wf s' \<and> rx_sorted_to clk s m
    \<and> rx_abs_of s' e' = abs_move m (rx_abs_of s e)
    \<and> (baw_head s' \<noteq> baw_tail s' \<longrightarrow> active_flag (timer s'))"
proof -
  have head: "(baw_head s + 0) mod 128 = baw_head s" using rx_wfD(1) [OF wf] by simp
  obtain m s' e' where s': "rx_sort_loop clk (baw_head s) 0 s e = Some (s', e')"
    and mv: "rx_moved mac_input m s e s' e'" and so: "rx_sorted_to clk s m"
    using rx_sort_loop_moves [OF wf, of 0 clk e] unfolding head by auto
  have "m \<le> rx_dist s" using so by (simp add: rx_sorted_to_def)
  from rx_moved_wf_le [OF wf mv this] have wf': "rx_wf s'" .
  have act: "active_flag (os_timer_ex_start t)" for t
    by (simp add: os_timer_ex_start_def OS_SET_TIMER_def)
  let ?t = "if baw_head s' \<noteq> baw_tail s' then s'\<lparr>timer := os_timer_ex_start (timer s')\<rparr> else s'"
  have "rx_abs_of ?t e' = rx_abs_of s' e'" by (simp add: rx_abs_of_def)
  then have "drv_rx_sort_timer_ex clk s e = Some (?t, e') \<and> rx_wf ?t \<and> rx_sorted_to clk s m
    \<and> rx_abs_of ?t e' = abs_move m (rx_abs_of s e) \<and> (baw_head ?t \<noteq> baw_tail ?t \<longrightarrow> active_flag (timer ?t))"
    using s' so wf' act rx_moved_abs [OF mv] by (simp add: drv_rx_sort_timer_ex_def)
  then show ?thesis by blast
qed

lemma rx_tid_init_wf: "rx_wf (rx_tid_init s)"
proof -
  have "rx_win (rx_tid_init s) = replicate 128 None" by (simp add: rx_win_def rx_tid_init_def)
  then show ?thesis by (simp add: rx_wf_def) (simp add: rx_tid_init_def WME_MAX_BA_def)
qed



section \<open>Order and conservation\<close>

text \<open>A window whose frames sit in the slots of their sequence numbers, \<open>m\<close> places after \<open>q\<close>,
  is delivered in order: the distances from \<open>q\<close> increase strictly.\<close>

definition seq_dist :: "nat \<Rightarrow> sk_buff \<times> rx_status \<Rightarrow> nat" where
  "seq_dist q p = cdist q (the (rx_seqnum (fst p))) 4096"

definition win_sync :: "nat \<Rightarrow> (sk_buff \<times> rx_status) option list \<Rightarrow> bool" where
  "win_sync q w \<longleftrightarrow> (\<forall>i < length w. \<forall>b st. w ! i = Some (b, st) \<longrightarrow> rx_seqnum b = Some ((q + i) mod 4096))"

definition increasing :: "nat list \<Rightarrow> bool" where
  "increasing = sorted_wrt (<)"

lemma win_sync_dists:
  assumes sy: "win_sync (q + m) w" and q: "q < 4096" and k: "k \<le> length w" "m + k \<le> 4096"
  shows "increasing (map (seq_dist q) (somes (take k w)))
    \<and> (\<forall>p \<in> set (somes (take k w)). m \<le> seq_dist q p \<and> seq_dist q p < m + k)"
  using k
proof (induction k)
  case 0
  then show ?case by (simp add: increasing_def)
next
  case (Suc k)
  then have k: "k < length w" by simp
  have take: "take (Suc k) w = take k w @ [w ! k]" by (rule take_Suc_conv_app_nth [OF k])
  show ?case
  proof (cases "w ! k")
    case None
    with Suc take show ?thesis by fastforce
  next
    case (Some p)
    obtain b st where p: "p = (b, st)" by (cases p)
    have "rx_seqnum b = Some ((q + m + k) mod 4096)" using sy k Some p by (simp add: win_sync_def)
    then have "seq_dist q p = cdist q ((q + (m + k)) mod 4096) 4096" by (simp add: seq_dist_def p add.assoc)
    also have "\<dots> = m + k" using q Suc.prems by (intro cdist_add) auto
    finally show ?thesis using Suc Some take by (auto simp: increasing_def sorted_wrt_append)
  qed
qed

lemma win_sync_shift: "win_sync q w \<Longrightarrow> win_sync (q + m) (shift m w)"
  by (auto simp: win_sync_def add_ac split: if_splits)

lemma win_sync_update: "win_sync q w \<Longrightarrow> rx_seqnum b = Some ((q + i) mod 4096) \<Longrightarrow> win_sync q (w[i := Some (b, st)])"
proof (unfold win_sync_def, intro allI impI)
  fix k b' st'
  assume sy: "\<forall>i < length w. \<forall>b st. w ! i = Some (b, st) \<longrightarrow> rx_seqnum b = Some ((q + i) mod 4096)"
    and b: "rx_seqnum b = Some ((q + i) mod 4096)" and k: "k < length (w[i := Some (b, st)])"
    and e: "w[i := Some (b, st)] ! k = Some (b', st')"
  show "rx_seqnum b' = Some ((q + k) mod 4096)"
  proof (cases "k = i")
    case True
    with e k b show ?thesis by simp
  next
    case False
    with e k sy show ?thesis by simp
  qed
qed

lemma win_sync_mod: "win_sync (q mod 4096) w = win_sync q w"
  by (simp add: win_sync_def mod_simps)

lemma rx_wf_sync: "rx_wf s \<Longrightarrow> win_sync (seq_next s) (rx_win s)"
  using rx_wfD(10) by (auto simp: win_sync_def)

fun handed_up :: "rx_event list \<Rightarrow> (sk_buff \<times> rx_status) list" where
  "handed_up [] = []"
| "handed_up (MacInput b st # xs) = (b, st) # handed_up xs"
| "handed_up (x # xs) = handed_up xs"

lemma handed_up_append [simp]: "handed_up (xs @ ys) = handed_up xs @ handed_up ys"
  by (induction xs rule: handed_up.induct) auto

lemma handed_up_map [simp]: "handed_up (map mac_input ps) = ps"
  by (induction ps) auto

lemma run_le: "run w \<le> length w"
  by (simp add: run_def length_takeWhile_le)

text \<open>What \<open>abs_reorder\<close> hands up comes in order and is what the window moves over.\<close>

lemma abs_reorder_order:
  assumes sy: "win_sync (a_seq a) (a_win a)" and len: "length (a_win a) = 128" and q: "a_seq a < 4096" "r < 4096"
    and b: "rx_seqnum b = Some r"
  shows "\<exists>m out. m < 4096 \<and> a_seq (abs_reorder r b st a) = (a_seq a + m) mod 4096
    \<and> a_out (abs_reorder r b st a) = a_out a @ out
    \<and> increasing (map (seq_dist (a_seq a)) (handed_up out))
    \<and> (\<forall>p \<in> set (handed_up out). seq_dist (a_seq a) p < m)"
proof -
  let ?i = "cdist (a_seq a) r 4096"
  let ?m = "?i - 63" and ?w = "a_win a"
  let ?w1 = "shift ?m ?w"
  let ?w2 = "?w1[?i - ?m := Some (b, st)]"
  have first: "increasing (map (seq_dist (a_seq a)) (somes (take ?m ?w)))"
    "\<forall>p \<in> set (somes (take ?m ?w)). seq_dist (a_seq a) p < ?m"
  proof -
    have "take ?m ?w = take (min ?m 128) ?w" using len by (simp add: min_def)
    moreover have "0 + min ?m 128 \<le> 4096" by simp
    ultimately show "increasing (map (seq_dist (a_seq a)) (somes (take ?m ?w)))"
      "\<forall>p \<in> set (somes (take ?m ?w)). seq_dist (a_seq a) p < ?m"
      using win_sync_dists [of "a_seq a" 0 ?w "min ?m 128"] sy len q(1) by fastforce+
  qed
  show ?thesis
  proof (cases "?i > 3840")
    case True
    then have "a_seq (abs_reorder r b st a) = (a_seq a + 0) mod 4096"
      "a_out (abs_reorder r b st a) = a_out a @ [SkbFree b]" using q by (simp_all add: abs_reorder_def)
    moreover have "increasing (map (seq_dist (a_seq a)) (handed_up [SkbFree b]))" by (simp add: increasing_def)
    ultimately show ?thesis by (intro exI [of _ 0] exI [of _ "[SkbFree b]"]) simp
  next
    case False
    then have red: "abs_reorder r b st a = abs_insert (?i - ?m) b st (abs_move ?m a)"
      by (simp add: abs_reorder_def Let_def)
    have ri: "(a_seq a + ?i) mod 4096 = r" by (rule add_cdist [OF q])
    have sy1: "win_sync (a_seq a + ?m) ?w1" by (rule win_sync_shift [OF sy])
    have "a_seq a + ?m + (?i - ?m) = a_seq a + ?i" by simp
    then have sy2: "win_sync (a_seq a + ?m) ?w2"
      by (intro win_sync_update [OF sy1]) (simp add: b ri)
    have run: "run ?w2 \<le> 128" using run_le [of ?w2] len by simp
    have second: "increasing (map (seq_dist (a_seq a)) (somes (take (run ?w2) ?w2)))"
      "\<forall>p \<in> set (somes (take (run ?w2) ?w2)). ?m \<le> seq_dist (a_seq a) p \<and> seq_dist (a_seq a) p < ?m + run ?w2"
      using win_sync_dists [OF sy2 q(1), of "run ?w2"] run len False by auto
    let ?o1 = "map mac_input (somes (take ?m ?w))" and ?o2 = "map mac_input (somes (take (run ?w2) ?w2))"
    have inc: "increasing (map (seq_dist (a_seq a)) (handed_up (?o1 @ ?o2)))"
      using first second unfolding increasing_def by (fastforce simp: sorted_wrt_append)
    show ?thesis
    proof (cases "?w1 ! (?i - ?m)")
      case None
      have "a_seq (abs_reorder r b st a) = (a_seq a + (?m + run ?w2)) mod 4096"
        "a_out (abs_reorder r b st a) = a_out a @ ?o1 @ ?o2"
        using None by (simp_all add: red abs_insert_def abs_move_def Let_def mod_simps add.assoc)
      moreover have "\<forall>p \<in> set (handed_up (?o1 @ ?o2)). seq_dist (a_seq a) p < ?m + run ?w2"
        using first(2) second(2) by fastforce
      moreover have "?m + run ?w2 < 4096" using False run by linarith
      ultimately show ?thesis using inc by blast
    next
      case (Some x)
      have "a_seq (abs_reorder r b st a) = (a_seq a + ?m) mod 4096"
        "a_out (abs_reorder r b st a) = a_out a @ ?o1 @ [SkbFree b]"
        using Some by (simp_all add: red abs_insert_def abs_move_def)
      moreover have "?m < 4096" using False by linarith
      moreover have "increasing (map (seq_dist (a_seq a)) (handed_up (?o1 @ [SkbFree b])))"
        "\<forall>p \<in> set (handed_up (?o1 @ [SkbFree b])). seq_dist (a_seq a) p < ?m" using first by simp_all
      ultimately show ?thesis by blast
    qed
  qed
qed

text \<open>The frames in the window and those that have left it.\<close>

fun event_frames :: "rx_event list \<Rightarrow> sk_buff list" where
  "event_frames [] = []"
| "event_frames (MacInput b st # xs) = b # event_frames xs"
| "event_frames (SkbFree b # xs) = b # event_frames xs"
| "event_frames (x # xs) = event_frames xs"

lemma event_frames_append [simp]: "event_frames (xs @ ys) = event_frames xs @ event_frames ys"
  by (induction xs rule: event_frames.induct) auto

lemma event_frames_map [simp]: "event_frames (map mac_input ps) = map fst ps"
  by (induction ps) auto

definition abs_frames :: "rx_abs \<Rightarrow> sk_buff multiset" where
  "abs_frames a = mset (map fst (somes (a_win a))) + mset (event_frames (a_out a))"

lemma abs_move_frames: "abs_frames (abs_move m a) = abs_frames a"
proof -
  have "somes (a_win a) = somes (take m (a_win a)) @ somes (drop m (a_win a))"
    by (metis append_take_drop_id somes_append)
  then show ?thesis by (simp add: abs_frames_def abs_move_def shift_drop)
qed

lemma somes_update:
  assumes "i < length w" "w ! i = None"
  shows "mset (somes (w[i := Some x])) = add_mset x (mset (somes w))"
proof -
  have "w = take i w @ None # drop (Suc i) w" using assms id_take_nth_drop by metis
  then have "somes w = somes (take i w) @ somes (drop (Suc i) w)" by (metis somes.simps(2) somes_append)
  moreover have "w[i := Some x] = take i w @ Some x # drop (Suc i) w" by (rule upd_conv_take_nth_drop [OF assms(1)])
  ultimately show ?thesis by simp
qed

lemma abs_reorder_frames:
  assumes len: "length (a_win a) = 128"
  shows "abs_frames (abs_reorder q b st a) = add_mset b (abs_frames a)"
proof -
  let ?i = "cdist (a_seq a) q 4096"
  have ins: "abs_frames (abs_insert i b st a') = add_mset b (abs_frames a')"
    if "i < length (a_win a')" for i a'
  proof (cases "a_win a' ! i")
    case None
    then have "abs_frames (a'\<lparr>a_win := (a_win a')[i := Some (b, st)]\<rparr>) = add_mset b (abs_frames a')"
      using somes_update [OF that None, of "(b, st)"] by (simp add: abs_frames_def)
    with None show ?thesis by (simp add: abs_insert_def Let_def abs_move_frames)
  next
    case (Some x)
    then show ?thesis by (simp add: abs_insert_def abs_frames_def)
  qed
  show ?thesis
  proof (cases "?i > 3840")
    case True
    then show ?thesis by (simp add: abs_reorder_def abs_frames_def)
  next
    case False
    have "?i - (?i - 63) < length (a_win (abs_move (?i - 63) a))" using len by (simp add: abs_move_def)
    from ins [OF this] False show ?thesis by (simp add: abs_reorder_def Let_def abs_move_frames)
  qed
qed

section \<open>Properties\<close>

definition rx_is_qos_data :: "sk_buff \<Rightarrow> bool" where
  "rx_is_qos_data b \<longleftrightarrow> skb_data b ! 0 AND 0x03 = 0 \<and> skb_data b ! 0 AND 0x0c = 0x08
     \<and> skb_data b ! 0 AND 0xf0 = 0x80 \<and> skb_data b ! 4 AND 0x01 = 0"

lemma rx_qos_not_bar: "rx_is_qos_data b \<Longrightarrow> \<not> rx_is_bar (skb_data b ! 0)"
  by (auto simp: rx_is_qos_data_def rx_is_bar_def)

text \<open>A small station for the witnesses: session 0 is open, the next number is 5, and the frame
  with number 6 waits.\<close>

definition demo_skb :: "nat \<Rightarrow> u8 \<Rightarrow> sk_buff" where
  "demo_skb i sq = \<lparr>skb_id = i, skb_data = (replicate 32 0)[0 := 0x88, 22 := 16 * sq]\<rparr>"

definition demo_scb :: drv_rx_scoreboard where
  "demo_scb = \<lparr>seq_next = 5, baw_size = 64, baw_head = 127, baw_tail = 1, seq_reset = False,
     timer = os_timer_ex_initialize 80,
     pRxDesc = Some ((replicate 128 \<lparr>rx_wbuf = None, rx_time = 0, rs = 0\<rparr>)
       [0 := \<lparr>rx_wbuf = Some (demo_skb 6 6), rx_time = 1000, rs = 0\<rparr>]),
     dialogtoken = 0, statuscode = 0, baparamset = \<lparr>amsdusupported = 1, bapolicy = 1, ba_tid = 0,
       buffersize = 64\<rparr>, batimeout = 0, userstatuscode = 0, rx_addba_exchangecomplete = True\<rparr>"

definition demo_env :: rx_env where
  "demo_env = \<lparr>rx_ampdu_cnt = 0, rx_bar_cnt = 0, rx_bardrop_cnt = 0, rx_nonqos_cnt = 0, rx_ok_cnt = 0,
     rx_dup_cnt = 0, rx_skipped_cnt = 0, rx_log = []\<rparr>"

definition demo_nsta :: rx_nsta where
  "demo_nsta = \<lparr>rx_scb = demo_scb # replicate 7 (rx_tid_init demo_scb), cfg_rxaggr = True, env = demo_env\<rparr>"

lemma demo_scb_win: "rx_win demo_scb = (replicate 128 None)[1 := Some (demo_skb 6 6, 0)]"
  by code_simp

lemma demo_scb_wf: "rx_wf demo_scb"
proof -
  have d: "rx_dist demo_scb = 2" by code_simp
  have s: "rx_seqnum (demo_skb 6 6) = Some 6" by code_simp
  have n: "rx_win demo_scb ! i = (if i = 1 then Some (demo_skb 6 6, 0) else None)" if "i < 128" for i
    using that by (simp add: demo_scb_win nth_list_update)
  show ?thesis
    unfolding rx_wf_def d using n s by (auto simp: demo_scb_def split: if_splits)
qed

lemma demo_nsta_ok: "rx_nok demo_nsta"
  using demo_scb_wf rx_tid_init_wf by (auto simp: rx_nok_def demo_nsta_def WME_NUM_TID_def)

lemma demo_skb_ok: "rx_frame_ok (demo_skb i 5)" "rx_is_qos_data (demo_skb i 5)" "rx_tid_of (demo_skb i 5) = 0"
  "rx_seqnum (demo_skb i 5) = Some 5"
  by (simp_all add: demo_skb_def rx_frame_ok_def rx_is_qos_data_def rx_tid_of_def rx_seqnum_def le16_at_def
      byte_at_def nth_list_update)



text \<open>C5: Frames go up in sequence: what one call hands up has strictly increasing distances from
  the expected number \<open>seq_next\<close>, all smaller than the distance \<open>seq_next\<close> moves on by, so across
  the calls of a session no frame overtakes another and none is handed up twice for one number.\<close>

theorem rx_reorder_in_order:
  assumes wf: "rx_wf s" and sess: "rx_addba_exchangecomplete s" and rst: "\<not> seq_reset s"
    and q: "q < 4096" "rx_seqnum b = Some q" and run: "rx_reorder now s e q b st = Some (s', e')"
  shows "\<exists>m out. m < 4096 \<and> seq_next s' = (seq_next s + m) mod 4096 \<and> rx_log e' = rx_log e @ out
    \<and> increasing (map (seq_dist (seq_next s)) (handed_up out))
    \<and> (\<forall>p \<in> set (handed_up out). seq_dist (seq_next s) p < m)"
proof -
  let ?a = "rx_abs_of s e"
  have a: "rx_abs_of s' e' = abs_reorder q b st ?a"
    using rx_reorder_refines [OF wf sess q, of now e st] rst run by auto
  have f: "a_seq (rx_abs_of s' e') = seq_next s'" "a_out (rx_abs_of s' e') = rx_log e'"
    "a_seq ?a = seq_next s" "a_out ?a = rx_log e" "a_win ?a = rx_win s" by (simp_all add: rx_abs_of_def)
  have "win_sync (a_seq ?a) (a_win ?a)" "length (a_win ?a) = 128" "a_seq ?a < 4096"
    using rx_wf_sync [OF wf] rx_wfD(3) [OF wf] by (simp_all add: f)
  from abs_reorder_order [OF this q, of st] show ?thesis unfolding a [symmetric] f .
qed

theorem rx_reorder_in_order_witness:
  "\<exists>s' e'. rx_reorder 0 demo_scb demo_env 5 (demo_skb 5 5) 0 = Some (s', e')
    \<and> (\<exists>m out. m < 4096 \<and> seq_next s' = (5 + m) mod 4096 \<and> rx_log e' = out)"
proof -
  have c: "rx_addba_exchangecomplete demo_scb" "\<not> seq_reset demo_scb" "seq_next demo_scb = 5"
    "rx_log demo_env = []" by (simp_all add: demo_scb_def demo_env_def)
  have q: "(5::nat) < 4096" by simp
  obtain s' e' where s: "rx_reorder 0 demo_scb demo_env 5 (demo_skb 5 5) 0 = Some (s', e')"
    using rx_reorder_refines [OF demo_scb_wf c(1) q demo_skb_ok(4) [of 5], where now = 0 and e = demo_env and st = 0] by blast
  from rx_reorder_in_order [OF demo_scb_wf c(1,2) q demo_skb_ok(4) s] s c(3,4) show ?thesis by auto
qed

text \<open>C6: No frame is lost or duplicated: the frames waiting in the window together with those
  handed up or freed are the ones there were before and the new one.\<close>

theorem rx_reorder_conserves:
  assumes wf: "rx_wf s" and sess: "rx_addba_exchangecomplete s"
    and q: "q < 4096" "rx_seqnum b = Some q" and run: "rx_reorder now s e q b st = Some (s', e')"
  shows "mset (map fst (somes (rx_win s'))) + mset (event_frames (rx_log e'))
    = add_mset b (mset (map fst (somes (rx_win s))) + mset (event_frames (rx_log e)))"
proof -
  let ?s = "if seq_reset s then s\<lparr>seq_next := q\<rparr> else s"
  have a: "rx_abs_of s' e' = abs_reorder q b st (rx_abs_of ?s e)"
    using rx_reorder_refines [OF wf sess q, of now e st] run by auto
  have "length (a_win (rx_abs_of ?s e)) = 128" by (simp add: rx_abs_of_def)
  from abs_reorder_frames [OF this, of q b st] show ?thesis
    unfolding a [symmetric] by (simp add: abs_frames_def rx_abs_of_def)
qed

theorem rx_reorder_conserves_witness:
  "\<exists>s' e'. rx_reorder 0 demo_scb demo_env 5 (demo_skb 5 5) 0 = Some (s', e')
    \<and> mset (map fst (somes (rx_win s'))) + mset (event_frames (rx_log e')) = {#demo_skb 5 5, demo_skb 6 6#}"
proof -
  have c: "rx_addba_exchangecomplete demo_scb" by (simp add: demo_scb_def)
  have q: "(5::nat) < 4096" by simp
  obtain s' e' where s: "rx_reorder 0 demo_scb demo_env 5 (demo_skb 5 5) 0 = Some (s', e')"
    using rx_reorder_refines [OF demo_scb_wf c q demo_skb_ok(4) [of 5], where now = 0 and e = demo_env and st = 0] by blast
  have "map fst (somes (rx_win demo_scb)) = [demo_skb 6 6]" "event_frames (rx_log demo_env) = []" by code_simp+
  with rx_reorder_conserves [OF demo_scb_wf c q demo_skb_ok(4) s] s show ?thesis by auto
qed

text \<open>Any call on a station, and the states reached from a freshly initialised one.\<close>

inductive rx_step :: "rx_nsta \<Rightarrow> rx_nsta \<Rightarrow> bool" where
  input: "rx_frame_ok b \<Longrightarrow> drv_rx_input ret now n b st = Some (r, n') \<Longrightarrow> rx_step n n'"
| addba: "ba_tid bap < 8 \<Longrightarrow> q < 4096 \<Longrightarrow> drv_rx_addbareq al n tok bap tmo q = Some n' \<Longrightarrow> rx_step n n'"
| addbarsp: "drv_rx_addbarsp n t = Some n' \<Longrightarrow> rx_step n n'"
| delba: "t < 8 \<Longrightarrow> drv_rx_delba n t ini = Some n' \<Longrightarrow> rx_step n n'"
| set_rsp: "drv_set_addba_rsp n u c = Some n' \<Longrightarrow> rx_step n n'"
| clr_rsp: "rx_step n (drv_clr_addba_rsp_status n)"
| timer: "t < 8 \<Longrightarrow> drv_rx_sort_timer_ex clk (rx_scb n ! t) (env n) = Some p \<Longrightarrow> rx_step n (scb_upd n t p)"
| clean: "drv_rx_nsta_clean n = Some n' \<Longrightarrow> rx_step n n'"








text \<open>The sort timer hands up only frames that have waited their 80 ms, in order, together with
  the gaps before them; it stops at the first frame that has not, and it leaves the timer running
  while the window is not empty.\<close>

theorem rx_sort_timer_run:
  assumes "rx_wf s"
  shows "\<exists>m s' e'. drv_rx_sort_timer_ex clk s e = Some (s', e') \<and> rx_wf s' \<and> rx_sorted_to clk s m
    \<and> rx_abs_of s' e' = abs_move m (rx_abs_of s e)
    \<and> (baw_head s' \<noteq> baw_tail s' \<longrightarrow> active_flag (timer s'))"
  by (rule drv_rx_sort_timer_ex_ok [OF assms])

theorem rx_sort_timer_run_witness:
  "\<exists>m s' e'. drv_rx_sort_timer_ex (\<lambda>_. 1040) demo_scb demo_env = Some (s', e') \<and> m = 0
    \<and> rx_abs_of s' e' = abs_move m (rx_abs_of demo_scb demo_env)"
proof -
  obtain m s' e' where m: "drv_rx_sort_timer_ex (\<lambda>_. 1040) demo_scb demo_env = Some (s', e')"
    "rx_sorted_to (\<lambda>_. 1040) demo_scb m" "rx_abs_of s' e' = abs_move m (rx_abs_of demo_scb demo_env)"
    using rx_sort_timer_run [OF demo_scb_wf, of "\<lambda>_. 1040" demo_env] by blast
  have "\<not> rx_ripe (\<lambda>_. 1040) demo_scb 1" "rx_win demo_scb ! 0 = None" "rx_win demo_scb ! 1 \<noteq> None"
    "rx_dist demo_scb = 2" by code_simp+
  moreover from this m(2) have "m \<noteq> 1" by (auto simp: rx_sorted_to_def)
  moreover from calculation m(2) have "\<not> 2 \<le> m" unfolding rx_sorted_to_def by (metis Suc_1 Suc_le_lessD)
  ultimately have "m = 0" by linarith
  with m show ?thesis by blast
qed

text \<open>A block-ack request for number \<open>q\<close> moves the window by the distance to \<open>q\<close> modulo the
  128 slots of the ring and at most to the tail, handing up what it passes, and then delivers the
  run at the head. So \<open>seq_next\<close> stays behind \<open>q\<close> when the window ends before \<open>q\<close>, and a request
  that is a multiple of 128 ahead passes nothing.\<close>

theorem rx_bar_moves:
  assumes ok: "rx_nok n" and c: "le16_at b 16 = Some ctl" "le16_at b 18 = Some sq" and t: "ctl div 2 ^ 12 < 8"
    and s: "s = rx_scb n ! (ctl div 2 ^ 12)"
    and near: "DRV_BA_INDEX (seq_next s) (sq div 2 ^ 4) \<le> 3840"
  shows "\<exists>n'. drv_rx_bar n b = Some (0x04, n') \<and> rx_nok n'
    \<and> (\<exists>e'. rx_log e' @ [SkbFree b] = rx_log (env n')
         \<and> rx_abs_of (rx_scb n' ! (ctl div 2 ^ 12)) e' = abs_bar (rx_dist s) (sq div 2 ^ 4) (rx_abs_of s (env n)))"
proof -
  let ?t = "ctl div 4096"
  let ?e = "(env n)\<lparr>rx_bar_cnt := rx_bar_cnt (env n) + 1\<rparr>"
  have t8: "?t < 8" using t by simp
  have s: "s = rx_scb n ! ?t" using s by simp
  have wf: "rx_wf s" unfolding s by (rule rx_nok_nth [OF ok t8])
  from rx_bar_refines [OF wf, of "sq div 16" ?e] obtain s1 e1 s' e' where r:
    "rx_bar_skip ((baw_head s + DRV_BA_INDEX (seq_next s) (sq div 16)) mod DRV_TID_MAX_BUFS) s ?e = Some (s1, e1)"
    "rx_bar_drain s1 e1 = Some (s', e')" "rx_wf s'"
    "rx_abs_of s' e' = abs_bar (rx_dist s) (sq div 16) (rx_abs_of s ?e)" by blast
  have "drv_rx_bar n b = Some (0x04, scb_upd n ?t (s', emit (SkbFree b) e'))"
    using ok c t8 near r rx_wfD(4) [OF wf]
    by (simp add: drv_rx_bar_def Let_def nth_opt_scb WIFINET_SEQ_MAX_def flip: s)
  moreover have "rx_nok (scb_upd n ?t (s', emit (SkbFree b) e'))" by (rule rx_nok_upd [OF ok r(3)])
  moreover have "rx_abs_of s ?e = rx_abs_of s (env n)" by (simp add: rx_abs_of_def)
  ultimately show ?thesis using r(4) ok t8
    by (intro exI [of _ "scb_upd n ?t (s', emit (SkbFree b) e')"])
      (auto simp: scb_upd_def rx_nok_def WME_NUM_TID_def)
qed

definition demo_bar :: "u8 \<Rightarrow> u8 \<Rightarrow> sk_buff" where
  "demo_bar lo hi = \<lparr>skb_id = 99, skb_data = (replicate 20 0)[0 := 0x84, 18 := lo, 19 := hi]\<rparr>"

theorem rx_bar_moves_witness:
  "\<exists>n'. drv_rx_bar demo_nsta (demo_bar 0x50 8) = Some (0x04, n')
    \<and> (\<exists>e'. a_seq (rx_abs_of (rx_scb n' ! 0) e') = 5)"
proof -
  have le: "le16_at (demo_bar 0x50 8) 16 = Some 0" "le16_at (demo_bar 0x50 8) 18 = Some 2128" by code_simp+
  have d: "DRV_BA_INDEX (seq_next demo_scb) 133 \<le> 3840" "rx_dist demo_scb = 2" by code_simp+
  have s: "rx_scb demo_nsta ! 0 = demo_scb" "env demo_nsta = demo_env" by (simp_all add: demo_nsta_def)
  have a: "a_seq (abs_bar 2 133 (rx_abs_of demo_scb demo_env)) = 5" by code_simp
  from rx_bar_moves [OF demo_nsta_ok le, of demo_scb] d s obtain n' e' where
    "drv_rx_bar demo_nsta (demo_bar 0x50 8) = Some (0x04, n')"
    "rx_abs_of (rx_scb n' ! 0) e' = abs_bar 2 133 (rx_abs_of demo_scb demo_env)" by auto
  with a show ?thesis by metis
qed

text \<open>Closing a session loses nothing: all frames still waiting go up in the order of their
  numbers, the session is closed, and the other traffic ids are not touched.\<close>

theorem rx_ampdu_del_delivers:
  assumes "rx_nok n" and "unat t < 8"
  shows "\<exists>n'. drv_rxampdu_del n t = Some n' \<and> rx_nok n' \<and> length (rx_scb n') = 8
    \<and> \<not> rx_addba_exchangecomplete (rx_scb n' ! unat t)
    \<and> (\<forall>k < 8. k \<noteq> unat t \<longrightarrow> rx_scb n' ! k = rx_scb n ! k)
    \<and> rx_log (env n') = rx_log (env n) @
        (if rx_addba_exchangecomplete (rx_scb n ! unat t)
         then map mac_input (somes (rx_win (rx_scb n ! unat t))) else [])"
  by (rule drv_rxampdu_del_ok [OF assms])

theorem rx_ampdu_del_delivers_witness:
  "\<exists>n'. drv_rxampdu_del demo_nsta 0 = Some n' \<and> rx_log (env n') = [MacInput (demo_skb 6 6) 0]"
proof -
  have "somes (rx_win demo_scb) = [(demo_skb 6 6, 0)]" by code_simp
  moreover have "unat (0::u8) < 8" by simp
  ultimately show ?thesis using rx_ampdu_del_delivers [OF demo_nsta_ok, of 0]
    by (auto simp: demo_nsta_def demo_env_def demo_scb_def)
qed

text \<open>A QoS data frame whose traffic id is eight or more makes \<open>drv_rx_input\<close> index the array
  of eight scoreboards out of bounds: the traffic id field has four bits and is not checked.\<close>

theorem rx_tid_out_of_bounds:
  assumes len: "32 \<le> length (skb_data b)" and qd: "rx_is_qos_data b" and t: "8 \<le> rx_tid_of b"
    and ok: "length (rx_scb n) = 8"
  shows "drv_rx_input ret now n b st = None"
proof -
  have "byte_at b 0 = Some (skb_data b ! 0)" "byte_at b 1 = Some (skb_data b ! 1)"
    "byte_at b 4 = Some (skb_data b ! 4)"
    "byte_at b (if skb_data b ! 1 AND 0x03 = 0x03 then 30 else 24)
      = Some (skb_data b ! (if skb_data b ! 1 AND 0x03 = 0x03 then 30 else 24))"
    using len by (auto simp: byte_at_def nth_opt_def)
  note f = this
  have "nth_opt (rx_scb n) (rx_tid_of b) = None" using t ok by simp
  then show ?thesis
    unfolding drv_rx_input_def f(1-3) option.case Let_def prod.case f(4) rx_tid_of_def [symmetric]
    using qd rx_qos_not_bar [OF qd] by (simp add: rx_is_qos_data_def)
qed

theorem rx_tid_out_of_bounds_witness:
  "drv_rx_input (\<lambda>_ _. 0) 0 demo_nsta \<lparr>skb_id = 1, skb_data = (replicate 32 0)[0 := 0x88, 24 := 0x08]\<rparr> 0 = None"
  by (rule rx_tid_out_of_bounds)
    (simp_all add: rx_is_qos_data_def rx_tid_of_def demo_nsta_def nth_list_update)

end
