(* ===== verification/Rates.thy ===== *)
theory Rates
  imports Prelude "HOL-Library.Multiset"
begin

text \<open>
  The rate sets of \<^verbatim>\<open>wifi_mac_rate.c\<close>: parsing the rate elements of a peer, sorting and
  intersecting rate sets, the checks of fixed and basic rates, HT and VHT rates.
  A rate set is an array of 77 bytes and a count; a rate byte is a value of seven bits and the
  flag for basic rates. Reads and writes outside an array are \<open>None\<close>. The lemmas show that the
  exchange sort sorts, that the intersection is exact, and how the VHT maps are negotiated.
\<close>

section \<open>Data\<close>

definition WIFINET_RATE_MAXSIZE :: nat where "WIFINET_RATE_MAXSIZE = 57"
definition WIFINET_HT_RATE_SIZE :: nat where "WIFINET_HT_RATE_SIZE = 77"
definition WIFINET_RATE_BASIC :: u8 where "WIFINET_RATE_BASIC = 0x80"
definition WIFINET_RATE_VAL :: u8 where "WIFINET_RATE_VAL = 0x7f"
definition MAX_VHT_STREAMS :: nat where "MAX_VHT_STREAMS = 8"

definition WIFINET_GET_RATE_VAL :: "u8 \<Rightarrow> u8" where
  "WIFINET_GET_RATE_VAL r = r AND WIFINET_RATE_VAL"

definition is_basic :: "u8 \<Rightarrow> bool" where
  "is_basic r \<longleftrightarrow> r AND WIFINET_RATE_BASIC \<noteq> 0"

record rateset =
  dot11_rate_num :: nat
  dot11_rate :: "u8 list"

datatype macmode = MODE_AUTO | MODE_11B | MODE_11G | MODE_11BG | MODE_11N | MODE_11GN | MODE_11BGN
  | MODE_11AC | MODE_11NAC | MODE_11GNAC | MODE_MAX

definition rs_zero :: rateset where
  "rs_zero = \<lparr>dot11_rate_num = 0, dot11_rate = replicate WIFINET_HT_RATE_SIZE 0\<rparr>"

definition rs_ok :: "rateset \<Rightarrow> bool" where
  "rs_ok rs \<longleftrightarrow> length (dot11_rate rs) = WIFINET_HT_RATE_SIZE \<and> dot11_rate_num rs \<le> WIFINET_HT_RATE_SIZE"

definition rs_list :: "rateset \<Rightarrow> u8 list" where
  "rs_list rs = take (dot11_rate_num rs) (dot11_rate rs)"

record vht_rate_s =
  num_streams :: nat
  vrates :: "u8 list"

section \<open>Sorting and intersecting\<close>

text \<open>The two nested loops of \<open>wifi_mac_sort_rate\<close>: \<open>sort_step\<close> is the body, \<open>sort_pass\<close> the
  inner loop. A count above the array makes the loops read outside it.\<close>

definition sort_step :: "nat \<Rightarrow> u8 list \<Rightarrow> nat \<Rightarrow> u8 list" where
  "sort_step i a j =
     (if WIFINET_GET_RATE_VAL (a ! i) > WIFINET_GET_RATE_VAL (a ! j) then a[i := a ! j, j := a ! i] else a)"

definition sort_pass :: "nat \<Rightarrow> u8 list \<Rightarrow> nat \<Rightarrow> u8 list" where
  "sort_pass n a i = foldl (sort_step i) a [i + 1..<n]"

definition wifi_mac_sort_rate :: "rateset \<Rightarrow> rateset option" where
  "wifi_mac_sort_rate rs =
     (if dot11_rate_num rs > length (dot11_rate rs) then None
      else Some (rs\<lparr>dot11_rate := foldl (sort_pass (dot11_rate_num rs)) (dot11_rate rs)
                                     [0..<dot11_rate_num rs]\<rparr>))"

definition rate_in :: "u8 \<Rightarrow> u8 list \<Rightarrow> bool" where
  "rate_in r rs = list_ex (\<lambda>x. WIFINET_GET_RATE_VAL r = WIFINET_GET_RATE_VAL x) rs"

definition wifi_mac_xsect_rate :: "rateset \<Rightarrow> rateset \<Rightarrow> rateset \<Rightarrow> rateset option" where
  "wifi_mac_xsect_rate rs1 rs2 srs =
     (if dot11_rate_num rs1 > length (dot11_rate rs1) \<or> dot11_rate_num rs2 > length (dot11_rate rs2) then None
      else
        let common = filter (\<lambda>r. rate_in r (rs_list rs2)) (rs_list rs1) in
        map_option (\<lambda>arr. srs\<lparr>dot11_rate := arr, dot11_rate_num := length common\<rparr>)
          (overlay (dot11_rate srs) 0 common))"

section \<open>Checks\<close>

definition wifi_mac_brs_rate_check :: "rateset \<Rightarrow> rateset \<Rightarrow> bool" where
  "wifi_mac_brs_rate_check srs nrs =
     list_all (\<lambda>r. is_basic r \<longrightarrow> rate_in r (rs_list nrs)) (rs_list srs)"

datatype fixed_rate_mode = FIXED_RATE_NONE | FIXED_RATE_MCS | FIXED_RATE_OTHER

text \<open>\<open>rateinfo\<close> is 32 bits wide; its low seven bits are compared.\<close>

definition wifi_mac_fixed_rate_check :: "fixed_rate_mode \<Rightarrow> u32 \<Rightarrow> rateset \<Rightarrow> bool" where
  "wifi_mac_fixed_rate_check fmode rateinfo nrs =
     (if fmode = FIXED_RATE_NONE \<or> fmode = FIXED_RATE_MCS then True
      else list_ex (\<lambda>r. ucast (WIFINET_GET_RATE_VAL r) = rateinfo AND ucast WIFINET_RATE_VAL) (rs_list nrs))"

fun iserp_find :: "nat \<Rightarrow> u8 list \<Rightarrow> bool" where
  "iserp_find target [] = False"
| "iserp_find target (x # xs) =
     (let r = unat (WIFINET_GET_RATE_VAL x) in
      if target = r then True else if r > target then False else iserp_find target xs)"

definition erp_rates :: "nat list" where
  "erp_rates = [2, 4, 11, 22, 12, 24, 48]"

definition wifi_mac_iserp_rateset :: "rateset \<Rightarrow> bool" where
  "wifi_mac_iserp_rateset rs =
     (if dot11_rate_num rs < length erp_rates then False
      else list_all (\<lambda>t. iserp_find t (rs_list rs)) erp_rates)"

section \<open>Rates of a peer\<close>

definition WIFINET_F_DOSORT :: u32 where "WIFINET_F_DOSORT = 1"
definition WIFINET_F_DOFRATE :: u32 where "WIFINET_F_DOFRATE = 2"
definition WIFINET_F_DOXSECT :: u32 where "WIFINET_F_DOXSECT = 4"
definition WIFINET_F_DOBRS :: u32 where "WIFINET_F_DOBRS = 8"

definition has_flag :: "u32 \<Rightarrow> u32 \<Rightarrow> bool" where
  "has_flag flags f \<longleftrightarrow> flags AND f \<noteq> 0"

text \<open>An information element: id, length, body. \<open>parse_rates\<close> is the copy of the first element,
  \<open>parse_xrates\<close> the bounded copy of the second behind it; \<open>nxrates\<close> is an unsigned char.\<close>

definition parse_rates :: "u8 list \<Rightarrow> rateset option" where
  "parse_rates ie =
     (case nth_opt ie 1 of None \<Rightarrow> None | Some len \<Rightarrow>
       (case slice ie 2 (unat len) of None \<Rightarrow> None | Some body \<Rightarrow>
         map_option (\<lambda>arr. \<lparr>dot11_rate_num = unat len, dot11_rate = arr\<rparr>) (overlay (dot11_rate rs_zero) 0 body)))"

definition parse_xrates :: "rateset \<Rightarrow> u8 list \<Rightarrow> rateset option" where
  "parse_xrates rrs xrates =
     (case nth_opt xrates 1 of None \<Rightarrow> None | Some len \<Rightarrow>
       let nx = (if dot11_rate_num rrs + unat len > WIFINET_RATE_MAXSIZE
                 then nat ((int WIFINET_RATE_MAXSIZE - int (dot11_rate_num rrs)) mod 256) else unat len) in
       (case slice xrates 2 nx of None \<Rightarrow> None | Some body \<Rightarrow>
         map_option (\<lambda>arr. \<lparr>dot11_rate_num = (dot11_rate_num rrs + nx) mod 256, dot11_rate = arr\<rparr>)
           (overlay (dot11_rate rrs) (dot11_rate_num rrs) body)))"

record rate_env =
  legacy_rates :: rateset
  main_rates :: rateset
  fixed_mode :: fixed_rate_mode
  fixed_info :: u32
  change_rate_enable :: bool

text \<open>The result and the station's rate set, which is written before the checks.\<close>

definition wifi_mac_setup_rates ::
    "rate_env \<Rightarrow> u8 list option \<Rightarrow> u8 list option \<Rightarrow> u32 \<Rightarrow> (bool \<times> rateset) option" where
  "wifi_mac_setup_rates env rates xrates flags =
     (case (case rates of None \<Rightarrow> Some rs_zero | Some ie \<Rightarrow> parse_rates ie) of None \<Rightarrow> None | Some rrs \<Rightarrow>
     (case (case xrates of None \<Rightarrow> Some rrs | Some ie \<Rightarrow> parse_xrates rrs ie) of None \<Rightarrow> None | Some rrs \<Rightarrow>
     (case (if has_flag flags WIFINET_F_DOSORT then wifi_mac_sort_rate rrs else Some rrs) of None \<Rightarrow> None | Some rrs \<Rightarrow>
     (case (if has_flag flags WIFINET_F_DOXSECT then wifi_mac_xsect_rate (legacy_rates env) rrs rs_zero
            else Some rrs) of None \<Rightarrow> None | Some rs \<Rightarrow>
       if has_flag flags WIFINET_F_DOFRATE \<and> \<not> wifi_mac_fixed_rate_check (fixed_mode env) (fixed_info env) rs
       then Some (False, rs)
       else if has_flag flags WIFINET_F_DOBRS \<and> \<not> wifi_mac_brs_rate_check (main_rates env) rs
       then Some (False, rs)
       else
         map_option (\<lambda>rs. (True, rs))
           (if has_flag flags WIFINET_F_DOSORT then wifi_mac_sort_rate rs else Some rs)))))"

text \<open>\<open>check_rate\<close> parses the rates of a scan entry, compares them, and returns 1 in any case.\<close>

definition check_rate :: "rateset \<Rightarrow> u8 list \<Rightarrow> u8 list \<Rightarrow> (int \<times> bool) option" where
  "check_rate srs SI_rates SI_exrates =
     (case parse_rates SI_rates of None \<Rightarrow> None | Some rrs \<Rightarrow>
     (case nth_opt SI_exrates 1 of None \<Rightarrow> None | Some xlen \<Rightarrow>
     (case (if unat xlen > 0 then parse_xrates rrs SI_exrates else Some rrs) of None \<Rightarrow> None | Some rrs \<Rightarrow>
        let tmpflags = list_ex (\<lambda>r. is_basic r \<and> rate_in r (rs_list srs)) (rs_list rrs)
        in Some (1, tmpflags))))"

section \<open>HT rates\<close>

definition mcs_bit :: "u8 list \<Rightarrow> nat \<Rightarrow> bool" where
  "mcs_bit bs i \<longleftrightarrow> bit (bs ! (i div 8)) (i mod 8)"

definition wifi_mac_mcs_to_numstreams :: "int \<Rightarrow> int" where
  "wifi_mac_mcs_to_numstreams mcs =
     (if mcs \<ge> 24 \<and> mcs \<le> 31 \<or> mcs \<ge> 53 \<and> mcs \<le> 76 then 4
      else if mcs \<ge> 16 \<and> mcs \<le> 23 \<or> mcs \<ge> 39 \<and> mcs \<le> 52 then 3
      else if mcs \<ge> 8 \<and> mcs \<le> 15 \<or> mcs \<ge> 33 \<and> mcs \<le> 38 then 2
      else if mcs \<le> 7 \<or> mcs = 32 then 1 else 0)"

text \<open>The parse loop stops when 57 rates are stored.\<close>

definition ht_rates :: "u8 list \<Rightarrow> u8 list" where
  "ht_rates mcsset =
     take WIFINET_RATE_MAXSIZE
       (map of_nat (filter (\<lambda>i. mcs_bit mcsset i \<and> i < 7) [0..<WIFINET_HT_RATE_SIZE]))"

definition rs_of :: "u8 list \<Rightarrow> rateset option" where
  "rs_of xs = map_option (\<lambda>arr. \<lparr>dot11_rate_num = length xs, dot11_rate = arr\<rparr>) (overlay (dot11_rate rs_zero) 0 xs)"

definition wifi_mac_setup_ht_rates ::
    "rate_env \<Rightarrow> rateset \<Rightarrow> u8 list option \<Rightarrow> u32 \<Rightarrow> (bool \<times> rateset) option" where
  "wifi_mac_setup_ht_rates env sup_ht_rates mcsset flags =
     (case rs_of (case mcsset of None \<Rightarrow> [] | Some bs \<Rightarrow> ht_rates bs) of None \<Rightarrow> None | Some rrs \<Rightarrow>
     (case (if has_flag flags WIFINET_F_DOSORT then wifi_mac_sort_rate rrs else Some rrs) of None \<Rightarrow> None | Some rrs \<Rightarrow>
     (case (if has_flag flags WIFINET_F_DOXSECT then wifi_mac_xsect_rate sup_ht_rates rrs rs_zero
            else Some rrs) of None \<Rightarrow> None | Some rs \<Rightarrow>
       if has_flag flags WIFINET_F_DOFRATE \<and> \<not> wifi_mac_fixed_rate_check (fixed_mode env) (fixed_info env) rs
       then Some (False, rs)
       else if has_flag flags WIFINET_F_DOBRS \<and> \<not> wifi_mac_brs_rate_check sup_ht_rates rs
       then Some (False, rs)
       else Some (True, rs))))"

definition ht_basic_pass :: "u8 list \<Rightarrow> nat \<Rightarrow> u8 list \<Rightarrow> nat \<Rightarrow> u8 list" where
  "ht_basic_pass basic n arr i =
     (if mcs_bit basic i
      then map (\<lambda>r. if unat (WIFINET_GET_RATE_VAL r) = i then r OR WIFINET_RATE_BASIC else r) (take n arr) @ drop n arr
      else arr)"

definition wifi_mac_setup_basic_ht_rates :: "rateset \<Rightarrow> u8 list \<Rightarrow> rateset" where
  "wifi_mac_setup_basic_ht_rates rs basic =
     (if dot11_rate_num rs \<noteq> 0
      then rs\<lparr>dot11_rate := foldl (ht_basic_pass basic (dot11_rate_num rs)) (dot11_rate rs) [0..<WIFINET_HT_RATE_SIZE]\<rparr>
      else rs)"

text \<open>\<open>htcap\<close> and \<open>htinfo\<close> are the two MCS sets when both elements are present.\<close>

definition check_ht_rate :: "rateset \<Rightarrow> (u8 list \<times> u8 list) option \<Rightarrow> int" where
  "check_ht_rate srs hts =
     (let rrs = (case hts of None \<Rightarrow> []
                | Some (mcsset, basic) \<Rightarrow>
                    map (\<lambda>i. of_nat i OR (if mcs_bit basic i then WIFINET_RATE_BASIC else 0))
                      (filter (mcs_bit mcsset) [0..<8]))
      in if list_all (\<lambda>r. is_basic r \<longrightarrow> rate_in r (rs_list srs)) rrs then 1 else 0)"

section \<open>VHT rates\<close>

definition wifi_mac_get_vht_rates :: "u16 \<Rightarrow> vht_rate_s" where
  "wifi_mac_get_vht_rates m =
     (let rates = map (\<lambda>i. ucast (drop_bit (2 * i) m AND 0x03) :: u8) [0..<MAX_VHT_STREAMS]
      in \<lparr>num_streams = length (filter (\<lambda>n. n < 3) rates), vrates = rates\<rparr>)"

definition wifi_mac_get_vht_rate_map :: "vht_rate_s \<Rightarrow> u16" where
  "wifi_mac_get_vht_rate_map v =
     foldl (\<lambda>m i. m OR push_bit (2 * i) (ucast (vrates v ! i))) 0 [0..<MAX_VHT_STREAMS]"

definition wifi_mac_get_vht_intersect_rates :: "vht_rate_s \<Rightarrow> vht_rate_s \<Rightarrow> vht_rate_s" where
  "wifi_mac_get_vht_intersect_rates srs drs =
     (let n = min (num_streams srs) (num_streams drs)
      in \<lparr>num_streams = n,
          vrates = map (\<lambda>i. if i < n then min (vrates srs ! i) (vrates drs ! i) else 3) [0..<MAX_VHT_STREAMS]\<rparr>)"

definition wifi_mac_vht_basic_rate_check :: "vht_rate_s \<Rightarrow> vht_rate_s \<Rightarrow> bool" where
  "wifi_mac_vht_basic_rate_check irs brs =
     (if num_streams irs < num_streams brs then False
      else list_all (\<lambda>i. \<not> vrates irs ! i < vrates brs ! i) [0..<num_streams brs])"

record vht_sta =
  sta_vhtrates :: rateset
  sta_streams :: nat
  sta_tx_vhtrates :: u16
  sta_rx_vhtrates :: u16

definition set_mcs_upto :: "rateset \<Rightarrow> nat \<Rightarrow> rateset option" where
  "set_mcs_upto rs n =
     map_option (\<lambda>arr. \<lparr>dot11_rate_num = n, dot11_rate = arr\<rparr>) (overlay (dot11_rate rs) 0 (map of_nat [0..<n]))"

text \<open>The MCS indices of a range code; code 3 is reported as an error and treated like code 0.\<close>

definition vht_mcs_count :: "u8 \<Rightarrow> nat" where
  "vht_mcs_count r = (if r = 2 then 10 else if r = 1 then 9 else if r = 0 then 8 else 8)"

text \<open>The entry before the first of \<open>rates\<close> is read when the two sides share no stream.\<close>

definition wifi_mac_setup_vht_rates ::
    "u16 \<Rightarrow> u16 \<Rightarrow> u16 \<Rightarrow> vht_sta \<Rightarrow> u32 \<Rightarrow> (bool \<times> vht_sta) option" where
  "wifi_mac_setup_vht_rates our_tx our_rx our_basic sta flags =
     (let tsrs = wifi_mac_get_vht_rates our_tx; rsrs = wifi_mac_get_vht_rates our_rx;
          brs = wifi_mac_get_vht_rates our_basic;
          rx_rrs = wifi_mac_get_vht_rates (sta_rx_vhtrates sta);
          tx_rrs = wifi_mac_get_vht_rates (sta_tx_vhtrates sta);
          (tx_irs, rx_irs) =
            (if has_flag flags WIFINET_F_DOXSECT
             then (wifi_mac_get_vht_intersect_rates rx_rrs tsrs, wifi_mac_get_vht_intersect_rates tx_rrs rsrs)
             else (rx_rrs, tx_rrs))
      in if num_streams tx_irs = 0 then None
         else
           let top = vrates tx_irs ! (num_streams tx_irs - 1);
               n = vht_mcs_count top in
           case set_mcs_upto (sta_vhtrates sta) n of None \<Rightarrow> None | Some rs \<Rightarrow>
             let sta = sta\<lparr>sta_vhtrates := rs, sta_streams := num_streams tx_irs,
                           sta_tx_vhtrates := wifi_mac_get_vht_rate_map tx_irs,
                           sta_rx_vhtrates := wifi_mac_get_vht_rate_map rx_irs\<rparr>
             in if has_flag flags WIFINET_F_DOBRS \<and> \<not> wifi_mac_vht_basic_rate_check tx_irs brs then Some (False, sta)
                else if has_flag flags WIFINET_F_DOBRS \<and> \<not> wifi_mac_vht_basic_rate_check rx_irs brs then Some (False, sta)
                else Some (True, sta))"

section \<open>Local rates\<close>

record mac_rates =
  wm_11b_rates :: rateset
  wm_11g_rates :: rateset
  wm_sup_ht_rates :: rateset
  wm_sup_vht_rates :: rateset

text \<open>Single stores \<open>dot11_rate[i] = v\<close>.\<close>

definition put_rates :: "(nat \<times> u8) list \<Rightarrow> rateset \<Rightarrow> rateset" where
  "put_rates ivs rs = rs\<lparr>dot11_rate := foldl (\<lambda>a (i, v). a[i := v]) (dot11_rate rs) ivs\<rparr>"

definition wifi_mac_ap_set_basic_rates :: "macmode \<Rightarrow> mac_rates \<Rightarrow> mac_rates" where
  "wifi_mac_ap_set_basic_rates macmode w =
     (let (need_set_11b, need_set_11g) =
        (case macmode of
           MODE_11B \<Rightarrow> (True, False)
         | MODE_11G \<Rightarrow> (False, True) | MODE_11GN \<Rightarrow> (False, True) | MODE_11GNAC \<Rightarrow> (False, True)
         | MODE_11BG \<Rightarrow> (True, True) | MODE_11BGN \<Rightarrow> (True, True)
         | _ \<Rightarrow> (False, False));
          w = (if need_set_11b
               then w\<lparr>wm_11b_rates := put_rates [(0, 0x82), (1, 0x84), (2, 0x0b), (3, 0x16)] (wm_11b_rates w)\<rparr>
               else w)
      in if need_set_11g
         then w\<lparr>wm_11g_rates := put_rates [(0, 0x8c), (1, 0x12), (2, 0x98), (3, 0x24), (4, 0xb0), (5, 0x48),
                  (6, 0x60), (7, 0x6c)] (wm_11g_rates w)\<rparr>
         else w)"

text \<open>\<open>memcpy(srs->dot11_rate + off, src->dot11_rate, n)\<close> between rate arrays.\<close>

definition copy_rates :: "rateset \<Rightarrow> nat \<Rightarrow> rateset \<Rightarrow> nat \<Rightarrow> rateset option" where
  "copy_rates dst off src n =
     (case slice (dot11_rate src) 0 n of None \<Rightarrow> None
      | Some xs \<Rightarrow> map_option (\<lambda>arr. dst\<lparr>dot11_rate := arr, dot11_rate_num := (off + n) mod 256\<rparr>)
                     (overlay (dot11_rate dst) off xs))"

text \<open>\<open>KASSERT\<close> stops the kernel for an invalid mode, which is \<open>None\<close>.\<close>

definition wifi_mac_set_legacy_rates :: "macmode \<Rightarrow> mac_rates \<Rightarrow> rateset option" where
  "wifi_mac_set_legacy_rates mode w =
     (let b = wm_11b_rates w; g = wm_11g_rates w in
      case mode of
        MODE_MAX \<Rightarrow> None
      | MODE_11B \<Rightarrow> copy_rates rs_zero 0 b (dot11_rate_num b)
      | MODE_11G \<Rightarrow> copy_rates rs_zero 0 g (dot11_rate_num g)
      | MODE_11GN \<Rightarrow> copy_rates rs_zero 0 g (dot11_rate_num g)
      | MODE_11GNAC \<Rightarrow> copy_rates rs_zero 0 g (dot11_rate_num g)
      | m \<Rightarrow>
          if m = MODE_11BG \<or> m = MODE_11BGN then
            (case copy_rates rs_zero 0 b (dot11_rate_num b) of None \<Rightarrow> None
             | Some srs \<Rightarrow>
                 let nx = (if dot11_rate_num srs + dot11_rate_num g > WIFINET_RATE_MAXSIZE
                           then nat ((int WIFINET_RATE_MAXSIZE - int (dot11_rate_num srs)) mod 256)
                           else dot11_rate_num g)
                 in copy_rates srs (dot11_rate_num srs) g nx)
          else Some rs_zero)"

definition basic_11b :: "u8 list" where
  "basic_11b = [0x82, 0x84, 0x8b, 0x96]"

definition basic_11g :: "u8 list" where
  "basic_11g = [0x8c, 0x92, 0x98, 0xa4, 0xb0, 0xc8, 0xe0, 0xec]"

definition wifi_mac_check_ap_basic_rate :: "u8 list \<Rightarrow> u8 list \<Rightarrow> macmode \<Rightarrow> u8 list" where
  "wifi_mac_check_ap_basic_rate rate ap_rate macmode =
     (let basic = (case macmode of MODE_11B \<Rightarrow> basic_11b | MODE_11G \<Rightarrow> basic_11g | _ \<Rightarrow> [])
      in if ap_rate = [] then rate
         else foldl (\<lambda>a i. if basic ! i \<in> set ap_rate then a[i := basic ! i] else a) rate [0..<length basic])"

text \<open>The elements of the scan entry are arrays of 59 bytes; \<open>ie_append\<close> is the copy of the first
  element's rates behind the second's, inside the scan entry.\<close>

definition ie_append :: "u8 list \<Rightarrow> u8 list \<Rightarrow> u8 list option" where
  "ie_append xr r =
     (case slice r 2 (unat (r ! 1)) of None \<Rightarrow> None
      | Some body \<Rightarrow> map_option (\<lambda>a. a[1 := xr ! 1 + r ! 1]) (overlay xr (2 + unat (xr ! 1)) body))"

definition upd_basic :: "macmode \<Rightarrow> u8 list \<Rightarrow> rateset \<Rightarrow> rateset option" where
  "upd_basic m ie rs =
     map_option (\<lambda>ap. rs\<lparr>dot11_rate := wifi_mac_check_ap_basic_rate (dot11_rate rs) ap m\<rparr>)
       (slice ie 2 (unat (ie ! 1)))"

definition wifi_mac_sta_set_basic_rates ::
    "bool \<Rightarrow> macmode \<Rightarrow> u8 list \<Rightarrow> u8 list \<Rightarrow> mac_rates \<Rightarrow> (mac_rates \<times> u8 list) option" where
  "wifi_mac_sta_set_basic_rates is_sta mode r xr w =
     (let b = put_rates [(0, 0x02), (1, 0x04), (2, 0x0b), (3, 0x16)] (wm_11b_rates w);
          g = put_rates [(0, 0x0c), (1, 0x12), (2, 0x18), (3, 0x24), (4, 0x30), (5, 0x48), (6, 0x60), (7, 0x6c)]
                (wm_11g_rates w);
          b1 = put_rates [(0, 0x82), (1, 0x84)] b;
          g1 = put_rates [(0, 0x8c), (2, 0x98), (4, 0xb0)] g;
          done = (\<lambda>b g xr. Some (w\<lparr>wm_11b_rates := b, wm_11g_rates := g\<rparr>, xr)) in
      if \<not> is_sta then done b g xr
      else if mode = MODE_11B then
        (if r ! 1 \<noteq> 0
         then (case upd_basic MODE_11B r b of None \<Rightarrow> None | Some b \<Rightarrow> done b g xr)
         else done b1 g xr)
      else if mode = MODE_11G \<or> mode = MODE_11GN \<or> mode = MODE_11GNAC then
        (if xr ! 1 = 0 then
           (if r ! 1 \<noteq> 0
            then (case upd_basic MODE_11G r g of None \<Rightarrow> None | Some g \<Rightarrow> done b g xr)
            else done b g1 xr)
         else
           (case (if r ! 1 \<noteq> 0 then ie_append xr r else Some xr) of None \<Rightarrow> None
            | Some xr \<Rightarrow> (case upd_basic MODE_11G xr g of None \<Rightarrow> None | Some g \<Rightarrow> done b g xr)))
      else if mode = MODE_11BG \<or> mode = MODE_11BGN then
        (if r ! 1 \<noteq> 0 \<or> xr ! 1 \<noteq> 0 then
           (case (if r ! 1 \<noteq> 0 then ie_append xr r else Some xr) of None \<Rightarrow> None
            | Some xr \<Rightarrow>
               (case upd_basic MODE_11B xr b of None \<Rightarrow> None | Some b \<Rightarrow>
                 (case upd_basic MODE_11G xr g of None \<Rightarrow> None | Some g \<Rightarrow> done b g xr)))
         else done b1 g1 xr)
      else done b g xr)"

section \<open>Set-up\<close>

record vht_mcs_set =
  rx_mcs_map :: u16
  rx_data_rate :: u16
  tx_mcs_map :: u16
  tx_data_rate :: u16
  basic_mcs :: u16

definition wifi_mac_vht_rate_init :: "u16 \<Rightarrow> u16 \<Rightarrow> u16 \<Rightarrow> vht_mcs_set" where
  "wifi_mac_vht_rate_init mcs_map max_datarate basic =
     \<lparr>rx_mcs_map = mcs_map, rx_data_rate = max_datarate, tx_mcs_map = mcs_map, tx_data_rate = max_datarate,
      basic_mcs = basic\<rparr>"

definition wifi_mac_rate_vattach :: "rate_env \<Rightarrow> rate_env" where
  "wifi_mac_rate_vattach env = env\<lparr>fixed_info := 0xff, fixed_mode := FIXED_RATE_NONE, change_rate_enable := True\<rparr>"

datatype phytype = CCK | WOFDM | WIFINET_T_HT | WIFINET_T_VHT | PHY_OTHER

record rate_info =
  ri_valid :: bool
  ri_phy :: phytype
  ri_dot11Rate :: u8

text \<open>One table entry: it goes to the next free place of the set of its phy. \<open>n\<close> counts the places
  used in the four sets.\<close>

definition rate_store :: "nat \<Rightarrow> u8 \<Rightarrow> rateset \<Rightarrow> rateset" where
  "rate_store n r rs = rs\<lparr>dot11_rate := (dot11_rate rs)[n := r], dot11_rate_num := n + 1\<rparr>"

fun rate_init_loop :: "rate_info list \<Rightarrow> (phytype \<Rightarrow> nat) \<Rightarrow> mac_rates \<Rightarrow> mac_rates" where
  "rate_init_loop [] n w = w"
| "rate_init_loop (x # xs) n w =
     (if \<not> ri_valid x then rate_init_loop xs n w
      else
        let p = ri_phy x; n' = n(p := n p + 1) in
        case p of
          WIFINET_T_VHT \<Rightarrow> rate_init_loop xs n' (w\<lparr>wm_sup_vht_rates := rate_store (n p) (ri_dot11Rate x) (wm_sup_vht_rates w)\<rparr>)
        | WIFINET_T_HT \<Rightarrow> rate_init_loop xs n' (w\<lparr>wm_sup_ht_rates := rate_store (n p) (ri_dot11Rate x) (wm_sup_ht_rates w)\<rparr>)
        | WOFDM \<Rightarrow> rate_init_loop xs n' (w\<lparr>wm_11g_rates := rate_store (n p) (ri_dot11Rate x) (wm_11g_rates w)\<rparr>)
        | CCK \<Rightarrow> rate_init_loop xs n' (w\<lparr>wm_11b_rates := rate_store (n p) (ri_dot11Rate x) (wm_11b_rates w)\<rparr>)
        | PHY_OTHER \<Rightarrow> rate_init_loop xs n w)"

text \<open>The table has 102 entries; at most 57 are read.\<close>

definition wifi_mac_rate_init :: "macmode \<Rightarrow> nat \<Rightarrow> rate_info list \<Rightarrow> mac_rates \<Rightarrow> mac_rates" where
  "wifi_mac_rate_init mode rateCount info w =
     (if mode = MODE_MAX then w
      else rate_init_loop (take (min rateCount WIFINET_RATE_MAXSIZE) info) (\<lambda>_. 0) w)"

section \<open>Sorting\<close>

abbreviation rv :: "u8 \<Rightarrow> nat" where
  "rv r \<equiv> unat (WIFINET_GET_RATE_VAL r)"

lemma sort_step_eq: "sort_step i a j = (if rv (a ! i) > rv (a ! j) then a[i := a ! j, j := a ! i] else a)"
  by (simp add: sort_step_def word_less_nat_alt)

lemma length_sort_step [simp]: "length (sort_step i a j) = length a"
  by (simp add: sort_step_def)

lemma mset_sort_step: "i < length a \<Longrightarrow> j < length a \<Longrightarrow> mset (sort_step i a j) = mset a"
  by (simp add: sort_step_def mset_swap)

text \<open>After the inner loop up to \<open>m\<close>, entry \<open>i\<close> is the least of \<open>i .. m - 1\<close>; entries below \<open>i\<close> and
  from \<open>m\<close> on are as before.\<close>

lemma sort_pass_inv:
  assumes "i < m" "m \<le> length a"
  shows "let b = foldl (sort_step i) a [i + 1..<m] in
     length b = length a \<and> mset b = mset a \<and> (\<forall>k. k < i \<or> m \<le> k \<longrightarrow> b ! k = a ! k)
     \<and> (\<forall>k. i \<le> k \<and> k < m \<longrightarrow> rv (b ! i) \<le> rv (b ! k))
     \<and> (\<forall>k. i \<le> k \<and> k < m \<longrightarrow> (\<exists>l. i \<le> l \<and> l < m \<and> b ! k = a ! l))"
  using assms
proof (induction m)
  case 0
  then show ?case by simp
next
  case (Suc m)
  show ?case
  proof (cases "i = m")
    case True
    have eq: "(m \<le> k \<and> k < Suc m) = (k = m)" for k by auto
    with True Suc.prems show ?thesis by (simp add: Let_def) (intro exI [of _ m], simp)
  next
    case False
    with Suc.prems have im: "i < m" "m < length a" by auto
    define b where "b = foldl (sort_step i) a [i + 1..<m]"
    have ih: "length b = length a" "mset b = mset a" "\<forall>k. k < i \<or> m \<le> k \<longrightarrow> b ! k = a ! k"
      "\<forall>k. i \<le> k \<and> k < m \<longrightarrow> rv (b ! i) \<le> rv (b ! k)"
      "\<forall>k. i \<le> k \<and> k < m \<longrightarrow> (\<exists>l. i \<le> l \<and> l < m \<and> b ! k = a ! l)"
      using Suc.IH im by (simp_all add: b_def Let_def)
    have step: "foldl (sort_step i) a [i + 1..<Suc m] = sort_step i b m" using im by (simp add: b_def)
    have bm: "b ! m = a ! m" using ih(3) by simp
    have ilt: "i < length b" "m < length b" using im ih(1) by auto
    have from_a: "\<exists>l. i \<le> l \<and> l < Suc m \<and> sort_step i b m ! k = a ! l" if k: "i \<le> k" "k < Suc m" for k
    proof -
      have "sort_step i b m ! k \<in> {b ! k, b ! i, b ! m}"
        using ilt k by (auto simp: sort_step_eq nth_list_update)
      moreover have "\<exists>l. i \<le> l \<and> l < Suc m \<and> b ! x = a ! l" if "i \<le> x" "x < Suc m" for x
        using that ih(5) bm less_Suc_eq by metis
      ultimately show ?thesis using k im by (metis insertE le_refl less_Suc_eq less_imp_le singletonD)
    qed
    have least: "rv (sort_step i b m ! i) \<le> rv (sort_step i b m ! k)" if k: "i \<le> k" "k < Suc m" for k
      using ih(4) k im ilt by (auto simp: sort_step_eq nth_list_update less_Suc_eq)
    show ?thesis
      unfolding Let_def step
      using ih(1-3) least from_a ilt im mset_sort_step [OF ilt]
      by (auto simp: sort_step_eq nth_list_update)
  qed
qed

lemma sort_outer_inv:
  assumes "m \<le> n" "n \<le> length a"
  shows "let b = foldl (sort_pass n) a [0..<m] in
     length b = length a \<and> mset b = mset a \<and> (\<forall>k \<ge> n. b ! k = a ! k)
     \<and> (\<forall>k l. k < m \<and> k \<le> l \<and> l < n \<longrightarrow> rv (b ! k) \<le> rv (b ! l))"
  using assms(1)
proof (induction m)
  case 0
  then show ?case by simp
next
  case (Suc m)
  define b where "b = foldl (sort_pass n) a [0..<m]"
  have ih: "length b = length a" "mset b = mset a" "\<forall>k \<ge> n. b ! k = a ! k"
    "\<forall>k l. k < m \<and> k \<le> l \<and> l < n \<longrightarrow> rv (b ! k) \<le> rv (b ! l)"
    using Suc by (simp_all add: b_def Let_def)
  have mn: "m < n" "n \<le> length b" using Suc.prems assms(2) ih(1) by auto
  define c where "c = sort_pass n b m"
  have c: "length c = length b" "mset c = mset b" "\<forall>k. k < m \<or> n \<le> k \<longrightarrow> c ! k = b ! k"
    "\<forall>k. m \<le> k \<and> k < n \<longrightarrow> rv (c ! m) \<le> rv (c ! k)"
    "\<forall>k. m \<le> k \<and> k < n \<longrightarrow> (\<exists>l. m \<le> l \<and> l < n \<and> c ! k = b ! l)"
    using sort_pass_inv [OF mn] by (simp_all add: c_def sort_pass_def Let_def)
  have le: "rv (c ! k) \<le> rv (c ! l)" if kl: "k < Suc m" "k \<le> l" "l < n" for k l
  proof (cases "k = m")
    case True
    with c(4) kl show ?thesis by simp
  next
    case False
    with kl have k: "k < m" "c ! k = b ! k" using c(3) by auto
    show ?thesis
    proof (cases "l < m")
      case True
      with k kl c(3) ih(4) show ?thesis by simp
    next
      case False
      with c(5) kl obtain j where "m \<le> j" "j < n" "c ! l = b ! j" by (meson leI)
      with k ih(4) show ?thesis by auto
    qed
  qed
  have "foldl (sort_pass n) a [0..<Suc m] = c" by (simp add: b_def c_def)
  then show ?case using ih c le by (simp add: Let_def)
qed

lemma sort_rate_spec:
  assumes "rs_ok rs"
  shows "\<exists>rs'. wifi_mac_sort_rate rs = Some rs' \<and> rs_ok rs' \<and> dot11_rate_num rs' = dot11_rate_num rs
    \<and> sorted (map rv (rs_list rs')) \<and> mset (rs_list rs') = mset (rs_list rs)
    \<and> drop (dot11_rate_num rs) (dot11_rate rs') = drop (dot11_rate_num rs) (dot11_rate rs)"
proof -
  let ?n = "dot11_rate_num rs" and ?a = "dot11_rate rs"
  have n: "?n \<le> length ?a" using assms by (simp add: rs_ok_def)
  define b where "b = foldl (sort_pass ?n) ?a [0..<?n]"
  have b: "length b = length ?a" "mset b = mset ?a" "\<forall>k \<ge> ?n. b ! k = ?a ! k"
    "\<forall>k l. k < ?n \<and> k \<le> l \<and> l < ?n \<longrightarrow> rv (b ! k) \<le> rv (b ! l)"
    using sort_outer_inv [OF order_refl n] by (simp_all add: b_def Let_def)
  have drop: "drop ?n b = drop ?n ?a" by (rule nth_equalityI) (use b n in auto)
  have "mset (take ?n b) + mset (drop ?n b) = mset (take ?n ?a) + mset (drop ?n ?a)"
    using b(2) by (metis append_take_drop_id mset_append)
  then have m: "mset (take ?n b) = mset (take ?n ?a)" using drop by simp
  have "sorted (map rv (take ?n b))"
    using b(1,4) n by (auto simp: sorted_iff_nth_mono)
  with m drop b(1) n assms show ?thesis
    by (simp add: wifi_mac_sort_rate_def b_def [symmetric] rs_ok_def rs_list_def)
qed

section \<open>Intersection\<close>

lemma rate_in_iff: "rate_in r xs \<longleftrightarrow> rv r \<in> set (map rv xs)"
  by (auto simp: rate_in_def list_ex_iff word_unat_eq_iff)

lemma xsect_spec:
  assumes "rs_ok rs1" "rs_ok rs2" "rs_ok srs"
  shows "\<exists>rs. wifi_mac_xsect_rate rs1 rs2 srs = Some rs \<and> rs_ok rs
    \<and> rs_list rs = filter (\<lambda>r. rv r \<in> set (map rv (rs_list rs2))) (rs_list rs1)"
proof -
  let ?c = "filter (\<lambda>r. rate_in r (rs_list rs2)) (rs_list rs1)"
  have "length ?c \<le> length (rs_list rs1)" by (rule length_filter_le)
  also have "\<dots> \<le> WIFINET_HT_RATE_SIZE" using assms(1) by (simp add: rs_ok_def rs_list_def)
  finally have l: "length ?c \<le> WIFINET_HT_RATE_SIZE" .
  then have "wifi_mac_xsect_rate rs1 rs2 srs = Some (srs\<lparr>dot11_rate := ?c @ drop (length ?c) (dot11_rate srs),
      dot11_rate_num := length ?c\<rparr>)"
    using assms by (simp add: wifi_mac_xsect_rate_def rs_ok_def overlay_0 Let_def)
  with l assms(3) show ?thesis by (simp add: rs_ok_def rs_list_def rate_in_iff)
qed

lemma rs_ok_zero [simp]: "rs_ok rs_zero" "rs_list rs_zero = []"
  by (simp_all add: rs_ok_def rs_zero_def rs_list_def)

section \<open>Parsing\<close>

text \<open>An element holds at least its two header bytes and the body its length byte announces, at
  most 57 bytes, as the frame parsers check before they call.\<close>

definition ie_ok :: "u8 list \<Rightarrow> bool" where
  "ie_ok ie \<longleftrightarrow> 2 \<le> length ie \<and> 2 + unat (ie ! 1) \<le> length ie \<and> unat (ie ! 1) \<le> WIFINET_RATE_MAXSIZE"

definition ie_body :: "u8 list \<Rightarrow> u8 list" where
  "ie_body ie = take (unat (ie ! 1)) (drop 2 ie)"

lemma length_ie_body: "ie_ok ie \<Longrightarrow> length (ie_body ie) = unat (ie ! 1)"
  by (auto simp: ie_ok_def ie_body_def min_def)

lemma parse_rates_spec:
  assumes ok: "ie_ok ie"
  shows "\<exists>rs. parse_rates ie = Some rs \<and> rs_ok rs \<and> dot11_rate_num rs \<le> WIFINET_RATE_MAXSIZE
    \<and> rs_list rs = ie_body ie"
proof -
  have s: "slice ie 2 (unat (ie ! 1)) = Some (ie_body ie)" using ok by (simp add: slice_def ie_ok_def ie_body_def)
  have l: "length (ie_body ie) \<le> WIFINET_HT_RATE_SIZE"
    using ok length_ie_body [OF ok] by (simp add: ie_ok_def WIFINET_RATE_MAXSIZE_def WIFINET_HT_RATE_SIZE_def)
  have z: "length (dot11_rate rs_zero) = WIFINET_HT_RATE_SIZE" by (simp add: rs_zero_def)
  have "nth_opt ie 1 = Some (ie ! 1)" using ok by (simp add: ie_ok_def)
  then have "parse_rates ie = Some \<lparr>dot11_rate_num = unat (ie ! 1),
      dot11_rate = ie_body ie @ drop (length (ie_body ie)) (dot11_rate rs_zero)\<rparr>"
    using s l z by (simp add: parse_rates_def overlay_0)
  with l z ok length_ie_body [OF ok] show ?thesis by (simp add: rs_ok_def rs_list_def ie_ok_def)
qed

lemma parse_xrates_spec:
  assumes rs: "rs_ok rs" "dot11_rate_num rs \<le> WIFINET_RATE_MAXSIZE" and ok: "ie_ok ie"
  shows "\<exists>rs'. parse_xrates rs ie = Some rs' \<and> rs_ok rs' \<and> dot11_rate_num rs' \<le> WIFINET_RATE_MAXSIZE
    \<and> rs_list rs' = take WIFINET_RATE_MAXSIZE (rs_list rs @ ie_body ie)"
proof -
  let ?n = "dot11_rate_num rs" and ?l = "unat (ie ! 1)"
  define nx where "nx = min ?l (57 - ?n)"
  have n57: "?n \<le> 57" using rs(2) by (simp add: WIFINET_RATE_MAXSIZE_def)
  have len: "length (dot11_rate rs) = 77" using rs(1) by (simp add: rs_ok_def WIFINET_HT_RATE_SIZE_def)
  have "(57 - int ?n) mod 256 = 57 - int ?n" using n57 by (intro mod_pos_pos_trivial) auto
  then have nxe: "(if ?n + ?l > WIFINET_RATE_MAXSIZE then nat ((int WIFINET_RATE_MAXSIZE - int ?n) mod 256) else ?l) = nx"
    using n57 by (auto simp: nx_def WIFINET_RATE_MAXSIZE_def)
  have body: "slice ie 2 nx = Some (take nx (ie_body ie))"
    using ok by (auto simp: slice_def nx_def ie_ok_def ie_body_def min_def)
  define xs where "xs = take nx (ie_body ie)"
  have lb: "length xs = nx" using length_ie_body [OF ok] by (simp add: xs_def nx_def)
  have fit: "?n + nx \<le> 57" using n57 by (simp add: nx_def)
  have byte: "nth_opt ie 1 = Some (ie ! 1)" using ok by (simp add: ie_ok_def)
  define arr where "arr = take ?n (dot11_rate rs) @ xs @ drop (?n + nx) (dot11_rate rs)"
  have "parse_xrates rs ie = Some \<lparr>dot11_rate_num = ?n + nx, dot11_rate = arr\<rparr>"
    unfolding parse_xrates_def byte option.case Let_def nxe body xs_def [symmetric]
    using fit len lb by (simp add: overlay_def arr_def)
  moreover have "length arr = 77" using len lb fit by (simp add: arr_def)
  moreover have "take (?n + nx) arr = rs_list rs @ xs" using n57 len lb by (simp add: arr_def rs_list_def)
  moreover have "xs = take (57 - ?n) (ie_body ie)"
    using length_ie_body [OF ok] by (auto simp: xs_def nx_def min_def)
  then have "rs_list rs @ xs = take 57 (rs_list rs @ ie_body ie)"
    using n57 len by (simp add: rs_list_def)
  ultimately show ?thesis
    using fit by (simp add: rs_ok_def rs_list_def WIFINET_HT_RATE_SIZE_def WIFINET_RATE_MAXSIZE_def)
qed

text \<open>The rates of the peer as they are stored: both elements, at most 57.\<close>

definition peer_rates :: "u8 list option \<Rightarrow> u8 list option \<Rightarrow> u8 list" where
  "peer_rates rates xrates =
     (let rs = (case rates of None \<Rightarrow> [] | Some ie \<Rightarrow> ie_body ie) in
      case xrates of None \<Rightarrow> rs | Some ie \<Rightarrow> take WIFINET_RATE_MAXSIZE (rs @ ie_body ie))"

lemma peer_rates_parse:
  assumes r: "\<forall>ie. rates = Some ie \<longrightarrow> ie_ok ie" and x: "\<forall>ie. xrates = Some ie \<longrightarrow> ie_ok ie"
  shows "\<exists>rs1 rs2. (case rates of None \<Rightarrow> Some rs_zero | Some ie \<Rightarrow> parse_rates ie) = Some rs1
    \<and> (case xrates of None \<Rightarrow> Some rs1 | Some ie \<Rightarrow> parse_xrates rs1 ie) = Some rs2
    \<and> rs_ok rs2 \<and> rs_list rs2 = peer_rates rates xrates"
proof -
  obtain rs1 where 1: "(case rates of None \<Rightarrow> Some rs_zero | Some ie \<Rightarrow> parse_rates ie) = Some rs1"
    "rs_ok rs1" "dot11_rate_num rs1 \<le> WIFINET_RATE_MAXSIZE"
    "rs_list rs1 = (case rates of None \<Rightarrow> [] | Some ie \<Rightarrow> ie_body ie)"
  proof (cases rates)
    case None
    then show ?thesis by (intro that [of rs_zero]) (simp_all, simp add: rs_zero_def)
  next
    case (Some ie)
    with r parse_rates_spec [of ie] show ?thesis using that by auto
  qed
  show ?thesis
  proof (cases xrates)
    case None
    with 1 show ?thesis by (auto simp: peer_rates_def)
  next
    case (Some ie)
    with x parse_xrates_spec [OF 1(2,3), of ie] 1 show ?thesis by (auto simp: peer_rates_def Let_def)
  qed
qed

section \<open>VHT maps\<close>

lemma drop_bit_and3_bits: "bit (drop_bit k (m :: u16) AND 3) n \<longleftrightarrow> n < 2 \<and> bit m (k + n)"
proof -
  have "drop_bit k m AND 3 = take_bit 2 (drop_bit k m)" by (simp add: take_bit_eq_mask mask_eq_exp_minus_1)
  then show ?thesis by (simp add: bit_take_bit_iff bit_drop_bit_eq)
qed

lemma bit_foldl_or:
  "bit (foldl (\<lambda>m i. m OR f i) a xs) k \<longleftrightarrow> bit (a :: u16) k \<or> (\<exists>i \<in> set xs. bit (f i) k)"
  by (induction xs arbitrary: a) (auto simp: bit_or_iff)

lemma vht_roundtrip: "wifi_mac_get_vht_rate_map (wifi_mac_get_vht_rates m) = m"
proof (rule bit_word_eqI)
  fix n assume "n < LENGTH(16)"
  then have n: "n < 16" by simp
  let ?v = "vrates (wifi_mac_get_vht_rates m)"
  have v: "bit (push_bit (2 * i) (ucast (?v ! i)) :: u16) n \<longleftrightarrow> 2 * i \<le> n \<and> n - 2 * i < 2 \<and> bit m n"
    if i: "i < 8" for i
  proof -
    have "?v ! i = ucast (drop_bit (2 * i) m AND 3)"
      using i by (simp add: wifi_mac_get_vht_rates_def Let_def MAX_VHT_STREAMS_def)
    then show ?thesis
      using n by (auto simp: bit_push_bit_iff bit_ucast_iff drop_bit_and3_bits)
  qed
  have "bit (wifi_mac_get_vht_rate_map (wifi_mac_get_vht_rates m)) n
      \<longleftrightarrow> (\<exists>i < 8. 2 * i \<le> n \<and> n - 2 * i < 2 \<and> bit m n)"
    unfolding wifi_mac_get_vht_rate_map_def MAX_VHT_STREAMS_def bit_foldl_or using v by auto
  moreover have "n div 2 < 8 \<and> 2 * (n div 2) \<le> n \<and> n - 2 * (n div 2) < 2" using n by linarith
  ultimately show "bit (wifi_mac_get_vht_rate_map (wifi_mac_get_vht_rates m)) n = bit m n" by blast
qed

text \<open>Maps in which the supported streams come first, as the standard requires.\<close>

definition contiguous :: "vht_rate_s \<Rightarrow> bool" where
  "contiguous v \<longleftrightarrow> length (vrates v) = MAX_VHT_STREAMS \<and> num_streams v \<le> MAX_VHT_STREAMS
     \<and> (\<forall>i < MAX_VHT_STREAMS. vrates v ! i < 3 \<longleftrightarrow> i < num_streams v)"

lemma vht_intersect_spec:
  assumes "contiguous a" "contiguous b"
  shows "contiguous (wifi_mac_get_vht_intersect_rates a b)"
    and "\<forall>i < MAX_VHT_STREAMS. (vrates (wifi_mac_get_vht_intersect_rates a b) ! i < 3
        \<longleftrightarrow> vrates a ! i < 3 \<and> vrates b ! i < 3)"
    and "\<forall>i < num_streams (wifi_mac_get_vht_intersect_rates a b).
        vrates (wifi_mac_get_vht_intersect_rates a b) ! i = min (vrates a ! i) (vrates b ! i)"
  using assms
  by (auto simp: contiguous_def wifi_mac_get_vht_intersect_rates_def Let_def min_less_iff_disj MAX_VHT_STREAMS_def)

section \<open>Properties\<close>

definition demo_rs :: "u8 list \<Rightarrow> rateset" where
  "demo_rs xs = \<lparr>dot11_rate_num = length xs, dot11_rate = xs @ replicate (77 - length xs) 0\<rparr>"

lemma demo_rs_ok: "length xs \<le> 77 \<Longrightarrow> rs_ok (demo_rs xs)" "rs_list (demo_rs xs) = xs"
  by (simp_all add: rs_ok_def demo_rs_def rs_list_def WIFINET_HT_RATE_SIZE_def)

text \<open>The exchange sort of a rate set sorts it by rate value, ignoring the basic-rate flag; it
  keeps the rates with their flags as a multiset, the count, and the bytes behind the count.\<close>

theorem sort_rate_sorts:
  assumes "rs_ok rs"
  shows "\<exists>rs'. wifi_mac_sort_rate rs = Some rs' \<and> rs_ok rs' \<and> dot11_rate_num rs' = dot11_rate_num rs
    \<and> sorted (map rv (rs_list rs')) \<and> mset (rs_list rs') = mset (rs_list rs)
    \<and> drop (dot11_rate_num rs) (dot11_rate rs') = drop (dot11_rate_num rs) (dot11_rate rs)"
  by (rule sort_rate_spec [OF assms])

theorem sort_rate_sorts_witness:
  "\<exists>rs'. wifi_mac_sort_rate (demo_rs [0x16, 0x82, 0x0b]) = Some rs' \<and> sorted (map rv (rs_list rs'))"
proof -
  have "rs_ok (demo_rs [0x16, 0x82, 0x0b])" by (simp add: demo_rs_ok)
  from sort_rate_sorts [OF this] show ?thesis by blast
qed

text \<open>C8: Setting up the rates of a peer from well-formed elements always returns. The stored set
  holds the local rates the peer also supports (or, without the intersection flag, the peer's rates,
  at most 57), sorted when sorting is asked for and the checks pass; the result is false exactly
  when the fixed rate or, if asked for, a basic rate is missing.\<close>

theorem setup_rates_result:
  assumes r: "\<forall>ie. rates = Some ie \<longrightarrow> ie_ok ie" and x: "\<forall>ie. xrates = Some ie \<longrightarrow> ie_ok ie"
    and l: "rs_ok (legacy_rates env)"
  shows "\<exists>ok rs. wifi_mac_setup_rates env rates xrates flags = Some (ok, rs) \<and> rs_ok rs
    \<and> (let peer = peer_rates rates xrates in
        mset (rs_list rs) = mset (if has_flag flags WIFINET_F_DOXSECT
          then filter (\<lambda>r. rv r \<in> set (map rv peer)) (rs_list (legacy_rates env)) else peer))
    \<and> (ok \<and> has_flag flags WIFINET_F_DOSORT \<longrightarrow> sorted (map rv (rs_list rs)))
    \<and> (\<exists>rs0. mset (rs_list rs0) = mset (rs_list rs) \<and>
        ok = ((has_flag flags WIFINET_F_DOFRATE \<longrightarrow> wifi_mac_fixed_rate_check (fixed_mode env) (fixed_info env) rs0)
            \<and> (has_flag flags WIFINET_F_DOBRS \<longrightarrow> wifi_mac_brs_rate_check (main_rates env) rs0)))"
proof -
  obtain rs1 rs2 where p: "(case rates of None \<Rightarrow> Some rs_zero | Some ie \<Rightarrow> parse_rates ie) = Some rs1"
    "(case xrates of None \<Rightarrow> Some rs1 | Some ie \<Rightarrow> parse_xrates rs1 ie) = Some rs2"
    "rs_ok rs2" "rs_list rs2 = peer_rates rates xrates"
    using peer_rates_parse [OF r x] by blast
  obtain rs3 where 3: "(if has_flag flags WIFINET_F_DOSORT then wifi_mac_sort_rate rs2 else Some rs2) = Some rs3"
    "rs_ok rs3" "mset (rs_list rs3) = mset (rs_list rs2)"
    using sort_rate_spec [OF p(3)] p(3) by (cases "has_flag flags WIFINET_F_DOSORT") auto
  have vals: "set (map rv (rs_list rs3)) = set (map rv (peer_rates rates xrates))"
    using 3(3) p(4) by (metis mset_eq_setD set_map)
  obtain rs4 where 4: "(if has_flag flags WIFINET_F_DOXSECT then wifi_mac_xsect_rate (legacy_rates env) rs3 rs_zero
      else Some rs3) = Some rs4" "rs_ok rs4"
    "mset (rs_list rs4) = mset (if has_flag flags WIFINET_F_DOXSECT
        then filter (\<lambda>r. rv r \<in> set (map rv (peer_rates rates xrates))) (rs_list (legacy_rates env))
        else peer_rates rates xrates)"
    using xsect_spec [OF l 3(2) rs_ok_zero(1)] 3 p(4) unfolding vals
    by (cases "has_flag flags WIFINET_F_DOXSECT") auto
  obtain rs5 where 5: "(if has_flag flags WIFINET_F_DOSORT then wifi_mac_sort_rate rs4 else Some rs4) = Some rs5"
    "rs_ok rs5" "mset (rs_list rs5) = mset (rs_list rs4)"
    "has_flag flags WIFINET_F_DOSORT \<longrightarrow> sorted (map rv (rs_list rs5))"
    using sort_rate_spec [OF 4(2)] 4(2) by (cases "has_flag flags WIFINET_F_DOSORT") auto
  define ok where "ok = ((has_flag flags WIFINET_F_DOFRATE \<longrightarrow> wifi_mac_fixed_rate_check (fixed_mode env) (fixed_info env) rs4)
      \<and> (has_flag flags WIFINET_F_DOBRS \<longrightarrow> wifi_mac_brs_rate_check (main_rates env) rs4))"
  have "wifi_mac_setup_rates env rates xrates flags = Some (ok, if ok then rs5 else rs4)"
    unfolding wifi_mac_setup_rates_def p(1,2) option.case 3(1) 4(1) 5(1) by (simp add: ok_def)
  then show ?thesis
    using 4 5 by (intro exI [of _ ok] exI [of _ "if ok then rs5 else rs4"] conjI exI [of _ rs4])
      (simp_all add: Let_def ok_def)
qed

definition demo_rate_env :: rate_env where
  "demo_rate_env = \<lparr>legacy_rates = demo_rs [0x82, 0x84, 0x0b, 0x16], main_rates = demo_rs [0x82],
     fixed_mode = FIXED_RATE_NONE, fixed_info = 0xff, change_rate_enable = True\<rparr>"

theorem setup_rates_result_witness:
  "\<exists>ok rs. wifi_mac_setup_rates demo_rate_env (Some [1, 2, 0x96, 0x02]) None 5 = Some (ok, rs)
    \<and> mset (rs_list rs) = {#0x82, 0x16#}"
proof -
  have ie: "\<forall>ie. Some [1, 2, 0x96, 0x02] = Some ie \<longrightarrow> ie_ok ie" by (auto simp: ie_ok_def WIFINET_RATE_MAXSIZE_def)
  have no: "\<forall>ie. (None :: u8 list option) = Some ie \<longrightarrow> ie_ok ie" by simp
  have l: "rs_ok (legacy_rates demo_rate_env)" by (simp add: demo_rate_env_def demo_rs_ok)
  have "has_flag 5 WIFINET_F_DOXSECT"
    "mset (filter (\<lambda>r. rv r \<in> set (map rv (peer_rates (Some [1, 2, 0x96, 0x02]) None)))
      (rs_list (legacy_rates demo_rate_env))) = mset [0x82, 0x16]" by code_simp+
  with setup_rates_result [OF ie no l, of 5] show ?thesis by (auto simp: Let_def)
qed

text \<open>The two directions of the VHT rate map are inverse: decoding a 16-bit map into eight
  streams and encoding it again gives the same map.\<close>

theorem vht_rate_map_roundtrip: "wifi_mac_get_vht_rate_map (wifi_mac_get_vht_rates m) = m"
  by (rule vht_roundtrip)

text \<open>When both sides list their supported streams first and share at least one, VHT
  negotiation with the intersection flag stores exactly the common streams, each with the smaller
  MCS range, and the MCS range of the last common stream as the rate set.\<close>

theorem setup_vht_negotiates:
  assumes a: "contiguous (wifi_mac_get_vht_rates (sta_rx_vhtrates sta))"
    and b: "contiguous (wifi_mac_get_vht_rates our_tx)"
    and x: "has_flag flags WIFINET_F_DOXSECT"
    and n: "0 < min (num_streams (wifi_mac_get_vht_rates (sta_rx_vhtrates sta)))
                 (num_streams (wifi_mac_get_vht_rates our_tx))"
    and arr: "length (dot11_rate (sta_vhtrates sta)) = WIFINET_HT_RATE_SIZE"
  shows "\<exists>ok sta'. wifi_mac_setup_vht_rates our_tx our_rx our_basic sta flags = Some (ok, sta')
    \<and> sta_streams sta' = min (num_streams (wifi_mac_get_vht_rates (sta_rx_vhtrates sta)))
                          (num_streams (wifi_mac_get_vht_rates our_tx))
    \<and> (\<exists>top. top = min (vrates (wifi_mac_get_vht_rates (sta_rx_vhtrates sta)) ! (sta_streams sta' - 1))
                     (vrates (wifi_mac_get_vht_rates our_tx) ! (sta_streams sta' - 1))
         \<and> rs_list (sta_vhtrates sta') = map of_nat [0..<8 + unat top])"
proof -
  let ?a = "wifi_mac_get_vht_rates (sta_rx_vhtrates sta)" and ?b = "wifi_mac_get_vht_rates our_tx"
  let ?i = "wifi_mac_get_vht_intersect_rates ?a ?b"
  let ?top = "vrates ?i ! (num_streams ?i - 1)"
  note i = vht_intersect_spec [OF a b]
  have ns: "num_streams ?i = min (num_streams ?a) (num_streams ?b)"
    by (simp add: wifi_mac_get_vht_intersect_rates_def Let_def)
  with n have pos: "0 < num_streams ?i" "num_streams ?i - 1 < num_streams ?i" by auto
  have top: "?top = min (vrates ?a ! (num_streams ?i - 1)) (vrates ?b ! (num_streams ?i - 1))"
    using i(3) pos by blast
  have "num_streams ?i \<le> MAX_VHT_STREAMS" using i(1) by (simp add: contiguous_def)
  then have "?top < 3" using i(1) pos by (auto simp: contiguous_def)
  then have "unat ?top < 3" by (simp add: word_less_nat_alt)
  then have cases: "?top = 0 \<or> ?top = 1 \<or> ?top = 2" by (auto simp: word_unat_eq_iff)
  define k where "k = vht_mcs_count ?top"
  have k: "k = 8 + unat ?top" "k \<le> 10" using cases by (auto simp: k_def vht_mcs_count_def)
  define rs where "rs = \<lparr>dot11_rate_num = k, dot11_rate = map of_nat [0..<k] @ drop k (dot11_rate (sta_vhtrates sta))\<rparr>"
  have set: "set_mcs_upto (sta_vhtrates sta) k = Some rs"
    using k(2) arr by (simp add: set_mcs_upto_def overlay_0 WIFINET_HT_RATE_SIZE_def rs_def)
  have rl: "rs_list rs = map of_nat [0..<8 + unat ?top]" by (simp add: rs_def rs_list_def k(1))
  have "\<exists>ok sta'. wifi_mac_setup_vht_rates our_tx our_rx our_basic sta flags = Some (ok, sta')
      \<and> sta_streams sta' = num_streams ?i \<and> sta_vhtrates sta' = rs"
    unfolding wifi_mac_setup_vht_rates_def Let_def
    using x pos set [unfolded k_def] by (auto simp del: One_nat_def)
  then show ?thesis using rl top ns by metis
qed

definition demo_vht :: "u16 \<Rightarrow> vht_sta" where
  "demo_vht m = \<lparr>sta_vhtrates = demo_rs [], sta_streams = 0, sta_tx_vhtrates = m, sta_rx_vhtrates = m\<rparr>"

lemma contiguous_one: "m = 0xfffe \<or> m = 0xfffd \<Longrightarrow> contiguous (wifi_mac_get_vht_rates m)"
proof -
  have e: "contiguous v \<longleftrightarrow> length (vrates v) = MAX_VHT_STREAMS \<and> num_streams v \<le> MAX_VHT_STREAMS
      \<and> list_all (\<lambda>i. (vrates v ! i < 3) = (i < num_streams v)) [0..<MAX_VHT_STREAMS]" for v
    by (auto simp: contiguous_def list_all_iff)
  have "contiguous (wifi_mac_get_vht_rates 0xfffe)" "contiguous (wifi_mac_get_vht_rates 0xfffd)"
    unfolding e by code_simp+
  then show "m = 0xfffe \<or> m = 0xfffd \<Longrightarrow> ?thesis" by auto
qed

theorem setup_vht_negotiates_witness:
  "\<exists>ok sta'. wifi_mac_setup_vht_rates 0xfffe 0xfffe 0xffff (demo_vht 0xfffd) 4 = Some (ok, sta')
    \<and> rs_list (sta_vhtrates sta') = map of_nat [0..<9]"
proof -
  have c: "contiguous (wifi_mac_get_vht_rates (sta_rx_vhtrates (demo_vht 0xfffd)))"
    "contiguous (wifi_mac_get_vht_rates 0xfffe)" by (simp_all add: contiguous_one demo_vht_def)
  have f: "has_flag 4 WIFINET_F_DOXSECT" by code_simp
  have n: "min (num_streams (wifi_mac_get_vht_rates (sta_rx_vhtrates (demo_vht 0xfffd))))
      (num_streams (wifi_mac_get_vht_rates 0xfffe)) = 1"
    "min (vrates (wifi_mac_get_vht_rates (sta_rx_vhtrates (demo_vht 0xfffd))) ! 0)
      (vrates (wifi_mac_get_vht_rates 0xfffe) ! 0) = 1" by code_simp+
  have l: "length (dot11_rate (sta_vhtrates (demo_vht 0xfffd))) = WIFINET_HT_RATE_SIZE" by code_simp
  from setup_vht_negotiates [OF c f _ l, where our_rx = "0xfffe" and our_basic = "0xffff"] n obtain ok sta' where
    "wifi_mac_setup_vht_rates 0xfffe 0xfffe 0xffff (demo_vht 0xfffd) 4 = Some (ok, sta')"
    "rs_list (sta_vhtrates sta') = map of_nat [0..<8 + unat (1::u8)]" by auto
  moreover have "8 + unat (1::u8) = 9" by simp
  ultimately show ?thesis by metis
qed

text \<open>When the peer's map and ours share no stream, VHT negotiation reads the entry before the
  first one of \<open>rates\<close>.\<close>

theorem setup_vht_no_stream:
  assumes "num_streams (wifi_mac_get_vht_rates (sta_rx_vhtrates sta)) = 0"
  shows "wifi_mac_setup_vht_rates our_tx our_rx our_basic sta flags = None"
  using assms by (auto simp: wifi_mac_setup_vht_rates_def Let_def wifi_mac_get_vht_intersect_rates_def split: prod.split)

theorem setup_vht_no_stream_witness: "wifi_mac_setup_vht_rates 0xfffe 0xfffe 0xfffe (demo_vht 0xffff) 15 = None"
  by (rule setup_vht_no_stream) code_simp

text \<open>The HT rates stored for a peer are exactly the MCS indices 0 to 6 it announces: index 7,
  the fastest single-stream rate, is left out although the peer supports it.\<close>

theorem setup_ht_rates_drops_mcs7:
  "\<exists>rs. wifi_mac_setup_ht_rates env ht (Some mcsset) 0 = Some (True, rs) \<and> rs_ok rs
    \<and> rs_list rs = map of_nat (filter (mcs_bit mcsset) [0..<7])"
proof -
  have "[0..<77] = [0..<7] @ [7..<77::nat]" using upt_add_eq_append [of 0 7 70] by simp
  then have "filter (\<lambda>i. mcs_bit mcsset i \<and> i < 7) [0..<WIFINET_HT_RATE_SIZE] = filter (mcs_bit mcsset) [0..<7]"
    by (auto simp: WIFINET_HT_RATE_SIZE_def filter_empty_conv intro!: filter_cong)
  moreover have len: "length (filter (mcs_bit mcsset) [0..<7]) \<le> 7"
    using length_filter_le [of "mcs_bit mcsset" "[0..<7]"] by simp
  ultimately have ht: "ht_rates mcsset = map of_nat (filter (mcs_bit mcsset) [0..<7])"
    by (simp add: ht_rates_def WIFINET_RATE_MAXSIZE_def)
  have "length (dot11_rate rs_zero) = 77" by (simp add: rs_zero_def WIFINET_HT_RATE_SIZE_def)
  with len ht show ?thesis
    by (simp add: wifi_mac_setup_ht_rates_def rs_of_def overlay_0 has_flag_def rs_ok_def rs_list_def
        WIFINET_HT_RATE_SIZE_def)
qed

text \<open>The comparison of a scan entry's basic rates with the local rates has no effect:
  \<open>check_rate\<close> accepts every entry it can parse.\<close>

theorem check_rate_accepts:
  assumes "ie_ok r" and "ie_ok xr"
  shows "\<exists>f. check_rate srs r xr = Some (1, f)"
proof -
  obtain rs where rs: "parse_rates r = Some rs" "rs_ok rs" "dot11_rate_num rs \<le> WIFINET_RATE_MAXSIZE"
    using parse_rates_spec [OF assms(1)] by blast
  obtain rs' where "parse_xrates rs xr = Some rs'" using parse_xrates_spec [OF rs(2,3) assms(2)] by blast
  moreover have "nth_opt xr 1 = Some (xr ! 1)" using assms(2) by (simp add: ie_ok_def)
  ultimately show ?thesis using rs(1) by (simp add: check_rate_def Let_def)
qed

theorem check_rate_accepts_witness: "\<exists>f. check_rate (demo_rs [0x02]) [1, 1, 0x8b] [50, 0] = Some (1, f)"
  by (rule check_rate_accepts) (simp_all add: ie_ok_def WIFINET_RATE_MAXSIZE_def)

lemma iserp_find_sorted: "sorted (map rv xs) \<Longrightarrow> iserp_find t xs \<longleftrightarrow> t \<in> set (map rv xs)"
  by (induction xs) (auto simp: Let_def)

text \<open>On a sorted rate set, the ERP test answers whether the set has the seven mandatory rates
  1, 2, 5.5, 11, 6, 12 and 24 Mb/s.\<close>

theorem iserp_rateset_mandatory:
  assumes "sorted (map rv (rs_list rs))" and "rs_ok rs"
  shows "wifi_mac_iserp_rateset rs \<longleftrightarrow> set erp_rates \<subseteq> set (map rv (rs_list rs))"
proof -
  have "7 \<le> dot11_rate_num rs" if s: "set erp_rates \<subseteq> set (map rv (rs_list rs))"
  proof -
    have "card (set erp_rates) \<le> card (set (map rv (rs_list rs)))" by (rule card_mono [OF _ s]) simp
    also have "\<dots> \<le> length (map rv (rs_list rs))" by (rule card_length)
    also have "\<dots> \<le> dot11_rate_num rs" by (simp add: rs_list_def)
    finally show ?thesis by (simp add: erp_rates_def)
  qed
  moreover have "length erp_rates = 7" by (simp add: erp_rates_def)
  ultimately show ?thesis
    using iserp_find_sorted [OF assms(1)] by (auto simp: wifi_mac_iserp_rateset_def list_all_iff)
qed

theorem iserp_rateset_mandatory_witness:
  "wifi_mac_iserp_rateset (demo_rs [0x82, 0x84, 0x0b, 0x0c, 0x16, 0x18, 0x30])
    \<longleftrightarrow> set erp_rates \<subseteq> {2, 4, 11, 12, 22, 24, 48}"
  using iserp_rateset_mandatory [of "demo_rs [0x82, 0x84, 0x0b, 0x0c, 0x16, 0x18, 0x30]"]
  by (simp add: demo_rs_ok WIFINET_GET_RATE_VAL_def WIFINET_RATE_VAL_def)

end
