(* ===== verification/Acl.thy ===== *)
theory Acl
  imports Prelude
begin

text \<open>
  The access control list of \<^verbatim>\<open>wifi_mac_acl.c\<close>: entries are linked into one list in the order they
  were added and into one of 32 hash chains, chosen by the last byte of the address.
  An entry is its allocation (\<open>acl_id\<close>) and its address; a kernel list is a list of entries. The
  spin lock is a field: taking it while it is held never returns, which is \<open>None\<close>. The set of
  addresses is the abstraction; the lemmas show that chain and list always agree.
\<close>

section \<open>Data\<close>

definition ACL_POLICY_OPEN :: int where "ACL_POLICY_OPEN = 0"
definition ACL_POLICY_ALLOW :: int where "ACL_POLICY_ALLOW = 1"
definition ACL_POLICY_DENY :: int where "ACL_POLICY_DENY = 2"
definition ACL_HASHSIZE :: nat where "ACL_HASHSIZE = 32"

record acl_info =
  acl_id :: nat
  acl_macaddr :: macaddr

record acl =
  as_locked :: bool
  as_policy :: int
  as_list :: "acl_info list"
  as_hash :: "acl_info list list"

definition ACL_HASH :: "macaddr \<Rightarrow> nat" where
  "ACL_HASH mac = unat (mac ! 5) mod ACL_HASHSIZE"

definition acl_lock :: "acl \<Rightarrow> acl option" where
  "acl_lock a = (if as_locked a then None else Some (a\<lparr>as_locked := True\<rparr>))"

definition acl_unlock :: "acl \<Rightarrow> acl" where
  "acl_unlock a = a\<lparr>as_locked := False\<rparr>"

section \<open>Operations\<close>

text \<open>The module counter is never above one, so its test never fails. \<open>alloc_ok\<close> tells whether
  the allocation succeeds.\<close>

definition acl_attach :: "bool \<Rightarrow> int \<Rightarrow> int \<times> int \<times> acl option" where
  "acl_attach alloc_ok my_mod_use =
     (if my_mod_use > 2 then (0, my_mod_use, None)
      else if \<not> alloc_ok then (0, 0, None)
      else (1, 1, Some \<lparr>as_locked = False, as_policy = ACL_POLICY_OPEN, as_list = [],
                        as_hash = replicate ACL_HASHSIZE []\<rparr>))"

definition find_acl :: "acl \<Rightarrow> macaddr \<Rightarrow> acl_info option" where
  "find_acl a mac = find (\<lambda>x. acl_macaddr x = mac) (as_hash a ! ACL_HASH mac)"

text \<open>\<open>list_del_init\<close> on both links: the entry leaves the list and the chain it is linked into.\<close>

definition unlink :: "acl_info \<Rightarrow> acl_info list \<Rightarrow> acl_info list" where
  "unlink x xs = filter (\<lambda>y. acl_id y \<noteq> acl_id x) xs"

text \<open>\<open>ACL_LOCK_ASSERT\<close> stops the kernel when the lock is not held.\<close>

definition acl_free :: "acl \<Rightarrow> acl_info \<Rightarrow> acl option" where
  "acl_free a x =
     (if as_locked a
      then Some (a\<lparr>as_list := unlink x (as_list a), as_hash := map (unlink x) (as_hash a)\<rparr>) else None)"

definition acl_check :: "acl \<Rightarrow> macaddr \<Rightarrow> bool" where
  "acl_check a mac =
     (if as_policy a = ACL_POLICY_OPEN then True
      else if as_policy a = ACL_POLICY_ALLOW then find_acl a mac \<noteq> None
      else if as_policy a = ACL_POLICY_DENY then find_acl a mac = None
      else False)"

text \<open>\<open>new\<close> is the entry the allocator returns, or nothing.\<close>

definition acl_add :: "nat option \<Rightarrow> acl \<Rightarrow> macaddr \<Rightarrow> (int \<times> acl) option" where
  "acl_add new a mac =
     (case new of
        None \<Rightarrow> Some (ENOMEM, a)
      | Some i \<Rightarrow>
         (case acl_lock a of
            None \<Rightarrow> None
          | Some a \<Rightarrow>
              let h = ACL_HASH mac in
              if list_ex (\<lambda>x. acl_macaddr x = mac) (as_hash a ! h) then Some (EEXIST, acl_unlock a)
              else
                let x = \<lparr>acl_id = i, acl_macaddr = mac\<rparr>;
                    a = a\<lparr>as_list := as_list a @ [x], as_hash := (as_hash a)[h := x # as_hash a ! h]\<rparr>
                in Some (0, acl_unlock a)))"

definition acl_remove :: "acl \<Rightarrow> macaddr \<Rightarrow> (int \<times> acl) option" where
  "acl_remove a mac =
     (case acl_lock a of
        None \<Rightarrow> None
      | Some a \<Rightarrow>
         (case find_acl a mac of
            None \<Rightarrow> Some (ENOENT, acl_unlock a)
          | Some x \<Rightarrow> (case acl_free a x of None \<Rightarrow> None | Some a \<Rightarrow> Some (0, acl_unlock a))))"

text \<open>The loop frees the first entry until the list is empty; an entry that stays in the list would
  make it run forever.\<close>

partial_function (option) acl_free_loop :: "acl \<Rightarrow> acl option" where
  "acl_free_loop a =
     (case as_list a of
        [] \<Rightarrow> Some a
      | x # _ \<Rightarrow> (case acl_free a x of None \<Rightarrow> None | Some a \<Rightarrow> acl_free_loop a))"

definition acl_free_all_locked :: "acl \<Rightarrow> acl option" where
  "acl_free_all_locked a =
     (case acl_lock a of None \<Rightarrow> None | Some a \<Rightarrow> map_option acl_unlock (acl_free_loop a))"

definition acl_free_all :: "acl \<Rightarrow> (int \<times> acl) option" where
  "acl_free_all a = map_option (\<lambda>a. (0, a)) (acl_free_all_locked a)"

text \<open>Result: the module counter, with \<open>vm_aclpriv\<close> NULL.\<close>

definition acl_detach :: "acl \<Rightarrow> int option" where
  "acl_detach a =
     (case acl_lock a of None \<Rightarrow> None
      | Some a \<Rightarrow> (case acl_free_all_locked a of None \<Rightarrow> None | Some a \<Rightarrow> Some 0))"

definition acl_setpolicy :: "acl \<Rightarrow> int \<Rightarrow> int \<times> acl" where
  "acl_setpolicy a policy =
     (if policy = 0 then (0, a\<lparr>as_policy := ACL_POLICY_OPEN\<rparr>)
      else if policy = 1 then (0, a\<lparr>as_policy := ACL_POLICY_ALLOW\<rparr>)
      else if policy = 2 then (0, a\<lparr>as_policy := ACL_POLICY_DENY\<rparr>)
      else (EINVAL, a))"

definition acl_getpolicy :: "acl \<Rightarrow> int" where
  "acl_getpolicy a = as_policy a"

section \<open>Invariant\<close>

text \<open>Every chain holds exactly the listed entries with its hash; allocations and addresses are
  distinct.\<close>

definition acl_wf :: "acl \<Rightarrow> bool" where
  "acl_wf a \<longleftrightarrow> \<not> as_locked a \<and> length (as_hash a) = ACL_HASHSIZE
     \<and> distinct (map acl_id (as_list a)) \<and> distinct (map acl_macaddr (as_list a))
     \<and> (\<forall>h < ACL_HASHSIZE. set (as_hash a ! h) = {x \<in> set (as_list a). ACL_HASH (acl_macaddr x) = h})"

definition acl_members :: "acl \<Rightarrow> macaddr set" where
  "acl_members a = acl_macaddr ` set (as_list a)"

lemma ACL_HASH_less [simp]: "ACL_HASH mac < ACL_HASHSIZE"
  by (simp add: ACL_HASH_def ACL_HASHSIZE_def)

lemma find_Some_in: "find P xs = Some x \<Longrightarrow> x \<in> set xs \<and> P x"
  by (auto simp: find_Some_iff)

lemma find_acl_iff: "acl_wf a \<Longrightarrow> find_acl a mac \<noteq> None \<longleftrightarrow> mac \<in> acl_members a"
proof -
  assume wf: "acl_wf a"
  then have "set (as_hash a ! ACL_HASH mac) = {x \<in> set (as_list a). ACL_HASH (acl_macaddr x) = ACL_HASH mac}"
    by (simp add: acl_wf_def)
  then show ?thesis by (auto simp: find_acl_def find_None_iff acl_members_def)
qed

lemma map_distinct_inj: "distinct (map f xs) \<Longrightarrow> x \<in> set xs \<Longrightarrow> y \<in> set xs \<Longrightarrow> f x = f y \<Longrightarrow> x = y"
  by (auto simp: distinct_map inj_on_def)

lemma set_unlink: "distinct (map acl_id xs) \<Longrightarrow> x \<in> set xs \<Longrightarrow> set (unlink x xs) = set xs - {x}"
  using map_distinct_inj [of acl_id xs] by (auto simp: unlink_def)

lemma distinct_unlink: "distinct (map f xs) \<Longrightarrow> distinct (map f (unlink x xs))"
  by (simp add: unlink_def distinct_map_filter)

lemma acl_unlocked [simp]: "\<not> as_locked a \<Longrightarrow> a\<lparr>as_locked := False\<rparr> = a"
  by simp

lemma acl_free_wf:
  assumes wf: "acl_wf (a\<lparr>as_locked := False\<rparr>)" and l: "as_locked a" and x: "x \<in> set (as_list a)"
  shows "\<exists>b. acl_free a x = Some b \<and> as_locked b \<and> acl_wf (b\<lparr>as_locked := False\<rparr>)
    \<and> set (as_list b) = set (as_list a) - {x} \<and> length (as_list b) < length (as_list a)
    \<and> as_policy b = as_policy a"
proof -
  let ?b = "a\<lparr>as_list := unlink x (as_list a), as_hash := map (unlink x) (as_hash a)\<rparr>"
  have d: "distinct (map acl_id (as_list a))" "length (as_hash a) = ACL_HASHSIZE"
    "distinct (map acl_macaddr (as_list a))"
    "\<And>h. h < ACL_HASHSIZE \<Longrightarrow> set (as_hash a ! h) = {y \<in> set (as_list a). ACL_HASH (acl_macaddr y) = h}"
    using wf by (simp_all add: acl_wf_def)
  have keep: "y \<in> set (unlink x ys) \<longleftrightarrow> y \<in> set ys \<and> y \<noteq> x" if "set ys \<subseteq> set (as_list a)" for y ys
    using that x map_distinct_inj [OF d(1)] by (auto simp: unlink_def)
  have hash: "set (map (unlink x) (as_hash a) ! h) = {y \<in> set (unlink x (as_list a)). ACL_HASH (acl_macaddr y) = h}"
    if h: "h < ACL_HASHSIZE" for h
    using d(4) [OF h] keep [of "as_hash a ! h"] keep [of "as_list a"] h d(2) by auto
  have wfb: "acl_wf (?b\<lparr>as_locked := False\<rparr>)"
    unfolding acl_wf_def using hash distinct_unlink [OF d(1)] distinct_unlink [OF d(3)] d by simp
  have "length (unlink x (as_list a)) < length (as_list a)"
    unfolding unlink_def using x by (rule length_filter_less) simp
  with wfb l set_unlink [OF d(1) x] show ?thesis by (simp add: acl_free_def)
qed

lemma acl_free_loop_empty:
  "acl_wf (a\<lparr>as_locked := False\<rparr>) \<Longrightarrow> as_locked a \<Longrightarrow>
   \<exists>b. acl_free_loop a = Some b \<and> as_locked b \<and> acl_wf (b\<lparr>as_locked := False\<rparr>) \<and> as_list b = []
     \<and> as_policy b = as_policy a"
proof (induction "length (as_list a)" arbitrary: a rule: less_induct)
  case less
  show ?case
  proof (cases "as_list a")
    case Nil
    with less.prems show ?thesis by (subst acl_free_loop.simps) simp
  next
    case (Cons x xs)
    obtain b where b: "acl_free a x = Some b" "as_locked b" "acl_wf (b\<lparr>as_locked := False\<rparr>)"
      "length (as_list b) < length (as_list a)" "as_policy b = as_policy a"
      using acl_free_wf [OF less.prems, of x] Cons by auto
    have "acl_free_loop a = acl_free_loop b" by (subst acl_free_loop.simps) (simp add: Cons b(1))
    with less.hyps [OF b(4,3,2)] b(5) show ?thesis by simp
  qed
qed

lemma acl_add_spec:
  assumes wf: "acl_wf a" and fresh: "i \<notin> acl_id ` set (as_list a)"
  shows "\<exists>b. acl_add (Some i) a mac = Some (if mac \<in> acl_members a then EEXIST else 0, b) \<and> acl_wf b
    \<and> acl_members b = insert mac (acl_members a) \<and> as_policy b = as_policy a"
proof -
  have d: "\<not> as_locked a" "length (as_hash a) = ACL_HASHSIZE"
    "\<And>h. h < ACL_HASHSIZE \<Longrightarrow> set (as_hash a ! h) = {y \<in> set (as_list a). ACL_HASH (acl_macaddr y) = h}"
    using wf by (simp_all add: acl_wf_def)
  have ex: "list_ex (\<lambda>x. acl_macaddr x = mac) (as_hash a ! ACL_HASH mac) \<longleftrightarrow> mac \<in> acl_members a"
    using d(3) [OF ACL_HASH_less, of mac] by (auto simp: list_ex_iff acl_members_def)
  show ?thesis
  proof (cases "mac \<in> acl_members a")
    case True
    with ex d(1) wf show ?thesis
      by (auto simp: acl_add_def acl_lock_def acl_unlock_def Let_def insert_absorb)
  next
    case False
    let ?x = "\<lparr>acl_id = i, acl_macaddr = mac\<rparr>"
    let ?b = "a\<lparr>as_list := as_list a @ [?x], as_hash := (as_hash a)[ACL_HASH mac := ?x # as_hash a ! ACL_HASH mac]\<rparr>"
    have hash: "set (as_hash ?b ! h) = {y \<in> set (as_list ?b). ACL_HASH (acl_macaddr y) = h}"
      if h: "h < ACL_HASHSIZE" for h
    proof (cases "h = ACL_HASH mac")
      case True
      have "as_hash ?b ! h = ?x # as_hash a ! h" using d(2) h True by simp
      then have "set (as_hash ?b ! h) = insert ?x {y \<in> set (as_list a). ACL_HASH (acl_macaddr y) = h}"
        using d(3) [OF h] by simp
      with True show ?thesis by auto
    next
      case False
      then have "as_hash ?b ! h = as_hash a ! h" by simp
      then have "set (as_hash ?b ! h) = {y \<in> set (as_list a). ACL_HASH (acl_macaddr y) = h}"
        using d(3) [OF h] by simp
      with False show ?thesis by auto
    qed
    have "acl_wf ?b"
    proof (unfold acl_wf_def, intro conjI allI impI)
      show "distinct (map acl_id (as_list ?b))" "distinct (map acl_macaddr (as_list ?b))"
        using wf fresh False by (simp_all add: acl_wf_def acl_members_def)
      show "\<not> as_locked ?b" "length (as_hash ?b) = ACL_HASHSIZE" using d(1,2) by simp_all
    qed (rule hash)
    moreover have "acl_add (Some i) a mac = Some (0, ?b)"
      using ex False d(1) by (simp add: acl_add_def acl_lock_def acl_unlock_def Let_def)
    ultimately show ?thesis using False by (auto simp: acl_members_def)
  qed
qed

lemma acl_remove_spec:
  assumes wf: "acl_wf a"
  shows "\<exists>b. acl_remove a mac = Some (if mac \<in> acl_members a then 0 else ENOENT, b) \<and> acl_wf b
    \<and> acl_members b = acl_members a - {mac} \<and> as_policy b = as_policy a"
proof -
  let ?l = "a\<lparr>as_locked := True\<rparr>"
  have nl: "\<not> as_locked a" using wf by (simp add: acl_wf_def)
  have fl: "find_acl ?l mac = find_acl a mac" by (simp add: find_acl_def)
  have same: "?l\<lparr>as_locked := False\<rparr> = a" using nl by simp
  show ?thesis
  proof (cases "find_acl a mac")
    case None
    then have "mac \<notin> acl_members a" using find_acl_iff [OF wf] by blast
    with None nl fl wf same show ?thesis by (auto simp: acl_remove_def acl_lock_def acl_unlock_def)
  next
    case (Some x)
    then have mem: "mac \<in> acl_members a" using find_acl_iff [OF wf] by blast
    have x: "x \<in> set (as_hash a ! ACL_HASH mac)" "acl_macaddr x = mac"
      using find_Some_in [OF Some [unfolded find_acl_def]] by auto
    then have xl: "x \<in> set (as_list a)" using wf ACL_HASH_less by (auto simp: acl_wf_def)
    obtain b where b: "acl_free ?l x = Some b" "acl_wf (b\<lparr>as_locked := False\<rparr>)"
      "set (as_list b) = set (as_list a) - {x}" "as_policy b = as_policy a"
      using acl_free_wf [of ?l x] wf xl same by auto
    have "distinct (map acl_macaddr (as_list a))" using wf by (simp add: acl_wf_def)
    then have "acl_members b = acl_members a - {mac}"
      using b(3) x(2) xl map_distinct_inj [of acl_macaddr "as_list a"] by (auto simp: acl_members_def)
    then have "acl_members (acl_unlock b) = acl_members a - {mac}" by (simp add: acl_members_def acl_unlock_def)
    moreover have "acl_remove a mac = Some (0, acl_unlock b)"
      using nl fl Some b(1) by (simp add: acl_remove_def acl_lock_def)
    ultimately show ?thesis using b(2,4) mem by (simp add: acl_unlock_def)
  qed
qed

section \<open>Properties\<close>

definition demo_mac :: "u8 \<Rightarrow> macaddr" where
  "demo_mac x = [0, 1, 2, 3, 4, x]"

definition demo_acl :: acl where
  "demo_acl = \<lparr>as_locked = False, as_policy = ACL_POLICY_DENY, as_list = [\<lparr>acl_id = 1, acl_macaddr = demo_mac 33\<rparr>],
     as_hash = (replicate 32 [])[1 := [\<lparr>acl_id = 1, acl_macaddr = demo_mac 33\<rparr>]]\<rparr>"

lemma demo_acl_wf: "acl_wf demo_acl"
  by (auto simp: acl_wf_def demo_acl_def ACL_HASHSIZE_def demo_mac_def ACL_HASH_def nth_list_update)

text \<open>C9: The access control list implements a set of addresses: adding an address reports
  \<open>EEXIST\<close> exactly when it is a member and makes it one; removing reports \<open>ENOENT\<close> exactly when
  it is not a member and makes it none; both keep list and hash chains consistent and return.\<close>

theorem acl_implements_set:
  assumes "acl_wf a" and "i \<notin> acl_id ` set (as_list a)"
  shows "(\<exists>b. acl_add (Some i) a mac = Some (if mac \<in> acl_members a then EEXIST else 0, b) \<and> acl_wf b
      \<and> acl_members b = insert mac (acl_members a) \<and> as_policy b = as_policy a)
    \<and> (\<exists>b. acl_remove a mac = Some (if mac \<in> acl_members a then 0 else ENOENT, b) \<and> acl_wf b
      \<and> acl_members b = acl_members a - {mac} \<and> as_policy b = as_policy a)
    \<and> (\<exists>b. acl_free_all a = Some (0, b) \<and> acl_wf b \<and> acl_members b = {} \<and> as_policy b = as_policy a)"
proof -
  let ?l = "a\<lparr>as_locked := True\<rparr>"
  have nl: "\<not> as_locked a" using assms(1) by (simp add: acl_wf_def)
  then have "?l\<lparr>as_locked := False\<rparr> = a" by simp
  then obtain b where "acl_free_loop ?l = Some b" "acl_wf (b\<lparr>as_locked := False\<rparr>)" "as_list b = []"
    "as_policy b = as_policy a"
    using acl_free_loop_empty [of ?l] assms(1) by auto
  then have "\<exists>b. acl_free_all a = Some (0, b) \<and> acl_wf b \<and> acl_members b = {} \<and> as_policy b = as_policy a"
    using nl by (simp add: acl_free_all_def acl_free_all_locked_def acl_lock_def acl_unlock_def acl_members_def)
  with acl_add_spec [OF assms] acl_remove_spec [OF assms(1)] show ?thesis by blast
qed

theorem acl_implements_set_witness:
  "\<exists>b. acl_add (Some 2) demo_acl (demo_mac 65) = Some (0, b) \<and> acl_members b = {demo_mac 65, demo_mac 33}"
proof -
  have "2 \<notin> acl_id ` set (as_list demo_acl)" "acl_members demo_acl = {demo_mac 33}" "demo_mac 65 \<noteq> demo_mac 33"
    by (simp_all add: demo_acl_def acl_members_def demo_mac_def)
  with acl_implements_set [OF demo_acl_wf, of 2 "demo_mac 65"] show ?thesis by auto
qed

text \<open>The check admits a station by policy: everybody when open, exactly the members when the
  policy is allow, exactly the others when it is deny, and nobody for any other value, which the
  policy setter never stores.\<close>

theorem acl_check_policy:
  assumes "acl_wf a"
  shows "(acl_check a mac \<longleftrightarrow> as_policy a = 0 \<or> (as_policy a = 1 \<and> mac \<in> acl_members a)
      \<or> (as_policy a = 2 \<and> mac \<notin> acl_members a))
    \<and> (as_policy a \<in> {0, 1, 2} \<longrightarrow> as_policy (snd (acl_setpolicy a p)) \<in> {0, 1, 2})"
  using find_acl_iff [OF assms, of mac]
  by (auto simp: acl_check_def acl_setpolicy_def ACL_POLICY_OPEN_def ACL_POLICY_ALLOW_def ACL_POLICY_DENY_def)

theorem acl_check_policy_witness: "\<not> acl_check demo_acl (demo_mac 33) \<and> acl_check demo_acl (demo_mac 1)"
  using acl_check_policy [OF demo_acl_wf, of "demo_mac 33"] acl_check_policy [OF demo_acl_wf, of "demo_mac 1"]
  by (simp add: demo_acl_def acl_members_def demo_mac_def ACL_POLICY_DENY_def)

text \<open>Detaching an access control list never returns: it takes the list's spin lock and calls
  the routine that takes it again.\<close>

theorem acl_detach_deadlocks: "acl_detach a = None"
  by (simp add: acl_detach_def acl_lock_def acl_free_all_locked_def)

end
