(* ===== verification/Pmksa.thy ===== *)
theory Pmksa
  imports Prelude
begin

text \<open>
  The cache of pairwise master key identifiers of \<^verbatim>\<open>wifi_mac_sae.c\<close>: sixteen entries that
  are looked up by their BSSID and a counter that names the entry the next new BSSID takes. The
  abstraction is a map from BSSIDs to identifiers. A BSSID is a list of six bytes and an
  identifier a list of sixteen, so \<open>memcmp\<close> is equality. \<open>None\<close> is an access past the array.
\<close>

section \<open>Data\<close>

definition MAXPMKID :: nat where "MAXPMKID = 16"
definition zero_mac :: macaddr where "zero_mac = replicate 6 0"

record aml_pmkid_cache =
  in_use :: u8
  bssid :: macaddr
  pmkid :: "u8 list"
  ssid :: "u8 list"
  ssid_octet :: u64
  ssid_length :: u16

record aml_pmk_list =
  pmkid_count :: u8
  pmkid_cache :: "aml_pmkid_cache list"

definition zero_entry :: aml_pmkid_cache where
  "zero_entry = \<lparr>in_use = 0, bssid = zero_mac, pmkid = replicate 16 0, ssid = replicate 33 0,
     ssid_octet = 0, ssid_length = 0\<rparr>"

definition zero_list :: aml_pmk_list where
  "zero_list = \<lparr>pmkid_count = 0, pmkid_cache = replicate MAXPMKID zero_entry\<rparr>"

section \<open>Operations\<close>

text \<open>The allocator clears the memory; its failure is reported as \<open>-1\<close> in an unsigned byte.\<close>

definition wifi_mac_pmkid_vattach :: "bool \<Rightarrow> u8 \<times> aml_pmk_list option" where
  "wifi_mac_pmkid_vattach alloc_ok = (if alloc_ok then (0, Some zero_list) else (-1, None))"

definition wifi_mac_pmkid_detach :: "aml_pmk_list option \<Rightarrow> aml_pmk_list option" where
  "wifi_mac_pmkid_detach l = None"

text \<open>The search loop all routines share: the first entry with the BSSID.\<close>

definition cache_find :: "aml_pmk_list \<Rightarrow> macaddr \<Rightarrow> nat option" where
  "cache_find l b = find (\<lambda>i. bssid (pmkid_cache l ! i) = b) [0..<MAXPMKID]"

definition bad_bssid :: "macaddr option \<Rightarrow> bool" where
  "bad_bssid b = (b = None \<or> b = Some zero_mac)"

definition aml_cfg80211_set_pmksa :: "aml_pmk_list \<Rightarrow> macaddr option \<Rightarrow> u8 list \<Rightarrow> (int \<times> aml_pmk_list) option" where
  "aml_cfg80211_set_pmksa l b p =
     (if bad_bssid b then Some (- EINVAL, l)
      else
        (case cache_find l (the b) of
           Some i \<Rightarrow>
             Some (0, l\<lparr>pmkid_cache := (pmkid_cache l)[i := (pmkid_cache l ! i)\<lparr>pmkid := p, in_use := 1\<rparr>],
                        pmkid_count := of_nat (i + 1)\<rparr>)
         | None \<Rightarrow>
             (case nth_opt (pmkid_cache l) (unat (pmkid_count l)) of
                None \<Rightarrow> None
              | Some e \<Rightarrow>
                  let l = l\<lparr>pmkid_cache := (pmkid_cache l)[unat (pmkid_count l) := e\<lparr>bssid := the b, pmkid := p, in_use := 1\<rparr>],
                            pmkid_count := pmkid_count l + 1\<rparr>
                  in Some (0, if pmkid_count l = 16 then l\<lparr>pmkid_count := 0\<rparr> else l))))"

definition aml_pmkid_cache_index :: "aml_pmk_list \<Rightarrow> macaddr option \<Rightarrow> int" where
  "aml_pmkid_cache_index l b =
     (if bad_bssid b then -1 else (case cache_find l (the b) of Some i \<Rightarrow> int i | None \<Rightarrow> -1))"

text \<open>\<open>pmksa\<close> is NULL or a structure that holds a BSSID pointer.\<close>

definition aml_cfg80211_del_pmksa :: "aml_pmk_list \<Rightarrow> macaddr option option \<Rightarrow> int \<times> aml_pmk_list" where
  "aml_cfg80211_del_pmksa l pmksa =
     (case pmksa of
        None \<Rightarrow> (-1, l)
      | Some b \<Rightarrow>
          if pmkid_count l = 0 then (0, l)
          else if bad_bssid b then (- EINVAL, l)
          else
            (case cache_find l (the b) of
               None \<Rightarrow> (- EINVAL, l)
             | Some i \<Rightarrow>
                 (0, l\<lparr>pmkid_cache := (pmkid_cache l)[i := (pmkid_cache l ! i)
                       \<lparr>bssid := replicate 6 0, pmkid := replicate 16 0, in_use := 0\<rparr>]\<rparr>)))"

definition aml_del_pmksa_by_index :: "aml_pmk_list \<Rightarrow> macaddr option \<Rightarrow> aml_pmk_list" where
  "aml_del_pmksa_by_index l b =
     (let i = aml_pmkid_cache_index l b in
      if i = -1 then l
      else l\<lparr>pmkid_cache := (pmkid_cache l)[nat i := (pmkid_cache l ! nat i)\<lparr>pmkid := replicate 16 0\<rparr>],
             pmkid_count := pmkid_count l - 1\<rparr>)"

definition aml_cfg80211_flush_pmksa :: "aml_pmk_list \<Rightarrow> int \<times> aml_pmk_list" where
  "aml_cfg80211_flush_pmksa l = (0, zero_list)"

section \<open>Invariant and abstraction\<close>

definition pm_wf :: "aml_pmk_list \<Rightarrow> bool" where
  "pm_wf l \<longleftrightarrow> length (pmkid_cache l) = MAXPMKID
     \<and> (\<forall>i < MAXPMKID. \<forall>j < MAXPMKID. bssid (pmkid_cache l ! i) = bssid (pmkid_cache l ! j)
          \<and> bssid (pmkid_cache l ! i) \<noteq> zero_mac \<longrightarrow> i = j)"

definition pm_map :: "aml_pmk_list \<Rightarrow> macaddr \<Rightarrow> u8 list option" where
  "pm_map l b = (if b = zero_mac then None else map_option (\<lambda>i. pmkid (pmkid_cache l ! i)) (cache_find l b))"

lemma cache_find_Some:
  assumes "cache_find l b = Some i"
  shows "i < MAXPMKID" and "bssid (pmkid_cache l ! i) = b"
  using assms by (auto simp: cache_find_def find_Some_iff)

lemma cache_find_None: "cache_find l b = None \<longleftrightarrow> (\<forall>i < MAXPMKID. bssid (pmkid_cache l ! i) \<noteq> b)"
  by (auto simp: cache_find_def find_None_iff)

lemma cache_find_eq:
  assumes "pm_wf l" "b \<noteq> zero_mac" "i < MAXPMKID" "bssid (pmkid_cache l ! i) = b"
  shows "cache_find l b = Some i"
proof (cases "cache_find l b")
  case None
  with assms show ?thesis by (simp add: cache_find_None)
next
  case (Some j)
  then have "j < MAXPMKID" "bssid (pmkid_cache l ! j) = b" by (rule cache_find_Some)+
  with assms Some show ?thesis by (auto simp: pm_wf_def)
qed

text \<open>Writing one entry changes the map only at the BSSID that leaves and the one that comes.\<close>

lemma pm_write:
  assumes wf: "pm_wf l" and i: "i < MAXPMKID"
    and l': "pmkid_cache l' = (pmkid_cache l)[i := e]"
    and new: "bssid e = zero_mac \<or> (\<forall>j < MAXPMKID. j \<noteq> i \<longrightarrow> bssid (pmkid_cache l ! j) \<noteq> bssid e)"
  shows "pm_wf l'" and "pm_map l' = (\<lambda>b. if b = zero_mac then None else if b = bssid e then Some (pmkid e)
      else if b = bssid (pmkid_cache l ! i) then None else pm_map l b)"
proof -
  have len: "length (pmkid_cache l) = MAXPMKID"
    and inj: "\<And>p q. p < MAXPMKID \<Longrightarrow> q < MAXPMKID \<Longrightarrow> bssid (pmkid_cache l ! p) = bssid (pmkid_cache l ! q) \<Longrightarrow>
      bssid (pmkid_cache l ! p) \<noteq> zero_mac \<Longrightarrow> p = q"
    using wf by (auto simp: pm_wf_def)
  have at: "pmkid_cache l' ! p = (if p = i then e else pmkid_cache l ! p)" if "p < MAXPMKID" for p
    using l' len that by (simp add: nth_list_update)
  show wf': "pm_wf l'"
    unfolding pm_wf_def
  proof (intro conjI allI impI)
    show "length (pmkid_cache l') = MAXPMKID" using l' len by simp
    fix p q assume pq: "p < MAXPMKID" "q < MAXPMKID"
      and eq: "bssid (pmkid_cache l' ! p) = bssid (pmkid_cache l' ! q) \<and> bssid (pmkid_cache l' ! p) \<noteq> zero_mac"
    show "p = q" using pq eq at [OF pq(1)] at [OF pq(2)] inj [OF pq] new by (auto split: if_splits)
  qed
  show "pm_map l' = (\<lambda>b. if b = zero_mac then None else if b = bssid e then Some (pmkid e)
      else if b = bssid (pmkid_cache l ! i) then None else pm_map l b)"
  proof
    fix b
    consider "b = zero_mac" | "b \<noteq> zero_mac" "b = bssid e"
      | j where "b \<noteq> zero_mac" "b \<noteq> bssid e" "j < MAXPMKID" "bssid (pmkid_cache l ! j) = b"
      | "b \<noteq> zero_mac" "b \<noteq> bssid e" "\<forall>j < MAXPMKID. bssid (pmkid_cache l ! j) \<noteq> b" by blast
    then show "pm_map l' b = (if b = zero_mac then None else if b = bssid e then Some (pmkid e)
      else if b = bssid (pmkid_cache l ! i) then None else pm_map l b)"
    proof cases
      case 2
      then have "cache_find l' b = Some i" using cache_find_eq [OF wf' 2(1) i] at [OF i] by simp
      with 2 at [OF i] show ?thesis by (simp add: pm_map_def)
    next
      case (3 j)
      show ?thesis
      proof (cases "j = i")
        case True
        have "\<forall>p < MAXPMKID. bssid (pmkid_cache l' ! p) \<noteq> b"
          using at 3 True inj by (metis (no_types, lifting))
        with 3 True show ?thesis by (simp add: pm_map_def cache_find_None [symmetric])
      next
        case False
        then have "cache_find l' b = Some j" using cache_find_eq [OF wf' 3(1,3)] at [OF 3(3)] 3(4) by simp
        moreover have "b \<noteq> bssid (pmkid_cache l ! i)" using inj [OF 3(3) i] 3(1,4) False by auto
        ultimately show ?thesis using 3 False at [OF 3(3)] cache_find_eq [OF wf 3(1,3,4)] by (simp add: pm_map_def)
      qed
    next
      case 4
      then have "cache_find l b = None" by (simp add: cache_find_None)
      moreover have "cache_find l' b = None" using 4 at by (simp add: cache_find_None)
      ultimately show ?thesis using 4 by (simp add: pm_map_def)
    qed (simp add: pm_map_def)
  qed
qed

lemma pm_map_None: "b \<noteq> zero_mac \<Longrightarrow> pm_map l b = None \<longleftrightarrow> cache_find l b = None"
  by (simp add: pm_map_def)

lemma set_pmksa_spec:
  assumes wf: "pm_wf l" and b: "b \<noteq> zero_mac" and c: "unat (pmkid_count l) < MAXPMKID"
  shows "\<exists>l'. aml_cfg80211_set_pmksa l (Some b) p = Some (0, l') \<and> pm_wf l'
    \<and> pm_map l' = (if pm_map l b = None then (pm_map l)(bssid (pmkid_cache l ! unat (pmkid_count l)) := None) else pm_map l)(b \<mapsto> p)
    \<and> unat (pmkid_count l') = (case cache_find l b of Some i \<Rightarrow> i + 1 | None \<Rightarrow> (unat (pmkid_count l) + 1) mod MAXPMKID)"
proof (cases "cache_find l b")
  case (Some i)
  note i = cache_find_Some [OF Some]
  let ?e = "(pmkid_cache l ! i)\<lparr>pmkid := p, in_use := 1\<rparr>"
  let ?l = "l\<lparr>pmkid_cache := (pmkid_cache l)[i := ?e], pmkid_count := of_nat (i + 1)\<rparr>"
  have inj: "\<forall>j < MAXPMKID. j \<noteq> i \<longrightarrow> bssid (pmkid_cache l ! j) \<noteq> bssid ?e"
    using wf i b by (simp add: pm_wf_def) metis
  have w: "pm_wf ?l" "pm_map ?l = (\<lambda>x. if x = zero_mac then None else if x = bssid ?e then Some (pmkid ?e)
      else if x = bssid (pmkid_cache l ! i) then None else pm_map l x)"
    using pm_write [OF wf i(1), of ?l ?e] inj by simp_all
  have "pm_map ?l = (pm_map l)(b \<mapsto> p)" using w(2) i(2) b by (auto simp: pm_map_def fun_eq_iff)
  moreover have "unat (of_nat (i + 1) :: u8) = i + 1" using i(1)
    by (simp add: MAXPMKID_def unat_of_nat take_bit_nat_eq_self del: of_nat_Suc of_nat_add)
  moreover obtain q where "pm_map l b = Some q" using Some b by (auto simp: pm_map_def)
  ultimately show ?thesis using Some w(1) b by (simp add: aml_cfg80211_set_pmksa_def bad_bssid_def)
next
  case None
  define c' where "c' = unat (pmkid_count l)"
  have ci: "c' < MAXPMKID" using c by (simp add: c'_def)
  have len: "length (pmkid_cache l) = MAXPMKID" using wf by (simp add: pm_wf_def)
  let ?e = "(pmkid_cache l ! c')\<lparr>bssid := b, pmkid := p, in_use := 1\<rparr>"
  define l' where "l' = (let l = l\<lparr>pmkid_cache := (pmkid_cache l)[c' := ?e], pmkid_count := pmkid_count l + 1\<rparr>
    in if pmkid_count l = 16 then l\<lparr>pmkid_count := 0\<rparr> else l)"
  have l'c: "pmkid_cache l' = (pmkid_cache l)[c' := ?e]" by (simp add: l'_def Let_def)
  have new: "\<forall>j < MAXPMKID. j \<noteq> c' \<longrightarrow> bssid (pmkid_cache l ! j) \<noteq> bssid ?e"
    using None by (simp add: cache_find_None)
  have w: "pm_wf l'" "pm_map l' = (\<lambda>x. if x = zero_mac then None else if x = bssid ?e then Some (pmkid ?e)
      else if x = bssid (pmkid_cache l ! c') then None else pm_map l x)"
    using pm_write [OF wf ci l'c] new by simp_all
  have nb: "pm_map l b = None" using None b by (simp add: pm_map_def)
  have "pm_map l' = ((pm_map l)(bssid (pmkid_cache l ! c') := None))(b \<mapsto> p)"
    using w(2) b by (auto simp: pm_map_def fun_eq_iff)
  moreover have "unat (pmkid_count l') = (c' + 1) mod MAXPMKID"
  proof -
    have u: "unat (pmkid_count l + 1) = c' + 1" using ci
      by (simp add: unat_word_ariths c'_def MAXPMKID_def)
    show ?thesis
    proof (cases "pmkid_count l + 1 = 16")
      case True
      then show ?thesis using u by (simp add: l'_def Let_def MAXPMKID_def)
    next
      case False
      then have "unat (pmkid_count l + 1) \<noteq> unat (16 :: u8)" unfolding word_unat_eq_iff .
      then have "c' + 1 \<noteq> 16" using u by simp
      with False u ci show ?thesis by (simp add: l'_def Let_def MAXPMKID_def)
    qed
  qed
  moreover have "aml_cfg80211_set_pmksa l (Some b) p = Some (0, l')"
    using None b ci len by (simp add: aml_cfg80211_set_pmksa_def bad_bssid_def l'_def c'_def Let_def)
  ultimately show ?thesis using w(1) nb None by (simp add: c'_def)
qed

lemma zero_list_wf: "pm_wf zero_list" "pm_map zero_list = Map.empty" "pmkid_count zero_list = 0"
  by (auto simp: pm_wf_def zero_list_def zero_entry_def pm_map_def cache_find_None fun_eq_iff)

section \<open>Properties\<close>

definition demo_bssid :: "u8 \<Rightarrow> macaddr" where
  "demo_bssid x = [2, 0, 0, 0, 0, x]"

definition demo_id :: "u8 \<Rightarrow> u8 list" where
  "demo_id x = replicate 16 x"

definition demo_list_del :: aml_pmk_list where
  "demo_list_del = \<lparr>pmkid_count = 1, pmkid_cache = (replicate 16 zero_entry)[15 := zero_entry\<lparr>bssid := demo_bssid 1\<rparr>]\<rparr>"

lemma demo_bssid_nz [simp]: "demo_bssid x \<noteq> zero_mac"
  by (simp add: demo_bssid_def zero_mac_def numeral_eq_Suc)

text \<open>While the counter is in range, storing an identifier for a BSSID succeeds, keeps the BSSIDs
  distinct and updates the map at that BSSID; a new BSSID displaces the one in the entry the
  counter names and advances the counter round the array, a known one sets it behind its entry.\<close>

theorem pmksa_set_updates:
  assumes "pm_wf l" and "b \<noteq> zero_mac" and "unat (pmkid_count l) < MAXPMKID"
  shows "\<exists>l'. aml_cfg80211_set_pmksa l (Some b) p = Some (0, l') \<and> pm_wf l'
    \<and> pm_map l' = (if pm_map l b = None then (pm_map l)(bssid (pmkid_cache l ! unat (pmkid_count l)) := None) else pm_map l)(b \<mapsto> p)
    \<and> unat (pmkid_count l') = (case cache_find l b of Some i \<Rightarrow> i + 1 | None \<Rightarrow> (unat (pmkid_count l) + 1) mod MAXPMKID)"
  by (rule set_pmksa_spec [OF assms])

theorem pmksa_set_updates_witness:
  "\<exists>l'. aml_cfg80211_set_pmksa zero_list (Some (demo_bssid 1)) (demo_id 7) = Some (0, l') \<and> pm_map l' (demo_bssid 1) = Some (demo_id 7)"
  using pmksa_set_updates [OF zero_list_wf(1) demo_bssid_nz, of 1 "demo_id 7"]
  by (auto simp: zero_list_wf(3) MAXPMKID_def)

text \<open>While the counter is not zero, deleting a BSSID succeeds exactly when it is cached and then
  removes it from the map and nothing else.\<close>

theorem pmksa_del_removes:
  assumes wf: "pm_wf l" and b: "b \<noteq> zero_mac" and c: "pmkid_count l \<noteq> 0"
  shows "\<exists>l'. aml_cfg80211_del_pmksa l (Some (Some b)) = (if b \<in> dom (pm_map l) then 0 else - EINVAL, l')
    \<and> pm_wf l' \<and> pm_map l' = (pm_map l)(b := None) \<and> pmkid_count l' = pmkid_count l"
proof (cases "cache_find l b")
  case None
  with b have "pm_map l b = None" by (simp add: pm_map_def)
  with None b c wf show ?thesis by (auto simp: aml_cfg80211_del_pmksa_def bad_bssid_def fun_upd_idem domIff)
next
  case (Some i)
  note i = cache_find_Some [OF Some]
  let ?e = "(pmkid_cache l ! i)\<lparr>bssid := replicate 6 0, pmkid := replicate 16 0, in_use := 0\<rparr>"
  let ?l = "l\<lparr>pmkid_cache := (pmkid_cache l)[i := ?e]\<rparr>"
  have w: "pm_wf ?l" "pm_map ?l = (\<lambda>x. if x = zero_mac then None else if x = bssid ?e then Some (pmkid ?e)
      else if x = bssid (pmkid_cache l ! i) then None else pm_map l x)"
    using pm_write [OF wf i(1), of ?l ?e] by (simp_all add: zero_mac_def)
  have "pm_map ?l = (pm_map l)(b := None)" using w(2) i(2) b by (auto simp: pm_map_def fun_eq_iff zero_mac_def)
  moreover have "b \<in> dom (pm_map l)" using Some b by (simp add: pm_map_def domIff)
  ultimately show ?thesis using Some w(1) b c by (simp add: aml_cfg80211_del_pmksa_def bad_bssid_def)
qed

theorem pmksa_del_removes_witness:
  "\<exists>l'. aml_cfg80211_del_pmksa demo_list_del (Some (Some (demo_bssid 1))) = (0, l') \<and> pm_map l' (demo_bssid 1) = None"
proof -
  have wf: "pm_wf demo_list_del"
    by (auto simp: pm_wf_def demo_list_del_def zero_entry_def MAXPMKID_def nth_list_update split: if_splits)
  have "cache_find demo_list_del (demo_bssid 1) = Some 15"
    by (rule cache_find_eq [OF wf demo_bssid_nz]) (simp_all add: demo_list_del_def MAXPMKID_def)
  then have "demo_bssid 1 \<in> dom (pm_map demo_list_del)" by (simp add: pm_map_def domIff)
  moreover have "pmkid_count demo_list_del \<noteq> 0" by (simp add: demo_list_del_def)
  ultimately show ?thesis using pmksa_del_removes [OF wf demo_bssid_nz, of 1] by auto
qed

fun pm_fill :: "(macaddr \<times> u8 list) list \<Rightarrow> aml_pmk_list \<Rightarrow> aml_pmk_list option" where
  "pm_fill [] l = Some l"
| "pm_fill ((b, p) # xs) l =
     (case aml_cfg80211_set_pmksa l (Some b) p of None \<Rightarrow> None | Some (_, l) \<Rightarrow> pm_fill xs l)"

lemma pm_fill_spec:
  assumes "pm_wf l" and "unat (pmkid_count l) + length xs \<le> MAXPMKID" and "xs \<noteq> []"
    and "distinct (map fst xs)" and "zero_mac \<notin> fst ` set xs" and "\<forall>x \<in> set xs. pm_map l (fst x) = None"
    and "\<forall>j < MAXPMKID. unat (pmkid_count l) \<le> j \<longrightarrow> bssid (pmkid_cache l ! j) = zero_mac"
  shows "\<exists>l'. pm_fill xs l = Some l' \<and> pm_wf l' \<and> pm_map l' = pm_map l ++ map_of xs
    \<and> unat (pmkid_count l') = (unat (pmkid_count l) + length xs) mod MAXPMKID"
  using assms
proof (induction xs arbitrary: l)
  case (Cons x xs)
  obtain b p where x: "x = (b, p)" by fastforce
  let ?c = "unat (pmkid_count l)"
  have c: "?c < MAXPMKID" and b: "b \<noteq> zero_mac" and nb: "pm_map l b = None"
    using Cons.prems(2,5,6) x by auto
  have none: "cache_find l b = None" using nb b by (simp add: pm_map_None)
  have z: "bssid (pmkid_cache l ! ?c) = zero_mac" using Cons.prems(7) c by simp
  obtain l' where l': "aml_cfg80211_set_pmksa l (Some b) p = Some (0, l')" "pm_wf l'"
      "pm_map l' = (pm_map l)(zero_mac := None, b \<mapsto> p)" "unat (pmkid_count l') = (?c + 1) mod MAXPMKID"
    using set_pmksa_spec [OF Cons.prems(1) b c, of p] nb none z by auto
  have "pm_map l zero_mac = None" by (simp add: pm_map_def)
  then have m: "pm_map l' = (pm_map l)(b \<mapsto> p)" using l'(3) by (simp add: fun_upd_idem)
  have cache: "pmkid_cache l' ! j = pmkid_cache l ! j" if "j \<noteq> ?c" for j
    using l'(1) none b that c
    by (auto simp: aml_cfg80211_set_pmksa_def bad_bssid_def nth_opt_def Let_def split: if_splits)
  show ?case
  proof (cases "xs = []")
    case True
    have "pm_map l' = pm_map l ++ map_of (x # xs)" unfolding True x m by simp
    moreover have "pm_fill (x # xs) l = Some l'" using l'(1) x True by simp
    moreover have "unat (pmkid_count l') = (?c + length (x # xs)) mod MAXPMKID" using l'(4) True by simp
    ultimately show ?thesis using l'(2) by blast
  next
    case False
    then have "?c + 1 < MAXPMKID" using Cons.prems(2) by (cases xs) auto
    then have c': "unat (pmkid_count l') = ?c + 1" using l'(4) by simp
    have rest: "distinct (map fst xs)" "zero_mac \<notin> fst ` set xs" "\<forall>y \<in> set xs. pm_map l' (fst y) = None"
      "unat (pmkid_count l') + length xs \<le> MAXPMKID"
      "\<forall>j < MAXPMKID. unat (pmkid_count l') \<le> j \<longrightarrow> bssid (pmkid_cache l' ! j) = zero_mac"
      using Cons.prems(2,4-7) x m c' cache by (auto simp: image_iff)
    from Cons.IH [OF l'(2) rest(4) False rest(1,2,3,5)]
    obtain l'' where l'': "pm_fill xs l' = Some l''" "pm_wf l''" "pm_map l'' = pm_map l' ++ map_of xs"
      "unat (pmkid_count l'') = (unat (pmkid_count l') + length xs) mod MAXPMKID" by blast
    have "b \<notin> fst ` set xs" using Cons.prems(4) x by simp
    then have "map_of xs b = None" by (simp add: map_of_eq_None_iff)
    then have "pm_map l' ++ map_of xs = pm_map l ++ map_of (x # xs)"
      by (auto simp: m x fun_eq_iff map_add_def split: option.splits)
    with l''(3) have "pm_map l'' = pm_map l ++ map_of (x # xs)" by (simp only:)
    moreover have "pm_fill (x # xs) l = Some l''" using l'(1) l''(1) x by simp
    moreover have "unat (pmkid_count l'') = (?c + length (x # xs)) mod MAXPMKID" using l''(4) c' by simp
    ultimately show ?thesis using l''(2) by blast
  qed
qed simp

lemma pmkid_count_0: "unat (c :: u8) = 0 \<longleftrightarrow> c = 0"
  by (simp add: unat_eq_0)

text \<open>A full cache cannot be emptied entry by entry: after sixteen new BSSIDs the counter is back
  at zero, all sixteen are cached, and every deletion reports success without deleting.\<close>

theorem pmksa_full_undeletable:
  assumes "length xs = 16" and "distinct (map fst xs)" and "zero_mac \<notin> fst ` set xs"
  shows "\<exists>l. pm_fill xs zero_list = Some l \<and> pmkid_count l = 0 \<and> pm_map l = map_of xs
    \<and> (\<forall>b. aml_cfg80211_del_pmksa l (Some b) = (0, l))"
proof -
  have "\<forall>j < MAXPMKID. unat (pmkid_count zero_list) \<le> j \<longrightarrow> bssid (pmkid_cache zero_list ! j) = zero_mac"
    by (simp add: zero_list_def zero_entry_def)
  moreover have "xs \<noteq> []" using assms(1) by auto
  ultimately obtain l where "pm_fill xs zero_list = Some l" "pm_map l = map_of xs" "pmkid_count l = 0"
    using pm_fill_spec [of zero_list xs] assms zero_list_wf
    by (auto simp: MAXPMKID_def pmkid_count_0)
  then show ?thesis by (simp add: aml_cfg80211_del_pmksa_def)
qed

theorem pmksa_full_undeletable_witness:
  "\<exists>l. pm_fill (map (\<lambda>i. (demo_bssid (of_nat i), demo_id (of_nat i))) [0..<16]) zero_list = Some l
    \<and> aml_cfg80211_del_pmksa l (Some (Some (demo_bssid 3))) = (0, l)"
proof -
  let ?xs = "map (\<lambda>i. (demo_bssid (of_nat i), demo_id (of_nat i))) [0..<16]"
  have inj: "(of_nat i :: u8) = of_nat j \<longleftrightarrow> i = j" if "i < 16" "j < 16" for i j
    using that by (simp add: word_unat_eq_iff unat_of_nat take_bit_nat_eq_self)
  have "distinct (map fst ?xs)"
    by (auto simp: distinct_map inj_on_def demo_bssid_def inj comp_def)
  moreover have "zero_mac \<notin> fst ` set ?xs" using demo_bssid_nz [symmetric] by (auto simp: image_iff)
  ultimately have "distinct (map fst ?xs)" "zero_mac \<notin> fst ` set ?xs" by blast+
  with pmksa_full_undeletable [of ?xs] show ?thesis by auto
qed

text \<open>Renewing the last entry leaves the counter one past the array: the next new BSSID is written
  out of bounds.\<close>

theorem pmksa_renew_last_overflows:
  assumes wf: "pm_wf l" and i: "cache_find l b = Some 15" and b: "b \<noteq> zero_mac"
    and new: "pm_map l b' = None" "b' \<noteq> zero_mac"
  shows "\<exists>l'. aml_cfg80211_set_pmksa l (Some b) p = Some (0, l')
    \<and> aml_cfg80211_set_pmksa l' (Some b') p' = None"
proof -
  let ?l = "l\<lparr>pmkid_cache := (pmkid_cache l)[15 := (pmkid_cache l ! 15)\<lparr>pmkid := p, in_use := 1\<rparr>], pmkid_count := 16\<rparr>"
  have len: "length (pmkid_cache l) = 16" using wf by (simp add: pm_wf_def MAXPMKID_def)
  have "cache_find l b' = None" using new by (simp add: pm_map_None)
  then have "cache_find ?l b' = None"
    using len by (auto simp: cache_find_None nth_list_update)
  then have "aml_cfg80211_set_pmksa ?l (Some b') p' = None"
    using new(2) len by (simp add: aml_cfg80211_set_pmksa_def bad_bssid_def)
  moreover have "aml_cfg80211_set_pmksa l (Some b) p = Some (0, ?l)"
    using i b by (simp add: aml_cfg80211_set_pmksa_def bad_bssid_def)
  ultimately show ?thesis by blast
qed

definition demo_list15 :: aml_pmk_list where
  "demo_list15 = zero_list\<lparr>pmkid_cache := (replicate 16 zero_entry)[15 := zero_entry\<lparr>bssid := demo_bssid 1\<rparr>]\<rparr>"

theorem pmksa_renew_last_overflows_witness:
  "\<exists>l'. aml_cfg80211_set_pmksa demo_list15 (Some (demo_bssid 1)) (demo_id 1) = Some (0, l')
    \<and> aml_cfg80211_set_pmksa l' (Some (demo_bssid 2)) (demo_id 2) = None"
proof -
  have wf: "pm_wf demo_list15"
    by (auto simp: pm_wf_def demo_list15_def zero_entry_def MAXPMKID_def nth_list_update split: if_splits)
  have f: "cache_find demo_list15 (demo_bssid 1) = Some 15"
    by (rule cache_find_eq [OF wf demo_bssid_nz]) (simp_all add: demo_list15_def MAXPMKID_def)
  have "demo_bssid 1 \<noteq> demo_bssid 2" by (simp add: demo_bssid_def)
  then have "cache_find demo_list15 (demo_bssid 2) = None"
    using demo_bssid_nz [of 2, symmetric] by (auto simp: cache_find_None demo_list15_def zero_entry_def MAXPMKID_def nth_list_update)
  then have "pm_map demo_list15 (demo_bssid 2) = None" by (simp add: pm_map_def)
  from pmksa_renew_last_overflows [OF wf f demo_bssid_nz this demo_bssid_nz] show ?thesis by blast
qed

text \<open>Invalidating an entry by BSSID leaves the BSSID in the cache with an identifier of zero
  bytes, so later look-ups still find it, and takes the counter down, from zero to 255.\<close>

theorem pmksa_del_by_index_stale:
  assumes wf: "pm_wf l" and b: "b \<in> dom (pm_map l)"
  shows "pm_map (aml_del_pmksa_by_index l (Some b)) = (pm_map l)(b \<mapsto> replicate 16 0)
    \<and> aml_pmkid_cache_index (aml_del_pmksa_by_index l (Some b)) (Some b) = aml_pmkid_cache_index l (Some b)
    \<and> pmkid_count (aml_del_pmksa_by_index l (Some b)) = pmkid_count l - 1"
proof -
  have nz: "b \<noteq> zero_mac" and "cache_find l b \<noteq> None" using b by (auto simp: pm_map_def split: if_splits)
  then obtain i where f: "cache_find l b = Some i" by auto
  note i = cache_find_Some [OF f]
  let ?e = "(pmkid_cache l ! i)\<lparr>pmkid := replicate 16 0\<rparr>"
  let ?l = "l\<lparr>pmkid_cache := (pmkid_cache l)[i := ?e], pmkid_count := pmkid_count l - 1\<rparr>"
  have d: "aml_del_pmksa_by_index l (Some b) = ?l"
    using f nz by (simp add: aml_del_pmksa_by_index_def aml_pmkid_cache_index_def bad_bssid_def)
  have inj: "\<forall>j < MAXPMKID. j \<noteq> i \<longrightarrow> bssid (pmkid_cache l ! j) \<noteq> bssid ?e"
    using wf i nz by (simp add: pm_wf_def) metis
  have w: "pm_wf ?l" "pm_map ?l = (\<lambda>x. if x = zero_mac then None else if x = bssid ?e then Some (pmkid ?e)
      else if x = bssid (pmkid_cache l ! i) then None else pm_map l x)"
    using pm_write [OF wf i(1), of ?l ?e] inj by simp_all
  have "pm_map ?l = (pm_map l)(b \<mapsto> replicate 16 0)" using w(2) i(2) nz by (auto simp: pm_map_def fun_eq_iff)
  moreover have "cache_find ?l b = Some i"
    using wf i by (intro cache_find_eq [OF w(1) nz i(1)]) (simp add: pm_wf_def)
  ultimately show ?thesis unfolding d using f nz by (simp add: aml_pmkid_cache_index_def bad_bssid_def)
qed

theorem pmksa_del_by_index_stale_witness:
  "pmkid_count (aml_del_pmksa_by_index demo_list15 (Some (demo_bssid 1))) = 255"
proof -
  have wf: "pm_wf demo_list15"
    by (auto simp: pm_wf_def demo_list15_def zero_entry_def MAXPMKID_def nth_list_update split: if_splits)
  have "cache_find demo_list15 (demo_bssid 1) = Some 15"
    by (rule cache_find_eq [OF wf demo_bssid_nz]) (simp_all add: demo_list15_def MAXPMKID_def)
  then have "demo_bssid 1 \<in> dom (pm_map demo_list15)" by (simp add: pm_map_def domIff)
  from pmksa_del_by_index_stale [OF wf this] show ?thesis by (simp add: demo_list15_def zero_list_def)
qed

end
