(* ===== verification/WorkQueue.thy ===== *)
theory WorkQueue
  imports SharedFifo
begin

text \<open>
  The deferred work queue of \<^verbatim>\<open>wifi_drv_if.c\<close>: a pool of 100 work items under a shared FIFO with two
  blocks, a producer (any thread) and a consumer (the task). The item memory is a function from
  element addresses, so reading an element while it is held by the consumer sees what the producer
  wrote unless the slot were handed out twice. Handlers are addresses (0 is NULL); what a handler
  does is a parameter: it is recorded in the log and queues the items \<open>adds\<close> gives for it.
  The queue is a client of the locale \<open>slot_channel\<close> through its interpretation \<open>sf\<close>.
\<close>

section \<open>Data\<close>

definition CO_WORK_GET :: u8 where "CO_WORK_GET = 0"
definition CO_WORK_FREE :: u8 where "CO_WORK_FREE = 1"
definition WORK_ITEM_NUM :: u32 where "WORK_ITEM_NUM = 100"
definition CO_SF_WORK_NBR :: u8 where "CO_SF_WORK_NBR = 2"
definition sizeof_hal_work_task :: u32 where "sizeof_hal_work_task = 56"

record hal_work_task =
  task :: u64
  taskcallback :: u64
  params :: "u64 list"

record wq =
  WorkFifo :: shared_fifo
  wq_mem :: "u64 \<Rightarrow> hal_work_task"
  WorkFifo_task_id :: int
  task_p :: u64
  task_repeat :: u8
  wq_calls :: nat
  wq_log :: "(u64 \<times> u64 list) list"

section \<open>Operations\<close>

text \<open>\<open>res\<close> is the answer of the registration.\<close>

definition drv_hal_workitem_inital :: "u64 \<Rightarrow> int \<Rightarrow> wq \<Rightarrow> (int \<times> wq) option" where
  "drv_hal_workitem_inital buf res s =
     (case CO_SharedFifoInit (WorkFifo s) buf buf WORK_ITEM_NUM sizeof_hal_work_task CO_SF_WORK_NBR of
        None \<Rightarrow> None
      | Some f \<Rightarrow>
          let s = s\<lparr>WorkFifo := f\<rparr> in
          Some (0, if res < 0 then s else s\<lparr>WorkFifo_task_id := res\<rparr>))"

text \<open>The repeat counter only triggers a message.\<close>

definition count_repeat :: "u8 \<Rightarrow> u64 \<Rightarrow> wq \<Rightarrow> wq" where
  "count_repeat left_count t s =
     (if left_count < 50 \<and> task_p s = t
      then let r = task_repeat s + 1 in s\<lparr>task_repeat := if r mod 10 = 0 then 0 else r\<rparr>
      else s\<lparr>task_repeat := 0\<rparr>)"

definition drv_hal_add_workitem :: "hal_work_task \<Rightarrow> wq \<Rightarrow> (int \<times> wq) option" where
  "drv_hal_add_workitem t s =
     (case CO_SharedFifoNbEltCont (WorkFifo s) CO_WORK_GET of
        None \<Rightarrow> None
      | Some n \<Rightarrow>
        (case CO_SharedFifoGet (WorkFifo s) CO_WORK_GET 1 of
           None \<Rightarrow> None
         | Some (_, p, f) \<Rightarrow>
             let s = count_repeat (ucast n) (task t) (s\<lparr>WorkFifo := f\<rparr>) in
             if p \<noteq> 0 then
               let s = s\<lparr>wq_mem := (wq_mem s)(p := t), task_p := task t\<rparr> in
               (case CO_SharedFifoPut (WorkFifo s) CO_WORK_GET 1 of
                  None \<Rightarrow> None
                | Some (_, f) \<Rightarrow> Some (0, s\<lparr>WorkFifo := f, wq_calls := wq_calls s + 1\<rparr>))
             else Some (0, s)))"

text \<open>A handler: it is logged and queues its items, one after the other.\<close>

fun add_all :: "hal_work_task list \<Rightarrow> wq \<Rightarrow> wq option" where
  "add_all [] s = Some s"
| "add_all (t # ts) s = (case drv_hal_add_workitem t s of None \<Rightarrow> None | Some (_, s) \<Rightarrow> add_all ts s)"

definition run_handler :: "(u64 \<Rightarrow> u64 list \<Rightarrow> hal_work_task list) \<Rightarrow> u64 \<Rightarrow> u64 list \<Rightarrow> wq \<Rightarrow> wq option" where
  "run_handler adds h ps s =
     (if h = 0 then Some s else add_all (adds h ps) (s\<lparr>wq_log := wq_log s @ [(h, ps)]\<rparr>))"

text \<open>The item is read from memory before each of its two calls.\<close>

partial_function (option) drv_hal_workitem_task ::
    "(u64 \<Rightarrow> u64 list \<Rightarrow> hal_work_task list) \<Rightarrow> wq \<Rightarrow> wq option" where
  "drv_hal_workitem_task adds s =
     (case CO_SharedFifoEmpty (WorkFifo s) CO_WORK_FREE of
        None \<Rightarrow> None
      | Some ne \<Rightarrow>
        if \<not> ne then Some s
        else
          (case CO_SharedFifoGet (WorkFifo s) CO_WORK_FREE 1 of
             None \<Rightarrow> None
           | Some r \<Rightarrow>
               if fst (snd r) = 0 then None
               else
                 (case run_handler adds (task (wq_mem s (fst (snd r)))) (params (wq_mem s (fst (snd r)))) (s\<lparr>WorkFifo := snd (snd r)\<rparr>) of
                    None \<Rightarrow> None
                  | Some s1 \<Rightarrow>
                    (case run_handler adds (taskcallback (wq_mem s1 (fst (snd r)))) (params (wq_mem s1 (fst (snd r)))) s1 of
                       None \<Rightarrow> None
                     | Some s2 \<Rightarrow>
                       (case CO_SharedFifoPut (WorkFifo s2) CO_WORK_FREE 1 of
                          None \<Rightarrow> None
                        | Some q \<Rightarrow> drv_hal_workitem_task adds (s2\<lparr>WorkFifo := snd q\<rparr>))))))"

section \<open>The queue as a channel of slots\<close>

text \<open>\<open>h\<close> is the number of items the consumer holds. The buffer does not contain address 0 and does
  not wrap round the address space.\<close>

definition wq_chan :: "nat \<Rightarrow> wq \<Rightarrow> sf_sys" where
  "wq_chan h s = \<lparr>fifo = WorkFifo s, held = (\<lambda>_. 0)(1 := h)\<rparr>"

definition wq_ok :: "nat \<Rightarrow> wq \<Rightarrow> bool" where
  "wq_ok h s \<longleftrightarrow> chan_ok (wq_chan h s) \<and> EltNbr (WorkFifo s) = 100 \<and> EltSize (WorkFifo s) = 56
     \<and> 0 < unat (EltBasePtr (WorkFifo s)) \<and> unat (EltBasePtr (WorkFifo s)) + 5600 < 2 ^ 64"

definition pending :: "nat \<Rightarrow> wq \<Rightarrow> hal_work_task list" where
  "pending h s = map (wq_mem s) (chan_used (wq_chan h s))"

definition running :: "nat \<Rightarrow> wq \<Rightarrow> hal_work_task list" where
  "running h s = map (wq_mem s) (chan_busy (wq_chan h s))"

lemma chan_ptr_nz:
  assumes ok: "wq_ok h s" and i: "i < 100"
  shows "chan_ptr (wq_chan h s) i \<noteq> 0"
proof -
  let ?b = "EltBasePtr (WorkFifo s)"
  have b: "0 < unat ?b" "unat ?b + 5600 < 2 ^ 64" "EltSize (WorkFifo s) = 56" using ok by (simp_all add: wq_ok_def)
  have u: "unat (of_nat i * 56 :: u32) = i * 56" using i by (simp add: unat_word_ariths unat_of_nat)
  have "unat (?b + ucast (of_nat i * 56 :: u32)) = unat ?b + i * 56"
    using b i u by (simp add: unat_word_ariths unat_ucast_up)
  then have "unat (chan_ptr (wq_chan h s) i) > 0"
    using b by (simp add: chan_ptr_def CO_SharedFifoGetPtr_def wq_chan_def)
  then show ?thesis by auto
qed

lemma chan_slots_nz:
  assumes ok: "wq_ok h s" and p: "p \<in> set (chan_busy (wq_chan h s) @ chan_used (wq_chan h s) @ chan_free (wq_chan h s))"
  shows "p \<noteq> 0"
proof -
  let ?c = "wq_chan h s"
  have c: "chan_ok ?c" and n: "sf_n ?c = 100" using ok by (simp_all add: wq_ok_def wq_chan_def)
  have inv: "sf_inv ?c" using c by (simp add: chan_ok_def)
  obtain i where "p = chan_ptr ?c i" "i \<in> set (sf_pool (sf_k ?c) (sf_abs_of ?c))"
    using p by (auto simp: chan_pool [OF c] chan_busy_def chan_used_def chan_free_def)
  with sf_pool_partition(2) [OF inv] n chan_ptr_nz [OF ok] show ?thesis by auto
qed

lemma fifo_frame:
  "CO_SharedFifoGet f b n = Some (st, p, f') \<Longrightarrow> EltNbr f' = EltNbr f \<and> EltSize f' = EltSize f \<and> EltBasePtr f' = EltBasePtr f"
  "CO_SharedFifoPut f b n = Some (st', f') \<Longrightarrow> EltNbr f' = EltNbr f \<and> EltSize f' = EltSize f \<and> EltBasePtr f' = EltBasePtr f"
  by (auto simp: CO_SharedFifoGet_def CO_SharedFifoGet_NoCritSect_def CO_SharedFifoPut_def
      CO_SharedFifoPut_NoCritSect_def Let_def set_blk_def split: option.splits if_splits)

lemma count_repeat_simps [simp]:
  "WorkFifo (count_repeat l t s) = WorkFifo s" "wq_mem (count_repeat l t s) = wq_mem s"
  "wq_log (count_repeat l t s) = wq_log s" "wq_calls (count_repeat l t s) = wq_calls s"
  by (simp_all add: count_repeat_def Let_def)

lemma wq_chan_send:
  "chan_send (wq_chan h s) = Some (p, c) \<Longrightarrow> \<exists>f f'. CO_SharedFifoGet (WorkFifo s) CO_WORK_GET 1 = Some (CO_STATUS_OK, p, f)
     \<and> CO_SharedFifoPut f CO_WORK_GET 1 = Some (CO_STATUS_OK, f') \<and> c = wq_chan h (s\<lparr>WorkFifo := f'\<rparr>)"
  by (auto simp: chan_send_def wq_chan_def CO_WORK_GET_def split: option.splits co_status.splits)

text \<open>Queueing an item: it goes to the end of the queue, or it is dropped when 99 items wait or run.\<close>

lemma add_workitem_spec:
  assumes ok: "wq_ok h s"
  shows "\<exists>s'. drv_hal_add_workitem t s = Some (0, s') \<and> wq_ok h s'
    \<and> pending h s' = (if length (pending h s) + length (running h s) < 99 then pending h s @ [t] else pending h s)
    \<and> running h s' = running h s \<and> chan_busy (wq_chan h s') = chan_busy (wq_chan h s)
    \<and> wq_log s' = wq_log s"
proof -
  let ?c = "wq_chan h s"
  have c: "chan_ok ?c" and n: "sf_n ?c = 100" using ok by (simp_all add: wq_ok_def wq_chan_def)
  have inv: "sf_inv ?c" and b0: "unat (0::u8) < sf_k ?c" using c by (simp_all add: chan_ok_def)
  have wf: "sf_wf (WorkFifo s)" using inv by (auto simp: sf_inv_def wq_chan_def)
  obtain m where m: "CO_SharedFifoNbEltCont (WorkFifo s) CO_WORK_GET = Some m"
    using CO_SharedFifoNbEltCont_cnt [OF wf, of 0] b0 by (auto simp: CO_WORK_GET_def wq_chan_def)
  have cap: "(\<exists>p t. chan_send ?c = Some (p, t)) \<longleftrightarrow> length (pending h s) + length (running h s) < 99"
    using sf.send_iff [OF c] n by (simp add: pending_def running_def)
  show ?thesis
  proof (cases "\<exists>p t. chan_send ?c = Some (p, t)")
    case True
    then obtain p c' where snd: "chan_send ?c = Some (p, c')" by auto
    from wq_chan_send [OF this] obtain f f' where f: "CO_SharedFifoGet (WorkFifo s) CO_WORK_GET 1 = Some (CO_STATUS_OK, p, f)"
      "CO_SharedFifoPut f CO_WORK_GET 1 = Some (CO_STATUS_OK, f')" "c' = wq_chan h (s\<lparr>WorkFifo := f'\<rparr>)" by auto
    have "chan_free ?c \<noteq> []" using sf.send_full [OF c] snd by auto
    then have "p \<in> set (chan_free ?c)" using sf.send_slot [OF c] snd by (cases "chan_free ?c") fastforce+
    then have p: "p \<noteq> 0" using chan_slots_nz [OF ok] by simp
    define s' where "s' = (count_repeat (ucast m) (task t) (s\<lparr>WorkFifo := f\<rparr>))\<lparr>wq_mem := (wq_mem s)(p := t),
      task_p := task t, WorkFifo := f', wq_calls := wq_calls s + 1\<rparr>"
    have add: "drv_hal_add_workitem t s = Some (0, s')"
      using m f p by (simp add: drv_hal_add_workitem_def Let_def s'_def)
    have ch: "wq_chan h s' = c'" and mem: "wq_mem s' = (wq_mem s)(p := t)" by (simp_all add: s'_def f(3) wq_chan_def)
    note k = sf.send_contents(1,4) [OF c snd] sf.send_contents(2,3) [OF c snd, of "wq_mem s" t]
    have "wq_ok h s'"
      using ok k(1) ch fifo_frame(1) [OF f(1)] fifo_frame(2) [OF f(2)] by (simp add: wq_ok_def s'_def)
    with add k cap True show ?thesis by (simp add: pending_def running_def ch mem) (simp add: s'_def)
  next
    case False
    have "own (sf_abs_of ?c) (unat (0::u8)) = []"
    proof (rule ccontr)
      assume "own (sf_abs_of ?c) (unat (0::u8)) \<noteq> []"
      then obtain q qs where "chan_free ?c = q # qs" by (cases "own (sf_abs_of ?c) 0") (auto simp: chan_free_def)
      from sf.send_slot [OF c this] False show False by blast
    qed
    from chan_get_none [OF c _ this] have g: "CO_SharedFifoGet (WorkFifo s) CO_WORK_GET 1 = Some (CO_NO_ELT_IN_USE, 0, WorkFifo s)"
      by (simp add: wq_chan_def CO_WORK_GET_def)
    define s' where "s' = count_repeat (ucast m) (task t) (s\<lparr>WorkFifo := WorkFifo s\<rparr>)"
    have "drv_hal_add_workitem t s = Some (0, s')" using m g by (simp add: drv_hal_add_workitem_def Let_def s'_def)
    moreover have "wq_chan h s' = ?c" "wq_mem s' = wq_mem s" "wq_log s' = wq_log s" "WorkFifo s' = WorkFifo s"
      by (simp_all add: s'_def wq_chan_def)
    ultimately show ?thesis using ok False cap by (simp add: wq_ok_def pending_def running_def)
  qed
qed

text \<open>The queue as a list: \<open>r\<close> items run while items are added.\<close>

fun queue_all :: "nat \<Rightarrow> hal_work_task list \<Rightarrow> hal_work_task list \<Rightarrow> hal_work_task list" where
  "queue_all r [] q = q"
| "queue_all r (t # ts) q = queue_all r ts (if length q + r < 99 then q @ [t] else q)"

lemma add_all_spec:
  "wq_ok h s \<Longrightarrow> \<exists>s'. add_all ts s = Some s' \<and> wq_ok h s'
    \<and> pending h s' = queue_all (length (running h s)) ts (pending h s)
    \<and> running h s' = running h s \<and> chan_busy (wq_chan h s') = chan_busy (wq_chan h s) \<and> wq_log s' = wq_log s"
proof (induction ts arbitrary: s)
  case (Cons t ts)
  obtain s1 where s1: "drv_hal_add_workitem t s = Some (0, s1)" "wq_ok h s1"
    "pending h s1 = (if length (pending h s) + length (running h s) < 99 then pending h s @ [t] else pending h s)"
    "running h s1 = running h s" "chan_busy (wq_chan h s1) = chan_busy (wq_chan h s)" "wq_log s1 = wq_log s"
    using add_workitem_spec [OF Cons.prems, of t] by blast
  from Cons.IH [OF s1(2)] s1 show ?case by (auto simp: if_split)
qed simp

definition handler_adds :: "(u64 \<Rightarrow> u64 list \<Rightarrow> hal_work_task list) \<Rightarrow> u64 \<Rightarrow> u64 list \<Rightarrow> hal_work_task list" where
  "handler_adds adds h ps = (if h = 0 then [] else adds h ps)"

definition handler_log :: "u64 \<Rightarrow> u64 list \<Rightarrow> (u64 \<times> u64 list) list" where
  "handler_log h ps = (if h = 0 then [] else [(h, ps)])"

lemma run_handler_spec:
  assumes "wq_ok h s"
  shows "\<exists>s'. run_handler adds g ps s = Some s' \<and> wq_ok h s'
    \<and> pending h s' = queue_all (length (running h s)) (handler_adds adds g ps) (pending h s)
    \<and> running h s' = running h s \<and> chan_busy (wq_chan h s') = chan_busy (wq_chan h s)
    \<and> wq_log s' = wq_log s @ handler_log g ps"
proof -
  let ?s = "s\<lparr>wq_log := wq_log s @ [(g, ps)]\<rparr>"
  have "wq_chan h ?s = wq_chan h s" "wq_ok h ?s" using assms by (simp_all add: wq_chan_def wq_ok_def)
  with add_all_spec [of h ?s "adds g ps"] assms show ?thesis
    by (auto simp: run_handler_def handler_adds_def handler_log_def pending_def running_def)
qed

text \<open>One round of the task: the oldest item is taken, both its handlers run, the slot goes back.\<close>

definition item_adds :: "(u64 \<Rightarrow> u64 list \<Rightarrow> hal_work_task list) \<Rightarrow> hal_work_task \<Rightarrow> hal_work_task list" where
  "item_adds adds t = handler_adds adds (task t) (params t) @ handler_adds adds (taskcallback t) (params t)"

definition item_log :: "hal_work_task \<Rightarrow> (u64 \<times> u64 list) list" where
  "item_log t = handler_log (task t) (params t) @ handler_log (taskcallback t) (params t)"

lemma queue_all_append: "queue_all r (xs @ ys) q = queue_all r ys (queue_all r xs q)"
  by (induction xs arbitrary: q) auto

lemma task_empty:
  assumes ok: "wq_ok 0 s"
  shows "CO_SharedFifoEmpty (WorkFifo s) CO_WORK_FREE = Some (pending 0 s \<noteq> [])"
proof -
  let ?c = "wq_chan 0 s"
  have inv: "sf_inv ?c" and k: "sf_k ?c = 2" using ok by (simp_all add: wq_ok_def chan_ok_def)
  have wf: "sf_wf (fifo ?c)" using inv by (auto simp: sf_inv_def)
  note w = sf_wfD [OF wf]
  have b: "unat CO_WORK_FREE < unat (BlockNbr (fifo ?c))" using k by (simp add: CO_WORK_FREE_def)
  have len: "length (own (sf_abs_of ?c) 1) = sf_cnt (fifo ?c) 1"
    using k by (simp add: sf_abs_of_def sf_slots_def)
  have "sf_cnt (fifo ?c) 1 = 0 \<longleftrightarrow> sf_out (fifo ?c) 1 = sf_in (fifo ?c) 1"
    using w(6,7) [OF b] by (simp add: sf_cnt_def cdist_0_iff CO_WORK_FREE_def)
  moreover have "1 < length (IdxTab (fifo ?c))" using w(1,3) b k by linarith
  ultimately show ?thesis using len
    by (auto simp: CO_SharedFifoEmpty_def CO_WORK_FREE_def wq_chan_def pending_def chan_used_def word_unat_eq_iff)
qed

lemma task_round_steps:
  assumes ok: "wq_ok 0 s" and idle: "running 0 s = []" and q: "pending 0 s = t # ts"
  shows "\<exists>r s1 s2 x. CO_SharedFifoGet (WorkFifo s) CO_WORK_FREE 1 = Some r \<and> fst (snd r) \<noteq> 0
    \<and> run_handler adds (task (wq_mem s (fst (snd r)))) (params (wq_mem s (fst (snd r)))) (s\<lparr>WorkFifo := snd (snd r)\<rparr>) = Some s1
    \<and> run_handler adds (taskcallback (wq_mem s1 (fst (snd r)))) (params (wq_mem s1 (fst (snd r)))) s1 = Some s2
    \<and> CO_SharedFifoPut (WorkFifo s2) CO_WORK_FREE 1 = Some x
    \<and> wq_ok 0 (s2\<lparr>WorkFifo := snd x\<rparr>) \<and> running 0 (s2\<lparr>WorkFifo := snd x\<rparr>) = []
    \<and> pending 0 (s2\<lparr>WorkFifo := snd x\<rparr>) = queue_all 1 (item_adds adds t) ts
    \<and> wq_log (s2\<lparr>WorkFifo := snd x\<rparr>) = wq_log s @ item_log t"
proof -
  let ?c = "wq_chan 0 s"
  have c: "chan_ok ?c" using ok by (simp add: wq_ok_def)
  have idle': "chan_busy ?c = []" using idle by (simp add: running_def)
  obtain p c' where rc: "chan_recv ?c = Some (p, c')" "chan_ok c'" "wq_mem s p = t" "map (wq_mem s) (chan_used c') = ts"
      "chan_busy c' = [p]"
    using sf.recv_contents [OF c, of "wq_mem s" t ts] q idle' by (auto simp: pending_def)
  from rc(1) obtain f where f: "CO_SharedFifoGet (WorkFifo s) CO_WORK_FREE 1 = Some (CO_STATUS_OK, p, f)"
      and c': "c' = wq_chan 1 (s\<lparr>WorkFifo := f\<rparr>)"
    by (auto simp: chan_recv_def wq_chan_def CO_WORK_FREE_def split: option.splits co_status.splits)
  define s0 where "s0 = s\<lparr>WorkFifo := f\<rparr>"
  have ok0: "wq_ok 1 s0" using ok rc(2) c' fifo_frame(1) [OF f] by (simp add: wq_ok_def s0_def)
  have p: "p \<noteq> 0" using chan_slots_nz [OF ok0] rc(5) c' by (simp add: s0_def)
  have st0: "running 1 s0 = [t]" "pending 1 s0 = ts" "chan_busy (wq_chan 1 s0) = [p]" "wq_log s0 = wq_log s"
    using rc c' by (simp_all add: running_def pending_def s0_def)
  obtain s1 where s1: "run_handler adds (task t) (params t) s0 = Some s1" "wq_ok 1 s1"
    "pending 1 s1 = queue_all 1 (handler_adds adds (task t) (params t)) ts" "running 1 s1 = [t]"
    "chan_busy (wq_chan 1 s1) = [p]" "wq_log s1 = wq_log s @ handler_log (task t) (params t)"
    using run_handler_spec [OF ok0, of adds "task t" "params t"] st0 by auto
  have m1: "wq_mem s1 p = t" using s1(4,5) by (simp add: running_def)
  obtain s2 where s2: "run_handler adds (taskcallback t) (params t) s1 = Some s2" "wq_ok 1 s2"
    "pending 1 s2 = queue_all 1 (item_adds adds t) ts"
    "chan_busy (wq_chan 1 s2) = [p]" "wq_log s2 = wq_log s @ item_log t"
    using run_handler_spec [OF s1(2), of adds "taskcallback t" "params t"] s1
    by (auto simp: item_adds_def item_log_def queue_all_append)
  have c2: "chan_ok (wq_chan 1 s2)" using s2(2) by (simp add: wq_ok_def)
  obtain c3 where c3: "chan_release (wq_chan 1 s2) = Some c3" "chan_ok c3" "chan_busy c3 = []"
      "chan_used c3 = chan_used (wq_chan 1 s2)"
    using sf.release_slot [OF c2 s2(4)] by auto
  from c3(1) obtain f3 where f3: "CO_SharedFifoPut (WorkFifo s2) CO_WORK_FREE 1 = Some (CO_STATUS_OK, f3)"
      and c3': "c3 = wq_chan 0 (s2\<lparr>WorkFifo := f3\<rparr>)"
    by (auto simp: chan_release_def wq_chan_def CO_WORK_FREE_def split: option.splits co_status.splits)
  define s3 where "s3 = s2\<lparr>WorkFifo := f3\<rparr>"
  have "wq_ok 0 s3" using s2(2) c3(2) c3' fifo_frame(2) [OF f3] by (simp add: wq_ok_def s3_def)
  moreover have "running 0 s3 = []" "pending 0 s3 = pending 1 s2" "wq_log s3 = wq_log s2"
    using c3 c3' by (simp_all add: running_def pending_def s3_def)
  ultimately have post: "wq_ok 0 s3 \<and> running 0 s3 = [] \<and> pending 0 s3 = queue_all 1 (item_adds adds t) ts
      \<and> wq_log s3 = wq_log s @ item_log t" using s2 by metis
  show ?thesis
    by (rule exI [of _ "(CO_STATUS_OK, p, f)"], rule exI [of _ s1], rule exI [of _ s2],
        rule exI [of _ "(CO_STATUS_OK, f3)"])
      (use f p rc(3) s1(1) m1 s2(1) f3 post in \<open>simp add: s0_def s3_def\<close>)
qed

lemma task_round:
  assumes "wq_ok 0 s" "running 0 s = []" "pending 0 s = t # ts"
  shows "\<exists>s'. drv_hal_workitem_task adds s = drv_hal_workitem_task adds s' \<and> wq_ok 0 s' \<and> running 0 s' = []
    \<and> pending 0 s' = queue_all 1 (item_adds adds t) ts \<and> wq_log s' = wq_log s @ item_log t"
proof -
  from task_round_steps [OF assms, of adds] obtain r s1 s2 x where
    r: "CO_SharedFifoGet (WorkFifo s) CO_WORK_FREE 1 = Some r" "fst (snd r) \<noteq> 0"
    "run_handler adds (task (wq_mem s (fst (snd r)))) (params (wq_mem s (fst (snd r)))) (s\<lparr>WorkFifo := snd (snd r)\<rparr>) = Some s1"
    "run_handler adds (taskcallback (wq_mem s1 (fst (snd r)))) (params (wq_mem s1 (fst (snd r)))) s1 = Some s2"
    "CO_SharedFifoPut (WorkFifo s2) CO_WORK_FREE 1 = Some x"
    and post: "wq_ok 0 (s2\<lparr>WorkFifo := snd x\<rparr>)" "running 0 (s2\<lparr>WorkFifo := snd x\<rparr>) = []"
    "pending 0 (s2\<lparr>WorkFifo := snd x\<rparr>) = queue_all 1 (item_adds adds t) ts"
    "wq_log (s2\<lparr>WorkFifo := snd x\<rparr>) = wq_log s @ item_log t" by blast
  have "drv_hal_workitem_task adds s = drv_hal_workitem_task adds (s2\<lparr>WorkFifo := snd x\<rparr>)"
    using task_empty [OF assms(1)] assms(3) r by (subst drv_hal_workitem_task.simps) simp
  with post show ?thesis by blast
qed

lemma task_done: "wq_ok 0 s \<Longrightarrow> pending 0 s = [] \<Longrightarrow> drv_hal_workitem_task adds s = Some s"
  using task_empty [of s] by (subst drv_hal_workitem_task.simps) simp

section \<open>Abstract machine\<close>

text \<open>The task on a list of items: while there are items, the first one runs; its handlers append
  items as long as fewer than 99 wait or run.\<close>

partial_function (option) queue_task ::
    "(u64 \<Rightarrow> u64 list \<Rightarrow> hal_work_task list) \<Rightarrow> hal_work_task list \<Rightarrow> (u64 \<times> u64 list) list
     \<Rightarrow> (u64 \<times> u64 list) list option" where
  "queue_task adds q l =
     (case q of [] \<Rightarrow> Some l | t # ts \<Rightarrow> queue_task adds (queue_all 1 (item_adds adds t) ts) (l @ item_log t))"

lemma queue_task_imp:
  "queue_task adds q l = Some r \<Longrightarrow> \<forall>s. wq_ok 0 s \<and> running 0 s = [] \<and> pending 0 s = q \<and> wq_log s = l \<longrightarrow>
     (\<exists>s'. drv_hal_workitem_task adds s = Some s' \<and> wq_ok 0 s' \<and> pending 0 s' = [] \<and> wq_log s' = r)"
proof (induction rule: queue_task.raw_induct [rotated, consumes 1])
  case (1 f adds q l r)
  show ?case
  proof (intro allI impI)
    fix s assume s: "wq_ok 0 s \<and> running 0 s = [] \<and> pending 0 s = q \<and> wq_log s = l"
    show "\<exists>s'. drv_hal_workitem_task adds s = Some s' \<and> wq_ok 0 s' \<and> pending 0 s' = [] \<and> wq_log s' = r"
    proof (cases q)
      case Nil
      with 1(2) s task_done [of s adds] show ?thesis by auto
    next
      case (Cons t ts)
      with task_round [of s t ts adds] s obtain s' where "drv_hal_workitem_task adds s = drv_hal_workitem_task adds s'"
        "wq_ok 0 s'" "running 0 s' = []" "pending 0 s' = queue_all 1 (item_adds adds t) ts" "wq_log s' = l @ item_log t"
        by auto
      with 1 Cons show ?thesis by auto
    qed
  qed
qed

lemma workitem_task_imp:
  "drv_hal_workitem_task adds s = Some s' \<Longrightarrow> wq_ok 0 s \<and> running 0 s = [] \<longrightarrow>
     queue_task adds (pending 0 s) (wq_log s) = Some (wq_log s')"
proof (induction arbitrary: rule: drv_hal_workitem_task.raw_induct [rotated, consumes 1])
  case (1 f adds s s')
  show ?case
  proof
    assume s: "wq_ok 0 s \<and> running 0 s = []"
    show "queue_task adds (pending 0 s) (wq_log s) = Some (wq_log s')"
    proof (cases "pending 0 s")
      case Nil
      with 1(2) task_empty [of s] s show ?thesis by (subst queue_task.simps) simp
    next
      case (Cons t ts)
      from task_round_steps [OF _ _ Cons, of adds] s obtain r s1 s2 x where
        r: "CO_SharedFifoGet (WorkFifo s) CO_WORK_FREE 1 = Some r" "fst (snd r) \<noteq> 0"
        "run_handler adds (task (wq_mem s (fst (snd r)))) (params (wq_mem s (fst (snd r)))) (s\<lparr>WorkFifo := snd (snd r)\<rparr>) = Some s1"
        "run_handler adds (taskcallback (wq_mem s1 (fst (snd r)))) (params (wq_mem s1 (fst (snd r)))) s1 = Some s2"
        "CO_SharedFifoPut (WorkFifo s2) CO_WORK_FREE 1 = Some x"
        and post: "wq_ok 0 (s2\<lparr>WorkFifo := snd x\<rparr>)" "running 0 (s2\<lparr>WorkFifo := snd x\<rparr>) = []"
        "pending 0 (s2\<lparr>WorkFifo := snd x\<rparr>) = queue_all 1 (item_adds adds t) ts"
        "wq_log (s2\<lparr>WorkFifo := snd x\<rparr>) = wq_log s @ item_log t" by blast
      have "f adds (s2\<lparr>WorkFifo := snd x\<rparr>) = Some s'"
        using 1(2) task_empty [of s] s Cons r by simp
      from 1(1) [OF this] post show ?thesis by (subst queue_task.simps) (simp add: Cons)
    qed
  qed
qed

lemma no_adds [simp]: "item_adds (\<lambda>_ _. []) t = []"
  by (simp add: item_adds_def handler_adds_def)

lemma queue_task_no_adds: "queue_task (\<lambda>_ _. []) q l = Some (l @ concat (map item_log q))"
proof (induction q arbitrary: l)
  case Nil
  show ?case by (subst queue_task.simps) simp
next
  case (Cons t ts)
  show ?case by (subst queue_task.simps) (simp add: Cons)
qed

section \<open>Properties\<close>

lemma wq_init_spec:
  assumes tab: "length (IdxTab (WorkFifo s)) = CO_SF_BLOCK_DEF_NBR + 2"
    and buf: "0 < unat buf" "unat buf + 5600 < 2 ^ 64"
  shows "\<exists>s'. drv_hal_workitem_inital buf res s = Some (0, s') \<and> wq_ok 0 s' \<and> pending 0 s' = [] \<and> running 0 s' = []"
proof -
  let ?old = "WorkFifo s"
  obtain a b c d where t: "IdxTab ?old = [a, b, c, d]"
    using tab by (auto simp: CO_SF_BLOCK_DEF_NBR_def length_Suc_conv numeral_eq_Suc)
  let ?f = "\<lparr>EltBasePhy = buf, EltBasePtr = buf, EltNbr = 100, EltSize = 56, BlockNbr = 2,
     IdxTab = [\<lparr>Flag = 0, In = 0, Out = 1\<rparr>, \<lparr>Flag = 0, In = 1, Out = 1\<rparr>, c, d]\<rparr>"
  have blocks: "sf_init_blocks 2 [a, b, c, d] = [\<lparr>Flag = 0, In = 1, Out = 1\<rparr>, \<lparr>Flag = 0, In = 1, Out = 1\<rparr>, c, d]"
    by (simp add: numeral_2_eq_2)
  have init: "CO_SharedFifoInit ?old buf buf 100 56 2 = Some ?f"
    unfolding CO_SharedFifoInit_def t Let_def CO_SF_PROD_ID_def by (simp add: blocks)
  have inv: "sf_inv \<lparr>fifo = ?f, held = (\<lambda>_. 0)\<rparr>"
    by (rule sf_init_inv(1) [OF tab _ _ _ init]) simp_all
  define s' where "s' = (if res < 0 then s\<lparr>WorkFifo := ?f\<rparr> else s\<lparr>WorkFifo := ?f, WorkFifo_task_id := res\<rparr>)"
  have f': "WorkFifo s' = ?f" by (simp add: s'_def)
  have ch: "wq_chan 0 s' = \<lparr>fifo = ?f, held = (\<lambda>_. 0)\<rparr>" by (simp add: wq_chan_def f' fun_upd_idem)
  have "chan_ok (wq_chan 0 s')" using inv by (simp add: chan_ok_def ch)
  then have "wq_ok 0 s'" using buf by (simp add: wq_ok_def f')
  moreover have "pending 0 s' = []" "running 0 s' = []"
    by (simp_all add: pending_def running_def chan_used_def chan_busy_def ch sf_abs_of_def sf_slots_def
        sf_cnt_def sf_held_slots_def)
  moreover have "drv_hal_workitem_inital buf res s = Some (0, s')"
    using init by (simp add: drv_hal_workitem_inital_def WORK_ITEM_NUM_def sizeof_hal_work_task_def
        CO_SF_WORK_NBR_def Let_def s'_def)
  ultimately show ?thesis by blast
qed

text \<open>Setting the queue up over any buffer that avoids address 0 and fits the address space gives
  a well-formed, empty, idle queue.\<close>

theorem workqueue_init:
  assumes "length (IdxTab (WorkFifo s)) = CO_SF_BLOCK_DEF_NBR + 2"
    and "0 < unat buf" and "unat buf + 5600 < 2 ^ 64"
  shows "\<exists>s'. drv_hal_workitem_inital buf res s = Some (0, s') \<and> wq_ok 0 s' \<and> pending 0 s' = [] \<and> running 0 s' = []"
  by (rule wq_init_spec [OF assms])

definition demo_wq :: wq where
  "demo_wq = \<lparr>WorkFifo = \<lparr>EltBasePhy = 0, EltBasePtr = 0, EltNbr = 0, EltSize = 0, BlockNbr = 0,
     IdxTab = replicate 4 \<lparr>Flag = 0, In = 0, Out = 0\<rparr>\<rparr>,
     wq_mem = (\<lambda>_. \<lparr>task = 0, taskcallback = 0, params = []\<rparr>), WorkFifo_task_id = 0, task_p = 0, task_repeat = 0,
     wq_calls = 0, wq_log = []\<rparr>"

definition demo_wq0 :: wq where
  "demo_wq0 = snd (the (drv_hal_workitem_inital 4096 3 demo_wq))"

lemma demo_wq0_ok: "wq_ok 0 demo_wq0 \<and> pending 0 demo_wq0 = [] \<and> running 0 demo_wq0 = []"
  using wq_init_spec [of demo_wq 4096 3] by (auto simp: demo_wq0_def demo_wq_def CO_SF_BLOCK_DEF_NBR_def)

theorem workqueue_init_witness:
  "\<exists>s'. drv_hal_workitem_inital 4096 3 demo_wq = Some (0, s') \<and> wq_ok 0 s'"
  using workqueue_init [of demo_wq 4096 3] by (auto simp: demo_wq_def CO_SF_BLOCK_DEF_NBR_def)

text \<open>Queueing a work item always returns 0: the item goes behind the waiting ones while fewer than
  99 items wait or run, and is silently dropped otherwise; items that wait or run are not disturbed.\<close>

theorem workqueue_add:
  assumes "wq_ok h s"
  shows "\<exists>s'. drv_hal_add_workitem t s = Some (0, s') \<and> wq_ok h s'
    \<and> pending h s' = (if length (pending h s) + length (running h s) < 99 then pending h s @ [t] else pending h s)
    \<and> running h s' = running h s"
  using add_workitem_spec [OF assms] by blast

definition demo_item :: "u64 \<Rightarrow> hal_work_task" where
  "demo_item h = \<lparr>task = h, taskcallback = h + 1, params = [1, 2, 3, 4, 5]\<rparr>"

theorem workqueue_add_witness:
  "\<exists>s'. drv_hal_add_workitem (demo_item 16) demo_wq0 = Some (0, s') \<and> pending 0 s' = [demo_item 16]"
  using workqueue_add [of 0 demo_wq0 "demo_item 16"] demo_wq0_ok by auto

text \<open>The task runs exactly like the abstract queue: it returns when the queue machine does, having
  called the same handlers with the same parameters in the same order, and otherwise neither returns.
  Items queued by the handlers while they run go behind those waiting. When handlers queue nothing,
  the task returns and has called the handlers of every waiting item, oldest first.\<close>

theorem workqueue_task_runs:
  assumes "wq_ok 0 s" and "running 0 s = []"
  shows "map_option wq_log (drv_hal_workitem_task adds s) = queue_task adds (pending 0 s) (wq_log s)
    \<and> (\<exists>s'. drv_hal_workitem_task (\<lambda>_ _. []) s = Some s' \<and> wq_ok 0 s' \<and> pending 0 s' = []
        \<and> wq_log s' = wq_log s @ concat (map item_log (pending 0 s)))"
proof
  show "map_option wq_log (drv_hal_workitem_task adds s) = queue_task adds (pending 0 s) (wq_log s)"
  proof (cases "drv_hal_workitem_task adds s")
    case None
    then show ?thesis using queue_task_imp [of adds "pending 0 s" "wq_log s"] assms
      by (cases "queue_task adds (pending 0 s) (wq_log s)") fastforce+
  next
    case (Some s')
    then show ?thesis using workitem_task_imp [OF Some] assms by simp
  qed
  show "\<exists>s'. drv_hal_workitem_task (\<lambda>_ _. []) s = Some s' \<and> wq_ok 0 s' \<and> pending 0 s' = []
      \<and> wq_log s' = wq_log s @ concat (map item_log (pending 0 s))"
    using queue_task_imp [OF queue_task_no_adds] assms by blast
qed

theorem workqueue_task_runs_witness:
  "\<exists>s s'. drv_hal_add_workitem (demo_item 16) demo_wq0 = Some (0, s) \<and> drv_hal_workitem_task (\<lambda>_ _. []) s = Some s'
    \<and> wq_log s' = [(16, [1, 2, 3, 4, 5]), (17, [1, 2, 3, 4, 5])]"
proof -
  obtain s where s: "drv_hal_add_workitem (demo_item 16) demo_wq0 = Some (0, s)" "wq_ok 0 s"
    "pending 0 s = [demo_item 16]" "running 0 s = []" "wq_log s = wq_log demo_wq0"
    using add_workitem_spec [of 0 demo_wq0 "demo_item 16"] demo_wq0_ok by auto
  have "wq_log demo_wq0 = []"
    by (simp add: demo_wq0_def demo_wq_def drv_hal_workitem_inital_def Let_def CO_SharedFifoInit_def
        CO_SF_WORK_NBR_def CO_SF_PROD_ID_def)
  then have l: "wq_log s @ concat (map item_log (pending 0 s)) = [(16, [1, 2, 3, 4, 5]), (17, [1, 2, 3, 4, 5])]"
    using s by (simp add: item_log_def handler_log_def demo_item_def)
  have "\<exists>s'. drv_hal_workitem_task (\<lambda>_ _. []) s = Some s' \<and> wq_ok 0 s' \<and> pending 0 s' = []
      \<and> wq_log s' = wq_log s @ concat (map item_log (pending 0 s))"
    using workqueue_task_runs [OF s(2,4)] by blast
  with s(1) l show ?thesis by auto
qed

end
