(* ===== verification/Michael.thy ===== *)
theory Michael
  imports Prelude
begin

text \<open>
  The software Michael message integrity code of \<^verbatim>\<open>wifi_mac_encrypt.c\<close>, computed over the fragments
  of a packet. A fragment is the list of its bytes; the data pointer of the code is the list of the
  bytes from it to the end of its fragment. \<open>None\<close> is a read past a fragment or a failed \<open>KASSERT\<close>, which
  stops the kernel. The reference is the algorithm over the whole message: a padding byte and four to
  seven zero bytes complete the message to words, and each word goes through the block function.
\<close>

section \<open>The block function and its inverse\<close>

definition rotl :: "u32 \<Rightarrow> nat \<Rightarrow> u32" where
  "rotl val bits = push_bit bits val OR drop_bit (32 - bits) val"

definition rotr :: "u32 \<Rightarrow> nat \<Rightarrow> u32" where
  "rotr val bits = drop_bit bits val OR push_bit (32 - bits) val"

definition xswap :: "u32 \<Rightarrow> u32" where
  "xswap val = push_bit 8 (val AND 0x00ff00ff) OR drop_bit 8 (val AND 0xff00ff00)"

definition michael_block :: "u32 \<times> u32 \<Rightarrow> u32 \<times> u32" where
  "michael_block s =
     (let (l, r) = s;
          r = r XOR rotl l 17; l = l + r;
          r = r XOR xswap l; l = l + r;
          r = r XOR rotl l 3; l = l + r;
          r = r XOR rotr l 2; l = l + r
      in (l, r))"

definition michael_unblock :: "u32 \<times> u32 \<Rightarrow> u32 \<times> u32" where
  "michael_unblock s =
     (let (l, r) = s;
          l = l - r; r = r XOR rotr l 2;
          l = l - r; r = r XOR rotl l 3;
          l = l - r; r = r XOR xswap l;
          l = l - r; r = r XOR rotl l 17
      in (l, r))"

lemma michael_unblock_block [simp]: "michael_unblock (michael_block s) = s"
  by (cases s) (simp add: michael_block_def michael_unblock_def Let_def xor.assoc)

lemma michael_block_unblock [simp]: "michael_block (michael_unblock s) = s"
  by (cases s) (simp add: michael_block_def michael_unblock_def Let_def xor.assoc)

section \<open>Little-endian words\<close>

definition get_le32_split :: "u8 \<Rightarrow> u8 \<Rightarrow> u8 \<Rightarrow> u8 \<Rightarrow> u32" where
  "get_le32_split b0 b1 b2 b3 =
     ucast b0 OR push_bit 8 (ucast b1) OR push_bit 16 (ucast b2) OR push_bit 24 (ucast b3)"

fun get_le32 :: "u8 list \<Rightarrow> u32 option" where
  "get_le32 (p0 # p1 # p2 # p3 # ps) = Some (get_le32_split p0 p1 p2 p3)"
| "get_le32 _ = None"

definition put_le32 :: "u32 \<Rightarrow> u8 list" where
  "put_le32 v = [ucast v, ucast (drop_bit 8 v), ucast (drop_bit 16 v), ucast (drop_bit 24 v)]"

lemma length_put_le32 [simp]: "length (put_le32 v) = 4"
  by (simp add: put_le32_def)

lemma get_put_le32: "get_le32 (put_le32 v @ bs) = Some v"
proof -
  have "ucast (ucast v :: u8) OR push_bit 8 (ucast (ucast (drop_bit 8 v) :: u8))
      OR push_bit 16 (ucast (ucast (drop_bit 16 v) :: u8)) OR push_bit 24 (ucast (ucast (drop_bit 24 v) :: u8)) = v"
  proof (rule bit_word_eqI)
    fix n assume "n < LENGTH(32)"
    then have "n < 32" by simp
    then consider "n < 8" | k where "n = 8 + k" "k < 8" | k where "n = 16 + k" "k < 8" | k where "n = 24 + k" "k < 8"
      using that(2) [of "n - 8"] that(3) [of "n - 16"] that(4) [of "n - 24"] by linarith
    then show "bit ((ucast (ucast v :: u8) :: u32) OR push_bit 8 (ucast (ucast (drop_bit 8 v) :: u8))
      OR push_bit 16 (ucast (ucast (drop_bit 16 v) :: u8)) OR push_bit 24 (ucast (ucast (drop_bit 24 v) :: u8))) n = bit v n"
      by cases (auto simp: bit_simps)
  qed
  then show ?thesis by (simp add: put_le32_def get_le32_split_def)
qed

lemma put_le32_inj: "put_le32 v = put_le32 w \<longleftrightarrow> v = w"
  by (metis get_put_le32 option.inject)

lemma put_get_le32: "put_le32 (get_le32_split b0 b1 b2 b3) = [b0, b1, b2, b3]"
  unfolding put_le32_def get_le32_split_def
  by (simp; intro conjI; rule bit_word_eqI; auto simp: bit_simps dest: bit_imp_le_length)

section \<open>The frame header block\<close>

definition WIFINET_FC1_DIR_MASK :: u8 where "WIFINET_FC1_DIR_MASK = 3"
definition WIFINET_FC0_SUBTYPE_QOS :: u8 where "WIFINET_FC0_SUBTYPE_QOS = 0x80"
definition WIFINET_QOS_TID :: u8 where "WIFINET_QOS_TID = 0x0f"

text \<open>Offsets in the frame: addresses 1 to 4 at 4, 10, 16 and 24. The QoS field is read with
  \<^verbatim>\<open>struct wifi_qos_frame\<close>, at 24, whatever the number of addresses.\<close>

definition michael_mic_hdr :: "u8 list \<Rightarrow> u8 list option" where
  "michael_mic_hdr wh =
     (case (nth_opt wh 0, nth_opt wh 1) of
        (Some fc0, Some fc1) \<Rightarrow>
          (let dir = fc1 AND WIFINET_FC1_DIR_MASK;
               ad1 = slice wh 4 6; ad2 = slice wh 10 6; ad3 = slice wh 16 6; ad4 = slice wh 24 6;
               qos = (if fc0 AND WIFINET_FC0_SUBTYPE_QOS \<noteq> 0
                      then map_option (\<lambda>q. q AND WIFINET_QOS_TID) (nth_opt wh 24) else Some 0)
           in case (if dir = 0 then (ad1, ad2) else if dir = 1 then (ad3, ad2)
                    else if dir = 2 then (ad1, ad3) else (ad3, ad4)) of
                (Some da, Some sa) \<Rightarrow> map_option (\<lambda>q. da @ sa @ [q, 0, 0, 0]) qos
              | _ \<Rightarrow> None)
      | _ \<Rightarrow> None)"

section \<open>The code over fragments\<close>

definition michael_word :: "u32 \<Rightarrow> u32 \<times> u32 \<Rightarrow> u32 \<times> u32" where
  "michael_word w s = michael_block (fst s XOR w, snd s)"

text \<open>The inner loop: whole words of the fragment while \<open>space\<close> allows. Result: the state, the data
  pointer, \<open>space\<close> and \<open>data_len\<close>.\<close>

fun mic_words :: "u32 \<times> u32 \<Rightarrow> u8 list \<Rightarrow> nat \<Rightarrow> nat \<Rightarrow> (u32 \<times> u32) \<times> u8 list \<times> nat \<times> nat" where
  "mic_words s (a # b # c # d # ds) space len =
     (if space \<ge> 4 then mic_words (michael_word (get_le32_split a b c d) s) ds (space - 4) (len - 4)
      else (s, a # b # c # d # ds, space, len))"
| "mic_words s ds space len = (s, ds, space, len)"

text \<open>The outer loop over the fragments. A word that starts in one fragment and ends in the next is
  put together from both.\<close>

fun mic_loop :: "u32 \<times> u32 \<Rightarrow> u8 list \<Rightarrow> nat \<Rightarrow> u8 list list \<Rightarrow> ((u32 \<times> u32) \<times> u8 list \<times> nat) option" where
  "mic_loop s cur len [] =
     (let (s, cur, space, len) = mic_words s cur (min (length cur) len) len
      in if len < 4 then Some (s, cur, len) else None)"
| "mic_loop s cur len (f # fs) =
     (let (s, cur, space, len) = mic_words s cur (min (length cur) len) len
      in if len < 4 then Some (s, cur, len)
         else if space \<noteq> 0 then
           if length f < 4 - space then None
           else (case get_le32 (take space cur @ take (4 - space) f) of
                   None \<Rightarrow> None
                 | Some w \<Rightarrow> mic_loop (michael_word w s) (drop (4 - space) f) (len - 4) fs)
         else mic_loop s f len fs)"

text \<open>The last word: the bytes left, the padding byte and zeros.\<close>

fun mic_last :: "u8 list \<Rightarrow> nat \<Rightarrow> u32 option" where
  "mic_last ds 0 = Some (get_le32_split 0x5a 0 0 0)"
| "mic_last (a # ds) (Suc 0) = Some (get_le32_split a 0x5a 0 0)"
| "mic_last (a # b # ds) (Suc (Suc 0)) = Some (get_le32_split a b 0x5a 0)"
| "mic_last (a # b # c # ds) (Suc (Suc (Suc 0))) = Some (get_le32_split a b c 0x5a)"
| "mic_last _ _ = None"

definition mic_hdr_words :: "u8 list \<Rightarrow> u32 \<times> u32 \<Rightarrow> (u32 \<times> u32) option" where
  "mic_hdr_words hdr s =
     (case (get_le32 hdr, get_le32 (drop 4 hdr), get_le32 (drop 8 hdr), get_le32 (drop 12 hdr)) of
        (Some a, Some b, Some c, Some d) \<Rightarrow>
           Some (michael_word d (michael_word c (michael_word b (michael_word a s))))
      | _ \<Rightarrow> None)"

definition michael_mic :: "u8 list \<Rightarrow> u8 list list \<Rightarrow> nat \<Rightarrow> nat \<Rightarrow> u8 list option" where
  "michael_mic key frags off data_len =
     (case frags of
        [] \<Rightarrow> None
      | skb # rest \<Rightarrow>
          (case (michael_mic_hdr skb, get_le32 key, get_le32 (drop 4 key)) of
             (Some hdr, Some l, Some r) \<Rightarrow>
               (case mic_hdr_words hdr (l, r) of
                  None \<Rightarrow> None
                | Some s \<Rightarrow>
                    if length skb < off then None
                    else
                      (case mic_loop s (drop off skb) data_len rest of
                         None \<Rightarrow> None
                       | Some (s, cur, len) \<Rightarrow>
                           (case mic_last cur len of
                              None \<Rightarrow> None
                            | Some w \<Rightarrow>
                                let (l, r) = michael_block (michael_word w s)
                                in Some (put_le32 l @ put_le32 r))))
           | _ \<Rightarrow> None))"

section \<open>The reference\<close>

fun words_le :: "u8 list \<Rightarrow> u32 list" where
  "words_le (a # b # c # d # ds) = get_le32_split a b c d # words_le ds"
| "words_le _ = []"

definition michael_pad :: "u8 list \<Rightarrow> u8 list" where
  "michael_pad msg = msg @ [0x5a] @ replicate (7 - length msg mod 4) 0"

definition michael_ref :: "u8 list \<Rightarrow> u8 list \<Rightarrow> u8 list option" where
  "michael_ref key msg =
     (case (get_le32 key, get_le32 (drop 4 key)) of
        (Some l, Some r) \<Rightarrow>
          let (l, r) = fold michael_word (words_le (michael_pad msg)) (l, r)
          in Some (put_le32 l @ put_le32 r)
      | _ \<Rightarrow> None)"

section \<open>The code computes the reference\<close>

lemma words_le_append: "4 dvd length xs \<Longrightarrow> words_le (xs @ ys) = words_le xs @ words_le ys"
proof (induction xs rule: words_le.induct)
  case (1 a b c d ds)
  have "length (a # b # c # d # ds) = length ds + 4" by simp
  with 1 show ?case by (simp only: dvd_add_triv_right_iff append_Cons words_le.simps simp_thms)
qed (auto dest!: dvd_imp_le)

lemma mic_words_eq:
  "space \<le> length ds \<Longrightarrow> space \<le> len \<Longrightarrow> mic_words s ds space len =
     (fold michael_word (words_le (take (space - space mod 4) ds)) s, drop (space - space mod 4) ds,
      space mod 4, len - (space - space mod 4))"
proof (induction s ds space len rule: mic_words.induct)
  case (1 s a b c d ds space len)
  show ?case
  proof (cases "4 \<le> space")
    case True
    define k where "k = space - 4"
    have k: "space = 4 + k" using True by (simp add: k_def)
    have m: "space - space mod 4 = Suc (Suc (Suc (Suc (k - k mod 4))))" using k by simp
    show ?thesis using 1 True unfolding m by (simp add: k)
  next
    case False
    then show ?thesis by simp
  qed
qed auto

text \<open>\<open>mic_done s msg len r\<close>: the result \<open>r\<close> has absorbed all whole words of the first \<open>len\<close> bytes of
  \<open>msg\<close> and points at the bytes that are left.\<close>

definition mic_done :: "u32 \<times> u32 \<Rightarrow> u8 list \<Rightarrow> nat \<Rightarrow> (u32 \<times> u32) \<times> u8 list \<times> nat \<Rightarrow> bool" where
  "mic_done s msg len r \<longleftrightarrow> len \<le> length msg \<and> snd (snd r) = len mod 4
     \<and> fst r = fold michael_word (words_le (take (len - len mod 4) msg)) s
     \<and> take (len mod 4) (fst (snd r)) = take (len mod 4) (drop (len - len mod 4) msg)"

lemma mic_done_prefix:
  assumes d: "mic_done s1 (drop k msg) (len - k) r" and k: "4 dvd k" "k \<le> len" "k \<le> length msg"
    and s1: "s1 = fold michael_word (words_le (take k msg)) s"
  shows "mic_done s msg len r"
proof -
  have m: "(len - k) mod 4 = len mod 4" using k(1,2) by (metis dvd_imp_mod_0 le_add_diff_inverse mod_add_left_eq add_0)
  have "len mod 4 \<le> len - k" using m by (metis mod_less_eq_dividend)
  then have e: "len - len mod 4 = k + (len - k - len mod 4)" using k(2) by linarith
  have "take (len - len mod 4) msg = take k msg @ take (len - k - len mod 4) (drop k msg)"
    unfolding e by (rule take_add)
  then have "words_le (take (len - len mod 4) msg) = words_le (take k msg) @ words_le (take (len - k - len mod 4) (drop k msg))"
    using words_le_append k by simp
  moreover have "drop (len - len mod 4) msg = drop (len - k - len mod 4) (drop k msg)"
    unfolding e drop_drop by (simp only: add.commute)
  moreover have "len \<le> length msg" "snd (snd r) = len mod 4"
    "fst r = fold michael_word (words_le (take (len - k - len mod 4) (drop k msg))) s1"
    "take (len mod 4) (fst (snd r)) = take (len mod 4) (drop (len - k - len mod 4) (drop k msg))"
    using d k(2,3) unfolding mic_done_def m length_drop by (linarith, blast+)
  ultimately show ?thesis unfolding mic_done_def s1 by (simp only: fold_append comp_apply)
qed

lemma mic_done_here:
  assumes "len \<le> length cur"
  shows "mic_done s (cur @ rest) len (fold michael_word (words_le (take (len - len mod 4) cur)) s,
    drop (len - len mod 4) cur, len mod 4)"
  using assms by (simp add: mic_done_def)

lemma get_le32_words: "length w = 4 \<Longrightarrow> \<exists>v. get_le32 w = Some v \<and> words_le w = [v]"
  by (cases w rule: get_le32.cases) auto

lemma sub_mod_dvd: "(4::nat) dvd n - n mod 4"
  by (simp add: minus_mod_eq_mult_div)

lemma mic_loop_Nil:
  "mic_words s cur (min (length cur) len) len = (s1, cur1, space, len1) \<Longrightarrow>
   mic_loop s cur len [] = (if len1 < 4 then Some (s1, cur1, len1) else None)"
  by (simp only: mic_loop.simps Let_def prod.case)

lemma mic_loop_Cons:
  "mic_words s cur (min (length cur) len) len = (s1, cur1, space, len1) \<Longrightarrow>
   mic_loop s cur len (f # fs) =
     (if len1 < 4 then Some (s1, cur1, len1)
      else if space \<noteq> 0 then
        if length f < 4 - space then None
        else (case get_le32 (take space cur1 @ take (4 - space) f) of
                None \<Rightarrow> None
              | Some w \<Rightarrow> mic_loop (michael_word w s1) (drop (4 - space) f) (len1 - 4) fs)
      else mic_loop s1 f len1 fs)"
  by (simp only: mic_loop.simps Let_def prod.case)

lemma mic_loop_correct:
  "mic_loop s cur len fs = Some r \<Longrightarrow> snd (snd r) \<le> length (fst (snd r)) \<Longrightarrow> mic_done s (cur @ concat fs) len r"
proof (induction fs arbitrary: s cur len)
  case Nil
  define sp where "sp = min (length cur) len"
  define q where "q = sp - sp mod 4"
  have q: "q \<le> length cur" "q \<le> len" by (auto simp: q_def sp_def)
  have mw: "mic_words s cur (min (length cur) len) len
      = (fold michael_word (words_le (take q cur)) s, drop q cur, sp mod 4, len - q)"
    by (simp add: mic_words_eq q_def sp_def)
  then have r: "r = (fold michael_word (words_le (take q cur)) s, drop q cur, len - q)"
    using Nil(1) unfolding mic_loop_Nil [OF mw] by (simp split: if_splits)
  with Nil(2) q have l: "len \<le> length cur" by auto
  then have "sp = len" by (simp add: sp_def)
  then have "q = len - len mod 4" by (simp add: q_def)
  with r mic_done_here [OF l, of s "[]"] show ?case by simp
next
  case (Cons f fs)
  define sp where "sp = min (length cur) len"
  define q where "q = sp - sp mod 4"
  define s1 where "s1 = fold michael_word (words_le (take q cur)) s"
  have q4: "4 dvd q" and qle: "q \<le> length cur" "q \<le> len" and sq: "sp = q + sp mod 4"
    by (auto simp: q_def sp_def sub_mod_dvd)
  have mw: "mic_words s cur (min (length cur) len) len = (s1, drop q cur, sp mod 4, len - q)"
    by (simp add: mic_words_eq s1_def q_def sp_def)
  have s1': "s1 = fold michael_word (words_le (take q (cur @ concat (f # fs)))) s" using qle by (simp add: s1_def)
  note prem = Cons.prems(1) [unfolded mic_loop_Cons [OF mw]]
  show ?case
  proof (cases "len - q < 4")
    case True
    then have r: "r = (s1, drop q cur, len - q)" using prem by simp
    with Cons.prems(2) have "len \<le> length cur" using qle by auto
    then have "sp = len" by (simp add: sp_def)
    then have "q = len - len mod 4" by (simp add: q_def)
    then show ?thesis using r mic_done_here [OF \<open>len \<le> length cur\<close>, of s "concat (f # fs)"] by (simp add: s1_def)
  next
    case big: False
    have sp: "sp = length cur"
    proof (rule ccontr)
      assume "sp \<noteq> length cur"
      then have "sp = len" by (simp add: sp_def min_def split: if_splits)
      with big sq show False using mod_less_divisor [of 4 len] by (simp add: q_def)
    qed
    then have dl: "length (drop q cur) = sp mod 4" using sq by simp
    show ?thesis
    proof (cases "sp mod 4 = 0")
      case True
      then have q: "q = length cur" using sq sp by linarith
      have "mic_loop s1 f (len - q) fs = Some r" using prem True by (simp only: big if_False simp_thms)
      from Cons.IH [OF this Cons.prems(2)] have "mic_done s1 (drop q (cur @ concat (f # fs))) (len - q) r"
        by (simp add: q)
      moreover have "q \<le> length (cur @ concat (f # fs))" by (simp add: q)
      ultimately show ?thesis using mic_done_prefix q4 qle(2) s1' by blast
    next
      case False
      let ?k = "sp mod 4"
      have k4: "?k < 4" by simp
      have fl: "4 - ?k \<le> length f" using prem big False by (auto simp: not_less split: if_splits)
      have w4: "length (drop q cur @ take (4 - ?k) f) = 4" using dl fl k4 by simp
      obtain w where w: "get_le32 (drop q cur @ take (4 - ?k) f) = Some w" "words_le (drop q cur @ take (4 - ?k) f) = [w]"
        using get_le32_words [OF w4] by blast
      have tk: "take ?k (drop q cur) = drop q cur" using dl by simp
      have "mic_loop (michael_word w s1) (drop (4 - ?k) f) (len - q - 4) fs = Some r"
        using prem big False fl w(1) tk by (simp add: not_less)
      from Cons.IH [OF this Cons.prems(2)]
      have ih: "mic_done (michael_word w s1) (drop (4 - ?k) f @ concat fs) (len - (q + 4)) r" by simp
      have "length cur = q + ?k" using sq sp by linarith
      then have lc: "q + 4 - length cur = 4 - ?k" "length cur \<le> q + 4" using k4 by linarith+
      have "take (q + 4) (cur @ concat (f # fs)) = cur @ take (4 - ?k) f" using lc fl by simp
      then have t: "take (q + 4) (cur @ concat (f # fs)) = take q cur @ drop q cur @ take (4 - ?k) f"
        by (simp only: append_assoc [symmetric] append_take_drop_id)
      have d: "drop (q + 4) (cur @ concat (f # fs)) = drop (4 - ?k) f @ concat fs" using lc fl by simp
      have fw: "michael_word w s1 = fold michael_word (words_le (take (q + 4) (cur @ concat (f # fs)))) s"
        unfolding t using words_le_append [of "take q cur"] q4 qle w(2) by (simp add: s1_def)
      have "length cur = q + ?k" using sq sp by linarith
      then have l4: "q + 4 \<le> length (cur @ concat (f # fs))" using fl k4 by simp
      have d4: "4 dvd q + 4" "q + 4 \<le> len" using q4 big by auto
      show ?thesis by (rule mic_done_prefix [OF ih [folded d] d4 l4 fw])
    qed
  qed
qed

lemma mic_loop_total:
  "len = length cur + length (concat fs) \<Longrightarrow> \<forall>f \<in> set fs. 4 \<le> length f \<Longrightarrow>
   \<exists>r. mic_loop s cur len fs = Some r \<and> snd (snd r) \<le> length (fst (snd r))"
proof (induction fs arbitrary: s cur len)
  case Nil
  then have l: "len = length cur" by simp
  define q where "q = len - len mod 4"
  have mw: "mic_words s cur (min (length cur) len) len
      = (fold michael_word (words_le (take q cur)) s, drop q cur, len mod 4, len - q)"
    by (simp add: mic_words_eq q_def l)
  have "len - q < 4" by (simp add: q_def)
  then show ?case unfolding mic_loop_Nil [OF mw] using l by simp
next
  case (Cons f fs)
  have f4: "4 \<le> length f" using Cons.prems(2) by simp
  have ll: "length cur + length f \<le> len" using Cons.prems(1) by simp
  define q where "q = length cur - length cur mod 4"
  have q: "q + length cur mod 4 = length cur" by (simp add: q_def)
  have mw: "mic_words s cur (min (length cur) len) len
      = (fold michael_word (words_le (take q cur)) s, drop q cur, length cur mod 4, len - q)"
    using ll by (simp add: mic_words_eq q_def min_def)
  have big: "\<not> len - q < 4" using ll f4 q by linarith
  show ?case
  proof (cases "length cur mod 4 = 0")
    case True
    have "len - q = length f + length (concat fs)" using Cons.prems(1) q True by simp
    from Cons.IH [OF this, of "fold michael_word (words_le (take q cur)) s"] Cons.prems(2)
    show ?thesis unfolding mic_loop_Cons [OF mw] by (simp only: True big if_False simp_thms) simp
  next
    case False
    let ?k = "length cur mod 4"
    have k4: "?k < 4" by simp
    have "length (drop q cur) = ?k" using q by (metis add_diff_cancel_left' length_drop)
    then have "length (take ?k (drop q cur) @ take (4 - ?k) f) = 4" using f4 k4 by simp
    then obtain w where w: "get_le32 (take ?k (drop q cur) @ take (4 - ?k) f) = Some w" using get_le32_words by blast
    have "len - q = length f + ?k + length (concat fs)" using Cons.prems(1) q by simp
    then have l: "len - q - 4 = length (drop (4 - ?k) f) + length (concat fs)" using f4 k4 by simp
    have nf: "\<not> length f < 4 - ?k" using f4 by simp
    from Cons.IH [OF l, of "michael_word w (fold michael_word (words_le (take q cur)) s)"] Cons.prems(2)
    show ?thesis unfolding mic_loop_Cons [OF mw] by (simp only: False big nf w if_False if_True simp_thms option.case) simp
  qed
qed

lemma mic_last_words:
  "length t = n \<Longrightarrow> n < 4 \<Longrightarrow> \<exists>w. mic_last (t @ u) n = Some w \<and> words_le (t @ [0x5a] @ replicate (7 - n) 0) = [w, 0]"
proof -
  assume t: "length t = n" and n: "n < 4"
  have z: "get_le32_split 0 0 0 0 = 0" by (simp add: get_le32_split_def)
  from n consider "n = 0" | "n = 1" | "n = 2" | "n = 3" by linarith
  then show ?thesis
    by cases (use t in \<open>auto simp: length_Suc_conv numeral_eq_Suc z\<close>)
qed

lemma mic_last_Some: "mic_last ds n = Some w \<Longrightarrow> n \<le> length ds"
  by (induction ds n rule: mic_last.induct) auto

text \<open>The end of the code, on a finished loop.\<close>

definition mic_finish :: "(u32 \<times> u32) \<times> u8 list \<times> nat \<Rightarrow> u8 list option" where
  "mic_finish r = (case mic_last (fst (snd r)) (snd (snd r)) of
     None \<Rightarrow> None
   | Some w \<Rightarrow> let (l, r) = michael_block (michael_word w (fst r)) in Some (put_le32 l @ put_le32 r))"

lemma mic_finish_done:
  assumes d: "mic_done s msg len r" and l: "snd (snd r) \<le> length (fst (snd r))"
  shows "mic_finish r = Some (let (l, r) = fold michael_word (words_le (michael_pad (take len msg))) s
    in put_le32 l @ put_le32 r)"
proof -
  let ?n = "len mod 4" and ?msg = "take len msg"
  let ?t = "take ?n (drop (len - ?n) msg)"
  have le: "len \<le> length msg" and n: "snd (snd r) = ?n" using d by (simp_all add: mic_done_def)
  have t: "length ?t = ?n" using le by simp
  have cur: "fst (snd r) = ?t @ drop ?n (fst (snd r))"
    using d append_take_drop_id [of ?n "fst (snd r)"] unfolding mic_done_def by simp
  obtain w where w: "mic_last (?t @ drop ?n (fst (snd r))) ?n = Some w" "words_le (?t @ [0x5a] @ replicate (7 - ?n) 0) = [w, 0]"
    using mic_last_words [OF t, of "drop ?n (fst (snd r))"] mod_less_divisor [of 4 len] by auto
  have split: "?msg = take (len - ?n) msg @ ?t"
    using take_add [of "len - ?n" ?n msg] by (simp add: mod_less_eq_dividend)
  have "michael_pad ?msg = ?msg @ [0x5a] @ replicate (7 - ?n) 0"
    using le by (simp add: michael_pad_def min_absorb2)
  also have "\<dots> = (take (len - ?n) msg @ ?t) @ [0x5a] @ replicate (7 - ?n) 0"
    by (simp only: split [symmetric])
  finally have "words_le (michael_pad ?msg) = words_le (take (len - ?n) msg) @ [w, 0]"
    using words_le_append [of "take (len - ?n) msg"] le w(2) by (simp add: sub_mod_dvd)
  moreover have "fst r = fold michael_word (words_le (take (len - ?n) msg)) s" using d by (simp add: mic_done_def)
  ultimately show ?thesis using w(1) cur n by (simp add: mic_finish_def michael_word_def split: prod.splits)
qed

lemma michael_mic_unfold:
  "michael_mic key (skb # rest) off len =
     (case (michael_mic_hdr skb, get_le32 key, get_le32 (drop 4 key)) of
        (Some hdr, Some l, Some r) \<Rightarrow>
          (case mic_hdr_words hdr (l, r) of None \<Rightarrow> None
           | Some s \<Rightarrow> if length skb < off then None
               else (case mic_loop s (drop off skb) len rest of None \<Rightarrow> None | Some r \<Rightarrow> mic_finish r))
      | _ \<Rightarrow> None)"
  by (auto simp: michael_mic_def mic_finish_def split: option.splits)

lemma michael_mic_hdr_length: "michael_mic_hdr wh = Some hdr \<Longrightarrow> length hdr = 16"
  by (auto simp: michael_mic_hdr_def Let_def slice_Some_iff split: option.splits if_splits)

lemma mic_hdr_words_eq: "length hdr = 16 \<Longrightarrow> mic_hdr_words hdr s = Some (fold michael_word (words_le hdr) s)"
  by (auto simp: length_Suc_conv numeral_eq_Suc mic_hdr_words_def)

lemma michael_pad_append: "4 dvd length xs \<Longrightarrow> michael_pad (xs @ ys) = xs @ michael_pad ys"
  by (auto simp: michael_pad_def elim!: dvdE)

lemma michael_ref_hdr:
  assumes "length hdr = 16" "get_le32 key = Some l" "get_le32 (drop 4 key) = Some r"
  shows "michael_ref key (hdr @ msg) = Some (let (l, r) = fold michael_word (words_le (michael_pad msg))
    (fold michael_word (words_le hdr) (l, r)) in put_le32 l @ put_le32 r)"
  using assms by (simp add: michael_ref_def michael_pad_append words_le_append split: prod.splits)

lemma get_le32_Some: "4 \<le> length w \<Longrightarrow> \<exists>v. get_le32 w = Some v"
  by (cases w rule: get_le32.cases) auto

lemma fold_michael_inj: "fold michael_word ws s = fold michael_word ws t \<Longrightarrow> s = t"
proof (induction ws arbitrary: s t)
  case (Cons w ws)
  then have "michael_word w s = michael_word w t" by auto
  then have "michael_unblock (michael_block (fst s XOR w, snd s)) = michael_unblock (michael_block (fst t XOR w, snd t))"
    by (simp add: michael_word_def)
  then have "fst s XOR w = fst t XOR w" "snd s = snd t" by simp_all
  then have "(fst s XOR w) XOR w = (fst t XOR w) XOR w" by simp
  then have "fst s = fst t" by (simp add: xor.assoc)
  with \<open>snd s = snd t\<close> show ?case by (simp add: prod_eq_iff)
qed simp

section \<open>Properties\<close>

definition demo_hdr :: "u8 list" where
  "demo_hdr = [8, 1, 0, 0] @ [1, 2, 3, 4, 5, 6] @ [7, 8, 9, 10, 11, 12] @ [13, 14, 15, 16, 17, 18] @ [0, 0]"

definition demo_key :: "u8 list" where
  "demo_key = [130, 146, 92, 28, 161, 209, 48, 184]"

text \<open>C10: The software Michael code over the fragments of a packet computes the reference code of the
  concatenated message: whenever it returns, for any fragmentation, and it does return when the data
  ends with the last fragment and every further fragment has at least four bytes.\<close>

theorem michael_mic_correct:
  assumes "michael_mic_hdr skb = Some hdr" and "length key = 8" and "off \<le> length skb"
  shows "(michael_mic key (skb # rest) off len = Some mic \<longrightarrow>
       michael_ref key (hdr @ take len (drop off skb @ concat rest)) = Some mic)
    \<and> (len = length (drop off skb @ concat rest) \<and> (\<forall>f \<in> set rest. 4 \<le> length f) \<longrightarrow>
       michael_mic key (skb # rest) off len = michael_ref key (hdr @ drop off skb @ concat rest))"
proof -
  obtain l r where l: "get_le32 key = Some l" and r: "get_le32 (drop 4 key) = Some r"
  proof -
    have "4 \<le> length key" "4 \<le> length (drop 4 key)" using assms(2) by simp_all
    then show ?thesis using get_le32_Some that by blast
  qed
  define s where "s = fold michael_word (words_le hdr) (l, r)"
  have hdr: "length hdr = 16" by (rule michael_mic_hdr_length [OF assms(1)])
  note ref = michael_ref_hdr [OF hdr l r]
  have eq: "michael_mic key (skb # rest) off len
      = (case mic_loop s (drop off skb) len rest of None \<Rightarrow> None | Some r \<Rightarrow> mic_finish r)"
    using assms l r by (simp add: michael_mic_unfold mic_hdr_words_eq [OF hdr] s_def)
  have fin: "mic_finish x = michael_ref key (hdr @ take len (drop off skb @ concat rest))"
    if "mic_loop s (drop off skb) len rest = Some x" "snd (snd x) \<le> length (fst (snd x))" for x
    using mic_finish_done [OF mic_loop_correct [OF that] that(2)] by (simp add: ref s_def)
  show ?thesis
  proof (intro conjI impI)
    assume "michael_mic key (skb # rest) off len = Some mic"
    then obtain x where x: "mic_loop s (drop off skb) len rest = Some x" "mic_finish x = Some mic"
      unfolding eq by (auto split: option.splits)
    have "snd (snd x) \<le> length (fst (snd x))"
      using x(2) by (auto simp: mic_finish_def dest!: mic_last_Some split: option.splits)
    with fin x show "michael_ref key (hdr @ take len (drop off skb @ concat rest)) = Some mic" by simp
  next
    assume c: "len = length (drop off skb @ concat rest) \<and> (\<forall>f \<in> set rest. 4 \<le> length f)"
    then obtain x where x: "mic_loop s (drop off skb) len rest = Some x" "snd (snd x) \<le> length (fst (snd x))"
      using mic_loop_total [of len "drop off skb" rest s] by auto
    with fin [OF x] c show "michael_mic key (skb # rest) off len = michael_ref key (hdr @ drop off skb @ concat rest)"
      unfolding eq by simp
  qed
qed

theorem michael_mic_correct_witness:
  "michael_mic demo_key [demo_hdr @ [1, 2, 3], [4, 5, 6, 7]] 24 7
     = michael_ref demo_key ([13, 14, 15, 16, 17, 18, 7, 8, 9, 10, 11, 12, 0, 0, 0, 0] @ [1, 2, 3, 4, 5, 6, 7])"
proof -
  have h: "michael_mic_hdr (demo_hdr @ [1, 2, 3]) = Some [13, 14, 15, 16, 17, 18, 7, 8, 9, 10, 11, 12, 0, 0, 0, 0]"
    by code_simp
  have k: "length demo_key = 8" "24 \<le> length (demo_hdr @ [1, 2, 3 :: u8])" by (simp_all add: demo_key_def demo_hdr_def)
  have d: "drop 24 (demo_hdr @ [1, 2, 3]) = [1, 2, 3]" by (simp add: demo_hdr_def)
  have "7 = length (drop 24 (demo_hdr @ [1, 2, 3]) @ concat [[4, 5, 6, 7]]) \<and> (\<forall>f \<in> set [[4, 5, 6, 7 :: u8]]. 4 \<le> length f)"
    unfolding d by simp
  with michael_mic_correct [OF h k, of "[[4, 5, 6, 7]]" 7]
  have "michael_mic demo_key [demo_hdr @ [1, 2, 3], [4, 5, 6, 7]] 24 7 = michael_ref demo_key
    ([13, 14, 15, 16, 17, 18, 7, 8, 9, 10, 11, 12, 0, 0, 0, 0] @ drop 24 (demo_hdr @ [1, 2, 3]) @ concat [[4, 5, 6, 7]])"
    by blast
  then show ?thesis unfolding d by simp
qed

text \<open>On a fixed message the code is invertible in the key: two keys that give the same code are
  equal, because the block function has an inverse.\<close>

theorem michael_key_recoverable:
  assumes "length key = 8" and "length key' = 8" and "michael_ref key msg = michael_ref key' msg"
  shows "key = key' \<and> (\<forall>s. michael_unblock (michael_block s) = s \<and> michael_block (michael_unblock s) = s)"
proof -
  have dec: "\<exists>l r. get_le32 k = Some l \<and> get_le32 (drop 4 k) = Some r \<and> k = put_le32 l @ put_le32 r"
    if "length k = 8" for k
    using that by (auto simp: length_Suc_conv numeral_eq_Suc put_get_le32 [unfolded numeral_eq_Suc])
  obtain l r where k: "get_le32 key = Some l" "get_le32 (drop 4 key) = Some r" "key = put_le32 l @ put_le32 r"
    using dec [OF assms(1)] by blast
  obtain l' r' where k': "get_le32 key' = Some l'" "get_le32 (drop 4 key') = Some r'" "key' = put_le32 l' @ put_le32 r'"
    using dec [OF assms(2)] by blast
  have "fold michael_word (words_le (michael_pad msg)) (l, r) = fold michael_word (words_le (michael_pad msg)) (l', r')"
    using assms(3) k(1,2) k'(1,2) by (auto simp: michael_ref_def put_le32_inj split: prod.splits)
  then have "(l, r) = (l', r')" by (rule fold_michael_inj)
  with k k' show ?thesis by simp
qed

theorem michael_key_recoverable_witness:
  "demo_key = demo_key \<and> michael_unblock (michael_block (1, 2)) = (1, 2)"
  using michael_key_recoverable [of demo_key demo_key "[]"] by (auto simp: demo_key_def)

text \<open>When the last, partial word of the data is split over two fragments, the code reads past the
  end of the first one: the loop stops with fewer than four bytes to go, and the final step takes all
  of them from the first fragment.\<close>

theorem michael_mic_split_tail:
  assumes "off \<le> length f" and "length f - off = 4 * n + i" and "0 < j" and "i + j < 4"
  shows "michael_mic key [f, g] off (4 * n + i + j) = None"
proof -
  let ?cur = "drop off f"
  have m: "(4 * n + i) mod 4 = i" using assms(4) by simp
  have loop: "mic_loop s ?cur (4 * n + i + j) [g] = Some (fold michael_word (words_le (take (4 * n) ?cur)) s, drop (4 * n) ?cur, i + j)" for s
  proof -
    have mw: "mic_words s ?cur (min (length ?cur) (4 * n + i + j)) (4 * n + i + j)
        = (fold michael_word (words_le (take (4 * n) ?cur)) s, drop (4 * n) ?cur, i, i + j)"
      using assms(2) m by (simp add: mic_words_eq min_def)
    show ?thesis unfolding mic_loop_Cons [OF mw] using assms(4) by simp
  qed
  have "\<not> i + j \<le> length (drop (4 * n) ?cur)" using assms(2,3) by simp
  then have "mic_last (drop (4 * n) ?cur) (i + j) = None" using mic_last_Some by (metis not_None_eq)
  then show ?thesis by (simp add: michael_mic_unfold loop mic_finish_def del: mic_loop.simps split: option.split)
qed

theorem michael_mic_split_tail_witness: "michael_mic demo_key [demo_hdr @ [1], [2, 3]] 24 3 = None"
  using michael_mic_split_tail [of 24 "demo_hdr @ [1]" 0 1 2 demo_key "[2, 3]"] by (simp add: demo_hdr_def numeral_3_eq_3)

end
