(* ===== verification/TxWindow.thy ===== *)
theory TxWindow
  imports OsTimer Aggr
begin

text \<open>
  The transmit side of a block-ack session (\<^verbatim>\<open>wifi_drv_xmit.c\<close>) for one traffic id of a station: the
  window of frames handed to the hardware, the aggregation of queued frames into an A-MPDU, and the
  ADDBA handshake with its pause, resume, flush and teardown.
  A queued frame stands for its descriptors up to \<open>txdesc_queue_lastframe\<close>. Sequence numbers and ring
  indices are natural numbers; the invariant keeps them below 4096 and 128. Calls into other layers
  are log entries. \<open>None\<close> is an access outside the ring or a loop that does not return.
\<close>

section \<open>Data\<close>

definition ADDBA_EXCHANGE_ATTEMPTS :: u8 where "ADDBA_EXCHANGE_ATTEMPTS = 10"
definition ADDBA_TIMEOUT :: u32 where "ADDBA_TIMEOUT = 1500"
definition DRV_AGGR_DELIM_SZ :: nat where "DRV_AGGR_DELIM_SZ = 4"
definition DRV_AGGR_MINPLEN :: nat where "DRV_AGGR_MINPLEN = 256"
definition WIFINET_STATUS_UNSPECIFIED :: u8 where "WIFINET_STATUS_UNSPECIFIED = 1"
definition WIFINET_BA_POLICY_IMMEDIATE :: nat where "WIFINET_BA_POLICY_IMMEDIATE = 1"
definition DEFAULT_TXAMPDU_SUB_MAX :: int where "DEFAULT_TXAMPDU_SUB_MAX = 16"

record tx_frame =
  f_id :: nat
  f_seq :: nat
  f_packetlen :: nat
  f_mpdulen :: nat

record tx_tid =
  t_baw_size :: u8
  t_b_work :: bool
  t_paused :: u8
  t_seq_start :: nat
  t_seq_next :: nat
  t_baw_sn_last :: nat
  t_baw_head :: nat
  t_baw_tail :: nat
  t_tx_desc :: "tx_frame option list"
  t_txds_queue :: "tx_frame list"
  t_timer :: os_timer_ext
  t_cleanup_inprogress :: bool
  t_exchangeinprogress :: bool
  t_exchangeattempts :: u8
  t_exchangecomplete :: bool
  t_amsdusupported :: bool
  t_statuscode :: u8

datatype tx_event =
    TxNormal tx_frame
  | TxComplete tx_frame bool
  | HalAddBaOk nat nat u8
  | TidToAc
  | AcToList
  | ListTask
  | BufferSend

record tx_st =
  tid :: tx_tid
  ac_b_work :: bool
  txds_pending_cnt :: u32
  txlist_qcnt :: u32
  cfg_txaggr :: bool
  cfg_txamsdu :: nat
  cfg_ampdu_subframes :: int
  vif_connected :: bool
  tx_log :: "tx_event list"

definition tx_emit :: "tx_event \<Rightarrow> tx_st \<Rightarrow> tx_st" where
  "tx_emit x s = s\<lparr>tx_log := tx_log s @ [x]\<rparr>"

section \<open>The window\<close>

definition BAW_WITHIN :: "nat \<Rightarrow> u8 \<Rightarrow> nat \<Rightarrow> bool" where
  "BAW_WITHIN st bawsz sq \<longleftrightarrow> (int sq - int st) AND 4095 \<le> int (unat bawsz)"

definition ring_dist :: "nat \<Rightarrow> nat \<Rightarrow> int" where
  "ring_dist head tail = (int tail - int head) AND (int DRV_TID_MAX_BUFS - 1)"

definition ring_slot :: "nat \<Rightarrow> nat \<Rightarrow> nat" where
  "ring_slot head index = nat ((int head + int index) AND (int DRV_TID_MAX_BUFS - 1))"

definition drv_tx_add2baw :: "tx_frame \<Rightarrow> tx_tid \<Rightarrow> tx_tid" where
  "drv_tx_add2baw f t =
     (let index = DRV_BA_INDEX (t_seq_start t) (f_seq f);
          desc_id = ring_slot (t_baw_head t) index;
          t = t\<lparr>t_tx_desc := (t_tx_desc t)[desc_id := Some f], t_baw_sn_last := f_seq f\<rparr>
      in if int index \<ge> ring_dist (t_baw_head t) (t_baw_tail t)
         then t\<lparr>t_baw_tail := CIRCLE_Add_One desc_id DRV_TID_MAX_BUFS\<rparr> else t)"

text \<open>The loop that moves the window over empty slots.\<close>

partial_function (option) tx_slide :: "tx_tid \<Rightarrow> tx_tid option" where
  "tx_slide t =
     (if t_baw_head t = t_baw_tail t then Some t
      else (case nth_opt (t_tx_desc t) (t_baw_head t) of
              None \<Rightarrow> None
            | Some d \<Rightarrow>
                if d \<noteq> None then Some t
                else tx_slide (t\<lparr>t_seq_start := CIRCLE_Add_One (t_seq_start t) WIFINET_SEQ_MAX,
                                 t_baw_head := CIRCLE_Add_One (t_baw_head t) DRV_TID_MAX_BUFS\<rparr>)))"

text \<open>A window that is nearly full gives up its first frame.\<close>

definition tx_force :: "int \<Rightarrow> tx_tid \<times> u32 \<Rightarrow> tx_tid \<times> u32" where
  "tx_force subframes tq =
     (let (t, qcnt) = tq in
      if ring_dist (t_baw_head t) (t_baw_tail t)
           \<ge> int (unat (t_baw_size t)) - 1 - min (int (unat (t_baw_size t)) div 2) subframes
         \<and> t_tx_desc t ! t_baw_head t \<noteq> None
      then (t\<lparr>t_tx_desc := (t_tx_desc t)[t_baw_head t := None]\<rparr>, if qcnt > 0 then qcnt - 1 else qcnt)
      else (t, qcnt))"

definition drv_tx_update_ba_win :: "int \<Rightarrow> nat \<Rightarrow> tx_tid \<times> u32 \<Rightarrow> (tx_tid \<times> u32) option" where
  "drv_tx_update_ba_win subframes seqnum tq =
     (let (t, qcnt) = tq; index = DRV_BA_INDEX (t_seq_start t) seqnum in
      if index > unat (t_baw_size t) then Some (t, qcnt)
      else
        let desc_id = ring_slot (t_baw_head t) index;
            t = t\<lparr>t_tx_desc := (t_tx_desc t)[desc_id := None]\<rparr>;
            (t, qcnt) = tx_force subframes (t, qcnt)
        in map_option (\<lambda>t. (t, qcnt)) (tx_slide t))"

section \<open>Aggregation\<close>

definition DRV_AGGR_GET_NDELIM :: "nat \<Rightarrow> nat" where
  "DRV_AGGR_GET_NDELIM len =
     (if len + DRV_AGGR_DELIM_SZ < DRV_AGGR_MINPLEN then DRV_AGGR_MINPLEN - len - DRV_AGGR_DELIM_SZ else 0) div 4"

definition PADBYTES :: "nat \<Rightarrow> nat" where
  "PADBYTES len = (4 - len mod 4) mod 4"

definition bits_per_symbol :: "(nat \<times> nat) list" where
  "bits_per_symbol =
     [(26, 54), (52, 108), (78, 162), (104, 216), (156, 324), (208, 432), (234, 486), (260, 540),
      (52, 108), (104, 216), (156, 324), (208, 432), (312, 648), (416, 864), (468, 972), (520, 1080)]"

definition drv_compute_num_delims :: "nat \<Rightarrow> u8 \<Rightarrow> u8 \<Rightarrow> nat \<Rightarrow> nat" where
  "drv_compute_num_delims mpdudensity flags rate packetlen =
     (let ndelim = DRV_AGGR_GET_NDELIM packetlen in
      if mpdudensity = 0 then ndelim
      else
        let half_gi = flags AND 4 \<noteq> 0;
            nsymbols = (if half_gi then (mpdudensity * 5 - 4) div 18 else mpdudensity div 4);
            nsymbols = (if nsymbols = 0 then 1 else nsymbols);
            row = bits_per_symbol ! unat (rate AND 0xf);
            nsymbits = (if flags AND 2 \<noteq> 0 then snd row else fst row);
            minlen = nsymbols * nsymbits div 8 mod 65536
        in if packetlen < minlen then max ((minlen - packetlen) div DRV_AGGR_DELIM_SZ) ndelim else ndelim)"

text \<open>What the build collects: the frames with their delimiters, the length, the padding owed to
  the last frame, and the pages.\<close>

record ampdu =
  a_frames :: "(tx_frame \<times> nat) list"
  a_al :: nat
  a_bpad :: nat
  a_pages :: nat

text \<open>The loop of \<open>drv_txampdu_build\<close> over the queue. \<open>nd\<close> gives the delimiters and \<open>page\<close> the pages
  of a frame. Result: the status, the rest of the queue, the state and the A-MPDU.\<close>

fun ampdu_loop ::
    "(nat \<Rightarrow> nat) \<Rightarrow> (nat \<Rightarrow> nat) \<Rightarrow> nat \<Rightarrow> int \<Rightarrow> tx_frame list \<Rightarrow> tx_tid \<Rightarrow> u32 \<Rightarrow> ampdu
     \<Rightarrow> int \<times> tx_frame list \<times> tx_tid \<times> u32 \<times> ampdu" where
  "ampdu_loop nd page aggr_limit max_frames [] t pending a = (0, [], t, pending, a)"
| "ampdu_loop nd page aggr_limit max_frames (f # q) t pending a =
     (if \<not> BAW_WITHIN (t_seq_start t) (t_baw_size t) (f_seq f) then (1, f # q, t, pending, a)
      else
        let al_delta = (DRV_AGGR_DELIM_SZ + f_packetlen f) mod 65536; n = length (a_frames a) in
        if n \<noteq> 0 \<and> aggr_limit < a_al a + a_bpad a + al_delta then (2, f # q, t, pending, a)
        else if int n \<ge> max_frames then (2, f # q, t, pending, a)
        else
          let ndelim = nd (f_packetlen f) in
          ampdu_loop nd page aggr_limit max_frames q (drv_tx_add2baw f t)
            (if pending > 0 then pending - 1 else pending)
            \<lparr>a_frames = a_frames a @ [(f, ndelim)], a_al = (a_al a + a_bpad a + al_delta) mod 65536,
             a_bpad = (PADBYTES al_delta + ndelim * 4) mod 65536,
             a_pages = a_pages a + page (f_mpdulen f)\<rparr>)"

definition drv_txampdu_build ::
    "(nat \<Rightarrow> nat) \<Rightarrow> (nat \<Rightarrow> nat) \<Rightarrow> nat \<Rightarrow> tx_st \<Rightarrow> (int \<times> ampdu \<times> tx_st) option" where
  "drv_txampdu_build nd page aggr_limit s =
     (let t = tid s; none = \<lparr>a_frames = [], a_al = 0, a_bpad = 0, a_pages = 0\<rparr>;
          max_frames = min (int (unat (t_baw_size t) div 2)) (cfg_ampdu_subframes s) in
      case t_txds_queue t of
        [] \<Rightarrow> None
      | f # _ \<Rightarrow>
          if (int (f_seq f) + max_frames - int (t_seq_start t)) AND 4095 > int (unat (t_baw_size t)) then Some (0, none, s)
          else
            let (status, q, t, pending, a) =
                  ampdu_loop nd page aggr_limit max_frames (t_txds_queue t) t (txds_pending_cnt s) none
            in Some (status, a, s\<lparr>tid := t\<lparr>t_txds_queue := q\<rparr>, txds_pending_cnt := pending\<rparr>))"

section \<open>Pause, resume and flush\<close>

definition set_tid :: "(tx_tid \<Rightarrow> tx_tid) \<Rightarrow> tx_st \<Rightarrow> tx_st" where
  "set_tid g s = s\<lparr>tid := g (tid s)\<rparr>"

definition drv_txlist_pause_for_sta_tid :: "tx_st \<Rightarrow> tx_st" where
  "drv_txlist_pause_for_sta_tid s = set_tid (\<lambda>t. t\<lparr>t_paused := t_paused t + 1\<rparr>) s"

text \<open>The traffic id is linked into its access category, and that into the transmit list.\<close>

definition drv_tx_queue_tid :: "tx_st \<Rightarrow> tx_st" where
  "drv_tx_queue_tid s =
     (if t_paused (tid s) \<noteq> 0 then s
      else if t_b_work (tid s) then s
      else
        let s = tx_emit TidToAc (set_tid (\<lambda>t. t\<lparr>t_b_work := True\<rparr>) s) in
        if ac_b_work s then s else tx_emit AcToList (s\<lparr>ac_b_work := True\<rparr>))"

definition drv_txlist_resume_for_sta_tid :: "tx_st \<Rightarrow> tx_st" where
  "drv_txlist_resume_for_sta_tid s =
     (let s = set_tid (\<lambda>t. t\<lparr>t_paused := t_paused t - 1\<rparr>) s in
      if t_paused (tid s) > 0 then s
      else if t_txds_queue (tid s) = [] then s
      else tx_emit ListTask (drv_tx_queue_tid s))"

text \<open>Each queued frame goes out on its own when the interface is connected, and is completed as not
  sent otherwise.\<close>

fun flush_loop :: "tx_frame list \<Rightarrow> tx_st \<Rightarrow> tx_st" where
  "flush_loop [] s = set_tid (\<lambda>t. t\<lparr>t_txds_queue := []\<rparr>) s"
| "flush_loop (f # q) s =
     (let s = s\<lparr>txds_pending_cnt := txds_pending_cnt s - 1\<rparr> in
      flush_loop q (tx_emit (if vif_connected s then TxNormal f else TxComplete f False) s))"

definition drv_txlist_flush_for_sta_tid :: "tx_st \<Rightarrow> tx_st" where
  "drv_txlist_flush_for_sta_tid s =
     (let s = set_tid (\<lambda>t. t\<lparr>t_paused := t_paused t - 1\<rparr>) s in
      if t_paused (tid s) > 0 then s else flush_loop (t_txds_queue (tid s)) s)"

section \<open>The ADDBA handshake\<close>

definition drv_aggr_check :: "tx_st \<Rightarrow> bool \<times> tx_st" where
  "drv_aggr_check s =
     (let t = tid s in
      if \<not> cfg_txaggr s then (False, s)
      else if t_cleanup_inprogress t then (False, s)
      else if \<not> t_exchangecomplete t \<and> \<not> t_exchangeinprogress t \<and> t_exchangeattempts t < ADDBA_EXCHANGE_ATTEMPTS
      then (True, set_tid (\<lambda>t. t\<lparr>t_exchangeattempts := t_exchangeattempts t + 1\<rparr>) s)
      else (False, s))"

definition drv_aggr_tid :: "tx_st \<Rightarrow> bool" where
  "drv_aggr_tid s =
     (let t = tid s in
      if \<not> cfg_txaggr s then False
      else if t_cleanup_inprogress t then False
      else if \<not> t_exchangecomplete t then t_exchangeinprogress t
      else True)"

definition drv_aggr_allow_to_send :: "tx_st \<Rightarrow> bool" where
  "drv_aggr_allow_to_send s =
     (let t = tid s in
      if \<not> cfg_txaggr s \<or> t_exchangecomplete t then True
      else if t_cleanup_inprogress t \<or> t_exchangeinprogress t then False
      else True)"

definition drv_get_amsdu_supported :: "tx_st \<Rightarrow> bool" where
  "drv_get_amsdu_supported s =
     (if cfg_txaggr s \<and> cfg_txamsdu s \<noteq> 0 \<and> t_exchangecomplete (tid s) then t_amsdusupported (tid s) else False)"

definition cancel_addba_timer :: "tx_st \<Rightarrow> tx_st" where
  "cancel_addba_timer s = set_tid (\<lambda>t. t\<lparr>t_timer := snd (os_timer_ex_cancel (\<lambda>_. False) (t_timer t))\<rparr>) s"

text \<open>\<open>cmpxchg(&tid->addba_exchangeinprogress, 1, 0) == 1\<close>: whether this caller ends the exchange.\<close>

definition end_exchange :: "tx_st \<Rightarrow> bool \<times> tx_st" where
  "end_exchange s = (t_exchangeinprogress (tid s), set_tid (\<lambda>t. t\<lparr>t_exchangeinprogress := False\<rparr>) s)"

definition drv_addba_timer_ex :: "tx_st \<Rightarrow> tx_st" where
  "drv_addba_timer_ex s =
     (let (mine, s) = end_exchange s;
          s = (if mine then tx_emit BufferSend (drv_txlist_flush_for_sta_tid s) else s)
      in cancel_addba_timer s)"

definition drv_addba_req_setup :: "nat \<Rightarrow> nat \<Rightarrow> tx_st \<Rightarrow> ba_parameterset \<times> u16 \<times> nat \<times> tx_st" where
  "drv_addba_req_setup tid_index bufsize s =
     (let p = \<lparr>amsdusupported = cfg_txamsdu s mod 2, bapolicy = WIFINET_BA_POLICY_IMMEDIATE,
                ba_tid = tid_index mod 16, buffersize = bufsize mod 1024\<rparr>;
          startseq = t_seq_next (tid s);
          s = set_tid (\<lambda>t. t\<lparr>t_seq_start := t_seq_next t\<rparr>) s;
          s = (if \<not> t_exchangeinprogress (tid s) then
                 let s = set_tid (\<lambda>t. t\<lparr>t_exchangeinprogress := True\<rparr>) s in
                 if \<not> os_timer_ex_active (t_timer (tid s))
                 then set_tid (\<lambda>t. t\<lparr>t_timer := os_timer_ex_start (t_timer t)\<rparr>) s else s
               else s)
      in (p, 0, startseq, drv_txlist_pause_for_sta_tid s))"

definition drv_addba_rsp_process :: "u16 \<Rightarrow> ba_parameterset \<Rightarrow> tx_st \<Rightarrow> tx_st" where
  "drv_addba_rsp_process sc p s =
     (if ba_tid p \<ge> WME_NUM_TID then s
      else
        let (resume, s) = end_exchange s;
            s = (if resume then cancel_addba_timer s else s);
            s = set_tid (\<lambda>t. t\<lparr>t_statuscode := ucast sc\<rparr>) s
        in if sc = WIFINET_STATUS_SUCCESS then
             let s = set_tid (\<lambda>t. t\<lparr>t_exchangecomplete := True, t_baw_size := of_nat (buffersize p)\<rparr>) s;
                 am = (cfg_txamsdu s \<noteq> 0 \<and> amsdusupported p \<noteq> 0);
                 s = (set_tid (\<lambda>t. t\<lparr>t_amsdusupported := am\<rparr>) s)
                       \<lparr>cfg_ampdu_subframes := (if am then 16 else DEFAULT_TXAMPDU_SUB_MAX)\<rparr>
             in if resume
                then drv_txlist_resume_for_sta_tid
                       (tx_emit (HalAddBaOk (ba_tid p) (t_seq_start (tid s)) (t_baw_size (tid s))) s)
                else s
           else if resume then drv_txlist_flush_for_sta_tid s else s)"

definition drv_addba_status :: "tx_st \<Rightarrow> u16" where
  "drv_addba_status s =
     (let t = tid s in
      if t_statuscode t = 0 \<and> \<not> t_exchangecomplete t then 0xFFFF else ucast (t_statuscode t))"

text \<open>The part of \<open>drv_addba_clear\<close> for one transmit traffic id.\<close>

definition drv_addba_clear_tid :: "tx_st \<Rightarrow> tx_st" where
  "drv_addba_clear_tid s =
     (if t_exchangecomplete (tid s)
      then set_tid (\<lambda>t. t\<lparr>t_exchangecomplete := False, t_exchangeattempts := 0,
                          t_statuscode := WIFINET_STATUS_UNSPECIFIED, t_paused := 0\<rparr>) s
      else s)"

section \<open>Teardown\<close>

text \<open>The scoreboard has been initialised, so the access category that \<^verbatim>\<open>drv_txampdu_del\<close> tests first is set.\<close>

definition reset_exchange :: "tx_tid \<Rightarrow> tx_tid" where
  "reset_exchange t = t\<lparr>t_exchangecomplete := False, t_exchangeattempts := 0,
     t_statuscode := WIFINET_STATUS_UNSPECIFIED\<rparr>"

definition drv_txampdu_del :: "tx_st \<Rightarrow> tx_st" where
  "drv_txampdu_del s =
     (if t_cleanup_inprogress (tid s) then s
      else if \<not> t_exchangecomplete (tid s)
      then set_tid (\<lambda>t. t\<lparr>t_exchangeattempts := 0, t_statuscode := WIFINET_STATUS_UNSPECIFIED\<rparr>) s
      else
        let (mine, s) = end_exchange s;
            s = (if mine then cancel_addba_timer s else s);
            s = drv_txlist_pause_for_sta_tid s;
            s = (if t_baw_head (tid s) \<noteq> t_baw_tail (tid s)
                 then set_tid (\<lambda>t. t\<lparr>t_cleanup_inprogress := True\<rparr>) s
                 else set_tid reset_exchange s)
        in drv_txlist_flush_for_sta_tid s)"

text \<open>What the completion of a frame does to its session.\<close>

definition tx_ba_complete :: "nat \<Rightarrow> tx_st \<Rightarrow> tx_st option" where
  "tx_ba_complete seqnum s =
     (case drv_tx_update_ba_win (cfg_ampdu_subframes s) seqnum (tid s, txlist_qcnt s) of
        None \<Rightarrow> None
      | Some (t, qcnt) \<Rightarrow>
          Some (s\<lparr>tid := (if t_cleanup_inprogress t \<and> t_baw_head t = t_baw_tail t
                          then (reset_exchange t)\<lparr>t_cleanup_inprogress := False\<rparr> else t),
                  txlist_qcnt := qcnt\<rparr>))"

fun drv_tid_swq_cleanup :: "tx_frame list \<Rightarrow> tx_st \<Rightarrow> tx_st" where
  "drv_tid_swq_cleanup [] s = set_tid (\<lambda>t. t\<lparr>t_txds_queue := []\<rparr>) s"
| "drv_tid_swq_cleanup (f # q) s =
     drv_tid_swq_cleanup q (tx_emit (TxComplete f False) (s\<lparr>txds_pending_cnt := txds_pending_cnt s - 1\<rparr>))"

definition drv_tid_drain :: "tx_st \<Rightarrow> tx_st" where
  "drv_tid_drain s =
     set_tid (\<lambda>t. t\<lparr>t_seq_next := t_seq_start t, t_baw_tail := t_baw_head t\<rparr>)
       (drv_tid_swq_cleanup (t_txds_queue (tid s)) s)"

definition drv_tid_cleanup :: "tx_st \<Rightarrow> tx_st" where
  "drv_tid_cleanup s =
     (let s = drv_tid_swq_cleanup (t_txds_queue (tid s)) s in
      if t_cleanup_inprogress (tid s) then s
      else if t_baw_head (tid s) \<noteq> t_baw_tail (tid s)
      then set_tid (\<lambda>t. t\<lparr>t_paused := t_paused t + 1, t_cleanup_inprogress := True\<rparr>) s
      else set_tid reset_exchange s)"

section \<open>The window as a list\<close>

definition win_len :: "tx_tid \<Rightarrow> nat" where
  "win_len t = cdist (t_baw_head t) (t_baw_tail t) 128"

definition win :: "tx_tid \<Rightarrow> tx_frame option list" where
  "win t = ring_view (t_tx_desc t) (t_baw_head t) (win_len t)"

definition outstanding :: "tx_tid \<Rightarrow> tx_frame set" where
  "outstanding t = {f. Some f \<in> set (win t)}"

text \<open>Slots outside the window are empty, a frame in the window lies where its sequence number says,
  and the window is not longer than the negotiated size plus one.\<close>

definition tx_wf :: "tx_tid \<Rightarrow> bool" where
  "tx_wf t \<longleftrightarrow> length (t_tx_desc t) = 128 \<and> t_baw_head t < 128 \<and> t_baw_tail t < 128 \<and> t_seq_start t < 4096
     \<and> unat (t_baw_size t) \<le> 126 \<and> win_len t \<le> unat (t_baw_size t) + 1
     \<and> (\<forall>i < 128. win_len t \<le> i \<longrightarrow> t_tx_desc t ! ((t_baw_head t + i) mod 128) = None)
     \<and> (\<forall>i < win_len t. \<forall>f. t_tx_desc t ! ((t_baw_head t + i) mod 128) = Some f \<longrightarrow> f_seq f = (t_seq_start t + i) mod 4096)"

lemma tx_wfD:
  assumes "tx_wf t"
  shows "length (t_tx_desc t) = 128" "t_baw_head t < 128" "t_baw_tail t < 128" "t_seq_start t < 4096"
    "unat (t_baw_size t) \<le> 126" "win_len t \<le> unat (t_baw_size t) + 1"
    "\<And>i. i < 128 \<Longrightarrow> win_len t \<le> i \<Longrightarrow> t_tx_desc t ! ((t_baw_head t + i) mod 128) = None"
    "\<And>i f. i < win_len t \<Longrightarrow> t_tx_desc t ! ((t_baw_head t + i) mod 128) = Some f \<Longrightarrow> f_seq f = (t_seq_start t + i) mod 4096"
  using assms by (auto simp: tx_wf_def)

lemma ring_dist_eq: "ring_dist h k = int (cdist h k 128)"
  by (simp add: ring_dist_def cdist_def DRV_TID_MAX_BUFS_def int_and_127)

lemma ring_slot_eq: "ring_slot h i = (h + i) mod 128"
proof -
  have "ring_slot h i = nat (int (h + i) mod int 128)" by (simp add: ring_slot_def DRV_TID_MAX_BUFS_def int_and_127)
  then show ?thesis by (metis nat_int zmod_int)
qed

lemma BAW_WITHIN_eq: "BAW_WITHIN st b sq \<longleftrightarrow> DRV_BA_INDEX st sq \<le> unat b"
  by (simp add: BAW_WITHIN_def DRV_BA_INDEX_cdist cdist_def int_and_4095 nat_le_iff)

lemma length_win [simp]: "length (win t) = win_len t"
  by (simp add: win_def)

lemma win_len_less: "win_len t < 128"
  by (simp add: win_len_def cdist_less)

lemma tail_eq: "tx_wf t \<Longrightarrow> t_baw_tail t = (t_baw_head t + win_len t) mod 128"
  using add_cdist [of "t_baw_head t" 128 "t_baw_tail t"] by (simp add: win_len_def tx_wfD)

lemma win_empty_iff: "tx_wf t \<Longrightarrow> win t = [] \<longleftrightarrow> t_baw_head t = t_baw_tail t"
  using cdist_0_iff [of "t_baw_head t" 128 "t_baw_tail t"] tx_wfD [of t]
  by (metis length_0_conv length_win win_len_def)

lemma win_nth: "i < win_len t \<Longrightarrow> length (t_tx_desc t) = 128 \<Longrightarrow> win t ! i = t_tx_desc t ! ((t_baw_head t + i) mod 128)"
  by (simp add: win_def)

text \<open>Sliding over \<open>m\<close> empty slots.\<close>

definition slide_by :: "nat \<Rightarrow> tx_tid \<Rightarrow> tx_tid" where
  "slide_by m t = t\<lparr>t_seq_start := (t_seq_start t + m) mod 4096, t_baw_head := (t_baw_head t + m) mod 128\<rparr>"

lemma win_len_slide_by:
  assumes "tx_wf t" "m \<le> win_len t"
  shows "win_len (slide_by m t) = win_len t - m"
proof -
  have "(t_baw_head t + win_len t) mod 128 = ((t_baw_head t + m) mod 128 + (win_len t - m)) mod 128"
    unfolding mod_add_left_eq using assms(2) by simp
  then have "t_baw_tail t = ((t_baw_head t + m) mod 128 + (win_len t - m)) mod 128" using tail_eq [OF assms(1)] by simp
  then show ?thesis
    using cdist_add [of "(t_baw_head t + m) mod 128" 128 "win_len t - m"] win_len_less [of t]
    unfolding win_len_def [of "slide_by m t"] by (simp add: slide_by_def)
qed

lemma slide_by_wf:
  assumes wf: "tx_wf t" and m: "m \<le> win_len t" and z: "\<And>i. i < m \<Longrightarrow> win t ! i = None"
  shows "tx_wf (slide_by m t)" and "win (slide_by m t) = drop m (win t)"
proof -
  note w = tx_wfD [OF wf]
  note l = win_len_slide_by [OF wf m]
  have at: "((t_baw_head t + m) mod 128 + i) mod 128 = (t_baw_head t + (m + i)) mod 128" for i
    by (simp add: mod_simps add.assoc)
  show "tx_wf (slide_by m t)"
    unfolding tx_wf_def l
  proof (intro conjI allI impI)
    fix i :: nat assume i: "i < 128" "win_len t - m \<le> i"
    show "t_tx_desc (slide_by m t) ! ((t_baw_head (slide_by m t) + i) mod 128) = None"
    proof (cases "m + i < 128")
      case True
      with w(7) [of "m + i"] i show ?thesis by (simp add: slide_by_def at)
    next
      case False
      define j where "j = m + i - 128"
      have j: "j < m" "m + i = j + 128" using False i by (auto simp: j_def)
      have "(t_baw_head t + (m + i)) mod 128 = (t_baw_head t + j) mod 128"
        unfolding j(2) by (metis add.assoc mod_add_self2)
      moreover have "t_tx_desc t ! ((t_baw_head t + j) mod 128) = None"
        using z [OF j(1)] j(1) m w(1) by (simp add: win_nth)
      ultimately show ?thesis by (simp add: slide_by_def at)
    qed
  next
    fix i f assume i: "i < win_len t - m" and f: "t_tx_desc (slide_by m t) ! ((t_baw_head (slide_by m t) + i) mod 128) = Some f"
    then have "f_seq f = (t_seq_start t + (m + i)) mod 4096"
      using w(8) [of "m + i" f] by (simp add: slide_by_def at)
    then show "f_seq f = (t_seq_start (slide_by m t) + i) mod 4096" by (simp add: slide_by_def mod_simps add.assoc)
  qed (use w in \<open>auto simp: slide_by_def\<close>)
  have lw: "length (win (slide_by m t)) = win_len t - m" by (simp add: l)
  show "win (slide_by m t) = drop m (win t)"
  proof (rule nth_equalityI)
    fix i assume "i < length (win (slide_by m t))"
    then have i: "i < win_len t - m" by (simp add: l)
    then have "win (slide_by m t) ! i = t_tx_desc t ! ((t_baw_head t + (m + i)) mod 128)"
      using win_nth [of i "slide_by m t"] l w(1) by (simp add: slide_by_def at)
    with i w(1) show "win (slide_by m t) ! i = drop m (win t) ! i" by (simp add: win_nth)
  qed (simp add: l)
qed

lemma slide_by_slide_by: "slide_by n (slide_by m t) = slide_by (m + n) t"
  by (simp add: slide_by_def mod_simps add.assoc)

lemma slide_by_0: "tx_wf t \<Longrightarrow> slide_by 0 t = t"
  by (simp add: slide_by_def tx_wfD)

lemma tx_slide_spec:
  "tx_wf t \<Longrightarrow> tx_slide t = Some (slide_by (length (takeWhile ((=) None) (win t))) t)"
proof (induction "win_len t" arbitrary: t)
  case 0
  then have "win t = []" by (metis length_0_conv length_win)
  then show ?case using win_empty_iff [OF 0(2)] slide_by_0 [OF 0(2)] by (subst tx_slide.simps) simp
next
  case (Suc k)
  note w = tx_wfD [OF Suc(3)]
  have ne: "win t \<noteq> []" using Suc(2) by (metis length_0_conv length_win nat.distinct(1))
  then have ht: "t_baw_head t \<noteq> t_baw_tail t" using win_empty_iff [OF Suc(3)] by blast
  have hd: "t_tx_desc t ! t_baw_head t = win t ! 0" using win_nth [of 0 t] Suc(2) w(1,2) by simp
  obtain x xs where x: "win t = x # xs" using ne by (cases "win t") auto
  show ?case
  proof (cases "x = None")
    case False
    then obtain y where "x = Some y" by auto
    with hd x ht w(1,2) slide_by_0 [OF Suc(3)] show ?thesis by (subst tx_slide.simps) simp
  next
    case True
    have z: "\<And>i. i < 1 \<Longrightarrow> win t ! i = None" using x True by simp
    have le: "1 \<le> win_len t" using Suc(2) by simp
    note s1 = slide_by_wf [OF Suc(3) le z]
    have eq: "t\<lparr>t_seq_start := CIRCLE_Add_One (t_seq_start t) WIFINET_SEQ_MAX,
        t_baw_head := CIRCLE_Add_One (t_baw_head t) DRV_TID_MAX_BUFS\<rparr> = slide_by 1 t"
      using w(2,4) by (simp add: slide_by_def CIRCLE_Add_One_mod WIFINET_SEQ_MAX_def DRV_TID_MAX_BUFS_def)
    have "tx_slide t = tx_slide (slide_by 1 t)"
      using hd x True ht w(1,2) eq by (subst tx_slide.simps) simp
    also have "\<dots> = Some (slide_by (length (takeWhile ((=) None) (win (slide_by 1 t)))) (slide_by 1 t))"
      using Suc(1) [OF _ s1(1)] win_len_slide_by [OF Suc(3) le] Suc(2) by simp
    also have "\<dots> = Some (slide_by (length (takeWhile ((=) None) (win t))) t)"
      using s1(2) x True by (simp add: slide_by_slide_by)
    finally show ?thesis .
  qed
qed

lemma slide_none: "i < length (takeWhile ((=) None) xs) \<Longrightarrow> xs ! i = None"
  using nth_mem [of i "takeWhile ((=) None) xs"] takeWhile_nth [of i "(=) None" xs] set_takeWhileD by fastforce

text \<open>Writing a slot of the window.\<close>

lemma win_update:
  assumes wf: "tx_wf t" and i: "i < 128"
    and x: "\<And>f. x = Some f \<Longrightarrow> i < win_len t \<and> f_seq f = (t_seq_start t + i) mod 4096"
  shows "tx_wf (t\<lparr>t_tx_desc := (t_tx_desc t)[(t_baw_head t + i) mod 128 := x]\<rparr>)"
    and "win (t\<lparr>t_tx_desc := (t_tx_desc t)[(t_baw_head t + i) mod 128 := x]\<rparr>) = (win t)[i := x]"
proof -
  let ?t = "t\<lparr>t_tx_desc := (t_tx_desc t)[(t_baw_head t + i) mod 128 := x]\<rparr>"
  note w = tx_wfD [OF wf]
  have l: "win_len ?t = win_len t" by (simp add: win_len_def)
  have at: "t_tx_desc ?t ! ((t_baw_head t + j) mod 128) = (if j = i then x else t_tx_desc t ! ((t_baw_head t + j) mod 128))"
    if "j < 128" for j
    using mod_add_inj [of j 128 i "t_baw_head t"] that i w(1) by (auto simp: nth_list_update)
  show "tx_wf ?t"
    unfolding tx_wf_def l
  proof (intro conjI allI impI)
    fix j :: nat assume j: "j < 128" "win_len t \<le> j"
    have "x = None" if "j = i" using x j(2) that by (cases x) auto
    then show "t_tx_desc ?t ! ((t_baw_head ?t + j) mod 128) = None"
      using at [OF j(1)] w(7) [OF j] by simp
  next
    fix j f assume j: "j < win_len t" and f: "t_tx_desc ?t ! ((t_baw_head ?t + j) mod 128) = Some f"
    then have "j < 128" using win_len_less [of t] by simp
    with f at j w(8) [OF j] x show "f_seq f = (t_seq_start ?t + j) mod 4096" by (auto split: if_splits)
  qed (use w in auto)
  show "win ?t = (win t)[i := x]"
  proof (cases "i < win_len t")
    case True
    have "win_len t \<le> length (t_tx_desc t)" using win_len_less [of t] w(1) by simp
    from ring_view_update_in [OF True this, of "t_baw_head t" x] show ?thesis unfolding win_def l using w(1) by simp
  next
    case False
    then have "win_len t \<le> i" "i < length (t_tx_desc t)" using i w(1) by simp_all
    from ring_view_update_out [OF this, of "t_baw_head t" x] have "win ?t = win t" unfolding win_def l using w(1) by simp
    moreover have "(win t)[i := x] = win t" using False by (intro list_update_beyond) simp
    ultimately show ?thesis by simp
  qed
qed

text \<open>What an acknowledgement does to the window: the slot is emptied, a window that is nearly full
  gives up its first frame, and leading empty slots are passed.\<close>

definition win_crowded :: "int \<Rightarrow> nat \<Rightarrow> tx_frame option list \<Rightarrow> bool" where
  "win_crowded subframes bs w \<longleftrightarrow> int (length w) \<ge> int bs - 1 - min (int bs div 2) subframes"

definition win_give :: "int \<Rightarrow> nat \<Rightarrow> tx_frame option list \<Rightarrow> tx_frame option list" where
  "win_give subframes bs w = (if win_crowded subframes bs w then w[0 := None] else w)"

definition win_ack :: "int \<Rightarrow> nat \<Rightarrow> nat \<Rightarrow> tx_frame option list \<Rightarrow> tx_frame option list" where
  "win_ack subframes bs i w =
     (if i > bs then w else dropWhile ((=) None) (win_give subframes bs (w[i := None])))"

lemma tx_force_spec:
  assumes wf: "tx_wf t"
  shows "\<exists>t' q'. tx_force sf (t, q) = (t', q') \<and> tx_wf t' \<and> win t' = win_give sf (unat (t_baw_size t)) (win t)
    \<and> win_len t' = win_len t \<and> t' = t\<lparr>t_tx_desc := t_tx_desc t'\<rparr>
    \<and> (q' = q \<or> q' = q - 1)"
proof -
  note w = tx_wfD [OF wf]
  have rd: "ring_dist (t_baw_head t) (t_baw_tail t) = int (length (win t))" by (simp add: ring_dist_eq win_len_def)
  show ?thesis
  proof (cases "win_crowded sf (unat (t_baw_size t)) (win t) \<and> t_tx_desc t ! t_baw_head t \<noteq> None")
    case True
    let ?t = "t\<lparr>t_tx_desc := (t_tx_desc t)[t_baw_head t := None]\<rparr>"
    have "tx_wf ?t" "win ?t = (win t)[0 := None]" using win_update [OF wf, of 0 None] w(2) by simp_all
    moreover have "win_len ?t = win_len t" by (simp add: win_len_def)
    ultimately show ?thesis using True by (simp add: tx_force_def rd win_give_def win_crowded_def)
  next
    case False
    have "win_give sf (unat (t_baw_size t)) (win t) = win t"
    proof (cases "win_crowded sf (unat (t_baw_size t)) (win t)")
      case True
      with False have z: "t_tx_desc t ! t_baw_head t = None" by simp
      have "(win t)[0 := None] = win t"
      proof (cases "win_len t = 0")
        case True
        then show ?thesis by (intro list_update_beyond) simp
      next
        case False
        then have "win t ! 0 = None" using win_nth [of 0 t] w(1,2) z by simp
        then show ?thesis by (metis list_update_id)
      qed
      with True show ?thesis by (simp add: win_give_def)
    qed (simp add: win_give_def)
    with False wf show ?thesis by (auto simp: tx_force_def rd win_crowded_def)
  qed
qed

lemma update_ba_win_spec:
  assumes wf: "tx_wf t" and d: "DRV_BA_INDEX (t_seq_start t) sn = i"
  shows "\<exists>t' q'. drv_tx_update_ba_win sf sn (t, q) = Some (t', q') \<and> tx_wf t'
    \<and> win t' = win_ack sf (unat (t_baw_size t)) i (win t)
    \<and> t' = t\<lparr>t_tx_desc := t_tx_desc t', t_seq_start := t_seq_start t', t_baw_head := t_baw_head t'\<rparr>
    \<and> t_seq_start t' = (t_seq_start t + (win_len t - win_len t')) mod 4096 \<and> (q' = q \<or> q' = q - 1)"
proof (cases "i > unat (t_baw_size t)")
  case True
  with wf d show ?thesis by (simp add: drv_tx_update_ba_win_def win_ack_def tx_wfD)
next
  case False
  note w = tx_wfD [OF wf]
  have i: "i < 128" using False w(5) by simp
  let ?t1 = "t\<lparr>t_tx_desc := (t_tx_desc t)[(t_baw_head t + i) mod 128 := None]\<rparr>"
  have t1: "tx_wf ?t1" "win ?t1 = (win t)[i := None]" using win_update [OF wf i, of None] by simp_all
  have l1: "win_len ?t1 = win_len t" by (simp add: win_len_def)
  obtain t2 q' where t2: "tx_force sf (?t1, q) = (t2, q')" "tx_wf t2"
      "win t2 = win_give sf (unat (t_baw_size t)) ((win t)[i := None])" "win_len t2 = win_len t"
      "t2 = ?t1\<lparr>t_tx_desc := t_tx_desc t2\<rparr>" "q' = q \<or> q' = q - 1"
    using tx_force_spec [OF t1(1), of sf q] t1(2) l1 by auto
  define m where "m = length (takeWhile ((=) None) (win t2))"
  have m: "m \<le> win_len t2" using length_takeWhile_le [of "(=) None" "win t2"] by (simp add: m_def)
  have z: "\<And>j. j < m \<Longrightarrow> win t2 ! j = None" by (simp add: m_def slide_none)
  note s = slide_by_wf [OF t2(2) m z]
  have "drv_tx_update_ba_win sf sn (t, q) = Some (slide_by m t2, q')"
    using False d t2(1) tx_slide_spec [OF t2(2)] by (simp add: drv_tx_update_ba_win_def Let_def ring_slot_eq m_def)
  moreover have "win (slide_by m t2) = win_ack sf (unat (t_baw_size t)) i (win t)"
    using False s(2) t2(3) by (simp add: win_ack_def m_def dropWhile_eq_drop)
  moreover have "win_len (slide_by m t2) = win_len t - m" using win_len_slide_by [OF t2(2) m] t2(4) by simp
  moreover have "m \<le> win_len t" using m t2(4) by simp
  moreover have "t_seq_start t2 = t_seq_start t" by (subst t2(5)) simp
  moreover have "slide_by m t2 = t\<lparr>t_tx_desc := t_tx_desc (slide_by m t2), t_seq_start := t_seq_start (slide_by m t2),
      t_baw_head := t_baw_head (slide_by m t2)\<rparr>"
  proof -
    have "t_seq_start t2 = t_seq_start t" "t_baw_head t2 = t_baw_head t" by (subst t2(5), simp)+
    then show ?thesis by (subst (1) t2(5)) (simp add: slide_by_def)
  qed
  ultimately show ?thesis using s(1) t2(6) by (auto simp: slide_by_def [of m t2])
qed

definition win_add :: "nat \<Rightarrow> tx_frame \<Rightarrow> tx_frame option list \<Rightarrow> tx_frame option list" where
  "win_add i f w = (if i < length w then w[i := Some f] else w @ replicate (i - length w) None @ [Some f])"

lemma win_extend:
  assumes wf: "tx_wf t" and i: "i \<le> unat (t_baw_size t)" "win_len t \<le> i"
  shows "tx_wf (t\<lparr>t_baw_tail := (t_baw_head t + i + 1) mod 128\<rparr>)"
    and "win_len (t\<lparr>t_baw_tail := (t_baw_head t + i + 1) mod 128\<rparr>) = i + 1"
    and "win (t\<lparr>t_baw_tail := (t_baw_head t + i + 1) mod 128\<rparr>) = win t @ replicate (i + 1 - win_len t) None"
proof -
  let ?t = "t\<lparr>t_baw_tail := (t_baw_head t + i + 1) mod 128\<rparr>"
  note w = tx_wfD [OF wf]
  have i1: "i + 1 < 128" using i w(5) by simp
  show l: "win_len ?t = i + 1"
    using cdist_add [OF w(2) i1] by (simp add: win_len_def add.assoc)
  have none: "t_tx_desc t ! ((t_baw_head t + j) mod 128) = None" if "win_len t \<le> j" "j < 128" for j
    using w(7) that by blast
  show "tx_wf ?t"
    unfolding tx_wf_def l
  proof (intro conjI allI impI)
    fix j f assume j: "j < i + 1" and f: "t_tx_desc ?t ! ((t_baw_head ?t + j) mod 128) = Some f"
    have "j < win_len t" using none [of j] f j i1 by (cases "j < win_len t") auto
    with w(8) f show "f_seq f = (t_seq_start ?t + j) mod 4096" by simp
  qed (use w i none in auto)
  show "win ?t = win t @ replicate (i + 1 - win_len t) None"
  proof (rule nth_equalityI)
    fix j assume "j < length (win ?t)"
    then have j: "j < i + 1" unfolding length_win l .
    have "win ?t ! j = t_tx_desc t ! ((t_baw_head t + j) mod 128)" using win_nth [of j ?t] j l w(1) by simp
    then show "win ?t ! j = (win t @ replicate (i + 1 - win_len t) None) ! j"
      using win_nth [of j t] none [of j] j i1 i w(1) by (cases "j < win_len t") (simp_all add: nth_append)
  next
    show "length (win ?t) = length (win t @ replicate (i + 1 - win_len t) None)"
      unfolding length_append length_replicate length_win l using i(2) by simp
  qed
qed

lemma add2baw_spec:
  assumes wf: "tx_wf t" and f: "f_seq f < 4096" and i: "DRV_BA_INDEX (t_seq_start t) (f_seq f) = i" "i \<le> unat (t_baw_size t)"
  shows "tx_wf (drv_tx_add2baw f t)" and "win (drv_tx_add2baw f t) = win_add i f (win t)"
    and "drv_tx_add2baw f t = t\<lparr>t_tx_desc := t_tx_desc (drv_tx_add2baw f t), t_baw_sn_last := f_seq f,
      t_baw_tail := t_baw_tail (drv_tx_add2baw f t)\<rparr>"
proof -
  note w = tx_wfD [OF wf]
  have i128: "i < 128" "i + 1 < 128" using i(2) w(5) by simp_all
  have seq: "f_seq f = (t_seq_start t + i) mod 4096"
    using add_cdist [of "t_seq_start t" 4096 "f_seq f"] w(4) f i(1) by (simp add: DRV_BA_INDEX_cdist)
  have rd: "ring_dist (t_baw_head t) (t_baw_tail t) = int (win_len t)" by (simp add: ring_dist_eq win_len_def)
  have tail: "CIRCLE_Add_One ((t_baw_head t + i) mod 128) DRV_TID_MAX_BUFS = (t_baw_head t + i + 1) mod 128"
    by (simp add: CIRCLE_Add_One_mod DRV_TID_MAX_BUFS_def mod_simps)
  have last: "tx_wf (u\<lparr>t_baw_sn_last := x\<rparr>) = tx_wf u" "win (u\<lparr>t_baw_sn_last := x\<rparr>) = win u" for u x
    by (simp_all add: tx_wf_def win_def win_len_def)
  have both: "tx_wf (drv_tx_add2baw f t) \<and> win (drv_tx_add2baw f t) = win_add i f (win t)"
  proof (cases "i < win_len t")
    case True
    let ?t = "t\<lparr>t_tx_desc := (t_tx_desc t)[(t_baw_head t + i) mod 128 := Some f]\<rparr>"
    have "drv_tx_add2baw f t = ?t\<lparr>t_baw_sn_last := f_seq f\<rparr>"
      using True i(1) by (simp add: drv_tx_add2baw_def Let_def ring_slot_eq rd)
    moreover have "tx_wf ?t \<and> win ?t = (win t)[i := Some f]"
      using win_update [OF wf i128(1), of "Some f"] True seq by simp
    ultimately show ?thesis using True last by (simp add: win_add_def)
  next
    case False
    then have le: "win_len t \<le> i" by simp
    let ?e = "t\<lparr>t_baw_tail := (t_baw_head t + i + 1) mod 128\<rparr>"
    note e = win_extend [OF wf i(2) le]
    let ?t = "?e\<lparr>t_tx_desc := (t_tx_desc ?e)[(t_baw_head ?e + i) mod 128 := Some f]\<rparr>"
    have "drv_tx_add2baw f t = ?t\<lparr>t_baw_sn_last := f_seq f\<rparr>"
      using False i(1) tail by (simp add: drv_tx_add2baw_def Let_def ring_slot_eq rd)
    moreover have "tx_wf ?t \<and> win ?t = (win ?e)[i := Some f]"
      using win_update [OF e(1) i128(1), of "Some f"] e(2) seq by simp
    moreover have "(win t @ replicate (i + 1 - win_len t) None)[i := Some f] = win_add i f (win t)"
      using le by (simp add: win_add_def list_update_append Suc_diff_le replicate_append_same [symmetric] list_update_append1 del: replicate_append_same)
    ultimately show ?thesis using last e(3) by simp
  qed
  then show "tx_wf (drv_tx_add2baw f t)" "win (drv_tx_add2baw f t) = win_add i f (win t)" by blast+
  show "drv_tx_add2baw f t = t\<lparr>t_tx_desc := t_tx_desc (drv_tx_add2baw f t), t_baw_sn_last := f_seq f,
      t_baw_tail := t_baw_tail (drv_tx_add2baw f t)\<rparr>"
    by (simp add: drv_tx_add2baw_def Let_def)
qed

definition win_adds :: "nat \<Rightarrow> tx_frame list \<Rightarrow> tx_frame option list \<Rightarrow> tx_frame option list" where
  "win_adds st fs w = fold (\<lambda>f. win_add (DRV_BA_INDEX st (f_seq f)) f) fs w"

text \<open>Building changes only the ring, its tail and the last sequence number.\<close>

definition same_session :: "tx_tid \<Rightarrow> tx_tid \<Rightarrow> bool" where
  "same_session t t' \<longleftrightarrow> (\<exists>d l k. t' = t\<lparr>t_tx_desc := d, t_baw_sn_last := l, t_baw_tail := k\<rparr>)"

lemma same_session_refl: "same_session t t"
  unfolding same_session_def by (rule exI [of _ "t_tx_desc t"], rule exI [of _ "t_baw_sn_last t"], rule exI [of _ "t_baw_tail t"]) simp

lemma same_session_trans: "same_session t u \<Longrightarrow> same_session u v \<Longrightarrow> same_session t v"
  unfolding same_session_def by fastforce

lemma same_session_simps:
  assumes "same_session t t'"
  shows "t_seq_start t' = t_seq_start t" "t_baw_size t' = t_baw_size t" "t_baw_head t' = t_baw_head t"
    "t_paused t' = t_paused t"
  using assms by (auto simp: same_session_def)

lemma ampdu_loop_spec:
  assumes "ampdu_loop nd page lim mx q t p a = (st, rest, t', p', a')"
    and "tx_wf t" and "\<forall>f \<in> set q. f_seq f < 4096" and "lim < 65536"
    and "2 \<le> length (a_frames a) \<longrightarrow> a_al a \<le> lim"
  shows "\<exists>taken. q = taken @ rest \<and> a_frames a' = a_frames a @ map (\<lambda>f. (f, nd (f_packetlen f))) taken
    \<and> tx_wf t' \<and> win t' = win_adds (t_seq_start t) taken (win t) \<and> same_session t t'
    \<and> (taken \<noteq> [] \<longrightarrow> int (length (a_frames a')) \<le> mx) \<and> (2 \<le> length (a_frames a') \<longrightarrow> a_al a' \<le> lim)
    \<and> (\<forall>f \<in> set taken. DRV_BA_INDEX (t_seq_start t) (f_seq f) \<le> unat (t_baw_size t))"
  using assms
proof (induction nd page lim mx q t p a rule: ampdu_loop.induct)
  case (1 nd page lim mx t p a)
  then show ?case by (auto simp: win_adds_def same_session_refl)
next
  case (2 nd page lim mx f q t p a)
  let ?i = "DRV_BA_INDEX (t_seq_start t) (f_seq f)"
  let ?d = "(DRV_AGGR_DELIM_SZ + f_packetlen f) mod 65536"
  let ?n = "length (a_frames a)"
  let ?a = "\<lparr>a_frames = a_frames a @ [(f, nd (f_packetlen f))], a_al = (a_al a + a_bpad a + ?d) mod 65536,
             a_bpad = (PADBYTES ?d + nd (f_packetlen f) * 4) mod 65536, a_pages = a_pages a + page (f_mpdulen f)\<rparr>"
  let ?t = "drv_tx_add2baw f t"
  let ?p = "if p > 0 then p - 1 else p"
  show ?case
  proof (cases "BAW_WITHIN (t_seq_start t) (t_baw_size t) (f_seq f) \<and> \<not> (?n \<noteq> 0 \<and> lim < a_al a + a_bpad a + ?d) \<and> int ?n < mx")
    case False
    then have "ampdu_loop nd page lim mx (f # q) t p a = (st, f # q, t, p, a)"
      using "2.prems"(1) by (auto simp: Let_def split: if_splits)
    with "2.prems" show ?thesis by (auto simp: win_adds_def same_session_refl)
  next
    case True
    then have i: "?i \<le> unat (t_baw_size t)" by (simp add: BAW_WITHIN_eq)
    have g: "\<not> \<not> BAW_WITHIN (t_seq_start t) (t_baw_size t) (f_seq f)" "\<not> (?n \<noteq> 0 \<and> lim < a_al a + a_bpad a + ?d)" "\<not> mx \<le> int ?n"
      using True by auto
    have step: "ampdu_loop nd page lim mx q ?t ?p ?a = (st, rest, t', p', a')"
      using "2.prems"(1) unfolding ampdu_loop.simps Let_def if_not_P [OF g(1)] if_not_P [OF g(2)] if_not_P [OF g(3)] .
    have f: "f_seq f < 4096" using "2.prems"(3) by simp
    note ad = add2baw_spec [OF "2.prems"(2) f refl i]
    have al: "2 \<le> length (a_frames ?a) \<longrightarrow> a_al ?a \<le> lim" using True "2.prems"(4) by (auto simp: not_less)
    have ss: "same_session t ?t" unfolding same_session_def using ad(3) by blast
    have q: "\<forall>f \<in> set q. f_seq f < 4096" using "2.prems"(3) by simp
    from "2.IH" [OF g(1) refl refl g(2,3) refl step ad(1) q "2.prems"(4) al]
    obtain taken where tk: "q = taken @ rest" "a_frames a' = a_frames ?a @ map (\<lambda>f. (f, nd (f_packetlen f))) taken"
      "tx_wf t'" "win t' = win_adds (t_seq_start ?t) taken (win ?t)" "same_session ?t t'"
      "taken \<noteq> [] \<longrightarrow> int (length (a_frames a')) \<le> mx" "2 \<le> length (a_frames a') \<longrightarrow> a_al a' \<le> lim"
      "\<forall>f \<in> set taken. DRV_BA_INDEX (t_seq_start ?t) (f_seq f) \<le> unat (t_baw_size ?t)" by blast
    have "int (length (a_frames a')) \<le> mx" using tk(2,6) True by (cases "taken = []") auto
    moreover have "win t' = win_adds (t_seq_start t) (f # taken) (win t)"
      using tk(4) ad(2) same_session_simps(1) [OF ss] by (simp add: win_adds_def)
    ultimately show ?thesis
      using tk i same_session_trans [OF ss tk(5)] same_session_simps(1,2) [OF ss]
      by (intro exI [of _ "f # taken"]) auto
  qed
qed

section \<open>Acknowledgements\<close>

lemma outstanding_at:
  assumes wf: "tx_wf t" and f: "f \<in> outstanding t"
  shows "\<exists>i < win_len t. win t ! i = Some f \<and> DRV_BA_INDEX (t_seq_start t) (f_seq f) = i \<and> i \<le> unat (t_baw_size t)"
proof -
  note w = tx_wfD [OF wf]
  obtain i where i: "i < win_len t" "win t ! i = Some f" using f by (auto simp: outstanding_def in_set_conv_nth)
  then have "f_seq f = (t_seq_start t + i) mod 4096" using w(8) win_nth [OF i(1) w(1)] by simp
  then have "DRV_BA_INDEX (t_seq_start t) (f_seq f) = i"
    using cdist_add [of "t_seq_start t" 4096 i] w(4) i(1) win_len_less [of t] by (simp add: DRV_BA_INDEX_cdist)
  with i w(6) show ?thesis by auto
qed

lemma set_win_ack: "i \<le> bs \<Longrightarrow> Some f \<in> set (win_ack sf bs i w) \<Longrightarrow> \<exists>j < length w. j \<noteq> i \<and> w ! j = Some f"
proof -
  assume i: "i \<le> bs" and f: "Some f \<in> set (win_ack sf bs i w)"
  then have "Some f \<in> set (win_give sf bs (w[i := None]))"
    by (auto simp: win_ack_def dest: set_dropWhileD)
  then obtain j where "j < length w" "win_give sf bs (w[i := None]) ! j = Some f"
    by (auto simp: in_set_conv_nth win_give_def split: if_splits)
  then have j: "j < length w" "(if win_crowded sf bs (w[i := None]) then w[i := None, 0 := None] else w[i := None]) ! j = Some f"
    by (simp_all add: win_give_def)
  have "j \<noteq> i"
  proof
    assume "j = i"
    with j show False by (cases "i = 0") (auto split: if_splits)
  qed
  moreover have "w ! j = Some f"
  proof (cases "j = 0")
    case True
    with j \<open>j \<noteq> i\<close> show ?thesis by (auto split: if_splits)
  next
    case False
    with j \<open>j \<noteq> i\<close> show ?thesis by (auto split: if_splits)
  qed
  ultimately show ?thesis using j(1) by blast
qed

lemma outstanding_ack:
  assumes wf: "tx_wf t" and d: "DRV_BA_INDEX (t_seq_start t) sn = i"
    and w': "win t' = win_ack sf (unat (t_baw_size t)) i (win t)"
  shows "outstanding t' \<subseteq> {f \<in> outstanding t. f_seq f \<noteq> sn}"
proof
  fix f assume "f \<in> outstanding t'"
  then have f: "Some f \<in> set (win_ack sf (unat (t_baw_size t)) i (win t))" by (simp add: outstanding_def w')
  show "f \<in> {f \<in> outstanding t. f_seq f \<noteq> sn}"
  proof (cases "i \<le> unat (t_baw_size t)")
    case True
    from set_win_ack [OF True f] obtain j where j: "j < win_len t" "j \<noteq> i" "win t ! j = Some f" by auto
    then have o: "f \<in> outstanding t" unfolding outstanding_def by (metis length_win mem_Collect_eq nth_mem)
    note w = tx_wfD [OF wf]
    have "f_seq f = (t_seq_start t + j) mod 4096" using w(8) win_nth [OF j(1) w(1)] j by simp
    then have "DRV_BA_INDEX (t_seq_start t) (f_seq f) = j"
      using cdist_add [of "t_seq_start t" 4096 j] w(4) j(1) win_len_less [of t] by (simp add: DRV_BA_INDEX_cdist)
    with o d j(2) show ?thesis by auto
  next
    case False
    then have "f \<in> outstanding t" using f by (simp add: win_ack_def outstanding_def)
    with outstanding_at [OF wf this] d False show ?thesis by auto
  qed
qed

text \<open>After an acknowledgement inside the window its first frame is outstanding.\<close>

definition tight :: "tx_tid \<Rightarrow> bool" where
  "tight t \<longleftrightarrow> (outstanding t = {} \<longrightarrow> win t = [])"

lemma tight_ack: "i \<le> bs \<Longrightarrow> win t' = win_ack sf bs i w \<Longrightarrow> tight t'"
proof -
  assume i: "i \<le> bs" and w': "win t' = win_ack sf bs i w"
  show ?thesis
    unfolding tight_def
  proof
    assume "outstanding t' = {}"
    then have "\<And>f. Some f \<notin> set (win t')" by (simp add: outstanding_def)
    then have n: "\<forall>x \<in> set (win t'). x = None" by (metis not_Some_eq)
    show "win t' = []"
    proof (cases "win t'")
      case (Cons x xs)
      then have "dropWhile ((=) None) (win_give sf bs (w[i := None])) \<noteq> []" using w' i by (simp add: win_ack_def)
      from hd_dropWhile [OF this] have "None \<noteq> hd (win t')" using w' i by (simp add: win_ack_def)
      with n Cons show ?thesis by simp
    qed
  qed
qed

text \<open>Completions, one after the other.\<close>

fun complete_all :: "nat list \<Rightarrow> tx_st \<Rightarrow> tx_st option" where
  "complete_all [] s = Some s"
| "complete_all (sn # sns) s = (case tx_ba_complete sn s of None \<Rightarrow> None | Some s \<Rightarrow> complete_all sns s)"

definition closed :: "tx_tid \<Rightarrow> bool" where
  "closed t \<longleftrightarrow> \<not> t_cleanup_inprogress t \<and> \<not> t_exchangecomplete t"

lemma close_exchange_same:
  fixes t :: tx_tid
  defines "u \<equiv> if t_cleanup_inprogress t \<and> t_baw_head t = t_baw_tail t
    then (reset_exchange t)\<lparr>t_cleanup_inprogress := False\<rparr> else t"
  shows "win u = win t" "tx_wf u = tx_wf t" "outstanding u = outstanding t" "tight u = tight t"
proof -
  have r: "win (reset_exchange t\<lparr>t_cleanup_inprogress := False\<rparr>) = win t"
    by (simp add: reset_exchange_def win_def win_len_def)
  have "tx_wf (reset_exchange t\<lparr>t_cleanup_inprogress := False\<rparr>) = tx_wf t"
    by (simp add: reset_exchange_def tx_wf_def win_len_def)
  with r show "win u = win t" "tx_wf u = tx_wf t" "outstanding u = outstanding t" "tight u = tight t"
    by (simp_all add: u_def outstanding_def tight_def)
qed

lemma complete_step:
  assumes wf: "tx_wf (tid s)" and tight: "tight (tid s)"
    and run: "win (tid s) \<noteq> [] \<longrightarrow> t_cleanup_inprogress (tid s) \<or> closed (tid s)" "win (tid s) = [] \<longrightarrow> closed (tid s)"
  shows "\<exists>s'. tx_ba_complete sn s = Some s' \<and> tx_wf (tid s') \<and> tight (tid s')
    \<and> outstanding (tid s') \<subseteq> {f \<in> outstanding (tid s). f_seq f \<noteq> sn}
    \<and> (win (tid s') \<noteq> [] \<longrightarrow> t_cleanup_inprogress (tid s') \<or> closed (tid s')) \<and> (win (tid s') = [] \<longrightarrow> closed (tid s'))"
proof -
  let ?t = "tid s"
  define i where "i = DRV_BA_INDEX (t_seq_start ?t) sn"
  obtain t' q' where t': "drv_tx_update_ba_win (cfg_ampdu_subframes s) sn (?t, txlist_qcnt s) = Some (t', q')" "tx_wf t'"
      "win t' = win_ack (cfg_ampdu_subframes s) (unat (t_baw_size ?t)) i (win ?t)"
      "t' = ?t\<lparr>t_tx_desc := t_tx_desc t', t_seq_start := t_seq_start t', t_baw_head := t_baw_head t'\<rparr>"
    using update_ba_win_spec [OF wf, of sn i "cfg_ampdu_subframes s" "txlist_qcnt s"] by (auto simp: i_def)
  have flags: "t_cleanup_inprogress t' = t_cleanup_inprogress ?t" "t_exchangecomplete t' = t_exchangecomplete ?t"
    by (subst t'(4), simp)+
  define u where "u = (if t_cleanup_inprogress t' \<and> t_baw_head t' = t_baw_tail t'
    then (reset_exchange t')\<lparr>t_cleanup_inprogress := False\<rparr> else t')"
  note same = close_exchange_same [of t', folded u_def]
  have "tx_ba_complete sn s = Some (s\<lparr>tid := u, txlist_qcnt := q'\<rparr>)"
    using t'(1) by (simp add: tx_ba_complete_def u_def)
  moreover have "tight u"
  proof (cases "i \<le> unat (t_baw_size ?t)")
    case True
    with tight_ack t'(3) same(4) show ?thesis by blast
  next
    case False
    then have "win t' = win ?t" using t'(3) by (simp add: win_ack_def)
    with tight same(4) show ?thesis by (simp add: tight_def outstanding_def)
  qed
  moreover have "outstanding u \<subseteq> {f \<in> outstanding ?t. f_seq f \<noteq> sn}"
    using outstanding_ack [OF wf _ t'(3)] same(3) by (simp add: i_def)
  moreover have "win u = [] \<longrightarrow> closed u"
    using win_empty_iff [OF t'(2)] run flags same(1) by (auto simp: u_def closed_def reset_exchange_def)
  moreover have "win u \<noteq> [] \<longrightarrow> t_cleanup_inprogress u \<or> closed u"
    using run flags win_empty_iff [OF t'(2)] same(1) by (auto simp: u_def closed_def reset_exchange_def)
  ultimately show ?thesis using same(2) t'(2) by auto
qed

lemma complete_all_closes:
  "tx_wf (tid s) \<Longrightarrow> tight (tid s) \<Longrightarrow> win (tid s) \<noteq> [] \<longrightarrow> t_cleanup_inprogress (tid s) \<or> closed (tid s) \<Longrightarrow>
   win (tid s) = [] \<longrightarrow> closed (tid s) \<Longrightarrow> f_seq ` outstanding (tid s) \<subseteq> set sns \<Longrightarrow>
   \<exists>s'. complete_all sns s = Some s' \<and> tx_wf (tid s') \<and> win (tid s') = [] \<and> closed (tid s')"
proof (induction sns arbitrary: s)
  case Nil
  then have "outstanding (tid s) = {}" by simp
  with Nil show ?case by (auto simp: tight_def)
next
  case (Cons sn sns)
  obtain s' where s': "tx_ba_complete sn s = Some s'" "tx_wf (tid s')" "tight (tid s')"
      "outstanding (tid s') \<subseteq> {f \<in> outstanding (tid s). f_seq f \<noteq> sn}"
      "win (tid s') \<noteq> [] \<longrightarrow> t_cleanup_inprogress (tid s') \<or> closed (tid s')" "win (tid s') = [] \<longrightarrow> closed (tid s')"
    using complete_step [OF Cons.prems(1,2,3,4)] by blast
  have "f_seq ` outstanding (tid s') \<subseteq> set sns" using s'(4) Cons.prems(5) by auto
  from Cons.IH [OF s'(2,3,5,6) this] s'(1) show ?case by simp
qed

section \<open>The handshake\<close>

lemma flush_loop_eq:
  "flush_loop q s = s\<lparr>tid := (tid s)\<lparr>t_txds_queue := []\<rparr>, txds_pending_cnt := txds_pending_cnt s - of_nat (length q),
     tx_log := tx_log s @ map (\<lambda>f. if vif_connected s then TxNormal f else TxComplete f False) q\<rparr>"
proof (induction q arbitrary: s)
  case Nil
  show ?case by (simp add: set_tid_def)
next
  case (Cons f q)
  show ?case unfolding flush_loop.simps Let_def Cons by (simp add: tx_emit_def algebra_simps)
qed

lemmas handshake_defs = drv_addba_req_setup_def drv_addba_rsp_process_def drv_addba_timer_ex_def end_exchange_def
  cancel_addba_timer_def drv_txlist_flush_for_sta_tid_def drv_txlist_resume_for_sta_tid_def drv_txlist_pause_for_sta_tid_def
  drv_tx_queue_tid_def set_tid_def tx_emit_def Let_def flush_loop_eq

text \<open>What leaves the window alone: the flags, the queue, the timer, the counters.\<close>

definition same_window :: "tx_tid \<Rightarrow> tx_tid \<Rightarrow> bool" where
  "same_window t t' \<longleftrightarrow> t_tx_desc t' = t_tx_desc t \<and> t_baw_head t' = t_baw_head t \<and> t_baw_tail t' = t_baw_tail t
     \<and> t_seq_start t' = t_seq_start t \<and> t_baw_size t' = t_baw_size t"

lemma same_window_win:
  assumes "same_window t t'"
  shows "win t' = win t" "tx_wf t' = tx_wf t" "outstanding t' = outstanding t" "tight t' = tight t"
proof -
  have "win_len t' = win_len t" using assms by (simp add: same_window_def win_len_def)
  then have w: "win t' = win t" using assms by (simp add: same_window_def win_def)
  with \<open>win_len t' = win_len t\<close> assms
  show "win t' = win t" "tx_wf t' = tx_wf t" "outstanding t' = outstanding t" "tight t' = tight t"
    by (simp_all add: same_window_def tx_wf_def outstanding_def tight_def)
qed

lemma txampdu_del_effect:
  assumes "t_exchangecomplete (tid s)" "\<not> t_cleanup_inprogress (tid s)"
  shows "same_window (tid s) (tid (drv_txampdu_del s))"
    and "t_cleanup_inprogress (tid (drv_txampdu_del s)) \<longleftrightarrow> t_baw_head (tid s) \<noteq> t_baw_tail (tid s)"
    and "t_exchangecomplete (tid (drv_txampdu_del s)) \<longleftrightarrow> t_baw_head (tid s) \<noteq> t_baw_tail (tid s)"
  using assms by (simp_all add: drv_txampdu_del_def reset_exchange_def handshake_defs same_window_def)

section \<open>Properties\<close>

text \<open>C11: An acknowledgement for sequence number \<open>sn\<close> empties its slot, makes a nearly full window give
  up its first frame, passes the leading empty slots and moves the start of the window by as many numbers;
  the routine always returns, keeps the ring well formed, and no frame with that number stays outstanding.\<close>

theorem tx_ack_moves_window:
  assumes "tx_wf t"
  shows "\<exists>t' q'. drv_tx_update_ba_win sf sn (t, q) = Some (t', q') \<and> tx_wf t'
    \<and> win t' = win_ack sf (unat (t_baw_size t)) (DRV_BA_INDEX (t_seq_start t) sn) (win t)
    \<and> t_seq_start t' = (t_seq_start t + (length (win t) - length (win t'))) mod 4096
    \<and> outstanding t' \<subseteq> {f \<in> outstanding t. f_seq f \<noteq> sn}"
proof -
  obtain t' q' where "drv_tx_update_ba_win sf sn (t, q) = Some (t', q')" "tx_wf t'"
      and w: "win t' = win_ack sf (unat (t_baw_size t)) (DRV_BA_INDEX (t_seq_start t) sn) (win t)"
      and "t_seq_start t' = (t_seq_start t + (win_len t - win_len t')) mod 4096"
    using update_ba_win_spec [OF assms refl] by blast
  with outstanding_ack [OF assms refl w] show ?thesis by auto
qed

definition ex_tid :: tx_tid where
  "ex_tid = \<lparr>t_baw_size = 64, t_b_work = False, t_paused = 0, t_seq_start = 4094, t_seq_next = 1, t_baw_sn_last = 0,
     t_baw_head = 127, t_baw_tail = 127, t_tx_desc = replicate 128 None, t_txds_queue = [], t_timer = os_timer_ex_initialize 1500,
     t_cleanup_inprogress = False, t_exchangeinprogress = False, t_exchangeattempts = 0, t_exchangecomplete = True,
     t_amsdusupported = False, t_statuscode = 0\<rparr>"

definition ex_frame :: "nat \<Rightarrow> tx_frame" where
  "ex_frame sq = \<lparr>f_id = sq, f_seq = sq, f_packetlen = 100, f_mpdulen = 100\<rparr>"

lemma ex_tid_wf: "tx_wf ex_tid"
proof -
  have c: "cdist 127 127 128 = 0" by (simp add: cdist_def)
  show ?thesis by (simp add: tx_wf_def win_len_def ex_tid_def c)
qed

lemma ex_tid_window: "win ex_tid = []" "outstanding ex_tid = {}" "tight ex_tid"
proof -
  have c: "cdist 127 127 128 = 0" by (simp add: cdist_def)
  then show w: "win ex_tid = []" by (simp add: win_def win_len_def ex_tid_def ring_view_def)
  then show "outstanding ex_tid = {}" "tight ex_tid" by (simp_all add: outstanding_def tight_def)
qed

definition ex_busy :: tx_tid where
  "ex_busy = drv_tx_add2baw (ex_frame 0) (drv_tx_add2baw (ex_frame 4095) (drv_tx_add2baw (ex_frame 4094) ex_tid))"

lemma ex_busy_window:
  shows "tx_wf ex_busy" and "win ex_busy = [Some (ex_frame 4094), Some (ex_frame 4095), Some (ex_frame 0)]"
    and "t_seq_start ex_busy = 4094" and "t_baw_size ex_busy = 64"
    and "t_exchangecomplete ex_busy" and "\<not> t_cleanup_inprogress ex_busy"
proof -
  have st: "t_seq_start (drv_tx_add2baw f t) = t_seq_start t" "t_baw_size (drv_tx_add2baw f t) = t_baw_size t" for f t
    by (simp_all add: drv_tx_add2baw_def Let_def)
  have st0: "t_seq_start ex_tid = 4094" "t_baw_size ex_tid = 64" by (simp_all add: ex_tid_def)
  have sq: "f_seq (ex_frame n) = n" for n by (simp add: ex_frame_def)
  have ix: "DRV_BA_INDEX 4094 4094 = 0" "DRV_BA_INDEX 4094 4095 = 1" "DRV_BA_INDEX 4094 0 = 2"
    by (simp_all add: DRV_BA_INDEX_cdist cdist_def)
  note a = add2baw_spec [of ex_tid "ex_frame 4094" 0] 
  have a1: "tx_wf (drv_tx_add2baw (ex_frame 4094) ex_tid)"
      "win (drv_tx_add2baw (ex_frame 4094) ex_tid) = [Some (ex_frame 4094)]"
    using add2baw_spec(1,2) [of ex_tid "ex_frame 4094" 0] ex_tid_wf ex_tid_window(1) by (simp_all add: st st0 sq ix win_add_def)
  have a2: "tx_wf (drv_tx_add2baw (ex_frame 4095) (drv_tx_add2baw (ex_frame 4094) ex_tid))"
      "win (drv_tx_add2baw (ex_frame 4095) (drv_tx_add2baw (ex_frame 4094) ex_tid)) = [Some (ex_frame 4094), Some (ex_frame 4095)]"
    using add2baw_spec(1,2) [OF a1(1), of "ex_frame 4095" 1] a1(2) by (simp_all add: st st0 sq ix win_add_def)
  show "tx_wf ex_busy" "win ex_busy = [Some (ex_frame 4094), Some (ex_frame 4095), Some (ex_frame 0)]"
    using add2baw_spec(1,2) [OF a2(1), of "ex_frame 0" 2] a2(2) by (simp_all add: ex_busy_def st st0 sq ix win_add_def)
  show "t_seq_start ex_busy = 4094" "t_baw_size ex_busy = 64" "t_exchangecomplete ex_busy" "\<not> t_cleanup_inprogress ex_busy"
    by (simp_all add: ex_busy_def drv_tx_add2baw_def Let_def ex_tid_def)
qed

theorem tx_ack_moves_window_witness:
  "\<exists>t' q'. drv_tx_update_ba_win 16 4094 (ex_busy, 3) = Some (t', q') \<and> win t' = [Some (ex_frame 4095), Some (ex_frame 0)]
     \<and> t_seq_start t' = 4095"
proof -
  have "DRV_BA_INDEX 4094 4094 = 0" by (simp add: DRV_BA_INDEX_cdist cdist_def)
  then show ?thesis
    using tx_ack_moves_window [OF ex_busy_window(1), of 16 4094 3] ex_busy_window(2-4)
    by (auto simp: win_ack_def win_give_def win_crowded_def simp del: length_win)
qed

text \<open>C12: An A-MPDU takes a prefix of the queue in its order: not more frames than half the window nor
  than the configured number, within the byte limit from two frames on, each inside the window, and
  records exactly these frames in the window of the session, which stays well formed.\<close>

theorem tx_build_ampdu:
  assumes b: "drv_txampdu_build nd page lim s = Some (st, a, s')"
    and wf: "tx_wf (tid s)" and sq: "\<forall>f \<in> set (t_txds_queue (tid s)). f_seq f < 4096" and lim: "lim < 65536"
  shows "\<exists>taken. t_txds_queue (tid s) = taken @ t_txds_queue (tid s')
    \<and> a_frames a = map (\<lambda>f. (f, nd (f_packetlen f))) taken
    \<and> int (length taken) \<le> max 0 (min (int (unat (t_baw_size (tid s)) div 2)) (cfg_ampdu_subframes s))
    \<and> (2 \<le> length taken \<longrightarrow> a_al a \<le> lim)
    \<and> (\<forall>f \<in> set taken. DRV_BA_INDEX (t_seq_start (tid s)) (f_seq f) \<le> unat (t_baw_size (tid s)))
    \<and> tx_wf (tid s') \<and> win (tid s') = win_adds (t_seq_start (tid s)) taken (win (tid s))"
proof -
  let ?t = "tid s"
  let ?none = "\<lparr>a_frames = [], a_al = 0, a_bpad = 0, a_pages = 0\<rparr>"
  let ?mx = "min (int (unat (t_baw_size ?t) div 2)) (cfg_ampdu_subframes s)"
  from b consider (skip) "a = ?none" "s' = s"
    | (run) q t p where "ampdu_loop nd page lim ?mx (t_txds_queue ?t) ?t (txds_pending_cnt s) ?none = (st, q, t, p, a)"
        "s' = s\<lparr>tid := t\<lparr>t_txds_queue := q\<rparr>, txds_pending_cnt := p\<rparr>"
  proof (cases "t_txds_queue ?t")
    case Nil
    with b show ?thesis by (simp add: drv_txampdu_build_def)
  next
    case (Cons f fs)
    show ?thesis
    proof (cases "(int (f_seq f) + ?mx - int (t_seq_start ?t)) AND 4095 > int (unat (t_baw_size ?t))")
      case True
      from b have "a = ?none" "s' = s"
        unfolding drv_txampdu_build_def Let_def Cons list.case if_P [OF True] by simp_all
      then show ?thesis by (rule skip)
    next
      case False
      obtain st' q t p a' where l: "ampdu_loop nd page lim ?mx (t_txds_queue ?t) ?t (txds_pending_cnt s) ?none = (st', q, t, p, a')"
        by (metis prod_cases5)
      from b have "st' = st" "a' = a" "s' = s\<lparr>tid := t\<lparr>t_txds_queue := q\<rparr>, txds_pending_cnt := p\<rparr>"
        unfolding drv_txampdu_build_def Let_def Cons list.case if_not_P [OF False] l [unfolded Cons] by simp_all
      with l show ?thesis by (intro run) simp_all
    qed
  qed
  then show ?thesis
  proof cases
    case skip
    with wf show ?thesis by (intro exI [of _ "[]"]) (simp add: win_adds_def)
  next
    case run
    from ampdu_loop_spec [OF run(1) wf sq lim] obtain taken where
      tk: "t_txds_queue ?t = taken @ q" "a_frames a = map (\<lambda>f. (f, nd (f_packetlen f))) taken" "tx_wf t"
        "win t = win_adds (t_seq_start ?t) taken (win ?t)" "taken \<noteq> [] \<longrightarrow> int (length (a_frames a)) \<le> ?mx"
        "2 \<le> length (a_frames a) \<longrightarrow> a_al a \<le> lim"
        "\<forall>f \<in> set taken. DRV_BA_INDEX (t_seq_start ?t) (f_seq f) \<le> unat (t_baw_size ?t)" by auto
    have "same_window t (tid s')" using run(2) by (simp add: same_window_def)
    note w = same_window_win(1,2) [OF this]
    have "int (length taken) \<le> max 0 ?mx" using tk(2,5) by (cases "taken = []") auto
    with tk w run(2) show ?thesis by (intro exI [of _ taken]) auto
  qed
qed

definition ex_st :: "tx_tid \<Rightarrow> tx_frame list \<Rightarrow> tx_st" where
  "ex_st t q = \<lparr>tid = t\<lparr>t_txds_queue := q\<rparr>, ac_b_work = False, txds_pending_cnt = of_nat (length q), txlist_qcnt = 3,
     cfg_txaggr = True, cfg_txamsdu = 0, cfg_ampdu_subframes = 16, vif_connected = True, tx_log = []\<rparr>"

lemma ex_build_value:
  "map_option (\<lambda>(st, a, s'). (st, map (f_seq \<circ> fst) (a_frames a), a_al a, map f_seq (t_txds_queue (tid s'))))
     (drv_txampdu_build (drv_compute_num_delims 0 0 7) (\<lambda>n. n div 256 + 1) 400 (ex_st ex_tid (map ex_frame [4094, 4095, 0])))
   = Some (2, [4094, 4095], 360, [0])"
proof -
  have st: "t_seq_start (drv_tx_add2baw f t) = t_seq_start t" "t_baw_size (drv_tx_add2baw f t) = t_baw_size t" for f t
    by (simp_all add: drv_tx_add2baw_def Let_def)
  have a: "(4110 - 4094 :: int) AND 4095 = 16" by simp
  note defs = ex_tid_def ex_frame_def BAW_WITHIN_eq DRV_BA_INDEX_cdist cdist_def PADBYTES_def
    drv_compute_num_delims_def DRV_AGGR_GET_NDELIM_def DRV_AGGR_DELIM_SZ_def DRV_AGGR_MINPLEN_def
  show ?thesis by (simp add: drv_txampdu_build_def ex_st_def st defs)
qed

theorem tx_build_ampdu_witness:
  "\<exists>st a s' taken. drv_txampdu_build (drv_compute_num_delims 0 0 7) (\<lambda>n. n div 256 + 1) 400
       (ex_st ex_tid (map ex_frame [4094, 4095, 0])) = Some (st, a, s')
     \<and> map ex_frame [4094, 4095, 0] = taken @ t_txds_queue (tid s') \<and> map f_seq taken = [4094, 4095] \<and> a_al a \<le> 400"
proof -
  let ?s = "ex_st ex_tid (map ex_frame [4094, 4095, 0])"
  obtain st a s' where b: "drv_txampdu_build (drv_compute_num_delims 0 0 7) (\<lambda>n. n div 256 + 1) 400 ?s = Some (st, a, s')"
      "map (f_seq \<circ> fst) (a_frames a) = [4094, 4095]"
    using ex_build_value by (auto simp: map_option_case split: option.splits)
  have "same_window ex_tid (tid ?s)" by (simp add: same_window_def ex_st_def)
  then have wf: "tx_wf (tid ?s)" using same_window_win(2) ex_tid_wf by blast
  have sq: "\<forall>f \<in> set (t_txds_queue (tid ?s)). f_seq f < 4096" by (simp add: ex_st_def ex_frame_def)
  have q: "t_txds_queue (tid ?s) = map ex_frame [4094, 4095, 0]" by (simp add: ex_st_def)
  from tx_build_ampdu [OF b(1) wf sq] obtain taken where t: "map ex_frame [4094, 4095, 0] = taken @ t_txds_queue (tid s')"
      "a_frames a = map (\<lambda>f. (f, drv_compute_num_delims 0 0 7 (f_packetlen f))) taken"
      "2 \<le> length taken \<longrightarrow> a_al a \<le> 400" unfolding q by auto
  have "map f_seq taken = [4094, 4095]" using b(2) t(2) by (simp add: comp_def)
  moreover then have "length taken = 2" by (metis length_map length_Cons list.size(3) numeral_2_eq_2)
  ultimately show ?thesis using b(1) t by auto
qed

text \<open>A successful ADDBA response whose buffer size is 256 stores a window size of zero, because the
  field has eight bits; the build then takes no frame from the queue and the window stays as it is.\<close>

theorem tx_buffersize_256_stalls:
  assumes "ba_tid p < 8" and "buffersize p = 256" and "t_txds_queue (tid s) \<noteq> []"
    and s1: "s1 = drv_addba_rsp_process 0 p s"
  shows "t_exchangecomplete (tid s1) \<and> t_baw_size (tid s1) = 0
    \<and> (\<exists>st a s2. drv_txampdu_build nd page lim s1 = Some (st, a, s2) \<and> a_frames a = []
        \<and> t_txds_queue (tid s2) = t_txds_queue (tid s1) \<and> win (tid s2) = win (tid s1))"
proof -
  have t: "t_exchangecomplete (tid s1)" "t_baw_size (tid s1) = 0" "t_txds_queue (tid s1) = t_txds_queue (tid s)"
    using assms(1,2) unfolding s1 by (simp_all add: handshake_defs WIFINET_STATUS_SUCCESS_def WME_NUM_TID_def)
  obtain f q where q: "t_txds_queue (tid s) = f # q" using assms(3) by (cases "t_txds_queue (tid s)") auto
  have "\<exists>st p a. ampdu_loop nd page lim (min 0 n) (f # q) (tid s1) c \<lparr>a_frames = [], a_al = 0, a_bpad = 0, a_pages = 0\<rparr>
    = (st, f # q, tid s1, p, a) \<and> a_frames a = []" for n c by (auto simp: Let_def)
  then obtain st p a where l: "ampdu_loop nd page lim (min 0 (cfg_ampdu_subframes s1)) (f # q) (tid s1) (txds_pending_cnt s1)
      \<lparr>a_frames = [], a_al = 0, a_bpad = 0, a_pages = 0\<rparr> = (st, f # q, tid s1, p, a)" "a_frames a = []" by blast
  have "win ((tid s1)\<lparr>t_txds_queue := f # q\<rparr>) = win (tid s1)"
    by (intro same_window_win(1)) (simp add: same_window_def)
  then show ?thesis using t q l by (simp add: drv_txampdu_build_def Let_def)
qed
theorem tx_buffersize_256_stalls_witness:
  "\<exists>s1 st a s2. t_exchangecomplete (tid s1) \<and> t_txds_queue (tid s1) = [ex_frame 4094]
     \<and> drv_txampdu_build (\<lambda>_. 0) (\<lambda>_. 1) 65535 s1 = Some (st, a, s2) \<and> a_frames a = []"
proof -
  let ?p = "\<lparr>amsdusupported = 0, bapolicy = 1, ba_tid = 3, buffersize = 256\<rparr>"
  let ?s = "ex_st ex_tid [ex_frame 4094]"
  have "t_txds_queue (tid (drv_addba_rsp_process 0 ?p ?s)) = [ex_frame 4094]"
    by (simp add: handshake_defs WIFINET_STATUS_SUCCESS_def WME_NUM_TID_def ex_st_def)
  then show ?thesis
    using tx_buffersize_256_stalls [OF _ _ _ refl, of ?p ?s "\<lambda>_. 0" "\<lambda>_. 1" 65535] by (auto simp: ex_st_def)
qed

text \<open>C13: Deleting a session and then completing every outstanding frame, in any order and among any other
  completions, ends with an empty window, the clean-up over and the session closed.\<close>

theorem tx_teardown_completes:
  assumes "tx_wf (tid s)" "tight (tid s)" "t_exchangecomplete (tid s)" "\<not> t_cleanup_inprogress (tid s)"
    and "f_seq ` outstanding (tid s) \<subseteq> set sns"
  shows "\<exists>s'. complete_all sns (drv_txampdu_del s) = Some s' \<and> tx_wf (tid s') \<and> win (tid s') = []
    \<and> \<not> t_cleanup_inprogress (tid s') \<and> \<not> t_exchangecomplete (tid s')"
proof -
  note d = txampdu_del_effect [OF assms(3,4)]
  note w = same_window_win [OF d(1)]
  have "win (tid s) = [] \<longleftrightarrow> t_baw_head (tid s) = t_baw_tail (tid s)" by (rule win_empty_iff [OF assms(1)])
  with complete_all_closes [of "drv_txampdu_del s" sns] w d(2,3) assms(1,2,5)
  show ?thesis by (auto simp: closed_def)
qed

theorem tx_teardown_completes_witness:
  "\<exists>s'. complete_all [0, 17, 4095, 4094] (drv_txampdu_del (ex_st ex_busy [])) = Some s' \<and> win (tid s') = []
     \<and> \<not> t_exchangecomplete (tid s')"
proof -
  have "same_window ex_busy (tid (ex_st ex_busy []))" by (simp add: same_window_def ex_st_def)
  note w = same_window_win [OF this]
  have o: "outstanding ex_busy = {ex_frame 4094, ex_frame 4095, ex_frame 0}" "tight ex_busy"
    using ex_busy_window(2) by (auto simp: outstanding_def tight_def)
  show ?thesis
    using tx_teardown_completes [of "ex_st ex_busy []" "[0, 17, 4095, 4094]"] w o ex_busy_window(1,5,6)
    by (auto simp: ex_st_def ex_frame_def)
qed

text \<open>How an exchange that failed leaves the session.\<close>

definition exchange_failed :: "tx_st \<Rightarrow> tx_st \<Rightarrow> bool" where
  "exchange_failed s s2 \<longleftrightarrow> t_paused (tid s2) = 0 \<and> \<not> t_exchangeinprogress (tid s2)
     \<and> t_exchangecomplete (tid s2) = t_exchangecomplete (tid s) \<and> t_txds_queue (tid s2) = []
     \<and> (\<exists>more. tx_log s2 = tx_log s
          @ map (\<lambda>f. if vif_connected s then TxNormal f else TxComplete f False) (t_txds_queue (tid s)) @ more)"

definition exchange_done :: "ba_parameterset \<Rightarrow> nat \<Rightarrow> tx_st \<Rightarrow> tx_st \<Rightarrow> bool" where
  "exchange_done p start s s2 \<longleftrightarrow> t_paused (tid s2) = 0 \<and> \<not> t_exchangeinprogress (tid s2)
     \<and> t_exchangecomplete (tid s2) \<and> t_baw_size (tid s2) = of_nat (buffersize p)
     \<and> t_txds_queue (tid s2) = t_txds_queue (tid s)
     \<and> (\<exists>more. tx_log s2 = tx_log s @ HalAddBaOk (ba_tid p) start (of_nat (buffersize p)) # more)"

text \<open>The ADDBA exchange. The request pauses the queue and names the next sequence number. A
  successful answer in time opens the session in the hardware with that start and the granted size and
  resumes the queue unchanged; a refusal or the timeout empties the queue in order, one frame after the
  other outside the session. In every case the pause count is back at zero and the exchange is over.\<close>

theorem tx_addba_exchange:
  assumes "t_paused (tid s) = 0" "\<not> t_exchangeinprogress (tid s)" "ba_tid p < 8"
    and r: "drv_addba_req_setup i n s = (par, tmo, start, s1)"
  shows "t_paused (tid s1) = 1 \<and> t_exchangeinprogress (tid s1) \<and> active_flag (t_timer (tid s1))
    \<and> start = t_seq_next (tid s) \<and> tx_log s1 = tx_log s
    \<and> exchange_done p start s (drv_addba_rsp_process 0 p s1)
    \<and> (sc \<noteq> 0 \<longrightarrow> exchange_failed s (drv_addba_rsp_process sc p s1))
    \<and> exchange_failed s (drv_addba_timer_ex s1)"
proof -
  have r1: "start = t_seq_next (tid s)" "s1 = s\<lparr>tid := (tid s)\<lparr>t_seq_start := t_seq_next (tid s), t_exchangeinprogress := True,
      t_timer := (if active_flag (t_timer (tid s)) then t_timer (tid s) else os_timer_ex_start (t_timer (tid s))),
      t_paused := 1\<rparr>\<rparr>"
    using r assms(1,2) by (auto simp: drv_addba_req_setup_def drv_txlist_pause_for_sta_tid_def set_tid_def Let_def
      os_timer_ex_active_def split: if_splits)
  have s1: "t_paused (tid s1) = 1" "t_exchangeinprogress (tid s1)" "active_flag (t_timer (tid s1))"
      "start = t_seq_next (tid s)" "t_seq_start (tid s1) = t_seq_next (tid s)" "tx_log s1 = tx_log s"
      "t_txds_queue (tid s1) = t_txds_queue (tid s)" "t_exchangecomplete (tid s1) = t_exchangecomplete (tid s)"
      "vif_connected s1 = vif_connected s"
    unfolding r1 by (simp_all add: os_timer_ex_start_def OS_SET_TIMER_def)
  moreover have "exchange_done p start s (drv_addba_rsp_process 0 p s1)"
    using s1 assms(3) by (simp add: exchange_done_def handshake_defs WIFINET_STATUS_SUCCESS_def WME_NUM_TID_def)
  moreover have "sc \<noteq> 0 \<longrightarrow> exchange_failed s (drv_addba_rsp_process sc p s1)"
    using s1 assms(3) by (simp add: exchange_failed_def handshake_defs WIFINET_STATUS_SUCCESS_def WME_NUM_TID_def)
  moreover have "exchange_failed s (drv_addba_timer_ex s1)"
    using s1 by (simp add: exchange_failed_def handshake_defs)
  ultimately show ?thesis by blast
qed

theorem tx_addba_exchange_witness:
  "exchange_failed (ex_st ex_tid [ex_frame 1])
     (drv_addba_timer_ex (snd (snd (snd (drv_addba_req_setup 3 64 (ex_st ex_tid [ex_frame 1]))))))"
proof -
  let ?r = "drv_addba_req_setup 3 64 (ex_st ex_tid [ex_frame 1])"
  have "?r = (fst ?r, fst (snd ?r), fst (snd (snd ?r)), snd (snd (snd ?r)))" by simp
  from tx_addba_exchange [OF _ _ _ this, of "\<lparr>amsdusupported = 0, bapolicy = 1, ba_tid = 3, buffersize = 64\<rparr>" 37]
  show ?thesis by (simp add: ex_st_def ex_tid_def)
qed

text \<open>A success that arrives after the exchange has timed out still marks the session as
  established: aggregation is on for the traffic id, but the hardware was never told of the session.\<close>

theorem tx_addba_late_success:
  assumes "ba_tid p < 8" and "s1 = drv_addba_timer_ex s" and "cfg_txaggr s" "\<not> t_cleanup_inprogress (tid s)"
  shows "drv_aggr_tid (drv_addba_rsp_process 0 p s1) \<and> tx_log (drv_addba_rsp_process 0 p s1) = tx_log s1"
  using assms
  by (simp add: drv_aggr_tid_def handshake_defs WIFINET_STATUS_SUCCESS_def WME_NUM_TID_def)

theorem tx_addba_late_success_witness:
  "drv_aggr_tid (drv_addba_rsp_process 0 \<lparr>amsdusupported = 0, bapolicy = 1, ba_tid = 3, buffersize = 64\<rparr>
     (drv_addba_timer_ex (ex_st ex_tid [])))"
  using tx_addba_late_success [OF _ refl, of "\<lparr>amsdusupported = 0, bapolicy = 1, ba_tid = 3, buffersize = 64\<rparr>" "ex_st ex_tid []"]
  by (simp add: ex_st_def ex_tid_def)

end
