(* ===== verification/Elements.thy ===== *)
theory Elements
  imports Prelude "HOL-Library.Monad_Syntax"
begin

text \<open>
  The information elements of a received management frame (\<^verbatim>\<open>wifi_mac_recv.c\<close>): the tests on vendor
  elements, the attributes of a P2P element (\<^verbatim>\<open>wifi_mac_p2p.c\<close>), and the walk that notes where each
  element lies. The frame is the list of its bytes; a pointer into it is an index, NULL is \<open>None\<close>.
  A result \<open>None\<close> is a read outside the frame.
\<close>

section \<open>Little and big endian reads\<close>

definition READ_16L :: "u8 list \<Rightarrow> nat \<Rightarrow> u16 option" where
  "READ_16L m p = do { a \<leftarrow> nth_opt m p; b \<leftarrow> nth_opt m (p + 1); Some (ucast a OR push_bit 8 (ucast b)) }"

definition READ_32L :: "u8 list \<Rightarrow> nat \<Rightarrow> u32 option" where
  "READ_32L m p = do {
     a \<leftarrow> nth_opt m p; b \<leftarrow> nth_opt m (p + 1); c \<leftarrow> nth_opt m (p + 2); d \<leftarrow> nth_opt m (p + 3);
     Some (ucast a OR push_bit 8 (ucast b) OR push_bit 16 (ucast c) OR push_bit 24 (ucast d)) }"

definition READ_32B :: "u8 list \<Rightarrow> nat \<Rightarrow> u32 option" where
  "READ_32B m p = do {
     a \<leftarrow> nth_opt m p; b \<leftarrow> nth_opt m (p + 1); c \<leftarrow> nth_opt m (p + 2); d \<leftarrow> nth_opt m (p + 3);
     Some (ucast d OR push_bit 8 (ucast c) OR push_bit 16 (ucast b) OR push_bit 24 (ucast a)) }"

section \<open>Vendor elements\<close>

definition iswpaoui :: "u8 list \<Rightarrow> nat \<Rightarrow> bool option" where
  "iswpaoui m frm = do { l \<leftarrow> nth_opt m (frm + 1);
     if l > 3 then do { w \<leftarrow> READ_32L m (frm + 2); Some (w = 0x01f25000) } else Some False }"

definition iswmeoui :: "u8 list \<Rightarrow> nat \<Rightarrow> bool option" where
  "iswmeoui m frm = do { l \<leftarrow> nth_opt m (frm + 1);
     if l > 3 then do { w \<leftarrow> READ_32L m (frm + 2); Some (w = 0x02f25000) } else Some False }"

definition iswmeparam :: "u8 list \<Rightarrow> nat \<Rightarrow> bool option" where
  "iswmeparam m frm = do { l \<leftarrow> nth_opt m (frm + 1);
     if l > 5 then do { w \<leftarrow> READ_32L m (frm + 2); s \<leftarrow> nth_opt m (frm + 6); Some (w = 0x02f25000 \<and> s = 1) } else Some False }"

definition iswmeinfo :: "u8 list \<Rightarrow> nat \<Rightarrow> bool option" where
  "iswmeinfo m frm = do { l \<leftarrow> nth_opt m (frm + 1);
     if l > 5 then do { w \<leftarrow> READ_32L m (frm + 2); s \<leftarrow> nth_opt m (frm + 6); Some (w = 0x02f25000 \<and> s = 0) } else Some False }"

definition iswpsoui :: "u8 list \<Rightarrow> nat \<Rightarrow> bool option" where
  "iswpsoui m frm = do { l \<leftarrow> nth_opt m (frm + 1);
     if l > 3 then do { w \<leftarrow> READ_32B m (frm + 2); Some (w = 0x0050f204) } else Some False }"

definition isp2poui :: "u8 list \<Rightarrow> nat \<Rightarrow> bool option" where
  "isp2poui m frm = do { l \<leftarrow> nth_opt m (frm + 1);
     if l > 3 then do { w \<leftarrow> READ_32B m (frm + 2); Some (w = 0x506f9a09) } else Some False }"

definition is_only_11b_rates :: "u8 list \<Rightarrow> nat \<Rightarrow> bool option" where
  "is_only_11b_rates m frm = do { l \<leftarrow> nth_opt m (frm + 1);
     if l = 4 then do { w \<leftarrow> READ_32B m (frm + 2); Some (w = 0x02040b16) } else Some False }"

definition iswfdoui :: "u8 list \<Rightarrow> nat \<Rightarrow> bool option" where
  "iswfdoui m frm = do { l \<leftarrow> nth_opt m (frm + 1);
     if l > 3 then do { w \<leftarrow> READ_32B m (frm + 2); Some (w = 0x506f9a0a) } else Some False }"

definition iswaioui :: "u8 list \<Rightarrow> nat \<Rightarrow> bool option" where
  "iswaioui m frm = do { l \<leftarrow> nth_opt m (frm + 1);
     if l > 3 then do { w \<leftarrow> READ_32B m (frm + 2); Some (w = 0x0050f201) } else Some False }"

text \<open>The attributes of a P2P element. The remaining length is kept in 16 bits; after the start it
  never wraps, since each step first compares it with what it subtracts.\<close>

function p2p_attr_loop :: "u8 list \<Rightarrow> u8 \<Rightarrow> nat \<Rightarrow> nat \<Rightarrow> nat option option" where
  "p2p_attr_loop m element_id len subel =
     (if len \<ge> 3 then do {
        subelt_id \<leftarrow> nth_opt m subel;
        subelt_len \<leftarrow> READ_16L m (subel + 1);
        if len - 3 < unat subelt_len then Some None
        else if subelt_id = element_id then Some (Some (subel + 3))
        else p2p_attr_loop m element_id (len - 3 - unat subelt_len) (subel + 3 + unat subelt_len) }
      else Some None)"
  by pat_completeness auto
termination by (relation "measure (\<lambda>(m, i, len, p). len)") auto

declare p2p_attr_loop.simps [simp del]

definition vm_p2p_get_p2pie_attrib :: "u8 list \<Rightarrow> nat option \<Rightarrow> u8 \<Rightarrow> nat option option" where
  "vm_p2p_get_p2pie_attrib m frm element_id =
     (case frm of
        None \<Rightarrow> Some None
      | Some frm \<Rightarrow> do { l \<leftarrow> nth_opt m (frm + 1); p2p_attr_loop m element_id (unat (ucast l - 4 :: u16)) (frm + 6) })"

definition vm_p2p_get_p2pie_attrib_with_id :: "u8 list \<Rightarrow> nat option \<Rightarrow> u8 \<Rightarrow> nat option option" where
  "vm_p2p_get_p2pie_attrib_with_id m frm element_id = do {
     a \<leftarrow> vm_p2p_get_p2pie_attrib m frm element_id;
     Some (case a of None \<Rightarrow> None | Some p \<Rightarrow> Some (p - 3)) }"

section \<open>The walk over the elements\<close>

record scan_param =
  capinfo :: u16
  status_code :: u16
  assoc_id :: u16
  sp_chan :: u8
  erp :: u8
  bintval :: u8
  timoff :: u8
  tim :: "nat option"
  tstamp :: "nat option"
  country :: "nat option"
  bss_load :: "nat option"
  ssid :: "nat option"
  sp_rates :: "nat option"
  xrates :: "nat option"
  doth :: "nat option"
  wpa :: "nat option"
  wme :: "nat option"
  htcap :: "nat option"
  htinfo :: "nat option"
  tpc :: "nat option"
  quiet :: "nat option"
  rsn :: "nat option"
  rsnxe :: "nat option"
  wps :: "nat option"
  timeout_ie :: "nat option"
  p2p :: "nat option list"
  p2p_noa :: "nat option"
  wfd :: "nat option"
  wai :: "nat option"
  ext_cap :: "nat option"
  vht_cap :: "nat option"
  vht_opt :: "nat option"
  vht_tx_pwr :: "nat option"
  vht_ch_sw :: "nat option"
  vht_ext_bss_ld :: "nat option"
  vht_quiet_ch :: "nat option"
  vht_opt_md_ntf :: "nat option"
  frame_len :: u32

text \<open>What the walk reads besides the frame, and what it changes.\<close>

record elem_env =
  cfg_mac_mode :: nat
  vm_opmode_sta :: bool
  connect_request :: bool
  peer_listen_channel :: u8
  peer_dev_addr :: "u8 list"

record elem_st =
  scan :: scan_param
  p2p_index :: nat
  sta_encrypt_flag :: bool
  drop_frame :: bool
  sts_rx_elem_too_short :: u32
  sts_rx_elem_err :: u32

definition MAX_P2PIE_NUM :: nat where "MAX_P2PIE_NUM = 4"
definition CFG_11N :: nat where "CFG_11N = 3"
definition CFG_11AC :: nat where "CFG_11AC = 4"
definition P2P_ATTR_NOTICE_OF_ABSENCE :: u8 where "P2P_ATTR_NOTICE_OF_ABSENCE = 12"

abbreviation "WIFINET_ELEMID_SSID \<equiv> 0 :: u8"
abbreviation "WIFINET_ELEMID_RATES \<equiv> 1 :: u8"
abbreviation "WIFINET_ELEMID_FHPARMS \<equiv> 2 :: u8"
abbreviation "WIFINET_ELEMID_DSPARMS \<equiv> 3 :: u8"
abbreviation "WIFINET_ELEMID_TIM \<equiv> 5 :: u8"
abbreviation "WIFINET_ELEMID_COUNTRY \<equiv> 7 :: u8"
abbreviation "WIFINET_ELEMID_BSS_LOAD \<equiv> 11 :: u8"
abbreviation "WIFINET_ELEMID_PWRCNSTR \<equiv> 32 :: u8"
abbreviation "WIFINET_ELEMID_CHANSWITCHANN \<equiv> 37 :: u8"
abbreviation "WIFINET_ELEMID_QUIET \<equiv> 40 :: u8"
abbreviation "WIFINET_ELEMID_ERP \<equiv> 42 :: u8"
abbreviation "WIFINET_ELEMID_HTCAP \<equiv> 45 :: u8"
abbreviation "WIFINET_ELEMID_RSN \<equiv> 48 :: u8"
abbreviation "WIFINET_ELEMID_XRATES \<equiv> 50 :: u8"
abbreviation "WIFINET_ELEMID_HTINFO \<equiv> 61 :: u8"
abbreviation "WIFINET_ELEMID_WAI \<equiv> 68 :: u8"
abbreviation "WIFINET_ELEMID_EXTCAP \<equiv> 127 :: u8"
abbreviation "WIFINET_ELEMID_VHTCAP \<equiv> 191 :: u8"
abbreviation "WIFINET_ELEMID_VHTOP \<equiv> 192 :: u8"
abbreviation "WIFINET_ELEMID_EXT_BSS_LOAD \<equiv> 193 :: u8"
abbreviation "WIFINET_ELEMID_VHT_TX_PWR_ENVLP \<equiv> 195 :: u8"
abbreviation "WIFINET_ELEMID_CHAN_SWITCH_WRAP \<equiv> 196 :: u8"
abbreviation "WIFINET_ELEMID_QUIET_CHANNEL \<equiv> 198 :: u8"
abbreviation "WIFINET_ELEMID_OP_MODE_NOTIFY \<equiv> 199 :: u8"
abbreviation "WIFINET_ELEMID_VENDOR \<equiv> 221 :: u8"
abbreviation "WIFINET_ELEMID_RSNX \<equiv> 244 :: u8"

text \<open>The sender's address as text, with the terminating zero.\<close>

definition hex_digit :: "u8 \<Rightarrow> u8" where
  "hex_digit n = (if n < 10 then 48 + n else 87 + n)"

definition sa_text :: "u8 list \<Rightarrow> u8 list" where
  "sa_text a = concat (map (\<lambda>i. (if i = 0 then [] else [58]) @ [hex_digit (drop_bit 4 (a ! i)), hex_digit (a ! i AND 15)]) [0..<6]) @ [0]"

definition set_chan :: "elem_env \<Rightarrow> u8 list \<Rightarrow> u8 \<Rightarrow> elem_st \<Rightarrow> elem_st" where
  "set_chan e m c s =
     s\<lparr>scan := (scan s)\<lparr>sp_chan := c\<rparr>,
       drop_frame := drop_frame s \<or> peer_listen_channel e \<noteq> 0 \<and> sa_text (take 6 (drop 10 m)) = peer_dev_addr e
                       \<and> peer_listen_channel e \<noteq> c\<rparr>"

text \<open>The elements for which only the position is noted.\<close>

definition note_element :: "elem_env \<Rightarrow> u8 \<Rightarrow> nat \<Rightarrow> scan_param \<Rightarrow> scan_param" where
  "note_element e i frm sp =
     (if i = WIFINET_ELEMID_SSID then sp\<lparr>ssid := Some frm\<rparr>
      else if i = WIFINET_ELEMID_RATES then sp\<lparr>sp_rates := Some frm\<rparr>
      else if i = WIFINET_ELEMID_COUNTRY then sp\<lparr>country := Some frm\<rparr>
      else if i = WIFINET_ELEMID_TIM then sp\<lparr>tim := Some frm, timoff := of_nat frm\<rparr>
      else if i = WIFINET_ELEMID_XRATES then sp\<lparr>xrates := Some frm\<rparr>
      else if i = WIFINET_ELEMID_PWRCNSTR then sp\<lparr>tpc := Some frm\<rparr>
      else if i = WIFINET_ELEMID_CHANSWITCHANN then sp\<lparr>doth := Some frm\<rparr>
      else if i = WIFINET_ELEMID_QUIET then sp\<lparr>quiet := Some frm\<rparr>
      else if i = WIFINET_ELEMID_HTCAP \<and> cfg_mac_mode e \<ge> CFG_11N then sp\<lparr>htcap := Some frm\<rparr>
      else if i = WIFINET_ELEMID_EXTCAP then sp\<lparr>ext_cap := Some frm\<rparr>
      else if i = WIFINET_ELEMID_VHTCAP \<and> cfg_mac_mode e \<ge> CFG_11AC then sp\<lparr>vht_cap := Some frm\<rparr>
      else if i = WIFINET_ELEMID_VHTOP \<and> cfg_mac_mode e \<ge> CFG_11AC then sp\<lparr>vht_opt := Some frm\<rparr>
      else if i = WIFINET_ELEMID_VHT_TX_PWR_ENVLP then sp\<lparr>vht_tx_pwr := Some frm\<rparr>
      else if i = WIFINET_ELEMID_CHAN_SWITCH_WRAP then sp\<lparr>vht_ch_sw := Some frm\<rparr>
      else if i = WIFINET_ELEMID_EXT_BSS_LOAD then sp\<lparr>vht_ext_bss_ld := Some frm\<rparr>
      else if i = WIFINET_ELEMID_QUIET_CHANNEL then sp\<lparr>vht_quiet_ch := Some frm\<rparr>
      else if i = WIFINET_ELEMID_OP_MODE_NOTIFY then sp\<lparr>vht_opt_md_ntf := Some frm\<rparr>
      else if i = WIFINET_ELEMID_RSNX then sp\<lparr>rsnxe := Some frm\<rparr>
      else if i = WIFINET_ELEMID_BSS_LOAD then sp\<lparr>bss_load := Some frm\<rparr>
      else sp)"

definition vendor_element :: "u8 list \<Rightarrow> nat \<Rightarrow> elem_st \<Rightarrow> elem_st option" where
  "vendor_element m frm s = do {
     w1 \<leftarrow> iswpaoui m frm;
     if w1 then Some (s\<lparr>scan := (scan s)\<lparr>wpa := Some frm\<rparr>\<rparr>) else do {
     pa \<leftarrow> iswmeparam m frm; inf \<leftarrow> iswmeinfo m frm;
     if pa \<or> inf then Some (s\<lparr>scan := (scan s)\<lparr>wme := Some frm\<rparr>\<rparr>) else do {
     ws \<leftarrow> iswpsoui m frm;
     if ws then Some (s\<lparr>scan := (scan s)\<lparr>wps := Some frm\<rparr>\<rparr>) else do {
     pp \<leftarrow> isp2poui m frm;
     if pp then do {
       noa \<leftarrow> vm_p2p_get_p2pie_attrib_with_id m (Some frm) P2P_ATTR_NOTICE_OF_ABSENCE;
       let s = (if p2p_index s < MAX_P2PIE_NUM
                then s\<lparr>scan := (scan s)\<lparr>p2p := (p2p (scan s))[p2p_index s := Some frm]\<rparr>, p2p_index := p2p_index s + 1\<rparr> else s);
       Some (s\<lparr>scan := (scan s)\<lparr>p2p_noa := noa\<rparr>\<rparr>) }
     else do {
     wf \<leftarrow> iswfdoui m frm;
     Some (if wf then s\<lparr>scan := (scan s)\<lparr>wfd := Some frm\<rparr>\<rparr> else s) }}}}}"

text \<open>One element: whether the walk goes on, and the state.\<close>

definition elem_step :: "elem_env \<Rightarrow> u8 list \<Rightarrow> nat \<Rightarrow> elem_st \<Rightarrow> (bool \<times> elem_st) option" where
  "elem_step e m frm s = do {
     i \<leftarrow> nth_opt m frm;
     if i = WIFINET_ELEMID_FHPARMS then Some (\<not> frm + 6 \<ge> length m, s)
     else if i = WIFINET_ELEMID_DSPARMS then
       (if frm + 2 \<ge> length m then Some (False, s) else do { c \<leftarrow> nth_opt m (frm + 2); Some (True, set_chan e m c s) })
     else if i = WIFINET_ELEMID_ERP then
       (if frm + 2 \<ge> length m then Some (False, s) else do {
          l \<leftarrow> nth_opt m (frm + 1);
          if l \<noteq> 1 then Some (False, s)
          else do { x \<leftarrow> nth_opt m (frm + 2); Some (True, s\<lparr>scan := (scan s)\<lparr>erp := x\<rparr>\<rparr>) } })
     else if i = WIFINET_ELEMID_RSN then
       Some (True, s\<lparr>scan := (scan s)\<lparr>rsn := Some frm\<rparr>,
                     sta_encrypt_flag := sta_encrypt_flag s \<or> vm_opmode_sta e \<and> connect_request e\<rparr>)
     else if i = WIFINET_ELEMID_WAI then
       Some (True, s\<lparr>scan := (scan s)\<lparr>wai := Some frm\<rparr>,
                     sta_encrypt_flag := sta_encrypt_flag s \<or> vm_opmode_sta e \<and> connect_request e\<rparr>)
     else if i = WIFINET_ELEMID_VENDOR then do { s \<leftarrow> vendor_element m frm s; Some (True, s) }
     else if i = WIFINET_ELEMID_HTINFO then
       (if cfg_mac_mode e \<ge> CFG_11N
        then do { c \<leftarrow> nth_opt m (frm + 2); Some (True, set_chan e m c (s\<lparr>scan := (scan s)\<lparr>htinfo := Some frm\<rparr>\<rparr>)) }
        else Some (True, s))
     else Some (True, s\<lparr>scan := note_element e i frm (scan s)\<rparr>) }"

text \<open>The loop: the value left in \<open>invalid\<close>, and the state.\<close>

function elem_walk :: "elem_env \<Rightarrow> u8 list \<Rightarrow> nat \<Rightarrow> elem_st \<Rightarrow> (bool \<times> elem_st) option" where
  "elem_walk e m frm s =
     (if frm + 1 < length m \<and> frm + unat (m ! (frm + 1)) + 1 < length m
      then do {
        (more, s) \<leftarrow> elem_step e m frm s;
        if more then elem_walk e m (frm + unat (m ! (frm + 1)) + 2) s else Some (True, s) }
      else if frm > length m then Some (True, s\<lparr>sts_rx_elem_err := sts_rx_elem_err s + 1\<rparr>)
      else Some (False, s))"
  by pat_completeness auto
termination by (relation "measure (\<lambda>(e, m, frm, s). length m - frm)") auto

declare elem_walk.simps [simp del]

abbreviation "WIFINET_FC0_SUBTYPE_ASSOC_RESP \<equiv> 0x10 :: u8"
abbreviation "WIFINET_FC0_SUBTYPE_PROBE_RESP \<equiv> 0x50 :: u8"
abbreviation "WIFINET_FC0_SUBTYPE_BEACON \<equiv> 0x80 :: u8"

text \<open>The 24 bytes of the header are followed by the fixed fields and the elements.\<close>

definition wifi_mac_pkt_parse_element :: "elem_env \<Rightarrow> u8 list \<Rightarrow> elem_st \<Rightarrow> (bool \<times> elem_st) option" where
  "wifi_mac_pkt_parse_element e m s = do {
     fc \<leftarrow> nth_opt m 0; _ \<leftarrow> nth_opt m 15;
     let subtype = fc AND 0xf0;
     let frm = 24;
     let s = s\<lparr>scan := (scan s)\<lparr>frame_len := of_nat (length m)\<rparr>, p2p_index := 0\<rparr>;
     if subtype = WIFINET_FC0_SUBTYPE_BEACON \<or> subtype = WIFINET_FC0_SUBTYPE_PROBE_RESP then
       (if int (length m) - int frm < 12
        then Some (True, s\<lparr>sts_rx_elem_too_short := sts_rx_elem_too_short s + 1\<rparr>)
        else do {
          bi \<leftarrow> READ_16L m (frm + 8); ci \<leftarrow> READ_16L m (frm + 10);
          elem_walk e m (frm + 12) (s\<lparr>scan := (scan s)\<lparr>tstamp := Some frm, bintval := ucast bi, capinfo := ci\<rparr>\<rparr>) })
     else if subtype = WIFINET_FC0_SUBTYPE_ASSOC_RESP then
       (if int (length m) - int frm < 6
        then Some (True, s\<lparr>sts_rx_elem_too_short := sts_rx_elem_too_short s + 1\<rparr>)
        else do {
          ci \<leftarrow> READ_16L m frm; sc \<leftarrow> READ_16L m (frm + 2); ai \<leftarrow> READ_16L m (frm + 4);
          elem_walk e m (frm + 6) (s\<lparr>scan := (scan s)\<lparr>capinfo := ci, status_code := sc, assoc_id := ai\<rparr>\<rparr>) })
     else elem_walk e m frm s }"

section \<open>Reads that stay inside an element\<close>

declare One_nat_def [simp del] add_2_eq_Suc [simp del] add_2_eq_Suc' [simp del]

lemma READ_16L_Some [simp]: "READ_16L m p \<noteq> None \<longleftrightarrow> p + 1 < length m"
  by (auto simp: READ_16L_def nth_opt_def)

lemma READ_32L_None: "READ_32L m p = None \<longleftrightarrow> length m \<le> p + 3"
  by (auto simp: READ_32L_def nth_opt_def)

lemma READ_32B_None: "READ_32B m p = None \<longleftrightarrow> length m \<le> p + 3"
  by (auto simp: READ_32B_def nth_opt_def)

text \<open>The element at \<open>p\<close> lies inside the frame.\<close>

definition elem_inside :: "u8 list \<Rightarrow> nat \<Rightarrow> bool" where
  "elem_inside m p \<longleftrightarrow> p + 1 < length m \<and> p + unat (m ! (p + 1)) + 1 < length m"

lemma elem_insideD: "elem_inside m p \<Longrightarrow> p + 1 < length m \<and> p < length m \<and> p + unat (m ! (p + 1)) + 1 < length m"
  by (simp add: elem_inside_def)

lemma vendor_tests_defined:
  assumes "elem_inside m p"
  shows "iswpaoui m p \<noteq> None" "iswmeparam m p \<noteq> None" "iswmeinfo m p \<noteq> None" "iswpsoui m p \<noteq> None"
    "isp2poui m p \<noteq> None" "iswfdoui m p \<noteq> None"
proof -
  let ?l = "m ! (p + 1)"
  note i = elem_insideD [OF assms]
  have l: "nth_opt m (p + 1) = Some ?l" using i by simp
  have l6: "\<exists>s. nth_opt m (p + 6) = Some s" if "?l > 5"
    using that i unat_mono [OF that] by (intro exI [of _ "m ! (p + 6)"]) simp
  have ge: "?l > 3" if "?l > 5"
    using unat_mono [OF that] by (simp add: word_less_nat_alt)
  have w32: "\<exists>w. READ_32L m (p + 2) = Some w" "\<exists>w. READ_32B m (p + 2) = Some w" if "?l > 3"
  proof -
    have "\<not> length m \<le> p + 2 + 3" using i unat_mono [OF that] by simp
    with READ_32L_None [of m "p + 2"] READ_32B_None [of m "p + 2"]
    show "\<exists>w. READ_32L m (p + 2) = Some w" "\<exists>w. READ_32B m (p + 2) = Some w" by (metis not_None_eq)+
  qed
  show "iswpaoui m p \<noteq> None" using w32(1) by (cases "?l > 3") (auto simp: iswpaoui_def l)
  show "iswmeparam m p \<noteq> None" using w32(1) l6 ge by (cases "?l > 5") (auto simp: iswmeparam_def l)
  show "iswmeinfo m p \<noteq> None" using w32(1) l6 ge by (cases "?l > 5") (auto simp: iswmeinfo_def l)
  show "iswpsoui m p \<noteq> None" using w32(2) by (cases "?l > 3") (auto simp: iswpsoui_def l)
  show "isp2poui m p \<noteq> None" using w32(2) by (cases "?l > 3") (auto simp: isp2poui_def l)
  show "iswfdoui m p \<noteq> None" using w32(2) by (cases "?l > 3") (auto simp: iswfdoui_def l)
qed

lemma p2p_attr_loop_defined:
  "p + len \<le> length m \<Longrightarrow>
   \<exists>r. p2p_attr_loop m i len p = Some r \<and> (\<forall>q. r = Some q \<longrightarrow> p + 3 \<le> q \<and> q \<le> length m)"
proof (induction m i len p rule: p2p_attr_loop.induct)
  case (1 m i len p)
  show ?case
  proof (cases "len \<ge> 3")
    case False
    then show ?thesis by (simp add: p2p_attr_loop.simps)
  next
    case True
    have "READ_16L m (p + 1) \<noteq> None" using True 1(2) by (simp del: not_None_eq)
    then obtain w where w: "READ_16L m (p + 1) = Some w" by blast
    have p: "nth_opt m p = Some (m ! p)" using True 1(2) by simp
    show ?thesis
    proof (cases "len - 3 < unat w \<or> m ! p = i")
      case True
      with \<open>len \<ge> 3\<close> w p 1(2) show ?thesis by (subst p2p_attr_loop.simps) auto
    next
      case False
      then have "p + 3 + unat w + (len - 3 - unat w) \<le> length m" using True 1(2) by linarith
      with 1(1) [OF True p w] False
      have "\<exists>r. p2p_attr_loop m i (len - 3 - unat w) (p + 3 + unat w) = Some r
        \<and> (\<forall>q. r = Some q \<longrightarrow> p + 3 + unat w + 3 \<le> q \<and> q \<le> length m)" by blast
      with False True w p show ?thesis by (subst p2p_attr_loop.simps) fastforce
    qed
  qed
qed

lemma p2p_attrib_defined:
  assumes i: "elem_inside m p" and pp: "isp2poui m p = Some True"
  shows "\<exists>r. vm_p2p_get_p2pie_attrib_with_id m (Some p) a = Some r"
proof -
  let ?l = "m ! (p + 1)"
  have l: "3 < unat ?l" using pp elem_insideD [OF i]
    by (auto simp: isp2poui_def word_less_nat_alt bind_eq_Some_conv nth_opt_Some_iff split: if_splits)
  have "unat (ucast ?l - 4 :: u16) = unat ?l - 4"
  proof -
    have u: "unat (ucast ?l :: u16) = unat ?l" by (simp add: unat_ucast_up)
    then have "(4 :: u16) \<le> ucast ?l" using l by (simp add: word_le_nat_alt)
    then show ?thesis using u by (simp add: unat_sub)
  qed
  then have "p + 6 + unat (ucast ?l - 4 :: u16) \<le> length m" using l elem_insideD [OF i] by simp
  from p2p_attr_loop_defined [OF this, of a] show ?thesis
    using elem_insideD [OF i] by (auto simp: vm_p2p_get_p2pie_attrib_with_id_def vm_p2p_get_p2pie_attrib_def)
qed

lemma vendor_element_defined:
  assumes "elem_inside m p"
  shows "\<exists>s'. vendor_element m p s = Some s'"
proof -
  obtain a b c d f g where v: "iswpaoui m p = Some a" "iswmeparam m p = Some b" "iswmeinfo m p = Some c" "iswpsoui m p = Some d"
      "isp2poui m p = Some f" "iswfdoui m p = Some g"
    using vendor_tests_defined [OF assms] by blast
  show ?thesis
  proof (cases f)
    case True
    with v p2p_attrib_defined [OF assms, of P2P_ATTR_NOTICE_OF_ABSENCE] show ?thesis
      by (auto simp: vendor_element_def Let_def)
  next
    case False
    with v show ?thesis by (auto simp: vendor_element_def)
  qed
qed

text \<open>One step is defined unless it reads the channel of an HT operation element without a body at the end.\<close>

lemma elem_step_defined:
  assumes i: "elem_inside m p" and n: "\<not> (CFG_11N \<le> cfg_mac_mode e \<and> m ! p = WIFINET_ELEMID_HTINFO \<and> length m \<le> p + 2)"
  shows "elem_step e m p s \<noteq> None"
proof -
  note ii = elem_insideD [OF i]
  obtain v where v: "vendor_element m p s = Some v" using vendor_element_defined [OF i] by blast
  have nth: "nth_opt m p = Some (m ! p)" "nth_opt m (p + 1) = Some (m ! (p + 1))" using ii by simp_all
  have two: "p + 2 < length m \<Longrightarrow> nth_opt m (p + 2) = Some (m ! (p + 2))" by simp
  show ?thesis
    unfolding elem_step_def
    using ii n nth v two by (auto simp: not_le simp del: One_nat_def)
qed

section \<open>The positions noted\<close>

definition noted :: "scan_param \<Rightarrow> nat set" where
  "noted sp = {q. Some q \<in> set ([tim sp, country sp, bss_load sp, ssid sp, sp_rates sp, xrates sp, doth sp, wpa sp,
     wme sp, htcap sp, htinfo sp, tpc sp, quiet sp, rsn sp, rsnxe sp, wps sp, timeout_ie sp, wfd sp, wai sp, ext_cap sp,
     vht_cap sp, vht_opt sp, vht_tx_pwr sp, vht_ch_sw sp, vht_ext_bss_ld sp, vht_quiet_ch sp, vht_opt_md_ntf sp] @ p2p sp)}"

lemma noted_update:
  "noted (sp\<lparr>ssid := Some p\<rparr>) \<subseteq> insert p (noted sp)" "noted (sp\<lparr>sp_rates := Some p\<rparr>) \<subseteq> insert p (noted sp)"
  "noted (sp\<lparr>country := Some p\<rparr>) \<subseteq> insert p (noted sp)" "noted (sp\<lparr>tim := Some p, timoff := x\<rparr>) \<subseteq> insert p (noted sp)"
  "noted (sp\<lparr>xrates := Some p\<rparr>) \<subseteq> insert p (noted sp)" "noted (sp\<lparr>tpc := Some p\<rparr>) \<subseteq> insert p (noted sp)"
  "noted (sp\<lparr>doth := Some p\<rparr>) \<subseteq> insert p (noted sp)" "noted (sp\<lparr>quiet := Some p\<rparr>) \<subseteq> insert p (noted sp)"
  "noted (sp\<lparr>htcap := Some p\<rparr>) \<subseteq> insert p (noted sp)" "noted (sp\<lparr>ext_cap := Some p\<rparr>) \<subseteq> insert p (noted sp)"
  "noted (sp\<lparr>vht_cap := Some p\<rparr>) \<subseteq> insert p (noted sp)" "noted (sp\<lparr>vht_opt := Some p\<rparr>) \<subseteq> insert p (noted sp)"
  "noted (sp\<lparr>vht_tx_pwr := Some p\<rparr>) \<subseteq> insert p (noted sp)" "noted (sp\<lparr>vht_ch_sw := Some p\<rparr>) \<subseteq> insert p (noted sp)"
  "noted (sp\<lparr>vht_ext_bss_ld := Some p\<rparr>) \<subseteq> insert p (noted sp)" "noted (sp\<lparr>vht_quiet_ch := Some p\<rparr>) \<subseteq> insert p (noted sp)"
  "noted (sp\<lparr>vht_opt_md_ntf := Some p\<rparr>) \<subseteq> insert p (noted sp)" "noted (sp\<lparr>rsnxe := Some p\<rparr>) \<subseteq> insert p (noted sp)"
  "noted (sp\<lparr>bss_load := Some p\<rparr>) \<subseteq> insert p (noted sp)" "noted (sp\<lparr>rsn := Some p\<rparr>) \<subseteq> insert p (noted sp)"
  "noted (sp\<lparr>wai := Some p\<rparr>) \<subseteq> insert p (noted sp)" "noted (sp\<lparr>htinfo := Some p\<rparr>) \<subseteq> insert p (noted sp)"
  "noted (sp\<lparr>wpa := Some p\<rparr>) \<subseteq> insert p (noted sp)" "noted (sp\<lparr>wme := Some p\<rparr>) \<subseteq> insert p (noted sp)"
  "noted (sp\<lparr>wps := Some p\<rparr>) \<subseteq> insert p (noted sp)" "noted (sp\<lparr>wfd := Some p\<rparr>) \<subseteq> insert p (noted sp)"
  by (auto simp: noted_def)

lemma noted_same:
  "noted (sp\<lparr>sp_chan := c\<rparr>) = noted sp" "noted (sp\<lparr>erp := c\<rparr>) = noted sp" "noted (sp\<lparr>p2p_noa := a\<rparr>) = noted sp"
  "noted (sp\<lparr>frame_len := l\<rparr>) = noted sp" "noted (sp\<lparr>tstamp := t, bintval := b, capinfo := ci\<rparr>) = noted sp"
  "noted (sp\<lparr>capinfo := ci, status_code := sc, assoc_id := ai\<rparr>) = noted sp"
  by (simp_all add: noted_def)

lemma noted_p2p: "noted (sp\<lparr>p2p := (p2p sp)[i := Some p]\<rparr>) \<subseteq> insert p (noted sp)"
proof -
  have "set ((p2p sp)[i := Some p]) \<subseteq> insert (Some p) (set (p2p sp))" by (rule set_update_subset_insert)
  then show ?thesis by (auto simp: noted_def)
qed

lemma noted_element: "noted (note_element e i p sp) \<subseteq> insert p (noted sp)"
  unfolding note_element_def by (simp add: noted_update subset_insertI)

lemma vendor_element_noted:
  assumes "vendor_element m p s = Some s'"
  shows "noted (scan s') \<subseteq> insert p (noted (scan s))"
  using assms unfolding vendor_element_def Let_def
  by (auto simp: bind_eq_Some_conv noted_same dest: set_mp [OF noted_update(23)] set_mp [OF noted_update(24)]
      set_mp [OF noted_update(25)] set_mp [OF noted_update(26)] set_mp [OF noted_p2p] split: if_splits)

lemma elem_step_noted:
  assumes "elem_step e m p s = Some (b, s')"
  shows "noted (scan s') \<subseteq> insert p (noted (scan s))"
proof -
  have c: "noted (scan (set_chan e m c t)) = noted (scan t)" for c t by (simp add: set_chan_def noted_same)
  show ?thesis
    using assms unfolding elem_step_def
    by (auto simp: bind_eq_Some_conv c noted_same dest: vendor_element_noted [THEN set_mp] set_mp [OF noted_element]
        set_mp [OF noted_update(20)] set_mp [OF noted_update(21)] set_mp [OF noted_update(22)] split: if_splits)
qed

text \<open>The one frame shape that is read past its end.\<close>

definition ends_with_empty_htinfo :: "u8 list \<Rightarrow> bool" where
  "ends_with_empty_htinfo m \<longleftrightarrow> length m \<ge> 2 \<and> m ! (length m - 2) = WIFINET_ELEMID_HTINFO \<and> m ! (length m - 1) = 0"

lemma elem_walk_safe:
  "\<not> (CFG_11N \<le> cfg_mac_mode e \<and> ends_with_empty_htinfo m) \<Longrightarrow> (\<forall>q \<in> noted (scan s). elem_inside m q) \<Longrightarrow>
   \<exists>b s'. elem_walk e m p s = Some (b, s') \<and> (\<forall>q \<in> noted (scan s'). elem_inside m q)"
proof (induction e m p s rule: elem_walk.induct)
  case (1 e m p s)
  show ?case
  proof (cases "elem_inside m p")
    case False
    then show ?thesis using 1(3) by (subst elem_walk.simps) (auto simp: elem_inside_def)
  next
    case True
    note ii = elem_insideD [OF True]
    have "\<not> (CFG_11N \<le> cfg_mac_mode e \<and> m ! p = WIFINET_ELEMID_HTINFO \<and> length m \<le> p + 2)"
    proof
      assume a: "CFG_11N \<le> cfg_mac_mode e \<and> m ! p = WIFINET_ELEMID_HTINFO \<and> length m \<le> p + 2"
      then have l: "length m = p + 2" "unat (m ! (p + 1)) = 0" using ii by simp_all
      then have "m ! (p + 1) = 0" by (simp add: unat_eq_0)
      have k: "length m - 2 = p" "length m - 1 = p + 1" using l(1) by linarith+
      have "ends_with_empty_htinfo m"
        unfolding ends_with_empty_htinfo_def k using a l(1) \<open>m ! (p + 1) = 0\<close> by simp
      with a 1(2) show False by blast
    qed
    from elem_step_defined [OF True this, of s] obtain b s1 where st: "elem_step e m p s = Some (b, s1)" by auto
    have n: "\<forall>q \<in> noted (scan s1). elem_inside m q" using elem_step_noted [OF st] 1(3) True by blast
    show ?thesis
    proof (cases b)
      case False
      with st n ii show ?thesis by (subst elem_walk.simps) auto
    next
      case more: True
      have "elem_walk e m p s = elem_walk e m (p + unat (m ! (p + 1)) + 2) s1"
        using st more ii by (subst elem_walk.simps) simp
      moreover have "\<exists>b s'. elem_walk e m (p + unat (m ! (p + 1)) + 2) s1 = Some (b, s') \<and> (\<forall>q \<in> noted (scan s'). elem_inside m q)"
        using 1(1) [OF _ _ refl more 1(2) n] ii st more by simp
      ultimately show ?thesis by simp
    qed
  qed
qed

lemma CFG_le: "CFG_11AC \<le> n \<Longrightarrow> CFG_11N \<le> n"
  by (simp add: CFG_11AC_def CFG_11N_def)

section \<open>Frames made of elements\<close>

definition ie_bytes :: "u8 \<times> u8 list \<Rightarrow> u8 list" where
  "ie_bytes x = fst x # of_nat (length (snd x)) # snd x"

lemma ie_at:
  assumes "drop p m = concat (map ie_bytes ((i, b) # es))" "length b < 256"
  shows "m ! p = i" "unat (m ! (p + 1)) = length b" "elem_inside m p" "drop (p + length b + 2) m = concat (map ie_bytes es)"
    "p + length b + 2 \<le> length m"
proof -
  have d: "drop p m = i # of_nat (length b) # b @ concat (map ie_bytes es)" using assms(1) by (simp add: ie_bytes_def)
  have l: "length m - p = length b + 2 + length (concat (map ie_bytes es))" using arg_cong [OF d, of length] by simp
  then show le: "p + length b + 2 \<le> length m" by linarith
  have "drop p m ! 0 = i" "drop p m ! 1 = of_nat (length b)" unfolding d by simp_all
  then show m: "m ! p = i" and "unat (m ! (p + 1)) = length b"
    using le assms(2) by (simp_all add: unat_of_nat take_bit_nat_eq_self_iff)
  then show "elem_inside m p" using le by (simp add: elem_inside_def)
  have "drop (p + length b + 2) m = drop (length b + 2) (drop p m)" by (simp add: add.commute add.left_commute)
  then show "drop (p + length b + 2) m = concat (map ie_bytes es)" unfolding d by (simp add: numeral_2_eq_2)
qed

lemma ie_body_at:
  assumes "drop p m = concat (map ie_bytes ((i, b) # es))" "k < length b"
  shows "nth_opt m (p + (2 + k)) = Some (b ! k)"
proof -
  have d: "drop p m = i # of_nat (length b) # b @ concat (map ie_bytes es)" using assms(1) by (simp add: ie_bytes_def)
  have "length m - p = length b + 2 + length (concat (map ie_bytes es))" using arg_cong [OF d, of length] by simp
  then have "p + (2 + k) < length m" using assms(2) by linarith
  moreover have "m ! (p + (2 + k)) = drop p m ! (2 + k)" using calculation by simp
  moreover have "\<dots> = b ! k" unfolding d using assms(2) by (simp add: nth_append numeral_2_eq_2)
  ultimately show ?thesis by simp
qed

text \<open>The position of the last element of a kind, or what is computed from it, and the positions of all of them.\<close>

fun last_by :: "(u8 \<times> u8 list \<Rightarrow> bool) \<Rightarrow> (nat \<Rightarrow> u8 \<times> u8 list \<Rightarrow> 'a) \<Rightarrow> nat \<Rightarrow> (u8 \<times> u8 list) list \<Rightarrow> 'a \<Rightarrow> 'a" where
  "last_by P h p [] r = r"
| "last_by P h p (x # es) r = last_by P h (p + length (snd x) + 2) es (if P x then h p x else r)"

fun all_by :: "(u8 \<times> u8 list \<Rightarrow> bool) \<Rightarrow> nat \<Rightarrow> (u8 \<times> u8 list) list \<Rightarrow> nat list" where
  "all_by P p [] = []"
| "all_by P p (x # es) = (if P x then [p] else []) @ all_by P (p + length (snd x) + 2) es"

definition vendor_is :: "u8 list \<Rightarrow> u8 \<times> u8 list \<Rightarrow> bool" where
  "vendor_is oui x \<longleftrightarrow> fst x = WIFINET_ELEMID_VENDOR \<and> take 4 (snd x) = oui"

definition wpa_ie :: "u8 \<times> u8 list \<Rightarrow> bool" where "wpa_ie = vendor_is [0, 0x50, 0xf2, 1]"
definition wps_ie :: "u8 \<times> u8 list \<Rightarrow> bool" where "wps_ie = vendor_is [0, 0x50, 0xf2, 4]"
definition p2p_ie :: "u8 \<times> u8 list \<Rightarrow> bool" where "p2p_ie = vendor_is [0x50, 0x6f, 0x9a, 9]"
definition wfd_ie :: "u8 \<times> u8 list \<Rightarrow> bool" where "wfd_ie = vendor_is [0x50, 0x6f, 0x9a, 10]"

definition wme_ie :: "u8 \<times> u8 list \<Rightarrow> bool" where
  "wme_ie x \<longleftrightarrow> vendor_is [0, 0x50, 0xf2, 2] x \<and> 6 \<le> length (snd x) \<and> snd x ! 4 \<in> {0, 1}"

text \<open>Which elements each pointer of the result is for.\<close>

definition noted_by :: "elem_env \<Rightarrow> ((u8 \<times> u8 list \<Rightarrow> bool) \<times> (scan_param \<Rightarrow> nat option)) list" where
  "noted_by e =
    [(\<lambda>x. fst x = WIFINET_ELEMID_SSID, ssid), (\<lambda>x. fst x = WIFINET_ELEMID_RATES, sp_rates),
     (\<lambda>x. fst x = WIFINET_ELEMID_XRATES, xrates), (\<lambda>x. fst x = WIFINET_ELEMID_COUNTRY, country),
     (\<lambda>x. fst x = WIFINET_ELEMID_TIM, tim), (\<lambda>x. fst x = WIFINET_ELEMID_RSN, rsn),
     (\<lambda>x. fst x = WIFINET_ELEMID_RSNX, rsnxe), (\<lambda>x. fst x = WIFINET_ELEMID_EXTCAP, ext_cap),
     (\<lambda>x. fst x = WIFINET_ELEMID_CHANSWITCHANN, doth), (\<lambda>x. fst x = WIFINET_ELEMID_PWRCNSTR, tpc),
     (\<lambda>x. fst x = WIFINET_ELEMID_QUIET, quiet), (\<lambda>x. fst x = WIFINET_ELEMID_WAI, wai),
     (\<lambda>x. fst x = WIFINET_ELEMID_BSS_LOAD, bss_load), (\<lambda>x. fst x = WIFINET_ELEMID_VHT_TX_PWR_ENVLP, vht_tx_pwr),
     (\<lambda>x. fst x = WIFINET_ELEMID_CHAN_SWITCH_WRAP, vht_ch_sw), (\<lambda>x. fst x = WIFINET_ELEMID_EXT_BSS_LOAD, vht_ext_bss_ld),
     (\<lambda>x. fst x = WIFINET_ELEMID_QUIET_CHANNEL, vht_quiet_ch), (\<lambda>x. fst x = WIFINET_ELEMID_OP_MODE_NOTIFY, vht_opt_md_ntf),
     (\<lambda>x. fst x = WIFINET_ELEMID_HTCAP \<and> CFG_11N \<le> cfg_mac_mode e, htcap),
     (\<lambda>x. fst x = WIFINET_ELEMID_HTINFO \<and> CFG_11N \<le> cfg_mac_mode e, htinfo),
     (\<lambda>x. fst x = WIFINET_ELEMID_VHTCAP \<and> CFG_11AC \<le> cfg_mac_mode e, vht_cap),
     (\<lambda>x. fst x = WIFINET_ELEMID_VHTOP \<and> CFG_11AC \<le> cfg_mac_mode e, vht_opt), (wpa_ie, wpa), (wme_ie, wme), (wps_ie, wps),
     (wfd_ie, wfd), (\<lambda>_. False, timeout_ie)]"

text \<open>The elements that carry a channel, and the four kinds whose body must have a length.\<close>

definition chan_ie :: "elem_env \<Rightarrow> u8 \<times> u8 list \<Rightarrow> bool" where
  "chan_ie e x \<longleftrightarrow> fst x = WIFINET_ELEMID_DSPARMS \<or> fst x = WIFINET_ELEMID_HTINFO \<and> CFG_11N \<le> cfg_mac_mode e"

definition ie_ok :: "u8 \<times> u8 list \<Rightarrow> bool" where
  "ie_ok x \<longleftrightarrow> length (snd x) < 256 \<and> (fst x = WIFINET_ELEMID_FHPARMS \<longrightarrow> 5 \<le> length (snd x))
     \<and> (fst x \<in> {WIFINET_ELEMID_DSPARMS, WIFINET_ELEMID_HTINFO} \<longrightarrow> 1 \<le> length (snd x))
     \<and> (fst x = WIFINET_ELEMID_ERP \<longrightarrow> length (snd x) = 1)"

lemma join32_iff:
  fixes a b c d :: u8 and w :: u32
  shows "ucast a OR push_bit 8 (ucast b) OR push_bit 16 (ucast c) OR push_bit 24 (ucast d) = w
    \<longleftrightarrow> [a, b, c, d] = [ucast w, ucast (drop_bit 8 w), ucast (drop_bit 16 w), ucast (drop_bit 24 w)]"
proof
  define j where "j = (ucast a OR push_bit 8 (ucast b) OR push_bit 16 (ucast c) OR push_bit 24 (ucast d) :: u32)"
  assume "ucast a OR push_bit 8 (ucast b) OR push_bit 16 (ucast c) OR push_bit 24 (ucast d) = w"
  then have w: "w = j" by (simp add: j_def)
  have "ucast j = a" "ucast (drop_bit 8 j) = b" "ucast (drop_bit 16 j) = c" "ucast (drop_bit 24 j) = d"
    by (rule bit_word_eqI; auto simp: j_def bit_simps dest: bit_imp_le_length)+
  then show "[a, b, c, d] = [ucast w, ucast (drop_bit 8 w), ucast (drop_bit 16 w), ucast (drop_bit 24 w)]" by (simp add: w)
next
  assume "[a, b, c, d] = [ucast w, ucast (drop_bit 8 w), ucast (drop_bit 16 w), ucast (drop_bit 24 w)]"
  then have e: "a = ucast w" "b = ucast (drop_bit 8 w)" "c = ucast (drop_bit 16 w)" "d = ucast (drop_bit 24 w)" by simp_all
  show "ucast a OR push_bit 8 (ucast b) OR push_bit 16 (ucast c) OR push_bit 24 (ucast d) = w"
  proof (rule bit_word_eqI)
    fix n assume "n < LENGTH(32)"
    then have "n < 32" by simp
    then consider "n < 8" | "8 \<le> n" "n < 16" | "16 \<le> n" "n < 24" | "24 \<le> n" "n < 32" by linarith
    then show "bit (ucast a OR push_bit 8 (ucast b) OR push_bit 16 (ucast c) OR push_bit 24 (ucast d) :: u32) n = bit w n"
      unfolding e by cases (auto simp: bit_simps)
  qed
qed


lemma take4_iff: "take 4 b = [x, y, z, w] \<longleftrightarrow> 4 \<le> length b \<and> [b ! 0, b ! 1, b ! 2, b ! 3] = [x, y, z, w]"
proof (cases "4 \<le> length b")
  case True
  then obtain a0 r0 where b: "b = a0 # r0" "3 \<le> length r0" by (cases b) auto
  then obtain a1 r1 where r0: "r0 = a1 # r1" "2 \<le> length r1" by (cases r0) auto
  then obtain a2 r2 where r1: "r1 = a2 # r2" "1 \<le> length r2" by (cases r1) auto
  then obtain a3 r3 where "r2 = a3 # r3" by (cases r2) auto
  then show ?thesis by (simp add: b r0 r1 nth_Cons')
next
  case False
  then have "length (take 4 b) \<noteq> length [x, y, z, w]" by simp
  with False show ?thesis by metis
qed

definition word_bytes :: "u32 \<Rightarrow> u8 list" where
  "word_bytes w = [ucast w, ucast (drop_bit 8 w), ucast (drop_bit 16 w), ucast (drop_bit 24 w)]"

lemma oui_bytes:
  "word_bytes 0x01f25000 = [0, 0x50, 0xf2, 1]"
  "word_bytes 0x02f25000 = [0, 0x50, 0xf2, 2]"
  "word_bytes 0x0050f204 = [4, 0xf2, 0x50, 0]"
  "word_bytes 0x506f9a09 = [9, 0x9a, 0x6f, 0x50]"
  "word_bytes 0x506f9a0a = [10, 0x9a, 0x6f, 0x50]"
  by code_simp+

lemmas oui_iff = join32_iff [of _ _ _ _ "0x01f25000", folded word_bytes_def, unfolded oui_bytes(1)]
  join32_iff [of _ _ _ _ "0x02f25000", folded word_bytes_def, unfolded oui_bytes(2)]
  join32_iff [of _ _ _ _ "0x0050f204", folded word_bytes_def, unfolded oui_bytes(3)]
  join32_iff [of _ _ _ _ "0x506f9a09", folded word_bytes_def, unfolded oui_bytes(4)]
  join32_iff [of _ _ _ _ "0x506f9a0a", folded word_bytes_def, unfolded oui_bytes(5)]

text \<open>The tests on a vendor element read its first bytes.\<close>

lemma vendor_tests_at:
  assumes "drop p m = concat (map ie_bytes (x # es))" "length (snd x) < 256" "fst x = WIFINET_ELEMID_VENDOR"
  shows "iswpaoui m p = Some (wpa_ie x)" "iswpsoui m p = Some (wps_ie x)" "isp2poui m p = Some (p2p_ie x)" "iswfdoui m p = Some (wfd_ie x)"
    "\<exists>b c. iswmeparam m p = Some b \<and> iswmeinfo m p = Some c \<and> (b \<or> c) = wme_ie x"
proof -
  obtain i b where x: "x = (i, b)" by (cases x)
  note at = ie_at [OF assms(1) [unfolded x]] and bd = ie_body_at [OF assms(1) [unfolded x]]
  have b: "length b < 256" using assms(2) x by simp
  let ?l = "m ! (p + 1)"
  have l: "nth_opt m (p + 1) = Some ?l" "unat ?l = length b" using at(2,5) [OF b] by auto
  have n: "(?l > 3) = (3 < length b)" "(?l > 5) = (5 < length b)" using l(2) by (simp_all add: word_less_nat_alt)
  have r: "READ_32L m (p + 2) = Some (ucast (b ! 0) OR push_bit 8 (ucast (b ! 1)) OR push_bit 16 (ucast (b ! 2)) OR push_bit 24 (ucast (b ! 3)))"
    "READ_32B m (p + 2) = Some (ucast (b ! 3) OR push_bit 8 (ucast (b ! 2)) OR push_bit 16 (ucast (b ! 1)) OR push_bit 24 (ucast (b ! 0)))"
    if "3 < length b"
    using bd [of 0] bd [of 1] bd [of 2] bd [of 3] that gr_implies_not_zero [OF that] by (simp_all add: READ_32L_def READ_32B_def add.assoc)
  have s: "nth_opt m (p + 6) = Some (b ! 4)" if "5 < length b" using bd [of 4] that by (simp add: add.assoc)
  have le: "4 \<le> length b \<longleftrightarrow> 3 < length b" by arith
  note defs = vendor_is_def x assms(3) [unfolded x fst_conv] take4_iff le
  show "iswpaoui m p = Some (wpa_ie x)" using l r n by (cases "3 < length b") (simp_all add: iswpaoui_def wpa_ie_def defs oui_iff del: take_all)
  show "iswpsoui m p = Some (wps_ie x)" using l r n by (cases "3 < length b") (auto simp: iswpsoui_def wps_ie_def defs oui_iff simp del: take_all)
  show "isp2poui m p = Some (p2p_ie x)" using l r n by (cases "3 < length b") (auto simp: isp2poui_def p2p_ie_def defs oui_iff simp del: take_all)
  show "iswfdoui m p = Some (wfd_ie x)" using l r n by (cases "3 < length b") (auto simp: iswfdoui_def wfd_ie_def defs oui_iff simp del: take_all)
  show "\<exists>b c. iswmeparam m p = Some b \<and> iswmeinfo m p = Some c \<and> (b \<or> c) = wme_ie x"
  proof (cases "5 < length b")
    case True
    then have "iswmeparam m p = Some (take 4 b = [0, 0x50, 0xf2, 2] \<and> b ! 4 = 1)" "iswmeinfo m p = Some (take 4 b = [0, 0x50, 0xf2, 2] \<and> b ! 4 = 0)"
      using l r n s by (simp_all add: iswmeparam_def iswmeinfo_def take4_iff oui_iff)
    then show ?thesis using True assms(3) by (auto simp: wme_ie_def vendor_is_def x)
  next
    case False
    then show ?thesis using l n by (intro exI [of _ False]) (simp add: iswmeparam_def iswmeinfo_def wme_ie_def x)
  qed
qed


lemma vendor_excl:
  "vendor_is a x \<Longrightarrow> vendor_is b x \<Longrightarrow> a = b" by (simp add: vendor_is_def)

text \<open>What one element of a well-formed frame does.\<close>

definition p2p_noa_of :: "u8 list \<Rightarrow> nat \<Rightarrow> u8 \<times> u8 list \<Rightarrow> nat option" where
  "p2p_noa_of m p x = the (vm_p2p_get_p2pie_attrib_with_id m (Some p) P2P_ATTR_NOTICE_OF_ABSENCE)"

lemma vendor_element_at:
  assumes "drop p m = concat (map ie_bytes (x # es))" "length (snd x) < 256" "fst x = WIFINET_ELEMID_VENDOR"
  shows "vendor_element m p s = Some
     (if wpa_ie x then s\<lparr>scan := (scan s)\<lparr>wpa := Some p\<rparr>\<rparr>
      else if wme_ie x then s\<lparr>scan := (scan s)\<lparr>wme := Some p\<rparr>\<rparr>
      else if wps_ie x then s\<lparr>scan := (scan s)\<lparr>wps := Some p\<rparr>\<rparr>
      else if p2p_ie x then
        (let s = (if p2p_index s < MAX_P2PIE_NUM
                  then s\<lparr>scan := (scan s)\<lparr>p2p := (p2p (scan s))[p2p_index s := Some p]\<rparr>, p2p_index := p2p_index s + 1\<rparr> else s)
         in s\<lparr>scan := (scan s)\<lparr>p2p_noa := p2p_noa_of m p x\<rparr>\<rparr>)
      else if wfd_ie x then s\<lparr>scan := (scan s)\<lparr>wfd := Some p\<rparr>\<rparr> else s)"
proof -
  note t = vendor_tests_at [OF assms]
  obtain b c where bc: "iswmeparam m p = Some b" "iswmeinfo m p = Some c" "(b \<or> c) = wme_ie x" using t(5) by blast
  have i: "elem_inside m p" using ie_at(3) [of p m "fst x" "snd x" es] assms(1,2) by simp
  have noa: "vm_p2p_get_p2pie_attrib_with_id m (Some p) P2P_ATTR_NOTICE_OF_ABSENCE = Some (p2p_noa_of m p x)" if "p2p_ie x"
    using p2p_attrib_defined [OF i, of P2P_ATTR_NOTICE_OF_ABSENCE] t(3) that by (auto simp: p2p_noa_of_def)
  show ?thesis unfolding vendor_element_def t(1-4) bc(1,2) Option.bind.bind_lunit bc(3) Let_def
    by (cases "p2p_ie x") (simp_all add: noa)
qed

definition ie_step :: "elem_env \<Rightarrow> u8 list \<Rightarrow> nat \<Rightarrow> u8 \<times> u8 list \<Rightarrow> elem_st \<Rightarrow> elem_st" where
  "ie_step e m p x s = snd (the (elem_step e m p s))"

lemma ie_step_at:
  assumes "drop p m = concat (map ie_bytes (x # es))" "ie_ok x"
  shows "elem_step e m p s = Some (True, ie_step e m p x s)"
    "fst x = WIFINET_ELEMID_FHPARMS \<Longrightarrow> ie_step e m p x s = s"
    "fst x = WIFINET_ELEMID_DSPARMS \<Longrightarrow> ie_step e m p x s = set_chan e m (snd x ! 0) s"
    "fst x = WIFINET_ELEMID_ERP \<Longrightarrow> ie_step e m p x s = s\<lparr>scan := (scan s)\<lparr>erp := snd x ! 0\<rparr>\<rparr>"
    "fst x = WIFINET_ELEMID_RSN \<Longrightarrow> scan (ie_step e m p x s) = (scan s)\<lparr>rsn := Some p\<rparr> \<and> p2p_index (ie_step e m p x s) = p2p_index s"
    "fst x = WIFINET_ELEMID_WAI \<Longrightarrow> scan (ie_step e m p x s) = (scan s)\<lparr>wai := Some p\<rparr> \<and> p2p_index (ie_step e m p x s) = p2p_index s"
    "fst x = WIFINET_ELEMID_VENDOR \<Longrightarrow> vendor_element m p s = Some (ie_step e m p x s)"
    "fst x = WIFINET_ELEMID_HTINFO \<Longrightarrow> ie_step e m p x s =
       (if CFG_11N \<le> cfg_mac_mode e then set_chan e m (snd x ! 0) (s\<lparr>scan := (scan s)\<lparr>htinfo := Some p\<rparr>\<rparr>) else s)"
    "fst x \<notin> {WIFINET_ELEMID_FHPARMS, WIFINET_ELEMID_DSPARMS, WIFINET_ELEMID_ERP, WIFINET_ELEMID_RSN, WIFINET_ELEMID_WAI,
       WIFINET_ELEMID_VENDOR, WIFINET_ELEMID_HTINFO} \<Longrightarrow> ie_step e m p x s = s\<lparr>scan := note_element e (fst x) p (scan s)\<rparr>"
proof -
  obtain i b where x: "x = (i, b)" by (cases x)
  have lb: "length b < 256" using assms(2) by (simp add: ie_ok_def x)
  note at = ie_at [OF assms(1) [unfolded x] lb] and bd = ie_body_at [OF assms(1) [unfolded x]]
  have n: "nth_opt m p = Some i" "nth_opt m (p + 1) = Some (m ! (p + 1))" using at(1,5) by auto
  have b0: "nth_opt m (p + 2) = Some (b ! 0)" if "b \<noteq> []" using bd [of 0] that by simp
  have one: "m ! (p + 1) = 1" if "length b = 1" using at(2) that by (simp add: word_unat_eq_iff)
  obtain v where v: "vendor_element m p s = Some v" using vendor_element_defined [OF at(3)] by blast
  have fit: "p + 6 < length m" if "5 \<le> length b" using at(5) that by linarith
  have fit1: "p + 2 < length m" if "b \<noteq> []" using at(5) that by (cases b) auto
  have st: "elem_step e m p s = Some (True,
      if i = WIFINET_ELEMID_FHPARMS then s
      else if i = WIFINET_ELEMID_DSPARMS then set_chan e m (b ! 0) s
      else if i = WIFINET_ELEMID_ERP then s\<lparr>scan := (scan s)\<lparr>erp := b ! 0\<rparr>\<rparr>
      else if i = WIFINET_ELEMID_RSN then s\<lparr>scan := (scan s)\<lparr>rsn := Some p\<rparr>,
                     sta_encrypt_flag := sta_encrypt_flag s \<or> vm_opmode_sta e \<and> connect_request e\<rparr>
      else if i = WIFINET_ELEMID_WAI then s\<lparr>scan := (scan s)\<lparr>wai := Some p\<rparr>,
                     sta_encrypt_flag := sta_encrypt_flag s \<or> vm_opmode_sta e \<and> connect_request e\<rparr>
      else if i = WIFINET_ELEMID_VENDOR then v
      else if i = WIFINET_ELEMID_HTINFO then
        (if CFG_11N \<le> cfg_mac_mode e then set_chan e m (b ! 0) (s\<lparr>scan := (scan s)\<lparr>htinfo := Some p\<rparr>\<rparr>) else s)
      else s\<lparr>scan := note_element e i p (scan s)\<rparr>)"
  proof -
    have ok: "i = WIFINET_ELEMID_FHPARMS \<Longrightarrow> 5 \<le> length b" "i = WIFINET_ELEMID_DSPARMS \<Longrightarrow> b \<noteq> []"
      "i = WIFINET_ELEMID_HTINFO \<Longrightarrow> b \<noteq> []" "i = WIFINET_ELEMID_ERP \<Longrightarrow> length b = 1 \<and> b \<noteq> []"
      using assms(2) by (auto simp: ie_ok_def x)
    consider "i = WIFINET_ELEMID_FHPARMS" | "i = WIFINET_ELEMID_DSPARMS" | "i = WIFINET_ELEMID_ERP" | "i = WIFINET_ELEMID_HTINFO"
      | "i \<notin> {WIFINET_ELEMID_FHPARMS, WIFINET_ELEMID_DSPARMS, WIFINET_ELEMID_ERP, WIFINET_ELEMID_HTINFO}" by blast
    then show ?thesis
    proof cases
      case 1 then show ?thesis using ok(1) fit n by (simp add: elem_step_def)
    next
      case 2 then show ?thesis using ok(2) fit1 n b0 by (simp add: elem_step_def)
    next
      case 3 then show ?thesis using ok(4) fit1 n b0 one by (simp add: elem_step_def)
    next
      case 4 then show ?thesis using ok(3) n b0 by (simp add: elem_step_def)
    next
      case 5 then show ?thesis using n v by (simp add: elem_step_def)
    qed
  qed
  show "elem_step e m p s = Some (True, ie_step e m p x s)" unfolding ie_step_def by (simp add: st)
  have ie: "ie_step e m p x s = snd (the (elem_step e m p s))" by (rule ie_step_def)
  show "fst x = WIFINET_ELEMID_FHPARMS \<Longrightarrow> ie_step e m p x s = s"
    "fst x = WIFINET_ELEMID_DSPARMS \<Longrightarrow> ie_step e m p x s = set_chan e m (snd x ! 0) s"
    "fst x = WIFINET_ELEMID_ERP \<Longrightarrow> ie_step e m p x s = s\<lparr>scan := (scan s)\<lparr>erp := snd x ! 0\<rparr>\<rparr>"
    "fst x = WIFINET_ELEMID_RSN \<Longrightarrow> scan (ie_step e m p x s) = (scan s)\<lparr>rsn := Some p\<rparr> \<and> p2p_index (ie_step e m p x s) = p2p_index s"
    "fst x = WIFINET_ELEMID_WAI \<Longrightarrow> scan (ie_step e m p x s) = (scan s)\<lparr>wai := Some p\<rparr> \<and> p2p_index (ie_step e m p x s) = p2p_index s"
    "fst x = WIFINET_ELEMID_VENDOR \<Longrightarrow> vendor_element m p s = Some (ie_step e m p x s)"
    "fst x = WIFINET_ELEMID_HTINFO \<Longrightarrow> ie_step e m p x s =
       (if CFG_11N \<le> cfg_mac_mode e then set_chan e m (snd x ! 0) (s\<lparr>scan := (scan s)\<lparr>htinfo := Some p\<rparr>\<rparr>) else s)"
    "fst x \<notin> {WIFINET_ELEMID_FHPARMS, WIFINET_ELEMID_DSPARMS, WIFINET_ELEMID_ERP, WIFINET_ELEMID_RSN, WIFINET_ELEMID_WAI,
       WIFINET_ELEMID_VENDOR, WIFINET_ELEMID_HTINFO} \<Longrightarrow> ie_step e m p x s = s\<lparr>scan := note_element e (fst x) p (scan s)\<rparr>"
    unfolding ie by (simp_all add: st x v)
qed


text \<open>What it does to each field.\<close>

lemma vendor_kinds:
  "vendor_is [0, 0x50, 0xf2, 1] = wpa_ie" "vendor_is [0, 0x50, 0xf2, 4] = wps_ie" "vendor_is [0x50, 0x6f, 0x9a, 9] = p2p_ie"
  "vendor_is [0x50, 0x6f, 0x9a, 10] = wfd_ie"
  by (simp_all add: wpa_ie_def wps_ie_def p2p_ie_def wfd_ie_def)

lemma vendor_kinds_excl:
  "wpa_ie x \<Longrightarrow> \<not> wme_ie x \<and> \<not> wps_ie x \<and> \<not> p2p_ie x \<and> \<not> wfd_ie x" "wme_ie x \<Longrightarrow> \<not> wps_ie x \<and> \<not> p2p_ie x \<and> \<not> wfd_ie x"
  "wps_ie x \<Longrightarrow> \<not> p2p_ie x \<and> \<not> wfd_ie x" "p2p_ie x \<Longrightarrow> \<not> wfd_ie x"
  "fst x \<noteq> WIFINET_ELEMID_VENDOR \<Longrightarrow> \<not> wpa_ie x \<and> \<not> wme_ie x \<and> \<not> wps_ie x \<and> \<not> p2p_ie x \<and> \<not> wfd_ie x"
  by (auto simp: wpa_ie_def wps_ie_def p2p_ie_def wfd_ie_def wme_ie_def vendor_is_def)

lemma ie_kinds:
  obtains "fst x = WIFINET_ELEMID_FHPARMS" | "fst x = WIFINET_ELEMID_DSPARMS" | "fst x = WIFINET_ELEMID_ERP" | "fst x = WIFINET_ELEMID_RSN"
    | "fst x = WIFINET_ELEMID_WAI" | "fst x = WIFINET_ELEMID_VENDOR" | "fst x = WIFINET_ELEMID_HTINFO"
    | "fst x \<notin> {WIFINET_ELEMID_FHPARMS, WIFINET_ELEMID_DSPARMS, WIFINET_ELEMID_ERP, WIFINET_ELEMID_RSN, WIFINET_ELEMID_WAI,
       WIFINET_ELEMID_VENDOR, WIFINET_ELEMID_HTINFO}"
  by blast

lemma set_chan_simps [simp]: "scan (set_chan e m c s) = (scan s)\<lparr>sp_chan := c\<rparr>" "p2p_index (set_chan e m c s) = p2p_index s"
  by (simp_all add: set_chan_def)

lemma ie_step_vendor:
  assumes "drop p m = concat (map ie_bytes (x # es))" "ie_ok x" "fst x = WIFINET_ELEMID_VENDOR"
  shows "ie_step e m p x s =
     (if wpa_ie x then s\<lparr>scan := (scan s)\<lparr>wpa := Some p\<rparr>\<rparr>
      else if wme_ie x then s\<lparr>scan := (scan s)\<lparr>wme := Some p\<rparr>\<rparr>
      else if wps_ie x then s\<lparr>scan := (scan s)\<lparr>wps := Some p\<rparr>\<rparr>
      else if p2p_ie x then
        (let s = (if p2p_index s < MAX_P2PIE_NUM
                  then s\<lparr>scan := (scan s)\<lparr>p2p := (p2p (scan s))[p2p_index s := Some p]\<rparr>, p2p_index := p2p_index s + 1\<rparr> else s)
         in s\<lparr>scan := (scan s)\<lparr>p2p_noa := p2p_noa_of m p x\<rparr>\<rparr>)
      else if wfd_ie x then s\<lparr>scan := (scan s)\<lparr>wfd := Some p\<rparr>\<rparr> else s)"
proof -
  have "length (snd x) < 256" using assms(2) by (simp add: ie_ok_def)
  from vendor_element_at [OF assms(1) this assms(3), of s] ie_step_at(7) [OF assms(1,2,3), of s e] show ?thesis by simp
qed

lemma note_element_fields:
  "ssid (note_element e j p sp) = (if j = WIFINET_ELEMID_SSID then Some p else ssid sp)"
  "sp_rates (note_element e j p sp) = (if j = WIFINET_ELEMID_RATES then Some p else sp_rates sp)"
  "xrates (note_element e j p sp) = (if j = WIFINET_ELEMID_XRATES then Some p else xrates sp)"
  "country (note_element e j p sp) = (if j = WIFINET_ELEMID_COUNTRY then Some p else country sp)"
  "tim (note_element e j p sp) = (if j = WIFINET_ELEMID_TIM then Some p else tim sp)"
  "rsn (note_element e j p sp) = rsn sp"
  "rsnxe (note_element e j p sp) = (if j = WIFINET_ELEMID_RSNX then Some p else rsnxe sp)"
  "ext_cap (note_element e j p sp) = (if j = WIFINET_ELEMID_EXTCAP then Some p else ext_cap sp)"
  "doth (note_element e j p sp) = (if j = WIFINET_ELEMID_CHANSWITCHANN then Some p else doth sp)"
  "tpc (note_element e j p sp) = (if j = WIFINET_ELEMID_PWRCNSTR then Some p else tpc sp)"
  "quiet (note_element e j p sp) = (if j = WIFINET_ELEMID_QUIET then Some p else quiet sp)"
  "wai (note_element e j p sp) = wai sp"
  "bss_load (note_element e j p sp) = (if j = WIFINET_ELEMID_BSS_LOAD then Some p else bss_load sp)"
  "vht_tx_pwr (note_element e j p sp) = (if j = WIFINET_ELEMID_VHT_TX_PWR_ENVLP then Some p else vht_tx_pwr sp)"
  "vht_ch_sw (note_element e j p sp) = (if j = WIFINET_ELEMID_CHAN_SWITCH_WRAP then Some p else vht_ch_sw sp)"
  "vht_ext_bss_ld (note_element e j p sp) = (if j = WIFINET_ELEMID_EXT_BSS_LOAD then Some p else vht_ext_bss_ld sp)"
  "vht_quiet_ch (note_element e j p sp) = (if j = WIFINET_ELEMID_QUIET_CHANNEL then Some p else vht_quiet_ch sp)"
  "vht_opt_md_ntf (note_element e j p sp) = (if j = WIFINET_ELEMID_OP_MODE_NOTIFY then Some p else vht_opt_md_ntf sp)"
  "htcap (note_element e j p sp) = (if j = WIFINET_ELEMID_HTCAP \<and> CFG_11N \<le> cfg_mac_mode e then Some p else htcap sp)"
  "htinfo (note_element e j p sp) = htinfo sp"
  "vht_cap (note_element e j p sp) = (if j = WIFINET_ELEMID_VHTCAP \<and> CFG_11AC \<le> cfg_mac_mode e then Some p else vht_cap sp)"
  "vht_opt (note_element e j p sp) = (if j = WIFINET_ELEMID_VHTOP \<and> CFG_11AC \<le> cfg_mac_mode e then Some p else vht_opt sp)"
  "wpa (note_element e j p sp) = wpa sp"
  "wme (note_element e j p sp) = wme sp"
  "wps (note_element e j p sp) = wps sp"
  "wfd (note_element e j p sp) = wfd sp"
  "timeout_ie (note_element e j p sp) = timeout_ie sp"
  "p2p (note_element e j p sp) = p2p sp"
  "p2p_noa (note_element e j p sp) = p2p_noa sp"
  "sp_chan (note_element e j p sp) = sp_chan sp"
  "erp (note_element e j p sp) = erp sp"
  "timoff (note_element e j p sp) = (if j = WIFINET_ELEMID_TIM then of_nat p else timoff sp)"
  by (simp_all add: note_element_def)

lemma noted_by_induct:
  assumes "(P, f) \<in> set (noted_by e)"
    and "Q (\<lambda>x. fst x = WIFINET_ELEMID_SSID) ssid"
    and "Q (\<lambda>x. fst x = WIFINET_ELEMID_RATES) sp_rates"
    and "Q (\<lambda>x. fst x = WIFINET_ELEMID_XRATES) xrates"
    and "Q (\<lambda>x. fst x = WIFINET_ELEMID_COUNTRY) country"
    and "Q (\<lambda>x. fst x = WIFINET_ELEMID_TIM) tim"
    and "Q (\<lambda>x. fst x = WIFINET_ELEMID_RSN) rsn"
    and "Q (\<lambda>x. fst x = WIFINET_ELEMID_RSNX) rsnxe"
    and "Q (\<lambda>x. fst x = WIFINET_ELEMID_EXTCAP) ext_cap"
    and "Q (\<lambda>x. fst x = WIFINET_ELEMID_CHANSWITCHANN) doth"
    and "Q (\<lambda>x. fst x = WIFINET_ELEMID_PWRCNSTR) tpc"
    and "Q (\<lambda>x. fst x = WIFINET_ELEMID_QUIET) quiet"
    and "Q (\<lambda>x. fst x = WIFINET_ELEMID_WAI) wai"
    and "Q (\<lambda>x. fst x = WIFINET_ELEMID_BSS_LOAD) bss_load"
    and "Q (\<lambda>x. fst x = WIFINET_ELEMID_VHT_TX_PWR_ENVLP) vht_tx_pwr"
    and "Q (\<lambda>x. fst x = WIFINET_ELEMID_CHAN_SWITCH_WRAP) vht_ch_sw"
    and "Q (\<lambda>x. fst x = WIFINET_ELEMID_EXT_BSS_LOAD) vht_ext_bss_ld"
    and "Q (\<lambda>x. fst x = WIFINET_ELEMID_QUIET_CHANNEL) vht_quiet_ch"
    and "Q (\<lambda>x. fst x = WIFINET_ELEMID_OP_MODE_NOTIFY) vht_opt_md_ntf"
    and "Q (\<lambda>x. fst x = WIFINET_ELEMID_HTCAP \<and> CFG_11N \<le> cfg_mac_mode e) htcap"
    and "Q (\<lambda>x. fst x = WIFINET_ELEMID_HTINFO \<and> CFG_11N \<le> cfg_mac_mode e) htinfo"
    and "Q (\<lambda>x. fst x = WIFINET_ELEMID_VHTCAP \<and> CFG_11AC \<le> cfg_mac_mode e) vht_cap"
    and "Q (\<lambda>x. fst x = WIFINET_ELEMID_VHTOP \<and> CFG_11AC \<le> cfg_mac_mode e) vht_opt"
    and "Q wpa_ie wpa" and "Q wme_ie wme" and "Q wps_ie wps" and "Q wfd_ie wfd" and "Q (\<lambda>_. False) timeout_ie"
  shows "Q P f"
  using assms(1) unfolding noted_by_def set_simps by (elim insertE emptyE Pair_inject) (simp_all only: assms(2-))

lemma ie_step_noted:
  assumes "drop p m = concat (map ie_bytes (x # es))" "ie_ok x" "(P, f) \<in> set (noted_by e)"
  shows "f (scan (ie_step e m p x s)) = (if P x then Some p else f (scan s))"
proof (cases x rule: ie_kinds)
  case 6
  note v = ie_step_vendor [OF assms(1,2) 6, of e s]
  show ?thesis
    by (rule noted_by_induct [OF assms(3)]; use 6 vendor_kinds_excl [of x] in \<open>simp add: v Let_def\<close>)
next
  case 8
  then have sc: "scan (ie_step e m p x s) = note_element e (fst x) p (scan s)" using ie_step_at(9) [OF assms(1,2) 8, of e s] by simp
  show ?thesis
    by (rule noted_by_induct [OF assms(3)]; use 8 vendor_kinds_excl(5) [of x] in \<open>simp add: sc note_element_fields\<close>)
next
  case 1
  show ?thesis
    by (rule noted_by_induct [OF assms(3)]; use 1 vendor_kinds_excl(5) [of x] ie_step_at(2) [OF assms(1,2) 1, of e s] in simp)
next
  case 2
  show ?thesis
    by (rule noted_by_induct [OF assms(3)]; use 2 vendor_kinds_excl(5) [of x] ie_step_at(3) [OF assms(1,2) 2, of e s] in simp)
next
  case 3
  show ?thesis
    by (rule noted_by_induct [OF assms(3)]; use 3 vendor_kinds_excl(5) [of x] ie_step_at(4) [OF assms(1,2) 3, of e s] in simp)
next
  case 4
  show ?thesis
    by (rule noted_by_induct [OF assms(3)]; use 4 vendor_kinds_excl(5) [of x] ie_step_at(5) [OF assms(1,2) 4, of e s] in simp)
next
  case 5
  have ne: "(68 :: u8) \<noteq> 196" by code_simp
  show ?thesis
    by (rule noted_by_induct [OF assms(3)]; use 5 ne vendor_kinds_excl(5) [of x] ie_step_at(6) [OF assms(1,2) 5, of e s] in simp)
next
  case 7
  show ?thesis
    by (rule noted_by_induct [OF assms(3)]; use 7 vendor_kinds_excl(5) [of x] ie_step_at(8) [OF assms(1,2) 7, of e s] in simp)
qed

lemma ie_step_values:
  assumes "drop p m = concat (map ie_bytes (x # es))" "ie_ok x"
  shows "sp_chan (scan (ie_step e m p x s)) = (if chan_ie e x then snd x ! 0 else sp_chan (scan s))
    \<and> erp (scan (ie_step e m p x s)) = (if fst x = WIFINET_ELEMID_ERP then snd x ! 0 else erp (scan s))
    \<and> timoff (scan (ie_step e m p x s)) = (if fst x = WIFINET_ELEMID_TIM then of_nat p else timoff (scan s))
    \<and> p2p_noa (scan (ie_step e m p x s)) = (if p2p_ie x then p2p_noa_of m p x else p2p_noa (scan s))
    \<and> p2p (scan (ie_step e m p x s)) = (if p2p_ie x \<and> p2p_index s < MAX_P2PIE_NUM then (p2p (scan s))[p2p_index s := Some p] else p2p (scan s))
    \<and> p2p_index (ie_step e m p x s) = (if p2p_ie x \<and> p2p_index s < MAX_P2PIE_NUM then p2p_index s + 1 else p2p_index s)"
proof (cases x rule: ie_kinds)
  case 6
  then show ?thesis using vendor_kinds_excl [of x] by (simp add: ie_step_vendor [OF assms 6, of e s] chan_ie_def Let_def)
next
  case 8
  then show ?thesis using vendor_kinds_excl(5) [of x] ie_step_at(9) [OF assms 8, of e s] by (simp add: note_element_fields chan_ie_def)
next
  case 4
  then show ?thesis using vendor_kinds_excl(5) [of x] ie_step_at(5) [OF assms 4, of e s] by (simp add: chan_ie_def)
next
  case 5
  then show ?thesis using vendor_kinds_excl(5) [of x] ie_step_at(6) [OF assms 5, of e s] by (simp add: chan_ie_def)
next
  case 1
  then show ?thesis using vendor_kinds_excl(5) [of x] ie_step_at(2) [OF assms 1, of e s] by (simp add: chan_ie_def)
next
  case 2
  then show ?thesis using vendor_kinds_excl(5) [of x] ie_step_at(3) [OF assms 2, of e s] by (simp add: chan_ie_def)
next
  case 3
  then show ?thesis using vendor_kinds_excl(5) [of x] ie_step_at(4) [OF assms 3, of e s] by (simp add: chan_ie_def)
next
  case 7
  then show ?thesis using vendor_kinds_excl(5) [of x] ie_step_at(8) [OF assms 7, of e s] by (simp add: chan_ie_def)
qed


text \<open>The whole walk.  The pointers to P2P elements fill their four slots in order.\<close>

definition p2p_slots :: "nat list \<Rightarrow> nat option list" where
  "p2p_slots qs = map Some (take MAX_P2PIE_NUM qs) @ replicate (MAX_P2PIE_NUM - length qs) None"

lemma p2p_slots_put:
  "p2p_slots qs = ps \<Longrightarrow> length qs < MAX_P2PIE_NUM \<Longrightarrow> ps[length qs := Some p] = p2p_slots (qs @ [p])"
proof -
  assume ps: "p2p_slots qs = ps" and l: "length qs < MAX_P2PIE_NUM"
  then have e: "replicate (MAX_P2PIE_NUM - length qs) None = None # replicate (MAX_P2PIE_NUM - length (qs @ [p])) None"
    by (metis Suc_diff_Suc length_append_singleton replicate_Suc)
  have "ps = map Some qs @ None # replicate (MAX_P2PIE_NUM - length (qs @ [p])) None"
    using ps l unfolding p2p_slots_def e by simp
  then show ?thesis using l by (simp add: p2p_slots_def list_update_append)
qed

lemma p2p_slots_full: "MAX_P2PIE_NUM \<le> length qs \<Longrightarrow> p2p_slots (qs @ [p]) = p2p_slots qs"
  by (simp add: p2p_slots_def)

lemma elem_walk_of_ies:
  assumes "drop p m = concat (map ie_bytes es)" "p \<le> length m" "\<forall>x \<in> set es. ie_ok x"
    and "p2p (scan s) = p2p_slots qs" "p2p_index s = min MAX_P2PIE_NUM (length qs)"
  shows "\<exists>s'. elem_walk e m p s = Some (False, s')
    \<and> (\<forall>(P, f) \<in> set (noted_by e). f (scan s') = last_by P (\<lambda>q _. Some q) p es (f (scan s)))
    \<and> sp_chan (scan s') = last_by (chan_ie e) (\<lambda>_ x. snd x ! 0) p es (sp_chan (scan s))
    \<and> erp (scan s') = last_by (\<lambda>x. fst x = WIFINET_ELEMID_ERP) (\<lambda>_ x. snd x ! 0) p es (erp (scan s))
    \<and> timoff (scan s') = last_by (\<lambda>x. fst x = WIFINET_ELEMID_TIM) (\<lambda>q _. of_nat q) p es (timoff (scan s))
    \<and> p2p_noa (scan s') = last_by p2p_ie (p2p_noa_of m) p es (p2p_noa (scan s))
    \<and> p2p (scan s') = p2p_slots (qs @ all_by p2p_ie p es)"
  using assms
proof (induction es arbitrary: p s qs)
  case Nil
  then have "p = length m" by simp
  then show ?case using Nil.prems(4) by (subst elem_walk.simps) auto
next
  case (Cons x es)
  have ok: "ie_ok x" "\<forall>x \<in> set es. ie_ok x" using Cons.prems(3) by simp_all
  have b: "length (snd x) < 256" using ok(1) by (simp add: ie_ok_def)
  have x: "drop p m = concat (map ie_bytes ((fst x, snd x) # es))" using Cons.prems(1) by simp
  note at = ie_at [OF x b]
  let ?s = "ie_step e m p x s"
  let ?qs = "if p2p_ie x then qs @ [p] else qs"
  note v = ie_step_values [OF Cons.prems(1) ok(1), of e s]
  have slots: "p2p (scan ?s) = p2p_slots ?qs" "p2p_index ?s = min MAX_P2PIE_NUM (length ?qs)"
    using v Cons.prems(4,5) p2p_slots_put [OF Cons.prems(4) [symmetric], of p] p2p_slots_full [of qs p]
    by (auto simp: not_less min_def split: if_splits)
  from Cons.IH [OF at(4,5) ok(2) slots] obtain s' where
    w: "elem_walk e m (p + length (snd x) + 2) ?s = Some (False, s')" and
    n: "\<forall>(P, f) \<in> set (noted_by e). f (scan s') = last_by P (\<lambda>q _. Some q) (p + length (snd x) + 2) es (f (scan ?s))" and
    r: "sp_chan (scan s') = last_by (chan_ie e) (\<lambda>_ x. snd x ! 0) (p + length (snd x) + 2) es (sp_chan (scan ?s))"
      "erp (scan s') = last_by (\<lambda>x. fst x = WIFINET_ELEMID_ERP) (\<lambda>_ x. snd x ! 0) (p + length (snd x) + 2) es (erp (scan ?s))"
      "timoff (scan s') = last_by (\<lambda>x. fst x = WIFINET_ELEMID_TIM) (\<lambda>q _. of_nat q) (p + length (snd x) + 2) es (timoff (scan ?s))"
      "p2p_noa (scan s') = last_by p2p_ie (p2p_noa_of m) (p + length (snd x) + 2) es (p2p_noa (scan ?s))"
      "p2p (scan s') = p2p_slots (?qs @ all_by p2p_ie (p + length (snd x) + 2) es)" by blast
  have "elem_walk e m p s = Some (False, s')"
    using ie_step_at(1) [OF Cons.prems(1) ok(1), of e s] w at(2) elem_insideD [OF at(3)] by (subst elem_walk.simps) simp
  moreover have "\<forall>(P, f) \<in> set (noted_by e). f (scan s') = last_by P (\<lambda>q _. Some q) p (x # es) (f (scan s))"
  proof (intro ballI, clarify)
    fix P f assume a: "(P, f) \<in> set (noted_by e)"
    show "f (scan s') = last_by P (\<lambda>q _. Some q) p (x # es) (f (scan s))"
      using bspec [OF n a] ie_step_noted [OF Cons.prems(1) ok(1) a, of s] by simp
  qed
  moreover have "sp_chan (scan s') = last_by (chan_ie e) (\<lambda>_ x. snd x ! 0) p (x # es) (sp_chan (scan s))" using r(1) v by simp
  moreover have "erp (scan s') = last_by (\<lambda>x. fst x = WIFINET_ELEMID_ERP) (\<lambda>_ x. snd x ! 0) p (x # es) (erp (scan s))"
    using r(2) v by simp
  moreover have "timoff (scan s') = last_by (\<lambda>x. fst x = WIFINET_ELEMID_TIM) (\<lambda>q _. of_nat q) p (x # es) (timoff (scan s))"
    using r(3) v by simp
  moreover have "p2p_noa (scan s') = last_by p2p_ie (p2p_noa_of m) p (x # es) (p2p_noa (scan s))" using r(4) v by simp
  moreover have "p2p (scan s') = p2p_slots (qs @ all_by p2p_ie p (x # es))" using r(5) by simp
  ultimately show ?case by blast
qed


lemma elem_step_goes_on:
  assumes "elem_inside m p" "m ! p \<notin> {WIFINET_ELEMID_FHPARMS, WIFINET_ELEMID_DSPARMS, WIFINET_ELEMID_ERP, WIFINET_ELEMID_HTINFO}"
  shows "\<exists>s'. elem_step e m p s = Some (True, s')"
proof -
  obtain b s' where st: "elem_step e m p s = Some (b, s')" using elem_step_defined [OF assms(1), of e s] assms(2) by auto
  moreover have "b = True"
    using st assms elem_insideD [OF assms(1)] by (auto simp: elem_step_def bind_eq_Some_conv split: if_splits)
  ultimately show ?thesis by blast
qed

section \<open>Properties\<close>

text \<open>The scan record that the callers pass in, all zero.\<close>

definition scan_zero :: scan_param where
  "scan_zero = \<lparr>capinfo = 0, status_code = 0, assoc_id = 0, sp_chan = 0, erp = 0, bintval = 0, timoff = 0, tim = None,
     tstamp = None, country = None, bss_load = None, ssid = None, sp_rates = None, xrates = None, doth = None, wpa = None,
     wme = None, htcap = None, htinfo = None, tpc = None, quiet = None, rsn = None, rsnxe = None, wps = None,
     timeout_ie = None, p2p = replicate 4 None, p2p_noa = None, wfd = None, wai = None, ext_cap = None, vht_cap = None,
     vht_opt = None, vht_tx_pwr = None, vht_ch_sw = None, vht_ext_bss_ld = None, vht_quiet_ch = None, vht_opt_md_ntf = None,
     frame_len = 0\<rparr>"

lemma noted_zero [simp]: "noted scan_zero = {}"
  by (simp add: noted_def scan_zero_def)

text \<open>C14: For a frame of at least 16 bytes that does not end with an HT operation element without a body (or when the driver is
  not in an HT mode), parsing its elements reads nothing outside the frame, whatever bytes follow the header, and every position
  it notes is that of an element which lies inside the frame with its whole body.  The excluded frames are read past their end.\<close>

theorem elements_inside:
  assumes "16 \<le> length m" "scan s = scan_zero" "\<not> (CFG_11N \<le> cfg_mac_mode e \<and> ends_with_empty_htinfo m)"
  shows "\<exists>invalid s'. wifi_mac_pkt_parse_element e m s = Some (invalid, s') \<and> (\<forall>q \<in> noted (scan s'). elem_inside m q)"
proof -
  have walk: "\<exists>b s'. elem_walk e m p t = Some (b, s') \<and> (\<forall>q \<in> noted (scan s'). elem_inside m q)"
    if "noted (scan t) = {}" for p t
    using elem_walk_safe [OF assms(3)] that by blast
  have hd: "nth_opt m 0 = Some (m ! 0)" "nth_opt m 15 = Some (m ! 15)" using assms(1) by (auto intro!: nth_opt_in)
  have r16: "\<exists>w. READ_16L m p = Some w" if "p + 1 < length m" for p using READ_16L_Some [of m p] that by blast
  let ?sub = "m ! 0 AND 0xf0"
  consider (short) "?sub = WIFINET_FC0_SUBTYPE_BEACON \<or> ?sub = WIFINET_FC0_SUBTYPE_PROBE_RESP" "length m < 36"
    | (beacon) "?sub = WIFINET_FC0_SUBTYPE_BEACON \<or> ?sub = WIFINET_FC0_SUBTYPE_PROBE_RESP" "36 \<le> length m"
    | (short2) "?sub = WIFINET_FC0_SUBTYPE_ASSOC_RESP" "length m < 30"
    | (assoc) "?sub = WIFINET_FC0_SUBTYPE_ASSOC_RESP" "30 \<le> length m"
    | (other) "?sub \<notin> {WIFINET_FC0_SUBTYPE_BEACON, WIFINET_FC0_SUBTYPE_PROBE_RESP, WIFINET_FC0_SUBTYPE_ASSOC_RESP}"
    by force
  then show ?thesis
  proof cases
    case beacon
    obtain a b where "READ_16L m 32 = Some a" "READ_16L m 34 = Some b" using r16 [of 32] r16 [of 34] beacon(2) by auto
    with beacon hd assms(2) walk show ?thesis
      by (auto simp: wifi_mac_pkt_parse_element_def Let_def noted_same)
  next
    case assoc
    obtain a b c where "READ_16L m 24 = Some a" "READ_16L m 26 = Some b" "READ_16L m 28 = Some c"
      using r16 [of 24] r16 [of 26] r16 [of 28] assoc(2) by auto
    with assoc hd assms(2) walk show ?thesis
      by (simp add: wifi_mac_pkt_parse_element_def Let_def noted_same)
  qed (use hd assms(2) walk in \<open>auto simp: wifi_mac_pkt_parse_element_def Let_def noted_same\<close>)
qed

definition ex_env :: elem_env where
  "ex_env = \<lparr>cfg_mac_mode = 4, vm_opmode_sta = True, connect_request = True, peer_listen_channel = 0, peer_dev_addr = []\<rparr>"

definition ex_elem_st :: elem_st where
  "ex_elem_st = \<lparr>scan = scan_zero, p2p_index = 0, sta_encrypt_flag = False, drop_frame = False,
     sts_rx_elem_too_short = 0, sts_rx_elem_err = 0\<rparr>"

definition ex_beacon :: "(u8 \<times> u8 list) list \<Rightarrow> u8 list" where
  "ex_beacon es = 0x80 # replicate 31 0 @ [100, 0, 1, 4] @ concat (map ie_bytes es)"

lemma ex_beacon_drop: "drop 36 (ex_beacon es) = concat (map ie_bytes es)" "length (ex_beacon es) = 36 + length (concat (map ie_bytes es))"
  "ex_beacon es ! 0 = 0x80" "n < length (concat (map ie_bytes es)) \<Longrightarrow> ex_beacon es ! (36 + n) = concat (map ie_bytes es) ! n"
proof -
  define pre :: "u8 list" where "pre = 0x80 # replicate 31 0 @ [100, 0, 1, 4]"
  have e: "ex_beacon es = pre @ concat (map ie_bytes es)" by (simp add: pre_def ex_beacon_def)
  have l: "length pre = 36" by (simp add: pre_def)
  show "drop 36 (ex_beacon es) = concat (map ie_bytes es)" "length (ex_beacon es) = 36 + length (concat (map ie_bytes es))"
    "n < length (concat (map ie_bytes es)) \<Longrightarrow> ex_beacon es ! (36 + n) = concat (map ie_bytes es) ! n"
    unfolding e by (simp_all add: l nth_append)
  show "ex_beacon es ! 0 = 0x80" by (simp add: ex_beacon_def)
qed

theorem elements_inside_witness:
  "\<exists>invalid s'. wifi_mac_pkt_parse_element ex_env (ex_beacon [(0, [65, 66]), (221, [0, 80])]) ex_elem_st = Some (invalid, s')
     \<and> (\<forall>q \<in> noted (scan s'). elem_inside (ex_beacon [(0, [65, 66]), (221, [0, 80])]) q)"
proof -
  have "\<not> ends_with_empty_htinfo (ex_beacon [(0, [65, 66]), (221, [0, 80])])"
    using ex_beacon_drop(2) [of "[(0, [65, 66]), (221, [0, 80])]"] ex_beacon_drop(4) [of 6 "[(0, [65, 66]), (221, [0, 80])]"]
    by (simp add: ends_with_empty_htinfo_def ie_bytes_def)
  with elements_inside [of "ex_beacon [(0, [65, 66]), (221, [0, 80])]" ex_elem_st ex_env]
  show ?thesis by (auto simp: ex_beacon_drop(2) ex_elem_st_def)
qed

text \<open>The exception: a beacon whose last element is an HT operation element without a body makes the
  parser read the channel one byte past the end of the frame, as soon as the driver runs in an HT mode.\<close>

theorem elements_empty_htinfo_overread:
  assumes "drop 36 m = concat (map ie_bytes es) @ [61, 0]" "36 \<le> length m" "m ! 0 AND 0xf0 = WIFINET_FC0_SUBTYPE_BEACON"
    and "\<forall>x \<in> set es. length (snd x) < 256
      \<and> fst x \<notin> {WIFINET_ELEMID_FHPARMS, WIFINET_ELEMID_DSPARMS, WIFINET_ELEMID_ERP, WIFINET_ELEMID_HTINFO}"
    and "CFG_11N \<le> cfg_mac_mode e"
  shows "wifi_mac_pkt_parse_element e m s = None"
proof -
  have walk: "elem_walk e m p t = None"
    if "drop p m = concat (map ie_bytes es') @ [61, 0]" "p \<le> length m"
      "\<forall>x \<in> set es'. length (snd x) < 256
        \<and> fst x \<notin> {WIFINET_ELEMID_FHPARMS, WIFINET_ELEMID_DSPARMS, WIFINET_ELEMID_ERP, WIFINET_ELEMID_HTINFO}" for p t es'
    using that
  proof (induction es' arbitrary: p t)
    case Nil
    have "length (drop p m) = 2" unfolding Nil(1) by simp
    then have l: "length m = p + 2" by simp
    have "drop p m ! 0 = 61" "drop p m ! 1 = 0" using Nil(1) by simp_all
    then have at: "m ! p = 61" "m ! (p + 1) = 0" using l by simp_all
    then have "elem_step e m p t = None" using l assms(5) by (simp add: elem_step_def)
    then show ?case using l at by (subst elem_walk.simps) simp
  next
    case (Cons x es')
    obtain j b where x: "x = (j, b)" by (cases x)
    have b: "length b < 256" using Cons.prems(3) x by simp
    have empty: "ie_bytes (61, []) = [61, 0]" by (simp add: ie_bytes_def)
    then have "drop p m = concat (map ie_bytes ((j, b) # es' @ [(61, [])]))" using Cons.prems(1) x by simp
    note at = ie_at [OF this b]
    have "m ! p \<notin> {WIFINET_ELEMID_FHPARMS, WIFINET_ELEMID_DSPARMS, WIFINET_ELEMID_ERP, WIFINET_ELEMID_HTINFO}"
      using Cons.prems(3) x at(1) by simp
    from elem_step_goes_on [OF at(3) this, of e t] obtain s1 where st: "elem_step e m p t = Some (True, s1)" by blast
    have "elem_walk e m (p + length b + 2) s1 = None"
      using Cons.IH [of "p + length b + 2" s1] Cons.prems(3) at(4,5) empty by simp
    then show ?case using st at(2) elem_insideD [OF at(3)] by (subst elem_walk.simps) simp
  qed
  have "length m = 36 + length (drop 36 m)" using assms(2) by simp
  then have len: "38 \<le> length m" unfolding assms(1) by simp
  obtain a b where "READ_16L m 32 = Some a" "READ_16L m 34 = Some b"
    using READ_16L_Some [of m 32] READ_16L_Some [of m 34] len by auto
  moreover have "nth_opt m 0 = Some (m ! 0)" "nth_opt m 15 = Some (m ! 15)" using len by (auto intro!: nth_opt_in)
  ultimately show ?thesis
    using walk [OF assms(1,2,4)] assms(3) len by (auto simp: wifi_mac_pkt_parse_element_def Let_def)
qed

theorem elements_empty_htinfo_overread_witness:
  "wifi_mac_pkt_parse_element ex_env (ex_beacon [(0, [65, 66]), (61, [])]) ex_elem_st = None"
proof -
  have "drop 36 (ex_beacon [(0, [65, 66]), (61, [])]) = concat (map ie_bytes [(0, [65, 66])]) @ [61, 0]"
    by (simp add: ex_beacon_drop(1) ie_bytes_def)
  moreover have "36 \<le> length (ex_beacon [(0, [65, 66]), (61, [])])" "ex_beacon [(0, [65, 66]), (61, [])] ! 0 AND 0xf0 = 0x80"
    by (simp_all add: ex_beacon_drop(2,3))
  ultimately show ?thesis
    by (rule elements_empty_htinfo_overread) (simp_all add: ex_env_def CFG_11N_def)
qed

text \<open>C15: In a beacon or probe response made of well-formed elements the parser finds every element.  Well-formed means that the
  frequency hopping element has five bytes at least, the channel and the HT operation element one, and the ERP element exactly
  one.  The frame is not reported invalid; each pointer is the position of the last element of its kind, or none when there is
  none; the channel, the ERP byte and the notice of absence are those of the last element that carries one; and the first four P2P
  elements fill the four slots in order.\<close>

theorem elements_found:
  assumes "drop 36 m = concat (map ie_bytes es)" "36 \<le> length m"
    and "m ! 0 AND 0xf0 = WIFINET_FC0_SUBTYPE_BEACON \<or> m ! 0 AND 0xf0 = WIFINET_FC0_SUBTYPE_PROBE_RESP"
    and "\<forall>x \<in> set es. ie_ok x" "scan s = scan_zero"
  shows "\<exists>s'. wifi_mac_pkt_parse_element e m s = Some (False, s')
    \<and> (\<forall>(P, f) \<in> set (noted_by e). f (scan s') = last_by P (\<lambda>q _. Some q) 36 es None)
    \<and> sp_chan (scan s') = last_by (chan_ie e) (\<lambda>_ x. snd x ! 0) 36 es 0
    \<and> erp (scan s') = last_by (\<lambda>x. fst x = WIFINET_ELEMID_ERP) (\<lambda>_ x. snd x ! 0) 36 es 0
    \<and> timoff (scan s') = last_by (\<lambda>x. fst x = WIFINET_ELEMID_TIM) (\<lambda>q _. of_nat q) 36 es 0
    \<and> p2p_noa (scan s') = last_by p2p_ie (p2p_noa_of m) 36 es None
    \<and> p2p (scan s') = p2p_slots (all_by p2p_ie 36 es)"
proof -
  obtain a b where r: "READ_16L m 32 = Some a" "READ_16L m 34 = Some b"
    using READ_16L_Some [of m 32] READ_16L_Some [of m 34] assms(2) by auto
  let ?s = "s\<lparr>p2p_index := 0, scan := scan_zero\<lparr>frame_len := of_nat (length m), tstamp := Some 24, bintval := ucast a, capinfo := b\<rparr>\<rparr>"
  have "nth_opt m 0 = Some (m ! 0)" "nth_opt m 15 = Some (m ! 15)" using assms(2) by (auto intro!: nth_opt_in)
  then have p: "wifi_mac_pkt_parse_element e m s = elem_walk e m 36 ?s"
    using r assms(2,3,5) by (auto simp: wifi_mac_pkt_parse_element_def Let_def)
  have "f (scan ?s) = None" if "(P, f) \<in> set (noted_by e)" for P f
    by (rule noted_by_induct [OF that]) (simp_all add: scan_zero_def)
  moreover have "p2p (scan ?s) = p2p_slots []" "p2p_index ?s = min MAX_P2PIE_NUM (length [])"
    by (simp_all add: scan_zero_def p2p_slots_def MAX_P2PIE_NUM_def)
  moreover have "sp_chan (scan ?s) = 0" "erp (scan ?s) = 0" "timoff (scan ?s) = 0" "p2p_noa (scan ?s) = None" by (simp_all add: scan_zero_def)
  ultimately show ?thesis unfolding p using elem_walk_of_ies [OF assms(1,2,4), of ?s "[]" e] by fastforce
qed

abbreviation ex_ies :: "(u8 \<times> u8 list) list" where
  "ex_ies \<equiv> [(0, [65, 66]), (3, [6]), (48, [1, 0]), (221, [0, 0x50, 0xf2, 4, 0]), (40, [1, 2]), (0, [])]"

theorem elements_found_witness:
  "\<exists>s'. wifi_mac_pkt_parse_element ex_env (ex_beacon ex_ies) ex_elem_st = Some (False, s')
     \<and> ssid (scan s') = Some 58 \<and> rsn (scan s') = Some 43 \<and> wps (scan s') = Some 47 \<and> quiet (scan s') = Some 54
     \<and> xrates (scan s') = None \<and> sp_chan (scan s') = 6"
proof -
  let ?m = "ex_beacon ex_ies"
  have "drop 36 ?m = concat (map ie_bytes ex_ies)" "36 \<le> length ?m" "?m ! 0 AND 0xf0 = 0x80"
    by (simp_all only: ex_beacon_drop le_add1) simp
  moreover have "\<forall>x \<in> set ex_ies. ie_ok x" "scan ex_elem_st = scan_zero" by (simp_all add: ie_ok_def ex_elem_st_def)
  ultimately obtain s' where s': "wifi_mac_pkt_parse_element ex_env ?m ex_elem_st = Some (False, s')"
      "\<forall>(P, f) \<in> set (noted_by ex_env). f (scan s') = last_by P (\<lambda>q _. Some q) 36 ex_ies None"
      "sp_chan (scan s') = last_by (chan_ie ex_env) (\<lambda>_ x. snd x ! 0) 36 ex_ies 0"
    using elements_found [of ?m ex_ies ex_elem_st ex_env] by blast
  have "ssid (scan s') = Some 58 \<and> rsn (scan s') = Some 43 \<and> wps (scan s') = Some 47 \<and> quiet (scan s') = Some 54 \<and> xrates (scan s') = None"
    using s'(2) by (simp add: noted_by_def wps_ie_def vendor_is_def)
  with s'(1,3) show ?thesis by (simp add: chan_ie_def)
qed

end
