(* ===== verification/RsnIe.thy ===== *)
theory RsnIe
  imports Elements
begin

text \<open>
  The security elements (\<^verbatim>\<open>wifi_mac_recv.c\<close>): the WPA element and the RSN element, parsed for the own
  configuration and for a peer. \<open>m\<close> is the memory the element lies in and \<open>frm\<close> its position; the
  remaining length is the byte that the code counts down and may wrap. A result is the reason code with
  the parameters as far as they were stored; \<open>None\<close> is a read outside \<open>m\<close>, or a shift of 1 by
  32, which C leaves undefined.
\<close>

section \<open>Data\<close>

record rsnparms =
  rsn_mcastcipher :: u8
  rsn_mcastkeylen :: u8
  rsn_ucastcipherset :: u8
  rsn_ucastcipher :: u8
  rsn_ucastkeylen :: u8
  rsn_keymgmtset :: u16
  rsn_caps :: u16
  rsn_caps_offset :: u8
  rsn_pmkid_count :: u8
  rsn_pmkid_offset :: u8
  rsn_pmkid :: "u8 list"
  rsn_gmcipher :: u8
  sa_valid :: u8
  gtksa :: u8
  ptksa :: u8

definition WIFINET_CIPHER_WEP :: nat where "WIFINET_CIPHER_WEP = 0"
definition WIFINET_CIPHER_TKIP :: nat where "WIFINET_CIPHER_TKIP = 1"
definition WIFINET_CIPHER_AES_OCB :: nat where "WIFINET_CIPHER_AES_OCB = 2"
definition WIFINET_CIPHER_AES_CCM :: nat where "WIFINET_CIPHER_AES_CCM = 3"
definition WIFINET_CIPHER_WPI :: nat where "WIFINET_CIPHER_WPI = 4"
definition WIFINET_CIPHER_AES_CMAC :: nat where "WIFINET_CIPHER_AES_CMAC = 5"
definition WIFINET_CIPHER_AES_PSK_256 :: nat where "WIFINET_CIPHER_AES_PSK_256 = 6"
definition WIFINET_CIPHER_AES_SAE :: nat where "WIFINET_CIPHER_AES_SAE = 8"
definition WIFINET_CIPHER_NONE :: nat where "WIFINET_CIPHER_NONE = 9"
definition WIFINET_CIPHER_MAX :: nat where "WIFINET_CIPHER_MAX = 10"
definition WIFINET_REASON_IE_INVALID :: int where "WIFINET_REASON_IE_INVALID = 13"

lemmas cipher_defs = WIFINET_CIPHER_WEP_def WIFINET_CIPHER_TKIP_def WIFINET_CIPHER_AES_OCB_def WIFINET_CIPHER_AES_CCM_def
  WIFINET_CIPHER_WPI_def WIFINET_CIPHER_AES_CMAC_def WIFINET_CIPHER_AES_PSK_256_def WIFINET_CIPHER_AES_SAE_def
  WIFINET_CIPHER_NONE_def WIFINET_CIPHER_MAX_def

definition WPA_SEL :: "u32 \<Rightarrow> u32" where "WPA_SEL x = push_bit 24 x OR 0xf25000"
definition RSN_SEL :: "u32 \<Rightarrow> u32" where "RSN_SEL x = push_bit 24 x OR 0xac0f00"

text \<open>The cipher of a suite selector, and the key length it stores.\<close>

definition wpa_cipher :: "u32 \<Rightarrow> u8 \<Rightarrow> nat \<times> u8" where
  "wpa_cipher w keylen =
     (if w = WPA_SEL 0 then (WIFINET_CIPHER_NONE, keylen)
      else if w = WPA_SEL 1 then (WIFINET_CIPHER_WEP, 40 div 8)
      else if w = WPA_SEL 5 then (WIFINET_CIPHER_WEP, 104 div 8)
      else if w = WPA_SEL 2 then (WIFINET_CIPHER_TKIP, keylen)
      else if w = WPA_SEL 4 then (WIFINET_CIPHER_AES_CCM, keylen)
      else (32, keylen))"

definition wpa_keymgmt :: "u32 \<Rightarrow> nat" where
  "wpa_keymgmt w = (if w = WPA_SEL 1 then 1 else if w = WPA_SEL 2 then 2 else if w = WPA_SEL 0 then 0 else 0)"

definition rsn_cipher :: "u32 \<Rightarrow> u8 \<Rightarrow> nat \<times> u8" where
  "rsn_cipher w keylen =
     (if w = RSN_SEL 0 then (WIFINET_CIPHER_NONE, keylen)
      else if w = RSN_SEL 1 then (WIFINET_CIPHER_WEP, 40 div 8)
      else if w = RSN_SEL 5 then (WIFINET_CIPHER_WEP, 104 div 8)
      else if w = RSN_SEL 2 then (WIFINET_CIPHER_TKIP, keylen)
      else if w = RSN_SEL 3 then (WIFINET_CIPHER_AES_OCB, keylen)
      else if w = RSN_SEL 4 then (WIFINET_CIPHER_AES_CCM, keylen)
      else if w = RSN_SEL 6 then (WIFINET_CIPHER_AES_PSK_256, keylen)
      else if w = RSN_SEL 8 then (WIFINET_CIPHER_AES_SAE, keylen)
      else (32, keylen))"

definition rsn_keymgmt :: "u32 \<Rightarrow> nat" where
  "rsn_keymgmt w =
     (if w = RSN_SEL 1 then 1 else if w = RSN_SEL 2 then 2 else if w = RSN_SEL 6 then 6 else if w = RSN_SEL 8 then 8
      else if w = RSN_SEL 0 then 0 else if w = RSN_SEL 5 then 5 else 0)"

text \<open>\<open>1 << c\<close> of a C integer.\<close>

definition shl1 :: "nat \<Rightarrow> u32 option" where
  "shl1 c = (if c < 32 then Some (push_bit c 1) else None)"

definition WIFINET_C_WEP :: u32 where "WIFINET_C_WEP = 1"
definition WIFINET_C_TKIP :: u32 where "WIFINET_C_TKIP = 2"
definition WIFINET_C_AES :: u32 where "WIFINET_C_AES = 4"
definition WIFINET_C_AES_CCM :: u32 where "WIFINET_C_AES_CCM = 8"
definition WIFINET_C_WAPI :: u32 where "WIFINET_C_WAPI = 16"

definition cipher2cap :: "nat \<Rightarrow> u32" where
  "cipher2cap c =
     (if c = WIFINET_CIPHER_WEP then WIFINET_C_WEP
      else if c = WIFINET_CIPHER_AES_OCB then WIFINET_C_AES
      else if c = WIFINET_CIPHER_AES_CCM then WIFINET_C_AES_CCM
      else if c = WIFINET_CIPHER_WPI then WIFINET_C_WAPI
      else if c = WIFINET_CIPHER_TKIP then WIFINET_C_TKIP
      else 0)"

text \<open>\<open>st c\<close> tells whether the table \<open>security_type\<close> has an entry for cipher \<open>c\<close>.\<close>

definition wifi_mac_security_available :: "(nat \<Rightarrow> bool) \<Rightarrow> nat \<Rightarrow> bool" where
  "wifi_mac_security_available st cipher \<longleftrightarrow> cipher < WIFINET_CIPHER_MAX \<and> st cipher"

section \<open>The WPA element\<close>

fun wpa_ucast :: "u8 list \<Rightarrow> nat \<Rightarrow> nat \<Rightarrow> u8 \<Rightarrow> u32 \<Rightarrow> u8 \<Rightarrow> (nat \<times> u8 \<times> u32 \<times> u8) option" where
  "wpa_ucast m 0 frm len w kl = Some (frm, len, w, kl)"
| "wpa_ucast m (Suc n) frm len w kl = do {
     sel \<leftarrow> READ_32L m frm;
     b \<leftarrow> shl1 (fst (wpa_cipher sel kl));
     wpa_ucast m n (frm + 4) (len - 4) (w OR b) (snd (wpa_cipher sel kl)) }"

fun wpa_akm :: "u8 list \<Rightarrow> nat \<Rightarrow> nat \<Rightarrow> u8 \<Rightarrow> u32 \<Rightarrow> (nat \<times> u8 \<times> u32) option" where
  "wpa_akm m 0 frm len w = Some (frm, len, w)"
| "wpa_akm m (Suc n) frm len w = do {
     sel \<leftarrow> READ_32L m frm;
     b \<leftarrow> shl1 (wpa_keymgmt sel);
     wpa_akm m n (frm + 4) (len - 4) (w OR b) }"

text \<open>The part after the multicast cipher: pairwise suites, key management suites, and the optional
  pair of security-association counts.\<close>

definition wpa_akm_part :: "u8 list \<Rightarrow> bool \<Rightarrow> nat \<Rightarrow> u8 \<Rightarrow> rsnparms \<Rightarrow> (int \<times> rsnparms) option" where
  "wpa_akm_part m own frm len r = do {
     nw \<leftarrow> READ_16L m frm;
     let n = unat nw;
     let frm = frm + 2;
     let len = len - 2;
     if unat len < n * 4 then Some (WIFINET_REASON_IE_INVALID, r) else do {
     (frm, len, w) \<leftarrow> wpa_akm m n frm len 0;
     let r = (if own then r\<lparr>rsn_keymgmtset := ucast w\<rparr> else r);
     let w = (if own then w else w AND ucast (rsn_keymgmtset r));
     if w = 0 then Some (WIFINET_REASON_IE_INVALID, r)
     else if len \<ge> 2 then do {
       g \<leftarrow> nth_opt m frm; p \<leftarrow> nth_opt m (frm + 1);
       Some (0, r\<lparr>sa_valid := 1, gtksa := g, ptksa := p\<rparr>) }
     else Some (0, r) }}"

definition wifi_mac_parse_wpa :: "u8 list \<Rightarrow> nat \<Rightarrow> bool \<Rightarrow> rsnparms \<Rightarrow> (int \<times> rsnparms) option" where
  "wifi_mac_parse_wpa m frm own r = do {
     len \<leftarrow> nth_opt m (frm + 1);
     if len < 14 then Some (WIFINET_REASON_IE_INVALID, r) else do {
     let frm = frm + 6;
     let len = len - 4;
     v \<leftarrow> READ_16L m frm;
     if v \<noteq> 1 then Some (WIFINET_REASON_IE_INVALID, r) else do {
     let frm = frm + 2;
     let len = len - 2;
     sel \<leftarrow> READ_32L m frm;
     let (c, kl) = wpa_cipher sel (rsn_mcastkeylen r);
     let r = r\<lparr>rsn_mcastkeylen := kl\<rparr>;
     let r = (if own then r\<lparr>rsn_mcastcipher := of_nat c\<rparr> else r);
     if c \<noteq> unat (rsn_mcastcipher r) then Some (WIFINET_REASON_IE_INVALID, r) else do {
     let frm = frm + 4;
     let len = len - 4;
     nw \<leftarrow> READ_16L m frm;
     let n = unat nw;
     let frm = frm + 2;
     let len = len - 2;
     if unat len < n * 4 + 2 then Some (WIFINET_REASON_IE_INVALID, r) else do {
     (frm, len, w, kl) \<leftarrow> wpa_ucast m n frm len 0 (rsn_ucastkeylen r);
     let r = r\<lparr>rsn_ucastkeylen := kl\<rparr>;
     let r = (if own then r\<lparr>rsn_ucastcipherset := ucast w\<rparr> else r);
     let w = (if own then w else w AND ucast (rsn_ucastcipherset r));
     if w = 0 then Some (WIFINET_REASON_IE_INVALID, r) else do {
     let r = (if own then r
              else r\<lparr>rsn_ucastcipher := of_nat (if w AND push_bit WIFINET_CIPHER_AES_CCM 1 \<noteq> 0
                                                then WIFINET_CIPHER_AES_CCM else WIFINET_CIPHER_TKIP)\<rparr>);
     wpa_akm_part m own frm len r }}}}}}"

section \<open>The RSN element of the own configuration\<close>

definition own_cipher_ok :: "u32 \<Rightarrow> (nat \<Rightarrow> bool) \<Rightarrow> nat \<Rightarrow> bool" where
  "own_cipher_ok vm_caps st w \<longleftrightarrow>
     \<not> (w = 32 \<or> vm_caps AND cipher2cap w = 0 \<and> \<not> wifi_mac_security_available st w)"

text \<open>The loops stop at the first suite that is not supported.\<close>

fun own_ucast :: "u32 \<Rightarrow> (nat \<Rightarrow> bool) \<Rightarrow> u8 list \<Rightarrow> nat \<Rightarrow> nat \<Rightarrow> rsnparms \<Rightarrow> (bool \<times> nat \<times> rsnparms) option" where
  "own_ucast vm_caps st m 0 index r = Some (True, index, r)"
| "own_ucast vm_caps st m (Suc n) index r = do {
     sel \<leftarrow> READ_32L m index;
     let (w, kl) = rsn_cipher sel (rsn_ucastkeylen r);
     let r = r\<lparr>rsn_ucastkeylen := kl\<rparr>;
     if \<not> own_cipher_ok vm_caps st w then Some (False, index, r) else do {
     b \<leftarrow> shl1 w;
     own_ucast vm_caps st m n (index + 4) (r\<lparr>rsn_ucastcipherset := ucast (ucast (rsn_ucastcipherset r) OR b)\<rparr>) }}"

fun own_akm :: "u8 list \<Rightarrow> nat \<Rightarrow> nat \<Rightarrow> rsnparms \<Rightarrow> (bool \<times> nat \<times> rsnparms) option" where
  "own_akm m 0 index r = Some (True, index, r)"
| "own_akm m (Suc n) index r = do {
     sel \<leftarrow> READ_32L m index;
     let w = rsn_keymgmt sel;
     if w = 0 then Some (False, index, r) else do {
     b \<leftarrow> shl1 w;
     own_akm m n (index + 4) (r\<lparr>rsn_keymgmtset := ucast (ucast (rsn_keymgmtset r) OR b)\<rparr>) }}"

definition read_bytes :: "u8 list \<Rightarrow> nat \<Rightarrow> nat \<Rightarrow> u8 list option" where
  "read_bytes m p n = (if p + n \<le> length m then Some (take n (drop p m)) else None)"

text \<open>The optional fields after the suites; \<open>len\<close> is the length of the element and \<open>base\<close> its position.\<close>

definition own_tail :: "u8 list \<Rightarrow> nat \<Rightarrow> int \<Rightarrow> nat \<Rightarrow> rsnparms \<Rightarrow> (int \<times> rsnparms) option" where
  "own_tail m base len index r = do {
     (index, r) \<leftarrow> (if len + 2 - int index \<ge> 2
       then do { c \<leftarrow> READ_16L m (base + index); Some (index + 2, r\<lparr>rsn_caps := c, rsn_caps_offset := of_nat index\<rparr>) }
       else Some (index, r));
     let r = r\<lparr>rsn_pmkid_count := 0\<rparr>;
     (index, r) \<leftarrow> (if len + 2 - int index \<ge> 2
       then do { c \<leftarrow> READ_16L m (base + index); Some (index + 2, r\<lparr>rsn_pmkid_count := ucast c\<rparr>) }
       else Some (index, r));
     (ok, index, r) \<leftarrow> (if rsn_pmkid_count r \<noteq> 0
       then if len + 2 - int index \<ge> int (unat (rsn_pmkid_count r)) * 16
            then do { b \<leftarrow> read_bytes m (base + index) 16;
                      Some (True, index + 16 * unat (rsn_pmkid_count r), r\<lparr>rsn_pmkid_offset := of_nat index, rsn_pmkid := b\<rparr>) }
            else Some (False, index, r)
       else Some (True, index, r\<lparr>rsn_pmkid_offset := 0\<rparr>));
     if \<not> ok then Some (WIFINET_REASON_IE_INVALID, r)
     else if len + 2 - int index \<ge> 4
     then do { sel \<leftarrow> READ_32L m (base + index); Some (0, r\<lparr>rsn_gmcipher := of_nat (rsn_keymgmt sel)\<rparr>) }
     else Some (0, r) }"

definition wifi_mac_parse_own_rsn ::
    "u32 \<Rightarrow> (nat \<Rightarrow> bool) \<Rightarrow> u8 list \<Rightarrow> nat \<Rightarrow> rsnparms \<Rightarrow> (int \<times> rsnparms) option" where
  "wifi_mac_parse_own_rsn vm_caps st m frm r = do {
     lw \<leftarrow> nth_opt m (frm + 1);
     let len = int (unat lw);
     if lw < 10 then Some (WIFINET_REASON_IE_INVALID, r) else do {
     v \<leftarrow> READ_16L m (frm + 2);
     if v \<noteq> 1 then Some (WIFINET_REASON_IE_INVALID, r) else do {
     sel \<leftarrow> READ_32L m (frm + 4);
     let (w, kl) = rsn_cipher sel (rsn_mcastkeylen r);
     let r = r\<lparr>rsn_mcastkeylen := kl\<rparr>;
     if \<not> own_cipher_ok vm_caps st w then Some (WIFINET_REASON_IE_INVALID, r) else do {
     let r = r\<lparr>rsn_mcastcipher := of_nat w\<rparr>;
     nw \<leftarrow> READ_16L m (frm + 8);
     let n = unat (ucast nw :: u8);
     let index = 10;
     if len + 2 - int index < int n * 4 + 2 then Some (WIFINET_REASON_IE_INVALID, r) else do {
     (ok, fi, r) \<leftarrow> own_ucast vm_caps st m n (frm + index) r;
     if \<not> ok then Some (WIFINET_REASON_IE_INVALID, r) else do {
     let r = r\<lparr>rsn_ucastcipher := of_nat (if rsn_ucastcipherset r AND push_bit WIFINET_CIPHER_AES_CCM 1 \<noteq> 0
                                          then WIFINET_CIPHER_AES_CCM else WIFINET_CIPHER_TKIP)\<rparr>;
     nw \<leftarrow> READ_16L m fi;
     let n = unat (ucast nw :: u8);
     let fi = fi + 2;
     if len + 2 - (int fi - int frm) < int n * 4 then Some (WIFINET_REASON_IE_INVALID, r) else do {
     (ok, fi, r) \<leftarrow> own_akm m n fi r;
     if \<not> ok then Some (WIFINET_REASON_IE_INVALID, r)
     else own_tail m frm len (fi - frm) r }}}}}}}"

section \<open>The RSN element of a peer\<close>

fun peer_ucast :: "u8 list \<Rightarrow> nat \<Rightarrow> nat \<Rightarrow> u8 \<Rightarrow> u32 \<Rightarrow> u8 \<Rightarrow> (bool \<times> nat \<times> u8 \<times> u32 \<times> u8) option" where
  "peer_ucast m 0 frm len w kl = Some (True, frm, len, w, kl)"
| "peer_ucast m (Suc n) frm len w kl = do {
     sel \<leftarrow> READ_32L m frm;
     b \<leftarrow> shl1 (fst (rsn_cipher sel kl));
     let kl = snd (rsn_cipher sel kl);
     if w OR b = 32 then Some (False, frm, len, w OR b, kl)
     else peer_ucast m n (frm + 4) (len - 4) (w OR b) kl }"

fun peer_akm :: "u8 list \<Rightarrow> nat \<Rightarrow> nat \<Rightarrow> u8 \<Rightarrow> u32 \<Rightarrow> (bool \<times> nat \<times> u8 \<times> u32) option" where
  "peer_akm m 0 frm len w = Some (True, frm, len, w)"
| "peer_akm m (Suc n) frm len w = do {
     sel \<leftarrow> READ_32L m frm;
     b \<leftarrow> shl1 (rsn_keymgmt sel);
     if w OR b = 1 then Some (False, frm, len, w OR b)
     else peer_akm m n (frm + 4) (len - 4) (w OR b) }"

definition peer_tail :: "u8 list \<Rightarrow> bool \<Rightarrow> u8 \<Rightarrow> nat \<Rightarrow> u8 \<Rightarrow> rsnparms \<Rightarrow> (int \<times> rsnparms) option" where
  "peer_tail m is_judge pmkid_offset frm len r = do {
     (ok, frm, len, r) \<leftarrow> (if len \<ge> 2
       then do { c \<leftarrow> READ_16L m frm; Some (True, frm + 2, len - 2, r\<lparr>rsn_caps := c, rsn_caps_offset := pmkid_offset - len + 2\<rparr>) }
       else Some (is_judge, frm, len, r));
     if \<not> ok then Some (WIFINET_REASON_IE_INVALID, r) else do {
     let r = r\<lparr>rsn_pmkid_count := 0\<rparr>;
     (frm, len, r) \<leftarrow> (if len \<ge> 2
       then do { c \<leftarrow> READ_16L m frm; Some (frm + 2, len - 2, r\<lparr>rsn_pmkid_count := ucast c\<rparr>) }
       else Some (frm, len, r));
     (ok, frm, len, r) \<leftarrow> (if rsn_pmkid_count r \<noteq> 0
       then if unat len \<ge> unat (rsn_pmkid_count r) * 16
            then do { b \<leftarrow> read_bytes m frm 16;
                      Some (True, frm + 16 * unat (rsn_pmkid_count r), len - 16 * rsn_pmkid_count r, r\<lparr>rsn_pmkid := b\<rparr>) }
            else Some (False, frm, len, r)
       else Some (True, frm, len, r\<lparr>rsn_pmkid_count := 0, rsn_pmkid_offset := 0\<rparr>));
     if \<not> ok then Some (WIFINET_REASON_IE_INVALID, r)
     else if len \<ge> 4
     then do { sel \<leftarrow> READ_32L m frm; Some (0, r\<lparr>rsn_gmcipher := of_nat (rsn_keymgmt sel)\<rparr>) }
     else Some (0, r\<lparr>rsn_gmcipher := 0\<rparr>) }}"

definition wifi_mac_parse_counterpart_rsn :: "u8 list \<Rightarrow> nat \<Rightarrow> bool \<Rightarrow> rsnparms \<Rightarrow> (int \<times> rsnparms) option" where
  "wifi_mac_parse_counterpart_rsn m frm is_judge r = do {
     len \<leftarrow> nth_opt m (frm + 1);
     let pmkid_offset = len;
     if len < 10 then Some (WIFINET_REASON_IE_INVALID, r) else do {
     v \<leftarrow> READ_16L m (frm + 2);
     if v \<noteq> 1 then Some (WIFINET_REASON_IE_INVALID, r) else do {
     let len = len - 2;
     sel \<leftarrow> READ_32L m (frm + 4);
     let (w, kl) = rsn_cipher sel (rsn_mcastkeylen r);
     let r = r\<lparr>rsn_mcastkeylen := kl\<rparr>;
     if w = 32 then Some (WIFINET_REASON_IE_INVALID, r) else do {
     let len = len - 4;
     if is_judge \<and> w \<noteq> unat (rsn_mcastcipher r) then Some (WIFINET_REASON_IE_INVALID, r) else do {
     nw \<leftarrow> READ_16L m (frm + 8);
     let n = unat nw;
     let len = len - 2;
     if (n = 0 \<or> unat len < n * 4 + 2) \<and> is_judge then Some (WIFINET_REASON_IE_INVALID, r) else do {
     (ok, fi, len, w, kl) \<leftarrow> peer_ucast m n (frm + 10) len 0 (rsn_ucastkeylen r);
     let r = r\<lparr>rsn_ucastkeylen := kl\<rparr>;
     if \<not> ok \<or> is_judge \<and> w AND ucast (rsn_ucastcipherset r) = 0 then Some (WIFINET_REASON_IE_INVALID, r) else do {
     nw \<leftarrow> READ_16L m fi;
     let n = unat nw;
     let len = len - 2;
     if (n = 0 \<or> unat len < n * 4) \<and> is_judge then Some (WIFINET_REASON_IE_INVALID, r) else do {
     (ok, fi, len, w) \<leftarrow> peer_akm m n (fi + 2) len 0;
     if \<not> ok \<or> is_judge \<and> w AND ucast (rsn_keymgmtset r) = 0 then Some (WIFINET_REASON_IE_INVALID, r)
     else peer_tail m is_judge pmkid_offset fi len r }}}}}}}}"

section \<open>Reads inside an element\<close>

lemma READ_16L_in: "p + 1 < length m \<Longrightarrow> \<exists>w. READ_16L m p = Some w"
  using READ_16L_Some [of m p] by blast

lemma READ_32L_in: "p + 3 < length m \<Longrightarrow> \<exists>w. READ_32L m p = Some w"
  using READ_32L_None [of m p] by (metis not_le not_None_eq)

lemma u8_minus: "of_nat k \<le> (len :: u8) \<Longrightarrow> k < 256 \<Longrightarrow> unat (len - of_nat k) = unat len - k"
  by (simp add: unat_sub unat_of_nat take_bit_nat_eq_self_iff)

lemma u8_le: "(of_nat k \<le> (len :: u8)) \<longleftrightarrow> k \<le> unat len" if "k < 256"
  using that by (simp add: word_le_nat_alt unat_of_nat take_bit_nat_eq_self_iff)

lemma wpa_keymgmt_shl: "\<exists>b. shl1 (wpa_keymgmt w) = Some b"
  by (simp add: wpa_keymgmt_def shl1_def)

lemma rsn_keymgmt_shl: "\<exists>b. shl1 (rsn_keymgmt w) = Some b"
  by (simp add: rsn_keymgmt_def shl1_def)

lemma wpa_cipher_shl: "fst (wpa_cipher w kl) \<noteq> 32 \<Longrightarrow> \<exists>b. shl1 (fst (wpa_cipher w kl)) = Some b"
  by (auto simp: wpa_cipher_def shl1_def cipher_defs split: if_splits)

lemma rsn_cipher_shl: "fst (rsn_cipher w kl) \<noteq> 32 \<Longrightarrow> \<exists>b. shl1 (fst (rsn_cipher w kl)) = Some b"
  by (auto simp: rsn_cipher_def shl1_def cipher_defs split: if_splits)

lemma wpa_cipher_kl: "fst (wpa_cipher w kl) = fst (wpa_cipher w 0)"
  by (simp add: wpa_cipher_def)

lemma rsn_cipher_kl: "fst (rsn_cipher w kl) = fst (rsn_cipher w 0)"
  by (simp add: rsn_cipher_def)

text \<open>A suite selector between \<open>p\<close> and \<open>e\<close> whose cipher the code does not know.\<close>

definition unknown_suite :: "(u32 \<Rightarrow> u8 \<Rightarrow> nat \<times> u8) \<Rightarrow> u8 list \<Rightarrow> nat \<Rightarrow> nat \<Rightarrow> bool" where
  "unknown_suite cf m p e \<longleftrightarrow> (\<exists>q sel. p \<le> q \<and> q + 4 \<le> e \<and> READ_32L m q = Some sel \<and> fst (cf sel 0) = 32)"

lemma unknown_suite_mono: "unknown_suite cf m p e \<Longrightarrow> p' \<le> p \<Longrightarrow> e \<le> e' \<Longrightarrow> unknown_suite cf m p' e'"
  unfolding unknown_suite_def by (meson order_trans)

lemma wpa_ucast_in:
  "p + 4 * n \<le> length m \<Longrightarrow> unknown_suite wpa_cipher m p (p + 4 * n)
     \<or> (\<exists>w' kl'. wpa_ucast m n p len w kl = Some (p + 4 * n, len - of_nat (4 * n), w', kl'))"
proof (induction n arbitrary: p len w kl)
  case 0
  then show ?case by simp
next
  case (Suc n)
  obtain sel where sel: "READ_32L m p = Some sel" using READ_32L_in [of p m] Suc.prems by auto
  show ?case
  proof (cases "fst (wpa_cipher sel 0) = 32")
    case True
    then have "unknown_suite wpa_cipher m p (p + 4 * Suc n)" unfolding unknown_suite_def using sel by (intro exI [of _ p]) simp
    then show ?thesis ..
  next
    case False
    then obtain b where b: "shl1 (fst (wpa_cipher sel kl)) = Some b" using wpa_cipher_shl [of sel kl] wpa_cipher_kl [of sel kl] by auto
    have "p + 4 + 4 * n \<le> length m" using Suc.prems by simp
    from Suc.IH [OF this, of "len - 4" "w OR b" "snd (wpa_cipher sel kl)"] show ?thesis
    proof (elim disjE)
      assume "unknown_suite wpa_cipher m (p + 4) (p + 4 + 4 * n)"
      then have "unknown_suite wpa_cipher m p (p + 4 * Suc n)" by (rule unknown_suite_mono) simp_all
      then show ?thesis ..
    qed (use sel b in \<open>auto simp: algebra_simps\<close>)
  qed
qed

lemma wpa_akm_in:
  "p + 4 * n \<le> length m \<Longrightarrow> \<exists>w'. wpa_akm m n p len w = Some (p + 4 * n, len - of_nat (4 * n), w')"
proof (induction n arbitrary: p len w)
  case 0
  then show ?case by simp
next
  case (Suc n)
  obtain sel where sel: "READ_32L m p = Some sel" using READ_32L_in [of p m] Suc.prems by auto
  obtain b where b: "shl1 (wpa_keymgmt sel) = Some b" using wpa_keymgmt_shl by blast
  have "p + 4 + 4 * n \<le> length m" using Suc.prems by simp
  from Suc.IH [OF this, of "len - 4" "w OR b"] sel b show ?case by (auto simp: algebra_simps)
qed

lemma peer_akm_in:
  "p + 4 * n \<le> length m \<Longrightarrow> \<exists>ok p' len' w'. peer_akm m n p len w = Some (ok, p', len', w')
     \<and> (ok \<longrightarrow> p' = p + 4 * n \<and> len' = len - of_nat (4 * n))"
proof (induction n arbitrary: p len w)
  case 0
  then show ?case by auto
next
  case (Suc n)
  obtain sel where sel: "READ_32L m p = Some sel" using READ_32L_in [of p m] Suc.prems by auto
  obtain b where b: "shl1 (rsn_keymgmt sel) = Some b" using rsn_keymgmt_shl by blast
  have "p + 4 + 4 * n \<le> length m" using Suc.prems by simp
  from Suc.IH [OF this, of "len - 4" "w OR b"] sel b show ?case by (auto simp: algebra_simps)
qed

lemma peer_ucast_in:
  "p + 4 * n \<le> length m \<Longrightarrow> unknown_suite rsn_cipher m p (p + 4 * n)
     \<or> (\<exists>ok p' len' w' kl'. peer_ucast m n p len w kl = Some (ok, p', len', w', kl')
         \<and> (ok \<longrightarrow> p' = p + 4 * n \<and> len' = len - of_nat (4 * n)))"
proof (induction n arbitrary: p len w kl)
  case 0
  then show ?case by auto
next
  case (Suc n)
  obtain sel where sel: "READ_32L m p = Some sel" using READ_32L_in [of p m] Suc.prems by auto
  show ?case
  proof (cases "fst (rsn_cipher sel 0) = 32")
    case True
    then have "unknown_suite rsn_cipher m p (p + 4 * Suc n)" unfolding unknown_suite_def using sel by (intro exI [of _ p]) simp
    then show ?thesis ..
  next
    case False
    then obtain b where b: "shl1 (fst (rsn_cipher sel kl)) = Some b" using rsn_cipher_shl [of sel kl] rsn_cipher_kl [of sel kl] by auto
    have "p + 4 + 4 * n \<le> length m" using Suc.prems by simp
    from Suc.IH [OF this, of "len - 4" "w OR b" "snd (rsn_cipher sel kl)"] show ?thesis
    proof (elim disjE)
      assume "unknown_suite rsn_cipher m (p + 4) (p + 4 + 4 * n)"
      then have "unknown_suite rsn_cipher m p (p + 4 * Suc n)" by (rule unknown_suite_mono) simp_all
      then show ?thesis ..
    qed (use sel b in \<open>auto simp: algebra_simps Let_def\<close>)
  qed
qed

lemma u8_ge: "(2 :: u8) \<le> len \<longleftrightarrow> 2 \<le> unat len" "(4 :: u8) \<le> len \<longleftrightarrow> 4 \<le> unat len"
  "len < (14 :: u8) \<longleftrightarrow> unat len < 14" "len < (10 :: u8) \<longleftrightarrow> unat len < 10"
  by (simp_all add: word_le_nat_alt word_less_nat_alt)

lemma u8_minus_num:
  "2 \<le> unat len \<Longrightarrow> unat (len - 2 :: u8) = unat len - 2" "4 \<le> unat len \<Longrightarrow> unat (len - 4 :: u8) = unat len - 4"
  "8 \<le> unat len \<Longrightarrow> unat (len - 8 :: u8) = unat len - 8" "12 \<le> unat len \<Longrightarrow> unat (len - 12 :: u8) = unat len - 12"
  using u8_minus [of 2 len] u8_minus [of 4 len] u8_minus [of 8 len] u8_minus [of 12 len]
    u8_le [of 2 len] u8_le [of 4 len] u8_le [of 8 len] u8_le [of 12 len] by simp_all

lemma u8_minus_4n: "4 * n \<le> unat len \<Longrightarrow> unat (len - of_nat (4 * n) :: u8) = unat len - 4 * n"
  using u8_minus [of "4 * n" len] u8_le [of "4 * n" len] unat_u8 [of len] by simp

lemma wpa_akm_part_in:
  assumes "frm + unat len \<le> length m" "2 \<le> unat len"
  shows "\<exists>x. wpa_akm_part m own frm len r = Some x"
proof -
  obtain nw where nw: "READ_16L m frm = Some nw" using READ_16L_in [of frm m] assms by auto
  note l2 = u8_minus_num(1) [OF assms(2)]
  show ?thesis
  proof (cases "unat (len - 2) < unat nw * 4")
    case True
    with nw show ?thesis by (simp add: wpa_akm_part_def Let_def)
  next
    case False
    then have le: "frm + 2 + 4 * unat nw \<le> length m" "4 * unat nw \<le> unat (len - 2)" using assms l2 by simp_all
    obtain w where w: "wpa_akm m (unat nw) (frm + 2) (len - 2) 0 = Some (frm + 2 + 4 * unat nw, len - 2 - of_nat (4 * unat nw), w)"
      using wpa_akm_in [OF le(1)] by blast
    let ?l = "len - 2 - of_nat (4 * unat nw) :: u8"
    have l: "unat ?l = unat len - 2 - 4 * unat nw" using u8_minus_4n [OF le(2)] l2 by simp
    have "nth_opt m (frm + 2 + 4 * unat nw) \<noteq> None \<and> nth_opt m (frm + 2 + 4 * unat nw + 1) \<noteq> None" if "2 \<le> ?l"
      using that l assms le by (simp add: u8_ge nth_opt_None_iff not_le del: not_None_eq)
    with nw w False show ?thesis by (auto simp: wpa_akm_part_def Let_def)
  qed
qed

lemma parse_wpa_in:
  assumes "frm + 2 + unat (m ! (frm + 1)) \<le> length m"
  shows "(\<exists>x. wifi_mac_parse_wpa m frm own r = Some x) \<or> unknown_suite wpa_cipher m (frm + 14) (frm + 2 + unat (m ! (frm + 1)))"
proof -
  let ?len = "m ! (frm + 1)"
  have len: "nth_opt m (frm + 1) = Some ?len" using assms by simp
  show ?thesis
  proof (cases "unat ?len < 14")
    case True
    with len show ?thesis by (simp add: wifi_mac_parse_wpa_def u8_ge)
  next
    case False
    obtain v sel nw where rd: "READ_16L m (frm + 6) = Some v" "READ_32L m (frm + 8) = Some sel" "READ_16L m (frm + 12) = Some nw"
      using READ_16L_in [of "frm + 6" m] READ_32L_in [of "frm + 8" m] READ_16L_in [of "frm + 12" m] False assms by auto
    let ?l = "?len - 12"
    have l: "unat ?l = unat ?len - 12" using False by (simp add: u8_minus_num)
    obtain c kl where c: "wpa_cipher sel (rsn_mcastkeylen r) = (c, kl)" by fastforce
    show ?thesis
    proof (cases "unat ?l < unat nw * 4 + 2")
      case True
      with len rd c False show ?thesis by (auto simp: wifi_mac_parse_wpa_def Let_def u8_ge add.assoc)
    next
      case fit: False
      then have le: "frm + 14 + 4 * unat nw \<le> length m" "4 * unat nw \<le> unat ?l" using assms l by simp_all
      have e: "frm + 14 + 4 * unat nw \<le> frm + 2 + unat ?len" using fit l by simp
      from wpa_ucast_in [OF le(1), of ?l 0 "rsn_ucastkeylen r"]
      show ?thesis
      proof (elim disjE exE)
        assume "unknown_suite wpa_cipher m (frm + 14) (frm + 14 + 4 * unat nw)"
        then show ?thesis using unknown_suite_mono [OF _ le_refl e] by blast
      next
        fix w kl' assume w: "wpa_ucast m (unat nw) (frm + 14) ?l 0 (rsn_ucastkeylen r) = Some (frm + 14 + 4 * unat nw, ?l - of_nat (4 * unat nw), w, kl')"
        have "unat (?l - of_nat (4 * unat nw)) = unat ?len - 12 - 4 * unat nw" using u8_minus_4n [OF le(2)] l by simp
        then have k: "frm + 14 + 4 * unat nw + unat (?l - of_nat (4 * unat nw)) \<le> length m" "2 \<le> unat (?l - of_nat (4 * unat nw))"
          using assms fit l by simp_all
        obtain f where f: "\<And>r. wpa_akm_part m own (frm + 14 + 4 * unat nw) (?l - of_nat (4 * unat nw)) r = Some (f r)"
          using wpa_akm_part_in [OF k] by metis
        show ?thesis using len rd c False fit w f by (auto simp: wifi_mac_parse_wpa_def Let_def u8_ge add.assoc)
      qed
    qed
  qed
qed

lemma read_bytes_in: "p + n \<le> length m \<Longrightarrow> \<exists>b. read_bytes m p n = Some b"
  by (simp add: read_bytes_def)

lemma peer_tail_in:
  assumes "frm + unat len \<le> length m"
  shows "\<exists>x. peer_tail m is_judge po frm len r = Some x"
proof -
  have second: "\<exists>x. do {
     let r = r\<lparr>rsn_pmkid_count := 0\<rparr>;
     (frm, len, r) \<leftarrow> (if len \<ge> 2
       then do { c \<leftarrow> READ_16L m frm; Some (frm + 2, len - 2, r\<lparr>rsn_pmkid_count := ucast c\<rparr>) }
       else Some (frm, len, r));
     (ok, frm, len, r) \<leftarrow> (if rsn_pmkid_count r \<noteq> 0
       then if unat len \<ge> unat (rsn_pmkid_count r) * 16
            then do { b \<leftarrow> read_bytes m frm 16;
                      Some (True, frm + 16 * unat (rsn_pmkid_count r), len - 16 * rsn_pmkid_count r, r\<lparr>rsn_pmkid := b\<rparr>) }
            else Some (False, frm, len, r)
       else Some (True, frm, len, r\<lparr>rsn_pmkid_count := 0, rsn_pmkid_offset := 0\<rparr>));
     if \<not> ok then Some (WIFINET_REASON_IE_INVALID, r)
     else if len \<ge> 4
     then do { sel \<leftarrow> READ_32L m frm; Some (0, r\<lparr>rsn_gmcipher := of_nat (rsn_keymgmt sel)\<rparr>) }
     else Some (0, r\<lparr>rsn_gmcipher := 0\<rparr>) } = Some x" (is "\<exists>x. ?second frm len r = Some x")
    if fl: "frm + unat len \<le> length m" for frm and len :: u8 and r
  proof -
    have r32: "\<exists>w. READ_32L m p = Some w" if "4 \<le> (l :: u8)" "p + unat l \<le> length m" for p l
      using READ_32L_in [of p m] that by (auto simp: u8_ge)
    show ?thesis
    proof (cases "(2 :: u8) \<le> len")
      case False
      then have "\<not> (4 :: u8) \<le> len" by (simp add: u8_ge)
      with False show ?thesis by simp
    next
      case True
      then have two: "2 \<le> unat len" by (simp add: u8_ge)
      obtain c where c: "READ_16L m frm = Some c" using READ_16L_in [of frm m] fl two by auto
      note l2 = u8_minus_num(1) [OF two]
      let ?n = "ucast c :: u8"
      show ?thesis
      proof (cases "?n \<noteq> 0 \<and> unat (len - 2) \<ge> unat ?n * 16")
        case fits: True
        have n16: "unat (16 * ?n) = 16 * unat ?n"
          using fits unat_u8 [of "len - 2"] by (simp add: unat_word_ariths)
        then have "16 * ?n \<le> len - 2" using fits by (simp add: word_le_nat_alt)
        then have l: "unat (len - 2 - 16 * ?n) = unat len - 2 - 16 * unat ?n" using n16 l2 by (simp add: unat_sub)
        have "unat ?n \<noteq> 0" using fits by (simp add: unat_eq_0)
        then have "1 \<le> unat ?n" by linarith
        have k: "unat ?n * 16 \<le> unat len - 2" using fits l2 by simp
        with \<open>1 \<le> unat ?n\<close> have "frm + 2 + 16 \<le> length m" using fl two by linarith
        then obtain b where b: "read_bytes m (frm + 2) 16 = Some b" using read_bytes_in by blast
        have "\<exists>w. READ_32L m (frm + 2 + 16 * unat ?n) = Some w" if "4 \<le> len - 2 - 16 * ?n"
        proof (rule r32 [OF that])
          show "frm + 2 + 16 * unat ?n + unat (len - 2 - 16 * ?n) \<le> length m" unfolding l using fl k two by linarith
        qed
        with True c fits b show ?thesis by (auto simp: Let_def)
      next
        case False
        have "\<exists>w. READ_32L m (frm + 2) = Some w" if "4 \<le> len - 2"
          using r32 [OF that] fl l2 two by simp
        with True c False show ?thesis by (auto simp: Let_def)
      qed
    qed
  qed
  show ?thesis
  proof (cases "(2 :: u8) \<le> len")
    case True
    then have two: "2 \<le> unat len" by (simp add: u8_ge)
    obtain c where c: "READ_16L m frm = Some c" using READ_16L_in [of frm m] assms two by auto
    have "frm + 2 + unat (len - 2) \<le> length m" using u8_minus_num(1) [OF two] assms two by simp
    from second [OF this, of "r\<lparr>rsn_caps := c, rsn_caps_offset := po - len + 2\<rparr>"] True c
    show ?thesis by (simp add: peer_tail_def)
  next
    case False
    with second [OF assms, of r] show ?thesis by (cases is_judge) (simp_all add: peer_tail_def)
  qed
qed

lemma parse_counterpart_in:
  assumes "frm + 2 + unat (m ! (frm + 1)) \<le> length m"
  shows "(\<exists>x. wifi_mac_parse_counterpart_rsn m frm True r = Some x)
    \<or> unknown_suite rsn_cipher m (frm + 10) (frm + 2 + unat (m ! (frm + 1)))"
proof -
  let ?len = "m ! (frm + 1)"
  have len: "nth_opt m (frm + 1) = Some ?len" using assms by simp
  show ?thesis
  proof (cases "unat ?len < 10")
    case True
    with len show ?thesis by (simp add: wifi_mac_parse_counterpart_rsn_def u8_ge)
  next
    case False
    obtain v sel nw where rd: "READ_16L m (frm + 2) = Some v" "READ_32L m (frm + 4) = Some sel" "READ_16L m (frm + 8) = Some nw"
      using READ_16L_in [of "frm + 2" m] READ_32L_in [of "frm + 4" m] READ_16L_in [of "frm + 8" m] False assms by auto
    let ?l = "?len - 8"
    have l: "unat ?l = unat ?len - 8" using False by (simp add: u8_minus_num)
    obtain c kl where c: "rsn_cipher sel (rsn_mcastkeylen r) = (c, kl)" by fastforce
    show ?thesis
    proof (cases "nw = 0 \<or> unat ?l < unat nw * 4 + 2")
      case True
      with len rd c False show ?thesis by (auto simp: wifi_mac_parse_counterpart_rsn_def Let_def u8_ge unat_eq_0)
    next
      case fit: False
      then have n: "4 * unat nw + 2 \<le> unat ?l" by simp
      have le: "frm + 10 + 4 * unat nw \<le> length m" "4 * unat nw \<le> unat ?l"
        using assms l n \<open>\<not> unat ?len < 10\<close> by linarith+
      have e: "frm + 10 + 4 * unat nw \<le> frm + 2 + unat ?len" using n l \<open>\<not> unat ?len < 10\<close> by linarith
      from peer_ucast_in [OF le(1), of ?l 0 "rsn_ucastkeylen r"]
      show ?thesis
      proof (elim disjE exE conjE)
        assume "unknown_suite rsn_cipher m (frm + 10) (frm + 10 + 4 * unat nw)"
        then show ?thesis using unknown_suite_mono [OF _ le_refl e] by blast
      next
        fix ok p' len' w kl'
        assume w: "peer_ucast m (unat nw) (frm + 10) ?l 0 (rsn_ucastkeylen r) = Some (ok, p', len', w, kl')"
          and ok: "ok \<longrightarrow> p' = frm + 10 + 4 * unat nw \<and> len' = ?l - of_nat (4 * unat nw)"
        show ?thesis
        proof (cases ok)
          case False
          with len rd c fit w \<open>\<not> unat ?len < 10\<close> show ?thesis
            by (auto simp: wifi_mac_parse_counterpart_rsn_def Let_def u8_ge unat_eq_0)
        next
          case True
          with ok have p': "p' = frm + 10 + 4 * unat nw" "len' = ?l - of_nat (4 * unat nw)" by simp_all
          have l': "unat len' = unat ?len - 8 - 4 * unat nw" using u8_minus_4n [OF le(2)] l p' by simp
          then have two: "2 \<le> unat len'" using n l by linarith
          obtain nw2 where nw2: "READ_16L m p' = Some nw2" 
          proof -
            have "p' + 1 < length m" using p'(1) assms l' two by linarith
            then show thesis using READ_16L_in that by blast
          qed
          note l2 = u8_minus_num(1) [OF two]
          show ?thesis
          proof (cases "nw2 = 0 \<or> unat (len' - 2) < unat nw2 * 4")
            case True
            with len rd c fit w nw2 \<open>ok\<close> \<open>\<not> unat ?len < 10\<close> show ?thesis
              by (auto simp: wifi_mac_parse_counterpart_rsn_def Let_def u8_ge unat_eq_0)
          next
            case fit2: False
            then have n2: "4 * unat nw2 \<le> unat (len' - 2)" by simp
            have le2: "p' + 2 + 4 * unat nw2 \<le> length m" "4 * unat nw2 \<le> unat (len' - 2)"
              using assms p'(1) l' l2 two n2 by linarith+
            obtain ok2 p2 len2 w2 where a: "peer_akm m (unat nw2) (p' + 2) (len' - 2) 0 = Some (ok2, p2, len2, w2)"
                "ok2 \<longrightarrow> p2 = p' + 2 + 4 * unat nw2 \<and> len2 = len' - 2 - of_nat (4 * unat nw2)"
              using peer_akm_in [OF le2(1)] by blast
            have "p2 + unat len2 \<le> length m" if ok2
            proof -
              have "p2 = p' + 2 + 4 * unat nw2" "unat len2 = unat (len' - 2) - 4 * unat nw2"
                using a(2) that u8_minus_4n [OF le2(2)] by simp_all
              then show ?thesis using l' l2 n2 two p'(1) assms by linarith
            qed
            then obtain f where f: "ok2 \<Longrightarrow> peer_tail m True ?len p2 len2 r = Some (f r)" for r
              using peer_tail_in [of p2 len2 m True ?len] by metis
            from len rd c fit w nw2 a(1) fit2 f \<open>ok\<close> \<open>\<not> unat ?len < 10\<close> show ?thesis
              by (cases ok2) (auto simp: wifi_mac_parse_counterpart_rsn_def Let_def u8_ge unat_eq_0)
          qed
        qed
      qed
    qed
  qed
qed

lemma own_ucast_in:
  "p + 4 * n \<le> length m \<Longrightarrow> \<exists>ok p' r'. own_ucast cp st m n p r = Some (ok, p', r') \<and> (ok \<longrightarrow> p' = p + 4 * n)"
proof (induction n arbitrary: p r)
  case 0
  then show ?case by auto
next
  case (Suc n)
  obtain sel where sel: "READ_32L m p = Some sel" using READ_32L_in [of p m] Suc.prems by auto
  obtain w kl where w: "rsn_cipher sel (rsn_ucastkeylen r) = (w, kl)" by fastforce
  have le: "p + 4 + 4 * n \<le> length m" using Suc.prems by simp
  show ?case
  proof (cases "own_cipher_ok cp st w")
    case True
    then have "w \<noteq> 32" by (simp add: own_cipher_ok_def)
    then obtain b where b: "shl1 w = Some b" using rsn_cipher_shl [of sel "rsn_ucastkeylen r"] w by auto
    from Suc.IH [OF le] sel w True b show ?thesis by (fastforce simp: Let_def)
  next
    case False
    with sel w show ?thesis by (auto simp: Let_def)
  qed
qed

lemma own_akm_in:
  "p + 4 * n \<le> length m \<Longrightarrow> \<exists>ok p' r'. own_akm m n p r = Some (ok, p', r') \<and> (ok \<longrightarrow> p' = p + 4 * n)"
proof (induction n arbitrary: p r)
  case 0
  then show ?case by auto
next
  case (Suc n)
  obtain sel where sel: "READ_32L m p = Some sel" using READ_32L_in [of p m] Suc.prems by auto
  obtain b where b: "shl1 (rsn_keymgmt sel) = Some b" using rsn_keymgmt_shl by blast
  have le: "p + 4 + 4 * n \<le> length m" using Suc.prems by simp
  show ?case
  proof (cases "rsn_keymgmt sel = 0")
    case True
    with sel show ?thesis by (auto simp: Let_def)
  next
    case False
    with Suc.IH [OF le] sel b show ?thesis by (fastforce simp: Let_def)
  qed
qed

lemma own_tail_in:
  assumes "int base + len + 2 \<le> int (length m)"
  shows "\<exists>x. own_tail m base len index r = Some x"
proof -
  have r16: "\<exists>w. READ_16L m (base + i) = Some w" if "len + 2 - int i \<ge> 2" for i
    using READ_16L_in [of "base + i" m] that assms by simp
  have r32: "\<exists>w. READ_32L m (base + i) = Some w" if "len + 2 - int i \<ge> 4" for i
    using READ_32L_in [of "base + i" m] that assms by simp
  have third: "\<exists>x. do {
     (ok, index, r) \<leftarrow> (if rsn_pmkid_count r \<noteq> 0
       then if len + 2 - int index \<ge> int (unat (rsn_pmkid_count r)) * 16
            then do { b \<leftarrow> read_bytes m (base + index) 16;
                      Some (True, index + 16 * unat (rsn_pmkid_count r), r\<lparr>rsn_pmkid_offset := of_nat index, rsn_pmkid := b\<rparr>) }
            else Some (False, index, r)
       else Some (True, index, r\<lparr>rsn_pmkid_offset := 0\<rparr>));
     if \<not> ok then Some (WIFINET_REASON_IE_INVALID, r)
     else if len + 2 - int index \<ge> 4
     then do { sel \<leftarrow> READ_32L m (base + index); Some (0, r\<lparr>rsn_gmcipher := of_nat (rsn_keymgmt sel)\<rparr>) }
     else Some (0, r) } = Some x" for index r
  proof -
    obtain f where f: "\<And>i. len + 2 - int i \<ge> 4 \<Longrightarrow> READ_32L m (base + i) = Some (f i)" using r32 by metis
    show ?thesis
    proof (cases "rsn_pmkid_count r \<noteq> 0 \<and> len + 2 - int index \<ge> int (unat (rsn_pmkid_count r)) * 16")
      case True
      then have "unat (rsn_pmkid_count r) \<noteq> 0" by (simp add: unat_eq_0)
      then have "base + index + 16 \<le> length m" using True assms by linarith
      then obtain b where "read_bytes m (base + index) 16 = Some b" using read_bytes_in by blast
      with True f show ?thesis by simp
    next
      case False
      with f show ?thesis by auto
    qed
  qed
  have second: "\<exists>x. do {
     let r = r\<lparr>rsn_pmkid_count := 0\<rparr>;
     (index, r) \<leftarrow> (if len + 2 - int index \<ge> 2
       then do { c \<leftarrow> READ_16L m (base + index); Some (index + 2, r\<lparr>rsn_pmkid_count := ucast c\<rparr>) }
       else Some (index, r));
     (ok, index, r) \<leftarrow> (if rsn_pmkid_count r \<noteq> 0
       then if len + 2 - int index \<ge> int (unat (rsn_pmkid_count r)) * 16
            then do { b \<leftarrow> read_bytes m (base + index) 16;
                      Some (True, index + 16 * unat (rsn_pmkid_count r), r\<lparr>rsn_pmkid_offset := of_nat index, rsn_pmkid := b\<rparr>) }
            else Some (False, index, r)
       else Some (True, index, r\<lparr>rsn_pmkid_offset := 0\<rparr>));
     if \<not> ok then Some (WIFINET_REASON_IE_INVALID, r)
     else if len + 2 - int index \<ge> 4
     then do { sel \<leftarrow> READ_32L m (base + index); Some (0, r\<lparr>rsn_gmcipher := of_nat (rsn_keymgmt sel)\<rparr>) }
     else Some (0, r) } = Some x" for index r
  proof (cases "len + 2 - int index \<ge> 2")
    case True
    with r16 obtain c where c: "READ_16L m (base + index) = Some c" by blast
    from third [of "r\<lparr>rsn_pmkid_count := ucast c\<rparr>" "index + 2"] True c show ?thesis
      unfolding Let_def if_P [OF True] c by simp
  next
    case False
    from third [of "r\<lparr>rsn_pmkid_count := 0\<rparr>" index] show ?thesis unfolding Let_def if_not_P [OF False] by simp
  qed
  show ?thesis
  proof (cases "len + 2 - int index \<ge> 2")
    case True
    with r16 obtain c where c: "READ_16L m (base + index) = Some c" by blast
    from second [of "r\<lparr>rsn_caps := c, rsn_caps_offset := of_nat index\<rparr>" "index + 2"] show ?thesis
      by (simp only: own_tail_def if_P [OF True] c Option.bind.simps prod.case)
  next
    case False
    from second [of r index] show ?thesis 
      by (simp only: own_tail_def if_not_P [OF False] Option.bind.simps prod.case)
  qed
qed

lemma parse_own_in:
  assumes "frm + 2 + unat (m ! (frm + 1)) \<le> length m"
  shows "\<exists>x. wifi_mac_parse_own_rsn cp st m frm r = Some x"
proof -
  let ?len = "m ! (frm + 1)"
  have len: "nth_opt m (frm + 1) = Some ?len" using assms by simp
  show ?thesis
  proof (cases "unat ?len < 10")
    case True
    with len show ?thesis by (simp add: wifi_mac_parse_own_rsn_def u8_ge)
  next
    case False
    then have big: "10 \<le> unat ?len" by simp
    obtain v sel nw where rd: "READ_16L m (frm + 2) = Some v" "READ_32L m (frm + 4) = Some sel" "READ_16L m (frm + 8) = Some nw"
      using READ_16L_in [of "frm + 2" m] READ_32L_in [of "frm + 4" m] READ_16L_in [of "frm + 8" m] big assms by auto
    obtain c kl where c: "rsn_cipher sel (rsn_mcastkeylen r) = (c, kl)" by fastforce
    let ?n = "unat (ucast nw :: u8)"
    show ?thesis
    proof (cases "int (unat ?len) + 2 - 10 < int ?n * 4 + 2")
      case True
      with len rd c False show ?thesis by (simp add: wifi_mac_parse_own_rsn_def Let_def u8_ge)
    next
      case fit: False
      then have le: "frm + 10 + 4 * ?n \<le> length m" using assms by linarith
      obtain f g h where u: "\<And>r. own_ucast cp st m ?n (frm + 10) r = Some (f r, g r, h r)"
          "\<And>r. f r \<Longrightarrow> g r = frm + 10 + 4 * ?n"
        using own_ucast_in [OF le] by metis
      have "frm + 10 + 4 * ?n + 1 < length m" using fit assms by linarith
      then obtain nw2 where nw2: "READ_16L m (frm + 10 + 4 * ?n) = Some nw2" using READ_16L_in by blast
      let ?k = "unat (ucast nw2 :: u8)"
      let ?rest = "int (unat ?len) + 2 - (int (frm + 10 + 4 * ?n + 2) - int frm)"
      show ?thesis
      proof (cases "?rest < int ?k * 4")
        case True
        with len rd c False fit u nw2 show ?thesis
          by (auto simp: wifi_mac_parse_own_rsn_def Let_def u8_ge simp del: of_nat_add of_nat_mult)
      next
        case fit2: False
        then have "frm + 10 + 4 * ?n + 2 + 4 * ?k \<le> length m" using assms by linarith
        from own_akm_in [OF this] obtain f2 g2 h2 where a:
          "\<And>r. own_akm m ?k (frm + 10 + 4 * ?n + 2) r = Some (f2 r, g2 r, h2 r)" by metis
        have "int frm + int (unat ?len) + 2 \<le> int (length m)" using assms by linarith
        from own_tail_in [OF this] obtain t where t: "\<And>i r. own_tail m frm (int (unat ?len)) i r = Some (t i r)" by metis
        from len rd c False fit u nw2 fit2 a t show ?thesis
          by (auto simp: wifi_mac_parse_own_rsn_def Let_def u8_ge simp del: of_nat_add of_nat_mult)
      qed
    qed
  qed
qed

section \<open>Properties\<close>

text \<open>C16: The parsers stay inside an element that lies in memory with the length it announces: the parser of the own
  RSN element always returns, and the parsers of the WPA element and of a peer's RSN element that is judged return unless
  the element names a pairwise suite the code does not know (which makes it shift by 32).  The calls that judge are those for
  association requests; the scan parses without judging (\<^verbatim>\<open>wifi_mac_scan.c:699\<close>), and \<open>rsn_scan_overread\<close> below
  shows that this call reads past the element.\<close>

theorem rsn_parsers_inside:
  assumes "frm + 2 + unat (m ! (frm + 1)) \<le> length m"
  shows "wifi_mac_parse_own_rsn vm_caps st m frm r \<noteq> None
    \<and> (wifi_mac_parse_wpa m frm own r \<noteq> None \<or> unknown_suite wpa_cipher m (frm + 14) (frm + 2 + unat (m ! (frm + 1))))
    \<and> (wifi_mac_parse_counterpart_rsn m frm True r \<noteq> None
        \<or> unknown_suite rsn_cipher m (frm + 10) (frm + 2 + unat (m ! (frm + 1))))"
  using parse_own_in [OF assms] parse_wpa_in [OF assms] parse_counterpart_in [OF assms] by blast

definition ex_rsn :: rsnparms where
  "ex_rsn = \<lparr>rsn_mcastcipher = 3, rsn_mcastkeylen = 0, rsn_ucastcipherset = 8, rsn_ucastcipher = 3, rsn_ucastkeylen = 0,
     rsn_keymgmtset = 4, rsn_caps = 0, rsn_caps_offset = 0, rsn_pmkid_count = 0, rsn_pmkid_offset = 0,
     rsn_pmkid = replicate 16 0, rsn_gmcipher = 0, sa_valid = 0, gtksa = 0, ptksa = 0\<rparr>"

theorem rsn_parsers_inside_witness:
  "wifi_mac_parse_own_rsn 8 (\<lambda>_. True) [48, 10, 1, 0, 0, 15, 172, 4, 255, 255, 0, 0] 0 ex_rsn \<noteq> None"
  using rsn_parsers_inside [of 0 "[48, 10, 1, 0, 0, 15, 172, 4, 255, 255, 0, 0]" 8 "\<lambda>_. True" ex_rsn False] by simp

text \<open>The announced number of pairwise suites is read whatever the length when nothing is judged.\<close>

lemma rsn_cipher_no_5: "shl1 (fst (rsn_cipher sel kl)) = Some b \<Longrightarrow> \<not> bit b 5"
  by (auto simp: rsn_cipher_def shl1_def cipher_defs bit_simps One_nat_def split: if_splits)

lemma peer_ucast_reads:
  "peer_ucast m n p len w kl = Some x \<Longrightarrow> \<not> bit w 5 \<Longrightarrow> p \<le> length m \<Longrightarrow> p + 4 * n \<le> length m"
proof (induction n arbitrary: p len w kl)
  case 0
  then show ?case by simp
next
  case (Suc n)
  from Suc.prems(1) obtain sel b where sb: "READ_32L m p = Some sel" "shl1 (fst (rsn_cipher sel kl)) = Some b"
    by (auto simp: bind_eq_Some_conv)
  have "\<not> length m \<le> p + 3" using READ_32L_None [of m p] sb(1) by simp
  then have le: "p + 4 \<le> length m" by simp
  have nb: "\<not> bit (w OR b) 5" using Suc.prems(2) rsn_cipher_no_5 [OF sb(2)] by (simp add: bit_or_iff)
  have "w OR b \<noteq> 32"
  proof
    assume "w OR b = 32"
    moreover have "bit (32 :: u32) 5" by (simp add: bit_iff_odd)
    ultimately show False using nb by simp
  qed
  then have "peer_ucast m n (p + 4) (len - 4) (w OR b) (snd (rsn_cipher sel kl)) = Some x"
    using Suc.prems(1) sb by (simp add: Let_def)
  from Suc.IH [OF this nb le] show ?case by simp
qed

text \<open>The scan parses the RSN element of every beacon without judging it, and then a count that does
  not fit is only reported: an element that announces more pairwise suites than the buffer it was copied
  to can hold is read past the end of that buffer, whatever the bytes are.\<close>

theorem rsn_scan_overread:
  assumes "frm + 10 \<le> length m" "10 \<le> unat (m ! (frm + 1))" "READ_16L m (frm + 2) = Some 1"
    and "READ_32L m (frm + 4) = Some sel" "fst (rsn_cipher sel 0) \<noteq> 32"
    and "READ_16L m (frm + 8) = Some n" "length m < frm + 10 + 4 * unat n"
  shows "wifi_mac_parse_counterpart_rsn m frm False r = None"
proof -
  have len: "nth_opt m (frm + 1) = Some (m ! (frm + 1))" using assms(1) by simp
  obtain c kl where c: "rsn_cipher sel (rsn_mcastkeylen r) = (c, kl)" by fastforce
  then have "c \<noteq> 32" using assms(5) rsn_cipher_kl [of sel "rsn_mcastkeylen r"] by simp
  moreover have "peer_ucast m (unat n) (frm + 10) l 0 k = None" for l k
    using peer_ucast_reads [of m "unat n" "frm + 10" l 0 k] assms(1,7) by (cases "peer_ucast m (unat n) (frm + 10) l 0 k") auto
  ultimately show ?thesis
    using len c assms(2,3,4,6) by (simp add: wifi_mac_parse_counterpart_rsn_def Let_def u8_ge)
qed

theorem rsn_scan_overread_witness:
  "wifi_mac_parse_counterpart_rsn ([48, 12, 1, 0, 0, 15, 172, 4, 255, 255] @ replicate 250 0) 0 False ex_rsn = None"
proof -
  let ?m = "[48, 12, 1, 0, 0, 15, 172, 4, 255, 255] @ replicate 250 (0 :: u8)"
  have r: "READ_16L ?m (0 + 2) = Some 1" "READ_32L ?m (0 + 4) = Some (RSN_SEL 4)" "READ_16L ?m (0 + 8) = Some 65535"
    by (simp_all add: READ_16L_def READ_32L_def RSN_SEL_def One_nat_def)
  have "fst (rsn_cipher (RSN_SEL 4) 0) \<noteq> 32" by (simp add: rsn_cipher_def RSN_SEL_def cipher_defs One_nat_def)
  from rsn_scan_overread [OF _ _ r(1,2) this r(3)] show ?thesis by simp
qed

section \<open>Elements written by a peer\<close>

definition rsn_suite :: "u8 \<Rightarrow> u8 list" where
  "rsn_suite x = [0x00, 0x0f, 0xac, x]"

definition rsn_code :: "u8 \<Rightarrow> nat" where
  "rsn_code x = fst (rsn_cipher (RSN_SEL (ucast x)) 0)"

definition rsn_km :: "u8 \<Rightarrow> nat" where
  "rsn_km x = rsn_keymgmt (RSN_SEL (ucast x))"

definition rsn_ie :: "u8 \<Rightarrow> u8 list \<Rightarrow> u8 list \<Rightarrow> u8 \<Rightarrow> u8 \<Rightarrow> u8 list" where
  "rsn_ie g ps as c0 c1 =
     [48, of_nat (12 + 4 * (length ps + length as)), 1, 0] @ rsn_suite g
     @ [of_nat (length ps), 0] @ concat (map rsn_suite ps) @ [of_nat (length as), 0] @ concat (map rsn_suite as) @ [c0, c1]"

fun suite_set :: "(u8 \<Rightarrow> nat) \<Rightarrow> u8 list \<Rightarrow> u32" where
  "suite_set f [] = 0"
| "suite_set f (x # xs) = push_bit (f x) 1 OR suite_set f xs"

lemma bit_suite_set: "c < 32 \<Longrightarrow> bit (suite_set f xs) c \<longleftrightarrow> (\<exists>x \<in> set xs. f x = c)"
  by (induction xs) (auto simp: bit_simps)

lemma nth_drop_eq: "drop p m = ys \<Longrightarrow> i < length ys \<Longrightarrow> p + i < length m \<and> m ! (p + i) = ys ! i"
  by (metis add.commute length_drop less_diff_conv nth_drop trans_less_add1 linorder_not_less drop_all list.size(3) less_nat_zero_code nat_less_le)

lemma READ_16L_drop:
  assumes "drop p m = a # b # xs"
  shows "READ_16L m p = Some (ucast a OR push_bit 8 (ucast b))"
  using nth_drop_eq [OF assms, of 0] nth_drop_eq [OF assms, of 1] by (simp add: READ_16L_def)

lemma READ_32L_drop:
  assumes "drop p m = a # b # c # d # xs"
  shows "READ_32L m p = Some (ucast a OR push_bit 8 (ucast b) OR push_bit 16 (ucast c) OR push_bit 24 (ucast d))"
  using nth_drop_eq [OF assms, of 0] nth_drop_eq [OF assms, of 1] nth_drop_eq [OF assms, of 2] nth_drop_eq [OF assms, of 3]
  by (simp add: READ_32L_def)

lemma READ_suite: "drop p m = rsn_suite x @ xs \<Longrightarrow> READ_32L m p = Some (RSN_SEL (ucast x))"
  using READ_32L_drop [of p m 0 15 172 x xs] by (simp add: rsn_suite_def RSN_SEL_def or.commute or.left_commute or.assoc One_nat_def)

lemma READ_count: "drop p m = [of_nat n, 0] @ xs \<Longrightarrow> n < 256 \<Longrightarrow> \<exists>w. READ_16L m p = Some w \<and> unat w = n"
  using READ_16L_drop [of p m "of_nat n" 0 xs] by (simp add: unat_ucast_up unat_of_nat take_bit_nat_eq_self_iff)

lemma drop_append_eq: "drop p m = xs @ ys \<Longrightarrow> drop (p + length xs) m = ys"
  by (metis add.commute append_eq_conv_conj drop_drop)

lemma drop_suite: "drop p m = rsn_suite x @ ys \<Longrightarrow> drop (p + 4) m = ys"
proof -
  assume d: "drop p m = rsn_suite x @ ys"
  have "length (rsn_suite x) = 4" by (simp add: rsn_suite_def)
  with drop_append_eq [OF d] show ?thesis by simp
qed

lemma length_suites [simp]: "length (concat (map rsn_suite xs)) = 4 * length xs"
  by (induction xs) (simp_all add: rsn_suite_def)

lemma rsn_code_cases: "rsn_code x \<in> {0, 1, 2, 3, 6, 8, 9, 32}"
  by (simp add: rsn_code_def rsn_cipher_def cipher_defs)

lemma peer_ucast_enc:
  "drop p m = concat (map rsn_suite xs) @ ys \<Longrightarrow> \<forall>x \<in> set xs. rsn_code x \<noteq> 32 \<Longrightarrow> \<not> bit w 5 \<Longrightarrow>
   \<exists>kl'. peer_ucast m (length xs) p len w kl
     = Some (True, p + 4 * length xs, len - of_nat (4 * length xs), w OR suite_set rsn_code xs, kl')"
proof (induction xs arbitrary: p len w kl)
  case Nil
  then show ?case by simp
next
  case (Cons x xs)
  have d: "drop p m = rsn_suite x @ (concat (map rsn_suite xs) @ ys)" using Cons.prems(1) by simp
  note rd = READ_suite [OF d]
  have cx: "fst (rsn_cipher (RSN_SEL (ucast x)) kl) = rsn_code x" using rsn_cipher_kl by (simp add: rsn_code_def)
  have c: "rsn_code x < 32" using rsn_code_cases [of x] Cons.prems(2) by auto
  let ?b = "push_bit (rsn_code x) 1 :: u32"
  have b: "shl1 (rsn_code x) = Some ?b" using c by (simp add: shl1_def)
  have n5: "\<not> bit (w OR ?b) 5" using Cons.prems(3) rsn_code_cases [of x] by (auto simp: bit_simps)
  have "w OR ?b \<noteq> 32"
  proof
    assume "w OR ?b = 32"
    moreover have "bit (32 :: u32) 5" by (simp add: bit_iff_odd)
    ultimately show False using n5 by simp
  qed
  with Cons.IH [OF drop_suite [OF d] _ n5, of "len - 4" "snd (rsn_cipher (RSN_SEL (ucast x)) kl)"] Cons.prems(2) rd b cx
  show ?case by (auto simp: Let_def algebra_simps or.assoc)
qed

lemma peer_akm_enc:
  "drop p m = concat (map rsn_suite xs) @ ys \<Longrightarrow> \<forall>x \<in> set xs. rsn_km x \<noteq> 0 \<Longrightarrow>
   peer_akm m (length xs) p len w
     = Some (True, p + 4 * length xs, len - of_nat (4 * length xs), w OR suite_set rsn_km xs)"
proof (induction xs arbitrary: p len w)
  case Nil
  then show ?case by simp
next
  case (Cons x xs)
  have d: "drop p m = rsn_suite x @ (concat (map rsn_suite xs) @ ys)" using Cons.prems(1) by simp
  note rd = READ_suite [OF d]
  have k: "0 < rsn_km x" "rsn_km x < 32" using Cons.prems(2) by (auto simp: rsn_km_def rsn_keymgmt_def split: if_splits)
  let ?b = "push_bit (rsn_km x) 1 :: u32"
  have b: "shl1 (rsn_keymgmt (RSN_SEL (ucast x))) = Some ?b" using k by (simp add: shl1_def rsn_km_def)
  have "w OR ?b \<noteq> 1"
  proof
    assume "w OR ?b = 1"
    moreover have "bit (w OR ?b) (rsn_km x)" using k by (simp add: bit_simps)
    ultimately show False using k by (simp add: bit_1_iff)
  qed
  with Cons.IH [OF drop_suite [OF d], of "len - 4" "w OR ?b"] Cons.prems(2) rd b
  show ?case by (auto simp: Let_def algebra_simps or.assoc)
qed

text \<open>Which bits the masked sets have in common.\<close>

lemma and_zero_iff: "(x AND y = 0) \<longleftrightarrow> (\<forall>c. bit x c \<longrightarrow> \<not> bit y c)" for x y :: "'a::len word"
proof
  assume "x AND y = 0"
  then show "\<forall>c. bit x c \<longrightarrow> \<not> bit y c" by (metis bit_and_iff bit_0_eq bot_apply bot_bool_def)
next
  assume "\<forall>c. bit x c \<longrightarrow> \<not> bit y c"
  then show "x AND y = 0" by (intro bit_eqI) (simp add: bit_and_iff)
qed

lemma suite_set_common:
  fixes s :: "'a::len word"
  assumes "LENGTH('a) \<le> 32"
  shows "suite_set f xs AND ucast s = 0 \<longleftrightarrow> (\<forall>x \<in> set xs. \<not> bit s (f x))"
proof -
  have "bit (ucast s :: u32) c \<longleftrightarrow> bit s c" for c
    using assms bit_imp_le_length [of s c] by (auto simp: bit_ucast_iff)
  moreover have lt: "c < 32" if "bit s c" for c using bit_imp_le_length [OF that] assms by simp
  ultimately have "(suite_set f xs AND ucast s = 0) = (\<forall>c. bit (suite_set f xs) c \<longrightarrow> \<not> bit s c)"
    unfolding and_zero_iff by simp
  also have "\<dots> = (\<forall>c. bit s c \<longrightarrow> \<not> bit (suite_set f xs) c)" by blast
  also have "\<dots> = (\<forall>c. bit s c \<longrightarrow> \<not> (\<exists>x \<in> set xs. f x = c))" using lt bit_suite_set [of _ f xs] by simp
  also have "\<dots> = (\<forall>x \<in> set xs. \<not> bit s (f x))" by blast
  finally show ?thesis .
qed

lemma drop_one: "drop p m = x # ys \<Longrightarrow> drop (p + 1) m = ys"
  using drop_append_eq [of p m "[x]" ys] by (simp add: One_nat_def)

lemma drop_two: "drop p m = x # y # ys \<Longrightarrow> drop (p + 2) m = ys"
  using drop_append_eq [of p m "[x, y]" ys] by (simp add: numeral_2_eq_2)

lemma peer_tail_caps:
  "READ_16L m p = Some c \<Longrightarrow> peer_tail m j po p 2 r
     = Some (0, r\<lparr>rsn_caps := c, rsn_caps_offset := po, rsn_pmkid_count := 0, rsn_pmkid_offset := 0, rsn_gmcipher := 0\<rparr>)"
  by (simp add: peer_tail_def Let_def)

text \<open>C17: Judging the element of a peer: for an element with one group suite, pairwise suites, key
  management suites (all known) and capabilities, the parser accepts exactly when the group suite is the
  own one, some pairwise suite is in the own set and some key management suite is in the own set; it then
  stores the capabilities and clears the PMKID count and the group management suite.\<close>

theorem rsn_judge_correct:
  assumes m: "drop frm m = rsn_ie g ps as c0 c1 @ rest"
    and g: "rsn_code g \<noteq> 32" and ps: "ps \<noteq> []" "\<forall>x \<in> set ps. rsn_code x \<noteq> 32"
    and as: "as \<noteq> []" "\<forall>x \<in> set as. rsn_km x \<noteq> 0" and fit: "12 + 4 * (length ps + length as) < 256"
  shows "\<exists>r'. wifi_mac_parse_counterpart_rsn m frm True r = Some
      (if unat (rsn_mcastcipher r) = rsn_code g \<and> (\<exists>x \<in> set ps. bit (rsn_ucastcipherset r) (rsn_code x))
          \<and> (\<exists>x \<in> set as. bit (rsn_keymgmtset r) (rsn_km x))
       then 0 else WIFINET_REASON_IE_INVALID, r')
    \<and> (unat (rsn_mcastcipher r) = rsn_code g \<and> (\<exists>x \<in> set ps. bit (rsn_ucastcipherset r) (rsn_code x))
          \<and> (\<exists>x \<in> set as. bit (rsn_keymgmtset r) (rsn_km x)) \<longrightarrow>
       rsn_caps r' = ucast c0 OR push_bit 8 (ucast c1) \<and> rsn_pmkid_count r' = 0 \<and> rsn_gmcipher r' = 0)"
proof -
  let ?np = "length ps" and ?na = "length as"
  define N where "N = 12 + 4 * (?np + ?na)"
  let ?t2 = "[of_nat ?na, 0] @ concat (map rsn_suite as) @ [c0, c1] @ rest"
  let ?t1 = "[of_nat ?np, 0] @ concat (map rsn_suite ps) @ ?t2"
  have pos: "frm + 4 = frm + 2 + 2" "frm + 8 = frm + 4 + 4" "frm + 10 = frm + 8 + 2" by simp_all
  have d0: "drop frm m = 48 # of_nat N # 1 # 0 # rsn_suite g @ ?t1" using m by (simp add: rsn_ie_def N_def)
  have d1: "drop (frm + 1) m = of_nat N # 1 # 0 # rsn_suite g @ ?t1" using drop_one [OF d0] .
  have d2: "drop (frm + 2) m = 1 # 0 # rsn_suite g @ ?t1" using drop_two [OF d0] .
  have d4: "drop (frm + 4) m = rsn_suite g @ ?t1" unfolding pos(1) by (rule drop_two [OF d2])
  have d8: "drop (frm + 8) m = ?t1" unfolding pos(2) by (rule drop_suite [OF d4])
  have d10: "drop (frm + 10) m = concat (map rsn_suite ps) @ ?t2"
    unfolding pos(3) by (rule drop_two [of _ _ "of_nat ?np" 0]) (simp add: d8)
  have dk: "drop (frm + 10 + 4 * ?np) m = ?t2" using drop_append_eq [OF d10] by simp
  have dk2: "drop (frm + 10 + 4 * ?np + 2) m = concat (map rsn_suite as) @ ([c0, c1] @ rest)"
    by (rule drop_two [of _ _ "of_nat ?na" 0]) (simp add: dk)
  have de: "drop (frm + 10 + 4 * ?np + 2 + 4 * ?na) m = [c0, c1] @ rest" using drop_append_eq [OF dk2] by simp
  have L: "nth_opt m (frm + 1) = Some (of_nat N)" "unat (of_nat N :: u8) = N"
    using nth_drop_eq [OF d1, of 0] fit by (simp_all add: unat_of_nat take_bit_nat_eq_self_iff N_def del: of_nat_add of_nat_mult)
  have v: "READ_16L m (frm + 2) = Some 1" using READ_16L_drop [of "frm + 2" m 1 0] d2 by simp
  have sel: "READ_32L m (frm + 4) = Some (RSN_SEL (ucast g))" using READ_suite [OF d4] .
  obtain np na where np: "READ_16L m (frm + 8) = Some np" "unat np = ?np"
      and na: "READ_16L m (frm + 10 + 4 * ?np) = Some na" "unat na = ?na"
    using READ_count [of "frm + 8" m ?np] READ_count [of "frm + 10 + 4 * ?np" m ?na] d8 dk fit by auto
  have caps: "READ_16L m (frm + 10 + 4 * ?np + 2 + 4 * ?na) = Some (ucast c0 OR push_bit 8 (ucast c1))"
    using READ_16L_drop [of _ m c0 c1 rest] de by simp
  obtain mc kl where mc: "rsn_cipher (RSN_SEL (ucast g)) (rsn_mcastkeylen r) = (mc, kl)" by fastforce
  then have mcg: "mc = rsn_code g" using rsn_cipher_kl [of "RSN_SEL (ucast g)" "rsn_mcastkeylen r"] by (simp add: rsn_code_def)
  let ?l = "of_nat N - 2 - 4 - 2 :: u8"
  have l8: "unat ?l = 4 + 4 * ?np + 4 * ?na" using u8_minus_num(3) [of "of_nat N"] L(2) by (simp add: N_def del: of_nat_add of_nat_mult)
  obtain kl' where u: "peer_ucast m ?np (frm + 10) ?l 0 (rsn_ucastkeylen r)
      = Some (True, frm + 10 + 4 * ?np, ?l - of_nat (4 * ?np), suite_set rsn_code ps, kl')"
    using peer_ucast_enc [OF d10 ps(2), of 0 ?l "rsn_ucastkeylen r"] by auto
  let ?l2 = "?l - of_nat (4 * ?np) - 2 :: u8"
  have l1: "unat (?l - of_nat (4 * ?np)) = 4 + 4 * ?na" using u8_minus_4n [of ?np ?l] l8 by simp
  then have l2: "unat ?l2 = 2 + 4 * ?na" using u8_minus_num(1) [of "?l - of_nat (4 * ?np)"] by simp
  have a: "peer_akm m ?na (frm + 10 + 4 * ?np + 2) ?l2 0
      = Some (True, frm + 10 + 4 * ?np + 2 + 4 * ?na, ?l2 - of_nat (4 * ?na), suite_set rsn_km as)"
    using peer_akm_enc [OF dk2 as(2), of ?l2 0] by simp
  have "unat (?l2 - of_nat (4 * ?na)) = 2" using u8_minus_4n [of ?na ?l2] l2 by simp
  then have l3: "?l2 - of_nat (4 * ?na) = 2" by (simp add: word_unat_eq_iff)
  have guards: "(of_nat N :: u8) < 10 \<longleftrightarrow> False" "?np = 0 \<or> unat ?l < ?np * 4 + 2 \<longleftrightarrow> False"
      "?na = 0 \<or> unat ?l2 < ?na * 4 \<longleftrightarrow> False"
    using L(2) l8 l2 ps(1) as(1) by (auto simp: u8_ge N_def simp del: of_nat_mult of_nat_add)
  note common = suite_set_common [where s = "rsn_ucastcipherset r" and f = rsn_code and xs = ps]
    suite_set_common [where s = "rsn_keymgmtset r" and f = rsn_km and xs = as]
  note t = peer_tail_caps [OF caps, of True]
  define r1 where "r1 = r\<lparr>rsn_mcastkeylen := kl\<rparr>"
  define r2 where "r2 = r1\<lparr>rsn_ucastkeylen := kl'\<rparr>"
  have r12: "rsn_mcastcipher r1 = rsn_mcastcipher r" "rsn_ucastkeylen r1 = rsn_ucastkeylen r"
    "rsn_ucastcipherset r2 = rsn_ucastcipherset r" "rsn_keymgmtset r2 = rsn_keymgmtset r"
    by (simp_all add: r1_def r2_def)
  have "wifi_mac_parse_counterpart_rsn m frm True r =
    (if rsn_code g \<noteq> unat (rsn_mcastcipher r) then Some (WIFINET_REASON_IE_INVALID, r1)
     else if suite_set rsn_code ps AND ucast (rsn_ucastcipherset r) = 0 then Some (WIFINET_REASON_IE_INVALID, r2)
     else if suite_set rsn_km as AND ucast (rsn_keymgmtset r) = 0 then Some (WIFINET_REASON_IE_INVALID, r2)
     else peer_tail m True (of_nat N) (frm + 10 + 4 * ?np + 2 + 4 * ?na) 2 r2)"
    by (simp only: wifi_mac_parse_counterpart_rsn_def Let_def L(1) v sel mc mcg np na u a l3 g guards r12
        Option.bind.simps prod.case simp_thms if_False if_True r1_def [symmetric] r2_def [symmetric] not_True_eq_False)
  with common t show ?thesis by auto
qed

theorem rsn_judge_correct_witness:
  "\<exists>r'. wifi_mac_parse_counterpart_rsn (rsn_ie 4 [2, 4] [2] 0 0) 0 True ex_rsn = Some (0, r')"
proof -
  have c: "rsn_code 4 = 3" "rsn_code 2 = 1" "rsn_km 2 = 2"
    by (simp_all add: rsn_code_def rsn_km_def rsn_cipher_def rsn_keymgmt_def RSN_SEL_def cipher_defs One_nat_def)
  have b: "bit (8 :: u8) 3" "bit (4 :: u16) 2" by (simp_all add: bit_iff_odd)
  show ?thesis
    using rsn_judge_correct [of 0 "rsn_ie 4 [2, 4] [2] 0 0" 4 "[2, 4]" "[2]" 0 0 "[]" ex_rsn] c b
    by (auto simp: ex_rsn_def)
qed

end
