(* ===== verification/Replay.thy ===== *)
theory Replay
  imports Prelude
begin

text \<open>
  Packet numbers: the transmit counters that make the nonces of encrypted frames
  (\<^verbatim>\<open>assign_tx_desc_pn\<close> of \<^verbatim>\<open>wifi_hal_txdesc.c\<close>), the receive counters and the reorder window of the
  replay check (\<^verbatim>\<open>hal_chk_replay_cnt\<close> and its helpers in \<^verbatim>\<open>wifi_hal.c\<close>) and their reset when a key is
  installed. A 16 byte packet number is a pair of little-endian 64 bit words, the low one first: the
  code reads it through such pointers. The callback that finds the station of a frame is an argument
  here; its implementation is modelled with the keys.
\<close>

section \<open>Data\<close>

type_synonym pn = "u64 \<times> u64"
type_synonym pnwin = "u64 \<times> u64"

definition MAX_PN_WINDOW :: nat where "MAX_PN_WINDOW = 62"
definition WIFI_MAX_VID :: nat where "WIFI_MAX_VID = 2"
definition WIFI_MAX_STA :: nat where "WIFI_MAX_STA = 16"
definition MAX_TX_QUEUE :: nat where "MAX_TX_QUEUE = 1"
definition MAX_RX_QUEUE :: nat where "MAX_RX_QUEUE = 4"

definition WIFI_NO_WEP :: u8 where "WIFI_NO_WEP = 0"
definition WIFI_WEP64 :: u8 where "WIFI_WEP64 = 1"
definition WIFI_TKIP :: u8 where "WIFI_TKIP = 2"
definition WIFI_AES :: u8 where "WIFI_AES = 4"
definition WIFI_WEP128 :: u8 where "WIFI_WEP128 = 5"
definition WIFI_WEP256 :: u8 where "WIFI_WEP256 = 6"
definition WIFI_WPI :: u8 where "WIFI_WPI = 7"

definition RX_PHY_TKIP :: u8 where "RX_PHY_TKIP = 2"
definition RX_PHY_WAPI :: u8 where "RX_PHY_WAPI = 3"
definition RX_PHY_CCMP :: u8 where "RX_PHY_CCMP = 4"

definition MODE_STA :: u8 where "MODE_STA = 1"

datatype aml_key_type = AML_UCAST_TYPE | AML_MCAST_TYPE

record unicastReplayCnt =
  u_txPN :: "pn list"
  u_rxPN :: "pn list"

record multicastReplayCnt =
  m_txPN :: pn
  m_rxPN :: pn

text \<open>\<open>ucast_win\<close> and \<open>mcast_win\<close> are \<^verbatim>\<open>pn_window[0]\<close> and \<^verbatim>\<open>pn_window[1]\<close> of an interface.\<close>

record pn_windows =
  ucast_win :: pnwin
  mcast_win :: pnwin

record pn_hal =
  uRepCnt :: "unicastReplayCnt list list"
  mRepCnt :: "multicastReplayCnt list"
  drv_wnet_vif_table :: "pn_windows option list"
  dot11CamMode :: u8

record rx_desc =
  RxDecryptType :: u8
  rx_PN :: pn
  bssidmatch_id :: nat
  RxA1match_id :: nat
  rx_data :: "u8 list"

definition get_win :: "aml_key_type \<Rightarrow> pn_windows \<Rightarrow> pnwin" where
  "get_win t v = (case t of AML_UCAST_TYPE \<Rightarrow> ucast_win v | AML_MCAST_TYPE \<Rightarrow> mcast_win v)"

definition set_win :: "aml_key_type \<Rightarrow> pnwin \<Rightarrow> pn_windows \<Rightarrow> pn_windows" where
  "set_win t w v = (case t of AML_UCAST_TYPE \<Rightarrow> v\<lparr>ucast_win := w\<rparr> | AML_MCAST_TYPE \<Rightarrow> v\<lparr>mcast_win := w\<rparr>)"

lemma get_set_win [simp]: "get_win t (set_win t' w v) = (if t = t' then w else get_win t v)"
  by (cases t; cases t') (simp_all add: get_win_def set_win_def)

section \<open>The reorder window\<close>

text \<open>The loop that counts the low one bits; \<open>offset\<close> stays far below 256.\<close>

function count_ones :: "u64 \<Rightarrow> nat \<Rightarrow> nat" where
  "count_ones win offset =
     (if 0 < win \<and> win AND 1 \<noteq> 0 then count_ones (drop_bit 1 win) (offset + 1) else offset)"
  by pat_completeness auto
termination
proof (relation "measure (\<lambda>(w, _). unat w)")
  fix win :: u64 and offset :: nat
  assume a: "0 < win \<and> win AND 1 \<noteq> 0"
  then have pos: "0 < unat win" by (simp add: word_gt_0 unat_gt_0)
  have "unat (drop_bit 1 win) = unat win div 2"
    apply (subst unat_drop_bit_eq) apply (subst drop_bit_eq_div) by simp
  then have "unat (drop_bit 1 win) < unat win" using pos by linarith
  then show "((drop_bit 1 win, offset + 1), win, offset) \<in> measure (\<lambda>(w, _). unat w)"
    by (simp only: in_measure prod.case)
qed simp

declare count_ones.simps [simp del]

fun scan_windows :: "u64 list \<Rightarrow> nat \<Rightarrow> nat" where
  "scan_windows [] offset = offset"
| "scan_windows (w # ws) offset =
     (let offset = count_ones w offset in
      if offset < MAX_PN_WINDOW div 2 then offset else scan_windows ws offset)"

definition hal_set_pn_win :: "pnwin \<Rightarrow> nat \<times> pnwin" where
  "hal_set_pn_win w =
     (let offset = scan_windows [fst w, snd w] 0;
          offset = (if offset = 0 then 1 else offset) in
      (offset,
       if 0 < offset \<and> offset < MAX_PN_WINDOW div 2 then
         let p0 = drop_bit offset (fst w);
             tmp = snd w AND (push_bit offset 1 - 1) in
         (p0 OR push_bit (MAX_PN_WINDOW div 2 - offset) tmp, drop_bit offset (snd w))
       else if MAX_PN_WINDOW div 2 \<le> offset \<and> offset < MAX_PN_WINDOW then
         (drop_bit (offset - MAX_PN_WINDOW div 2) (snd w), 0)
       else (0, 0)))"

definition hal_check_dup_pn :: "pnwin \<Rightarrow> u32 \<Rightarrow> u64" where
  "hal_check_dup_pn w d =
     (if 0 < unat d \<and> unat d \<le> MAX_PN_WINDOW div 2 then fst w AND push_bit (unat d - 1) 1
      else if MAX_PN_WINDOW div 2 < unat d \<and> unat d \<le> MAX_PN_WINDOW
      then snd w AND push_bit (unat d - MAX_PN_WINDOW div 2 - 1) 1
      else 0)"

text \<open>The part of the check for TKIP and CCMP frames whose number is above the counter.\<close>

definition record_pn :: "u64 \<Rightarrow> pnwin \<Rightarrow> u32 \<Rightarrow> u64 \<times> pnwin" where
  "record_pn my w d =
     (if 0 < unat d \<and> unat d \<le> MAX_PN_WINDOW div 2 then
        let w = (fst w OR push_bit (unat d - 1) 1, snd w) in
        if d = 1 then let (offset, w) = hal_set_pn_win w in (my + of_nat offset, w) else (my, w)
      else if MAX_PN_WINDOW div 2 < unat d \<and> unat d \<le> MAX_PN_WINDOW
      then (my, (fst w, snd w OR push_bit (unat d - MAX_PN_WINDOW div 2 - 1) 1))
      else (my, w))"

definition accept_pn :: "pn \<Rightarrow> pnwin \<Rightarrow> pn \<Rightarrow> bool \<times> pn \<times> pnwin" where
  "accept_pn PN w rx =
     (let my = (if fst PN = 0 \<and> 0 < fst rx then fst rx - 1 else fst PN) in
      if my = fst rx - 1 \<and> fst w = 0 \<and> snd w = 0 then (True, rx, w)
      else
        let d = ucast (fst rx - my) :: u32 in
        if hal_check_dup_pn w d \<noteq> 0 then (False, (my, snd PN), w)
        else
          let (my, w, d) =
                (if unat d > MAX_PN_WINDOW then
                   let (offset, w) = hal_set_pn_win w; my = my + of_nat offset in
                   (my, w, ucast (fst rx - my))
                 else (my, w, d));
              (my, w) = record_pn my w d in
          (True, (my, snd PN), w))"

text \<open>The bytes of a packet number, the least significant first.\<close>

definition pn_byte :: "pn \<Rightarrow> nat \<Rightarrow> u8" where
  "pn_byte p i = ucast (drop_bit (8 * (i mod 8)) (if i < 8 then fst p else snd p))"

fun wpi_chk_from :: "nat \<Rightarrow> pn \<Rightarrow> pn \<Rightarrow> bool" where
  "wpi_chk_from 0 RcvPN SavedPn = False"
| "wpi_chk_from (Suc i) RcvPN SavedPn =
     (if pn_byte RcvPN i > pn_byte SavedPn i then True
      else if pn_byte RcvPN i < pn_byte SavedPn i then False
      else wpi_chk_from i RcvPN SavedPn)"

definition hal_wpi_chk_pn_increase :: "pn \<Rightarrow> pn \<Rightarrow> bool" where
  "hal_wpi_chk_pn_increase RcvPN SavedPn = wpi_chk_from 16 RcvPN SavedPn"

text \<open>
  \<open>hal_chk_replay_cnt\<close>: the counter and the window the frame is checked against, the check, and the
  memory it leaves. \<open>None\<close>: an index outside the tables, or an interface that is not there.
\<close>

definition chk_counter ::
    "pn \<Rightarrow> pn_windows option \<Rightarrow> aml_key_type \<Rightarrow> rx_desc \<Rightarrow> (bool \<times> pn \<times> pn_windows option) option" where
  "chk_counter PN vif t d =
     (if RxDecryptType d = RX_PHY_TKIP \<or> RxDecryptType d = RX_PHY_CCMP then
        if fst PN < fst (rx_PN d) then
          (case vif of
             None \<Rightarrow> None
           | Some v \<Rightarrow>
               (case accept_pn PN (get_win t v) (rx_PN d) of
                  (ok, PN, w) \<Rightarrow> Some (ok, PN, Some (set_win t w v))))
        else Some (False, PN, vif)
      else if RxDecryptType d = RX_PHY_WAPI then
        (if hal_wpi_chk_pn_increase (rx_PN d) PN then Some (True, rx_PN d, vif) else Some (False, PN, vif))
      else Some (True, PN, vif))"

definition hal_chk_replay_cnt ::
    "(macaddr \<Rightarrow> nat \<Rightarrow> nat option) option \<Rightarrow> 'a pn_hal_scheme \<Rightarrow> rx_desc \<Rightarrow> (bool \<times> 'a pn_hal_scheme) option" where
  "hal_chk_replay_cnt get_stationid h d =
     (if length (rx_data d) < 16 then None
      else if (rx_data d ! 4) AND 1 \<noteq> 0 then
        let vid = bssidmatch_id d in
        (case (nth_opt (mRepCnt h) vid, nth_opt (drv_wnet_vif_table h) vid) of
           (Some r, Some v) \<Rightarrow>
             (case chk_counter (m_rxPN r) v AML_MCAST_TYPE d of
                None \<Rightarrow> None
              | Some (ok, PN, v) \<Rightarrow>
                  Some (ok, h\<lparr>mRepCnt := (mRepCnt h)[vid := r\<lparr>m_rxPN := PN\<rparr>],
                             drv_wnet_vif_table := (drv_wnet_vif_table h)[vid := v]\<rparr>))
         | _ \<Rightarrow> None)
      else
        (case get_stationid of
           None \<Rightarrow> Some (True, h)
         | Some f \<Rightarrow>
             let vid = RxA1match_id d in
             (case f (take 6 (drop 10 (rx_data d))) vid of
                None \<Rightarrow> Some (False, h)
              | Some staid \<Rightarrow>
                  (case (nth_opt (drv_wnet_vif_table h) vid, nth_opt (uRepCnt h) vid) of
                     (Some v, Some us) \<Rightarrow>
                       (case nth_opt us staid of
                          None \<Rightarrow> None
                        | Some r \<Rightarrow>
                            (case nth_opt (u_rxPN r) 0 of
                               None \<Rightarrow> None
                             | Some PN \<Rightarrow>
                                 (case chk_counter PN v AML_UCAST_TYPE d of
                                    None \<Rightarrow> None
                                  | Some (ok, PN, v) \<Rightarrow>
                                      Some (ok, h\<lparr>uRepCnt := (uRepCnt h)
                                                     [vid := us[staid := r\<lparr>u_rxPN := (u_rxPN r)[0 := PN]\<rparr>]],
                                                 drv_wnet_vif_table := (drv_wnet_vif_table h)[vid := v]\<rparr>))))
                   | _ \<Rightarrow> None))))"

section \<open>Transmit counters and their reset\<close>

definition hal_wpi_pn_self_plus :: "pn \<Rightarrow> pn" where
  "hal_wpi_pn_self_plus p =
     (if fst p = 0xFFFFFFFFFFFFFFFF then (0, snd p + 1) else (fst p + 1, snd p))"

definition hal_wpi_pn_self_plus_plus :: "pn \<Rightarrow> pn" where
  "hal_wpi_pn_self_plus_plus p =
     (if fst p = 0xFFFFFFFFFFFFFFFF then (1, snd p + 1)
      else if fst p = 0xFFFFFFFFFFFFFFFE then (0, snd p + 1)
      else (fst p + 2, snd p))"

text \<open>The number written to the descriptor (the upper half of its field keeps the old bytes for TKIP
  and AES) and the counter left for the next frame.\<close>

definition next_tx_pn :: "bool \<Rightarrow> u8 \<Rightarrow> pn \<Rightarrow> pn \<Rightarrow> pn \<times> pn" where
  "next_tx_pn is_bc encrypt_type PN old =
     (if encrypt_type = WIFI_TKIP then ((fst PN, snd old), (fst PN + 1, snd PN))
      else if encrypt_type = WIFI_AES then ((fst PN, snd old), (fst PN + 1, snd PN))
      else if encrypt_type = WIFI_WPI then
        (PN, if is_bc then hal_wpi_pn_self_plus PN else hal_wpi_pn_self_plus_plus PN)
      else (old, PN))"

definition assign_tx_desc_pn :: "bool \<Rightarrow> nat \<Rightarrow> nat \<Rightarrow> pn \<Rightarrow> u8 \<Rightarrow> 'a pn_hal_scheme \<Rightarrow> (pn \<times> 'a pn_hal_scheme) option" where
  "assign_tx_desc_pn is_bc vid sta_id old encrypt_type h =
     (if encrypt_type = WIFI_NO_WEP then Some (old, h)
      else if is_bc then
        (case nth_opt (mRepCnt h) vid of
           None \<Rightarrow> None
         | Some r \<Rightarrow>
             (case next_tx_pn is_bc encrypt_type (m_txPN r) old of
                (p, PN) \<Rightarrow> Some (p, h\<lparr>mRepCnt := (mRepCnt h)[vid := r\<lparr>m_txPN := PN\<rparr>]\<rparr>)))
      else
        (case nth_opt (uRepCnt h) vid of
           None \<Rightarrow> None
         | Some us \<Rightarrow>
             (case nth_opt us sta_id of
                None \<Rightarrow> None
              | Some r \<Rightarrow>
                  (case nth_opt (u_txPN r) 0 of
                     None \<Rightarrow> None
                   | Some PN \<Rightarrow>
                       (case next_tx_pn is_bc encrypt_type PN old of
                          (p, PN) \<Rightarrow>
                            Some (p, h\<lparr>uRepCnt := (uRepCnt h)
                                          [vid := us[sta_id := r\<lparr>u_txPN := (u_txPN r)[0 := PN]\<rparr>]]\<rparr>))))))"

text \<open>\<open>AP_upn\<close> (0x37, 0x5c, 0x36, 0x5c, ...) and \<open>STA_upn\<close>, \<open>gpn\<close> (0x36, 0x5c, 0x36, ...).\<close>

definition AP_upn :: pn where "AP_upn = (0x5c365c365c365c37, 0x5c365c365c365c36)"
definition STA_upn :: pn where "STA_upn = (0x5c365c365c365c36, 0x5c365c365c365c36)"

definition hal_urep_cnt_init :: "u8 \<Rightarrow> u8 \<Rightarrow> unicastReplayCnt \<Rightarrow> unicastReplayCnt" where
  "hal_urep_cnt_init cam encryType r =
     (let r = (if encryType = WIFI_WPI
               then r\<lparr>u_txPN := (u_txPN r)[0 := if cam = MODE_STA then STA_upn else AP_upn]\<rparr>
               else r\<lparr>u_txPN := replicate MAX_TX_QUEUE (1, 0)\<rparr>) in
      r\<lparr>u_rxPN := replicate MAX_RX_QUEUE (0, 0)\<rparr>)"

definition hal_mrep_cnt_init :: "u8 \<Rightarrow> multicastReplayCnt \<Rightarrow> multicastReplayCnt" where
  "hal_mrep_cnt_init encryType r =
     r\<lparr>m_txPN := if encryType = WIFI_WPI then STA_upn else (1, 0), m_rxPN := (0, 0)\<rparr>"

definition hal_pn_win_init :: "aml_key_type \<Rightarrow> nat \<Rightarrow> 'a pn_hal_scheme \<Rightarrow> 'a pn_hal_scheme option" where
  "hal_pn_win_init t vid h =
     (case nth_opt (drv_wnet_vif_table h) vid of
        Some (Some v) \<Rightarrow>
          Some (h\<lparr>drv_wnet_vif_table := (drv_wnet_vif_table h)[vid := Some (set_win t (0, 0) v)]\<rparr>)
      | _ \<Rightarrow> None)"

section \<open>The window as a set of packet numbers\<close>

text \<open>\<open>wbit w i\<close>: the frame with number counter + 1 + i was accepted.\<close>

definition wbit :: "pnwin \<Rightarrow> nat \<Rightarrow> bool" where
  "wbit w i = (if i < 31 then bit (fst w) i else bit (snd w) (i - 31))"

definition win_ok :: "pnwin \<Rightarrow> bool" where
  "win_ok w \<longleftrightarrow> (\<forall>i. bit (fst w) i \<or> bit (snd w) i \<longrightarrow> i < 31)"

lemma wbit_less: "win_ok w \<Longrightarrow> wbit w i \<Longrightarrow> i < 62"
  by (auto simp: win_ok_def wbit_def split: if_splits)

lemma win_ok_zero: "win_ok (0, 0)"
  by (simp add: win_ok_def)


lemma and_one_bit: "(w :: u64) AND 1 \<noteq> 0 \<longleftrightarrow> bit w 0"
  by (simp only: and_one_eq bit_0 odd_iff_mod_2_eq_one not_mod_2_eq_0_eq_1)


lemma count_ones_step:
  "count_ones w offset = (if bit w 0 then count_ones (drop_bit 1 w) (offset + 1) else offset)"
proof (cases "w = 0")
  case True
  then show ?thesis by (subst count_ones.simps) simp
next
  case False
  then have "0 < w" by (simp add: word_gt_0)
  then show ?thesis by (subst count_ones.simps) (simp only: and_one_bit simp_thms)
qed

lemma count_ones_offset: "count_ones w (offset + k) = count_ones w offset + k"
proof (induction w offset arbitrary: k rule: count_ones.induct)
  case (1 w offset)
  show ?case
  proof (cases "bit w 0")
    case True
    then have "0 < w \<and> w AND 1 \<noteq> 0" using and_one_bit [of w] by (auto simp: word_gt_0)
    from "1.IH" [OF this, of k] show ?thesis
      using True by (subst (1 2) count_ones_step) (simp add: add.assoc add.commute)
  next
    case False
    then show ?thesis by (subst (1 2) count_ones_step) simp
  qed
qed

lemma count_ones_spec: "(\<forall>i < count_ones w 0. bit w i) \<and> \<not> bit w (count_ones w 0)"
proof (induction "unat w" arbitrary: w rule: less_induct)
  case less
  show ?case
  proof (cases "bit w 0")
    case False
    then show ?thesis by (subst (1 2) count_ones_step) simp
  next
    case True
    let ?v = "drop_bit 1 w"
    have "0 < unat w" using True by (auto simp: unat_gt_0)
    moreover have "unat ?v = unat w div 2"
      apply (subst unat_drop_bit_eq) apply (subst drop_bit_eq_div) by simp
    ultimately have "unat ?v < unat w" by linarith
    from less [OF this] have IH: "\<forall>i < count_ones ?v 0. bit ?v i" "\<not> bit ?v (count_ones ?v 0)" by auto
    have c: "count_ones w 0 = count_ones ?v 0 + 1"
      using True count_ones_offset [of ?v 0 1] by (subst count_ones_step) simp
    have b: "bit ?v i = bit w (i + 1)" for i by (simp add: bit_drop_bit_eq add.commute del: drop_bit_Suc)
    show ?thesis
    proof (intro conjI allI impI)
      fix i assume "i < count_ones w 0"
      then show "bit w i" using IH(1) c b True by (cases i) (simp_all only: Suc_eq_plus1 add_less_cancel_right)
    next
      show "\<not> bit w (count_ones w 0)" using IH(2) c b by simp
    qed
  qed
qed

lemma MAX_PN_WINDOW_half [simp]: "MAX_PN_WINDOW div 2 = 31"
  by (simp add: MAX_PN_WINDOW_def)

lemma win_okD: "win_ok w \<Longrightarrow> 31 \<le> i \<Longrightarrow> \<not> bit (fst w) i \<and> \<not> bit (snd w) i"
  unfolding win_ok_def by (meson not_less)

lemma ones_le: "(\<And>i. 31 \<le> i \<Longrightarrow> \<not> bit w i) \<Longrightarrow> count_ones w 0 \<le> 31"
  using count_ones_spec [of w] by (meson not_le order_refl)

text \<open>The scan finds the length of the run of accepted numbers that follows the counter.\<close>

lemma scan_windows_spec:
  assumes "win_ok w" and c: "c = scan_windows [fst w, snd w] 0"
  shows "c \<le> 62" "\<forall>i < c. wbit w i" "\<not> wbit w c"
proof -
  let ?a = "count_ones (fst w) 0" and ?b = "count_ones (snd w) 0"
  have a: "?a \<le> 31" and b: "?b \<le> 31" using win_okD [OF assms(1)] by (blast intro: ones_le)+
  have A: "\<forall>i < ?a. bit (fst w) i" "\<not> bit (fst w) ?a" using count_ones_spec by blast+
  have B: "\<forall>i < ?b. bit (snd w) i" "\<not> bit (snd w) ?b" using count_ones_spec by blast+
  have off: "count_ones (snd w) ?a = ?b + ?a"
    using count_ones_offset [of "snd w" 0 ?a] by (simp only: add_0)
  have c': "c = (if ?a < 31 then ?a else ?b + ?a)"
    unfolding c by (simp add: Let_def off)
  show "c \<le> 62" "\<forall>i < c. wbit w i" "\<not> wbit w c"
    using a b A B unfolding c' wbit_def by (auto split: if_splits)
qed

lemma wbit_fst: "wbit w i \<Longrightarrow> i < 31 \<Longrightarrow> bit (fst w) i" by (simp add: wbit_def)

lemma bit_low_mask: "bit (x AND (push_bit k 1 - 1) :: u64) i \<longleftrightarrow> bit x i \<and> i < k"
proof -
  have m: "push_bit k 1 - 1 = (mask k :: u64)" by (simp add: mask_eq_exp_minus_1)
  have "bit x i \<Longrightarrow> i < 64" using bit_imp_le_length [of x i] by simp
  then show ?thesis unfolding m by (auto simp: bit_and_iff bit_mask_iff)
qed

lemma bit_drop: "bit (drop_bit n (x :: u64)) i = bit x (i + n)"
  by (simp add: bit_drop_bit_eq add.commute)

lemma bit_push: "bit (push_bit n (x :: u64)) i \<longleftrightarrow> n \<le> i \<and> i < 64 \<and> bit x (i - n)"
  by (auto simp: bit_push_bit_iff)

text \<open>The shift drops at least one number and exactly the numbers of that run.\<close>

lemma hal_set_pn_win_spec:
  assumes ok: "win_ok w" and r: "hal_set_pn_win w = (k, v)"
  shows "0 < k" "k \<le> 62" "win_ok v" "\<And>i. wbit v i = wbit w (i + k)" "\<forall>j < k. wbit w j \<or> (k = 1 \<and> \<not> wbit w 0)"
proof -
  define c where "c = scan_windows [fst w, snd w] 0"
  note S = scan_windows_spec [OF ok c_def]
  have k: "k = (if c = 0 then 1 else c)"
    using r unfolding hal_set_pn_win_def Let_def c_def [symmetric] by (rule Pair_inject) (rule sym)
  show k0: "0 < k" and k62: "k \<le> 62" using S(1) k by (auto split: if_splits)
  show "\<forall>j < k. wbit w j \<or> (k = 1 \<and> \<not> wbit w 0)" using S(2,3) k by (auto split: if_splits)
  have v: "v = (if k < 31 then (drop_bit k (fst w) OR push_bit (31 - k) (snd w AND (push_bit k 1 - 1)), drop_bit k (snd w))
                else if k < 62 then (drop_bit (k - 31) (snd w), 0) else (0, 0))"
    using r k0 unfolding hal_set_pn_win_def Let_def c_def [symmetric] k [symmetric] MAX_PN_WINDOW_half
    by (auto simp: MAX_PN_WINDOW_def)
  note no = win_okD [OF ok]
  have wb: "wbit v i = wbit w (i + k)" for i
  proof -
    consider "k < 31" | "31 \<le> k" "k < 62" | "k = 62" using k62 by linarith
    then show ?thesis
    proof cases
      case 1
      show ?thesis
      proof (cases "i < 31")
        case True
        show ?thesis
        proof (cases "i + k < 31")
          case True
          then have "\<not> 31 - k \<le> i" by linarith
          then show ?thesis using 1 True unfolding v wbit_def by (simp add: bit_or_iff bit_drop bit_push del: push_bit_and push_bit_of_1)
        next
          case False
          then have "31 - k \<le> i" "i - (31 - k) = i + k - 31" "i + k - 31 < k" using 1 True by linarith+
          then show ?thesis using 1 True False no [of "i + k"]
            unfolding v wbit_def by (simp add: bit_or_iff bit_drop bit_push bit_low_mask del: push_bit_and push_bit_of_1)
        qed
      next
        case False
        then have "i - 31 + k = i + k - 31" by linarith
        then show ?thesis using 1 False unfolding v wbit_def by (simp add: bit_drop)
      qed
    next
      case 2
      then have "i + (k - 31) = i + k - 31" by linarith
      moreover have "\<not> bit (snd w) (i + k - 31)" if "31 \<le> i" using no [of "i + k - 31"] that 2 by linarith
      ultimately show ?thesis using 2 unfolding v wbit_def by (simp add: bit_drop)
    next
      case 3
      then show ?thesis using no [of "31 + i"] unfolding v wbit_def by simp
    qed
  qed
  show "wbit v i = wbit w (i + k)" for i by (rule wb)
  show "win_ok v"
    unfolding win_ok_def
  proof (intro allI impI)
    fix i assume b: "bit (fst v) i \<or> bit (snd v) i"
    show "i < 31"
    proof (rule ccontr)
      assume "\<not> i < 31"
      then have i: "31 \<le> i" by simp
      have n: "\<not> bit (fst w) (i + k)" "\<not> bit (snd w) (i + k)" "31 \<le> k \<Longrightarrow> \<not> bit (snd w) (i + (k - 31))"
        using no i by simp_all
      have "k < 31 \<Longrightarrow> \<not> i - (31 - k) < k" using i by linarith
      then show False using b n k62
        unfolding v by (auto simp: bit_or_iff bit_drop bit_push bit_low_mask simp del: push_bit_and push_bit_of_1 split: if_splits)
    qed
  qed
qed

section \<open>The specification: a set of numbers\<close>





lemma unat_u64: "unat (x :: u64) < 2 ^ 64"
  by (rule order_less_le_trans [OF unsigned_less]) simp

lemma unat_add_small: "unat (my :: u64) + k < 2 ^ 64 \<Longrightarrow> unat (my + of_nat k) = unat my + k"
  by (simp add: unat_word_ariths unat_of_nat)




definition add_bit :: "nat \<Rightarrow> pnwin \<Rightarrow> pnwin" where
  "add_bit n w = (if n < 31 then (fst w OR push_bit n 1, snd w) else (fst w, snd w OR push_bit (n - 31) 1))"



lemma record_pn_eq:
  "record_pn my w d =
     (if 0 < unat d \<and> unat d \<le> 62 then
        let w = add_bit (unat d - 1) w in
        if d = 1 then let (k, w) = hal_set_pn_win w in (my + of_nat k, w) else (my, w)
      else (my, w))"
proof -
  have "d = 1 \<Longrightarrow> unat d = 1" by simp
  moreover have "unat d - 1 - 31 = unat d - 31 - 1" by simp
  ultimately show ?thesis
    by (auto simp: record_pn_def add_bit_def Let_def MAX_PN_WINDOW_def simp del: push_bit_of_1)
qed


section \<open>One frame\<close>

lemma ucast_diff: "(my :: u64) < n \<Longrightarrow> unat n < unat my + 2 ^ 32 \<Longrightarrow> unat (ucast (n - my) :: u32) = unat n - unat my"
proof -
  assume lt: "my < n" and b: "unat n < unat my + 2 ^ 32"
  have d: "unat (n - my) = unat n - unat my" using lt by (simp add: unat_sub word_le_nat_alt word_less_nat_alt)
  moreover have "unat n - unat my < 2 ^ 32" using b lt by (simp add: word_less_nat_alt)
  ultimately show ?thesis by (simp add: unsigned_ucast_eq take_bit_nat_eq_self)
qed



lemma accept_pn_window:
  assumes "fst PN \<noteq> 0" "\<not> (fst PN = fst rx - 1 \<and> fst w = 0 \<and> snd w = 0)"
    and d: "d = (ucast (fst rx - fst PN) :: u32)" "unat d \<le> 62"
  shows "accept_pn PN w rx =
    (if hal_check_dup_pn w d \<noteq> 0 then (False, PN, w)
     else case record_pn (fst PN) w d of (my, w) \<Rightarrow> (True, (my, snd PN), w))"
proof -
  have "(fst PN = 0 \<and> 0 < fst rx) = False" using assms(1) by simp
  moreover have "(unat d > MAX_PN_WINDOW) = False" using d(2) by (simp add: MAX_PN_WINDOW_def)
  ultimately show ?thesis
    unfolding accept_pn_def Let_def
    by (simp only: if_False prod.case split_beta fst_conv snd_conv prod.collapse assms(2) flip: d(1))
qed


section \<open>128 bit numbers\<close>

definition pn_nat :: "pn \<Rightarrow> nat" where
  "pn_nat p = unat (fst p) + 2 ^ 64 * unat (snd p)"

lemma pn_nat_less: "pn_nat p < 2 ^ 128"
  using unat_u64 [of "fst p"] unat_u64 [of "snd p"] by (simp add: pn_nat_def)

lemma unat_plus1: "x \<noteq> 0xFFFFFFFFFFFFFFFF \<Longrightarrow> unat (x + 1 :: u64) = unat x + 1"
proof -
  assume a: "x \<noteq> 0xFFFFFFFFFFFFFFFF"
  have "unat x \<noteq> unat (0xFFFFFFFFFFFFFFFF :: u64)" using a by (simp only: word_unat_eq_iff not_False_eq_True)
  then have "unat x + 1 < 2 ^ 64" using unat_u64 [of x] by simp
  from unat_add_small [OF this] show ?thesis by simp
qed

lemma unat_plus1_wrap: "unat (x + 1 :: u64) = (unat x + 1) mod 2 ^ 64"
  by (simp add: unat_word_ariths)

lemma pn_carry: "(2 ^ 64 * ((h :: nat) mod 2 ^ 64)) = (2 ^ 64 * h) mod 2 ^ 128"
proof -
  have "(2 :: nat) ^ 128 = 2 ^ 64 * 2 ^ 64" by (simp flip: power_add)
  then show ?thesis by (simp only: mult_mod_right)
qed

lemma pn_nat_no_carry:
  "unat l = unat (fst p) + k \<Longrightarrow> pn_nat (l, snd p) = (pn_nat p + k) mod 2 ^ 128"
  using pn_nat_less [of "(l, snd p)"] by (simp add: pn_nat_def)

lemma pn_nat_carry:
  assumes "unat (fst p) + k = 2 ^ 64 + unat l"
  shows "pn_nat (l, snd p + 1) = (pn_nat p + k) mod 2 ^ 128"
proof -
  have e: "pn_nat p + k = unat l + 2 ^ 64 * (unat (snd p) + 1)" using assms by (simp add: pn_nat_def)
  have m: "(2 :: nat) ^ 128 = 2 ^ 64 * 2 ^ 64" by (simp flip: power_add)
  have "(unat l + 2 ^ 64 * (unat (snd p) + 1)) mod (2 ^ 64 * 2 ^ 64)
      = 2 ^ 64 * ((unat l + 2 ^ 64 * (unat (snd p) + 1)) div 2 ^ 64 mod 2 ^ 64) + (unat l + 2 ^ 64 * (unat (snd p) + 1)) mod 2 ^ 64"
    by (rule mod_mult2_eq)
  also have "\<dots> = 2 ^ 64 * ((unat (snd p) + 1) mod 2 ^ 64) + unat l"
  proof -
    have "(unat l + 2 ^ 64 * n) div 2 ^ 64 = n" "(unat l + 2 ^ 64 * n) mod 2 ^ 64 = unat l" for n
      using unat_u64 [of l] by simp_all
    then show ?thesis by (simp only:)
  qed
  finally show ?thesis unfolding e m by (simp add: pn_nat_def unat_plus1_wrap)
qed

lemma self_plus_nat: "pn_nat (hal_wpi_pn_self_plus p) = (pn_nat p + 1) mod 2 ^ 128"
proof (cases "fst p = 0xFFFFFFFFFFFFFFFF")
  case True
  then show ?thesis using pn_nat_carry [of p 1 0] by (simp add: hal_wpi_pn_self_plus_def)
next
  case False
  then show ?thesis using pn_nat_no_carry [OF unat_plus1] by (simp add: hal_wpi_pn_self_plus_def)
qed

lemma self_plus_plus_nat: "pn_nat (hal_wpi_pn_self_plus_plus p) = (pn_nat p + 2) mod 2 ^ 128"
proof -
  consider (ff) "fst p = 0xFFFFFFFFFFFFFFFF" | (fe) "fst p = 0xFFFFFFFFFFFFFFFE"
    | (lo) "fst p \<noteq> 0xFFFFFFFFFFFFFFFF" "fst p \<noteq> 0xFFFFFFFFFFFFFFFE" by blast
  then show ?thesis
  proof cases
    case ff
    then show ?thesis using pn_nat_carry [of p 2 1] by (simp add: hal_wpi_pn_self_plus_plus_def)
  next
    case fe
    then show ?thesis using pn_nat_carry [of p 2 0] by (simp add: hal_wpi_pn_self_plus_plus_def)
  next
    case lo
    then have "unat (fst p) \<noteq> unat (0xFFFFFFFFFFFFFFFF :: u64)" "unat (fst p) \<noteq> unat (0xFFFFFFFFFFFFFFFE :: u64)"
      by (simp_all only: word_unat_eq_iff not_False_eq_True)
    then have "unat (fst p) + 2 < 2 ^ 64" using unat_u64 [of "fst p"] by simp
    from unat_add_small [OF this] have "unat (fst p + 2) = unat (fst p) + 2" by simp
    then show ?thesis using lo pn_nat_no_carry by (simp add: hal_wpi_pn_self_plus_plus_def)
  qed
qed

lemma pn_byte_nat:
  assumes "i < 16"
  shows "unat (pn_byte p i) = pn_nat p div 256 ^ i mod 256"
proof -
  have u: "unat (ucast (drop_bit m (x :: u64)) :: u8) = unat x div 2 ^ m mod 256" for m x
    by (simp only: unsigned_ucast_eq unat_drop_bit_eq) (simp add: take_bit_eq_mod drop_bit_eq_div)
  have b: "(256 :: nat) ^ k = 2 ^ (8 * k)" for k by (simp add: power_mult)
  show ?thesis
  proof (cases "i < 8")
    case True
    define c where "c = 256 * (2 ^ (56 - 8 * i) * unat (snd p))"
    have "(2 :: nat) ^ 64 = 2 ^ (8 * i) * (2 ^ 8 * 2 ^ (56 - 8 * i))"
      using True by (simp only: flip: power_add) simp
    then have "pn_nat p = unat (fst p) + 2 ^ (8 * i) * c"
      unfolding pn_nat_def c_def by (simp only: mult.assoc) simp
    then have "pn_nat p div 2 ^ (8 * i) mod 256 = (unat (fst p) div 2 ^ (8 * i) + c) mod 256"
      by (simp add: add.commute)
    then have "pn_nat p div 2 ^ (8 * i) mod 256 = unat (fst p) div 2 ^ (8 * i) mod 256"
      by (simp add: c_def)
    then show ?thesis using True by (simp add: pn_byte_def u b)
  next
    case False
    have e: "(2 :: nat) ^ (8 * i) = 2 ^ 64 * 2 ^ (8 * (i - 8))"
    proof -
      have "8 * i = 64 + 8 * (i - 8)" using False by simp
      then show ?thesis by (metis power_add)
    qed
    have m: "i mod 8 = i - 8" using False assms by (simp add: mod_if)
    have "pn_nat p div 2 ^ 64 = unat (snd p)" using unat_u64 [of "fst p"] by (simp add: pn_nat_def)
    then have "pn_nat p div 2 ^ (8 * i) = unat (snd p) div 2 ^ (8 * (i - 8))" unfolding e by (simp only: div_mult2_eq)
    then show ?thesis using False by (simp add: pn_byte_def u b m)
  qed
qed

lemma lex_less: "(a :: nat) < M \<Longrightarrow> b < M \<Longrightarrow> a + M * x < b + M * y \<longleftrightarrow> x < y \<or> (x = y \<and> a < b)"
proof -
  assume m: "a < M" "b < M"
  show ?thesis
  proof (cases x y rule: linorder_cases)
    case less
    then have "M * (x + 1) \<le> M * y" by (intro mult_le_mono2) simp
    then show ?thesis using m less by simp
  next
    case greater
    then have "M * (y + 1) \<le> M * x" by (intro mult_le_mono2) simp
    then show ?thesis using m greater by simp
  qed simp
qed

lemma wpi_chk_from_nat:
  "i \<le> 16 \<Longrightarrow> wpi_chk_from i r s \<longleftrightarrow> pn_nat s mod 256 ^ i < pn_nat r mod 256 ^ i"
proof (induction i)
  case (Suc i)
  have i: "i < 16" using Suc.prems by simp
  have low: "pn_nat q mod 256 ^ Suc i = pn_nat q mod 256 ^ i + 256 ^ i * unat (pn_byte q i)" for q
    using pn_byte_nat [OF i] mod_mult2_eq [of "pn_nat q" "256 ^ i" 256] by (simp add: mult.commute)
  have "wpi_chk_from (Suc i) r s \<longleftrightarrow>
      unat (pn_byte s i) < unat (pn_byte r i) \<or> (unat (pn_byte s i) = unat (pn_byte r i) \<and> wpi_chk_from i r s)"
    by (auto simp: word_less_nat_alt word_unat_eq_iff)
  also have "\<dots> \<longleftrightarrow> pn_nat s mod 256 ^ Suc i < pn_nat r mod 256 ^ Suc i"
    unfolding low using Suc.IH i by (subst lex_less) auto
  finally show ?case .
qed simp

lemma wpi_chk_nat: "hal_wpi_chk_pn_increase r s \<longleftrightarrow> pn_nat s < pn_nat r"
proof -
  have "(256 :: nat) ^ 16 = 2 ^ 128" by (simp flip: power_mult)
  then show ?thesis
    using wpi_chk_from_nat [of 16 r s] pn_nat_less by (simp only: hal_wpi_chk_pn_increase_def mod_less le_refl)
qed

section \<open>Frames of one interface\<close>

text \<open>The receive counter and the window that a frame of station \<open>staid\<close> is checked against.\<close>

definition ucast_counter :: "'a pn_hal_scheme \<Rightarrow> nat \<Rightarrow> nat \<Rightarrow> (pn \<times> pnwin) option" where
  "ucast_counter h vid staid =
     (if vid < length (uRepCnt h) \<and> staid < length (uRepCnt h ! vid)
         \<and> 0 < length (u_rxPN (uRepCnt h ! vid ! staid)) \<and> vid < length (drv_wnet_vif_table h)
      then case drv_wnet_vif_table h ! vid of
             None \<Rightarrow> None
           | Some v \<Rightarrow> Some (u_rxPN (uRepCnt h ! vid ! staid) ! 0, ucast_win v)
      else None)"

text \<open>A TKIP or CCMP frame to the interface from the station that \<open>f\<close> finds for its transmitter.\<close>

definition ccmp_frame :: "(macaddr \<Rightarrow> nat \<Rightarrow> nat option) \<Rightarrow> nat \<Rightarrow> nat \<Rightarrow> rx_desc \<Rightarrow> bool" where
  "ccmp_frame f vid staid d \<longleftrightarrow>
     16 \<le> length (rx_data d) \<and> (rx_data d ! 4) AND 1 = 0 \<and> RxA1match_id d = vid
     \<and> f (take 6 (drop 10 (rx_data d))) vid = Some staid
     \<and> (RxDecryptType d = RX_PHY_TKIP \<or> RxDecryptType d = RX_PHY_CCMP)"

definition check_step :: "pn \<Rightarrow> pnwin \<Rightarrow> pn \<Rightarrow> bool \<times> pn \<times> pnwin" where
  "check_step PN w rx = (if fst PN < fst rx then accept_pn PN w rx else (False, PN, w))"

lemma hal_chk_ccmp:
  assumes fr: "ccmp_frame f vid s d" and c: "ucast_counter h vid s = Some (PN, w)"
    and r: "check_step PN w (rx_PN d) = (b, PN', w')"
  obtains h' where "hal_chk_replay_cnt (Some f) h d = Some (b, h')"
    and "ucast_counter h' vid s = Some (PN', w')"
    and "\<And>t. t \<noteq> s \<Longrightarrow> ucast_counter h' vid t = map_option (\<lambda>(P, _). (P, w')) (ucast_counter h vid t)"
proof -
  from c obtain v where dom: "vid < length (uRepCnt h)" "s < length (uRepCnt h ! vid)"
      "0 < length (u_rxPN (uRepCnt h ! vid ! s))" "vid < length (drv_wnet_vif_table h)"
    and v: "drv_wnet_vif_table h ! vid = Some v" and PN: "PN = u_rxPN (uRepCnt h ! vid ! s) ! 0" "w = ucast_win v"
    by (auto simp: ucast_counter_def split: if_splits option.splits)
  let ?r = "uRepCnt h ! vid ! s"
  define v' where "v' = set_win AML_UCAST_TYPE w' v"
  define h' where "h' = h\<lparr>uRepCnt := (uRepCnt h)[vid := (uRepCnt h ! vid)[s := ?r\<lparr>u_rxPN := (u_rxPN ?r)[0 := PN']\<rparr>]],
      drv_wnet_vif_table := (drv_wnet_vif_table h)[vid := Some v']\<rparr>"
  have g: "get_win AML_UCAST_TYPE v = w" by (simp add: get_win_def PN)
  have same: "set_win AML_UCAST_TYPE w v = v" by (simp add: set_win_def PN)
  have ciph: "(RxDecryptType d = RX_PHY_TKIP \<or> RxDecryptType d = RX_PHY_CCMP) = True"
    using fr by (simp add: ccmp_frame_def)
  have chk: "chk_counter PN (Some v) AML_UCAST_TYPE d = Some (b, PN', Some v')"
    using r unfolding chk_counter_def ciph if_True check_step_def v'_def
    by (cases "fst PN < fst (rx_PN d)") (use same in \<open>auto simp: g\<close>)
  have frame: "\<not> length (rx_data d) < 16" "\<not> (rx_data d ! 4) AND 1 \<noteq> 0" "RxA1match_id d = vid"
      "f (take 6 (drop 10 (rx_data d))) vid = Some s"
    using fr by (auto simp: ccmp_frame_def)
  have "hal_chk_replay_cnt (Some f) h d = Some (b, h')"
    unfolding hal_chk_replay_cnt_def if_not_P [OF frame(1)] if_not_P [OF frame(2)] option.case Let_def frame(3,4)
      nth_opt_in [OF dom(1)] nth_opt_in [OF dom(2)] nth_opt_in [OF dom(3)] nth_opt_in [OF dom(4)] prod.case v
      PN(1) [symmetric] chk h'_def ..
  moreover have "ucast_counter h' vid s = Some (PN', w')"
    using dom by (simp add: ucast_counter_def h'_def v'_def set_win_def)
  moreover have "ucast_counter h' vid t = map_option (\<lambda>(P, _). (P, w')) (ucast_counter h vid t)" if "t \<noteq> s" for t
    using dom v that by (simp add: ucast_counter_def h'_def v'_def set_win_def)
  ultimately show thesis by (rule that)
qed



text \<open>Far ahead of the window the frame is accepted, but not recorded.\<close>

lemma accept_pn_far:
  assumes ok: "win_ok w" and my: "fst PN \<noteq> 0" and far: "unat (fst PN) + 124 < unat (fst rx)"
    and lim: "unat (fst rx) < unat (fst PN) + 2 ^ 32" and kv: "hal_set_pn_win w = (k, v)"
  shows "accept_pn PN w rx = (True, (fst PN + of_nat k, snd PN), v)"
proof -
  note S = hal_set_pn_win_spec [OF ok kv]
  have lt: "fst PN < fst rx" using far by (simp add: word_less_nat_alt)
  define d where "d = (ucast (fst rx - fst PN) :: u32)"
  have d: "unat d = unat (fst rx) - unat (fst PN)" unfolding d_def by (rule ucast_diff [OF lt lim])
  have fit: "unat (fst PN) + k < 2 ^ 64" using far S(2) unat_u64 [of "fst rx"] by linarith
  note u = unat_add_small [OF fit]
  define e where "e = (ucast (fst rx - (fst PN + of_nat k)) :: u32)"
  have "unat e = unat (fst rx) - (unat (fst PN) + k)"
    unfolding e_def using far lim S(2) u by (subst ucast_diff) (simp_all add: word_less_nat_alt)
  then have e62: "\<not> unat e \<le> 62" using far S(2) by linarith
  have d62: "unat d > MAX_PN_WINDOW" using d far by (simp add: MAX_PN_WINDOW_def)
  have nodup: "hal_check_dup_pn w d = 0" using d62 by (simp add: hal_check_dup_pn_def MAX_PN_WINDOW_def)
  have norec: "record_pn (fst PN + of_nat k) v e = (fst PN + of_nat k, v)" using e62 by (simp add: record_pn_eq)
  have first: "(fst PN = 0 \<and> 0 < fst rx) = False" using my by simp
  have next1: "(fst PN = fst rx - 1 \<and> fst w = 0 \<and> snd w = 0) = False"
  proof -
    have "fst PN + 1 \<noteq> fst rx"
    proof
      assume "fst PN + 1 = fst rx"
      moreover have "unat (fst PN + of_nat 1) = unat (fst PN) + 1" using far unat_u64 [of "fst rx"] by (intro unat_add_small) linarith
      ultimately show False using far by simp
    qed
    then have "fst PN \<noteq> fst rx - 1" by (metis diff_add_cancel)
    then show ?thesis by simp
  qed
  show ?thesis
    unfolding accept_pn_def Let_def
    by (simp only: first next1 if_False d_def [symmetric] nodup simp_thms d62 if_True kv prod.case e_def [symmetric] norec)
qed

text \<open>The replay check forgets: a frame whose number is more than 186 ahead of the counter is accepted,
  and the same frame is accepted again when it is repeated, because it is marked in the window only if it
  is in range after one shift.\<close>

theorem replay_accepted_after_gap:
  assumes "ccmp_frame f vid staid d" and "ucast_counter h vid staid = Some (PN, w)"
    and "win_ok w" and "fst PN \<noteq> 0"
    and "unat (fst PN) + 186 < unat (fst (rx_PN d))" and "unat (fst (rx_PN d)) < unat (fst PN) + 2 ^ 32"
  shows "\<exists>h' h''. hal_chk_replay_cnt (Some f) h d = Some (True, h')
    \<and> hal_chk_replay_cnt (Some f) h' d = Some (True, h'')"
proof -
  let ?rx = "rx_PN d"
  obtain k v where kv: "hal_set_pn_win w = (k, v)" by (cases "hal_set_pn_win w")
  note S = hal_set_pn_win_spec [OF assms(3) kv]
  define PN' where "PN' = (fst PN + of_nat k, snd PN)"
  have fit: "unat (fst PN) + k < 2 ^ 64" using assms(5) S(2) unat_u64 [of "fst ?rx"] by linarith
  have u: "unat (fst PN') = unat (fst PN) + k" using unat_add_small [OF fit] by (simp add: PN'_def)
  have lt: "fst PN < fst ?rx" "fst PN' < fst ?rx" using assms(5) u S(2) by (simp_all add: word_less_nat_alt)
  have 1: "check_step PN w ?rx = (True, PN', v)"
    using accept_pn_far [OF assms(3,4) _ assms(6) kv] assms(5) lt by (simp add: check_step_def PN'_def)
  obtain k' v' where kv': "hal_set_pn_win v = (k', v')" by (cases "hal_set_pn_win v")
  have "fst PN' \<noteq> 0" using u S(1) by (metis add_is_0 less_irrefl unat_0)
  then have 2: "check_step PN' v ?rx = (True, (fst PN' + of_nat k', snd PN'), v')"
    using accept_pn_far [OF S(3) _ _ _ kv', of PN' ?rx] assms(5,6) u S(2) lt by (simp add: check_step_def)
  obtain h' where h': "hal_chk_replay_cnt (Some f) h d = Some (True, h')" "ucast_counter h' vid staid = Some (PN', v)"
    by (rule hal_chk_ccmp [OF assms(1,2) 1])
  obtain h'' where "hal_chk_replay_cnt (Some f) h' d = Some (True, h'')"
    by (rule hal_chk_ccmp [OF assms(1) h'(2) 2])
  then show ?thesis using h' by blast
qed

text \<open>The stations of an interface share one window: a frame that skips one number, accepted from one
  station, makes the check refuse the same kind of frame of another station, which was never received and
  which is accepted without the first one.\<close>

theorem replay_window_shared:
  assumes "ccmp_frame f vid s d" and "ccmp_frame f vid t e" and "s \<noteq> t"
    and "ucast_counter h vid s = Some (P, (0, 0))" and "ucast_counter h vid t = Some (Q, (0, 0))"
    and "fst P \<noteq> 0" and "fst Q \<noteq> 0"
    and "unat (fst (rx_PN d)) = unat (fst P) + 2" and "unat (fst (rx_PN e)) = unat (fst Q) + 2"
  shows "\<exists>h' h'' h'''. hal_chk_replay_cnt (Some f) h d = Some (True, h')
    \<and> hal_chk_replay_cnt (Some f) h' e = Some (False, h'')
    \<and> hal_chk_replay_cnt (Some f) h e = Some (True, h''')"
proof -
  have rec: "record_pn my (0, 0) 2 = (my, (2, 0))" for my
    by (simp add: record_pn_eq add_bit_def Let_def push_bit_eq_mult)
  have step: "check_step X w y = (if hal_check_dup_pn w 2 \<noteq> 0 then (False, X, w)
      else case record_pn (fst X) w 2 of (my, w) \<Rightarrow> (True, (my, snd X), w))"
    if y: "fst X \<noteq> 0" "unat (fst y) = unat (fst X) + 2" for X w y
  proof -
    have lt: "fst X < fst y" using y by (simp add: word_less_nat_alt)
    have d: "(2 :: u32) = ucast (fst y - fst X)"
      using ucast_diff [OF lt] y by (simp add: word_unat_eq_iff)
    have "fst X \<noteq> fst y - 1"
    proof
      assume "fst X = fst y - 1"
      then have "fst X + of_nat 1 = fst y" by simp
      moreover have "unat (fst X + of_nat 1) = unat (fst X) + 1"
        using y unat_u64 [of "fst y"] by (intro unat_add_small) linarith
      ultimately show False using y by simp
    qed
    then have "\<not> (fst X = fst y - 1 \<and> fst w = 0 \<and> snd w = 0)" by simp
    from accept_pn_window [OF y(1) this d] show ?thesis using lt by (simp add: check_step_def)
  qed
  have no: "hal_check_dup_pn (0, 0) 2 = 0" by (simp add: hal_check_dup_pn_def)
  have dup: "hal_check_dup_pn (2, 0) 2 \<noteq> 0" by (simp add: hal_check_dup_pn_def push_bit_eq_mult)
  have 1: "check_step P (0, 0) (rx_PN d) = (True, P, (2, 0))" using step [OF assms(6,8)] no rec by simp
  have 3: "check_step Q (0, 0) (rx_PN e) = (True, Q, (2, 0))" using step [OF assms(7,9)] no rec by simp
  have 2: "check_step Q (2, 0) (rx_PN e) = (False, Q, (2, 0))" using step [OF assms(7,9)] dup by simp
  obtain h' where h': "hal_chk_replay_cnt (Some f) h d = Some (True, h')"
      "ucast_counter h' vid t = map_option (\<lambda>(P, _). (P, (2, 0))) (ucast_counter h vid t)"
    using hal_chk_ccmp [OF assms(1,4) 1] assms(3) by metis
  have c: "ucast_counter h' vid t = Some (Q, (2, 0))" using h'(2) assms(5) by simp
  obtain h'' where "hal_chk_replay_cnt (Some f) h' e = Some (False, h'')"
    by (rule hal_chk_ccmp [OF assms(2) c 2])
  moreover obtain h''' where "hal_chk_replay_cnt (Some f) h e = Some (True, h''')"
    by (rule hal_chk_ccmp [OF assms(2,5) 3])
  ultimately show ?thesis using h'(1) by blast
qed

text \<open>The check of WAPI frames, byte by byte from the most significant one, is the comparison of the
  128 bit numbers, and the two increments of the WAPI transmit counter add one and two modulo \<open>2 ^ 128\<close>.\<close>

theorem wapi_pn_arith:
  "(hal_wpi_chk_pn_increase r s \<longleftrightarrow> pn_nat s < pn_nat r)
   \<and> pn_nat (hal_wpi_pn_self_plus s) = (pn_nat s + 1) mod 2 ^ 128
   \<and> pn_nat (hal_wpi_pn_self_plus_plus s) = (pn_nat s + 2) mod 2 ^ 128"
  by (intro conjI wpi_chk_nat self_plus_nat self_plus_plus_nat)

section \<open>Nonces of transmitted frames\<close>

definition tx_counter :: "'a pn_hal_scheme \<Rightarrow> bool \<Rightarrow> nat \<Rightarrow> nat \<Rightarrow> pn option" where
  "tx_counter h is_bc vid sta =
     (if is_bc then map_option m_txPN (nth_opt (mRepCnt h) vid)
      else case nth_opt (uRepCnt h) vid of
             None \<Rightarrow> None
           | Some us \<Rightarrow> (case nth_opt us sta of None \<Rightarrow> None | Some r \<Rightarrow> nth_opt (u_txPN r) 0))"

definition nonce :: "u8 \<Rightarrow> pn \<Rightarrow> nat" where
  "nonce enc p = (if enc = WIFI_WPI then pn_nat p else unat (fst p))"

definition nonce_step :: "bool \<Rightarrow> u8 \<Rightarrow> nat" where
  "nonce_step is_bc enc = (if enc = WIFI_WPI \<and> \<not> is_bc then 2 else 1)"

definition nonce_range :: "u8 \<Rightarrow> nat" where
  "nonce_range enc = (if enc = WIFI_WPI then 2 ^ 128 else 2 ^ 64)"

fun assign_many :: "nat \<Rightarrow> bool \<Rightarrow> nat \<Rightarrow> nat \<Rightarrow> pn \<Rightarrow> u8 \<Rightarrow> 'a pn_hal_scheme \<Rightarrow> (pn list \<times> 'a pn_hal_scheme) option" where
  "assign_many 0 is_bc vid sta old enc h = Some ([], h)"
| "assign_many (Suc n) is_bc vid sta old enc h =
     (case assign_tx_desc_pn is_bc vid sta old enc h of
        None \<Rightarrow> None
      | Some (p, h) \<Rightarrow>
          (case assign_many n is_bc vid sta old enc h of None \<Rightarrow> None | Some (ps, h) \<Rightarrow> Some (p # ps, h)))"

lemma next_tx_pn_nonce:
  assumes "enc = WIFI_TKIP \<or> enc = WIFI_AES \<or> enc = WIFI_WPI" and "next_tx_pn is_bc enc PN old = (p, PN')"
  shows "nonce enc p = nonce enc PN" "nonce enc PN' = (nonce enc PN + nonce_step is_bc enc) mod nonce_range enc"
proof -
  have ne: "WIFI_TKIP \<noteq> WIFI_WPI" "WIFI_AES \<noteq> WIFI_WPI" "WIFI_TKIP \<noteq> WIFI_AES"
    by (simp_all add: WIFI_TKIP_def WIFI_WPI_def WIFI_AES_def)
  show "nonce enc p = nonce enc PN" using assms ne by (auto simp: next_tx_pn_def nonce_def)
  consider (ta) "enc = WIFI_TKIP \<or> enc = WIFI_AES" | (wpi) "enc = WIFI_WPI" using assms(1) by blast
  then show "nonce enc PN' = (nonce enc PN + nonce_step is_bc enc) mod nonce_range enc"
  proof cases
    case ta
    then have "enc \<noteq> WIFI_WPI" "PN' = (fst PN + 1, snd PN)" using assms(2) ne by (auto simp: next_tx_pn_def)
    then show ?thesis by (simp add: nonce_def nonce_step_def nonce_range_def unat_plus1_wrap del: unat_plus_simple)
  next
    case wpi
    then have "PN' = (if is_bc then hal_wpi_pn_self_plus PN else hal_wpi_pn_self_plus_plus PN)"
      using assms(2) ne by (auto simp: next_tx_pn_def)
    then show ?thesis using wpi by (simp add: nonce_def nonce_step_def nonce_range_def self_plus_nat self_plus_plus_nat)
  qed
qed

lemma assign_tx_desc_pn_step:
  assumes enc: "enc = WIFI_TKIP \<or> enc = WIFI_AES \<or> enc = WIFI_WPI" and c: "tx_counter h is_bc vid sta = Some PN"
    and n: "next_tx_pn is_bc enc PN old = (p, PN')"
  obtains h' where "assign_tx_desc_pn is_bc vid sta old enc h = Some (p, h')" "tx_counter h' is_bc vid sta = Some PN'"
proof -
  have no: "\<not> enc = WIFI_NO_WEP" using enc by (auto simp: WIFI_TKIP_def WIFI_WPI_def WIFI_AES_def WIFI_NO_WEP_def)
  show thesis
  proof (cases is_bc)
    case True
    with c obtain r where r: "nth_opt (mRepCnt h) vid = Some r" "m_txPN r = PN" by (auto simp: tx_counter_def)
    have n': "next_tx_pn True enc PN old = (p, PN')" using n True by simp
    show thesis
    proof
      show "assign_tx_desc_pn is_bc vid sta old enc h = Some (p, h\<lparr>mRepCnt := (mRepCnt h)[vid := r\<lparr>m_txPN := PN'\<rparr>]\<rparr>)"
        using True r no n' by (simp add: assign_tx_desc_pn_def)
      show "tx_counter (h\<lparr>mRepCnt := (mRepCnt h)[vid := r\<lparr>m_txPN := PN'\<rparr>]\<rparr>) is_bc vid sta = Some PN'"
        using True r by (simp add: tx_counter_def nth_opt_Some_iff)
    qed
  next
    case False
    with c obtain us r where r: "nth_opt (uRepCnt h) vid = Some us" "nth_opt us sta = Some r" "nth_opt (u_txPN r) 0 = Some PN"
      by (auto simp: tx_counter_def split: option.splits)
    have n': "next_tx_pn False enc PN old = (p, PN')" using n False by simp
    let ?h = "h\<lparr>uRepCnt := (uRepCnt h)[vid := us[sta := r\<lparr>u_txPN := (u_txPN r)[0 := PN']\<rparr>]]\<rparr>"
    show thesis
    proof
      show "assign_tx_desc_pn is_bc vid sta old enc h = Some (p, ?h)"
        using False r no n' by (simp add: assign_tx_desc_pn_def)
      show "tx_counter ?h is_bc vid sta = Some PN'"
        using False r by (auto simp: tx_counter_def nth_opt_Some_iff)
    qed
  qed
qed

lemma assign_many_nonces:
  assumes enc: "enc = WIFI_TKIP \<or> enc = WIFI_AES \<or> enc = WIFI_WPI"
  shows "tx_counter h is_bc vid sta = Some PN \<Longrightarrow> \<exists>ps h'. assign_many n is_bc vid sta old enc h = Some (ps, h')
    \<and> map (nonce enc) ps = map (\<lambda>i. (nonce enc PN + i * nonce_step is_bc enc) mod nonce_range enc) [0 ..< n]"
proof (induction n arbitrary: h PN)
  case (Suc n)
  obtain p PN' where nx: "next_tx_pn is_bc enc PN old = (p, PN')" by (cases "next_tx_pn is_bc enc PN old")
  note N = next_tx_pn_nonce [OF enc nx]
  obtain h1 where h1: "assign_tx_desc_pn is_bc vid sta old enc h = Some (p, h1)" "tx_counter h1 is_bc vid sta = Some PN'"
    by (rule assign_tx_desc_pn_step [OF enc Suc.prems nx])
  obtain ps h2 where ps: "assign_many n is_bc vid sta old enc h1 = Some (ps, h2)"
      "map (nonce enc) ps = map (\<lambda>i. (nonce enc PN' + i * nonce_step is_bc enc) mod nonce_range enc) [0 ..< n]"
    using Suc.IH [OF h1(2)] by blast
  have lt: "nonce enc PN < nonce_range enc" using pn_nat_less [of PN] unat_u64 [of "fst PN"] by (simp add: nonce_def nonce_range_def)
  have shift: "(nonce enc PN' + i * nonce_step is_bc enc) mod nonce_range enc
      = (nonce enc PN + Suc i * nonce_step is_bc enc) mod nonce_range enc" for i
    unfolding N(2) by (simp only: mod_add_left_eq mult_Suc add.assoc)
  have "map (nonce enc) (p # ps) = map (\<lambda>i. (nonce enc PN + i * nonce_step is_bc enc) mod nonce_range enc) (0 # map Suc [0 ..< n])"
    using N(1) lt ps(2) shift by simp
  then show ?case using h1 ps by (simp only: assign_many.simps option.case prod.case upt_rec [of 0 "Suc n"] zero_less_Suc if_True map_Suc_upt) blast
qed simp

text \<open>C19: The packet numbers given to n consecutive frames from one transmit counter are all different, as long as the counter
  is not set anew between them and n is at most the size of the counter (\<open>2 ^ 64\<close> for TKIP and AES, \<open>2 ^ 127\<close> steps of two for
  WAPI unicast, \<open>2 ^ 128\<close> for WAPI group frames).  Installing a key sets the counter anew even when it is the same key
  (\<open>key_install_resets_counters\<close> in KeyHal).\<close>

theorem tx_nonces_distinct:
  assumes "enc = WIFI_TKIP \<or> enc = WIFI_AES \<or> enc = WIFI_WPI"
    and "tx_counter h is_bc vid sta = Some PN" and "n * nonce_step is_bc enc \<le> nonce_range enc"
  shows "\<exists>ps h'. assign_many n is_bc vid sta old enc h = Some (ps, h') \<and> length ps = n
    \<and> distinct (map (nonce enc) ps)"
proof -
  obtain ps h' where r: "assign_many n is_bc vid sta old enc h = Some (ps, h')"
    and m: "map (nonce enc) ps = map (\<lambda>i. (nonce enc PN + i * nonce_step is_bc enc) mod nonce_range enc) [0 ..< n]"
    using assign_many_nonces [OF assms(1,2)] by blast
  let ?s = "nonce_step is_bc enc" and ?R = "nonce_range enc"
  have s: "0 < ?s" by (simp add: nonce_step_def)
  have "inj_on (\<lambda>i. (nonce enc PN + i * ?s) mod ?R) {0 ..< n}"
  proof (rule linorder_inj_onI)
    fix i j assume ij: "i < j" "i \<in> {0 ..< n}" "j \<in> {0 ..< n}"
    then have lt: "(j - i) * ?s < ?R" using assms(3) s
      by (meson atLeastLessThan_iff diff_le_self le_less_trans less_le_trans mult_less_cancel2)
    have split: "nonce enc PN + j * ?s = (nonce enc PN + i * ?s) + (j - i) * ?s"
      using ij by (simp add: diff_mult_distrib)
    have pos: "0 < (j - i) * ?s" using ij s by simp
    show "(nonce enc PN + i * ?s) mod ?R \<noteq> (nonce enc PN + j * ?s) mod ?R"
    proof
      assume "(nonce enc PN + i * ?s) mod ?R = (nonce enc PN + j * ?s) mod ?R"
      then have "?R dvd (nonce enc PN + j * ?s) - (nonce enc PN + i * ?s)"
        by (metis mod_eq_dvd_iff_nat split le_add1)
      then have "?R dvd (j - i) * ?s" unfolding split by simp
      then show False using lt pos by (meson dvd_imp_le not_le)
    qed
  qed auto
  then have "distinct (map (nonce enc) ps)" unfolding m by (simp add: distinct_map)
  moreover have "length ps = n" using arg_cong [OF m, of length] by simp
  ultimately show ?thesis using r by blast
qed

section \<open>Concrete instances\<close>

definition ex_rep :: "u64 \<Rightarrow> unicastReplayCnt" where
  "ex_rep n = \<lparr>u_txPN = [(1, 0)], u_rxPN = [(n, 0), (0, 0), (0, 0), (0, 0)]\<rparr>"

definition ex_hal :: "u64 \<Rightarrow> u64 \<Rightarrow> pn_hal" where
  "ex_hal a b = \<lparr>uRepCnt = [[ex_rep 0, ex_rep a, ex_rep b]], mRepCnt = [\<lparr>m_txPN = (1, 0), m_rxPN = (0, 0)\<rparr>],
     drv_wnet_vif_table = [Some \<lparr>ucast_win = (0, 0), mcast_win = (0, 0)\<rparr>], dot11CamMode = 1\<rparr>"

definition ex_desc :: "u8 \<Rightarrow> u64 \<Rightarrow> rx_desc" where
  "ex_desc a n = \<lparr>RxDecryptType = RX_PHY_CCMP, rx_PN = (n, 0), bssidmatch_id = 0, RxA1match_id = 0,
     rx_data = [0x88, 0x41, 0, 0, 2, 0, 0, 0, 0, 9, 2, 0, 0, 0, 0, a]\<rparr>"

definition ex_ids :: "macaddr \<Rightarrow> nat \<Rightarrow> nat option" where
  "ex_ids m v = (if m ! 5 = 1 then Some 1 else if m ! 5 = 2 then Some 2 else None)"

lemma ex_frame: "ccmp_frame ex_ids 0 1 (ex_desc 1 n)" "ccmp_frame ex_ids 0 2 (ex_desc 2 n)"
  by (simp_all add: ccmp_frame_def ex_desc_def ex_ids_def)

lemma ex_counter: "ucast_counter (ex_hal a b) 0 1 = Some ((a, 0), (0, 0))" "ucast_counter (ex_hal a b) 0 2 = Some ((b, 0), (0, 0))"
  by (simp_all add: ucast_counter_def ex_hal_def ex_rep_def)



lemma replay_accepted_after_gap_witness:
  "\<exists>h' h''. hal_chk_replay_cnt (Some ex_ids) (ex_hal 10 5) (ex_desc 1 1000) = Some (True, h')
     \<and> hal_chk_replay_cnt (Some ex_ids) h' (ex_desc 1 1000) = Some (True, h'')"
  using replay_accepted_after_gap [OF ex_frame(1) [of 1000] ex_counter(1) [of 10 5] win_ok_zero] by (simp add: ex_desc_def)

lemma replay_window_shared_witness:
  "\<exists>h' h'' h'''. hal_chk_replay_cnt (Some ex_ids) (ex_hal 10 5) (ex_desc 1 12) = Some (True, h')
     \<and> hal_chk_replay_cnt (Some ex_ids) h' (ex_desc 2 7) = Some (False, h'')
     \<and> hal_chk_replay_cnt (Some ex_ids) (ex_hal 10 5) (ex_desc 2 7) = Some (True, h''')"
  using replay_window_shared [OF ex_frame(1) [of 12] ex_frame(2) [of 7] _ ex_counter [of 10 5]] by (simp add: ex_desc_def)

lemma tx_nonces_distinct_witness:
  "\<exists>ps h'. assign_many 1000 False 0 1 (0, 0) WIFI_AES (ex_hal 10 5) = Some (ps, h') \<and> length ps = 1000
     \<and> distinct (map (nonce WIFI_AES) ps)"
  using tx_nonces_distinct [of WIFI_AES "ex_hal 10 5" False 0 1 "(1, 0)" 1000 "(0, 0)"]
  by (simp add: tx_counter_def ex_hal_def ex_rep_def nonce_step_def nonce_range_def WIFI_AES_def WIFI_WPI_def)

end
