(* ===== verification/KeyHal.thy ===== *)
theory KeyHal
  imports Replay
begin

text \<open>
  The lower half of the key management: the driver calls \<^verbatim>\<open>drv_key_set\<close>, \<^verbatim>\<open>drv_key_rst_ex\<close>
  (\<^verbatim>\<open>wifi_drv_main.c\<close>), the helpers of \<^verbatim>\<open>wifi_drv_if.h\<close> and the commands of \<^verbatim>\<open>wifi_hal_cmd.c\<close> that hand a
  key to the firmware. The commands, and the power-save brackets round them, are a log; what the firmware
  does with them is outside the repository. The station a key belongs to is looked up by an argument.
\<close>

section \<open>Data\<close>

definition HAL_KEY_TYPE_CLEAR :: u8 where "HAL_KEY_TYPE_CLEAR = WIFI_NO_WEP"
definition HAL_KEY_TYPE_WEP :: u8 where "HAL_KEY_TYPE_WEP = WIFI_WEP64"
definition HAL_KEY_TYPE_AES :: u8 where "HAL_KEY_TYPE_AES = WIFI_AES"
definition HAL_KEY_TYPE_TKIP :: u8 where "HAL_KEY_TYPE_TKIP = WIFI_TKIP"
definition HAL_KEY_TYPE_WPI :: u8 where "HAL_KEY_TYPE_WPI = WIFI_WPI"

lemmas key_type_defs = HAL_KEY_TYPE_CLEAR_def HAL_KEY_TYPE_WEP_def HAL_KEY_TYPE_AES_def HAL_KEY_TYPE_TKIP_def
  HAL_KEY_TYPE_WPI_def WIFI_NO_WEP_def WIFI_WEP64_def WIFI_AES_def WIFI_TKIP_def WIFI_WPI_def WIFI_WEP128_def WIFI_WEP256_def

definition ALL_KEY_RST :: u32 where "ALL_KEY_RST = 0xffff"
definition MULTI_KEY_RST :: u32 where "MULTI_KEY_RST = 0xeeee"
definition ALL_UNIKEY_RST :: u32 where "ALL_UNIKEY_RST = 0xeeee"

definition WIFINET_M_IBSS :: u8 where "WIFINET_M_IBSS = 0"
definition WIFINET_M_STA :: u8 where "WIFINET_M_STA = 1"
definition WIFINET_M_HOSTAP :: u8 where "WIFINET_M_HOSTAP = 2"
definition WIFINET_M_P2P_CLIENT :: u8 where "WIFINET_M_P2P_CLIENT = 5"

lemmas opmode_defs = WIFINET_M_IBSS_def WIFINET_M_STA_def WIFINET_M_HOSTAP_def WIFINET_M_P2P_CLIENT_def

record hal_key_val =
  kv_type :: u8
  kv_pad :: u8
  kv_len :: u16
  kv_val :: "u8 list"
  kv_mic :: "u8 list"
  kv_txmic :: "u8 list"

text \<open>The code copies up to 32 bytes from \<open>kv_val\<close>: the key and the two MIC keys that follow it.\<close>

definition kv_bytes :: "hal_key_val \<Rightarrow> u8 list" where
  "kv_bytes k = kv_val k @ kv_mic k @ kv_txmic k"

record UniCastKeyCmd =
  uc_vid :: u8
  uc_StaId :: u8
  uc_KeyType :: u8
  uc_KeyLen :: u8
  uc_KeyId :: u8
  uc_PNStep :: u8
  uc_Key :: "u8 list"

record MultiCastKeyCmd =
  mc_vid :: u8
  mc_KeyId :: u8
  mc_KeyType :: u8
  mc_KeyLen :: u8
  mc_AuthRole :: u8
  mc_PNStep :: u8
  mc_Key :: "u8 list"

record RekeyDataCmd =
  rk_vid :: u8
  rk_StaId :: u8
  rk_kek :: "u8 list"
  rk_kck :: "u8 list"
  rk_replay_counter :: "u8 list"

datatype hal_cmd =
    Reset_Key_Cmd u8 u32
  | UniCast_Key_Set_Cmd UniCastKeyCmd
  | Multicast_Key_Set_Cmd MultiCastKeyCmd
  | Rekey_Data_Set_Cmd RekeyDataCmd
  | Driv_ps_wakeup
  | Driv_ps_sleep

record key_hal = pn_hal +
  bhalMKeySet :: "u8 list"
  bhalUKeySet :: "u8 list"
  sta_con_unitikey :: "UniCastKeyCmd option"
  sta_con_multikey :: "MultiCastKeyCmd option"
  hal_cmds :: "hal_cmd list"

definition emit :: "hal_cmd \<Rightarrow> key_hal \<Rightarrow> key_hal" where
  "emit c h = h\<lparr>hal_cmds := hal_cmds h @ [c]\<rparr>"

section \<open>Commands\<close>

definition phy_rst_all_key :: "nat \<Rightarrow> key_hal \<Rightarrow> key_hal option" where
  "phy_rst_all_key vid h =
     (if vid < length (bhalUKeySet h) \<and> vid < length (bhalMKeySet h) then
        let h = (if bhalUKeySet h ! vid \<noteq> 0 \<or> bhalMKeySet h ! vid \<noteq> 0
                 then emit (Reset_Key_Cmd (of_nat vid) ALL_KEY_RST) h else h) in
        Some (h\<lparr>bhalUKeySet := (bhalUKeySet h)[vid := 0], bhalMKeySet := (bhalMKeySet h)[vid := 0]\<rparr>)
      else None)"

definition phy_rst_ucast_key :: "nat \<Rightarrow> key_hal \<Rightarrow> key_hal option" where
  "phy_rst_ucast_key vid h =
     (if vid < length (bhalUKeySet h) then
        let h = (if bhalUKeySet h ! vid \<noteq> 0 then emit (Reset_Key_Cmd (of_nat vid) ALL_UNIKEY_RST) h else h) in
        Some (h\<lparr>bhalUKeySet := (bhalUKeySet h)[vid := 0]\<rparr>)
      else None)"

definition phy_rst_mcast_key :: "nat \<Rightarrow> key_hal \<Rightarrow> key_hal option" where
  "phy_rst_mcast_key vid h =
     (if vid < length (bhalMKeySet h) then
        let h = (if bhalMKeySet h ! vid \<noteq> 0 then emit (Reset_Key_Cmd (of_nat vid) MULTI_KEY_RST) h else h) in
        Some (h\<lparr>bhalMKeySet := (bhalMKeySet h)[vid := 0]\<rparr>)
      else None)"

definition phy_clr_key :: "nat \<Rightarrow> u16 \<Rightarrow> key_hal \<Rightarrow> key_hal" where
  "phy_clr_key vid StaAid h = emit (Reset_Key_Cmd (of_nat vid) (ucast StaAid)) h"

text \<open>\<open>memcpy\<close> of the key into the 32 byte field of a zeroed command.\<close>

definition copy_key :: "u8 list \<Rightarrow> nat \<Rightarrow> u8 list option" where
  "copy_key pKey n = (if n \<le> length pKey \<and> n \<le> 32 then Some (take n pKey @ replicate (32 - n) 0) else None)"

definition phy_set_ucast_key :: "nat \<Rightarrow> u16 \<Rightarrow> u8 list \<Rightarrow> u8 \<Rightarrow> u8 \<Rightarrow> u8 \<Rightarrow> key_hal \<Rightarrow> key_hal option" where
  "phy_set_ucast_key vid StaAid pKey keyLen encryType keyId h =
     (case copy_key pKey (unat keyLen) of
        None \<Rightarrow> None
      | Some key \<Rightarrow>
          let c = \<lparr>uc_vid = of_nat vid, uc_StaId = ucast StaAid, uc_KeyType = encryType, uc_KeyLen = keyLen,
                   uc_KeyId = keyId, uc_PNStep = (if encryType = WIFI_WPI then 2 else 1), uc_Key = key\<rparr>;
              h = emit (UniCast_Key_Set_Cmd c) (h\<lparr>sta_con_unitikey := Some c\<rparr>);
              s = unat StaAid in
          (case nth_opt (uRepCnt h) vid of
             None \<Rightarrow> None
           | Some us \<Rightarrow>
               (case nth_opt us s of
                  None \<Rightarrow> None
                | Some r \<Rightarrow>
                    hal_pn_win_init AML_UCAST_TYPE vid
                      (h\<lparr>uRepCnt := (uRepCnt h)[vid := us[s := hal_urep_cnt_init (dot11CamMode h) encryType r]]\<rparr>))))"

definition phy_set_mcast_key :: "nat \<Rightarrow> u8 list \<Rightarrow> u8 \<Rightarrow> u32 \<Rightarrow> u8 \<Rightarrow> u8 \<Rightarrow> key_hal \<Rightarrow> key_hal option" where
  "phy_set_mcast_key vid pKey keyLen keyId encryType AuthRole h =
     (let keyLen = (if encryType \<noteq> WIFI_WEP64 \<and> encryType \<noteq> WIFI_WEP128 \<and> encryType \<noteq> WIFI_WEP256 then 32 else keyLen) in
      case copy_key pKey (unat keyLen) of
        None \<Rightarrow> None
      | Some key \<Rightarrow>
          let c = \<lparr>mc_vid = of_nat vid, mc_KeyId = ucast keyId, mc_KeyType = encryType, mc_KeyLen = keyLen,
                   mc_AuthRole = AuthRole, mc_PNStep = 1, mc_Key = key\<rparr>;
              h = emit (Multicast_Key_Set_Cmd c) (h\<lparr>sta_con_multikey := Some c\<rparr>);
              h = h\<lparr>bhalMKeySet := (bhalMKeySet h)[0 := 1, 1 := 1, 2 := 1, 3 := 1]\<rparr> in
          (case nth_opt (mRepCnt h) vid of
             None \<Rightarrow> None
           | Some r \<Rightarrow>
               hal_pn_win_init AML_MCAST_TYPE vid (h\<lparr>mRepCnt := (mRepCnt h)[vid := hal_mrep_cnt_init encryType r]\<rparr>)))"

text \<open>The 40 bytes at \<open>rekey_data\<close> are kek, kck and the replay counter.\<close>

definition phy_set_rekey_data :: "nat \<Rightarrow> u8 list \<Rightarrow> u16 \<Rightarrow> key_hal \<Rightarrow> key_hal option" where
  "phy_set_rekey_data vid d StaAid h =
     (if length d < 40 then None
      else Some (emit (Rekey_Data_Set_Cmd
        \<lparr>rk_vid = of_nat vid, rk_StaId = ucast StaAid, rk_kek = take 16 d, rk_kck = take 16 (drop 16 d),
         rk_replay_counter = take 8 (drop 32 d)\<rparr>) h))"

section \<open>The driver\<close>

definition drv_hal_rekey_data_set :: "nat \<Rightarrow> u8 list \<Rightarrow> u16 \<Rightarrow> key_hal \<Rightarrow> key_hal option" where
  "drv_hal_rekey_data_set vid d staaid h = phy_set_rekey_data vid d (staaid AND 0xff) h"

definition drv_hal_keyclear :: "nat \<Rightarrow> int \<Rightarrow> key_hal \<Rightarrow> key_hal" where
  "drv_hal_keyclear vid staid h = phy_clr_key vid (word_of_int staid AND 0xff) h"

definition drv_hal_keyreset :: "nat \<Rightarrow> u16 \<Rightarrow> key_hal \<Rightarrow> key_hal option" where
  "drv_hal_keyreset vid ix h =
     (case phy_rst_all_key vid h of
        None \<Rightarrow> None
      | Some h \<Rightarrow> (case phy_rst_mcast_key vid h of None \<Rightarrow> None | Some h \<Rightarrow> phy_rst_ucast_key vid h))"

definition drv_hal_keyset :: "nat \<Rightarrow> u16 \<Rightarrow> hal_key_val \<Rightarrow> u8 list \<Rightarrow> u16 \<Rightarrow> key_hal \<Rightarrow> key_hal option" where
  "drv_hal_keyset vid ix pk mac staaid h =
     (let pk = (if kv_type pk = HAL_KEY_TYPE_WEP
                then pk\<lparr>kv_type := if kv_len pk = 13 then WIFI_WEP128 else WIFI_WEP64\<rparr> else pk) in
      case nth_opt mac 0 of
        None \<Rightarrow> None
      | Some m \<Rightarrow>
          if m AND 1 = 1
          then phy_set_mcast_key vid (kv_bytes pk) (ucast (kv_len pk)) (ucast ix) (kv_type pk) 1 h
          else phy_set_ucast_key vid (staaid AND 0xff) (kv_bytes pk) 32 (kv_type pk) (ucast ix) h)"

text \<open>\<open>associd_of\<close> is the station lookup of the interface followed by the read of its association id; \<open>None\<close>
  is a lookup that finds no station, whose result the code dereferences.\<close>

definition drv_key_set ::
    "(macaddr \<Rightarrow> u16 option) \<Rightarrow> nat \<Rightarrow> u16 \<Rightarrow> hal_key_val \<Rightarrow> u8 list option \<Rightarrow> key_hal \<Rightarrow> (int \<times> key_hal) option" where
  "drv_key_set associd_of vid key_index hk mac h =
     (let h = emit Driv_ps_wakeup h in
      case mac of
        None \<Rightarrow> None
      | Some mac \<Rightarrow>
          (case nth_opt mac 0 of
             None \<Rightarrow> None
           | Some m \<Rightarrow>
               (case (if m AND 1 = 1 then drv_hal_keyset vid key_index hk mac 0 h
                      else if kv_pad hk = WIFINET_M_HOSTAP then
                        (case associd_of mac of None \<Rightarrow> None | Some a \<Rightarrow> drv_hal_keyset vid key_index hk mac a h)
                      else drv_hal_keyset vid key_index hk mac 1 h) of
                  None \<Rightarrow> None
                | Some h \<Rightarrow> Some (1, emit Driv_ps_sleep h))))"

definition drv_key_rst_ex :: "nat \<Rightarrow> u16 \<Rightarrow> int \<Rightarrow> key_hal \<Rightarrow> key_hal option" where
  "drv_key_rst_ex vid key_index staid h =
     (let h = emit Driv_ps_wakeup h in
      case (if staid = 0 then drv_hal_keyreset vid key_index h else Some (drv_hal_keyclear vid staid h)) of
        None \<Rightarrow> None
      | Some h \<Rightarrow> Some (emit Driv_ps_sleep h))"

definition drv_rekey_data_set :: "nat \<Rightarrow> u8 list \<Rightarrow> key_hal \<Rightarrow> (int \<times> key_hal) option" where
  "drv_rekey_data_set vid d h =
     (case drv_hal_rekey_data_set vid d 1 (emit Driv_ps_wakeup h) of
        None \<Rightarrow> None
      | Some h \<Rightarrow> Some (1, emit Driv_ps_sleep h))"

section \<open>Installing and resetting\<close>

text \<open>The tables of \<^verbatim>\<open>hal_private\<close>, and the interface \<open>vid\<close> present.\<close>

definition hal_ok :: "nat \<Rightarrow> key_hal \<Rightarrow> bool" where
  "hal_ok vid h \<longleftrightarrow> vid < WIFI_MAX_VID
     \<and> length (uRepCnt h) = WIFI_MAX_VID \<and> (\<forall>us \<in> set (uRepCnt h). length us = WIFI_MAX_STA
          \<and> (\<forall>r \<in> set us. length (u_txPN r) = MAX_TX_QUEUE \<and> length (u_rxPN r) = MAX_RX_QUEUE))
     \<and> length (mRepCnt h) = WIFI_MAX_VID \<and> vid < length (drv_wnet_vif_table h) \<and> drv_wnet_vif_table h ! vid \<noteq> None
     \<and> length (bhalMKeySet h) = 4 \<and> length (bhalUKeySet h) = 4"

definition kv_ok :: "hal_key_val \<Rightarrow> bool" where
  "kv_ok k \<longleftrightarrow> length (kv_val k) = 16 \<and> length (kv_mic k) = 8 \<and> length (kv_txmic k) = 8"

lemma kv_bytes_len: "kv_ok k \<Longrightarrow> length (kv_bytes k) = 32"
  by (simp add: kv_ok_def kv_bytes_def)

lemma copy_key_32: "length p = 32 \<Longrightarrow> copy_key p 32 = Some p"
  by (simp add: copy_key_def)

lemma copy_key_prefix: "length p = 32 \<Longrightarrow> n \<le> 32 \<Longrightarrow> copy_key p n = Some (take n p @ replicate (32 - n) 0)"
  by (simp add: copy_key_def)

text \<open>The key type written to the command: WEP by its length, the others as they are.\<close>

definition cmd_type :: "hal_key_val \<Rightarrow> u8" where
  "cmd_type pk = (if kv_type pk = HAL_KEY_TYPE_WEP then if kv_len pk = 13 then WIFI_WEP128 else WIFI_WEP64 else kv_type pk)"

definition ucast_cmd :: "nat \<Rightarrow> u16 \<Rightarrow> u16 \<Rightarrow> hal_key_val \<Rightarrow> UniCastKeyCmd" where
  "ucast_cmd vid s ix pk = \<lparr>uc_vid = of_nat vid, uc_StaId = ucast s, uc_KeyType = cmd_type pk, uc_KeyLen = 32,
     uc_KeyId = ucast ix, uc_PNStep = (if cmd_type pk = WIFI_WPI then 2 else 1), uc_Key = kv_bytes pk\<rparr>"

lemma emit_sel [simp]:
  "uRepCnt (emit c h) = uRepCnt h" "mRepCnt (emit c h) = mRepCnt h" "drv_wnet_vif_table (emit c h) = drv_wnet_vif_table h"
  "dot11CamMode (emit c h) = dot11CamMode h" "bhalMKeySet (emit c h) = bhalMKeySet h" "bhalUKeySet (emit c h) = bhalUKeySet h"
  "hal_cmds (emit c h) = hal_cmds h @ [c]"
  by (simp_all add: emit_def)

text \<open>The association id read for the unicast key of \<open>mac\<close>.\<close>

definition key_staid :: "(macaddr \<Rightarrow> u16 option) \<Rightarrow> hal_key_val \<Rightarrow> macaddr \<Rightarrow> u16 option" where
  "key_staid associd_of hk mac =
     (if kv_pad hk = WIFINET_M_HOSTAP then map_option (\<lambda>a. a AND 0xff) (associd_of mac) else Some 1)"

lemma drv_key_set_ucast:
  assumes mac: "mac \<noteq> []" "(mac ! 0) AND 1 \<noteq> 1" and s: "key_staid associd_of hk mac = Some s" and kv: "kv_ok hk"
    and us: "vid < length (uRepCnt h)" and si: "unat s < length (uRepCnt h ! vid)"
    and v: "vid < length (drv_wnet_vif_table h)" "drv_wnet_vif_table h ! vid = Some v"
    and h': "h' = h\<lparr>sta_con_unitikey := Some (ucast_cmd vid s ix hk),
      uRepCnt := (uRepCnt h)[vid := (uRepCnt h ! vid)[unat s := hal_urep_cnt_init (dot11CamMode h) (cmd_type hk) (uRepCnt h ! vid ! unat s)]],
      drv_wnet_vif_table := (drv_wnet_vif_table h)[vid := Some (v\<lparr>ucast_win := (0, 0)\<rparr>)],
      hal_cmds := hal_cmds h @ [Driv_ps_wakeup, UniCast_Key_Set_Cmd (ucast_cmd vid s ix hk), Driv_ps_sleep]\<rparr>"
  shows "drv_key_set associd_of vid ix hk (Some mac) h = Some (1, h')"
proof -
  define pk where "pk = (if kv_type hk = HAL_KEY_TYPE_WEP
                then hk\<lparr>kv_type := if kv_len hk = 13 then WIFI_WEP128 else WIFI_WEP64\<rparr> else hk)"
  have pk: "kv_bytes pk = kv_bytes hk" "kv_type pk = cmd_type hk" by (simp_all add: pk_def kv_bytes_def cmd_type_def)
  have n0: "nth_opt mac 0 = Some (mac ! 0)" using mac(1) by (simp add: nth_opt_def)
  have set: "drv_hal_keyset vid ix hk mac a (emit Driv_ps_wakeup h) = Some (h\<lparr>sta_con_unitikey := Some (ucast_cmd vid s ix hk),
      uRepCnt := (uRepCnt h)[vid := (uRepCnt h ! vid)[unat s := hal_urep_cnt_init (dot11CamMode h) (cmd_type hk) (uRepCnt h ! vid ! unat s)]],
      drv_wnet_vif_table := (drv_wnet_vif_table h)[vid := Some (v\<lparr>ucast_win := (0, 0)\<rparr>)],
      hal_cmds := hal_cmds h @ [Driv_ps_wakeup, UniCast_Key_Set_Cmd (ucast_cmd vid s ix hk)]\<rparr>)" if a: "a AND 0xff = s" for a
    unfolding drv_hal_keyset_def Let_def pk_def [symmetric] n0 option.case if_not_P [OF mac(2)] pk a
    using us si v copy_key_32 [OF kv_bytes_len [OF kv]]
    by (simp add: phy_set_ucast_key_def Let_def hal_pn_win_init_def emit_def set_win_def ucast_cmd_def)
  show ?thesis
  proof (cases "kv_pad hk = WIFINET_M_HOSTAP")
    case True
    with s obtain a where a: "associd_of mac = Some a" "a AND 0xff = s" by (auto simp: key_staid_def)
    show ?thesis
      unfolding drv_key_set_def Let_def option.case n0 if_not_P [OF mac(2)] if_P [OF True] a(1) set [OF a(2)]
      by (simp add: h' emit_def)
  next
    case False
    then have "(1 :: u16) AND 0xff = s" using s by (simp add: key_staid_def)
    note set = set [OF this]
    show ?thesis
      unfolding drv_key_set_def Let_def option.case n0 if_not_P [OF mac(2)] if_not_P [OF False] set
      by (simp add: h' emit_def)
  qed
qed

lemma hal_urep_cnt_init_len:
  assumes "length (u_txPN r) = MAX_TX_QUEUE"
  shows "length (u_txPN (hal_urep_cnt_init c e r)) = MAX_TX_QUEUE" "length (u_rxPN (hal_urep_cnt_init c e r)) = MAX_RX_QUEUE"
  using assms by (simp_all add: hal_urep_cnt_init_def Let_def)

definition reps_ok :: "unicastReplayCnt list \<Rightarrow> bool" where
  "reps_ok us \<longleftrightarrow> length us = WIFI_MAX_STA
     \<and> (\<forall>r \<in> set us. length (u_txPN r) = MAX_TX_QUEUE \<and> length (u_rxPN r) = MAX_RX_QUEUE)"

lemma reps_ok_update:
  assumes "reps_ok us" "length (u_txPN i) = MAX_TX_QUEUE" "length (u_rxPN i) = MAX_RX_QUEUE"
  shows "reps_ok (us[s := i])"
proof -
  have "r \<in> set (us[s := i]) \<Longrightarrow> r = i \<or> r \<in> set us" for r
    using set_update_subset_insert [of us s i] by blast
  then show ?thesis using assms unfolding reps_ok_def by (metis length_list_update)
qed

lemma hal_ok_ucast_set:
  assumes ok: "hal_ok vid h" and s: "unat s < WIFI_MAX_STA"
    and h': "h' = h\<lparr>sta_con_unitikey := c,
      uRepCnt := (uRepCnt h)[vid := (uRepCnt h ! vid)[unat s := hal_urep_cnt_init cam e (uRepCnt h ! vid ! unat s)]],
      drv_wnet_vif_table := (drv_wnet_vif_table h)[vid := Some w], hal_cmds := cs\<rparr>"
  shows "hal_ok vid h'"
proof -
  have L: "vid < length (uRepCnt h)" and all: "\<forall>us \<in> set (uRepCnt h). reps_ok us"
    using ok by (auto simp: hal_ok_def reps_ok_def)
  have row: "reps_ok (uRepCnt h ! vid)" using L all by simp
  then have "length (u_txPN (uRepCnt h ! vid ! unat s)) = MAX_TX_QUEUE" using s by (simp add: reps_ok_def)
  from reps_ok_update [OF row hal_urep_cnt_init_len [OF this]]
  have new: "reps_ok ((uRepCnt h ! vid)[unat s := hal_urep_cnt_init cam e (uRepCnt h ! vid ! unat s)])" .
  have "reps_ok us" if "us \<in> set (uRepCnt h')" for us
    using that set_update_subset_insert [of "uRepCnt h" vid] new all unfolding h' by auto
  then show ?thesis using ok unfolding hal_ok_def reps_ok_def by (simp add: h')
qed

text \<open>Group keys: the command and the effect on the tables.\<close>

definition mcast_cmd :: "nat \<Rightarrow> u16 \<Rightarrow> hal_key_val \<Rightarrow> MultiCastKeyCmd" where
  "mcast_cmd vid ix pk =
     (let n = (if kv_type pk = HAL_KEY_TYPE_WEP \<or> cmd_type pk = WIFI_WEP128 \<or> cmd_type pk = WIFI_WEP256
               then ucast (kv_len pk) else 32) in
      \<lparr>mc_vid = of_nat vid, mc_KeyId = ucast ix, mc_KeyType = cmd_type pk, mc_KeyLen = n, mc_AuthRole = 1,
       mc_PNStep = 1, mc_Key = take (unat n) (kv_bytes pk) @ replicate (32 - unat n) 0\<rparr>)"

lemma drv_key_set_mcast:
  assumes mac: "mac \<noteq> []" "(mac ! 0) AND 1 = 1" and kv: "kv_ok hk" and len: "unat (ucast (kv_len hk) :: u8) \<le> 32"
    and ok: "hal_ok vid h"
  shows "\<exists>h'. drv_key_set f vid ix hk (Some mac) h = Some (1, h') \<and> hal_ok vid h'
    \<and> hal_cmds h' = hal_cmds h @ [Driv_ps_wakeup, Multicast_Key_Set_Cmd (mcast_cmd vid ix hk), Driv_ps_sleep]
    \<and> uRepCnt h' = uRepCnt h"
proof -
  have L: "vid < length (mRepCnt h)" "vid < length (drv_wnet_vif_table h)" using ok by (auto simp: hal_ok_def)
  obtain v where v: "drv_wnet_vif_table h ! vid = Some v" using ok by (auto simp: hal_ok_def)
  define pk where "pk = (if kv_type hk = HAL_KEY_TYPE_WEP
                then hk\<lparr>kv_type := if kv_len hk = 13 then WIFI_WEP128 else WIFI_WEP64\<rparr> else hk)"
  have pk: "kv_bytes pk = kv_bytes hk" "kv_type pk = cmd_type hk" "kv_len pk = kv_len hk"
    by (simp_all add: pk_def kv_bytes_def cmd_type_def)
  define n where "n = (if cmd_type hk \<noteq> WIFI_WEP64 \<and> cmd_type hk \<noteq> WIFI_WEP128 \<and> cmd_type hk \<noteq> WIFI_WEP256
    then 32 else (ucast (kv_len hk) :: u8))"
  have n32: "unat n \<le> 32" using len by (simp add: n_def)
  have n': "n = (if kv_type hk = HAL_KEY_TYPE_WEP \<or> cmd_type hk = WIFI_WEP128 \<or> cmd_type hk = WIFI_WEP256
               then ucast (kv_len hk) else 32)"
    by (auto simp: n_def cmd_type_def HAL_KEY_TYPE_WEP_def)
  have uu: "ucast (ucast ix :: u32) = (ucast ix :: u8)" by (rule bit_word_eqI) (simp add: bit_simps)
  have cmd: "mcast_cmd vid ix hk = \<lparr>mc_vid = of_nat vid, mc_KeyId = ucast (ucast ix :: u32), mc_KeyType = cmd_type hk, mc_KeyLen = n,
      mc_AuthRole = 1, mc_PNStep = 1, mc_Key = take (unat n) (kv_bytes hk) @ replicate (32 - unat n) 0\<rparr>"
    unfolding mcast_cmd_def Let_def n' [symmetric] uu ..
  define h1 where "h1 = h\<lparr>sta_con_multikey := Some (mcast_cmd vid ix hk),
      hal_cmds := hal_cmds h @ [Driv_ps_wakeup, Multicast_Key_Set_Cmd (mcast_cmd vid ix hk)],
      bhalMKeySet := (bhalMKeySet h)[0 := 1, 1 := 1, 2 := 1, 3 := 1],
      mRepCnt := (mRepCnt h)[vid := hal_mrep_cnt_init (cmd_type hk) (mRepCnt h ! vid)],
      drv_wnet_vif_table := (drv_wnet_vif_table h)[vid := Some (set_win AML_MCAST_TYPE (0, 0) v)]\<rparr>"
  have n0: "nth_opt mac 0 = Some (mac ! 0)" using mac(1) by (simp add: nth_opt_def)
  have copy: "copy_key (kv_bytes hk) (unat n) = Some (take (unat n) (kv_bytes hk) @ replicate (32 - unat n) 0)"
    by (rule copy_key_prefix [OF kv_bytes_len [OF kv] n32])
  have "drv_hal_keyset vid ix hk mac 0 (emit Driv_ps_wakeup h) = Some h1"
    unfolding drv_hal_keyset_def Let_def pk_def [symmetric] n0 option.case if_P [OF mac(2)] pk phy_set_mcast_key_def
      n_def [symmetric] copy cmd [symmetric]
    using L v by (simp add: hal_pn_win_init_def emit_def h1_def)
  then have "drv_key_set f vid ix hk (Some mac) h = Some (1, emit Driv_ps_sleep h1)"
    unfolding drv_key_set_def Let_def option.case n0 if_P [OF mac(2)] by simp
  moreover have "hal_ok vid (emit Driv_ps_sleep h1)" using ok by (auto simp: hal_ok_def h1_def)
  moreover have "hal_cmds (emit Driv_ps_sleep h1) = hal_cmds h @ [Driv_ps_wakeup, Multicast_Key_Set_Cmd (mcast_cmd vid ix hk), Driv_ps_sleep]"
    by (simp add: h1_def)
  moreover have "uRepCnt (emit Driv_ps_sleep h1) = uRepCnt h" by (simp add: h1_def)
  ultimately show ?thesis by blast
qed

text \<open>Setting a key never leaves the tables: a unicast key needs a station id of the table.\<close>

lemma drv_key_set_total:
  assumes ok: "hal_ok vid h" and kv: "kv_ok hk" and len: "unat (ucast (kv_len hk) :: u8) \<le> 32" and mac: "mac \<noteq> []"
    and st: "(mac ! 0) AND 1 \<noteq> 1 \<Longrightarrow> \<exists>s. key_staid f hk mac = Some s \<and> unat s < WIFI_MAX_STA"
  shows "\<exists>h'. drv_key_set f vid ix hk (Some mac) h = Some (1, h') \<and> hal_ok vid h'"
proof (cases "(mac ! 0) AND 1 = 1")
  case True
  then show ?thesis using drv_key_set_mcast [OF mac True kv len ok] by blast
next
  case False
  obtain s where s: "key_staid f hk mac = Some s" "unat s < WIFI_MAX_STA" using st [OF False] by blast
  have L: "vid < length (uRepCnt h)" "length (uRepCnt h ! vid) = WIFI_MAX_STA" "vid < length (drv_wnet_vif_table h)"
    using ok by (auto simp: hal_ok_def)
  obtain v where v: "drv_wnet_vif_table h ! vid = Some v" using ok by (auto simp: hal_ok_def)
  have si: "unat s < length (uRepCnt h ! vid)" using L(2) s(2) by simp
  show ?thesis using drv_key_set_ucast [OF mac False s(1) kv L(1) si L(3) v refl] hal_ok_ucast_set [OF ok s(2) refl] by blast
qed

text \<open>Installing a unicast key hands the firmware one command with the interface, the station, the key
  index and the 32 bytes of key and MIC keys, clears the window of the interface and the receive counter of
  the station, and starts its transmit counter at 1 again whatever it was: installing the same key once
  more repeats the nonces already used with it.\<close>

theorem key_install_resets_counters:
  assumes "hal_ok vid h" and "kv_ok hk" and "mac \<noteq> []" and "(mac ! 0) AND 1 \<noteq> 1"
    and "key_staid associd_of hk mac = Some s" and "unat s < WIFI_MAX_STA" and "cmd_type hk \<noteq> WIFI_WPI"
  shows "\<exists>h'. drv_key_set associd_of vid ix hk (Some mac) h = Some (1, h')
    \<and> hal_cmds h' = hal_cmds h @ [Driv_ps_wakeup, UniCast_Key_Set_Cmd (ucast_cmd vid s ix hk), Driv_ps_sleep]
    \<and> tx_counter h' False vid (unat s) = Some (1, 0)
    \<and> ucast_counter h' vid (unat s) = Some ((0, 0), (0, 0))
    \<and> (\<forall>t. t \<noteq> unat s \<longrightarrow> tx_counter h' False vid t = tx_counter h False vid t)
    \<and> hal_ok vid h'"
proof -
  have L: "vid < length (uRepCnt h)" "length (uRepCnt h ! vid) = WIFI_MAX_STA" "vid < length (drv_wnet_vif_table h)"
    using assms(1) by (auto simp: hal_ok_def)
  have si: "unat s < length (uRepCnt h ! vid)" using L(2) assms(6) by simp
  obtain v where v: "drv_wnet_vif_table h ! vid = Some v" using assms(1) by (auto simp: hal_ok_def)
  let ?r = "uRepCnt h ! vid ! unat s"
  let ?i = "hal_urep_cnt_init (dot11CamMode h) (cmd_type hk) ?r"
  define h' where "h' = h\<lparr>sta_con_unitikey := Some (ucast_cmd vid s ix hk),
      uRepCnt := (uRepCnt h)[vid := (uRepCnt h ! vid)[unat s := ?i]],
      drv_wnet_vif_table := (drv_wnet_vif_table h)[vid := Some (v\<lparr>ucast_win := (0, 0)\<rparr>)],
      hal_cmds := hal_cmds h @ [Driv_ps_wakeup, UniCast_Key_Set_Cmd (ucast_cmd vid s ix hk), Driv_ps_sleep]\<rparr>"
  have i: "u_txPN ?i = [(1, 0)]" "u_rxPN ?i = [(0, 0), (0, 0), (0, 0), (0, 0)]"
    using assms(7) by (simp_all add: hal_urep_cnt_init_def Let_def MAX_TX_QUEUE_def MAX_RX_QUEUE_def numeral_eq_Suc)
  have run: "drv_key_set associd_of vid ix hk (Some mac) h = Some (1, h')"
    by (rule drv_key_set_ucast [OF assms(3,4,5,2) L(1) si L(3) v h'_def])
  have row: "uRepCnt h' ! vid = (uRepCnt h ! vid)[unat s := ?i]" "length (uRepCnt h') = length (uRepCnt h)"
    using L(1) by (simp_all add: h'_def)
  have tx: "tx_counter h' False vid (unat s) = Some (1, 0)"
    using L(1) si row i by (simp add: tx_counter_def)
  have rx: "ucast_counter h' vid (unat s) = Some ((0, 0), (0, 0))"
    using L(1,3) si row i by (simp add: ucast_counter_def h'_def)
  have other: "tx_counter h' False vid t = tx_counter h False vid t" if "t \<noteq> unat s" for t
    using L(1) row that by (simp add: tx_counter_def nth_opt_def)
  have ok: "hal_ok vid h'" by (rule hal_ok_ucast_set [OF assms(1,6) h'_def])
  have "hal_cmds h' = hal_cmds h @ [Driv_ps_wakeup, UniCast_Key_Set_Cmd (ucast_cmd vid s ix hk), Driv_ps_sleep]"
    by (simp add: h'_def)
  then show ?thesis using run tx rx other ok by blast
qed

text \<open>Nothing ever marks a unicast key as set, so resetting the keys of an interface that has only unicast
  keys sends no reset command: after installing a unicast key and deleting it without an association id
  the firmware has been told to install it and nothing else.\<close>

theorem ucast_key_never_reset:
  assumes "hal_ok vid h" and "kv_ok hk" and "mac \<noteq> []" and "(mac ! 0) AND 1 \<noteq> 1"
    and "key_staid associd_of hk mac = Some s" and "unat s < WIFI_MAX_STA"
    and "bhalUKeySet h = [0, 0, 0, 0]" and "bhalMKeySet h = [0, 0, 0, 0]"
  shows "\<exists>h' h''. drv_key_set associd_of vid ix hk (Some mac) h = Some (1, h') \<and> drv_key_rst_ex vid ix 0 h' = Some h''
    \<and> hal_cmds h'' = hal_cmds h @ [Driv_ps_wakeup, UniCast_Key_Set_Cmd (ucast_cmd vid s ix hk), Driv_ps_sleep,
                                   Driv_ps_wakeup, Driv_ps_sleep]"
proof -
  have L: "vid < length (uRepCnt h)" "length (uRepCnt h ! vid) = WIFI_MAX_STA" "vid < length (drv_wnet_vif_table h)" "vid < 4"
    using assms(1) by (auto simp: hal_ok_def WIFI_MAX_VID_def)
  have si: "unat s < length (uRepCnt h ! vid)" using L(2) assms(6) by simp
  obtain v where v: "drv_wnet_vif_table h ! vid = Some v" using assms(1) by (auto simp: hal_ok_def)
  obtain h' where h': "h' = h\<lparr>sta_con_unitikey := Some (ucast_cmd vid s ix hk),
      uRepCnt := (uRepCnt h)[vid := (uRepCnt h ! vid)[unat s := hal_urep_cnt_init (dot11CamMode h) (cmd_type hk) (uRepCnt h ! vid ! unat s)]],
      drv_wnet_vif_table := (drv_wnet_vif_table h)[vid := Some (v\<lparr>ucast_win := (0, 0)\<rparr>)],
      hal_cmds := hal_cmds h @ [Driv_ps_wakeup, UniCast_Key_Set_Cmd (ucast_cmd vid s ix hk), Driv_ps_sleep]\<rparr>" by blast
  have run: "drv_key_set associd_of vid ix hk (Some mac) h = Some (1, h')"
    by (rule drv_key_set_ucast [OF assms(3,4,5,2) L(1) si L(3) v h'])
  have z: "bhalUKeySet h' = [0, 0, 0, 0]" "bhalMKeySet h' = [0, 0, 0, 0]" using assms(7,8) by (simp_all add: h')
  have vid: "vid = 0 \<or> vid = 1" using assms(1) by (auto simp: hal_ok_def WIFI_MAX_VID_def)
  have "drv_key_rst_ex vid ix 0 h' = Some (emit Driv_ps_sleep (emit Driv_ps_wakeup h'\<lparr>bhalMKeySet := [0, 0, 0, 0], bhalUKeySet := [0, 0, 0, 0]\<rparr>))"
    using vid by (elim disjE) (simp_all add: drv_key_rst_ex_def drv_hal_keyreset_def phy_rst_all_key_def
        phy_rst_mcast_key_def phy_rst_ucast_key_def Let_def z)
  moreover have "hal_cmds (emit Driv_ps_sleep (emit Driv_ps_wakeup h'\<lparr>bhalMKeySet := [0, 0, 0, 0], bhalUKeySet := [0, 0, 0, 0]\<rparr>))
      = hal_cmds h @ [Driv_ps_wakeup, UniCast_Key_Set_Cmd (ucast_cmd vid s ix hk), Driv_ps_sleep, Driv_ps_wakeup, Driv_ps_sleep]"
    by (simp add: h')
  ultimately show ?thesis using run by blast
qed

section \<open>Concrete instances\<close>

definition ex_key_hal :: key_hal where
  "ex_key_hal = \<lparr>uRepCnt = replicate 2 (replicate 16 (ex_rep 0)), mRepCnt = replicate 2 \<lparr>m_txPN = (1, 0), m_rxPN = (0, 0)\<rparr>,
     drv_wnet_vif_table = replicate 2 (Some \<lparr>ucast_win = (0, 0), mcast_win = (0, 0)\<rparr>), dot11CamMode = 1,
     bhalMKeySet = [0, 0, 0, 0], bhalUKeySet = [0, 0, 0, 0], sta_con_unitikey = None, sta_con_multikey = None, hal_cmds = []\<rparr>"

definition ex_kv :: hal_key_val where
  "ex_kv = \<lparr>kv_type = HAL_KEY_TYPE_AES, kv_pad = WIFINET_M_STA, kv_len = 16, kv_val = replicate 16 7,
     kv_mic = replicate 8 0, kv_txmic = replicate 8 0\<rparr>"

lemma ex_key_hal_ok: "hal_ok 0 ex_key_hal"
  by (simp add: hal_ok_def ex_key_hal_def ex_rep_def WIFI_MAX_VID_def WIFI_MAX_STA_def MAX_TX_QUEUE_def MAX_RX_QUEUE_def)

lemma ex_kv_ok: "kv_ok ex_kv" "key_staid f ex_kv m = Some 1" "cmd_type ex_kv \<noteq> WIFI_WPI"
  by (simp_all add: kv_ok_def ex_kv_def key_staid_def cmd_type_def opmode_defs key_type_defs)

lemma key_install_resets_counters_witness:
  "\<exists>h'. drv_key_set (\<lambda>_. None) 0 0 ex_kv (Some [2, 0, 0, 0, 0, 1]) ex_key_hal = Some (1, h')
    \<and> hal_cmds h' = hal_cmds ex_key_hal @ [Driv_ps_wakeup, UniCast_Key_Set_Cmd (ucast_cmd 0 1 0 ex_kv), Driv_ps_sleep]
    \<and> tx_counter h' False 0 1 = Some (1, 0)"
  using key_install_resets_counters [OF ex_key_hal_ok ex_kv_ok(1) _ _ ex_kv_ok(2) _ ex_kv_ok(3), of "[2, 0, 0, 0, 0, 1]" "\<lambda>_. None" 0]
  by (auto simp: WIFI_MAX_STA_def)

lemma ucast_key_never_reset_witness:
  "\<exists>h' h''. drv_key_set (\<lambda>_. None) 0 0 ex_kv (Some [2, 0, 0, 0, 0, 1]) ex_key_hal = Some (1, h')
    \<and> drv_key_rst_ex 0 0 0 h' = Some h''
    \<and> hal_cmds h'' = [Driv_ps_wakeup, UniCast_Key_Set_Cmd (ucast_cmd 0 1 0 ex_kv), Driv_ps_sleep, Driv_ps_wakeup, Driv_ps_sleep]"
  using ucast_key_never_reset [OF ex_key_hal_ok ex_kv_ok(1) _ _ ex_kv_ok(2), of "[2, 0, 0, 0, 0, 1]" "\<lambda>_. None" 0]
  by (auto simp: WIFI_MAX_STA_def ex_key_hal_def)

end
