(* ===== verification/Keys.thy ===== *)
theory Keys
  imports KeyHal
begin

text \<open>
  Key management: the security module \<^verbatim>\<open>wifi_mac_encrypt.c\<close> with its inline helpers, its callers in
  \<^verbatim>\<open>wifi_cfg80211.c\<close> (add, delete and default keys), the choice of the key of a transmitted frame
  (\<^verbatim>\<open>wifi_mac_xmit.c\<close>) and the removal of keys with a station (\<^verbatim>\<open>wifi_mac_sta.c\<close>). Stations are a heap
  addressed by numbers; a pointer to a key is a reference into the interface, so that the copies the code
  makes between keys are visible. The key-update hooks are never set, so they have no effect.
\<close>

section \<open>Data\<close>

datatype security = Cipher_none | Cipher_wpi | Cipher_ccmp | Cipher_cmac | Cipher_wep | Cipher_tkip

definition WIFINET_CIPHER_WEP :: nat where "WIFINET_CIPHER_WEP = 0"
definition WIFINET_CIPHER_TKIP :: nat where "WIFINET_CIPHER_TKIP = 1"
definition WIFINET_CIPHER_AES_CCM :: nat where "WIFINET_CIPHER_AES_CCM = 3"
definition WIFINET_CIPHER_WPI :: nat where "WIFINET_CIPHER_WPI = 4"
definition WIFINET_CIPHER_AES_CMAC :: nat where "WIFINET_CIPHER_AES_CMAC = 5"
definition WIFINET_CIPHER_NONE :: nat where "WIFINET_CIPHER_NONE = 9"
definition WIFINET_CIPHER_MAX :: nat where "WIFINET_CIPHER_MAX = WIFINET_CIPHER_NONE + 1"

lemmas cipher_id_defs = WIFINET_CIPHER_WEP_def WIFINET_CIPHER_TKIP_def WIFINET_CIPHER_AES_CCM_def
  WIFINET_CIPHER_WPI_def WIFINET_CIPHER_AES_CMAC_def WIFINET_CIPHER_NONE_def WIFINET_CIPHER_MAX_def

definition WIFINET_KEY_XMIT :: u8 where "WIFINET_KEY_XMIT = 0x01"
definition WIFINET_KEY_RECV :: u8 where "WIFINET_KEY_RECV = 0x02"
definition WIFINET_KEY_GROUP :: u8 where "WIFINET_KEY_GROUP = 0x04"
definition WIFINET_KEY_SWMIC :: u8 where "WIFINET_KEY_SWMIC = 0x20"
definition WIFINET_KEY_NOFREE :: u8 where "WIFINET_KEY_NOFREE = 0x40"
definition WIFINET_KEY_DEFAULT :: u8 where "WIFINET_KEY_DEFAULT = 0x80"
definition WIFINET_KEY_COMMON :: u8 where
  "WIFINET_KEY_COMMON = WIFINET_KEY_XMIT OR WIFINET_KEY_RECV OR WIFINET_KEY_GROUP"

lemmas key_flag_defs = WIFINET_KEY_XMIT_def WIFINET_KEY_RECV_def WIFINET_KEY_GROUP_def WIFINET_KEY_SWMIC_def
  WIFINET_KEY_NOFREE_def WIFINET_KEY_DEFAULT_def WIFINET_KEY_COMMON_def

definition WIFINET_WEP_NKID :: nat where "WIFINET_WEP_NKID = 4"
definition WIFINET_KEYIX_NONE :: u16 where "WIFINET_KEYIX_NONE = 0xff"
definition DEF_KEYIX_NONE :: u8 where "DEF_KEYIX_NONE = 0xff"
definition WIFINET_KEYBUF_SIZE :: nat where "WIFINET_KEYBUF_SIZE = 16"
definition WIFINET_MICBUF_SIZE :: nat where "WIFINET_MICBUF_SIZE = 16"
definition WIFINET_TID_SIZE :: nat where "WIFINET_TID_SIZE = 17"
definition WIFINET_F_PRIVACY :: u32 where "WIFINET_F_PRIVACY = 0x00000010"
definition WIFINET_F_COUNTERM :: u32 where "WIFINET_F_COUNTERM = 0x04000000"

definition E2BIG :: int where "E2BIG = 7"
definition ENXIO :: int where "ENXIO = 6"
definition ENOTSUPP :: int where "ENOTSUPP = 524"

text \<open>A NULL cipher is \<open>None\<close>; \<open>wk_private\<close> is either NULL or the interface.\<close>

record wifi_mac_key =
  wk_keylen :: u8
  wk_flags :: u8
  wk_key_type :: u8
  wk_valid :: u8
  wk_keyix :: u16
  wk_key :: "u8 list"
  wk_keyrsc :: "u8 list"
  wk_keytsc :: u64
  wk_cipher :: "security option"
  wk_private :: bool
  wk_clearkeyix :: u16

definition zero_key :: wifi_mac_key where
  "zero_key = \<lparr>wk_keylen = 0, wk_flags = 0, wk_key_type = 0, wk_valid = 0, wk_keyix = 0, wk_key = replicate 32 0,
     wk_keyrsc = replicate 17 0, wk_keytsc = 0, wk_cipher = None, wk_private = False, wk_clearkeyix = 0\<rparr>"

definition wk_txmic :: "wifi_mac_key \<Rightarrow> u8 list" where
  "wk_txmic k = take 8 (drop WIFINET_KEYBUF_SIZE (wk_key k))"

definition wk_rxmic :: "wifi_mac_key \<Rightarrow> u8 list" where
  "wk_rxmic k = take 8 (drop (WIFINET_KEYBUF_SIZE + 8) (wk_key k))"

datatype sta_connect_status = CONNECT_IDLE | CONNECT_FOUR_WAY_HANDSHAKE_COMPLETED | CONNECT_DHCP_GET_ACK

datatype wifi_mac_recovery_state =
    WIFINET_RECOVERY_INIT | WIFINET_RECOVERY_START | WIFINET_RECOVERY_UNDER_CONNECT
  | WIFINET_RECOVERY_VIF_UP | WIFINET_RECOVERY_END

record wifi_station =
  sta_macaddr :: macaddr
  sta_bssid :: macaddr
  sta_vif_id :: nat
  sta_associd :: u16
  sta_ucastkey :: wifi_mac_key
  pmf_key :: wifi_mac_key
  connect_status :: sta_connect_status
  is_disconnecting :: u8

record vif_sts =
  sts_key_type_err :: u32
  sts_key_drop :: u32
  sts_key_id_err :: u32
  sts_tx_key_err :: u32
  sts_headroom_err :: u32
  sts_rx_too_short :: u32

text \<open>\<open>sta_heap\<close>, \<open>nt_nsta\<close> and \<open>nt_wds\<close> are the station table; \<open>key_work\<close> holds the key deletions queued
  for the work task (interface, key index, station id); \<open>msleeps\<close> counts the 10 ms sleeps.\<close>

record wlan_net_vif =
  wnet_vif_id :: nat
  vm_opmode :: u8
  vm_flags :: u32
  vm_def_txkey :: u8
  vm_def_mgmt_txkey :: u8
  vm_nw_keys :: "wifi_mac_key list"
  vm_myaddr :: macaddr
  vm_mainsta :: "nat option"
  sta_heap :: "nat \<Rightarrow> wifi_station option"
  nt_nsta :: "nat list"
  nt_wds :: "(macaddr \<times> nat) list"
  current_keytype :: u32
  vif_sts :: vif_sts
  recovery_stat :: wifi_mac_recovery_state
  vm_max_aid :: nat
  vm_aid_bitmap :: "u32 list"
  msleeps :: nat
  key_work :: "(nat \<times> u16 \<times> int) list"
  key_hal :: key_hal

datatype key_ref = Nw_key nat | Ucast_key nat | Pmf_key nat

fun get_key :: "wlan_net_vif \<Rightarrow> key_ref \<Rightarrow> wifi_mac_key option" where
  "get_key v (Nw_key i) = nth_opt (vm_nw_keys v) i"
| "get_key v (Ucast_key s) = map_option sta_ucastkey (sta_heap v s)"
| "get_key v (Pmf_key s) = map_option pmf_key (sta_heap v s)"

fun put_key :: "key_ref \<Rightarrow> wifi_mac_key \<Rightarrow> wlan_net_vif \<Rightarrow> wlan_net_vif" where
  "put_key (Nw_key i) k v = v\<lparr>vm_nw_keys := (vm_nw_keys v)[i := k]\<rparr>"
| "put_key (Ucast_key s) k v =
     v\<lparr>sta_heap := (sta_heap v)(s := map_option (\<lambda>t. t\<lparr>sta_ucastkey := k\<rparr>) (sta_heap v s))\<rparr>"
| "put_key (Pmf_key s) k v =
     v\<lparr>sta_heap := (sta_heap v)(s := map_option (\<lambda>t. t\<lparr>pmf_key := k\<rparr>) (sta_heap v s))\<rparr>"

definition bump_sts :: "((u32 \<Rightarrow> u32) \<Rightarrow> vif_sts \<Rightarrow> vif_sts) \<Rightarrow> wlan_net_vif \<Rightarrow> wlan_net_vif" where
  "bump_sts f v = v\<lparr>vif_sts := f (\<lambda>n. n + 1) (vif_sts v)\<rparr>"

section \<open>Stations\<close>

text \<open>\<open>wifi_mac_find_sta\<close>: the station list, then the bucket of the WDS table; the entries of a bucket keep
  their order in \<open>nt_wds\<close>.\<close>

fun find_nsta :: "(nat \<Rightarrow> wifi_station option) \<Rightarrow> macaddr \<Rightarrow> nat \<Rightarrow> nat list \<Rightarrow> nat option" where
  "find_nsta heap mac vid [] = None"
| "find_nsta heap mac vid (s # ss) =
     (case heap s of
        None \<Rightarrow> find_nsta heap mac vid ss
      | Some t \<Rightarrow> if sta_macaddr t = mac \<and> sta_vif_id t = vid then Some s else find_nsta heap mac vid ss)"

definition wifi_mac_find_sta :: "wlan_net_vif \<Rightarrow> macaddr \<Rightarrow> nat \<Rightarrow> nat option" where
  "wifi_mac_find_sta v mac vid =
     (case find_nsta (sta_heap v) mac vid (nt_nsta v) of
        Some s \<Rightarrow> Some s
      | None \<Rightarrow> map_of (nt_wds v) mac)"

definition wifi_mac_get_sta :: "wlan_net_vif \<Rightarrow> macaddr \<Rightarrow> nat \<Rightarrow> nat option" where
  "wifi_mac_get_sta v mac vid = wifi_mac_find_sta v mac vid"

definition associd_of :: "wlan_net_vif \<Rightarrow> macaddr \<Rightarrow> u16 option" where
  "associd_of v mac =
     (case wifi_mac_get_sta v mac (wnet_vif_id v) of
        None \<Rightarrow> None
      | Some s \<Rightarrow> map_option sta_associd (sta_heap v s))"

text \<open>The callback of the replay check.\<close>

definition drv_get_sta_id :: "wlan_net_vif \<Rightarrow> macaddr \<Rightarrow> nat \<Rightarrow> nat option" where
  "drv_get_sta_id v mac vid =
     (case wifi_mac_get_sta v mac vid of
        None \<Rightarrow> None
      | Some s \<Rightarrow>
          if vm_opmode v = WIFINET_M_STA then Some 1
          else map_option (\<lambda>t. unat (sta_associd t AND 0xff)) (sta_heap v s))"

definition wifi_softap_allsta_stopping :: "u8 \<Rightarrow> wlan_net_vif \<Rightarrow> wlan_net_vif" where
  "wifi_softap_allsta_stopping d v =
     v\<lparr>sta_heap := (\<lambda>s. if s \<in> set (nt_nsta v) then map_option (\<lambda>t. t\<lparr>is_disconnecting := d\<rparr>) (sta_heap v s)
                         else sta_heap v s)\<rparr>"

section \<open>The cipher modules\<close>

primrec wm_cipher :: "security \<Rightarrow> nat" where
  "wm_cipher Cipher_none = WIFINET_CIPHER_NONE"
| "wm_cipher Cipher_wpi = WIFINET_CIPHER_WPI"
| "wm_cipher Cipher_ccmp = WIFINET_CIPHER_AES_CCM"
| "wm_cipher Cipher_cmac = WIFINET_CIPHER_AES_CMAC"
| "wm_cipher Cipher_wep = WIFINET_CIPHER_WEP"
| "wm_cipher Cipher_tkip = WIFINET_CIPHER_TKIP"

primrec wm_header :: "security \<Rightarrow> nat" where
  "wm_header Cipher_none = 0"
| "wm_header Cipher_wpi = 18"
| "wm_header Cipher_ccmp = 8"
| "wm_header Cipher_cmac = 8"
| "wm_header Cipher_wep = 4"
| "wm_header Cipher_tkip = 8"

primrec wm_trailer :: "security \<Rightarrow> nat" where
  "wm_trailer Cipher_none = 0"
| "wm_trailer Cipher_wpi = 16"
| "wm_trailer Cipher_ccmp = 8"
| "wm_trailer Cipher_cmac = 8"
| "wm_trailer Cipher_wep = 4"
| "wm_trailer Cipher_tkip = 4"

primrec wm_miclen :: "security \<Rightarrow> nat" where
  "wm_miclen Cipher_none = 0"
| "wm_miclen Cipher_wpi = 0"
| "wm_miclen Cipher_ccmp = 0"
| "wm_miclen Cipher_cmac = 0"
| "wm_miclen Cipher_wep = 0"
| "wm_miclen Cipher_tkip = 0"

text \<open>Every \<open>wm_attach\<close> returns the interface; no \<open>wm_detach\<close> does anything.\<close>

definition wm_attach :: "security \<Rightarrow> bool" where "wm_attach c = True"

definition tkip_setkey :: "wifi_mac_key \<Rightarrow> int \<times> wifi_mac_key" where
  "tkip_setkey k = (if unat (wk_keylen k) \<noteq> 16 then (0, k) else (1, k\<lparr>wk_keytsc := 1\<rparr>))"

definition wm_setkey :: "security \<Rightarrow> wifi_mac_key \<Rightarrow> int \<times> wifi_mac_key" where
  "wm_setkey c k = (case c of Cipher_tkip \<Rightarrow> tkip_setkey k | _ \<Rightarrow> (1, k))"

definition tkip_encap :: "u32 \<Rightarrow> wifi_mac_key \<Rightarrow> (int \<times> wifi_mac_key) option" where
  "tkip_encap flags k =
     (if \<not> wk_private k then None
      else if flags AND WIFINET_F_COUNTERM \<noteq> 0 then Some (0, k)
      else Some (1, k\<lparr>wk_keytsc := wk_keytsc k + 1\<rparr>))"

definition wm_encap :: "security \<Rightarrow> u32 \<Rightarrow> wifi_mac_key \<Rightarrow> (int \<times> wifi_mac_key) option" where
  "wm_encap c flags k =
     (case c of Cipher_none \<Rightarrow> Some (0, k) | Cipher_tkip \<Rightarrow> tkip_encap flags k | _ \<Rightarrow> Some (1, k))"

definition wm_decap :: "security \<Rightarrow> int" where
  "wm_decap c = (if c = Cipher_none then 0 else 1)"

text \<open>\<open>wifi_mac_security_attach\<close> fills the table.\<close>

definition security_type :: "nat \<Rightarrow> security option" where
  "security_type c =
     (if c = WIFINET_CIPHER_NONE then Some Cipher_none
      else if c = WIFINET_CIPHER_WPI then Some Cipher_wpi
      else if c = WIFINET_CIPHER_AES_CCM then Some Cipher_ccmp
      else if c = WIFINET_CIPHER_AES_CMAC then Some Cipher_cmac
      else if c = WIFINET_CIPHER_WEP then Some Cipher_wep
      else if c = WIFINET_CIPHER_TKIP then Some Cipher_tkip
      else None)"

section \<open>The security module\<close>

definition wifi_mac_security_resetkey :: "u16 \<Rightarrow> wifi_mac_key \<Rightarrow> wifi_mac_key" where
  "wifi_mac_security_resetkey ix k =
     k\<lparr>wk_cipher := Some Cipher_none, wk_private := wm_attach Cipher_none, wk_keyix := ix,
       wk_flags := WIFINET_KEY_XMIT OR WIFINET_KEY_RECV\<rparr>"

definition wifi_mac_security_vattach :: "wlan_net_vif \<Rightarrow> wlan_net_vif" where
  "wifi_mac_security_vattach v =
     v\<lparr>vm_def_txkey := DEF_KEYIX_NONE,
       vm_nw_keys := map (wifi_mac_security_resetkey WIFINET_KEYIX_NONE) (take WIFINET_WEP_NKID (vm_nw_keys v))
                     @ drop WIFINET_WEP_NKID (vm_nw_keys v)\<rparr>"

definition wifi_mac_security_req :: "nat \<Rightarrow> u8 \<Rightarrow> key_ref \<Rightarrow> wlan_net_vif \<Rightarrow> (int \<times> wlan_net_vif) option" where
  "wifi_mac_security_req cipher flags r v =
     (case get_key v r of
        None \<Rightarrow> None
      | Some key \<Rightarrow>
          if cipher \<ge> WIFINET_CIPHER_MAX then Some (0, bump_sts sts_key_type_err_update v)
          else
            (case security_type cipher of
               None \<Rightarrow> Some (0, v)
             | Some cip \<Rightarrow>
                 let oflags = wk_flags key;
                     flags = flags AND WIFINET_KEY_COMMON;
                     flags = (if cipher = WIFINET_CIPHER_TKIP then flags OR WIFINET_KEY_SWMIC else flags) in
                 if wk_cipher key \<noteq> Some cip \<or> wk_flags key \<noteq> flags then
                   if \<not> wm_attach cip then Some (0, put_key r (key\<lparr>wk_flags := oflags\<rparr>) v)
                   else if wk_cipher key = None then None
                   else Some (1, put_key r (key\<lparr>wk_cipher := Some cip, wk_private := True, wk_flags := flags\<rparr>) v)
                 else Some (1, put_key r (key\<lparr>wk_flags := flags\<rparr>) v)))"

definition wifi_mac_key_delete :: "u16 \<Rightarrow> nat option \<Rightarrow> wlan_net_vif \<Rightarrow> (int \<times> wlan_net_vif) option" where
  "wifi_mac_key_delete keyix sta v =
     (case sta of
        None \<Rightarrow> None
      | Some s \<Rightarrow>
          (case sta_heap v s of
             None \<Rightarrow> None
           | Some t \<Rightarrow>
               let staid = uint (sta_associd t AND 0xff) in
               Some (1, v\<lparr>key_work := key_work v @ [(wnet_vif_id v, keyix, staid)]\<rparr>)))"

definition wifi_mac_security_delkey :: "key_ref \<Rightarrow> nat option \<Rightarrow> wlan_net_vif \<Rightarrow> (int \<times> wlan_net_vif) option" where
  "wifi_mac_security_delkey r sta v =
     (case get_key v r of
        None \<Rightarrow> None
      | Some key \<Rightarrow>
          if wk_cipher key = None then None
          else
            (case (if wk_keyix key \<noteq> WIFINET_KEYIX_NONE then wifi_mac_key_delete (wk_keyix key) sta v
                   else Some (1, v)) of
               None \<Rightarrow> None
             | Some (_, v) \<Rightarrow>
                 Some (1, put_key r (wifi_mac_security_resetkey WIFINET_KEYIX_NONE zero_key) v)))"

definition wifi_mac_sec_delt_key :: "key_ref \<Rightarrow> nat option \<Rightarrow> wlan_net_vif \<Rightarrow> (int \<times> wlan_net_vif) option" where
  "wifi_mac_sec_delt_key r sta v = wifi_mac_security_delkey r sta v"

fun delt_keys :: "nat list \<Rightarrow> wlan_net_vif \<Rightarrow> wlan_net_vif option" where
  "delt_keys [] v = Some v"
| "delt_keys (i # is) v =
     (case wifi_mac_security_delkey (Nw_key i) (vm_mainsta v) v of None \<Rightarrow> None | Some (_, v) \<Rightarrow> delt_keys is v)"

definition wifi_mac_security_delt_default_key :: "wlan_net_vif \<Rightarrow> wlan_net_vif option" where
  "wifi_mac_security_delt_default_key v = delt_keys [0 ..< WIFINET_WEP_NKID] v"

definition wifi_mac_security_vdetach :: "wlan_net_vif \<Rightarrow> wlan_net_vif option" where
  "wifi_mac_security_vdetach v = wifi_mac_security_delt_default_key v"

definition ciphermap :: "u8 list" where
  "ciphermap = [HAL_KEY_TYPE_WEP, HAL_KEY_TYPE_TKIP, HAL_KEY_TYPE_AES, HAL_KEY_TYPE_AES, HAL_KEY_TYPE_WPI, HAL_KEY_TYPE_CLEAR]"

definition group_mac :: "macaddr \<Rightarrow> macaddr" where
  "group_mac m = m[0 := (m ! 0) OR 0x01]"

definition drv_set :: "u16 \<Rightarrow> hal_key_val \<Rightarrow> macaddr option \<Rightarrow> wlan_net_vif \<Rightarrow> (int \<times> wlan_net_vif) option" where
  "drv_set keyix hk mac v =
     (case drv_key_set (associd_of v) (wnet_vif_id v) keyix hk mac (key_hal v) of
        None \<Rightarrow> None
      | Some (st, h) \<Rightarrow> Some (st, v\<lparr>key_hal := h\<rparr>))"

definition wifi_mac_keyset_tkip :: "wifi_mac_key \<Rightarrow> hal_key_val \<Rightarrow> macaddr option \<Rightarrow> wlan_net_vif \<Rightarrow> (int \<times> wlan_net_vif) option" where
  "wifi_mac_keyset_tkip k hk mac v = drv_set (wk_keyix k) (hk\<lparr>kv_mic := wk_rxmic k, kv_txmic := wk_txmic k\<rparr>) mac v"

text \<open>A WEP group key becomes the unicast key of the main station.\<close>

definition copy_wep :: "wifi_mac_key \<Rightarrow> wlan_net_vif \<Rightarrow> wlan_net_vif option" where
  "copy_wep k v =
     (case vm_mainsta v of
        None \<Rightarrow> None
      | Some s \<Rightarrow>
          (case sta_heap v s of
             None \<Rightarrow> None
           | Some _ \<Rightarrow> Some (put_key (Ucast_key s) (k\<lparr>wk_flags := wk_flags k OR WIFINET_KEY_NOFREE\<rparr>) v)))"

text \<open>The address a key is set for, and the copy of a WEP group key; \<open>Inr ()\<close> is the jump to \<open>done\<close> with
  status 0.\<close>

definition key_target :: "wifi_mac_key \<Rightarrow> u8 \<Rightarrow> macaddr \<Rightarrow> wlan_net_vif \<Rightarrow> ((macaddr option \<times> wlan_net_vif) + unit) option" where
  "key_target k kvtype peermac v =
     (let opmode = vm_opmode v in
      if wk_flags k AND WIFINET_KEY_GROUP \<noteq> 0 then
        if opmode = WIFINET_M_STA then
          (case (if kvtype = HAL_KEY_TYPE_WEP then copy_wep k v else Some v) of
             None \<Rightarrow> None
           | Some v \<Rightarrow> Some (Inl (Some (group_mac peermac), v)))
        else if opmode = WIFINET_M_IBSS then
          if wk_flags k AND WIFINET_KEY_RECV \<noteq> 0 then Some (Inl (Some (group_mac peermac), v))
          else if wk_flags k AND WIFINET_KEY_XMIT \<noteq> 0 then Some (Inl (Some (group_mac peermac), v))
          else Some (Inr ())
        else if opmode = WIFINET_M_HOSTAP then
          (case (if kvtype = HAL_KEY_TYPE_WEP then copy_wep k v else Some v) of
             None \<Rightarrow> None
           | Some v \<Rightarrow> Some (Inl (Some (group_mac peermac), v)))
        else Some (Inl (None, v))
      else if kvtype = HAL_KEY_TYPE_WEP \<or> opmode = WIFINET_M_IBSS then Some (Inl (Some (group_mac peermac), v))
      else Some (Inl (Some peermac, v)))"

definition wifi_mac_key_set :: "wifi_mac_key \<Rightarrow> macaddr \<Rightarrow> wlan_net_vif \<Rightarrow> (int \<times> wlan_net_vif) option" where
  "wifi_mac_key_set k peermac v =
     (case wk_cipher k of
        None \<Rightarrow> Some (0, v)
      | Some cip \<Rightarrow>
          if wk_keyix k = WIFINET_KEYIX_NONE then Some (0, v)
          else if \<not> wm_cipher cip < length ciphermap then None
          else if unat (wk_keylen k) > 16 then None
          else
            let kvtype = ciphermap ! wm_cipher cip;
                n = unat (wk_keylen k);
                hk = \<lparr>kv_type = kvtype, kv_pad = vm_opmode v, kv_len = ucast (wk_keylen k),
                      kv_val = take n (wk_key k) @ replicate (16 - n) 0, kv_mic = replicate 8 0, kv_txmic = replicate 8 0\<rparr>;
                v = v\<lparr>current_keytype := of_nat (wm_cipher cip)\<rparr> in
            (case key_target k kvtype peermac v of
               None \<Rightarrow> None
             | Some (Inr _) \<Rightarrow> Some (0, v)
             | Some (Inl (mac, v)) \<Rightarrow>
                 if kvtype = HAL_KEY_TYPE_TKIP then wifi_mac_keyset_tkip k hk mac v
                 else (case drv_set (wk_keyix k) hk mac v of
                         None \<Rightarrow> None
                       | Some (st, v) \<Rightarrow> Some (if st \<noteq> 0 then 1 else 0, v))))"

definition wifi_mac_security_setkey :: "key_ref \<Rightarrow> macaddr \<Rightarrow> wlan_net_vif \<Rightarrow> (int \<times> wlan_net_vif) option" where
  "wifi_mac_security_setkey r macaddr v =
     (case get_key v r of
        None \<Rightarrow> None
      | Some key \<Rightarrow>
          (case wk_cipher key of
             None \<Rightarrow> None
           | Some cip \<Rightarrow>
               (case wm_setkey cip key of (ok, key) \<Rightarrow>
                  let v = put_key r key v in
                  if ok = 0 then Some (0, bump_sts sts_key_drop_update v)
                  else if wk_keyix key = WIFINET_KEYIX_NONE then Some (0, bump_sts sts_key_id_err_update v)
                  else wifi_mac_key_set key macaddr v)))"

definition wifi_mac_security_set_rekey_data :: "u8 list \<Rightarrow> wlan_net_vif \<Rightarrow> (int \<times> wlan_net_vif) option" where
  "wifi_mac_security_set_rekey_data d v =
     (case drv_rekey_data_set (wnet_vif_id v) d (key_hal v) of
        None \<Rightarrow> None
      | Some (st, h) \<Rightarrow> Some (if st \<noteq> 0 then 1 else 0, v\<lparr>key_hal := h\<rparr>))"

text \<open>The key of a frame: \<open>mcast\<close> tells that its first address is a group address.\<close>

definition wifi_mac_security_encap :: "nat \<Rightarrow> bool \<Rightarrow> nat \<Rightarrow> wlan_net_vif \<Rightarrow> (key_ref option \<times> wlan_net_vif) option" where
  "wifi_mac_security_encap s mcast hdrspace v =
     (case sta_heap v s of
        None \<Rightarrow> None
      | Some t \<Rightarrow>
          (let dflt = mcast \<or> wk_cipher (sta_ucastkey t) = Some Cipher_none in
           if dflt \<and> vm_def_txkey v = DEF_KEYIX_NONE then Some (None, bump_sts sts_tx_key_err_update v)
           else
             let r = (if dflt then Nw_key (unat (vm_def_txkey v)) else Ucast_key s) in
             (case get_key v r of
                None \<Rightarrow> None
              | Some k \<Rightarrow>
                  (case wk_cipher k of
                     None \<Rightarrow> None
                   | Some cip \<Rightarrow>
                       if hdrspace < wm_header cip then Some (None, bump_sts sts_headroom_err_update v)
                       else
                         (case wm_encap cip (vm_flags v) k of
                            None \<Rightarrow> None
                          | Some (ok, k) \<Rightarrow> Some (if ok \<noteq> 0 then Some r else None, put_key r k v))))))"

text \<open>\<open>sizeof(struct wifi_frame)\<close> is 24.\<close>

definition wifi_mac_security_decap :: "nat \<Rightarrow> bool \<Rightarrow> nat \<Rightarrow> wlan_net_vif \<Rightarrow> (key_ref option \<times> wlan_net_vif) option" where
  "wifi_mac_security_decap s mcast pktlen v =
     (if pktlen < 24 then Some (None, bump_sts sts_rx_too_short_update v)
      else
        (case sta_heap v s of
           None \<Rightarrow> None
         | Some t \<Rightarrow>
             let r = (if mcast \<or> wk_cipher (sta_ucastkey t) = Some Cipher_none
                      then Nw_key (if vm_def_txkey v = 1 \<or> vm_def_txkey v = 2 then unat (vm_def_txkey v) else 1)
                      else Ucast_key s) in
             (case get_key v r of
                None \<Rightarrow> None
              | Some k \<Rightarrow>
                  if wk_keyix k = WIFINET_KEYIX_NONE then Some (None, v)
                  else
                    (case wk_cipher k of
                       None \<Rightarrow> None
                     | Some cip \<Rightarrow>
                         if pktlen < 24 + wm_miclen cip then Some (None, bump_sts sts_rx_too_short_update v)
                         else Some (if wm_decap cip \<noteq> 0 then Some r else None, v)))))"

text \<open>The software MIC operations run only for a cipher with a MIC length; \<open>op\<close> is what they answer.\<close>

definition wifi_mac_security_demic :: "security \<Rightarrow> int \<Rightarrow> int" where
  "wifi_mac_security_demic cip op = (if wm_miclen cip > 0 then op else 1)"

definition wifi_mac_security_enmic :: "security \<Rightarrow> int \<Rightarrow> int" where
  "wifi_mac_security_enmic cip op = (if wm_miclen cip > 0 then op else 1)"

section \<open>The transmit path\<close>

definition KEY_UNDEFINED :: "wifi_mac_key \<Rightarrow> bool" where
  "KEY_UNDEFINED k \<longleftrightarrow> wk_cipher k = Some Cipher_none"

definition wifi_mac_security_getmcastkey :: "wlan_net_vif \<Rightarrow> key_ref option option" where
  "wifi_mac_security_getmcastkey v =
     (if vm_def_txkey v = DEF_KEYIX_NONE then Some None
      else
        (case get_key v (Nw_key (unat (vm_def_txkey v))) of
           None \<Rightarrow> None
         | Some k \<Rightarrow> if KEY_UNDEFINED k then Some None else Some (Some (Nw_key (unat (vm_def_txkey v))))))"

definition wifi_mac_security_getucastkey :: "nat \<Rightarrow> wlan_net_vif \<Rightarrow> key_ref option option" where
  "wifi_mac_security_getucastkey s v =
     (case sta_heap v s of
        None \<Rightarrow> None
      | Some t \<Rightarrow>
          if KEY_UNDEFINED (sta_ucastkey t) then wifi_mac_security_getmcastkey v
          else Some (Some (Ucast_key s)))"

text \<open>The choice of the key in \<open>wifi_mac_encap\<close>: \<open>None\<close> in the inner option is a frame sent unprotected.\<close>

definition tx_key :: "nat \<Rightarrow> bool \<Rightarrow> wlan_net_vif \<Rightarrow> key_ref option option" where
  "tx_key s mcast v =
     (if vm_flags v AND WIFINET_F_PRIVACY \<noteq> 0 then
        if vm_opmode v = WIFINET_M_STA \<or> \<not> mcast then wifi_mac_security_getucastkey s v
        else wifi_mac_security_getmcastkey v
      else Some None)"

section \<open>cfg80211\<close>

definition WLAN_CIPHER_SUITE_WEP40 :: u32 where "WLAN_CIPHER_SUITE_WEP40 = 0x000FAC01"
definition WLAN_CIPHER_SUITE_TKIP :: u32 where "WLAN_CIPHER_SUITE_TKIP = 0x000FAC02"
definition WLAN_CIPHER_SUITE_CCMP :: u32 where "WLAN_CIPHER_SUITE_CCMP = 0x000FAC04"
definition WLAN_CIPHER_SUITE_WEP104 :: u32 where "WLAN_CIPHER_SUITE_WEP104 = 0x000FAC05"
definition WLAN_CIPHER_SUITE_AES_CMAC :: u32 where "WLAN_CIPHER_SUITE_AES_CMAC = 0x000FAC06"

lemmas suite_defs = WLAN_CIPHER_SUITE_WEP40_def WLAN_CIPHER_SUITE_TKIP_def WLAN_CIPHER_SUITE_CCMP_def
  WLAN_CIPHER_SUITE_WEP104_def WLAN_CIPHER_SUITE_AES_CMAC_def

definition get_cipher_rsn :: "u32 \<Rightarrow> u32" where
  "get_cipher_rsn e =
     (if e = WLAN_CIPHER_SUITE_WEP40 \<or> e = WLAN_CIPHER_SUITE_WEP104 then of_nat WIFINET_CIPHER_WEP
      else if e = WLAN_CIPHER_SUITE_TKIP then of_nat WIFINET_CIPHER_TKIP
      else if e = WLAN_CIPHER_SUITE_CCMP then of_nat WIFINET_CIPHER_AES_CCM
      else if e = WLAN_CIPHER_SUITE_AES_CMAC then of_nat WIFINET_CIPHER_AES_CMAC
      else word_of_int (- ENOTSUPP))"

record key_params =
  kp_cipher :: u32
  kp_key :: "u8 list"
  kp_key_len :: nat
  kp_seq :: "u8 list option"
  kp_seq_len :: nat

record wifi_macreq_key =
  ik_type :: u8
  ik_keyix :: u16
  ik_keylen :: u8
  ik_flags :: u8
  ik_macaddr :: macaddr
  ik_keyrsc :: "u8 list"
  ik_keydata :: "u8 list"

definition get_keyix :: "int \<Rightarrow> int \<Rightarrow> int" where
  "get_keyix kid def_txkey =
     (if kid \<ge> int WIFINET_WEP_NKID then if def_txkey = uint WIFINET_KEYIX_NONE then 0 else def_txkey else kid)"

text \<open>The error exits skip the end of the key update, which has no effect.\<close>

definition vm_set_wep_key :: "nat \<Rightarrow> u8 \<Rightarrow> u8 list \<Rightarrow> wlan_net_vif \<Rightarrow> (int \<times> wlan_net_vif) option" where
  "vm_set_wep_key len ekey_idx key v =
     (let key_len = (of_nat len :: u8) in
      if unat key_len > WIFINET_KEYBUF_SIZE then Some (- EINVAL, v)
      else
        let key_idx = (word_of_int (get_keyix (uint ekey_idx) (uint (vm_def_txkey v))) :: u8);
            r = Nw_key (unat key_idx) in
        (case get_key v r of
           None \<Rightarrow> None
         | Some k \<Rightarrow>
             let v = put_key r (k\<lparr>wk_keyix := ucast key_idx\<rparr>) v in
             (case wifi_mac_security_req WIFINET_CIPHER_WEP (WIFINET_KEY_XMIT OR WIFINET_KEY_RECV OR WIFINET_KEY_GROUP) r v of
                None \<Rightarrow> None
              | Some (ok, v) \<Rightarrow>
                  if ok = 0 then Some (- EINVAL, v)
                  else
                    (case get_key v r of
                       None \<Rightarrow> None
                     | Some k \<Rightarrow>
                         if length key < unat key_len then None
                         else
                           let n = unat key_len;
                               k = k\<lparr>wk_keylen := key_len,
                                     wk_key := take n key @ replicate (WIFINET_KEYBUF_SIZE - n) 0 @ drop WIFINET_KEYBUF_SIZE (wk_key k)\<rparr>;
                               v = put_key r k v in
                           (case wifi_mac_security_setkey r (vm_myaddr v) v of
                              None \<Rightarrow> None
                            | Some (ok, v) \<Rightarrow>
                                if ok = 0 then Some (- EINVAL, v)
                                else Some (0, v\<lparr>vm_def_txkey := key_idx\<rparr>))))))"

text \<open>The request built from the parameters; \<open>None\<close>: a read or write outside the buffers.\<close>

definition mk_kr :: "u8 \<Rightarrow> bool \<Rightarrow> macaddr option \<Rightarrow> key_params \<Rightarrow> wifi_macreq_key option" where
  "mk_kr kid pairw mac_addr p =
     (if length (kp_key p) < kp_key_len p then None
      else if pairw \<and> mac_addr = None then None
      else if kp_seq_len p \<noteq> 0 \<and> kp_seq p \<noteq> None
              \<and> (length (the (kp_seq p)) < kp_seq_len p \<or> WIFINET_TID_SIZE < kp_seq_len p) then None
      else
        let rsc = (if kp_seq_len p \<noteq> 0 then (case kp_seq p of None \<Rightarrow> [] | Some s \<Rightarrow> take (kp_seq_len p) s) else []) in
        Some
         \<lparr>ik_type = ucast (get_cipher_rsn (kp_cipher p)), ik_keyix = ucast kid, ik_keylen = of_nat (kp_key_len p),
          ik_flags = (if pairw then WIFINET_KEY_RECV OR WIFINET_KEY_XMIT
                      else WIFINET_KEY_RECV OR WIFINET_KEY_XMIT OR WIFINET_KEY_GROUP),
          ik_macaddr = (if pairw then the mac_addr else replicate 6 0),
          ik_keyrsc = rsc @ replicate (WIFINET_TID_SIZE - length rsc) 0,
          ik_keydata = take (kp_key_len p) (kp_key p) @ replicate (32 - kp_key_len p) 0\<rparr>)"

text \<open>The key a request is for: the reference, the request, the station of a pairwise key and the state, or
  an error code.\<close>

definition key_of_request ::
    "u8 \<Rightarrow> wifi_macreq_key \<Rightarrow> wlan_net_vif \<Rightarrow> (int + key_ref \<times> wifi_macreq_key \<times> nat option \<times> wlan_net_vif) option" where
  "key_of_request key_index kr v =
     (if ik_flags kr AND WIFINET_KEY_GROUP = 0 then
        if vm_opmode v = WIFINET_M_STA then
          (case vm_mainsta v of
             None \<Rightarrow> None
           | Some s \<Rightarrow>
               (case sta_heap v s of
                  None \<Rightarrow> None
                | Some t \<Rightarrow>
                    if ik_macaddr kr \<noteq> sta_bssid t then Some (Inl (- ENOENT))
                    else Some (Inr (Ucast_key s, kr, Some s, v))))
        else
          (case wifi_mac_get_sta v (ik_macaddr kr) (wnet_vif_id v) of
             None \<Rightarrow> Some (Inl (- ENOENT))
           | Some s \<Rightarrow> Some (Inr (Ucast_key s, kr, Some s, v)))
      else if unat (ik_type kr) = WIFINET_CIPHER_AES_CMAC then
        let kr = kr\<lparr>ik_keyix := 0\<rparr> in
        if vm_opmode v = WIFINET_M_STA then
          (case vm_mainsta v of
             None \<Rightarrow> None
           | Some s \<Rightarrow> Some (Inr (Pmf_key s, kr, None, v\<lparr>vm_def_mgmt_txkey := key_index\<rparr>)))
        else
          (case wifi_mac_get_sta v (ik_macaddr kr) (wnet_vif_id v) of
             Some s \<Rightarrow> Some (Inr (Pmf_key s, kr, None, v))
           | None \<Rightarrow>
               (case vm_mainsta v of None \<Rightarrow> None | Some s \<Rightarrow> Some (Inr (Pmf_key s, kr, None, v))))
      else Some (Inr (Nw_key (unat (ik_keyix kr)), kr\<lparr>ik_flags := ik_flags kr OR WIFINET_KEY_DEFAULT\<rparr>, None, v)))"

definition handshake_done :: "nat option \<Rightarrow> wlan_net_vif \<Rightarrow> wlan_net_vif option" where
  "handshake_done sta v =
     (case sta of
        None \<Rightarrow> Some v
      | Some s \<Rightarrow>
          (case sta_heap v s of
             None \<Rightarrow> None
           | Some t \<Rightarrow>
               if recovery_stat v = WIFINET_RECOVERY_VIF_UP
               then Some (v\<lparr>sta_heap := (sta_heap v)(s \<mapsto> t\<lparr>connect_status := CONNECT_DHCP_GET_ACK\<rparr>),
                            recovery_stat := WIFINET_RECOVERY_END\<rparr>)
               else Some (v\<lparr>sta_heap := (sta_heap v)(s \<mapsto> t\<lparr>connect_status := CONNECT_FOUR_WAY_HANDSHAKE_COMPLETED\<rparr>)\<rparr>)))"

text \<open>The wait for the hardware queue: \<open>tx_empty\<close> answers the polls, \<open>i\<close> is the number of sleeps so far.\<close>

function wait_tx_empty :: "(nat \<Rightarrow> bool) \<Rightarrow> nat \<Rightarrow> nat" where
  "wait_tx_empty tx_empty i = (if 10 * i < 1000 \<and> \<not> tx_empty i then wait_tx_empty tx_empty (i + 1) else i)"
  by pat_completeness auto
termination by (relation "measure (\<lambda>(_, i). 100 - i)") auto

declare wait_tx_empty.simps [simp del]

definition fill_key :: "wifi_macreq_key \<Rightarrow> wifi_mac_key \<Rightarrow> wifi_mac_key" where
  "fill_key kr k =
     k\<lparr>wk_keylen := if unat (ik_keylen kr) > WIFINET_KEYBUF_SIZE then of_nat WIFINET_KEYBUF_SIZE else ik_keylen kr,
       wk_keyrsc := take WIFINET_TID_SIZE (ik_keyrsc kr), wk_keytsc := 0,
       wk_key := take (unat (ik_keylen kr)) (ik_keydata kr) @ replicate (32 - unat (ik_keylen kr)) 0,
       wk_keyix := ik_keyix kr, wk_key_type := ik_type kr\<rparr>"

definition install_key ::
    "u8 \<Rightarrow> key_ref \<Rightarrow> wifi_macreq_key \<Rightarrow> nat option \<Rightarrow> wlan_net_vif \<Rightarrow> (int \<times> wlan_net_vif) option" where
  "install_key key_index r kr sta v =
     (case wifi_mac_security_req (unat (ik_type kr)) (ik_flags kr AND WIFINET_KEY_COMMON) r v of
        None \<Rightarrow> None
      | Some (ok, v) \<Rightarrow>
          if ok = 0 then Some (- ENXIO, v)
          else
            (case get_key v r of
               None \<Rightarrow> None
             | Some k \<Rightarrow>
                 let k = fill_key kr k in
                 if unat (ik_type kr) = WIFINET_CIPHER_AES_CMAC
                 then Some (0, put_key r (k\<lparr>wk_valid := 1, wk_keyix := ucast key_index\<rparr>) v)
                 else
                   (case (case sta of
                            None \<Rightarrow> Some (ik_macaddr kr)
                          | Some s \<Rightarrow> map_option sta_macaddr (sta_heap v s)) of
                      None \<Rightarrow> None
                    | Some mac \<Rightarrow>
                        (case wifi_mac_security_setkey r mac (put_key r k v) of
                           None \<Rightarrow> None
                         | Some (ok, v) \<Rightarrow>
                             if ok = 0 then Some (- ENXIO, v)
                             else Some (0, if ik_flags kr AND WIFINET_KEY_DEFAULT \<noteq> 0
                                           then v\<lparr>vm_def_txkey := ucast (ik_keyix kr)\<rparr> else v)))))"

definition vm_cfg80211_add_key ::
    "(nat \<Rightarrow> bool) \<Rightarrow> u8 \<Rightarrow> bool \<Rightarrow> macaddr option \<Rightarrow> key_params \<Rightarrow> wlan_net_vif \<Rightarrow> (int \<times> wlan_net_vif) option" where
  "vm_cfg80211_add_key tx_empty key_index pairw mac_addr p v =
     (if kp_cipher p = WLAN_CIPHER_SUITE_WEP40 \<or> kp_cipher p = WLAN_CIPHER_SUITE_WEP104
      then vm_set_wep_key (kp_key_len p) key_index (kp_key p) v
      else if kp_key_len p > 32 then Some (- E2BIG, v)
      else
        (case mk_kr key_index pairw mac_addr p of
           None \<Rightarrow> None
         | Some kr \<Rightarrow>
             (case key_of_request key_index kr v of
                None \<Rightarrow> None
              | Some (Inl e) \<Rightarrow> Some (e, v)
              | Some (Inr (r, kr, sta, v)) \<Rightarrow>
                  (case handshake_done sta v of
                     None \<Rightarrow> None
                   | Some v \<Rightarrow>
                       let v = (if vm_opmode v = WIFINET_M_HOSTAP then
                                  let v = wifi_softap_allsta_stopping 1 v in
                                  v\<lparr>msleeps := msleeps v + wait_tx_empty tx_empty 0\<rparr>
                                else v) in
                       (case install_key key_index r kr sta v of
                          None \<Rightarrow> None
                        | Some (ret, v) \<Rightarrow>
                            Some (ret, if vm_opmode v = WIFINET_M_HOSTAP then wifi_softap_allsta_stopping 0 v else v))))))"

text \<open>What the wait of the deletion polls: the connection status and the disconnecting flag of the station,
  which other threads change, and the state of the hardware queue.\<close>

record del_env =
  env_status :: sta_connect_status
  env_disconnecting :: u8
  env_tx_empty :: bool

function wait_del_key :: "(nat \<Rightarrow> del_env) \<Rightarrow> u8 \<Rightarrow> nat \<Rightarrow> nat" where
  "wait_del_key env opmode i =
     (if 10 * i < 1000 \<and> (env_status (env i) \<noteq> CONNECT_IDLE \<or> \<not> env_tx_empty (env i)) then
        if opmode = WIFINET_M_HOSTAP \<and> env_disconnecting (env i) = 0 then i
        else wait_del_key env opmode (i + 1)
      else i)"
  by pat_completeness auto
termination by (relation "measure (\<lambda>(_, _, i). 100 - i)") auto

declare wait_del_key.simps [simp del]

definition vm_cfg80211_del_key ::
    "(nat \<Rightarrow> del_env) \<Rightarrow> u8 \<Rightarrow> bool \<Rightarrow> macaddr option \<Rightarrow> wlan_net_vif \<Rightarrow> (int \<times> wlan_net_vif) option" where
  "vm_cfg80211_del_key env key_index pairw mac_addr v =
     (case (case mac_addr of
              Some m \<Rightarrow> wifi_mac_get_sta v m (wnet_vif_id v)
            | None \<Rightarrow> if vm_opmode v = WIFINET_M_STA \<or> vm_opmode v = WIFINET_M_P2P_CLIENT then vm_mainsta v else None) of
        None \<Rightarrow> Some (0, v)
      | Some s \<Rightarrow>
          let v = v\<lparr>msleeps := msleeps v + wait_del_key env (vm_opmode v) 0\<rparr> in
          (case sta_heap v s of
             None \<Rightarrow> None
           | Some t \<Rightarrow>
               if unat key_index < WIFINET_WEP_NKID then
                 if ucast key_index = wk_keyix (sta_ucastkey t) then
                   (case wifi_mac_sec_delt_key (Ucast_key s) (Some s) v of None \<Rightarrow> None | Some (_, v) \<Rightarrow> Some (0, v))
                 else
                   (case get_key v (Nw_key (unat key_index)) of
                      None \<Rightarrow> None
                    | Some k \<Rightarrow>
                        if wk_keyix k = ucast key_index then
                          (case wifi_mac_sec_delt_key (Nw_key (unat key_index)) (Some s) v of
                             None \<Rightarrow> None
                           | Some (_, v) \<Rightarrow> Some (0, v))
                        else Some (0, v))
               else if key_index = vm_def_mgmt_txkey v then
                 Some (0, (put_key (Pmf_key s) (wifi_mac_security_resetkey WIFINET_KEYIX_NONE zero_key) v)
                            \<lparr>vm_def_mgmt_txkey := DEF_KEYIX_NONE\<rparr>)
               else Some (0, v)))"

definition vm_cfg80211_set_default_mgmt_key :: "u8 \<Rightarrow> wlan_net_vif \<Rightarrow> int \<times> wlan_net_vif" where
  "vm_cfg80211_set_default_mgmt_key key_idx v = (0, v\<lparr>vm_def_mgmt_txkey := key_idx\<rparr>)"

definition vm_cfg80211_config_default_key :: "u8 \<Rightarrow> wlan_net_vif \<Rightarrow> int \<times> wlan_net_vif" where
  "vm_cfg80211_config_default_key key_index v = (0, v)"

definition vm_cfg80211_set_rekey_data ::
    "u8 list \<Rightarrow> u8 list \<Rightarrow> u8 list \<Rightarrow> wlan_net_vif \<Rightarrow> (int \<times> wlan_net_vif) option" where
  "vm_cfg80211_set_rekey_data kek kck ctr v =
     (if vm_opmode v = WIFINET_M_STA then
        if length kek < 16 \<or> length kck < 16 \<or> length ctr < 8 then None
        else
          (case wifi_mac_security_set_rekey_data (take 16 kek @ take 16 kck @ take 8 ctr) v of
             None \<Rightarrow> None
           | Some (_, v) \<Rightarrow> Some (0, v))
      else Some (-1, v))"

section \<open>Association ids\<close>

definition WIFINET_AID_MAX :: nat where "WIFINET_AID_MAX = 2007"
definition WIFINET_AID_DEF :: nat where "WIFINET_AID_DEF = WIFI_MAX_STA + 1"

definition vm_StaIsSetAid :: "nat \<Rightarrow> wlan_net_vif \<Rightarrow> bool option" where
  "vm_StaIsSetAid aid v = map_option (\<lambda>w. bit w (aid mod 32)) (nth_opt (vm_aid_bitmap v) (aid div 32))"

definition vm_StaSetAid :: "u16 \<Rightarrow> wlan_net_vif \<Rightarrow> wlan_net_vif option" where
  "vm_StaSetAid a v =
     (let aid = unat (a AND NOT 0xc000) in
      case nth_opt (vm_aid_bitmap v) (aid div 32) of
        None \<Rightarrow> None
      | Some w \<Rightarrow> Some (v\<lparr>vm_aid_bitmap := (vm_aid_bitmap v)[aid div 32 := set_bit (aid mod 32) w]\<rparr>))"

definition vm_StaClearAid :: "u16 \<Rightarrow> wlan_net_vif \<Rightarrow> wlan_net_vif option" where
  "vm_StaClearAid a v =
     (let aid = unat (a AND NOT 0xc000) in
      case nth_opt (vm_aid_bitmap v) (aid div 32) of
        None \<Rightarrow> None
      | Some w \<Rightarrow> Some (v\<lparr>vm_aid_bitmap := (vm_aid_bitmap v)[aid div 32 := unset_bit (aid mod 32) w]\<rparr>))"

definition wifi_mac_sta_vattach :: "wlan_net_vif \<Rightarrow> wlan_net_vif" where
  "wifi_mac_sta_vattach v =
     (if vm_max_aid v = 0 then v\<lparr>vm_max_aid := WIFINET_AID_DEF\<rparr>
      else if vm_max_aid v > WIFINET_AID_MAX then v\<lparr>vm_max_aid := WIFINET_AID_MAX\<rparr> else v)"

text \<open>The loop over the association ids and their assignment in \<open>wifi_mac_sta_connect\<close>; the flag tells that
  the station got an id, otherwise it is refused with \<^verbatim>\<open>WIFINET_REASON_ASSOC_TOOMANY\<close>.\<close>

function find_aid :: "wlan_net_vif \<Rightarrow> nat \<Rightarrow> nat option" where
  "find_aid v aid =
     (if aid < vm_max_aid v then
        (case vm_StaIsSetAid aid v of
           None \<Rightarrow> None
         | Some used \<Rightarrow> if used then find_aid v (aid + 1) else Some aid)
      else Some aid)"
  by pat_completeness auto
termination by (relation "measure (\<lambda>(v, aid). vm_max_aid v - aid)") auto

declare find_aid.simps [simp del]

definition assign_aid :: "nat \<Rightarrow> wlan_net_vif \<Rightarrow> (bool \<times> wlan_net_vif) option" where
  "assign_aid s v =
     (case sta_heap v s of
        None \<Rightarrow> None
      | Some t \<Rightarrow>
          if sta_associd t = 0 then
            (case find_aid v 1 of
               None \<Rightarrow> None
             | Some aid \<Rightarrow>
                 if vm_max_aid v \<le> aid then Some (False, v)
                 else
                   let a = (of_nat aid :: u16) OR 0xc000 in
                   map_option (Pair True)
                     (vm_StaSetAid a (v\<lparr>sta_heap := (sta_heap v)(s \<mapsto> t\<lparr>sta_associd := a\<rparr>)\<rparr>)))
          else Some (True, v))"

section \<open>Stations that leave, and the deferred deletion\<close>

text \<open>The part of \<open>nsta_cleanup\<close> that removes keys.\<close>

definition nsta_cleanup_keys :: "(nat \<Rightarrow> bool) \<Rightarrow> nat \<Rightarrow> wlan_net_vif \<Rightarrow> wlan_net_vif option" where
  "nsta_cleanup_keys tx_empty s v =
     (case sta_heap v s of
        None \<Rightarrow> None
      | Some t \<Rightarrow>
          if vm_opmode v = WIFINET_M_HOSTAP \<and> sta_associd t = 0 then Some v
          else if wk_flags (sta_ucastkey t) AND WIFINET_KEY_NOFREE = 0 then
            (case wifi_mac_sec_delt_key (Ucast_key s) (Some s) (v\<lparr>msleeps := msleeps v + wait_tx_empty tx_empty 0\<rparr>) of
               None \<Rightarrow> None
             | Some (_, v) \<Rightarrow>
                 Some (v\<lparr>vm_nw_keys :=
                   map (wifi_mac_security_resetkey WIFINET_KEYIX_NONE) (take WIFINET_WEP_NKID (vm_nw_keys v))
                   @ drop WIFINET_WEP_NKID (vm_nw_keys v)\<rparr>))
          else Some v)"

text \<open>The work task runs the oldest deletion.\<close>

definition run_key_work :: "wlan_net_vif \<Rightarrow> wlan_net_vif option" where
  "run_key_work v =
     (case key_work v of
        [] \<Rightarrow> Some v
      | (vid, ix, staid) # ws \<Rightarrow>
          (case drv_key_rst_ex vid ix staid (key_hal v) of
             None \<Rightarrow> None
           | Some h \<Rightarrow> Some (v\<lparr>key_work := ws, key_hal := h\<rparr>)))"

section \<open>References and frames\<close>

lemma get_put_same: "get_key v r \<noteq> None \<Longrightarrow> get_key (put_key r k v) r = Some k"
  by (cases r) (auto simp: nth_opt_def split: if_splits)

lemma get_put_other: "r \<noteq> r' \<Longrightarrow> get_key (put_key r k v) r' = get_key v r'"
  by (cases r; cases r') (auto simp: nth_opt_def option.map_comp comp_def)

lemma get_put_key: "get_key v r \<noteq> None \<Longrightarrow> get_key (put_key r k v) r' = (if r = r' then Some k else get_key v r')"
  using get_put_same get_put_other by auto

lemma put_put [simp]: "put_key r k (put_key r k' v) = put_key r k v"
  by (cases r) (simp_all add: option.map_comp comp_def)

lemma bump_sts_sel [simp]:
  "wnet_vif_id (bump_sts f v) = wnet_vif_id v" "vm_nw_keys (bump_sts f v) = vm_nw_keys v" "sta_heap (bump_sts f v) = sta_heap v"
  "vm_def_txkey (bump_sts f v) = vm_def_txkey v" "key_hal (bump_sts f v) = key_hal v" "vm_myaddr (bump_sts f v) = vm_myaddr v"
  "msleeps (bump_sts f v) = msleeps v" "vm_opmode (bump_sts f v) = vm_opmode v"
  by (simp_all add: bump_sts_def)

lemma put_key_sel [simp]:
  "wnet_vif_id (put_key r k v) = wnet_vif_id v" "vm_opmode (put_key r k v) = vm_opmode v"
  "vm_flags (put_key r k v) = vm_flags v" "vm_def_txkey (put_key r k v) = vm_def_txkey v"
  "vm_def_mgmt_txkey (put_key r k v) = vm_def_mgmt_txkey v" "vm_myaddr (put_key r k v) = vm_myaddr v"
  "vm_mainsta (put_key r k v) = vm_mainsta v" "nt_nsta (put_key r k v) = nt_nsta v" "nt_wds (put_key r k v) = nt_wds v"
  "vif_sts (put_key r k v) = vif_sts v" "recovery_stat (put_key r k v) = recovery_stat v"
  "msleeps (put_key r k v) = msleeps v" "key_work (put_key r k v) = key_work v" "key_hal (put_key r k v) = key_hal v"
  "length (vm_nw_keys (put_key r k v)) = length (vm_nw_keys v)" "vm_max_aid (put_key r k v) = vm_max_aid v"
  by (cases r; simp)+

lemma get_key_ext: "vm_nw_keys v = vm_nw_keys v' \<Longrightarrow> sta_heap v = sta_heap v' \<Longrightarrow> get_key v r = get_key v' r"
  by (cases r) simp_all

text \<open>What the lookups read: key operations leave it alone.\<close>

type_synonym sta_view = "macaddr \<times> macaddr \<times> nat \<times> u16"

definition view_of :: "wifi_station \<Rightarrow> sta_view" where
  "view_of t = (sta_macaddr t, sta_bssid t, sta_vif_id t, sta_associd t)"

definition frame_of ::
    "wlan_net_vif \<Rightarrow> nat \<times> u8 \<times> nat option \<times> nat list \<times> (macaddr \<times> nat) list \<times> (nat \<Rightarrow> sta_view option)" where
  "frame_of v = (wnet_vif_id v, vm_opmode v, vm_mainsta v, nt_nsta v, nt_wds v, \<lambda>s. map_option view_of (sta_heap v s))"

lemma frame_ofD:
  assumes "frame_of v = frame_of v'"
  shows "wnet_vif_id v = wnet_vif_id v'" "vm_opmode v = vm_opmode v'" "vm_mainsta v = vm_mainsta v'"
    "nt_nsta v = nt_nsta v'" "nt_wds v = nt_wds v'" "map_option view_of (sta_heap v s) = map_option view_of (sta_heap v' s)"
  using assms by (auto simp: frame_of_def dest: fun_cong)

lemma frame_put [simp]: "frame_of (put_key r k v) = frame_of v"
  by (cases r) (auto simp: frame_of_def view_of_def fun_eq_iff option.map_comp comp_def intro!: option.map_cong)

lemma frame_simps [simp]:
  "frame_of (v\<lparr>current_keytype := a\<rparr>) = frame_of v" "frame_of (v\<lparr>key_hal := b\<rparr>) = frame_of v"
  "frame_of (v\<lparr>vm_def_txkey := c\<rparr>) = frame_of v" "frame_of (v\<lparr>vm_def_mgmt_txkey := c\<rparr>) = frame_of v"
  "frame_of (v\<lparr>msleeps := d\<rparr>) = frame_of v" "frame_of (bump_sts f v) = frame_of v" "frame_of (v\<lparr>key_work := e\<rparr>) = frame_of v"
  "frame_of (v\<lparr>vm_nw_keys := g\<rparr>) = frame_of v" "frame_of (v\<lparr>recovery_stat := i\<rparr>) = frame_of v"
  by (simp_all add: frame_of_def bump_sts_def)

lemma find_nsta_cong:
  "(\<And>s. map_option view_of (h s) = map_option view_of (h' s)) \<Longrightarrow> find_nsta h mac vid ss = find_nsta h' mac vid ss"
proof (induction ss)
  case (Cons s ss)
  have "map_option view_of (h s) = map_option view_of (h' s)" by (rule Cons.prems)
  then show ?case using Cons by (cases "h s"; cases "h' s") (auto simp: view_of_def)
qed simp

lemma get_sta_frame: "frame_of v = frame_of v' \<Longrightarrow> wifi_mac_get_sta v = wifi_mac_get_sta v'"
proof (intro ext)
  fix mac vid assume f: "frame_of v = frame_of v'"
  then show "wifi_mac_get_sta v mac vid = wifi_mac_get_sta v' mac vid"
    using find_nsta_cong [of "sta_heap v" "sta_heap v'" mac vid "nt_nsta v'"] frame_ofD(6) [OF f]
    unfolding wifi_mac_get_sta_def wifi_mac_find_sta_def frame_ofD(4,5) [OF f] by simp
qed

lemma associd_frame: "frame_of v = frame_of v' \<Longrightarrow> associd_of v = associd_of v'"
proof (intro ext)
  fix mac assume f: "frame_of v = frame_of v'"
  have "map_option sta_associd (sta_heap v s) = map_option sta_associd (sta_heap v' s)" for s
    using frame_ofD(6) [OF f, of s] by (cases "sta_heap v s"; cases "sta_heap v' s") (auto simp: view_of_def)
  then show "associd_of v mac = associd_of v' mac"
    using get_sta_frame [OF f] frame_ofD(1) [OF f] by (auto simp: associd_of_def split: option.splits)
qed

section \<open>Well-formed interfaces\<close>

definition key_ok :: "wifi_mac_key \<Rightarrow> bool" where
  "key_ok k \<longleftrightarrow> length (wk_key k) = 32 \<and> length (wk_keyrsc k) = 17 \<and> unat (wk_keylen k) \<le> 16
     \<and> wk_cipher k \<noteq> None \<and> wk_private k"

definition sta_ok :: "wlan_net_vif \<Rightarrow> wifi_station \<Rightarrow> bool" where
  "sta_ok v t \<longleftrightarrow> sta_vif_id t = wnet_vif_id v \<and> length (sta_macaddr t) = 6 \<and> length (sta_bssid t) = 6
     \<and> (vm_opmode v = WIFINET_M_HOSTAP \<longrightarrow> unat (sta_associd t AND 0xff) < WIFI_MAX_STA)"

text \<open>The stations of the table and of the WDS entries are in the station list.\<close>

definition table_ok :: "wlan_net_vif \<Rightarrow> bool" where
  "table_ok v \<longleftrightarrow> vm_opmode v \<in> {WIFINET_M_IBSS, WIFINET_M_STA, WIFINET_M_HOSTAP}
     \<and> (\<exists>s t. vm_mainsta v = Some s \<and> sta_heap v s = Some t)
     \<and> (\<forall>s \<in> set (nt_nsta v) \<union> snd ` set (nt_wds v). s \<in> set (nt_nsta v) \<and> sta_heap v s \<noteq> None)
     \<and> (\<forall>s t. sta_heap v s = Some t \<longrightarrow> sta_ok v t)"

definition keys_ok :: "wlan_net_vif \<Rightarrow> bool" where
  "keys_ok v \<longleftrightarrow> length (vm_nw_keys v) = WIFINET_WEP_NKID \<and> (\<forall>r k. get_key v r = Some k \<longrightarrow> key_ok k)
     \<and> (vm_def_txkey v = DEF_KEYIX_NONE \<or> unat (vm_def_txkey v) < WIFINET_WEP_NKID)"

definition vif_ok :: "wlan_net_vif \<Rightarrow> bool" where
  "vif_ok v \<longleftrightarrow> table_ok v \<and> keys_ok v \<and> hal_ok (wnet_vif_id v) (key_hal v) \<and> length (vm_myaddr v) = 6"

lemma table_ok_frame:
  assumes f: "frame_of v = frame_of v'" and ok: "table_ok v'"
  shows "table_ok v"
proof -
  note F = frame_ofD [OF f]
  have none: "sta_heap v s = None \<longleftrightarrow> sta_heap v' s = None" for s using F(6) [of s] by (metis map_option_is_None)
  have st: "sta_ok v t" if t: "sta_heap v s = Some t" for s t
  proof -
    have "sta_heap v' s \<noteq> None" using none [of s] t by simp
    then obtain t' where t': "sta_heap v' s = Some t'" by blast
    then have "view_of t = view_of t'" using F(6) [of s] t by simp
    moreover have "sta_ok v' t'" using ok t' by (simp add: table_ok_def)
    ultimately show ?thesis using F(1,2) by (simp add: sta_ok_def view_of_def)
  qed
  have main: "\<exists>s t. vm_mainsta v = Some s \<and> sta_heap v s = Some t"
  proof -
    obtain s where "vm_mainsta v' = Some s" "sta_heap v' s \<noteq> None" using ok by (auto simp: table_ok_def)
    then show ?thesis using none [of s] F(3) by auto
  qed
  have list: "\<forall>s \<in> set (nt_nsta v) \<union> snd ` set (nt_wds v). s \<in> set (nt_nsta v) \<and> sta_heap v s \<noteq> None"
    using ok none unfolding table_ok_def F by blast
  show ?thesis using ok F(2) st main list by (simp add: table_ok_def)
qed

lemma keys_ok_put:
  assumes "keys_ok v" "key_ok k"
  shows "keys_ok (put_key r k v)"
proof -
  have "key_ok x" if g: "get_key (put_key r k v) q = Some x" for q x
  proof (cases "r = q")
    case True
    have "get_key v r \<noteq> None" using g True by (cases r) (auto simp: nth_opt_def split: if_splits)
    then show ?thesis using g True get_put_same assms(2) by simp
  next
    case False
    then show ?thesis using g get_put_other assms(1) by (simp add: keys_ok_def)
  qed
  then show ?thesis using assms(1) by (simp add: keys_ok_def)
qed

lemma keys_ok_ext:
  "keys_ok v \<Longrightarrow> vm_nw_keys v' = vm_nw_keys v \<Longrightarrow> sta_heap v' = sta_heap v \<Longrightarrow> vm_def_txkey v' = vm_def_txkey v \<Longrightarrow> keys_ok v'"
  using get_key_ext [of v' v] by (simp add: keys_ok_def)

text \<open>A change that keeps the frame, the well-formedness of the keys and of the hardware state.\<close>

lemma vif_okI:
  "vif_ok v \<Longrightarrow> frame_of v' = frame_of v \<Longrightarrow> keys_ok v' \<Longrightarrow> hal_ok (wnet_vif_id v') (key_hal v') \<Longrightarrow> vm_myaddr v' = vm_myaddr v
   \<Longrightarrow> vif_ok v'"
  using table_ok_frame [of v' v] by (simp add: vif_ok_def)

lemma vif_ok_put: "vif_ok v \<Longrightarrow> key_ok k \<Longrightarrow> vif_ok (put_key r k v)"
  by (rule vif_okI) (auto simp: keys_ok_put vif_ok_def)

lemma vif_ok_simps:
  assumes "vif_ok v"
  shows "vif_ok (v\<lparr>current_keytype := a\<rparr>)" "vif_ok (v\<lparr>vm_def_mgmt_txkey := c\<rparr>)" "vif_ok (v\<lparr>msleeps := d\<rparr>)"
    "vif_ok (bump_sts f v)" "vif_ok (v\<lparr>key_work := e\<rparr>)" "vif_ok (v\<lparr>recovery_stat := i\<rparr>)"
  using assms by - (rule vif_okI [OF assms]; use assms in \<open>auto simp: vif_ok_def intro: keys_ok_ext\<close>)+

lemma vif_ok_get: "vif_ok v \<Longrightarrow> get_key v r = Some k \<Longrightarrow> key_ok k"
  by (simp add: vif_ok_def keys_ok_def)

section \<open>Operations on well-formed interfaces\<close>

text \<open>\<open>kept v v'\<close>: an operation that stays inside the tables and changes keys, counters and hardware state only.\<close>

definition kept :: "wlan_net_vif \<Rightarrow> wlan_net_vif \<Rightarrow> bool" where
  "kept v v' \<longleftrightarrow> vif_ok v' \<and> frame_of v' = frame_of v \<and> vm_def_txkey v' = vm_def_txkey v \<and> msleeps v' = msleeps v
     \<and> vm_flags v' = vm_flags v"

lemma kept_trans: "kept v v' \<Longrightarrow> kept v' v'' \<Longrightarrow> kept v v''"
  by (simp add: kept_def)

lemma kept_refl: "vif_ok v \<Longrightarrow> kept v v"
  by (simp add: kept_def)

lemma kept_put: "vif_ok v \<Longrightarrow> key_ok k \<Longrightarrow> kept v (put_key r k v)"
  by (simp add: kept_def vif_ok_put)

lemma kept_bump: "vif_ok v \<Longrightarrow> kept v (bump_sts f v)"
  by (simp add: kept_def vif_ok_simps) (simp add: bump_sts_def)

definition req_flags :: "nat \<Rightarrow> u8 \<Rightarrow> u8" where
  "req_flags c fl = (if c = WIFINET_CIPHER_TKIP then (fl AND WIFINET_KEY_COMMON) OR WIFINET_KEY_SWMIC
                     else fl AND WIFINET_KEY_COMMON)"

lemma security_type_some: "security_type c = Some cip \<Longrightarrow> c < WIFINET_CIPHER_MAX \<and> wm_cipher cip = c"
  by (auto simp: security_type_def cipher_id_defs split: if_splits)

text \<open>A request for a cipher the driver has puts it in the key; any other request changes no key.\<close>

lemma security_req_eq:
  assumes g: "get_key v r = Some key" and k: "key_ok key" and c: "security_type c = Some cip"
  shows "wifi_mac_security_req c fl r v =
    Some (1, put_key r (key\<lparr>wk_cipher := Some cip, wk_private := True, wk_flags := req_flags c fl\<rparr>) v)"
proof -
  have lt: "\<not> WIFINET_CIPHER_MAX \<le> c" using security_type_some [OF c] by simp
  have same: "key\<lparr>wk_cipher := Some cip, wk_private := True, wk_flags := f\<rparr> = key\<lparr>wk_flags := f\<rparr>" if "wk_cipher key = Some cip" for f
    using k that by (cases key) (simp add: key_ok_def)
  have upd: "key\<lparr>wk_cipher := a, wk_private := b, wk_flags := f\<rparr> = key\<lparr>wk_cipher := a, wk_private := b, wk_flags := f\<rparr>" for a b f ..
  have nn: "wk_cipher key \<noteq> None" using k by (simp add: key_ok_def)
  show ?thesis
    using nn same unfolding wifi_mac_security_req_def g option.case if_not_P [OF lt] c Let_def req_flags_def [symmetric]
    by (auto simp: wm_attach_def req_flags_def)
qed

lemma security_req_fail:
  assumes "get_key v r = Some key" "WIFINET_CIPHER_MAX \<le> c \<or> security_type c = None"
  shows "wifi_mac_security_req c fl r v = Some (0, if WIFINET_CIPHER_MAX \<le> c then bump_sts sts_key_type_err_update v else v)"
  using assms by (cases "WIFINET_CIPHER_MAX \<le> c") (auto simp: wifi_mac_security_req_def)

lemma security_req_total:
  assumes ok: "vif_ok v" and g: "get_key v r = Some key"
  shows "\<exists>st v'. wifi_mac_security_req c fl r v = Some (st, v') \<and> kept v v' \<and> get_key v' r \<noteq> None
    \<and> (st \<noteq> 0 \<longleftrightarrow> security_type c \<noteq> None)
    \<and> (\<forall>cip. security_type c = Some cip \<longrightarrow> (\<exists>k. get_key v' r = Some k \<and> wk_cipher k = Some cip))"
proof (cases "security_type c")
  case None
  have "get_key (bump_sts f v) r = get_key v r" for f by (rule get_key_ext) simp_all
  then show ?thesis using security_req_fail [OF g disjI2 [OF None], of fl] None g ok
    by (cases "WIFINET_CIPHER_MAX \<le> c") (auto simp: kept_bump kept_refl)
next
  case (Some cip)
  have kok: "key_ok key" by (rule vif_ok_get [OF ok g])
  let ?k = "key\<lparr>wk_cipher := Some cip, wk_private := True, wk_flags := req_flags c fl\<rparr>"
  have "key_ok ?k" using kok by (simp add: key_ok_def)
  then show ?thesis
    using security_req_eq [OF g kok Some, of fl] Some g get_put_same [of v r ?k] by (auto simp: kept_put [OF ok])
qed

lemma find_nsta_Some:
  "find_nsta h mac vid ss = Some s \<Longrightarrow> s \<in> set ss \<and> (\<exists>t. h s = Some t \<and> sta_macaddr t = mac \<and> sta_vif_id t = vid)"
  by (induction ss) (auto split: option.splits if_splits)

lemma find_nsta_self:
  "s \<in> set ss \<Longrightarrow> h s = Some t \<Longrightarrow> \<exists>s'. find_nsta h (sta_macaddr t) (sta_vif_id t) ss = Some s'"
  by (induction ss) (auto split: option.splits)

lemma get_sta_Some:
  assumes ok: "table_ok v" and g: "wifi_mac_get_sta v mac vid = Some s"
  shows "s \<in> set (nt_nsta v)" "\<exists>t. sta_heap v s = Some t"
proof -
  have "s \<in> set (nt_nsta v) \<union> snd ` set (nt_wds v)"
    using g find_nsta_Some [of "sta_heap v" mac vid "nt_nsta v"]
    by (auto simp: wifi_mac_get_sta_def wifi_mac_find_sta_def split: option.splits dest: map_of_SomeD intro: rev_image_eqI)
  then have "s \<in> set (nt_nsta v) \<and> sta_heap v s \<noteq> None" using ok unfolding table_ok_def by blast
  then show "s \<in> set (nt_nsta v)" "\<exists>t. sta_heap v s = Some t" by auto
qed

text \<open>In access point mode every listed station has an association id for its own address.\<close>

lemma associd_self:
  assumes ok: "table_ok v" and s: "s \<in> set (nt_nsta v)" and t: "sta_heap v s = Some t"
  shows "\<exists>a. associd_of v (sta_macaddr t) = Some a"
proof -
  have "sta_vif_id t = wnet_vif_id v" using ok t by (auto simp: table_ok_def sta_ok_def)
  then obtain s' where g: "wifi_mac_get_sta v (sta_macaddr t) (wnet_vif_id v) = Some s'"
    using find_nsta_self [where h = "sta_heap v", OF s t] by (auto simp: wifi_mac_get_sta_def wifi_mac_find_sta_def)
  then show ?thesis using get_sta_Some(2) [OF ok g] by (auto simp: associd_of_def)
qed

lemma associd_bound:
  assumes ok: "table_ok v" and ap: "vm_opmode v = WIFINET_M_HOSTAP" and a: "associd_of v mac = Some a"
  shows "unat (a AND 0xff) < WIFI_MAX_STA"
proof -
  obtain s t where "sta_heap v s = Some t" "a = sta_associd t" using a by (auto simp: associd_of_def split: option.splits)
  then show ?thesis using ok ap by (auto simp: table_ok_def sta_ok_def)
qed

text \<open>The address of a key that goes to one station: the station must be in the table of an access point.\<close>

definition mac_ok :: "wlan_net_vif \<Rightarrow> macaddr \<Rightarrow> bool" where
  "mac_ok v m \<longleftrightarrow> length m = 6 \<and> (vm_opmode v = WIFINET_M_HOSTAP \<longrightarrow> (m ! 0) AND 1 \<noteq> 1 \<longrightarrow> associd_of v m \<noteq> None)"

lemma mac_ok_frame: "frame_of v = frame_of v' \<Longrightarrow> mac_ok v m = mac_ok v' m"
  unfolding mac_ok_def by (frule associd_frame, drule frame_ofD(2)) (simp only:)

lemma group_mac: "length m = 6 \<Longrightarrow> length (group_mac m) = 6 \<and> (group_mac m ! 0) AND 1 = 1"
proof -
  assume m: "length m = 6"
  have "(x OR 1) AND 1 = (1 :: u8)" for x by (rule bit_word_eqI) (auto simp: bit_simps)
  then show ?thesis using m by (simp add: group_mac_def nth_list_update)
qed

lemma mac_ok_group: "length m = 6 \<Longrightarrow> mac_ok v (group_mac m)"
  using group_mac [of m] by (simp add: mac_ok_def)

lemma ucast_u8_u16: "ucast (ucast (x :: u8) :: u16) = x"
  by (rule bit_word_eqI) (simp add: bit_simps)

lemma drv_set_total:
  assumes ok: "vif_ok v" and kv: "kv_ok hk" and len: "unat (ucast (kv_len hk) :: u8) \<le> 32" and pad: "kv_pad hk = vm_opmode v"
    and m: "mac_ok v m"
  shows "\<exists>h'. drv_key_set (associd_of v) (wnet_vif_id v) ix hk (Some m) (key_hal v) = Some (1, h')
    \<and> drv_set ix hk (Some m) v = Some (1, v\<lparr>key_hal := h'\<rparr>) \<and> kept v (v\<lparr>key_hal := h'\<rparr>)"
proof -
  have tab: "table_ok v" and hal: "hal_ok (wnet_vif_id v) (key_hal v)" using ok by (simp_all add: vif_ok_def)
  have nz: "m \<noteq> []" using m by (auto simp: mac_ok_def)
  have st: "\<exists>s. key_staid (associd_of v) hk m = Some s \<and> unat s < WIFI_MAX_STA" if u: "(m ! 0) AND 1 \<noteq> 1"
  proof (cases "vm_opmode v = WIFINET_M_HOSTAP")
    case True
    then obtain a where "associd_of v m = Some a" using m u by (auto simp: mac_ok_def)
    then show ?thesis using True pad associd_bound [OF tab True] by (simp add: key_staid_def)
  qed (simp add: key_staid_def pad WIFI_MAX_STA_def)
  obtain h' where h': "drv_key_set (associd_of v) (wnet_vif_id v) ix hk (Some m) (key_hal v) = Some (1, h')" "hal_ok (wnet_vif_id v) h'"
    using drv_key_set_total [OF hal kv len nz st] by blast
  have "vif_ok (v\<lparr>key_hal := h'\<rparr>)"
    by (rule vif_okI [OF ok]) (use ok h'(2) in \<open>auto simp: vif_ok_def intro: keys_ok_ext\<close>)
  then have "kept v (v\<lparr>key_hal := h'\<rparr>)" by (simp add: kept_def)
  then show ?thesis using h' by (auto simp: drv_set_def)
qed

lemma copy_wep_total:
  assumes ok: "vif_ok v" and k: "key_ok k"
  shows "\<exists>s. vm_mainsta v = Some s \<and> copy_wep k v = Some (put_key (Ucast_key s) (k\<lparr>wk_flags := wk_flags k OR WIFINET_KEY_NOFREE\<rparr>) v)
    \<and> kept v (put_key (Ucast_key s) (k\<lparr>wk_flags := wk_flags k OR WIFINET_KEY_NOFREE\<rparr>) v)"
proof -
  obtain s t where s: "vm_mainsta v = Some s" "sta_heap v s = Some t" using ok by (auto simp: vif_ok_def table_ok_def)
  have "key_ok (k\<lparr>wk_flags := wk_flags k OR WIFINET_KEY_NOFREE\<rparr>)" using k by (simp add: key_ok_def)
  from kept_put [OF ok this] show ?thesis using s by (auto simp: copy_wep_def simp del: put_key.simps)
qed

lemma key_target_total:
  assumes ok: "vif_ok v" and k: "key_ok k" and len: "length m = 6"
    and m: "wk_flags k AND WIFINET_KEY_GROUP = 0 \<Longrightarrow> ty \<noteq> HAL_KEY_TYPE_WEP \<Longrightarrow> mac_ok v m"
  shows "key_target k ty m v = Some (Inr ()) \<or> (\<exists>m' v'. key_target k ty m v = Some (Inl (Some m', v')) \<and> kept v v' \<and> mac_ok v' m')"
proof -
  have op: "vm_opmode v \<in> {WIFINET_M_IBSS, WIFINET_M_STA, WIFINET_M_HOSTAP}" using ok by (simp add: vif_ok_def table_ok_def)
  have ne: "WIFINET_M_IBSS \<noteq> WIFINET_M_STA" "WIFINET_M_HOSTAP \<noteq> WIFINET_M_STA" "WIFINET_M_HOSTAP \<noteq> WIFINET_M_IBSS"
    by (simp_all add: opmode_defs)
  have g: "mac_ok x (group_mac m)" for x using len by (rule mac_ok_group)
  have cp: "\<exists>v'. (if ty = HAL_KEY_TYPE_WEP then copy_wep k v else Some v) = Some v' \<and> kept v v'"
    using copy_wep_total [OF ok k] kept_refl [OF ok] by auto
  consider (grp) "wk_flags k AND WIFINET_KEY_GROUP \<noteq> 0" | (uni) "wk_flags k AND WIFINET_KEY_GROUP = 0" by blast
  then show ?thesis
  proof cases
    case grp
    from op consider "vm_opmode v = WIFINET_M_IBSS" | "vm_opmode v = WIFINET_M_STA \<or> vm_opmode v = WIFINET_M_HOSTAP" by blast
    then show ?thesis
    proof cases
      case 1
      then show ?thesis using grp g kept_refl [OF ok] ne by (simp add: key_target_def)
    next
      case 2
      obtain v' where v': "(if ty = HAL_KEY_TYPE_WEP then copy_wep k v else Some v) = Some v'" "kept v v'" using cp by blast
      have "key_target k ty m v = Some (Inl (Some (group_mac m), v'))"
        using 2 grp ne unfolding key_target_def Let_def v'(1) by auto
      then show ?thesis using v'(2) g by blast
    qed
  next
    case uni
    then show ?thesis using m g kept_refl [OF ok] by (auto simp: key_target_def)
  qed
qed

lemma wk_mic_len: "key_ok k \<Longrightarrow> length (wk_rxmic k) = 8 \<and> length (wk_txmic k) = 8"
  by (simp add: key_ok_def wk_rxmic_def wk_txmic_def WIFINET_KEYBUF_SIZE_def)

definition base_kv :: "wifi_mac_key \<Rightarrow> u8 \<Rightarrow> nat \<Rightarrow> hal_key_val" where
  "base_kv k opmode c = \<lparr>kv_type = ciphermap ! c, kv_pad = opmode, kv_len = ucast (wk_keylen k),
     kv_val = take (unat (wk_keylen k)) (wk_key k) @ replicate (16 - unat (wk_keylen k)) 0,
     kv_mic = replicate 8 0, kv_txmic = replicate 8 0\<rparr>"

lemma base_kv_ok: "key_ok k \<Longrightarrow> kv_ok (base_kv k op c)"
  by (simp add: kv_ok_def base_kv_def key_ok_def)

lemma base_kv_len: "key_ok k \<Longrightarrow> unat (ucast (kv_len (base_kv k op c)) :: u8) \<le> 32"
  by (simp add: base_kv_def key_ok_def ucast_u8_u16)

text \<open>\<open>wifi_mac_key_set\<close> unfolded for a key with a cipher.\<close>

lemma key_set_eq:
  assumes "key_ok k" and c: "wk_cipher k = Some cip" "cip \<noteq> Cipher_none" and ix: "wk_keyix k \<noteq> WIFINET_KEYIX_NONE"
  shows "wifi_mac_key_set k m v =
    (let hk = base_kv k (vm_opmode v) (wm_cipher cip); v = v\<lparr>current_keytype := of_nat (wm_cipher cip)\<rparr> in
     case key_target k (ciphermap ! wm_cipher cip) m v of
       None \<Rightarrow> None
     | Some (Inr _) \<Rightarrow> Some (0, v)
     | Some (Inl (mac, v)) \<Rightarrow>
         if ciphermap ! wm_cipher cip = HAL_KEY_TYPE_TKIP then wifi_mac_keyset_tkip k hk mac v
         else (case drv_set (wk_keyix k) hk mac v of
                 None \<Rightarrow> None | Some (st, v) \<Rightarrow> Some (if st \<noteq> 0 then 1 else 0, v)))"
proof -
  have lt: "\<not> \<not> wm_cipher cip < length ciphermap"
    using c(2) by (cases cip) (simp_all add: cipher_id_defs ciphermap_def)
  have len: "\<not> unat (wk_keylen k) > 16" using assms(1) by (simp add: key_ok_def)
  show ?thesis
    unfolding wifi_mac_key_set_def c(1) option.case if_not_P [OF ix] if_not_P [OF lt] if_not_P [OF len] Let_def base_kv_def ..
qed

text \<open>Group and WEP keys are set for a group address; any other key needs its station.\<close>

definition target_ok :: "wlan_net_vif \<Rightarrow> wifi_mac_key \<Rightarrow> macaddr \<Rightarrow> bool" where
  "target_ok v k m \<longleftrightarrow> length m = 6
     \<and> (wk_flags k AND WIFINET_KEY_GROUP = 0 \<longrightarrow> wk_cipher k \<noteq> Some Cipher_wep \<longrightarrow> mac_ok v m)"

lemma target_ok_frame: "frame_of v = frame_of v' \<Longrightarrow> target_ok v k m = target_ok v' k m"
  unfolding target_ok_def using mac_ok_frame [of v v' m] by auto

lemma key_set_total:
  assumes ok: "vif_ok v" and k: "key_ok k" and m: "target_ok v k m" and c: "wk_cipher k \<noteq> Some Cipher_none"
  shows "\<exists>st v'. wifi_mac_key_set k m v = Some (st, v') \<and> kept v v'"
proof -
  obtain cip where cip: "wk_cipher k = Some cip" "cip \<noteq> Cipher_none" using k c by (auto simp: key_ok_def)
  show ?thesis
  proof (cases "wk_keyix k = WIFINET_KEYIX_NONE")
    case True
    then show ?thesis using cip kept_refl [OF ok] by (simp add: wifi_mac_key_set_def)
  next
    case False
    define v0 where "v0 = v\<lparr>current_keytype := of_nat (wm_cipher cip)\<rparr>"
    define hk where "hk = base_kv k (vm_opmode v) (wm_cipher cip)"
    have k0: "kept v v0" using ok by (simp add: kept_def v0_def vif_ok_simps)
    then have ok0: "vif_ok v0" by (simp add: kept_def)
    have m0: "target_ok v0 k m" using m target_ok_frame [of v0 v k m] by (simp add: v0_def)
    have len: "length m = 6" using m by (simp add: target_ok_def)
    have wep: "ciphermap ! wm_cipher cip \<noteq> HAL_KEY_TYPE_WEP \<Longrightarrow> cip \<noteq> Cipher_wep"
      by (auto simp: ciphermap_def cipher_id_defs)
    have m1: "wk_flags k AND WIFINET_KEY_GROUP = 0 \<Longrightarrow> ciphermap ! wm_cipher cip \<noteq> HAL_KEY_TYPE_WEP \<Longrightarrow> mac_ok v0 m"
      using m0 wep cip by (simp add: target_ok_def)
    note E = key_set_eq [OF k cip False, of m v, unfolded Let_def, folded v0_def, folded hk_def]
    from key_target_total [OF ok0 k len m1] show ?thesis
    proof
      assume "key_target k (ciphermap ! wm_cipher cip) m v0 = Some (Inr ())"
      then show ?thesis using E k0 by simp
    next
      assume "\<exists>m' v'. key_target k (ciphermap ! wm_cipher cip) m v0 = Some (Inl (Some m', v')) \<and> kept v0 v' \<and> mac_ok v' m'"
      then obtain m' v1 where t: "key_target k (ciphermap ! wm_cipher cip) m v0 = Some (Inl (Some m', v1))" "kept v0 v1" "mac_ok v1 m'"
        by blast
      have ok1: "vif_ok v1" using t(2) by (simp add: kept_def)
      have op: "vm_opmode v1 = vm_opmode v" using t(2) by (auto simp: kept_def v0_def dest: frame_ofD)
      have kv: "kv_ok hk" "unat (ucast (kv_len hk) :: u8) \<le> 32" "kv_pad hk = vm_opmode v1"
        using base_kv_ok [OF k] base_kv_len [OF k] op by (simp_all add: hk_def base_kv_def)
      let ?ht = "hk\<lparr>kv_mic := wk_rxmic k, kv_txmic := wk_txmic k\<rparr>"
      have kvt: "kv_ok ?ht" "unat (ucast (kv_len ?ht) :: u8) \<le> 32" "kv_pad ?ht = vm_opmode v1"
        using kv wk_mic_len [OF k] by (simp_all add: kv_ok_def)
      have T: "kept v v1" using kept_trans [OF k0 t(2)] .
      show ?thesis
      proof (cases "ciphermap ! wm_cipher cip = HAL_KEY_TYPE_TKIP")
        case True
        then show ?thesis using drv_set_total [OF ok1 kvt t(3), of "wk_keyix k"] kept_trans [OF T] E t(1)
          by (auto simp: wifi_mac_keyset_tkip_def)
      next
        case False
        then show ?thesis using drv_set_total [OF ok1 kv t(3), of "wk_keyix k"] kept_trans [OF T] E t(1) by auto
      qed
    qed
  qed
qed

lemma wm_setkey_ok: "key_ok k \<Longrightarrow> wm_setkey c k = (st, k') \<Longrightarrow> key_ok k' \<and> wk_cipher k' = wk_cipher k \<and> wk_keyix k' = wk_keyix k \<and> wk_flags k' = wk_flags k"
  by (auto simp: wm_setkey_def tkip_setkey_def key_ok_def split: security.splits if_splits)

lemma setkey_total:
  assumes ok: "vif_ok v" and g: "get_key v r = Some k" and c: "wk_cipher k \<noteq> Some Cipher_none" and m: "target_ok v k m"
  shows "\<exists>st v'. wifi_mac_security_setkey r m v = Some (st, v') \<and> kept v v'"
proof -
  have kok: "key_ok k" by (rule vif_ok_get [OF ok g])
  then obtain cip where cip: "wk_cipher k = Some cip" by (auto simp: key_ok_def)
  obtain st k' where S: "wm_setkey cip k = (st, k')" by (cases "wm_setkey cip k")
  note K = wm_setkey_ok [OF kok S]
  let ?v = "put_key r k' v"
  have kp: "kept v ?v" using kept_put [OF ok] K by blast
  then have okv: "vif_ok ?v" by (simp add: kept_def)
  have m': "target_ok ?v k' m" using m K target_ok_frame [of ?v v k' m] by (simp add: target_ok_def)
  have c': "wk_cipher k' \<noteq> Some Cipher_none" using K c by simp
  consider "st = 0" | "st \<noteq> 0" "wk_keyix k' = WIFINET_KEYIX_NONE" | "st \<noteq> 0" "wk_keyix k' \<noteq> WIFINET_KEYIX_NONE" by blast
  then show ?thesis
  proof cases
    case 3
    obtain st' v' where "wifi_mac_key_set k' m ?v = Some (st', v')" "kept ?v v'"
      using key_set_total [OF okv _ m' c'] K by blast
    then show ?thesis using 3 kept_trans [OF kp] by (auto simp: wifi_mac_security_setkey_def g cip S Let_def)
  qed (use kept_trans [OF kp kept_bump [OF okv]] in \<open>auto simp: wifi_mac_security_setkey_def g cip S Let_def\<close>)
qed

lemma nw_key_ok: "vif_ok v \<Longrightarrow> i < WIFINET_WEP_NKID \<Longrightarrow> \<exists>k. get_key v (Nw_key i) = Some k \<and> key_ok k"
  using vif_ok_get [of v "Nw_key i"] by (simp add: vif_ok_def keys_ok_def)

lemma sta_key_ok: "vif_ok v \<Longrightarrow> sta_heap v s = Some t \<Longrightarrow>
  (\<exists>k. get_key v (Ucast_key s) = Some k \<and> key_ok k) \<and> (\<exists>k. get_key v (Pmf_key s) = Some k \<and> key_ok k)"
  using vif_ok_get [of v "Ucast_key s"] vif_ok_get [of v "Pmf_key s"] by simp

declare get_key.simps [simp del] put_key.simps [simp del]

lemma unat_of_nat_u8: "n < 256 \<Longrightarrow> unat (of_nat n :: u8) = n"
  by (simp add: unat_of_nat)

lemma u8_index: "n < 256 \<Longrightarrow> unat (word_of_int (int n) :: u8) = n"
  using unat_of_nat_u8 [of n] by simp

lemma get_keyix_less:
  assumes "d = DEF_KEYIX_NONE \<or> unat d < WIFINET_WEP_NKID"
  shows "\<exists>i < WIFINET_WEP_NKID. get_keyix (uint (x :: u8)) (uint (d :: u8)) = int i"
proof (cases "uint x < 4")
  case True
  then have "get_keyix (uint x) (uint d) = int (unat x)" by (simp add: get_keyix_def WIFINET_WEP_NKID_def)
  moreover have "unat x < WIFINET_WEP_NKID"
    unfolding WIFINET_WEP_NKID_def using True unat_eq_nat_uint [of x] by linarith
  ultimately show ?thesis by blast
next
  case big: False
  show ?thesis
  proof (cases "uint d = 255")
    case True
    then have "get_keyix (uint x) (uint d) = int 0" "0 < WIFINET_WEP_NKID"
      using big by (simp_all add: get_keyix_def WIFINET_WEP_NKID_def WIFINET_KEYIX_NONE_def)
    then show ?thesis by blast
  next
    case False
    then have "d \<noteq> DEF_KEYIX_NONE" by (auto simp: DEF_KEYIX_NONE_def)
    then have "unat d < WIFINET_WEP_NKID" using assms by simp
    moreover have "get_keyix (uint x) (uint d) = int (unat d)"
      using big False by (simp add: get_keyix_def WIFINET_WEP_NKID_def WIFINET_KEYIX_NONE_def)
    ultimately show ?thesis by blast
  qed
qed

lemma def_txkey_ok: "vif_ok v \<Longrightarrow> i < WIFINET_WEP_NKID \<Longrightarrow> unat (x :: u8) = i \<Longrightarrow> vif_ok (v\<lparr>vm_def_txkey := x\<rparr>)"
proof (rule vif_okI)
  assume a: "vif_ok v" "i < WIFINET_WEP_NKID" "unat x = i"
  have g: "get_key (v\<lparr>vm_def_txkey := x\<rparr>) r = get_key v r" for r by (rule get_key_ext) simp_all
  show "keys_ok (v\<lparr>vm_def_txkey := x\<rparr>)" using a unfolding vif_ok_def keys_ok_def g by simp
qed (simp_all add: vif_ok_def)

lemma set_wep_total:
  assumes ok: "vif_ok v" and key: "len < 256" "len \<le> length key"
  shows "\<exists>st v'. vm_set_wep_key len idx key v = Some (st, v') \<and> vif_ok v' \<and> frame_of v' = frame_of v
    \<and> msleeps v' = msleeps v \<and> (st = 0 \<or> st = - EINVAL)"
proof (cases "unat (of_nat len :: u8) > WIFINET_KEYBUF_SIZE")
  case True
  then show ?thesis using ok by (simp add: vm_set_wep_key_def)
next
  case small: False
  let ?n = "unat (of_nat len :: u8)"
  have n: "?n = len" using key(1) by (simp add: unat_of_nat_u8)
  have n16: "?n \<le> 16" using small by (simp add: WIFINET_KEYBUF_SIZE_def)
  have "vm_def_txkey v = DEF_KEYIX_NONE \<or> unat (vm_def_txkey v) < WIFINET_WEP_NKID" using ok by (simp add: vif_ok_def keys_ok_def)
  from get_keyix_less [OF this, of idx] obtain i where
    i: "i < WIFINET_WEP_NKID" "get_keyix (uint idx) (uint (vm_def_txkey v)) = int i" by blast
  define ki where "ki = (word_of_int (int i) :: u8)"
  have ui: "unat ki = i" using i(1) u8_index [of i] by (simp add: ki_def WIFINET_WEP_NKID_def)
  let ?r = "Nw_key i"
  obtain k where k: "get_key v ?r = Some k" "key_ok k" using nw_key_ok [OF ok i(1)] by blast
  let ?k1 = "k\<lparr>wk_keyix := ucast ki\<rparr>"
  have k1: "key_ok ?k1" using k(2) by (simp add: key_ok_def)
  let ?v1 = "put_key ?r ?k1 v"
  have kp1: "kept v ?v1" by (rule kept_put [OF ok k1])
  have ok1: "vif_ok ?v1" using kp1 by (simp add: kept_def)
  have g1: "get_key ?v1 ?r = Some ?k1" using get_put_same [of v ?r ?k1] k(1) by simp
  have wep: "security_type WIFINET_CIPHER_WEP = Some Cipher_wep" by (simp add: security_type_def cipher_id_defs)
  let ?fl = "WIFINET_KEY_XMIT OR WIFINET_KEY_RECV OR WIFINET_KEY_GROUP"
  obtain st v2 where R: "wifi_mac_security_req WIFINET_CIPHER_WEP ?fl ?r ?v1 = Some (st, v2)" "kept ?v1 v2" "st \<noteq> 0"
    and "\<exists>k2. get_key v2 ?r = Some k2 \<and> wk_cipher k2 = Some Cipher_wep"
    using security_req_total [OF ok1 g1, of WIFINET_CIPHER_WEP ?fl] wep by auto
  then obtain k2 where k2: "get_key v2 ?r = Some k2" "wk_cipher k2 = Some Cipher_wep" by blast
  have ok2: "vif_ok v2" using R(2) by (simp add: kept_def)
  let ?k3 = "k2\<lparr>wk_keylen := of_nat len, wk_key := take ?n key @ replicate (WIFINET_KEYBUF_SIZE - ?n) 0 @ drop WIFINET_KEYBUF_SIZE (wk_key k2)\<rparr>"
  have k3: "key_ok ?k3" using vif_ok_get [OF ok2 k2(1)] n16 n key(2) by (simp add: key_ok_def WIFINET_KEYBUF_SIZE_def)
  let ?v3 = "put_key ?r ?k3 v2"
  have kp3: "kept v2 ?v3" by (rule kept_put [OF ok2 k3])
  have ok3: "vif_ok ?v3" using kp3 by (simp add: kept_def)
  have g3: "get_key ?v3 ?r = Some ?k3" using get_put_same [of v2 ?r ?k3] k2(1) by simp
  have fr: "vm_myaddr v2 = vm_myaddr v2" ..
  have "target_ok ?v3 ?k3 (vm_myaddr v2)" using ok2 k2 by (simp add: target_ok_def vif_ok_def)
  moreover have "wk_cipher ?k3 \<noteq> Some Cipher_none" using k2(2) by simp
  ultimately obtain st' v4 where S: "wifi_mac_security_setkey ?r (vm_myaddr v2) ?v3 = Some (st', v4)" "kept ?v3 v4"
    using setkey_total [OF ok3 g3] by blast
  have ok4: "vif_ok v4" using S(2) by (simp add: kept_def)
  have all: "kept v v4" using kept_trans [OF kept_trans [OF kept_trans [OF kp1 R(2)] kp3] S(2)] .
  have run: "vm_set_wep_key len idx key v = (if st' = 0 then Some (- EINVAL, v4) else Some (0, v4\<lparr>vm_def_txkey := ki\<rparr>))"
    using small k(1) R(1,3) k2(1) S(1) n key(2) unfolding vm_set_wep_key_def Let_def i(2) ki_def [symmetric] ui
    by simp
  have "vif_ok (v4\<lparr>vm_def_txkey := ki\<rparr>)" by (rule def_txkey_ok [OF ok4 i(1) ui])
  then show ?thesis using run all by (auto simp: kept_def)
qed

section \<open>Adding a key\<close>

text \<open>What cfg80211 guarantees for a request, and the key indices the driver has room for.\<close>

definition request_ok :: "wlan_net_vif \<Rightarrow> u8 \<Rightarrow> bool \<Rightarrow> macaddr option \<Rightarrow> key_params \<Rightarrow> bool" where
  "request_ok v kid pairw mac p \<longleftrightarrow>
     kp_key_len p < 256 \<and> kp_key_len p \<le> length (kp_key p)
     \<and> (\<forall>s. kp_seq p = Some s \<longrightarrow> kp_seq_len p \<le> length s \<and> kp_seq_len p \<le> WIFINET_TID_SIZE)
     \<and> (pairw \<longrightarrow> (\<exists>m. mac = Some m \<and> length m = 6))
     \<and> (\<not> pairw \<longrightarrow> kp_cipher p \<noteq> WLAN_CIPHER_SUITE_AES_CMAC \<longrightarrow> unat kid < WIFINET_WEP_NKID)
     \<and> (pairw \<longrightarrow> kp_cipher p \<noteq> WLAN_CIPHER_SUITE_AES_CMAC)"

lemma get_cipher_rsn_cases:
  "(e = WLAN_CIPHER_SUITE_WEP40 \<or> e = WLAN_CIPHER_SUITE_WEP104) \<and> unat (ucast (get_cipher_rsn e) :: u8) = WIFINET_CIPHER_WEP
   \<or> e = WLAN_CIPHER_SUITE_TKIP \<and> unat (ucast (get_cipher_rsn e) :: u8) = WIFINET_CIPHER_TKIP
   \<or> e = WLAN_CIPHER_SUITE_CCMP \<and> unat (ucast (get_cipher_rsn e) :: u8) = WIFINET_CIPHER_AES_CCM
   \<or> e = WLAN_CIPHER_SUITE_AES_CMAC \<and> unat (ucast (get_cipher_rsn e) :: u8) = WIFINET_CIPHER_AES_CMAC
   \<or> e \<notin> {WLAN_CIPHER_SUITE_WEP40, WLAN_CIPHER_SUITE_WEP104, WLAN_CIPHER_SUITE_TKIP, WLAN_CIPHER_SUITE_CCMP, WLAN_CIPHER_SUITE_AES_CMAC}
     \<and> unat (ucast (get_cipher_rsn e) :: u8) = 244"
  unfolding get_cipher_rsn_def by (auto simp: cipher_id_defs suite_defs ENOTSUPP_def)

lemma fill_key_ok:
  "key_ok k \<Longrightarrow> length (ik_keydata kr) = 32 \<Longrightarrow> length (ik_keyrsc kr) = 17 \<Longrightarrow> unat (ik_keylen kr) \<le> 32 \<Longrightarrow> key_ok (fill_key kr k)"
  by (auto simp: key_ok_def fill_key_def WIFINET_KEYBUF_SIZE_def WIFINET_TID_SIZE_def)

definition kr_ok :: "wifi_macreq_key \<Rightarrow> bool" where
  "kr_ok kr \<longleftrightarrow> length (ik_keydata kr) = 32 \<and> length (ik_keyrsc kr) = 17 \<and> unat (ik_keylen kr) \<le> 32 \<and> length (ik_macaddr kr) = 6
     \<and> unat (ik_type kr) \<noteq> WIFINET_CIPHER_NONE"

lemma mk_kr_ok:
  assumes "request_ok v kid pairw mac p" and "kp_key_len p \<le> 32"
  shows "\<exists>kr. mk_kr kid pairw mac p = Some kr \<and> kr_ok kr \<and> ik_type kr = ucast (get_cipher_rsn (kp_cipher p))
    \<and> ik_keyix kr = ucast kid \<and> ik_flags kr = (if pairw then 3 else 7) \<and> ik_keylen kr = of_nat (kp_key_len p)
    \<and> ik_keydata kr = take (kp_key_len p) (kp_key p) @ replicate (32 - kp_key_len p) 0
    \<and> ik_macaddr kr = (if pairw then the mac else replicate 6 0)"
proof -
  let ?rsc = "if kp_seq_len p \<noteq> 0 then (case kp_seq p of None \<Rightarrow> [] | Some s \<Rightarrow> take (kp_seq_len p) s) else []"
  have rsc: "length ?rsc \<le> 17" using assms(1) by (auto simp: request_ok_def WIFINET_TID_SIZE_def split: option.splits)
  have n: "unat (of_nat (kp_key_len p) :: u8) = kp_key_len p" using assms(2) by (simp add: unat_of_nat_u8)
  have c1: "\<not> length (kp_key p) < kp_key_len p" "\<not> (pairw \<and> mac = None)"
    "\<not> (kp_seq_len p \<noteq> 0 \<and> kp_seq p \<noteq> None \<and> (length (the (kp_seq p)) < kp_seq_len p \<or> WIFINET_TID_SIZE < kp_seq_len p))"
    using assms(1) by (auto simp: request_ok_def)
  have ty: "unat (ucast (get_cipher_rsn (kp_cipher p)) :: u8) \<noteq> WIFINET_CIPHER_NONE"
    using get_cipher_rsn_cases [of "kp_cipher p"] by (auto simp: cipher_id_defs)
  have fl: "WIFINET_KEY_RECV OR WIFINET_KEY_XMIT = 3" "WIFINET_KEY_RECV OR WIFINET_KEY_XMIT OR WIFINET_KEY_GROUP = 7" by (simp_all add: key_flag_defs)
  show ?thesis
    unfolding mk_kr_def if_not_P [OF c1(1)] if_not_P [OF c1(2)] if_not_P [OF c1(3)] Let_def
    using rsc n assms fl ty by (auto simp: kr_ok_def request_ok_def WIFINET_TID_SIZE_def)
qed

lemma flags_group: "(3 :: u8) AND WIFINET_KEY_GROUP = 0" "(7 :: u8) AND WIFINET_KEY_GROUP \<noteq> 0"
  "((7 :: u8) OR WIFINET_KEY_DEFAULT) AND WIFINET_KEY_GROUP \<noteq> 0" "((7 :: u8) OR WIFINET_KEY_DEFAULT) AND WIFINET_KEY_DEFAULT \<noteq> 0"
  "(3 :: u8) AND WIFINET_KEY_DEFAULT = 0" "(7 :: u8) AND WIFINET_KEY_DEFAULT = 0"
  "((7 :: u8) OR WIFINET_KEY_DEFAULT) AND WIFINET_KEY_COMMON = 7" "(3 :: u8) AND WIFINET_KEY_COMMON = 3" "(7 :: u8) AND WIFINET_KEY_COMMON = 7"
  by (simp_all add: key_flag_defs)

text \<open>Changes of a station that touch neither its keys nor what the lookups read.\<close>

definition core_of :: "wifi_station \<Rightarrow> sta_view \<times> wifi_mac_key \<times> wifi_mac_key" where
  "core_of t = (view_of t, sta_ucastkey t, pmf_key t)"

lemma core_same:
  assumes h: "\<And>s. map_option core_of (sta_heap v' s) = map_option core_of (sta_heap v s)"
    and e: "vm_nw_keys v' = vm_nw_keys v" "wnet_vif_id v' = wnet_vif_id v" "vm_opmode v' = vm_opmode v" "vm_mainsta v' = vm_mainsta v"
      "nt_nsta v' = nt_nsta v" "nt_wds v' = nt_wds v"
  shows "get_key v' r = get_key v r" "frame_of v' = frame_of v"
proof -
  have proj: "map_option f (sta_heap v' s) = map_option f (sta_heap v s)" if f: "\<And>t. f t = g (core_of t)" for f g s
  proof -
    have e: "map_option f (sta_heap x s) = map_option g (map_option core_of (sta_heap x s))" for x
      by (cases "sta_heap x s") (simp_all add: f)
    then show ?thesis unfolding e h ..
  qed
  have u: "map_option sta_ucastkey (sta_heap v' s) = map_option sta_ucastkey (sta_heap v s)" for s
    by (rule proj [of _ "fst \<circ> snd"]) (simp add: core_of_def)
  have p: "map_option pmf_key (sta_heap v' s) = map_option pmf_key (sta_heap v s)" for s
    by (rule proj [of _ "snd \<circ> snd"]) (simp add: core_of_def)
  have w: "map_option view_of (sta_heap v' s) = map_option view_of (sta_heap v s)" for s
    by (rule proj [of _ fst]) (simp add: core_of_def)
  show "get_key v' r = get_key v r" using u p e(1) by (cases r) (simp_all add: get_key.simps)
  show "frame_of v' = frame_of v" using w e by (simp add: frame_of_def)
qed

lemma core_vif_ok:
  assumes ok: "vif_ok v" and g: "\<And>r. get_key v' r = get_key v r" and f: "frame_of v' = frame_of v"
    and e: "vm_nw_keys v' = vm_nw_keys v" "vm_def_txkey v' = vm_def_txkey v" "key_hal v' = key_hal v" "vm_myaddr v' = vm_myaddr v"
  shows "vif_ok v'"
proof (rule vif_okI [OF ok f])
  show "keys_ok v'" using ok unfolding vif_ok_def keys_ok_def g e by simp
  show "hal_ok (wnet_vif_id v') (key_hal v')" using ok frame_ofD(1) [OF f] e by (simp add: vif_ok_def)
qed (rule e)

lemma allsta_stopping_same:
  "get_key (wifi_softap_allsta_stopping d v) r = get_key v r" "frame_of (wifi_softap_allsta_stopping d v) = frame_of v"
proof -
  have "map_option core_of (sta_heap (wifi_softap_allsta_stopping d v) s) = map_option core_of (sta_heap v s)" for s
    by (cases "sta_heap v s") (simp_all add: wifi_softap_allsta_stopping_def core_of_def view_of_def)
  from core_same [OF this] show "get_key (wifi_softap_allsta_stopping d v) r = get_key v r"
    "frame_of (wifi_softap_allsta_stopping d v) = frame_of v"
    by (simp_all add: wifi_softap_allsta_stopping_def)
qed

lemma allsta_stopping_sel [simp]:
  "vm_def_txkey (wifi_softap_allsta_stopping d v) = vm_def_txkey v" "key_hal (wifi_softap_allsta_stopping d v) = key_hal v"
  "msleeps (wifi_softap_allsta_stopping d v) = msleeps v" "vm_opmode (wifi_softap_allsta_stopping d v) = vm_opmode v"
  "vm_flags (wifi_softap_allsta_stopping d v) = vm_flags v" "vm_nw_keys (wifi_softap_allsta_stopping d v) = vm_nw_keys v"
  "vm_myaddr (wifi_softap_allsta_stopping d v) = vm_myaddr v" "nt_nsta (wifi_softap_allsta_stopping d v) = nt_nsta v"
  by (simp_all add: wifi_softap_allsta_stopping_def)

lemma allsta_stopping_ok: "vif_ok v \<Longrightarrow> vif_ok (wifi_softap_allsta_stopping d v)"
  by (erule core_vif_ok) (simp_all add: allsta_stopping_same)

lemma handshake_done_total:
  assumes ok: "vif_ok v" and s: "\<And>s. sta = Some s \<Longrightarrow> sta_heap v s \<noteq> None"
  shows "\<exists>v'. handshake_done sta v = Some v' \<and> vif_ok v' \<and> frame_of v' = frame_of v \<and> (\<forall>r. get_key v' r = get_key v r)
    \<and> msleeps v' = msleeps v \<and> vm_def_txkey v' = vm_def_txkey v \<and> key_hal v' = key_hal v \<and> vm_flags v' = vm_flags v"
proof (cases sta)
  case None
  then show ?thesis using ok by (simp add: handshake_done_def)
next
  case (Some a)
  then obtain t where t: "sta_heap v a = Some t" using s by blast
  define c where "c = (if recovery_stat v = WIFINET_RECOVERY_VIF_UP then CONNECT_DHCP_GET_ACK else CONNECT_FOUR_WAY_HANDSHAKE_COMPLETED)"
  define rs where "rs = (if recovery_stat v = WIFINET_RECOVERY_VIF_UP then WIFINET_RECOVERY_END else recovery_stat v)"
  define v' where "v' = v\<lparr>sta_heap := (sta_heap v)(a \<mapsto> t\<lparr>connect_status := c\<rparr>), recovery_stat := rs\<rparr>"
  have run: "handshake_done sta v = Some v'" using Some t by (simp add: handshake_done_def v'_def c_def rs_def)
  have "map_option core_of (sta_heap v' s) = map_option core_of (sta_heap v s)" for s
    using t by (simp add: v'_def core_of_def view_of_def)
  from core_same [OF this] have same: "get_key v' r = get_key v r" "frame_of v' = frame_of v" for r by (simp_all add: v'_def)
  have "vif_ok v'" by (rule core_vif_ok [OF ok same]) (simp_all add: v'_def)
  then show ?thesis using run same by (simp add: v'_def)
qed

text \<open>Which key a request changes.\<close>

definition target_of :: "wlan_net_vif \<Rightarrow> key_ref \<Rightarrow> wifi_macreq_key \<Rightarrow> nat option \<Rightarrow> bool" where
  "target_of v r kr sta \<longleftrightarrow> kr_ok kr \<and> get_key v r \<noteq> None
     \<and> (unat (ik_type kr) = WIFINET_CIPHER_AES_CMAC
        \<or> sta = None \<and> ik_flags kr AND WIFINET_KEY_GROUP \<noteq> 0
        \<or> (\<exists>s t. sta = Some s \<and> sta_heap v s = Some t \<and> (vm_opmode v = WIFINET_M_HOSTAP \<longrightarrow> s \<in> set (nt_nsta v))))
     \<and> (\<forall>s. sta = Some s \<longrightarrow> sta_heap v s \<noteq> None)
     \<and> (ik_flags kr AND WIFINET_KEY_DEFAULT \<noteq> 0 \<longrightarrow> unat (ik_keyix kr) < WIFINET_WEP_NKID)"

lemma key_of_request_total:
  assumes ok: "vif_ok v" and kr: "kr_ok kr" and fl: "ik_flags kr = 3 \<or> ik_flags kr = 7"
    and ix: "ik_flags kr = 7 \<Longrightarrow> unat (ik_type kr) \<noteq> WIFINET_CIPHER_AES_CMAC \<Longrightarrow> unat (ik_keyix kr) < WIFINET_WEP_NKID"
  shows "key_of_request kid kr v = Some (Inl (- ENOENT))
    \<or> (\<exists>r kr' sta v'. key_of_request kid kr v = Some (Inr (r, kr', sta, v')) \<and> vif_ok v' \<and> frame_of v' = frame_of v
        \<and> msleeps v' = msleeps v \<and> target_of v' r kr' sta)"
proof -
  have tab: "table_ok v" using ok by (simp add: vif_ok_def)
  obtain ms mt where main: "vm_mainsta v = Some ms" "sta_heap v ms = Some mt" using tab by (auto simp: table_ok_def)
  have ne: "WIFINET_M_STA \<noteq> WIFINET_M_HOSTAP" by (simp add: opmode_defs)
  from fl show ?thesis
  proof
    assume f: "ik_flags kr = 3"
    have uni: "ik_flags kr AND WIFINET_KEY_GROUP = 0" "ik_flags kr AND WIFINET_KEY_DEFAULT = 0" using flags_group f by simp_all
    have tgt: "target_of v (Ucast_key s) kr (Some s)"
      if "sta_heap v s = Some t" "vm_opmode v = WIFINET_M_HOSTAP \<longrightarrow> s \<in> set (nt_nsta v)" for s t
      using that kr uni sta_key_ok [OF ok that(1)] by (auto simp: target_of_def)
    show ?thesis
    proof (cases "vm_opmode v = WIFINET_M_STA")
      case True
      show ?thesis
      proof (cases "ik_macaddr kr = sta_bssid mt")
        case eq: True
        have "key_of_request kid kr v = Some (Inr (Ucast_key ms, kr, Some ms, v))"
          using uni True main eq by (simp add: key_of_request_def)
        then show ?thesis using ok tgt [OF main(2)] True ne by auto
      next
        case False
        then have "key_of_request kid kr v = Some (Inl (- ENOENT))" using uni True main by (simp add: key_of_request_def)
        then show ?thesis ..
      qed
    next
      case False
      show ?thesis
      proof (cases "wifi_mac_get_sta v (ik_macaddr kr) (wnet_vif_id v)")
        case None
        then show ?thesis using uni False by (simp add: key_of_request_def)
      next
        case (Some s)
        obtain t where "s \<in> set (nt_nsta v)" "sta_heap v s = Some t" using get_sta_Some [OF tab Some] by blast
        then have "target_of v (Ucast_key s) kr (Some s)" using tgt by blast
        moreover have "key_of_request kid kr v = Some (Inr (Ucast_key s, kr, Some s, v))"
          using uni False Some by (simp add: key_of_request_def)
        ultimately show ?thesis using ok by blast
      qed
    qed
  next
    assume f: "ik_flags kr = 7"
    have grp: "\<not> ik_flags kr AND WIFINET_KEY_GROUP = 0" "ik_flags kr AND WIFINET_KEY_DEFAULT = 0"
      "(ik_flags kr OR WIFINET_KEY_DEFAULT) AND WIFINET_KEY_GROUP \<noteq> 0" using flags_group f by simp_all
    show ?thesis
    proof (cases "unat (ik_type kr) = WIFINET_CIPHER_AES_CMAC")
      case True
      let ?kr = "kr\<lparr>ik_keyix := 0\<rparr>"
      have tgt: "target_of x (Pmf_key s) ?kr None" if "vif_ok x" "sta_heap x s = Some t" for x s t
        using that kr grp True sta_key_ok [OF that] by (auto simp: target_of_def kr_ok_def)
      show ?thesis
      proof (cases "vm_opmode v = WIFINET_M_STA")
        case sta: True
        have E: "key_of_request kid kr v = Some (Inr (Pmf_key ms, ?kr, None, v\<lparr>vm_def_mgmt_txkey := kid\<rparr>))"
          unfolding key_of_request_def if_not_P [OF grp(1)] if_P [OF True] Let_def if_P [OF sta] main(1) by simp
        have ok': "vif_ok (v\<lparr>vm_def_mgmt_txkey := kid\<rparr>)" by (rule vif_ok_simps [OF ok])
        have "target_of (v\<lparr>vm_def_mgmt_txkey := kid\<rparr>) (Pmf_key ms) ?kr None" using tgt [OF ok', of ms mt] main by simp
        then show ?thesis using E ok' by force
      next
        case ap: False
        obtain s t where s: "sta_heap v s = Some t" and E: "key_of_request kid kr v = Some (Inr (Pmf_key s, ?kr, None, v))"
        proof (cases "wifi_mac_get_sta v (ik_macaddr kr) (wnet_vif_id v)")
          case None
          have "key_of_request kid kr v = Some (Inr (Pmf_key ms, ?kr, None, v))"
            unfolding key_of_request_def if_not_P [OF grp(1)] if_P [OF True] Let_def if_not_P [OF ap] using None main by simp
          then show thesis using that main by blast
        next
          case (Some s)
          obtain t where "sta_heap v s = Some t" using get_sta_Some [OF tab Some] by blast
          moreover have "key_of_request kid kr v = Some (Inr (Pmf_key s, ?kr, None, v))"
            unfolding key_of_request_def if_not_P [OF grp(1)] if_P [OF True] Let_def if_not_P [OF ap] using Some by simp
          ultimately show thesis using that by blast
        qed
        then show ?thesis using tgt [OF ok] ok by blast
      qed
    next
      case False
      let ?kr = "kr\<lparr>ik_flags := ik_flags kr OR WIFINET_KEY_DEFAULT\<rparr>"
      have E: "key_of_request kid kr v = Some (Inr (Nw_key (unat (ik_keyix kr)), ?kr, None, v))"
        unfolding key_of_request_def if_not_P [OF grp(1)] if_not_P [OF False] ..
      have "target_of v (Nw_key (unat (ik_keyix kr))) ?kr None"
        using nw_key_ok [OF ok ix [OF f False]] ix [OF f False] kr grp(3) by (auto simp: target_of_def kr_ok_def)
      then show ?thesis using E ok by blast
    qed
  qed
qed

lemma req_flags_group: "req_flags c (f AND WIFINET_KEY_COMMON) AND WIFINET_KEY_GROUP = f AND WIFINET_KEY_GROUP"
  by (rule bit_word_eqI) (auto simp: req_flags_def key_flag_defs bit_simps less_Suc_eq numeral_eq_Suc)

lemma wait_tx_empty_le: "i \<le> 100 \<Longrightarrow> wait_tx_empty f i \<le> 100"
proof (induction f i rule: wait_tx_empty.induct)
  case (1 f i)
  show ?case
  proof (cases "10 * i < 1000 \<and> \<not> f i")
    case True
    then have "wait_tx_empty f (i + 1) \<le> 100" using 1 by simp
    then show ?thesis using True by (subst wait_tx_empty.simps) simp
  next
    case False
    then show ?thesis using 1(2) by (subst wait_tx_empty.simps) auto
  qed
qed

lemma target_of_frame:
  assumes f: "frame_of v' = frame_of v" and g: "get_key v' r = get_key v r" and t: "target_of v r kr sta"
  shows "target_of v' r kr sta"
proof -
  note F = frame_ofD [OF f]
  have n: "sta_heap v' s = None \<longleftrightarrow> sta_heap v s = None" for s using F(6) [of s] by (metis map_option_is_None)
  then have n': "(\<exists>t. sta_heap v' s = Some t) \<longleftrightarrow> (\<exists>t. sta_heap v s = Some t)" for s by (metis not_None_eq)
  show ?thesis using t unfolding target_of_def g F(2,4) n using n' by (metis (no_types, opaque_lifting))
qed

lemma install_key_total:
  assumes ok: "vif_ok v" and t: "target_of v r kr sta"
  shows "\<exists>ret v'. install_key kid r kr sta v = Some (ret, v') \<and> vif_ok v' \<and> frame_of v' = frame_of v \<and> msleeps v' = msleeps v
    \<and> (ret = 0 \<or> ret = - ENXIO)"
proof -
  obtain k where k: "get_key v r = Some k" using t by (auto simp: target_of_def)
  have kok: "key_ok k" by (rule vif_ok_get [OF ok k])
  have kr: "kr_ok kr" using t by (simp add: target_of_def)
  let ?c = "unat (ik_type kr)" and ?fl = "ik_flags kr AND WIFINET_KEY_COMMON"
  show ?thesis
  proof (cases "security_type ?c")
    case None
    have "vif_ok (if b then bump_sts f v else v)" "frame_of (if b then bump_sts f v else v) = frame_of v"
      "msleeps (if b then bump_sts f v else v) = msleeps v" for b f
      using ok by (simp_all add: vif_ok_simps)
    then show ?thesis using security_req_fail [OF k disjI2 [OF None], of ?fl] by (simp add: install_key_def)
  next
    case (Some cip)
    define k1 where "k1 = k\<lparr>wk_cipher := Some cip, wk_private := True, wk_flags := req_flags ?c ?fl\<rparr>"
    have k1: "key_ok k1" using kok by (simp add: key_ok_def k1_def)
    define v1 where "v1 = put_key r k1 v"
    have R: "wifi_mac_security_req ?c ?fl r v = Some (1, v1)" unfolding v1_def k1_def by (rule security_req_eq [OF k kok Some])
    have ok1: "vif_ok v1" and fr1: "frame_of v1 = frame_of v" and ms1: "msleeps v1 = msleeps v"
      using vif_ok_put [OF ok k1] by (simp_all add: v1_def)
    have g1: "get_key v1 r = Some k1" using get_put_same [of v r k1] k by (simp add: v1_def)
    define k2 where "k2 = fill_key kr k1"
    have k2: "key_ok k2" using fill_key_ok [OF k1] kr by (simp add: k2_def kr_ok_def)
    show ?thesis
    proof (cases "?c = WIFINET_CIPHER_AES_CMAC")
      case True
      let ?k3 = "k2\<lparr>wk_valid := 1, wk_keyix := ucast kid\<rparr>"
      have k3: "key_ok ?k3" using k2 by (simp add: key_ok_def)
      have "install_key kid r kr sta v = Some (0, put_key r ?k3 v1)"
        unfolding install_key_def R option.case prod.case Let_def g1 k2_def [symmetric] if_P [OF True] by simp
      then show ?thesis using vif_ok_put [OF ok1 k3] fr1 ms1 by simp
    next
      case False
      define v2 where "v2 = put_key r k2 v1"
      have ok2: "vif_ok v2" and fr2: "frame_of v2 = frame_of v" and ms2: "msleeps v2 = msleeps v"
        using vif_ok_put [OF ok1 k2] fr1 ms1 by (simp_all add: v2_def)
      have g2: "get_key v2 r = Some k2" using get_put_same [of v1 r k2] g1 by (simp add: v2_def)
      have cip: "wk_cipher k2 = Some cip" "wk_flags k2 = req_flags ?c ?fl" by (simp_all add: k2_def k1_def fill_key_def)
      have nn: "wk_cipher k2 \<noteq> Some Cipher_none"
        using cip security_type_some [OF Some] kr by (auto simp: kr_ok_def)
      have grp: "wk_flags k2 AND WIFINET_KEY_GROUP \<noteq> 0" if "ik_flags kr AND WIFINET_KEY_GROUP \<noteq> 0"
        unfolding cip(2) req_flags_group using that .
      obtain m where m: "(case sta of None \<Rightarrow> Some (ik_macaddr kr) | Some s \<Rightarrow> map_option sta_macaddr (sta_heap v1 s)) = Some m"
        and tm: "target_ok v2 k2 m"
      proof (cases sta)
        case None
        then have "ik_flags kr AND WIFINET_KEY_GROUP \<noteq> 0" using t False by (simp add: target_of_def)
        then have "target_ok v2 k2 (ik_macaddr kr)" using grp kr by (simp add: target_ok_def kr_ok_def)
        then show thesis using None that by simp
      next
        case (Some s)
        obtain t0 where t0: "sta_heap v s = Some t0" "vm_opmode v = WIFINET_M_HOSTAP \<longrightarrow> s \<in> set (nt_nsta v)"
          using t False Some by (auto simp: target_of_def)
        have "view_of t0 = view_of t1" if "sta_heap v1 s = Some t1" for t1
          using frame_ofD(6) [OF fr1, of s] t0 that by simp
        moreover obtain t1 where t1: "sta_heap v1 s = Some t1"
          using frame_ofD(6) [OF fr1, of s] t0 by (cases "sta_heap v1 s") auto
        ultimately have mac: "sta_macaddr t1 = sta_macaddr t0" by (simp add: view_of_def)
        have tab: "table_ok v" using ok by (simp add: vif_ok_def)
        have "mac_ok v (sta_macaddr t0)"
          using associd_self [OF tab _ t0(1)] t0 tab by (auto simp: mac_ok_def table_ok_def sta_ok_def)
        then have "target_ok v k2 (sta_macaddr t0)" by (simp add: target_ok_def mac_ok_def)
        then have "target_ok v2 k2 (sta_macaddr t1)" using target_ok_frame [OF fr2] mac by simp
        then show thesis using Some t1 that by simp
      qed
      obtain st v3 where S: "wifi_mac_security_setkey r m v2 = Some (st, v3)" "kept v2 v3"
        using setkey_total [OF ok2 g2 nn tm] by blast
      have E: "install_key kid r kr sta v =
          (if st = 0 then Some (- ENXIO, v3)
           else Some (0, if ik_flags kr AND WIFINET_KEY_DEFAULT \<noteq> 0 then v3\<lparr>vm_def_txkey := ucast (ik_keyix kr)\<rparr> else v3))"
        unfolding install_key_def R option.case prod.case Let_def g1 k2_def [symmetric] if_not_P [OF False] m v2_def [symmetric] S(1) by simp
      have ok3: "vif_ok v3" and fr3: "frame_of v3 = frame_of v" and ms3: "msleeps v3 = msleeps v"
        using S(2) fr2 ms2 by (simp_all add: kept_def)
      have def_ok: "vif_ok (v3\<lparr>vm_def_txkey := ucast (ik_keyix kr)\<rparr>)" if "ik_flags kr AND WIFINET_KEY_DEFAULT \<noteq> 0"
      proof -
        have lt: "unat (ik_keyix kr) < WIFINET_WEP_NKID" using t that by (simp add: target_of_def)
        then have "unat (ucast (ik_keyix kr) :: u8) = unat (ik_keyix kr)"
          by (simp add: unsigned_ucast_eq take_bit_nat_eq_self WIFINET_WEP_NKID_def)
        then show ?thesis using def_txkey_ok [OF ok3 lt] by simp
      qed
      show ?thesis using E ok3 fr3 ms3 def_ok by (cases "st = 0") auto
    qed
  qed
qed

text \<open>C20: Adding a key is in bounds for the requests and interfaces of \<open>request_ok\<close> and \<open>vif_ok\<close>: a group key index below four
  (management group keys may have any), a pairwise key with an address and no management cipher, a key of less than 256
  bytes, key and counter as long as announced and the counter no longer than its field, association ids below sixteen, and
  a consistent table of stations and keys; \<open>add_group_key_out_of_bounds\<close> below
  shows what happens to a larger group key index.  Then it stays inside every table and keeps the interface well-formed: keys, MIC keys and sequence
  counters keep their sizes, every key has a cipher, the default key is none or one of the four, and the
  hardware counters stay in their tables. It returns 0, or a negative error for a WEP key that is too long, a
  key longer than 32 bytes, an unknown station or an unknown cipher, after at most 100 sleeps.\<close>

theorem add_key_type_safe:
  assumes "vif_ok v" and "request_ok v kid pairw mac p"
  shows "\<exists>ret v'. vm_cfg80211_add_key tx_empty kid pairw mac p v = Some (ret, v') \<and> vif_ok v' \<and> frame_of v' = frame_of v
    \<and> msleeps v' \<le> msleeps v + 100 \<and> ret \<in> {0, - EINVAL, - E2BIG, - ENOENT, - ENXIO}"
proof -
  consider (wep) "kp_cipher p = WLAN_CIPHER_SUITE_WEP40 \<or> kp_cipher p = WLAN_CIPHER_SUITE_WEP104"
    | (long) "\<not> (kp_cipher p = WLAN_CIPHER_SUITE_WEP40 \<or> kp_cipher p = WLAN_CIPHER_SUITE_WEP104)" "kp_key_len p > 32"
    | (go) "\<not> (kp_cipher p = WLAN_CIPHER_SUITE_WEP40 \<or> kp_cipher p = WLAN_CIPHER_SUITE_WEP104)" "\<not> kp_key_len p > 32"
    by blast
  then show ?thesis
  proof cases
    case wep
    have "kp_key_len p < 256" "kp_key_len p \<le> length (kp_key p)" using assms(2) by (simp_all add: request_ok_def)
    from set_wep_total [OF assms(1) this, of kid] show ?thesis
      unfolding vm_cfg80211_add_key_def if_P [OF wep] by force
  next
    case long
    then show ?thesis using assms(1) by (simp add: vm_cfg80211_add_key_def)
  next
    case go
    then have "kp_key_len p \<le> 32" by simp
    from mk_kr_ok [OF assms(2) this] obtain kr where kr: "mk_kr kid pairw mac p = Some kr" "kr_ok kr"
      "ik_type kr = ucast (get_cipher_rsn (kp_cipher p))" "ik_keyix kr = ucast kid" "ik_flags kr = (if pairw then 3 else 7)" by blast
    have ixu: "unat (ik_keyix kr) = unat kid" unfolding kr(4) by (rule unat_ucast_up) simp
    have fl: "ik_flags kr = 3 \<or> ik_flags kr = 7" using kr(5) by simp
    have ix: "unat (ik_keyix kr) < WIFINET_WEP_NKID" if "ik_flags kr = 7" "unat (ik_type kr) \<noteq> WIFINET_CIPHER_AES_CMAC"
    proof -
      have "\<not> pairw" using that(1) kr(5) by (auto split: if_splits)
      moreover have "kp_cipher p \<noteq> WLAN_CIPHER_SUITE_AES_CMAC"
        using that(2) kr(3) by (auto simp: get_cipher_rsn_def suite_defs cipher_id_defs)
      ultimately show ?thesis using assms(2) ixu by (simp add: request_ok_def)
    qed
    note E = vm_cfg80211_add_key_def [of tx_empty kid pairw mac p v, unfolded if_not_P [OF go(1)] if_not_P [OF go(2)] kr(1) option.case]
    from key_of_request_total [OF assms(1) kr(2) fl ix, of kid] show ?thesis
    proof
      assume "key_of_request kid kr v = Some (Inl (- ENOENT))"
      then show ?thesis using E assms(1) by simp
    next
      assume "\<exists>r kr' sta v'. key_of_request kid kr v = Some (Inr (r, kr', sta, v')) \<and> vif_ok v' \<and> frame_of v' = frame_of v
        \<and> msleeps v' = msleeps v \<and> target_of v' r kr' sta"
      then obtain r kr' sta v1 where K: "key_of_request kid kr v = Some (Inr (r, kr', sta, v1))" "vif_ok v1" "frame_of v1 = frame_of v"
        "msleeps v1 = msleeps v" "target_of v1 r kr' sta" by blast
      have "\<And>s. sta = Some s \<Longrightarrow> sta_heap v1 s \<noteq> None" using K(5) by (simp add: target_of_def)
      from handshake_done_total [OF K(2) this] obtain v2 where H: "handshake_done sta v1 = Some v2" "vif_ok v2" "frame_of v2 = frame_of v1"
        "\<And>r. get_key v2 r = get_key v1 r" "msleeps v2 = msleeps v1" by blast
      define v3 where "v3 = (if vm_opmode v2 = WIFINET_M_HOSTAP then
          let v = wifi_softap_allsta_stopping 1 v2 in v\<lparr>msleeps := msleeps v + wait_tx_empty tx_empty 0\<rparr> else v2)"
      have g3: "get_key v3 r = get_key v2 r" for r
        using allsta_stopping_same(1) [of 1 v2 r] get_key_ext [of "wifi_softap_allsta_stopping 1 v2\<lparr>msleeps := m\<rparr>" "wifi_softap_allsta_stopping 1 v2" r for m]
        by (simp add: v3_def Let_def)
      have f3: "frame_of v3 = frame_of v2" using allsta_stopping_same(2) by (simp add: v3_def Let_def)
      have ok3: "vif_ok v3" using H(2) by (simp add: v3_def Let_def vif_ok_simps allsta_stopping_ok)
      have s3: "msleeps v3 \<le> msleeps v + 100"
        using K(4) H(5) wait_tx_empty_le [of 0 tx_empty] by (simp add: v3_def Let_def)
      have f31: "frame_of v3 = frame_of v1" using f3 H(3) by simp
      have t3: "target_of v3 r kr' sta" by (rule target_of_frame [OF f31 _ K(5)]) (simp add: g3 H(4))
      obtain ret v4 where I: "install_key kid r kr' sta v3 = Some (ret, v4)" "vif_ok v4" "frame_of v4 = frame_of v3" "msleeps v4 = msleeps v3"
        "ret = 0 \<or> ret = - ENXIO" using install_key_total [OF ok3 t3] by blast
      have "vm_cfg80211_add_key tx_empty kid pairw mac p v =
          Some (ret, if vm_opmode v4 = WIFINET_M_HOSTAP then wifi_softap_allsta_stopping 0 v4 else v4)"
        unfolding E K(1) H(1) sum.case option.case prod.case v3_def [symmetric] Let_def [of "if vm_opmode v2 = _ then _ else _"] by (simp add: I(1))
      then show ?thesis using I K(3) f31 s3 allsta_stopping_same(2) [of 0 v4] by (auto simp: allsta_stopping_ok)
    qed
  qed
qed

section \<open>Removing keys\<close>

lemma delkey_total:
  assumes ok: "vif_ok v" and g: "get_key v r = Some k" and s: "sta_heap v s = Some t"
  shows "\<exists>v'. wifi_mac_sec_delt_key r (Some s) v = Some (1, v') \<and> vif_ok v' \<and> frame_of v' = frame_of v
    \<and> get_key v' r = Some (wifi_mac_security_resetkey WIFINET_KEYIX_NONE zero_key)
    \<and> (\<forall>q. q \<noteq> r \<longrightarrow> get_key v' q = get_key v q) \<and> key_hal v' = key_hal v \<and> msleeps v' = msleeps v
    \<and> vm_def_txkey v' = vm_def_txkey v \<and> vm_flags v' = vm_flags v
    \<and> key_work v' = key_work v @ (if wk_keyix k = WIFINET_KEYIX_NONE then []
                                     else [(wnet_vif_id v, wk_keyix k, uint (sta_associd t AND 0xff))])"
proof -
  let ?z = "wifi_mac_security_resetkey WIFINET_KEYIX_NONE zero_key"
  define w where "w = (if wk_keyix k = WIFINET_KEYIX_NONE then [] else [(wnet_vif_id v, wk_keyix k, uint (sta_associd t AND 0xff))])"
  define v1 where "v1 = v\<lparr>key_work := key_work v @ w\<rparr>"
  have z: "key_ok ?z" by (simp add: key_ok_def wifi_mac_security_resetkey_def zero_key_def wm_attach_def)
  have nn: "\<not> wk_cipher k = None" using vif_ok_get [OF ok g] by (simp add: key_ok_def)
  have run: "wifi_mac_sec_delt_key r (Some s) v = Some (1, put_key r ?z v1)"
    unfolding wifi_mac_sec_delt_key_def wifi_mac_security_delkey_def g option.case if_not_P [OF nn]
    using s by (simp add: wifi_mac_key_delete_def v1_def w_def)
  have ok1: "vif_ok v1" unfolding v1_def by (rule vif_ok_simps [OF ok])
  have g1: "get_key v1 q = get_key v q" for q by (rule get_key_ext) (simp_all add: v1_def)
  have e: "get_key (put_key r ?z v1) q = (if q = r then Some ?z else get_key v q)" for q
    using get_put_key [of v1 r ?z q] g g1 by auto
  show ?thesis
    using run vif_ok_put [OF ok1 z, of r] e by (auto simp: v1_def w_def)
qed

lemma reset_undefined: "KEY_UNDEFINED (wifi_mac_security_resetkey ix k)"
  by (simp add: KEY_UNDEFINED_def wifi_mac_security_resetkey_def)

text \<open>C22: When an associated station of an access point is freed, the group keys of the whole interface are
  reset: every multicast frame is then sent unprotected, although privacy is on, the default key index and
  the firmware keys stay, and the unicast keys of the other stations are kept.\<close>

theorem station_cleanup_drops_group_keys:
  assumes "vif_ok v" and "vm_opmode v = WIFINET_M_HOSTAP" and "vm_flags v AND WIFINET_F_PRIVACY \<noteq> 0"
    and "sta_heap v s = Some t" and "sta_associd t \<noteq> 0" and "wk_flags (sta_ucastkey t) AND WIFINET_KEY_NOFREE = 0"
  shows "\<exists>v'. nsta_cleanup_keys tx_empty s v = Some v'
    \<and> (\<forall>q. tx_key q True v' = Some None)
    \<and> (\<forall>q. q \<noteq> s \<longrightarrow> get_key v' (Ucast_key q) = get_key v (Ucast_key q))
    \<and> vm_def_txkey v' = vm_def_txkey v \<and> key_hal v' = key_hal v"
proof -
  define v0 where "v0 = v\<lparr>msleeps := msleeps v + wait_tx_empty tx_empty 0\<rparr>"
  have ok0: "vif_ok v0" unfolding v0_def by (rule vif_ok_simps [OF assms(1)])
  have g0: "get_key v0 (Ucast_key s) = Some (sta_ucastkey t)" using assms(4) by (simp add: v0_def get_key.simps)
  have h0: "sta_heap v0 s = Some t" using assms(4) by (simp add: v0_def)
  obtain v1 where d: "wifi_mac_sec_delt_key (Ucast_key s) (Some s) v0 = Some (1, v1)" "vif_ok v1" "frame_of v1 = frame_of v0"
    "\<And>q. q \<noteq> Ucast_key s \<Longrightarrow> get_key v1 q = get_key v0 q" "key_hal v1 = key_hal v0" "vm_def_txkey v1 = vm_def_txkey v0"
    "vm_flags v1 = vm_flags v0"
    using delkey_total [OF ok0 g0 h0] by blast
  have len: "length (vm_nw_keys v1) = WIFINET_WEP_NKID" using d(2) by (simp add: vif_ok_def keys_ok_def)
  define v' where "v' = v1\<lparr>vm_nw_keys := map (wifi_mac_security_resetkey WIFINET_KEYIX_NONE) (vm_nw_keys v1)\<rparr>"
  have run: "nsta_cleanup_keys tx_empty s v = Some v'"
    using assms(2,4-6) d(1) len by (simp add: nsta_cleanup_keys_def v0_def [symmetric] v'_def)
  have nw: "get_key v' (Nw_key i) = Some (wifi_mac_security_resetkey WIFINET_KEYIX_NONE (vm_nw_keys v1 ! i))" if "i < WIFINET_WEP_NKID" for i
    using that len by (simp add: v'_def get_key.simps)
  have op: "vm_opmode v' = WIFINET_M_HOSTAP" "WIFINET_M_HOSTAP \<noteq> WIFINET_M_STA"
    using frame_ofD(2) [OF d(3)] assms(2) by (simp_all add: v'_def v0_def opmode_defs)
  have fl: "vm_flags v' AND WIFINET_F_PRIVACY \<noteq> 0" using d(7) assms(3) by (simp add: v'_def v0_def)
  have def_ok: "vm_def_txkey v' = DEF_KEYIX_NONE \<or> unat (vm_def_txkey v') < WIFINET_WEP_NKID"
    using d(2) by (simp add: v'_def vif_ok_def keys_ok_def)
  have "wifi_mac_security_getmcastkey v' = Some None"
    using def_ok nw by (auto simp: wifi_mac_security_getmcastkey_def reset_undefined)
  then have tx: "tx_key q True v' = Some None" for q using op fl by (simp add: tx_key_def)
  have "get_key v' (Ucast_key q) = get_key v (Ucast_key q)" if "q \<noteq> s" for q
    using d(4) [of "Ucast_key q"] that by (simp add: v'_def v0_def get_key.simps)
  then show ?thesis using run tx d(5,6) by (simp add: v'_def v0_def)
qed

lemma del_key_misses:
  assumes "vif_ok v"
  shows "vm_opmode v = WIFINET_M_HOSTAP \<Longrightarrow> vm_cfg80211_del_key env kid False None v = Some (0, v)"
    and "vm_opmode v = WIFINET_M_STA \<Longrightarrow> vm_mainsta v = Some s \<Longrightarrow> get_key v (Ucast_key s) = Some k
      \<Longrightarrow> wk_keyix k = ucast kid \<Longrightarrow> unat kid < WIFINET_WEP_NKID
      \<Longrightarrow> \<exists>v'. vm_cfg80211_del_key env kid False None v = Some (0, v')
          \<and> get_key v' (Nw_key (unat kid)) = get_key v (Nw_key (unat kid))"
proof -
  assume "vm_opmode v = WIFINET_M_HOSTAP"
  then show "vm_cfg80211_del_key env kid False None v = Some (0, v)"
    by (simp add: vm_cfg80211_del_key_def opmode_defs)
next
  assume a: "vm_opmode v = WIFINET_M_STA" "vm_mainsta v = Some s" "get_key v (Ucast_key s) = Some k" "wk_keyix k = ucast kid"
    "unat kid < WIFINET_WEP_NKID"
  then obtain t where t: "sta_heap v s = Some t" "sta_ucastkey t = k" by (auto simp: get_key.simps)
  define v0 where "v0 = v\<lparr>msleeps := msleeps v + wait_del_key env (vm_opmode v) 0\<rparr>"
  have ok0: "vif_ok v0" unfolding v0_def by (rule vif_ok_simps [OF assms])
  have g0: "get_key v0 q = get_key v q" for q by (rule get_key_ext) (simp_all add: v0_def)
  have h0: "sta_heap v0 s = Some t" using t by (simp add: v0_def)
  have gu: "get_key v0 (Ucast_key s) = Some k" using g0 a(3) by simp
  obtain v' where "wifi_mac_sec_delt_key (Ucast_key s) (Some s) v0 = Some (1, v')"
    "get_key v' (Nw_key (unat kid)) = get_key v0 (Nw_key (unat kid))"
    using delkey_total [OF ok0 gu h0] by blast
  moreover have "vm_cfg80211_del_key env kid False None v =
      (case wifi_mac_sec_delt_key (Ucast_key s) (Some s) v0 of None \<Rightarrow> None | Some (_, v) \<Rightarrow> Some (0, v))"
    using a t h0 by (simp add: vm_cfg80211_del_key_def v0_def)
  ultimately show "\<exists>v'. vm_cfg80211_del_key env kid False None v = Some (0, v')
      \<and> get_key v' (Nw_key (unat kid)) = get_key v (Nw_key (unat kid))" using g0 by simp
qed

text \<open>Deleting a key reports success without deleting it in two cases: a group key of an access point,
  for which cfg80211 gives no address, and a WEP key of a station interface, whose copy as the unicast key
  is deleted in its place.\<close>

theorem del_key_misses_group_key:
  assumes "vif_ok v"
  shows "(vm_opmode v = WIFINET_M_HOSTAP \<longrightarrow> vm_cfg80211_del_key env kid False None v = Some (0, v))
    \<and> (vm_opmode v = WIFINET_M_STA \<and> vm_mainsta v = Some s \<and> get_key v (Ucast_key s) = Some k
         \<and> wk_keyix k = ucast kid \<and> unat kid < WIFINET_WEP_NKID
       \<longrightarrow> (\<exists>v'. vm_cfg80211_del_key env kid False None v = Some (0, v')
              \<and> get_key v' (Nw_key (unat kid)) = get_key v (Nw_key (unat kid))))"
  using del_key_misses [OF assms] by blast

lemma wait_del_key_le: "i \<le> 100 \<Longrightarrow> wait_del_key env op i \<le> 100"
proof (induction env op i rule: wait_del_key.induct)
  case (1 env op i)
  show ?case
  proof (cases "10 * i < 1000 \<and> (env_status (env i) \<noteq> CONNECT_IDLE \<or> \<not> env_tx_empty (env i))
      \<and> \<not> (op = WIFINET_M_HOSTAP \<and> env_disconnecting (env i) = 0)")
    case True
    then have "wait_del_key env op (i + 1) \<le> 100" using 1 by simp
    then show ?thesis using True by (subst wait_del_key.simps) simp
  next
    case False
    then show ?thesis using 1(2) by (subst wait_del_key.simps) auto
  qed
qed

text \<open>Deleting a key always returns, after at most 100 sleeps of 10 ms whatever the other threads and the
  hardware queue do while it waits, with the interface well-formed and the hardware state untouched: the
  deletion in the firmware is queued.\<close>

theorem del_key_returns:
  assumes "vif_ok v"
  shows "\<exists>v'. vm_cfg80211_del_key env kid pairw mac v = Some (0, v') \<and> vif_ok v' \<and> msleeps v' \<le> msleeps v + 100
    \<and> key_hal v' = key_hal v"
proof -
  have tab: "table_ok v" using assms by (simp add: vif_ok_def)
  define st where "st = (case mac of Some m \<Rightarrow> wifi_mac_get_sta v m (wnet_vif_id v)
      | None \<Rightarrow> if vm_opmode v = WIFINET_M_STA \<or> vm_opmode v = WIFINET_M_P2P_CLIENT then vm_mainsta v else None)"
  show ?thesis
  proof (cases st)
    case None
    then show ?thesis using assms by (simp add: vm_cfg80211_del_key_def st_def)
  next
    case (Some s)
    obtain t where t: "sta_heap v s = Some t"
    proof (cases mac)
      case None
      then show thesis using Some tab that by (auto simp: st_def table_ok_def split: if_splits)
    next
      case (Some m)
      then show thesis using \<open>st = Some s\<close> get_sta_Some(2) [OF tab] that by (auto simp: st_def)
    qed
    define v0 where "v0 = v\<lparr>msleeps := msleeps v + wait_del_key env (vm_opmode v) 0\<rparr>"
    have ok0: "vif_ok v0" unfolding v0_def by (rule vif_ok_simps [OF assms])
    have h0: "sta_heap v0 s = Some t" using t by (simp add: v0_def)
    have ms0: "msleeps v0 \<le> msleeps v + 100" using wait_del_key_le [of 0 env "vm_opmode v"] by (simp add: v0_def)
    have E: "vm_cfg80211_del_key env kid pairw mac v =
      (if unat kid < WIFINET_WEP_NKID then
         if ucast kid = wk_keyix (sta_ucastkey t)
         then (case wifi_mac_sec_delt_key (Ucast_key s) (Some s) v0 of None \<Rightarrow> None | Some (_, v) \<Rightarrow> Some (0, v))
         else (case get_key v0 (Nw_key (unat kid)) of
                 None \<Rightarrow> None
               | Some k \<Rightarrow>
                   if wk_keyix k = ucast kid
                   then (case wifi_mac_sec_delt_key (Nw_key (unat kid)) (Some s) v0 of None \<Rightarrow> None | Some (_, v) \<Rightarrow> Some (0, v))
                   else Some (0, v0))
       else if kid = vm_def_mgmt_txkey v0
       then Some (0, (put_key (Pmf_key s) (wifi_mac_security_resetkey WIFINET_KEYIX_NONE zero_key) v0)\<lparr>vm_def_mgmt_txkey := DEF_KEYIX_NONE\<rparr>)
       else Some (0, v0))"
      unfolding vm_cfg80211_del_key_def st_def [symmetric] Some option.case Let_def v0_def [symmetric] h0 ..
    have gu: "get_key v0 (Ucast_key s) = Some (sta_ucastkey t)" using h0 by (simp add: get_key.simps)
    have z: "key_ok (wifi_mac_security_resetkey WIFINET_KEYIX_NONE zero_key)"
      by (simp add: key_ok_def wifi_mac_security_resetkey_def zero_key_def wm_attach_def)
    consider (u) "unat kid < WIFINET_WEP_NKID" "ucast kid = wk_keyix (sta_ucastkey t)"
      | (n) "unat kid < WIFINET_WEP_NKID" "ucast kid \<noteq> wk_keyix (sta_ucastkey t)" | (m) "\<not> unat kid < WIFINET_WEP_NKID" by blast
    then show ?thesis
    proof cases
      case u
      then show ?thesis using delkey_total [OF ok0 gu h0] ms0 unfolding E by (auto simp: v0_def)
    next
      case n
      obtain k where k: "get_key v0 (Nw_key (unat kid)) = Some k" using nw_key_ok [OF ok0 n(1)] by blast
      show ?thesis using n k delkey_total [OF ok0 k h0] ms0 ok0 unfolding E by (auto simp: v0_def)
    next
      case m
      have "vif_ok ((put_key (Pmf_key s) (wifi_mac_security_resetkey WIFINET_KEYIX_NONE zero_key) v0)\<lparr>vm_def_mgmt_txkey := DEF_KEYIX_NONE\<rparr>)"
        by (rule vif_ok_simps [OF vif_ok_put [OF ok0 z]])
      then show ?thesis using m ms0 ok0 unfolding E by (auto simp: v0_def)
    qed
  qed
qed

section \<open>Indices outside the tables\<close>

text \<open>The driver does not check the index of a group key: with an index of 4 or more, which cfg80211 lets
  through for CCMP, adding it uses memory behind the four keys.\<close>

theorem add_group_key_out_of_bounds:
  assumes "vif_ok v" and "kp_cipher p = WLAN_CIPHER_SUITE_CCMP" and "kp_key_len p = 16" and "16 \<le> length (kp_key p)"
    and "kp_seq_len p = 0" and "WIFINET_WEP_NKID \<le> unat kid"
  shows "vm_cfg80211_add_key tx_empty kid False mac p v = None"
proof -
  have nw: "\<not> (kp_cipher p = WLAN_CIPHER_SUITE_WEP40 \<or> kp_cipher p = WLAN_CIPHER_SUITE_WEP104)"
    using assms(2) by (simp add: suite_defs)
  have ty: "ucast (get_cipher_rsn (kp_cipher p)) = (3 :: u8)" using assms(2) by (simp add: get_cipher_rsn_def suite_defs cipher_id_defs)
  obtain kr where kr: "mk_kr kid False mac p = Some kr" "ik_type kr = 3" "ik_keyix kr = ucast kid" "ik_flags kr = 7"
    using assms(3-5) ty by (simp add: mk_kr_def key_flag_defs)
  have ixu: "unat (ik_keyix kr) = unat kid" unfolding kr(3) by (rule unat_ucast_up) simp
  have K: "key_of_request kid kr v = Some (Inr (Nw_key (unat kid), kr\<lparr>ik_flags := ik_flags kr OR WIFINET_KEY_DEFAULT\<rparr>, None, v))"
    using kr flags_group(2) ixu by (simp add: key_of_request_def WIFINET_CIPHER_AES_CMAC_def)
  have len: "length (vm_nw_keys v) = WIFINET_WEP_NKID" using assms(1) by (simp add: vif_ok_def keys_ok_def)
  define v1 where "v1 = (if vm_opmode v = WIFINET_M_HOSTAP then
      let v = wifi_softap_allsta_stopping 1 v in v\<lparr>msleeps := msleeps v + wait_tx_empty tx_empty 0\<rparr> else v)"
  have "get_key v1 (Nw_key (unat kid)) = None"
    using assms(6) len by (simp add: get_key.simps v1_def Let_def)
  then have "install_key kid (Nw_key (unat kid)) kr' sta v1 = None" for kr' sta by (simp add: install_key_def wifi_mac_security_req_def)
  then show ?thesis
    unfolding vm_cfg80211_add_key_def if_not_P [OF nw]
    using assms(3) kr(1) K by (simp add: handshake_done_def v1_def Let_def)
qed

lemma find_aid_lowest:
  "(\<And>i. a \<le> i \<Longrightarrow> i < m \<Longrightarrow> vm_StaIsSetAid i v = Some True) \<Longrightarrow> m < vm_max_aid v \<Longrightarrow> a \<le> m
   \<Longrightarrow> vm_StaIsSetAid m v = Some False \<Longrightarrow> find_aid v a = Some m"
proof (induction "m - a" arbitrary: a)
  case 0
  then show ?case by (subst find_aid.simps) simp
next
  case (Suc n)
  then have "a < m" by simp
  then have "vm_StaIsSetAid a v = Some True" using Suc.prems(1) by simp
  moreover have "find_aid v (a + 1) = Some m" using Suc \<open>a < m\<close> by (intro Suc.hyps(1)) simp_all
  ultimately show ?case using Suc.prems(2) \<open>a < m\<close> by (subst find_aid.simps) simp
qed

lemma sixteenth_station:
  assumes "hal_ok vid h" and "vm_max_aid v = 0" and "vm_aid_bitmap v = [0xfffe]" and "sta_heap v s = Some t" and "sta_associd t = 0"
  shows "\<exists>v'. assign_aid s (wifi_mac_sta_vattach v) = Some (True, v')
      \<and> map_option (\<lambda>t. unat (sta_associd t AND 0xff)) (sta_heap v' s) = Some 16"
    and "phy_set_ucast_key vid 16 key 32 ty ix h = None"
    and "enc \<noteq> WIFI_NO_WEP \<Longrightarrow> assign_tx_desc_pn False vid 16 old enc h = None"
    and "ccmp_frame f vid 16 d \<Longrightarrow> hal_chk_replay_cnt (Some f) h d = None"
proof -
  let ?v = "wifi_mac_sta_vattach v"
  have bits: "bit (0xfffe :: u32) i = (1 \<le> i \<and> i < 16)" if "i \<le> 16" for i
    using that by (auto simp: numeral_eq_Suc le_Suc_eq)
  have set: "vm_StaIsSetAid i ?v = Some (1 \<le> i \<and> i < 16)" if "i \<le> 16" for i
    using that bits [OF that] assms(2,3) by (simp add: vm_StaIsSetAid_def wifi_mac_sta_vattach_def)
  have max: "vm_max_aid ?v = 17" using assms(2) by (simp add: wifi_mac_sta_vattach_def WIFINET_AID_DEF_def WIFI_MAX_STA_def)
  have "find_aid ?v 1 = Some 16" by (rule find_aid_lowest) (simp_all add: set max)
  then show "\<exists>v'. assign_aid s ?v = Some (True, v') \<and> map_option (\<lambda>t. unat (sta_associd t AND 0xff)) (sta_heap v' s) = Some 16"
    using assms(2-5) max by (simp add: assign_aid_def wifi_mac_sta_vattach_def vm_StaSetAid_def Let_def)
  have L: "vid < length (uRepCnt h)" "length (uRepCnt h ! vid) = 16" "vid < length (drv_wnet_vif_table h)"
    using assms(1) by (auto simp: hal_ok_def WIFI_MAX_STA_def)
  show "phy_set_ucast_key vid 16 key 32 ty ix h = None"
    using L by (simp add: phy_set_ucast_key_def Let_def split: option.splits)
  show "enc \<noteq> WIFI_NO_WEP \<Longrightarrow> assign_tx_desc_pn False vid 16 old enc h = None"
    using L by (simp add: assign_tx_desc_pn_def)
  show "ccmp_frame f vid 16 d \<Longrightarrow> hal_chk_replay_cnt (Some f) h d = None"
    using L by (simp add: hal_chk_replay_cnt_def ccmp_frame_def Let_def)
qed

text \<open>C23: The sixteenth station of an access point gets association id 16, one more than the counter tables
  hold: setting its key, encrypting a frame for it and checking a frame from it all use memory behind the
  table.\<close>

theorem sixteenth_station_overflows:
  assumes "hal_ok vid h" and "vm_max_aid v = 0" and "vm_aid_bitmap v = [0xfffe]" and "sta_heap v s = Some t" and "sta_associd t = 0"
  shows "(\<exists>v'. assign_aid s (wifi_mac_sta_vattach v) = Some (True, v')
        \<and> map_option (\<lambda>t. unat (sta_associd t AND 0xff)) (sta_heap v' s) = Some 16)
    \<and> phy_set_ucast_key vid 16 key 32 ty ix h = None
    \<and> (enc \<noteq> WIFI_NO_WEP \<longrightarrow> assign_tx_desc_pn False vid 16 old enc h = None)
    \<and> (ccmp_frame f vid 16 d \<longrightarrow> hal_chk_replay_cnt (Some f) h d = None)"
  using sixteenth_station [OF assms] by blast

section \<open>A concrete access point\<close>

text \<open>The access point of the witnesses: interface 0 with its own station, one associated station, no key yet.\<close>

definition ex_key :: wifi_mac_key where
  "ex_key = zero_key\<lparr>wk_cipher := Some Cipher_none, wk_private := True, wk_keyix := WIFINET_KEYIX_NONE\<rparr>"

definition ex_sta :: "macaddr \<Rightarrow> u16 \<Rightarrow> wifi_station" where
  "ex_sta m aid = \<lparr>sta_macaddr = m, sta_bssid = [2, 0, 0, 0, 0, 0], sta_vif_id = 0, sta_associd = aid, sta_ucastkey = ex_key,
     pmf_key = ex_key, connect_status = CONNECT_DHCP_GET_ACK, is_disconnecting = 0\<rparr>"

definition ex_vif :: "u8 \<Rightarrow> wlan_net_vif" where
  "ex_vif op = \<lparr>wnet_vif_id = 0, vm_opmode = op, vm_flags = WIFINET_F_PRIVACY, vm_def_txkey = DEF_KEYIX_NONE,
     vm_def_mgmt_txkey = 0, vm_nw_keys = replicate 4 ex_key, vm_myaddr = [2, 0, 0, 0, 0, 0], vm_mainsta = Some 0,
     sta_heap = [0 \<mapsto> ex_sta [2, 0, 0, 0, 0, 0] 0, 1 \<mapsto> ex_sta [2, 0, 0, 0, 0, 1] 0xc001], nt_nsta = [0, 1], nt_wds = [],
     current_keytype = 0, vif_sts = \<lparr>sts_key_type_err = 0, sts_key_drop = 0, sts_key_id_err = 0, sts_tx_key_err = 0,
     sts_headroom_err = 0, sts_rx_too_short = 0\<rparr>, recovery_stat = WIFINET_RECOVERY_END, vm_max_aid = 0, vm_aid_bitmap = [],
     msleeps = 0, key_work = [], key_hal = ex_key_hal\<rparr>"

definition ex_ccmp :: key_params where
  "ex_ccmp = \<lparr>kp_cipher = WLAN_CIPHER_SUITE_CCMP, kp_key = replicate 16 7, kp_key_len = 16, kp_seq = None, kp_seq_len = 0\<rparr>"

lemma ex_key_ok [simp]: "key_ok ex_key"
  by (simp add: key_ok_def ex_key_def zero_key_def)

lemma ex_vif_sel [simp]:
  "wnet_vif_id (ex_vif op) = 0" "vm_opmode (ex_vif op) = op" "vm_flags (ex_vif op) AND WIFINET_F_PRIVACY \<noteq> 0"
  "sta_heap (ex_vif op) 1 = Some (ex_sta [2, 0, 0, 0, 0, 1] 0xc001)" "vm_mainsta (ex_vif op) = Some 0"
  "sta_heap (ex_vif op) 0 = Some (ex_sta [2, 0, 0, 0, 0, 0] 0)" "sta_heap (ex_vif op) (Suc 0) = Some (ex_sta [2, 0, 0, 0, 0, 1] 0xc001)"
  by (simp_all add: ex_vif_def WIFINET_F_PRIVACY_def)

lemma ex_vif_nw: "vm_nw_keys (ex_vif op) = replicate 4 ex_key" "vm_def_txkey (ex_vif op) = DEF_KEYIX_NONE"
  by (simp_all add: ex_vif_def)

lemma ex_vif_get: "get_key (ex_vif op) r = Some k \<Longrightarrow> k = ex_key"
  by (cases r) (auto simp: ex_vif_def ex_sta_def nth_opt_def get_key.simps nth_Cons' split: if_splits)

lemma ex_vif_ok: "op \<in> {WIFINET_M_STA, WIFINET_M_HOSTAP} \<Longrightarrow> vif_ok (ex_vif op)"
proof -
  assume op: "op \<in> {WIFINET_M_STA, WIFINET_M_HOSTAP}"
  have "keys_ok (ex_vif op)"
    unfolding keys_ok_def by (auto simp: ex_vif_nw WIFINET_WEP_NKID_def dest!: ex_vif_get)
  moreover have "table_ok (ex_vif op)"
    using op by (auto simp: table_ok_def ex_vif_def ex_sta_def sta_ok_def WIFI_MAX_STA_def split: if_splits)
  ultimately show ?thesis using ex_key_hal_ok by (simp add: vif_ok_def) (simp add: ex_vif_def)
qed

lemma ex_request_ok: "unat kid < 4 \<Longrightarrow> (pairw \<Longrightarrow> \<exists>m. mac = Some m \<and> length m = 6) \<Longrightarrow> request_ok v kid pairw mac ex_ccmp"
  by (simp add: request_ok_def ex_ccmp_def suite_defs WIFINET_WEP_NKID_def)

lemma add_key_type_safe_witness:
  "\<exists>ret v'. vm_cfg80211_add_key (\<lambda>_. True) 0 True (Some [2, 0, 0, 0, 0, 1]) ex_ccmp (ex_vif WIFINET_M_HOSTAP) = Some (ret, v') \<and> vif_ok v'"
  using add_key_type_safe [OF ex_vif_ok ex_request_ok, of WIFINET_M_HOSTAP 0 True "Some [2, 0, 0, 0, 0, 1]" "\<lambda>_. True"] by auto

lemma station_cleanup_drops_group_keys_witness:
  "\<exists>v'. nsta_cleanup_keys (\<lambda>_. True) 1 (ex_vif WIFINET_M_HOSTAP) = Some v' \<and> tx_key 0 True v' = Some None"
  using station_cleanup_drops_group_keys [OF ex_vif_ok ex_vif_sel(2) ex_vif_sel(3) ex_vif_sel(4), of "\<lambda>_. True"]
  by (simp add: ex_sta_def ex_key_def zero_key_def) blast

lemma del_key_misses_group_key_witness:
  "vm_cfg80211_del_key (\<lambda>_. \<lparr>env_status = CONNECT_IDLE, env_disconnecting = 0, env_tx_empty = True\<rparr>) 1 False None
     (ex_vif WIFINET_M_HOSTAP) = Some (0, ex_vif WIFINET_M_HOSTAP)"
  using del_key_misses_group_key [OF ex_vif_ok, of WIFINET_M_HOSTAP] by simp

lemma del_key_returns_witness:
  "\<exists>v'. vm_cfg80211_del_key (\<lambda>_. \<lparr>env_status = CONNECT_DHCP_GET_ACK, env_disconnecting = 1, env_tx_empty = False\<rparr>) 0 True
     (Some [2, 0, 0, 0, 0, 1]) (ex_vif WIFINET_M_HOSTAP) = Some (0, v') \<and> msleeps v' \<le> 100"
proof -
  have "vif_ok (ex_vif WIFINET_M_HOSTAP)" by (rule ex_vif_ok) simp
  from del_key_returns [OF this] show ?thesis by (fastforce simp: ex_vif_def)
qed

lemma add_group_key_out_of_bounds_witness:
  "vm_cfg80211_add_key (\<lambda>_. True) 5 False None ex_ccmp (ex_vif WIFINET_M_HOSTAP) = None"
  by (rule add_group_key_out_of_bounds [OF ex_vif_ok]) (simp_all add: ex_ccmp_def WIFINET_WEP_NKID_def)

text \<open>The same access point with its first fifteen association ids taken and a new station.\<close>

definition ex_full :: wlan_net_vif where
  "ex_full = (ex_vif WIFINET_M_HOSTAP)\<lparr>vm_aid_bitmap := [0xfffe], sta_heap := [2 \<mapsto> ex_sta [2, 0, 0, 0, 0, 2] 0]\<rparr>"

lemma sixteenth_station_overflows_witness:
  "(\<exists>v'. assign_aid 2 (wifi_mac_sta_vattach ex_full) = Some (True, v')
     \<and> map_option (\<lambda>t. unat (sta_associd t AND 0xff)) (sta_heap v' 2) = Some 16)
   \<and> phy_set_ucast_key 0 16 (replicate 32 7) 32 WIFI_AES 0 ex_key_hal = None"
  using sixteenth_station_overflows [OF ex_key_hal_ok, where v = ex_full and s = 2 and t = "ex_sta [2, 0, 0, 0, 0, 2] 0"]
  by (simp add: ex_full_def ex_vif_def ex_sta_def)

end
