(* ===== verification/KeyInstall.thy ===== *)
theory KeyInstall
  imports Keys
begin

text \<open>What a key that \<open>vm_cfg80211_add_key\<close> has installed is used for: the key the transmit path then picks
  for a frame, the command the firmware got, and the identity of the keys that did not change.\<close>

section \<open>What an installed key is used for\<close>

text \<open>The 32 bytes handed to the firmware: the key, and for TKIP the receive then the transmit MIC key.\<close>

definition hw_key :: "bool \<Rightarrow> u8 list \<Rightarrow> u8 list" where
  "hw_key tkip key = (if tkip then take 16 key @ take 8 (drop 24 key) @ take 8 (drop 16 key) else take 16 key @ replicate 16 0)"

definition hw_type :: "bool \<Rightarrow> u8" where
  "hw_type tkip = (if tkip then WIFI_TKIP else WIFI_AES)"

text \<open>A CCMP key of 16 bytes or a TKIP key of 32.\<close>

definition good_key :: "bool \<Rightarrow> key_params \<Rightarrow> bool" where
  "good_key tkip p \<longleftrightarrow> kp_cipher p = (if tkip then WLAN_CIPHER_SUITE_TKIP else WLAN_CIPHER_SUITE_CCMP)
     \<and> kp_key_len p = (if tkip then 32 else 16) \<and> length (kp_key p) = kp_key_len p"

definition cip_of :: "bool \<Rightarrow> security" where
  "cip_of tkip = (if tkip then Cipher_tkip else Cipher_ccmp)"

text \<open>The key that setting a filled key leaves, and the value handed down for it.\<close>

definition set_key_of :: "bool \<Rightarrow> wifi_mac_key \<Rightarrow> wifi_mac_key" where
  "set_key_of tkip k = (if tkip then k\<lparr>wk_keytsc := 1\<rparr> else k)"

definition hk_of :: "bool \<Rightarrow> wifi_mac_key \<Rightarrow> u8 \<Rightarrow> hal_key_val" where
  "hk_of tkip k op = \<lparr>kv_type = hw_type tkip, kv_pad = op, kv_len = 16, kv_val = take 16 (wk_key k),
     kv_mic = (if tkip then wk_rxmic k else replicate 8 0), kv_txmic = (if tkip then wk_txmic k else replicate 8 0)\<rparr>"

lemma wm_setkey_good: "wk_keylen k = 16 \<Longrightarrow> wm_setkey (cip_of tkip) k = (1, set_key_of tkip k)"
  by (simp add: wm_setkey_def cip_of_def set_key_of_def tkip_setkey_def)

lemma key_set_good:
  assumes k: "key_ok k" and c: "wk_cipher k = Some (cip_of tkip)" and n: "wk_keylen k = 16" and ix: "wk_keyix k \<noteq> WIFINET_KEYIX_NONE"
    and tgt: "key_target k (hw_type tkip) m (v\<lparr>current_keytype := of_nat (wm_cipher (cip_of tkip))\<rparr>) = Some (Inl (mac, w))"
    and d: "drv_set (wk_keyix k) (hk_of tkip k (vm_opmode v)) mac w = Some (1, w')"
  shows "wifi_mac_key_set k m v = Some (1, w')"
proof -
  have nn: "cip_of tkip \<noteq> Cipher_none" by (simp add: cip_of_def)
  have ty: "ciphermap ! wm_cipher (cip_of tkip) = hw_type tkip"
    by (simp add: ciphermap_def cip_of_def cipher_id_defs hw_type_def key_type_defs)
  have tk: "hw_type tkip = HAL_KEY_TYPE_TKIP \<longleftrightarrow> tkip" by (simp add: hw_type_def key_type_defs)
  have hk: "(if tkip then (base_kv k (vm_opmode v) (wm_cipher (cip_of tkip)))\<lparr>kv_mic := wk_rxmic k, kv_txmic := wk_txmic k\<rparr>
             else base_kv k (vm_opmode v) (wm_cipher (cip_of tkip))) = hk_of tkip k (vm_opmode v)"
    using n ty by (cases tkip) (simp_all add: base_kv_def hk_of_def)
  show ?thesis
    unfolding key_set_eq [OF k c nn ix] Let_def ty tgt option.case sum.case prod.case tk wifi_mac_keyset_tkip_def
    using hk d by (cases tkip) simp_all
qed

lemma filled_key:
  assumes "good_key tkip p" and kr: "ik_keylen kr = of_nat (kp_key_len p)"
    "ik_keydata kr = take (kp_key_len p) (kp_key p) @ replicate (32 - kp_key_len p) 0"
  shows "wk_keylen (fill_key kr k) = 16" "wk_key (fill_key kr k) = take 32 (kp_key p @ replicate 16 0)"
    "kv_bytes (hk_of tkip (fill_key kr k) op) = hw_key tkip (kp_key p)"
proof -
  have g: "length (kp_key p) = kp_key_len p" "kp_key_len p = (if tkip then 32 else 16)" using assms(1) by (simp_all add: good_key_def)
  have n: "unat (of_nat (kp_key_len p) :: u8) = kp_key_len p" using g(2) by (simp add: unat_of_nat_u8)
  show len: "wk_keylen (fill_key kr k) = 16"
    using g(2) by (simp add: fill_key_def kr WIFINET_KEYBUF_SIZE_def)
  show key: "wk_key (fill_key kr k) = take 32 (kp_key p @ replicate 16 0)"
    using g n by (cases tkip) (simp_all add: fill_key_def kr)
  show "kv_bytes (hk_of tkip (fill_key kr k) op) = hw_key tkip (kp_key p)"
    using g by (cases tkip) (simp_all add: kv_bytes_def hk_of_def wk_rxmic_def wk_txmic_def key hw_key_def
        WIFINET_KEYBUF_SIZE_def flip: replicate_add)
qed

lemma good_key_cipher:
  "good_key tkip p \<Longrightarrow> security_type (unat (ucast (get_cipher_rsn (kp_cipher p)) :: u8)) = Some (cip_of tkip)
     \<and> unat (ucast (get_cipher_rsn (kp_cipher p)) :: u8) \<noteq> WIFINET_CIPHER_AES_CMAC"
  by (cases tkip) (simp_all add: good_key_def get_cipher_rsn_def suite_defs cipher_id_defs security_type_def cip_of_def)

text \<open>Installing a filled key for a target that takes it: the state afterwards.\<close>

lemma install_key_good:
  assumes ok: "vif_ok v" and g: "get_key v r = Some k0" and gk: "good_key tkip p" and kr: "kr_ok kr"
    and krf: "ik_type kr = ucast (get_cipher_rsn (kp_cipher p))" "ik_keylen kr = of_nat (kp_key_len p)"
      "ik_keydata kr = take (kp_key_len p) (kp_key p) @ replicate (32 - kp_key_len p) 0" "ik_keyix kr \<noteq> WIFINET_KEYIX_NONE"
    and m: "\<And>v1. frame_of v1 = frame_of v \<Longrightarrow>
       (case sta of None \<Rightarrow> Some (ik_macaddr kr) | Some s \<Rightarrow> map_option sta_macaddr (sta_heap v1 s)) = Some m"
    and tgt: "\<And>k w. wk_flags k AND WIFINET_KEY_GROUP = ik_flags kr AND WIFINET_KEY_GROUP \<Longrightarrow> frame_of w = frame_of v
       \<Longrightarrow> key_target k (hw_type tkip) m w = Some (Inl (Some m', w))"
    and d: "\<And>hk w. kv_ok hk \<Longrightarrow> kv_bytes hk = hw_key tkip (kp_key p) \<Longrightarrow> kv_type hk = hw_type tkip \<Longrightarrow> kv_len hk = 16
       \<Longrightarrow> kv_pad hk = vm_opmode v \<Longrightarrow> frame_of w = frame_of v \<Longrightarrow> key_hal w = key_hal v
       \<Longrightarrow> \<exists>h'. drv_set (ik_keyix kr) hk (Some m') w = Some (1, w\<lparr>key_hal := h'\<rparr>) \<and> P h'"
  shows "\<exists>k v' h'. install_key kid r kr sta v = Some (0, if ik_flags kr AND WIFINET_KEY_DEFAULT \<noteq> 0
        then v'\<lparr>vm_def_txkey := ucast (ik_keyix kr)\<rparr> else v')
    \<and> get_key v' r = Some k \<and> wk_cipher k = Some (cip_of tkip) \<and> take 32 (wk_key k) = take 32 (kp_key p @ replicate 16 0)
    \<and> wk_keyix k = ik_keyix kr
    \<and> (\<forall>q. q \<noteq> r \<longrightarrow> get_key v' q = get_key v q) \<and> key_hal v' = h' \<and> P h' \<and> frame_of v' = frame_of v
    \<and> vm_def_txkey v' = vm_def_txkey v \<and> vm_flags v' = vm_flags v"
proof -
  let ?c = "unat (ik_type kr)" and ?fl = "ik_flags kr AND WIFINET_KEY_COMMON"
  have C: "security_type ?c = Some (cip_of tkip)" "?c \<noteq> WIFINET_CIPHER_AES_CMAC"
    using good_key_cipher [OF gk] unfolding krf(1) by auto
  have kok: "key_ok k0" by (rule vif_ok_get [OF ok g])
  define k1 where "k1 = k0\<lparr>wk_cipher := Some (cip_of tkip), wk_private := True, wk_flags := req_flags ?c ?fl\<rparr>"
  have k1: "key_ok k1" using kok by (simp add: key_ok_def k1_def)
  define v1 where "v1 = put_key r k1 v"
  have R: "wifi_mac_security_req ?c ?fl r v = Some (1, v1)" unfolding v1_def k1_def by (rule security_req_eq [OF g kok C(1)])
  have ok1: "vif_ok v1" unfolding v1_def by (rule vif_ok_put [OF ok k1])
  have fr1: "frame_of v1 = frame_of v" by (simp add: v1_def)
  have g1: "get_key v1 r = Some k1" using get_put_same [of v r k1] g by (simp add: v1_def)
  define k2 where "k2 = fill_key kr k1"
  have k2: "key_ok k2" using fill_key_ok [OF k1] kr by (simp add: k2_def kr_ok_def)
  note F = filled_key [OF gk krf(2,3), of k1, folded k2_def]
  define k3 where "k3 = set_key_of tkip k2"
  have k3: "key_ok k3" "wk_cipher k3 = Some (cip_of tkip)" "wk_keylen k3 = 16" "wk_key k3 = wk_key k2" "wk_keyix k3 = ik_keyix kr"
    "wk_flags k3 = req_flags ?c ?fl"
    using k2 F(1) by (simp_all add: k3_def set_key_of_def key_ok_def) (simp_all add: k2_def k1_def fill_key_def)
  have hk3: "kv_bytes (hk_of tkip k3 op) = hw_key tkip (kp_key p)" for op
    using F(3) [of op] by (cases tkip) (simp_all add: k3_def set_key_of_def hk_of_def kv_bytes_def wk_rxmic_def wk_txmic_def)
  define v2 where "v2 = put_key r k2 v1"
  define v3 where "v3 = put_key r k3 v2"
  have v3e: "v3 = put_key r k3 v" by (simp add: v3_def v2_def v1_def)
  have fr3: "frame_of v3 = frame_of v" by (simp add: v3e)
  have g2: "get_key v2 r = Some k2" using get_put_same [of v1 r k2] g1 by (simp add: v2_def)
  have g3: "get_key v3 q = (if q = r then Some k3 else get_key v q)" for q using get_put_key [of v r k3 q] g by (auto simp: v3e)
  have c2: "wk_cipher k2 = Some (cip_of tkip)" by (simp add: k2_def k1_def fill_key_def)
  let ?w = "v3\<lparr>current_keytype := of_nat (wm_cipher (cip_of tkip))\<rparr>"
  have T: "key_target k3 (hw_type tkip) m ?w = Some (Inl (Some m', ?w))"
    by (rule tgt) (simp_all add: k3(6) req_flags_group fr3)
  have op: "vm_opmode v3 = vm_opmode v" using frame_ofD(2) [OF fr3] .
  have kvok: "kv_ok (hk_of tkip k3 (vm_opmode v3))" using k3(1) wk_mic_len [OF k3(1)] by (simp add: kv_ok_def hk_of_def key_ok_def)
  obtain h' where D: "drv_set (ik_keyix kr) (hk_of tkip k3 (vm_opmode v3)) (Some m') ?w = Some (1, ?w\<lparr>key_hal := h'\<rparr>)" "P h'"
    using d [OF kvok hk3, of ?w] fr3 op by (auto simp: hk_of_def v3e)
  have ix3: "wk_keyix k3 \<noteq> WIFINET_KEYIX_NONE" using krf(4) k3(5) by simp
  have D': "drv_set (wk_keyix k3) (hk_of tkip k3 (vm_opmode v3)) (Some m') ?w = Some (1, ?w\<lparr>key_hal := h'\<rparr>)" using D(1) k3(5) by simp
  have S: "wifi_mac_security_setkey r m v2 = Some (1, ?w\<lparr>key_hal := h'\<rparr>)"
    using key_set_good [OF k3(1-3) ix3 T D'] ix3
    by (simp add: wifi_mac_security_setkey_def g2 c2 wm_setkey_good [OF F(1)] k3_def [symmetric] v3_def [symmetric] Let_def)
  define v' where "v' = ?w\<lparr>key_hal := h'\<rparr>"
  have I: "install_key kid r kr sta v = Some (0, if ik_flags kr AND WIFINET_KEY_DEFAULT \<noteq> 0
        then v'\<lparr>vm_def_txkey := ucast (ik_keyix kr)\<rparr> else v')"
    unfolding install_key_def R option.case prod.case Let_def g1 k2_def [symmetric] if_not_P [OF C(2)] m [OF fr1] v2_def [symmetric] S v'_def
    by simp
  have g': "get_key v' q = get_key v3 q" for q by (rule get_key_ext) (simp_all add: v'_def)
  have "get_key v' r = Some k3" using g' g3 by simp
  moreover have "\<forall>q. q \<noteq> r \<longrightarrow> get_key v' q = get_key v q" using g' g3 by simp
  moreover have "take 32 (wk_key k3) = take 32 (kp_key p @ replicate 16 0)" using k3(4) F(2) by simp
  moreover have "frame_of v' = frame_of v" "vm_def_txkey v' = vm_def_txkey v" "vm_flags v' = vm_flags v" "key_hal v' = h'"
    using fr3 by (simp_all add: v'_def v3e)
  ultimately show ?thesis using I D(2) k3(2,5) by blast
qed

lemma hw_type_simps:
  "hw_type tkip \<noteq> HAL_KEY_TYPE_WEP" "hw_type tkip \<noteq> WIFI_WEP128" "hw_type tkip \<noteq> WIFI_WEP256" "hw_type tkip \<noteq> WIFI_WPI"
  by (simp_all add: hw_type_def key_type_defs)

lemma cmd_type_good: "kv_type hk = hw_type tkip \<Longrightarrow> cmd_type hk = hw_type tkip"
  by (simp add: cmd_type_def hw_type_simps)

text \<open>What \<open>vm_cfg80211_add_key\<close> does before and after the installation.\<close>

lemma add_key_steps:
  assumes ok: "vif_ok v" and gk: "good_key tkip p" and kr: "mk_kr kid pairw mac p = Some kr"
    and K: "key_of_request kid kr v = Some (Inr (r, kr', sta, v))" and s: "\<And>s. sta = Some s \<Longrightarrow> sta_heap v s \<noteq> None"
  shows "\<exists>w. vif_ok w \<and> frame_of w = frame_of v \<and> (\<forall>q. get_key w q = get_key v q) \<and> key_hal w = key_hal v
    \<and> vm_def_txkey w = vm_def_txkey v \<and> vm_flags w = vm_flags v
    \<and> vm_cfg80211_add_key tx_empty kid pairw mac p v =
        (case install_key kid r kr' sta w of
           None \<Rightarrow> None
         | Some (ret, u) \<Rightarrow> Some (ret, if vm_opmode u = WIFINET_M_HOSTAP then wifi_softap_allsta_stopping 0 u else u))"
proof -
  obtain v2 where H: "handshake_done sta v = Some v2" "vif_ok v2" "frame_of v2 = frame_of v"
    "\<And>r. get_key v2 r = get_key v r" "vm_def_txkey v2 = vm_def_txkey v" "key_hal v2 = key_hal v" "vm_flags v2 = vm_flags v"
    using handshake_done_total [OF ok s] by blast
  define w where "w = (if vm_opmode v2 = WIFINET_M_HOSTAP then
      let v = wifi_softap_allsta_stopping 1 v2 in v\<lparr>msleeps := msleeps v + wait_tx_empty tx_empty 0\<rparr> else v2)"
  have g: "get_key w q = get_key v q" for q
    using allsta_stopping_same(1) [of 1 v2 q] H(4) get_key_ext [of "wifi_softap_allsta_stopping 1 v2\<lparr>msleeps := m\<rparr>" "wifi_softap_allsta_stopping 1 v2" q for m]
    by (simp add: w_def Let_def)
  have f: "frame_of w = frame_of v" using allsta_stopping_same(2) H(3) by (simp add: w_def Let_def)
  have okw: "vif_ok w" using H(2) by (simp add: w_def Let_def vif_ok_simps allsta_stopping_ok)
  have nw: "\<not> (kp_cipher p = WLAN_CIPHER_SUITE_WEP40 \<or> kp_cipher p = WLAN_CIPHER_SUITE_WEP104)" "\<not> kp_key_len p > 32"
    using gk by (auto simp: good_key_def suite_defs)
  have "vm_cfg80211_add_key tx_empty kid pairw mac p v =
        (case install_key kid r kr' sta w of
           None \<Rightarrow> None
         | Some (ret, u) \<Rightarrow> Some (ret, if vm_opmode u = WIFINET_M_HOSTAP then wifi_softap_allsta_stopping 0 u else u))"
    unfolding vm_cfg80211_add_key_def if_not_P [OF nw(1)] if_not_P [OF nw(2)] kr option.case K sum.case prod.case H(1)
      w_def [symmetric] Let_def [of "if vm_opmode v2 = _ then _ else _"] by (simp add: Let_def)
  moreover have "key_hal w = key_hal v" "vm_def_txkey w = vm_def_txkey v" "vm_flags w = vm_flags v"
    using H(5-7) by (simp_all add: w_def Let_def)
  ultimately show ?thesis using okw f g by blast
qed

lemma good_mk_kr:
  assumes "request_ok v kid pairw mac p" "good_key tkip p"
  obtains kr where "mk_kr kid pairw mac p = Some kr" "kr_ok kr" "ik_type kr = ucast (get_cipher_rsn (kp_cipher p))"
    "ik_keyix kr = ucast kid" "ik_flags kr = (if pairw then 3 else 7)" "ik_keylen kr = of_nat (kp_key_len p)"
    "ik_keydata kr = take (kp_key_len p) (kp_key p) @ replicate (32 - kp_key_len p) 0"
    "ik_macaddr kr = (if pairw then the mac else replicate 6 0)" "unat (ik_keyix kr) = unat kid"
proof -
  have "kp_key_len p \<le> 32" using assms(2) by (simp add: good_key_def)
  from mk_kr_ok [OF assms(1) this] obtain kr where kr: "mk_kr kid pairw mac p = Some kr" "kr_ok kr" "ik_type kr = ucast (get_cipher_rsn (kp_cipher p))"
    "ik_keyix kr = ucast kid" "ik_flags kr = (if pairw then 3 else 7)" "ik_keylen kr = of_nat (kp_key_len p)"
    "ik_keydata kr = take (kp_key_len p) (kp_key p) @ replicate (32 - kp_key_len p) 0"
    "ik_macaddr kr = (if pairw then the mac else replicate 6 0)" by blast
  have "unat (ik_keyix kr) = unat kid" unfolding kr(4) by (rule unat_ucast_up) simp
  then show thesis using that kr by blast
qed

text \<open>The station a pairwise key is for: the access point of a station interface, a station of an access point.\<close>

definition pairwise_sta :: "wlan_net_vif \<Rightarrow> macaddr \<Rightarrow> nat \<Rightarrow> wifi_station \<Rightarrow> bool" where
  "pairwise_sta v mac s t \<longleftrightarrow> sta_heap v s = Some t \<and> (sta_macaddr t ! 0) AND 1 \<noteq> 1
     \<and> (vm_opmode v = WIFINET_M_STA \<and> vm_mainsta v = Some s \<and> sta_bssid t = mac
        \<or> vm_opmode v = WIFINET_M_HOSTAP \<and> wifi_mac_get_sta v mac (wnet_vif_id v) = Some s)"

lemma keyix_not_none: "kid \<noteq> 255 \<Longrightarrow> (ucast (kid :: u8) :: u16) \<noteq> WIFINET_KEYIX_NONE"
proof
  assume k: "kid \<noteq> 255" and "(ucast kid :: u16) = WIFINET_KEYIX_NONE"
  then have "ucast (ucast kid :: u16) = (ucast (0xff :: u16) :: u8)" unfolding WIFINET_KEYIX_NONE_def by simp
  then show False using k by (simp add: ucast_u8_u16)
qed

text \<open>The station id of a unicast key command.\<close>

lemma pairwise_staid:
  assumes "vif_ok v" and "pairwise_sta v mac s t"
  obtains sid where "\<And>hk. kv_pad hk = vm_opmode v \<Longrightarrow> key_staid (associd_of v) hk (sta_macaddr t) = Some sid"
    "unat sid < WIFI_MAX_STA" "vm_opmode v = WIFINET_M_STA \<Longrightarrow> sid = 1"
    "vm_opmode v = WIFINET_M_HOSTAP \<Longrightarrow> \<exists>a. associd_of v (sta_macaddr t) = Some a \<and> sid = a AND 0xff"
proof (cases "vm_opmode v = WIFINET_M_HOSTAP")
  case True
  have tab: "table_ok v" using assms(1) by (simp add: vif_ok_def)
  have ht: "sta_heap v s = Some t" using assms(2) by (simp add: pairwise_sta_def)
  have ne: "WIFINET_M_STA \<noteq> WIFINET_M_HOSTAP" by (simp add: opmode_defs)
  have "wifi_mac_get_sta v mac (wnet_vif_id v) = Some s" using assms(2) ne True by (auto simp: pairwise_sta_def)
  then have "s \<in> set (nt_nsta v)" by (rule get_sta_Some(1) [OF tab])
  then obtain a where a: "associd_of v (sta_macaddr t) = Some a" using associd_self [OF tab _ ht] by blast
  show thesis using a True ne associd_bound [OF tab True a] by (intro that [of "a AND 0xff"]) (simp_all add: key_staid_def)
next
  case False
  then show thesis by (intro that [of 1]) (simp_all add: key_staid_def WIFI_MAX_STA_def)
qed

lemma sta_mac_frame:
  assumes "sta_heap v s = Some t" and "frame_of x = frame_of v"
  shows "map_option sta_macaddr (sta_heap x s) = Some (sta_macaddr t)"
proof -
  have "map_option view_of (sta_heap x s) = Some (view_of t)" using frame_ofD(6) [of x v s] assms by simp
  then show ?thesis by (cases "sta_heap x s") (auto simp: view_of_def)
qed

text \<open>One key handed down: the command the firmware gets.\<close>

lemma drv_set_ucast:
  assumes ok: "vif_ok v" and x: "frame_of x = frame_of v" "key_hal x = key_hal v" and hk: "kv_ok hk"
    and m: "m \<noteq> []" "(m ! 0) AND 1 \<noteq> 1" and sid: "key_staid (associd_of v) hk m = Some sid" "unat sid < WIFI_MAX_STA"
  shows "\<exists>h'. drv_set ix hk (Some m) x = Some (1, x\<lparr>key_hal := h'\<rparr>)
    \<and> hal_cmds h' = hal_cmds (key_hal v) @ [Driv_ps_wakeup, UniCast_Key_Set_Cmd (ucast_cmd (wnet_vif_id v) sid ix hk), Driv_ps_sleep]"
proof -
  have hal: "hal_ok (wnet_vif_id v) (key_hal v)" using ok by (simp add: vif_ok_def)
  have L: "wnet_vif_id v < length (uRepCnt (key_hal v))" "length (uRepCnt (key_hal v) ! wnet_vif_id v) = WIFI_MAX_STA"
    "wnet_vif_id v < length (drv_wnet_vif_table (key_hal v))"
    using hal by (auto simp: hal_ok_def)
  obtain y where y: "drv_wnet_vif_table (key_hal v) ! wnet_vif_id v = Some y" using hal by (auto simp: hal_ok_def)
  have si: "unat sid < length (uRepCnt (key_hal v) ! wnet_vif_id v)" using L(2) sid(2) by simp
  have ex: "associd_of x = associd_of v" "wnet_vif_id x = wnet_vif_id v" "key_hal x = key_hal v"
    using associd_frame [OF x(1)] frame_ofD(1) [OF x(1)] x(2) by simp_all
  obtain h' where "drv_key_set (associd_of v) (wnet_vif_id v) ix hk (Some m) (key_hal v) = Some (1, h')
      \<and> hal_cmds h' = hal_cmds (key_hal v) @ [Driv_ps_wakeup, UniCast_Key_Set_Cmd (ucast_cmd (wnet_vif_id v) sid ix hk), Driv_ps_sleep]"
    using drv_key_set_ucast [OF m sid(1) hk L(1) si L(3) y refl, of ix] by fastforce
  then show ?thesis by (auto simp: drv_set_def ex)
qed

lemma drv_set_mcast:
  assumes ok: "vif_ok v" and x: "frame_of x = frame_of v" "key_hal x = key_hal v" and hk: "kv_ok hk" "kv_len hk = 16"
    and m: "m \<noteq> []" "(m ! 0) AND 1 = 1"
  shows "\<exists>h'. drv_set ix hk (Some m) x = Some (1, x\<lparr>key_hal := h'\<rparr>)
    \<and> hal_cmds h' = hal_cmds (key_hal v) @ [Driv_ps_wakeup, Multicast_Key_Set_Cmd (mcast_cmd (wnet_vif_id v) ix hk), Driv_ps_sleep]"
proof -
  have hal: "hal_ok (wnet_vif_id v) (key_hal v)" using ok by (simp add: vif_ok_def)
  have ex: "associd_of x = associd_of v" "wnet_vif_id x = wnet_vif_id v" "key_hal x = key_hal v"
    using associd_frame [OF x(1)] frame_ofD(1) [OF x(1)] x(2) by simp_all
  show ?thesis
    using drv_key_set_mcast [OF m hk(1) _ hal, of "associd_of v" ix] hk(2) by (auto simp: drv_set_def ex)
qed

text \<open>Targets: a pairwise key goes to the address of its station, a group key to that address with the group bit.\<close>

lemma key_target_good:
  assumes "vm_opmode v = WIFINET_M_STA \<or> vm_opmode v = WIFINET_M_HOSTAP"
  shows "key_target k (hw_type tkip) m v =
    Some (Inl (Some (if wk_flags k AND WIFINET_KEY_GROUP \<noteq> 0 then group_mac m else m), v))"
  using assms hw_type_simps(1) by (auto simp: key_target_def opmode_defs)

lemma cip_defined: "wk_cipher k = Some (cip_of tkip) \<Longrightarrow> \<not> KEY_UNDEFINED k"
  by (simp add: KEY_UNDEFINED_def cip_of_def)

text \<open>The outcome of \<open>install_key_good\<close> without the intermediate hardware state.\<close>

lemma install_key_outcome:
  assumes "vif_ok v" "get_key v r = Some k0" "good_key tkip p" "kr_ok kr"
    "ik_type kr = ucast (get_cipher_rsn (kp_cipher p))" "ik_keylen kr = of_nat (kp_key_len p)"
    "ik_keydata kr = take (kp_key_len p) (kp_key p) @ replicate (32 - kp_key_len p) 0" "ik_keyix kr \<noteq> WIFINET_KEYIX_NONE"
    and m: "\<And>v1. frame_of v1 = frame_of v \<Longrightarrow>
       (case sta of None \<Rightarrow> Some (ik_macaddr kr) | Some s \<Rightarrow> map_option sta_macaddr (sta_heap v1 s)) = Some m"
    and tgt: "\<And>k w. wk_flags k AND WIFINET_KEY_GROUP = ik_flags kr AND WIFINET_KEY_GROUP \<Longrightarrow> frame_of w = frame_of v
       \<Longrightarrow> key_target k (hw_type tkip) m w = Some (Inl (Some m', w))"
    and d: "\<And>hk w. kv_ok hk \<Longrightarrow> kv_bytes hk = hw_key tkip (kp_key p) \<Longrightarrow> kv_type hk = hw_type tkip \<Longrightarrow> kv_len hk = 16
       \<Longrightarrow> kv_pad hk = vm_opmode v \<Longrightarrow> frame_of w = frame_of v \<Longrightarrow> key_hal w = key_hal v
       \<Longrightarrow> \<exists>h'. drv_set (ik_keyix kr) hk (Some m') w = Some (1, w\<lparr>key_hal := h'\<rparr>) \<and> P h'"
  shows "\<exists>k v'. install_key kid r kr sta v = Some (0, if ik_flags kr AND WIFINET_KEY_DEFAULT \<noteq> 0
        then v'\<lparr>vm_def_txkey := ucast (ik_keyix kr)\<rparr> else v')
    \<and> get_key v' r = Some k \<and> wk_cipher k = Some (cip_of tkip) \<and> take 32 (wk_key k) = take 32 (kp_key p @ replicate 16 0)
    \<and> wk_keyix k = ik_keyix kr
    \<and> (\<forall>q. q \<noteq> r \<longrightarrow> get_key v' q = get_key v q) \<and> P (key_hal v') \<and> frame_of v' = frame_of v
    \<and> vm_def_txkey v' = vm_def_txkey v \<and> vm_flags v' = vm_flags v"
  apply (rule exE [OF install_key_good [where P = P and sta = sta and kid = kid and r = r and m = m and m' = m', OF assms(1-8)]])
     apply (erule m)
    apply (erule (1) tgt)
   apply (erule (6) d)
  by blast

text \<open>C21: A pairwise CCMP or TKIP key, once added, protects the unicast frames of its station: adding returns 0,
  the key of the station holds the cipher, the index and the bytes of the request, the transmit path picks
  it, no other key changes, and the firmware gets exactly one command, with the station id, the type, the
  index and the 32 bytes of the key (the MIC keys of TKIP in receive, transmit order).\<close>

theorem pairwise_key_protects:
  assumes "vif_ok v" and "request_ok v kid True (Some mac) p" and "good_key tkip p" and "kid \<noteq> 255"
    and "pairwise_sta v mac s t" and "vm_flags v AND WIFINET_F_PRIVACY \<noteq> 0"
  shows "\<exists>v' k c. vm_cfg80211_add_key tx_empty kid True (Some mac) p v = Some (0, v')
    \<and> get_key v' (Ucast_key s) = Some k \<and> wk_cipher k = Some (cip_of tkip) \<and> wk_keyix k = ucast kid
    \<and> take 32 (wk_key k) = take 32 (kp_key p @ replicate 16 0)
    \<and> tx_key s False v' = Some (Some (Ucast_key s))
    \<and> (\<forall>q. q \<noteq> Ucast_key s \<longrightarrow> get_key v' q = get_key v q)
    \<and> hal_cmds (key_hal v') = hal_cmds (key_hal v) @ [Driv_ps_wakeup, UniCast_Key_Set_Cmd c, Driv_ps_sleep]
    \<and> uc_KeyType c = hw_type tkip \<and> uc_KeyId c = kid \<and> uc_Key c = hw_key tkip (kp_key p)
    \<and> (vm_opmode v = WIFINET_M_STA \<longrightarrow> uc_StaId c = 1)
    \<and> (vm_opmode v = WIFINET_M_HOSTAP \<longrightarrow> (\<exists>a. associd_of v (sta_macaddr t) = Some a \<and> uc_StaId c = ucast (a AND 0xff)))"
proof -
  obtain kr where kr: "mk_kr kid True (Some mac) p = Some kr" "kr_ok kr" "ik_type kr = ucast (get_cipher_rsn (kp_cipher p))"
    "ik_keyix kr = ucast kid" "ik_flags kr = 3" "ik_keylen kr = of_nat (kp_key_len p)"
    "ik_keydata kr = take (kp_key_len p) (kp_key p) @ replicate (32 - kp_key_len p) 0" "ik_macaddr kr = mac"
    by (rule good_mk_kr [OF assms(2,3)]) simp
  have ht: "sta_heap v s = Some t" and uni: "(sta_macaddr t ! 0) AND 1 \<noteq> 1" using assms(5) by (simp_all add: pairwise_sta_def)
  have mode: "vm_opmode v = WIFINET_M_STA \<or> vm_opmode v = WIFINET_M_HOSTAP" using assms(5) by (auto simp: pairwise_sta_def)
  have K: "key_of_request kid kr v = Some (Inr (Ucast_key s, kr, Some s, v))"
    using assms(5) kr(5,8) flags_group(1) by (auto simp: pairwise_sta_def key_of_request_def opmode_defs)
  obtain w where w: "vif_ok w" "frame_of w = frame_of v" "\<And>q. get_key w q = get_key v q" "key_hal w = key_hal v"
    "vm_def_txkey w = vm_def_txkey v" "vm_flags w = vm_flags v"
    and run: "vm_cfg80211_add_key tx_empty kid True (Some mac) p v =
        (case install_key kid (Ucast_key s) kr (Some s) w of
           None \<Rightarrow> None
         | Some (ret, u) \<Rightarrow> Some (ret, if vm_opmode u = WIFINET_M_HOSTAP then wifi_softap_allsta_stopping 0 u else u))"
    using add_key_steps [OF assms(1,3) kr(1) K] ht by auto
  let ?m = "sta_macaddr t"
  have gw: "get_key w (Ucast_key s) = Some (sta_ucastkey t)" unfolding w(3) using ht by (simp add: get_key.simps)
  have ixn: "ik_keyix kr \<noteq> WIFINET_KEYIX_NONE" unfolding kr(4) by (rule keyix_not_none [OF assms(4)])
  have "sta_ok v t" using assms(1) ht by (simp add: vif_ok_def table_ok_def)
  then have m: "?m \<noteq> []" by (auto simp: sta_ok_def)
  obtain sid where sid: "\<And>hk. kv_pad hk = vm_opmode v \<Longrightarrow> key_staid (associd_of v) hk ?m = Some sid" "unat sid < WIFI_MAX_STA"
    "vm_opmode v = WIFINET_M_STA \<Longrightarrow> sid = 1"
    "vm_opmode v = WIFINET_M_HOSTAP \<Longrightarrow> \<exists>a. associd_of v ?m = Some a \<and> sid = a AND 0xff"
    by (rule pairwise_staid [OF assms(1,5)]) blast
  define P where "P = (\<lambda>h' :: key_hal. \<exists>c. hal_cmds h' = hal_cmds (key_hal v) @ [Driv_ps_wakeup, UniCast_Key_Set_Cmd c, Driv_ps_sleep]
    \<and> uc_KeyType c = hw_type tkip \<and> uc_KeyId c = kid \<and> uc_Key c = hw_key tkip (kp_key p) \<and> uc_StaId c = ucast sid)"
  have D: "\<exists>h'. drv_set (ik_keyix kr) hk (Some ?m) x = Some (1, x\<lparr>key_hal := h'\<rparr>) \<and> P h'"
    if hk: "kv_ok hk" "kv_bytes hk = hw_key tkip (kp_key p)" "kv_type hk = hw_type tkip" "kv_len hk = 16" "kv_pad hk = vm_opmode w"
      and x: "frame_of x = frame_of w" "key_hal x = key_hal w" for hk x
    using drv_set_ucast [OF assms(1) trans [OF x(1) w(2)] trans [OF x(2) w(4)] hk(1) m uni sid(1) [OF hk(5) [unfolded frame_ofD(2) [OF w(2)]]] sid(2)]
      hk(2) cmd_type_good [OF hk(3)] kr(4) by (fastforce simp: ucast_cmd_def ucast_u8_u16 P_def)
  have T: "key_target k (hw_type tkip) ?m x = Some (Inl (Some ?m, x))"
    if "wk_flags k AND WIFINET_KEY_GROUP = ik_flags kr AND WIFINET_KEY_GROUP" "frame_of x = frame_of w" for k x
    using that frame_ofD(2) [of x v] w(2) mode kr(5) flags_group(1) key_target_good [of x k tkip ?m] by simp
  have M: "(case Some s of None \<Rightarrow> Some (ik_macaddr kr) | Some s \<Rightarrow> map_option sta_macaddr (sta_heap x s)) = Some ?m"
    if "frame_of x = frame_of w" for x using sta_mac_frame [OF ht] that w(2) by simp
  have nd: "\<not> ik_flags kr AND WIFINET_KEY_DEFAULT \<noteq> 0" unfolding kr(5) by (simp add: flags_group)
  obtain k v1 where I: "install_key kid (Ucast_key s) kr (Some s) w = Some (0, v1)" "get_key v1 (Ucast_key s) = Some k"
    "wk_cipher k = Some (cip_of tkip)" "take 32 (wk_key k) = take 32 (kp_key p @ replicate 16 0)" "wk_keyix k = ik_keyix kr"
    "\<forall>q. q \<noteq> Ucast_key s \<longrightarrow> get_key v1 q = get_key w q" "P (key_hal v1)" "vm_flags v1 = vm_flags w"
    using install_key_outcome [OF w(1) gw assms(3) kr(2,3,6,7) ixn M T D] unfolding if_not_P [OF nd] by blast
  define v' where "v' = (if vm_opmode v1 = WIFINET_M_HOSTAP then wifi_softap_allsta_stopping 0 v1 else v1)"
  have g': "get_key v' q = get_key v1 q" for q using allsta_stopping_same(1) by (simp add: v'_def)
  have fl': "vm_flags v' AND WIFINET_F_PRIVACY \<noteq> 0" "key_hal v' = key_hal v1" using I(8) w(6) assms(6) by (simp_all add: v'_def)
  obtain t' where t': "sta_heap v' s = Some t'" "sta_ucastkey t' = k" using g' [of "Ucast_key s"] I(2) by (auto simp: get_key.simps)
  have "tx_key s False v' = Some (Some (Ucast_key s))"
    using fl' t' cip_defined [OF I(3)] by (simp add: tx_key_def wifi_mac_security_getucastkey_def)
  moreover have "vm_cfg80211_add_key tx_empty kid True (Some mac) p v = Some (0, v')" unfolding run I(1) by (simp add: v'_def)
  moreover obtain c where c: "hal_cmds (key_hal v1) = hal_cmds (key_hal v) @ [Driv_ps_wakeup, UniCast_Key_Set_Cmd c, Driv_ps_sleep]"
    "uc_KeyType c = hw_type tkip" "uc_KeyId c = kid" "uc_Key c = hw_key tkip (kp_key p)" "uc_StaId c = ucast sid"
    using I(7) unfolding P_def by blast
  moreover have "vm_opmode v = WIFINET_M_STA \<longrightarrow> uc_StaId c = 1" using c(5) sid(3) by simp
  moreover have "vm_opmode v = WIFINET_M_HOSTAP \<longrightarrow> (\<exists>a. associd_of v ?m = Some a \<and> uc_StaId c = ucast (a AND 0xff))"
    using c(5) sid(4) by auto
  ultimately show ?thesis using g' I fl'(2) w(3) kr(4) by (intro exI [of _ v'] exI [of _ k] exI [of _ c]) simp
qed

text \<open>A group CCMP or TKIP key of index 0 to 3, once added, protects the group-addressed frames of an access
  point: adding returns 0, key slot kid holds the cipher and the bytes of the request and becomes the
  default, the transmit path picks it for group frames, no other key changes, and the firmware gets exactly
  one group key command with the type, the index and the 32 bytes of the key.\<close>

theorem group_key_protects:
  assumes "vif_ok v" and "request_ok v kid False mac p" and "good_key tkip p" and "kid < 4"
    and "vm_opmode v = WIFINET_M_HOSTAP" and "vm_flags v AND WIFINET_F_PRIVACY \<noteq> 0"
  shows "\<exists>v' k c. vm_cfg80211_add_key tx_empty kid False mac p v = Some (0, v')
    \<and> get_key v' (Nw_key (unat kid)) = Some k \<and> wk_cipher k = Some (cip_of tkip) \<and> wk_keyix k = ucast kid
    \<and> take 32 (wk_key k) = take 32 (kp_key p @ replicate 16 0)
    \<and> vm_def_txkey v' = kid \<and> tx_key s True v' = Some (Some (Nw_key (unat kid)))
    \<and> (\<forall>q. q \<noteq> Nw_key (unat kid) \<longrightarrow> get_key v' q = get_key v q)
    \<and> hal_cmds (key_hal v') = hal_cmds (key_hal v) @ [Driv_ps_wakeup, Multicast_Key_Set_Cmd c, Driv_ps_sleep]
    \<and> mc_KeyType c = hw_type tkip \<and> mc_KeyId c = kid \<and> mc_Key c = hw_key tkip (kp_key p)"
proof -
  obtain kr where kr: "mk_kr kid False mac p = Some kr" "kr_ok kr" "ik_type kr = ucast (get_cipher_rsn (kp_cipher p))"
    "ik_keyix kr = ucast kid" "ik_flags kr = 7" "ik_keylen kr = of_nat (kp_key_len p)"
    "ik_keydata kr = take (kp_key_len p) (kp_key p) @ replicate (32 - kp_key_len p) 0" "ik_macaddr kr = replicate 6 0"
    "unat (ik_keyix kr) = unat kid"
    by (rule good_mk_kr [OF assms(2,3)]) simp
  let ?kr = "kr\<lparr>ik_flags := ik_flags kr OR WIFINET_KEY_DEFAULT\<rparr>" and ?r = "Nw_key (unat kid)"
  have K: "key_of_request kid kr v = Some (Inr (?r, ?kr, None, v))"
    using good_key_cipher [OF assms(3)] flags_group(2) kr(3,5,9) by (simp add: key_of_request_def)
  obtain w where w: "vif_ok w" "frame_of w = frame_of v" "\<And>q. get_key w q = get_key v q" "key_hal w = key_hal v"
    "vm_def_txkey w = vm_def_txkey v" "vm_flags w = vm_flags v"
    and run: "vm_cfg80211_add_key tx_empty kid False mac p v =
        (case install_key kid ?r ?kr None w of
           None \<Rightarrow> None
         | Some (ret, u) \<Rightarrow> Some (ret, if vm_opmode u = WIFINET_M_HOSTAP then wifi_softap_allsta_stopping 0 u else u))"
    using add_key_steps [OF assms(1,3) kr(1) K] by auto
  have k4: "unat kid < WIFINET_WEP_NKID" using assms(4) by (simp add: word_less_nat_alt WIFINET_WEP_NKID_def)
  obtain k0 where gw: "get_key w ?r = Some k0" using nw_key_ok [OF w(1) k4] by blast
  have k255: "kid \<noteq> 255" using assms(4) by auto
  have ixn: "ik_keyix ?kr \<noteq> WIFINET_KEYIX_NONE" using keyix_not_none [OF k255] by (simp add: kr(4))
  let ?m = "replicate 6 0 :: macaddr"
  have gm: "group_mac ?m \<noteq> []" "(group_mac ?m ! 0) AND 1 = 1" using group_mac [of ?m] by auto
  have krs: "kr_ok ?kr" "ik_type ?kr = ucast (get_cipher_rsn (kp_cipher p))" "ik_keylen ?kr = of_nat (kp_key_len p)"
    "ik_keydata ?kr = take (kp_key_len p) (kp_key p) @ replicate (32 - kp_key_len p) 0"
    using kr by (simp_all add: kr_ok_def)
  define P where "P = (\<lambda>h' :: key_hal. \<exists>c. hal_cmds h' = hal_cmds (key_hal v) @ [Driv_ps_wakeup, Multicast_Key_Set_Cmd c, Driv_ps_sleep]
    \<and> mc_KeyType c = hw_type tkip \<and> mc_KeyId c = kid \<and> mc_Key c = hw_key tkip (kp_key p))"
  have D: "\<exists>h'. drv_set (ik_keyix ?kr) hk (Some (group_mac ?m)) x = Some (1, x\<lparr>key_hal := h'\<rparr>) \<and> P h'"
    if hk: "kv_ok hk" "kv_bytes hk = hw_key tkip (kp_key p)" "kv_type hk = hw_type tkip" "kv_len hk = 16" "kv_pad hk = vm_opmode w"
      and x: "frame_of x = frame_of w" "key_hal x = key_hal w" for hk x
  proof -
    have "mcast_cmd (wnet_vif_id v) (ik_keyix ?kr) hk = \<lparr>mc_vid = of_nat (wnet_vif_id v), mc_KeyId = kid, mc_KeyType = hw_type tkip,
        mc_KeyLen = 32, mc_AuthRole = 1, mc_PNStep = 1, mc_Key = hw_key tkip (kp_key p)\<rparr>"
      using kv_bytes_len [OF hk(1)] hk(2,3) cmd_type_good [OF hk(3)] hw_type_simps
      by (simp add: mcast_cmd_def kr(4) ucast_u8_u16)
    then show ?thesis
      using drv_set_mcast [OF assms(1) trans [OF x(1) w(2)] trans [OF x(2) w(4)] hk(1,4) gm] by (fastforce simp: P_def)
  qed
  have T: "key_target k (hw_type tkip) ?m x = Some (Inl (Some (group_mac ?m), x))"
    if "wk_flags k AND WIFINET_KEY_GROUP = ik_flags ?kr AND WIFINET_KEY_GROUP" "frame_of x = frame_of w" for k x
  proof -
    have "wk_flags k AND WIFINET_KEY_GROUP \<noteq> 0" using that(1) flags_group(3) kr(5) by simp
    moreover have "vm_opmode x = WIFINET_M_HOSTAP" using that(2) frame_ofD(2) [of x v] w(2) assms(5) by simp
    ultimately show ?thesis using key_target_good [of x k tkip ?m] by simp
  qed
  have M: "(case None of None \<Rightarrow> Some (ik_macaddr ?kr) | Some s \<Rightarrow> map_option sta_macaddr (sta_heap x s)) = Some ?m"
    if "frame_of x = frame_of w" for x using kr(8) by simp
  have df: "ik_flags ?kr AND WIFINET_KEY_DEFAULT \<noteq> 0" using flags_group(4) kr(5) by simp
  obtain k v1 where I: "install_key kid ?r ?kr None w = Some (0, v1\<lparr>vm_def_txkey := ucast (ik_keyix ?kr)\<rparr>)" "get_key v1 ?r = Some k"
    "wk_cipher k = Some (cip_of tkip)" "take 32 (wk_key k) = take 32 (kp_key p @ replicate 16 0)" "wk_keyix k = ik_keyix ?kr"
    "\<forall>q. q \<noteq> ?r \<longrightarrow> get_key v1 q = get_key w q" "P (key_hal v1)" "frame_of v1 = frame_of w" "vm_flags v1 = vm_flags w"
    using install_key_outcome [OF w(1) gw assms(3) krs ixn M T D] unfolding if_P [OF df] by blast
  define v' where "v' = wifi_softap_allsta_stopping 0 (v1\<lparr>vm_def_txkey := kid\<rparr>)"
  have op: "vm_opmode v1 = WIFINET_M_HOSTAP" using frame_ofD(2) [of v1 v] I(8) w(2) assms(5) by simp
  have g': "get_key v' q = get_key v1 q" for q
    using allsta_stopping_same(1) get_key_ext [of "v1\<lparr>vm_def_txkey := kid\<rparr>" v1 q] by (simp add: v'_def)
  have fl': "vm_flags v' AND WIFINET_F_PRIVACY \<noteq> 0" "key_hal v' = key_hal v1" "vm_def_txkey v' = kid"
    "vm_opmode v' = WIFINET_M_HOSTAP"
    using I(9) w(6) assms(6) op by (simp_all add: v'_def)
  have "tx_key s True v' = Some (Some ?r)"
    using fl' k255 g' [of ?r] I(2) cip_defined [OF I(3)]
    by (simp add: tx_key_def wifi_mac_security_getmcastkey_def DEF_KEYIX_NONE_def opmode_defs)
  moreover have "vm_cfg80211_add_key tx_empty kid False mac p v = Some (0, v')"
    unfolding run I(1) using op by (simp add: v'_def kr(4) ucast_u8_u16)
  moreover obtain c where "hal_cmds (key_hal v1) = hal_cmds (key_hal v) @ [Driv_ps_wakeup, Multicast_Key_Set_Cmd c, Driv_ps_sleep]"
    "mc_KeyType c = hw_type tkip" "mc_KeyId c = kid" "mc_Key c = hw_key tkip (kp_key p)"
    using I(7) unfolding P_def by blast
  ultimately show ?thesis using g' I fl'(2,3) w(3) kr(4) by (intro exI [of _ v'] exI [of _ k] exI [of _ c]) simp
qed

section \<open>Instances\<close>

lemma ex_good_key: "good_key False ex_ccmp"
  by (simp add: good_key_def ex_ccmp_def)

lemma pairwise_key_protects_witness:
  "\<exists>v' c. vm_cfg80211_add_key (\<lambda>_. True) 0 True (Some [2, 0, 0, 0, 0, 1]) ex_ccmp (ex_vif WIFINET_M_HOSTAP) = Some (0, v')
     \<and> tx_key 1 False v' = Some (Some (Ucast_key 1))
     \<and> hal_cmds (key_hal v') = hal_cmds (key_hal (ex_vif WIFINET_M_HOSTAP)) @ [Driv_ps_wakeup, UniCast_Key_Set_Cmd c, Driv_ps_sleep]
     \<and> uc_Key c = replicate 16 7 @ replicate 16 0"
proof -
  have p: "pairwise_sta (ex_vif WIFINET_M_HOSTAP) [2, 0, 0, 0, 0, 1] 1 (ex_sta [2, 0, 0, 0, 0, 1] 0xc001)"
    by (simp add: pairwise_sta_def ex_vif_def ex_sta_def wifi_mac_get_sta_def wifi_mac_find_sta_def opmode_defs)
  have h: "hw_key False (kp_key ex_ccmp) = replicate 16 7 @ replicate 16 0" by (simp add: hw_key_def ex_ccmp_def)
  have r: "request_ok (ex_vif WIFINET_M_HOSTAP) 0 True (Some [2, 0, 0, 0, 0, 1]) ex_ccmp" by (rule ex_request_ok) simp_all
  show ?thesis
    using pairwise_key_protects [OF ex_vif_ok r ex_good_key _ p ex_vif_sel(3), of "\<lambda>_. True"] unfolding h by auto
qed

lemma group_key_protects_witness:
  "\<exists>v'. vm_cfg80211_add_key (\<lambda>_. True) 1 False None ex_ccmp (ex_vif WIFINET_M_HOSTAP) = Some (0, v')
     \<and> vm_def_txkey v' = 1 \<and> tx_key 1 True v' = Some (Some (Nw_key 1))"
proof -
  have r: "request_ok (ex_vif WIFINET_M_HOSTAP) 1 False None ex_ccmp" by (rule ex_request_ok) simp_all
  have "(1 :: u8) < 4" by simp
  from group_key_protects [OF ex_vif_ok r ex_good_key this _ ex_vif_sel(3), of "\<lambda>_. True"] show ?thesis by fastforce
qed

end
