(* ===== verification/ChanTab.thy ===== *)
theory ChanTab
  imports Prelude
begin

text \<open>
  The channel tables of \<^verbatim>\<open>src/project_w1/vmac/wifi_mac_chan.c\<close>: the global operating classes and
  their channels, the frequencies a regulatory plan excludes, the plans and the countries that use
  them. Frequencies and channel numbers are \<open>unsigned short\<close> in the code and only copied and
  compared, so they are integers here; the flags of a channel are kept as a 16-bit word.
  An array that the code declares longer than its initialiser is filled with zeros, as C does.
\<close>

section \<open>Types\<close>

datatype wifi_mac_bwc_width = WIDTH20 | WIDTH40 | WIDTH80 | WIDTH160 | WIDTH80P80 | WIDTH_UNSET

text \<open>The order of the enumeration, which the code uses when it looks for the wider of two channels.\<close>

fun bwc_num :: "wifi_mac_bwc_width \<Rightarrow> int" where
  "bwc_num WIDTH20 = 0" | "bwc_num WIDTH40 = 1" | "bwc_num WIDTH80 = 2" | "bwc_num WIDTH160 = 3"
| "bwc_num WIDTH80P80 = 4" | "bwc_num WIDTH_UNSET = 5"

lemma bwc_num_inject [simp]: "bwc_num a = bwc_num b \<longleftrightarrow> a = b"
  by (cases a; cases b) simp_all

instantiation wifi_mac_bwc_width :: linorder
begin

definition less_eq_wifi_mac_bwc_width :: "wifi_mac_bwc_width \<Rightarrow> wifi_mac_bwc_width \<Rightarrow> bool" where
  "less_eq_wifi_mac_bwc_width a b \<longleftrightarrow> bwc_num a \<le> bwc_num b"

definition less_wifi_mac_bwc_width :: "wifi_mac_bwc_width \<Rightarrow> wifi_mac_bwc_width \<Rightarrow> bool" where
  "less_wifi_mac_bwc_width a b \<longleftrightarrow> bwc_num a < bwc_num b"

instance
  by (intro_classes; force simp: less_eq_wifi_mac_bwc_width_def less_wifi_mac_bwc_width_def)

end

definition WIFINET_CHAN_2GHZ :: u16 where "WIFINET_CHAN_2GHZ = 0x4000"
definition WIFINET_CHAN_5GHZ :: u16 where "WIFINET_CHAN_5GHZ = 0x8000"
definition WIFINET_CHAN_DFS :: u16 where "WIFINET_CHAN_DFS = 0x2000"

record wifi_channel =
  chan_cfreq1 :: int
  chan_flags :: u16
  chan_pri_num :: int
  chan_maxpower :: int
  chan_minpower :: int
  chan_bw :: wifi_mac_bwc_width
  global_operating_class :: int

record class_chan_set =
  opt_idx :: int
  bw :: int
  sub_num :: nat
  chan_sub_set :: "wifi_channel list"

record country_na_freq_info =
  na_class :: int
  na_freq :: "int list"

record country_na_freq_set =
  na_freq_class_num :: nat
  na_freq_info :: "country_na_freq_info list"

record country_chan_plan =
  support_class_num :: nat
  support_class :: "int list"
  class_na_freq_plan :: int
  dfs_chan_flag :: u8
  tx_power_plan :: nat

type_synonym country_chan_mapping = "string \<times> int"

definition MAX_NA_FREQ_NUM :: nat where "MAX_NA_FREQ_NUM = 8"

definition DFS_5G_B1 :: u8 where "DFS_5G_B1 = 0x01"
definition DFS_5G_B2 :: u8 where "DFS_5G_B2 = 0x02"
definition DFS_5G_B3 :: u8 where "DFS_5G_B3 = 0x04"
definition DFS_5G_B4 :: u8 where "DFS_5G_B4 = 0x08"
definition PASSIVE_2G_12_14 :: u8 where "PASSIVE_2G_12_14 = 0x10"

abbreviation (input) TX_POWER_DEFAULT :: nat where "TX_POWER_DEFAULT \<equiv> 0"
abbreviation (input) TX_POWER_CE :: nat where "TX_POWER_CE \<equiv> 1"
abbreviation (input) TX_POWER_FCC :: nat where "TX_POWER_FCC \<equiv> 2"
abbreviation (input) TX_POWER_ARIB :: nat where "TX_POWER_ARIB \<equiv> 3"
abbreviation (input) TX_POWER_SRRC :: nat where "TX_POWER_SRRC \<equiv> 4"
abbreviation (input) TX_POWER_ANATEL :: nat where "TX_POWER_ANATEL \<equiv> 5"

definition CHAN_2_FREQ_5G :: "int \<Rightarrow> int" where "CHAN_2_FREQ_5G chan = chan * 5 + 5000"
definition CHAN_2_FREQ_2G :: "int \<Rightarrow> int" where "CHAN_2_FREQ_2G chan = chan * 5 + 2407"
definition CHAN_2_FREQ_14 :: "int \<Rightarrow> int" where "CHAN_2_FREQ_14 chan = chan * 5 + 2414"

lemmas chan_freq_defs = CHAN_2_FREQ_5G_def CHAN_2_FREQ_2G_def CHAN_2_FREQ_14_def
lemmas chan_flag_defs = WIFINET_CHAN_2GHZ_def WIFINET_CHAN_5GHZ_def WIFINET_CHAN_DFS_def
lemmas dfs_flag_defs = DFS_5G_B1_def DFS_5G_B2_def DFS_5G_B3_def DFS_5G_B4_def PASSIVE_2G_12_14_def

text \<open>One row of each table; every channel has the powers 4 and 2.\<close>

definition chan_entry :: "int \<Rightarrow> u16 \<Rightarrow> int \<Rightarrow> wifi_mac_bwc_width \<Rightarrow> int \<Rightarrow> wifi_channel" where
  "chan_entry f fl p w c = \<lparr>chan_cfreq1 = f, chan_flags = fl, chan_pri_num = p, chan_maxpower = 4, chan_minpower = 2,
     chan_bw = w, global_operating_class = c\<rparr>"

definition na_plan :: "nat \<Rightarrow> (int \<times> int list) list \<Rightarrow> country_na_freq_set" where
  "na_plan n infos = \<lparr>na_freq_class_num = n, na_freq_info =
     map (\<lambda>(c, fs). \<lparr>na_class = c, na_freq = fs @ replicate (MAX_NA_FREQ_NUM - length fs) 0\<rparr>)
       (infos @ replicate (10 - length infos) (0, []))\<rparr>"

definition chan_plan :: "nat \<Rightarrow> int list \<Rightarrow> int \<Rightarrow> u8 \<Rightarrow> nat \<Rightarrow> country_chan_plan" where
  "chan_plan n cs na dfs tx = \<lparr>support_class_num = n, support_class = cs, class_na_freq_plan = na,
     dfs_chan_flag = dfs, tx_power_plan = tx\<rparr>"

section \<open>The tables\<close>

definition global_chan_tab :: "class_chan_set list" where
  "global_chan_tab = [
  \<lparr>opt_idx = 81, bw = 20, sub_num = 13, chan_sub_set = [
    chan_entry (CHAN_2_FREQ_2G 1) WIFINET_CHAN_2GHZ 1 WIDTH20 81,
    chan_entry (CHAN_2_FREQ_2G 2) WIFINET_CHAN_2GHZ 2 WIDTH20 81,
    chan_entry (CHAN_2_FREQ_2G 3) WIFINET_CHAN_2GHZ 3 WIDTH20 81,
    chan_entry (CHAN_2_FREQ_2G 4) WIFINET_CHAN_2GHZ 4 WIDTH20 81,
    chan_entry (CHAN_2_FREQ_2G 5) WIFINET_CHAN_2GHZ 5 WIDTH20 81,
    chan_entry (CHAN_2_FREQ_2G 6) WIFINET_CHAN_2GHZ 6 WIDTH20 81,
    chan_entry (CHAN_2_FREQ_2G 7) WIFINET_CHAN_2GHZ 7 WIDTH20 81,
    chan_entry (CHAN_2_FREQ_2G 8) WIFINET_CHAN_2GHZ 8 WIDTH20 81,
    chan_entry (CHAN_2_FREQ_2G 9) WIFINET_CHAN_2GHZ 9 WIDTH20 81,
    chan_entry (CHAN_2_FREQ_2G 10) WIFINET_CHAN_2GHZ 10 WIDTH20 81,
    chan_entry (CHAN_2_FREQ_2G 11) WIFINET_CHAN_2GHZ 11 WIDTH20 81,
    chan_entry (CHAN_2_FREQ_2G 12) WIFINET_CHAN_2GHZ 12 WIDTH20 81,
    chan_entry (CHAN_2_FREQ_2G 13) WIFINET_CHAN_2GHZ 13 WIDTH20 81]\<rparr>,
  \<lparr>opt_idx = 82, bw = 20, sub_num = 1, chan_sub_set = [
    chan_entry (CHAN_2_FREQ_14 14) WIFINET_CHAN_2GHZ 14 WIDTH20 82]\<rparr>,
  \<lparr>opt_idx = 83, bw = 40, sub_num = 9, chan_sub_set = [
    chan_entry (CHAN_2_FREQ_2G (1 + 2)) WIFINET_CHAN_2GHZ 1 WIDTH40 83,
    chan_entry (CHAN_2_FREQ_2G (2 + 2)) WIFINET_CHAN_2GHZ 2 WIDTH40 83,
    chan_entry (CHAN_2_FREQ_2G (3 + 2)) WIFINET_CHAN_2GHZ 3 WIDTH40 83,
    chan_entry (CHAN_2_FREQ_2G (4 + 2)) WIFINET_CHAN_2GHZ 4 WIDTH40 83,
    chan_entry (CHAN_2_FREQ_2G (5 + 2)) WIFINET_CHAN_2GHZ 5 WIDTH40 83,
    chan_entry (CHAN_2_FREQ_2G (6 + 2)) WIFINET_CHAN_2GHZ 6 WIDTH40 83,
    chan_entry (CHAN_2_FREQ_2G (7 + 2)) WIFINET_CHAN_2GHZ 7 WIDTH40 83,
    chan_entry (CHAN_2_FREQ_2G (8 + 2)) WIFINET_CHAN_2GHZ 8 WIDTH40 83,
    chan_entry (CHAN_2_FREQ_2G (9 + 2)) WIFINET_CHAN_2GHZ 9 WIDTH40 83]\<rparr>,
  \<lparr>opt_idx = 84, bw = 40, sub_num = 9, chan_sub_set = [
    chan_entry (CHAN_2_FREQ_2G (5 - 2)) WIFINET_CHAN_2GHZ 5 WIDTH40 84,
    chan_entry (CHAN_2_FREQ_2G (6 - 2)) WIFINET_CHAN_2GHZ 6 WIDTH40 84,
    chan_entry (CHAN_2_FREQ_2G (7 - 2)) WIFINET_CHAN_2GHZ 7 WIDTH40 84,
    chan_entry (CHAN_2_FREQ_2G (8 - 2)) WIFINET_CHAN_2GHZ 8 WIDTH40 84,
    chan_entry (CHAN_2_FREQ_2G (9 - 2)) WIFINET_CHAN_2GHZ 9 WIDTH40 84,
    chan_entry (CHAN_2_FREQ_2G (10 - 2)) WIFINET_CHAN_2GHZ 10 WIDTH40 84,
    chan_entry (CHAN_2_FREQ_2G (11 - 2)) WIFINET_CHAN_2GHZ 11 WIDTH40 84,
    chan_entry (CHAN_2_FREQ_2G (12 - 2)) WIFINET_CHAN_2GHZ 12 WIDTH40 84,
    chan_entry (CHAN_2_FREQ_2G (13 - 2)) WIFINET_CHAN_2GHZ 13 WIDTH40 84]\<rparr>,
  \<lparr>opt_idx = 112, bw = 20, sub_num = 3, chan_sub_set = [
    chan_entry (CHAN_2_FREQ_5G 8) WIFINET_CHAN_5GHZ 8 WIDTH20 112,
    chan_entry (CHAN_2_FREQ_5G 12) WIFINET_CHAN_5GHZ 12 WIDTH20 112,
    chan_entry (CHAN_2_FREQ_5G 16) WIFINET_CHAN_5GHZ 16 WIDTH20 112]\<rparr>,
  \<lparr>opt_idx = 115, bw = 20, sub_num = 4, chan_sub_set = [
    chan_entry (CHAN_2_FREQ_5G 36) WIFINET_CHAN_5GHZ 36 WIDTH20 115,
    chan_entry (CHAN_2_FREQ_5G 40) WIFINET_CHAN_5GHZ 40 WIDTH20 115,
    chan_entry (CHAN_2_FREQ_5G 44) WIFINET_CHAN_5GHZ 44 WIDTH20 115,
    chan_entry (CHAN_2_FREQ_5G 48) WIFINET_CHAN_5GHZ 48 WIDTH20 115]\<rparr>,
  \<lparr>opt_idx = 116, bw = 40, sub_num = 2, chan_sub_set = [
    chan_entry (CHAN_2_FREQ_5G (36 + 2)) WIFINET_CHAN_5GHZ 36 WIDTH40 116,
    chan_entry (CHAN_2_FREQ_5G (44 + 2)) WIFINET_CHAN_5GHZ 44 WIDTH40 116]\<rparr>,
  \<lparr>opt_idx = 117, bw = 40, sub_num = 2, chan_sub_set = [
    chan_entry (CHAN_2_FREQ_5G (40 - 2)) WIFINET_CHAN_5GHZ 40 WIDTH40 117,
    chan_entry (CHAN_2_FREQ_5G (48 - 2)) WIFINET_CHAN_5GHZ 48 WIDTH40 117]\<rparr>,
  \<lparr>opt_idx = 118, bw = 20, sub_num = 4, chan_sub_set = [
    chan_entry (CHAN_2_FREQ_5G 52) WIFINET_CHAN_5GHZ 52 WIDTH20 118,
    chan_entry (CHAN_2_FREQ_5G 56) WIFINET_CHAN_5GHZ 56 WIDTH20 118,
    chan_entry (CHAN_2_FREQ_5G 60) WIFINET_CHAN_5GHZ 60 WIDTH20 118,
    chan_entry (CHAN_2_FREQ_5G 64) WIFINET_CHAN_5GHZ 64 WIDTH20 118]\<rparr>,
  \<lparr>opt_idx = 119, bw = 40, sub_num = 2, chan_sub_set = [
    chan_entry (CHAN_2_FREQ_5G (52 + 2)) WIFINET_CHAN_5GHZ 52 WIDTH40 119,
    chan_entry (CHAN_2_FREQ_5G (60 + 2)) WIFINET_CHAN_5GHZ 60 WIDTH40 119]\<rparr>,
  \<lparr>opt_idx = 120, bw = 40, sub_num = 2, chan_sub_set = [
    chan_entry (CHAN_2_FREQ_5G (56-2)) WIFINET_CHAN_5GHZ 56 WIDTH40 120,
    chan_entry (CHAN_2_FREQ_5G (64-2)) WIFINET_CHAN_5GHZ 64 WIDTH40 120]\<rparr>,
  \<lparr>opt_idx = 121, bw = 20, sub_num = 12, chan_sub_set = [
    chan_entry (CHAN_2_FREQ_5G 100) WIFINET_CHAN_5GHZ 100 WIDTH20 121,
    chan_entry (CHAN_2_FREQ_5G 104) WIFINET_CHAN_5GHZ 104 WIDTH20 121,
    chan_entry (CHAN_2_FREQ_5G 108) WIFINET_CHAN_5GHZ 108 WIDTH20 121,
    chan_entry (CHAN_2_FREQ_5G 112) WIFINET_CHAN_5GHZ 112 WIDTH20 121,
    chan_entry (CHAN_2_FREQ_5G 116) WIFINET_CHAN_5GHZ 116 WIDTH20 121,
    chan_entry (CHAN_2_FREQ_5G 120) WIFINET_CHAN_5GHZ 120 WIDTH20 121,
    chan_entry (CHAN_2_FREQ_5G 124) WIFINET_CHAN_5GHZ 124 WIDTH20 121,
    chan_entry (CHAN_2_FREQ_5G 128) WIFINET_CHAN_5GHZ 128 WIDTH20 121,
    chan_entry (CHAN_2_FREQ_5G 132) WIFINET_CHAN_5GHZ 132 WIDTH20 121,
    chan_entry (CHAN_2_FREQ_5G 136) WIFINET_CHAN_5GHZ 136 WIDTH20 121,
    chan_entry (CHAN_2_FREQ_5G 140) WIFINET_CHAN_5GHZ 140 WIDTH20 121,
    chan_entry (CHAN_2_FREQ_5G 144) WIFINET_CHAN_5GHZ 144 WIDTH20 121]\<rparr>,
  \<lparr>opt_idx = 122, bw = 40, sub_num = 6, chan_sub_set = [
    chan_entry (CHAN_2_FREQ_5G (100+2)) WIFINET_CHAN_5GHZ 100 WIDTH40 122,
    chan_entry (CHAN_2_FREQ_5G (108+2)) WIFINET_CHAN_5GHZ 108 WIDTH40 122,
    chan_entry (CHAN_2_FREQ_5G (116+2)) WIFINET_CHAN_5GHZ 116 WIDTH40 122,
    chan_entry (CHAN_2_FREQ_5G (124+2)) WIFINET_CHAN_5GHZ 124 WIDTH40 122,
    chan_entry (CHAN_2_FREQ_5G (132+2)) WIFINET_CHAN_5GHZ 132 WIDTH40 122,
    chan_entry (CHAN_2_FREQ_5G (140+2)) WIFINET_CHAN_5GHZ 140 WIDTH40 122]\<rparr>,
  \<lparr>opt_idx = 123, bw = 40, sub_num = 6, chan_sub_set = [
    chan_entry (CHAN_2_FREQ_5G (104-2)) WIFINET_CHAN_5GHZ 104 WIDTH40 123,
    chan_entry (CHAN_2_FREQ_5G (112-2)) WIFINET_CHAN_5GHZ 112 WIDTH40 123,
    chan_entry (CHAN_2_FREQ_5G (120-2)) WIFINET_CHAN_5GHZ 120 WIDTH40 123,
    chan_entry (CHAN_2_FREQ_5G (128-2)) WIFINET_CHAN_5GHZ 128 WIDTH40 123,
    chan_entry (CHAN_2_FREQ_5G (136-2)) WIFINET_CHAN_5GHZ 136 WIDTH40 123,
    chan_entry (CHAN_2_FREQ_5G (144-2)) WIFINET_CHAN_5GHZ 144 WIDTH40 123]\<rparr>,
  \<lparr>opt_idx = 124, bw = 20, sub_num = 4, chan_sub_set = [
    chan_entry (CHAN_2_FREQ_5G 149) WIFINET_CHAN_5GHZ 149 WIDTH20 124,
    chan_entry (CHAN_2_FREQ_5G 153) WIFINET_CHAN_5GHZ 153 WIDTH20 124,
    chan_entry (CHAN_2_FREQ_5G 157) WIFINET_CHAN_5GHZ 157 WIDTH20 124,
    chan_entry (CHAN_2_FREQ_5G 161) WIFINET_CHAN_5GHZ 161 WIDTH20 124]\<rparr>,
  \<lparr>opt_idx = 125, bw = 20, sub_num = 5, chan_sub_set = [
    chan_entry (CHAN_2_FREQ_5G 149) WIFINET_CHAN_5GHZ 149 WIDTH20 125,
    chan_entry (CHAN_2_FREQ_5G 153) WIFINET_CHAN_5GHZ 153 WIDTH20 125,
    chan_entry (CHAN_2_FREQ_5G 157) WIFINET_CHAN_5GHZ 157 WIDTH20 125,
    chan_entry (CHAN_2_FREQ_5G 161) WIFINET_CHAN_5GHZ 161 WIDTH20 125,
    chan_entry (CHAN_2_FREQ_5G 165) WIFINET_CHAN_5GHZ 165 WIDTH20 125]\<rparr>,
  \<lparr>opt_idx = 126, bw = 40, sub_num = 2, chan_sub_set = [
    chan_entry (CHAN_2_FREQ_5G (149+2)) WIFINET_CHAN_5GHZ 149 WIDTH40 126,
    chan_entry (CHAN_2_FREQ_5G (157+2)) WIFINET_CHAN_5GHZ 157 WIDTH40 126]\<rparr>,
  \<lparr>opt_idx = 127, bw = 40, sub_num = 2, chan_sub_set = [
    chan_entry (CHAN_2_FREQ_5G (153-2)) WIFINET_CHAN_5GHZ 153 WIDTH40 127,
    chan_entry (CHAN_2_FREQ_5G (161-2)) WIFINET_CHAN_5GHZ 161 WIDTH40 127]\<rparr>,
  \<lparr>opt_idx = 128, bw = 80, sub_num = 24, chan_sub_set = [
    chan_entry (CHAN_2_FREQ_5G 42) WIFINET_CHAN_5GHZ 36 WIDTH80 128,
    chan_entry (CHAN_2_FREQ_5G 42) WIFINET_CHAN_5GHZ 40 WIDTH80 128,
    chan_entry (CHAN_2_FREQ_5G 42) WIFINET_CHAN_5GHZ 44 WIDTH80 128,
    chan_entry (CHAN_2_FREQ_5G 42) WIFINET_CHAN_5GHZ 48 WIDTH80 128,
    chan_entry (CHAN_2_FREQ_5G 58) WIFINET_CHAN_5GHZ 52 WIDTH80 128,
    chan_entry (CHAN_2_FREQ_5G 58) WIFINET_CHAN_5GHZ 56 WIDTH80 128,
    chan_entry (CHAN_2_FREQ_5G 58) WIFINET_CHAN_5GHZ 60 WIDTH80 128,
    chan_entry (CHAN_2_FREQ_5G 58) WIFINET_CHAN_5GHZ 64 WIDTH80 128,
    chan_entry (CHAN_2_FREQ_5G 106) WIFINET_CHAN_5GHZ 100 WIDTH80 128,
    chan_entry (CHAN_2_FREQ_5G 106) WIFINET_CHAN_5GHZ 104 WIDTH80 128,
    chan_entry (CHAN_2_FREQ_5G 106) WIFINET_CHAN_5GHZ 108 WIDTH80 128,
    chan_entry (CHAN_2_FREQ_5G 106) WIFINET_CHAN_5GHZ 112 WIDTH80 128,
    chan_entry (CHAN_2_FREQ_5G 122) WIFINET_CHAN_5GHZ 116 WIDTH80 128,
    chan_entry (CHAN_2_FREQ_5G 122) WIFINET_CHAN_5GHZ 120 WIDTH80 128,
    chan_entry (CHAN_2_FREQ_5G 122) WIFINET_CHAN_5GHZ 124 WIDTH80 128,
    chan_entry (CHAN_2_FREQ_5G 122) WIFINET_CHAN_5GHZ 128 WIDTH80 128,
    chan_entry (CHAN_2_FREQ_5G 138) WIFINET_CHAN_5GHZ 132 WIDTH80 128,
    chan_entry (CHAN_2_FREQ_5G 138) WIFINET_CHAN_5GHZ 136 WIDTH80 128,
    chan_entry (CHAN_2_FREQ_5G 138) WIFINET_CHAN_5GHZ 140 WIDTH80 128,
    chan_entry (CHAN_2_FREQ_5G 138) WIFINET_CHAN_5GHZ 144 WIDTH80 128,
    chan_entry (CHAN_2_FREQ_5G 155) WIFINET_CHAN_5GHZ 149 WIDTH80 128,
    chan_entry (CHAN_2_FREQ_5G 155) WIFINET_CHAN_5GHZ 153 WIDTH80 128,
    chan_entry (CHAN_2_FREQ_5G 155) WIFINET_CHAN_5GHZ 157 WIDTH80 128,
    chan_entry (CHAN_2_FREQ_5G 155) WIFINET_CHAN_5GHZ 161 WIDTH80 128]\<rparr>]"

text \<open>The array has 256 entries; those without an initialiser have class number 0 and no channel.\<close>

definition global_chan_set :: "class_chan_set list" where
  "global_chan_set = global_chan_tab @ replicate (256 - length global_chan_tab) \<lparr>opt_idx = 0, bw = 0, sub_num = 0, chan_sub_set = []\<rparr>"

definition country_na_freq_plan_list :: "country_na_freq_set list" where
  "country_na_freq_plan_list = [
  na_plan 1 [(128, [CHAN_2_FREQ_5G 106, CHAN_2_FREQ_5G 122, CHAN_2_FREQ_5G 138])],
  na_plan 3 [(81, [CHAN_2_FREQ_2G 12, CHAN_2_FREQ_2G 13]),
    (83, [CHAN_2_FREQ_2G (8 + 2), CHAN_2_FREQ_2G (9 + 2)]),
    (84, [CHAN_2_FREQ_2G (12 - 2), CHAN_2_FREQ_2G (13 - 2)])],
  na_plan 4 [(121, [CHAN_2_FREQ_5G 144]),
    (122, [CHAN_2_FREQ_5G (140 + 2)]),
    (123, [CHAN_2_FREQ_5G (144 - 2)]),
    (128, [CHAN_2_FREQ_5G 138, CHAN_2_FREQ_5G 155])],
  na_plan 1 [(128, [CHAN_2_FREQ_5G 106, CHAN_2_FREQ_5G 122, CHAN_2_FREQ_5G 138, CHAN_2_FREQ_5G 155])],
  na_plan 4 [(81, [CHAN_2_FREQ_2G 12, CHAN_2_FREQ_2G 13]),
    (83, [CHAN_2_FREQ_2G (8 + 2), CHAN_2_FREQ_2G (9 + 2)]),
    (84, [CHAN_2_FREQ_2G (12 - 2), CHAN_2_FREQ_2G (13 - 2)]),
    (128, [CHAN_2_FREQ_5G 106, CHAN_2_FREQ_5G 122, CHAN_2_FREQ_5G 138])],
  na_plan 7 [(81, [CHAN_2_FREQ_2G 12, CHAN_2_FREQ_2G 13]),
    (83, [CHAN_2_FREQ_2G (8 + 2), CHAN_2_FREQ_2G (9 + 2)]),
    (84, [CHAN_2_FREQ_2G (12 - 2), CHAN_2_FREQ_2G (13 - 2)]),
    (121, [CHAN_2_FREQ_5G 120, CHAN_2_FREQ_5G 124, CHAN_2_FREQ_5G 128, CHAN_2_FREQ_5G 144]),
    (122, [CHAN_2_FREQ_5G (116 + 2), CHAN_2_FREQ_5G (124 + 2), CHAN_2_FREQ_5G (140 + 2)]),
    (123, [CHAN_2_FREQ_5G (120 - 2), CHAN_2_FREQ_5G (128 - 2), CHAN_2_FREQ_5G (144 - 2)]),
    (128, [CHAN_2_FREQ_5G 122, CHAN_2_FREQ_5G 138])],
  na_plan 4 [(121, [CHAN_2_FREQ_5G 100, CHAN_2_FREQ_5G 104, CHAN_2_FREQ_5G 108, CHAN_2_FREQ_5G 112, CHAN_2_FREQ_5G 116]),
    (122, [CHAN_2_FREQ_5G (100+2), CHAN_2_FREQ_5G (108+2), CHAN_2_FREQ_5G (116+2)]),
    (123, [CHAN_2_FREQ_5G (104-2), CHAN_2_FREQ_5G (112-2), CHAN_2_FREQ_5G (120-2)]),
    (128, [CHAN_2_FREQ_5G 106, CHAN_2_FREQ_5G 122])],
  na_plan 4 [(121, [CHAN_2_FREQ_5G 120, CHAN_2_FREQ_5G 124, CHAN_2_FREQ_5G 128, CHAN_2_FREQ_5G 144]),
    (122, [CHAN_2_FREQ_5G (116 + 2), CHAN_2_FREQ_5G (124 + 2), CHAN_2_FREQ_5G (140 + 2)]),
    (123, [CHAN_2_FREQ_5G (120 - 2), CHAN_2_FREQ_5G (128 - 2), CHAN_2_FREQ_5G (144 - 2)]),
    (128, [CHAN_2_FREQ_5G 122, CHAN_2_FREQ_5G 138])],
  na_plan 4 [(121, [CHAN_2_FREQ_5G 144]),
    (122, [CHAN_2_FREQ_5G (140 + 2)]),
    (123, [CHAN_2_FREQ_5G (144 - 2)]),
    (128, [CHAN_2_FREQ_5G 138])],
  na_plan 4 [(121, [CHAN_2_FREQ_5G 100, CHAN_2_FREQ_5G 104, CHAN_2_FREQ_5G 108, CHAN_2_FREQ_5G 112, CHAN_2_FREQ_5G 116, CHAN_2_FREQ_5G 120, CHAN_2_FREQ_5G 124, CHAN_2_FREQ_5G 128]),
    (122, [CHAN_2_FREQ_5G (100+2), CHAN_2_FREQ_5G (108+2), CHAN_2_FREQ_5G (116+2), CHAN_2_FREQ_5G (124+2)]),
    (123, [CHAN_2_FREQ_5G (104-2), CHAN_2_FREQ_5G (112-2), CHAN_2_FREQ_5G (120-2), CHAN_2_FREQ_5G (128-2)]),
    (128, [CHAN_2_FREQ_5G 106, CHAN_2_FREQ_5G 122])],
  na_plan 1 [(128, [CHAN_2_FREQ_5G 42, CHAN_2_FREQ_5G 58, CHAN_2_FREQ_5G 106, CHAN_2_FREQ_5G 122, CHAN_2_FREQ_5G 138])],
  na_plan 10 [(81, [CHAN_2_FREQ_2G 12, CHAN_2_FREQ_2G 13]),
    (83, [CHAN_2_FREQ_2G (8 + 2), CHAN_2_FREQ_2G (9 + 2)]),
    (84, [CHAN_2_FREQ_2G (12 - 2), CHAN_2_FREQ_2G (13 - 2)]),
    (118, [CHAN_2_FREQ_5G 52]),
    (119, [CHAN_2_FREQ_5G (52+2)]),
    (120, [CHAN_2_FREQ_5G (56-2)]),
    (121, [CHAN_2_FREQ_5G 120, CHAN_2_FREQ_5G 124, CHAN_2_FREQ_5G 128, CHAN_2_FREQ_5G 144]),
    (122, [CHAN_2_FREQ_5G (116+2), CHAN_2_FREQ_5G (124+2), CHAN_2_FREQ_5G (140 + 2)]),
    (123, [CHAN_2_FREQ_5G (120-2), CHAN_2_FREQ_5G (128-2), CHAN_2_FREQ_5G (144-2)]),
    (128, [CHAN_2_FREQ_5G 122, CHAN_2_FREQ_5G 138])],
  na_plan 1 [(121, [CHAN_2_FREQ_5G 144])],
  na_plan 4 [(121, [CHAN_2_FREQ_5G 120, CHAN_2_FREQ_5G 124, CHAN_2_FREQ_5G 128]),
    (122, [CHAN_2_FREQ_5G (116 + 2), CHAN_2_FREQ_5G (124 + 2)]),
    (123, [CHAN_2_FREQ_5G (120 - 2), CHAN_2_FREQ_5G (128 - 2)]),
    (128, [CHAN_2_FREQ_5G 122])],
  na_plan 4 [(121, [CHAN_2_FREQ_5G 100, CHAN_2_FREQ_5G 104, CHAN_2_FREQ_5G 108, CHAN_2_FREQ_5G 112, CHAN_2_FREQ_5G 116, CHAN_2_FREQ_5G 120, CHAN_2_FREQ_5G 124, CHAN_2_FREQ_5G 128]),
    (122, [CHAN_2_FREQ_5G (100+2), CHAN_2_FREQ_5G (108+2), CHAN_2_FREQ_5G (116+2), CHAN_2_FREQ_5G (124+2)]),
    (123, [CHAN_2_FREQ_5G (104-2), CHAN_2_FREQ_5G (112-2), CHAN_2_FREQ_5G (120-2), CHAN_2_FREQ_5G (128-2)]),
    (128, [CHAN_2_FREQ_5G 106, CHAN_2_FREQ_5G 122, CHAN_2_FREQ_5G 155])]]"

definition country_chan_plan_list :: "country_chan_plan list" where
  "country_chan_plan_list = [
  chan_plan 17 [81, 82, 83, 84, 115, 116, 117, 118, 119, 120, 121, 122, 123, 125, 126, 127, 128] 0xff (DFS_5G_B2 OR DFS_5G_B3 OR PASSIVE_2G_12_14) TX_POWER_DEFAULT,
  chan_plan 13 [81, 83, 84, 115, 116, 117, 118, 119, 120, 125, 126, 127, 128, 0, 0, 0, 0] 0x00 DFS_5G_B2 TX_POWER_SRRC,
  chan_plan 16 [81, 83, 84, 115, 116, 117, 118, 119, 120, 121, 122, 123, 125, 126, 127, 128, 0] 0x01 (DFS_5G_B2 OR DFS_5G_B3) TX_POWER_FCC,
  chan_plan 14 [81, 83, 84, 115, 116, 117, 118, 119, 120, 121, 122, 123, 125, 128, 0, 0, 0] 0x02 (DFS_5G_B2 OR DFS_5G_B3) TX_POWER_CE,
  chan_plan 17 [81, 83, 84, 115, 116, 117, 118, 119, 120, 121, 122, 123, 124, 125, 126, 127, 128] 0x01 (DFS_5G_B2 OR DFS_5G_B3) TX_POWER_CE,
  chan_plan 14 [81, 82, 83, 84, 115, 116, 117, 118, 119, 120, 121, 122, 123, 128, 0, 0, 0] 0x02 (DFS_5G_B2 OR DFS_5G_B3) TX_POWER_ARIB,
  chan_plan 10 [81, 83, 84, 115, 116, 117, 118, 119, 120, 128, 0, 0, 0, 0, 0, 0, 0] 0x03 DFS_5G_B2 TX_POWER_CE,
  chan_plan 13 [81, 83, 84, 115, 116, 117, 118, 119, 120, 125, 126, 127, 128, 0, 0, 0, 0] 0x04 DFS_5G_B2 TX_POWER_FCC,
  chan_plan 16 [81, 83, 84, 115, 116, 117, 118, 119, 120, 121, 122, 123, 125, 126, 127, 128, 0] 0x05 (DFS_5G_B2 OR DFS_5G_B3) TX_POWER_DEFAULT,
  chan_plan 16 [81, 83, 84, 115, 116, 117, 118, 119, 120, 121, 122, 123, 125, 126, 127, 128, 0] 0x06 (DFS_5G_B2 OR DFS_5G_B3) TX_POWER_DEFAULT,
  chan_plan 16 [81, 83, 84, 115, 116, 117, 118, 119, 120, 121, 122, 123, 125, 126, 127, 128, 0] 0x07 (DFS_5G_B2 OR DFS_5G_B3) TX_POWER_CE,
  chan_plan 16 [81, 83, 84, 115, 116, 117, 118, 119, 120, 121, 122, 123, 125, 126, 127, 128, 0] 0xff (DFS_5G_B2 OR DFS_5G_B3) TX_POWER_CE,
  chan_plan 16 [81, 83, 84, 115, 116, 117, 118, 119, 120, 121, 122, 123, 125, 126, 127, 128, 0] 0x08 (DFS_5G_B2 OR DFS_5G_B3) TX_POWER_ANATEL,
  chan_plan 16 [81, 83, 84, 115, 116, 117, 118, 119, 120, 121, 122, 123, 125, 126, 127, 128, 0] 0x09 (DFS_5G_B2 OR DFS_5G_B3) TX_POWER_CE,
  chan_plan 13 [81, 83, 84, 115, 116, 117, 118, 119, 120, 125, 126, 127, 128, 0, 0, 0, 0] 0x00 0 TX_POWER_CE,
  chan_plan 16 [81, 83, 84, 115, 116, 117, 118, 119, 120, 121, 122, 123, 125, 126, 127, 128, 0] 0xff (DFS_5G_B1 OR DFS_5G_B2 OR DFS_5G_B3) TX_POWER_CE,
  chan_plan 4 [81, 83, 84, 125, 0, 0, 0, 0, 0, 0, 0, 0, 0, 0, 0, 0, 0] 0xff 0 TX_POWER_FCC,
  chan_plan 13 [81, 83, 84, 118, 119, 120, 121, 122, 123, 125, 126, 127, 128, 0, 0, 0, 0] 0x0b (DFS_5G_B2 OR DFS_5G_B3) TX_POWER_FCC,
  chan_plan 16 [81, 83, 84, 115, 116, 117, 118, 119, 120, 121, 122, 123, 125, 126, 127, 128, 0] 0xff (DFS_5G_B1 OR DFS_5G_B2) TX_POWER_CE,
  chan_plan 6 [81, 83, 84, 115, 118, 121, 0, 0, 0, 0, 0, 0, 0, 0, 0, 0, 0] 0x0c (DFS_5G_B2 OR DFS_5G_B3) TX_POWER_CE,
  chan_plan 15 [81, 83, 84, 115, 116, 117, 118, 119, 120, 121, 122, 123, 125, 126, 127, 128, 0] 0x0d (DFS_5G_B2 OR DFS_5G_B3) TX_POWER_CE,
  chan_plan 6 [81, 83, 84, 115, 118, 125, 0, 0, 0, 0, 0, 0, 0, 0, 0, 0, 0] 0xff DFS_5G_B2 TX_POWER_CE,
  chan_plan 3 [81, 83, 84, 0, 0, 0, 0, 0, 0, 0, 0, 0, 0, 0, 0, 0, 0] 0xff 0 TX_POWER_CE,
  chan_plan 5 [81, 83, 84, 115, 118, 0, 0, 0, 0, 0, 0, 0, 0, 0, 0, 0, 0] 0xff DFS_5G_B2 TX_POWER_CE,
  chan_plan 4 [81, 83, 84, 115, 0, 0, 0, 0, 0, 0, 0, 0, 0, 0, 0, 0, 0] 0xff 0 TX_POWER_CE,
  chan_plan 7 [81, 83, 84, 124, 126, 127, 128, 0, 0, 0, 0, 0, 0, 0, 0, 0, 0] 0x0a 0 TX_POWER_CE,
  chan_plan 7 [81, 83, 84, 115, 118, 121, 125, 0, 0, 0, 0, 0, 0, 0, 0, 0, 0] 0x0c (DFS_5G_B2 OR DFS_5G_B3) TX_POWER_CE,
  chan_plan 16 [81, 83, 84, 115, 116, 117, 118, 119, 120, 121, 122, 123, 125, 126, 127, 128, 0] 0x08 0 TX_POWER_CE,
  chan_plan 16 [81, 83, 84, 115, 116, 117, 118, 119, 120, 121, 122, 123, 125, 126, 127, 128, 0] 0xff (DFS_5G_B2 OR DFS_5G_B3 OR DFS_5G_B4) TX_POWER_CE,
  chan_plan 13 [81, 83, 84, 115, 116, 117, 118, 119, 120, 121, 122, 123, 128, 0, 0, 0, 0] 0x0e (DFS_5G_B2 OR DFS_5G_B3) TX_POWER_CE,
  chan_plan 17 [81, 82, 83, 84, 115, 116, 117, 118, 119, 120, 121, 122, 123, 125, 126, 127, 128] 0xff 0 TX_POWER_DEFAULT]"

definition country_chan_mapping_list :: "country_chan_mapping list" where
  "country_chan_mapping_list = [
  (''WW'', 0x00), (''GO'', 0x1e), (''AD'', 0x04), (''AE'', 0x13), (''AF'', 0x00), (''AG'', 0x02),
  (''AI'', 0x04), (''AL'', 0x04), (''AM'', 0x17), (''AN'', 0x02), (''AO'', 0x00), (''AQ'', 0x04),
  (''AR'', 0x14), (''AS'', 0x02), (''AT'', 0x04), (''AU'', 0x0a), (''AW'', 0x02), (''AZ'', 0x06),
  (''BA'', 0x00), (''BB'', 0x02), (''BD'', 0x04), (''BE'', 0x04), (''BF'', 0x04), (''BG'', 0x06),
  (''BH'', 0x15), (''BI'', 0x04), (''BJ'', 0x04), (''BM'', 0x02), (''BN'', 0x0e), (''BO'', 0x0e),
  (''BR'', 0x0c), (''BS'', 0x02), (''BT'', 0x04), (''BV'', 0x04), (''BW'', 0x00), (''BY'', 0x04),
  (''BZ'', 0x0e), (''CA'', 0x08), (''CC'', 0x04), (''CD'', 0x04), (''CF'', 0x04), (''CG'', 0x04),
  (''CH'', 0x04), (''CI'', 0x00), (''CK'', 0x04), (''CL'', 0x01), (''CM'', 0x04), (''CN'', 0x01),
  (''CO'', 0x07), (''CR'', 0x16), (''CV'', 0x04), (''CX'', 0x0a), (''CY'', 0x04), (''CZ'', 0x04),
  (''DE'', 0x04), (''DJ'', 0x04), (''DK'', 0x04), (''DM'', 0x02), (''DO'', 0x07), (''DZ'', 0x03),
  (''EC'', 0x0c), (''EE'', 0x04), (''EG'', 0x17), (''EH'', 0x00), (''ER'', 0x04), (''ES'', 0x04),
  (''ET'', 0x04), (''EU'', 0x03), (''FI'', 0x04), (''FJ'', 0x02), (''FK'', 0x04), (''FM'', 0x02),
  (''FO'', 0x04), (''FR'', 0x04), (''GA'', 0x04), (''GB'', 0x1c), (''GD'', 0x02), (''GE'', 0x04),
  (''GF'', 0x04), (''GG'', 0x04), (''GH'', 0x04), (''GI'', 0x04), (''GL'', 0x04), (''GM'', 0x04),
  (''GN'', 0x04), (''GP'', 0x04), (''GQ'', 0x04), (''GR'', 0x04), (''GS'', 0x04), (''GT'', 0x07),
  (''GU'', 0x02), (''GW'', 0x04), (''GY'', 0x00), (''HK'', 0x0c), (''HM'', 0x0a), (''HN'', 0x0c),
  (''HR'', 0x04), (''HT'', 0x02), (''HU'', 0x04), (''ID'', 0x0e), (''IE'', 0x04), (''IL'', 0x06),
  (''IM'', 0x04), (''IN'', 0x09), (''IO'', 0x04), (''IQ'', 0x01), (''IR'', 0x06), (''IS'', 0x04),
  (''IT'', 0x04), (''JE'', 0x04), (''JM'', 0x00), (''JO'', 0x18), (''JP'', 0x05), (''KE'', 0x00),
  (''KG'', 0x04), (''KH'', 0x04), (''KI'', 0x04), (''KM'', 0x04), (''KN'', 0x02), (''KP'', 0x19),
  (''KR'', 0x0f), (''KW'', 0x16), (''KY'', 0x02), (''KZ'', 0x1d), (''LA'', 0x04), (''LB'', 0x10),
  (''LC'', 0x02), (''LI'', 0x04), (''LK'', 0x1a), (''LR'', 0x04), (''LS'', 0x04), (''LT'', 0x04),
  (''LU'', 0x04), (''LV'', 0x04), (''LY'', 0x04), (''MA'', 0x16), (''MC'', 0x06), (''MD'', 0x04),
  (''ME'', 0x04), (''MF'', 0x02), (''MG'', 0x04), (''MH'', 0x02), (''MK'', 0x13), (''ML'', 0x04),
  (''MM'', 0x04), (''MN'', 0x04), (''MO'', 0x01), (''MP'', 0x02), (''MQ'', 0x04), (''MR'', 0x04),
  (''MS'', 0x04), (''MT'', 0x04), (''MU'', 0x04), (''MV'', 0x00), (''MW'', 0x04), (''MX'', 0x07),
  (''MY'', 0x01), (''MZ'', 0x04), (''NA'', 0x04), (''NC'', 0x04), (''NE'', 0x04), (''NF'', 0x0a),
  (''NG'', 0x0c), (''NI'', 0x02), (''NL'', 0x04), (''NO'', 0x04), (''NP'', 0x01), (''NR'', 0x04),
  (''NU'', 0x0b), (''NZ'', 0x0b), (''OM'', 0x15), (''PA'', 0x07), (''PE'', 0x10), (''PF'', 0x04),
  (''PG'', 0x00), (''PH'', 0x0c), (''PK'', 0x19), (''PL'', 0x04), (''PM'', 0x04), (''PR'', 0x07),
  (''PT'', 0x04), (''PW'', 0x02), (''PY'', 0x02), (''QA'', 0x0b), (''RE'', 0x04), (''RO'', 0x04),
  (''RS'', 0x04), (''RU'', 0x0d), (''RW'', 0x04), (''SA'', 0x01), (''SB'', 0x04), (''SC'', 0x02),
  (''SE'', 0x04), (''SG'', 0x0c), (''SH'', 0x04), (''SI'', 0x04), (''SJ'', 0x04), (''SK'', 0x04),
  (''SL'', 0x04), (''SM'', 0x04), (''SN'', 0x04), (''SO'', 0x04), (''SR'', 0x00), (''ST'', 0x02),
  (''SV'', 0x16), (''SX'', 0x02), (''SY'', 0x16), (''SZ'', 0x04), (''TC'', 0x04), (''TD'', 0x04),
  (''TF'', 0x04), (''TG'', 0x04), (''TH'', 0x12), (''TJ'', 0x04), (''TK'', 0x0a), (''TM'', 0x04),
  (''TN'', 0x17), (''TO'', 0x04), (''TR'', 0x04), (''TT'', 0x0c), (''TV'', 0x00), (''TW'', 0x11),
  (''TZ'', 0x04), (''UA'', 0x1b), (''UG'', 0x04), (''US'', 0x02), (''UY'', 0x0a), (''UZ'', 0x06),
  (''VA'', 0x04), (''VC'', 0x02), (''VE'', 0x0e), (''VG'', 0x02), (''VI'', 0x02), (''VN'', 0x0c),
  (''VU'', 0x04), (''WF'', 0x04), (''WS'', 0x02), (''YE'', 0x16), (''YT'', 0x04), (''ZA'', 0x0c),
  (''ZM'', 0x04), (''ZW'', 0x16)]"

definition southamerica_country :: "country_chan_mapping list" where
  "southamerica_country = [
  (''AR'', 0x14), (''BO'', 0x0e), (''BR'', 0x0c), (''CL'', 0x01), (''CO'', 0x07), (''EC'', 0x0c),
  (''FK'', 0x04), (''GF'', 0x04), (''GY'', 0x00), (''PY'', 0x02), (''PE'', 0x10), (''SR'', 0x00),
  (''UY'', 0x0a), (''VE'', 0x0e)]"

end
