(* ===== verification/ChanSort.thy ===== *)
theory ChanSort
  imports ChanTab "HOL-Library.Multiset" "HOL-Library.Monad_Syntax"
begin

text \<open>
  The in-place quicksort of the channel list, \<^verbatim>\<open>wifi_mac_get_pos\<close> and \<^verbatim>\<open>wifi_mac_chan_order\<close> of
  \<^verbatim>\<open>src/project_w1/vmac/wifi_mac_chan.c\<close>: every access stays in the array, the recursion ends, and the
  result is a permutation ordered by primary channel number. Indices below \<open>a\<close> never occur, so the
  scan indices are natural numbers; the recursion bounds are C \<open>int\<close>s, since \<open>pos - 1\<close> may be -1.
\<close>

section \<open>Partition\<close>

fun scan_down :: "wifi_channel list \<Rightarrow> wifi_channel \<Rightarrow> nat \<Rightarrow> nat \<Rightarrow> nat option" where
  "scan_down xs x i j =
     (if i < j then (case nth_opt xs j of None \<Rightarrow> None
        | Some e \<Rightarrow> if chan_pri_num x \<le> chan_pri_num e then scan_down xs x i (j - 1) else Some j)
      else Some j)"

declare scan_down.simps [simp del]

function scan_up :: "wifi_channel list \<Rightarrow> wifi_channel \<Rightarrow> nat \<Rightarrow> nat \<Rightarrow> nat option" where
  "scan_up xs x i j =
     (if i < j then (case nth_opt xs i of None \<Rightarrow> None
        | Some e \<Rightarrow> if chan_pri_num e < chan_pri_num x then scan_up xs x (i + 1) j else Some i)
      else Some i)"
  by pat_completeness auto
termination by (relation "measure (\<lambda>(xs, x, i, j). j - i)") auto

declare scan_up.simps [simp del]

text \<open>\<open>memcpy(&in[i], &x, sizeof(x))\<close>.\<close>

definition put_chan :: "wifi_channel list \<Rightarrow> nat \<Rightarrow> wifi_channel \<Rightarrow> wifi_channel list option" where
  "put_chan xs i x = (if i < length xs then Some (xs[i := x]) else None)"

text \<open>The body of the outer loop: fill the hole at \<open>i\<close> from the right, then the hole at \<open>j\<close> from the left.\<close>

definition part_step :: "wifi_channel \<Rightarrow> wifi_channel list \<Rightarrow> nat \<Rightarrow> nat \<Rightarrow> (wifi_channel list \<times> nat \<times> nat) option" where
  "part_step x xs i j = do {
     j \<leftarrow> scan_down xs x i j;
     (xs, i) \<leftarrow> (if i < j then do { e \<leftarrow> nth_opt xs j; xs \<leftarrow> put_chan xs i e; Some (xs, i + 1) } else Some (xs, i));
     i \<leftarrow> scan_up xs x i j;
     (xs, j) \<leftarrow> (if i < j then do { e \<leftarrow> nth_opt xs i; xs \<leftarrow> put_chan xs j e; Some (xs, j - 1) } else Some (xs, j));
     Some (xs, i, j) }"

lemma scan_down_spec: "scan_down xs x i j = Some k \<Longrightarrow> i \<le> j \<Longrightarrow> i \<le> k \<and> k \<le> j
    \<and> (\<forall>m. k < m \<and> m \<le> j \<longrightarrow> chan_pri_num x \<le> chan_pri_num (xs ! m))
    \<and> (i < k \<longrightarrow> k < length xs \<and> chan_pri_num (xs ! k) < chan_pri_num x)"
proof (induction xs x i j rule: scan_down.induct)
  case (1 xs x i j)
  show ?case
  proof (cases "i < j \<and> j < length xs \<and> chan_pri_num x \<le> chan_pri_num (xs ! j)")
    case True
    with 1(2) have r: "scan_down xs x i (j - 1) = Some k" by (subst (asm) scan_down.simps) simp
    have ih: "i \<le> k \<and> k \<le> j - 1 \<and> (\<forall>m. k < m \<and> m \<le> j - 1 \<longrightarrow> chan_pri_num x \<le> chan_pri_num (xs ! m))
        \<and> (i < k \<longrightarrow> k < length xs \<and> chan_pri_num (xs ! k) < chan_pri_num x)"
      by (rule 1(1) [OF _ _ _ r]) (use True in auto)
    from True obtain j' where "j = Suc j'" by (cases j) auto
    with ih True show ?thesis by (auto simp: le_Suc_eq)
  next
    case False
    with 1(2,3) show ?thesis
      by (subst (asm) scan_down.simps) (auto simp: nth_opt_def split: if_splits)
  qed
qed

lemma scan_up_spec: "scan_up xs x i j = Some k \<Longrightarrow> i \<le> j \<Longrightarrow> i \<le> k \<and> k \<le> j
    \<and> (\<forall>m. i \<le> m \<and> m < k \<longrightarrow> chan_pri_num (xs ! m) < chan_pri_num x)
    \<and> (k < j \<longrightarrow> k < length xs \<and> chan_pri_num x \<le> chan_pri_num (xs ! k))"
proof (induction xs x i j rule: scan_up.induct)
  case (1 xs x i j)
  show ?case
  proof (cases "i < j \<and> i < length xs \<and> chan_pri_num (xs ! i) < chan_pri_num x")
    case True
    with 1(2) have r: "scan_up xs x (i + 1) j = Some k" by (subst (asm) scan_up.simps) simp
    have ih: "i + 1 \<le> k \<and> k \<le> j \<and> (\<forall>m. i + 1 \<le> m \<and> m < k \<longrightarrow> chan_pri_num (xs ! m) < chan_pri_num x)
        \<and> (k < j \<longrightarrow> k < length xs \<and> chan_pri_num x \<le> chan_pri_num (xs ! k))"
      by (rule 1(1) [OF _ _ _ r]) (use True in auto)
    have "chan_pri_num (xs ! m) < chan_pri_num x" if "i \<le> m" "m < k" for m
      using that ih True by (cases "m = i") auto
    with ih show ?thesis by simp
  next
    case False
    with 1(2,3) show ?thesis
      by (subst (asm) scan_up.simps) (auto simp: nth_opt_def split: if_splits)
  qed
qed

lemma scan_down_total: "j < length xs \<Longrightarrow> \<exists>k. scan_down xs x i j = Some k"
proof (induction xs x i j rule: scan_down.induct)
  case (1 xs x i j)
  then show ?case by (subst scan_down.simps) (auto simp: less_imp_diff_less)
qed

lemma scan_up_total: "j < length xs \<Longrightarrow> \<exists>k. scan_up xs x i j = Some k"
proof (induction xs x i j rule: scan_up.induct)
  case (1 xs x i j)
  then show ?case by (subst scan_up.simps) auto
qed


text \<open>The state of the partition of \<open>xs0\<close>, \<open>x\<close> being held out of the hole \<open>h\<close>.\<close>

definition part_inv :: "wifi_channel list \<Rightarrow> nat \<Rightarrow> nat \<Rightarrow> wifi_channel \<Rightarrow> wifi_channel list \<Rightarrow> nat \<Rightarrow> nat \<Rightarrow> nat \<Rightarrow> bool" where
  "part_inv xs0 a b x xs i j h \<longleftrightarrow> a \<le> i \<and> i \<le> j \<and> j \<le> b \<and> b < length xs0 \<and> length xs = length xs0
     \<and> mset (xs[h := x]) = mset xs0
     \<and> (\<forall>m. m < a \<or> b < m \<longrightarrow> xs ! m = xs0 ! m)
     \<and> (\<forall>m. a \<le> m \<and> m < i \<longrightarrow> chan_pri_num (xs ! m) < chan_pri_num x)
     \<and> (\<forall>m. j < m \<and> m \<le> b \<longrightarrow> chan_pri_num x \<le> chan_pri_num (xs ! m))"

lemma mset_move_hole:
  assumes "i < length xs" "j < length xs" "i \<noteq> j"
  shows "mset (xs[i := xs ! j, j := x]) = mset (xs[i := x])"
proof -
  have "xs[i := xs ! j, j := x] = (xs[i := x])[i := (xs[i := x]) ! j, j := (xs[i := x]) ! i]"
    using assms by simp
  then show ?thesis using assms by (simp only: mset_swap length_list_update)
qed

lemma part_left:
  assumes I: "part_inv xs0 a b x xs i j i" and k: "scan_down xs x i j = Some k" and lt: "i < k"
  shows "part_inv xs0 a b x (xs[i := xs ! k]) (i + 1) k k"
proof -
  from I have ij: "i \<le> j" and bnd: "a \<le> i" "j \<le> b" "b < length xs0" and len: "length xs = length xs0"
    by (auto simp: part_inv_def)
  from scan_down_spec [OF k ij] lt
  have s: "k \<le> j" "\<forall>m. k < m \<and> m \<le> j \<longrightarrow> chan_pri_num x \<le> chan_pri_num (xs ! m)"
    "chan_pri_num (xs ! k) < chan_pri_num x" by auto
  have m: "mset ((xs[i := xs ! k])[k := x]) = mset xs0"
    using mset_move_hole [of i xs k x] I lt s(1) bnd len by (simp add: part_inv_def)
  have "chan_pri_num x \<le> chan_pri_num (xs ! m)" if "k < m" "m \<le> b" for m
    using that s(2) I by (cases "m \<le> j") (auto simp: part_inv_def)
  with I s lt m show ?thesis
    by (auto simp: part_inv_def nth_list_update less_Suc_eq)
qed

lemma part_right:
  assumes I: "part_inv xs0 a b x xs i j j" and k: "scan_up xs x i j = Some k" and lt: "k < j"
  shows "part_inv xs0 a b x (xs[j := xs ! k]) k (j - 1) k"
proof -
  from I have ij: "i \<le> j" and bnd: "a \<le> i" "j \<le> b" "b < length xs0" and len: "length xs = length xs0"
    by (auto simp: part_inv_def)
  from scan_up_spec [OF k ij] lt
  have s: "i \<le> k" "\<forall>m. i \<le> m \<and> m < k \<longrightarrow> chan_pri_num (xs ! m) < chan_pri_num x"
    "chan_pri_num x \<le> chan_pri_num (xs ! k)" by auto
  have m: "mset ((xs[j := xs ! k])[k := x]) = mset xs0"
    using mset_move_hole [of j xs k x] I lt bnd len by (simp add: part_inv_def)
  have "chan_pri_num (xs ! m) < chan_pri_num x" if "a \<le> m" "m < k" for m
    using that s(2) I by (cases "m < i") (auto simp: part_inv_def)
  moreover have "m = j \<or> j < m" if "j - 1 < m" for m using that lt by auto
  ultimately show ?thesis using I s lt m
    by (auto simp: part_inv_def nth_list_update)
qed

text \<open>When the scans meet, the range between the two fronts has been classified.\<close>

lemma part_meet_left:
  assumes I: "part_inv xs0 a b x xs i j h" and h: "\<forall>m. k < m \<and> m \<le> j \<longrightarrow> chan_pri_num x \<le> chan_pri_num (xs ! m)"
    and "i \<le> k" "k \<le> j"
  shows "part_inv xs0 a b x xs i k h"
proof -
  have "chan_pri_num x \<le> chan_pri_num (xs ! m)" if "k < m" "m \<le> b" for m
    using that h I by (cases "m \<le> j") (auto simp: part_inv_def)
  with assms show ?thesis by (auto simp: part_inv_def)
qed

lemma part_meet_right:
  assumes I: "part_inv xs0 a b x xs i j h" and h: "\<forall>m. i \<le> m \<and> m < k \<longrightarrow> chan_pri_num (xs ! m) < chan_pri_num x"
    and "i \<le> k" "k \<le> j"
  shows "part_inv xs0 a b x xs k j h"
proof -
  have "chan_pri_num (xs ! m) < chan_pri_num x" if "a \<le> m" "m < k" for m
    using that h I by (cases "m < i") (auto simp: part_inv_def)
  with assms show ?thesis by (auto simp: part_inv_def)
qed

lemma part_step_inv:
  assumes I: "part_inv xs0 a b x xs i j i" and lt: "i < j"
  shows "\<exists>ys i' j'. part_step x xs i j = Some (ys, i', j') \<and> part_inv xs0 a b x ys i' j' i' \<and> j' - i' < j - i"
proof -
  have bnd: "j < length xs" "i \<le> j" using I by (auto simp: part_inv_def)
  obtain k where k: "scan_down xs x i j = Some k" using scan_down_total [OF bnd(1)] by blast
  note sk = scan_down_spec [OF k bnd(2)]
  show ?thesis
  proof (cases "i < k")
    case False
    with sk have [simp]: "k = i" by auto
    have "part_inv xs0 a b x xs i i i" by (rule part_meet_left [OF I]) (use sk lt in auto)
    moreover have "scan_up xs x i i = Some i" by (subst scan_up.simps) simp
    ultimately show ?thesis using k lt by (simp add: part_step_def)
  next
    case True
    let ?ys = "xs[i := xs ! k]"
    have I1: "part_inv xs0 a b x ?ys (i + 1) k k" by (rule part_left [OF I k True])
    have kl: "k < length ?ys" "i + 1 \<le> k" using sk True by auto
    obtain i' where i': "scan_up ?ys x (i + 1) k = Some i'" using scan_up_total [OF kl(1)] by blast
    note si = scan_up_spec [OF i' kl(2)]
    have e: "nth_opt xs k = Some (xs ! k)" "put_chan xs i (xs ! k) = Some ?ys"
      using kl True by (auto simp: put_chan_def)
    show ?thesis
    proof (cases "i' < k")
      case False
      with si have [simp]: "i' = k" by auto
      have "part_inv xs0 a b x ?ys k k k" by (rule part_meet_right [OF I1]) (use si kl in auto)
      then show ?thesis using k True e i' lt by (simp add: part_step_def)
    next
      case i'k: True
      have I2: "part_inv xs0 a b x (?ys[k := ?ys ! i']) i' (k - 1) i'" by (rule part_right [OF I1 i' i'k])
      have e2: "nth_opt ?ys i' = Some (?ys ! i')" "put_chan ?ys k (?ys ! i') = Some (?ys[k := ?ys ! i'])"
        using kl i'k by (auto simp: put_chan_def)
      have "part_step x xs i j = Some (?ys[k := ?ys ! i'], i', k - 1)"
        unfolding part_step_def using k True e i' i'k e2 by simp
      moreover have "k - 1 - i' < j - i" using si sk i'k True by linarith
      ultimately show ?thesis using I2 by blast
    qed
  qed
qed


lemma part_step_decr:
  assumes s: "part_step x xs i j = Some (ys, i', j')" and lt: "i < j"
  shows "j' - i' < j - i \<and> i \<le> i' \<and> i' \<le> j' \<and> j' \<le> j"
proof -
  obtain k where k: "scan_down xs x i j = Some k" using s by (auto simp: part_step_def bind_eq_Some_conv)
  note sk = scan_down_spec [OF k less_imp_le [OF lt]]
  show ?thesis
  proof (cases "i < k")
    case True
    then have le: "i + 1 \<le> k" by simp
    from s k True obtain zs l where l: "scan_up zs x (i + 1) k = Some l" and r: "i' = l" "j' = (if l < k then k - 1 else k)"
      by (auto simp: part_step_def bind_eq_Some_conv split: if_splits)
    from scan_up_spec [OF l le] r sk le show ?thesis by (auto split: if_splits)
  next
    case False
    with s k obtain l where l: "scan_up xs x i k = Some l" and r: "i' = l" "j' = (if l < k then k - 1 else k)"
      by (auto simp: part_step_def bind_eq_Some_conv split: if_splits)
    have "i \<le> k" using sk by simp
    from scan_up_spec [OF l this] r sk False lt show ?thesis by (auto split: if_splits)
  qed
qed

function part_loop :: "wifi_channel \<Rightarrow> wifi_channel list \<Rightarrow> nat \<Rightarrow> nat \<Rightarrow> (wifi_channel list \<times> nat) option" where
  "part_loop x xs i j =
     (if i < j then (case part_step x xs i j of None \<Rightarrow> None | Some (ys, i', j') \<Rightarrow> part_loop x ys i' j')
      else Some (xs, i))"
  by pat_completeness auto
termination by (relation "measure (\<lambda>(x, xs, i, j). j - i)") (auto dest: part_step_decr)

declare part_loop.simps [simp del]

definition wifi_mac_get_pos :: "wifi_channel list \<Rightarrow> nat \<Rightarrow> nat \<Rightarrow> (wifi_channel list \<times> nat) option" where
  "wifi_mac_get_pos xs a b =
     (if b < a then Some (xs, 0)
      else do {
        x \<leftarrow> nth_opt xs a;
        (ys, i) \<leftarrow> part_loop x xs a b;
        zs \<leftarrow> put_chan ys i x;
        Some (zs, i) })"

lemma part_loop_inv:
  "part_inv xs0 a b x xs i j i \<Longrightarrow> \<exists>ys p. part_loop x xs i j = Some (ys, p) \<and> part_inv xs0 a b x ys p p p"
proof (induction x xs i j rule: part_loop.induct)
  case (1 x xs i j)
  show ?case
  proof (cases "i < j")
    case True
    from part_step_inv [OF 1(2) True] obtain ys i' j' where
      s: "part_step x xs i j = Some (ys, i', j')" and I: "part_inv xs0 a b x ys i' j' i'" by blast
    from 1(1) [OF True s refl refl I] s True show ?thesis by (subst part_loop.simps) simp
  next
    case False
    with 1(2) show ?thesis by (subst part_loop.simps) (auto simp: part_inv_def)
  qed
qed

text \<open>The pivot ends at a position of the range with the smaller numbers before it; nothing else moves.\<close>

lemma get_pos_spec:
  assumes "a \<le> b" "b < length xs"
  shows "\<exists>ys p. wifi_mac_get_pos xs a b = Some (ys, p) \<and> a \<le> p \<and> p \<le> b \<and> length ys = length xs
    \<and> mset ys = mset xs \<and> (\<forall>m. m < a \<or> b < m \<longrightarrow> ys ! m = xs ! m)
    \<and> (\<forall>m. a \<le> m \<and> m < p \<longrightarrow> chan_pri_num (ys ! m) < chan_pri_num (ys ! p))
    \<and> (\<forall>m. p < m \<and> m \<le> b \<longrightarrow> chan_pri_num (ys ! p) \<le> chan_pri_num (ys ! m))"
proof -
  have "part_inv xs a b (xs ! a) xs a b a" using assms by (auto simp: part_inv_def)
  from part_loop_inv [OF this] obtain ys p where
    l: "part_loop (xs ! a) xs a b = Some (ys, p)" and I: "part_inv xs a b (xs ! a) ys p p p" by blast
  have "wifi_mac_get_pos xs a b = Some (ys[p := xs ! a], p)"
    using l I assms by (auto simp: wifi_mac_get_pos_def put_chan_def part_inv_def)
  then show ?thesis using I by (auto simp: part_inv_def)
qed

lemma get_pos_range: "wifi_mac_get_pos xs a b = Some (ys, p) \<Longrightarrow> a \<le> b \<Longrightarrow> a \<le> p \<and> p \<le> b"
proof -
  assume g: "wifi_mac_get_pos xs a b = Some (ys, p)" and ab: "a \<le> b"
  have "part_loop x xs i j = Some (zs, p) \<Longrightarrow> i \<le> j \<Longrightarrow> i \<le> p \<and> p \<le> j" for x xs i j zs
  proof (induction x xs i j rule: part_loop.induct)
    case (1 x xs i j)
    show ?case
    proof (cases "i < j")
      case False
      with 1(2,3) show ?thesis by (subst (asm) part_loop.simps) simp
    next
      case True
      from 1(2) True obtain ys i' j' where s: "part_step x xs i j = Some (ys, i', j')"
        and r: "part_loop x ys i' j' = Some (zs, p)" by (subst (asm) part_loop.simps) (auto split: option.splits)
      have "i \<le> i' \<and> i' \<le> j' \<and> j' \<le> j" using part_step_decr [OF s True] by simp
      with 1(1) [OF True s refl refl r] show ?thesis by simp
    qed
  qed
  with g ab show ?thesis by (auto simp: wifi_mac_get_pos_def bind_eq_Some_conv put_chan_def split: if_splits)
qed

section \<open>Quicksort\<close>

function wifi_mac_chan_order :: "wifi_channel list \<Rightarrow> int \<Rightarrow> int \<Rightarrow> wifi_channel list option" where
  "wifi_mac_chan_order xs a b =
     (if a < b then
        (if a < 0 then None
         else case wifi_mac_get_pos xs (nat a) (nat b) of None \<Rightarrow> None
         | Some (ys, pos) \<Rightarrow>
           (case wifi_mac_chan_order ys a (int pos - 1) of None \<Rightarrow> None
            | Some zs \<Rightarrow> wifi_mac_chan_order zs (int pos + 1) b))
      else Some xs)"
  by pat_completeness auto
termination
  by (relation "measure (\<lambda>(xs, a, b). nat (b - a))") (auto dest!: get_pos_range)

declare wifi_mac_chan_order.simps [simp del]

text \<open>\<open>ys\<close> is \<open>xs\<close> with the positions \<open>lo \<le> m < hi\<close> permuted.\<close>

definition range_perm :: "wifi_channel list \<Rightarrow> wifi_channel list \<Rightarrow> nat \<Rightarrow> nat \<Rightarrow> bool" where
  "range_perm xs ys lo hi \<longleftrightarrow> length ys = length xs \<and> mset ys = mset xs \<and> (\<forall>m. m < lo \<or> hi \<le> m \<longrightarrow> ys ! m = xs ! m)"

lemma range_perm_refl [simp]: "range_perm xs xs lo hi"
  by (simp add: range_perm_def)

lemma range_perm_trans: "range_perm xs ys lo hi \<Longrightarrow> range_perm ys zs lo' hi' \<Longrightarrow> lo \<le> lo' \<Longrightarrow> hi' \<le> hi \<Longrightarrow> range_perm xs zs lo hi"
  by (auto simp: range_perm_def)

lemma range_perm_in:
  assumes p: "range_perm xs ys lo hi" and m: "lo \<le> m" "m < hi" and hi: "hi \<le> length xs"
  shows "\<exists>n. lo \<le> n \<and> n < hi \<and> ys ! m = xs ! n"
proof -
  have split: "zs = take lo zs @ drop lo (take hi zs) @ drop hi zs" for zs :: "wifi_channel list"
    using m by (metis append_assoc append_take_drop_id less_imp_le order_trans take_take min.absorb1 min_def)
  have "take lo ys = take lo xs" "drop hi ys = drop hi xs"
    using p m hi by (auto simp: range_perm_def list_eq_iff_nth_eq)
  moreover have "mset (take lo ys) + (mset (drop lo (take hi ys)) + mset (drop hi ys))
      = mset (take lo xs) + (mset (drop lo (take hi xs)) + mset (drop hi xs))"
    using p split [of xs] split [of ys] unfolding range_perm_def by (metis mset_append)
  ultimately have eq: "mset (drop lo (take hi ys)) = mset (drop lo (take hi xs))" by simp
  have "ys ! m \<in> set (drop lo (take hi ys))"
    using p m hi by (auto simp: range_perm_def in_set_conv_nth intro!: exI [of _ "m - lo"])
  then have "ys ! m \<in> set (drop lo (take hi xs))" using eq by (metis set_mset_mset)
  then obtain k where "k < hi - lo" "ys ! m = xs ! (lo + k)" using hi m by (auto simp: in_set_conv_nth)
  then show ?thesis using m by (intro exI [of _ "lo + k"]) auto
qed

definition range_sorted :: "wifi_channel list \<Rightarrow> nat \<Rightarrow> nat \<Rightarrow> bool" where
  "range_sorted xs lo hi \<longleftrightarrow> (\<forall>m n. lo \<le> m \<and> m \<le> n \<and> n < hi \<longrightarrow> chan_pri_num (xs ! m) \<le> chan_pri_num (xs ! n))"

lemma range_sorted_glue:
  assumes l: "range_sorted zs lo p" and r: "range_sorted zs (p + 1) hi"
    and a: "\<forall>m. lo \<le> m \<and> m < p \<longrightarrow> chan_pri_num (zs ! m) \<le> chan_pri_num (zs ! p)"
    and b: "\<forall>m. p < m \<and> m < hi \<longrightarrow> chan_pri_num (zs ! p) \<le> chan_pri_num (zs ! m)"
  shows "range_sorted zs lo hi"
  unfolding range_sorted_def
proof (intro allI impI)
  fix m n assume mn: "lo \<le> m \<and> m \<le> n \<and> n < hi"
  consider "n < p" | "p < m" | "m \<le> p" "p \<le> n" by linarith
  then show "chan_pri_num (zs ! m) \<le> chan_pri_num (zs ! n)"
  proof cases
    case 3
    have "chan_pri_num (zs ! m) \<le> chan_pri_num (zs ! p)" using a mn 3 by (cases "m = p") auto
    also have "\<dots> \<le> chan_pri_num (zs ! n)" using b mn 3 by (cases "n = p") auto
    finally show ?thesis .
  qed (use l r mn in \<open>auto simp: range_sorted_def\<close>)
qed

lemma range_sorted_cong:
  "range_sorted xs lo hi \<Longrightarrow> \<forall>m. lo \<le> m \<and> m < hi \<longrightarrow> ys ! m = xs ! m \<Longrightarrow> range_sorted ys lo hi"
  by (simp add: range_sorted_def)

lemma chan_order_spec:
  "0 \<le> a \<Longrightarrow> b < int (length xs) \<Longrightarrow>
   \<exists>ys. wifi_mac_chan_order xs a b = Some ys \<and> range_perm xs ys (nat a) (nat (b + 1)) \<and> range_sorted ys (nat a) (nat (b + 1))"
proof (induction xs a b rule: wifi_mac_chan_order.induct)
  case (1 xs a b)
  show ?case
  proof (cases "a < b")
    case False
    have "m = n" if "nat a \<le> m" "m \<le> n" "n < nat (b + 1)" for m n
      using that False 1(3) by linarith
    then have "range_sorted xs (nat a) (nat (b + 1))" unfolding range_sorted_def by blast
    with False show ?thesis by (subst wifi_mac_chan_order.simps) simp
  next
    case True
    define lo hi where lh: "lo = nat a" "hi = nat (b + 1)"
    have hi: "nat b + 1 = hi" "hi \<le> length xs" and na: "\<not> a < 0" using True 1(3,4) by (auto simp: lh)
    from get_pos_spec [of lo "nat b" xs] obtain ys p where
      g: "wifi_mac_get_pos xs lo (nat b) = Some (ys, p)" and pr: "lo \<le> p" "p < hi" and P: "range_perm xs ys lo hi"
      and lt: "\<forall>m. lo \<le> m \<and> m < p \<longrightarrow> chan_pri_num (ys ! m) \<le> chan_pri_num (ys ! p)"
      and gt: "\<forall>m. p < m \<and> m < hi \<longrightarrow> chan_pri_num (ys ! p) \<le> chan_pri_num (ys ! m)"
      using True 1(3,4) hi by (auto simp: range_perm_def lh less_imp_le)
    note g' = g [unfolded lh(1)]
    have len: "length ys = length xs" using P by (simp add: range_perm_def)
    have "int p - 1 < int (length ys)" using pr hi len by simp
    from 1(1) [OF True na g' refl 1(3) this] obtain zs where
      z: "wifi_mac_chan_order ys a (int p - 1) = Some zs" and zp: "range_perm ys zs lo p" and zs: "range_sorted zs lo p"
      by (auto simp: lh)
    have lz: "length zs = length ys" using zp by (simp add: range_perm_def)
    have "0 \<le> int p + 1" "b < int (length zs)" using 1(4) len lz by auto
    from 1(2) [OF True na g' refl z this] obtain us where
      u: "wifi_mac_chan_order zs (int p + 1) b = Some us" and up: "range_perm zs us (p + 1) hi" and us: "range_sorted us (p + 1) hi"
      by (auto simp: lh nat_add_distrib)
    have eqz: "zs ! m = ys ! m" if "p \<le> m" for m using zp that by (simp add: range_perm_def)
    have equ: "us ! m = zs ! m" if "m \<le> p" for m using up that by (simp add: range_perm_def)
    have "range_sorted us lo hi"
    proof (rule range_sorted_glue)
      show "range_sorted us lo p" using zs equ by (auto intro: range_sorted_cong)
      show "range_sorted us (p + 1) hi" by (rule us)
      show "\<forall>m. lo \<le> m \<and> m < p \<longrightarrow> chan_pri_num (us ! m) \<le> chan_pri_num (us ! p)"
      proof (intro allI impI)
        fix m assume m: "lo \<le> m \<and> m < p"
        with range_perm_in [OF zp] len pr hi obtain n where "lo \<le> n" "n < p" "zs ! m = ys ! n" by auto
        with lt m show "chan_pri_num (us ! m) \<le> chan_pri_num (us ! p)" by (simp add: equ eqz)
      qed
      show "\<forall>m. p < m \<and> m < hi \<longrightarrow> chan_pri_num (us ! p) \<le> chan_pri_num (us ! m)"
      proof (intro allI impI)
        fix m assume m: "p < m \<and> m < hi"
        with range_perm_in [OF up, of m] len lz hi obtain n where "p + 1 \<le> n" "n < hi" "us ! m = zs ! n" by auto
        with gt m show "chan_pri_num (us ! p) \<le> chan_pri_num (us ! m)" by (simp add: equ eqz)
      qed
    qed
    moreover have "range_perm xs us lo hi"
      using range_perm_trans [OF P zp] range_perm_trans [OF _ up] pr by simp
    moreover have "wifi_mac_chan_order xs a b = Some us"
      using True na g' z u by (subst wifi_mac_chan_order.simps) simp
    ultimately show ?thesis by (simp add: lh)
  qed
qed

text \<open>C25: wifi_mac_chan_order, called on the whole channel list as wifi_mac_select_chan_from_global does,
  returns for every list, the empty one included, without an access outside it, and leaves a
  permutation ordered by primary channel number.\<close>

theorem chan_order_sorts:
  "\<exists>ys. wifi_mac_chan_order xs 0 (int (length xs) - 1) = Some ys \<and> mset ys = mset xs \<and> sorted (map chan_pri_num ys)"
proof -
  obtain ys where y: "wifi_mac_chan_order xs 0 (int (length xs) - 1) = Some ys" "range_perm xs ys 0 (length xs)"
      "range_sorted ys 0 (length xs)"
    using chan_order_spec [of 0 "int (length xs) - 1" xs] by auto
  then have "sorted (map chan_pri_num ys)"
    by (auto simp: range_sorted_def range_perm_def sorted_iff_nth_mono)
  with y show ?thesis by (auto simp: range_perm_def)
qed

end
