(* ===== verification/Chan.thy ===== *)
theory Chan
  imports ChanSort
begin

text \<open>
  The channel list of \<^verbatim>\<open>src/project_w1/vmac/wifi_mac_chan.c\<close>: how a country code selects the channels
  the driver may use, the marks for radar channels, the lookups on the list, and the conversions
  between channel numbers, frequencies and operating classes.
  The parameter \<open>sg\<close> says whether a plain \<open>char\<close> is signed on the target: two fields of the tables
  are plain \<open>char\<close>s that hold numbers above 127.
\<close>

section \<open>State\<close>

text \<open>
  The channel part of \<^verbatim>\<open>struct wifi_mac\<close>. \<open>wm_channels\<close> holds the first \<open>wm_nchans\<close> entries of the
  array of 513; the rest is zero and never read. A pointer to an entry is its index.
\<close>

record chan_mac =
  wm_channels :: "wifi_channel list"
  wm_chan_avail :: "u8 list"
  wm_curchan :: "nat option"
  wm_country :: "u8 list"
  chan_index :: "u8 list"

abbreviation wm_nchans :: "chan_mac \<Rightarrow> nat" where "wm_nchans w \<equiv> length (wm_channels w)"

definition WIFINET_CHAN_MAX :: nat where "WIFINET_CHAN_MAX = 256"
definition WIFINET_MAX_SCAN_CHAN :: nat where "WIFINET_MAX_SCAN_CHAN = 64"

section \<open>Countries\<close>

fun find_country_from :: "country_chan_mapping list \<Rightarrow> string \<Rightarrow> int \<Rightarrow> int option" where
  "find_country_from [] s i = None"
| "find_country_from ((c, p) # cs) s i = (if c ! 0 = s ! 0 \<and> c ! 1 = s ! 1 then Some i else find_country_from cs s (i + 1))"

definition find_country_code :: "string \<Rightarrow> int" where
  "find_country_code s = (if length s \<noteq> 2 then 0xff
     else (case find_country_from country_chan_mapping_list s 0 of Some i \<Rightarrow> i | None \<Rightarrow> 0xff))"

text \<open>The index of the entry plus one, as an \<open>unsigned char\<close>; the first two bytes are read unchecked.\<close>

definition if_southamerica_country :: "string \<Rightarrow> u8 option" where
  "if_southamerica_country s = (if length s < 2 then None
     else Some (case find_country_from southamerica_country s 0 of Some i \<Rightarrow> of_int i + 1 | None \<Rightarrow> 0))"

definition country_plan :: "int \<Rightarrow> country_chan_plan option" where
  "country_plan cc = do { m \<leftarrow> nth_int country_chan_mapping_list cc; nth_int country_chan_plan_list (snd m) }"

definition wifimac_get_tx_pwr_plan :: "int \<Rightarrow> nat option" where
  "wifimac_get_tx_pwr_plan cc = map_option tx_power_plan (country_plan cc)"

text \<open>\<open>drv_set_country\<close> falls back to entry 0, the world-wide plan.\<close>

definition country_or_ww :: "string \<Rightarrow> int" where
  "country_or_ww s = (let i = find_country_code s in if i = 0xff then 0 else i)"

section \<open>Excluded frequencies\<close>

text \<open>The entry of the plan for the class; the loop keeps the last one.\<close>

fun na_class_loop :: "bool \<Rightarrow> int \<Rightarrow> country_na_freq_info list \<Rightarrow> nat list \<Rightarrow> country_na_freq_info option \<Rightarrow> country_na_freq_info option option" where
  "na_class_loop sg gc infos [] acc = Some acc"
| "na_class_loop sg gc infos (i # is) acc = (case nth_opt infos i of None \<Rightarrow> None
     | Some f \<Rightarrow> na_class_loop sg gc infos is (if c_char sg (na_class f) = gc then Some f else acc))"

fun na_freq_loop :: "int list \<Rightarrow> int \<Rightarrow> bool" where
  "na_freq_loop [] freq = False"
| "na_freq_loop (f # fs) freq = (if f = freq then True else if f = 0 then False else na_freq_loop fs freq)"

definition wifi_mac_check_if_na_freq :: "bool \<Rightarrow> int \<Rightarrow> int \<Rightarrow> int \<Rightarrow> bool option" where
  "wifi_mac_check_if_na_freq sg cc gc freq = do {
     p \<leftarrow> country_plan cc;
     let ix = c_char sg (class_na_freq_plan p);
     if ix = 0xff then Some False else do {
       s \<leftarrow> nth_int country_na_freq_plan_list ix;
       info \<leftarrow> na_class_loop sg gc (na_freq_info s) [0..<na_freq_class_num s] None;
       Some (case info of None \<Rightarrow> False | Some f \<Rightarrow> na_freq_loop (take MAX_NA_FREQ_NUM (na_freq f)) freq) } }"

section \<open>Selecting the channels of a country\<close>

text \<open>The list under construction with the three tables that keep duplicates out.\<close>

record chan_sel =
  sel_chans :: "wifi_channel list"
  hash_20M :: "int \<Rightarrow> int"
  hash_40M :: "int \<Rightarrow> int \<times> int"
  hash_80M :: "int \<Rightarrow> int"

definition sel_init :: chan_sel where
  "sel_init = \<lparr>sel_chans = [], hash_20M = (\<lambda>_. 0), hash_40M = (\<lambda>_. (-1, -1)), hash_80M = (\<lambda>i. if i = 0 then -1 else 0)\<rparr>"

definition sel_add :: "wifi_channel \<Rightarrow> chan_sel \<Rightarrow> chan_sel option" where
  "sel_add c st = (if length (sel_chans st) < 2 * WIFINET_CHAN_MAX + 1 then Some (st\<lparr>sel_chans := sel_chans st @ [c]\<rparr>) else None)"

definition sel_20M :: "wifi_channel \<Rightarrow> chan_sel \<Rightarrow> chan_sel option" where
  "sel_20M c st = (let n = chan_pri_num c in
     if hash_20M st n = 0 then map_option (\<lambda>st. st\<lparr>hash_20M := (hash_20M st)(n := hash_20M st n + 1)\<rparr>) (sel_add c st)
     else Some st)"

text \<open>A primary channel may be listed twice at 40 MHz, with the secondary channel above and below it.\<close>

definition sel_40M :: "wifi_channel \<Rightarrow> chan_sel \<Rightarrow> chan_sel option" where
  "sel_40M c st = (let n = chan_pri_num c; h = hash_40M st n in
     if fst h = -1 then
       if snd h = -1 then
         map_option (\<lambda>st. st\<lparr>hash_40M := (hash_40M st)(n := (fst h, int (length (sel_chans st)) - 1))\<rparr>) (sel_add c st)
       else do {
         d \<leftarrow> nth_int (sel_chans st) (snd h);
         if chan_cfreq1 d \<noteq> chan_cfreq1 c
         then map_option (\<lambda>st. st\<lparr>hash_40M := (hash_40M st)(n := (fst h + 1, snd h))\<rparr>) (sel_add c st)
         else Some st }
     else Some st)"

definition sel_80M :: "wifi_channel \<Rightarrow> chan_sel \<Rightarrow> chan_sel option" where
  "sel_80M c st = (let n = chan_pri_num c in
     if hash_80M st n = 0 then map_option (\<lambda>st. st\<lparr>hash_80M := (hash_80M st)(n := hash_80M st n + 1)\<rparr>) (sel_add c st)
     else Some st)"

text \<open>The body of the three loops: channel \<open>k\<close> of class \<open>g\<close>. The tables have 200 entries.\<close>

definition sel_chan :: "bool \<Rightarrow> int \<Rightarrow> class_chan_set \<Rightarrow> nat \<Rightarrow> chan_sel \<Rightarrow> chan_sel option" where
  "sel_chan sg cc g k st = do {
     c \<leftarrow> nth_opt (chan_sub_set g) k;
     na \<leftarrow> wifi_mac_check_if_na_freq sg cc (opt_idx g) (chan_cfreq1 c);
     if na then Some st
     else if chan_bw c \<notin> {WIDTH20, WIDTH40, WIDTH80} then Some st
     else if chan_pri_num c < 0 \<or> 200 \<le> chan_pri_num c then None
     else if chan_bw c = WIDTH20 then sel_20M c st
     else if chan_bw c = WIDTH40 then sel_40M c st
     else sel_80M c st }"

definition sel_class :: "bool \<Rightarrow> int \<Rightarrow> int \<Rightarrow> class_chan_set \<Rightarrow> chan_sel \<Rightarrow> chan_sel option" where
  "sel_class sg cc s g st = (if s = opt_idx g then foldo (sel_chan sg cc g) [0..<sub_num g] st else Some st)"

definition sel_sub :: "bool \<Rightarrow> int \<Rightarrow> int list \<Rightarrow> nat \<Rightarrow> chan_sel \<Rightarrow> chan_sel option" where
  "sel_sub sg cc subs i st = (case nth_opt subs i of None \<Rightarrow> None | Some s \<Rightarrow> foldo (sel_class sg cc s) global_chan_set st)"

definition wifi_mac_select_chan_from_global :: "bool \<Rightarrow> int \<Rightarrow> int list \<Rightarrow> nat \<Rightarrow> chan_mac \<Rightarrow> chan_mac option" where
  "wifi_mac_select_chan_from_global sg cc subs num w = do {
     st \<leftarrow> foldo (sel_sub sg cc subs) [0..<num] sel_init;
     cs \<leftarrow> wifi_mac_chan_order (sel_chans st) 0 (int (length (sel_chans st)) - 1);
     Some (w\<lparr>wm_channels := cs\<rparr>) }"

section \<open>Radar marks\<close>

definition dfs_marked :: "u8 \<Rightarrow> int \<Rightarrow> bool" where
  "dfs_marked fl n \<longleftrightarrow>
     (36 \<le> n \<and> n \<le> 48 \<and> fl AND DFS_5G_B1 \<noteq> 0) \<or> (52 \<le> n \<and> n \<le> 64 \<and> fl AND DFS_5G_B2 \<noteq> 0)
     \<or> (100 \<le> n \<and> n \<le> 144 \<and> fl AND DFS_5G_B3 \<noteq> 0) \<or> (149 \<le> n \<and> n \<le> 177 \<and> fl AND DFS_5G_B4 \<noteq> 0)
     \<or> (12 \<le> n \<and> n \<le> 14 \<and> fl AND PASSIVE_2G_12_14 \<noteq> 0)"

abbreviation set_dfs :: "wifi_channel \<Rightarrow> wifi_channel" where "set_dfs c \<equiv> c\<lparr>chan_flags := chan_flags c OR WIFINET_CHAN_DFS\<rparr>"
abbreviation clear_dfs :: "wifi_channel \<Rightarrow> wifi_channel" where "clear_dfs c \<equiv> c\<lparr>chan_flags := chan_flags c AND NOT WIFINET_CHAN_DFS\<rparr>"

definition wifi_mac_mark_dfs_channel_ex :: "int \<Rightarrow> int \<Rightarrow> chan_mac \<Rightarrow> chan_mac option" where
  "wifi_mac_mark_dfs_channel_ex cc chan_num w = do {
     p \<leftarrow> country_plan cc;
     Some (w\<lparr>wm_channels := map (\<lambda>c.
       if (if chan_num = 0 then dfs_marked (dfs_chan_flag p) (chan_pri_num c) else chan_pri_num c = chan_num)
       then set_dfs c else c) (wm_channels w)\<rparr>) }"

definition wifi_mac_unmark_dfs_channel_ex :: "int \<Rightarrow> chan_mac \<Rightarrow> chan_mac" where
  "wifi_mac_unmark_dfs_channel_ex chan_num w = w\<lparr>wm_channels := map (\<lambda>c.
     if (chan_num = 0 \<and> chan_flags c AND WIFINET_CHAN_DFS \<noteq> 0) \<or> (chan_num \<noteq> 0 \<and> chan_pri_num c = chan_num)
     then clear_dfs c else c) (wm_channels w)\<rparr>"

definition wifi_mac_if_dfs_channel :: "chan_mac \<Rightarrow> int \<Rightarrow> bool" where
  "wifi_mac_if_dfs_channel w chan_num \<longleftrightarrow>
     list_ex (\<lambda>c. chan_pri_num c = chan_num \<and> chan_flags c AND WIFINET_CHAN_DFS \<noteq> 0) (wm_channels w)"

section \<open>Setting a country\<close>

definition wifi_mac_update_chan_list_by_country :: "bool \<Rightarrow> int \<Rightarrow> int list \<Rightarrow> nat \<Rightarrow> chan_mac \<Rightarrow> chan_mac option" where
  "wifi_mac_update_chan_list_by_country sg cc subs num w = do {
     w \<leftarrow> wifi_mac_select_chan_from_global sg cc subs num (w\<lparr>wm_channels := []\<rparr>);
     wifi_mac_mark_dfs_channel_ex cc 0 w }"

definition wifi_mac_chan_setup :: "bool \<Rightarrow> int \<Rightarrow> chan_mac \<Rightarrow> chan_mac option" where
  "wifi_mac_chan_setup sg cc w = do {
     p \<leftarrow> country_plan cc;
     wifi_mac_update_chan_list_by_country sg cc (support_class p) (support_class_num p) w }"

text \<open>\<open>setbit\<close> and \<open>isset\<close> on an array of bytes.\<close>

definition setbit :: "nat \<Rightarrow> u8 list \<Rightarrow> u8 list option" where
  "setbit i a = (if i div 8 < length a then Some (a[i div 8 := a ! (i div 8) OR push_bit (i mod 8) 1]) else None)"

definition isset :: "u8 list \<Rightarrow> nat \<Rightarrow> bool option" where
  "isset a i = (if i div 8 < length a then Some (a ! (i div 8) AND push_bit (i mod 8) 1 \<noteq> 0) else None)"

definition avail_add :: "wifi_channel \<Rightarrow> u8 list \<Rightarrow> u8 list option" where
  "avail_add c a = (if chan_pri_num c < 0 then None else setbit (nat (chan_pri_num c)) a)"

text \<open>The two \<open>KASSERT\<close>s end in \<open>BUG()\<close>.\<close>

definition wifi_mac_chan_attach :: "chan_mac \<Rightarrow> chan_mac option" where
  "wifi_mac_chan_attach w =
     (if 0 < wm_nchans w \<and> wm_nchans w < WIFINET_CHAN_MAX
      then do {
        a \<leftarrow> foldo (\<lambda>c a. if chan_pri_num c < int WIFINET_CHAN_MAX then avail_add c a else None)
               (wm_channels w) (replicate 32 0);
        Some (w\<lparr>wm_chan_avail := a, wm_curchan := None\<rparr>) }
      else None)"

text \<open>\<open>iso_name\<close> is what the driver's \<open>get_curr_cntry\<close> reports.\<close>

definition wifi_mac_update_country_chan_list :: "u8 list \<Rightarrow> chan_mac \<Rightarrow> chan_mac option" where
  "wifi_mac_update_country_chan_list iso_name w = do {
     a \<leftarrow> foldo avail_add (wm_channels w) (replicate 32 0);
     Some (w\<lparr>wm_chan_avail := a, wm_country := iso_name\<rparr>) }"

definition wifi_mac_chan_num_avail :: "chan_mac \<Rightarrow> u8 \<Rightarrow> bool option" where
  "wifi_mac_chan_num_avail w n = isset (wm_chan_avail w) (unat n)"

section \<open>What the tables guarantee\<close>

definition plan_ok :: "country_chan_plan \<Rightarrow> bool" where
  "plan_ok p \<longleftrightarrow> support_class_num p \<le> length (support_class p)
     \<and> 81 \<in> set (take (support_class_num p) (support_class p))
     \<and> (class_na_freq_plan p = 0xff \<or> 0 \<le> class_na_freq_plan p \<and> class_na_freq_plan p < int (length country_na_freq_plan_list))
     \<and> sum_list (map (\<lambda>s. sum_list (map (\<lambda>g. if s = opt_idx g then sub_num g else 0) global_chan_tab))
          (take (support_class_num p) (support_class p))) < 256"

definition na_set_ok :: "country_na_freq_set \<Rightarrow> bool" where
  "na_set_ok s \<longleftrightarrow> na_freq_class_num s \<le> length (na_freq_info s)
     \<and> list_all (\<lambda>f. na_class f = 81 \<longrightarrow> \<not> na_freq_loop (take MAX_NA_FREQ_NUM (na_freq f)) 2412) (na_freq_info s)"

definition class_ok :: "class_chan_set \<Rightarrow> bool" where
  "class_ok g \<longleftrightarrow> sub_num g = length (chan_sub_set g)
     \<and> list_all (\<lambda>c. 0 < chan_pri_num c \<and> chan_pri_num c < 200 \<and> chan_bw c \<in> {WIDTH20, WIDTH40, WIDTH80}) (chan_sub_set g)"

lemma plans_ok: "list_all plan_ok country_chan_plan_list"
  by code_simp

lemma na_sets_ok: "list_all na_set_ok country_na_freq_plan_list"
  by code_simp

lemma classes_ok: "list_all class_ok global_chan_tab"
  by code_simp

lemma mapping_ok: "list_all (\<lambda>m. 0 \<le> snd m \<and> snd m < int (length country_chan_plan_list)) country_chan_mapping_list"
  by code_simp

lemma global_ok: "g \<in> set global_chan_set \<Longrightarrow> class_ok g"
  using classes_ok by (auto simp: global_chan_set_def list_all_iff class_ok_def)

definition country_ok :: "int \<Rightarrow> bool" where
  "country_ok cc \<longleftrightarrow> 0 \<le> cc \<and> cc < int (length country_chan_mapping_list)"

lemma country_plan_total: "country_ok cc \<Longrightarrow> \<exists>p. country_plan cc = Some p \<and> plan_ok p"
proof -
  assume "country_ok cc"
  then obtain m where m: "nth_int country_chan_mapping_list cc = Some m" "m \<in> set country_chan_mapping_list"
    by (auto simp: country_ok_def nth_int_def nat_less_iff)
  with mapping_ok have "0 \<le> snd m" "nat (snd m) < length country_chan_plan_list" by (auto simp: list_all_iff nat_less_iff)
  then obtain p where "nth_int country_chan_plan_list (snd m) = Some p" "p \<in> set country_chan_plan_list"
    by (auto simp: nth_int_def)
  with m plans_ok show ?thesis by (auto simp: country_plan_def list_all_iff)
qed

lemma na_class_loop_total:
  "\<forall>i \<in> set is. i < length infos \<Longrightarrow> acc = None \<or> (\<exists>f \<in> set infos. acc = Some f \<and> c_char sg (na_class f) = gc) \<Longrightarrow>
   \<exists>r. na_class_loop sg gc infos is acc = Some r \<and> (r = None \<or> (\<exists>f \<in> set infos. r = Some f \<and> c_char sg (na_class f) = gc))"
  by (induction "is" arbitrary: acc) auto

text \<open>On a target whose \<open>char\<close> is unsigned every country's plan is read within the tables, and
  channel 1 is never excluded.\<close>

lemma check_na_total:
  assumes "country_ok cc"
  shows "\<exists>b. wifi_mac_check_if_na_freq False cc gc f = Some b \<and> (gc = 81 \<and> f = 2412 \<longrightarrow> \<not> b)"
proof -
  obtain p where p: "country_plan cc = Some p" "plan_ok p" using country_plan_total [OF assms] by blast
  show ?thesis
  proof (cases "class_na_freq_plan p = 0xff")
    case True
    with p have "wifi_mac_check_if_na_freq False cc gc f = Some False" by (simp add: wifi_mac_check_if_na_freq_def)
    then show ?thesis by (intro exI [of _ False]) simp
  next
    case False
    with p(2) obtain s where s: "nth_int country_na_freq_plan_list (class_na_freq_plan p) = Some s" "na_set_ok s"
      using na_sets_ok by (auto simp: plan_ok_def nth_int_def nat_less_iff list_all_iff)
    from na_class_loop_total [of "[0..<na_freq_class_num s]" "na_freq_info s" None False gc] s(2)
    obtain r where r: "na_class_loop False gc (na_freq_info s) [0..<na_freq_class_num s] None = Some r"
      and rf: "r = None \<or> (\<exists>f \<in> set (na_freq_info s). r = Some f \<and> na_class f = gc)"
      by (auto simp: na_set_ok_def)
    with p s False show ?thesis
      by (auto simp: wifi_mac_check_if_na_freq_def na_set_ok_def list_all_iff split: option.splits)
  qed
qed

text \<open>The channels the plan of country \<open>cc\<close> permits: of a class it supports, at a frequency it does not exclude.\<close>

definition permitted :: "bool \<Rightarrow> int \<Rightarrow> wifi_channel \<Rightarrow> bool" where
  "permitted sg cc c \<longleftrightarrow> (\<exists>p g. country_plan cc = Some p \<and> g \<in> set global_chan_set
     \<and> opt_idx g \<in> set (take (support_class_num p) (support_class p)) \<and> c \<in> set (take (sub_num g) (chan_sub_set g))
     \<and> wifi_mac_check_if_na_freq sg cc (opt_idx g) (chan_cfreq1 c) = Some False)"

definition count_bw :: "wifi_mac_bwc_width \<Rightarrow> int \<Rightarrow> wifi_channel list \<Rightarrow> nat" where
  "count_bw w n cs = length (filter (\<lambda>c. chan_bw c = w \<and> chan_pri_num c = n) cs)"

lemma count_bw_append [simp]:
  "count_bw w n (cs @ [c]) = count_bw w n cs + (if chan_bw c = w \<and> chan_pri_num c = n then 1 else 0)"
  by (simp add: count_bw_def)

lemma count_bw_Nil [simp]: "count_bw w n [] = 0"
  by (simp add: count_bw_def)

definition sel_ok :: "int \<Rightarrow> chan_sel \<Rightarrow> nat \<Rightarrow> bool" where
  "sel_ok cc st b \<longleftrightarrow> length (sel_chans st) + b < 256
     \<and> (\<forall>c \<in> set (sel_chans st). permitted False cc c)
     \<and> (\<forall>n. snd (hash_40M st n) = -1 \<or> 0 \<le> snd (hash_40M st n) \<and> snd (hash_40M st n) < int (length (sel_chans st)))
     \<and> (\<forall>n. hash_20M st n \<le> 1 \<and> int (count_bw WIDTH20 n (sel_chans st)) = hash_20M st n)
     \<and> (\<forall>n. 0 < n \<longrightarrow> hash_80M st n \<le> 1 \<and> int (count_bw WIDTH80 n (sel_chans st)) = hash_80M st n)"

lemma sel_ok_init: "b < 256 \<Longrightarrow> sel_ok cc sel_init b"
  by (simp add: sel_ok_def sel_init_def)

lemma sel_ok_mono: "sel_ok cc st b \<Longrightarrow> b' \<le> b \<Longrightarrow> sel_ok cc st b'"
  by (auto simp: sel_ok_def)

lemma sel_20M_ok:
  assumes "sel_ok cc st (Suc b)" "permitted False cc c" "chan_bw c = WIDTH20" "0 < chan_pri_num c"
  shows "\<exists>st'. sel_20M c st = Some st' \<and> sel_ok cc st' b"
  using assms by (auto simp: sel_20M_def sel_add_def Let_def sel_ok_def WIFINET_CHAN_MAX_def)

lemma sel_80M_ok:
  assumes "sel_ok cc st (Suc b)" "permitted False cc c" "chan_bw c = WIDTH80" "0 < chan_pri_num c"
  shows "\<exists>st'. sel_80M c st = Some st' \<and> sel_ok cc st' b"
  using assms by (auto simp: sel_80M_def sel_add_def Let_def sel_ok_def WIFINET_CHAN_MAX_def)

lemma sel_40M_ok:
  assumes "sel_ok cc st (Suc b)" "permitted False cc c" "chan_bw c = WIDTH40" "0 < chan_pri_num c"
  shows "\<exists>st'. sel_40M c st = Some st' \<and> sel_ok cc st' b"
proof -
  let ?h = "snd (hash_40M st (chan_pri_num c))"
  have room: "length (sel_chans st) < 2 * WIFINET_CHAN_MAX + 1"
    using assms(1) by (simp add: sel_ok_def WIFINET_CHAN_MAX_def)
  consider "?h = -1" | "0 \<le> ?h" "?h < int (length (sel_chans st))" "?h \<noteq> -1"
    using assms(1) unfolding sel_ok_def by fastforce
  then show ?thesis
  proof cases
    case 1
    with room assms show ?thesis by (auto simp: sel_40M_def sel_add_def Let_def sel_ok_def)
  next
    case 2
    then have "nth_int (sel_chans st) ?h = Some (sel_chans st ! nat ?h)" by (simp add: nth_int_def nat_less_iff)
    with 2 room assms show ?thesis by (auto simp: sel_40M_def sel_add_def Let_def sel_ok_def)
  qed
qed

lemma sel_chan_ok:
  assumes cc: "country_ok cc" and p: "country_plan cc = Some p" and g: "g \<in> set global_chan_set"
    and s: "opt_idx g \<in> set (take (support_class_num p) (support_class p))"
    and k: "k < sub_num g" and ok: "sel_ok cc st (1 + b)"
  shows "\<exists>st'. sel_chan False cc g k st = Some st' \<and> sel_ok cc st' b"
proof -
  let ?c = "chan_sub_set g ! k"
  from global_ok [OF g] k have c: "nth_opt (chan_sub_set g) k = Some ?c" "?c \<in> set (take (sub_num g) (chan_sub_set g))"
    "0 < chan_pri_num ?c" "chan_pri_num ?c < 200" "chan_bw ?c \<in> {WIDTH20, WIDTH40, WIDTH80}"
    by (auto simp: class_ok_def list_all_iff)
  obtain na where na: "wifi_mac_check_if_na_freq False cc (opt_idx g) (chan_cfreq1 ?c) = Some na"
    using check_na_total [OF cc] by blast
  show ?thesis
  proof (cases na)
    case True
    with c na sel_ok_mono [OF ok, of b] show ?thesis by (simp add: sel_chan_def)
  next
    case False
    with na p g s c have perm: "permitted False cc ?c" by (auto simp: permitted_def)
    have ok': "sel_ok cc st (Suc b)" using ok by simp
    from c(5) show ?thesis
      using sel_20M_ok [OF ok' perm _ c(3)] sel_40M_ok [OF ok' perm _ c(3)] sel_80M_ok [OF ok' perm _ c(3)] c na False
      by (auto simp: sel_chan_def)
  qed
qed

definition class_cost :: "int \<Rightarrow> class_chan_set \<Rightarrow> nat" where
  "class_cost s g = (if s = opt_idx g then sub_num g else 0)"

lemma sel_class_ok:
  assumes "country_ok cc" "country_plan cc = Some p" "g \<in> set global_chan_set"
    and s: "s \<in> set (take (support_class_num p) (support_class p))" and ok: "sel_ok cc st (class_cost s g + b)"
  shows "\<exists>st'. sel_class False cc s g st = Some st' \<and> sel_ok cc st' b"
proof (cases "s = opt_idx g")
  case True
  have "\<exists>st'. foldo (sel_chan False cc g) [0..<sub_num g] st = Some st' \<and> sel_ok cc st' b"
  proof (rule foldo_budget [where w = "\<lambda>_. 1"])
    show "sel_ok cc st (sum_list (map (\<lambda>_. 1) [0..<sub_num g]) + b)"
      using ok True by (simp add: class_cost_def sum_list_triv)
    show "\<exists>s'. sel_chan False cc g x s = Some s' \<and> sel_ok cc s' b" if "x \<in> set [0..<sub_num g]" "sel_ok cc s (1 + b)" for x s b
      by (rule sel_chan_ok [OF assms(1-3) _ _ that(2)]) (use that s True in auto)
  qed
  with True show ?thesis by (simp add: sel_class_def)
next
  case False
  with ok show ?thesis by (simp add: sel_class_def class_cost_def)
qed

lemma sel_sub_ok:
  assumes cc: "country_ok cc" and p: "country_plan cc = Some p" "plan_ok p" and i: "i < support_class_num p"
    and ok: "sel_ok cc st (sum_list (map (class_cost (support_class p ! i)) global_chan_set) + b)"
  shows "\<exists>st'. sel_sub False cc (support_class p) i st = Some st' \<and> sel_ok cc st' b"
proof -
  have len: "i < length (support_class p)" using p(2) i by (simp add: plan_ok_def)
  then have mem: "support_class p ! i \<in> set (take (support_class_num p) (support_class p))"
    using i by (auto simp: in_set_conv_nth)
  have "\<exists>st'. foldo (sel_class False cc (support_class p ! i)) global_chan_set st = Some st' \<and> sel_ok cc st' b"
    by (rule foldo_budget [where w = "class_cost (support_class p ! i)" and P = "sel_ok cc", OF ok])
       (rule sel_class_ok [OF cc p(1) _ mem])
  with len show ?thesis by (simp add: sel_sub_def)
qed

text \<open>The budget: a plan's classes have fewer than 256 channels together.\<close>

lemma plan_cost:
  assumes "plan_ok p"
  shows "sum_list (map (\<lambda>i. sum_list (map (class_cost (support_class p ! i)) global_chan_set)) [0..<support_class_num p]) < 256"
proof -
  have z: "sum_list (map (class_cost s) global_chan_set) = sum_list (map (\<lambda>g. if s = opt_idx g then sub_num g else 0) global_chan_tab)" for s
    by (simp add: global_chan_set_def class_cost_def [abs_def] sum_list_replicate)
  have e: "map (\<lambda>i. f (support_class p ! i)) [0..<support_class_num p] = map f (take (support_class_num p) (support_class p))" for f :: "int \<Rightarrow> nat"
    using assms by (intro nth_equalityI) (auto simp: plan_ok_def)
  show ?thesis
    unfolding z e [of "\<lambda>s. sum_list (map (\<lambda>g. if s = opt_idx g then sub_num g else 0) global_chan_tab)"]
    using assms by (simp add: plan_ok_def)
qed

lemma select_total:
  assumes cc: "country_ok cc" and p: "country_plan cc = Some p" "plan_ok p"
  shows "\<exists>st. foldo (sel_sub False cc (support_class p)) [0..<support_class_num p] sel_init = Some st \<and> sel_ok cc st 0"
  by (rule foldo_budget [where w = "\<lambda>i. sum_list (map (class_cost (support_class p ! i)) global_chan_set)"])
     (use plan_cost [OF p(2)] in \<open>auto intro: sel_ok_init sel_sub_ok [OF cc p]\<close>)

text \<open>Completeness: a permitted 20 MHz channel has its number marked, and marks stay.\<close>

lemma hash_stable: "sel_chan sg cc g k st = Some st' \<Longrightarrow> hash_20M st n \<noteq> 0 \<Longrightarrow> hash_20M st' n \<noteq> 0"
  by (auto simp: sel_chan_def sel_20M_def sel_40M_def sel_80M_def sel_add_def Let_def bind_eq_Some_conv split: if_splits)

lemma hash_marked:
  "sel_chan sg cc g k st = Some st' \<Longrightarrow> nth_opt (chan_sub_set g) k = Some c \<Longrightarrow> chan_bw c = WIDTH20
   \<Longrightarrow> wifi_mac_check_if_na_freq sg cc (opt_idx g) (chan_cfreq1 c) = Some False \<Longrightarrow> hash_20M st' (chan_pri_num c) \<noteq> 0"
  by (auto simp: sel_chan_def sel_20M_def sel_add_def Let_def split: if_splits)

lemma select_complete:
  assumes r: "foldo (sel_sub sg cc (support_class p)) [0..<support_class_num p] sel_init = Some st"
    and p: "country_plan cc = Some p" and len: "support_class_num p \<le> length (support_class p)"
    and c: "permitted sg cc c" "chan_bw c = WIDTH20"
  shows "hash_20M st (chan_pri_num c) \<noteq> 0"
proof -
  define Q where "Q = (\<lambda>st :: chan_sel. hash_20M st (chan_pri_num c) \<noteq> 0)"
  have keep_chan: "Q st \<Longrightarrow> sel_chan sg cc h k st = Some st' \<Longrightarrow> Q st'" for h k st st'
    unfolding Q_def by (rule hash_stable)
  from c(1) p obtain g where g: "g \<in> set global_chan_set" and s: "opt_idx g \<in> set (take (support_class_num p) (support_class p))"
    and k: "c \<in> set (take (sub_num g) (chan_sub_set g))" and na: "wifi_mac_check_if_na_freq sg cc (opt_idx g) (chan_cfreq1 c) = Some False"
    by (auto simp: permitted_def)
  from s obtain i where i: "i < support_class_num p" "i < length (support_class p)" "support_class p ! i = opt_idx g"
    by (auto simp: in_set_conv_nth)
  from k obtain j where j: "j < sub_num g" "j < length (chan_sub_set g)" "chan_sub_set g ! j = c" by (auto simp: in_set_conv_nth)
  have keep_cls: "Q st \<Longrightarrow> sel_class sg cc s h st = Some st' \<Longrightarrow> Q st'" for s h st st'
    by (auto simp: sel_class_def split: if_splits intro: foldo_stable [where Q = Q] keep_chan)
  have keep_sub: "Q st \<Longrightarrow> sel_sub sg cc (support_class p) x st = Some st' \<Longrightarrow> Q st'" for x st st'
    by (auto simp: sel_sub_def split: option.splits intro: foldo_stable [where Q = Q] keep_cls)
  have est_cls: "Q st'" if "sel_class sg cc (opt_idx g) g st = Some st'" for st st'
  proof (rule foldo_establish [where Q = Q])
    show "foldo (sel_chan sg cc g) [0..<sub_num g] st = Some st'" using that by (simp add: sel_class_def)
    show "j \<in> set [0..<sub_num g]" using j by simp
  qed (use keep_chan hash_marked [OF _ _ c(2) na] j in \<open>auto simp: Q_def\<close>)
  have est_sub: "Q st'" if "sel_sub sg cc (support_class p) i st = Some st'" for st st'
  proof (rule foldo_establish [where Q = Q, OF _ g])
    show "foldo (sel_class sg cc (opt_idx g)) global_chan_set st = Some st'" using that i by (simp add: sel_sub_def)
  qed (use keep_cls est_cls in auto)
  have "Q st"
    by (rule foldo_establish [where Q = Q, OF r, of i]) (use i keep_sub est_sub in auto)
  then show ?thesis by (simp add: Q_def)
qed

text \<open>The first channel, 2412 MHz, is permitted everywhere.\<close>

definition chan_1 :: wifi_channel where
  "chan_1 = chan_entry (CHAN_2_FREQ_2G 1) WIFINET_CHAN_2GHZ 1 WIDTH20 81"

lemma chan_1_class: "\<exists>g \<in> set global_chan_set. opt_idx g = 81 \<and> chan_1 \<in> set (take (sub_num g) (chan_sub_set g))"
  by (simp add: global_chan_set_def global_chan_tab_def chan_1_def)

lemma chan_1_permitted: "country_ok cc \<Longrightarrow> permitted False cc chan_1"
proof -
  assume cc: "country_ok cc"
  obtain p where p: "country_plan cc = Some p" "plan_ok p" using country_plan_total [OF cc] by blast
  obtain g where g: "g \<in> set global_chan_set" "opt_idx g = 81" "chan_1 \<in> set (take (sub_num g) (chan_sub_set g))"
    using chan_1_class by blast
  have "wifi_mac_check_if_na_freq False cc 81 2412 = Some False" using check_na_total [OF cc] by metis
  then have "wifi_mac_check_if_na_freq False cc (opt_idx g) (chan_cfreq1 chan_1) = Some False"
    by (simp add: g chan_1_def chan_entry_def chan_freq_defs)
  with p g show ?thesis by (auto simp: permitted_def plan_ok_def)
qed

section \<open>The channel list of a country\<close>

definition dfs_mark :: "int \<Rightarrow> wifi_channel \<Rightarrow> wifi_channel" where
  "dfs_mark cc c = (case country_plan cc of None \<Rightarrow> c
     | Some p \<Rightarrow> if dfs_marked (dfs_chan_flag p) (chan_pri_num c) then set_dfs c else c)"

lemma dfs_mark_keeps [simp]: "chan_pri_num (dfs_mark cc c) = chan_pri_num c" "chan_bw (dfs_mark cc c) = chan_bw c"
  "chan_cfreq1 (dfs_mark cc c) = chan_cfreq1 c"
  by (simp_all add: dfs_mark_def split: option.splits)

lemma count_bw_mset: "mset xs = mset ys \<Longrightarrow> count_bw w n xs = count_bw w n ys"
proof -
  have "count_bw w n zs = size (filter_mset (\<lambda>c. chan_bw c = w \<and> chan_pri_num c = n) (mset zs))" for zs
    by (simp add: count_bw_def flip: mset_filter)
  then show "mset xs = mset ys \<Longrightarrow> count_bw w n xs = count_bw w n ys" by simp
qed

lemma count_bw_map_mark: "count_bw w n (map (dfs_mark cc) cs) = count_bw w n cs"
  unfolding count_bw_def by (induction cs) auto

lemma chan_setup_spec:
  assumes cc: "country_ok cc"
  shows "\<exists>cs. wifi_mac_chan_setup False cc w = Some (w\<lparr>wm_channels := map (dfs_mark cc) cs\<rparr>)
     \<and> 0 < length cs \<and> length cs < 256 \<and> sorted (map chan_pri_num cs)
     \<and> (\<forall>c \<in> set cs. permitted False cc c) \<and> (\<forall>n. count_bw WIDTH20 n cs \<le> 1)
     \<and> (\<forall>c. permitted False cc c \<and> chan_bw c = WIDTH20 \<longrightarrow> count_bw WIDTH20 (chan_pri_num c) cs = 1)"
proof -
  obtain p where p: "country_plan cc = Some p" "plan_ok p" using country_plan_total [OF cc] by blast
  obtain st where st: "foldo (sel_sub False cc (support_class p)) [0..<support_class_num p] sel_init = Some st"
    and ok: "sel_ok cc st 0" using select_total [OF cc p] by blast
  obtain cs where cs: "wifi_mac_chan_order (sel_chans st) 0 (int (length (sel_chans st)) - 1) = Some cs"
    and ms: "mset cs = mset (sel_chans st)" and so: "sorted (map chan_pri_num cs)" using chan_order_sorts by blast
  have su: "wifi_mac_chan_setup False cc w = Some (w\<lparr>wm_channels := map (dfs_mark cc) cs\<rparr>)"
    using p(1) st cs by (simp add: wifi_mac_chan_setup_def wifi_mac_update_chan_list_by_country_def
        wifi_mac_select_chan_from_global_def wifi_mac_mark_dfs_channel_ex_def dfs_mark_def)
  have cnt: "count_bw WIDTH20 n cs = count_bw WIDTH20 n (sel_chans st)" for n by (rule count_bw_mset [OF ms])
  have h: "hash_20M st n \<le> 1" "int (count_bw WIDTH20 n cs) = hash_20M st n" for n
    using ok by (simp_all add: sel_ok_def cnt)
  have le1: "count_bw WIDTH20 n cs \<le> 1" for n using h [of n] by linarith
  have compl: "count_bw WIDTH20 (chan_pri_num c) cs = 1" if "permitted False cc c" "chan_bw c = WIDTH20" for c
  proof -
    have "hash_20M st (chan_pri_num c) \<noteq> 0"
      by (rule select_complete [OF st p(1) _ that]) (use p(2) in \<open>simp add: plan_ok_def\<close>)
    with h [of "chan_pri_num c"] le1 [of "chan_pri_num c"] show ?thesis by linarith
  qed
  have "count_bw WIDTH20 (chan_pri_num chan_1) cs = 1"
    by (rule compl [OF chan_1_permitted [OF cc]]) (simp add: chan_1_def chan_entry_def)
  then have "0 < length cs" by (cases cs) (simp_all add: count_bw_def)
  moreover have "length cs < 256" using ok ms by (metis add_0_right sel_ok_def size_mset)
  moreover have "\<forall>c \<in> set cs. permitted False cc c" using ok ms by (metis sel_ok_def set_mset_mset)
  ultimately show ?thesis using su so le1 compl by blast
qed

lemma find_country_from_range: "find_country_from cs s i = Some k \<Longrightarrow> i \<le> k \<and> k < i + int (length cs)"
  by (induction cs s i rule: find_country_from.induct) (auto split: if_splits)

lemma country_or_ww_ok: "country_ok (country_or_ww s)"
proof -
  have "0 < length country_chan_mapping_list" by code_simp
  then show ?thesis
    using find_country_from_range [of country_chan_mapping_list s 0]
    by (auto simp: country_or_ww_def find_country_code_def country_ok_def Let_def split: option.splits)
qed

text \<open>\<open>drv_set_country\<close>: the country code, the power plan and the channels for a country string.\<close>

definition drv_set_country :: "bool \<Rightarrow> string \<Rightarrow> chan_mac \<Rightarrow> (int \<times> nat \<times> chan_mac) option" where
  "drv_set_country sg s w = do {
     let i = country_or_ww s;
     pw \<leftarrow> wifimac_get_tx_pwr_plan i;
     w' \<leftarrow> wifi_mac_chan_setup sg i w;
     Some (i, pw, w') }"

text \<open>C24: Setting a country (drv_set_country, with an unsigned plain char) always succeeds, whatever
  string the user gives: the list has between 1 and 255 channels, is ordered by primary channel number,
  and every channel on it belongs to an operating class the country's plan supports, at a frequency the
  plan does not exclude, with the radar mark the plan asks for.\<close>

theorem set_country_permitted:
  "\<exists>pw w'. drv_set_country False s w = Some (country_or_ww s, pw, w')
     \<and> 0 < wm_nchans w' \<and> wm_nchans w' < WIFINET_CHAN_MAX \<and> sorted (map chan_pri_num (wm_channels w'))
     \<and> (\<forall>c \<in> set (wm_channels w'). \<exists>d. permitted False (country_or_ww s) d \<and> c = dfs_mark (country_or_ww s) d)"
proof -
  let ?cc = "country_or_ww s"
  have cc: "country_ok ?cc" by (rule country_or_ww_ok)
  obtain p where p: "country_plan ?cc = Some p" using country_plan_total [OF cc] by blast
  obtain cs where cs: "wifi_mac_chan_setup False ?cc w = Some (w\<lparr>wm_channels := map (dfs_mark ?cc) cs\<rparr>)"
      "0 < length cs" "length cs < 256" "sorted (map chan_pri_num cs)" "\<forall>c \<in> set cs. permitted False ?cc c"
    using chan_setup_spec [OF cc, of w] by blast
  have "drv_set_country False s w = Some (?cc, tx_power_plan p, w\<lparr>wm_channels := map (dfs_mark ?cc) cs\<rparr>)"
    using cs(1) p by (simp add: drv_set_country_def wifimac_get_tx_pwr_plan_def Let_def)
  with cs show ?thesis
    by (intro exI [of _ "tx_power_plan p"] exI [of _ "w\<lparr>wm_channels := map (dfs_mark ?cc) cs\<rparr>"]) (auto simp: WIFINET_CHAN_MAX_def comp_def)
qed

theorem set_country_permitted_witness:
  "\<exists>w'. drv_set_country False ''WW'' \<lparr>wm_channels = [], wm_chan_avail = [], wm_curchan = None, wm_country = [], chan_index = []\<rparr>
     = Some (country_or_ww ''WW'', 0, w') \<and> 0 < wm_nchans w'"
proof -
  have "wifimac_get_tx_pwr_plan (country_or_ww ''WW'') = Some 0" by code_simp
  with set_country_permitted [of "''WW''" "\<lparr>wm_channels = [], wm_chan_avail = [], wm_curchan = None, wm_country = [], chan_index = []\<rparr>"]
  show ?thesis by (auto simp: drv_set_country_def Let_def bind_eq_Some_conv)
qed

text \<open>Nothing the plan allows at 20 MHz is lost and nothing is listed twice: after the set-up for any
  valid country code every permitted 20 MHz channel number occurs exactly once at 20 MHz, and no number
  occurs more often.\<close>

theorem chan_setup_complete:
  assumes "country_ok cc" and "wifi_mac_chan_setup False cc w = Some w'"
  shows "(\<forall>n. count_bw WIDTH20 n (wm_channels w') \<le> 1)
     \<and> (\<forall>c. permitted False cc c \<and> chan_bw c = WIDTH20 \<longrightarrow> count_bw WIDTH20 (chan_pri_num c) (wm_channels w') = 1)"
  using chan_setup_spec [OF assms(1), of w] assms(2) by (auto simp: count_bw_map_mark)

theorem chan_setup_complete_witness:
  "\<exists>w'. wifi_mac_chan_setup False 12 \<lparr>wm_channels = [], wm_chan_avail = [], wm_curchan = None, wm_country = [], chan_index = []\<rparr> = Some w'
     \<and> count_bw WIDTH20 1 (wm_channels w') = 1"
proof -
  have cc: "country_ok 12" by code_simp
  obtain w' where w': "wifi_mac_chan_setup False 12 \<lparr>wm_channels = [], wm_chan_avail = [], wm_curchan = None, wm_country = [], chan_index = []\<rparr> = Some w'"
    using chan_setup_spec [OF cc] by blast
  have "chan_bw chan_1 = WIDTH20" "chan_pri_num chan_1 = 1" by (simp_all add: chan_1_def chan_entry_def)
  with chan_setup_complete [OF cc w'] chan_1_permitted [OF cc] w' show ?thesis by metis
qed

end
