(* ===== verification/ChanUse.thy ===== *)
theory ChanUse
  imports Chan
begin

text \<open>
  What the rest of the driver does with the channel list of \<^verbatim>\<open>src/project_w1/vmac/wifi_mac_chan.c\<close>:
  availability of a number, the search for the channel an access point announces, conversions between
  numbers and frequencies, operating classes for channel switch announcements, and the map of
  overlapping networks that \<^verbatim>\<open>wifi_mac_scan.c\<close> keeps.
\<close>

section \<open>Numbers and frequencies\<close>

definition F_2GHZ :: u32 where "F_2GHZ = 0x4000"
definition F_5GHZ :: u32 where "F_5GHZ = 0x8000"

definition wifi_mac_Mhz2ieee :: "u32 \<Rightarrow> u32 \<Rightarrow> u32" where
  "wifi_mac_Mhz2ieee freq flags =
     (if flags AND F_2GHZ \<noteq> 0 then
        if freq = 2484 then 14 else if freq < 2484 then (freq - 2407) div 5 else 15 + (freq - 2512) div 20
      else if flags AND F_5GHZ \<noteq> 0 then (freq - 5000) div 5
      else if freq = 2484 then 14 else if freq < 2484 then (freq - 2407) div 5
      else if freq < 5000 then 15 + (freq - 2512) div 20 else (freq - 5000) div 5)"

definition wifi_mac_Ieee2mhz :: "u32 \<Rightarrow> u32 \<Rightarrow> u32" where
  "wifi_mac_Ieee2mhz chan flags =
     (if flags AND F_2GHZ \<noteq> 0 then
        if chan = 14 then 2484 else if chan < 14 then 2407 + chan * 5 else 2512 + (chan - 15) * 20
      else if flags AND F_5GHZ \<noteq> 0 then 5000 + chan * 5
      else if chan = 14 then 2484 else if chan < 14 then 2407 + chan * 5
      else if chan < 27 then 2512 + (chan - 15) * 20 else 5000 + chan * 5)"

text \<open>\<open>wifi_mac_mhz2chan\<close> of \<^verbatim>\<open>wifi_mac_if.c\<close>; its last branch is an \<open>ASSERT(0)\<close>, which only prints.\<close>

definition wifi_mac_mhz2chan :: "u32 \<Rightarrow> u32" where
  "wifi_mac_mhz2chan freq = (if 5000 < freq then (freq - 5000) div 5
     else if 2407 < freq \<and> freq < 2484 then (freq - 2407) div 5
     else if freq = 2484 then 14 else 1)"

section \<open>Lookups\<close>

definition chan_matches :: "int \<Rightarrow> wifi_mac_bwc_width \<Rightarrow> int \<Rightarrow> wifi_channel \<Rightarrow> bool" where
  "chan_matches chan w center c \<longleftrightarrow>
     chan_pri_num c = chan \<and> chan_bw c = w \<and> (of_int (chan_cfreq1 c) :: u32) = wifi_mac_Ieee2mhz (of_int center) 0"

fun find_index_from :: "('a \<Rightarrow> bool) \<Rightarrow> 'a list \<Rightarrow> nat \<Rightarrow> nat option" where
  "find_index_from P [] i = None"
| "find_index_from P (x # xs) i = (if P x then Some i else find_index_from P xs (i + 1))"

text \<open>The entry found, as its index; \<open>None\<close> is the C \<open>NULL\<close>.\<close>

definition wifi_mac_find_chan :: "chan_mac \<Rightarrow> int \<Rightarrow> wifi_mac_bwc_width \<Rightarrow> int \<Rightarrow> nat option" where
  "wifi_mac_find_chan w chan wd center = find_index_from (chan_matches chan wd center) (wm_channels w) 0"

fun find_80M_in :: "wifi_channel list \<Rightarrow> int \<Rightarrow> u32 option" where
  "find_80M_in [] chan = None"
| "find_80M_in (c # cs) chan = (if chan_pri_num c = chan
     then Some (wifi_mac_Mhz2ieee (of_int (chan_cfreq1 c)) (ucast (chan_flags c))) else find_80M_in cs chan)"

fun find_80M_from :: "class_chan_set list \<Rightarrow> int \<Rightarrow> u32" where
  "find_80M_from [] chan = 0"
| "find_80M_from (g # gs) chan =
     (if bw g = 80 then (case find_80M_in (take (sub_num g) (chan_sub_set g)) chan of Some r \<Rightarrow> r | None \<Rightarrow> find_80M_from gs chan)
      else find_80M_from gs chan)"

definition wifi_mac_find_80M_channel_center_chan :: "int \<Rightarrow> u32" where
  "wifi_mac_find_80M_channel_center_chan chan = find_80M_from global_chan_set chan"

text \<open>The report lists \<open>elem_len - 1\<close> channels after its class byte.\<close>

definition wifi_mac_recv_bss_intol_channelCheck :: "chan_mac \<Rightarrow> u8 \<Rightarrow> u8 list \<Rightarrow> bool option" where
  "wifi_mac_recv_bss_intol_channelCheck w elem_len chan_list =
     (if elem_len \<le> 1 \<or> 254 < elem_len then Some False
      else if length chan_list < unat elem_len - 1 then None
      else Some (list_ex (\<lambda>ch. list_ex (\<lambda>c. uint ch = chan_pri_num c) (wm_channels w)) (take (unat elem_len - 1) chan_list)))"

section \<open>The channel an access point announces\<close>

record ie_htinfo =
  hi_ctrlchannel :: u8
  hi_extchoff :: u8
  hi_txchwidth :: u8

record ap_param =
  sp_chan :: u8
  sp_htinfo :: "ie_htinfo option"
  sp_htcap :: "u16 option"
  sp_vht_opt :: "(u8 \<times> u8) option"

definition HTCAP_SUPPORTCBW40 :: u16 where "HTCAP_SUPPORTCBW40 = 0x0002"

text \<open>Width and centre channel from the HT information element alone.\<close>

definition ap_ht_width :: "ap_param \<Rightarrow> wifi_mac_bwc_width \<times> int" where
  "ap_ht_width sp = (case sp_htinfo sp of
     Some hi \<Rightarrow> if hi_txchwidth hi = 1 then
         (if hi_extchoff hi = 1 then (WIDTH40, uint (hi_ctrlchannel hi) + 2)
          else if hi_extchoff hi = 3 then (WIDTH40, uint (hi_ctrlchannel hi) - 2)
          else (WIDTH20, uint (hi_ctrlchannel hi)))
       else (WIDTH20, uint (sp_chan sp))
   | None \<Rightarrow> (WIDTH20, uint (sp_chan sp)))"

text \<open>A 40 MHz claim that the HT capabilities do not support is dropped.\<close>

definition ap_ht_checked :: "ap_param \<Rightarrow> wifi_mac_bwc_width \<times> int" where
  "ap_ht_checked sp = (case (ap_ht_width sp, sp_htcap sp) of
     ((WIDTH40, c), Some cap) \<Rightarrow> if cap AND HTCAP_SUPPORTCBW40 = 0 then (WIDTH20, uint (sp_chan sp)) else (WIDTH40, c)
   | (r, _) \<Rightarrow> r)"

definition ap_width :: "ap_param \<Rightarrow> wifi_mac_bwc_width \<times> int" where
  "ap_width sp = (case sp_vht_opt sp of
     Some (chw, seg1) \<Rightarrow> if 1 \<le> chw then
         ((if chw = 1 then WIDTH80 else if chw = 2 then WIDTH160 else if chw = 3 then WIDTH80P80 else WIDTH80), uint seg1)
       else ap_ht_checked sp
   | None \<Rightarrow> ap_ht_checked sp)"

definition wifi_mac_scan_sta_get_ap_channel :: "chan_mac \<Rightarrow> ap_param \<Rightarrow> nat option" where
  "wifi_mac_scan_sta_get_ap_channel w sp = (let chan = uint (sp_chan sp); (wd, center) = ap_width sp in
     case wifi_mac_find_chan w chan wd center of
       Some i \<Rightarrow> Some i
     | None \<Rightarrow> (case sp_htinfo sp of
         Some hi \<Rightarrow> if hi_txchwidth hi = 1 \<and> wd = WIDTH40 then wifi_mac_find_chan w chan WIDTH20 chan else None
       | None \<Rightarrow> None))"

section \<open>Operating classes\<close>

datatype nl80211_chan_width = NL_20_NOHT | NL_20 | NL_40 | NL_80 | NL_80P80 | NL_160

fun nl_num :: "nl80211_chan_width \<Rightarrow> int" where
  "nl_num NL_20_NOHT = 0" | "nl_num NL_20 = 1" | "nl_num NL_40 = 2" | "nl_num NL_80 = 3"
| "nl_num NL_80P80 = 4" | "nl_num NL_160 = 5"

text \<open>\<open>cd_chan\<close> is the centre frequency of the kernel's 20 MHz channel; \<open>None\<close> is \<open>NULL\<close>.\<close>

record chan_def =
  cd_chan :: "int option"
  cd_width :: nl80211_chan_width
  cd_center_freq1 :: int

definition aml_2ghz_channels :: "int list" where
  "aml_2ghz_channels = [2412, 2417, 2422, 2427, 2432, 2437, 2442, 2447, 2452, 2457, 2462, 2467, 2472, 2484]"

definition aml_5ghz_channels :: "int list" where
  "aml_5ghz_channels = [36, 40, 44, 48, 52, 56, 60, 64, 100, 104, 108, 112, 116, 120, 124, 128,
     132, 136, 140, 144, 149, 153, 157, 161, 165]"

definition wifi_mac_get_chandef :: "wifi_channel option \<Rightarrow> chan_def \<Rightarrow> bool \<times> chan_def" where
  "wifi_mac_get_chandef vc cd = (case vc of
     None \<Rightarrow> (False, cd)
   | Some c \<Rightarrow>
       (let n = chan_pri_num c;
            cd = (if 1 \<le> n \<and> n \<le> 14 then cd\<lparr>cd_chan := Some (aml_2ghz_channels ! nat (n - 1))\<rparr>
                  else if 36 \<le> n \<and> n \<in> set aml_5ghz_channels then cd\<lparr>cd_chan := Some (5000 + 5 * n)\<rparr>
                  else cd)
        in if cd_chan cd = None then (False, cd)
           else (True, cd\<lparr>cd_width := (case chan_bw c of WIDTH20 \<Rightarrow> NL_20 | WIDTH40 \<Rightarrow> NL_40 | WIDTH80 \<Rightarrow> NL_80 | _ \<Rightarrow> cd_width cd),
                          cd_center_freq1 := chan_cfreq1 c\<rparr>)))"

text \<open>The dead local \<open>vht_opclass\<close>, always 0, is left out.\<close>

definition ht_class :: "chan_def \<Rightarrow> int \<Rightarrow> u8 \<Rightarrow> u8 \<Rightarrow> u8 \<Rightarrow> u8 option" where
  "ht_class cd freq cl_above cl_below plain =
     (if cd_width cd = NL_40 then (case cd_chan cd of None \<Rightarrow> None | Some f \<Rightarrow> Some (if f < freq then cl_above else cl_below)) else Some plain)"

definition wifi_mac_get_operation_class :: "chan_def \<Rightarrow> u8 option" where
  "wifi_mac_get_operation_class cd = (let freq = cd_center_freq1 cd in
     if 2412 \<le> freq \<and> freq \<le> 2472 then (if nl_num NL_40 < nl_num (cd_width cd) then Some 0 else ht_class cd freq 83 84 81)
     else if freq = 2484 then (if cd_width cd \<noteq> NL_20_NOHT then Some 0 else Some 82)
     else if 5180 \<le> freq \<and> freq \<le> 5240 then ht_class cd freq 116 117 115
     else if 5260 \<le> freq \<and> freq \<le> 5320 then ht_class cd freq 119 120 118
     else if 5500 \<le> freq \<and> freq \<le> 5720 then ht_class cd freq 122 123 121
     else if 5745 \<le> freq \<and> freq \<le> 5845 then ht_class cd freq 126 127 (if freq \<le> 5805 then 124 else 125)
     else if 56160 + 2160 * 1 \<le> freq \<and> freq \<le> 56160 + 2160 * 6 then (if nl_num NL_40 \<le> nl_num (cd_width cd) then Some 0 else Some 180)
     else Some 0)"

section \<open>Overlapping networks\<close>

text \<open>The map of 64 channel indices; entries 62 and 63 are never set and stay 0.\<close>

definition wifi_mac_chan_overlapping_map_init :: "chan_mac \<Rightarrow> chan_mac" where
  "wifi_mac_chan_overlapping_map_init w = w\<lparr>chan_index :=
     map (\<lambda>i. of_nat (i + 1)) [0..<14] @ map (\<lambda>i. of_nat (2 * (i - 14) + 34)) [14..<30]
     @ map (\<lambda>i. of_nat (2 * (i - 30) + 100)) [30..<53] @ map (\<lambda>i. of_nat (2 * (i - 53) + 149)) [53..<62]
     @ drop 62 (chan_index w)\<rparr>"

text \<open>The number of map entries on each side of the centre. The division is by the spacing of the entries.\<close>

definition overlap_step :: "bool \<Rightarrow> wifi_mac_bwc_width \<Rightarrow> nat" where
  "overlap_step is_2g w = (let step = (if is_2g then 1 else 2) in
     if w = WIDTH20 then 2 div step else if w = WIDTH40 then 4 div step else if w = WIDTH80 then 8 div step else step)"

definition overlap_range :: "bool \<Rightarrow> nat \<Rightarrow> nat \<Rightarrow> nat \<times> nat" where
  "overlap_range is_2g i step =
     (if i < step then (0, i + step)
      else if 63 < i + step then (i - step, 63)
      else if is_2g then (i - step, if 14 < i + step then 13 else i + step)
      else (let low = i - step; up = i + step in
        (if low < 14 then 14 else if low < 30 \<and> 30 \<le> i then 29 else if low < 53 \<and> 53 \<le> i then 53 else low,
         if 30 < up \<and> i \<le> 30 then 30 else if 53 < up \<and> i \<le> 53 then 53 else up)))"

text \<open>\<open>low\<close> and \<open>up\<close> keep their values when the centre is not in the map.\<close>

definition get_ovlapping_chan_index :: "u8 list \<Rightarrow> u8 \<Rightarrow> wifi_mac_bwc_width \<Rightarrow> nat \<times> nat \<Rightarrow> nat \<times> nat" where
  "get_ovlapping_chan_index idx center w lu = (let is_2g = (0 < center \<and> center < 15) in
     case find_index_from (\<lambda>c. c = center) idx 0 of None \<Rightarrow> lu
     | Some i \<Rightarrow> overlap_range is_2g i (overlap_step is_2g w))"

definition center_of :: "wifi_channel \<Rightarrow> u8" where
  "center_of c = ucast (wifi_mac_Mhz2ieee (of_int (chan_cfreq1 c)) 0)"

text \<open>\<open>for (i = low; i <= up; ++i) overlapping++\<close>; the counters are \<open>unsigned short\<close>.\<close>

definition overlap_count :: "nat \<times> nat \<Rightarrow> u16 list \<Rightarrow> u16 list option" where
  "overlap_count lu ov = foldo (\<lambda>i ov. if i < length ov then Some (ov[i := ov ! i + 1]) else None) [fst lu..<Suc (snd lu)] ov"

fun overlap_scan :: "u8 list \<Rightarrow> wifi_channel list \<Rightarrow> nat \<times> nat \<Rightarrow> u16 list \<Rightarrow> u16 list option" where
  "overlap_scan idx [] lu ov = Some ov"
| "overlap_scan idx (c # cs) lu ov =
     (let lu' = get_ovlapping_chan_index idx (center_of c) (chan_bw c) lu in
      case overlap_count lu' ov of None \<Rightarrow> None | Some ov' \<Rightarrow> overlap_scan idx cs lu' ov')"

text \<open>\<open>found\<close> lists the channels of the scan results, in the order of the scan table.\<close>

definition wifi_mac_update_chan_overlapping_map :: "chan_mac \<Rightarrow> wifi_channel list \<Rightarrow> u16 list option" where
  "wifi_mac_update_chan_overlapping_map w found = overlap_scan (chan_index w) found (0, 0) (replicate WIFINET_MAX_SCAN_CHAN 0)"

text \<open>The running maximum is an \<open>unsigned char\<close>, so a count above 255 is cut down when it is stored.\<close>

definition overlap_max :: "u8 \<Rightarrow> u16 \<Rightarrow> u8" where
  "overlap_max m n = (if unat m < unat n then ucast n else m)"

text \<open>Whether a connection on channel \<open>c\<close> needs its receive gain lowered.\<close>

definition is_connect_need_set_gain :: "chan_mac \<Rightarrow> u16 list \<Rightarrow> wifi_channel \<Rightarrow> bool option" where
  "is_connect_need_set_gain w ov c = (let center = center_of c; is_2g = (0 < center \<and> center < 15);
       (low, up) = get_ovlapping_chan_index (chan_index w) center (chan_bw c) (0, 0) in
     if length ov \<le> up then None
     else (let m = foldl overlap_max 0 (map (\<lambda>i. ov ! i) [low..<Suc up]) in
       Some (if is_2g then 5 < m else 10 < m)))"

section \<open>Availability\<close>

definition avail :: "u8 list \<Rightarrow> nat \<Rightarrow> bool" where
  "avail a n \<longleftrightarrow> bit (a ! (n div 8)) (n mod 8)"

lemma isset_avail: "n < 256 \<Longrightarrow> length a = 32 \<Longrightarrow> isset a n = Some (avail a n)"
  by (simp add: isset_def avail_def bit_iff_and_push_bit_not_eq_0 div_less_iff_less_mult)

lemma setbit_avail:
  assumes "k < 256" "length a = 32"
  shows "\<exists>a'. setbit k a = Some a' \<and> length a' = 32 \<and> (\<forall>n < 256. avail a' n \<longleftrightarrow> avail a n \<or> n = k)"
proof -
  have "avail (a[k div 8 := a ! (k div 8) OR push_bit (k mod 8) 1]) n \<longleftrightarrow> avail a n \<or> n = k" if "n < 256" for n
  proof (cases "n div 8 = k div 8")
    case True
    then have "n = k \<longleftrightarrow> n mod 8 = k mod 8" by (metis div_mult_mod_eq)
    with True assms show ?thesis by (auto simp: avail_def bit_simps)
  next
    case False
    then have "n \<noteq> k" by auto
    with False show ?thesis by (simp add: avail_def)
  qed
  with assms show ?thesis by (auto simp: setbit_def)
qed

lemma foldo_avail:
  assumes "\<forall>c \<in> set cs. 0 \<le> chan_pri_num c \<and> chan_pri_num c < 256" "length a = 32"
  shows "\<exists>a'. foldo (\<lambda>c a. if chan_pri_num c < int WIFINET_CHAN_MAX then avail_add c a else None) cs a = Some a' \<and> length a' = 32
    \<and> (\<forall>n < 256. avail a' n \<longleftrightarrow> avail a n \<or> (\<exists>c \<in> set cs. chan_pri_num c = int n))"
  using assms
proof (induction cs arbitrary: a)
  case (Cons c cs)
  then have c: "0 \<le> chan_pri_num c" "chan_pri_num c < 256" by auto
  then have "nat (chan_pri_num c) < 256" by (simp add: nat_less_iff)
  with setbit_avail [of "nat (chan_pri_num c)" a] Cons.prems obtain a1 where
    a1: "setbit (nat (chan_pri_num c)) a = Some a1" "length a1 = 32"
        "\<forall>n < 256. avail a1 n \<longleftrightarrow> avail a n \<or> n = nat (chan_pri_num c)" by auto
  from Cons.IH [of a1] Cons.prems a1(2) obtain a' where
    a': "foldo (\<lambda>c a. if chan_pri_num c < int WIFINET_CHAN_MAX then avail_add c a else None) cs a1 = Some a'" "length a' = 32"
      "\<forall>n < 256. avail a' n \<longleftrightarrow> avail a1 n \<or> (\<exists>c \<in> set cs. chan_pri_num c = int n)" by auto
  have "n = nat (chan_pri_num c) \<longleftrightarrow> chan_pri_num c = int n" for n using c by auto
  with a1 a' c show ?case by (auto simp: avail_add_def WIFINET_CHAN_MAX_def)
qed simp

lemma permitted_range: "permitted sg cc c \<Longrightarrow> 0 < chan_pri_num c \<and> chan_pri_num c < 200"
proof -
  assume "permitted sg cc c"
  then obtain g where g: "g \<in> set global_chan_set" "c \<in> set (take (sub_num g) (chan_sub_set g))" by (auto simp: permitted_def)
  from global_ok [OF g(1)] g(2) show ?thesis by (auto simp: class_ok_def list_all_iff)
qed

text \<open>The channel list of a country passes both assertions of wifi_mac_chan_attach, which then records
  as available exactly the channel numbers on the list: wifi_mac_chan_num_avail answers yes for a number
  if and only if some channel of the list has it.\<close>

theorem attach_availability:
  assumes cc: "country_ok cc" and w1: "wifi_mac_chan_setup False cc w = Some w1"
  shows "\<exists>w2. wifi_mac_chan_attach w1 = Some w2 \<and> wm_channels w2 = wm_channels w1 \<and> wm_curchan w2 = None
     \<and> (\<forall>n. wifi_mac_chan_num_avail w2 n = Some (\<exists>c \<in> set (wm_channels w2). chan_pri_num c = uint n))"
proof -
  obtain cs where cs: "w1 = w\<lparr>wm_channels := map (dfs_mark cc) cs\<rparr>" "0 < length cs" "length cs < 256"
    "\<forall>c \<in> set cs. permitted False cc c" using chan_setup_spec [OF cc, of w] w1 by auto
  have rng: "\<forall>c \<in> set (wm_channels w1). 0 \<le> chan_pri_num c \<and> chan_pri_num c < 256"
    using cs permitted_range by fastforce
  obtain a where a: "foldo (\<lambda>c a. if chan_pri_num c < int WIFINET_CHAN_MAX then avail_add c a else None)
        (wm_channels w1) (replicate 32 0) = Some a" "length a = 32"
      "\<forall>n < 256. avail a n \<longleftrightarrow> avail (replicate 32 0) n \<or> (\<exists>c \<in> set (wm_channels w1). chan_pri_num c = int n)"
    using foldo_avail [OF rng, of "replicate 32 0"] by auto
  have att: "wifi_mac_chan_attach w1 = Some (w1\<lparr>wm_chan_avail := a, wm_curchan := None\<rparr>)"
    using cs a by (simp add: wifi_mac_chan_attach_def WIFINET_CHAN_MAX_def)
  have "isset a (unat n) = Some (\<exists>c \<in> set (wm_channels w1). chan_pri_num c = uint n)" for n :: u8
  proof -
    have n: "unat n < 256" by (rule unat_u8)
    then have "\<not> avail (replicate 32 0) (unat n)" by (simp add: avail_def less_mult_imp_div_less)
    with n a(3) have "avail a (unat n) \<longleftrightarrow> (\<exists>c \<in> set (wm_channels w1). chan_pri_num c = uint n)" by simp
    with isset_avail [OF n a(2)] show ?thesis by simp
  qed
  with att show ?thesis by (intro exI [of _ "w1\<lparr>wm_chan_avail := a, wm_curchan := None\<rparr>"]) (simp add: wifi_mac_chan_num_avail_def)
qed

abbreviation no_chans :: chan_mac where
  "no_chans \<equiv> \<lparr>wm_channels = [], wm_chan_avail = [], wm_curchan = None, wm_country = [], chan_index = []\<rparr>"

theorem attach_availability_witness:
  "\<exists>w1 w2. wifi_mac_chan_setup False 0 no_chans = Some w1 \<and> wifi_mac_chan_attach w1 = Some w2
     \<and> wifi_mac_chan_num_avail w2 1 = Some (\<exists>c \<in> set (wm_channels w2). chan_pri_num c = 1)"
proof -
  have cc: "country_ok 0" by code_simp
  obtain w1 where w1: "wifi_mac_chan_setup False 0 no_chans = Some w1" using chan_setup_spec [OF cc] by blast
  from attach_availability [OF cc w1] obtain w2 where w2: "wifi_mac_chan_attach w1 = Some w2"
    "\<forall>n. wifi_mac_chan_num_avail w2 n = Some (\<exists>c \<in> set (wm_channels w2). chan_pri_num c = uint n)" by blast
  with w1 show ?thesis by (metis uint_1)
qed

section \<open>Conversions\<close>

lemma scaled_div: "n \<le> 10000 \<Longrightarrow> 0 < k \<Longrightarrow> k \<le> 20 \<Longrightarrow> (of_nat n * of_nat k) div (of_nat k :: u32) = of_nat n"
proof -
  assume n: "n \<le> 10000" and k: "0 < k" "k \<le> 20"
  have m: "n * k < 2 ^ 32" using mult_le_mono [OF n k(2)] by simp
  have kk: "unat (of_nat k :: u32) = k" using k by (simp add: unat_of_nat)
  have nn: "unat (of_nat n :: u32) = n" using n by (simp add: unat_of_nat)
  have "unat (of_nat n * of_nat k :: u32) = n * k" using m by (simp add: unat_of_nat flip: of_nat_mult)
  then show ?thesis using k kk nn by (simp add: word_unat_eq_iff unat_div)
qed

lemma scaled_div_5: "unat (x :: u32) \<le> 10000 \<Longrightarrow> x * 5 div 5 = x"
  using scaled_div [of "unat x" 5] by simp

lemma scaled_div_20: "unat (x :: u32) \<le> 10000 \<Longrightarrow> x * 20 div 20 = x"
  using scaled_div [of "unat x" 20] by simp

lemma word_small_nat: "n \<le> 1000000 \<Longrightarrow> unat (of_nat n :: u32) = n"
  by (simp add: unat_of_nat)

text \<open>Converting a channel number to a frequency and back gives the number again, for every number up
  to 10000 and whatever the band flags say, with all arithmetic on 32-bit unsigned integers.\<close>

theorem ieee_mhz_roundtrip:
  assumes "unat chan \<le> 10000"
  shows "wifi_mac_Mhz2ieee (wifi_mac_Ieee2mhz chan flags) flags = chan"
proof -
  define n where "n = unat chan"
  have ch: "chan = of_nat n" and n: "n \<le> 10000" using assms by (simp_all add: n_def)
  have low: "unat (2407 + chan * 5 :: u32) = 2407 + n * 5"
    using word_small_nat [of "2407 + n * 5"] n by (simp add: ch)
  have high: "unat (5000 + chan * 5 :: u32) = 5000 + n * 5"
    using word_small_nat [of "5000 + n * 5"] n by (simp add: ch)
  have mid: "unat (2512 + (chan - 15) * 20 :: u32) = 2512 + (n - 15) * 20" if "15 \<le> n"
    using word_small_nat [of "2512 + (n - 15) * 20"] n that by (simp add: ch of_nat_diff)
  have d5: "chan * 5 div 5 = chan" by (rule scaled_div_5 [OF assms])
  have d20: "(chan - 15) * 20 div 20 = chan - 15" if "15 \<le> n"
  proof (rule scaled_div_20)
    have "chan - 15 = of_nat (n - 15)" using that by (simp add: ch of_nat_diff)
    then show "unat (chan - 15) \<le> 10000" using n by (simp add: word_small_nat)
  qed
  have lt: "chan < 14 \<longleftrightarrow> n < 14" "chan = 14 \<longleftrightarrow> n = 14" "chan < 27 \<longleftrightarrow> n < 27"
    using n by (simp_all add: ch word_less_nat_alt word_unat_eq_iff word_small_nat)
  consider "n < 14" | "n = 14" | "15 \<le> n" "n < 27" | "27 \<le> n" by linarith
  then show ?thesis
  proof cases
    case 1
    then have "(2407 + chan * 5 :: u32) < 2484" "(2407 + chan * 5 :: u32) \<noteq> 2484"
      by (simp_all add: word_less_nat_alt word_unat_eq_iff low)
    with 1 d5 show ?thesis by (simp add: wifi_mac_Ieee2mhz_def wifi_mac_Mhz2ieee_def lt)
  next
    case 2
    with ch show ?thesis by (simp add: wifi_mac_Ieee2mhz_def wifi_mac_Mhz2ieee_def)
  next
    case 3
    have "\<not> (2512 + (chan - 15) * 20 :: u32) < 2484" "(2512 + (chan - 15) * 20 :: u32) \<noteq> 2484" "(2512 + (chan - 15) * 20 :: u32) < 5000"
      unfolding word_less_nat_alt word_unat_eq_iff mid [OF 3(1)] using 3 by simp_all
    with 3 d5 d20 [OF 3(1)] show ?thesis by (simp add: wifi_mac_Ieee2mhz_def wifi_mac_Mhz2ieee_def lt)
  next
    case 4
    have a: "\<not> (5000 + chan * 5 :: u32) < 2484" "(5000 + chan * 5 :: u32) \<noteq> 2484" "\<not> (5000 + chan * 5 :: u32) < 5000"
      by (simp_all add: word_less_nat_alt word_unat_eq_iff high)
    have f: "15 \<le> n" using 4 by simp
    have b: "\<not> (2512 + (chan - 15) * 20 :: u32) < 2484" "(2512 + (chan - 15) * 20 :: u32) \<noteq> 2484"
      unfolding word_less_nat_alt word_unat_eq_iff mid [OF f] using 4 by simp_all
    with a 4 d5 d20 [OF f] show ?thesis by (simp add: wifi_mac_Ieee2mhz_def wifi_mac_Mhz2ieee_def lt)
  qed
qed

theorem ieee_mhz_roundtrip_witness: "wifi_mac_Mhz2ieee (wifi_mac_Ieee2mhz 149 0x8000) 0x8000 = 149"
  by (rule ieee_mhz_roundtrip) simp

section \<open>The access point's channel\<close>

lemma find_index_from_Some: "find_index_from P xs k = Some i \<Longrightarrow> k \<le> i \<and> i < k + length xs \<and> P (xs ! (i - k))"
proof (induction P xs k rule: find_index_from.induct)
  case (2 P x xs k)
  show ?case
  proof (cases "P x")
    case False
    with 2 have "k + 1 \<le> i \<and> i < k + 1 + length xs \<and> P (xs ! (i - (k + 1)))" by simp
    moreover from this have "k + 1 \<le> i" by simp
    then have "i - k = Suc (i - (k + 1))" by linarith
    ultimately show ?thesis by simp
  qed (use 2 in auto)
qed simp

lemma find_index_from_None: "find_index_from P xs k = None \<longleftrightarrow> (\<forall>x \<in> set xs. \<not> P x)"
  by (induction P xs k rule: find_index_from.induct) auto

text \<open>The channel wifi_mac_scan_sta_get_ap_channel picks for a beacon or probe response is always an
  entry of the driver's own channel list, on the primary channel number the frame announced; at the width
  and centre the frame announced, or at 20 MHz when the list lacks the 40 MHz channel. It finds none only
  if the list has no entry for what was announced.\<close>

theorem ap_channel_on_list:
  "(case wifi_mac_scan_sta_get_ap_channel w sp of
      Some i \<Rightarrow> i < wm_nchans w \<and> chan_pri_num (wm_channels w ! i) = uint (sp_chan sp)
         \<and> (chan_matches (uint (sp_chan sp)) (fst (ap_width sp)) (snd (ap_width sp)) (wm_channels w ! i)
            \<or> fst (ap_width sp) = WIDTH40 \<and> chan_matches (uint (sp_chan sp)) WIDTH20 (uint (sp_chan sp)) (wm_channels w ! i))
    | None \<Rightarrow> \<forall>c \<in> set (wm_channels w). \<not> chan_matches (uint (sp_chan sp)) (fst (ap_width sp)) (snd (ap_width sp)) c)"
proof (cases "ap_width sp")
  case (Pair wd ce)
  then show ?thesis
    by (auto simp: wifi_mac_scan_sta_get_ap_channel_def Let_def wifi_mac_find_chan_def find_index_from_None chan_matches_def
        dest!: find_index_from_Some split: option.splits if_splits)
qed

theorem ap_channel_on_list_witness:
  "wifi_mac_scan_sta_get_ap_channel (no_chans\<lparr>wm_channels := [chan_1]\<rparr>)
     \<lparr>sp_chan = 1, sp_htinfo = None, sp_htcap = None, sp_vht_opt = None\<rparr> = Some 0 \<and> chan_pri_num chan_1 = 1"
proof -
  let ?w = "no_chans\<lparr>wm_channels := [chan_1]\<rparr>" and ?sp = "\<lparr>sp_chan = 1, sp_htinfo = None, sp_htcap = None, sp_vht_opt = None\<rparr>"
  have "wifi_mac_scan_sta_get_ap_channel ?w ?sp = Some 0" by code_simp
  with ap_channel_on_list [of ?w ?sp] show ?thesis by simp
qed

section \<open>Operating classes of the table's channels\<close>

definition announced_class :: "class_chan_set \<Rightarrow> wifi_channel \<Rightarrow> u8" where
  "announced_class g c = (if opt_idx g = 125 \<and> chan_pri_num c \<le> 161 then 124 else of_int (opt_idx g))"

definition fresh_chandef :: chan_def where
  "fresh_chandef = \<lparr>cd_chan = None, cd_width = NL_20_NOHT, cd_center_freq1 = 0\<rparr>"

lemma announced_table: "list_all (\<lambda>g. opt_idx g \<in> {82, 112} \<or> list_all (\<lambda>c. chan_bw c = WIDTH80
     \<or> fst (wifi_mac_get_chandef (Some c) fresh_chandef)
        \<and> wifi_mac_get_operation_class (snd (wifi_mac_get_chandef (Some c) fresh_chandef)) = Some (announced_class g c)) (chan_sub_set g))
     global_chan_tab"
  by code_simp

lemma get_chandef_fresh:
  assumes "fst (wifi_mac_get_chandef (Some c) fresh_chandef)" "chan_bw c \<in> {WIDTH20, WIDTH40, WIDTH80}"
  shows "wifi_mac_get_chandef (Some c) cd = wifi_mac_get_chandef (Some c) fresh_chandef"
  using assms by (cases cd) (auto simp: wifi_mac_get_chandef_def fresh_chandef_def Let_def split: if_splits)

text \<open>The operating class announced in a channel switch (wifi_mac_get_operation_class applied to what
  wifi_mac_get_chandef fills in) is, for every 20 or 40 MHz channel of the driver's own table except
  classes 82 and 112, the class the table lists the channel under; the shared channels 149 to 161 are
  announced as class 124.\<close>

theorem announced_class_agrees:
  assumes g: "g \<in> set global_chan_tab" "opt_idx g \<noteq> 82" "opt_idx g \<noteq> 112"
    and c: "c \<in> set (chan_sub_set g)" "chan_bw c \<noteq> WIDTH80"
  shows "wifi_mac_get_operation_class (snd (wifi_mac_get_chandef (Some c) cd)) = Some (announced_class g c)"
proof -
  have f: "fst (wifi_mac_get_chandef (Some c) fresh_chandef)"
    and r: "wifi_mac_get_operation_class (snd (wifi_mac_get_chandef (Some c) fresh_chandef)) = Some (announced_class g c)"
    using announced_table g c unfolding list_all_iff by blast+
  have "class_ok g" using classes_ok g(1) by (simp add: list_all_iff)
  with c(1) have "chan_bw c \<in> {WIDTH20, WIDTH40, WIDTH80}" by (auto simp: class_ok_def list_all_iff)
  then show ?thesis using get_chandef_fresh [OF f, of cd] r by simp
qed

theorem announced_class_agrees_witness:
  "wifi_mac_get_operation_class (snd (wifi_mac_get_chandef (Some chan_1) fresh_chandef)) = Some 81"
proof -
  obtain g where g0: "g \<in> set global_chan_set" "opt_idx g = 81" "chan_1 \<in> set (take (sub_num g) (chan_sub_set g))"
    using chan_1_class by blast
  from g0(1) have "g \<in> set global_chan_tab \<or> opt_idx g = 0"
    unfolding global_chan_set_def set_append Un_iff in_set_replicate by (metis class_chan_set.select_convs(1))
  with g0(2) in_set_takeD [OF g0(3)] have g: "g \<in> set global_chan_tab" "opt_idx g = 81" "chan_1 \<in> set (chan_sub_set g)"
    by simp_all
  have "chan_bw chan_1 \<noteq> WIDTH80" by (simp add: chan_1_def chan_entry_def)
  from announced_class_agrees [OF g(1) _ _ g(3) this, of fresh_chandef] g(2) show ?thesis by (simp add: announced_class_def)
qed

section \<open>Country strings\<close>

text \<open>Apart from its first two entries the table is in alphabetical order, which makes its keys distinct.\<close>

definition cc_key :: "string \<Rightarrow> int" where
  "cc_key s = 256 * of_char (s ! 0) + of_char (s ! 1)"

fun increasing :: "int list \<Rightarrow> bool" where
  "increasing (x # y # zs) \<longleftrightarrow> x < y \<and> increasing (y # zs)"
| "increasing _ \<longleftrightarrow> True"

lemma increasing_distinct: "increasing xs \<Longrightarrow> distinct xs \<and> (\<forall>y \<in> set (tl xs). hd xs < y)"
  by (induction xs rule: increasing.induct) fastforce+

lemma country_keys: "increasing (map (cc_key \<circ> fst) (drop 2 country_chan_mapping_list))
    \<and> list_all (\<lambda>k. k \<noteq> cc_key ''WW'' \<and> k \<noteq> cc_key ''GO'') (map (cc_key \<circ> fst) (drop 2 country_chan_mapping_list))
    \<and> map fst (take 2 country_chan_mapping_list) = [''WW'', ''GO'']
    \<and> list_all (\<lambda>m. length (fst m) = 2) country_chan_mapping_list"
  by code_simp

lemma country_keys_distinct: "distinct (map (cc_key \<circ> fst) country_chan_mapping_list)"
proof -
  let ?r = "map (cc_key \<circ> fst) (drop 2 country_chan_mapping_list)"
  have "map (cc_key \<circ> fst) country_chan_mapping_list = map cc_key (map fst (take 2 country_chan_mapping_list)) @ ?r"
    by (metis append_take_drop_id map_append map_map)
  also have "\<dots> = [cc_key ''WW'', cc_key ''GO''] @ ?r" using country_keys by simp
  finally have e: "map (cc_key \<circ> fst) country_chan_mapping_list = [cc_key ''WW'', cc_key ''GO''] @ ?r" .
  have "cc_key ''WW'' \<noteq> cc_key ''GO''" by code_simp
  moreover have "cc_key ''WW'' \<notin> set ?r" "cc_key ''GO'' \<notin> set ?r" "distinct ?r"
    using country_keys increasing_distinct unfolding list_all_iff by blast+
  ultimately show ?thesis unfolding e by simp
qed

lemma find_country_own:
  "distinct (map (cc_key \<circ> fst) cs) \<Longrightarrow> i < length cs \<Longrightarrow> find_country_from cs (fst (cs ! i)) k = Some (k + int i)"
proof (induction cs arbitrary: i k)
  case (Cons m cs)
  show ?case
  proof (cases i)
    case 0
    then show ?thesis by (cases m) simp
  next
    case (Suc j)
    have "cc_key (fst m) \<noteq> cc_key (fst (cs ! j))" using Cons.prems Suc by (auto simp: comp_def)
    then have "\<not> (fst m ! 0 = fst (cs ! j) ! 0 \<and> fst m ! 1 = fst (cs ! j) ! 1)" by (auto simp: cc_key_def)
    with Suc Cons show ?thesis by (cases m) auto
  qed
qed simp

text \<open>Find_country_code inverts the country table: the code of every country string of the table is the
  index of its own entry, so the plan found is the one listed beside it.\<close>

theorem country_code_roundtrip:
  assumes "i < length country_chan_mapping_list"
  shows "find_country_code (fst (country_chan_mapping_list ! i)) = int i"
proof -
  have "length (fst (country_chan_mapping_list ! i)) = 2" using country_keys assms by (simp add: list_all_iff)
  with find_country_own [OF country_keys_distinct assms, of 0] show ?thesis by (simp add: find_country_code_def)
qed

theorem country_code_roundtrip_witness: "find_country_code (fst (country_chan_mapping_list ! 1)) = 1"
proof -
  have "1 < length country_chan_mapping_list" by code_simp
  from country_code_roundtrip [OF this] show ?thesis by simp
qed

section \<open>The overlap map\<close>

lemma overlap_range_bound: "i < 64 \<Longrightarrow> snd (overlap_range b i (overlap_step b w)) < 64"
proof -
  have "overlap_step b w \<le> 8" by (simp add: overlap_step_def)
  then show "i < 64 \<Longrightarrow> snd (overlap_range b i (overlap_step b w)) < 64"
    by (simp add: overlap_range_def Let_def)
qed

abbreviation bump :: "nat \<Rightarrow> nat \<Rightarrow> u16 list \<Rightarrow> u16 list" where
  "bump l m ov \<equiv> map (\<lambda>k. if l \<le> k \<and> k < m then ov ! k + 1 else ov ! k) [0..<length ov]"

lemma bump_Suc: "l \<le> m \<Longrightarrow> m < length ov \<Longrightarrow> (bump l m ov)[m := ov ! m + 1] = bump l (Suc m) ov"
  by (rule nth_equalityI) (simp_all add: nth_list_update less_Suc_eq)

lemma bump_empty: "m \<le> l \<Longrightarrow> bump l m ov = ov"
  by (rule nth_equalityI) simp_all

lemma overlap_count_bump: "u < length ov \<Longrightarrow> overlap_count (l, u) ov = Some (bump l (Suc u) ov)"
proof -
  have "m \<le> length ov \<Longrightarrow> foldo (\<lambda>i ov. if i < length ov then Some (ov[i := ov ! i + 1]) else None) [l..<m] ov = Some (bump l m ov)" for m
  proof (induction m)
    case (Suc m)
    show ?case
    proof (cases "l \<le> m")
      case True
      with Suc bump_Suc [OF True, of ov] show ?thesis by (simp add: foldo_append)
    qed (simp add: bump_empty)
  qed (simp add: map_nth)
  from this [of "Suc u"] show "u < length ov \<Longrightarrow> overlap_count (l, u) ov = Some (bump l (Suc u) ov)"
    unfolding overlap_count_def fst_conv snd_conv by (simp only: Suc_le_eq)
qed

text \<open>Network \<open>c\<close> overlaps entry \<open>k\<close> of the map.\<close>

definition covers :: "u8 list \<Rightarrow> wifi_channel \<Rightarrow> nat \<Rightarrow> bool" where
  "covers idx c k \<longleftrightarrow> (let (low, up) = get_ovlapping_chan_index idx (center_of c) (chan_bw c) (0, 0) in low \<le> k \<and> k \<le> up)"

lemma get_ovlapping_known:
  assumes "center_of c \<in> set idx" "length idx = 64"
  shows "get_ovlapping_chan_index idx (center_of c) wd lu = get_ovlapping_chan_index idx (center_of c) wd (0, 0)"
    and "snd (get_ovlapping_chan_index idx (center_of c) wd lu) < 64"
proof -
  obtain i where i: "find_index_from (\<lambda>x. x = center_of c) idx 0 = Some i"
    using assms(1) find_index_from_None [of "\<lambda>x. x = center_of c" idx 0] by (cases "find_index_from (\<lambda>x. x = center_of c) idx 0") auto
  then show "get_ovlapping_chan_index idx (center_of c) wd lu = get_ovlapping_chan_index idx (center_of c) wd (0, 0)"
    by (simp add: get_ovlapping_chan_index_def Let_def)
  have "i < 64" using find_index_from_Some [OF i] assms(2) by simp
  with i show "snd (get_ovlapping_chan_index idx (center_of c) wd lu) < 64"
    by (simp add: get_ovlapping_chan_index_def Let_def overlap_range_bound)
qed

lemma overlap_scan_spec:
  assumes "\<forall>c \<in> set found. center_of c \<in> set idx" "length idx = 64" "length ov = 64"
  shows "overlap_scan idx found lu ov
     = Some (map (\<lambda>k. ov ! k + of_nat (length (filter (\<lambda>c. covers idx c k) found))) [0..<64])"
  using assms(1,3)
proof (induction found arbitrary: lu ov)
  case Nil
  then show ?case by (simp add: list_eq_iff_nth_eq)
next
  case (Cons c cs)
  obtain l u where lu': "get_ovlapping_chan_index idx (center_of c) (chan_bw c) (0, 0) = (l, u)" by fastforce
  from Cons.prems have c: "center_of c \<in> set idx" by simp
  note known = get_ovlapping_known [OF c assms(2), of "chan_bw c" lu]
  from known lu' have u: "get_ovlapping_chan_index idx (center_of c) (chan_bw c) lu = (l, u)" "u < 64" by auto
  have cov: "covers idx c k \<longleftrightarrow> l \<le> k \<and> k < Suc u" for k using lu' by (auto simp: covers_def)
  have "overlap_scan idx (c # cs) lu ov = overlap_scan idx cs (l, u) (bump l (Suc u) ov)"
    using u Cons.prems(2) overlap_count_bump [of u ov l] by (simp add: Let_def)
  also have "\<dots> = Some (map (\<lambda>k. bump l (Suc u) ov ! k + of_nat (length (filter (\<lambda>c. covers idx c k) cs))) [0..<64])"
    using Cons.IH [of "bump l (Suc u) ov" "(l, u)"] Cons.prems by simp
  also have "\<dots> = Some (map (\<lambda>k. ov ! k + of_nat (length (filter (\<lambda>c. covers idx c k) (c # cs)))) [0..<64])"
    using Cons.prems(2) cov by simp
  finally show ?case .
qed

definition map_indices :: "u8 list" where
  "map_indices = map (\<lambda>i. of_nat (i + 1)) [0..<14] @ map (\<lambda>i. of_nat (2 * (i - 14) + 34)) [14..<30]
     @ map (\<lambda>i. of_nat (2 * (i - 30) + 100)) [30..<53] @ map (\<lambda>i. of_nat (2 * (i - 53) + 149)) [53..<62]"

definition map_index_list :: "u8 list" where
  "map_index_list = [1, 2, 3, 4, 5, 6, 7, 8, 9, 10, 11, 12, 13, 14, 34, 36, 38, 40, 42, 44, 46, 48, 50, 52, 54, 56, 58, 60, 62, 64, 100, 102, 104, 106, 108, 110, 112, 114, 116, 118, 120, 122, 124, 126, 128, 130, 132, 134, 136, 138, 140, 142, 144, 149, 151, 153, 155, 157, 159, 161, 163, 165]"

lemma map_indices_list: "map_indices = map_index_list"
  by code_simp

lemma table_centers: "list_all (\<lambda>g. opt_idx g = 112 \<or> list_all (\<lambda>c. center_of c \<in> set map_index_list) (chan_sub_set g)) global_chan_tab"
  by code_simp

lemmas centers_in_map = table_centers [folded map_indices_list]

lemma no_plan_112: "list_all (\<lambda>p. list_all (\<lambda>s. s \<noteq> 112) (take (support_class_num p) (support_class p))) country_chan_plan_list"
  by code_simp

lemma permitted_center: "permitted sg cc c \<Longrightarrow> center_of c \<in> set map_indices"
proof -
  assume "permitted sg cc c"
  then obtain p g where p: "country_plan cc = Some p" and g: "g \<in> set global_chan_set"
    "opt_idx g \<in> set (take (support_class_num p) (support_class p))" "c \<in> set (take (sub_num g) (chan_sub_set g))"
    by (auto simp: permitted_def)
  have "p \<in> set country_chan_plan_list"
    using p by (auto simp: country_plan_def bind_eq_Some_conv nth_int_Some_iff)
  with no_plan_112 g(2) have "opt_idx g \<noteq> 112" unfolding list_all_iff by blast
  moreover have "g \<in> set global_chan_tab \<or> chan_sub_set g = []"
    using g(1) unfolding global_chan_set_def set_append Un_iff in_set_replicate by (metis class_chan_set.select_convs(4))
  ultimately show ?thesis using centers_in_map in_set_takeD [OF g(3)] unfolding list_all_iff by fastforce
qed

text \<open>After a scan, entry k of the overlap map counts (modulo 65536) exactly the networks found whose
  channel covers entry k, and no counter outside the map is touched, provided the networks are on
  channels of the list a country set-up produced.\<close>

theorem overlap_map_counts:
  assumes "country_ok cc" and "length (chan_index w0) = 64"
    and w: "wifi_mac_chan_setup False cc (wifi_mac_chan_overlapping_map_init w0) = Some w"
    and found: "set found \<subseteq> set (wm_channels w)"
  shows "wifi_mac_update_chan_overlapping_map w found
     = Some (map (\<lambda>k. of_nat (length (filter (\<lambda>c. covers (chan_index w) c k) found))) [0..<64])"
proof -
  obtain cs where cs: "w = wifi_mac_chan_overlapping_map_init w0\<lparr>wm_channels := map (dfs_mark cc) cs\<rparr>"
    "\<forall>c \<in> set cs. permitted False cc c" using chan_setup_spec [OF assms(1), of "wifi_mac_chan_overlapping_map_init w0"] w by auto
  have idx: "chan_index w = map_indices @ drop 62 (chan_index w0)" "length map_indices = 62"
    using cs by (simp_all add: wifi_mac_chan_overlapping_map_init_def map_indices_def)
  have "center_of (dfs_mark cc c) = center_of c" for c by (simp add: center_of_def)
  with cs found idx permitted_center have c: "\<forall>c \<in> set found. center_of c \<in> set (chan_index w)" by fastforce
  have "length (chan_index w) = 64" using idx assms(2) by simp
  then show ?thesis
    unfolding wifi_mac_update_chan_overlapping_map_def
    by (subst overlap_scan_spec [OF c]) (simp_all add: WIFINET_MAX_SCAN_CHAN_def)
qed

theorem overlap_map_counts_witness:
  "\<exists>w c. wifi_mac_chan_setup False 0 (wifi_mac_chan_overlapping_map_init (no_chans\<lparr>chan_index := replicate 64 0\<rparr>)) = Some w
     \<and> wifi_mac_update_chan_overlapping_map w [c]
       = Some (map (\<lambda>k. of_nat (length (filter (\<lambda>c. covers (chan_index w) c k) [c]))) [0..<64])"
proof -
  have cc: "country_ok 0" by code_simp
  obtain w where w: "wifi_mac_chan_setup False 0 (wifi_mac_chan_overlapping_map_init (no_chans\<lparr>chan_index := replicate 64 0\<rparr>)) = Some w"
    and ne: "wm_channels w \<noteq> []"
    using chan_setup_spec [OF cc, of "wifi_mac_chan_overlapping_map_init (no_chans\<lparr>chan_index := replicate 64 0\<rparr>)"] by force
  have "set [hd (wm_channels w)] \<subseteq> set (wm_channels w)" using ne by simp
  from overlap_map_counts [OF cc _ w this] w show ?thesis by auto
qed

end
