(* ===== verification/ConnSm.thy ===== *)
theory ConnSm
  imports ChanUse
begin

text \<open>
  The connection state machine of a virtual interface: wifi_mac_top_sm and wifi_mac_sub_sm (wifi_mac_if.c), the
  operations of a station that it starts (wifi_mac_sta.c), the retry timer of management frames, and opening and
  stopping an interface.  An interface is a record with the fields that steer the machine; the stations are a store
  indexed by their address, the list \<open>nt_nsta\<close> of an interface is its station table.  What the code asks of other
  parts (frames sent, work of the driver, notices for the kernel) is a log of events, the work tasks a queue.
  Allocation results, the channel list and the concurrency mode come from the environment.  \<open>None\<close> is a failed
  KASSERT or the use of a null pointer.

  Left out, because nothing in the machine reads them: the statistics, rates, gains and capability fields that leaving,
  connecting and starting also set, the option fields (fixed rate, scan flags, the last roaming time) and the element
  bytes of the association request.  Where the code fills them by a call, the call is an event.
\<close>

section \<open>Data\<close>

datatype wifi_mac_state = S_INIT | S_SCAN | S_CONNECTING | S_AUTH | S_ASSOC | S_CONNECTED | S_MAX

datatype wifi_mac_opmode = M_IBSS | M_STA | M_HOSTAP | M_WDS | M_MONITOR | M_P2P_CLIENT | M_P2P_GO | M_P2P_DEV

fun state_num :: "wifi_mac_state \<Rightarrow> nat" where
  "state_num S_INIT = 0" | "state_num S_SCAN = 1" | "state_num S_CONNECTING = 2" | "state_num S_AUTH = 3"
| "state_num S_ASSOC = 4" | "state_num S_CONNECTED = 5" | "state_num S_MAX = 6"

lemma state_num_eq_iff [simp]: "state_num a = state_num b \<longleftrightarrow> a = b"
  by (cases a; cases b) simp_all

instantiation wifi_mac_state :: linorder
begin

definition less_eq_wifi_mac_state :: "wifi_mac_state \<Rightarrow> wifi_mac_state \<Rightarrow> bool" where
  "less_eq_wifi_mac_state a b = (state_num a \<le> state_num b)"

definition less_wifi_mac_state :: "wifi_mac_state \<Rightarrow> wifi_mac_state \<Rightarrow> bool" where
  "less_wifi_mac_state a b = (state_num a < state_num b)"

instance
  by standard (auto simp: less_eq_wifi_mac_state_def less_wifi_mac_state_def)

end

definition SUBTYPE_ASSOC_REQ :: int where "SUBTYPE_ASSOC_REQ = 0x00"
definition SUBTYPE_ASSOC_RESP :: int where "SUBTYPE_ASSOC_RESP = 0x10"
definition SUBTYPE_DISASSOC :: int where "SUBTYPE_DISASSOC = 0xa0"
definition SUBTYPE_AUTH :: int where "SUBTYPE_AUTH = 0xb0"
definition SUBTYPE_DEAUTH :: int where "SUBTYPE_DEAUTH = 0xc0"
definition AUTH_SHARED_REQUEST :: int where "AUTH_SHARED_REQUEST = 1"
definition AUTH_SHARED_CHALLENGE :: int where "AUTH_SHARED_CHALLENGE = 2"
definition AUTH_SHARED_RESPONSE :: int where "AUTH_SHARED_RESPONSE = 3"
definition AUTH_SHARED_PASS :: int where "AUTH_SHARED_PASS = 4"
definition AUTH_OPEN_REQUEST :: int where "AUTH_OPEN_REQUEST = 1"
definition AUTH_OPEN_RESPONSE :: int where "AUTH_OPEN_RESPONSE = 2"
definition AUTH_OPEN :: u8 where "AUTH_OPEN = 0"
definition AUTH_SHARED :: u8 where "AUTH_SHARED = 1"
definition AUTH_SAE :: u8 where "AUTH_SAE = 3"
definition STATUS_ALG :: int where "STATUS_ALG = 13"
definition STATUS_SEQUENCE :: int where "STATUS_SEQUENCE = 14"
definition STATUS_CHALLENGE :: int where "STATUS_CHALLENGE = 15"
definition STATUS_REFUSED_TEMPORARILY :: int where "STATUS_REFUSED_TEMPORARILY = 30"
definition STATUS_INVALID_PMKID :: int where "STATUS_INVALID_PMKID = 53"
definition REASON_AUTH_LEAVE :: int where "REASON_AUTH_LEAVE = 3"
definition REASON_ASSOC_LEAVE :: int where "REASON_ASSOC_LEAVE = 8"
definition REASON_MIC_FAILURE :: int where "REASON_MIC_FAILURE = 14"
definition SCANCFG_ACTIVE :: int where "SCANCFG_ACTIVE = 2"
definition SCANCFG_FLUSH :: int where "SCANCFG_FLUSH = 8"
definition SCANCFG_CREATE :: int where "SCANCFG_CREATE = 0x40"
definition PHASE_CONNECTING :: u8 where "PHASE_CONNECTING = 1"
definition PHASE_DISCONNECTING :: u8 where "PHASE_DISCONNECTING = 2"
definition PHASE_DISCONNECT_DELAY :: u8 where "PHASE_DISCONNECT_DELAY = 8"
definition F_PRIVACY :: u32 where "F_PRIVACY = 0x10"
definition F_SIBSS :: u32 where "F_SIBSS = 0x200"
definition F_WPA :: u32 where "F_WPA = 0x01800000"
definition F_COUNTERM :: u32 where "F_COUNTERM = 0x04000000"
definition FEXT_SWBMISS :: u32 where "FEXT_SWBMISS = 0x400"
definition STA_NODE_AUTH :: u16 where "STA_NODE_AUTH = 1"
definition STA_NODE_AREF :: u16 where "STA_NODE_AREF = 0x20"
definition STA_NODE_MFP :: u16 where "STA_NODE_MFP = 1"
definition STA_NODE_MFP_CONFIRM :: u16 where "STA_NODE_MFP_CONFIRM = 2"
definition RSN_ASE_SAE :: nat where "RSN_ASE_SAE = 8"
definition RECOVERY_START :: nat where "RECOVERY_START = 1"
definition RECOVERY_UNDER_CONNECT :: nat where "RECOVERY_UNDER_CONNECT = 2"
definition RECOVERY_VIF_UP :: nat where "RECOVERY_VIF_UP = 4"
definition RECOVERY_END :: nat where "RECOVERY_END = 5"
definition SLOT_STA :: u8 where "SLOT_STA = 0"
definition SLOT_P2P :: u8 where "SLOT_P2P = 1"
definition SLOT_NONE :: u8 where "SLOT_NONE = 2"
definition IFF_UP_RUNNING :: u32 where "IFF_UP_RUNNING = 0x18"
definition IFF_RUNNING_BIT :: u32 where "IFF_RUNNING_BIT = 0x08"
definition MGMT_RETRY_TIMES :: u8 where "MGMT_RETRY_TIMES = 3"
definition MGMT_RETRY_INTERVAL :: nat where "MGMT_RETRY_INTERVAL = 512"
definition AUTH_RETRY_INTERVAL :: nat where "AUTH_RETRY_INTERVAL = 512"
definition INTER_BEACON_INTERVAL :: u16 where "INTER_BEACON_INTERVAL = 500"
definition MAIN_VMAC :: nat where "MAIN_VMAC = 0"
definition P2P_VMAC :: nat where "P2P_VMAC = 1"

record sm_sta =
  sta_wnet_vif :: nat
  sta_authmode :: u8
  sta_flags :: u16
  sta_flags_ext :: u16
  sta_associd :: u16
  sta_keymgmtset :: u16
  sta_challenge :: "u8 list option"
  sta_essid :: "u8 list"
  sta_chbw :: wifi_mac_bwc_width
  connect_status :: nat
  is_disconnecting :: bool
  sa_query_try_count :: u8

record sm_vif =
  vm_opmode :: wifi_mac_opmode
  vm_state :: wifi_mac_state
  vm_flags :: u32
  vm_flags_ext :: u32
  vm_phase_flags :: u8
  vm_mainsta :: "nat option"
  nt_nsta :: "nat list"
  mgmt_pkt_retry_count :: u8
  vm_mgtsend :: "nat option"
  vm_actsend :: "nat option"
  vm_sm_switch :: "nat option"
  vm_des_nssid :: u8
  vm_des_ssid :: "u8 list"
  vm_curchan :: "wifi_channel option"
  vm_bandwidth :: wifi_mac_bwc_width
  vm_bcn_intval :: u16
  vm_p2p_support :: bool
  wnet_vif_replaycounter :: int
  dev_running :: bool

datatype sm_event =
    Send_mgmt nat int int
  | Send_auth nat "int \<times> int \<times> int \<times> u8 list option"
  | Cancel_scan
  | Chk_scan nat int u8
  | Connect_start | Connect_end
  | Notify_connect nat bool
  | Notify_disconnect nat int
  | Indicate_disconnect nat
  | Notify_mgmt_rx nat
  | Free_sta nat
  | Count string
  | Drv string "int list"

datatype sm_task =
    Task_sm_switch nat wifi_mac_state
  | Task_tx_timeout nat
  | Task_start_bss nat nat int
  | Task_disassoc nat nat
  | Task_deauth nat nat
  | Task_other string "int list"

record sm_mac =
  wnet_vifs :: "nat \<Rightarrow> sm_vif"
  stas :: "nat \<Rightarrow> sm_sta"
  wm_runningmask :: u32
  wm_nrunning :: u8
  wm_nopened :: u8
  wm_dev_flags :: u32
  wm_syncbeacon :: nat
  recovery_stat :: nat
  wm_vsdb_slot :: u8
  wm_vsdb_flags :: u16
  vsdb_mode_set_noa_enable :: u8
  work :: "sm_task list"
  sm_log :: "sm_event list"

text \<open>The environment: a free station for the table, one for a new peer and one for an error answer (\<open>None\<close>: out of
  memory), whether a buffer for a challenge and one for a management frame can be had, the random bytes of a challenge,
  the channel list, the concurrency mode, whether the platform uses 20 MHz in the lower band, and the access control
  list.\<close>

record sm_env =
  e_main_node :: "(nat \<times> sm_sta) option"
  e_new_node :: "(nat \<times> sm_sta) option"
  e_tmp_node :: "(nat \<times> sm_sta) option"
  e_challenge_buf :: bool
  e_random :: "u8 list"
  e_mgmt_frm :: bool
  e_chans :: chan_mac
  e_apsta :: bool
  e_20m_on_2g :: bool
  e_acl :: "macaddr \<Rightarrow> bool"

definition VM_WIFI_CONNECT_STATE :: "wifi_mac_state \<Rightarrow> bool" where
  "VM_WIFI_CONNECT_STATE s = (s = S_CONNECTING \<or> s = S_AUTH \<or> s = S_ASSOC)"

definition BIT :: "nat \<Rightarrow> u32" where "BIT v = push_bit v 1"

section \<open>State access\<close>

abbreviation vif :: "sm_mac \<Rightarrow> nat \<Rightarrow> sm_vif" where "vif s v \<equiv> wnet_vifs s v"
abbreviation mode :: "sm_mac \<Rightarrow> nat \<Rightarrow> wifi_mac_opmode" where "mode s v \<equiv> vm_opmode (vif s v)"
abbreviation state :: "sm_mac \<Rightarrow> nat \<Rightarrow> wifi_mac_state" where "state s v \<equiv> vm_state (vif s v)"

definition set_vif :: "nat \<Rightarrow> (sm_vif \<Rightarrow> sm_vif) \<Rightarrow> sm_mac \<Rightarrow> sm_mac" where
  "set_vif v f s = s\<lparr>wnet_vifs := (wnet_vifs s)(v := f (wnet_vifs s v))\<rparr>"

definition set_sta :: "nat \<Rightarrow> (sm_sta \<Rightarrow> sm_sta) \<Rightarrow> sm_mac \<Rightarrow> sm_mac" where
  "set_sta i f s = s\<lparr>stas := (stas s)(i := f (stas s i))\<rparr>"

definition emit :: "sm_event list \<Rightarrow> sm_mac \<Rightarrow> sm_mac" where
  "emit evs s = s\<lparr>sm_log := sm_log s @ evs\<rparr>"

definition add_task :: "sm_task list \<Rightarrow> sm_mac \<Rightarrow> sm_mac" where
  "add_task ts s = s\<lparr>work := work s @ ts\<rparr>"

definition call :: "string \<Rightarrow> nat \<Rightarrow> sm_mac \<Rightarrow> sm_mac" where
  "call f v s = emit [Drv f [int v]] s"

section \<open>Timers and frames\<close>

definition start_mgtsend :: "nat \<Rightarrow> nat \<Rightarrow> sm_mac \<Rightarrow> sm_mac" where
  "start_mgtsend v period s = set_vif v (\<lambda>x. x\<lparr>vm_mgtsend := Some period\<rparr>) s"

definition cancel_mgtsend :: "nat \<Rightarrow> sm_mac \<Rightarrow> sm_mac" where
  "cancel_mgtsend v s = set_vif v (\<lambda>x. x\<lparr>vm_mgtsend := None\<rparr>) s"

text \<open>The body of an authentication frame: algorithm, sequence number, status and challenge.  The upper half of the
  argument is the status, the lower one the sequence number.\<close>

definition auth_body :: "sm_mac \<Rightarrow> nat \<Rightarrow> nat \<Rightarrow> int \<Rightarrow> (int \<times> int \<times> int \<times> u8 list option) option" where
  "auth_body s v i arg =
    (let status = arg div 0x10000; sq = arg mod 0x10000;
         has_challenge = (sq = AUTH_SHARED_CHALLENGE \<or> sq = AUTH_SHARED_RESPONSE) \<and> sta_challenge (stas s i) \<noteq> None;
         body = (\<lambda>shared. (if shared then 1 else 0, sq, status,
                   if has_challenge \<and> status = 0 then sta_challenge (stas s i) else None))
     in if has_challenge \<or> AUTH_SHARED_RESPONSE \<le> sq then Some (body True)
        else if sq = AUTH_SHARED_REQUEST then
          (case vm_mainsta (vif s v) of None \<Rightarrow> None | Some m \<Rightarrow> Some (body (sta_authmode (stas s m) = AUTH_SHARED)))
        else Some (body False))"

definition wifi_mac_send_auth :: "sm_env \<Rightarrow> nat \<Rightarrow> nat \<Rightarrow> int \<Rightarrow> sm_mac \<Rightarrow> sm_mac option" where
  "wifi_mac_send_auth e v i arg s =
    (case auth_body s v i arg of None \<Rightarrow> None
     | Some b \<Rightarrow>
        if \<not> e_mgmt_frm e then Some s
        else let s = emit [Send_auth i b] s
             in Some (if mode s v = M_STA then start_mgtsend v AUTH_RETRY_INTERVAL s else s))"

definition wifi_mac_send_deauth :: "sm_env \<Rightarrow> nat \<Rightarrow> int \<Rightarrow> sm_mac \<Rightarrow> sm_mac" where
  "wifi_mac_send_deauth e i arg s =
    (if \<not> e_mgmt_frm e then s
     else emit [Send_mgmt i SUBTYPE_DEAUTH arg] (set_sta i (\<lambda>x. x\<lparr>sta_flags := sta_flags x AND NOT STA_NODE_AUTH\<rparr>) s))"

definition wifi_mac_send_disassoc :: "sm_env \<Rightarrow> nat \<Rightarrow> int \<Rightarrow> sm_mac \<Rightarrow> sm_mac" where
  "wifi_mac_send_disassoc e i arg s = (if \<not> e_mgmt_frm e then s else emit [Send_mgmt i SUBTYPE_DISASSOC arg] s)"

definition wifi_mac_send_assoc_req :: "sm_env \<Rightarrow> nat \<Rightarrow> nat \<Rightarrow> int \<Rightarrow> sm_mac \<Rightarrow> sm_mac" where
  "wifi_mac_send_assoc_req e v i arg s =
    (if \<not> e_mgmt_frm e then s
     else start_mgtsend v MGMT_RETRY_INTERVAL (emit [Send_mgmt i SUBTYPE_ASSOC_REQ arg] s))"

text \<open>A frame is dropped when the interface has no channel; deauthentication and disassociation are sent twice to a
  peer with protected management frames.\<close>

definition wifi_mac_send_mgmt :: "sm_env \<Rightarrow> nat \<Rightarrow> int \<Rightarrow> int \<Rightarrow> sm_mac \<Rightarrow> sm_mac option" where
  "wifi_mac_send_mgmt e i typ arg s =
    (let v = sta_wnet_vif (stas s i); mfp = sta_flags_ext (stas s i) AND STA_NODE_MFP \<noteq> 0
     in if vm_curchan (vif s v) = None \<and> \<not> vm_p2p_support (vif s v) then Some s
        else if typ = SUBTYPE_AUTH then wifi_mac_send_auth e v i arg s
        else if typ = SUBTYPE_DEAUTH then
          Some (if mfp then wifi_mac_send_deauth e i arg (wifi_mac_send_deauth e i arg s) else wifi_mac_send_deauth e i arg s)
        else if typ = SUBTYPE_ASSOC_REQ then Some (wifi_mac_send_assoc_req e v i arg s)
        else if typ = SUBTYPE_DISASSOC then
          Some (if mfp then wifi_mac_send_disassoc e i arg (wifi_mac_send_disassoc e i arg s)
                else wifi_mac_send_disassoc e i arg s)
        else Some (emit [Count ''sts_tx_unsprt_mngt''] s))"

section \<open>Operations of the station\<close>

definition wifi_mac_sta_auth :: "nat \<Rightarrow> sm_mac \<Rightarrow> sm_mac" where
  "wifi_mac_sta_auth i s = set_sta i (\<lambda>x. x\<lparr>sta_flags := sta_flags x OR STA_NODE_AUTH\<rparr>) s"

text \<open>A station is taken from the allocator and entered into the table of the interface.\<close>

definition add_node :: "nat \<Rightarrow> nat \<times> sm_sta \<Rightarrow> sm_mac \<Rightarrow> sm_mac" where
  "add_node v n s = set_vif v (\<lambda>x. x\<lparr>nt_nsta := nt_nsta x @ [fst n]\<rparr>) (set_sta (fst n) (\<lambda>_. (snd n)\<lparr>sta_wnet_vif := v\<rparr>) s)"

definition wifi_mac_check_main_sta :: "sm_env \<Rightarrow> nat \<Rightarrow> sm_mac \<Rightarrow> bool \<times> sm_mac" where
  "wifi_mac_check_main_sta e v s =
    (case vm_mainsta (vif s v) of Some _ \<Rightarrow> (True, s)
     | None \<Rightarrow> (case e_main_node e of None \<Rightarrow> (False, s)
                | Some n \<Rightarrow> (True, set_vif v (\<lambda>x. x\<lparr>vm_mainsta := Some (fst n)\<rparr>) (add_node v n s))))"

text \<open>wifi_mac_sta_table_rst with \<open>rst_mainsta\<close> false: every station but the main one leaves the table.\<close>

definition wifi_mac_sta_table_rst :: "nat \<Rightarrow> sm_mac \<Rightarrow> sm_mac" where
  "wifi_mac_sta_table_rst v s =
    (let out = filter (\<lambda>i. vm_mainsta (vif s v) \<noteq> Some i) (nt_nsta (vif s v));
         aids = filter (\<lambda>i. sta_associd (stas s i) \<noteq> 0) (nt_nsta (vif s v))
     in emit (map (\<lambda>i. Drv ''vm_StaClearAid'' [int v, uint (sta_associd (stas s i))]) aids @ map Free_sta out)
          (set_vif v (\<lambda>x. x\<lparr>nt_nsta := filter (\<lambda>i. vm_mainsta x = Some i) (nt_nsta x)\<rparr>) s))"

definition wifi_mac_rst_bss :: "sm_env \<Rightarrow> nat \<Rightarrow> sm_mac \<Rightarrow> sm_mac option" where
  "wifi_mac_rst_bss e v s =
    (case wifi_mac_check_main_sta e v (call ''wifi_mac_reset_ht'' v (call ''wifi_mac_reset_erp'' v (wifi_mac_sta_table_rst v s))) of
       (False, _) \<Rightarrow> None
     | (True, s) \<Rightarrow> Some s)"

definition wifi_mac_rst_main_sta :: "nat \<Rightarrow> sm_mac \<Rightarrow> sm_mac" where
  "wifi_mac_rst_main_sta v s =
    (case vm_mainsta (vif s v) of None \<Rightarrow> s
     | Some i \<Rightarrow> set_sta i (\<lambda>x. x\<lparr>sta_associd := 0, sta_authmode := AUTH_OPEN, sta_chbw := WIDTH20, connect_status := 0,
                    sta_flags := 0, sta_flags_ext := 0, sta_keymgmtset := 0\<rparr>) s)"

definition wifi_mac_notify_nsta_disconnect :: "nat \<Rightarrow> int \<Rightarrow> sm_mac \<Rightarrow> sm_mac" where
  "wifi_mac_notify_nsta_disconnect i reassoc s =
    (let v = sta_wnet_vif (stas s i)
     in if vm_mainsta (vif s v) = Some i
        then emit ((if reassoc = 0 then [Drv ''netif_carrier_off'' [int v]] else []) @ [Indicate_disconnect v]) s
        else emit [Notify_disconnect i reassoc] s)"

text \<open>What a station does when it leaves its access point.\<close>

definition leave_sta :: "sm_env \<Rightarrow> nat \<Rightarrow> int \<Rightarrow> sm_mac \<Rightarrow> sm_mac option" where
  "leave_sta e i reassoc s =
    (let v = sta_wnet_vif (stas s i); aid = sta_associd (stas s i);
         s = set_vif v (\<lambda>x. x\<lparr>vm_curchan := None\<rparr>) (emit [Drv ''drv_set_pkt_drop'' [int v, 1]] s);
         s = (if vm_flags_ext (vif s v) AND FEXT_SWBMISS \<noteq> 0 then add_task [Task_other ''wifi_mac_set_beacon_miss'' [int v, 0]] s else s);
         s = add_task [Task_other ''wifi_mac_sta_keep_alive_ex'' [int v, 0]] s;
         s = (if aid \<noteq> 0 then emit [Drv ''clear_staid_and_bssid'' [int v, uint aid]] s else s)
     in case vm_mainsta (vif s v) of None \<Rightarrow> None
        | Some m \<Rightarrow>
          (let s = set_sta m (\<lambda>x. x\<lparr>sta_flags_ext := sta_flags_ext x AND NOT STA_NODE_MFP\<rparr>) s;
               s = call ''wifi_mac_rate_disassoc'' v (call ''wifi_mac_reset_vmac'' v (call ''wifi_mac_reset_tspecs'' v s));
               s = call ''drv_flush_txdata'' v (call ''drv_free_normal_buffer_queue'' v (call ''wifi_mac_buffer_txq_flush'' v s));
               s = (if recovery_stat s = RECOVERY_START + RECOVERY_UNDER_CONNECT then s
                    else wifi_mac_notify_nsta_disconnect i reassoc s);
               s = emit [Drv ''drv_set_pkt_drop'' [int v, 0], Drv ''drv_set_is_mother_channel'' [int v, 1]] s
           in case wifi_mac_rst_bss e v s of None \<Rightarrow> None
              | Some s \<Rightarrow>
                (let s = emit [Drv ''set_channel_rssi'' [174], Drv ''wm_csa_trigger_timer'' [10000]] (wifi_mac_rst_main_sta v s)
                 in Some (if recovery_stat s = RECOVERY_END then set_vif v (\<lambda>x. x\<lparr>vm_des_nssid := 0, vm_des_ssid := []\<rparr>) s else s))))"

definition wifi_mac_sta_leave :: "sm_env \<Rightarrow> nat \<Rightarrow> int \<Rightarrow> sm_mac \<Rightarrow> sm_mac option" where
  "wifi_mac_sta_leave e i reassoc s =
    (let v = sta_wnet_vif (stas s i)
     in case (if mode s v = M_STA then leave_sta e i reassoc s else Some s) of None \<Rightarrow> None
        | Some s \<Rightarrow>
          (let s = set_vif v (\<lambda>x. x\<lparr>vm_phase_flags := vm_phase_flags x AND NOT PHASE_DISCONNECTING\<rparr>) s
           in Some (if vm_p2p_support (vif s v) then call ''vm_p2p_initial'' v s else s)))"

text \<open>The stations of an access point: associated ones leave the table and are told so in a task of their own.\<close>

definition wifi_mac_sta_disassoc_in_task :: "nat \<Rightarrow> sm_mac \<Rightarrow> sm_mac" where
  "wifi_mac_sta_disassoc_in_task v s =
    (let out = filter (\<lambda>i. sta_wnet_vif (stas s i) = v \<and> sta_associd (stas s i) \<noteq> 0) (nt_nsta (vif s v))
     in add_task (map (Task_disassoc v) out)
          (set_vif v (\<lambda>x. x\<lparr>nt_nsta := filter (\<lambda>i. i \<notin> set out) (nt_nsta x)\<rparr>) s))"

definition func_to_task_deauth :: "nat \<Rightarrow> sm_mac \<Rightarrow> sm_mac" where
  "func_to_task_deauth v s = add_task (map (Task_deauth v) (nt_nsta (vif s v))) s"

definition wifi_mac_start_bss :: "nat \<Rightarrow> sm_mac \<Rightarrow> sm_mac" where
  "wifi_mac_start_bss i s =
    (let v = sta_wnet_vif (stas s i) in add_task [Task_start_bss i v (wnet_vif_replaycounter (vif s v))] s)"

text \<open>copy_bss: the fields of the main station a new one takes over.\<close>

definition copy_bss :: "sm_sta \<Rightarrow> sm_sta \<Rightarrow> sm_sta" where
  "copy_bss obss x = x\<lparr>sta_authmode := sta_authmode obss, sta_flags_ext := sta_flags_ext obss, sta_keymgmtset := sta_keymgmtset obss\<rparr>"

definition find_chan_of :: "sm_env \<Rightarrow> wifi_channel \<Rightarrow> wifi_mac_bwc_width \<Rightarrow> int \<Rightarrow> wifi_channel option" where
  "find_chan_of e c wd center = map_option (\<lambda>k. wm_channels (e_chans e) ! k) (wifi_mac_find_chan (e_chans e) (chan_pri_num c) wd center)"

definition center_chan :: "wifi_channel \<Rightarrow> int" where
  "center_chan c = uint (wifi_mac_Mhz2ieee (word_of_int (chan_cfreq1 c)) 0)"

text \<open>An access point or an ad-hoc network is started with a fresh main station; its rates and capabilities do not
  steer the machine.  A null channel pointer is a crash.\<close>

definition wifi_mac_create_wifi :: "sm_env \<Rightarrow> nat \<Rightarrow> wifi_channel option \<Rightarrow> sm_mac \<Rightarrow> sm_mac option" where
  "wifi_mac_create_wifi e v chan s =
    (case e_new_node e of None \<Rightarrow> Some s
     | Some n \<Rightarrow>
       (let s = add_node v n s; i = fst n
        in case chan of None \<Rightarrow> None
           | Some c \<Rightarrow>
             (case find_chan_of e c (chan_bw c) (center_chan c) of None \<Rightarrow> Some s
              | Some w \<Rightarrow>
                (let s = set_vif v (\<lambda>x. x\<lparr>vm_curchan := Some w\<rparr>) s;
                     s = set_sta i (\<lambda>x. x\<lparr>sta_chbw := chan_bw c, sta_essid := vm_des_ssid (vif s v)\<rparr>) s;
                     s = (case vm_mainsta (vif s v) of None \<Rightarrow> s
                          | Some m \<Rightarrow> set_sta i (\<lambda>x. (copy_bss (stas s m) x)
                                        \<lparr>sta_flags_ext := sta_flags_ext (stas s m) AND STA_NODE_MFP\<rparr>) s);
                     s = (if mode s v = M_IBSS then set_vif v (\<lambda>x. x\<lparr>vm_flags := vm_flags x OR F_SIBSS\<rparr>) s else s);
                     s = call ''wifi_mac_build_country_ie'' v (call ''wifi_mac_set_legacy_rates'' v (call ''wifi_mac_ap_set_basic_rates'' v s))
                 in Some (wifi_mac_start_bss i s)))))"

definition wifi_mac_connect_start :: "sm_mac \<Rightarrow> sm_mac" where "wifi_mac_connect_start s = emit [Connect_start] s"
definition wifi_mac_connect_end :: "sm_mac \<Rightarrow> sm_mac" where "wifi_mac_connect_end s = emit [Connect_end] s"

section \<open>Switching the state\<close>

text \<open>What every switch does first.\<close>

definition sm_enter :: "nat \<Rightarrow> wifi_mac_state \<Rightarrow> sm_mac \<Rightarrow> sm_mac" where
  "sm_enter v nstate s =
    (let pre = state s v;
         s = set_vif v (\<lambda>x. x\<lparr>vm_state := nstate\<rparr>) s;
         s = (if pre = S_CONNECTED \<and> nstate \<noteq> S_CONNECTED
              then s\<lparr>wm_runningmask := wm_runningmask s AND NOT (BIT v), wm_nrunning := wm_nrunning s - 1\<rparr> else s);
         s = cancel_mgtsend v s
     in if mode s v \<noteq> M_HOSTAP \<and> pre \<noteq> S_SCAN then emit [Cancel_scan] s else s)"

definition sm_init :: "sm_env \<Rightarrow> nat \<Rightarrow> wifi_mac_state \<Rightarrow> nat \<Rightarrow> sm_mac \<Rightarrow> sm_mac option" where
  "sm_init e v pre sta s =
    (case pre of
       S_INIT \<Rightarrow> Some s
     | S_CONNECTED \<Rightarrow>
         (case mode s v of
            M_STA \<Rightarrow> wifi_mac_sta_leave e sta 0 s
          | M_HOSTAP \<Rightarrow> wifi_mac_rst_bss e v (wifi_mac_sta_disassoc_in_task v s)
          | _ \<Rightarrow> wifi_mac_rst_bss e v s)
     | S_ASSOC \<Rightarrow>
         (case (case mode s v of
                  M_STA \<Rightarrow> wifi_mac_send_mgmt e sta SUBTYPE_DEAUTH REASON_AUTH_LEAVE s
                | M_HOSTAP \<Rightarrow> Some (func_to_task_deauth v s)
                | _ \<Rightarrow> Some s) of
            None \<Rightarrow> None | Some s \<Rightarrow> wifi_mac_rst_bss e v s)
     | S_SCAN \<Rightarrow> wifi_mac_rst_bss e v (emit [Cancel_scan] s)
     | S_CONNECTING \<Rightarrow> wifi_mac_rst_bss e v s
     | S_AUTH \<Rightarrow> wifi_mac_rst_bss e v s
     | S_MAX \<Rightarrow> Some s)"

definition chk_scan :: "nat \<Rightarrow> int \<Rightarrow> sm_mac \<Rightarrow> sm_mac" where
  "chk_scan v flags s = emit [Chk_scan v flags (vm_des_nssid (vif s v))] s"

definition chan_is_5g :: "wifi_channel \<Rightarrow> bool" where
  "chan_is_5g c = (chan_flags c AND WIFINET_CHAN_5GHZ \<noteq> 0)"

text \<open>The label createibss: an access point on a fixed channel starts, another one scans for a channel first, and one
  without a name stays in the state it was in.\<close>

definition sm_createibss :: "sm_env \<Rightarrow> nat \<Rightarrow> wifi_mac_state \<Rightarrow> sm_mac \<Rightarrow> sm_mac option" where
  "sm_createibss e v pre s =
    (if mode s v \<noteq> M_HOSTAP then Some s
     else case vm_curchan (vif s v) of
       Some c \<Rightarrow>
         if chan_is_5g c \<or> vm_bandwidth (vif s v) = WIDTH20 then wifi_mac_create_wifi e v (Some c) s
         else if vm_des_nssid (vif s v) \<noteq> 0 then Some (chk_scan v (SCANCFG_ACTIVE + SCANCFG_FLUSH + SCANCFG_CREATE) s)
         else Some (set_vif v (\<lambda>x. x\<lparr>vm_state := pre\<rparr>) s)
     | None \<Rightarrow>
         if vm_des_nssid (vif s v) \<noteq> 0 then Some (chk_scan v (SCANCFG_ACTIVE + SCANCFG_FLUSH + SCANCFG_CREATE) s)
         else Some (set_vif v (\<lambda>x. x\<lparr>vm_state := pre\<rparr>) s))"

definition sm_scan :: "sm_env \<Rightarrow> nat \<Rightarrow> wifi_mac_state \<Rightarrow> int \<Rightarrow> nat \<Rightarrow> sm_mac \<Rightarrow> sm_mac option" where
  "sm_scan e v pre arg sta s =
    (let s = (if mode s v \<in> {M_STA, M_P2P_CLIENT, M_P2P_DEV, M_IBSS}
              then set_vif v (\<lambda>x. x\<lparr>vm_bcn_intval := INTER_BEACON_INTERVAL\<rparr>) s else s)
     in case (case pre of
                S_INIT \<Rightarrow> sm_createibss e v pre s
              | S_CONNECTED \<Rightarrow>
                  if mode s v = M_STA then
                    (case wifi_mac_sta_leave e sta 0 s of None \<Rightarrow> None
                     | Some s \<Rightarrow> Some (set_vif v (\<lambda>x. x\<lparr>vm_flags := vm_flags x AND NOT F_SIBSS\<rparr>) s))
                  else if mode s v = M_IBSS then Some (chk_scan v SCANCFG_ACTIVE s)
                  else sm_createibss e v pre (wifi_mac_sta_disassoc_in_task v s)
              | S_MAX \<Rightarrow> Some s
              | _ \<Rightarrow> Some (chk_scan v (or (or SCANCFG_ACTIVE SCANCFG_FLUSH) arg) s)) of
          None \<Rightarrow> None
        | Some s \<Rightarrow>
          Some (if vm_bcn_intval (vif s v) = INTER_BEACON_INTERVAL
                then add_task [Task_other ''wifi_mac_sta_beacon_init_ex'' [int v, wnet_vif_replaycounter (vif s v)]] s else s))"

definition trigger_sae :: "nat \<Rightarrow> sm_mac \<Rightarrow> sm_mac" where
  "trigger_sae sta s = add_task [Task_other ''wifi_mac_trigger_sae_task'' [int sta]] s"

definition reset_retry :: "nat \<Rightarrow> wifi_mac_state \<Rightarrow> wifi_mac_state \<Rightarrow> sm_mac \<Rightarrow> sm_mac" where
  "reset_retry v pre nstate s = (if pre \<noteq> nstate then set_vif v (\<lambda>x. x\<lparr>mgmt_pkt_retry_count := 0\<rparr>) s else s)"

definition to_scan_task :: "nat \<Rightarrow> sm_mac \<Rightarrow> sm_mac" where
  "to_scan_task v s = add_task [Task_sm_switch v S_SCAN] s"

definition sm_auth :: "sm_env \<Rightarrow> nat \<Rightarrow> wifi_mac_state \<Rightarrow> int \<Rightarrow> nat \<Rightarrow> sm_mac \<Rightarrow> sm_mac option" where
  "sm_auth e v pre arg sta s =
    (if mode s v \<noteq> M_STA then None
     else let s = reset_retry v pre S_AUTH s; sae = (sta_authmode (stas s sta) = AUTH_SAE) in
       case pre of
         S_SCAN \<Rightarrow> if sae then Some (trigger_sae sta s) else wifi_mac_send_mgmt e sta SUBTYPE_AUTH AUTH_SHARED_REQUEST s
       | S_CONNECTING \<Rightarrow> if sae then Some (trigger_sae sta s) else wifi_mac_send_mgmt e sta SUBTYPE_AUTH AUTH_SHARED_REQUEST s
       | S_CONNECTED \<Rightarrow>
           if arg = SUBTYPE_AUTH then
             (case wifi_mac_send_mgmt e sta SUBTYPE_AUTH AUTH_SHARED_CHALLENGE s of None \<Rightarrow> None
              | Some s \<Rightarrow> Some (set_vif v (\<lambda>x. x\<lparr>vm_state := pre\<rparr>) s))
           else if arg = SUBTYPE_DEAUTH then
             (case wifi_mac_send_mgmt e sta SUBTYPE_DEAUTH REASON_ASSOC_LEAVE s of None \<Rightarrow> None
              | Some s \<Rightarrow> (case wifi_mac_sta_leave e sta 0 s of None \<Rightarrow> None | Some s \<Rightarrow> Some (to_scan_task v s)))
           else Some s
       | S_INIT \<Rightarrow> Some (to_scan_task v s)
       | S_MAX \<Rightarrow> Some (to_scan_task v s)
       | _ \<Rightarrow>
           if pre = S_ASSOC \<and> sae \<and> arg = STATUS_INVALID_PMKID then Some (trigger_sae sta s)
           else if arg = SUBTYPE_AUTH then wifi_mac_send_mgmt e sta SUBTYPE_AUTH AUTH_SHARED_CHALLENGE s
           else if arg = SUBTYPE_DEAUTH then wifi_mac_send_mgmt e sta SUBTYPE_AUTH AUTH_SHARED_REQUEST s
           else Some s)"

definition sm_assoc :: "sm_env \<Rightarrow> nat \<Rightarrow> wifi_mac_state \<Rightarrow> int \<Rightarrow> nat \<Rightarrow> sm_mac \<Rightarrow> sm_mac option" where
  "sm_assoc e v pre arg sta s =
    (if mode s v \<noteq> M_STA then None
     else let s = reset_retry v pre S_ASSOC s in
       case pre of
         S_AUTH \<Rightarrow> wifi_mac_send_mgmt e sta SUBTYPE_ASSOC_REQ 0 s
       | S_ASSOC \<Rightarrow> wifi_mac_send_mgmt e sta SUBTYPE_ASSOC_REQ 0 s
       | S_CONNECTED \<Rightarrow>
           (case wifi_mac_send_mgmt e sta SUBTYPE_DISASSOC REASON_ASSOC_LEAVE s of None \<Rightarrow> None
            | Some s \<Rightarrow> (case wifi_mac_sta_leave e sta arg s of None \<Rightarrow> None | Some s \<Rightarrow> Some (to_scan_task v s)))
       | _ \<Rightarrow> Some (to_scan_task v s))"

definition sm_connected :: "sm_env \<Rightarrow> nat \<Rightarrow> wifi_mac_state \<Rightarrow> int \<Rightarrow> nat \<Rightarrow> sm_mac \<Rightarrow> sm_mac option" where
  "sm_connected e v pre arg sta s =
    (case (if pre = S_INIT \<and> mode s v \<in> {M_MONITOR, M_WDS, M_HOSTAP} then wifi_mac_create_wifi e v (vm_curchan (vif s v)) s
           else if pre = S_CONNECTING \<and> mode s v = M_IBSS then Some (emit [Notify_connect sta (arg = SUBTYPE_ASSOC_RESP)] s)
           else Some s) of
       None \<Rightarrow> None
     | Some s \<Rightarrow>
       (let s = (if pre \<noteq> S_CONNECTED \<and> mode s v = M_STA \<and> vm_flags_ext (vif s v) AND FEXT_SWBMISS \<noteq> 0 then
                   (let s = add_task [Task_other ''wifi_mac_set_beacon_miss'' [int v, 1],
                              Task_other ''wifi_mac_sta_beacon_init_ex'' [int v, wnet_vif_replaycounter (vif s v)],
                              Task_other ''wifi_mac_sta_keep_alive_ex'' [int v, 1]] s;
                        s = call ''wifi_mac_check_special_ap'' v (s\<lparr>wm_syncbeacon := 1\<rparr>);
                        s = (if vm_flags (vif s v) AND F_PRIVACY = 0 \<and> recovery_stat s = RECOVERY_VIF_UP
                             then (set_sta sta (\<lambda>x. x\<lparr>connect_status := 2\<rparr>) s)\<lparr>recovery_stat := RECOVERY_END\<rparr> else s)
                    in call ''wifi_mac_set_channel_rssi'' v s)
                 else s)
        in Some (wifi_mac_sta_auth sta s)))"

text \<open>The two interfaces share one radio: when they run on different primary channels it hops between slots.\<close>

definition concurrent_check_is_vmac_same_pri_channel :: "sm_mac \<Rightarrow> bool" where
  "concurrent_check_is_vmac_same_pri_channel s =
    (case (vm_curchan (vif s MAIN_VMAC), vm_curchan (vif s P2P_VMAC)) of
       (Some a, Some b) \<Rightarrow> chan_pri_num a = chan_pri_num b | _ \<Rightarrow> True)"

definition concurrent_check_vmac_is_AP :: "sm_mac \<Rightarrow> bool" where
  "concurrent_check_vmac_is_AP s = (mode s P2P_VMAC = M_HOSTAP)"

definition vsdb_task :: "nat \<Rightarrow> sm_mac \<Rightarrow> sm_mac" where
  "vsdb_task v s = add_task [Task_other ''wifi_mac_set_vsdb'' [int v, 1]] s"

definition sm_leave_tail :: "sm_env \<Rightarrow> nat \<Rightarrow> wifi_mac_state \<Rightarrow> wifi_mac_state \<Rightarrow> sm_mac \<Rightarrow> sm_mac" where
  "sm_leave_tail e v pre nstate s =
    (if nstate = S_CONNECTED \<and> pre \<noteq> S_CONNECTED then
       (let s = s\<lparr>wm_runningmask := wm_runningmask s OR BIT v, wm_nrunning := wm_nrunning s + 1\<rparr>;
            s = call ''wifi_mac_set_scan_time'' v s
        in if 1 < wm_nrunning s \<and> \<not> concurrent_check_is_vmac_same_pri_channel s then
             (let s = s\<lparr>wm_vsdb_slot := if vm_p2p_support (vif s v) \<or> mode s v = M_HOSTAP then SLOT_P2P else SLOT_STA\<rparr>;
                  s = (if e_apsta e \<and> concurrent_check_vmac_is_AP s then call ''channel_switch_announce_trigger'' MAIN_VMAC s else s)
              in vsdb_task v s)
           else s)
     else if pre = S_CONNECTED \<and> nstate \<noteq> S_CONNECTED then
       (let s = call ''wifi_mac_set_scan_time'' v s
        in if wm_nrunning s = 1 \<and> wm_vsdb_slot s \<noteq> SLOT_NONE then
             vsdb_task v (add_task [Task_other ''wifi_mac_restore_wnet_vif_channel_task_ex'' [int v]]
               (s\<lparr>wm_vsdb_slot := SLOT_NONE, wm_vsdb_flags := 0, vsdb_mode_set_noa_enable := 0\<rparr>))
           else s)
     else s)"

definition sm_body :: "sm_env \<Rightarrow> nat \<Rightarrow> wifi_mac_state \<Rightarrow> wifi_mac_state \<Rightarrow> int \<Rightarrow> nat \<Rightarrow> sm_mac \<Rightarrow> sm_mac option" where
  "sm_body e v pre nstate arg sta s =
    (case nstate of
       S_INIT \<Rightarrow> sm_init e v pre sta s | S_SCAN \<Rightarrow> sm_scan e v pre arg sta s | S_AUTH \<Rightarrow> sm_auth e v pre arg sta s
     | S_ASSOC \<Rightarrow> sm_assoc e v pre arg sta s | S_CONNECTED \<Rightarrow> sm_connected e v pre arg sta s
     | S_CONNECTING \<Rightarrow> Some s | S_MAX \<Rightarrow> Some s)"

definition wifi_mac_sub_sm :: "sm_env \<Rightarrow> nat \<Rightarrow> wifi_mac_state \<Rightarrow> int \<Rightarrow> sm_mac \<Rightarrow> (int \<times> sm_mac) option" where
  "wifi_mac_sub_sm e v nstate arg s =
    (let pre = state s v in
     case wifi_mac_check_main_sta e v (sm_enter v nstate s) of
       (False, s) \<Rightarrow> Some (- EINVAL, s)
     | (True, s) \<Rightarrow>
        (case vm_mainsta (vif s v) of None \<Rightarrow> None
         | Some sta \<Rightarrow> map_option (\<lambda>s. (0, sm_leave_tail e v pre nstate s)) (sm_body e v pre nstate arg sta s)))"

definition sm_conn_tail :: "nat \<Rightarrow> wifi_mac_state \<Rightarrow> wifi_mac_state \<Rightarrow> sm_mac \<Rightarrow> sm_mac" where
  "sm_conn_tail v pre nstate s =
    (let s = (if nstate = S_CONNECTED \<and> pre \<noteq> S_CONNECTED then call ''wifi_mac_pwrsave_wnet_vif_connect'' v s
              else if pre = S_CONNECTED \<and> nstate \<noteq> S_CONNECTED then call ''wifi_mac_pwrsave_wnet_vif_disconnect'' v s else s)
     in if VM_WIFI_CONNECT_STATE nstate \<and> \<not> VM_WIFI_CONNECT_STATE pre then wifi_mac_connect_start s
        else if VM_WIFI_CONNECT_STATE pre \<and> \<not> VM_WIFI_CONNECT_STATE nstate then wifi_mac_connect_end s else s)"

definition wifi_mac_top_sm :: "sm_env \<Rightarrow> nat \<Rightarrow> wifi_mac_state \<Rightarrow> int \<Rightarrow> sm_mac \<Rightarrow> (int \<times> sm_mac) option" where
  "wifi_mac_top_sm e v nstate arg s =
    (let pre = state s v; md = mode s v in
     if nstate = S_CONNECTING \<and> md \<noteq> M_STA \<and> md \<noteq> M_IBSS then Some (- EINVAL, sm_conn_tail v pre nstate s)
     else
       let s = (if nstate = S_CONNECTED \<and> md = M_HOSTAP
                then add_task [Task_other ''wifi_mac_beacon_alloc_ex'' [int v, wnet_vif_replaycounter (vif s v)]] (s\<lparr>wm_syncbeacon := 0\<rparr>)
                else s)
       in case wifi_mac_sub_sm e v nstate arg s of None \<Rightarrow> None
          | Some (_, s) \<Rightarrow>
            (let s = (if nstate = S_INIT then
                        (let s = set_vif v (\<lambda>x. x\<lparr>vm_des_nssid := 0\<rparr>) s
                         in if md = M_HOSTAP then call ''down_interface'' v (set_vif v (\<lambda>x. x\<lparr>vm_curchan := None, vm_des_ssid := []\<rparr>) s) else s)
                      else s)
             in Some (0, sm_conn_tail v pre nstate s)))"

section \<open>Starting, opening and stopping an interface\<close>

text \<open>wifi_mac_start_bss_ex: the new station becomes the main one, the old one leaves the table, and the machine moves on.
  \<open>p2p\<close> is the interface of the second slot.\<close>

definition swap_main_sta :: "nat \<Rightarrow> nat \<Rightarrow> sm_mac \<Rightarrow> sm_mac" where
  "swap_main_sta v selbs s =
    (let obss = vm_mainsta (vif s v); s = set_vif v (\<lambda>x. x\<lparr>vm_mainsta := Some selbs\<rparr>) s
     in case obss of None \<Rightarrow> s
        | Some o' \<Rightarrow>
          if o' = selbs then s
          else let s = (if mode s v = M_IBSS then set_sta selbs (copy_bss (stas s o')) s else s)
               in emit [Free_sta o'] (set_vif v (\<lambda>x. x\<lparr>nt_nsta := filter (\<lambda>i. i \<noteq> o') (nt_nsta x)\<rparr>) s))"

definition can_reassoc :: "nat \<Rightarrow> nat \<Rightarrow> sm_mac \<Rightarrow> bool" where
  "can_reassoc v selbs s =
    (case vm_mainsta (vif s v) of None \<Rightarrow> False
     | Some o' \<Rightarrow> state s v = S_CONNECTED \<and> sta_essid (stas s o') = sta_essid (stas s selbs))"

definition change_channel :: "sm_env \<Rightarrow> nat \<Rightarrow> wifi_channel \<Rightarrow> sm_mac \<Rightarrow> sm_mac" where
  "change_channel e v c s =
    (if e_apsta e \<and> concurrent_check_vmac_is_AP s \<and> mode s v = M_STA \<and> state s P2P_VMAC = S_CONNECTED
        \<and> concurrent_check_is_vmac_same_pri_channel s
     then emit [Drv ''wifi_mac_ChangeChannel_p2p'' [int v, chan_pri_num c]] s
     else emit [Drv ''wifi_mac_ChangeChannel'' [int v, chan_pri_num c]] s)"

definition start_bss_prep :: "sm_env \<Rightarrow> nat \<Rightarrow> wifi_channel \<Rightarrow> sm_mac \<Rightarrow> sm_mac" where
  "start_bss_prep e v c s =
    (let s = call ''is_connect_need_set_gain'' v (change_channel e v c s);
         s = (if mode s v = M_STA then call ''wifi_mac_set_channel_rssi'' v s else s)
     in call ''wifi_mac_wme_initparams'' v (call ''wifi_mac_reset_vht'' v (call ''wifi_mac_reset_ht'' v s)))"

definition wifi_mac_start_bss_ex :: "sm_env \<Rightarrow> nat \<Rightarrow> sm_mac \<Rightarrow> sm_mac option" where
  "wifi_mac_start_bss_ex e selbs s =
    (let v = sta_wnet_vif (stas s selbs) in
     if \<not> dev_running (vif s v) then Some s
     else
       let canreassoc = can_reassoc v selbs s; s = swap_main_sta v selbs s
       in case vm_curchan (vif s v) of None \<Rightarrow> Some s
          | Some c \<Rightarrow>
            (let s = start_bss_prep e v c s
             in if mode s v = M_STA then
                  if canreassoc then
                    (if state s v = S_SCAN then map_option snd (wifi_mac_top_sm e v S_ASSOC 0 s) else Some s)
                  else (if state s v = S_SCAN then map_option snd (wifi_mac_top_sm e v S_AUTH SUBTYPE_DEAUTH s) else Some s)
                else map_option snd (wifi_mac_top_sm e v S_CONNECTED (- 1) s)))"

definition wifi_mac_start_bss_ex_task :: "sm_env \<Rightarrow> nat \<Rightarrow> nat \<Rightarrow> int \<Rightarrow> sm_mac \<Rightarrow> sm_mac option" where
  "wifi_mac_start_bss_ex_task e selbs v cnt s =
    (if wnet_vif_replaycounter (vif s v) \<noteq> cnt then Some s else wifi_mac_start_bss_ex e selbs s)"

text \<open>Connecting to a scan result: its address entry, name, channel and capability bits of its RSN element.\<close>

record sm_bss =
  bss_ssid :: "u8 list"
  bss_chan :: wifi_channel
  bss_rsn_capa :: u16
  bss_ht :: bool

definition bss_channel :: "sm_env \<Rightarrow> sm_bss \<Rightarrow> wifi_channel option" where
  "bss_channel e se =
    (let c = bss_chan se in
     if e_20m_on_2g e \<and> chan_flags c AND WIFINET_CHAN_2GHZ \<noteq> 0 then find_chan_of e c WIDTH20 (chan_pri_num c)
     else find_chan_of e c (chan_bw c) (center_chan c))"

definition bss_width :: "sm_env \<Rightarrow> sm_bss \<Rightarrow> wifi_mac_bwc_width" where
  "bss_width e se =
    (if \<not> bss_ht se \<or> e_20m_on_2g e \<and> chan_flags (bss_chan se) AND WIFINET_CHAN_2GHZ \<noteq> 0
     then WIDTH20 else chan_bw (bss_chan se))"

definition wifi_mac_connect :: "sm_env \<Rightarrow> nat \<Rightarrow> sm_bss \<Rightarrow> sm_mac \<Rightarrow> (bool \<times> sm_mac) option" where
  "wifi_mac_connect e v se s =
    (case e_new_node e of None \<Rightarrow> Some (False, s)
     | Some n \<Rightarrow>
       (let i = fst n; s = wifi_mac_connect_start (add_node v n s)
        in case bss_channel e se of None \<Rightarrow> Some (False, wifi_mac_connect_end s)
           | Some w \<Rightarrow>
             (case vm_mainsta (vif s v) of None \<Rightarrow> None
              | Some m \<Rightarrow>
                (let s = set_vif v (\<lambda>x. x\<lparr>vm_curchan := Some w\<rparr>) s; mst = stas s m;
                     mfp = sta_flags_ext mst AND STA_NODE_MFP \<noteq> 0 \<and> bss_rsn_capa se AND 0xc0 \<noteq> 0;
                     s = set_sta i (\<lambda>x. x\<lparr>sta_chbw := bss_width e se, sta_flags := sta_flags mst, sta_authmode := sta_authmode mst,
                           sta_keymgmtset := sta_keymgmtset mst, sta_essid := bss_ssid se,
                           sta_flags_ext := if mfp then sta_flags_ext mst AND STA_NODE_MFP else sta_flags_ext x\<rparr>) s;
                     s = (if mfp then call ''wifi_mac_disable_hw_mgmt_decrypt'' v s else s);
                     s = call ''wifi_mac_setup_rates'' v (call ''wifi_mac_reset_vmac'' v s);
                     s = set_vif v (\<lambda>x. x\<lparr>vm_phase_flags := vm_phase_flags x OR PHASE_CONNECTING\<rparr>) s
                 in Some (True, wifi_mac_start_bss i s)))))"

text \<open>Bringing an interface up.  The first one opens the device; \<open>open_rc\<close> is the result of the driver.\<close>

definition if_run_up :: "sm_mac \<Rightarrow> bool" where "if_run_up s = (wm_dev_flags s AND IFF_UP_RUNNING \<noteq> 0)"
definition if_running :: "sm_mac \<Rightarrow> bool" where "if_running s = (wm_dev_flags s AND IFF_RUNNING_BIT \<noteq> 0)"

definition wifi_mac_netdev_open :: "int \<Rightarrow> sm_mac \<Rightarrow> int \<times> sm_mac" where
  "wifi_mac_netdev_open open_rc s =
    (let s = emit [Drv ''drv_open'' []] s
     in if open_rc \<noteq> 0 then (open_rc, s) else (0, s\<lparr>wm_dev_flags := wm_dev_flags s OR IFF_UP_RUNNING\<rparr>))"

definition wifi_mac_netdev_stop :: "sm_mac \<Rightarrow> sm_mac" where
  "wifi_mac_netdev_stop s =
    (if \<not> if_running s then s
     else emit [Drv ''drv_stop'' []] (s\<lparr>wm_dev_flags := wm_dev_flags s AND NOT IFF_RUNNING_BIT\<rparr>))"

definition if_up :: "int \<Rightarrow> nat \<Rightarrow> sm_mac \<Rightarrow> int \<times> sm_mac" where
  "if_up open_rc v s =
    (if dev_running (vif s v) then (0, s)
     else
       let s = call ''wifi_mac_pwrsave_wakeup'' v s; first = (wm_nopened s = 0);
           s = s\<lparr>wm_nopened := wm_nopened s + 1\<rparr>
       in case (if first \<and> \<not> if_running s then wifi_mac_netdev_open open_rc s else (0, s)) of
            (rc, s) \<Rightarrow> if rc \<noteq> 0 then (rc, s)
                      else (0, set_vif v (\<lambda>x. x\<lparr>dev_running := True\<rparr>) (call ''vm_cfg80211_up'' v s)))"

definition initial_sm :: "sm_env \<Rightarrow> bool \<Rightarrow> nat \<Rightarrow> sm_mac \<Rightarrow> sm_mac option" where
  "initial_sm e forcescan v s =
    (if \<not> if_run_up s then Some s
     else map_option snd
       (if mode s v = M_STA then
          (if state s v \<noteq> S_CONNECTED \<or> forcescan then wifi_mac_top_sm e v S_SCAN 0 s else wifi_mac_top_sm e v S_ASSOC 1 s)
        else if mode s v \<in> {M_MONITOR, M_WDS} then
          wifi_mac_top_sm e v S_CONNECTED (- 1) (set_vif v (\<lambda>x. x\<lparr>vm_state := S_INIT\<rparr>) s)
        else wifi_mac_top_sm e v S_SCAN 0 s))"

definition wifi_mac_initial :: "sm_env \<Rightarrow> int \<Rightarrow> bool \<Rightarrow> nat \<Rightarrow> sm_mac \<Rightarrow> (int \<times> sm_mac) option" where
  "wifi_mac_initial e open_rc forcescan v s =
    (case wifi_mac_check_main_sta e v (call ''wifi_mac_preempt_scan'' v s) of
       (False, s) \<Rightarrow> Some (1, s)
     | (True, s) \<Rightarrow>
        (case if_up open_rc v s of
           (rc, s) \<Rightarrow> if rc \<noteq> 0 then Some (rc, s) else map_option (Pair 0) (initial_sm e forcescan v s)))"

text \<open>Both wait for the module to be loaded, at most six seconds.\<close>

definition wifi_mac_open :: "sm_env \<Rightarrow> bool \<Rightarrow> int \<Rightarrow> nat \<Rightarrow> sm_mac \<Rightarrow> (int \<times> sm_mac) option" where
  "wifi_mac_open e loaded open_rc v s = (if \<not> loaded then Some (- 1, s) else wifi_mac_initial e open_rc False v s)"

definition wifi_mac_stop :: "sm_env \<Rightarrow> bool \<Rightarrow> nat \<Rightarrow> sm_mac \<Rightarrow> (int \<times> sm_mac) option" where
  "wifi_mac_stop e loaded v s =
    (if \<not> loaded then Some (- 1, s)
     else
       let s = call ''preempt_scan'' v s
       in if \<not> dev_running (vif s v) then Some (0, s)
          else case wifi_mac_top_sm e v S_INIT (- 1) (set_vif v (\<lambda>x. x\<lparr>dev_running := False\<rparr>) s) of
            None \<Rightarrow> None
          | Some (_, s) \<Rightarrow>
            (let s = set_vif v (\<lambda>x. x\<lparr>vm_mgtsend := None, vm_actsend := None\<rparr>) s;
                 s = call ''vm_cfg80211_down'' v s;
                 s = s\<lparr>wm_nopened := wm_nopened s - 1\<rparr>;
                 s = (if wm_nopened s = 0 \<and> if_running s then wifi_mac_netdev_stop s else s)
             in Some (0, call ''wifi_mac_rm_app_ie'' v s)))"

definition wifi_mac_stop_running :: "sm_env \<Rightarrow> bool \<Rightarrow> nat list \<Rightarrow> sm_mac \<Rightarrow> sm_mac option" where
  "wifi_mac_stop_running e loaded vs s =
    foldo (\<lambda>v s. if dev_running (vif s v) then map_option snd (wifi_mac_stop e loaded v s) else Some s) vs s"

section \<open>The retry timer of management frames\<close>

definition wifi_mac_mgmt_tx_timeout :: "nat \<Rightarrow> sm_mac \<Rightarrow> sm_mac" where
  "wifi_mac_mgmt_tx_timeout v s =
    (if vm_p2p_support (vif s v) \<or> S_CONNECTING < state s v then add_task [Task_tx_timeout v] s else s)"

text \<open>Before the last retry a station with a WEP key changes the kind of authentication.\<close>

definition swap_authmode :: "nat \<Rightarrow> sm_mac \<Rightarrow> sm_mac option" where
  "swap_authmode v s =
    (if mgmt_pkt_retry_count (vif s v) = MGMT_RETRY_TIMES - 1 \<and> vm_flags (vif s v) AND F_PRIVACY \<noteq> 0
        \<and> vm_flags (vif s v) AND F_WPA = 0
     then (case vm_mainsta (vif s v) of None \<Rightarrow> None
           | Some m \<Rightarrow> Some (set_sta m (\<lambda>x. x\<lparr>sta_authmode := if sta_authmode x = AUTH_SHARED then AUTH_OPEN else AUTH_SHARED\<rparr>) s))
     else Some s)"

definition rearm_mgtsend :: "nat \<Rightarrow> sm_mac \<Rightarrow> sm_mac" where
  "rearm_mgtsend v s = start_mgtsend v (unat (mgmt_pkt_retry_count (vif s v)) * MGMT_RETRY_INTERVAL) s"

definition wifi_mac_tx_timeout_ex :: "sm_env \<Rightarrow> nat \<Rightarrow> sm_mac \<Rightarrow> sm_mac option" where
  "wifi_mac_tx_timeout_ex e v s =
    (let again = mgmt_pkt_retry_count (vif s v) < MGMT_RETRY_TIMES;
         s = set_vif v (\<lambda>x. x\<lparr>mgmt_pkt_retry_count := mgmt_pkt_retry_count x + 1\<rparr>) s;
         reset = set_vif v (\<lambda>x. x\<lparr>mgmt_pkt_retry_count := 0\<rparr>)
     in if again then
          (if state s v = S_AUTH then
             (case swap_authmode v s of None \<Rightarrow> None
              | Some s \<Rightarrow> map_option (rearm_mgtsend v \<circ> snd) (wifi_mac_top_sm e v S_AUTH SUBTYPE_DEAUTH s))
           else if state s v = S_ASSOC then map_option (rearm_mgtsend v \<circ> snd) (wifi_mac_top_sm e v S_ASSOC 0 s)
           else Some (reset s))
        else
          let s = reset s
          in if state s v = S_AUTH \<or> state s v = S_ASSOC
             then map_option snd (wifi_mac_top_sm e v S_SCAN 0 (emit [Indicate_disconnect v] s)) else Some s)"

definition wifi_mac_sm_switch :: "sm_env \<Rightarrow> nat \<Rightarrow> wifi_mac_state \<Rightarrow> sm_mac \<Rightarrow> sm_mac option" where
  "wifi_mac_sm_switch e v st s = (if st \<noteq> S_INIT then map_option snd (wifi_mac_top_sm e v st 0 s) else Some s)"

definition wifi_mac_sm_switch_timeout :: "nat \<Rightarrow> sm_mac \<Rightarrow> sm_mac" where
  "wifi_mac_sm_switch_timeout v s = to_scan_task v s"

text \<open>The security association query of a peer with protected frames, asked every 100 ms at most 20 times.\<close>

definition wifi_mac_act_tx_timeout :: "nat \<Rightarrow> sm_mac \<Rightarrow> sm_mac option" where
  "wifi_mac_act_tx_timeout v s =
    (let s = (if vm_p2p_support (vif s v) then add_task [Task_other ''wifi_mac_tx_act_timeout_ex'' [int v]] s else s)
     in if mode s v = M_STA then
          (case vm_mainsta (vif s v) of None \<Rightarrow> None
           | Some m \<Rightarrow>
             if sta_flags_ext (stas s m) AND STA_NODE_MFP_CONFIRM = 0 then Some s
             else
               let s = emit [Drv ''wifi_mac_send_sa_query'' [int m]] s; again = sa_query_try_count (stas s m) < 20;
                   s = set_sta m (\<lambda>x. x\<lparr>sa_query_try_count := sa_query_try_count x + 1\<rparr>) s
               in Some (if again then set_vif v (\<lambda>x. x\<lparr>vm_actsend := Some 100\<rparr>) s else to_scan_task v s))
        else if mode s v = M_HOSTAP then
          Some (fold (\<lambda>i s.
            if sta_flags_ext (stas s i) AND STA_NODE_MFP_CONFIRM = 0 then s
            else
              let s = emit [Drv ''wifi_mac_send_sa_query'' [int i]] s; again = sa_query_try_count (stas s i) < 10;
                  s = set_sta i (\<lambda>x. x\<lparr>sa_query_try_count := sa_query_try_count x + 1\<rparr>) s
              in if again then set_vif v (\<lambda>x. x\<lparr>vm_actsend := Some 100\<rparr>) s
                 else emit [Drv ''wifi_mac_sta_disconnect'' [int i], Free_sta i]
                        (set_vif v (\<lambda>x. x\<lparr>nt_nsta := filter (\<lambda>j. j \<noteq> i) (nt_nsta x)\<rparr>) s))
            (nt_nsta (vif s v)) s)
        else Some s)"

text \<open>The tasks of an access point that drop its stations.\<close>

definition wifi_mac_disassoc_cb :: "sm_env \<Rightarrow> nat \<Rightarrow> sm_mac \<Rightarrow> sm_mac option" where
  "wifi_mac_disassoc_cb e i s =
    map_option (emit [Drv ''wifi_mac_sta_disconnect'' [int i], Free_sta i]) (wifi_mac_send_mgmt e i SUBTYPE_DISASSOC REASON_ASSOC_LEAVE s)"

definition wifi_mac_sta_deauth :: "sm_env \<Rightarrow> nat \<Rightarrow> nat \<Rightarrow> sm_mac \<Rightarrow> sm_mac option" where
  "wifi_mac_sta_deauth e v i s =
    (if sta_wnet_vif (stas s i) = v then wifi_mac_send_mgmt e i SUBTYPE_DEAUTH REASON_ASSOC_LEAVE s else Some s)"

fun run_task :: "sm_env \<Rightarrow> sm_task \<Rightarrow> sm_mac \<Rightarrow> sm_mac option" where
  "run_task e (Task_sm_switch v st) s = wifi_mac_sm_switch e v st s"
| "run_task e (Task_tx_timeout v) s = wifi_mac_tx_timeout_ex e v s"
| "run_task e (Task_start_bss i v cnt) s = wifi_mac_start_bss_ex_task e i v cnt s"
| "run_task e (Task_disassoc v i) s = wifi_mac_disassoc_cb e i s"
| "run_task e (Task_deauth v i) s = wifi_mac_sta_deauth e v i s"
| "run_task e (Task_other f xs) s = Some s"

end
