(* ===== verification/ConnRx.thy ===== *)
theory ConnRx
  imports ConnSm
begin

text \<open>
  The frames that drive the connection state machine (wifi_mac_recv.c): authentication in the open system, shared key and
  SAE algorithms, association responses, deauthentication and disassociation.  A frame is the list of the bytes of its
  body; the elements of an association response are parsed before (theory Elements).
\<close>

section \<open>Status codes\<close>

definition rd16 :: "u8 list \<Rightarrow> nat \<Rightarrow> int" where
  "rd16 b i = uint (b ! i) + 256 * uint (b ! (i + 1))"

definition ELEMID_CHALLENGE :: u8 where "ELEMID_CHALLENGE = 16"
definition ELEMID_TIMEOUT :: u8 where "ELEMID_TIMEOUT = 56"
definition CHALLENGE_LEN :: nat where "CHALLENGE_LEN = 128"

text \<open>The timeout interval element as the driver writes it (wifi_mac_add_timeout_interval) and as it reads it.\<close>

definition wifi_mac_add_timeout_interval :: "u8 list" where
  "wifi_mac_add_timeout_interval = [ELEMID_TIMEOUT, 5, 3, 0xe8, 0x03, 0, 0]"

definition wifi_mac_parse_timeout_ie :: "u8 list \<Rightarrow> u32 option" where
  "wifi_mac_parse_timeout_ie ie =
    (case (nth_opt ie 0, nth_opt ie 1, nth_opt ie 2) of
       (Some a, Some b, Some c) \<Rightarrow>
         if a \<noteq> ELEMID_TIMEOUT \<or> b \<noteq> 5 \<or> c \<noteq> 3 then Some 0
         else (case (nth_opt ie 3, nth_opt ie 4, nth_opt ie 5, nth_opt ie 6) of
                 (Some p, Some q, Some r, Some t) \<Rightarrow>
                   Some (word_of_int (uint p * 0x1000000 + uint q * 0x10000 + uint r * 0x100 + uint t))
               | _ \<Rightarrow> None)
     | _ \<Rightarrow> None)"

definition comeback_time :: "u8 list option \<Rightarrow> u16 option" where
  "comeback_time ie = (case ie of None \<Rightarrow> Some 1000 | Some b \<Rightarrow> map_option ucast (wifi_mac_parse_timeout_ie b))"

definition wifi_mac_status_code_handle :: "sm_env \<Rightarrow> nat \<Rightarrow> int \<Rightarrow> int \<Rightarrow> u8 list option \<Rightarrow> sm_mac \<Rightarrow> sm_mac option" where
  "wifi_mac_status_code_handle e i subtype status tie s =
    (let v = sta_wnet_vif (stas s i) in
     if status = STATUS_INVALID_PMKID \<and> bit (sta_keymgmtset (stas s i)) RSN_ASE_SAE \<and> sta_authmode (stas s i) = AUTH_OPEN then
       map_option snd (wifi_mac_top_sm e v S_AUTH STATUS_INVALID_PMKID
         (set_sta i (\<lambda>x. x\<lparr>sta_authmode := AUTH_SAE\<rparr>) (call ''aml_del_pmksa_by_index'' v (cancel_mgtsend v s))))
     else if subtype = SUBTYPE_AUTH then
       (if status \<noteq> STATUS_ALG then Some s
        else case vm_mainsta (vif s v) of None \<Rightarrow> None
             | Some m \<Rightarrow> Some (set_sta m (\<lambda>x. x\<lparr>sta_authmode := AUTH_SHARED\<rparr>) s))
     else if subtype = SUBTYPE_ASSOC_RESP then
       (let s = cancel_mgtsend v s in
        if status = STATUS_REFUSED_TEMPORARILY then
          map_option (\<lambda>t. set_vif v (\<lambda>x. x\<lparr>vm_sm_switch := Some (unat t)\<rparr>) s) (comeback_time tie)
        else map_option snd (wifi_mac_top_sm e v S_SCAN 0 s))
     else Some s)"

section \<open>Authentication\<close>

text \<open>wifi_mac_bup_bss: a new station takes over the settings of the main one.\<close>

definition wifi_mac_bup_bss :: "sm_env \<Rightarrow> nat \<Rightarrow> sm_mac \<Rightarrow> (nat \<times> sm_mac) option option" where
  "wifi_mac_bup_bss e v s =
    (case e_new_node e of None \<Rightarrow> Some None
     | Some n \<Rightarrow>
        (let s = add_node v n s
         in case vm_mainsta (vif s v) of None \<Rightarrow> None
            | Some m \<Rightarrow> Some (Some (fst n, set_sta (fst n) (\<lambda>x. x\<lparr>sta_authmode := sta_authmode (stas s m),
                          sta_keymgmtset := sta_keymgmtset (stas s m)\<rparr>) s))))"

text \<open>The station a handler of an access point works with: a frame of an unknown peer comes with the main station, and
  a station is made for it.\<close>

definition peer_of :: "sm_env \<Rightarrow> nat \<Rightarrow> nat \<Rightarrow> sm_mac \<Rightarrow> (nat \<times> sm_mac) option option" where
  "peer_of e v i s = (if vm_mainsta (vif s v) = Some i then wifi_mac_bup_bss e v s else Some (Some (i, s)))"

definition wifi_mac_send_error :: "sm_env \<Rightarrow> nat \<Rightarrow> int \<Rightarrow> int \<Rightarrow> sm_mac \<Rightarrow> sm_mac option" where
  "wifi_mac_send_error e i subtype arg s =
    (let v = sta_wnet_vif (stas s i) in
     if vm_mainsta (vif s v) = Some i then
       (case e_tmp_node e of None \<Rightarrow> Some s
        | Some n \<Rightarrow> map_option (emit [Free_sta (fst n)])
            (wifi_mac_send_mgmt e (fst n) subtype arg (set_sta (fst n) (\<lambda>_. (snd n)\<lparr>sta_wnet_vif := v\<rparr>) s)))
     else wifi_mac_send_mgmt e i subtype arg s)"

definition auth_arg :: "int \<Rightarrow> int \<Rightarrow> int" where
  "auth_arg sq status = or sq (status * 0x10000)"

definition auth_open_ap :: "sm_env \<Rightarrow> nat \<Rightarrow> nat \<Rightarrow> int \<Rightarrow> sm_mac \<Rightarrow> sm_mac option" where
  "auth_open_ap e v i sq s =
    (case peer_of e v i s of None \<Rightarrow> None | Some None \<Rightarrow> Some s
     | Some (Some (i, s)) \<Rightarrow>
        map_option (wifi_mac_sta_auth i)
          (wifi_mac_send_mgmt e i SUBTYPE_AUTH (sq + 1) (set_sta i (\<lambda>x. x\<lparr>sta_flags := sta_flags x OR STA_NODE_AREF\<rparr>) s)))"

definition wifi_mac_auth_open :: "sm_env \<Rightarrow> nat \<Rightarrow> int \<Rightarrow> int \<Rightarrow> sm_mac \<Rightarrow> sm_mac option" where
  "wifi_mac_auth_open e i sq status s =
    (let v = sta_wnet_vif (stas s i); mismatch = emit [Count ''sts_rx_auth_mismatch'']; shared = (sta_authmode (stas s i) = AUTH_SHARED);
         s = (if shared then mismatch s else s)
     in if shared \<and> mode s v = M_HOSTAP then
          (case peer_of e v i s of None \<Rightarrow> None | Some None \<Rightarrow> Some s
           | Some (Some (i, s)) \<Rightarrow> wifi_mac_send_mgmt e i SUBTYPE_AUTH (auth_arg (sq + 1) STATUS_ALG) s)
        else case mode s v of
          M_IBSS \<Rightarrow> if state s v \<noteq> S_CONNECTED \<or> sq \<noteq> AUTH_OPEN_REQUEST then Some (mismatch s)
                    else map_option snd (wifi_mac_top_sm e v S_AUTH SUBTYPE_AUTH s)
        | M_HOSTAP \<Rightarrow> if state s v \<noteq> S_CONNECTED \<or> sq \<noteq> AUTH_OPEN_REQUEST then Some (mismatch s) else auth_open_ap e v i sq s
        | M_STA \<Rightarrow>
            if state s v \<noteq> S_AUTH \<or> sq \<noteq> AUTH_OPEN_RESPONSE then Some (mismatch s)
            else if status \<noteq> 0 then map_option snd (wifi_mac_top_sm e v S_SCAN 0 (emit [Count ''sts_rx_auth_fail''] s))
            else map_option snd (wifi_mac_top_sm e v S_ASSOC 0 s)
        | _ \<Rightarrow> Some s)"

definition wifi_mac_auth_sae :: "sm_env \<Rightarrow> nat \<Rightarrow> sm_mac \<Rightarrow> sm_mac option" where
  "wifi_mac_auth_sae e i s =
    (let v = sta_wnet_vif (stas s i) in
     case mode s v of
       M_HOSTAP \<Rightarrow>
         if state s v \<noteq> S_CONNECTED then Some s
         else (case peer_of e v i s of None \<Rightarrow> None | Some None \<Rightarrow> Some s
               | Some (Some (i, s)) \<Rightarrow>
                  (case vm_mainsta (vif s v) of None \<Rightarrow> None
                   | Some m \<Rightarrow> Some (emit [Notify_mgmt_rx v] (set_sta i (\<lambda>x. x\<lparr>sta_flags := sta_flags x OR STA_NODE_AREF,
                                  sta_essid := sta_essid (stas s m), sta_authmode := AUTH_SAE\<rparr>) s))))
     | M_STA \<Rightarrow> if state s v \<noteq> S_AUTH then Some s else Some (emit [Notify_mgmt_rx v] s)
     | _ \<Rightarrow> Some s)"

text \<open>The challenge element of a shared key frame: a too long element and a missing or wrong challenge are errors.\<close>

definition shared_challenge :: "u8 list \<Rightarrow> int \<Rightarrow> u8 list option option" where
  "shared_challenge b sq =
    (let el = (if 1 < length b then Some b else None) in
     if el \<noteq> None \<and> length b < unat (b ! 1) + 2 then None
     else let challenge = (if el \<noteq> None \<and> b ! 0 = ELEMID_CHALLENGE then Some b else None) in
       if sq \<in> {AUTH_SHARED_CHALLENGE, AUTH_SHARED_RESPONSE} then
         (case challenge of None \<Rightarrow> None
          | Some c \<Rightarrow> if unat (c ! 1) \<noteq> CHALLENGE_LEN then None else Some (Some (take CHALLENGE_LEN (drop 2 c))))
       else Some None)"

definition auth_bad :: "sm_env \<Rightarrow> nat \<Rightarrow> nat \<Rightarrow> int \<Rightarrow> int \<Rightarrow> sm_mac \<Rightarrow> sm_mac option" where
  "auth_bad e v i sq estatus s =
    (if mode s v = M_HOSTAP then wifi_mac_send_error e i SUBTYPE_AUTH (auth_arg (sq + 1) estatus) s
     else if mode s v = M_STA \<and> state s v = S_AUTH then map_option snd (wifi_mac_top_sm e v S_SCAN 0 s)
     else Some s)"

definition auth_shared_ap :: "sm_env \<Rightarrow> nat \<Rightarrow> nat \<Rightarrow> int \<Rightarrow> u8 list option \<Rightarrow> sm_mac \<Rightarrow> sm_mac option" where
  "auth_shared_ap e v i sq challenge s =
    (let mismatch = emit [Count ''sts_rx_auth_mismatch''] in
     if state s v \<noteq> S_CONNECTED then auth_bad e v i sq STATUS_ALG s
     else if sq = AUTH_SHARED_REQUEST then
       (case peer_of e v i s of None \<Rightarrow> None | Some None \<Rightarrow> Some s
        | Some (Some (i, s)) \<Rightarrow>
           (let s = set_sta i (\<lambda>x. x\<lparr>sta_flags := sta_flags x OR STA_NODE_AREF\<rparr>) s in
            if sta_challenge (stas s i) = None \<and> \<not> e_challenge_buf e then Some s
            else wifi_mac_send_mgmt e i SUBTYPE_AUTH (sq + 1) (set_sta i (\<lambda>x. x\<lparr>sta_challenge := Some (e_random e)\<rparr>) s)))
     else if sq = AUTH_SHARED_RESPONSE then
       (if vm_mainsta (vif s v) = Some i then Some s
        else case sta_challenge (stas s i) of None \<Rightarrow> auth_bad e v i sq STATUS_CHALLENGE (mismatch s)
             | Some c \<Rightarrow>
                if challenge \<noteq> Some c then auth_bad e v i sq STATUS_CHALLENGE (emit [Count ''sts_rx_auth_fail''] s)
                else wifi_mac_send_mgmt e i SUBTYPE_AUTH (sq + 1) (wifi_mac_sta_auth i s))
     else auth_bad e v i sq STATUS_SEQUENCE (mismatch s))"

definition auth_shared_sta :: "sm_env \<Rightarrow> nat \<Rightarrow> nat \<Rightarrow> int \<Rightarrow> int \<Rightarrow> u8 list option \<Rightarrow> sm_mac \<Rightarrow> sm_mac option" where
  "auth_shared_sta e v i sq status challenge s =
    (if state s v \<noteq> S_AUTH then Some s
     else if sq = AUTH_SHARED_PASS then
       (let s = set_sta i (\<lambda>x. x\<lparr>sta_challenge := None\<rparr>) s in
        if status \<noteq> 0 then auth_bad e v i sq 0 (emit [Count ''sts_rx_auth_fail''] s)
        else map_option snd (wifi_mac_top_sm e v S_ASSOC 0 s))
     else if sq = AUTH_SHARED_CHALLENGE then
       (if sta_challenge (stas s i) = None \<and> \<not> e_challenge_buf e then auth_bad e v i sq 0 s
        else wifi_mac_send_mgmt e i SUBTYPE_AUTH (sq + 1) (set_sta i (\<lambda>x. x\<lparr>sta_challenge := challenge\<rparr>) s))
     else auth_bad e v i sq 0 (emit [Count ''sts_rx_auth_mismatch''] s))"

definition wifi_mac_auth_shared :: "sm_env \<Rightarrow> nat \<Rightarrow> u8 list \<Rightarrow> int \<Rightarrow> int \<Rightarrow> sm_mac \<Rightarrow> sm_mac option" where
  "wifi_mac_auth_shared e i b sq status s =
    (let v = sta_wnet_vif (stas s i); mismatch = emit [Count ''sts_rx_auth_mismatch''] in
     if vm_flags (vif s v) AND F_PRIVACY = 0 then auth_bad e v i sq STATUS_ALG s
     else if sta_authmode (stas s i) \<noteq> AUTH_SHARED then auth_bad e v i sq STATUS_ALG (mismatch s)
     else case shared_challenge b sq of
       None \<Rightarrow> auth_bad e v i sq STATUS_CHALLENGE (mismatch s)
     | Some challenge \<Rightarrow>
        (case mode s v of
           M_HOSTAP \<Rightarrow> auth_shared_ap e v i sq challenge s
         | M_STA \<Rightarrow> auth_shared_sta e v i sq status challenge s
         | _ \<Rightarrow> Some s))"

text \<open>A station with a WEP key reacts to a refused algorithm by trying the other one, to another refusal by leaving.\<close>

definition auth_wep :: "sm_env \<Rightarrow> nat \<Rightarrow> nat \<Rightarrow> int \<Rightarrow> sm_mac \<Rightarrow> sm_mac option option" where
  "auth_wep e v i status s =
    (if mode s v = M_STA \<and> vm_flags (vif s v) AND F_PRIVACY \<noteq> 0 \<and> vm_flags (vif s v) AND F_WPA = 0 then
       (case vm_mainsta (vif s v) of None \<Rightarrow> Some None
        | Some m \<Rightarrow>
           if sta_authmode (stas s m) = AUTH_SHARED \<and> status = STATUS_ALG then
             Some (wifi_mac_send_mgmt e i SUBTYPE_AUTH AUTH_SHARED_REQUEST (set_sta m (\<lambda>x. x\<lparr>sta_authmode := AUTH_OPEN\<rparr>) s))
           else if sta_authmode (stas s m) = AUTH_OPEN \<and> status \<noteq> 0 then
             Some (map_option snd (wifi_mac_top_sm e v S_SCAN 0 (emit [Indicate_disconnect v] (cancel_mgtsend v s))))
           else None)
     else None)"

definition auth_by_type :: "sm_env \<Rightarrow> nat \<Rightarrow> nat \<Rightarrow> u8 list \<Rightarrow> sm_mac \<Rightarrow> sm_mac option" where
  "auth_by_type e v i b s =
    (let typ = rd16 b 0; sq = rd16 b 2; status = rd16 b 4 in
     if typ \<noteq> uint AUTH_SAE \<and> status \<noteq> 0 then wifi_mac_status_code_handle e i SUBTYPE_AUTH status None s
     else if typ = uint AUTH_SHARED then wifi_mac_auth_shared e i (drop 6 b) sq status s
     else if typ = uint AUTH_OPEN then wifi_mac_auth_open e i sq status s
     else if typ = uint AUTH_SAE then wifi_mac_auth_sae e i s
     else let s = emit [Count ''sts_auth_unsprt''] s
          in if mode s v = M_HOSTAP then wifi_mac_send_error e i SUBTYPE_AUTH (auth_arg (sq + 1) STATUS_CHALLENGE) s else Some s)"

definition wifi_mac_recv_auth :: "sm_env \<Rightarrow> nat \<Rightarrow> nat \<Rightarrow> macaddr \<Rightarrow> u8 list \<Rightarrow> sm_mac \<Rightarrow> sm_mac option" where
  "wifi_mac_recv_auth e v i addr b s =
    (if length b < 6 then Some (emit [Count ''sts_rx_elem_too_short''] s)
     else if (sta_associd (stas s i) \<noteq> 0 \<or> is_disconnecting (stas s i)) \<and> mode s v = M_HOSTAP then
       (if is_disconnecting (stas s i) then Some s
        else Some (wifi_mac_notify_nsta_disconnect i 0 (call ''wifi_softap_allsta_stopping'' v s)))
     else if \<not> e_acl e addr then Some (emit [Count ''sts_rx_acl_mismatch''] s)
     else if vm_flags (vif s v) AND F_COUNTERM \<noteq> 0 then
       (if mode s v = M_HOSTAP then wifi_mac_send_error e i SUBTYPE_AUTH REASON_MIC_FAILURE s else Some s)
     else case auth_wep e v i (rd16 b 4) s of Some r \<Rightarrow> r | None \<Rightarrow> auth_by_type e v i b s)"

section \<open>Association response, deauthentication and disassociation\<close>

text \<open>A parsed association response: status, comeback time, whether its rate elements are short enough and the rates
  agree, the association id, the quality of service element with its power save bit.\<close>

record assoc_rsp =
  rsp_status :: int
  rsp_timeout :: "u8 list option"
  rsp_elems_ok :: bool
  rsp_rates_ok :: bool
  rsp_aid :: u16
  rsp_wme :: "bool option"

definition NODE_QOS :: u16 where "NODE_QOS = 2"
definition NODE_UAPSD :: u16 where "NODE_UAPSD = 0x40"

definition assoc_flags :: "bool option \<Rightarrow> u16 \<Rightarrow> u16" where
  "assoc_flags wme f =
    (case wme of None \<Rightarrow> f AND NOT NODE_QOS AND NOT NODE_UAPSD
     | Some u \<Rightarrow> (if u then f OR NODE_UAPSD else f AND NOT NODE_UAPSD) OR NODE_QOS)"

definition assoc_done :: "sm_env \<Rightarrow> nat \<Rightarrow> nat \<Rightarrow> sm_mac \<Rightarrow> sm_mac option" where
  "assoc_done e v i s =
    (case wifi_mac_top_sm e v S_CONNECTED SUBTYPE_ASSOC_RESP (call ''RegisterStationID'' v (call ''drv_set_bssid'' v s)) of
       None \<Rightarrow> None
     | Some (_, s) \<Rightarrow>
        (let s = set_vif v (\<lambda>x. x\<lparr>vm_phase_flags := vm_phase_flags x AND NOT PHASE_CONNECTING\<rparr>) s in
         if vm_phase_flags (vif s v) AND PHASE_DISCONNECT_DELAY \<noteq> 0 then
           (let s = set_vif v (\<lambda>x. x\<lparr>vm_phase_flags := vm_phase_flags x AND NOT PHASE_DISCONNECT_DELAY\<rparr>) s in
            case vm_mainsta (vif s v) of None \<Rightarrow> None
            | Some m \<Rightarrow> wifi_mac_send_mgmt e m SUBTYPE_DEAUTH REASON_AUTH_LEAVE s)
         else Some (emit [Notify_connect i True, Drv ''wifi_mac_new_assoc'' [int i], Notify_mgmt_rx v] s)))"

definition wifi_mac_recv_assoc_rsp :: "sm_env \<Rightarrow> nat \<Rightarrow> nat \<Rightarrow> assoc_rsp \<Rightarrow> sm_mac \<Rightarrow> sm_mac option" where
  "wifi_mac_recv_assoc_rsp e v i r s =
    (if mode s v \<noteq> M_STA \<or> state s v \<noteq> S_ASSOC then Some (emit [Count ''sts_mng_discard''] s)
     else if rsp_status r \<noteq> 0 then
       wifi_mac_status_code_handle e i SUBTYPE_ASSOC_RESP (rsp_status r) (rsp_timeout r) (emit [Count ''sts_rx_auth_fail''] s)
     else if \<not> rsp_elems_ok r then Some (emit [Count ''sts_rx_elem_too_long''] s)
     else if \<not> rsp_rates_ok r then
       map_option snd (wifi_mac_top_sm e v S_SCAN 0 (emit [Count ''sts_rx_assoc_rate_mismatch''] s))
     else assoc_done e v i (set_sta i (\<lambda>x. x\<lparr>sta_associd := rsp_aid r AND 0x3ff, sta_flags := assoc_flags (rsp_wme r) (sta_flags x)\<rparr>) s))"

definition drop_peer :: "nat \<Rightarrow> nat \<Rightarrow> sm_mac \<Rightarrow> sm_mac" where
  "drop_peer v i s =
    (if vm_mainsta (vif s v) = Some i then s
     else emit [Drv ''wifi_mac_sta_disconnect_from_ap'' [int i], Free_sta i]
            (set_vif v (\<lambda>x. x\<lparr>nt_nsta := filter (\<lambda>j. j \<noteq> i) (nt_nsta x)\<rparr>) s))"

definition wifi_mac_recv_deauth :: "sm_env \<Rightarrow> nat \<Rightarrow> nat \<Rightarrow> u8 list \<Rightarrow> sm_mac \<Rightarrow> sm_mac option" where
  "wifi_mac_recv_deauth e v i b s =
    (if mode s v = M_STA \<and> vm_phase_flags (vif s v) AND PHASE_DISCONNECTING \<noteq> 0 \<or> mode s v = M_HOSTAP \<and> is_disconnecting (stas s i)
     then Some s
     else if state s v = S_SCAN then Some (emit [Count ''sts_mng_discard''] s)
     else if length b < 2 then Some (emit [Count ''sts_rx_elem_too_short''] s)
     else let s = emit [Count ''sts_rx_deauth'', Notify_mgmt_rx v] s in
       case mode s v of
         M_STA \<Rightarrow> if state s v \<noteq> S_INIT then map_option snd (wifi_mac_top_sm e v S_SCAN 0 s) else Some s
       | M_HOSTAP \<Rightarrow> Some (drop_peer v i s)
       | _ \<Rightarrow> Some (emit [Count ''sts_mng_discard''] s))"

definition wifi_mac_recv_disassoc :: "sm_env \<Rightarrow> nat \<Rightarrow> nat \<Rightarrow> u8 list \<Rightarrow> sm_mac \<Rightarrow> sm_mac option" where
  "wifi_mac_recv_disassoc e v i b s =
    (if state s v \<notin> {S_CONNECTED, S_ASSOC, S_AUTH} then Some (emit [Count ''sts_mng_discard''] s)
     else if sta_flags_ext (stas s i) AND STA_NODE_MFP \<noteq> 0 \<and> state s v = S_ASSOC then Some s
     else if length b < 2 then Some (emit [Count ''sts_rx_elem_too_short''] s)
     else let s = emit [Count ''sts_rx_dis_assoc'', Notify_mgmt_rx v] s in
       case mode s v of
         M_STA \<Rightarrow> map_option snd (if state s v = S_CONNECTED then wifi_mac_top_sm e v S_SCAN 0 s else wifi_mac_top_sm e v S_ASSOC 0 s)
       | M_HOSTAP \<Rightarrow> Some (drop_peer v i s)
       | _ \<Rightarrow> Some (emit [Count ''sts_mng_discard''] s))"

end
