(* ===== verification/ConnInv.thy ===== *)
theory ConnInv
  imports ConnRx
begin

text \<open>
  What the connection state machine guarantees.  The frame of a state is the part that only a switch may change: the state
  and mode of every interface, the mask and the number of running ones.  The lemmas on the frame say that no other
  operation touches it; the switch itself is then a function on frames, and the properties of whole runs follow by rule
  induction on the step relation.
\<close>

section \<open>The frame\<close>

named_theorems sm_frame \<open>the frame after an operation\<close>

definition frame :: "sm_mac \<Rightarrow> (nat \<Rightarrow> wifi_mac_state) \<times> (nat \<Rightarrow> wifi_mac_opmode) \<times> u32 \<times> u8" where
  "frame s = ((\<lambda>v. state s v), (\<lambda>v. mode s v), wm_runningmask s, wm_nrunning s)"

definition has_main :: "sm_mac \<Rightarrow> nat \<Rightarrow> bool" where
  "has_main s v = (vm_mainsta (vif s v) \<noteq> None)"

lemma frame_eqD:
  assumes "frame s' = frame s"
  shows "state s' v = state s v" "mode s' v = mode s v" "wm_runningmask s' = wm_runningmask s" "wm_nrunning s' = wm_nrunning s"
  using assms by (auto simp: frame_def dest: fun_cong)

lemma frame_set_vif [sm_frame]:
  assumes "\<And>x. vm_state (f x) = vm_state x" "\<And>x. vm_opmode (f x) = vm_opmode x"
  shows "frame (set_vif v f s) = frame s"
  using assms by (auto simp: frame_def set_vif_def fun_eq_iff)

lemma frame_set_sta [sm_frame]: "frame (set_sta i f s) = frame s" by (simp add: frame_def set_sta_def)
lemma frame_emit [sm_frame]: "frame (emit evs s) = frame s" by (simp add: frame_def emit_def)
lemma frame_add_task [sm_frame]: "frame (add_task ts s) = frame s" by (simp add: frame_def add_task_def)
lemma frame_call [sm_frame]: "frame (call f v s) = frame s" by (simp add: call_def sm_frame)

lemma frame_fields [sm_frame]:
  "frame (s\<lparr>wm_syncbeacon := a\<rparr>) = frame s" "frame (s\<lparr>recovery_stat := a\<rparr>) = frame s"
  "frame (s\<lparr>wm_nopened := b\<rparr>) = frame s" "frame (s\<lparr>wm_dev_flags := c\<rparr>) = frame s"
  "frame (s\<lparr>wm_vsdb_slot := b\<rparr>) = frame s" "frame (s\<lparr>wm_vsdb_flags := d\<rparr>) = frame s"
  "frame (s\<lparr>vsdb_mode_set_noa_enable := b\<rparr>) = frame s" "frame (s\<lparr>work := w\<rparr>) = frame s"
  by (simp_all add: frame_def)

lemma mains_set_vif:
  assumes "\<And>x. vm_mainsta x \<noteq> None \<Longrightarrow> vm_mainsta (f x) \<noteq> None" "has_main s w"
  shows "has_main (set_vif v f s) w"
  using assms by (auto simp: has_main_def set_vif_def)

lemma frame_start_mgtsend [sm_frame]: "frame (start_mgtsend v p s) = frame s" by (simp add: start_mgtsend_def sm_frame)
lemma frame_cancel_mgtsend [sm_frame]: "frame (cancel_mgtsend v s) = frame s" by (simp add: cancel_mgtsend_def sm_frame)

lemma frame_send_auth [sm_frame]: "wifi_mac_send_auth e v i arg s = Some s' \<Longrightarrow> frame s' = frame s"
  by (auto simp: wifi_mac_send_auth_def Let_def sm_frame split: option.splits if_splits)

lemma frame_send_other [sm_frame]:
  "frame (wifi_mac_send_deauth e i arg s) = frame s" "frame (wifi_mac_send_disassoc e i arg s) = frame s"
  "frame (wifi_mac_send_assoc_req e v i arg s) = frame s"
  by (simp_all add: wifi_mac_send_deauth_def wifi_mac_send_disassoc_def wifi_mac_send_assoc_req_def sm_frame)

lemma frame_send_mgmt: "wifi_mac_send_mgmt e i t arg s = Some s' \<Longrightarrow> frame s' = frame s"
  by (auto simp: wifi_mac_send_mgmt_def Let_def sm_frame split: if_splits)

lemma frame_sta_auth [sm_frame]: "frame (wifi_mac_sta_auth i s) = frame s" by (simp add: wifi_mac_sta_auth_def sm_frame)
lemma frame_add_node [sm_frame]: "frame (add_node v n s) = frame s" by (simp add: add_node_def sm_frame)

lemma frame_check_main: "wifi_mac_check_main_sta e v s = (b, s') \<Longrightarrow> frame s' = frame s"
  by (auto simp: wifi_mac_check_main_sta_def sm_frame split: option.splits)

lemma frame_table_rst [sm_frame]: "frame (wifi_mac_sta_table_rst v s) = frame s"
  by (simp add: wifi_mac_sta_table_rst_def Let_def sm_frame)

lemma frame_rst_bss: "wifi_mac_rst_bss e v s = Some s' \<Longrightarrow> frame s' = frame s"
  by (auto simp: wifi_mac_rst_bss_def sm_frame dest!: frame_check_main split: prod.splits bool.splits)

lemma frame_rst_main [sm_frame]: "frame (wifi_mac_rst_main_sta v s) = frame s"
  by (simp add: wifi_mac_rst_main_sta_def sm_frame split: option.splits)

lemma frame_notify_disc [sm_frame]: "frame (wifi_mac_notify_nsta_disconnect i r s) = frame s"
  by (simp add: wifi_mac_notify_nsta_disconnect_def Let_def sm_frame)

lemma frame_leave_sta: "leave_sta e i r s = Some s' \<Longrightarrow> frame s' = frame s"
  by (auto simp: leave_sta_def Let_def sm_frame dest!: frame_rst_bss split: option.splits if_splits)

lemma frame_sta_leave: "wifi_mac_sta_leave e i r s = Some s' \<Longrightarrow> frame s' = frame s"
  by (auto simp: wifi_mac_sta_leave_def Let_def sm_frame dest!: frame_leave_sta split: option.splits if_splits)

lemma frame_disassoc_in_task [sm_frame]: "frame (wifi_mac_sta_disassoc_in_task v s) = frame s"
  by (simp add: wifi_mac_sta_disassoc_in_task_def Let_def sm_frame)

lemma frame_func_to_task [sm_frame]: "frame (func_to_task_deauth v s) = frame s" by (simp add: func_to_task_deauth_def sm_frame)
lemma frame_start_bss [sm_frame]: "frame (wifi_mac_start_bss i s) = frame s" by (simp add: wifi_mac_start_bss_def Let_def sm_frame)

lemma frame_create_wifi: "wifi_mac_create_wifi e v c s = Some s' \<Longrightarrow> frame s' = frame s"
  by (auto simp: wifi_mac_create_wifi_def Let_def sm_frame split: option.splits if_splits)

lemma frame_conn_ev [sm_frame]: "frame (wifi_mac_connect_start s) = frame s" "frame (wifi_mac_connect_end s) = frame s"
  by (simp_all add: wifi_mac_connect_start_def wifi_mac_connect_end_def sm_frame)

lemmas frame_dests = frame_send_mgmt frame_rst_bss frame_sta_leave frame_create_wifi

lemma frame_small [sm_frame]:
  "frame (chk_scan v f s) = frame s" "frame (trigger_sae i s) = frame s" "frame (reset_retry v a b s) = frame s"
  "frame (to_scan_task v s) = frame s" "frame (vsdb_task v s) = frame s"
  by (simp_all add: chk_scan_def trigger_sae_def reset_retry_def to_scan_task_def vsdb_task_def sm_frame)

section \<open>One switch\<close>

lemma frame_sm_init: "sm_init e v pre i s = Some s' \<Longrightarrow> frame s' = frame s"
  by (cases pre) (auto simp: sm_init_def sm_frame dest!: frame_dests split: wifi_mac_opmode.splits option.splits)

lemma frame_sm_assoc: "sm_assoc e v pre arg i s = Some s' \<Longrightarrow> frame s' = frame s"
  by (cases pre) (auto simp: sm_assoc_def Let_def sm_frame dest!: frame_dests split: option.splits if_splits)

lemma frame_sm_connected: "sm_connected e v pre arg i s = Some s' \<Longrightarrow> frame s' = frame s"
  by (auto simp: sm_connected_def Let_def sm_frame dest!: frame_dests split: option.splits if_splits)

definition ap_startable :: "sm_vif \<Rightarrow> bool" where
  "ap_startable x = (case vm_curchan x of Some c \<Rightarrow> chan_is_5g c \<or> vm_bandwidth x = WIDTH20 | None \<Rightarrow> False)"

text \<open>The two switches that end in the state they began in.\<close>

definition sm_restores :: "sm_vif \<Rightarrow> wifi_mac_state \<Rightarrow> int \<Rightarrow> bool" where
  "sm_restores x nstate arg =
    (vm_opmode x = M_HOSTAP \<and> nstate = S_SCAN \<and> (vm_state x = S_INIT \<or> vm_state x = S_CONNECTED)
       \<and> \<not> ap_startable x \<and> vm_des_nssid x = 0
     \<or> nstate = S_AUTH \<and> vm_state x = S_CONNECTED \<and> arg = SUBTYPE_AUTH)"

definition put_state :: "nat \<Rightarrow> wifi_mac_state \<Rightarrow> sm_mac \<Rightarrow> sm_mac" where
  "put_state v st s = set_vif v (\<lambda>x. x\<lparr>vm_state := st\<rparr>) s"

lemma frame_sm_auth:
  assumes "sm_auth e v pre arg i s = Some s'"
  shows "frame s' = frame (if pre = S_CONNECTED \<and> arg = SUBTYPE_AUTH then put_state v pre s else s)"
proof -
  have p: "frame (set_vif v (\<lambda>x. x\<lparr>vm_state := st\<rparr>) a) = frame (put_state v st b)" if "frame a = frame b" for st a b
    using that by (auto simp: frame_def put_state_def set_vif_def fun_eq_iff)
  show ?thesis
    using assms by (cases pre) (auto simp: sm_auth_def Let_def sm_frame p dest!: frame_dests split: option.splits if_splits)
qed

lemma frame_createibss:
  assumes "sm_createibss e v pre s = Some s'"
  shows "frame s' = frame (if mode s v = M_HOSTAP \<and> \<not> ap_startable (vif s v) \<and> vm_des_nssid (vif s v) = 0
                           then put_state v pre s else s)"
  using assms
  by (auto simp: sm_createibss_def ap_startable_def sm_frame put_state_def dest!: frame_dests split: option.splits if_splits)

lemma disassoc_in_task_vif:
  "vm_opmode (vif (wifi_mac_sta_disassoc_in_task v s) v) = vm_opmode (vif s v)"
  "vm_curchan (vif (wifi_mac_sta_disassoc_in_task v s) v) = vm_curchan (vif s v)"
  "vm_bandwidth (vif (wifi_mac_sta_disassoc_in_task v s) v) = vm_bandwidth (vif s v)"
  "vm_des_nssid (vif (wifi_mac_sta_disassoc_in_task v s) v) = vm_des_nssid (vif s v)"
  by (simp_all add: wifi_mac_sta_disassoc_in_task_def Let_def set_vif_def add_task_def)

lemma frame_put_state: "frame a = frame b \<Longrightarrow> frame (put_state v st a) = frame (put_state v st b)"
  by (auto simp: frame_def put_state_def set_vif_def fun_eq_iff)

text \<open>A scan of an access point from the initial or the connected state.\<close>

lemma frame_ap_start:
  assumes "sm_createibss e v pre s1 = Some s'" and f: "frame s1 = frame s"
    and "vm_opmode (vif s1 v) = vm_opmode (vif s v)" "vm_curchan (vif s1 v) = vm_curchan (vif s v)"
      "vm_bandwidth (vif s1 v) = vm_bandwidth (vif s v)" "vm_des_nssid (vif s1 v) = vm_des_nssid (vif s v)"
  shows "frame s' = frame (if mode s v = M_HOSTAP \<and> \<not> ap_startable (vif s v) \<and> vm_des_nssid (vif s v) = 0
                           then put_state v pre s else s)"
proof -
  have "ap_startable (vif s1 v) = ap_startable (vif s v)" by (simp add: ap_startable_def assms(4,5) split: option.split)
  with frame_createibss [OF assms(1)] frame_put_state [OF f] f assms(3,6) show ?thesis by simp
qed

lemma frame_sm_scan:
  assumes "sm_scan e v pre arg i s = Some s'"
  shows "frame s' = frame (if mode s v = M_HOSTAP \<and> pre \<in> {S_INIT, S_CONNECTED} \<and> \<not> ap_startable (vif s v) \<and> vm_des_nssid (vif s v) = 0
                           then put_state v pre s else s)"
proof -
  define s0 where "s0 = (if mode s v \<in> {M_STA, M_P2P_CLIENT, M_P2P_DEV, M_IBSS}
    then set_vif v (\<lambda>x. x\<lparr>vm_bcn_intval := INTER_BEACON_INTERVAL\<rparr>) s else s)"
  have f0: "frame s0 = frame s" by (simp add: s0_def sm_frame)
  have st0: "vm_opmode (vif s0 v) = vm_opmode (vif s v)" "vm_curchan (vif s0 v) = vm_curchan (vif s v)"
      "vm_bandwidth (vif s0 v) = vm_bandwidth (vif s v)" "vm_des_nssid (vif s0 v) = vm_des_nssid (vif s v)"
    by (simp_all add: s0_def set_vif_def)
  define R where "R = (case pre of
                S_INIT \<Rightarrow> sm_createibss e v pre s0
              | S_CONNECTED \<Rightarrow>
                  if mode s0 v = M_STA then
                    (case wifi_mac_sta_leave e i 0 s0 of None \<Rightarrow> None
                     | Some s \<Rightarrow> Some (set_vif v (\<lambda>x. x\<lparr>vm_flags := vm_flags x AND NOT F_SIBSS\<rparr>) s))
                  else if mode s0 v = M_IBSS then Some (chk_scan v SCANCFG_ACTIVE s0)
                  else sm_createibss e v pre (wifi_mac_sta_disassoc_in_task v s0)
              | S_MAX \<Rightarrow> Some s0
              | _ \<Rightarrow> Some (chk_scan v (or (or SCANCFG_ACTIVE SCANCFG_FLUSH) arg) s0))"
  from assms obtain s1 where s1: "R = Some s1" "frame s' = frame s1"
    unfolding sm_scan_def Let_def s0_def [symmetric] R_def [symmetric]
    by (auto simp: sm_frame split: option.splits if_splits)
  have "frame s1 = frame (if mode s v = M_HOSTAP \<and> pre \<in> {S_INIT, S_CONNECTED} \<and> \<not> ap_startable (vif s v) \<and> vm_des_nssid (vif s v) = 0
                           then put_state v pre s else s)"
  proof (cases pre)
    case S_INIT
    with s1(1) have "sm_createibss e v pre s0 = Some s1" by (simp add: R_def)
    from frame_ap_start [OF this f0 st0] show ?thesis using S_INIT by simp
  next
    case S_CONNECTED
    consider "mode s v = M_STA" | "mode s v = M_IBSS" | "mode s v \<noteq> M_STA" "mode s v \<noteq> M_IBSS" by blast
    then show ?thesis
    proof cases
      case 1 with s1(1) S_CONNECTED f0 st0 show ?thesis by (auto simp: R_def sm_frame dest!: frame_sta_leave split: option.splits)
    next
      case 2 with s1(1) S_CONNECTED f0 st0 show ?thesis by (auto simp: R_def sm_frame)
    next
      case 3
      with s1(1) S_CONNECTED st0 have c: "sm_createibss e v pre (wifi_mac_sta_disassoc_in_task v s0) = Some s1" by (simp add: R_def)
      show ?thesis
        using frame_ap_start [OF c, of s] f0 st0 S_CONNECTED by (simp add: sm_frame disassoc_in_task_vif)
    qed
  qed (use s1(1) f0 in \<open>auto simp: R_def sm_frame\<close>)
  with s1(2) show ?thesis by simp
qed

lemma frame_body:
  assumes "sm_body e v pre nstate arg i s = Some s'" "vm_state x = pre" "vm_opmode x = mode s v"
    "vm_curchan x = vm_curchan (vif s v)" "vm_bandwidth x = vm_bandwidth (vif s v)" "vm_des_nssid x = vm_des_nssid (vif s v)"
  shows "frame s' = frame (if sm_restores x nstate arg then put_state v pre s else s)"
proof -
  have "ap_startable x = ap_startable (vif s v)" by (simp add: ap_startable_def assms(4,5) split: option.split)
  with assms show ?thesis
    by (cases nstate) (auto simp: sm_body_def sm_restores_def
        dest!: frame_sm_init frame_sm_assoc frame_sm_connected frame_sm_auth frame_sm_scan)
qed

text \<open>The switch as a function on frames.\<close>

definition next_frame :: "nat \<Rightarrow> wifi_mac_state \<Rightarrow> bool \<Rightarrow>
    (nat \<Rightarrow> wifi_mac_state) \<times> (nat \<Rightarrow> wifi_mac_opmode) \<times> u32 \<times> u8 \<Rightarrow> (nat \<Rightarrow> wifi_mac_state) \<times> (nat \<Rightarrow> wifi_mac_opmode) \<times> u32 \<times> u8" where
  "next_frame v nstate restore fr =
    (case fr of (st, md, m, n) \<Rightarrow>
       let st' = st(v := if restore then st v else nstate) in
       if nstate = S_CONNECTED \<and> st v \<noteq> S_CONNECTED then (st', md, m OR BIT v, n + 1)
       else if st v = S_CONNECTED \<and> nstate \<noteq> S_CONNECTED then (st', md, m AND NOT (BIT v), n - 1)
       else (st', md, m, n))"

lemma vif_enter:
  "vm_opmode (vif (sm_enter v nstate s) w) = vm_opmode (vif s w)" "vm_curchan (vif (sm_enter v nstate s) w) = vm_curchan (vif s w)"
  "vm_bandwidth (vif (sm_enter v nstate s) w) = vm_bandwidth (vif s w)" "vm_des_nssid (vif (sm_enter v nstate s) w) = vm_des_nssid (vif s w)"
  "vm_mainsta (vif (sm_enter v nstate s) w) = vm_mainsta (vif s w)"
  by (simp_all add: sm_enter_def Let_def set_vif_def cancel_mgtsend_def emit_def)

lemma vif_check_main:
  assumes "wifi_mac_check_main_sta e v s = (b, s')"
  shows "vm_opmode (vif s' w) = vm_opmode (vif s w)" "vm_curchan (vif s' w) = vm_curchan (vif s w)"
    "vm_bandwidth (vif s' w) = vm_bandwidth (vif s w)" "vm_des_nssid (vif s' w) = vm_des_nssid (vif s w)"
    "b \<Longrightarrow> has_main s' v" "b = (has_main s v \<or> e_main_node e \<noteq> None)"
  using assms by (auto simp: wifi_mac_check_main_sta_def has_main_def add_node_def set_vif_def set_sta_def split: option.splits)

lemma frame_enter:
  "frame (sm_enter v nstate s) =
    (case frame s of (st, md, m, n) \<Rightarrow>
       if st v = S_CONNECTED \<and> nstate \<noteq> S_CONNECTED then (st(v := nstate), md, m AND NOT (BIT v), n - 1)
       else (st(v := nstate), md, m, n))"
  by (auto simp: sm_enter_def Let_def frame_def set_vif_def cancel_mgtsend_def emit_def fun_eq_iff)

lemma frame_leave_tail:
  "frame (sm_leave_tail e v pre nstate s) =
    (case frame s of (st, md, m, n) \<Rightarrow>
       if nstate = S_CONNECTED \<and> pre \<noteq> S_CONNECTED then (st, md, m OR BIT v, n + 1) else (st, md, m, n))"
proof -
  have f: "frame (s\<lparr>wm_runningmask := a, wm_nrunning := b\<rparr>) = (case frame s of (st, md, m, n) \<Rightarrow> (st, md, a, b))" for a b
    by (simp add: frame_def)
  have t: "frame (s\<lparr>wm_vsdb_slot := a, wm_vsdb_flags := b, vsdb_mode_set_noa_enable := c\<rparr>) = frame s" for a b c and s :: sm_mac
    by (simp add: frame_def)
  show ?thesis by (simp add: sm_leave_tail_def Let_def sm_frame f t split: prod.split) (simp add: frame_def)
qed

theorem sub_sm_frame:
  assumes "wifi_mac_sub_sm e v nstate arg s = Some (rc, s')" "has_main s v \<or> e_main_node e \<noteq> None"
  shows "frame s' = next_frame v nstate (sm_restores (vif s v) nstate arg) (frame s)"
proof -
  obtain b s1 where c: "wifi_mac_check_main_sta e v (sm_enter v nstate s) = (b, s1)" by fastforce
  note vc = vif_check_main [OF c]
  from assms(2) vc(6) have b: "b = True" by (auto simp: has_main_def vif_enter)
  with assms(1) c obtain i s2 where i: "sm_body e v (state s v) nstate arg i s1 = Some s2" "s' = sm_leave_tail e v (state s v) nstate s2"
    by (auto simp: wifi_mac_sub_sm_def Let_def split: option.splits)
  have f2: "frame s2 = frame (if sm_restores (vif s v) nstate arg then put_state v (state s v) s1 else s1)"
    by (rule frame_body [OF i(1)]) (simp_all add: vc(1-4) vif_enter)
  have p: "frame (put_state v st s1) = (case frame s1 of (a, b, m, n) \<Rightarrow> (a(v := st), b, m, n))" for st
    by (auto simp: frame_def put_state_def set_vif_def fun_eq_iff)
  have f1: "frame s1 = frame (sm_enter v nstate s)" by (rule frame_check_main [OF c])
  have st: "fst (frame s) v = state s v" by (simp add: frame_def)
  show ?thesis
    unfolding i(2) frame_leave_tail f2 next_frame_def
    using f1 st by (auto simp: p frame_enter Let_def split: prod.splits if_splits)
qed

text \<open>The same for wifi_mac_top_sm, which refuses to connect an interface that is neither a station nor ad-hoc.\<close>

lemma wnet_vifs_simps [simp]:
  "wnet_vifs (emit evs s) = wnet_vifs s" "wnet_vifs (add_task ts s) = wnet_vifs s" "wnet_vifs (call f v s) = wnet_vifs s"
  "wnet_vifs (set_sta i g s) = wnet_vifs s"
  by (simp_all add: emit_def add_task_def call_def set_sta_def)

lemma frame_conn_tail [sm_frame]: "frame (sm_conn_tail v pre nstate s) = frame s"
  by (simp add: sm_conn_tail_def Let_def sm_frame)

theorem top_sm_frame:
  assumes "wifi_mac_top_sm e v nstate arg s = Some (rc, s')" "has_main s v \<or> e_main_node e \<noteq> None"
  shows "frame s' = (if nstate = S_CONNECTING \<and> mode s v \<noteq> M_STA \<and> mode s v \<noteq> M_IBSS then frame s
                     else next_frame v nstate (sm_restores (vif s v) nstate arg) (frame s))"
proof (cases "nstate = S_CONNECTING \<and> mode s v \<noteq> M_STA \<and> mode s v \<noteq> M_IBSS")
  case True
  with assms(1) show ?thesis by (auto simp: wifi_mac_top_sm_def sm_frame)
next
  case False
  define s0 where "s0 = (if nstate = S_CONNECTED \<and> mode s v = M_HOSTAP
    then add_task [Task_other ''wifi_mac_beacon_alloc_ex'' [int v, wnet_vif_replaycounter (vif s v)]] (s\<lparr>wm_syncbeacon := 0\<rparr>) else s)"
  have v0: "vif s0 w = vif s w" for w by (simp add: s0_def)
  have f0: "frame s0 = frame s" by (simp add: s0_def sm_frame)
  from assms(1) False obtain rc' s1 where s1: "wifi_mac_sub_sm e v nstate arg s0 = Some (rc', s1)" "frame s' = frame s1"
    unfolding wifi_mac_top_sm_def Let_def s0_def [symmetric] by (auto simp: sm_frame split: option.splits if_splits)
  from assms(2) have "has_main s0 v \<or> e_main_node e \<noteq> None" by (simp add: has_main_def v0)
  from sub_sm_frame [OF s1(1) this] s1(2) False f0 v0 show ?thesis by auto
qed

lemma state_frame: "state s v = fst (frame s) v" and mode_frame: "mode s v = fst (snd (frame s)) v"
  by (simp_all add: frame_def)

lemma top_sm_state:
  assumes "wifi_mac_top_sm e v nstate arg s = Some (rc, s')" "has_main s v \<or> e_main_node e \<noteq> None"
  shows "state s' w = (if w = v \<and> \<not> sm_restores (vif s v) nstate arg \<and> \<not> (nstate = S_CONNECTING \<and> mode s v \<noteq> M_STA \<and> mode s v \<noteq> M_IBSS)
                       then nstate else state s w)"
    and "mode s' w = mode s w"
proof -
  note f = top_sm_frame [OF assms]
  have st: "fst (frame s) = (\<lambda>v. state s v)" by (simp add: frame_def)
  show "state s' w = (if w = v \<and> \<not> sm_restores (vif s v) nstate arg \<and> \<not> (nstate = S_CONNECTING \<and> mode s v \<noteq> M_STA \<and> mode s v \<noteq> M_IBSS)
                       then nstate else state s w)"
    unfolding state_frame [of s'] f using st by (auto simp: next_frame_def Let_def split: prod.splits)
  show "mode s' w = mode s w"
    unfolding mode_frame [of s'] f by (simp add: next_frame_def Let_def mode_frame split: prod.splits)
qed

section \<open>The running interfaces\<close>

definition running_set :: "sm_mac \<Rightarrow> nat set" where
  "running_set s = {v. v < 32 \<and> state s v = S_CONNECTED}"

text \<open>The mask holds the connected interfaces, and the number is how many they are.\<close>

definition run_ok :: "sm_mac \<Rightarrow> bool" where
  "run_ok s = ((\<forall>v < 32. bit (wm_runningmask s) v = (state s v = S_CONNECTED)) \<and> unat (wm_nrunning s) = card (running_set s))"

lemma finite_running [simp]: "finite (running_set s)" by (simp add: running_set_def)

lemma card_running: "card (running_set s) \<le> 32"
proof -
  have "running_set s \<subseteq> {v. v < 32}" unfolding running_set_def by blast
  from card_mono [OF finite_Collect_less_nat this] show ?thesis unfolding card_Collect_less_nat .
qed

lemma run_ok_frame:
  assumes "frame s' = frame s"
  shows "run_ok s' = run_ok s"
  by (simp only: run_ok_def running_set_def frame_eqD [OF assms])

lemma bit_BIT: "bit (BIT v) w = (w = v \<and> v < 32)"
proof (cases "w < 32")
  case True
  then show ?thesis by (auto simp: BIT_def bit_exp_iff)
next
  case False
  then show ?thesis by (auto dest: bit_imp_le_length)
qed

lemma bit_mask_set: "bit (m OR BIT v) w = (bit m w \<or> w = v \<and> v < 32)"
  by (auto simp: bit_or_iff bit_BIT)

lemma bit_mask_clear: "bit (m AND NOT (BIT v)) w = (bit m w \<and> w \<noteq> v)"
  by (auto simp: bit_and_iff bit_not_iff bit_BIT dest: bit_imp_le_length)

text \<open>A switch keeps this, unless it comes back to the connected state.\<close>

lemma run_ok_switch:
  assumes ok: "run_ok s" and v: "v < 32" and f: "frame s' = next_frame v nstate r (frame s)"
    and r: "\<not> (r \<and> state s v = S_CONNECTED)"
    and r2: "r \<Longrightarrow> nstate \<noteq> S_CONNECTED"
  shows "run_ok s'"
proof -
  have fs: "frame s = ((\<lambda>v. state s v), (\<lambda>v. mode s v), wm_runningmask s, wm_nrunning s)" by (simp add: frame_def)
  define st' where "st' = (\<lambda>w. if w = v \<and> \<not> r then nstate else state s w)"
  have st: "state s' w = st' w" for w
    unfolding state_frame f st'_def by (simp add: fs next_frame_def Let_def)
  consider (up) "nstate = S_CONNECTED" "state s v \<noteq> S_CONNECTED" | (down) "nstate \<noteq> S_CONNECTED" "state s v = S_CONNECTED"
    | (same) "(nstate = S_CONNECTED) = (state s v = S_CONNECTED)" by blast
  then show ?thesis
  proof cases
    case up
    with r2 have nr: "\<not> r" by blast
    have m: "wm_runningmask s' = wm_runningmask s OR BIT v" "wm_nrunning s' = wm_nrunning s + 1"
      using f up by (simp_all add: fs next_frame_def Let_def frame_def)
    have rs: "running_set s' = insert v (running_set s)" using up v nr by (auto simp: running_set_def st st'_def)
    have "v \<notin> running_set s" using up by (simp add: running_set_def)
    then have c: "card (running_set s') = card (running_set s) + 1" by (simp add: rs)
    with card_running [of s'] ok have "unat (wm_nrunning s + 1) = unat (wm_nrunning s) + 1"
      by (subst unat_add_lem [THEN iffD1]) (auto simp: run_ok_def)
    with ok c m show ?thesis using up v nr by (auto simp: run_ok_def bit_mask_set st st'_def)
  next
    case down
    with r have nr: "\<not> r" by blast
    have m: "wm_runningmask s' = wm_runningmask s AND NOT (BIT v)" "wm_nrunning s' = wm_nrunning s - 1"
      using f down by (simp_all add: fs next_frame_def Let_def frame_def)
    have vin: "v \<in> running_set s" using down v by (simp add: running_set_def)
    have rs: "running_set s' = running_set s - {v}" using down v nr by (auto simp: running_set_def st st'_def)
    from vin have c: "card (running_set s') = card (running_set s) - 1" "0 < card (running_set s)"
      by (auto simp: rs card_gt_0_iff)
    have "unat (wm_nrunning s - 1) = unat (wm_nrunning s) - 1"
      using ok c(2) by (subst unat_minus_one) (auto simp: run_ok_def)
    with ok c m show ?thesis using down v nr by (auto simp: run_ok_def bit_mask_clear st st'_def)
  next
    case same
    have m: "wm_runningmask s' = wm_runningmask s" "wm_nrunning s' = wm_nrunning s"
      using f same by (auto simp: fs next_frame_def Let_def frame_def split: if_splits)
    have rs: "running_set s' = running_set s" using same by (auto simp: running_set_def st st'_def)
    show ?thesis using ok m rs same by (auto simp: run_ok_def st st'_def)
  qed
qed

lemma restores_not_connected: "\<not> sm_restores x S_CONNECTED arg" by (simp add: sm_restores_def)

definition sm_drops :: "sm_vif \<Rightarrow> wifi_mac_state \<Rightarrow> int \<Rightarrow> bool" where
  "sm_drops x nstate arg = (vm_state x = S_CONNECTED \<and> sm_restores x nstate arg)"

lemma top_sm_run_ok:
  assumes "wifi_mac_top_sm e v nstate arg s = Some (rc, s')" "e_main_node e \<noteq> None" "run_ok s" "v < 32"
    "\<not> sm_drops (vif s v) nstate arg"
  shows "run_ok s'"
proof -
  from assms(2) have hm: "has_main s v \<or> e_main_node e \<noteq> None" by simp
  note f = top_sm_frame [OF assms(1) hm]
  show ?thesis
  proof (cases "nstate = S_CONNECTING \<and> mode s v \<noteq> M_STA \<and> mode s v \<noteq> M_IBSS")
    case True
    from f [unfolded if_P [OF True]] have "frame s' = frame s" .
    from run_ok_frame [OF this] assms(3) show ?thesis by simp
  next
    case False
    from f [unfolded if_not_P [OF False]]
    have "frame s' = next_frame v nstate (sm_restores (vif s v) nstate arg) (frame s)" .
    moreover have "\<not> (sm_restores (vif s v) nstate arg \<and> state s v = S_CONNECTED)" using assms(5) by (auto simp: sm_drops_def)
    moreover have "sm_restores (vif s v) nstate arg \<Longrightarrow> nstate \<noteq> S_CONNECTED" using restores_not_connected by blast
    ultimately show ?thesis by (rule run_ok_switch [OF assms(3,4)])
  qed
qed

end
