(* ===== verification/ConnStep.thy ===== *)
theory ConnStep
  imports ConnInv
begin

text \<open>
  Runs of the connection state machine: a labelled step is a task from the queue, a frame, opening or stopping an
  interface, starting a connection, or anything else that leaves the frame alone.  Every step is at most one switch, and
  which switches a label can make is a small table; invariants and histories follow from it.
\<close>

section \<open>Labels and the switches they can make\<close>

datatype sm_label =
    L_env
  | L_task sm_task
  | L_auth nat nat macaddr "u8 list"
  | L_assoc_rsp nat nat assoc_rsp
  | L_deauth nat nat "u8 list"
  | L_disassoc nat nat "u8 list"
  | L_initial nat int bool
  | L_stop nat bool
  | L_connect nat sm_bss
  | L_external_auth nat bool "nat option"
  | L_upper nat wifi_mac_state int
  | L_reset nat

definition accepted :: "sm_label \<Rightarrow> nat \<Rightarrow> bool" where
  "accepted l v = (\<exists>i r. l = L_assoc_rsp v i r \<and> rsp_status r = 0 \<and> rsp_elems_ok r \<and> rsp_rates_ok r)"

text \<open>The label is an answer to the interface: a frame of authentication or an association response.\<close>

definition answered :: "sm_label \<Rightarrow> nat \<Rightarrow> bool" where
  "answered l v = ((\<exists>i addr b. l = L_auth v i addr b) \<or> (\<exists>i r. l = L_assoc_rsp v i r))"

fun sm_call :: "sm_label \<Rightarrow> nat \<Rightarrow> wifi_mac_opmode \<Rightarrow> wifi_mac_state \<Rightarrow> wifi_mac_state \<Rightarrow> int \<Rightarrow> bool" where
  "sm_call l v md st S_INIT arg = ((\<exists>b. l = L_stop v b) \<or> (\<exists>a. l = L_upper v S_INIT a) \<or> l = L_reset v)"
| "sm_call l v md st S_SCAN arg = (arg = 0)"
| "sm_call l v md st S_AUTH arg = (md = M_STA \<and> (arg = SUBTYPE_DEAUTH \<and> (st = S_SCAN \<or> st = S_AUTH)
     \<or> arg = STATUS_INVALID_PMKID \<and> answered l v))"
| "sm_call l v md st S_ASSOC arg =
     (md = M_STA \<and> (st = S_AUTH \<or> st = S_ASSOC \<or> st = S_CONNECTED \<or> (\<exists>ok j. l = L_external_auth v ok j)))"
| "sm_call l v md st S_CONNECTED arg = (md \<noteq> M_STA \<or> st = S_ASSOC \<and> accepted l v)"
| "sm_call l v md st S_CONNECTING arg = False"
| "sm_call l v md st S_MAX arg = False"

text \<open>The states of all interfaces and the account of the running ones are the same; only modes may differ.\<close>

definition run_same :: "sm_mac \<Rightarrow> sm_mac \<Rightarrow> bool" where
  "run_same s s' = ((\<forall>u. state s' u = state s u) \<and> wm_runningmask s' = wm_runningmask s \<and> wm_nrunning s' = wm_nrunning s)"

text \<open>With \<open>q\<close>, the account of the running interfaces follows the switch.\<close>

definition switched :: "bool \<Rightarrow> sm_label \<Rightarrow> sm_mac \<Rightarrow> sm_mac \<Rightarrow> bool" where
  "switched q l s s' = (run_same s s' \<or> (\<exists>v nstate arg. v < 32 \<and> sm_call l v (mode s v) (state s v) nstate arg
     \<and> ((\<exists>r. (r \<longrightarrow> nstate = S_SCAN \<and> mode s v = M_HOSTAP \<and> (q \<longrightarrow> state s v = S_INIT)) \<and> frame s' = next_frame v nstate r (frame s))
        \<or> \<not> q \<and> (\<forall>u. state s' u = (if u = v then nstate else state s u)))))"

lemma switched_same: "frame s' = frame s \<Longrightarrow> switched q l s s'"
  by (simp add: switched_def run_same_def frame_eqD [of s' s])

lemma switched_frame:
  assumes "switched q l s0 s1" "frame s0 = frame s" "frame s' = frame s1"
  shows "switched q l s s'"
  using assms(1) unfolding switched_def run_same_def assms(2,3) frame_eqD [OF assms(2)] frame_eqD [OF assms(3)] .

lemma top_sm_AUTH_STA:
  assumes "wifi_mac_top_sm e v nstate arg s = Some (rc, s')" "nstate = S_AUTH \<or> nstate = S_ASSOC" "e_main_node e \<noteq> None"
  shows "mode s v = M_STA"
proof -
  obtain b s1 where c: "wifi_mac_check_main_sta e v (sm_enter v nstate s) = (b, s1)" by fastforce
  note vc = vif_check_main [OF c]
  from vc(6) assms(3) have "b" by simp
  with assms c vc(1) [of v] show ?thesis
    by (auto simp: wifi_mac_top_sm_def wifi_mac_sub_sm_def sm_body_def sm_auth_def sm_assoc_def Let_def vif_enter split: option.splits if_splits)
qed

definition named :: "sm_vif \<Rightarrow> bool" where
  "named x = (vm_opmode x = M_HOSTAP \<and> vm_state x = S_CONNECTED \<longrightarrow> ap_startable x \<or> vm_des_nssid x \<noteq> 0)"

lemma top_sm_switched:
  assumes t: "wifi_mac_top_sm e v nstate arg s0 = Some (rc, s1)" and e: "e_main_node e \<noteq> None" and f: "frame s0 = frame s"
    and v: "v < 32" and c: "sm_call l v (mode s v) (state s v) nstate arg"
    and n: "q \<Longrightarrow> nstate = S_SCAN \<Longrightarrow> named (vif s0 v)"
  shows "switched q l s s1"
proof -
  let ?r = "sm_restores (vif s0 v) nstate arg"
  from e have hm: "has_main s0 v \<or> e_main_node e \<noteq> None" by simp
  have ms: "mode s0 v = mode s v" "state s0 v = state s v" using frame_eqD [OF f] by auto
  have nc: "nstate \<noteq> S_CONNECTING" using c by (cases nstate) auto
  then have "frame s1 = next_frame v nstate ?r (frame s0)" using top_sm_frame [OF t hm] by simp
  moreover have "?r \<longrightarrow> nstate = S_SCAN \<and> mode s v = M_HOSTAP \<and> (q \<longrightarrow> state s v = S_INIT)"
    using n ms c by (auto simp: sm_restores_def named_def SUBTYPE_AUTH_def SUBTYPE_DEAUTH_def STATUS_INVALID_PMKID_def)
  ultimately show ?thesis
    unfolding switched_def using v c f
    by (intro disjI2 exI [of _ v] exI [of _ nstate] exI [of _ arg] conjI disjI1 exI [of _ ?r]) simp_all
qed

lemma named_simps: "vm_opmode x \<noteq> M_HOSTAP \<Longrightarrow> named x" "vm_state x \<noteq> S_CONNECTED \<Longrightarrow> named x"
  by (simp_all add: named_def)

lemma top_sm_map:
  assumes "map_option snd (wifi_mac_top_sm e v nstate arg s0) = Some s1" "e_main_node e \<noteq> None" "frame s0 = frame s" "v < 32"
    "sm_call l v (mode s0 v) (state s0 v) nstate arg" "q \<Longrightarrow> nstate = S_SCAN \<Longrightarrow> named (vif s0 v)"
  shows "switched q l s s1"
proof -
  from assms(1) obtain rc where t: "wifi_mac_top_sm e v nstate arg s0 = Some (rc, s1)" by auto
  show ?thesis
    by (rule top_sm_switched [OF t assms(2,3,4) _ assms(6)]) (use assms(5) frame_eqD [OF assms(3)] in simp_all)
qed

lemma mode_state_simps [simp]:
  assumes "\<And>x. vm_state (f x) = vm_state x" "\<And>x. vm_opmode (f x) = vm_opmode x"
  shows "mode (set_vif v f s) w = mode s w" "state (set_vif v f s) w = state s w"
  using assms by (simp_all add: set_vif_def)

lemma stas_simps [simp]:
  "stas (emit evs s) = stas s" "stas (add_task ts s) = stas s" "stas (call f v s) = stas s" "stas (set_vif v g s) = stas s"
  by (simp_all add: emit_def add_task_def call_def set_vif_def)

section \<open>Every handler makes at most one switch\<close>

lemma switched_sm_switch:
  assumes "wifi_mac_sm_switch e v S_SCAN s = Some s'" "e_main_node e \<noteq> None" "v < 32" "q \<Longrightarrow> named (vif s v)"
  shows "switched q l s s'"
  using assms by (auto simp: wifi_mac_sm_switch_def intro!: top_sm_map [of e v S_SCAN 0 s])

lemma switched_tx_timeout:
  assumes t: "wifi_mac_tx_timeout_ex e v s = Some s'" and e: "e_main_node e \<noteq> None" and v: "v < 32"
  shows "switched q l s s'"
proof -
  define s0 where "s0 = set_vif v (\<lambda>x. x\<lparr>mgmt_pkt_retry_count := mgmt_pkt_retry_count x + 1\<rparr>) s"
  define s1 where "s1 = set_vif v (\<lambda>x. x\<lparr>mgmt_pkt_retry_count := 0\<rparr>) s0"
  have f: "frame s0 = frame s" "frame s1 = frame s" by (simp_all add: s0_def s1_def sm_frame)
  have st: "state s0 w = state s w" "mode s0 w = mode s w" "state s1 w = state s w" for w by (simp_all add: s0_def s1_def)
  have re: "frame (rearm_mgtsend v a) = frame a" for a by (simp add: rearm_mgtsend_def sm_frame)
  have retry: "switched q l s (rearm_mgtsend v b)"
    if b: "wifi_mac_top_sm e v n arg a = Some (rc, b)" and fa: "frame a = frame s"
      and n: "n = S_AUTH \<and> state s v = S_AUTH \<and> arg = SUBTYPE_DEAUTH \<or> n = S_ASSOC \<and> state s v = S_ASSOC" for n arg a rc b
  proof -
    have "mode s v = M_STA" using top_sm_AUTH_STA [OF b _ e] n frame_eqD [OF fa] by auto
    with n have "sm_call l v (mode s v) (state s v) n arg" by auto
    from top_sm_switched [OF b e fa v this] n have "switched q l s b" by auto
    then show ?thesis by (rule switched_frame) (simp_all add: re)
  qed
  have swap: "frame a = frame s" if "swap_authmode v s0 = Some a" for a
    using that f by (auto simp: swap_authmode_def sm_frame split: if_splits option.splits)
  show ?thesis
  proof (cases "mgmt_pkt_retry_count (vif s v) < MGMT_RETRY_TIMES")
    case True
    have same: "switched q l s s'" if "s1 = s'" using f(2) that by (intro switched_same) simp
    from t True show ?thesis
      by (auto simp: wifi_mac_tx_timeout_ex_def Let_def s0_def [symmetric] s1_def [symmetric] st f
          split: if_splits option.splits intro: retry swap same)
  next
    case False
    have same: "switched q l s s'" if "s1 = s'" using f(2) that by (intro switched_same) simp
    have scan: "switched q l s b" if "wifi_mac_top_sm e v S_SCAN 0 (emit [Indicate_disconnect v] s1) = Some (rc, b)" "state s v \<noteq> S_CONNECTED" for rc b
      using that e f st v by (intro top_sm_switched [OF that(1)]) (simp_all add: sm_frame named_simps(2))
    from t False show ?thesis
      by (auto simp: wifi_mac_tx_timeout_ex_def Let_def s0_def [symmetric] s1_def [symmetric] st split: if_splits intro: scan same)
  qed
qed

lemma scan_switched:
  assumes "wifi_mac_top_sm e v S_SCAN 0 a = Some (rc, b)" "e_main_node e \<noteq> None" "v < 32" "frame a = frame s"
    "mode s v \<noteq> M_HOSTAP \<or> state s v \<noteq> S_CONNECTED"
  shows "switched q l s b"
  using assms(5) frame_eqD [OF assms(4)]
  by (intro top_sm_switched [OF assms(1,2,4,3)]) (auto simp: named_def)

lemma assoc_switched:
  assumes "wifi_mac_top_sm e v S_ASSOC arg a = Some (rc, b)" "e_main_node e \<noteq> None" "v < 32" "frame a = frame s"
    "state s v = S_AUTH \<or> state s v = S_ASSOC \<or> state s v = S_CONNECTED"
  shows "switched q l s b"
  using assms(5) top_sm_AUTH_STA [OF assms(1) _ assms(2)] frame_eqD [OF assms(4)]
  by (intro top_sm_switched [OF assms(1,2,4,3)]) auto

lemma auth_switched:
  assumes "wifi_mac_top_sm e v S_AUTH arg a = Some (rc, b)" "e_main_node e \<noteq> None" "v < 32" "frame a = frame s"
    "arg = SUBTYPE_DEAUTH \<and> (state s v = S_SCAN \<or> state s v = S_AUTH) \<or> arg = STATUS_INVALID_PMKID \<and> answered l v"
  shows "switched q l s b"
  using assms(5) top_sm_AUTH_STA [OF assms(1) _ assms(2)] frame_eqD [OF assms(4)]
  by (intro top_sm_switched [OF assms(1,2,4,3)]) auto

lemmas switched_intros = scan_switched assoc_switched auth_switched switched_same

lemma frame_swap_main [sm_frame]: "frame (swap_main_sta v i s) = frame s"
  by (auto simp: swap_main_sta_def Let_def sm_frame split: option.splits)

lemma frame_change_channel [sm_frame]: "frame (change_channel e v c s) = frame s" by (simp add: change_channel_def sm_frame)

lemma switched_start_bss:
  assumes t: "wifi_mac_start_bss_ex e i s = Some s'" and e: "e_main_node e \<noteq> None" and v: "sta_wnet_vif (stas s i) < 32"
  shows "switched q l s s'"
proof -
  define v where "v = sta_wnet_vif (stas s i)"
  let ?s1 = "swap_main_sta v i s"
  define s2 where "s2 = (\<lambda>c. start_bss_prep e v c ?s1)"
  have f: "frame (s2 c) = frame s" for c by (simp add: s2_def start_bss_prep_def Let_def sm_frame)
  have ms: "mode (s2 c) w = mode s w" "state (s2 c) w = state s w" for c w using frame_eqD [OF f] by auto
  have "switched q l s s'" if "\<not> dev_running (vif s v)"
    using t that by (auto simp: wifi_mac_start_bss_ex_def Let_def v_def intro: switched_same)
  moreover have "switched q l s s'" if "dev_running (vif s v)"
  proof (cases "vm_curchan (vif ?s1 v)")
    case None
    with t that show ?thesis by (auto simp: wifi_mac_start_bss_ex_def Let_def v_def [symmetric] sm_frame intro!: switched_same)
  next
    case (Some c)
    have nr: "state s v \<noteq> S_SCAN" if "can_reassoc v i s" using that by (auto simp: can_reassoc_def split: option.splits)
    have conn: "switched q l s b" if "wifi_mac_top_sm e v S_CONNECTED (- 1) (s2 c) = Some (rc, b)" "mode s v \<noteq> M_STA" for rc b
      using that e v f by (intro top_sm_switched [OF that(1)]) (simp_all add: v_def)
    have auth: "switched q l s b" if "wifi_mac_top_sm e v S_AUTH SUBTYPE_DEAUTH (s2 c) = Some (rc, b)" "state s v = S_SCAN" for rc b
      using that e v f by (intro auth_switched [OF that(1)]) (simp_all add: v_def)
    have same: "switched q l s (s2 c)" using f [of c] by (rule switched_same)
    from t Some \<open>dev_running (vif s v)\<close>
    have "(if mode s v = M_STA then
                  if can_reassoc v i s then
                    (if state s v = S_SCAN then map_option snd (wifi_mac_top_sm e v S_ASSOC 0 (s2 c)) else Some (s2 c))
                  else (if state s v = S_SCAN then map_option snd (wifi_mac_top_sm e v S_AUTH SUBTYPE_DEAUTH (s2 c)) else Some (s2 c))
                else map_option snd (wifi_mac_top_sm e v S_CONNECTED (- 1) (s2 c))) = Some s'"
      by (simp add: wifi_mac_start_bss_ex_def Let_def v_def [symmetric] s2_def [THEN fun_cong, symmetric] ms cong: if_cong)
    then show ?thesis using nr by (auto split: if_splits intro: conn auth same)
  qed
  ultimately show ?thesis by blast
qed

lemma switched_task:
  assumes "run_task e t s = Some s'" "e_main_node e \<noteq> None"
    and ok: "case t of Task_sm_switch v st \<Rightarrow> v < 32 \<and> st = S_SCAN \<and> (q \<longrightarrow> named (vif s v)) | Task_tx_timeout v \<Rightarrow> v < 32
             | Task_start_bss i v cnt \<Rightarrow> sta_wnet_vif (stas s i) < 32 | _ \<Rightarrow> True"
  shows "switched q l s s'"
proof (cases t)
  case (Task_start_bss i v cnt)
  with assms show ?thesis
    by (auto simp: wifi_mac_start_bss_ex_task_def split: if_splits intro: switched_start_bss switched_same)
next
  case (Task_disassoc v i)
  with assms(1) show ?thesis by (auto simp: wifi_mac_disassoc_cb_def sm_frame dest!: frame_send_mgmt intro!: switched_same)
next
  case (Task_deauth v i)
  with assms(1) show ?thesis by (auto simp: wifi_mac_sta_deauth_def dest!: frame_send_mgmt intro!: switched_same split: if_splits)
qed (use assms in \<open>auto intro: switched_sm_switch switched_tx_timeout switched_same\<close>)

text \<open>The frames.  Here the peers of an access point may be new stations of the interface.\<close>

lemma frame_bup_bss: "wifi_mac_bup_bss e v s = Some (Some (i, s')) \<Longrightarrow> frame s' = frame s"
  by (auto simp: wifi_mac_bup_bss_def Let_def sm_frame split: option.splits)

lemma frame_peer_of: "peer_of e v i s = Some (Some (j, s')) \<Longrightarrow> frame s' = frame s"
  by (auto simp: peer_of_def dest: frame_bup_bss split: if_splits)

lemma frame_send_error: "wifi_mac_send_error e i t arg s = Some s' \<Longrightarrow> frame s' = frame s"
  by (auto simp: wifi_mac_send_error_def Let_def sm_frame dest!: frame_send_mgmt split: if_splits option.splits)

lemma frame_auth_open_ap: "auth_open_ap e v i sq s = Some s' \<Longrightarrow> frame s' = frame s"
  by (auto simp: auth_open_ap_def sm_frame dest!: frame_peer_of frame_send_mgmt split: option.splits)

lemma frame_auth_sae: "wifi_mac_auth_sae e i s = Some s' \<Longrightarrow> frame s' = frame s"
  by (auto simp: wifi_mac_auth_sae_def Let_def sm_frame dest!: frame_peer_of split: wifi_mac_opmode.splits if_splits option.splits)

lemma switched_status_code:
  assumes t: "wifi_mac_status_code_handle e i sub status tie s0 = Some s'" and e: "e_main_node e \<noteq> None"
    and v: "sta_wnet_vif (stas s0 i) < 32" and f: "frame s0 = frame s"
    and m: "sub = SUBTYPE_ASSOC_RESP \<Longrightarrow> mode s (sta_wnet_vif (stas s0 i)) = M_STA"
    and a: "answered l (sta_wnet_vif (stas s0 i))"
  shows "switched q l s s'"
  using t e v f m a
  by (auto simp: wifi_mac_status_code_handle_def Let_def sm_frame split: if_splits option.splits
      intro: switched_same elim!: auth_switched scan_switched)

lemma switched_auth_bad:
  assumes "auth_bad e v i sq st s0 = Some s'" "e_main_node e \<noteq> None" "v < 32" "frame s0 = frame s"
  shows "switched q l s s'"
  using assms frame_eqD [OF assms(4)]
  by (auto simp: auth_bad_def sm_frame split: if_splits dest!: frame_send_error intro: switched_same elim!: scan_switched)

lemma switched_auth_open:
  assumes t: "wifi_mac_auth_open e i sq status s = Some s'" and e: "e_main_node e \<noteq> None" and v: "sta_wnet_vif (stas s i) < 32"
  shows "switched q l s s'"
proof -
  define v where "v = sta_wnet_vif (stas s i)"
  define s0 where "s0 = (if sta_authmode (stas s i) = AUTH_SHARED then emit [Count ''sts_rx_auth_mismatch''] s else s)"
  have f: "frame s0 = frame s" by (simp add: s0_def sm_frame)
  have ms: "mode s0 w = mode s w" "state s0 w = state s w" for w using frame_eqD [OF f] by auto
  have ib: "mode a w = M_STA" if "wifi_mac_top_sm e w S_AUTH SUBTYPE_AUTH a = Some (rc, b)" for a b w rc
    using top_sm_AUTH_STA [OF that _ e] by simp
  show ?thesis
  proof (cases "sta_authmode (stas s i) = AUTH_SHARED \<and> mode s v = M_HOSTAP")
    case True
    with t show ?thesis
      by (auto simp: wifi_mac_auth_open_def Let_def v_def [symmetric] s0_def [symmetric] ms sm_frame
          split: option.splits dest!: frame_peer_of frame_send_mgmt intro!: switched_same)
  next
    case False
    with t e v f show ?thesis
      by (auto simp: wifi_mac_auth_open_def Let_def v_def [symmetric] s0_def [symmetric] ms sm_frame
          split: wifi_mac_opmode.splits if_splits dest!: frame_auth_open_ap dest: ib
          intro: switched_same elim!: scan_switched assoc_switched)
  qed
qed

lemma switched_shared_ap:
  assumes "auth_shared_ap e v i sq c s = Some s'" "e_main_node e \<noteq> None" "v < 32"
  shows "switched q l s s'"
  using assms
  by (auto simp: auth_shared_ap_def Let_def sm_frame split: if_splits option.splits
      dest!: frame_peer_of frame_send_mgmt elim!: switched_auth_bad) (auto simp: sm_frame intro!: switched_same)

lemma switched_shared_sta:
  assumes "auth_shared_sta e v i sq st c s = Some s'" "e_main_node e \<noteq> None" "v < 32"
  shows "switched q l s s'"
  using assms
  by (auto simp: auth_shared_sta_def Let_def sm_frame split: if_splits option.splits
      dest!: frame_send_mgmt intro: switched_same elim!: switched_auth_bad assoc_switched)

lemma switched_auth_shared:
  assumes "wifi_mac_auth_shared e i b sq st s = Some s'" "e_main_node e \<noteq> None" "sta_wnet_vif (stas s i) < 32"
  shows "switched q l s s'"
  using assms
  by (auto simp: wifi_mac_auth_shared_def Let_def sm_frame split: if_splits option.splits wifi_mac_opmode.splits
      intro: switched_same switched_shared_ap switched_shared_sta elim!: switched_auth_bad)

lemma switched_auth_wep:
  assumes "auth_wep e v i st s = Some (Some s')" "e_main_node e \<noteq> None" "v < 32"
  shows "switched q l s s'"
  using assms
  by (auto simp: auth_wep_def sm_frame split: if_splits option.splits
      dest!: frame_send_mgmt intro: switched_same elim!: scan_switched)

lemma switched_by_type:
  assumes "auth_by_type e v i b s = Some s'" "e_main_node e \<noteq> None" "v = sta_wnet_vif (stas s i)" "v < 32" "answered l v"
  shows "switched q l s s'"
proof -
  have st: "switched q l s s'" if "wifi_mac_status_code_handle e i SUBTYPE_AUTH x y s = Some s'" for x y
    by (rule switched_status_code [OF that assms(2) _ refl]) (use assms in \<open>simp_all add: SUBTYPE_AUTH_def SUBTYPE_ASSOC_RESP_def\<close>)
  have sae: "switched q l s s'" if "wifi_mac_auth_sae e i s = Some s'" using that by (intro switched_same frame_auth_sae)
  from assms show ?thesis
    by (auto simp: auth_by_type_def Let_def sm_frame split: if_splits dest!: frame_send_error
        intro: switched_same switched_auth_shared switched_auth_open st sae)
qed

lemma switched_recv_auth:
  assumes "wifi_mac_recv_auth e v i addr b s = Some s'" "e_main_node e \<noteq> None" "v = sta_wnet_vif (stas s i)" "v < 32"
    "answered l v"
  shows "switched q l s s'"
  using assms
  by (auto simp: wifi_mac_recv_auth_def sm_frame split: if_splits option.splits dest!: frame_send_error
      intro: switched_same switched_by_type switched_auth_wep)

lemma switched_assoc_done:
  assumes t: "assoc_done e v i s0 = Some s'" and e: "e_main_node e \<noteq> None" and v: "v < 32" and f: "frame s0 = frame s"
    and st: "state s v = S_ASSOC" and a: "accepted l v"
  shows "switched q l s s'"
proof -
  from t obtain rc s1 where s1: "wifi_mac_top_sm e v S_CONNECTED SUBTYPE_ASSOC_RESP
      (call ''RegisterStationID'' v (call ''drv_set_bssid'' v s0)) = Some (rc, s1)" and fr: "frame s' = frame s1"
    by (auto simp: assoc_done_def Let_def sm_frame dest!: frame_send_mgmt split: option.splits if_splits)
  have "switched q l s s1" by (rule top_sm_switched [OF s1 e _ v]) (use f st a in \<open>simp_all add: sm_frame\<close>)
  then show ?thesis by (rule switched_frame) (simp_all add: fr)
qed

lemma switched_assoc_rsp:
  assumes t: "wifi_mac_recv_assoc_rsp e v i r s = Some s'" and e: "e_main_node e \<noteq> None"
    and v: "v = sta_wnet_vif (stas s i)" "v < 32" and l: "l = L_assoc_rsp v i r"
  shows "switched q l s s'"
proof -
  have acc: "accepted l v" if "rsp_status r = 0" "rsp_elems_ok r" "rsp_rates_ok r" using that l by (auto simp: accepted_def)
  have ok: "switched q l s s'"
    if "assoc_done e v i (set_sta i g s) = Some s'" "rsp_status r = 0" "rsp_elems_ok r" "rsp_rates_ok r" "state s v = S_ASSOC" for g
    by (rule switched_assoc_done [OF that(1) e v(2) _ that(5) acc]) (use that in \<open>simp_all add: sm_frame\<close>)
  have st: "switched q l s s'"
    if "wifi_mac_status_code_handle e i SUBTYPE_ASSOC_RESP x y (emit evs s) = Some s'" "mode s v = M_STA" for x y evs
    by (rule switched_status_code [OF that(1) e]) (use that v l in \<open>simp_all add: sm_frame answered_def\<close>)
  from t e v show ?thesis
    by (auto simp: wifi_mac_recv_assoc_rsp_def sm_frame split: if_splits intro: switched_same ok st elim!: scan_switched)
qed

lemma frame_drop_peer [sm_frame]: "frame (drop_peer v i s) = frame s" by (simp add: drop_peer_def sm_frame)

lemma switched_deauth:
  assumes "wifi_mac_recv_deauth e v i b s = Some s'" "e_main_node e \<noteq> None" "v < 32"
  shows "switched q l s s'"
  using assms
  by (auto simp: wifi_mac_recv_deauth_def Let_def sm_frame split: if_splits wifi_mac_opmode.splits
      intro: switched_same elim!: scan_switched)

lemma switched_disassoc:
  assumes "wifi_mac_recv_disassoc e v i b s = Some s'" "e_main_node e \<noteq> None" "v < 32"
  shows "switched q l s s'"
  using assms
  by (auto simp: wifi_mac_recv_disassoc_def Let_def sm_frame split: if_splits wifi_mac_opmode.splits
      intro: switched_same elim!: scan_switched assoc_switched)

text \<open>Opening, stopping and connecting.\<close>

lemma frame_if_up: "if_up rc v s = (rc', s') \<Longrightarrow> frame s' = frame s"
  by (auto simp: if_up_def wifi_mac_netdev_open_def Let_def sm_frame split: if_splits prod.splits)

lemma frame_connect: "wifi_mac_connect e v se s = Some (b, s') \<Longrightarrow> frame s' = frame s"
  by (auto simp: wifi_mac_connect_def Let_def sm_frame split: option.splits if_splits)

lemma vif_if_up:
  "if_up rc v s = (rc', s') \<Longrightarrow> vm_curchan (vif s' w) = vm_curchan (vif s w) \<and> vm_bandwidth (vif s' w) = vm_bandwidth (vif s w)
     \<and> vm_des_nssid (vif s' w) = vm_des_nssid (vif s w)"
  by (auto simp: if_up_def wifi_mac_netdev_open_def Let_def set_vif_def split: if_splits prod.splits)

lemma switched_initial:
  assumes t: "wifi_mac_initial e open_rc forcescan v s = Some (rc, s')" and e: "e_main_node e \<noteq> None" and v: "v < 32"
    and n: "q \<Longrightarrow> named (vif s v)" and m: "q \<Longrightarrow> mode s v \<in> {M_MONITOR, M_WDS} \<Longrightarrow> state s v \<noteq> S_CONNECTED"
  shows "switched q l s s'"
proof -
  let ?p = "call ''wifi_mac_preempt_scan'' v s"
  obtain b s1 where c: "wifi_mac_check_main_sta e v ?p = (b, s1)" by fastforce
  note vc = vif_check_main [OF c]
  have f1: "frame s1 = frame s" using frame_check_main [OF c] by (simp add: sm_frame)
  from vc(6) e have b: "b" by simp
  obtain rc1 s2 where u: "if_up open_rc v s1 = (rc1, s2)" by fastforce
  have f2: "frame s2 = frame s" using frame_if_up [OF u] f1 by simp
  note fd = frame_eqD [OF f2]
  have n2: "named (vif s2 v)" if q
  proof -
    have "ap_startable (vif s2 v) = ap_startable (vif s v)"
      using vif_if_up [OF u, of v] vc(2,3) [of v] by (simp add: ap_startable_def split: option.split)
    with n [OF that] vif_if_up [OF u, of v] vc(4) [of v] fd show ?thesis by (simp add: named_def)
  qed
  have same: "switched q l s x" if "s2 = x" for x using f2 that by (auto intro: switched_same)
  have scan: "switched q l s y" if "wifi_mac_top_sm e v S_SCAN 0 s2 = Some (x, y)" for x y
    by (rule top_sm_switched [OF that e f2 v]) (use n2 in simp_all)
  have mon: "switched q l s y"
    if t: "wifi_mac_top_sm e v S_CONNECTED (- 1) (set_vif v (\<lambda>x. x\<lparr>vm_state := S_INIT\<rparr>) s2) = Some (x, y)"
      and md: "mode s v \<in> {M_MONITOR, M_WDS}" for x y
  proof -
    let ?s3 = "set_vif v (\<lambda>x. x\<lparr>vm_state := S_INIT\<rparr>) s2"
    from e have "has_main ?s3 v \<or> e_main_node e \<noteq> None" by simp
    from top_sm_frame [OF t this] have fy: "frame y = next_frame v S_CONNECTED False (frame ?s3)" by (simp add: restores_not_connected)
    have f3: "frame ?s3 = ((\<lambda>u. if u = v then S_INIT else state s u), (\<lambda>u. mode s u), wm_runningmask s, wm_nrunning s)"
      using fd by (auto simp: frame_def set_vif_def fun_eq_iff)
    have call: "sm_call l v (mode s v) (state s v) S_CONNECTED (- 1)" using md by auto
    show ?thesis
    proof (cases "state s v = S_CONNECTED")
      case False
      then have "frame y = next_frame v S_CONNECTED False (frame s)"
        unfolding fy f3 by (auto simp: next_frame_def frame_def Let_def fun_eq_iff)
      with v call show ?thesis unfolding switched_def
        by (intro disjI2 exI [of _ v] exI [of _ S_CONNECTED] exI [of _ "- 1"] conjI disjI1 exI [of _ False]) simp_all
    next
      case True
      with m md have nq: "\<not> q" by blast
      have "state y u = (if u = v then S_CONNECTED else state s u)" for u
        unfolding state_frame [of y] fy f3 by (simp add: next_frame_def Let_def)
      with v call nq show ?thesis unfolding switched_def
        by (intro disjI2 exI [of _ v] exI [of _ S_CONNECTED] exI [of _ "- 1"] conjI disjI2) simp_all
    qed
  qed
  from t b u c show ?thesis
    by (auto simp: wifi_mac_initial_def initial_sm_def fd split: if_splits prod.splits bool.splits
        intro: same scan mon elim!: assoc_switched [OF _ e v f2])
qed

lemma switched_stop:
  assumes t: "wifi_mac_stop e b v s = Some (rc, s')" and e: "e_main_node e \<noteq> None" and v: "v < 32" and l: "l = L_stop v b"
  shows "switched q l s s'"
proof (cases "b \<and> dev_running (vif s v)")
  case False
  with t show ?thesis by (auto simp: wifi_mac_stop_def Let_def sm_frame intro!: switched_same split: if_splits)
next
  case True
  define s0 where "s0 = set_vif v (\<lambda>x. x\<lparr>dev_running := False\<rparr>) (call ''preempt_scan'' v s)"
  have f: "frame s0 = frame s" by (simp add: s0_def sm_frame)
  from t True obtain rc1 s1 where s1: "wifi_mac_top_sm e v S_INIT (- 1) s0 = Some (rc1, s1)" and fr: "frame s' = frame s1"
    by (auto simp: wifi_mac_stop_def Let_def s0_def [symmetric] wifi_mac_netdev_stop_def sm_frame split: option.splits)
  have "switched q l s s1" by (rule top_sm_switched [OF s1 e f v]) (use l in auto)
  then show ?thesis by (rule switched_frame) (simp_all add: fr)
qed

text \<open>The calls of the layers above.  vm_cfg80211_external_auth is told that an authentication outside the driver is done; \<open>j\<close>
  is the station found for the address it is given.\<close>

definition vm_cfg80211_external_auth :: "sm_env \<Rightarrow> nat \<Rightarrow> bool \<Rightarrow> nat option \<Rightarrow> sm_mac \<Rightarrow> sm_mac option" where
  "vm_cfg80211_external_auth e v ok j s =
     (if \<not> ok then Some s
      else if mode s v = M_STA then map_option snd (wifi_mac_top_sm e v S_ASSOC 0 s)
      else Some (case j of None \<Rightarrow> s | Some i \<Rightarrow> wifi_mac_sta_auth i s))"

lemma switched_external_auth:
  assumes t: "vm_cfg80211_external_auth e v ok j s = Some s'" and e: "e_main_node e \<noteq> None" and v: "v < 32"
    and l: "l = L_external_auth v ok j"
  shows "switched q l s s'"
proof (cases "ok \<and> mode s v = M_STA")
  case True
  with t have "map_option snd (wifi_mac_top_sm e v S_ASSOC 0 s) = Some s'" by (simp add: vm_cfg80211_external_auth_def)
  then show ?thesis by (rule top_sm_map [OF _ e refl v]) (use True l in auto)
next
  case False
  with t show ?thesis
    by (auto simp: vm_cfg80211_external_auth_def sm_frame split: if_splits option.splits intro!: switched_same)
qed

text \<open>The other callers of wifi_mac_top_sm stop an interface, make it scan, or let a connected station associate again:
  the loss of beacons (\<^verbatim>\<open>wifi_mac_beacon.c:962\<close>), connecting, its timeout, leaving and stopping
  (\<^verbatim>\<open>wifi_cfg80211.c\<close>), a radar channel (\<^verbatim>\<open>wifi_mac_chan.c:893\<close>), roaming
  (\<^verbatim>\<open>wifi_mac_scan.c:1727\<close>), a change of country (\<^verbatim>\<open>wifi_cmd_func.c:647\<close>) and the recovery
  of the firmware (\<^verbatim>\<open>wifi_mac_if.c:4396\<close>).\<close>

definition upper_ok :: "sm_mac \<Rightarrow> nat \<Rightarrow> wifi_mac_state \<Rightarrow> int \<Rightarrow> bool" where
  "upper_ok s v nstate arg = (nstate = S_INIT \<or> nstate = S_SCAN \<and> arg = 0 \<or> nstate = S_ASSOC \<and> state s v = S_CONNECTED)"

lemma switched_upper:
  assumes t: "wifi_mac_top_sm e v nstate arg s = Some (rc, s')" and e: "e_main_node e \<noteq> None" and v: "v < 32"
    and u: "upper_ok s v nstate arg" and l: "l = L_upper v nstate arg" and n: "q \<Longrightarrow> nstate = S_SCAN \<Longrightarrow> named (vif s v)"
  shows "switched q l s s'"
proof -
  have "mode s v = M_STA" if "nstate = S_ASSOC" using top_sm_AUTH_STA [OF t _ e] that by simp
  then have "sm_call l v (mode s v) (state s v) nstate arg" using u l by (auto simp: upper_ok_def)
  from top_sm_switched [OF t e refl v this n] show ?thesis by blast
qed

text \<open>An interface that is set up anew is put into the initial state (\<^verbatim>\<open>wifi_mac_monitor.c:399\<close>).\<close>

lemma switched_reset:
  assumes v: "v < 32" and l: "l = L_reset v" and c: "q \<Longrightarrow> state s v \<noteq> S_CONNECTED"
  shows "switched q l s (put_state v S_INIT s)"
proof -
  have st: "state (put_state v S_INIT s) u = (if u = v then S_INIT else state s u)" for u by (simp add: put_state_def set_vif_def)
  have call: "sm_call l v (mode s v) (state s v) S_INIT 0" using l by simp
  show ?thesis
  proof (cases "state s v = S_CONNECTED")
    case False
    then have "frame (put_state v S_INIT s) = next_frame v S_INIT False (frame s)"
      by (auto simp: next_frame_def frame_def Let_def fun_eq_iff put_state_def set_vif_def)
    with v call show ?thesis unfolding switched_def
      by (intro disjI2 exI [of _ v] exI [of _ S_INIT] exI [of _ 0] conjI disjI1 exI [of _ False]) simp_all
  next
    case True
    with c have "\<not> q" by blast
    with v call st show ?thesis unfolding switched_def
      by (intro disjI2 exI [of _ v] exI [of _ S_INIT] exI [of _ 0] conjI disjI2) simp_all
  qed
qed

section \<open>Runs\<close>

text \<open>The tasks that the code queues: only switches to the scan state, and interfaces and stations of this driver.\<close>

fun task_ok :: "sm_mac \<Rightarrow> sm_task \<Rightarrow> bool" where
  "task_ok s (Task_sm_switch v st) = (v < 32 \<and> st = S_SCAN)"
| "task_ok s (Task_tx_timeout v) = (v < 32)"
| "task_ok s (Task_start_bss i v cnt) = (sta_wnet_vif (stas s i) < 32)"
| "task_ok s t = True"

text \<open>A step of the system.  Anything that leaves the states and the account of the running interfaces alone is a step of the
  environment: settings, modes, timers, queued work, other parts of the driver.  Memory for a main station is available.\<close>

inductive sm_step :: "sm_mac \<Rightarrow> sm_label \<Rightarrow> sm_mac \<Rightarrow> bool" where
  step_env: "run_same s s' \<Longrightarrow> sm_step s L_env s'"
| step_task: "work s = t # ts \<Longrightarrow> task_ok s t \<Longrightarrow> e_main_node e \<noteq> None \<Longrightarrow> run_task e t (s\<lparr>work := ts\<rparr>) = Some s'
    \<Longrightarrow> sm_step s (L_task t) s'"
| step_auth: "v < 32 \<Longrightarrow> sta_wnet_vif (stas s i) = v \<Longrightarrow> e_main_node e \<noteq> None \<Longrightarrow> wifi_mac_recv_auth e v i addr b s = Some s'
    \<Longrightarrow> sm_step s (L_auth v i addr b) s'"
| step_assoc_rsp: "v < 32 \<Longrightarrow> sta_wnet_vif (stas s i) = v \<Longrightarrow> e_main_node e \<noteq> None \<Longrightarrow> wifi_mac_recv_assoc_rsp e v i r s = Some s'
    \<Longrightarrow> sm_step s (L_assoc_rsp v i r) s'"
| step_deauth: "v < 32 \<Longrightarrow> e_main_node e \<noteq> None \<Longrightarrow> wifi_mac_recv_deauth e v i b s = Some s' \<Longrightarrow> sm_step s (L_deauth v i b) s'"
| step_disassoc: "v < 32 \<Longrightarrow> e_main_node e \<noteq> None \<Longrightarrow> wifi_mac_recv_disassoc e v i b s = Some s' \<Longrightarrow> sm_step s (L_disassoc v i b) s'"
| step_initial: "v < 32 \<Longrightarrow> e_main_node e \<noteq> None \<Longrightarrow> wifi_mac_initial e open_rc forcescan v s = Some (rc, s')
    \<Longrightarrow> sm_step s (L_initial v open_rc forcescan) s'"
| step_stop: "v < 32 \<Longrightarrow> e_main_node e \<noteq> None \<Longrightarrow> wifi_mac_stop e loaded v s = Some (rc, s') \<Longrightarrow> sm_step s (L_stop v loaded) s'"
| step_connect: "v < 32 \<Longrightarrow> wifi_mac_connect e v se s = Some (b, s') \<Longrightarrow> sm_step s (L_connect v se) s'"
| step_external: "v < 32 \<Longrightarrow> e_main_node e \<noteq> None \<Longrightarrow> vm_cfg80211_external_auth e v ok j s = Some s' \<Longrightarrow> sm_step s (L_external_auth v ok j) s'"
| step_upper: "v < 32 \<Longrightarrow> e_main_node e \<noteq> None \<Longrightarrow> upper_ok s v nstate arg \<Longrightarrow> wifi_mac_top_sm e v nstate arg s = Some (rc, s')
    \<Longrightarrow> sm_step s (L_upper v nstate arg) s'"
| step_reset: "v < 32 \<Longrightarrow> sm_step s (L_reset v) (put_state v S_INIT s)"

inductive_cases step_taskE: "sm_step s (L_task t) s'"
inductive_cases step_assoc_rspE: "sm_step s (L_assoc_rsp v i r) s'"

text \<open>A calm step keeps the account of the running interfaces: an access point that is up has a channel or a name when it is
  made to scan, and an interface that is put into the initial state without a switch is not connected.\<close>

fun calm :: "sm_mac \<Rightarrow> sm_label \<Rightarrow> bool" where
  "calm s (L_task (Task_sm_switch v st)) = named (vif s v)"
| "calm s (L_initial v rc f) = (named (vif s v) \<and> (mode s v \<in> {M_MONITOR, M_WDS} \<longrightarrow> state s v \<noteq> S_CONNECTED))"
| "calm s (L_upper v nstate arg) = (nstate = S_SCAN \<longrightarrow> named (vif s v))"
| "calm s (L_reset v) = (state s v \<noteq> S_CONNECTED)"
| "calm s l = True"

theorem step_switched: "sm_step s l s' \<Longrightarrow> switched (calm s l) l s s'"
proof (induction rule: sm_step.induct)
  case (step_env s s')
  then show ?case by (simp add: switched_def)
next
  case (step_task s t ts e s')
  have f: "frame (s\<lparr>work := ts\<rparr>) = frame s" by (rule sm_frame)
  have "switched (calm s (L_task t)) (L_task t) (s\<lparr>work := ts\<rparr>) s'"
    by (rule switched_task [OF step_task(4,3)]) (use step_task(2) in \<open>auto split: sm_task.split\<close>)
  then show ?case by (rule switched_frame [OF _ f refl])
next
  case (step_initial v e open_rc forcescan s rc s')
  then show ?case by (intro switched_initial [OF step_initial(3,2,1)]) auto
next
  case (step_upper v e s nstate arg rc s')
  then show ?case by (intro switched_upper [OF step_upper(4,2,1,3) refl]) auto
next
  case (step_reset v s)
  then show ?case by (intro switched_reset) auto
next
  case (step_auth v s i e addr b s')
  then show ?case by (intro switched_recv_auth [OF step_auth(4,3)]) (auto simp: answered_def)
qed (auto intro: switched_same switched_assoc_rsp switched_deauth switched_disassoc
       switched_stop frame_connect switched_external_auth)

inductive sm_reach :: "sm_mac \<Rightarrow> bool" where
  reach_init: "(\<And>v. state s v = S_INIT) \<Longrightarrow> wm_runningmask s = 0 \<Longrightarrow> wm_nrunning s = 0 \<Longrightarrow> sm_reach s"
| reach_step: "sm_reach s \<Longrightarrow> sm_step s l s' \<Longrightarrow> calm s l \<Longrightarrow> sm_reach s'"

text \<open>The states after a step.\<close>

lemma next_frame_state: "fst (next_frame w nstate r (frame s)) u = (if u = w \<and> \<not> r then nstate else state s u)"
  by (simp add: frame_def next_frame_def Let_def)

lemma switched_states:
  assumes "switched q l s s'"
  obtains "\<And>u. state s' u = state s u"
  | w nstate arg where "w < 32" "sm_call l w (mode s w) (state s w) nstate arg" "\<And>u. state s' u = (if u = w then nstate else state s u)"
  using assms unfolding switched_def
proof (elim disjE exE conjE)
  assume "run_same s s'"
  with that(1) show ?thesis by (simp add: run_same_def)
next
  fix w nstate arg r
  assume w: "w < 32" and c: "sm_call l w (mode s w) (state s w) nstate arg" and f: "frame s' = next_frame w nstate r (frame s)"
  note st = state_frame [of s', unfolded f next_frame_state]
  show ?thesis
  proof (cases r)
    case True with st that(1) show ?thesis by simp
  next
    case False with st that(2) [OF w c] show ?thesis by simp
  qed
next
  fix w nstate arg
  assume "w < 32" "sm_call l w (mode s w) (state s w) nstate arg" "\<forall>u. state s' u = (if u = w then nstate else state s u)"
  with that(2) show ?thesis by blast
qed

lemma switched_run_ok:
  assumes "switched True l s s'" "run_ok s"
  shows "run_ok s'"
  using assms(1) unfolding switched_def
proof (elim disjE exE conjE)
  assume "run_same s s'"
  with assms(2) show ?thesis by (simp add: run_same_def run_ok_def running_set_def)
next
  fix v nstate arg r
  assume "v < 32" and r: "r \<longrightarrow> nstate = S_SCAN \<and> mode s v = M_HOSTAP \<and> (True \<longrightarrow> state s v = S_INIT)"
    and f: "frame s' = next_frame v nstate r (frame s)"
  then show ?thesis by (intro run_ok_switch [OF assms(2) _ f]) auto
qed simp

lemma reach_run_ok: "sm_reach s \<Longrightarrow> run_ok s"
proof (induction rule: sm_reach.induct)
  case (reach_init s)
  then show ?case by (simp add: run_ok_def running_set_def)
next
  case (reach_step s l s')
  from step_switched [OF reach_step(2)] reach_step(3) have "switched True l s s'" by simp
  then show ?case by (rule switched_run_ok) (rule reach_step.IH)
qed

section \<open>Running a list of labels\<close>

fun do_step :: "sm_env \<Rightarrow> sm_label \<Rightarrow> sm_mac \<Rightarrow> sm_mac option" where
  "do_step e L_env s = Some s"
| "do_step e (L_task t) s = (case work s of [] \<Rightarrow> None | t' # ts \<Rightarrow>
     if t' = t \<and> task_ok s t \<and> calm s (L_task t) then run_task e t (s\<lparr>work := ts\<rparr>) else None)"
| "do_step e (L_auth v i addr b) s = (if v < 32 \<and> sta_wnet_vif (stas s i) = v then wifi_mac_recv_auth e v i addr b s else None)"
| "do_step e (L_assoc_rsp v i r) s = (if v < 32 \<and> sta_wnet_vif (stas s i) = v then wifi_mac_recv_assoc_rsp e v i r s else None)"
| "do_step e (L_deauth v i b) s = (if v < 32 then wifi_mac_recv_deauth e v i b s else None)"
| "do_step e (L_disassoc v i b) s = (if v < 32 then wifi_mac_recv_disassoc e v i b s else None)"
| "do_step e (L_initial v rc f) s =
     (if v < 32 \<and> calm s (L_initial v rc f) then map_option snd (wifi_mac_initial e rc f v s) else None)"
| "do_step e (L_stop v b) s = (if v < 32 then map_option snd (wifi_mac_stop e b v s) else None)"
| "do_step e (L_connect v se) s = (if v < 32 then map_option snd (wifi_mac_connect e v se s) else None)"
| "do_step e (L_external_auth v ok j) s = (if v < 32 then vm_cfg80211_external_auth e v ok j s else None)"
| "do_step e (L_upper v n a) s =
     (if v < 32 \<and> upper_ok s v n a \<and> calm s (L_upper v n a) then map_option snd (wifi_mac_top_sm e v n a s) else None)"
| "do_step e (L_reset v) s = (if v < 32 \<and> calm s (L_reset v) then Some (put_state v S_INIT s) else None)"

lemma do_step_calm: "do_step e l s = Some s' \<Longrightarrow> calm s l"
  by (cases l) (auto split: list.splits if_splits)

lemma do_step_sound:
  assumes "do_step e l s = Some s'" "e_main_node e \<noteq> None"
  shows "sm_step s l s'"
proof (cases l)
  case L_env
  with assms(1) show ?thesis by (auto intro: step_env simp: run_same_def)
next
  case (L_task t)
  with assms show ?thesis by (auto split: list.splits if_splits intro: step_task)
qed (use assms in \<open>auto split: if_splits intro: sm_step.intros\<close>)

definition sm_exec :: "sm_env \<Rightarrow> sm_label list \<Rightarrow> sm_mac \<Rightarrow> sm_mac option" where
  "sm_exec e = foldo (do_step e)"

lemma exec_reach:
  assumes "sm_exec e ls s = Some s'" "e_main_node e \<noteq> None" "sm_reach s"
  shows "sm_reach s'"
  using assms unfolding sm_exec_def
  by (rule_tac foldo_stable [where Q = sm_reach]) (auto intro: reach_step do_step_sound do_step_calm)

end
