(* ===== verification/ConnProps.thy ===== *)
theory ConnProps
  imports ConnStep
begin

text \<open>
  The properties of the connection state machine, each with a run or a state it applies to.
\<close>

section \<open>A concrete system\<close>

text \<open>Two interfaces, the first a station, on a card with channel 1; allocations give the stations 10, 11 and 12.\<close>

definition sta_zero :: sm_sta where
  "sta_zero = \<lparr>sta_wnet_vif = 0, sta_authmode = 0, sta_flags = 0, sta_flags_ext = 0, sta_associd = 0, sta_keymgmtset = 0,
     sta_challenge = None, sta_essid = [], sta_chbw = WIDTH20, connect_status = 0, is_disconnecting = False, sa_query_try_count = 0\<rparr>"

definition vif_zero :: "wifi_mac_opmode \<Rightarrow> sm_vif" where
  "vif_zero md = \<lparr>vm_opmode = md, vm_state = S_INIT, vm_flags = 0, vm_flags_ext = 0, vm_phase_flags = 0, vm_mainsta = None,
     nt_nsta = [], mgmt_pkt_retry_count = 0, vm_mgtsend = None, vm_actsend = None, vm_sm_switch = None, vm_des_nssid = 1,
     vm_des_ssid = [97], vm_curchan = None, vm_bandwidth = WIDTH40, vm_bcn_intval = 100, vm_p2p_support = False,
     wnet_vif_replaycounter = 0, dev_running = False\<rparr>"

definition mac_zero :: sm_mac where
  "mac_zero = \<lparr>wnet_vifs = (\<lambda>v. vif_zero (if v = 0 then M_STA else M_HOSTAP)), stas = (\<lambda>_. sta_zero), wm_runningmask = 0,
     wm_nrunning = 0, wm_nopened = 0, wm_dev_flags = 0, wm_syncbeacon = 0, recovery_stat = RECOVERY_END, wm_vsdb_slot = SLOT_NONE,
     wm_vsdb_flags = 0, vsdb_mode_set_noa_enable = 0, work = [], sm_log = []\<rparr>"

definition env_zero :: sm_env where
  "env_zero = \<lparr>e_main_node = Some (10, sta_zero), e_new_node = Some (11, sta_zero), e_tmp_node = Some (12, sta_zero),
     e_challenge_buf = True, e_random = replicate 128 7, e_mgmt_frm = True,
     e_chans = \<lparr>wm_channels = [chan_1], wm_chan_avail = [], wm_curchan = None, wm_country = [], chan_index = []\<rparr>,
     e_apsta = False, e_20m_on_2g = False, e_acl = (\<lambda>_. True)\<rparr>"

definition bss_zero :: sm_bss where
  "bss_zero = \<lparr>bss_ssid = [97], bss_chan = chan_1, bss_rsn_capa = 0, bss_ht = False\<rparr>"

definition rsp_ok :: assoc_rsp where
  "rsp_ok = \<lparr>rsp_status = 0, rsp_timeout = None, rsp_elems_ok = True, rsp_rates_ok = True, rsp_aid = 0xc001, rsp_wme = Some False\<rparr>"

text \<open>A station connects: it is opened and scans, connects to a scan result, sends its authentication frame from a task,
  and gets two answers.\<close>

definition connect_run :: "sm_label list" where
  "connect_run = [L_initial 0 0 False, L_connect 0 bss_zero, L_task (Task_other ''wifi_mac_sta_beacon_init_ex'' [0, 0]),
     L_task (Task_start_bss 11 0 0), L_auth 0 11 [2, 0, 0, 0, 0, 1] [0, 0, 2, 0, 0, 0], L_assoc_rsp 0 11 rsp_ok]"

lemma connect_run_reaches:
  "(case sm_exec env_zero connect_run mac_zero of None \<Rightarrow> False
    | Some s \<Rightarrow> state s 0 = S_CONNECTED \<and> bit (wm_runningmask s) 0 \<and> wm_nrunning s = 1)"
  by code_simp

lemma mac_zero_reach: "sm_reach mac_zero"
  by (rule reach_init) (simp_all add: mac_zero_def vif_zero_def)

lemma connect_run_reach:
  obtains s where "sm_exec env_zero connect_run mac_zero = Some s" "sm_reach s" "state s 0 = S_CONNECTED"
proof -
  from connect_run_reaches obtain s where s: "sm_exec env_zero connect_run mac_zero = Some s" "state s 0 = S_CONNECTED"
    by (auto split: option.splits)
  have "sm_reach s" by (rule exec_reach [OF s(1) _ mac_zero_reach]) (simp add: env_zero_def)
  with s that show ?thesis by blast
qed

section \<open>Running interfaces\<close>

text \<open>C26: Along the steps of the modelled system the running mask holds exactly the connected interfaces, and the number of
  running interfaces is how many they are, provided that memory for a main station is available, that no access point which is up
  without a usable channel and without a name is made to scan, and that no connected interface is put into the initial state
  without a switch (as when a monitor is opened again, or an interface is set up anew).\<close>

theorem running_mask_agrees:
  assumes "sm_reach s"
  shows "run_ok s"
  using assms by (rule reach_run_ok)

theorem running_mask_agrees_witness: "\<exists>s. sm_exec env_zero connect_run mac_zero = Some s \<and> state s 0 = S_CONNECTED \<and> run_ok s"
proof -
  obtain s where s: "sm_exec env_zero connect_run mac_zero = Some s" "sm_reach s" "state s 0 = S_CONNECTED" by (rule connect_run_reach)
  from running_mask_agrees [OF s(2)] s show ?thesis by blast
qed

text \<open>C27: The scan of an access point that is up but has neither a usable channel nor a name comes back to the connected
  state with its running bit cleared.\<close>

theorem ap_scan_loses_running:
  assumes "wifi_mac_top_sm e v S_SCAN arg s = Some (rc, s')" "has_main s v" "v < 32" "mode s v = M_HOSTAP" "state s v = S_CONNECTED"
    "vm_curchan (vif s v) = None" "vm_des_nssid (vif s v) = 0"
  shows "state s' v = S_CONNECTED \<and> \<not> bit (wm_runningmask s') v"
proof -
  have r: "sm_restores (vif s v) S_SCAN arg" using assms(4-7) by (simp add: sm_restores_def ap_startable_def)
  have f: "frame s' = next_frame v S_SCAN True (frame s)" using top_sm_frame [OF assms(1) disjI1 [OF assms(2)]] r by simp
  have "state s' v = state s v" unfolding state_frame [of s'] f next_frame_state by simp
  moreover have "wm_runningmask s' = fst (snd (snd (frame s')))" by (simp add: frame_def)
  moreover have "fst (snd (snd (frame s'))) = wm_runningmask s AND NOT (BIT v)"
    unfolding f using assms(5) by (simp add: frame_def next_frame_def Let_def)
  ultimately show ?thesis using assms(5) by (simp add: bit_mask_clear)
qed

definition mac_lost_ap :: sm_mac where
  "mac_lost_ap = mac_zero\<lparr>wnet_vifs := (\<lambda>v. if v = 1
     then (vif_zero M_HOSTAP)\<lparr>vm_state := S_CONNECTED, vm_mainsta := Some 10, vm_des_nssid := 0\<rparr> else vif_zero M_STA),
     wm_runningmask := 2, wm_nrunning := 1\<rparr>"

theorem ap_scan_loses_running_witness:
  "\<exists>rc s'. wifi_mac_top_sm env_zero 1 S_SCAN 0 mac_lost_ap = Some (rc, s') \<and> state s' 1 = S_CONNECTED \<and> \<not> bit (wm_runningmask s') 1"
proof -
  have "wifi_mac_top_sm env_zero 1 S_SCAN 0 mac_lost_ap \<noteq> None" by code_simp
  then obtain rc s' where t: "wifi_mac_top_sm env_zero 1 S_SCAN 0 mac_lost_ap = Some (rc, s')" by auto
  from ap_scan_loses_running [OF t] t show ?thesis by (simp add: mac_lost_ap_def mac_zero_def vif_zero_def has_main_def)
qed

section \<open>Becoming connected\<close>

text \<open>C28: A station becomes connected only by an association response with status zero and matching rates, while it is
  associating.\<close>

theorem connected_by_response:
  assumes "sm_step s l s'" "mode s v = M_STA" "state s v \<noteq> S_CONNECTED" "state s' v = S_CONNECTED"
  shows "state s v = S_ASSOC \<and> accepted l v"
  using step_switched [OF assms(1)]
proof (cases rule: switched_states)
  case 1 with assms(3,4) show ?thesis by simp
next
  case (2 w nstate arg)
  with assms(3,4) have "v = w" "nstate = S_CONNECTED" by (auto split: if_splits)
  with 2(2) assms(2) show ?thesis by simp
qed

text \<open>The step in which the station of the run above connects.\<close>

lemma last_step:
  obtains s s' where "sm_step s (L_assoc_rsp 0 11 rsp_ok) s'" "mode s 0 = M_STA" "state s 0 = S_ASSOC" "state s' 0 = S_CONNECTED"
proof -
  have "(case sm_exec env_zero (take 5 connect_run) mac_zero of None \<Rightarrow> False | Some s \<Rightarrow>
      mode s 0 = M_STA \<and> state s 0 = S_ASSOC \<and>
      (case do_step env_zero (L_assoc_rsp 0 11 rsp_ok) s of None \<Rightarrow> False | Some s' \<Rightarrow> state s' 0 = S_CONNECTED))" by code_simp
  then obtain s s' where s: "mode s 0 = M_STA" "state s 0 = S_ASSOC" and d: "do_step env_zero (L_assoc_rsp 0 11 rsp_ok) s = Some s'"
    and c: "state s' 0 = S_CONNECTED" by (auto split: option.splits)
  have "sm_step s (L_assoc_rsp 0 11 rsp_ok) s'" by (rule do_step_sound [OF d]) (simp add: env_zero_def)
  with s c that show ?thesis by blast
qed

theorem connected_by_response_witness:
  "\<exists>s s'. sm_step s (L_assoc_rsp 0 11 rsp_ok) s' \<and> state s' 0 = S_CONNECTED \<and> state s 0 = S_ASSOC \<and> accepted (L_assoc_rsp 0 11 rsp_ok) 0"
proof -
  obtain s s' where st: "sm_step s (L_assoc_rsp 0 11 rsp_ok) s'" and s: "mode s 0 = M_STA" "state s 0 = S_ASSOC" "state s' 0 = S_CONNECTED"
    by (rule last_step)
  from connected_by_response [OF st s(1) _ s(3)] st s show ?thesis by auto
qed

text \<open>The machine of a station as its states, with the label of the step where it matters.\<close>

inductive sta_edge :: "sm_label \<Rightarrow> nat \<Rightarrow> wifi_mac_state \<Rightarrow> wifi_mac_state \<Rightarrow> bool" where
  stop: "l = L_stop v b \<or> l = L_upper v S_INIT x \<or> l = L_reset v \<Longrightarrow> sta_edge l v a S_INIT"
| scan: "sta_edge l v a S_SCAN"
| join: "sta_edge l v S_SCAN S_AUTH"
| retry_auth: "sta_edge l v S_AUTH S_AUTH"
| pmkid_refused: "answered l v \<Longrightarrow> sta_edge l v a S_AUTH"
| authenticated: "sta_edge l v S_AUTH S_ASSOC"
| retry_assoc: "sta_edge l v S_ASSOC S_ASSOC"
| reassoc: "sta_edge l v S_CONNECTED S_ASSOC"
| external: "sta_edge (L_external_auth v ok j) v a S_ASSOC"
| associated: "accepted l v \<Longrightarrow> sta_edge l v S_ASSOC S_CONNECTED"

inductive_simps sta_edge_to: "sta_edge l v a S_CONNECTED" "sta_edge l v a S_CONNECTING" "sta_edge l v a S_MAX"
inductive_cases sta_edge_connectedE: "sta_edge l v a S_CONNECTED"

text \<open>C29: Every step of the modelled system, in which memory for a main station is available, refines the abstract machine of
  a station: its state stays or moves along one edge, and at most one interface moves.  The steps are the tasks, the frames that
  drive the machine, opening and stopping, the report of an external authentication, all other calls of the layers above, and
  whatever leaves the states alone.\<close>

theorem station_refines:
  assumes "sm_step s l s'" "mode s v = M_STA" "state s' v \<noteq> state s v"
  shows "sta_edge l v (state s v) (state s' v) \<and> (\<forall>w. w \<noteq> v \<longrightarrow> state s' w = state s w)"
  using step_switched [OF assms(1)]
proof (cases rule: switched_states)
  case 1 with assms(3) show ?thesis by simp
next
  case (2 w nstate arg)
  with assms(3) have w: "v = w" "state s' v = nstate" by (auto split: if_splits)
  have "sta_edge l v (state s v) nstate" using 2(2) assms(2) w(1) by (cases nstate) (auto intro: sta_edge.intros)
  with w 2(3) show ?thesis by simp
qed

theorem station_refines_witness:
  "\<exists>s s'. sm_step s (L_assoc_rsp 0 11 rsp_ok) s' \<and> sta_edge (L_assoc_rsp 0 11 rsp_ok) 0 (state s 0) (state s' 0)"
proof -
  obtain s s' where st: "sm_step s (L_assoc_rsp 0 11 rsp_ok) s'" and s: "mode s 0 = M_STA" "state s 0 = S_ASSOC" "state s' 0 = S_CONNECTED"
    by (rule last_step)
  from station_refines [OF st s(1)] s have "sta_edge (L_assoc_rsp 0 11 rsp_ok) 0 (state s 0) (state s' 0)" by simp
  with st show ?thesis by blast
qed

section \<open>Giving up\<close>

text \<open>A station that waits for an answer, with the number of its retries.\<close>

definition waiting :: "nat \<Rightarrow> nat \<Rightarrow> wifi_mac_state \<Rightarrow> u8 \<Rightarrow> sm_mac \<Rightarrow> bool" where
  "waiting v m st c s = (mode s v = M_STA \<and> state s v = st \<and> (st = S_AUTH \<or> st = S_ASSOC) \<and> vm_mainsta (vif s v) = Some m
     \<and> sta_wnet_vif (stas s m) = v \<and> mgmt_pkt_retry_count (vif s v) = c)"

lemma waiting_sends:
  assumes "waiting v m st c s"
  shows "\<exists>s'. wifi_mac_send_mgmt e m SUBTYPE_AUTH AUTH_SHARED_REQUEST s = Some s' \<and> waiting v m st c s'"
    and "\<exists>s'. wifi_mac_send_mgmt e m SUBTYPE_ASSOC_REQ 0 s = Some s' \<and> waiting v m st c s'"
  using assms
  by (auto simp: waiting_def wifi_mac_send_mgmt_def wifi_mac_send_auth_def auth_body_def Let_def SUBTYPE_AUTH_def SUBTYPE_ASSOC_REQ_def
      SUBTYPE_DEAUTH_def AUTH_SHARED_REQUEST_def AUTH_SHARED_CHALLENGE_def AUTH_SHARED_RESPONSE_def wifi_mac_send_assoc_req_def
      start_mgtsend_def set_vif_def)

lemma waiting_enter: "waiting v m st c s \<Longrightarrow> waiting v m st c (sm_enter v st s)"
  by (auto simp: waiting_def sm_enter_def Let_def set_vif_def cancel_mgtsend_def emit_def)

lemma waiting_retry:
  assumes w: "waiting v m st c s"
  shows "\<exists>s'. wifi_mac_top_sm e v st (if st = S_AUTH then SUBTYPE_DEAUTH else 0) s = Some (0, s') \<and> waiting v m st c s'"
proof -
  have st: "state s v = st" "st = S_AUTH \<or> st = S_ASSOC" using w by (auto simp: waiting_def)
  note w1 = waiting_enter [OF w]
  from w1 have c: "wifi_mac_check_main_sta e v (sm_enter v st s) = (True, sm_enter v st s)" and m: "vm_mainsta (vif (sm_enter v st s) v) = Some m"
    and md: "mode (sm_enter v st s) v = M_STA"
    by (simp_all add: wifi_mac_check_main_sta_def waiting_def)
  have "\<exists>s2. sm_body e v st st (if st = S_AUTH then SUBTYPE_DEAUTH else 0) m (sm_enter v st s) = Some s2 \<and> waiting v m st c s2"
    using st(2) waiting_sends [OF w1, of e] md
    by (auto simp: sm_body_def sm_auth_def sm_assoc_def reset_retry_def Let_def SUBTYPE_DEAUTH_def SUBTYPE_AUTH_def STATUS_INVALID_PMKID_def)
  then obtain s2 where s2: "sm_body e v st st (if st = S_AUTH then SUBTYPE_DEAUTH else 0) m (sm_enter v st s) = Some s2" "waiting v m st c s2"
    by blast
  have tail: "sm_leave_tail e v st st s2 = s2" "sm_conn_tail v st st s2 = s2"
    using st(2) by (auto simp: sm_leave_tail_def sm_conn_tail_def Let_def)
  from s2 st c m tail show ?thesis
    by (auto simp: wifi_mac_top_sm_def wifi_mac_sub_sm_def Let_def)
qed

lemma waiting_count: "waiting v m st c s \<Longrightarrow> waiting v m st d (set_vif v (\<lambda>x. x\<lparr>mgmt_pkt_retry_count := d\<rparr>) s)"
  by (simp add: waiting_def set_vif_def)

lemma waiting_swap:
  assumes "waiting v m st c s"
  shows "\<exists>s'. swap_authmode v s = Some s' \<and> waiting v m st c s'"
  using assms by (auto simp: waiting_def swap_authmode_def set_sta_def)

text \<open>One expiry of the timer: the request is sent again and the timer runs longer.\<close>

lemma waiting_timeout:
  assumes w: "waiting v m st c s" and c: "c < MGMT_RETRY_TIMES"
  shows "\<exists>s'. wifi_mac_tx_timeout_ex e v s = Some s' \<and> waiting v m st (c + 1) s'
           \<and> vm_mgtsend (vif s' v) = Some (unat (c + 1) * MGMT_RETRY_INTERVAL)"
proof -
  define s0 where "s0 = set_vif v (\<lambda>x. x\<lparr>mgmt_pkt_retry_count := mgmt_pkt_retry_count x + 1\<rparr>) s"
  have w0: "waiting v m st (c + 1) s0" using w by (simp add: s0_def waiting_def set_vif_def)
  have st: "state s0 v = st" "st = S_AUTH \<or> st = S_ASSOC" "mgmt_pkt_retry_count (vif s v) = c" using w w0 by (auto simp: waiting_def)
  have re: "waiting v m st (c + 1) (rearm_mgtsend v a) \<and> vm_mgtsend (vif (rearm_mgtsend v a) v) = Some (unat (c + 1) * MGMT_RETRY_INTERVAL)"
    if "waiting v m st (c + 1) a" for a
    using that by (simp add: rearm_mgtsend_def start_mgtsend_def waiting_def set_vif_def)
  from waiting_swap [OF w0] obtain s1 where s1: "swap_authmode v s0 = Some s1" "waiting v m st (c + 1) s1" by blast
  from waiting_retry [OF s1(2), of e] obtain s2 where s2: "wifi_mac_top_sm e v st (if st = S_AUTH then SUBTYPE_DEAUTH else 0) s1 = Some (0, s2)"
    "waiting v m st (c + 1) s2" by blast
  from waiting_retry [OF w0, of e] obtain s3 where s3: "wifi_mac_top_sm e v st (if st = S_AUTH then SUBTYPE_DEAUTH else 0) s0 = Some (0, s3)"
    "waiting v m st (c + 1) s3" by blast
  show ?thesis
  proof (cases "st = S_AUTH")
    case True
    with s1 s2 st c re [OF s2(2)] show ?thesis
      by (simp add: wifi_mac_tx_timeout_ex_def Let_def s0_def [symmetric])
  next
    case False
    with st(2) have "st = S_ASSOC" by simp
    with s3 st c re [OF s3(2)] show ?thesis
      by (simp add: wifi_mac_tx_timeout_ex_def Let_def s0_def [symmetric])
  qed
qed

lemma scan_from_waiting:
  assumes w: "waiting v m st c s"
  shows "\<exists>s'. wifi_mac_top_sm e v S_SCAN 0 s = Some (0, s') \<and> state s' v = S_SCAN \<and> (\<exists>r. sm_log s' = sm_log s @ r)"
proof -
  have st: "state s v = st" "st = S_AUTH \<or> st = S_ASSOC" "mode s v = M_STA" using w by (auto simp: waiting_def)
  have c: "wifi_mac_check_main_sta e v (sm_enter v S_SCAN s) = (True, sm_enter v S_SCAN s)" "vm_mainsta (vif (sm_enter v S_SCAN s) v) = Some m"
    using w by (simp_all add: wifi_mac_check_main_sta_def waiting_def vif_enter)
  have l1: "\<exists>r. sm_log (sm_enter v S_SCAN s) = sm_log s @ r"
    by (auto simp: sm_enter_def Let_def set_vif_def cancel_mgtsend_def emit_def)
  define b where "b = sm_scan e v st 0 m (sm_enter v S_SCAN s)"
  from st(2) obtain s2 where s2: "b = Some s2" and l2: "\<exists>r. sm_log s2 = sm_log (sm_enter v S_SCAN s) @ r"
    by (auto simp: b_def sm_scan_def chk_scan_def Let_def add_task_def emit_def set_vif_def)
  have ex: "wifi_mac_top_sm e v S_SCAN 0 s = Some (0, sm_conn_tail v st S_SCAN (sm_leave_tail e v st S_SCAN s2))"
    using s2 c st by (simp add: wifi_mac_top_sm_def wifi_mac_sub_sm_def Let_def sm_body_def b_def)
  have l3: "\<exists>r. sm_log (sm_conn_tail v st S_SCAN (sm_leave_tail e v st S_SCAN s2)) = sm_log s2 @ r"
    using st(2) by (auto simp: sm_leave_tail_def sm_conn_tail_def Let_def wifi_mac_connect_end_def emit_def VM_WIFI_CONNECT_STATE_def)
  have hm: "has_main s v" using w by (simp add: has_main_def waiting_def)
  from top_sm_state(1) [OF ex disjI1 [OF hm], of v] st have "state (sm_conn_tail v st S_SCAN (sm_leave_tail e v st S_SCAN s2)) v = S_SCAN"
    by (auto simp: sm_restores_def)
  with ex l1 l2 l3 show ?thesis by (metis append.assoc)
qed

text \<open>C30: A station that gets no answer to its authentication or association request gives up: the fourth expiry of the
  retry timer reports the failure and goes back to scanning.\<close>

theorem station_gives_up:
  assumes "waiting v m st 0 s"
  shows "\<exists>s'. foldo (\<lambda>_ s. wifi_mac_tx_timeout_ex e v s) [0..<4] s = Some s' \<and> state s' v = S_SCAN
           \<and> Indicate_disconnect v \<in> set (sm_log s')"
proof -
  from waiting_timeout [OF assms, of e] obtain s1 where s1: "wifi_mac_tx_timeout_ex e v s = Some s1" "waiting v m st 1 s1"
    by (auto simp: MGMT_RETRY_TIMES_def)
  from waiting_timeout [OF s1(2), of e] obtain s2 where s2: "wifi_mac_tx_timeout_ex e v s1 = Some s2" "waiting v m st 2 s2"
    by (auto simp: MGMT_RETRY_TIMES_def)
  from waiting_timeout [OF s2(2), of e] obtain s3 where s3: "wifi_mac_tx_timeout_ex e v s2 = Some s3" "waiting v m st 3 s3"
    by (auto simp: MGMT_RETRY_TIMES_def)
  define a where "a = emit [Indicate_disconnect v] (set_vif v (\<lambda>x. x\<lparr>mgmt_pkt_retry_count := 0\<rparr>)
      (set_vif v (\<lambda>x. x\<lparr>mgmt_pkt_retry_count := mgmt_pkt_retry_count x + 1\<rparr>) s3))"
  have "waiting v m st 0 a" using s3(2) by (simp add: a_def waiting_def set_vif_def emit_def)
  from scan_from_waiting [OF this, of e] obtain s4 where s4: "wifi_mac_top_sm e v S_SCAN 0 a = Some (0, s4)" "state s4 v = S_SCAN"
    "\<exists>r. sm_log s4 = sm_log a @ r" by blast
  have "Indicate_disconnect v \<in> set (sm_log a)" by (simp add: a_def emit_def)
  with s4(3) have l: "Indicate_disconnect v \<in> set (sm_log s4)" by auto
  have "wifi_mac_tx_timeout_ex e v s3 = Some s4"
    using s3(2) s4(1) by (auto simp: wifi_mac_tx_timeout_ex_def Let_def a_def [symmetric] waiting_def MGMT_RETRY_TIMES_def)
  then have "foldo (\<lambda>_ s. wifi_mac_tx_timeout_ex e v s) [0..<4] s = Some s4"
    using s1(1) s2(1) s3(1) by (simp add: upt_conv_Cons)
  with s4(2) l show ?thesis by blast
qed

theorem station_gives_up_witness:
  "\<exists>s s'. sm_exec env_zero (take 4 connect_run) mac_zero = Some s \<and>
     foldo (\<lambda>_ s. wifi_mac_tx_timeout_ex env_zero 0 s) [0..<4] s = Some s' \<and> state s' 0 = S_SCAN"
proof -
  have "(case sm_exec env_zero (take 4 connect_run) mac_zero of None \<Rightarrow> False | Some s \<Rightarrow> waiting 0 11 S_AUTH 0 s)" by code_simp
  then obtain s where s: "sm_exec env_zero (take 4 connect_run) mac_zero = Some s" "waiting 0 11 S_AUTH 0 s" by (auto split: option.splits)
  from station_gives_up [OF s(2), of env_zero] s(1) show ?thesis by blast
qed

section \<open>Errors\<close>

text \<open>The state of a station that an authentication frame with status 53 (invalid PMKID) reaches.\<close>

definition pmkid_target :: "sm_env \<Rightarrow> nat \<Rightarrow> nat \<Rightarrow> macaddr \<Rightarrow> u8 list \<Rightarrow> sm_mac \<Rightarrow> bool" where
  "pmkid_target e v i addr b s = (6 \<le> length b \<and> rd16 b 0 \<noteq> uint AUTH_SAE \<and> rd16 b 4 = STATUS_INVALID_PMKID \<and> e_acl e addr
     \<and> vm_flags (vif s v) AND F_COUNTERM = 0 \<and> vm_flags (vif s v) AND F_WPA \<noteq> 0 \<and> sta_wnet_vif (stas s i) = v
     \<and> bit (sta_keymgmtset (stas s i)) RSN_ASE_SAE \<and> sta_authmode (stas s i) = AUTH_OPEN)"

lemma recv_auth_pmkid:
  assumes "pmkid_target e v i addr b s" "mode s v = M_HOSTAP \<Longrightarrow> sta_associd (stas s i) = 0 \<and> \<not> is_disconnecting (stas s i)"
  shows "wifi_mac_recv_auth e v i addr b s =
    map_option snd (wifi_mac_top_sm e v S_AUTH STATUS_INVALID_PMKID
      (set_sta i (\<lambda>x. x\<lparr>sta_authmode := AUTH_SAE\<rparr>) (call ''aml_del_pmksa_by_index'' v (cancel_mgtsend v s))))"
  using assms
  by (auto simp: pmkid_target_def wifi_mac_recv_auth_def auth_wep_def auth_by_type_def wifi_mac_status_code_handle_def Let_def
      STATUS_INVALID_PMKID_def)

text \<open>C31: Such a frame takes a connected station to the authentication state without sending anything and without a timer
  that could end the wait.\<close>

theorem forged_status_unseats:
  assumes "pmkid_target e v i addr b s" "mode s v = M_STA" "state s v = S_CONNECTED" "vm_mainsta (vif s v) = Some m"
  shows "\<exists>s'. wifi_mac_recv_auth e v i addr b s = Some s' \<and> state s' v = S_AUTH \<and> vm_mgtsend (vif s' v) = None"
proof -
  define s0 where "s0 = set_sta i (\<lambda>x. x\<lparr>sta_authmode := AUTH_SAE\<rparr>) (call ''aml_del_pmksa_by_index'' v (cancel_mgtsend v s))"
  have v0: "mode s0 v = M_STA" "state s0 v = S_CONNECTED" "vm_mainsta (vif s0 v) = Some m"
    using assms(2-4) by (simp_all add: s0_def cancel_mgtsend_def set_vif_def)
  define s1 where "s1 = sm_enter v S_AUTH s0"
  have v1: "mode s1 v = M_STA" "state s1 v = S_AUTH" "vm_mainsta (vif s1 v) = Some m" "vm_mgtsend (vif s1 v) = None"
    using v0 by (simp_all add: s1_def sm_enter_def Let_def set_vif_def cancel_mgtsend_def)
  have c: "wifi_mac_check_main_sta e v s1 = (True, s1)" by (simp add: wifi_mac_check_main_sta_def v1)
  define s2 where "s2 = sm_conn_tail v S_CONNECTED S_AUTH (sm_leave_tail e v S_CONNECTED S_AUTH (reset_retry v S_CONNECTED S_AUTH s1))"
  have t: "wifi_mac_top_sm e v S_AUTH STATUS_INVALID_PMKID s0 = Some (0, s2)"
    using v0 v1 c
    by (simp add: wifi_mac_top_sm_def wifi_mac_sub_sm_def Let_def s1_def [symmetric] sm_body_def sm_auth_def s2_def
        STATUS_INVALID_PMKID_def SUBTYPE_AUTH_def SUBTYPE_DEAUTH_def)
  have "state s2 v = S_AUTH \<and> vm_mgtsend (vif s2 v) = None"
    using v1 by (simp add: s2_def sm_conn_tail_def sm_leave_tail_def reset_retry_def Let_def wifi_mac_connect_start_def
        wifi_mac_connect_end_def vsdb_task_def set_vif_def)
  with t recv_auth_pmkid [OF assms(1)] assms(2) show ?thesis by (simp add: s0_def [symmetric])
qed

definition mac_sae_sta :: sm_mac where
  "mac_sae_sta = mac_zero\<lparr>wnet_vifs := (\<lambda>v. if v = 0
     then (vif_zero M_STA)\<lparr>vm_state := S_CONNECTED, vm_mainsta := Some 10, vm_flags := 0x00800010\<rparr> else vif_zero M_HOSTAP),
     stas := (\<lambda>_. sta_zero\<lparr>sta_keymgmtset := 0x100\<rparr>), wm_runningmask := 1, wm_nrunning := 1\<rparr>"

theorem forged_status_unseats_witness:
  "\<exists>s'. wifi_mac_recv_auth env_zero 0 10 [2, 0, 0, 0, 0, 1] [0, 0, 2, 0, 53, 0] mac_sae_sta = Some s' \<and> state s' 0 = S_AUTH"
proof -
  have p: "pmkid_target env_zero 0 10 [2, 0, 0, 0, 0, 1] [0, 0, 2, 0, 53, 0] mac_sae_sta" by code_simp
  from forged_status_unseats [OF p, of 10] show ?thesis by (auto simp: mac_sae_sta_def vif_zero_def)
qed

text \<open>The same frame stops the kernel of an access point: the switch asserts that the interface is a station.\<close>

theorem forged_status_stops_ap:
  assumes "pmkid_target e v i addr b s" "mode s v = M_HOSTAP" "sta_associd (stas s i) = 0" "\<not> is_disconnecting (stas s i)"
    "e_main_node e \<noteq> None"
  shows "wifi_mac_recv_auth e v i addr b s = None"
proof -
  define s0 where "s0 = set_sta i (\<lambda>x. x\<lparr>sta_authmode := AUTH_SAE\<rparr>) (call ''aml_del_pmksa_by_index'' v (cancel_mgtsend v s))"
  have v0: "mode s0 v = M_HOSTAP" using assms(2) by (simp add: s0_def cancel_mgtsend_def)
  have "wifi_mac_top_sm e v S_AUTH STATUS_INVALID_PMKID s0 = None"
  proof (rule ccontr)
    assume "wifi_mac_top_sm e v S_AUTH STATUS_INVALID_PMKID s0 \<noteq> None"
    then obtain rc s1 where "wifi_mac_top_sm e v S_AUTH STATUS_INVALID_PMKID s0 = Some (rc, s1)" by auto
    from top_sm_AUTH_STA [OF this _ assms(5)] v0 show False by simp
  qed
  with recv_auth_pmkid [OF assms(1)] assms(3,4) show ?thesis by (simp add: s0_def [symmetric])
qed

definition mac_sae_ap :: sm_mac where
  "mac_sae_ap = mac_zero\<lparr>wnet_vifs := (\<lambda>v. if v = 1
     then (vif_zero M_HOSTAP)\<lparr>vm_state := S_CONNECTED, vm_mainsta := Some 10, vm_flags := 0x00800010\<rparr> else vif_zero M_STA),
     stas := (\<lambda>_. sta_zero\<lparr>sta_wnet_vif := 1, sta_keymgmtset := 0x100\<rparr>), wm_runningmask := 2, wm_nrunning := 1\<rparr>"

theorem forged_status_stops_ap_witness:
  "wifi_mac_recv_auth env_zero 1 10 [2, 0, 0, 0, 0, 1] [0, 0, 1, 0, 53, 0] mac_sae_ap = None"
proof -
  have p: "pmkid_target env_zero 1 10 [2, 0, 0, 0, 0, 1] [0, 0, 1, 0, 53, 0] mac_sae_ap" by code_simp
  show ?thesis
    by (rule forged_status_stops_ap [OF p]) (simp_all add: mac_sae_ap_def vif_zero_def sta_zero_def env_zero_def)
qed

text \<open>After the device failed to open for the first interface, bringing the interface up again reports success with
  the device still closed: the count of open interfaces was not taken back.\<close>

theorem reopen_skips_device:
  assumes "if_up rc v s = (rc1, s1)" "rc \<noteq> 0" "wm_nopened s = 0" "\<not> if_running s" "\<not> dev_running (vif s v)"
  shows "\<exists>s2. if_up rc' v s1 = (0, s2) \<and> dev_running (vif s2 v) \<and> \<not> if_running s2"
  using assms
  by (auto simp: if_up_def wifi_mac_netdev_open_def if_running_def Let_def set_vif_def emit_def call_def split: if_splits)

theorem reopen_skips_device_witness:
  "\<exists>s1 s2. if_up 5 0 mac_zero = (5, s1) \<and> if_up 0 0 s1 = (0, s2) \<and> dev_running (vif s2 0) \<and> \<not> if_running s2"
proof -
  have "fst (if_up 5 0 mac_zero) = 5" by code_simp
  then obtain s1 where s1: "if_up 5 0 mac_zero = (5, s1)" by (metis prod.collapse)
  from reopen_skips_device [OF s1, of 0] s1 show ?thesis
    by (auto simp: mac_zero_def vif_zero_def if_running_def)
qed

section \<open>Shared key authentication at an access point\<close>

definition authed :: "sm_mac \<Rightarrow> nat \<Rightarrow> bool" where
  "authed s j = (sta_flags (stas s j) AND STA_NODE_AUTH \<noteq> 0)"

text \<open>No station is authenticated by an operation.\<close>

definition no_new_auth :: "sm_mac \<Rightarrow> sm_mac \<Rightarrow> bool" where
  "no_new_auth s s' = (\<forall>j. authed s' j \<longrightarrow> authed s j)"

lemma no_new_auth_trans: "no_new_auth s t \<Longrightarrow> no_new_auth t u \<Longrightarrow> no_new_auth s u" by (auto simp: no_new_auth_def)

lemma no_new_auth_stas: "stas s' = stas s \<Longrightarrow> no_new_auth s s'" by (simp add: no_new_auth_def authed_def)

lemma no_new_auth_emit [simp]: "no_new_auth (emit evs s) t = no_new_auth s t" "no_new_auth s (emit evs t) = no_new_auth s t"
  by (simp_all add: no_new_auth_def authed_def)

lemma no_new_auth_set:
  assumes "\<And>x. sta_flags (f x) AND STA_NODE_AUTH \<noteq> 0 \<Longrightarrow> sta_flags x AND STA_NODE_AUTH \<noteq> 0"
  shows "no_new_auth s (set_sta i f s)"
  using assms by (auto simp: no_new_auth_def authed_def set_sta_def)

lemma stas_send_auth:
  assumes "wifi_mac_send_mgmt e i SUBTYPE_AUTH arg s = Some s'"
  shows "stas s' = stas s"
  using assms
  by (auto simp: wifi_mac_send_mgmt_def wifi_mac_send_auth_def start_mgtsend_def Let_def split: option.splits if_splits)

lemma aref_keeps: "(f OR STA_NODE_AREF) AND STA_NODE_AUTH = f AND STA_NODE_AUTH"
  by (simp add: STA_NODE_AREF_def STA_NODE_AUTH_def bit.conj_disj_distrib2)

definition fresh_nodes :: "sm_env \<Rightarrow> bool" where
  "fresh_nodes e = ((case e_new_node e of None \<Rightarrow> True | Some n \<Rightarrow> sta_flags (snd n) = 0)
     \<and> (case e_tmp_node e of None \<Rightarrow> True | Some n \<Rightarrow> sta_flags (snd n) = 0))"

lemma bup_no_new_auth: "wifi_mac_bup_bss e v s = Some (Some (i, s')) \<Longrightarrow> fresh_nodes e \<Longrightarrow> no_new_auth s s'"
  by (auto simp: wifi_mac_bup_bss_def fresh_nodes_def add_node_def Let_def no_new_auth_def authed_def set_sta_def set_vif_def
      split: option.splits if_splits)

lemma peer_no_new_auth: "peer_of e v i s = Some (Some (j, s')) \<Longrightarrow> fresh_nodes e \<Longrightarrow> no_new_auth s s'"
  by (auto simp: peer_of_def no_new_auth_stas dest: bup_no_new_auth split: if_splits)

lemma error_no_new_auth:
  assumes "wifi_mac_send_error e i SUBTYPE_AUTH arg s = Some s'" "fresh_nodes e"
  shows "no_new_auth s s'"
proof (cases "vm_mainsta (vif s (sta_wnet_vif (stas s i))) = Some i")
  case False
  with assms(1) show ?thesis by (auto simp: wifi_mac_send_error_def Let_def intro: no_new_auth_stas stas_send_auth)
next
  case True
  show ?thesis
  proof (cases "e_tmp_node e")
    case None with True assms(1) show ?thesis by (auto simp: wifi_mac_send_error_def Let_def intro: no_new_auth_stas)
  next
    case (Some n)
    define t where "t = set_sta (fst n) (\<lambda>_. (snd n)\<lparr>sta_wnet_vif := sta_wnet_vif (stas s i)\<rparr>) s"
    from assms(2) Some have "no_new_auth s t" by (auto simp: t_def fresh_nodes_def no_new_auth_def authed_def set_sta_def)
    moreover from assms(1) True Some obtain u where "wifi_mac_send_mgmt e (fst n) SUBTYPE_AUTH arg t = Some u" "s' = emit [Free_sta (fst n)] u"
      by (auto simp: wifi_mac_send_error_def Let_def t_def)
    ultimately show ?thesis using no_new_auth_trans no_new_auth_stas [OF stas_send_auth] by simp
  qed
qed

lemma shared_ap_checked:
  assumes t: "auth_shared_ap e v i sq c s = Some s'" and md: "mode s v = M_HOSTAP" and e: "fresh_nodes e"
    and n: "authed s' j" "\<not> authed s j"
  shows "j = i \<and> sq = AUTH_SHARED_RESPONSE \<and> sta_challenge (stas s i) = c \<and> c \<noteq> None"
proof (rule ccontr)
  assume ne: "\<not> ?thesis"
  have bad: "no_new_auth s s'" if "auth_bad e v i sq st (emit evs s) = Some s'" for st evs
    using error_no_new_auth [OF _ e, of i _ "emit evs s" s'] that md by (auto simp: auth_bad_def)
  have bad0: "no_new_auth s s'" if "auth_bad e v i sq st s = Some s'" for st
    using error_no_new_auth [OF _ e, of i _ s s'] that md by (auto simp: auth_bad_def)
  have req: "no_new_auth s s'"
    if p: "peer_of e v i s = Some (Some (k, s1))"
      and m: "wifi_mac_send_mgmt e k SUBTYPE_AUTH a (set_sta k (\<lambda>x. x\<lparr>sta_challenge := Some (e_random e)\<rparr>)
                (set_sta k (\<lambda>x. x\<lparr>sta_flags := sta_flags x OR STA_NODE_AREF\<rparr>) s1)) = Some s'" for k s1 a
  proof -
    note 1 = peer_no_new_auth [OF p e]
    have 2: "no_new_auth s1 (set_sta k (\<lambda>x. x\<lparr>sta_flags := sta_flags x OR STA_NODE_AREF\<rparr>) s1)"
      by (rule no_new_auth_set) (simp add: aref_keeps)
    have 3: "no_new_auth t (set_sta k (\<lambda>x. x\<lparr>sta_challenge := Some (e_random e)\<rparr>) t)" for t by (rule no_new_auth_set) simp
    have 4: "no_new_auth t s'" if "wifi_mac_send_mgmt e k SUBTYPE_AUTH a t = Some s'" for t
      using stas_send_auth [OF that] by (rule no_new_auth_stas)
    from 1 2 3 4 [OF m] show ?thesis by (meson no_new_auth_trans)
  qed
  have req0: "no_new_auth s (set_sta k (\<lambda>x. x\<lparr>sta_flags := sta_flags x OR STA_NODE_AREF\<rparr>) s1)"
    if p: "peer_of e v i s = Some (Some (k, s1))" for k s1
    by (rule no_new_auth_trans [OF peer_no_new_auth [OF p e] no_new_auth_set]) (simp add: aref_keeps)
  have rsp: "j = i" if "wifi_mac_send_mgmt e i SUBTYPE_AUTH a (wifi_mac_sta_auth i s) = Some s'" for a
    using stas_send_auth [OF that] n by (auto simp: authed_def wifi_mac_sta_auth_def set_sta_def split: if_splits)
  have "no_new_auth s s'"
    using t ne rsp
    by (auto simp: auth_shared_ap_def Let_def split: if_splits option.splits
        intro: bad bad0 req req0 no_new_auth_stas)
  with n show False by (simp add: no_new_auth_def)
qed

text \<open>C32: An access point authenticates a station by shared key only when the frame returns the challenge that it sent to
  this very station.\<close>

theorem shared_key_checked:
  assumes "wifi_mac_auth_shared e i b sq status s = Some s'" "mode s (sta_wnet_vif (stas s i)) = M_HOSTAP" "fresh_nodes e"
    "authed s' j" "\<not> authed s j"
  shows "j = i \<and> sq = AUTH_SHARED_RESPONSE \<and> sta_challenge (stas s i) = Some (take CHALLENGE_LEN (drop 2 b))"
proof -
  let ?v = "sta_wnet_vif (stas s i)"
  have bad: False if "auth_bad e ?v i sq st (emit evs s) = Some s'" for st evs
  proof -
    from that assms(2) have "wifi_mac_send_error e i SUBTYPE_AUTH (auth_arg (sq + 1) st) (emit evs s) = Some s'" by (simp add: auth_bad_def)
    from error_no_new_auth [OF this assms(3)] assms(4,5) show False by (simp add: no_new_auth_def authed_def)
  qed
  have bad0: False if "auth_bad e ?v i sq st s = Some s'" for st
  proof -
    from that assms(2) have "wifi_mac_send_error e i SUBTYPE_AUTH (auth_arg (sq + 1) st) s = Some s'" by (simp add: auth_bad_def)
    from error_no_new_auth [OF this assms(3)] assms(4,5) show False by (simp add: no_new_auth_def)
  qed
  from assms(1,2) bad bad0 obtain c where c: "shared_challenge b sq = Some c" "auth_shared_ap e ?v i sq c s = Some s'"
    by (auto simp: wifi_mac_auth_shared_def Let_def split: if_splits option.splits)
  from shared_ap_checked [OF c(2) assms(2-5)] have r: "j = i" "sq = AUTH_SHARED_RESPONSE" "sta_challenge (stas s i) = c" by auto
  from c(1) r(2) have "c = Some (take CHALLENGE_LEN (drop 2 b))"
    by (auto simp: shared_challenge_def Let_def split: if_splits option.splits)
  with r show ?thesis by simp
qed

definition mac_wep_ap :: sm_mac where
  "mac_wep_ap = mac_zero\<lparr>wnet_vifs := (\<lambda>v. if v = 1
     then (vif_zero M_HOSTAP)\<lparr>vm_state := S_CONNECTED, vm_mainsta := Some 10, vm_flags := 0x10, vm_curchan := Some chan_1\<rparr> else vif_zero M_STA),
     stas := (\<lambda>_. sta_zero\<lparr>sta_wnet_vif := 1, sta_authmode := AUTH_SHARED, sta_challenge := Some (replicate 128 9)\<rparr>)\<rparr>"

theorem shared_key_checked_witness:
  "\<exists>s'. wifi_mac_auth_shared env_zero 12 (16 # 128 # replicate 128 9) AUTH_SHARED_RESPONSE 0 mac_wep_ap = Some s' \<and> authed s' 12
     \<and> sta_challenge (stas mac_wep_ap 12) = Some (take CHALLENGE_LEN (drop 2 (16 # 128 # replicate 128 9)))"
proof -
  have "(case wifi_mac_auth_shared env_zero 12 (16 # 128 # replicate 128 9) AUTH_SHARED_RESPONSE 0 mac_wep_ap of
      None \<Rightarrow> False | Some s' \<Rightarrow> authed s' 12)" by code_simp
  then obtain s' where s': "wifi_mac_auth_shared env_zero 12 (16 # 128 # replicate 128 9) AUTH_SHARED_RESPONSE 0 mac_wep_ap = Some s'" "authed s' 12"
    by (auto split: option.splits)
  have "mode mac_wep_ap (sta_wnet_vif (stas mac_wep_ap 12)) = M_HOSTAP" "fresh_nodes env_zero" "\<not> authed mac_wep_ap 12"
    by code_simp+
  from shared_key_checked [OF s'(1) this(1,2) s'(2) this(3)] s' show ?thesis by blast
qed

end
