(* ===== verification/ScanTab.thy ===== *)
theory ScanTab
  imports ConnSm Rates Elements RsnIe
begin

text \<open>
  The results of a scan (\<^verbatim>\<open>wifi_mac_scan.c\<close>): the table of networks heard, how beacons and probe responses fill
  it (\<^verbatim>\<open>wifi_mac_recv.c\<close>), which entry is chosen to connect to, and the channels worth a visit while roaming.
  The entries are a store indexed by their address; the list \<open>st_entry\<close> and the hash chains hold addresses.  A frame is
  the list of its bytes and an element in it the index of its first byte, as in theory Elements; channels are indices into
  the channel list.  \<open>None\<close> is an access outside an array or a frame, or a failed KASSERT.
\<close>

section \<open>Data\<close>

text \<open>The elements an entry keeps, and the size of the array for each.\<close>

datatype ie_slot =
    Ie_wpa | Ie_wme | Ie_htcap | Ie_htinfo | Ie_country | Ie_bss_load | Ie_rsn | Ie_rsnx | Ie_wps | Ie_wai | Ie_p2p nat | Ie_wfd
  | Ie_ext_cap | Ie_vht_cap | Ie_vht_opt | Ie_vht_tx_pwr | Ie_vht_ch_sw | Ie_vht_ext_bss_ld | Ie_vht_quiet_ch | Ie_vht_opt_md_ntf

definition SCANINFO_IE_LENGTH :: nat where "SCANINFO_IE_LENGTH = 260"
definition WIFINET_NWID_LEN :: nat where "WIFINET_NWID_LEN = 32"
definition WIFINET_CHAN_MAX_NUM :: u8 where "WIFINET_CHAN_MAX_NUM = 165"
definition STA_HASHSIZE :: nat where "STA_HASHSIZE = 32"
definition WIFINET_SCAN_MAX_SSID :: nat where "WIFINET_SCAN_MAX_SSID = 16"
definition ROAMING_CANDIDATE_CHAN_MAX :: nat where "ROAMING_CANDIDATE_CHAN_MAX = 6"
definition WIFINET_CONNECT_FAILS :: u8 where "WIFINET_CONNECT_FAILS = 5"
definition WIFINET_CONNECT_CNT_AGE :: u64 where "WIFINET_CONNECT_CNT_AGE = 120"

fun ie_size :: "ie_slot \<Rightarrow> nat" where
  "ie_size Ie_ext_cap = 10"
| "ie_size Ie_vht_cap = 14"
| "ie_size Ie_vht_opt = 7"
| "ie_size Ie_vht_tx_pwr = 7"
| "ie_size Ie_vht_ch_sw = 98"
| "ie_size Ie_vht_ext_bss_ld = 8"
| "ie_size Ie_vht_quiet_ch = 9"
| "ie_size Ie_vht_opt_md_ntf = 3"
| "ie_size _ = SCANINFO_IE_LENGTH"

record scan_info =
  SI_macaddr :: macaddr
  SI_bssid :: macaddr
  SI_ssid :: "u8 list"
  SI_rates :: "u8 list"
  SI_exrates :: "u8 list"
  SI_tstamp :: "u8 list"
  SI_intval :: u16
  SI_capinfo :: u16
  SI_chan :: nat
  SI_timoff :: u16
  SI_erp :: u8
  SI_rssi :: int
  SI_dtimperiod :: u8
  SI_age :: u32
  SI_ie :: "ie_slot \<Rightarrow> u8 list"
  si_rsn_capa :: u16
  SI_frame_len :: u32

record scaninfo_entry =
  scaninfo :: scan_info
  connectcnt :: u8
  se_valid :: bool
  se_avgrssi :: u32
  LastUpdateTime :: u64
  ConnectTime :: u64

record scaninfo_table =
  st_entry :: "nat list"
  st_hash :: "nat \<Rightarrow> nat list"
  st_se :: "nat \<Rightarrow> scaninfo_entry"

record scan_ssid =
  ss_len :: int
  ss_bytes :: "u8 list"

text \<open>The state of the scan.  An armed timer has its period in milliseconds.\<close>

record scan_state =
  ScanTablePriv :: scaninfo_table
  VMacPriv :: nat
  scan_CfgFlags :: u16
  ss_nssid :: u8
  ss_ssid :: "scan_ssid list"
  ss_chans :: "nat option list"
  roaming_ssid :: scan_ssid
  roaming_candidate_chans :: "(nat option \<times> int) list"
  roaming_candidate_chans_cnt :: nat
  roaming_full_scan :: bool
  scan_ssid_count :: u16
  scan_next_chan_index :: nat
  scan_last_chan_index :: nat
  scan_chan_wait :: nat
  scan_StateFlags :: u32
  ss_scan_timer :: "nat option"
  ss_probe_timer :: "nat option"
  ss_scan_abort_timer :: "nat option"

text \<open>The fields of an interface that only the scan uses.\<close>

record conn_chan_list =
  conn_chan :: "nat option list"
  cc_da :: macaddr
  cc_bssid :: macaddr
  conn_num :: nat

record scan_vif =
  vm_des_bssid :: macaddr
  vm_fixed_rate :: "bool \<times> u32"
  vm_legacy_rates :: rateset
  vm_mac_mode :: macmode
  vm_connchan :: conn_chan_list
  vm_scanchan_rssi :: int
  vm_connect_scan_entry :: scaninfo_entry
  vm_scan_before_connect_flag :: bool
  vm_chan_simulate_scan_flag :: bool
  vm_chan_switch_scan_flag :: bool
  vm_chan_switch_scan_count :: u8
  vm_chan_roaming_scan_flag :: bool
  vm_chan_roaming_scan_count :: u8
  vm_switchchan :: "nat option"
  vm_scan_hang :: bool
  p2p_enable :: bool
  social_channel :: bool
  vm_scan_time_idle :: nat
  vm_scan_time_connect :: nat
  vm_scan_time_before_connect :: nat
  vm_scan_time_chan_switch :: nat
  quiet_queue :: bool

definition SCANSTATE_F_DISCARD :: u32 where "SCANSTATE_F_DISCARD = 0x1"
definition SCANSTATE_F_CANCEL :: u32 where "SCANSTATE_F_CANCEL = 0x2"
definition SCANSTATE_F_START :: u32 where "SCANSTATE_F_START = 0x4"
definition SCANSTATE_F_WAIT_TBTT :: u32 where "SCANSTATE_F_WAIT_TBTT = 0x8"
definition SCANSTATE_F_RESTORE :: u32 where "SCANSTATE_F_RESTORE = 0x20"
definition SCANSTATE_F_NOTIFY_AP :: u32 where "SCANSTATE_F_NOTIFY_AP = 0x40"
definition SCANSTATE_F_TX_DONE :: u32 where "SCANSTATE_F_TX_DONE = 0x80"
definition SCANSTATE_F_WAIT_PKT_CLEAR :: u32 where "SCANSTATE_F_WAIT_PKT_CLEAR = 0x100"
definition SCANSTATE_F_DISCONNECT_REQ_CANCEL :: u32 where "SCANSTATE_F_DISCONNECT_REQ_CANCEL = 0x200"
definition SCANSTATE_F_WAIT_CHANNEL_SWITCH :: u32 where "SCANSTATE_F_WAIT_CHANNEL_SWITCH = 0x400"
definition SCANSTATE_F_CHANNEL_SWITCH_COMPLETE :: u32 where "SCANSTATE_F_CHANNEL_SWITCH_COMPLETE = 0x800"
definition SCANSTATE_F_SEND_PROBEREQ_AGAIN :: u32 where "SCANSTATE_F_SEND_PROBEREQ_AGAIN = 0x1000"
definition SCANSTATE_F_GET_CONNECT_AP :: u32 where "SCANSTATE_F_GET_CONNECT_AP = 0x2000"

definition SCANCFG_CONNECT :: u16 where "SCANCFG_CONNECT = 0x100"
definition CAPINFO_ESS :: u16 where "CAPINFO_ESS = 0x1"
definition CAPINFO_IBSS :: u16 where "CAPINFO_IBSS = 0x2"
definition CAPINFO_PRIVACY :: u16 where "CAPINFO_PRIVACY = 0x10"
definition F_SCAN :: u32 where "F_SCAN = 0x80"
definition F_DESBSSID :: u32 where "F_DESBSSID = 0x1000"
definition F_IGNORE_SSID :: u32 where "F_IGNORE_SSID = 0x4000"
definition RATE_MCS :: u32 where "RATE_MCS = 0x80"

definition STA_MATCH_ERR_CHAN :: u32 where "STA_MATCH_ERR_CHAN = 1"
definition STA_MATCH_ERR_BSS :: u32 where "STA_MATCH_ERR_BSS = 2"
definition STA_MATCH_ERR_PRIVACY :: u32 where "STA_MATCH_ERR_PRIVACY = 4"
definition STA_MATCH_ERR_RATE :: u32 where "STA_MATCH_ERR_RATE = 8"
definition STA_MATCH_ERR_HTRATE :: u32 where "STA_MATCH_ERR_HTRATE = 16"
definition STA_MATCH_ERR_SSID :: u32 where "STA_MATCH_ERR_SSID = 32"
definition STA_MATCH_ERR_BSSID :: u32 where "STA_MATCH_ERR_BSSID = 64"
definition STA_MATCH_ERR_STA_FAILS_MAX :: u32 where "STA_MATCH_ERR_STA_FAILS_MAX = 128"

lemmas match_err_defs = STA_MATCH_ERR_CHAN_def STA_MATCH_ERR_BSS_def STA_MATCH_ERR_PRIVACY_def STA_MATCH_ERR_RATE_def
  STA_MATCH_ERR_HTRATE_def STA_MATCH_ERR_SSID_def STA_MATCH_ERR_BSSID_def STA_MATCH_ERR_STA_FAILS_MAX_def

section \<open>The table\<close>

definition STA_HASH :: "macaddr \<Rightarrow> nat" where "STA_HASH a = unat (a ! 5) mod STA_HASHSIZE"

definition se_mac :: "scaninfo_table \<Rightarrow> nat \<Rightarrow> macaddr" where "se_mac t i = SI_macaddr (scaninfo (st_se t i))"

definition st_link :: "nat \<Rightarrow> nat \<Rightarrow> scaninfo_table \<Rightarrow> scaninfo_table" where
  "st_link h i t = t\<lparr>st_hash := (st_hash t)(h := i # st_hash t h), st_entry := st_entry t @ [i]\<rparr>"

text \<open>\<open>list_del_init\<close> on both links of an entry.\<close>

definition st_del :: "nat \<Rightarrow> scaninfo_table \<Rightarrow> scaninfo_table" where
  "st_del i t = t\<lparr>st_entry := filter (\<lambda>j. j \<noteq> i) (st_entry t), st_hash := (\<lambda>h. filter (\<lambda>j. j \<noteq> i) (st_hash t h))\<rparr>"

definition wifi_mac_scan_flush :: "scaninfo_table \<Rightarrow> scaninfo_table" where
  "wifi_mac_scan_flush t = foldl (\<lambda>t i. st_del i t) t (st_entry t)"

section \<open>Saving elements\<close>

text \<open>\<open>saveie\<close> on an array: an absent element only clears the length byte.  The element of \<open>ie[1] + 2\<close> bytes has to lie in
  the frame and to fit into the array.\<close>

definition saveie :: "u8 list \<Rightarrow> u8 list \<Rightarrow> nat option \<Rightarrow> u8 list option" where
  "saveie iep m ie =
     (case ie of
        None \<Rightarrow> if 1 < length iep then Some (iep[1 := 0]) else None
      | Some p \<Rightarrow> do {
          l \<leftarrow> nth_opt m (p + 1);
          let n = unat l + 2;
          if p + n \<le> length m \<and> n \<le> length iep then Some (take n (drop p m) @ drop n iep) else None })"

definition save_slot :: "u8 list \<Rightarrow> ie_slot \<times> nat option \<Rightarrow> scan_info \<Rightarrow> scan_info option" where
  "save_slot m x i = do { b \<leftarrow> saveie (SI_ie i (fst x)) m (snd x); Some (i\<lparr>SI_ie := (SI_ie i)(fst x := b)\<rparr>) }"

definition present :: "(ie_slot \<times> nat option) list \<Rightarrow> (ie_slot \<times> nat option) list" where
  "present xs = filter (\<lambda>x. snd x \<noteq> None) xs"

definition rsn_zero :: rsnparms where
  "rsn_zero = \<lparr>rsn_mcastcipher = 0, rsn_mcastkeylen = 0, rsn_ucastcipherset = 0, rsn_ucastcipher = 0, rsn_ucastkeylen = 0,
     rsn_keymgmtset = 0, rsn_caps = 0, rsn_caps_offset = 0, rsn_pmkid_count = 0, rsn_pmkid_offset = 0, rsn_pmkid = replicate 16 0,
     rsn_gmcipher = 0, sa_valid = 0, gtksa = 0, ptksa = 0\<rparr>"

text \<open>The RSN element is parsed from the array of the entry; an error drops the frame.\<close>

definition rx_rsn :: "u8 list \<Rightarrow> scan_param \<Rightarrow> scan_info \<Rightarrow> (bool \<times> scan_info) option" where
  "rx_rsn m sp i =
     (case rsn sp of
        None \<Rightarrow> Some (True, i)
      | Some p \<Rightarrow> do {
          i \<leftarrow> save_slot m (Ie_rsn, Some p) i;
          (err, r) \<leftarrow> wifi_mac_parse_counterpart_rsn (SI_ie i Ie_rsn) 0 False rsn_zero;
          Some (if err \<noteq> 0 then (False, i) else (True, i\<lparr>si_rsn_capa := rsn_caps r\<rparr>)) })"

text \<open>A name from a beacon does not replace one that is already known; a rate set has a maximal size.\<close>

definition rx_ssid :: "u8 list \<Rightarrow> scan_param \<Rightarrow> bool \<Rightarrow> scan_info \<Rightarrow> scan_info option" where
  "rx_ssid m sp probersp i =
     (case ssid sp of
        None \<Rightarrow> Some i
      | Some p \<Rightarrow> do {
          l \<leftarrow> nth_opt m (p + 1); old \<leftarrow> nth_opt (SI_ssid i) 1;
          if l \<noteq> 0 \<and> (probersp \<or> old = 0) then do { b \<leftarrow> saveie (SI_ssid i) m (Some p); Some (i\<lparr>SI_ssid := b\<rparr>) } else Some i })"

definition save_rates :: "u8 list \<Rightarrow> nat \<Rightarrow> u8 list \<Rightarrow> u8 list option" where
  "save_rates m p b = do { l \<leftarrow> nth_opt m (p + 1); if unat l \<le> WIFINET_RATE_MAXSIZE then saveie b m (Some p) else None }"

definition rx_rates :: "u8 list \<Rightarrow> scan_param \<Rightarrow> scan_info \<Rightarrow> scan_info option" where
  "rx_rates m sp i = do {
     b \<leftarrow> (case sp_rates sp of None \<Rightarrow> Some (SI_rates i) | Some p \<Rightarrow> save_rates m p (SI_rates i));
     x \<leftarrow> (case xrates sp of None \<Rightarrow> saveie (SI_exrates i) m None | Some p \<Rightarrow> save_rates m p (SI_exrates i));
     Some (i\<lparr>SI_rates := b, SI_exrates := x\<rparr>) }"

text \<open>The fixed fields.  The address of the sender is at byte 10 of the header, the BSSID at byte 16.\<close>

definition i_addr2 :: "u8 list \<Rightarrow> macaddr" where "i_addr2 m = take 6 (drop 10 m)"
definition i_addr3 :: "u8 list \<Rightarrow> macaddr" where "i_addr3 m = take 6 (drop 16 m)"

definition avg_rssi :: "int \<Rightarrow> scaninfo_entry \<Rightarrow> u32" where
  "avg_rssi rssi e = (if LastUpdateTime e = 0 then word_of_int rssi else drop_bit 2 (se_avgrssi e + word_of_int (rssi * 3)))"

definition rx_fixed :: "u8 list \<Rightarrow> scan_param \<Rightarrow> nat \<Rightarrow> int \<Rightarrow> scaninfo_entry \<Rightarrow> scaninfo_entry option" where
  "rx_fixed m sp apchan rssi e = do {
     p \<leftarrow> tstamp sp;
     if length m < p + 8 then None else do {
     dtim \<leftarrow> (case tim sp of None \<Rightarrow> Some (SI_dtimperiod (scaninfo e)) | Some q \<Rightarrow> nth_opt m (q + 3));
     Some (e\<lparr>se_avgrssi := avg_rssi rssi e,
             scaninfo := (scaninfo e)\<lparr>SI_bssid := i_addr3 m, SI_rssi := sint (avg_rssi rssi e), SI_tstamp := take 8 (drop p m),
               SI_intval := ucast (bintval sp), SI_capinfo := capinfo sp, SI_chan := apchan, SI_erp := erp sp,
               SI_timoff := ucast (timoff sp), SI_dtimperiod := dtim\<rparr>\<rparr>) } }"

definition early_slots :: "scan_param \<Rightarrow> (ie_slot \<times> nat option) list" where
  "early_slots sp = present [(Ie_rsnx, rsnxe sp), (Ie_country, country sp), (Ie_bss_load, bss_load sp)]"

definition late_slots :: "scan_param \<Rightarrow> (ie_slot \<times> nat option) list" where
  "late_slots sp = [(Ie_wai, wai sp)] @ present (map (\<lambda>n. (Ie_p2p n, p2p sp ! n)) [0..<MAX_P2PIE_NUM])
     @ [(Ie_wfd, wfd sp), (Ie_wme, wme sp), (Ie_htcap, htcap sp), (Ie_htinfo, htinfo sp), (Ie_country, country sp), (Ie_wpa, wpa sp)]
     @ present [(Ie_wps, wps sp)]"

definition vht_slots :: "scan_param \<Rightarrow> (ie_slot \<times> nat option) list" where
  "vht_slots sp = [(Ie_ext_cap, ext_cap sp), (Ie_vht_cap, vht_cap sp), (Ie_vht_opt, vht_opt sp), (Ie_vht_tx_pwr, vht_tx_pwr sp),
     (Ie_vht_ch_sw, vht_ch_sw sp), (Ie_vht_ext_bss_ld, vht_ext_bss_ld sp), (Ie_vht_quiet_ch, vht_quiet_ch sp),
     (Ie_vht_opt_md_ntf, vht_opt_md_ntf sp)]"

definition rx_entry :: "u64 \<Rightarrow> u64 \<Rightarrow> u8 list \<Rightarrow> scan_param \<Rightarrow> bool \<Rightarrow> nat \<Rightarrow> int \<Rightarrow> scaninfo_entry \<Rightarrow> scaninfo_entry option" where
  "rx_entry hz jiffies m sp probersp apchan rssi e = do {
     i \<leftarrow> foldo (save_slot m) (early_slots sp) (scaninfo e);
     i \<leftarrow> rx_ssid m sp probersp (i\<lparr>SI_macaddr := i_addr2 m\<rparr>);
     i \<leftarrow> rx_rates m sp i;
     e \<leftarrow> rx_fixed m sp apchan rssi (e\<lparr>scaninfo := i\<rparr>);
     i \<leftarrow> foldo (save_slot m) (late_slots sp) (scaninfo e);
     let e = e\<lparr>connectcnt := (if connectcnt e \<noteq> 0 \<and> jiffies - ConnectTime e > WIFINET_CONNECT_CNT_AGE * hz then 0 else connectcnt e),
               LastUpdateTime := jiffies, se_valid := True\<rparr>;
     i \<leftarrow> foldo (save_slot m) (vht_slots sp) i;
     Some (e\<lparr>scaninfo := i\<rparr>) }"

text \<open>A fresh entry is zeroed memory.\<close>

definition info_zero :: scan_info where
  "info_zero = \<lparr>SI_macaddr = replicate 6 0, SI_bssid = replicate 6 0, SI_ssid = replicate (2 + WIFINET_NWID_LEN) 0,
     SI_rates = replicate (2 + WIFINET_RATE_MAXSIZE) 0, SI_exrates = replicate (2 + WIFINET_RATE_MAXSIZE) 0,
     SI_tstamp = replicate 8 0, SI_intval = 0, SI_capinfo = 0, SI_chan = 0, SI_timoff = 0, SI_erp = 0, SI_rssi = 0,
     SI_dtimperiod = 0, SI_age = 0, SI_ie = (\<lambda>i. replicate (ie_size i) 0), si_rsn_capa = 0, SI_frame_len = 0\<rparr>"

definition entry_zero :: scaninfo_entry where
  "entry_zero = \<lparr>scaninfo = info_zero, connectcnt = 0, se_valid = False, se_avgrssi = 0, LastUpdateTime = 0, ConnectTime = 0\<rparr>"

text \<open>What wifi_mac_scan_sta_get_ap_channel reads of the frame.\<close>

definition ap_param_of :: "u8 list \<Rightarrow> scan_param \<Rightarrow> ap_param option" where
  "ap_param_of m sp = do {
     hi \<leftarrow> (case htinfo sp of None \<Rightarrow> Some None
           | Some p \<Rightarrow> do { c \<leftarrow> nth_opt m (p + 2); b \<leftarrow> nth_opt m (p + 3);
                 Some (Some \<lparr>hi_ctrlchannel = c, hi_extchoff = b AND 3, hi_txchwidth = drop_bit 2 b AND 1\<rparr>) });
     cap \<leftarrow> (case htcap sp of None \<Rightarrow> Some None | Some p \<Rightarrow> do { w \<leftarrow> READ_16L m (p + 2); Some (Some w) });
     vht \<leftarrow> (case vht_opt sp of None \<Rightarrow> Some None
           | Some p \<Rightarrow> do { w \<leftarrow> nth_opt m (p + 2); seg \<leftarrow> (if 1 \<le> w then nth_opt m (p + 3) else Some 0); Some (Some (w, seg)) });
     Some \<lparr>ap_param.sp_chan = scan_param.sp_chan sp, sp_htinfo = hi, sp_htcap = cap, sp_vht_opt = vht\<rparr> }"

text \<open>Whether the frame names one of the networks that are looked for.\<close>

definition named_ssid :: "u8 list \<Rightarrow> scan_param \<Rightarrow> scan_state \<Rightarrow> bool" where
  "named_ssid m sp ss =
     (case ssid sp of
        None \<Rightarrow> False
      | Some p \<Rightarrow> let l = unat (m ! (p + 1)) in 0 < l \<and> l \<le> WIFINET_NWID_LEN
          \<and> list_ex (\<lambda>x. ss_len x = int l \<and> take l (ss_bytes x) = take l (drop (p + 2) m)) (take (unat (ss_nssid ss)) (ss_ssid ss)))"

text \<open>\<open>mem\<close> is what the allocator returns.  An entry whose RSN element cannot be parsed is freed; one that was in the table is
  unlinked before.\<close>

definition wifi_mac_scan_rx ::
    "u64 \<Rightarrow> u64 \<Rightarrow> nat option \<Rightarrow> chan_mac \<Rightarrow> u8 list \<Rightarrow> scan_param \<Rightarrow> bool \<Rightarrow> int \<Rightarrow> nat option \<Rightarrow> scan_state \<Rightarrow> scan_state option" where
  "wifi_mac_scan_rx hz jiffies mem w m sp probersp rssi oldse ss =
     (if scan_StateFlags ss AND SCANSTATE_F_DISCARD \<noteq> 0 then Some ss
      else do {
        ap \<leftarrow> ap_param_of m sp;
        (case wifi_mac_scan_sta_get_ap_channel w ap of
           None \<Rightarrow> Some ss
         | Some apchan \<Rightarrow>
           (case (case oldse of Some i \<Rightarrow> Some i | None \<Rightarrow> mem) of
              None \<Rightarrow> Some ss
            | Some i \<Rightarrow> do {
                let t = ScanTablePriv ss;
                let e = (case oldse of Some i \<Rightarrow> st_se t i | None \<Rightarrow> entry_zero);
                (ok, inf) \<leftarrow> rx_rsn m sp ((scaninfo e)\<lparr>SI_frame_len := frame_len sp\<rparr>);
                if \<not> ok then Some (if oldse = None then ss else ss\<lparr>ScanTablePriv := st_del i t\<rparr>)
                else do {
                  e \<leftarrow> rx_entry hz jiffies m sp probersp apchan rssi (e\<lparr>scaninfo := inf\<rparr>);
                  let t = t\<lparr>st_se := (st_se t)(i := e)\<rparr>;
                  let t = (if oldse = None then st_link (STA_HASH (i_addr2 m)) i t else t);
                  let ss = ss\<lparr>ScanTablePriv := t\<rparr>;
                  Some (if scan_CfgFlags ss AND SCANCFG_CONNECT \<noteq> 0 \<and> named_ssid m sp ss
                        then ss\<lparr>scan_StateFlags := scan_StateFlags ss OR SCANSTATE_F_GET_CONNECT_AP\<rparr> else ss) } })) })"

section \<open>Channels to roam to\<close>

text \<open>The pass over the array: the slot of the channel, or the slot with the lowest level.\<close>

fun roam_scan :: "chan_mac \<Rightarrow> int \<Rightarrow> (nat option \<times> int) list \<Rightarrow> nat \<Rightarrow> (nat \<times> int) option \<Rightarrow> nat + nat option" where
  "roam_scan w pri [] i worst = Inr (map_option fst worst)"
| "roam_scan w pri ((None, r) # xs) i worst = roam_scan w pri xs (i + 1) worst"
| "roam_scan w pri ((Some c, r) # xs) i worst =
     (if chan_pri_num (wm_channels w ! c) = pri then Inl i
      else roam_scan w pri xs (i + 1) (case worst of None \<Rightarrow> Some (i, r) | Some (j, rw) \<Rightarrow> if rw > r then Some (i, r) else worst))"

definition update_roaming_candidate_chan :: "chan_mac \<Rightarrow> nat \<Rightarrow> int \<Rightarrow> scan_state \<Rightarrow> scan_state option" where
  "update_roaming_candidate_chan w apchan rssi ss =
     (let xs = roaming_candidate_chans ss; n = roaming_candidate_chans_cnt ss in
      case roam_scan w (chan_pri_num (wm_channels w ! apchan)) xs 0 None of
        Inl i \<Rightarrow> Some (ss\<lparr>roaming_candidate_chans := xs[i := (fst (xs ! i), (snd (xs ! i) + rssi * 3) div 4)]\<rparr>)
      | Inr worst \<Rightarrow>
          if n > 5 then
            (case worst of None \<Rightarrow> None
             | Some j \<Rightarrow> Some (if rssi > snd (xs ! j) then ss\<lparr>roaming_candidate_chans := xs[j := (Some apchan, rssi)]\<rparr> else ss))
          else if n < length xs then
            Some (ss\<lparr>roaming_candidate_chans := xs[n := (Some apchan, rssi)], roaming_candidate_chans_cnt := n + 1\<rparr>)
          else None)"

text \<open>The name in the frame is compared with the name to roam to in the length of the frame's name; that a name is wanted at
  all is tested on the first name of the scan.\<close>

definition wifi_mac_update_roaming_candidate_chan ::
    "chan_mac \<Rightarrow> u8 list \<Rightarrow> scan_param \<Rightarrow> int \<Rightarrow> scan_state \<Rightarrow> scan_state option" where
  "wifi_mac_update_roaming_candidate_chan w m sp rssi ss = do {
     p \<leftarrow> ssid sp;
     nssid \<leftarrow> nth_opt m (p + 1);
     ap \<leftarrow> ap_param_of m sp;
     (case wifi_mac_scan_sta_get_ap_channel w ap of
        None \<Rightarrow> Some ss
      | Some apchan \<Rightarrow> do {
          c \<leftarrow> nth_opt m (p + 2);
          first \<leftarrow> nth_opt (ss_ssid ss) 0;
          if c \<noteq> 0 \<and> ss_len first \<noteq> 0 \<and> nssid \<noteq> 0
             \<and> take (unat nssid) (drop (p + 2) m) = take (unat nssid) (ss_bytes (roaming_ssid ss))
          then update_roaming_candidate_chan w apchan rssi ss else Some ss }) }"

section \<open>Beacons and probe responses during a scan\<close>

text \<open>What both handlers do after the elements have been noted: \<open>None\<close> in the inner option drops the frame.\<close>

definition verify_element :: "u8 list \<Rightarrow> nat option \<Rightarrow> nat \<Rightarrow> bool" where
  "verify_element m ie maxlen = (case ie of None \<Rightarrow> True | Some p \<Rightarrow> unat (m ! (p + 1)) \<le> maxlen)"

definition rx_verify :: "chan_mac \<Rightarrow> u8 \<Rightarrow> u8 list \<Rightarrow> scan_param \<Rightarrow> scan_param option option" where
  "rx_verify w channel m sp =
     (if wai sp \<noteq> None then Some None
      else do {
        c \<leftarrow> (if scan_param.sp_chan sp \<noteq> 0 then Some (scan_param.sp_chan sp)
             else case vht_opt sp of Some p \<Rightarrow> nth_opt m (p + 3)
                  | None \<Rightarrow> Some (if wm_curchan w \<noteq> None then channel else 0));
        Some (if c > WIFINET_CHAN_MAX_NUM \<or> \<not> verify_element m (sp_rates sp) WIFINET_RATE_MAXSIZE
                 \<or> \<not> verify_element m (xrates sp) WIFINET_RATE_MAXSIZE \<or> \<not> verify_element m (ssid sp) WIFINET_NWID_LEN
              then None else Some (sp\<lparr>scan_param.sp_chan := c\<rparr>)) })"

definition rx_roaming :: "chan_mac \<Rightarrow> u8 list \<Rightarrow> scan_param \<Rightarrow> int \<Rightarrow> scan_state \<Rightarrow> scan_state option" where
  "rx_roaming w m sp rssi ss = (if ssid sp = None then Some ss else wifi_mac_update_roaming_candidate_chan w m sp rssi ss)"

text \<open>A beacon of a sender that is in the table is ignored, unless the interface looks for P2P devices and the beacon is longer
  than what is known.  The pass goes over the hash chain.\<close>

fun beacon_chain :: "bool \<Rightarrow> u32 \<Rightarrow> macaddr \<Rightarrow> nat list \<Rightarrow> scaninfo_table \<Rightarrow> bool \<times> scaninfo_table" where
  "beacon_chain p2p_scan len a [] t = (False, t)"
| "beacon_chain p2p_scan len a (i # is) t =
     (if se_mac t i = a then
        (if p2p_scan \<and> SI_frame_len (scaninfo (st_se t i)) < len then beacon_chain p2p_scan len a is (st_del i t) else (True, t))
      else beacon_chain p2p_scan len a is t)"

definition recv_beacon_scan ::
    "u64 \<Rightarrow> u64 \<Rightarrow> nat option \<Rightarrow> chan_mac \<Rightarrow> bool \<Rightarrow> u8 \<Rightarrow> u8 list \<Rightarrow> scan_param \<Rightarrow> int \<Rightarrow> scan_state \<Rightarrow> scan_state option" where
  "recv_beacon_scan hz jiffies mem w p2p_scan channel m sp rssi ss = do {
     v \<leftarrow> rx_verify w channel m sp;
     (case v of
        None \<Rightarrow> Some ss
      | Some sp \<Rightarrow> do {
          ss \<leftarrow> rx_roaming w m sp rssi ss;
          let (known, t) = beacon_chain p2p_scan (frame_len sp) (i_addr2 m)
                             (st_hash (ScanTablePriv ss) (STA_HASH (i_addr2 m))) (ScanTablePriv ss);
          let ss = ss\<lparr>ScanTablePriv := t\<rparr>;
          if known then Some ss else wifi_mac_scan_rx hz jiffies mem w m sp False rssi None ss }) }"

text \<open>A probe response updates the entry of the sender with the same name (the last one on the chain); a connected interface
  leaves it as it is.\<close>

definition same_name :: "u8 list \<Rightarrow> nat option \<Rightarrow> u8 list \<Rightarrow> bool" where
  "same_name m sid s =
     (case sid of None \<Rightarrow> False
      | Some p \<Rightarrow> s ! 1 = m ! (p + 1) \<and> take (unat (s ! 1) + 2) s = take (unat (s ! 1) + 2) (drop p m))"

fun probe_chain :: "u8 list \<Rightarrow> nat option \<Rightarrow> macaddr \<Rightarrow> bool \<Rightarrow> scaninfo_table \<Rightarrow> nat list \<Rightarrow> nat option \<Rightarrow> bool \<times> nat option" where
  "probe_chain m sid a connected t [] old = (False, old)"
| "probe_chain m sid a connected t (i # is) old =
     (if se_mac t i = a \<and> same_name m sid (SI_ssid (scaninfo (st_se t i))) then
        (if connected then (True, old) else probe_chain m sid a connected t is (Some i))
      else probe_chain m sid a connected t is old)"

definition recv_probersp_scan ::
    "u64 \<Rightarrow> u64 \<Rightarrow> nat option \<Rightarrow> chan_mac \<Rightarrow> bool \<Rightarrow> bool \<Rightarrow> u8 \<Rightarrow> u8 list \<Rightarrow> scan_param \<Rightarrow> int \<Rightarrow> scan_state \<Rightarrow> scan_state option" where
  "recv_probersp_scan hz jiffies mem w connected dropped channel m sp rssi ss = do {
     v \<leftarrow> rx_verify w channel m sp;
     (case v of
        None \<Rightarrow> Some ss
      | Some sp \<Rightarrow>
          if dropped then Some ss
          else do {
            ss \<leftarrow> rx_roaming w m sp rssi ss;
            let t = ScanTablePriv ss;
            let (stop, old) = probe_chain m (ssid sp) (i_addr2 m) connected t (st_hash t (STA_HASH (i_addr2 m))) None;
            if stop then Some ss else wifi_mac_scan_rx hz jiffies mem w m sp True rssi old ss }) }"

section \<open>The mode of a network\<close>

fun macmode_num :: "macmode \<Rightarrow> int" where
  "macmode_num MODE_AUTO = 0" | "macmode_num MODE_11B = 1" | "macmode_num MODE_11G = 2" | "macmode_num MODE_11BG = 3"
| "macmode_num MODE_11N = 4" | "macmode_num MODE_11GN = 6" | "macmode_num MODE_11BGN = 7" | "macmode_num MODE_11AC = 8"
| "macmode_num MODE_11NAC = 0xc" | "macmode_num MODE_11GNAC = 0xe" | "macmode_num MODE_MAX = 0xf"

text \<open>Whether a rate element names an 802.11b and an 802.11g rate.\<close>

definition wifi_mac_get_ap_mode :: "u8 list \<Rightarrow> (bool \<times> bool) option" where
  "wifi_mac_get_ap_mode rates = do {
     l \<leftarrow> nth_opt rates 1;
     if length rates < 2 + unat l then None
     else let rs = take (unat l) (drop 2 rates)
          in Some (list_ex (\<lambda>r. rate_in r [0x82, 0x84, 0x8b, 0x96]) rs,
                   list_ex (\<lambda>r. rate_in r [0x8c, 0x92, 0x98, 0xa4, 0xb0, 0xc8, 0xe0, 0xec]) rs) }"

text \<open>HT is forbidden unless a pairwise suite of the WPA or RSN element is better than TKIP, or the network is open.  The
  count of suites is cut to eight bits, and nothing compares it with the length of the element.\<close>

fun suites_strong :: "(u32 \<Rightarrow> u8 \<Rightarrow> nat \<times> u8) \<Rightarrow> u8 list \<Rightarrow> nat \<Rightarrow> nat \<Rightarrow> bool option" where
  "suites_strong cipher b p 0 = Some False"
| "suites_strong cipher b p (Suc n) = do {
     sel \<leftarrow> READ_32L b p;
     r \<leftarrow> suites_strong cipher b (p + 4) n;
     Some (WIFINET_CIPHER_TKIP < fst (cipher sel 0) \<or> r) }"

definition wifi_mac_is_ht_forbidden :: "scan_info \<Rightarrow> bool option" where
  "wifi_mac_is_ht_forbidden i = do {
     wl \<leftarrow> nth_opt (SI_ie i Ie_wpa) 1; rl \<leftarrow> nth_opt (SI_ie i Ie_rsn) 1;
     ws \<leftarrow> (if wl \<noteq> 0 then do { n \<leftarrow> nth_opt (SI_ie i Ie_wpa) 12; suites_strong wpa_cipher (SI_ie i Ie_wpa) 14 (unat n) } else Some False);
     rs \<leftarrow> (if rl \<noteq> 0 then do { n \<leftarrow> nth_opt (SI_ie i Ie_rsn) 8; suites_strong rsn_cipher (SI_ie i Ie_rsn) 10 (unat n) } else Some False);
     Some (\<not> (ws \<or> rs \<or> wl = 0 \<and> rl = 0 \<and> SI_capinfo i AND CAPINFO_PRIVACY = 0)) }"

definition wifi_mac_get_sta_mode :: "chan_mac \<Rightarrow> scan_info \<Rightarrow> macmode option" where
  "wifi_mac_get_sta_mode w i = do {
     c \<leftarrow> nth_opt (wm_channels w) (SI_chan i);
     (b1, g1) \<leftarrow> wifi_mac_get_ap_mode (SI_rates i);
     (b2, g2) \<leftarrow> wifi_mac_get_ap_mode (SI_exrates i);
     let b = (b1 \<or> b2); let g = (g1 \<or> g2); let is_2g = (chan_flags c AND WIFINET_CHAN_2GHZ \<noteq> 0);
     let m = (if b \<and> g then MODE_11BG else if g then MODE_11G else if b then MODE_11B else MODE_AUTO);
     hl \<leftarrow> nth_opt (SI_ie i Ie_htcap) 1;
     ht \<leftarrow> (if hl \<noteq> 0 then do { f \<leftarrow> wifi_mac_is_ht_forbidden i; Some (\<not> f) } else Some False);
     v \<leftarrow> nth_opt (SI_ie i Ie_vht_cap) 0;
     let vht = (\<not> is_2g \<and> v = WIFINET_ELEMID_VHTCAP);
     let m = (if ht then (if vht then MODE_11GNAC
                          else if m = MODE_11BG then MODE_11BGN else if m = MODE_11G then MODE_11GN else MODE_11N)
              else if vht then MODE_11G else m);
     Some (if m = MODE_AUTO then (if chan_flags c AND WIFINET_CHAN_5GHZ \<noteq> 0 then MODE_11GNAC else MODE_11BGN) else m) }"

section \<open>Which network to connect to\<close>

text \<open>Positive when \<open>a\<close> is the better one.\<close>

definition wifi_mac_scan_sta_compare :: "chan_mac \<Rightarrow> scaninfo_entry \<Rightarrow> scaninfo_entry \<Rightarrow> int option" where
  "wifi_mac_scan_sta_compare w a b =
     (let pa = SI_capinfo (scaninfo a) AND CAPINFO_PRIVACY \<noteq> 0; pb = SI_capinfo (scaninfo b) AND CAPINFO_PRIVACY \<noteq> 0;
          ra = SI_rssi (scaninfo a); rb = SI_rssi (scaninfo b); ca = uint (connectcnt a); cb = uint (connectcnt b)
      in if pa \<and> \<not> pb then Some 1
         else if \<not> pa \<and> pb then Some (- 1)
         else if abs (cb - ca) > 1 then Some (cb - ca)
         else if abs (rb - ra) < 5 then do {
           mb \<leftarrow> wifi_mac_get_sta_mode w (scaninfo b); ma \<leftarrow> wifi_mac_get_sta_mode w (scaninfo a);
           Some (macmode_num mb - macmode_num ma) }
         else Some (ra - rb))"

definition match_ssid :: "u8 list \<Rightarrow> scan_ssid list \<Rightarrow> bool option" where
  "match_ssid ie ssids = do {
     l \<leftarrow> nth_opt ie 1;
     Some (list_ex (\<lambda>s. int (unat l) = ss_len s \<and> take (unat l) (drop 2 ie) = take (unat l) (ss_bytes s)) ssids) }"

definition ht_sets :: "scan_info \<Rightarrow> (u8 list \<times> u8 list) option option" where
  "ht_sets i = do {
     c \<leftarrow> nth_opt (SI_ie i Ie_htcap) 1; h \<leftarrow> nth_opt (SI_ie i Ie_htinfo) 1;
     Some (if c \<noteq> 0 \<and> h \<noteq> 0 then Some (take 16 (drop 5 (SI_ie i Ie_htcap)), take 16 (drop 8 (SI_ie i Ie_htinfo))) else None) }"

definition fail_if :: "bool \<Rightarrow> u32 \<Rightarrow> u32" where "fail_if c b = (if c then b else 0)"

definition match_bss ::
    "chan_mac \<Rightarrow> rateset \<Rightarrow> wifi_mac_opmode \<Rightarrow> u32 \<Rightarrow> scan_vif \<Rightarrow> scan_state \<Rightarrow> scaninfo_entry \<Rightarrow> u32 option" where
  "match_bss w htrates opmode flags sv ss se = do {
     let i = scaninfo se;
     c \<leftarrow> nth_opt (wm_channels w) (SI_chan i);
     av \<leftarrow> wifi_mac_chan_num_avail w (word_of_int (chan_pri_num c));
     (rate, _) \<leftarrow> check_rate (vm_legacy_rates sv) (SI_rates i) (SI_exrates i);
     hts \<leftarrow> ht_sets i;
     named \<leftarrow> (if flags AND F_IGNORE_SSID \<noteq> 0 then Some True
              else if ss_nssid ss = 0 then Some False else match_ssid (SI_ssid i) (take (unat (ss_nssid ss)) (ss_ssid ss)));
     Some (fail_if (\<not> av) STA_MATCH_ERR_CHAN
       OR fail_if (SI_capinfo i AND (if opmode = M_IBSS then CAPINFO_IBSS else CAPINFO_ESS) = 0) STA_MATCH_ERR_BSS
       OR fail_if ((flags AND F_PRIVACY \<noteq> 0) \<noteq> (SI_capinfo i AND CAPINFO_PRIVACY \<noteq> 0)) STA_MATCH_ERR_PRIVACY
       OR fail_if (rate = 0) STA_MATCH_ERR_RATE
       OR fail_if ((\<not> fst (vm_fixed_rate sv) \<or> snd (vm_fixed_rate sv) AND RATE_MCS \<noteq> 0) \<and> check_ht_rate htrates hts = 0) STA_MATCH_ERR_HTRATE
       OR fail_if (\<not> named) STA_MATCH_ERR_SSID
       OR fail_if (flags AND F_DESBSSID \<noteq> 0 \<and> vm_des_bssid sv \<noteq> SI_bssid i) STA_MATCH_ERR_BSSID
       OR fail_if (connectcnt se \<ge> WIFINET_CONNECT_FAILS) STA_MATCH_ERR_STA_FAILS_MAX) }"

definition wifi_mac_save_ssid :: "scan_ssid list \<Rightarrow> scan_state \<Rightarrow> scan_state" where
  "wifi_mac_save_ssid ssids ss =
     (if ssids = [] \<or> WIFINET_SCAN_MAX_SSID < length ssids then ss
      else ss\<lparr>ss_ssid := ssids @ drop (length ssids) (ss_ssid ss), ss_nssid := of_nat (length ssids)\<rparr>)"

definition wifi_mac_scan_chk_11g_bss :: "chan_mac \<Rightarrow> scan_state \<Rightarrow> bool option" where
  "wifi_mac_scan_chk_11g_bss w ss =
     foldo (\<lambda>e found. if found then Some True else do {
        c \<leftarrow> nth_opt (wm_channels w) (SI_chan (scaninfo e));
        m \<leftarrow> wifi_mac_get_sta_mode w (scaninfo e);
        Some (m = MODE_11G \<and> chan_flags c AND WIFINET_CHAN_2GHZ \<noteq> 0) })
      (map (st_se (ScanTablePriv ss)) (st_entry (ScanTablePriv ss))) False"

text \<open>One entry of the pass for the best node: \<open>b\<close> is the best one so far.\<close>

definition best_step :: "(scaninfo_entry \<Rightarrow> u32 option) \<Rightarrow> chan_mac \<Rightarrow> scaninfo_entry \<Rightarrow> scaninfo_entry \<Rightarrow> scaninfo_entry option" where
  "best_step match w se b = do {
     f \<leftarrow> match se;
     if f \<noteq> 0 then Some b
     else if \<not> se_valid b then Some se
     else do { c \<leftarrow> wifi_mac_scan_sta_compare w se b; Some (if c > 0 then se else b) } }"

text \<open>The level is kept as an unsigned number, so the comparison with the threshold is one of unsigned numbers.\<close>

definition wifi_mac_scan_get_best_node ::
    "chan_mac \<Rightarrow> rateset \<Rightarrow> wifi_mac_opmode \<Rightarrow> u32 \<Rightarrow> int \<Rightarrow> int \<Rightarrow> scan_vif \<Rightarrow> scan_state \<Rightarrow> scaninfo_entry \<Rightarrow> scaninfo_entry option" where
  "wifi_mac_scan_get_best_node w htrates opmode flags thr_2g thr_5g sv ss best = do {
     b \<leftarrow> foldo (best_step (match_bss w htrates opmode flags sv ss) w)
            (map (st_se (ScanTablePriv ss)) (st_entry (ScanTablePriv ss))) best;
     if se_valid b \<and> vm_chan_roaming_scan_flag sv then do {
       c \<leftarrow> nth_opt (wm_channels w) (SI_chan (scaninfo b));
       let thr = (if chan_flags c AND WIFINET_CHAN_2GHZ \<noteq> 0 then thr_2g else thr_5g);
       Some (if se_avgrssi b - 255 < (word_of_int thr :: u32) then b\<lparr>se_valid := False\<rparr> else b) }
     else Some b }"

text \<open>Before a connection the channels of the matching entries are collected, and the entries are removed; when roaming those
  that do not match are removed.\<close>

definition get_match_step :: "(scaninfo_entry \<Rightarrow> u32 option) \<Rightarrow> nat \<Rightarrow> bool \<times> scan_vif \<times> scaninfo_table \<Rightarrow> (bool \<times> scan_vif \<times> scaninfo_table) option" where
  "get_match_step match i s =
     (case s of (found, sv, t) \<Rightarrow> do {
        let se = st_se t i; let cc = vm_connchan sv;
        f \<leftarrow> match se;
        if f \<noteq> 0 then Some s
        else if length (conn_chan cc) \<le> conn_num cc then None
        else Some (True, sv\<lparr>vm_scanchan_rssi := sint (se_avgrssi se - 255),
               vm_connchan := \<lparr>conn_chan = (conn_chan cc)[conn_num cc := Some (SI_chan (scaninfo se))],
                 cc_da = SI_macaddr (scaninfo se), cc_bssid = SI_bssid (scaninfo se), conn_num = conn_num cc + 1\<rparr>\<rparr>, st_del i t) })"

definition wifi_mac_scan_get_match_node ::
    "chan_mac \<Rightarrow> rateset \<Rightarrow> wifi_mac_opmode \<Rightarrow> u32 \<Rightarrow> scan_vif \<Rightarrow> scan_state \<Rightarrow> (bool \<times> scan_vif \<times> scan_state) option" where
  "wifi_mac_scan_get_match_node w htrates opmode flags sv ss = do {
     let sv0 = sv\<lparr>vm_connchan := (vm_connchan sv)\<lparr>conn_num := 0\<rparr>\<rparr>; let t = ScanTablePriv ss;
     (found, sv, t) \<leftarrow> foldo (get_match_step (match_bss w htrates opmode flags sv ss)) (st_entry t) (False, sv0, t);
     Some (found, sv, ss\<lparr>ScanTablePriv := t\<rparr>) }"

definition wifi_mac_scan_set_match_node ::
    "chan_mac \<Rightarrow> rateset \<Rightarrow> wifi_mac_opmode \<Rightarrow> u32 \<Rightarrow> scan_vif \<Rightarrow> scan_state \<Rightarrow> (bool \<times> scan_vif \<times> scan_state) option" where
  "wifi_mac_scan_set_match_node w htrates opmode flags sv ss = do {
     let t = ScanTablePriv ss;
     (removed, t) \<leftarrow> foldo (\<lambda>i (r, t). do { f \<leftarrow> match_bss w htrates opmode flags sv ss (st_se t i);
           Some (if f \<noteq> 0 then (True, st_del i t) else (r, t)) }) (st_entry t) (False, t);
     Some (removed, sv\<lparr>vm_connchan := (vm_connchan sv)\<lparr>conn_num := 0\<rparr>\<rparr>, ss\<lparr>ScanTablePriv := t\<rparr>) }"

text \<open>The channel of the network the interface was told to join.\<close>

fun target_chan :: "macaddr \<Rightarrow> scan_ssid \<Rightarrow> scaninfo_entry list \<Rightarrow> nat option option" where
  "target_chan bssid des [] = Some None"
| "target_chan bssid des (e # es) =
     (if SI_bssid (scaninfo e) = bssid then
        do { f \<leftarrow> match_ssid (SI_ssid (scaninfo e)) [des]; if f then Some (Some (SI_chan (scaninfo e))) else target_chan bssid des es }
      else target_chan bssid des es)"

definition wifi_mac_connect_get_target_chan :: "scan_vif \<Rightarrow> scan_ssid \<Rightarrow> scan_state \<Rightarrow> nat option option" where
  "wifi_mac_connect_get_target_chan sv des ss =
     target_chan (vm_des_bssid sv) des (map (st_se (ScanTablePriv ss)) (st_entry (ScanTablePriv ss)))"

end
