(* ===== verification/ScanInv.thy ===== *)
theory ScanInv
  imports ScanTab
begin

text \<open>
  What the result table of a scan guarantees: the arrays of an entry keep their sizes, and the list of entries and the
  hash chains stay two views of one table.
\<close>

section \<open>Sizes of the arrays\<close>

text \<open>The arrays of an entry keep their sizes.\<close>

definition info_ok :: "scan_info \<Rightarrow> bool" where
  "info_ok i \<longleftrightarrow> (\<forall>k. length (SI_ie i k) = ie_size k) \<and> length (SI_ssid i) = 2 + WIFINET_NWID_LEN
     \<and> length (SI_rates i) = 2 + WIFINET_RATE_MAXSIZE \<and> length (SI_exrates i) = 2 + WIFINET_RATE_MAXSIZE"

lemma info_ok_zero [simp]: "info_ok info_zero"
  by (simp add: info_ok_def info_zero_def)

lemma info_ok_update [simp]:
  "info_ok (i\<lparr>SI_macaddr := a\<rparr>) = info_ok i" "info_ok (i\<lparr>SI_frame_len := n\<rparr>) = info_ok i" "info_ok (i\<lparr>si_rsn_capa := c\<rparr>) = info_ok i"
  "info_ok (i\<lparr>SI_bssid := a, SI_rssi := r, SI_tstamp := ts, SI_intval := bi, SI_capinfo := ci, SI_chan := ch, SI_erp := er,
       SI_timoff := ti, SI_dtimperiod := dt\<rparr>) = info_ok i"
  by (simp_all add: info_ok_def)

lemma saveie_length: "saveie b m p = Some b' \<Longrightarrow> length b' = length b"
  by (auto simp: saveie_def Let_def split: option.splits if_splits bind_splits)

lemma save_rates_length: "save_rates m p b = Some b' \<Longrightarrow> length b' = length b"
  by (auto simp: save_rates_def dest: saveie_length split: if_splits bind_splits)

lemma save_slot_inv:
  assumes "save_slot m x i = Some i'"
  shows "SI_macaddr i' = SI_macaddr i" "info_ok i \<Longrightarrow> info_ok i'"
  using assms by (auto simp: save_slot_def info_ok_def dest: saveie_length split: bind_splits)

lemma save_slots_inv:
  assumes "foldo (save_slot m) xs i = Some i'"
  shows "SI_macaddr i' = SI_macaddr i \<and> (info_ok i \<longrightarrow> info_ok i')"
  using assms
proof (induction xs arbitrary: i)
  case (Cons x xs)
  then obtain j where "save_slot m x i = Some j" "foldo (save_slot m) xs j = Some i'" by (auto split: option.splits)
  with Cons.IH [of j] save_slot_inv [of m x i j] show ?case by auto
qed simp

lemma rx_ssid_inv: "rx_ssid m sp pr i = Some i' \<Longrightarrow> SI_macaddr i' = SI_macaddr i \<and> (info_ok i \<longrightarrow> info_ok i')"
  by (auto simp: rx_ssid_def info_ok_def dest: saveie_length split: option.splits if_splits bind_splits)

lemma rx_rates_inv: "rx_rates m sp i = Some i' \<Longrightarrow> SI_macaddr i' = SI_macaddr i \<and> (info_ok i \<longrightarrow> info_ok i')"
  by (auto simp: rx_rates_def info_ok_def dest!: saveie_length save_rates_length split: option.splits bind_splits)

lemma rx_fixed_inv:
  "rx_fixed m sp c r e = Some e' \<Longrightarrow> SI_macaddr (scaninfo e') = SI_macaddr (scaninfo e) \<and> (info_ok (scaninfo e) \<longrightarrow> info_ok (scaninfo e'))"
  by (auto simp: rx_fixed_def info_ok_def split: option.splits if_splits bind_splits)

lemma rx_rsn_inv: "rx_rsn m sp i = Some (ok, i') \<Longrightarrow> SI_macaddr i' = SI_macaddr i \<and> (info_ok i \<longrightarrow> info_ok i')"
  by (auto simp: rx_rsn_def dest: save_slot_inv split: option.splits bind_splits prod.splits if_splits)

lemma rx_entry_inv:
  assumes "rx_entry hz j m sp pr c r e = Some e'"
  shows "SI_macaddr (scaninfo e') = i_addr2 m" "se_valid e'" "info_ok (scaninfo e) \<Longrightarrow> info_ok (scaninfo e')"
proof -
  obtain i1 i2 i3 e4 i5 i6 where s: "foldo (save_slot m) (early_slots sp) (scaninfo e) = Some i1"
      "rx_ssid m sp pr (i1\<lparr>SI_macaddr := i_addr2 m\<rparr>) = Some i2" "rx_rates m sp i2 = Some i3"
      "rx_fixed m sp c r (e\<lparr>scaninfo := i3\<rparr>) = Some e4" "foldo (save_slot m) (late_slots sp) (scaninfo e4) = Some i5"
      "foldo (save_slot m) (vht_slots sp) i5 = Some i6" "scaninfo e' = i6" "se_valid e'"
    using assms by (auto simp: rx_entry_def Let_def split: bind_splits)
  note inv = save_slots_inv [OF s(1)] rx_ssid_inv [OF s(2)] rx_rates_inv [OF s(3)] rx_fixed_inv [OF s(4)]
    save_slots_inv [OF s(5)] save_slots_inv [OF s(6)]
  then show "SI_macaddr (scaninfo e') = i_addr2 m" "info_ok (scaninfo e) \<Longrightarrow> info_ok (scaninfo e')" using s(7) by auto
  show "se_valid e'" by (rule s(8))
qed

section \<open>The table stays a table\<close>

definition table_wf :: "scaninfo_table \<Rightarrow> bool" where
  "table_wf t \<longleftrightarrow> distinct (st_entry t) \<and> (\<forall>h. distinct (st_hash t h))
     \<and> (\<forall>h i. i \<in> set (st_hash t h) \<longleftrightarrow> i \<in> set (st_entry t) \<and> h = STA_HASH (se_mac t i))
     \<and> (\<forall>i \<in> set (st_entry t). se_valid (st_se t i) \<and> info_ok (scaninfo (st_se t i)))"

lemma table_wf_del [simp]: "table_wf t \<Longrightarrow> table_wf (st_del i t)"
  by (auto simp: table_wf_def st_del_def se_mac_def)

lemma st_del_simps [simp]: "st_se (st_del i t) = st_se t" "st_entry (st_del i t) = filter (\<lambda>j. j \<noteq> i) (st_entry t)"
  by (simp_all add: st_del_def)

lemma table_wf_link:
  assumes "table_wf t" "i \<notin> set (st_entry t)" "se_valid e" "info_ok (scaninfo e)"
  shows "table_wf (st_link (STA_HASH (SI_macaddr (scaninfo e))) i (t\<lparr>st_se := (st_se t)(i := e)\<rparr>))"
  using assms unfolding table_wf_def st_link_def se_mac_def by (auto simp: fun_upd_def)

lemma table_wf_write:
  assumes "table_wf t" "SI_macaddr (scaninfo e) = se_mac t i" "se_valid e" "info_ok (scaninfo e)"
  shows "table_wf (t\<lparr>st_se := (st_se t)(i := e)\<rparr>)"
  using assms unfolding table_wf_def se_mac_def by auto

lemma scan_rx_table_wf:
  assumes rx: "wifi_mac_scan_rx hz j mem w m sp pr r old ss = Some ss'" and wf: "table_wf (ScanTablePriv ss)"
    and fresh: "\<And>i. old = None \<Longrightarrow> mem = Some i \<Longrightarrow> i \<notin> set (st_entry (ScanTablePriv ss))"
    and known: "\<And>i. old = Some i \<Longrightarrow> i \<in> set (st_entry (ScanTablePriv ss)) \<and> se_mac (ScanTablePriv ss) i = i_addr2 m"
  shows "table_wf (ScanTablePriv ss')"
proof (cases "scan_StateFlags ss AND SCANSTATE_F_DISCARD \<noteq> 0")
  case True
  with rx wf show ?thesis by (simp add: wifi_mac_scan_rx_def)
next
  case False
  let ?t = "ScanTablePriv ss"
  from rx False obtain ap where ap: "ap_param_of m sp = Some ap" by (auto simp: wifi_mac_scan_rx_def split: bind_splits)
  show ?thesis
  proof (cases "wifi_mac_scan_sta_get_ap_channel w ap")
    case None
    with rx False ap wf show ?thesis by (simp add: wifi_mac_scan_rx_def)
  next
    case (Some c)
    show ?thesis
    proof (cases "case old of Some i \<Rightarrow> Some i | None \<Rightarrow> mem")
      case None
      with rx False ap Some wf show ?thesis by (simp add: wifi_mac_scan_rx_def)
    next
      case i: (Some i)
      define e where "e = (case old of Some i \<Rightarrow> st_se ?t i | None \<Rightarrow> entry_zero)"
      have e: "info_ok (scaninfo e)" using known wf by (auto simp: e_def entry_zero_def table_wf_def split: option.splits)
      from rx False ap Some i obtain ok inf where rsn: "rx_rsn m sp ((scaninfo e)\<lparr>SI_frame_len := frame_len sp\<rparr>) = Some (ok, inf)"
        by (auto simp: wifi_mac_scan_rx_def e_def Let_def split: bind_splits)
      show ?thesis
      proof (cases ok)
        case False': False
        with rx False ap Some i rsn wf show ?thesis
          by (auto simp: wifi_mac_scan_rx_def e_def Let_def split: if_splits option.splits)
      next
        case True
        with rx False ap Some i rsn obtain e' where e': "rx_entry hz j m sp pr c r (e\<lparr>scaninfo := inf\<rparr>) = Some e'"
          and t: "ScanTablePriv ss' = (if old = None then st_link (STA_HASH (i_addr2 m)) i (?t\<lparr>st_se := (st_se ?t)(i := e')\<rparr>)
                    else ?t\<lparr>st_se := (st_se ?t)(i := e')\<rparr>)"
          by (auto simp: wifi_mac_scan_rx_def e_def Let_def split: bind_splits if_splits option.splits)
        have inv: "SI_macaddr (scaninfo e') = i_addr2 m" "se_valid e'" "info_ok (scaninfo e')"
          using rx_entry_inv [OF e'] rx_rsn_inv [OF rsn] e by auto
        show ?thesis
        proof (cases old)
          case None
          then have "i \<notin> set (st_entry ?t)" using fresh i by auto
          from table_wf_link [OF wf this inv(2,3)] None t inv(1) show ?thesis by simp
        next
          case (Some i')
          then have "i' = i" using i by simp
          with known [of i'] Some have "SI_macaddr (scaninfo e') = se_mac ?t i" using inv(1) by simp
          from table_wf_write [OF wf this inv(2,3)] Some t show ?thesis by simp
        qed
      qed
    qed
  qed
qed

lemma table_wf_flush: "table_wf t \<Longrightarrow> table_wf (wifi_mac_scan_flush t)"
proof -
  have "table_wf t \<Longrightarrow> table_wf (foldl (\<lambda>t i. st_del i t) t xs)" for xs by (induction xs arbitrary: t) simp_all
  then show "table_wf t \<Longrightarrow> table_wf (wifi_mac_scan_flush t)" by (simp add: wifi_mac_scan_flush_def)
qed

lemma flush_empty: "st_entry (wifi_mac_scan_flush t) = []"
proof -
  have "st_entry (foldl (\<lambda>t i. st_del i t) t xs) = filter (\<lambda>j. j \<notin> set xs) (st_entry t)" for xs
    by (induction xs arbitrary: t) (auto intro: filter_cong)
  then show ?thesis by (simp add: wifi_mac_scan_flush_def)
qed

lemma beacon_chain_inv:
  "beacon_chain p len a is t = (b, t') \<Longrightarrow> table_wf t \<Longrightarrow> table_wf t' \<and> set (st_entry t') \<subseteq> set (st_entry t)"
proof (induction p len a "is" t rule: beacon_chain.induct)
  case (2 p len a i "is" t)
  then show ?case by (fastforce split: if_splits)
qed simp

lemma probe_chain_old:
  assumes "probe_chain m sid a con t is old = (b, Some j)" "\<And>i. old = Some i \<Longrightarrow> i \<in> S \<and> se_mac t i = a" "set is \<subseteq> S"
  shows "j \<in> S \<and> se_mac t j = a"
  using assms
proof (induction "is" arbitrary: old)
  case (Cons i "is")
  show ?case
  proof (cases "se_mac t i = a \<and> same_name m sid (SI_ssid (scaninfo (st_se t i)))")
    case True
    with Cons show ?thesis by (cases con) auto
  next
    case False
    with Cons.prems(1) have "probe_chain m sid a con t is old = (b, Some j)" by (simp split: if_splits)
    from Cons.IH [OF this] Cons.prems show ?thesis by simp
  qed
qed auto

lemma roaming_table:
  "update_roaming_candidate_chan w c r ss = Some ss' \<Longrightarrow> ScanTablePriv ss' = ScanTablePriv ss"
  by (auto simp: update_roaming_candidate_chan_def Let_def split: sum.splits option.splits if_splits)

lemma rx_roaming_table: "rx_roaming w m sp r ss = Some ss' \<Longrightarrow> ScanTablePriv ss' = ScanTablePriv ss"
  by (auto simp: rx_roaming_def wifi_mac_update_roaming_candidate_chan_def dest: roaming_table
      split: if_splits option.splits bind_splits)

lemma beacon_table_wf:
  assumes rx: "recv_beacon_scan hz j mem w p ch m sp r ss = Some ss'" and wf: "table_wf (ScanTablePriv ss)"
    and fresh: "\<And>i. mem = Some i \<Longrightarrow> i \<notin> set (st_entry (ScanTablePriv ss))"
  shows "table_wf (ScanTablePriv ss')"
proof -
  obtain v where v: "rx_verify w ch m sp = Some v" using rx by (auto simp: recv_beacon_scan_def split: bind_splits)
  show ?thesis
  proof (cases v)
    case None
    with rx v wf show ?thesis by (simp add: recv_beacon_scan_def)
  next
    case (Some sp')
    with rx v obtain ss1 where s1: "rx_roaming w m sp' r ss = Some ss1" by (auto simp: recv_beacon_scan_def split: bind_splits)
    let ?t = "ScanTablePriv ss"
    obtain b t' where bc: "beacon_chain p (frame_len sp') (i_addr2 m) (st_hash ?t (STA_HASH (i_addr2 m))) ?t = (b, t')" by fastforce
    note inv = beacon_chain_inv [OF bc wf]
    show ?thesis
    proof (cases b)
      case True
      with rx v Some s1 bc inv rx_roaming_table [OF s1] show ?thesis by (auto simp: recv_beacon_scan_def)
    next
      case False
      with rx v Some s1 bc rx_roaming_table [OF s1]
      have "wifi_mac_scan_rx hz j mem w m sp' False r None (ss1\<lparr>ScanTablePriv := t'\<rparr>) = Some ss'" by (simp add: recv_beacon_scan_def)
      from scan_rx_table_wf [OF this] inv fresh show ?thesis by auto
    qed
  qed
qed

lemma probersp_table_wf:
  assumes rx: "recv_probersp_scan hz j mem w con drp ch m sp r ss = Some ss'" and wf: "table_wf (ScanTablePriv ss)"
    and fresh: "\<And>i. mem = Some i \<Longrightarrow> i \<notin> set (st_entry (ScanTablePriv ss))"
  shows "table_wf (ScanTablePriv ss')"
proof -
  obtain v where v: "rx_verify w ch m sp = Some v" using rx by (auto simp: recv_probersp_scan_def split: bind_splits)
  show ?thesis
  proof (cases "v = None \<or> drp")
    case True
    with rx v wf show ?thesis by (auto simp: recv_probersp_scan_def split: option.splits)
  next
    case False
    then obtain sp' where Some: "v = Some sp'" by auto
    with rx v False obtain ss1 where s1: "rx_roaming w m sp' r ss = Some ss1" by (auto simp: recv_probersp_scan_def split: bind_splits)
    let ?t = "ScanTablePriv ss" and ?h = "STA_HASH (i_addr2 m)"
    obtain stop old where pc: "probe_chain m (ssid sp') (i_addr2 m) con ?t (st_hash ?t ?h) None = (stop, old)" by fastforce
    have old: "i \<in> set (st_entry ?t) \<and> se_mac ?t i = i_addr2 m" if "old = Some i" for i
      using probe_chain_old [of m "ssid sp'" "i_addr2 m" con ?t "st_hash ?t ?h" None stop i "set (st_entry ?t)"] pc that wf
      by (auto simp: table_wf_def)
    show ?thesis
    proof (cases stop)
      case True
      with rx v Some s1 False pc wf rx_roaming_table [OF s1] show ?thesis by (simp add: recv_probersp_scan_def)
    next
      case False': False
      with rx v Some s1 False pc rx_roaming_table [OF s1]
      have "wifi_mac_scan_rx hz j mem w m sp' True r old ss1 = Some ss'" by (simp add: recv_probersp_scan_def)
      from scan_rx_table_wf [OF this] wf fresh old rx_roaming_table [OF s1] show ?thesis by simp
    qed
  qed
qed

lemma get_match_table_wf:
  assumes "wifi_mac_scan_get_match_node w hr om fl sv ss = Some (b, sv', ss')" "table_wf (ScanTablePriv ss)"
  shows "table_wf (ScanTablePriv ss')"
proof -
  have "table_wf (snd (snd s'))" if "foldo (get_match_step f) xs s = Some s'" "table_wf (snd (snd s))" for f xs s s'
    using that
  proof (induction xs arbitrary: s)
    case (Cons x xs)
    then obtain s1 where s1: "get_match_step f x s = Some s1" "foldo (get_match_step f) xs s1 = Some s'" by (auto split: option.splits)
    have "table_wf (snd (snd s1))" using s1(1) Cons.prems(2)
      by (auto simp: get_match_step_def Let_def split: prod.splits bind_splits if_splits)
    with Cons.IH s1(2) show ?case by blast
  qed simp
  with assms show ?thesis by (fastforce simp: wifi_mac_scan_get_match_node_def Let_def split: bind_splits)
qed

lemma set_match_table_wf:
  assumes "wifi_mac_scan_set_match_node w hr om fl sv ss = Some (b, sv', ss')" "table_wf (ScanTablePriv ss)"
  shows "table_wf (ScanTablePriv ss')"
proof -
  have "table_wf (snd s')" if "foldo (\<lambda>i (r, t). do { f \<leftarrow> g (st_se t i); Some (if f \<noteq> 0 then (True, st_del i t) else (r, t)) }) xs s = Some s'"
    "table_wf (snd s)" for g :: "scaninfo_entry \<Rightarrow> u32 option" and xs s s'
    using that
  proof (induction xs arbitrary: s)
    case (Cons x xs)
    obtain r t where s: "s = (r, t)" by fastforce
    from Cons.prems s obtain f where f: "g (st_se t x) = Some f"
      "foldo (\<lambda>i (r, t). do { f \<leftarrow> g (st_se t i); Some (if f \<noteq> 0 then (True, st_del i t) else (r, t)) }) xs
          (if f \<noteq> 0 then (True, st_del x t) else (r, t)) = Some s'" by (auto split: option.splits bind_splits)
    from Cons.IH [OF f(2)] Cons.prems(2) s show ?case by (simp split: if_splits)
  qed simp
  from this [of "match_bss w hr om fl sv ss"] assms show ?thesis
    by (fastforce simp: wifi_mac_scan_set_match_node_def Let_def split: bind_splits)
qed

end
