(* ===== verification/ScanSm.thy ===== *)
theory ScanSm
  imports ScanTab
begin

text \<open>
  The scan itself (\<^verbatim>\<open>wifi_mac_scan.c\<close>): the choice of the channels, the timer handlers that visit them one by
  one and tell a connected access point before they leave, the end of a scan with the connection it starts, and the calls
  that start and cancel one.  The state holds that of the connection machine (theory ConnSm) as a part: what the machine asks
  of the scan (\<open>Cancel_scan\<close>, \<open>Chk_scan\<close>) is taken from its event log and carried out after the switch.  A task of the
  work queue is an entry of \<open>scan_work\<close>.  Calls to the driver, probe requests and null data frames are events.  Rates and
  gains are left out except for the level before a scan.
\<close>

section \<open>State\<close>

datatype scan_noise = ENV_CLEAR | ENV_NOISE | ENV_MID
datatype cfg_band = BAND_B | BAND_A | BAND_ALL
datatype scan_task = Scan_timeout nat | Scan_start nat nat int | Scan_probe

record scan_sys =
  mac :: sm_mac
  wm_scan :: scan_state
  svif :: "nat \<Rightarrow> scan_vif"
  wm_chans :: chan_mac
  sta_bssid :: "nat \<Rightarrow> macaddr"
  sta_bssmode :: "nat \<Rightarrow> macmode"
  sta_channel_switch_mode :: "nat \<Rightarrow> bool"
  wm_flags :: u32
  wm_scanplayercnt :: nat
  wm_lastscan :: u64
  chan_aware_cnt :: u8
  user_chan_aware_cnt :: u8
  before_conn_scan_times :: nat
  scan_noisy_status :: scan_noise
  scan_work :: "scan_task list"

text \<open>The environment: that of the connection machine, time, whether the hardware queues are empty, thresholds, whether the
  kernel waits for a connection, the configured band, and the length of each transmit buffer queue.\<close>

record scan_env =
  sc_con :: sm_env
  sc_hz :: u64
  sc_jiffies :: u64
  hal_tx_empty :: bool
  sc_htrates :: rateset
  roaming_threshold_2g :: int
  roaming_threshold_5g :: int
  sc_connect_request :: bool
  sc_scan_request :: bool
  sc_band :: cfg_band
  wm_mac_exit :: bool
  work_thread :: bool
  wm_wnet_vifs :: "nat list"
  sc_qlen :: "nat \<Rightarrow> nat"
  scan_gain_thresh_unconnect :: u8
  scan_gain_thresh_connect :: u8
  scan_max_gain_thresh :: u8
  sc_noa_beacon :: bool

definition SCANCFG_NOPICK :: u16 where "SCANCFG_NOPICK = 0x1"
definition SCANCFG_USERREQ :: u16 where "SCANCFG_USERREQ = 0x4"
definition SCANCFG_CHANSET :: u16 where "SCANCFG_CHANSET = 0x80"
definition SCANCFG_MASK :: u16 where "SCANCFG_MASK = 0xfff"
definition F_NOSCAN :: u32 where "F_NOSCAN = 0x40"
definition CHAN_AWARE :: u16 where "CHAN_AWARE = 0x1000"
definition SCAN_DEFAULT_INTERVAL :: nat where "SCAN_DEFAULT_INTERVAL = 100"
definition SCAN_PROTECT_TIME :: nat where "SCAN_PROTECT_TIME = 1000"
definition SCAN_ABORT_TIME :: nat where "SCAN_ABORT_TIME = 10000"
definition LEAKY_AP_DET_WIN :: nat where "LEAKY_AP_DET_WIN = 20"
definition MAC_MAX_GAIN :: int where "MAC_MAX_GAIN = -82"
definition MAC_MID_GAIN :: int where "MAC_MID_GAIN = -70"
definition MAC_MIN_GAIN :: int where "MAC_MIN_GAIN = -65"
definition SCAN_VALID_SECONDS :: u64 where "SCAN_VALID_SECONDS = 30"

definition upd_ss :: "(scan_state \<Rightarrow> scan_state) \<Rightarrow> scan_sys \<Rightarrow> scan_sys" where
  "upd_ss f s = s\<lparr>wm_scan := f (wm_scan s)\<rparr>"

definition upd_sv :: "nat \<Rightarrow> (scan_vif \<Rightarrow> scan_vif) \<Rightarrow> scan_sys \<Rightarrow> scan_sys" where
  "upd_sv v f s = s\<lparr>svif := (svif s)(v := f (svif s v))\<rparr>"

definition sc_emit :: "string \<Rightarrow> int list \<Rightarrow> scan_sys \<Rightarrow> scan_sys" where
  "sc_emit f args s = s\<lparr>mac := emit [Drv f args] (mac s)\<rparr>"

abbreviation sflags :: "scan_sys \<Rightarrow> u32" where "sflags s \<equiv> scan_StateFlags (wm_scan s)"
abbreviation scfg :: "scan_sys \<Rightarrow> u16" where "scfg s \<equiv> scan_CfgFlags (wm_scan s)"

definition has :: "u32 \<Rightarrow> scan_sys \<Rightarrow> bool" where "has b s = (sflags s AND b \<noteq> 0)"

definition set_flag :: "u32 \<Rightarrow> scan_sys \<Rightarrow> scan_sys" where
  "set_flag b s = upd_ss (\<lambda>x. x\<lparr>scan_StateFlags := scan_StateFlags x OR b\<rparr>) s"

definition clr_flag :: "u32 \<Rightarrow> scan_sys \<Rightarrow> scan_sys" where
  "clr_flag b s = upd_ss (\<lambda>x. x\<lparr>scan_StateFlags := scan_StateFlags x AND NOT b\<rparr>) s"

definition scan_timer :: "nat option \<Rightarrow> scan_sys \<Rightarrow> scan_sys" where
  "scan_timer p s = upd_ss (\<lambda>x. x\<lparr>ss_scan_timer := p\<rparr>) s"

definition add_scan_task :: "scan_task \<Rightarrow> scan_sys \<Rightarrow> scan_sys" where
  "add_scan_task t s = s\<lparr>scan_work := scan_work s @ [t]\<rparr>"

definition scanning :: "scan_sys \<Rightarrow> bool" where "scanning s = (wm_flags s AND F_SCAN \<noteq> 0)"

definition nrun :: "scan_sys \<Rightarrow> u8" where "nrun s = wm_nrunning (mac s)"

text \<open>One running interface, or two on one channel.\<close>

definition one_channel :: "scan_sys \<Rightarrow> bool" where
  "one_channel s = (nrun s = 1 \<or> nrun s = 2 \<and> concurrent_check_is_vmac_same_pri_channel (mac s))"

definition two_channels :: "scan_sys \<Rightarrow> bool" where
  "two_channels s = (nrun s = 2 \<and> \<not> concurrent_check_is_vmac_same_pri_channel (mac s))"

definition nth_chan :: "nat \<Rightarrow> scan_sys \<Rightarrow> wifi_channel option" where "nth_chan i s = nth_opt (wm_channels (wm_chans s)) i"

definition is_2g :: "wifi_channel \<Rightarrow> bool" where "is_2g c = (chan_flags c AND WIFINET_CHAN_2GHZ \<noteq> 0)"
definition is_5g :: "wifi_channel \<Rightarrow> bool" where "is_5g c = (chan_flags c AND WIFINET_CHAN_5GHZ \<noteq> 0)"

section \<open>The channels to visit\<close>

definition wifi_mac_set_scan_time :: "scan_env \<Rightarrow> nat \<Rightarrow> scan_sys \<Rightarrow> scan_sys" where
  "wifi_mac_set_scan_time e v s =
     (let sv = svif s v;
          t = (if vm_scan_before_connect_flag sv then vm_scan_time_before_connect sv
               else if nrun s \<noteq> 0 \<and> \<not> (nrun s = 1 \<and> e_apsta (sc_con e)) then vm_scan_time_connect sv else vm_scan_time_idle sv);
          t = (if vm_chan_switch_scan_flag sv then vm_scan_time_chan_switch sv else t)
      in upd_ss (\<lambda>x. x\<lparr>scan_chan_wait := t\<rparr>) s)"

definition band_skips :: "scan_env \<Rightarrow> wifi_channel \<Rightarrow> bool" where
  "band_skips e c = (sc_band e = BAND_B \<and> \<not> is_2g c \<or> sc_band e = BAND_A \<and> \<not> is_5g c)"

text \<open>\<open>ss_chans[scan_last_chan_index++] = c\<close>.\<close>

definition push_chan :: "nat \<Rightarrow> scan_sys \<Rightarrow> scan_sys option" where
  "push_chan i s =
     (let x = wm_scan s; n = scan_last_chan_index x in
      if n < length (ss_chans x)
      then Some (upd_ss (\<lambda>x. x\<lparr>ss_chans := (ss_chans x)[n := Some i], scan_last_chan_index := n + 1\<rparr>) s) else None)"

text \<open>Every tenth scan one channel forgets that something was heard on it.\<close>

definition forget_aware :: "nat \<Rightarrow> scan_sys \<Rightarrow> scan_sys" where
  "forget_aware i s =
     s\<lparr>wm_chans := (wm_chans s)\<lparr>wm_channels := (wm_channels (wm_chans s))
        [i := (\<lambda>c. c\<lparr>chan_flags := chan_flags c AND NOT CHAN_AWARE\<rparr>) (wm_channels (wm_chans s) ! i)]\<rparr>\<rparr>"

definition age_aware :: "nat \<Rightarrow> scan_sys \<Rightarrow> scan_sys" where
  "age_aware i s = (if chan_aware_cnt s < 10 then s else (forget_aware i s)\<lparr>chan_aware_cnt := 0\<rparr>)"

definition user_age_aware :: "nat \<Rightarrow> scan_sys \<Rightarrow> scan_sys" where
  "user_age_aware i s = (if user_chan_aware_cnt s < 10 then s else (forget_aware i s)\<lparr>user_chan_aware_cnt := 0\<rparr>)"

definition setup_simulate :: "scan_env \<Rightarrow> scan_sys \<Rightarrow> scan_sys option" where
  "setup_simulate e s = do {
     (_, s) \<leftarrow> foldo (\<lambda>i (found, s).
         if found then Some (found, s)
         else let s = age_aware i s; c = wm_channels (wm_chans s) ! i in
           if chan_bw c = WIDTH20 \<and> wm_curchan (wm_chans s) \<noteq> Some i \<and> \<not> band_skips e c
           then do { s \<leftarrow> push_chan i s; Some (True, s) } else Some (False, s))
       [0..<wm_nchans (wm_chans s)] (False, s);
     Some s }"

text \<open>Each channel of the matching networks is visited three times.\<close>

definition setup_before_connect :: "nat \<Rightarrow> scan_sys \<Rightarrow> scan_sys option" where
  "setup_before_connect v s =
     (let cc = vm_connchan (svif s v); n = conn_num cc in
      foldo (\<lambda>i s. do {
           c \<leftarrow> nth_opt (conn_chan cc) i;
           _ \<leftarrow> c;
           if i + 2 * n < length (ss_chans (wm_scan s))
           then Some (upd_ss (\<lambda>x. x\<lparr>ss_chans := (ss_chans x)[i := c, i + n := c, i + 2 * n := c]\<rparr>) s) else None })
        [0..<n] (upd_ss (\<lambda>x. x\<lparr>scan_last_chan_index := n * 3\<rparr>) s))"

definition setup_roaming :: "scan_sys \<Rightarrow> scan_sys option" where
  "setup_roaming s =
     (let n = roaming_candidate_chans_cnt (wm_scan s) in
      foldo (\<lambda>i s. do {
           c \<leftarrow> nth_opt (roaming_candidate_chans (wm_scan s)) i;
           if i < length (ss_chans (wm_scan s)) then Some (upd_ss (\<lambda>x. x\<lparr>ss_chans := (ss_chans x)[i := fst c]\<rparr>) s) else None })
        [0..<n] (upd_ss (\<lambda>x. x\<lparr>scan_last_chan_index := n\<rparr>) s))"

definition setup_switch :: "nat \<Rightarrow> scan_sys \<Rightarrow> scan_sys option" where
  "setup_switch v s =
     (if ss_chans (wm_scan s) = [] then None
      else Some (upd_ss (\<lambda>x. x\<lparr>scan_last_chan_index := 1, ss_chans := (ss_chans x)[0 := vm_switchchan (svif s v)]\<rparr>) s))"

definition social :: "wifi_channel \<Rightarrow> bool" where
  "social c = (chan_cfreq1 c = 2412 \<or> chan_cfreq1 c = 2437 \<or> chan_cfreq1 c = 2462)"

definition setup_all :: "scan_env \<Rightarrow> nat \<Rightarrow> scan_sys \<Rightarrow> scan_sys option" where
  "setup_all e v s =
     foldo (\<lambda>i s. let s = age_aware i s; c = wm_channels (wm_chans s) ! i in
         if chan_bw c = WIDTH20 \<and> (p2p_enable (svif s v) \<and> social_channel (svif s v) \<longrightarrow> social c) \<and> \<not> band_skips e c
         then push_chan i s else Some s)
       [0..<wm_nchans (wm_chans s)]
       (upd_ss (\<lambda>x. x\<lparr>roaming_candidate_chans_cnt := 0,
          roaming_candidate_chans := replicate (length (roaming_candidate_chans x)) (None, 0)\<rparr>) s)"

definition vm_scan_setup_chan :: "scan_env \<Rightarrow> nat \<Rightarrow> scan_sys \<Rightarrow> scan_sys option" where
  "vm_scan_setup_chan e v s = do {
     let sv = svif s v;
     let s = upd_ss (\<lambda>x. x\<lparr>scan_last_chan_index := 0\<rparr>) s;
     s \<leftarrow> (if vm_chan_simulate_scan_flag sv then do {
             s \<leftarrow> setup_simulate e s; Some (upd_sv v (\<lambda>x. x\<lparr>vm_chan_simulate_scan_flag := False\<rparr>) s) }
           else if vm_scan_before_connect_flag sv then setup_before_connect v s
           else if vm_chan_roaming_scan_flag sv \<and> \<not> roaming_full_scan (wm_scan s) then setup_roaming s
           else if vm_chan_switch_scan_flag sv then setup_switch v s
           else setup_all e v s);
     Some (wifi_mac_set_scan_time e v (s\<lparr>chan_aware_cnt := chan_aware_cnt s + 1\<rparr>)) }"

text \<open>The channels of a request from user space, by their frequencies.\<close>

definition vm_scan_user_set_chan :: "scan_env \<Rightarrow> nat \<Rightarrow> int list \<Rightarrow> scan_sys \<Rightarrow> scan_sys option" where
  "vm_scan_user_set_chan e v freqs s = do {
     s \<leftarrow> foldo (\<lambda>(f, i) s. let s = user_age_aware i s; c = wm_channels (wm_chans s) ! i in
           if chan_bw c = WIDTH20 \<and> (vm_p2p_support (vif (mac s) v) \<and> social_channel (svif s v) \<longrightarrow> social c)
              \<and> chan_cfreq1 c = f \<and> \<not> band_skips e c
           then push_chan i s else Some s)
         (List.product freqs [0..<wm_nchans (wm_chans s)]) (upd_ss (\<lambda>x. x\<lparr>scan_last_chan_index := 0\<rparr>) s);
     Some (wifi_mac_set_scan_time e v (s\<lparr>user_chan_aware_cnt := user_chan_aware_cnt s + 1\<rparr>)) }"

section \<open>Leaving and coming back\<close>

definition quiet_intf :: "scan_env \<Rightarrow> nat \<Rightarrow> bool \<Rightarrow> scan_sys \<Rightarrow> scan_sys" where
  "quiet_intf e v enable s =
     (if mode (mac s) v \<noteq> M_STA then s
      else if state (mac s) v \<noteq> S_CONNECTED then upd_sv v (\<lambda>x. x\<lparr>quiet_queue := False\<rparr>) s
      else if enable then
        sc_emit ''nulldata_ps'' [int v, 1] (sc_emit ''drv_set_is_mother_channel'' [int v, 0] (upd_sv v (\<lambda>x. x\<lparr>quiet_queue := True\<rparr>) s))
      else
        (let s = upd_sv v (\<lambda>x. x\<lparr>quiet_queue := False\<rparr>) s
         in if sc_qlen e v = 0 then sc_emit ''nulldata_ps'' [int v, 0] s else sc_emit ''wifi_mac_buffer_txq_send_pre'' [int v] s))"

definition quiet_all_intf :: "scan_env \<Rightarrow> bool \<Rightarrow> scan_sys \<Rightarrow> scan_sys" where
  "quiet_all_intf e enable s = foldl (\<lambda>s v. quiet_intf e v enable s) s (wm_wnet_vifs e)"

definition wifi_mac_scan_notify_leave_or_back :: "scan_env \<Rightarrow> nat \<Rightarrow> bool \<Rightarrow> scan_sys \<Rightarrow> scan_sys" where
  "wifi_mac_scan_notify_leave_or_back e v enable s =
     (if one_channel s then quiet_all_intf e enable s else if nrun s = 2 then quiet_intf e v enable s else s)"

text \<open>Changing the channel.  The state of a connection has its own copy of a channel; \<open>chan_ref\<close> finds it on the list.\<close>

definition wifi_mac_ChangeChannel :: "nat \<Rightarrow> int \<Rightarrow> nat \<Rightarrow> scan_sys \<Rightarrow> scan_sys option" where
  "wifi_mac_ChangeChannel i flag v s = do {
     c \<leftarrow> nth_chan i s;
     if chan_cfreq1 c = 0 then None
     else Some (sc_emit ''set_channel'' [chan_pri_num c, flag, int v] (s\<lparr>wm_chans := (wm_chans s)\<lparr>wm_curchan := Some i\<rparr>\<rparr>)) }"

definition chan_ref :: "scan_sys \<Rightarrow> wifi_channel \<Rightarrow> nat option" where
  "chan_ref s c = find_index_from (\<lambda>x. chan_pri_num x = chan_pri_num c \<and> chan_bw x = chan_bw c \<and> chan_cfreq1 x = chan_cfreq1 c)
     (wm_channels (wm_chans s)) 0"

text \<open>The interface whose channel is restored: \<open>None\<close> in the inner option when there is none.\<close>

definition restore_target :: "scan_sys \<Rightarrow> nat option option" where
  "restore_target s =
     (let m = mac s in
      if 1 < nrun s then
        (if wm_vsdb_slot m = SLOT_P2P then Some (Some P2P_VMAC)
         else if wm_vsdb_slot m = SLOT_STA then Some (Some MAIN_VMAC)
         else do {
           p \<leftarrow> vm_curchan (vif m P2P_VMAC); a \<leftarrow> vm_curchan (vif m MAIN_VMAC);
           Some (Some (if chan_bw p < chan_bw a then MAIN_VMAC else P2P_VMAC)) })
      else if nrun s = 1 then Some (Some (if state m P2P_VMAC = S_CONNECTED then P2P_VMAC else MAIN_VMAC))
      else Some None)"

definition wifi_mac_restore_wnet_vif_channel :: "scan_env \<Rightarrow> scan_sys \<Rightarrow> scan_sys option" where
  "wifi_mac_restore_wnet_vif_channel e s = do {
     t \<leftarrow> restore_target s;
     (case t of
        None \<Rightarrow> Some s
      | Some v \<Rightarrow> do {
          s \<leftarrow> (case vm_curchan (vif (mac s) v) of
                 None \<Rightarrow> Some s
               | Some c \<Rightarrow> (case chan_ref s c of
                     None \<Rightarrow> None
                   | Some i \<Rightarrow> if wm_curchan (wm_chans s) \<noteq> Some i then wifi_mac_ChangeChannel i 1 v s else Some s));
          _ \<leftarrow> vm_mainsta (vif (mac s) v);
          let s = sc_emit ''wifi_mac_set_channel_rssi'' [int v] s;
          let s = (if nrun s = 2 \<and> concurrent_check_is_vmac_same_pri_channel (mac s)
                   then sc_emit ''drv_set_is_mother_channel'' [int MAIN_VMAC, 1] (sc_emit ''drv_set_is_mother_channel'' [int P2P_VMAC, 1] s)
                   else sc_emit ''drv_set_is_mother_channel'' [int v, 1] s);
          let w = (if nrun s = 2 \<and> concurrent_check_is_vmac_same_pri_channel (mac s) then MAIN_VMAC else v);
          Some (sc_emit ''drv_flush_normal_buffer_queue'' [int w] (wifi_mac_scan_notify_leave_or_back e w False s)) }) }"

section \<open>Visiting a channel\<close>

definition probereq :: "nat \<Rightarrow> int \<Rightarrow> scan_sys \<Rightarrow> scan_sys" where
  "probereq v i s = sc_emit ''wifi_mac_send_probereq'' [int v, i] s"

text \<open>One request per name; \<open>-1\<close> stands for the empty name.\<close>

definition probe_names :: "nat \<Rightarrow> scan_sys \<Rightarrow> scan_sys" where
  "probe_names v s = foldl (\<lambda>s i. probereq v (int i) s) s [0..<unat (ss_nssid (wm_scan s))]"

definition cfg_active :: "scan_sys \<Rightarrow> bool" where "cfg_active s = (scfg s AND word_of_int SCANCFG_ACTIVE \<noteq> 0)"

definition wifi_mac_scan_send_probe_timeout :: "scan_sys \<Rightarrow> scan_sys" where
  "wifi_mac_scan_send_probe_timeout s =
     (let s = upd_ss (\<lambda>x. x\<lparr>ss_probe_timer := None\<rparr>) s; v = VMacPriv (wm_scan s)
      in if cfg_active s then (let s = probe_names v s in if p2p_enable (svif s v) then s else probereq v (- 1) s) else s)"

definition wifi_mac_scan_send_probe_timeout_ex :: "scan_sys \<Rightarrow> scan_sys" where
  "wifi_mac_scan_send_probe_timeout_ex s =
     (if has SCANSTATE_F_SEND_PROBEREQ_AGAIN s then add_scan_task Scan_probe (clr_flag SCANSTATE_F_SEND_PROBEREQ_AGAIN s) else s)"

definition scan_mode :: "wifi_channel \<Rightarrow> bool \<Rightarrow> macmode" where
  "scan_mode c p2p_on =
     (if 1 \<le> chan_pri_num c \<and> chan_pri_num c \<le> 14 then (if p2p_on then MODE_11GN else MODE_11BGN) else MODE_11GNAC)"

definition scan_probes :: "nat \<Rightarrow> wifi_channel \<Rightarrow> scan_sys \<Rightarrow> scan_sys" where
  "scan_probes v c s =
     (if cfg_active s \<and> (chan_flags c AND WIFINET_CHAN_DFS = 0 \<or> chan_flags c AND CHAN_AWARE \<noteq> 0) then
        (let s = (if \<not> p2p_enable (svif s v) \<and> \<not> vm_chan_switch_scan_flag (svif s v) then probereq v (- 1) s else s);
             s = set_flag SCANSTATE_F_SEND_PROBEREQ_AGAIN (probe_names v s);
             t = (if scan_chan_wait (wm_scan s) = vm_scan_time_connect (svif s v) then 8 else 20)
         in upd_ss (\<lambda>x. x\<lparr>ss_probe_timer := Some t\<rparr>) s)
      else s)"

definition wifi_mac_scan_channel :: "scan_sys \<Rightarrow> scan_sys option" where
  "wifi_mac_scan_channel s =
     (if \<not> has SCANSTATE_F_CHANNEL_SWITCH_COMPLETE s then Some s
      else do {
        let v = VMacPriv (wm_scan s);
        let s = clr_flag (SCANSTATE_F_WAIT_CHANNEL_SWITCH OR SCANSTATE_F_CHANNEL_SWITCH_COMPLETE OR SCANSTATE_F_DISCARD) s;
        p \<leftarrow> nth_opt (ss_chans (wm_scan s)) (scan_next_chan_index (wm_scan s));
        i \<leftarrow> p;
        c \<leftarrow> nth_chan i s;
        let s = upd_ss (\<lambda>x. x\<lparr>scan_next_chan_index := scan_next_chan_index x + 1\<rparr>) s;
        let s = (if two_channels s then s
                 else scan_timer (Some (if chan_flags c AND WIFINET_CHAN_DFS \<noteq> 0 then SCAN_DEFAULT_INTERVAL
                                        else scan_chan_wait (wm_scan s))) s);
        let s = (if one_channel s
                 then clr_flag (SCANSTATE_F_NOTIFY_AP OR SCANSTATE_F_TX_DONE) (set_flag SCANSTATE_F_RESTORE s) else s);
        let old = vm_mac_mode (svif s v);
        let new = scan_mode c (p2p_enable (svif s v));
        let s = upd_sv v (\<lambda>x. x\<lparr>vm_mac_mode := new\<rparr>) s;
        let s = (if old \<noteq> new then sc_emit ''wifi_mac_set_legacy_rates'' [int v] s else s);
        Some (scan_probes v c s) })"

definition wifi_mac_switch_scan_channel :: "scan_sys \<Rightarrow> scan_sys option" where
  "wifi_mac_switch_scan_channel s =
     (let x = wm_scan s in
      if scan_last_chan_index x \<le> scan_next_chan_index x then Some s
      else do {
        p \<leftarrow> nth_opt (ss_chans x) (scan_next_chan_index x);
        i \<leftarrow> p;
        c \<leftarrow> nth_chan i s;
        same \<leftarrow> (case wm_curchan (wm_chans s) of None \<Rightarrow> Some False
                 | Some j \<Rightarrow> do { d \<leftarrow> nth_chan j s; Some (chan_pri_num c = chan_pri_num d) });
        if same then wifi_mac_scan_channel (set_flag SCANSTATE_F_CHANNEL_SWITCH_COMPLETE s)
        else do {
          s \<leftarrow> wifi_mac_ChangeChannel i 0 (VMacPriv x) (set_flag SCANSTATE_F_WAIT_CHANNEL_SWITCH s);
          Some (scan_timer (Some 30) s) } })"

section \<open>The timer\<close>

definition wifi_mac_scan_timeout_ex :: "scan_sys \<Rightarrow> scan_sys" where
  "wifi_mac_scan_timeout_ex s =
     (let s = clr_flag SCANSTATE_F_WAIT_TBTT s;
          s = (if has SCANSTATE_F_WAIT_CHANNEL_SWITCH s
               then set_flag SCANSTATE_F_CHANNEL_SWITCH_COMPLETE (clr_flag SCANSTATE_F_WAIT_CHANNEL_SWITCH s) else s);
          s = clr_flag SCANSTATE_F_SEND_PROBEREQ_AGAIN s;
          n = wm_scanplayercnt s + 1
      in add_scan_task (Scan_timeout n) (s\<lparr>wm_scanplayercnt := n\<rparr>))"

definition connected_sta :: "scan_sys \<Rightarrow> nat \<Rightarrow> bool" where
  "connected_sta s v = (mode (mac s) v = M_STA \<and> state (mac s) v = S_CONNECTED)"

text \<open>True when frames are still in the hardware queues: then no timer is set, and the driver says when they are gone.\<close>

definition wifi_mac_scan_buff_and_chk_tx :: "scan_env \<Rightarrow> scan_sys \<Rightarrow> bool \<times> scan_sys" where
  "wifi_mac_scan_buff_and_chk_tx e s =
     (let s = foldl (\<lambda>s v. if connected_sta s v
                then sc_emit ''drv_set_is_mother_channel'' [int v, 0] (upd_sv v (\<lambda>x. x\<lparr>quiet_queue := True\<rparr>) s) else s) s (wm_wnet_vifs e)
      in if \<not> hal_tx_empty e then (True, clr_flag SCANSTATE_F_TX_DONE (set_flag SCANSTATE_F_WAIT_PKT_CLEAR s))
         else (False, set_flag SCANSTATE_F_TX_DONE s))"

definition wifi_mac_scan_notify_ap :: "scan_env \<Rightarrow> scan_sys \<Rightarrow> scan_sys" where
  "wifi_mac_scan_notify_ap e s =
     foldl (\<lambda>s v. if connected_sta s v then set_flag SCANSTATE_F_NOTIFY_AP (sc_emit ''nulldata_ps'' [int v, 1] s) else s) s
       (wm_wnet_vifs e)"

definition wifi_mac_running_wnet_vif :: "scan_sys \<Rightarrow> nat option" where
  "wifi_mac_running_wnet_vif s =
     (if nrun s \<noteq> 1 then None
      else if state (mac s) MAIN_VMAC = S_CONNECTED then Some MAIN_VMAC
      else if state (mac s) P2P_VMAC = S_CONNECTED then Some P2P_VMAC else None)"

definition scan_done :: "scan_sys \<Rightarrow> bool" where
  "scan_done s = (scan_last_chan_index (wm_scan s) \<le> scan_next_chan_index (wm_scan s) \<or> has SCANSTATE_F_CANCEL s)"

text \<open>No notice is due when the next channel is the current one and 20 MHz wide.\<close>

definition need_notify_ap :: "scan_sys \<Rightarrow> bool option" where
  "need_notify_ap s =
     (let x = wm_scan s in
      if scan_next_chan_index x < scan_last_chan_index x then do {
        p \<leftarrow> nth_opt (ss_chans x) (scan_next_chan_index x);
        (case (p, wm_curchan (wm_chans s)) of
           (Some i, Some j) \<Rightarrow> do { c \<leftarrow> nth_chan i s; d \<leftarrow> nth_chan j s; Some (\<not> (chan_pri_num c = chan_pri_num d \<and> chan_bw d = WIDTH20)) }
         | _ \<Rightarrow> Some True) }
      else Some True)"

text \<open>Before the driver leaves the channel of a running station: \<open>True\<close> when it has to wait.\<close>

definition scan_prepare :: "scan_env \<Rightarrow> scan_sys \<Rightarrow> bool \<times> scan_sys" where
  "scan_prepare e s =
     (if (case wifi_mac_running_wnet_vif s of Some v \<Rightarrow> mode (mac s) v = M_HOSTAP | None \<Rightarrow> False) \<or> \<not> one_channel s then (False, s)
      else case (if has SCANSTATE_F_TX_DONE s then (False, s) else wifi_mac_scan_buff_and_chk_tx e s) of
          (True, s) \<Rightarrow> (True, s)
        | (False, s) \<Rightarrow>
            if has SCANSTATE_F_NOTIFY_AP s then (False, s)
            else (True, scan_timer (Some LEAKY_AP_DET_WIN) (wifi_mac_scan_notify_ap e s)))"

definition scan_go_on :: "scan_sys \<Rightarrow> (bool \<times> scan_sys) option" where
  "scan_go_on s = do {
     s \<leftarrow> (if has SCANSTATE_F_CHANNEL_SWITCH_COMPLETE s then wifi_mac_scan_channel s else wifi_mac_switch_scan_channel s);
     Some (False, s) }"

text \<open>The handler up to its label \<open>end\<close>: \<open>True\<close> when it gets there.\<close>

definition scan_timeout_body :: "scan_env \<Rightarrow> nat \<Rightarrow> scan_sys \<Rightarrow> (bool \<times> scan_sys) option" where
  "scan_timeout_body e cnt s =
     (let v = VMacPriv (wm_scan s); s = scan_timer None s in
      if wm_scanplayercnt s \<noteq> cnt then Some (False, s)
      else
        let s = (if vm_mainsta (vif (mac s) v) = None then set_flag SCANSTATE_F_CANCEL s else s) in
        if \<not> scanning s \<or> has SCANSTATE_F_DISCONNECT_REQ_CANCEL s \<or> has SCANSTATE_F_GET_CONNECT_AP s \<or> \<not> has SCANSTATE_F_START s
        then Some (True, s)
        else do {
          need \<leftarrow> need_notify_ap s;
          if nrun s \<noteq> 0 \<and> has SCANSTATE_F_RESTORE s then do {
            s \<leftarrow> wifi_mac_restore_wnet_vif_channel e s;
            let s = set_flag SCANSTATE_F_DISCARD (clr_flag SCANSTATE_F_RESTORE s);
            if scan_done s then Some (True, s)
            else Some (False, scan_timer (Some SCAN_DEFAULT_INTERVAL) (set_flag SCANSTATE_F_WAIT_TBTT s)) }
          else if nrun s \<noteq> 0 \<and> \<not> scan_done s \<and> need then
            (case scan_prepare e s of (True, s) \<Rightarrow> Some (False, s) | (False, s) \<Rightarrow> scan_go_on s)
          else if scan_done s then Some (True, s) else scan_go_on s })"

section \<open>Starting and cancelling\<close>

definition wifi_mac_get_channel_rssi_before_scan :: "scan_noise \<Rightarrow> int \<Rightarrow> int" where
  "wifi_mac_get_channel_rssi_before_scan noise rssi =
     (if rssi = MAC_MAX_GAIN then (if noise = ENV_CLEAR then MAC_MAX_GAIN else MAC_MIN_GAIN)
      else if rssi = MAC_MID_GAIN then
        (if noise = ENV_CLEAR then MAC_MAX_GAIN else if noise = ENV_NOISE then MAC_MIN_GAIN else MAC_MID_GAIN)
      else if rssi = MAC_MIN_GAIN then (if noise = ENV_NOISE then MAC_MIN_GAIN else MAC_MID_GAIN)
      else MAC_MIN_GAIN)"

text \<open>The names the interface wants, as the interface of theory ConnSm has them: all the same.\<close>

definition des_ssids :: "nat \<Rightarrow> scan_sys \<Rightarrow> scan_ssid list" where
  "des_ssids v s = (let d = vm_des_ssid (vif (mac s) v)
     in replicate (unat (vm_des_nssid (vif (mac s) v))) \<lparr>ss_len = int (length d), ss_bytes = d\<rparr>)"

definition scan_match :: "scan_env \<Rightarrow> nat \<Rightarrow> scan_sys \<Rightarrow> scaninfo_entry \<Rightarrow> u32 option" where
  "scan_match e v s = match_bss (wm_chans s) (sc_htrates e) (mode (mac s) v) (vm_flags (vif (mac s) v)) (svif s v) (wm_scan s)"

definition best_node :: "scan_env \<Rightarrow> nat \<Rightarrow> scan_sys \<Rightarrow> scaninfo_entry \<Rightarrow> scaninfo_entry option" where
  "best_node e v s = wifi_mac_scan_get_best_node (wm_chans s) (sc_htrates e) (mode (mac s) v) (vm_flags (vif (mac s) v))
     (roaming_threshold_2g e) (roaming_threshold_5g e) (svif s v) (wm_scan s)"

text \<open>The connection to an entry: what \<open>wifi_mac_connect\<close> takes from it, and the fields of the interface and the new station that
  only the scan reads.\<close>

definition bss_of :: "wifi_channel \<Rightarrow> macmode \<Rightarrow> scan_info \<Rightarrow> sm_bss" where
  "bss_of c m i = \<lparr>bss_ssid = take (unat (SI_ssid i ! 1)) (drop 2 (SI_ssid i)), bss_chan = c, bss_rsn_capa = si_rsn_capa i,
     bss_ht = (macmode_num MODE_11BG < macmode_num m)\<rparr>"

definition scan_connect_to :: "scan_env \<Rightarrow> nat \<Rightarrow> scan_info \<Rightarrow> scan_sys \<Rightarrow> scan_sys option" where
  "scan_connect_to e v i s = do {
     c \<leftarrow> nth_chan (SI_chan i) s;
     m \<leftarrow> wifi_mac_get_sta_mode (wm_chans s) i;
     (ok, x) \<leftarrow> wifi_mac_connect (sc_con e) v (bss_of c m i) (mac s);
     let s = s\<lparr>mac := x\<rparr>;
     Some (case (ok, e_new_node (sc_con e)) of
         (True, Some n) \<Rightarrow> upd_sv v (\<lambda>y. y\<lparr>vm_des_bssid := SI_bssid i, vm_mac_mode := m\<rparr>)
            (s\<lparr>sta_bssid := (sta_bssid s)(fst n := SI_bssid i), sta_bssmode := (sta_bssmode s)(fst n := m)\<rparr>)
       | _ \<Rightarrow> s) }"

definition wifi_mac_scan_before_connect :: "scan_env \<Rightarrow> nat \<Rightarrow> scan_sys \<Rightarrow> (bool \<times> scan_sys) option" where
  "wifi_mac_scan_before_connect e v s =
     (let b = vm_connect_scan_entry (svif s v) in
      if se_valid b then do {
        s \<leftarrow> scan_connect_to e v (scaninfo b) s;
        Some (True, upd_sv v (\<lambda>x. x\<lparr>vm_connect_scan_entry := (vm_connect_scan_entry x)\<lparr>se_valid := False\<rparr>\<rparr>) s) }
      else do {
        (found, sv, ss) \<leftarrow> wifi_mac_scan_get_match_node (wm_chans s) (sc_htrates e) (mode (mac s) v) (vm_flags (vif (mac s) v))
                            (svif s v) (wm_scan s);
        Some (False, s\<lparr>wm_scan := ss, svif := (svif s)(v := if found then sv\<lparr>vm_scan_before_connect_flag := True\<rparr> else sv)\<rparr>) })"

definition scan_refused :: "scan_env \<Rightarrow> nat \<Rightarrow> scan_sys \<Rightarrow> bool" where
  "scan_refused e v s =
     (wm_mac_exit e \<or> scanning s \<or> vm_scan_hang (svif s v) \<or> recovery_stat (mac s) = RECOVERY_START
      \<or> wm_flags s AND F_NOSCAN \<noteq> 0 \<and> \<not> p2p_enable (svif s v))"

definition gain_before_scan :: "nat \<Rightarrow> scan_sys \<Rightarrow> scan_sys" where
  "gain_before_scan v s =
     (if mode (mac s) v \<noteq> M_STA then s
      else let s = upd_sv v (\<lambda>x. x\<lparr>vm_scanchan_rssi := if vm_scan_before_connect_flag x then min (vm_scanchan_rssi x) MAC_MIN_GAIN
                 else wifi_mac_get_channel_rssi_before_scan (scan_noisy_status s) (vm_scanchan_rssi x)\<rparr>) s
           in sc_emit ''set_channel_rssi'' [vm_scanchan_rssi (svif s v) mod 256] s)"

text \<open>The scan is set going: its task is queued and the timer that watches over it started.\<close>

definition scan_launch :: "nat \<Rightarrow> u16 \<Rightarrow> scan_sys \<Rightarrow> scan_sys" where
  "scan_launch v flags s =
     (let s = gain_before_scan v (s\<lparr>wm_flags := wm_flags s OR F_SCAN\<rparr>);
          nopick = (if mode (mac s) v = M_IBSS \<or> mode (mac s) v = M_STA then 0 else SCANCFG_NOPICK);
          s = upd_ss (\<lambda>x. x\<lparr>scan_CfgFlags := scan_CfgFlags x OR (flags AND SCANCFG_MASK) OR nopick\<rparr>) s;
          s = sc_emit ''wifi_mac_pwrsave_wakeup_for_tx'' [int v] s;
          flush = (\<not> vm_scan_before_connect_flag (svif s v)
                   \<and> (VMacPriv (wm_scan s) \<noteq> v \<or> scfg s AND word_of_int SCANCFG_FLUSH \<noteq> 0));
          s = upd_ss (\<lambda>x. x\<lparr>ScanTablePriv := if flush then wifi_mac_scan_flush (ScanTablePriv x) else ScanTablePriv x, VMacPriv := v\<rparr>) s;
          n = wm_scanplayercnt s + 1;
          s = add_scan_task (Scan_start n v (wnet_vif_replaycounter (vif (mac s) v))) (s\<lparr>wm_scanplayercnt := n\<rparr>)
      in scan_timer (Some SCAN_PROTECT_TIME) s)"

definition wifi_mac_start_scan :: "scan_env \<Rightarrow> nat \<Rightarrow> u16 \<Rightarrow> scan_ssid list \<Rightarrow> scan_sys \<Rightarrow> (bool \<times> scan_sys) option" where
  "wifi_mac_start_scan e v flags ssids s =
     (if scan_refused e v s then Some (False, s)
      else do {
        let s = upd_ss (wifi_mac_save_ssid ssids) s;
        (connected, s) \<leftarrow>
          (if scfg s AND SCANCFG_CONNECT \<noteq> 0 \<and> mode (mac s) v = M_STA
              \<and> sint (sc_jiffies e - (wm_lastscan s + SCAN_VALID_SECONDS * sc_hz e)) < 0
           then wifi_mac_scan_before_connect e v s else Some (False, s));
        if connected then Some (False, upd_ss (\<lambda>x. x\<lparr>scan_CfgFlags := 0\<rparr>) s) else Some (True, scan_launch v flags s) })"

definition wifi_mac_chk_scan :: "scan_env \<Rightarrow> nat \<Rightarrow> u16 \<Rightarrow> scan_ssid list \<Rightarrow> scan_sys \<Rightarrow> (bool \<times> scan_sys) option" where
  "wifi_mac_chk_scan e v flags ssids s =
     (if scanning s then Some (False, s)
      else wifi_mac_start_scan e v flags ssids (upd_ss (\<lambda>x. x\<lparr>scan_CfgFlags := scan_CfgFlags x OR SCANCFG_CONNECT\<rparr>) s))"

definition wifi_mac_cancel_scan :: "scan_sys \<Rightarrow> scan_sys" where
  "wifi_mac_cancel_scan s =
     (if \<not> scanning s then s
      else let s = set_flag SCANSTATE_F_CANCEL s
           in if has SCANSTATE_F_START s then wifi_mac_scan_timeout_ex (scan_timer None s) else s)"

definition wifi_mac_scan_abort_ex :: "scan_sys \<Rightarrow> scan_sys" where
  "wifi_mac_scan_abort_ex s = wifi_mac_cancel_scan (upd_ss (\<lambda>x. x\<lparr>ss_scan_abort_timer := None\<rparr>) s)"

text \<open>A station that leaves masks the flags (with \<open>&=\<close>) instead of setting the one for a disconnection.\<close>

definition sta_leave_scan :: "scan_sys \<Rightarrow> scan_sys" where
  "sta_leave_scan s =
     (if scanning s then upd_ss (\<lambda>x. x\<lparr>scan_StateFlags := scan_StateFlags x AND SCANSTATE_F_DISCONNECT_REQ_CANCEL\<rparr>) s else s)"

text \<open>What a switch of the connection machine asks of the scan.\<close>

definition scan_request :: "scan_env \<Rightarrow> sm_event \<Rightarrow> scan_sys \<Rightarrow> scan_sys option" where
  "scan_request e ev s =
     (case ev of
        Cancel_scan \<Rightarrow> Some (wifi_mac_cancel_scan s)
      | Chk_scan v flags n \<Rightarrow> do { (_, s) \<leftarrow> wifi_mac_chk_scan e v (word_of_int flags) (take (unat n) (des_ssids v s)) s; Some s }
      | Drv f args \<Rightarrow> Some (if f = ''drv_set_pkt_drop'' \<and> drop 1 args = [1] then sta_leave_scan s else s)
      | _ \<Rightarrow> Some s)"

definition scan_top_sm :: "scan_env \<Rightarrow> nat \<Rightarrow> wifi_mac_state \<Rightarrow> int \<Rightarrow> scan_sys \<Rightarrow> scan_sys option" where
  "scan_top_sm e v nstate arg s = do {
     (_, x) \<leftarrow> wifi_mac_top_sm (sc_con e) v nstate arg (mac s);
     foldo (scan_request e) (drop (length (sm_log (mac s))) (sm_log x)) (s\<lparr>mac := x\<rparr>) }"

definition scan_start_task :: "scan_env \<Rightarrow> nat \<Rightarrow> nat \<Rightarrow> int \<Rightarrow> scan_sys \<Rightarrow> scan_sys option" where
  "scan_start_task e cnt v replay s =
     (if wnet_vif_replaycounter (vif (mac s) v) \<noteq> replay \<or> wm_scanplayercnt s \<noteq> cnt \<or> has SCANSTATE_F_START s \<or> \<not> scanning s
      then Some s
      else do {
        let s = scan_timer None (upd_ss (\<lambda>x. x\<lparr>scan_StateFlags := SCANSTATE_F_START\<rparr>) s);
        s \<leftarrow> (if scfg s AND SCANCFG_CHANSET = 0 then vm_scan_setup_chan e v s else Some s);
        let s = sc_emit ''scan_start'' [] (s\<lparr>mac := (mac s)\<lparr>wm_syncbeacon := 0\<rparr>\<rparr>);
        let s = upd_ss (\<lambda>x. x\<lparr>scan_next_chan_index := 0, ss_scan_abort_timer := Some SCAN_ABORT_TIME\<rparr>) s;
        Some (if nrun s = 0 then wifi_mac_scan_timeout_ex s
              else scan_timer (Some 110) (set_flag SCANSTATE_F_WAIT_TBTT s)) })"

section \<open>The results for the kernel\<close>

definition wifi_mac_is_in_noisy_environment :: "scan_env \<Rightarrow> scan_sys \<Rightarrow> bool" where
  "wifi_mac_is_in_noisy_environment e s =
     (ucast (if nrun s = 0 then scan_gain_thresh_unconnect e else scan_gain_thresh_connect e) \<le> scan_ssid_count (wm_scan s))"

definition wifi_mac_is_in_clear_environment :: "scan_env \<Rightarrow> scan_sys \<Rightarrow> bool" where
  "wifi_mac_is_in_clear_environment e s = (scan_ssid_count (wm_scan s) < ucast (scan_max_gain_thresh e))"

text \<open>Every entry is reported with its age; after a scan of all channels the number of networks, as a byte, sets the noise level.\<close>

definition wifi_mac_scan_parse :: "scan_env \<Rightarrow> nat \<Rightarrow> scan_sys \<Rightarrow> scan_info list \<times> scan_sys" where
  "wifi_mac_scan_parse e v s =
     (let t = ScanTablePriv (wm_scan s);
          aged = (\<lambda>x. x\<lparr>scaninfo := (scaninfo x)\<lparr>SI_age := ucast (sc_jiffies e - LastUpdateTime x)\<rparr>\<rparr>);
          t' = t\<lparr>st_se := (\<lambda>i. if i \<in> set (st_entry t) then aged (st_se t i) else st_se t i)\<rparr>;
          s = upd_ss (\<lambda>x. x\<lparr>ScanTablePriv := t'\<rparr>) s; sv = svif s v;
          out = map (\<lambda>i. scaninfo (st_se t' i)) (st_entry t)
      in if vm_chan_switch_scan_flag sv \<or> vm_scan_before_connect_flag sv \<or> vm_chan_roaming_scan_flag sv
            \<or> scan_next_chan_index (wm_scan s) \<le> 20 then (out, s)
         else
           let s = upd_ss (\<lambda>x. x\<lparr>scan_ssid_count := ucast (of_nat (length out) :: u8)\<rparr>) s
           in (out,
               if wifi_mac_is_in_noisy_environment e s then s\<lparr>scan_noisy_status := ENV_NOISE\<rparr>
               else if wifi_mac_is_in_clear_environment e s
               then (sc_emit ''set_channel_rssi'' [174] s)\<lparr>scan_noisy_status := ENV_CLEAR\<rparr>
               else s\<lparr>scan_noisy_status := ENV_MID\<rparr>))"

section \<open>The end of a scan\<close>

definition wifi_mac_scan_connect :: "scan_env \<Rightarrow> nat \<Rightarrow> scan_sys \<Rightarrow> (bool \<times> scan_sys) option" where
  "wifi_mac_scan_connect e v s =
     (if scfg s AND SCANCFG_NOPICK \<noteq> 0 \<or> \<not> sc_connect_request e \<and> recovery_stat (mac s) \<noteq> RECOVERY_VIF_UP
         \<or> S_SCAN < state (mac s) v then Some (False, s)
      else if mode (mac s) v \<notin> {M_IBSS, M_STA, M_P2P_DEV, M_P2P_CLIENT} then None
      else do {
        b \<leftarrow> best_node e v s entry_zero;
        let s = upd_sv v (\<lambda>x. x\<lparr>vm_connect_scan_entry := b\<rparr>) s;
        if \<not> se_valid b then
          (if mode (mac s) v = M_IBSS then do {
             c \<leftarrow> (case vm_curchan (vif (mac s) v) of Some c \<Rightarrow> Some (Some c)
                   | None \<Rightarrow> (case wm_curchan (wm_chans s) of None \<Rightarrow> Some None | Some i \<Rightarrow> do { c \<leftarrow> nth_chan i s; Some (Some c) }));
             x \<leftarrow> wifi_mac_create_wifi (sc_con e) v c (mac s);
             Some (False, s\<lparr>mac := x\<rparr>) }
           else Some (False, s))
        else if mode (mac s) v = M_IBSS \<and> SI_bssid (scaninfo b) = replicate 6 0 then do {
          c \<leftarrow> nth_chan (SI_chan (scaninfo b)) s;
          x \<leftarrow> wifi_mac_create_wifi (sc_con e) v (Some c) (mac s);
          Some (True, upd_sv v (\<lambda>y. y\<lparr>vm_mac_mode := if is_2g c then MODE_11BGN else MODE_11GNAC\<rparr>) (s\<lparr>mac := x\<rparr>)) }
        else do {
          s \<leftarrow> scan_connect_to e v (scaninfo b) s;
          Some (True, upd_sv v (\<lambda>y. y\<lparr>vm_connect_scan_entry :=
              b\<lparr>connectcnt := connectcnt b + 1, ConnectTime := sc_jiffies e, se_valid := False\<rparr>\<rparr>) s) } })"

text \<open>An access point chooses its channel after the scan.\<close>

definition wifi_mac_chk_ap_chan :: "scan_env \<Rightarrow> nat \<Rightarrow> scan_sys \<Rightarrow> scan_sys option" where
  "wifi_mac_chk_ap_chan e v s = do {
     c \<leftarrow> (case vm_curchan (vif (mac s) v) of
            Some c \<Rightarrow> Some c
          | None \<Rightarrow> (case wifi_mac_find_chan (wm_chans s) 149 WIDTH80 155 of
              Some i \<Rightarrow> nth_chan i s
            | None \<Rightarrow> do { p \<leftarrow> nth_opt (ss_chans (wm_scan s)) 0; i \<leftarrow> p; nth_chan i s }));
     g \<leftarrow> (if is_2g c then wifi_mac_scan_chk_11g_bss (wm_chans s) (wm_scan s) else Some False);
     if g then do {
       let s = s\<lparr>mac := set_vif v (\<lambda>x. x\<lparr>vm_bandwidth := WIDTH20\<rparr>) (emit [Drv ''htcap_no_40'' [int v]] (mac s))\<rparr>;
       d \<leftarrow> (case wifi_mac_find_chan (wm_chans s) (chan_pri_num c) WIDTH20 (chan_pri_num c) of
              None \<Rightarrow> Some None | Some i \<Rightarrow> do { d \<leftarrow> nth_chan i s; Some (Some d) });
       x \<leftarrow> wifi_mac_create_wifi (sc_con e) v d (mac s);
       Some (s\<lparr>mac := x\<rparr>) }
     else do { x \<leftarrow> wifi_mac_create_wifi (sc_con e) v (Some c) (mac s); Some (s\<lparr>mac := x\<rparr>) } }"

text \<open>The name compared is a C string: the bytes before the first zero.\<close>

definition c_string :: "u8 list \<Rightarrow> u8 list" where "c_string b = takeWhile (\<lambda>x. x \<noteq> 0) b"

definition switch_found :: "nat \<Rightarrow> scan_sys \<Rightarrow> bool option" where
  "switch_found v s = do {
     i \<leftarrow> vm_switchchan (svif s v);
     c \<leftarrow> nth_chan i s;
     foldo (\<lambda>e f. do {
         d \<leftarrow> nth_chan (SI_chan (scaninfo e)) s;
         Some (f \<or> c_string (drop 2 (SI_ssid (scaninfo e))) = c_string (vm_des_ssid (vif (mac s) v))
                 \<and> vm_des_bssid (svif s v) = SI_bssid (scaninfo e) \<and> chan_pri_num c = chan_pri_num d) })
       (map (st_se (ScanTablePriv (wm_scan s))) (st_entry (ScanTablePriv (wm_scan s)))) False }"

definition set_main_switch :: "nat \<Rightarrow> bool \<Rightarrow> scan_sys \<Rightarrow> scan_sys" where
  "set_main_switch v b s = (case vm_mainsta (vif (mac s) v) of None \<Rightarrow> s
     | Some i \<Rightarrow> s\<lparr>sta_channel_switch_mode := (sta_channel_switch_mode s)(i := b)\<rparr>)"

definition wifi_mac_check_switch_chan_result :: "nat \<Rightarrow> scan_sys \<Rightarrow> scan_sys option" where
  "wifi_mac_check_switch_chan_result v s = do {
     f \<leftarrow> (if st_entry (ScanTablePriv (wm_scan s)) = [] then Some False else switch_found v s);
     Some (if f \<or> vm_chan_switch_scan_count (svif s v) = 5
           then upd_sv v (\<lambda>x. x\<lparr>vm_chan_switch_scan_count := 0, vm_chan_switch_scan_flag := False\<rparr>) (set_main_switch v False s)
           else s) }"

definition all_flags :: u16 where
  "all_flags = SCANCFG_USERREQ OR word_of_int SCANCFG_ACTIVE OR word_of_int SCANCFG_FLUSH OR word_of_int SCANCFG_CREATE"

definition scan_again :: "scan_env \<Rightarrow> nat \<Rightarrow> scan_sys \<Rightarrow> scan_sys option" where
  "scan_again e v s = do { (_, s) \<leftarrow> wifi_mac_start_scan e v all_flags (des_ssids v s) s; Some s }"

text \<open>A station that roams looks for a better network and leaves its own when it finds one.\<close>

definition end_roaming :: "scan_env \<Rightarrow> nat \<Rightarrow> scan_sys \<Rightarrow> (bool \<times> scan_sys) option" where
  "end_roaming e v s =
     (case vm_mainsta (vif (mac s) v) of
        None \<Rightarrow> Some (False, s)
      | Some m \<Rightarrow>
          if \<not> vm_chan_roaming_scan_flag (svif s v) then Some (False, s)
          else do {
            b \<leftarrow> best_node e v s (vm_connect_scan_entry (svif s v));
            let b' = b\<lparr>se_valid := False\<rparr>;
            let s = upd_sv v (\<lambda>x. x\<lparr>vm_connect_scan_entry := b'\<rparr>) s;
            if \<not> se_valid b \<or> SI_bssid (scaninfo b) = sta_bssid s m then Some (False, s)
            else do {
              (_, sv, ss) \<leftarrow> wifi_mac_scan_set_match_node (wm_chans s) (sc_htrates e) (mode (mac s) v) (vm_flags (vif (mac s) v))
                               (svif s v) (wm_scan s);
              let s = s\<lparr>wm_scan := ss, svif := (svif s)(v := sv\<lparr>vm_connect_scan_entry := b\<rparr>)\<rparr>;
              s \<leftarrow> scan_top_sm e v S_SCAN 0 s;
              Some (True, upd_ss (\<lambda>x. x\<lparr>roaming_full_scan := False\<rparr>) s) } })"

text \<open>What becomes of the result: a connection, or the channel of an access point.\<close>

definition end_connect :: "scan_env \<Rightarrow> nat \<Rightarrow> scan_sys \<Rightarrow> scan_sys option" where
  "end_connect e v s =
     (if mode (mac s) v \<notin> {M_HOSTAP, M_P2P_GO, M_WDS, M_MONITOR} then do {
        (ok, s) \<leftarrow> wifi_mac_scan_connect e v s;
        Some (if ok then upd_sv v (\<lambda>x. x\<lparr>vm_chan_roaming_scan_flag := False\<rparr>) (s\<lparr>before_conn_scan_times := 0\<rparr>)
              else if vm_scan_before_connect_flag (svif s v) then s\<lparr>before_conn_scan_times := before_conn_scan_times s + 1\<rparr> else s) }
      else if mode (mac s) v \<in> {M_HOSTAP, M_P2P_GO} \<and> scfg s AND word_of_int SCANCFG_CREATE \<noteq> 0 then wifi_mac_chk_ap_chan e v s
      else Some s)"

text \<open>The kernel is told that the scan is done, and whether it was aborted; unless it was, the entries are reported.\<close>

definition wifi_mac_notify_scan_done :: "scan_env \<Rightarrow> nat \<Rightarrow> scan_sys \<Rightarrow> scan_sys" where
  "wifi_mac_notify_scan_done e v s =
     (let abort = has SCANSTATE_F_CANCEL s;
          s = (if \<not> abort \<and> sc_scan_request e then snd (wifi_mac_scan_parse e v s) else s)
      in sc_emit ''indicate_scan_done'' [int v, if abort then 1 else 0] s)"

definition end_notify :: "scan_env \<Rightarrow> nat \<Rightarrow> bool \<Rightarrow> scan_sys \<Rightarrow> scan_sys" where
  "end_notify e v roaming s =
     (if scfg s AND SCANCFG_USERREQ \<noteq> 0 \<and> \<not> roaming
      then upd_ss (\<lambda>x. x\<lparr>scan_CfgFlags := scan_CfgFlags x AND NOT SCANCFG_USERREQ\<rparr>) (wifi_mac_notify_scan_done e v s) else s)"

definition end_clear :: "nat \<Rightarrow> scan_sys \<Rightarrow> scan_sys" where
  "end_clear v s =
     upd_sv v (\<lambda>x. x\<lparr>quiet_queue := False, vm_scan_before_connect_flag := False\<rparr>)
       (upd_ss (\<lambda>x. x\<lparr>scan_CfgFlags := 0, ss_nssid := 0,
            ss_ssid := replicate (length (ss_ssid x)) \<lparr>ss_len = 0, ss_bytes = replicate WIFINET_NWID_LEN 0\<rparr>\<rparr>)
         (s\<lparr>wm_flags := wm_flags s AND NOT F_SCAN\<rparr>))"

definition end_switch :: "scan_env \<Rightarrow> nat \<Rightarrow> scan_sys \<Rightarrow> scan_sys option" where
  "end_switch e v s =
     (if \<not> vm_chan_switch_scan_flag (svif s v) then Some s
      else do {
        s \<leftarrow> wifi_mac_check_switch_chan_result v s;
        (case vm_mainsta (vif (mac s) v) of
           None \<Rightarrow> Some s
         | Some m \<Rightarrow>
             if sta_channel_switch_mode s m then do {
               s \<leftarrow> scan_again e v s;
               Some (upd_sv v (\<lambda>x. x\<lparr>vm_chan_switch_scan_count := vm_chan_switch_scan_count x + 1\<rparr>) s) }
             else Some s) })"

text \<open>Two scans of the candidate channels, then two of all channels.\<close>

definition end_roam_again :: "scan_env \<Rightarrow> nat \<Rightarrow> bool \<Rightarrow> scan_sys \<Rightarrow> scan_sys option" where
  "end_roam_again e v found s =
     (if \<not> vm_chan_roaming_scan_flag (svif s v) \<or> found then Some s
      else
        let s = upd_sv v (\<lambda>x. x\<lparr>vm_chan_roaming_scan_count := vm_chan_roaming_scan_count x + 1\<rparr>) s; n = vm_chan_roaming_scan_count (svif s v)
        in if \<not> roaming_full_scan (wm_scan s) then
             scan_again e v (if 2 \<le> n then upd_sv v (\<lambda>x. x\<lparr>vm_chan_roaming_scan_count := 0\<rparr>)
                                              (upd_ss (\<lambda>x. x\<lparr>roaming_full_scan := True\<rparr>) s) else s)
           else if n < 2 then scan_again e v s
           else Some (upd_sv v (\<lambda>x. x\<lparr>vm_chan_roaming_scan_flag := False\<rparr>) s))"

definition end_retry :: "scan_env \<Rightarrow> nat \<Rightarrow> scan_sys \<Rightarrow> scan_sys option" where
  "end_retry e v s =
     (if before_conn_scan_times s = 1 then scan_again e v (upd_sv v (\<lambda>x. x\<lparr>vm_scan_before_connect_flag := True\<rparr>) s)
      else if before_conn_scan_times s = 2 then do {
        s \<leftarrow> scan_again e v (upd_sv v (\<lambda>x. x\<lparr>vm_scan_before_connect_flag := False\<rparr>) s); Some (s\<lparr>before_conn_scan_times := 0\<rparr>) }
      else Some (s\<lparr>before_conn_scan_times := 0\<rparr>))"

text \<open>An access point that was absent for the scan takes its notice of absence back.\<close>

definition end_noa :: "scan_env \<Rightarrow> scan_sys \<Rightarrow> scan_sys option" where
  "end_noa e s =
     (if nrun s \<noteq> 1 then Some s
      else do {
        v \<leftarrow> wifi_mac_running_wnet_vif s;
        Some (if mode (mac s) v = M_HOSTAP \<and> sc_noa_beacon e \<and> p2p_enable (svif s v) then sc_emit ''clear_noa'' [int v] s else s) })"

definition wifi_mac_end_scan :: "scan_env \<Rightarrow> scan_sys \<Rightarrow> scan_sys option" where
  "wifi_mac_end_scan e s =
     (if \<not> scanning s then Some s
      else do {
        let v = VMacPriv (wm_scan s);
        let s = upd_ss (\<lambda>x. x\<lparr>ss_scan_timer := None, ss_scan_abort_timer := None\<rparr>) s;
        s \<leftarrow> end_noa e s;
        let s = upd_ss (\<lambda>x. x\<lparr>scan_StateFlags := 0\<rparr>) ((sc_emit ''scan_end'' [] s)\<lparr>wm_lastscan := sc_jiffies e\<rparr>);
        let s = (case vm_mainsta (vif (mac s) v) of None \<Rightarrow> s
                 | Some m \<Rightarrow> upd_sv v (\<lambda>x. x\<lparr>vm_mac_mode := sta_bssmode s m\<rparr>) (sc_emit ''wifi_mac_set_legacy_rates'' [int v] s));
        (roamed, s) \<leftarrow> end_roaming e v s;
        s \<leftarrow> end_connect e v s;
        let s = end_notify e v roamed s;
        let s = (if mode (mac s) v = M_STA \<and> (state (mac s) v = S_CONNECTED \<or> vm_scan_before_connect_flag (svif s v))
                 then sc_emit ''set_channel_rssi'' [174] s else s);
        s \<leftarrow> wifi_mac_restore_wnet_vif_channel e s;
        let s = end_clear v s;
        s \<leftarrow> end_switch e v s;
        s \<leftarrow> end_roam_again e v roamed s;
        s \<leftarrow> end_retry e v s;
        Some (sc_emit ''ips_timer_presleep'' [int v] s) })"

definition wifi_mac_scan_timeout :: "scan_env \<Rightarrow> nat \<Rightarrow> scan_sys \<Rightarrow> scan_sys option" where
  "wifi_mac_scan_timeout e cnt s = do { (done, s) \<leftarrow> scan_timeout_body e cnt s; if done then wifi_mac_end_scan e s else Some s }"

definition run_scan_task :: "scan_env \<Rightarrow> scan_task \<Rightarrow> scan_sys \<Rightarrow> scan_sys option" where
  "run_scan_task e t s =
     (case t of Scan_timeout n \<Rightarrow> wifi_mac_scan_timeout e n s | Scan_start n v r \<Rightarrow> scan_start_task e n v r s
      | Scan_probe \<Rightarrow> Some (wifi_mac_scan_send_probe_timeout s))"

section \<open>Answers of the hardware\<close>

text \<open>The scan parts of the notices that the channel has been switched and that the queues are empty.\<close>

definition wifi_mac_channel_switch_complete :: "scan_sys \<Rightarrow> scan_sys" where
  "wifi_mac_channel_switch_complete s =
     (if has SCANSTATE_F_WAIT_CHANNEL_SWITCH s
      then wifi_mac_scan_timeout_ex (set_flag SCANSTATE_F_CHANNEL_SWITCH_COMPLETE (clr_flag SCANSTATE_F_WAIT_CHANNEL_SWITCH s)) else s)"

definition wifi_mac_notify_pkt_clear :: "scan_env \<Rightarrow> scan_sys \<Rightarrow> scan_sys" where
  "wifi_mac_notify_pkt_clear e s =
     (if 0 < nrun s \<and> scanning s \<and> has SCANSTATE_F_WAIT_PKT_CLEAR s \<and> hal_tx_empty e
      then wifi_mac_scan_timeout_ex (scan_timer None (set_flag SCANSTATE_F_TX_DONE (clr_flag SCANSTATE_F_WAIT_PKT_CLEAR s))) else s)"

section \<open>Attaching and detaching\<close>

definition wifi_mac_scan_vattach :: "scan_env \<Rightarrow> nat \<Rightarrow> scan_sys \<Rightarrow> scan_sys option" where
  "wifi_mac_scan_vattach e v s =
     vm_scan_setup_chan e v (upd_ss (\<lambda>x. x\<lparr>VMacPriv := v\<rparr>)
       (upd_sv v (\<lambda>x. x\<lparr>vm_scan_time_idle := 80, vm_scan_time_connect := 20, vm_scan_time_before_connect := 200,
          vm_scan_time_chan_switch := 500\<rparr>) s))"

definition wifi_mac_scan_vdetach :: "nat \<Rightarrow> scan_sys \<Rightarrow> scan_sys" where
  "wifi_mac_scan_vdetach v s =
     (if VMacPriv (wm_scan s) \<noteq> v then s
      else let s = (if scanning s then (scan_timer None s)\<lparr>wm_flags := wm_flags s AND NOT F_SCAN\<rparr> else s)
           in upd_ss (\<lambda>x. x\<lparr>ScanTablePriv := wifi_mac_scan_flush (ScanTablePriv x)\<rparr>) s)"

definition wifi_mac_scan_detach :: "scan_sys \<Rightarrow> scan_sys" where
  "wifi_mac_scan_detach s =
     upd_ss (\<lambda>x. x\<lparr>ScanTablePriv := wifi_mac_scan_flush (ScanTablePriv x), ss_scan_timer := None, ss_scan_abort_timer := None,
         ss_probe_timer := None\<rparr>) (s\<lparr>wm_flags := wm_flags s AND NOT F_SCAN\<rparr>)"

end
