(* ===== verification/ScanLive.thy ===== *)
theory ScanLive
  imports ScanSm
begin

text \<open>
  A scan comes to its end.  Each run of the timer handler either reaches the end of the scan or brings it closer: a channel
  takes at most four runs (tell the access point, switch, listen, come back).
\<close>

section \<open>Flags and fields\<close>

lemmas scan_flag_defs = SCANSTATE_F_DISCARD_def SCANSTATE_F_CANCEL_def SCANSTATE_F_START_def SCANSTATE_F_WAIT_TBTT_def
  SCANSTATE_F_RESTORE_def SCANSTATE_F_NOTIFY_AP_def SCANSTATE_F_TX_DONE_def SCANSTATE_F_WAIT_PKT_CLEAR_def
  SCANSTATE_F_DISCONNECT_REQ_CANCEL_def SCANSTATE_F_WAIT_CHANNEL_SWITCH_def SCANSTATE_F_CHANNEL_SWITCH_COMPLETE_def
  SCANSTATE_F_SEND_PROBEREQ_AGAIN_def SCANSTATE_F_GET_CONNECT_AP_def

named_theorems scan_simps \<open>what the elementary operations leave alone\<close>

lemma word_or_and_zero: "(x OR c) AND b = 0 \<longleftrightarrow> x AND b = 0 \<and> c AND b = (0 :: u32)"
  by (auto simp: bit_eq_iff bit_simps)

lemma word_and_not_and: "c AND b = 0 \<Longrightarrow> (x AND NOT c) AND b = x AND (b :: u32)"
  by (auto simp: bit_eq_iff bit_simps)

lemma word_and_not_and0: "c AND b = b \<Longrightarrow> (x AND NOT c) AND b = (0 :: u32)"
  by (auto simp: bit_eq_iff bit_simps)

lemma has_set_flag: "has b (set_flag c s) \<longleftrightarrow> has b s \<or> c AND b \<noteq> 0"
  by (auto simp: has_def set_flag_def upd_ss_def word_or_and_zero)

lemma has_clr_flag: "c AND b = 0 \<Longrightarrow> has b (clr_flag c s) \<longleftrightarrow> has b s" "c AND b = b \<Longrightarrow> \<not> has b (clr_flag c s)"
  by (simp_all add: has_def clr_flag_def upd_ss_def word_and_not_and word_and_not_and0)

lemma has_frame [scan_simps]:
  "has b (sc_emit f a s) = has b s" "has b (upd_sv v g s) = has b s" "has b (scan_timer p s) = has b s"
  "has b (add_scan_task t s) = has b s" "has b (s\<lparr>wm_scanplayercnt := n\<rparr>) = has b s" "has b (s\<lparr>wm_chans := w\<rparr>) = has b s"
  "has b (upd_ss (\<lambda>x. x\<lparr>scan_next_chan_index := k x\<rparr>) s) = has b s" "has b (upd_ss (\<lambda>x. x\<lparr>ss_probe_timer := q\<rparr>) s) = has b s"
  by (simp_all add: has_def sc_emit_def upd_sv_def scan_timer_def upd_ss_def add_scan_task_def)

text \<open>What a run of the handler depends on, besides flags, index and timer.\<close>

definition fixed :: "scan_sys \<Rightarrow> (nat \<Rightarrow> sm_vif) \<times> u8 \<times> u8 \<times> wifi_channel list \<times> nat option list \<times> nat \<times> nat \<times> u32" where
  "fixed s = (wnet_vifs (mac s), wm_nrunning (mac s), wm_vsdb_slot (mac s), wm_channels (wm_chans s), ss_chans (wm_scan s),
      scan_last_chan_index (wm_scan s), VMacPriv (wm_scan s), wm_flags s)"

lemma fixed_frame [scan_simps]:
  "fixed (sc_emit f a s) = fixed s" "fixed (upd_sv v g s) = fixed s" "fixed (scan_timer p s) = fixed s"
  "fixed (set_flag b s) = fixed s" "fixed (clr_flag b s) = fixed s" "fixed (add_scan_task t s) = fixed s"
  "fixed (s\<lparr>wm_scanplayercnt := n\<rparr>) = fixed s" "fixed (upd_ss (\<lambda>x. x\<lparr>scan_next_chan_index := k x\<rparr>) s) = fixed s"
  "fixed (upd_ss (\<lambda>x. x\<lparr>ss_probe_timer := q\<rparr>) s) = fixed s"
  by (simp_all add: fixed_def sc_emit_def emit_def upd_sv_def scan_timer_def upd_ss_def add_scan_task_def set_flag_def clr_flag_def)

abbreviation next_idx :: "scan_sys \<Rightarrow> nat" where "next_idx s \<equiv> scan_next_chan_index (wm_scan s)"
abbreviation last_idx :: "scan_sys \<Rightarrow> nat" where "last_idx s \<equiv> scan_last_chan_index (wm_scan s)"
definition armed :: "scan_sys \<Rightarrow> bool" where "armed s = (ss_scan_timer (wm_scan s) \<noteq> None)"
abbreviation cur_idx :: "scan_sys \<Rightarrow> nat option" where "cur_idx s \<equiv> wm_curchan (wm_chans s)"

lemma next_frame [scan_simps]:
  "next_idx (sc_emit f a s) = next_idx s" "next_idx (upd_sv v g s) = next_idx s" "next_idx (scan_timer p s) = next_idx s"
  "next_idx (set_flag b s) = next_idx s" "next_idx (clr_flag b s) = next_idx s" "next_idx (add_scan_task t s) = next_idx s"
  "next_idx (upd_ss (\<lambda>x. x\<lparr>ss_probe_timer := q\<rparr>) s) = next_idx s"
  by (simp_all add: sc_emit_def upd_sv_def scan_timer_def upd_ss_def add_scan_task_def set_flag_def clr_flag_def)

lemma cur_frame [scan_simps]:
  "cur_idx (sc_emit f a s) = cur_idx s" "cur_idx (upd_sv v g s) = cur_idx s" "cur_idx (scan_timer p s) = cur_idx s"
  "cur_idx (set_flag b s) = cur_idx s" "cur_idx (clr_flag b s) = cur_idx s" "cur_idx (add_scan_task t s) = cur_idx s"
  "cur_idx (upd_ss g' s) = cur_idx s"
  by (simp_all add: sc_emit_def upd_sv_def scan_timer_def upd_ss_def add_scan_task_def set_flag_def clr_flag_def)

lemma armed_frame [scan_simps]:
  "armed (sc_emit f a s) = armed s" "armed (upd_sv v g s) = armed s" "armed (scan_timer p s) = (p \<noteq> None)"
  "armed (set_flag b s) = armed s" "armed (clr_flag b s) = armed s"
  "armed (upd_ss (\<lambda>x. x\<lparr>ss_probe_timer := q\<rparr>) s) = armed s"
  by (simp_all add: armed_def sc_emit_def upd_sv_def scan_timer_def upd_ss_def set_flag_def clr_flag_def)

lemma fixedD:
  assumes "fixed s' = fixed s"
  shows "nrun s' = nrun s" "one_channel s' = one_channel s" "two_channels s' = two_channels s" "vif (mac s') v = vif (mac s) v"
    "nth_chan i s' = nth_chan i s" "ss_chans (wm_scan s') = ss_chans (wm_scan s)" "last_idx s' = last_idx s"
    "VMacPriv (wm_scan s') = VMacPriv (wm_scan s)" "scanning s' = scanning s" "connected_sta s' v = connected_sta s v"
    "wifi_mac_running_wnet_vif s' = wifi_mac_running_wnet_vif s" "restore_target s' = restore_target s"
    "chan_ref s' c = chan_ref s c" "wm_nchans (wm_chans s') = wm_nchans (wm_chans s)"
  using assms
  by (auto simp: fixed_def nrun_def Let_def one_channel_def two_channels_def concurrent_check_is_vmac_same_pri_channel_def nth_chan_def
      scanning_def connected_sta_def wifi_mac_running_wnet_vif_def restore_target_def chan_ref_def Let_def)

section \<open>Visiting a channel\<close>

lemma foldl_frame:
  assumes "\<And>x s. g (f s x) = g s"
  shows "g (foldl f s xs) = g s"
  by (induction xs arbitrary: s) (simp_all add: assms)

lemma probe_names_frame [scan_simps]:
  "fixed (probe_names v s) = fixed s" "next_idx (probe_names v s) = next_idx s" "has b (probe_names v s) = has b s"
  "cur_idx (probe_names v s) = cur_idx s" "armed (probe_names v s) = armed s"
  unfolding probe_names_def probereq_def
  by (rule foldl_frame, simp add: scan_simps)+

lemma scan_probes_frame [scan_simps]:
  "fixed (scan_probes v c s) = fixed s" "next_idx (scan_probes v c s) = next_idx s" "cur_idx (scan_probes v c s) = cur_idx s"
  "armed (scan_probes v c s) = armed s" "SCANSTATE_F_SEND_PROBEREQ_AGAIN AND b = 0 \<Longrightarrow> has b (scan_probes v c s) = has b s"
  by (simp_all add: scan_probes_def probereq_def Let_def scan_simps has_set_flag)

definition chan_at :: "scan_sys \<Rightarrow> nat \<Rightarrow> wifi_channel \<Rightarrow> bool" where
  "chan_at s i c \<longleftrightarrow> nth_opt (ss_chans (wm_scan s)) (next_idx s) = Some (Some i) \<and> nth_chan i s = Some c"

lemma scan_channel_step:
  assumes "has SCANSTATE_F_CHANNEL_SWITCH_COMPLETE s" "chan_at s i c" "\<not> two_channels s"
  shows "\<exists>s'. wifi_mac_scan_channel s = Some s' \<and> fixed s' = fixed s \<and> next_idx s' = next_idx s + 1 \<and> cur_idx s' = cur_idx s
    \<and> armed s' \<and> \<not> has SCANSTATE_F_WAIT_CHANNEL_SWITCH s' \<and> \<not> has SCANSTATE_F_CHANNEL_SWITCH_COMPLETE s'"
proof -
  define s1 where "s1 = clr_flag (SCANSTATE_F_WAIT_CHANNEL_SWITCH OR SCANSTATE_F_CHANNEL_SWITCH_COMPLETE OR SCANSTATE_F_DISCARD) s"
  define s2 where "s2 = upd_ss (\<lambda>x. x\<lparr>scan_next_chan_index := scan_next_chan_index x + 1\<rparr>) s1"
  define s3 where "s3 = scan_timer (Some (if chan_flags c AND WIFINET_CHAN_DFS \<noteq> 0 then SCAN_DEFAULT_INTERVAL
                                        else scan_chan_wait (wm_scan s2))) s2"
  define s4 where "s4 = (if one_channel s3
     then clr_flag (SCANSTATE_F_NOTIFY_AP OR SCANSTATE_F_TX_DONE) (set_flag SCANSTATE_F_RESTORE s3) else s3)"
  define v where "v = VMacPriv (wm_scan s)"
  define s5 where "s5 = upd_sv v (\<lambda>x. x\<lparr>vm_mac_mode := scan_mode c (p2p_enable (svif s4 v))\<rparr>) s4"
  define s6 where "s6 = (if vm_mac_mode (svif s4 v) \<noteq> scan_mode c (p2p_enable (svif s4 v))
     then sc_emit ''wifi_mac_set_legacy_rates'' [int v] s5 else s5)"
  have f1: "fixed s1 = fixed s" "next_idx s1 = next_idx s" "cur_idx s1 = cur_idx s" by (simp_all add: s1_def scan_simps)
  have f2: "fixed s2 = fixed s" "next_idx s2 = next_idx s + 1" "cur_idx s2 = cur_idx s"
    using f1 by (simp_all add: s2_def scan_simps) (simp add: upd_ss_def)
  have f3: "fixed s3 = fixed s" "next_idx s3 = next_idx s + 1" "cur_idx s3 = cur_idx s" "armed s3"
    using f2 by (simp_all add: s3_def scan_simps)
  have f4: "fixed s4 = fixed s" "next_idx s4 = next_idx s + 1" "cur_idx s4 = cur_idx s" "armed s4"
    using f3 by (simp_all add: s4_def scan_simps)
  have f6: "fixed s6 = fixed s" "next_idx s6 = next_idx s + 1" "cur_idx s6 = cur_idx s" "armed s6"
    using f4 by (simp_all add: s6_def s5_def scan_simps)
  have no: "\<not> has b s6" if "b = SCANSTATE_F_WAIT_CHANNEL_SWITCH \<or> b = SCANSTATE_F_CHANNEL_SWITCH_COMPLETE" for b
  proof -
    have "\<not> has b s1" using that by (auto simp: s1_def scan_flag_defs intro!: has_clr_flag(2))
    then have "\<not> has b s2" by (simp add: s2_def scan_simps)
    then have "\<not> has b s3" by (simp add: s3_def scan_simps)
    then have "\<not> has b s4" using that by (auto simp: s4_def has_set_flag has_clr_flag(1) scan_flag_defs)
    then show ?thesis by (simp add: s6_def s5_def scan_simps)
  qed
  have at: "nth_opt (ss_chans (wm_scan s1)) (next_idx s1) = Some (Some i)" "nth_chan i s1 = Some c"
    using assms(2) fixedD [OF f1(1)] f1(2) by (simp_all add: chan_at_def)
  have "\<not> two_channels s2" using assms(3) fixedD [OF f2(1)] by simp
  then have "wifi_mac_scan_channel s = Some (scan_probes v c s6)"
    using assms(1) at unfolding wifi_mac_scan_channel_def
    by (simp add: s1_def s2_def s3_def v_def s4_def s5_def s6_def Let_def)
  then show ?thesis using f6 no by (simp add: scan_simps scan_flag_defs)
qed

section \<open>Switching, leaving and coming back\<close>

definition chans_ok :: "scan_sys \<Rightarrow> bool" where
  "chans_ok s \<longleftrightarrow> (\<forall>k < last_idx s. \<exists>i c. nth_opt (ss_chans (wm_scan s)) k = Some (Some i) \<and> nth_chan i s = Some c \<and> chan_cfreq1 c \<noteq> 0)
     \<and> (\<forall>j. cur_idx s = Some j \<longrightarrow> nth_chan j s \<noteq> None)"

lemma chans_ok_cong:
  assumes "fixed s' = fixed s" "cur_idx s' = cur_idx s"
  shows "chans_ok s' = chans_ok s"
  using assms(2) by (simp add: chans_ok_def fixedD [OF assms(1)])

lemma chans_okD:
  assumes "chans_ok s" "next_idx s < last_idx s"
  shows "\<exists>i c. chan_at s i c \<and> chan_cfreq1 c \<noteq> 0"
  using assms by (auto simp: chans_ok_def chan_at_def)

lemma change_channel_step:
  assumes "nth_chan i s = Some c" "chan_cfreq1 c \<noteq> 0"
  shows "\<exists>s'. wifi_mac_ChangeChannel i f v s = Some s' \<and> fixed s' = fixed s \<and> next_idx s' = next_idx s \<and> cur_idx s' = Some i
    \<and> armed s' = armed s \<and> (\<forall>b. has b s' = has b s)"
proof -
  have "fixed (s\<lparr>wm_chans := (wm_chans s)\<lparr>wm_curchan := x\<rparr>\<rparr>) = fixed s" for x by (simp add: fixed_def)
  then show ?thesis using assms by (simp add: wifi_mac_ChangeChannel_def scan_simps) (simp add: armed_def)
qed

lemma switch_step:
  assumes "chans_ok s" "next_idx s < last_idx s" "\<not> two_channels s"
  shows "\<exists>s'. wifi_mac_switch_scan_channel s = Some s' \<and> fixed s' = fixed s \<and> armed s' \<and> chans_ok s'
    \<and> (next_idx s' = next_idx s + 1 \<and> \<not> has SCANSTATE_F_WAIT_CHANNEL_SWITCH s' \<and> \<not> has SCANSTATE_F_CHANNEL_SWITCH_COMPLETE s'
       \<or> next_idx s' = next_idx s \<and> has SCANSTATE_F_WAIT_CHANNEL_SWITCH s'
         \<and> (\<forall>b. SCANSTATE_F_WAIT_CHANNEL_SWITCH AND b = 0 \<longrightarrow> has b s' = has b s))"
proof -
  obtain i c where at: "chan_at s i c" "chan_cfreq1 c \<noteq> 0" using chans_okD [OF assms(1,2)] by blast
  define same where "same = (case cur_idx s of None \<Rightarrow> False | Some j \<Rightarrow> chan_pri_num c = chan_pri_num (the (nth_chan j s)))"
  have same: "(case cur_idx s of None \<Rightarrow> Some False
                 | Some j \<Rightarrow> do { d \<leftarrow> nth_chan j s; Some (chan_pri_num c = chan_pri_num d) }) = Some same"
    using assms(1) by (auto simp: same_def chans_ok_def split: option.split)
  show ?thesis
  proof (cases same)
    case True
    let ?s = "set_flag SCANSTATE_F_CHANNEL_SWITCH_COMPLETE s"
    have f: "fixed ?s = fixed s" by (simp add: scan_simps)
    have "chan_at ?s i c" "\<not> two_channels ?s" using at(1) assms(3) fixedD [OF f] by (simp_all add: chan_at_def scan_simps)
    then obtain s' where s': "wifi_mac_scan_channel ?s = Some s'" "fixed s' = fixed ?s" "next_idx s' = next_idx ?s + 1"
        "cur_idx s' = cur_idx ?s" "armed s'" "\<not> has SCANSTATE_F_WAIT_CHANNEL_SWITCH s'" "\<not> has SCANSTATE_F_CHANNEL_SWITCH_COMPLETE s'"
      using scan_channel_step [of ?s i c] by (auto simp: has_set_flag scan_flag_defs)
    have "wifi_mac_switch_scan_channel s = Some s'"
      using assms(2) at same True s'(1) by (simp add: wifi_mac_switch_scan_channel_def Let_def chan_at_def)
    then show ?thesis using s' assms(1) chans_ok_cong [of s' s] by (simp add: scan_simps)
  next
    case False
    let ?s = "set_flag SCANSTATE_F_WAIT_CHANNEL_SWITCH s"
    have f: "fixed ?s = fixed s" by (simp add: scan_simps)
    have "nth_chan i ?s = Some c" using at(1) fixedD [OF f] by (simp add: chan_at_def)
    from change_channel_step [OF this at(2), of 0 "VMacPriv (wm_scan s)"] obtain s1 where
      s1: "wifi_mac_ChangeChannel i 0 (VMacPriv (wm_scan s)) ?s = Some s1" "fixed s1 = fixed ?s" "next_idx s1 = next_idx ?s"
        "cur_idx s1 = Some i" "\<forall>b. has b s1 = has b ?s" by blast
    have "wifi_mac_switch_scan_channel s = Some (scan_timer (Some 30) s1)"
      using assms(2) at same False s1(1) by (simp add: wifi_mac_switch_scan_channel_def Let_def chan_at_def)
    moreover have fx: "fixed (scan_timer (Some 30) s1) = fixed s" using s1(2) f by (simp add: scan_simps)
    moreover have "chans_ok (scan_timer (Some 30) s1)"
      using assms(1) at fixedD [OF fx] s1(4) by (auto simp: chans_ok_def scan_simps chan_at_def)
    ultimately show ?thesis using s1(3,5) by (simp add: scan_simps has_set_flag scan_flag_defs)
  qed
qed

lemma quiet_intf_frame [scan_simps]:
  "fixed (quiet_intf e v b s) = fixed s" "next_idx (quiet_intf e v b s) = next_idx s" "has c (quiet_intf e v b s) = has c s"
  "cur_idx (quiet_intf e v b s) = cur_idx s" "armed (quiet_intf e v b s) = armed s"
  by (simp_all add: quiet_intf_def Let_def scan_simps)

lemma notify_back_frame [scan_simps]:
  "fixed (wifi_mac_scan_notify_leave_or_back e v b s) = fixed s" "next_idx (wifi_mac_scan_notify_leave_or_back e v b s) = next_idx s"
  "has c (wifi_mac_scan_notify_leave_or_back e v b s) = has c s" "cur_idx (wifi_mac_scan_notify_leave_or_back e v b s) = cur_idx s"
  "armed (wifi_mac_scan_notify_leave_or_back e v b s) = armed s"
  by (simp_all add: wifi_mac_scan_notify_leave_or_back_def quiet_all_intf_def foldl_frame [of fixed] foldl_frame [of next_idx]
      foldl_frame [of "has c"] foldl_frame [of cur_idx] foldl_frame [of armed] scan_simps)

text \<open>The only running interface is a connected station whose channel is on the list.\<close>

definition station_up :: "scan_env \<Rightarrow> scan_sys \<Rightarrow> nat \<Rightarrow> bool" where
  "station_up e s v \<longleftrightarrow> nrun s = 1 \<and> wifi_mac_running_wnet_vif s = Some v \<and> restore_target s = Some (Some v) \<and> connected_sta s v
     \<and> v \<in> set (wm_wnet_vifs e) \<and> vm_mainsta (vif (mac s) v) \<noteq> None
     \<and> (\<forall>c. vm_curchan (vif (mac s) v) = Some c \<longrightarrow> (\<exists>i d. chan_ref s c = Some i \<and> nth_chan i s = Some d \<and> chan_cfreq1 d \<noteq> 0))"

lemma station_up_cong:
  assumes "fixed s' = fixed s"
  shows "station_up e s' v = station_up e s v"
  by (simp add: station_up_def fixedD [OF assms])

lemma restore_step:
  assumes up: "station_up e s v" and ok: "chans_ok s"
  shows "\<exists>s'. wifi_mac_restore_wnet_vif_channel e s = Some s' \<and> fixed s' = fixed s \<and> next_idx s' = next_idx s \<and> chans_ok s'
    \<and> (\<forall>b. has b s' = has b s)"
proof -
  have "\<exists>s1. (case vm_curchan (vif (mac s) v) of None \<Rightarrow> Some s
          | Some c \<Rightarrow> (case chan_ref s c of None \<Rightarrow> None
                | Some i \<Rightarrow> if cur_idx s \<noteq> Some i then wifi_mac_ChangeChannel i 1 v s else Some s)) = Some s1
      \<and> fixed s1 = fixed s \<and> next_idx s1 = next_idx s \<and> chans_ok s1 \<and> (\<forall>b. has b s1 = has b s)"
  proof (cases "vm_curchan (vif (mac s) v)")
    case (Some c)
    with up obtain i d where i: "chan_ref s c = Some i" "nth_chan i s = Some d" "chan_cfreq1 d \<noteq> 0" by (auto simp: station_up_def)
    from change_channel_step [OF i(2,3), of 1 v] obtain s1 where s1: "wifi_mac_ChangeChannel i 1 v s = Some s1" "fixed s1 = fixed s"
      "next_idx s1 = next_idx s" "cur_idx s1 = Some i" "\<forall>b. has b s1 = has b s" by blast
    have "chans_ok s1" using ok i(2) fixedD [OF s1(2)] s1(4) by (simp add: chans_ok_def)
    with Some i(1) s1 ok show ?thesis by simp
  qed (simp add: ok)
  then obtain s1 where s1: "(case vm_curchan (vif (mac s) v) of None \<Rightarrow> Some s
          | Some c \<Rightarrow> (case chan_ref s c of None \<Rightarrow> None
                | Some i \<Rightarrow> if cur_idx s \<noteq> Some i then wifi_mac_ChangeChannel i 1 v s else Some s)) = Some s1"
      "fixed s1 = fixed s" "next_idx s1 = next_idx s" "chans_ok s1" "\<forall>b. has b s1 = has b s" by blast
  have n: "nrun s1 = 1" "vm_mainsta (vif (mac s1) v) \<noteq> None" using up fixedD [OF s1(2)] by (simp_all add: station_up_def)
  have nr: "nrun (sc_emit f a s1) = 1" for f a using n(1) by (simp add: nrun_def sc_emit_def emit_def)
  define s2 where "s2 = sc_emit ''drv_flush_normal_buffer_queue'' [int v] (wifi_mac_scan_notify_leave_or_back e v False
      (sc_emit ''drv_set_is_mother_channel'' [int v, 1] (sc_emit ''wifi_mac_set_channel_rssi'' [int v] s1)))"
  have "wifi_mac_restore_wnet_vif_channel e s = Some s2"
    using up s1(1) n nr by (auto simp: wifi_mac_restore_wnet_vif_channel_def station_up_def s2_def Let_def nrun_def sc_emit_def emit_def)
  moreover have f2: "fixed s2 = fixed s" using s1(2) by (simp add: s2_def scan_simps)
  moreover have "cur_idx s2 = cur_idx s1" "fixed s2 = fixed s1" by (simp_all add: s2_def scan_simps)
  then have "chans_ok s2" using s1(4) chans_ok_cong by blast
  ultimately show ?thesis using s1(3,5) by (simp add: s2_def scan_simps)
qed

section \<open>One run of the handler\<close>

lemma timeout_ex_frame:
  "fixed (wifi_mac_scan_timeout_ex s) = fixed s" "next_idx (wifi_mac_scan_timeout_ex s) = next_idx s"
  "cur_idx (wifi_mac_scan_timeout_ex s) = cur_idx s" "\<not> has SCANSTATE_F_WAIT_CHANNEL_SWITCH (wifi_mac_scan_timeout_ex s)"
  "has SCANSTATE_F_CHANNEL_SWITCH_COMPLETE (wifi_mac_scan_timeout_ex s)
     = (has SCANSTATE_F_CHANNEL_SWITCH_COMPLETE s \<or> has SCANSTATE_F_WAIT_CHANNEL_SWITCH s)"
  "b \<in> {SCANSTATE_F_RESTORE, SCANSTATE_F_NOTIFY_AP, SCANSTATE_F_TX_DONE} \<Longrightarrow> has b (wifi_mac_scan_timeout_ex s) = has b s"
  "wm_scanplayercnt (wifi_mac_scan_timeout_ex s) = wm_scanplayercnt s + 1"
proof -
  have n: "next_idx (x\<lparr>wm_scanplayercnt := k\<rparr>) = next_idx x" "cur_idx (x\<lparr>wm_scanplayercnt := k\<rparr>) = cur_idx x" for x k by simp_all
  show "fixed (wifi_mac_scan_timeout_ex s) = fixed s" "next_idx (wifi_mac_scan_timeout_ex s) = next_idx s"
    "cur_idx (wifi_mac_scan_timeout_ex s) = cur_idx s"
    by (simp_all add: wifi_mac_scan_timeout_ex_def Let_def scan_simps n)
  show "\<not> has SCANSTATE_F_WAIT_CHANNEL_SWITCH (wifi_mac_scan_timeout_ex s)"
    "has SCANSTATE_F_CHANNEL_SWITCH_COMPLETE (wifi_mac_scan_timeout_ex s)
     = (has SCANSTATE_F_CHANNEL_SWITCH_COMPLETE s \<or> has SCANSTATE_F_WAIT_CHANNEL_SWITCH s)"
    by (auto simp: wifi_mac_scan_timeout_ex_def Let_def scan_simps has_set_flag has_clr_flag scan_flag_defs)
  show "b \<in> {SCANSTATE_F_RESTORE, SCANSTATE_F_NOTIFY_AP, SCANSTATE_F_TX_DONE} \<Longrightarrow> has b (wifi_mac_scan_timeout_ex s) = has b s"
    by (auto simp: wifi_mac_scan_timeout_ex_def Let_def scan_simps has_set_flag has_clr_flag(1) scan_flag_defs)
  show "wm_scanplayercnt (wifi_mac_scan_timeout_ex s) = wm_scanplayercnt s + 1"
    by (simp add: wifi_mac_scan_timeout_ex_def Let_def add_scan_task_def clr_flag_def set_flag_def upd_ss_def)
qed

lemma notify_ap_step:
  "fixed (wifi_mac_scan_notify_ap e s) = fixed s" "next_idx (wifi_mac_scan_notify_ap e s) = next_idx s"
  "cur_idx (wifi_mac_scan_notify_ap e s) = cur_idx s"
  "SCANSTATE_F_NOTIFY_AP AND b = 0 \<Longrightarrow> has b (wifi_mac_scan_notify_ap e s) = has b s"
  "v \<in> set (wm_wnet_vifs e) \<Longrightarrow> connected_sta s v \<Longrightarrow> has SCANSTATE_F_NOTIFY_AP (wifi_mac_scan_notify_ap e s)"
proof -
  let ?f = "\<lambda>s v. if connected_sta s v then set_flag SCANSTATE_F_NOTIFY_AP (sc_emit ''nulldata_ps'' [int v, 1] s) else s"
  show "fixed (wifi_mac_scan_notify_ap e s) = fixed s" "next_idx (wifi_mac_scan_notify_ap e s) = next_idx s"
    "cur_idx (wifi_mac_scan_notify_ap e s) = cur_idx s"
    "SCANSTATE_F_NOTIFY_AP AND b = 0 \<Longrightarrow> has b (wifi_mac_scan_notify_ap e s) = has b s"
    by (simp_all add: wifi_mac_scan_notify_ap_def foldl_frame [of fixed] foldl_frame [of next_idx] foldl_frame [of cur_idx]
        foldl_frame [of "has b"] scan_simps has_set_flag)
  have keep: "has SCANSTATE_F_NOTIFY_AP s \<Longrightarrow> has SCANSTATE_F_NOTIFY_AP (foldl ?f s xs)" for xs s
    by (induction xs arbitrary: s) (simp_all add: has_set_flag scan_simps)
  have "v \<in> set xs \<Longrightarrow> connected_sta s v \<Longrightarrow> has SCANSTATE_F_NOTIFY_AP (foldl ?f s xs)" for xs s
  proof (induction xs arbitrary: s)
    case (Cons x xs)
    have f: "fixed (?f s x) = fixed s" by (simp add: scan_simps)
    show ?case
    proof (cases "v = x")
      case True
      then have "has SCANSTATE_F_NOTIFY_AP (?f s x)" using Cons.prems(2) by (simp add: has_set_flag scan_flag_defs)
      from keep [OF this] show ?thesis by simp
    next
      case False
      with Cons.prems Cons.IH [of "?f s x"] fixedD(10) [OF f] show ?thesis by simp
    qed
  qed simp
  then show "v \<in> set (wm_wnet_vifs e) \<Longrightarrow> connected_sta s v \<Longrightarrow> has SCANSTATE_F_NOTIFY_AP (wifi_mac_scan_notify_ap e s)"
    by (simp add: wifi_mac_scan_notify_ap_def)
qed

lemma buff_step:
  assumes "hal_tx_empty e"
  shows "\<exists>s'. wifi_mac_scan_buff_and_chk_tx e s = (False, s') \<and> fixed s' = fixed s \<and> next_idx s' = next_idx s \<and> cur_idx s' = cur_idx s
    \<and> has SCANSTATE_F_TX_DONE s' \<and> (\<forall>b. SCANSTATE_F_TX_DONE AND b = 0 \<longrightarrow> has b s' = has b s)"
  using assms
  by (simp add: wifi_mac_scan_buff_and_chk_tx_def Let_def has_set_flag scan_simps foldl_frame [of fixed] foldl_frame [of next_idx]
      foldl_frame [of cur_idx] foldl_frame [of "has b" for b]) (simp add: scan_flag_defs)

lemma prepare_step:
  assumes up: "station_up e s v" and tx: "hal_tx_empty e"
  shows "\<exists>w s'. scan_prepare e s = (w, s') \<and> fixed s' = fixed s \<and> next_idx s' = next_idx s \<and> cur_idx s' = cur_idx s
    \<and> has SCANSTATE_F_NOTIFY_AP s' \<and> has SCANSTATE_F_TX_DONE s' \<and> w = (\<not> has SCANSTATE_F_NOTIFY_AP s) \<and> (w \<longrightarrow> armed s')
    \<and> (\<forall>b. SCANSTATE_F_NOTIFY_AP AND b = 0 \<and> SCANSTATE_F_TX_DONE AND b = 0 \<longrightarrow> has b s' = has b s)"
proof -
  have go: "\<not> ((case wifi_mac_running_wnet_vif s of Some v \<Rightarrow> mode (mac s) v = M_HOSTAP | None \<Rightarrow> False) \<or> \<not> one_channel s)"
    using up by (simp add: station_up_def connected_sta_def one_channel_def)
  obtain s1 where s1: "(if has SCANSTATE_F_TX_DONE s then (False, s) else wifi_mac_scan_buff_and_chk_tx e s) = (False, s1)"
    "fixed s1 = fixed s" "next_idx s1 = next_idx s" "cur_idx s1 = cur_idx s" "has SCANSTATE_F_TX_DONE s1"
    "\<forall>b. SCANSTATE_F_TX_DONE AND b = 0 \<longrightarrow> has b s1 = has b s"
    using buff_step [OF tx, of s] by (cases "has SCANSTATE_F_TX_DONE s") auto
  have n1: "has SCANSTATE_F_NOTIFY_AP s1 = has SCANSTATE_F_NOTIFY_AP s" using s1(6) by (simp add: scan_flag_defs)
  show ?thesis
  proof (cases "has SCANSTATE_F_NOTIFY_AP s")
    case True
    with go s1 n1 have "scan_prepare e s = (False, s1)" by (simp add: scan_prepare_def)
    with True s1 n1 show ?thesis by (intro exI [of _ False] exI [of _ s1]) simp
  next
    case False
    have "connected_sta s1 v" "v \<in> set (wm_wnet_vifs e)" using up fixedD(10) [OF s1(2)] by (simp_all add: station_up_def)
    note na = notify_ap_step(5) [OF this(2,1)] notify_ap_step(4) [of _ e s1]
    have "has SCANSTATE_F_TX_DONE (wifi_mac_scan_notify_ap e s1)" using na(2) s1(5) by (simp add: scan_flag_defs)
    moreover have "scan_prepare e s = (True, scan_timer (Some LEAKY_AP_DET_WIN) (wifi_mac_scan_notify_ap e s1))"
      using go s1(1) n1 False by (simp add: scan_prepare_def)
    ultimately show ?thesis using s1 na False
      by (intro exI [of _ True] exI [of _ "scan_timer (Some LEAKY_AP_DET_WIN) (wifi_mac_scan_notify_ap e s1)"])
        (simp add: scan_simps notify_ap_step)
  qed
qed

text \<open>The state of a visit, and how far it is from the end.\<close>

definition visit_ok :: "scan_env \<Rightarrow> scan_sys \<Rightarrow> bool" where
  "visit_ok e s \<longleftrightarrow> chans_ok s \<and> (nrun s = 0 \<or> (\<exists>v. station_up e s v))
     \<and> (nrun s \<noteq> 0 \<and> (has SCANSTATE_F_WAIT_CHANNEL_SWITCH s \<or> has SCANSTATE_F_CHANNEL_SWITCH_COMPLETE s)
        \<longrightarrow> has SCANSTATE_F_NOTIFY_AP s \<and> has SCANSTATE_F_TX_DONE s)"

definition visit_phase :: "scan_sys \<Rightarrow> nat" where
  "visit_phase s =
     (if nrun s \<noteq> 0 \<and> has SCANSTATE_F_RESTORE s then 4
      else if has SCANSTATE_F_WAIT_CHANNEL_SWITCH s \<or> has SCANSTATE_F_CHANNEL_SWITCH_COMPLETE s then 1
      else if has SCANSTATE_F_NOTIFY_AP s \<and> has SCANSTATE_F_TX_DONE s then 2 else 3)"

definition visit_left :: "scan_sys \<Rightarrow> nat" where "visit_left s = 4 * (last_idx s - next_idx s) + visit_phase s"

lemma visit_phase_bounds: "1 \<le> visit_phase s" "visit_phase s \<le> 4"
  by (auto simp: visit_phase_def)

lemma visit_ok_calm: "visit_ok e s \<Longrightarrow> \<not> two_channels s"
  by (auto simp: visit_ok_def station_up_def two_channels_def)

text \<open>Going on: the channel is taken, or the switch to it is under way.\<close>

lemma go_on_step:
  assumes ok: "visit_ok e s" and lt: "next_idx s < last_idx s" and nw: "\<not> has SCANSTATE_F_WAIT_CHANNEL_SWITCH s"
    and rs: "nrun s \<noteq> 0 \<Longrightarrow> \<not> has SCANSTATE_F_RESTORE s"
    and ready: "nrun s = 0 \<or> has SCANSTATE_F_NOTIFY_AP s \<and> has SCANSTATE_F_TX_DONE s"
  shows "\<exists>s'. scan_go_on s = Some (False, s') \<and> fixed s' = fixed s \<and> visit_ok e s' \<and> armed s' \<and> visit_left s' < visit_left s"
proof -
  have calm: "\<not> two_channels s" by (rule visit_ok_calm [OF ok])
  have chans: "chans_ok s" using ok by (simp add: visit_ok_def)
  have taken: "visit_ok e s' \<and> visit_left s' < visit_left s"
    if f: "fixed s' = fixed s" and n: "next_idx s' = next_idx s + 1" and c: "chans_ok s'"
      and w: "\<not> has SCANSTATE_F_WAIT_CHANNEL_SWITCH s'" "\<not> has SCANSTATE_F_CHANNEL_SWITCH_COMPLETE s'" for s'
  proof
    show "visit_ok e s'" using ok c w fixedD [OF f] station_up_cong [OF f] by (simp add: visit_ok_def)
    have "last_idx s' = last_idx s" using fixedD [OF f] by simp
    then show "visit_left s' < visit_left s" using visit_phase_bounds [of s] visit_phase_bounds [of s'] n lt by (simp add: visit_left_def)
  qed
  show ?thesis
  proof (cases "has SCANSTATE_F_CHANNEL_SWITCH_COMPLETE s")
    case True
    obtain i c where at: "chan_at s i c" using chans_okD [OF chans lt] by blast
    from scan_channel_step [OF True at calm] obtain s' where s': "wifi_mac_scan_channel s = Some s'" "fixed s' = fixed s"
      "next_idx s' = next_idx s + 1" "cur_idx s' = cur_idx s" "armed s'" "\<not> has SCANSTATE_F_WAIT_CHANNEL_SWITCH s'"
      "\<not> has SCANSTATE_F_CHANNEL_SWITCH_COMPLETE s'" by blast
    from taken [OF s'(2,3) _ s'(6,7)] chans chans_ok_cong [OF s'(2,4)] True s' show ?thesis by (simp add: scan_go_on_def)
  next
    case False
    from switch_step [OF chans lt calm] obtain s' where s': "wifi_mac_switch_scan_channel s = Some s'" "fixed s' = fixed s" "armed s'"
      "chans_ok s'" and alt: "next_idx s' = next_idx s + 1 \<and> \<not> has SCANSTATE_F_WAIT_CHANNEL_SWITCH s'
         \<and> \<not> has SCANSTATE_F_CHANNEL_SWITCH_COMPLETE s'
       \<or> next_idx s' = next_idx s \<and> has SCANSTATE_F_WAIT_CHANNEL_SWITCH s'
         \<and> (\<forall>b. SCANSTATE_F_WAIT_CHANNEL_SWITCH AND b = 0 \<longrightarrow> has b s' = has b s)" by blast
    have go: "scan_go_on s = Some (False, s')" using False s'(1) by (simp add: scan_go_on_def)
    from alt show ?thesis
    proof
      assume "next_idx s' = next_idx s + 1 \<and> \<not> has SCANSTATE_F_WAIT_CHANNEL_SWITCH s' \<and> \<not> has SCANSTATE_F_CHANNEL_SWITCH_COMPLETE s'"
      with taken [OF s'(2) _ s'(4)] go s' show ?thesis by blast
    next
      assume w: "next_idx s' = next_idx s \<and> has SCANSTATE_F_WAIT_CHANNEL_SWITCH s'
         \<and> (\<forall>b. SCANSTATE_F_WAIT_CHANNEL_SWITCH AND b = 0 \<longrightarrow> has b s' = has b s)"
      then have keep: "has SCANSTATE_F_NOTIFY_AP s' = has SCANSTATE_F_NOTIFY_AP s" "has SCANSTATE_F_TX_DONE s' = has SCANSTATE_F_TX_DONE s"
        "has SCANSTATE_F_RESTORE s' = has SCANSTATE_F_RESTORE s" by (simp_all add: scan_flag_defs)
      have "visit_ok e s'" using ok s'(4) ready keep fixedD [OF s'(2)] station_up_cong [OF s'(2)] by (auto simp: visit_ok_def)
      moreover have "visit_left s' < visit_left s"
        using w keep rs nw False fixedD [OF s'(2)] by (auto simp: visit_left_def visit_phase_def)
      ultimately show ?thesis using go s' by blast
    qed
  qed
qed

text \<open>A run of the handler after the timer, up to the end of the scan.\<close>

definition scan_fire :: "scan_env \<Rightarrow> scan_sys \<Rightarrow> (bool \<times> scan_sys) option" where
  "scan_fire e s = (let s = wifi_mac_scan_timeout_ex (scan_timer None s) in scan_timeout_body e (wm_scanplayercnt s) s)"

lemma need_notify_defined:
  assumes "chans_ok s"
  shows "\<exists>b. need_notify_ap s = Some b"
proof (cases "next_idx s < last_idx s")
  case True
  from chans_okD [OF assms True] obtain i c where "chan_at s i c" by blast
  with assms True show ?thesis
    by (cases "cur_idx s") (auto simp: need_notify_ap_def Let_def chan_at_def chans_ok_def)
next
  case False
  then show ?thesis by (intro exI [of _ True]) (simp add: need_notify_ap_def Let_def)
qed

text \<open>When the handler does not have to tell the access point because the next channel is the current one, the switch is
  immediate; so going on is possible in any phase.\<close>

lemma go_on_same:
  assumes ok: "visit_ok e s" and lt: "next_idx s < last_idx s" and need: "need_notify_ap s = Some False"
    and rs: "nrun s \<noteq> 0 \<Longrightarrow> \<not> has SCANSTATE_F_RESTORE s"
  shows "\<exists>s'. scan_go_on s = Some (False, s') \<and> fixed s' = fixed s \<and> visit_ok e s' \<and> armed s' \<and> visit_left s' < visit_left s"
proof -
  have calm: "\<not> two_channels s" and chans: "chans_ok s" using visit_ok_calm [OF ok] ok by (simp_all add: visit_ok_def)
  obtain i c where at: "chan_at s i c" using chans_okD [OF chans lt] by blast
  obtain j d where d: "cur_idx s = Some j" "nth_chan j s = Some d" "chan_pri_num c = chan_pri_num d"
    using need lt at by (auto simp: need_notify_ap_def Let_def chan_at_def split: option.splits bind_splits)
  define s1 where "s1 = (if has SCANSTATE_F_CHANNEL_SWITCH_COMPLETE s then s else set_flag SCANSTATE_F_CHANNEL_SWITCH_COMPLETE s)"
  have f1: "fixed s1 = fixed s" "next_idx s1 = next_idx s" "cur_idx s1 = cur_idx s" by (simp_all add: s1_def scan_simps)
  have "has SCANSTATE_F_CHANNEL_SWITCH_COMPLETE s1" by (simp add: s1_def has_set_flag scan_flag_defs)
  moreover have "chan_at s1 i c" "\<not> two_channels s1" using at calm fixedD [OF f1(1)] f1(2) by (simp_all add: chan_at_def)
  ultimately obtain s' where s': "wifi_mac_scan_channel s1 = Some s'" "fixed s' = fixed s" "next_idx s' = next_idx s + 1"
      "cur_idx s' = cur_idx s" "armed s'" "\<not> has SCANSTATE_F_WAIT_CHANNEL_SWITCH s'" "\<not> has SCANSTATE_F_CHANNEL_SWITCH_COMPLETE s'"
    using scan_channel_step [of s1 i c] f1 by auto
  have "scan_go_on s = Some (False, s')"
  proof (cases "has SCANSTATE_F_CHANNEL_SWITCH_COMPLETE s")
    case False
    then have "wifi_mac_switch_scan_channel s = Some s'"
      using lt at d s'(1) by (simp add: wifi_mac_switch_scan_channel_def Let_def chan_at_def s1_def)
    with False show ?thesis by (simp add: scan_go_on_def)
  qed (use s'(1) in \<open>simp add: scan_go_on_def s1_def\<close>)
  moreover have "visit_ok e s'"
    using ok s'(6,7) chans chans_ok_cong [OF s'(2,4)] fixedD [OF s'(2)] station_up_cong [OF s'(2)] by (simp add: visit_ok_def)
  moreover have "last_idx s' = last_idx s" using fixedD [OF s'(2)] by simp
  then have "visit_left s' < visit_left s" using visit_phase_bounds [of s] visit_phase_bounds [of s'] s'(3) lt by (simp add: visit_left_def)
  ultimately show ?thesis using s' by blast
qed

lemma body_step:
  assumes ok: "visit_ok e s" and tx: "hal_tx_empty e" and nw: "\<not> has SCANSTATE_F_WAIT_CHANNEL_SWITCH s"
    and cnt: "cnt = wm_scanplayercnt s"
  shows "\<exists>d s'. scan_timeout_body e cnt s = Some (d, s') \<and> (\<not> d \<longrightarrow> fixed s' = fixed s \<and> visit_ok e s' \<and> armed s' \<and> visit_left s' < visit_left s)"
proof -
  define t where "t = (if vm_mainsta (vif (mac s) (VMacPriv (wm_scan s))) = None then set_flag SCANSTATE_F_CANCEL (scan_timer None s)
                       else scan_timer None s)"
  have ft: "fixed t = fixed s" "next_idx t = next_idx s" "cur_idx t = cur_idx s" by (simp_all add: t_def scan_simps)
  have ht: "SCANSTATE_F_CANCEL AND b = 0 \<Longrightarrow> has b t = has b s" for b by (simp add: t_def scan_simps has_set_flag)
  have flags: "has SCANSTATE_F_RESTORE t = has SCANSTATE_F_RESTORE s" "has SCANSTATE_F_NOTIFY_AP t = has SCANSTATE_F_NOTIFY_AP s"
    "has SCANSTATE_F_TX_DONE t = has SCANSTATE_F_TX_DONE s" "has SCANSTATE_F_WAIT_CHANNEL_SWITCH t = has SCANSTATE_F_WAIT_CHANNEL_SWITCH s"
    "has SCANSTATE_F_CHANNEL_SWITCH_COMPLETE t = has SCANSTATE_F_CHANNEL_SWITCH_COMPLETE s" by (rule ht, simp add: scan_flag_defs)+
  have okt: "visit_ok e t"
    using ok flags fixedD [OF ft(1)] station_up_cong [OF ft(1)] chans_ok_cong [OF ft(1,3)] by (simp add: visit_ok_def)
  have left: "visit_left t = visit_left s" using flags ft fixedD [OF ft(1)] by (simp add: visit_left_def visit_phase_def)
  have chans: "chans_ok t" using okt by (simp add: visit_ok_def)
  obtain need where need: "need_notify_ap t = Some need" using need_notify_defined [OF chans] by blast
  have cnt': "wm_scanplayercnt (scan_timer None s) = cnt" using cnt by (simp add: scan_timer_def upd_ss_def)
  have mst: "vm_mainsta (vif (mac (scan_timer None s)) v) = vm_mainsta (vif (mac s) v)" for v by (simp add: scan_timer_def upd_ss_def)
  let ?stop = "\<not> scanning t \<or> has SCANSTATE_F_DISCONNECT_REQ_CANCEL t \<or> has SCANSTATE_F_GET_CONNECT_AP t \<or> \<not> has SCANSTATE_F_START t"
  have body: "scan_timeout_body e cnt s = (if ?stop then Some (True, t)
      else if nrun t \<noteq> 0 \<and> has SCANSTATE_F_RESTORE t then do {
            s \<leftarrow> wifi_mac_restore_wnet_vif_channel e t;
            let s = set_flag SCANSTATE_F_DISCARD (clr_flag SCANSTATE_F_RESTORE s);
            if scan_done s then Some (True, s)
            else Some (False, scan_timer (Some SCAN_DEFAULT_INTERVAL) (set_flag SCANSTATE_F_WAIT_TBTT s)) }
          else if nrun t \<noteq> 0 \<and> \<not> scan_done t \<and> need then
            (case scan_prepare e t of (True, s) \<Rightarrow> Some (False, s) | (False, s) \<Rightarrow> scan_go_on s)
          else if scan_done t then Some (True, t) else scan_go_on t)"
    using need by (simp add: scan_timeout_body_def Let_def cnt' mst t_def [symmetric])
  show ?thesis
  proof (cases "?stop \<or> scan_done t \<and> \<not> (nrun t \<noteq> 0 \<and> has SCANSTATE_F_RESTORE t)")
    case True
    then show ?thesis using body by auto
  next
    case False
    then have stop: "\<not> ?stop" by blast
    show ?thesis
    proof (cases "nrun t \<noteq> 0 \<and> has SCANSTATE_F_RESTORE t")
      case rst: True
      with okt obtain v where up: "station_up e t v" by (auto simp: visit_ok_def)
      from restore_step [OF up chans] obtain u where u: "wifi_mac_restore_wnet_vif_channel e t = Some u" "fixed u = fixed t"
        "next_idx u = next_idx t" "chans_ok u" "\<forall>b. has b u = has b t" by blast
      let ?u = "set_flag SCANSTATE_F_DISCARD (clr_flag SCANSTATE_F_RESTORE u)"
      let ?w = "scan_timer (Some SCAN_DEFAULT_INTERVAL) (set_flag SCANSTATE_F_WAIT_TBTT ?u)"
      have hw: "has SCANSTATE_F_NOTIFY_AP ?w = has SCANSTATE_F_NOTIFY_AP t" "has SCANSTATE_F_TX_DONE ?w = has SCANSTATE_F_TX_DONE t"
        "has SCANSTATE_F_WAIT_CHANNEL_SWITCH ?w = has SCANSTATE_F_WAIT_CHANNEL_SWITCH t"
        "has SCANSTATE_F_CHANNEL_SWITCH_COMPLETE ?w = has SCANSTATE_F_CHANNEL_SWITCH_COMPLETE t" "\<not> has SCANSTATE_F_RESTORE ?w"
        using u(5) by (simp_all add: scan_simps has_set_flag has_clr_flag scan_flag_defs)
      have fw: "fixed ?w = fixed t" "next_idx ?w = next_idx t" "cur_idx ?w = cur_idx u" "fixed ?w = fixed u"
        using u(2,3) by (simp_all add: scan_simps)
      have "visit_ok e ?w" using okt u(4) hw fixedD [OF fw(1)] station_up_cong [OF fw(1)] chans_ok_cong [OF fw(4,3)]
        by (simp add: visit_ok_def)
      moreover have "visit_left ?w < visit_left t"
        using hw fw(2) fixedD [OF fw(1)] rst by (simp add: visit_left_def visit_phase_def)
      moreover have "armed ?w" by (simp add: scan_simps)
      ultimately show ?thesis using body stop rst u(1) fw(1) ft(1) left by (cases "scan_done ?u") (auto simp: Let_def)
    next
      case rst: False
      with False have nd: "\<not> scan_done t" by blast
      then have lt: "next_idx t < last_idx t" by (simp add: scan_done_def)
      show ?thesis
      proof (cases "nrun t \<noteq> 0 \<and> need")
        case n: True
        with okt obtain v where up: "station_up e t v" by (auto simp: visit_ok_def)
        from prepare_step [OF up tx] obtain w u where u: "scan_prepare e t = (w, u)" "fixed u = fixed t" "next_idx u = next_idx t"
          "cur_idx u = cur_idx t" "has SCANSTATE_F_NOTIFY_AP u" "has SCANSTATE_F_TX_DONE u" "w = (\<not> has SCANSTATE_F_NOTIFY_AP t)"
          "w \<longrightarrow> armed u" "\<forall>b. SCANSTATE_F_NOTIFY_AP AND b = 0 \<and> SCANSTATE_F_TX_DONE AND b = 0 \<longrightarrow> has b u = has b t" by blast
        have keep: "has SCANSTATE_F_RESTORE u = has SCANSTATE_F_RESTORE t" "has SCANSTATE_F_WAIT_CHANNEL_SWITCH u = has SCANSTATE_F_WAIT_CHANNEL_SWITCH t"
          "has SCANSTATE_F_CHANNEL_SWITCH_COMPLETE u = has SCANSTATE_F_CHANNEL_SWITCH_COMPLETE t" using u(9) by (simp_all add: scan_flag_defs)
        have oku: "visit_ok e u"
          using okt keep u(5,6) fixedD [OF u(2)] station_up_cong [OF u(2)] chans_ok_cong [OF u(2,4)] by (simp add: visit_ok_def)
        have lu: "visit_left u \<le> visit_left t" "w \<Longrightarrow> visit_left u < visit_left t"
          using okt keep u(3,5,6,7) rst n fixedD [OF u(2)] by (auto simp: visit_left_def visit_phase_def visit_ok_def)
        show ?thesis
        proof (cases w)
          case True
          with body stop rst nd n u oku lu ft(1) left show ?thesis by (intro exI [of _ False] exI [of _ u]) simp
        next
          case False
          have nwu: "\<not> has SCANSTATE_F_WAIT_CHANNEL_SWITCH u" using keep flags nw by simp
          have "next_idx u < last_idx u" using lt u(3) fixedD [OF u(2)] by simp
          from go_on_step [OF oku this nwu] obtain s' where "scan_go_on u = Some (False, s')" "fixed s' = fixed u" "visit_ok e s'"
              "armed s'" "visit_left s' < visit_left u" using keep rst u(5,6) fixedD [OF u(2)] by auto
          with body stop rst nd n u False lu ft(1) left show ?thesis by (intro exI [of _ False] exI [of _ s']) simp
        qed
      next
        case n: False
        have "\<exists>s'. scan_go_on t = Some (False, s') \<and> fixed s' = fixed t \<and> visit_ok e s' \<and> armed s' \<and> visit_left s' < visit_left t"
        proof (cases "nrun t = 0")
          case True
          with go_on_step [OF okt lt] flags nw show ?thesis by simp
        next
          case False
          with n need go_on_same [OF okt lt] rst show ?thesis by simp
        qed
        with body stop rst nd n ft(1) left show ?thesis by auto
      qed
    qed
  qed
qed

text \<open>Runs of the handler, as long as the timer is set for the next.\<close>

fun scan_runs :: "scan_env \<Rightarrow> nat \<Rightarrow> scan_sys \<Rightarrow> (bool \<times> scan_sys) option" where
  "scan_runs e 0 s = Some (False, s)"
| "scan_runs e (Suc n) s =
     (case scan_fire e s of
        None \<Rightarrow> None
      | Some (True, s) \<Rightarrow> Some (True, s)
      | Some (False, s) \<Rightarrow> if armed s then scan_runs e n s else Some (False, s))"

lemma fire_step:
  assumes ok: "visit_ok e s" and tx: "hal_tx_empty e"
  shows "\<exists>d s'. scan_fire e s = Some (d, s') \<and> (\<not> d \<longrightarrow> visit_ok e s' \<and> armed s' \<and> visit_left s' < visit_left s)"
proof -
  define t where "t = wifi_mac_scan_timeout_ex (scan_timer None s)"
  note f = timeout_ex_frame [where s = "scan_timer None s", folded t_def]
  have fr: "fixed t = fixed s" "next_idx t = next_idx s" "cur_idx t = cur_idx s" using f by (simp_all add: scan_simps)
  have h: "has SCANSTATE_F_RESTORE t = has SCANSTATE_F_RESTORE s" "has SCANSTATE_F_NOTIFY_AP t = has SCANSTATE_F_NOTIFY_AP s"
    "has SCANSTATE_F_TX_DONE t = has SCANSTATE_F_TX_DONE s" "\<not> has SCANSTATE_F_WAIT_CHANNEL_SWITCH t"
    "has SCANSTATE_F_CHANNEL_SWITCH_COMPLETE t = (has SCANSTATE_F_CHANNEL_SWITCH_COMPLETE s \<or> has SCANSTATE_F_WAIT_CHANNEL_SWITCH s)"
    using f(4,5) f(6) by (simp_all add: scan_simps)
  have "visit_ok e t" using ok h fixedD [OF fr(1)] station_up_cong [OF fr(1)] chans_ok_cong [OF fr(1,3)] by (auto simp: visit_ok_def)
  moreover have "visit_left t = visit_left s" using h fr fixedD [OF fr(1)] by (auto simp: visit_left_def visit_phase_def)
  ultimately show ?thesis using body_step [OF _ tx h(4) refl] by (auto simp: scan_fire_def Let_def t_def)
qed

lemma scan_runs_end:
  assumes "visit_ok e s" "hal_tx_empty e" "visit_left s \<le> n"
  shows "\<exists>s'. scan_runs e n s = Some (True, s')"
  using assms
proof (induction n arbitrary: s)
  case 0
  then show ?case using visit_phase_bounds [of s] by (simp add: visit_left_def)
next
  case (Suc n)
  from fire_step [OF Suc.prems(1,2)] obtain d s' where
    s': "scan_fire e s = Some (d, s')" "\<not> d \<longrightarrow> visit_ok e s' \<and> armed s' \<and> visit_left s' < visit_left s" by blast
  show ?case
  proof (cases d)
    case False
    with s' Suc.prems Suc.IH [of s'] show ?thesis by simp
  qed (use s' in simp)
qed

end
