(* ===== verification/ScanProps.thy ===== *)
theory ScanProps
  imports ScanInv ScanLive ConnProps
begin

text \<open>
  The properties of the scan: the table of results, the entry chosen, the channels to roam to, the elements of a frame
  that fit into an entry, the end of a scan.  Each is applied to a concrete table, frame or scan.
\<close>

section \<open>A concrete scan\<close>

definition ssid_none :: scan_ssid where "ssid_none = \<lparr>ss_len = 0, ss_bytes = replicate WIFINET_NWID_LEN 0\<rparr>"

definition table_zero :: scaninfo_table where
  "table_zero = \<lparr>st_entry = [], st_hash = (\<lambda>_. []), st_se = (\<lambda>_. entry_zero)\<rparr>"

definition scan_state_zero :: scan_state where
  "scan_state_zero = \<lparr>ScanTablePriv = table_zero, VMacPriv = 0, scan_CfgFlags = 0, ss_nssid = 0,
     ss_ssid = replicate WIFINET_SCAN_MAX_SSID ssid_none, ss_chans = replicate 8 None, roaming_ssid = ssid_none,
     roaming_candidate_chans = replicate ROAMING_CANDIDATE_CHAN_MAX (None, 0), roaming_candidate_chans_cnt = 0,
     roaming_full_scan = False, scan_ssid_count = 0, scan_next_chan_index = 0, scan_last_chan_index = 0, scan_chan_wait = 0,
     scan_StateFlags = 0, ss_scan_timer = None, ss_probe_timer = None, ss_scan_abort_timer = None\<rparr>"

definition scan_vif_zero :: scan_vif where
  "scan_vif_zero = \<lparr>vm_des_bssid = replicate 6 0, vm_fixed_rate = (True, 2), vm_legacy_rates = \<lparr>dot11_rate_num = 1, dot11_rate = [2]\<rparr>,
     vm_mac_mode = MODE_11BGN,
     vm_connchan = \<lparr>conn_chan = replicate 8 None, cc_da = replicate 6 0, cc_bssid = replicate 6 0, conn_num = 0\<rparr>,
     vm_scanchan_rssi = 0, vm_connect_scan_entry = entry_zero, vm_scan_before_connect_flag = False,
     vm_chan_simulate_scan_flag = False, vm_chan_switch_scan_flag = False, vm_chan_switch_scan_count = 0,
     vm_chan_roaming_scan_flag = False, vm_chan_roaming_scan_count = 0, vm_switchchan = None, vm_scan_hang = False,
     p2p_enable = False, social_channel = False, vm_scan_time_idle = 80, vm_scan_time_connect = 20,
     vm_scan_time_before_connect = 200, vm_scan_time_chan_switch = 500, quiet_queue = False\<rparr>"

text \<open>Channels 1, 6 and 11; all numbers are available.\<close>

definition scan_chans :: chan_mac where
  "scan_chans = \<lparr>wm_channels = [chan_1, chan_entry (CHAN_2_FREQ_2G 6) WIFINET_CHAN_2GHZ 6 WIDTH20 81,
      chan_entry (CHAN_2_FREQ_2G 11) WIFINET_CHAN_2GHZ 11 WIDTH20 81],
     wm_chan_avail = replicate 32 0xff, wm_curchan = Some 0, wm_country = [], chan_index = []\<rparr>"

text \<open>The first interface is a station; it is connected on channel 1 and asked for a scan.\<close>

definition mac_sta_up :: sm_mac where
  "mac_sta_up = mac_zero\<lparr>wnet_vifs := (\<lambda>v. if v = 0 then (vif_zero M_STA)\<lparr>vm_state := S_CONNECTED, vm_mainsta := Some 10,
     vm_curchan := Some chan_1\<rparr> else vif_zero M_HOSTAP), wm_runningmask := 1, wm_nrunning := 1\<rparr>"

definition scan_sys_up :: scan_sys where
  "scan_sys_up = \<lparr>mac = mac_sta_up, wm_scan = scan_state_zero\<lparr>scan_CfgFlags := SCANCFG_USERREQ\<rparr>, svif = (\<lambda>_. scan_vif_zero),
     wm_chans = scan_chans, sta_bssid = (\<lambda>_. replicate 6 0), sta_bssmode = (\<lambda>_. MODE_11BGN), sta_channel_switch_mode = (\<lambda>_. False),
     wm_flags = F_SCAN, wm_scanplayercnt = 1, wm_lastscan = 0, chan_aware_cnt = 0, user_chan_aware_cnt = 0,
     before_conn_scan_times = 0, scan_noisy_status = ENV_CLEAR, scan_work = []\<rparr>"

definition scan_env_zero :: scan_env where
  "scan_env_zero = \<lparr>sc_con = env_zero, sc_hz = 100, sc_jiffies = 5000, hal_tx_empty = True,
     sc_htrates = \<lparr>dot11_rate_num = 0, dot11_rate = []\<rparr>, roaming_threshold_2g = -70, roaming_threshold_5g = -70,
     sc_connect_request = False, sc_scan_request = True, sc_band = BAND_ALL, wm_mac_exit = False, work_thread = False,
     wm_wnet_vifs = [0, 1], sc_qlen = (\<lambda>_. 0), scan_gain_thresh_unconnect = 25, scan_gain_thresh_connect = 15,
     scan_max_gain_thresh = 5, sc_noa_beacon = False\<rparr>"

section \<open>The end of a scan\<close>

text \<open>A scan of all channels fills the array with channels of the list.\<close>

definition chans_listed :: "scan_sys \<Rightarrow> bool" where
  "chans_listed s \<longleftrightarrow> (\<forall>c \<in> set (wm_channels (wm_chans s)). chan_cfreq1 c \<noteq> 0) \<and> (\<forall>j. cur_idx s = Some j \<longrightarrow> j < wm_nchans (wm_chans s))
     \<and> (\<forall>k < last_idx s. \<exists>i < wm_nchans (wm_chans s). nth_opt (ss_chans (wm_scan s)) k = Some (Some i))"

lemma chans_listed_ok: "chans_listed s \<Longrightarrow> chans_ok s"
  unfolding chans_listed_def chans_ok_def nth_chan_def by (metis nth_mem nth_opt_in option.distinct(1))

lemma forget_aware_listed: "chans_listed s \<Longrightarrow> i < wm_nchans (wm_chans s) \<Longrightarrow> chans_listed (forget_aware i s)"
  by (auto simp: chans_listed_def forget_aware_def dest!: set_update_subset_insert [THEN subsetD])

lemma age_aware_listed:
  assumes "chans_listed s" "i < wm_nchans (wm_chans s)"
  shows "chans_listed (age_aware i s)" "wm_nchans (wm_chans (age_aware i s)) = wm_nchans (wm_chans s)" "sflags (age_aware i s) = sflags s"
proof -
  have "chans_listed (x\<lparr>chan_aware_cnt := 0\<rparr>) = chans_listed x" for x by (simp add: chans_listed_def)
  then show "chans_listed (age_aware i s)" using assms forget_aware_listed by (simp add: age_aware_def)
qed (simp_all add: age_aware_def forget_aware_def)

lemma push_chan_listed:
  assumes "push_chan i s = Some s'" "chans_listed s" "i < wm_nchans (wm_chans s)"
  shows "chans_listed s'" "wm_chans s' = wm_chans s" "sflags s' = sflags s"
proof -
  let ?x = "wm_scan s"
  from assms(1) have n: "last_idx s < length (ss_chans ?x)"
    and s': "s' = upd_ss (\<lambda>x. x\<lparr>ss_chans := (ss_chans x)[last_idx s := Some i], scan_last_chan_index := last_idx s + 1\<rparr>) s"
    by (simp_all add: push_chan_def Let_def split: if_splits)
  show "wm_chans s' = wm_chans s" "sflags s' = sflags s" by (simp_all add: s' upd_ss_def)
  have "\<exists>j < wm_nchans (wm_chans s). nth_opt ((ss_chans ?x)[last_idx s := Some i]) k = Some (Some j)" if "k < last_idx s + 1" for k
  proof (cases "k = last_idx s")
    case True
    then show ?thesis using assms(3) n by (intro exI [of _ i]) (simp add: nth_opt_Some_iff)
  next
    case False
    with that have "k < last_idx s" by simp
    with assms(2) obtain j where "j < wm_nchans (wm_chans s)" "nth_opt (ss_chans ?x) k = Some (Some j)" by (auto simp: chans_listed_def)
    then show ?thesis using False by (intro exI [of _ j]) (simp add: nth_opt_Some_iff)
  qed
  with assms(2) show "chans_listed s'" by (simp add: chans_listed_def s' upd_ss_def)
qed

lemma setup_step_cases: "(let x = a; c = h x in if P x c then f x else Some x) = Some y \<Longrightarrow> f a = Some y \<or> y = a"
  by (simp add: Let_def split: if_splits)

lemma setup_all_listed:
  assumes "setup_all e v s = Some s'" "chans_listed s" "last_idx s = 0"
  shows "chans_listed s' \<and> sflags s' = sflags s"
proof -
  define n where "n = wm_nchans (wm_chans s)"
  define Q where "Q x \<longleftrightarrow> chans_listed x \<and> wm_nchans (wm_chans x) = n \<and> sflags x = sflags s" for x
  let ?s = "upd_ss (\<lambda>x. x\<lparr>roaming_candidate_chans_cnt := 0, roaming_candidate_chans := replicate (length (roaming_candidate_chans x)) (None, 0)\<rparr>) s"
  have "Q ?s" using assms(2,3) by (simp add: Q_def n_def chans_listed_def upd_ss_def)
  note fold = assms(1) [unfolded setup_all_def]
  have "Q s'"
  proof (rule foldo_stable [where Q = Q, OF fold \<open>Q ?s\<close>])
    fix i x x'
    assume i: "i \<in> set [0..<wm_nchans (wm_chans s)]" and q: "Q x"
      and st: "(let x = age_aware i x; c = wm_channels (wm_chans x) ! i in
         if chan_bw c = WIDTH20 \<and> (p2p_enable (svif x v) \<and> social_channel (svif x v) \<longrightarrow> social c) \<and> \<not> band_skips e c
         then push_chan i x else Some x) = Some x'"
    let ?a = "age_aware i x"
    have a: "chans_listed ?a" "wm_nchans (wm_chans ?a) = n" "sflags ?a = sflags s" "i < n"
    proof -
      have "i < n" "chans_listed x" "wm_nchans (wm_chans x) = n" "sflags x = sflags s" using q i by (simp_all add: Q_def n_def)
      then show "chans_listed ?a" "wm_nchans (wm_chans ?a) = n" "sflags ?a = sflags s" "i < n"
        using age_aware_listed [of x i] by simp_all
    qed
    from setup_step_cases [OF st] consider "push_chan i ?a = Some x'" | "x' = ?a" by blast
    then show "Q x'"
    proof cases
      case 1
      from push_chan_listed [OF 1 a(1)] a show ?thesis by (simp add: Q_def)
    qed (use a in \<open>simp add: Q_def\<close>)
  qed
  then show ?thesis by (simp add: Q_def)
qed

text \<open>A scan that is not one of the special ones.\<close>

definition plain_scan :: "scan_vif \<Rightarrow> bool" where
  "plain_scan sv \<longleftrightarrow> \<not> vm_chan_simulate_scan_flag sv \<and> \<not> vm_scan_before_connect_flag sv \<and> \<not> vm_chan_roaming_scan_flag sv
     \<and> \<not> vm_chan_switch_scan_flag sv"

lemma setup_chan_listed:
  assumes "vm_scan_setup_chan e v s = Some s'" "plain_scan (svif s v)" "\<forall>c \<in> set (wm_channels (wm_chans s)). chan_cfreq1 c \<noteq> 0"
    "\<forall>j. cur_idx s = Some j \<longrightarrow> j < wm_nchans (wm_chans s)"
  shows "chans_listed s' \<and> sflags s' = sflags s"
proof -
  let ?s = "upd_ss (\<lambda>x. x\<lparr>scan_last_chan_index := 0\<rparr>) s"
  from assms(1,2) obtain s1 where s1: "setup_all e v ?s = Some s1"
    and s': "s' = wifi_mac_set_scan_time e v (s1\<lparr>chan_aware_cnt := chan_aware_cnt s1 + 1\<rparr>)"
    by (auto simp: vm_scan_setup_chan_def plain_scan_def Let_def upd_ss_def split: bind_splits)
  have "chans_listed ?s" "last_idx ?s = 0" "sflags ?s = sflags s" using assms(3,4) by (simp_all add: chans_listed_def upd_ss_def)
  with setup_all_listed [OF s1] have "chans_listed s1" "sflags s1 = sflags s" by simp_all
  then show ?thesis by (simp add: s' wifi_mac_set_scan_time_def Let_def chans_listed_def upd_ss_def)
qed

lemma start_task_result:
  assumes "scan_start_task e cnt v replay s = Some s1" "wnet_vif_replaycounter (vif (mac s) v) = replay" "wm_scanplayercnt s = cnt"
    "\<not> has SCANSTATE_F_START s" "scanning s" "scfg s AND SCANCFG_CHANSET = 0" "plain_scan (svif s v)"
    "\<forall>c \<in> set (wm_channels (wm_chans s)). chan_cfreq1 c \<noteq> 0" "\<forall>j. cur_idx s = Some j \<longrightarrow> j < wm_nchans (wm_chans s)"
  shows "chans_ok s1 \<and> next_idx s1 = 0 \<and> \<not> has SCANSTATE_F_WAIT_CHANNEL_SWITCH s1 \<and> \<not> has SCANSTATE_F_CHANNEL_SWITCH_COMPLETE s1"
proof -
  let ?s = "scan_timer None (upd_ss (\<lambda>x. x\<lparr>scan_StateFlags := SCANSTATE_F_START\<rparr>) s)"
  from assms(1-6) obtain s0 where s0: "vm_scan_setup_chan e v ?s = Some s0"
    and s1: "s1 = (let s = sc_emit ''scan_start'' [] (s0\<lparr>mac := (mac s0)\<lparr>wm_syncbeacon := 0\<rparr>\<rparr>);
        s = upd_ss (\<lambda>x. x\<lparr>scan_next_chan_index := 0, ss_scan_abort_timer := Some SCAN_ABORT_TIME\<rparr>) s
      in if nrun s = 0 then wifi_mac_scan_timeout_ex s else scan_timer (Some 110) (set_flag SCANSTATE_F_WAIT_TBTT s))"
    by (auto simp: scan_start_task_def scan_timer_def upd_ss_def Let_def split: bind_splits)
  define u where "u = upd_ss (\<lambda>x. x\<lparr>scan_next_chan_index := 0, ss_scan_abort_timer := Some SCAN_ABORT_TIME\<rparr>)
      (sc_emit ''scan_start'' [] (s0\<lparr>mac := (mac s0)\<lparr>wm_syncbeacon := 0\<rparr>\<rparr>))"
  have "chans_listed s0 \<and> sflags s0 = sflags ?s"
    by (rule setup_chan_listed [OF s0]) (use assms(7-9) in \<open>simp_all add: scan_timer_def upd_ss_def\<close>)
  then have s0': "chans_listed s0" "sflags s0 = SCANSTATE_F_START" by (simp_all add: scan_timer_def upd_ss_def)
  have u: "chans_listed u" "sflags u = SCANSTATE_F_START" "next_idx u = 0"
    using s0' by (simp_all add: u_def chans_listed_def upd_ss_def sc_emit_def)
  have no: "\<not> has SCANSTATE_F_WAIT_CHANNEL_SWITCH u" "\<not> has SCANSTATE_F_CHANNEL_SWITCH_COMPLETE u"
    using u(2) by (simp_all add: has_def scan_flag_defs)
  have ch: "chans_ok u" using u(1) by (rule chans_listed_ok)
  show ?thesis
  proof (cases "nrun u = 0")
    case True
    then have "s1 = wifi_mac_scan_timeout_ex u" by (simp add: s1 u_def [symmetric] Let_def)
    then show ?thesis using timeout_ex_frame(1-5) [where s = u] ch no u(3) chans_ok_cong [of "wifi_mac_scan_timeout_ex u" u] by simp
  next
    case False
    then have s1': "s1 = scan_timer (Some 110) (set_flag SCANSTATE_F_WAIT_TBTT u)" by (simp add: s1 u_def [symmetric] Let_def)
    have "chans_ok s1" using ch chans_ok_cong [of s1 u] by (simp add: s1' scan_simps)
    then show ?thesis using no u(3) by (simp add: s1' scan_simps has_set_flag scan_flag_defs)
  qed
qed

text \<open>C33: A plain scan (not for a connection, roaming or a channel switch) over all channels of the list (no set of channels given
  by the user, and every channel with a frequency), set going while no other scan has started, comes to its end after at most
  \<open>4 n + 4\<close> runs of its timer handler, where n is the number of its channels, provided that no interface is running or the one
  running is a connected station, and that the hardware queues are empty.  No run is undefined, and each sets the timer for the
  next.  With other interfaces running the handler may run again and again (\<^verbatim>\<open>wifi_mac_scan.c:1375\<close>).\<close>

theorem scan_comes_to_end:
  assumes "scan_start_task e cnt v replay s = Some s1" "wnet_vif_replaycounter (vif (mac s) v) = replay" "wm_scanplayercnt s = cnt"
    "\<not> has SCANSTATE_F_START s" "scanning s" "scfg s AND SCANCFG_CHANSET = 0" "plain_scan (svif s v)"
    "\<forall>c \<in> set (wm_channels (wm_chans s)). chan_cfreq1 c \<noteq> 0" "\<forall>j. cur_idx s = Some j \<longrightarrow> j < wm_nchans (wm_chans s)"
    and run: "nrun s1 = 0 \<or> (\<exists>w. station_up e s1 w)" "hal_tx_empty e"
  shows "\<exists>s2. scan_runs e (4 * last_idx s1 + 4) s1 = Some (True, s2)"
proof -
  note s1 = start_task_result [OF assms(1-9)]
  have "visit_ok e s1" using s1 run(1) by (simp add: visit_ok_def)
  moreover have "visit_left s1 \<le> 4 * last_idx s1 + 4" using s1 visit_phase_bounds [of s1] by (simp add: visit_left_def)
  ultimately show ?thesis using scan_runs_end run(2) by blast
qed

theorem scan_comes_to_end_witness:
  "\<exists>s1 s2. scan_start_task scan_env_zero 1 0 0 scan_sys_up = Some s1 \<and> last_idx s1 = 3 \<and> nrun s1 = 1
     \<and> scan_runs scan_env_zero 16 s1 = Some (True, s2)"
proof -
  have "(case scan_start_task scan_env_zero 1 0 0 scan_sys_up of None \<Rightarrow> False | Some s1 \<Rightarrow>
      last_idx s1 = 3 \<and> nrun s1 = 1 \<and> wifi_mac_running_wnet_vif s1 = Some 0 \<and> restore_target s1 = Some (Some 0) \<and> connected_sta s1 0
      \<and> vm_mainsta (vif (mac s1) 0) = Some 10 \<and> vm_curchan (vif (mac s1) 0) = Some chan_1 \<and> chan_ref s1 chan_1 = Some 0
      \<and> map_option chan_cfreq1 (nth_chan 0 s1) = Some 2412)" by code_simp
  then obtain s1 where t: "scan_start_task scan_env_zero 1 0 0 scan_sys_up = Some s1"
    and s1: "last_idx s1 = 3" "nrun s1 = 1" "wifi_mac_running_wnet_vif s1 = Some 0" "restore_target s1 = Some (Some 0)" "connected_sta s1 0"
      "vm_mainsta (vif (mac s1) 0) = Some 10" "vm_curchan (vif (mac s1) 0) = Some chan_1" "chan_ref s1 chan_1 = Some 0"
      "map_option chan_cfreq1 (nth_chan 0 s1) = Some 2412" by (auto split: option.splits)
  have "station_up scan_env_zero s1 0" using s1 by (auto simp: station_up_def scan_env_zero_def)
  moreover have "\<forall>c \<in> set (wm_channels scan_chans). chan_cfreq1 c \<noteq> 0" by code_simp
  ultimately have "\<exists>s2. scan_runs scan_env_zero (4 * last_idx s1 + 4) s1 = Some (True, s2)"
    by (intro scan_comes_to_end [OF t])
      (auto simp: scan_sys_up_def mac_sta_up_def mac_zero_def vif_zero_def has_def scan_state_zero_def scanning_def F_SCAN_def
        SCANCFG_USERREQ_def SCANCFG_CHANSET_def plain_scan_def scan_vif_zero_def scan_env_zero_def scan_chans_def)
  with t s1 show ?thesis by simp
qed

lemma end_noa_flags: "end_noa e (upd_ss (\<lambda>x. x\<lparr>scan_StateFlags := f (scan_StateFlags x)\<rparr>) s)
     = map_option (upd_ss (\<lambda>x. x\<lparr>scan_StateFlags := f (scan_StateFlags x)\<rparr>)) (end_noa e s)"
  by (auto simp: end_noa_def nrun_def wifi_mac_running_wnet_vif_def upd_ss_def sc_emit_def)

text \<open>The end of a scan does not see whether the scan was cancelled: the flags are reset before they are looked at, so the
  results are used, and the kernel is told the same, as after a scan of all channels.\<close>

theorem cancelled_scan_not_aborted:
  assumes "scanning s"
  shows "wifi_mac_end_scan e (set_flag SCANSTATE_F_CANCEL s) = wifi_mac_end_scan e s"
proof -
  define f where "f = set_flag SCANSTATE_F_CANCEL"
  define t where "t = upd_ss (\<lambda>x. x\<lparr>ss_scan_timer := None, ss_scan_abort_timer := None\<rparr>)"
  define reset where "reset s = upd_ss (\<lambda>x. x\<lparr>scan_StateFlags := 0\<rparr>) ((sc_emit ''scan_end'' [] s)\<lparr>wm_lastscan := sc_jiffies e\<rparr>)" for s
  have tf: "t (f s) = f (t s)" by (simp add: t_def f_def set_flag_def upd_ss_def)
  have vf: "VMacPriv (wm_scan (f s)) = VMacPriv (wm_scan s)" "scanning (f s)"
    using assms by (simp_all add: f_def set_flag_def upd_ss_def scanning_def)
  have nf: "end_noa e (f u) = map_option f (end_noa e u)" for u
    using end_noa_flags [of e "\<lambda>x. x OR SCANSTATE_F_CANCEL" u] by (simp add: f_def set_flag_def [abs_def])
  have rf: "reset (f u) = reset u" for u by (simp add: reset_def f_def set_flag_def upd_ss_def sc_emit_def)
  have "map_option reset (end_noa e (t (f s))) = map_option reset (end_noa e (t s))"
    by (simp add: tf nf option.map_comp comp_def rf)
  then show ?thesis
    using assms vf unfolding wifi_mac_end_scan_def f_def [symmetric] t_def [symmetric] reset_def [symmetric]
    by (cases "end_noa e (t (f s))"; cases "end_noa e (t s)") (simp_all add: Let_def cong: option.case_cong)
qed

theorem cancelled_scan_not_aborted_witness:
  "\<exists>s'. wifi_mac_end_scan scan_env_zero (set_flag SCANSTATE_F_CANCEL scan_sys_up) = Some s'
     \<and> Drv ''indicate_scan_done'' [0, 0] \<in> set (sm_log (mac s')) \<and> Drv ''indicate_scan_done'' [0, 1] \<notin> set (sm_log (mac s'))"
proof -
  have "(case wifi_mac_end_scan scan_env_zero scan_sys_up of None \<Rightarrow> False
      | Some s' \<Rightarrow> Drv ''indicate_scan_done'' [0, 0] \<in> set (sm_log (mac s')) \<and> Drv ''indicate_scan_done'' [0, 1] \<notin> set (sm_log (mac s')))"
    by code_simp
  moreover have "scanning scan_sys_up" by code_simp
  ultimately show ?thesis using cancelled_scan_not_aborted [of scan_sys_up scan_env_zero] by (auto split: option.splits)
qed

section \<open>The table of results\<close>

text \<open>What changes the table: beacons and probe responses, whose new entries are fresh memory, the flush, the two passes before
  a connection and while roaming, and the report to the kernel; the rest of the scan leaves it alone.\<close>

inductive table_step :: "scan_state \<Rightarrow> scan_state \<Rightarrow> bool" where
  t_beacon: "recv_beacon_scan hz j mem w p ch m sp r ss = Some ss' \<Longrightarrow> (\<And>i. mem = Some i \<Longrightarrow> i \<notin> set (st_entry (ScanTablePriv ss)))
     \<Longrightarrow> table_step ss ss'"
| t_probersp: "recv_probersp_scan hz j mem w con drp ch m sp r ss = Some ss'
     \<Longrightarrow> (\<And>i. mem = Some i \<Longrightarrow> i \<notin> set (st_entry (ScanTablePriv ss))) \<Longrightarrow> table_step ss ss'"
| t_flush: "table_step ss (ss\<lparr>ScanTablePriv := wifi_mac_scan_flush (ScanTablePriv ss)\<rparr>)"
| t_get: "wifi_mac_scan_get_match_node w hr om fl sv ss = Some (b, sv', ss') \<Longrightarrow> table_step ss ss'"
| t_set: "wifi_mac_scan_set_match_node w hr om fl sv ss = Some (b, sv', ss') \<Longrightarrow> table_step ss ss'"
| t_report: "wm_scan s = ss \<Longrightarrow> wm_scan (snd (wifi_mac_scan_parse e v s)) = ss' \<Longrightarrow> table_step ss ss'"
| t_other: "ScanTablePriv ss' = ScanTablePriv ss \<Longrightarrow> table_step ss ss'"

lemma report_table:
  "ScanTablePriv (wm_scan (snd (wifi_mac_scan_parse e v s))) = (let t = ScanTablePriv (wm_scan s) in
     t\<lparr>st_se := (\<lambda>i. if i \<in> set (st_entry t)
         then (st_se t i)\<lparr>scaninfo := (scaninfo (st_se t i))\<lparr>SI_age := ucast (sc_jiffies e - LastUpdateTime (st_se t i))\<rparr>\<rparr> else st_se t i)\<rparr>)"
  by (simp add: wifi_mac_scan_parse_def Let_def upd_ss_def sc_emit_def)

lemma report_table_wf: "table_wf (ScanTablePriv (wm_scan s)) \<Longrightarrow> table_wf (ScanTablePriv (wm_scan (snd (wifi_mac_scan_parse e v s))))"
  unfolding report_table by (auto simp: Let_def table_wf_def se_mac_def info_ok_def)

lemma table_step_wf: "table_step ss ss' \<Longrightarrow> table_wf (ScanTablePriv ss) \<Longrightarrow> table_wf (ScanTablePriv ss')"
proof (induction rule: table_step.induct)
  case (t_report s ss e v ss')
  then show ?case using report_table_wf by metis
qed (auto intro: beacon_table_wf probersp_table_wf table_wf_flush get_match_table_wf set_match_table_wf)

text \<open>C34: Whatever is received and whatever the scan does with its results, the list of entries and the hash chains hold the
  same entries, each once and on the chain of its address, every entry is valid, and its arrays have their sizes.\<close>

theorem scan_table_consistent:
  assumes "table_step\<^sup>*\<^sup>* ss ss'" "st_entry (ScanTablePriv ss) = []" "\<forall>h. st_hash (ScanTablePriv ss) h = []"
  shows "table_wf (ScanTablePriv ss')"
  using assms(1)
proof (induction rule: rtranclp_induct)
  case base
  then show ?case using assms(2,3) by (simp add: table_wf_def)
next
  case (step y z)
  then show ?case by (blast intro: table_step_wf)
qed

text \<open>A beacon of a network named A on channel 1 and a probe response of another station, then the passes.\<close>

definition beacon_a :: "u8 list" where "beacon_a = ex_beacon [(0, [65]), (1, [0x82]), (3, [1])]"

definition parsed :: "u8 list \<Rightarrow> scan_param" where
  "parsed m = (case wifi_mac_pkt_parse_element ex_env m ex_elem_st of Some (_, s) \<Rightarrow> scan s | None \<Rightarrow> scan_zero)"

theorem scan_table_consistent_witness:
  "\<exists>ss. recv_beacon_scan 100 7 (Some 5) scan_chans False 1 beacon_a (parsed beacon_a) (-60) scan_state_zero = Some ss
     \<and> st_entry (ScanTablePriv ss) = [5] \<and> table_wf (ScanTablePriv ss)"
proof -
  have "(case recv_beacon_scan 100 7 (Some 5) scan_chans False 1 beacon_a (parsed beacon_a) (-60) scan_state_zero of
      None \<Rightarrow> False | Some ss \<Rightarrow> st_entry (ScanTablePriv ss) = [5])" by code_simp
  then obtain ss where ss: "recv_beacon_scan 100 7 (Some 5) scan_chans False 1 beacon_a (parsed beacon_a) (-60) scan_state_zero = Some ss"
    "st_entry (ScanTablePriv ss) = [5]" by (auto split: option.splits)
  have z: "ScanTablePriv scan_state_zero = table_zero" by (simp add: scan_state_zero_def)
  have "table_step scan_state_zero ss" by (rule t_beacon [OF ss(1)]) (simp add: z table_zero_def)
  moreover have "st_entry (ScanTablePriv scan_state_zero) = []" "\<forall>h. st_hash (ScanTablePriv scan_state_zero) h = []"
    by (simp_all add: z table_zero_def)
  ultimately have "table_wf (ScanTablePriv ss)" by (intro scan_table_consistent [OF r_into_rtranclp])
  with ss show ?thesis by blast
qed

section \<open>The entry chosen\<close>

text \<open>How the pass goes: the positions \<open>ks\<close> of the entries that were the best one for a while.  The first is the first entry
  that matches; each next one is better than the one before; no entry that matches between two of them, or after the last, is
  better than the one in place.\<close>

definition takes_over :: "(scaninfo_entry \<Rightarrow> u32 option) \<Rightarrow> chan_mac \<Rightarrow> scaninfo_entry list \<Rightarrow> nat list \<Rightarrow> bool" where
  "takes_over mt w es ks \<longleftrightarrow> ks \<noteq> [] \<and> sorted_wrt (<) ks \<and> (\<forall>k \<in> set ks. k < length es \<and> mt (es ! k) = Some 0)
     \<and> (\<forall>j < hd ks. mt (es ! j) \<noteq> Some 0)
     \<and> (\<forall>t. Suc t < length ks \<longrightarrow> (\<exists>c > 0. wifi_mac_scan_sta_compare w (es ! (ks ! Suc t)) (es ! (ks ! t)) = Some c))
     \<and> (\<forall>t < length ks. \<forall>j < length es. ks ! t < j \<and> (Suc t < length ks \<longrightarrow> j < ks ! Suc t) \<and> mt (es ! j) = Some 0
          \<longrightarrow> (\<exists>c \<le> 0. wifi_mac_scan_sta_compare w (es ! j) (es ! (ks ! t)) = Some c))"

definition best_of :: "(scaninfo_entry \<Rightarrow> u32 option) \<Rightarrow> chan_mac \<Rightarrow> scaninfo_entry list \<Rightarrow> scaninfo_entry \<Rightarrow> bool" where
  "best_of mt w es b \<longleftrightarrow> (\<exists>ks. takes_over mt w es ks \<and> b = es ! last ks)"

lemma best_of_first:
  assumes "mt e = Some 0" "\<forall>x \<in> set es. mt x \<noteq> Some 0"
  shows "best_of mt w (es @ [e]) e"
  unfolding best_of_def takes_over_def
  by (intro exI [of _ "[length es]"]) (use assms in \<open>auto simp: nth_append\<close>)

lemma takes_over_bound: "takes_over mt w es ks \<Longrightarrow> t < length ks \<Longrightarrow> ks ! t < length es"
  by (auto simp: takes_over_def)

lemma best_of_keep:
  assumes "best_of mt w es b" "mt e = Some 0 \<Longrightarrow> \<exists>c \<le> 0. wifi_mac_scan_sta_compare w e b = Some c"
  shows "best_of mt w (es @ [e]) b"
proof -
  from assms(1) obtain ks where ks: "takes_over mt w es ks" "b = es ! last ks" by (auto simp: best_of_def)
  note lt = takes_over_bound [OF ks(1)]
  have n: "ks \<noteq> []" using ks(1) by (simp add: takes_over_def)
  have at: "(es @ [e]) ! (ks ! t) = es ! (ks ! t)" if "t < length ks" for t using lt [OF that] by (simp add: nth_append)
  have "takes_over mt w (es @ [e]) ks"
    unfolding takes_over_def
  proof (intro conjI allI impI ballI)
    fix t j
    assume t: "t < length ks" and j: "j < length (es @ [e])"
      and m: "ks ! t < j \<and> (Suc t < length ks \<longrightarrow> j < ks ! Suc t) \<and> mt ((es @ [e]) ! j) = Some 0"
    show "\<exists>c \<le> 0. wifi_mac_scan_sta_compare w ((es @ [e]) ! j) ((es @ [e]) ! (ks ! t)) = Some c"
    proof (cases "j < length es")
      case True
      with ks(1) t m show ?thesis unfolding at [OF t] by (auto simp: takes_over_def nth_append)
    next
      case False
      with j have je: "j = length es" by simp
      have "\<not> Suc t < length ks" using m je lt [of "Suc t"] by auto
      with t have "t = length ks - 1" by simp
      then have "es ! (ks ! t) = b" using ks(2) n by (simp add: last_conv_nth)
      with assms(2) m je show ?thesis unfolding at [OF t] by simp
    qed
  next
    fix t assume "Suc t < length ks"
    then show "\<exists>c > 0. wifi_mac_scan_sta_compare w ((es @ [e]) ! (ks ! Suc t)) ((es @ [e]) ! (ks ! t)) = Some c"
      using ks(1) at [of t] at [of "Suc t"] by (auto simp: takes_over_def)
  next
    fix j assume j: "j < hd ks"
    moreover have "hd ks < length es" using lt [of 0] n by (simp add: hd_conv_nth)
    ultimately have "j < length es" by linarith
    then show "mt ((es @ [e]) ! j) \<noteq> Some 0" using ks(1) j by (simp add: takes_over_def nth_append)
  qed (use ks(1) in \<open>auto simp: takes_over_def nth_append\<close>)
  moreover have "b = (es @ [e]) ! last ks" using ks(2) lt [of "length ks - 1"] n by (simp add: last_conv_nth nth_append)
  ultimately show ?thesis unfolding best_of_def by blast
qed

lemma best_of_replace:
  assumes "best_of mt w es b" "mt e = Some 0" "wifi_mac_scan_sta_compare w e b = Some c" "c > 0"
  shows "best_of mt w (es @ [e]) e"
proof -
  from assms(1) obtain ks where ks: "takes_over mt w es ks" "b = es ! last ks" by (auto simp: best_of_def)
  note lt = takes_over_bound [OF ks(1)]
  have n: "ks \<noteq> []" using ks(1) by (simp add: takes_over_def)
  have at: "(es @ [e]) ! (ks ! t) = es ! (ks ! t)" if "t < length ks" for t using lt [OF that] by (simp add: nth_append)
  have lb: "es ! (ks ! (length ks - 1)) = b" using ks(2) n by (simp add: last_conv_nth)
  have "takes_over mt w (es @ [e]) (ks @ [length es])"
    unfolding takes_over_def
  proof (intro conjI allI impI ballI)
    fix t j
    assume t: "t < length (ks @ [length es])" and j: "j < length (es @ [e])"
      and m: "(ks @ [length es]) ! t < j \<and> (Suc t < length (ks @ [length es]) \<longrightarrow> j < (ks @ [length es]) ! Suc t) \<and> mt ((es @ [e]) ! j) = Some 0"
    have tk: "t < length ks" using t j m by (cases "t < length ks") (auto simp: nth_append)
    have j': "j < length es" using m tk lt [of "Suc t"] by (cases "Suc t < length ks") (auto simp: nth_append)
    have "Suc t < length ks \<longrightarrow> j < ks ! Suc t" using m tk by (auto simp: nth_append)
    with ks(1) tk j' m show "\<exists>c \<le> 0. wifi_mac_scan_sta_compare w ((es @ [e]) ! j) ((es @ [e]) ! ((ks @ [length es]) ! t)) = Some c"
      using at [OF tk] by (auto simp: takes_over_def nth_append)
  next
    fix t assume t: "Suc t < length (ks @ [length es])"
    show "\<exists>c > 0. wifi_mac_scan_sta_compare w ((es @ [e]) ! ((ks @ [length es]) ! Suc t)) ((es @ [e]) ! ((ks @ [length es]) ! t)) = Some c"
    proof (cases "Suc t < length ks")
      case True
      then show ?thesis using ks(1) at [of t] at [of "Suc t"] by (auto simp: takes_over_def nth_append)
    next
      case False
      with t have e: "Suc t = length ks" "t = length ks - 1" by simp_all
      then have "(ks @ [length es]) ! Suc t = length es" "(ks @ [length es]) ! t = ks ! t" by (simp_all add: nth_append)
      then show ?thesis using assms(3,4) at [of t] e lb by simp
    qed
  next
    fix j assume j: "j < hd (ks @ [length es])"
    moreover have "hd ks < length es" using lt [of 0] n by (simp add: hd_conv_nth)
    ultimately have "j < length es" using n by simp
    then show "mt ((es @ [e]) ! j) \<noteq> Some 0" using ks(1) j n by (simp add: takes_over_def nth_append)
  qed (use ks(1) assms(2) in \<open>auto simp: takes_over_def nth_append sorted_wrt_append\<close>)
  then show ?thesis unfolding best_of_def by (intro exI conjI) (assumption, simp)
qed

lemma best_of_in: "best_of mt w es b \<Longrightarrow> b \<in> set es \<and> mt b = Some 0"
  using last_in_set by (fastforce simp: best_of_def takes_over_def)

lemma best_pass:
  assumes "foldo (best_step mt w) es b0 = Some b" "\<not> se_valid b0" "\<forall>e \<in> set es. se_valid e"
  shows "if \<exists>e \<in> set es. mt e = Some 0 then best_of mt w es b else b = b0"
  using assms(1,3)
proof (induction es arbitrary: b rule: rev_induct)
  case (snoc e es)
  from snoc.prems(1) obtain b1 where b1: "foldo (best_step mt w) es b0 = Some b1" "best_step mt w e b1 = Some b"
    by (auto simp: foldo_append split: option.splits)
  from b1(2) obtain f where f: "mt e = Some f" by (auto simp: best_step_def split: bind_splits)
  have IH: "if \<exists>e \<in> set es. mt e = Some 0 then best_of mt w es b1 else b1 = b0" using snoc.IH [OF b1(1)] snoc.prems(2) by simp
  consider (miss) "f \<noteq> 0" | (first) "f = 0" "\<forall>x \<in> set es. mt x \<noteq> Some 0" | (next_one) "f = 0" "\<exists>x \<in> set es. mt x = Some 0" by blast
  then show ?case
  proof cases
    case miss
    with b1(2) f have "b = b1" by (simp add: best_step_def)
    then show ?thesis using IH miss f best_of_keep [of mt w es b1 e] by (cases "\<exists>e \<in> set es. mt e = Some 0") auto
  next
    case first
    with IH assms(2) b1(2) f have "b = e" by (auto simp: best_step_def split: if_splits)
    with f first best_of_first [of mt e es w] show ?thesis by auto
  next
    case next_one
    with IH have b1': "best_of mt w es b1" by simp
    then have "se_valid b1" using snoc.prems(2) best_of_in by auto
    with b1(2) f next_one(1) obtain c where c: "wifi_mac_scan_sta_compare w e b1 = Some c" "b = (if c > 0 then e else b1)"
      by (auto simp: best_step_def split: bind_splits)
    have "best_of mt w (es @ [e]) b"
      using c best_of_replace [OF b1' _ c(1)] best_of_keep [OF b1', of e] f next_one(1) by (cases "c > 0") (auto simp: not_less)
    then show ?thesis using f next_one by simp
  qed
qed simp

text \<open>C35: The choice of a network outside roaming: when no entry matches, none is chosen.  Otherwise the choice is the last of a
  chain of entries: the first that matches, then each time the next further down that matches and is better than the one in
  place.\<close>

theorem best_node_chosen:
  assumes "wifi_mac_scan_get_best_node w hr om fl t2 t5 sv ss entry_zero = Some b" "table_wf (ScanTablePriv ss)"
    "\<not> vm_chan_roaming_scan_flag sv"
    and es: "es = map (st_se (ScanTablePriv ss)) (st_entry (ScanTablePriv ss))"
  shows "if \<exists>e \<in> set es. match_bss w hr om fl sv ss e = Some 0
     then se_valid b \<and> best_of (match_bss w hr om fl sv ss) w es b else \<not> se_valid b"
proof -
  have "foldo (best_step (match_bss w hr om fl sv ss) w) es entry_zero = Some b"
    using assms(1,3) by (auto simp: wifi_mac_scan_get_best_node_def es split: bind_splits)
  moreover have "\<not> se_valid entry_zero" by (simp add: entry_zero_def)
  moreover have v: "\<forall>e \<in> set es. se_valid e" using assms(2) by (auto simp: es table_wf_def)
  ultimately have "if \<exists>e \<in> set es. match_bss w hr om fl sv ss e = Some 0 then best_of (match_bss w hr om fl sv ss) w es b else b = entry_zero"
    by (rule best_pass)
  then show ?thesis using v best_of_in by (auto simp: entry_zero_def split: if_splits)
qed

text \<open>A strong network between two weak ones of the same name, and one of another name.\<close>

definition entry_of :: "u8 \<Rightarrow> u8 \<Rightarrow> int \<Rightarrow> scaninfo_entry" where
  "entry_of a name r = entry_zero\<lparr>se_valid := True, scaninfo := info_zero\<lparr>SI_macaddr := [2, 0, 0, 0, 0, a], SI_bssid := [2, 0, 0, 0, 0, a],
     SI_ssid := [0, 1, name] @ replicate 31 0, SI_rates := [1, 1, 0x82] @ replicate 56 0, SI_capinfo := 1, SI_rssi := r\<rparr>\<rparr>"

definition scan_two :: scan_state where
  "scan_two = scan_state_zero\<lparr>ss_nssid := 1, ss_ssid := \<lparr>ss_len = 1, ss_bytes = 65 # replicate 31 0\<rparr> # replicate 15 ssid_none,
     ScanTablePriv := \<lparr>st_entry = [3, 4, 6, 5],
       st_hash = (\<lambda>h. if h = 3 then [3] else if h = 4 then [4] else if h = 5 then [5] else if h = 6 then [6] else []),
       st_se = (\<lambda>i. if i = 3 then entry_of 3 65 (-70) else if i = 4 then entry_of 4 65 (-50)
                  else if i = 6 then entry_of 6 65 (-80) else entry_of 5 66 (-20))\<rparr>\<rparr>"

lemma scan_two_wf: "table_wf (ScanTablePriv scan_two)"
proof -
  have "info_ok (scaninfo (entry_of a n r))" for a n r
    by (simp add: info_ok_def entry_of_def info_zero_def WIFINET_NWID_LEN_def WIFINET_RATE_MAXSIZE_def)
  moreover have "STA_HASH (SI_macaddr (scaninfo (entry_of a n r))) = unat a mod 32" "se_valid (entry_of a n r)" for a n r
    by (simp_all add: entry_of_def STA_HASH_def STA_HASHSIZE_def)
  ultimately show ?thesis by (simp add: scan_two_def table_wf_def se_mac_def)
qed

theorem best_node_chosen_witness:
  "\<exists>b. wifi_mac_scan_get_best_node scan_chans \<lparr>dot11_rate_num = 0, dot11_rate = []\<rparr> M_STA 0 (-70) (-70) scan_vif_zero scan_two entry_zero
       = Some b \<and> SI_macaddr (scaninfo b) = [2, 0, 0, 0, 0, 4] \<and> se_valid b"
proof -
  let ?b = "wifi_mac_scan_get_best_node scan_chans \<lparr>dot11_rate_num = 0, dot11_rate = []\<rparr> M_STA 0 (-70) (-70) scan_vif_zero scan_two entry_zero"
  let ?mt = "match_bss scan_chans \<lparr>dot11_rate_num = 0, dot11_rate = []\<rparr> M_STA 0 scan_vif_zero scan_two"
  have "(case ?b of None \<Rightarrow> False | Some b \<Rightarrow> SI_macaddr (scaninfo b) = [2, 0, 0, 0, 0, 4])" by code_simp
  then obtain b where b: "?b = Some b" "SI_macaddr (scaninfo b) = [2, 0, 0, 0, 0, 4]" by (auto split: option.splits)
  have m: "?mt (entry_of 4 65 (-50)) = Some 0" by code_simp
  have es: "map (st_se (ScanTablePriv scan_two)) (st_entry (ScanTablePriv scan_two))
      = [entry_of 3 65 (-70), entry_of 4 65 (-50), entry_of 6 65 (-80), entry_of 5 66 (-20)]"
    by (simp add: scan_two_def)
  have "\<not> vm_chan_roaming_scan_flag scan_vif_zero" by (simp add: scan_vif_zero_def)
  from best_node_chosen [OF b(1) scan_two_wf this es [symmetric]] m b show ?thesis by auto
qed

section \<open>The channels to roam to\<close>

definition roam_pri :: "chan_mac \<Rightarrow> nat option \<times> int \<Rightarrow> int option" where
  "roam_pri w x = map_option (\<lambda>c. chan_pri_num (wm_channels w ! c)) (fst x)"

text \<open>The used slots come first, and no two of them are of one channel.\<close>

definition roam_ok :: "chan_mac \<Rightarrow> scan_state \<Rightarrow> bool" where
  "roam_ok w ss \<longleftrightarrow> (let xs = roaming_candidate_chans ss; n = roaming_candidate_chans_cnt ss in
     length xs = ROAMING_CANDIDATE_CHAN_MAX \<and> n \<le> ROAMING_CANDIDATE_CHAN_MAX
     \<and> (\<forall>i < length xs. fst (xs ! i) \<noteq> None \<longleftrightarrow> i < n) \<and> (\<forall>i < n. \<forall>j < i. roam_pri w (xs ! j) \<noteq> roam_pri w (xs ! i)))"

lemma roam_scan_found:
  "roam_scan w pri xs i worst = Inl k \<Longrightarrow> i \<le> k \<and> k < i + length xs \<and> roam_pri w (xs ! (k - i)) = Some pri"
proof (induction w pri xs i worst rule: roam_scan.induct)
  case (2 w pri r xs i worst)
  then have "i + 1 \<le> k \<and> k < i + 1 + length xs \<and> roam_pri w (xs ! (k - (i + 1))) = Some pri" by simp
  then obtain d where "k = i + 1 + d" "d < length xs" "roam_pri w (xs ! d) = Some pri" using le_Suc_ex [of "i + 1" k] by fastforce
  then show ?case by simp
next
  case (3 w pri c r xs i worst)
  show ?case
  proof (cases "chan_pri_num (wm_channels w ! c) = pri")
    case True
    with 3(2) show ?thesis by (auto simp: roam_pri_def)
  next
    case False
    with 3 have "i + 1 \<le> k \<and> k < i + 1 + length xs \<and> roam_pri w (xs ! (k - (i + 1))) = Some pri" by simp
    then obtain d where "k = i + 1 + d" "d < length xs" "roam_pri w (xs ! d) = Some pri" using le_Suc_ex [of "i + 1" k] by fastforce
    then show ?thesis by simp
  qed
qed simp

lemma roam_scan_missing:
  assumes "roam_scan w pri xs i worst = Inr r"
  shows "(\<forall>x \<in> set xs. roam_pri w x \<noteq> Some pri) \<and> (r = None \<longrightarrow> worst = None \<and> (\<forall>x \<in> set xs. fst x = None))
    \<and> (\<forall>j. r = Some j \<longrightarrow> map_option fst worst = Some j \<or> i \<le> j \<and> j < i + length xs)"
  using assms
proof (induction w pri xs i worst rule: roam_scan.induct)
  case (3 w pri c q xs i worst)
  then have ne: "chan_pri_num (wm_channels w ! c) \<noteq> pri" by (auto split: if_splits)
  with 3 show ?case by (auto simp: roam_pri_def split: option.splits if_splits)
qed (auto simp: roam_pri_def)

text \<open>C37: A network heard while roaming always finds its slot: the list of candidate channels never grows past its six slots,
  no slot is read outside it, and every channel is on it at most once.\<close>

theorem roaming_candidates_bounded:
  assumes "roam_ok w ss"
  shows "\<exists>ss'. update_roaming_candidate_chan w apchan rssi ss = Some ss' \<and> roam_ok w ss'"
proof -
  define xs where "xs = roaming_candidate_chans ss"
  define n where "n = roaming_candidate_chans_cnt ss"
  let ?pri = "chan_pri_num (wm_channels w ! apchan)"
  have len: "length xs = 6" "n \<le> 6" and used: "\<And>i. i < 6 \<Longrightarrow> fst (xs ! i) \<noteq> None \<longleftrightarrow> i < n"
    and dist: "\<And>i j. i < n \<Longrightarrow> j < i \<Longrightarrow> roam_pri w (xs ! j) \<noteq> roam_pri w (xs ! i)"
    using assms by (simp_all add: roam_ok_def Let_def xs_def n_def ROAMING_CANDIDATE_CHAN_MAX_def)
  have okI: "roam_ok w (ss\<lparr>roaming_candidate_chans := ys, roaming_candidate_chans_cnt := k\<rparr>)"
    if "length ys = 6" "k \<le> 6" "\<And>i. i < 6 \<Longrightarrow> fst (ys ! i) \<noteq> None \<longleftrightarrow> i < k"
      "\<And>i j. i < k \<Longrightarrow> j < i \<Longrightarrow> roam_pri w (ys ! j) \<noteq> roam_pri w (ys ! i)" for ys k
    using that by (simp add: roam_ok_def ROAMING_CANDIDATE_CHAN_MAX_def)
  have okI': "roam_ok w (ss\<lparr>roaming_candidate_chans := ys\<rparr>)"
    if "length ys = 6" "\<And>i. i < 6 \<Longrightarrow> fst (ys ! i) \<noteq> None \<longleftrightarrow> i < n"
      "\<And>i j. i < n \<Longrightarrow> j < i \<Longrightarrow> roam_pri w (ys ! j) \<noteq> roam_pri w (ys ! i)" for ys
    using that len by (simp add: roam_ok_def n_def ROAMING_CANDIDATE_CHAN_MAX_def)
  show ?thesis
  proof (cases "roam_scan w ?pri xs 0 None")
    case (Inl k)
    let ?ys = "xs[k := (fst (xs ! k), (snd (xs ! k) + rssi * 3) div 4)]"
    have fs: "fst (?ys ! i) = fst (xs ! i)" for i by (cases "i = k"; cases "k < length xs") (simp_all add: list_update_beyond)
    then have "roam_pri w (?ys ! i) = roam_pri w (xs ! i)" for i by (simp only: roam_pri_def)
    then have "roam_ok w (ss\<lparr>roaming_candidate_chans := ?ys\<rparr>)" using len used dist by (intro okI') (simp_all add: fs)
    then show ?thesis using Inl by (simp add: update_roaming_candidate_chan_def Let_def xs_def)
  next
    case (Inr r)
    note miss = roam_scan_missing [OF Inr]
    have new: "roam_pri w (Some apchan, rssi) = Some ?pri" by (simp add: roam_pri_def)
    have other: "i < 6 \<Longrightarrow> roam_pri w (xs ! i) \<noteq> Some ?pri" for i using miss len by simp
    show ?thesis
    proof (cases "n > 5")
      case True
      then have "fst (xs ! 0) \<noteq> None" using used [of 0] by simp
      then obtain j where j: "r = Some j" "j < 6" using miss len nth_mem [of 0 xs] by (cases r) auto
      have at: "roam_pri w (xs[j := (Some apchan, rssi)] ! i) = (if i = j then Some ?pri else roam_pri w (xs ! i))" if "i < 6" for i
        using that len j new by (simp add: nth_list_update)
      have "roam_ok w (ss\<lparr>roaming_candidate_chans := xs[j := (Some apchan, rssi)]\<rparr>)"
      proof (rule okI')
        show "fst (xs[j := (Some apchan, rssi)] ! i) \<noteq> None \<longleftrightarrow> i < n" if "i < 6" for i
          using that used [of i] used [of j] True len j by (cases "i = j") (simp_all add: nth_list_update)
        show "roam_pri w (xs[j := (Some apchan, rssi)] ! k) \<noteq> roam_pri w (xs[j := (Some apchan, rssi)] ! i)" if "i < n" "k < i" for i k
          using that len(2) at [of i] at [of k] other [of i] other [of k] dist [of i k] by (cases "i = j"; cases "k = j") simp_all
      qed (use len in simp)
      then show ?thesis using Inr True j assms
        by (cases "rssi > snd (xs ! j)") (simp_all add: update_roaming_candidate_chan_def Let_def xs_def n_def)
    next
      case False
      have "roam_ok w (ss\<lparr>roaming_candidate_chans := xs[n := (Some apchan, rssi)], roaming_candidate_chans_cnt := n + 1\<rparr>)"
      proof (rule okI)
        show "roam_pri w (xs[n := (Some apchan, rssi)] ! j) \<noteq> roam_pri w (xs[n := (Some apchan, rssi)] ! i)" if "i < n + 1" "j < i" for i j
          using that False len dist [of i j] other [of j] new by (cases "i = n") (auto simp: nth_list_update)
        show "fst (xs[n := (Some apchan, rssi)] ! i) \<noteq> None \<longleftrightarrow> i < n + 1" if "i < 6" for i
          using that False len used [of i] by (cases "i = n") (auto simp: nth_list_update)
      qed (use False len in simp_all)
      then show ?thesis using Inr False len by (simp add: update_roaming_candidate_chan_def Let_def xs_def n_def)
    qed
  qed
qed

text \<open>Two candidates; channel 11 becomes the third.\<close>

definition scan_roam :: scan_state where
  "scan_roam = scan_state_zero\<lparr>roaming_candidate_chans := [(Some 0, -60), (Some 1, -50), (None, 0), (None, 0), (None, 0), (None, 0)],
     roaming_candidate_chans_cnt := 2\<rparr>"

theorem roaming_candidates_bounded_witness:
  "\<exists>ss'. update_roaming_candidate_chan scan_chans 2 (-40) scan_roam = Some ss' \<and> roaming_candidate_chans_cnt ss' = 3 \<and> roam_ok scan_chans ss'"
proof -
  have "roam_ok scan_chans scan_roam" by code_simp
  then obtain ss' where ss': "update_roaming_candidate_chan scan_chans 2 (-40) scan_roam = Some ss'" "roam_ok scan_chans ss'"
    using roaming_candidates_bounded by blast
  moreover have "(case update_roaming_candidate_chan scan_chans 2 (-40) scan_roam of None \<Rightarrow> False
      | Some ss' \<Rightarrow> roaming_candidate_chans_cnt ss' = 3)" by code_simp
  ultimately show ?thesis by simp
qed

section \<open>Which frames fit into an entry\<close>

definition too_long :: "u8 list \<Rightarrow> ie_slot \<times> nat option \<Rightarrow> bool" where
  "too_long m x = (case snd x of None \<Rightarrow> False | Some p \<Rightarrow> ie_size (fst x) < 2 + unat (m ! (p + 1)))"

lemma saveie_None:
  assumes "1 < length b" "\<And>p. x = Some p \<Longrightarrow> elem_inside m p"
  shows "saveie b m x = None \<longleftrightarrow> (\<exists>p. x = Some p \<and> length b < 2 + unat (m ! (p + 1)))"
proof (cases x)
  case (Some p)
  with assms(2) have "p + 1 < length m" "p + unat (m ! (p + 1)) + 1 < length m" by (auto simp: elem_inside_def)
  with Some show ?thesis by (auto simp: saveie_def Let_def)
qed (use assms(1) in \<open>simp add: saveie_def\<close>)

lemma ie_size_min: "2 < ie_size k"
  by (cases k) (simp_all add: SCANINFO_IE_LENGTH_def)

lemma save_slots_None:
  assumes "info_ok i" "\<And>k p. (k, Some p) \<in> set xs \<Longrightarrow> elem_inside m p"
  shows "foldo (save_slot m) xs i = None \<longleftrightarrow> (\<exists>x \<in> set xs. too_long m x)"
  using assms
proof (induction xs arbitrary: i)
  case (Cons x xs)
  obtain k o' where x: "x = (k, o')" by fastforce
  have "1 < length (SI_ie i k)" using Cons.prems(1) ie_size_min [of k] by (simp add: info_ok_def)
  moreover have "save_slot m x i = None \<longleftrightarrow> saveie (SI_ie i k) m o' = None"
    by (cases "saveie (SI_ie i k) m o'") (simp_all add: save_slot_def x)
  moreover have "elem_inside m p" if "o' = Some p" for p using Cons.prems(2) [of k p] x that by simp
  moreover have "length (SI_ie i k) = ie_size k" using Cons.prems(1) by (simp add: info_ok_def)
  ultimately have none: "save_slot m x i = None \<longleftrightarrow> too_long m x"
    using saveie_None [of "SI_ie i k" o' m] by (cases o') (auto simp: too_long_def x)
  show ?case
  proof (cases "save_slot m x i")
    case (Some j)
    then have "info_ok j" using save_slot_inv(2) Cons.prems(1) by blast
    with Cons.IH [of j] Cons.prems(2) Some none show ?thesis by auto
  qed (use none in auto)
qed simp

text \<open>What the handler has checked before, and the parser before that.\<close>

definition elems_checked :: "u8 list \<Rightarrow> scan_param \<Rightarrow> bool" where
  "elems_checked m sp \<longleftrightarrow> (\<forall>q \<in> noted sp. elem_inside m q) \<and> length (p2p sp) = MAX_P2PIE_NUM
     \<and> verify_element m (sp_rates sp) WIFINET_RATE_MAXSIZE \<and> verify_element m (xrates sp) WIFINET_RATE_MAXSIZE
     \<and> verify_element m (ssid sp) WIFINET_NWID_LEN \<and> (case tstamp sp of None \<Rightarrow> False | Some p \<Rightarrow> p + 8 \<le> length m)
     \<and> (case tim sp of None \<Rightarrow> True | Some q \<Rightarrow> q + 3 < length m)"

lemma set_present: "set (present xs) = {x \<in> set xs. snd x \<noteq> None}"
  by (simp add: present_def)

lemma slots_inside:
  assumes "elems_checked m sp" "(k, Some p) \<in> set (early_slots sp @ late_slots sp @ vht_slots sp)"
  shows "elem_inside m p"
proof -
  have "p2p sp ! n \<in> set (p2p sp)" if "n < MAX_P2PIE_NUM" for n using assms(1) that by (simp add: elems_checked_def)
  then have "p \<in> noted sp" using assms(2)
    by (auto simp: early_slots_def late_slots_def vht_slots_def set_present noted_def)
  then show ?thesis using assms(1) by (auto simp: elems_checked_def)
qed

lemma big_slots:
  assumes "x \<in> set (early_slots sp @ late_slots sp)"
  shows "\<not> too_long m x"
proof -
  have "ie_size (fst x) = SCANINFO_IE_LENGTH" using assms by (auto simp: early_slots_def late_slots_def set_present)
  moreover have "unat (y :: u8) \<le> 258" for y using unat_u8 [of y] by simp
  ultimately show ?thesis by (simp add: too_long_def SCANINFO_IE_LENGTH_def not_less split: option.split)
qed

lemma rx_ssid_Some:
  assumes "elems_checked m sp" "info_ok i"
  shows "rx_ssid m sp pr i \<noteq> None"
proof (cases "ssid sp")
  case (Some p)
  then have p: "elem_inside m p" "unat (m ! (p + 1)) \<le> WIFINET_NWID_LEN"
    using assms(1) by (auto simp: elems_checked_def noted_def verify_element_def)
  have "saveie (SI_ssid i) m (Some p) \<noteq> None"
    using saveie_None [of "SI_ssid i" "Some p" m] p assms(2) by (auto simp: info_ok_def WIFINET_NWID_LEN_def)
  then show ?thesis using Some p assms(2) by (auto simp: rx_ssid_def elem_inside_def info_ok_def)
qed (simp add: rx_ssid_def)

lemma save_rates_Some:
  assumes "elem_inside m p" "verify_element m (Some p) WIFINET_RATE_MAXSIZE" "length b = 2 + WIFINET_RATE_MAXSIZE"
  shows "save_rates m p b \<noteq> None"
  using saveie_None [of b "Some p" m] assms by (auto simp: save_rates_def verify_element_def elem_inside_def)

lemma rx_rates_Some:
  assumes "elems_checked m sp" "info_ok i"
  shows "rx_rates m sp i \<noteq> None"
proof -
  have "(case sp_rates sp of None \<Rightarrow> Some (SI_rates i) | Some p \<Rightarrow> save_rates m p (SI_rates i)) \<noteq> None"
    using assms save_rates_Some by (auto simp: elems_checked_def noted_def info_ok_def split: option.splits)
  moreover have "(case xrates sp of None \<Rightarrow> saveie (SI_exrates i) m None | Some p \<Rightarrow> save_rates m p (SI_exrates i)) \<noteq> None"
    using assms save_rates_Some by (auto simp: elems_checked_def noted_def info_ok_def saveie_def split: option.splits)
  ultimately show ?thesis by (auto simp: rx_rates_def)
qed

lemma rx_fixed_Some: "elems_checked m sp \<Longrightarrow> rx_fixed m sp c r e \<noteq> None"
  by (auto simp: rx_fixed_def elems_checked_def split: option.splits)

lemma rx_entry_None:
  assumes ok: "elems_checked m sp" and e: "info_ok (scaninfo e)"
  shows "rx_entry hz j m sp pr c r e = None \<longleftrightarrow> (\<exists>x \<in> set (vht_slots sp). too_long m x)"
proof -
  have slots: "foldo (save_slot m) xs i \<noteq> None" if "info_ok i" "xs = early_slots sp \<or> xs = late_slots sp" for xs i
  proof -
    have "\<And>k p. (k, Some p) \<in> set xs \<Longrightarrow> elem_inside m p" using that(2) slots_inside [OF ok] by auto
    from save_slots_None [OF that(1) this] show ?thesis using that(2) big_slots [of _ sp m] by auto
  qed
  obtain i1 where i1: "foldo (save_slot m) (early_slots sp) (scaninfo e) = Some i1" using slots [OF e] by blast
  then have o1: "info_ok (i1\<lparr>SI_macaddr := i_addr2 m\<rparr>)" using save_slots_inv e by auto
  obtain i2 where i2: "rx_ssid m sp pr (i1\<lparr>SI_macaddr := i_addr2 m\<rparr>) = Some i2" using rx_ssid_Some [OF ok o1] by blast
  then have o2: "info_ok i2" using rx_ssid_inv o1 by blast
  obtain i3 where i3: "rx_rates m sp i2 = Some i3" using rx_rates_Some [OF ok o2] by blast
  then have o3: "info_ok i3" using rx_rates_inv o2 by blast
  obtain e4 where e4: "rx_fixed m sp c r (e\<lparr>scaninfo := i3\<rparr>) = Some e4" using rx_fixed_Some [OF ok] by blast
  then have o4: "info_ok (scaninfo e4)" using rx_fixed_inv o3 by fastforce
  obtain i5 where i5: "foldo (save_slot m) (late_slots sp) (scaninfo e4) = Some i5" using slots [OF o4] by blast
  then have o5: "info_ok i5" using save_slots_inv o4 by blast
  have "elem_inside m p" if "(k, Some p) \<in> set (vht_slots sp)" for k p using slots_inside [OF ok, of k p] that by simp
  with save_slots_None [OF o5, of "vht_slots sp" m] show ?thesis
    by (cases "foldo (save_slot m) (vht_slots sp) i5") (simp_all add: rx_entry_def i1 i2 i3 e4 i5 Let_def)
qed

text \<open>C36: A frame of a new sender, without an RSN element, whose other elements lie inside the frame and have passed the
  checks of the parser, on a known
  channel and while the scan does not discard frames, is stored within the arrays of its entry exactly when each of its VHT and
  extended capability elements is as short as the array for it; a longer one is copied past its array, whatever the table holds.\<close>

theorem long_element_overflows:
  assumes "elems_checked m sp" "rsn sp = None" "scan_StateFlags ss AND SCANSTATE_F_DISCARD = 0" "ap_param_of m sp = Some ap"
    "wifi_mac_scan_sta_get_ap_channel w ap = Some c"
  shows "wifi_mac_scan_rx hz j (Some i) w m sp pr r None ss = None \<longleftrightarrow> (\<exists>x \<in> set (vht_slots sp). too_long m x)"
proof -
  let ?e = "entry_zero\<lparr>scaninfo := (scaninfo entry_zero)\<lparr>SI_frame_len := frame_len sp\<rparr>\<rparr>"
  have "info_ok (scaninfo ?e)" by (simp add: entry_zero_def)
  from rx_entry_None [OF assms(1) this, of hz j pr c r] assms(2-5) show ?thesis
    by (cases "rx_entry hz j m sp pr c r ?e") (simp_all add: wifi_mac_scan_rx_def rx_rsn_def Let_def)
qed

text \<open>A beacon with an operating mode notification of two bytes; the array has room for one.\<close>

definition beacon_long :: "u8 list" where "beacon_long = ex_beacon [(0, [65]), (1, [0x82]), (3, [1]), (199, [0, 7])]"

lemma noted_code [code]:
  "noted sp = \<Union> (set_option ` set ([tim sp, country sp, bss_load sp, ssid sp, sp_rates sp, xrates sp, doth sp, wpa sp,
     wme sp, htcap sp, htinfo sp, tpc sp, quiet sp, rsn sp, rsnxe sp, wps sp, timeout_ie sp, wfd sp, wai sp, ext_cap sp,
     vht_cap sp, vht_opt sp, vht_tx_pwr sp, vht_ch_sw sp, vht_ext_bss_ld sp, vht_quiet_ch sp, vht_opt_md_ntf sp] @ p2p sp))"
  by (auto simp: noted_def elem_set)

theorem long_element_overflows_witness:
  "wifi_mac_pkt_parse_element ex_env beacon_long ex_elem_st \<noteq> None
   \<and> wifi_mac_scan_rx 100 7 (Some 5) scan_chans beacon_long (parsed beacon_long) False (-60) None scan_state_zero = None
   \<and> recv_beacon_scan 100 7 (Some 5) scan_chans False 1 beacon_long (parsed beacon_long) (-60) scan_state_zero = None
   \<and> wifi_mac_scan_rx 100 7 (Some 5) scan_chans beacon_a (parsed beacon_a) False (-60) None scan_state_zero \<noteq> None"
proof -
  let ?ap = "\<lparr>ap_param.sp_chan = 1, sp_htinfo = None, sp_htcap = None, sp_vht_opt = None\<rparr>"
  have fits: "wifi_mac_scan_rx 100 7 (Some 5) scan_chans m (parsed m) False (-60) None scan_state_zero = None
      \<longleftrightarrow> (\<exists>x \<in> set (vht_slots (parsed m)). too_long m x)" if "m = beacon_a \<or> m = beacon_long" for m
  proof (rule long_element_overflows)
    have "elems_checked beacon_a (parsed beacon_a)" "elems_checked beacon_long (parsed beacon_long)" by code_simp+
    then show "elems_checked m (parsed m)" using that by blast
    have "rsn (parsed beacon_a) = None" "rsn (parsed beacon_long) = None" by code_simp+
    then show "rsn (parsed m) = None" using that by blast
    have "ap_param_of beacon_a (parsed beacon_a) = Some ?ap" "ap_param_of beacon_long (parsed beacon_long) = Some ?ap" by code_simp+
    then show "ap_param_of m (parsed m) = Some ?ap" using that by blast
    show "wifi_mac_scan_sta_get_ap_channel scan_chans ?ap = Some 0" by code_simp
  qed (simp add: scan_state_zero_def)
  have "\<exists>x \<in> set (vht_slots (parsed beacon_long)). too_long beacon_long x"
    "\<not> (\<exists>x \<in> set (vht_slots (parsed beacon_a)). too_long beacon_a x)" by code_simp+
  moreover have "wifi_mac_pkt_parse_element ex_env beacon_long ex_elem_st \<noteq> None"
    "recv_beacon_scan 100 7 (Some 5) scan_chans False 1 beacon_long (parsed beacon_long) (-60) scan_state_zero = None" by code_simp+
  ultimately show ?thesis using fits by blast
qed

end
