(* ===== verification/Amsdu.thy ===== *)
theory Amsdu
  imports Prelude "HOL-Library.Monad_Syntax"
begin

text \<open>
  Aggregation of MSDUs (\<^verbatim>\<open>wifi_mac_amsdu.c\<close>): the queue of each traffic id of a station, the A-MSDU built from it,
  and how a receiver takes one apart (\<^verbatim>\<open>wifi_mac_recv.c\<close>).  A socket buffer is a record with its bytes; a
  station is a number, and a queue is found by the station and the traffic id.  What the encapsulation and the driver below do
  with a buffer is not modelled: handing it down is an event.  \<open>None\<close> is an access outside an array, a null pointer, or
  a buffer that overflows.
\<close>

section \<open>Data\<close>

definition SUB_MAX_BW80 :: nat where "SUB_MAX_BW80 = 4"
definition SUB_MAX :: nat where "SUB_MAX = 2"
definition AMSDU_MAX_SUBFRM_LEN :: nat where "AMSDU_MAX_SUBFRM_LEN = 2304"
definition AMSDU_BUFFER_HEADROOM :: nat where "AMSDU_BUFFER_HEADROOM = 64"
definition AMSDU_MAX_LEN :: nat where "AMSDU_MAX_LEN = 4000 - AMSDU_BUFFER_HEADROOM"
definition AMSDU_MAX_LEN_BW80 :: nat where "AMSDU_MAX_LEN_BW80 = 7935 - AMSDU_BUFFER_HEADROOM"
definition AMPDU_MAX_LEN :: nat where "AMPDU_MAX_LEN = 3212"
definition AMSDU_MAX_LIVE_TIME :: u64 where "AMSDU_MAX_LIVE_TIME = 10"
definition LLC_SNAPFRAMELEN :: nat where "LLC_SNAPFRAMELEN = 8"
definition ETHER_HDR :: nat where "ETHER_HDR = 14"
definition MAX_MSDU_CNT :: nat where "MAX_MSDU_CNT = (80 + 128 div 8) * 4"
definition NUM_TID :: nat where "NUM_TID = 8"
definition FRAGMT_THRESHOLD_MAX :: nat where "FRAGMT_THRESHOLD_MAX = 2346"

definition roundup4 :: "nat \<Rightarrow> nat" where "roundup4 n = (n + 3) div 4 * 4"
definition SUBFRAME_TOTAL_LEN :: "nat \<Rightarrow> nat" where "SUBFRAME_TOTAL_LEN len = roundup4 (len + LLC_SNAPFRAMELEN)"

record pkt_info =
  b_tcp_ack_del :: bool
  tcp_src_port :: u16
  tcp_dst_port :: u16

record skb =
  sk_data :: "u8 list"
  sk_prio :: nat
  sk_tid :: nat
  sk_sta :: nat
  sk_ps :: bool
  sk_csum :: bool
  sk_amsdu :: bool
  sk_num :: nat
  sk_infos :: "pkt_info list"

record amsdu_tx =
  amsdu_tx_buf :: "skb option"
  b_work :: bool
  amsdunum :: nat
  framelen :: nat
  at_msdus :: "skb list"
  in_time :: u64
  msdu_tmp_buf :: "skb option list"
  at_vid :: nat

type_synonym amsdu_key = "nat \<times> nat"

text \<open>What happens to a buffer: it goes down to the driver, or it is freed; \<open>Tx_failed\<close> is freed because no transmit
  information could be built.\<close>

datatype amsdu_event = Tx_start skb | Complete_wbuf skb | Tx_failed skb

text \<open>The free nodes of the list are only counted.  \<open>n_alloc\<close> counts the allocations so far.\<close>

record amsdu_sys =
  amsdutx :: "amsdu_key \<Rightarrow> amsdu_tx"
  wm_amsdu_txq :: "amsdu_key list"
  free_amsdu_list :: "skb list"
  free_nodes :: nat
  msdu_cnt :: "nat \<Rightarrow> int"
  n_alloc :: nat
  tasklet_scheduled :: bool
  am_log :: "amsdu_event list"

text \<open>The environment: which allocations succeed, whether the encapsulation of a buffer and its transmit information succeed, the
  width of the channel with a station, its maximal length, the length of a hardware queue, and the bytes of fresh memory.\<close>

record amsdu_env =
  am_alloc :: "nat \<Rightarrow> bool"
  am_encap :: "skb \<Rightarrow> bool"
  am_txinfo :: "skb \<Rightarrow> bool"
  am_bw80 :: "nat \<Rightarrow> bool"
  amsdu_max_length :: "nat \<Rightarrow> nat"
  txlist_all_qcnt :: "nat \<Rightarrow> nat"
  am_memory :: "nat \<Rightarrow> u8"
  am_hz :: u64
  am_jiffies :: u64
  am_attached :: "nat \<Rightarrow> bool"
  am_fragthreshold :: "nat \<Rightarrow> nat"
  am_opmode_ok :: "nat \<Rightarrow> bool"

definition upd_at :: "amsdu_key \<Rightarrow> (amsdu_tx \<Rightarrow> amsdu_tx) \<Rightarrow> amsdu_sys \<Rightarrow> amsdu_sys" where
  "upd_at k f s = s\<lparr>amsdutx := (amsdutx s)(k := f (amsdutx s k))\<rparr>"

definition am_emit :: "amsdu_event list \<Rightarrow> amsdu_sys \<Rightarrow> amsdu_sys" where "am_emit es s = s\<lparr>am_log := am_log s @ es\<rparr>"

definition skb_key :: "skb \<Rightarrow> amsdu_key" where "skb_key x = (sk_sta x, sk_tid x)"

section \<open>Building an A-MSDU\<close>

definition ether_type :: "u8 list \<Rightarrow> (u8 \<times> u8) option" where
  "ether_type m = do { a \<leftarrow> nth_opt m 12; b \<leftarrow> nth_opt m 13; Some (a, b) }"

definition be16_bytes :: "u16 \<Rightarrow> u8 list" where "be16_bytes w = [ucast (drop_bit 8 w), ucast w]"

text \<open>Frames that are not aggregated: those buffered for power save, and those that are not IP.\<close>

definition wifi_mac_amsdu_check :: "skb \<Rightarrow> bool option" where
  "wifi_mac_amsdu_check x = (if sk_ps x then Some True else do { t \<leftarrow> ether_type (sk_data x); Some (t \<noteq> (8, 0)) })"

definition llc_snap :: "u8 list" where "llc_snap = [0xaa, 0xaa, 3, 0, 0, 0]"

text \<open>One MSDU becomes a subframe at the end of the buffer, which has room for \<open>cap\<close> bytes.  The bytes of the padding are
  those the memory has.  Lengths are 16 bits wide.\<close>

definition wifi_mac_amsdu_encap :: "(nat \<Rightarrow> u8) \<Rightarrow> nat \<Rightarrow> u8 list \<Rightarrow> u8 list \<Rightarrow> bool \<Rightarrow> u8 list option" where
  "wifi_mac_amsdu_encap mem cap buf m prepend = do {
     t \<leftarrow> ether_type m;
     let buf = (if prepend then take ETHER_HDR m
                else let p = (of_nat (roundup4 (length buf - ETHER_HDR)) :: u16); pad = p - of_nat (length buf - ETHER_HDR)
                     in buf @ map (\<lambda>i. mem (length buf + i)) [0..<unat pad]);
     let payload = (of_nat (length m + LLC_SNAPFRAMELEN) :: u16);
     let new = take 12 m @ be16_bytes (payload - of_nat ETHER_HDR) @ llc_snap @ [fst t, snd t] @ drop ETHER_HDR m;
     if cap < length buf + length new then None else Some (take (length buf + unat payload) (buf @ new)) }"

text \<open>The flag for a deleted TCP acknowledgement stays only when all frames have it and belong to one connection.\<close>

definition ack_mergeable :: "pkt_info \<Rightarrow> pkt_info \<Rightarrow> bool" where
  "ack_mergeable a b = (b_tcp_ack_del a \<and> b_tcp_ack_del b \<and> tcp_src_port a = tcp_src_port b \<and> tcp_dst_port a = tcp_dst_port b)"

text \<open>The descriptor has a slot for two MSDUs.\<close>

definition put_info :: "pkt_info \<Rightarrow> pkt_info list \<Rightarrow> pkt_info list option" where
  "put_info p xs =
     (if SUB_MAX \<le> length xs then None
      else Some (case xs of [] \<Rightarrow> [p]
         | x # ys \<Rightarrow> (if ack_mergeable x p then x else x\<lparr>b_tcp_ack_del := False\<rparr>) # ys @ [p]))"

definition aggr_step :: "(nat \<Rightarrow> u8) \<Rightarrow> nat \<Rightarrow> skb option \<Rightarrow> skb option \<Rightarrow> skb option option" where
  "aggr_step mem cap x buf = do {
     m \<leftarrow> x;
     p \<leftarrow> nth_opt (sk_infos m) 0;
     b \<leftarrow> wifi_mac_amsdu_encap mem cap (case buf of None \<Rightarrow> [] | Some y \<Rightarrow> sk_data y) (sk_data m) (buf = None);
     infos \<leftarrow> put_info p (case buf of None \<Rightarrow> [] | Some y \<Rightarrow> sk_infos y);
     Some (Some (case buf of
         None \<Rightarrow> m\<lparr>sk_data := b, sk_ps := False, sk_csum := sk_csum m, sk_amsdu := True, sk_num := 0, sk_infos := infos\<rparr>
       | Some y \<Rightarrow> y\<lparr>sk_data := b, sk_infos := infos\<rparr>)) }"

text \<open>The room after both reserves: the length asked for, the headroom of 64 bytes, less 32 and 44.\<close>

definition amsdu_room :: "nat \<Rightarrow> nat" where
  "amsdu_room len = len + AMSDU_BUFFER_HEADROOM + ETHER_HDR + 512 + 64 - 32 - 44"

text \<open>False when there is nothing to aggregate or no memory.\<close>

definition wifi_mac_amsdu_aggr :: "amsdu_env \<Rightarrow> amsdu_key \<Rightarrow> amsdu_sys \<Rightarrow> (bool \<times> amsdu_sys) option" where
  "wifi_mac_amsdu_aggr e k s =
     (let a = amsdutx s k; n = amsdunum a in
      if n = 0 then Some (False, s)
      else do {
        let s = (case amsdu_tx_buf a of None \<Rightarrow> s | Some b \<Rightarrow> am_emit [Complete_wbuf b] s);
        _ \<leftarrow> (case nth_opt (msdu_tmp_buf a) 0 of Some (Some x) \<Rightarrow> Some x | _ \<Rightarrow> None);
        let ok = am_alloc e (n_alloc s);
        let s = s\<lparr>n_alloc := n_alloc s + 1\<rparr>;
        if \<not> ok then Some (False, upd_at k (\<lambda>a. a\<lparr>amsdu_tx_buf := None\<rparr>) s)
        else if length (msdu_tmp_buf a) < n then None
        else do {
          buf \<leftarrow> foldo (aggr_step (am_memory e) (amsdu_room (framelen a))) (take n (msdu_tmp_buf a)) None;
          b \<leftarrow> buf;
          Some (True, am_emit (map Complete_wbuf (somes (take n (msdu_tmp_buf a))))
            (upd_at k (\<lambda>a. a\<lparr>amsdu_tx_buf := Some (b\<lparr>sk_num := n\<rparr>), amsdunum := 0, framelen := 0,
               msdu_tmp_buf := replicate n None @ drop n (msdu_tmp_buf a)\<rparr>) s)) } })"

text \<open>The encapsulation may fail, which is not tested.\<close>

definition wifi_mac_amsdu_tx2drvlay :: "amsdu_env \<Rightarrow> amsdu_key \<Rightarrow> amsdu_sys \<Rightarrow> amsdu_sys option" where
  "wifi_mac_amsdu_tx2drvlay e k s =
     (case amsdu_tx_buf (amsdutx s k) of
        None \<Rightarrow> Some s
      | Some b \<Rightarrow>
          if \<not> am_encap e b then None
          else let s = upd_at k (\<lambda>a. a\<lparr>amsdu_tx_buf := None\<rparr>) s; n = (if sk_amsdu b then int (sk_num b) else 1);
                   s = s\<lparr>msdu_cnt := (msdu_cnt s)(sk_tid b := max 0 (msdu_cnt s (sk_tid b) - n))\<rparr>
               in Some (am_emit [if am_txinfo e b then Tx_start b else Tx_failed b] s))"

definition flush_aggr :: "amsdu_env \<Rightarrow> amsdu_key \<Rightarrow> amsdu_sys \<Rightarrow> amsdu_sys option" where
  "flush_aggr e k s = do { (ok, s) \<leftarrow> wifi_mac_amsdu_aggr e k s; if ok then wifi_mac_amsdu_tx2drvlay e k s else Some s }"

section \<open>The queue\<close>

definition time_after :: "u64 \<Rightarrow> u64 \<Rightarrow> bool" where "time_after a b = (sint (b - a) < 0)"

definition amsdu_expired :: "amsdu_env \<Rightarrow> amsdu_tx \<Rightarrow> bool" where
  "amsdu_expired e a = time_after (am_jiffies e) (in_time a + AMSDU_MAX_LIVE_TIME * am_hz e div 1000)"

text \<open>The limit by the width of the channel is overwritten by the one for a short or long queue.\<close>

definition tx_amsdu_sub_max :: "amsdu_env \<Rightarrow> skb \<Rightarrow> nat" where
  "tx_amsdu_sub_max e x = (if txlist_all_qcnt e (sk_prio x) \<le> 4 then SUB_MAX_BW80 div 4 else SUB_MAX_BW80 div 2)"

definition amsdu_max_len :: "amsdu_env \<Rightarrow> skb \<Rightarrow> nat" where
  "amsdu_max_len e x =
     min (min (amsdu_max_length e (sk_sta x)) (if am_bw80 e (sk_sta x) then AMSDU_MAX_LEN_BW80 else AMSDU_MAX_LEN)) AMPDU_MAX_LEN"

definition tmp_add :: "amsdu_key \<Rightarrow> skb \<Rightarrow> amsdu_sys \<Rightarrow> amsdu_sys option" where
  "tmp_add k x s =
     (let a = amsdutx s k; n = amsdunum a in
      if length (msdu_tmp_buf a) \<le> n then None
      else Some (upd_at k (\<lambda>a. a\<lparr>msdu_tmp_buf := (msdu_tmp_buf a)[n := Some x],
        framelen := framelen a + SUBFRAME_TOTAL_LEN (length (sk_data x)), amsdunum := n + 1\<rparr>) s))"

text \<open>When memory has been missing so long that the array is full, its frames are dropped.\<close>

definition tmp_drop :: "amsdu_key \<Rightarrow> amsdu_sys \<Rightarrow> amsdu_sys" where
  "tmp_drop k s =
     (let a = amsdutx s k; n = amsdunum a in
      if n < SUB_MAX_BW80 * 2 then s
      else am_emit (map Complete_wbuf (rev (somes (take n (msdu_tmp_buf a)))))
             (upd_at k (\<lambda>a. a\<lparr>amsdunum := 0, framelen := 0\<rparr>) s))"

definition wifi_mac_amsdu_ex :: "amsdu_env \<Rightarrow> skb \<Rightarrow> amsdu_sys \<Rightarrow> amsdu_sys option" where
  "wifi_mac_amsdu_ex e x s = do {
     let k = skb_key x;
     let sub_max = tx_amsdu_sub_max e x;
     let len = SUBFRAME_TOTAL_LEN (length (sk_data x));
     deny \<leftarrow> wifi_mac_amsdu_check x;
     if AMSDU_MAX_SUBFRM_LEN < len \<or> deny then do {
       s \<leftarrow> (if 0 < amsdunum (amsdutx s k) then flush_aggr e k s else Some s);
       wifi_mac_amsdu_tx2drvlay e k (upd_at k (\<lambda>a. a\<lparr>amsdu_tx_buf := Some x\<rparr>) s) }
     else do {
       let s = (if amsdunum (amsdutx s k) = 0 then upd_at k (\<lambda>a. a\<lparr>in_time := am_jiffies e\<rparr>) s else s);
       let a = amsdutx s k;
       if len + framelen a + ETHER_HDR \<le> amsdu_max_len e x \<and> amsdunum a + 1 \<le> sub_max \<and> \<not> amsdu_expired e a then do {
         s \<leftarrow> tmp_add k x s;
         let b = amsdutx s k;
         if framelen b + ETHER_HDR = amsdu_max_len e x \<or> amsdunum b = sub_max then flush_aggr e k s else Some s }
       else do { s \<leftarrow> flush_aggr e k s; tmp_add k x (tmp_drop k s) } } }"

text \<open>The task takes the queues one after the other, until one keeps a frame back; that one is sent when it has waited long
  enough.\<close>

definition drain_msdus :: "amsdu_env \<Rightarrow> amsdu_key \<Rightarrow> amsdu_sys \<Rightarrow> amsdu_sys option" where
  "drain_msdus e k s =
     foldo (\<lambda>x s. do {
         s \<leftarrow> wifi_mac_amsdu_ex e x (upd_at k (\<lambda>a. a\<lparr>at_msdus := tl (at_msdus a)\<rparr>) s);
         Some (s\<lparr>free_nodes := free_nodes s + 1\<rparr>) }) (at_msdus (amsdutx s k)) s"

fun tasklet_loop :: "amsdu_env \<Rightarrow> amsdu_key list \<Rightarrow> amsdu_key option \<Rightarrow> amsdu_sys \<Rightarrow> (amsdu_key option \<times> amsdu_sys) option" where
  "tasklet_loop e [] l s = Some (l, s)"
| "tasklet_loop e (k # ks) l s = do {
     s \<leftarrow> drain_msdus e k s;
     if amsdunum (amsdutx s k) = 0
     then tasklet_loop e ks (Some k) (upd_at k (\<lambda>a. a\<lparr>b_work := False\<rparr>) (s\<lparr>wm_amsdu_txq := ks\<rparr>))
     else Some (Some k, s) }"

definition wifi_mac_amsdu_tasklet :: "amsdu_env \<Rightarrow> amsdu_sys \<Rightarrow> amsdu_sys option" where
  "wifi_mac_amsdu_tasklet e s = do {
     (l, s) \<leftarrow> tasklet_loop e (wm_amsdu_txq s) None s;
     let s = am_emit (map Complete_wbuf (free_amsdu_list s))
               (s\<lparr>free_amsdu_list := [], free_nodes := free_nodes s + length (free_amsdu_list s)\<rparr>);
     (case l of
        None \<Rightarrow> Some s
      | Some k \<Rightarrow> if 0 < amsdunum (amsdutx s k) \<and> amsdu_expired e (amsdutx s k) then flush_aggr e k s else Some s) }"

text \<open>False when the caller has to send the frame itself.\<close>

definition wifi_mac_amsdu_send :: "amsdu_env \<Rightarrow> skb \<Rightarrow> amsdu_sys \<Rightarrow> (bool \<times> amsdu_sys) option" where
  "wifi_mac_amsdu_send e x s =
     (if \<not> am_attached e (sk_sta x) \<or> am_fragthreshold e (sk_sta x) < FRAGMT_THRESHOLD_MAX \<or> \<not> am_opmode_ok e (sk_sta x)
         \<or> free_nodes s = 0 then Some (False, s)
      else if NUM_TID \<le> sk_tid x then None
      else do {
        let k = skb_key x; let t = sk_tid x;
        let s = upd_at k (\<lambda>a. a\<lparr>at_msdus := at_msdus a @ [x]\<rparr>)
                  (s\<lparr>free_nodes := free_nodes s - 1, msdu_cnt := (msdu_cnt s)(t := msdu_cnt s t + 1)\<rparr>);
        let s = (if b_work (amsdutx s k) then s else upd_at k (\<lambda>a. a\<lparr>b_work := True\<rparr>) (s\<lparr>wm_amsdu_txq := wm_amsdu_txq s @ [k]\<rparr>));
        s \<leftarrow> (if 1 < msdu_cnt s t then wifi_mac_amsdu_tasklet e s else Some (s\<lparr>tasklet_scheduled := True\<rparr>));
        Some (True, s) })"

definition run_amsdu_tasklet :: "amsdu_env \<Rightarrow> amsdu_sys \<Rightarrow> amsdu_sys option" where
  "run_amsdu_tasklet e s = wifi_mac_amsdu_tasklet e (s\<lparr>tasklet_scheduled := False\<rparr>)"

section \<open>Freeing the queues of an interface\<close>

definition uncount :: "nat \<Rightarrow> int \<Rightarrow> amsdu_sys \<Rightarrow> amsdu_sys" where
  "uncount t n s = s\<lparr>msdu_cnt := (msdu_cnt s)(t := max 0 (msdu_cnt s t - n))\<rparr>"

text \<open>A node for a buffer that waits to be freed: without one the buffer is lost.\<close>

definition to_free :: "skb \<Rightarrow> amsdu_sys \<Rightarrow> amsdu_sys option" where
  "to_free b s = (if free_nodes s = 0 then None
     else Some (s\<lparr>free_nodes := free_nodes s - 1, free_amsdu_list := free_amsdu_list s @ [b]\<rparr>))"

definition free_msdus :: "amsdu_key \<Rightarrow> amsdu_sys \<Rightarrow> amsdu_sys" where
  "free_msdus k s =
     upd_at k (\<lambda>a. a\<lparr>at_msdus := []\<rparr>)
       (foldl (\<lambda>s x. uncount (sk_tid x) 1 (s\<lparr>free_amsdu_list := free_amsdu_list s @ [x]\<rparr>)) s (at_msdus (amsdutx s k)))"

fun free_tmp :: "amsdu_key \<Rightarrow> nat \<Rightarrow> amsdu_sys \<Rightarrow> amsdu_sys option" where
  "free_tmp k 0 s = Some s"
| "free_tmp k (Suc n) s =
     (case nth_opt (msdu_tmp_buf (amsdutx s k)) n of
        None \<Rightarrow> None
      | Some b \<Rightarrow>
         (let s = upd_at k (\<lambda>a. a\<lparr>amsdunum := n, msdu_tmp_buf := (msdu_tmp_buf a)[n := None]\<rparr>) s in
          case b of
            None \<Rightarrow> free_tmp k n s
          | Some x \<Rightarrow> (case to_free x s of None \<Rightarrow> Some s | Some s \<Rightarrow> free_tmp k n (uncount (sk_tid x) 1 s))))"

text \<open>The pass over the queues; the other interfaces keep theirs.  The length of the frames that are dropped is not reset.\<close>

fun free_queues :: "nat \<Rightarrow> amsdu_key list \<Rightarrow> amsdu_key list \<Rightarrow> amsdu_sys \<Rightarrow> amsdu_sys option" where
  "free_queues vid [] keep s = Some (s\<lparr>wm_amsdu_txq := keep\<rparr>)"
| "free_queues vid (k # ks) keep s =
     (if at_vid (amsdutx s k) \<noteq> vid \<and> vid \<noteq> 3 then free_queues vid ks (keep @ [k]) s
      else
        let b = amsdu_tx_buf (amsdutx s k); s = upd_at k (\<lambda>a. a\<lparr>b_work := False, amsdu_tx_buf := None\<rparr>) s in
        case (case b of None \<Rightarrow> Some s
              | Some x \<Rightarrow> map_option (uncount (sk_tid x) (if sk_amsdu x then int (sk_num x) else 1)) (to_free x s)) of
          None \<Rightarrow> Some (s\<lparr>wm_amsdu_txq := ks @ keep\<rparr>)
        | Some s \<Rightarrow> (let s = free_msdus k s in
            case free_tmp k (amsdunum (amsdutx s k)) s of None \<Rightarrow> None | Some s \<Rightarrow> free_queues vid ks keep s))"

definition wifi_mac_txamsdu_free_all :: "nat \<Rightarrow> amsdu_sys \<Rightarrow> amsdu_sys option" where
  "wifi_mac_txamsdu_free_all vid s = free_queues vid (wm_amsdu_txq s) [] s"

section \<open>Attaching\<close>

definition wifi_mac_msdu_list_init :: "nat \<Rightarrow> nat" where
  "wifi_mac_msdu_list_init num = min num (MAX_MSDU_CNT * NUM_TID)"

definition wifi_mac_amsdu_attach :: "amsdu_sys \<Rightarrow> amsdu_sys" where
  "wifi_mac_amsdu_attach s = s\<lparr>wm_amsdu_txq := [], free_amsdu_list := [], tasklet_scheduled := False,
     msdu_cnt := (\<lambda>t. if t < NUM_TID then 0 else msdu_cnt s t), free_nodes := wifi_mac_msdu_list_init (MAX_MSDU_CNT * NUM_TID)\<rparr>"

text \<open>A station gets its queues from zeroed memory, and the maximal length from the capabilities.\<close>

definition amsdu_length_for :: "bool \<Rightarrow> bool \<Rightarrow> bool \<Rightarrow> nat" where
  "amsdu_length_for mpdu_11454 mpdu_7991 ht_max =
     min (min 7935 (if mpdu_11454 then 11451 else if mpdu_7991 then 7991 else 3895)) (if ht_max then 7935 else 3839)"

definition amsdu_tx_zero :: "nat \<Rightarrow> amsdu_tx" where
  "amsdu_tx_zero vid = \<lparr>amsdu_tx_buf = None, b_work = False, amsdunum = 0, framelen = 0, at_msdus = [], in_time = 0,
     msdu_tmp_buf = replicate (SUB_MAX_BW80 * 2) None, at_vid = vid\<rparr>"

definition wifi_mac_alloc_amsdu_node :: "nat \<Rightarrow> nat \<Rightarrow> amsdu_sys \<Rightarrow> amsdu_sys" where
  "wifi_mac_alloc_amsdu_node vid sta s =
     s\<lparr>amsdutx := (\<lambda>k. if fst k = sta \<and> snd k < NUM_TID then amsdu_tx_zero vid else amsdutx s k)\<rparr>"

section \<open>Taking an A-MSDU apart\<close>

text \<open>The header of a subframe and its LLC header become an Ethernet header; what the LLC header says is not looked at.\<close>

definition wifi_mac_amsdu_subframe_decap :: "u8 list \<Rightarrow> u8 list option" where
  "wifi_mac_amsdu_subframe_decap m =
     (if length m < ETHER_HDR + LLC_SNAPFRAMELEN then None
      else Some (take 12 m @ take 2 (drop 20 m) @ drop (ETHER_HDR + LLC_SNAPFRAMELEN) m))"

definition be16 :: "u8 \<Rightarrow> u8 \<Rightarrow> nat" where "be16 a b = unat a * 256 + unat b"

text \<open>\<open>clone\<close> says for the remaining length whether a copy can be made.  The result are the frames for the kernel.\<close>

function amsdu_loop :: "(nat \<Rightarrow> bool) \<Rightarrow> u8 list \<Rightarrow> u8 list list option" where
  "amsdu_loop clone m =
     (if length m < ETHER_HDR then Some []
      else
        let l = be16 (m ! 12) (m ! 13); n = l + ETHER_HDR in
        if l < LLC_SNAPFRAMELEN then Some []
        else if length m = n then map_option (\<lambda>f. [f]) (wifi_mac_amsdu_subframe_decap m)
        else if length m < roundup4 n \<or> \<not> clone (length m) then Some []
        else do {
          f \<leftarrow> wifi_mac_amsdu_subframe_decap m;
          fs \<leftarrow> amsdu_loop clone (drop (roundup4 n) m);
          Some (take (n - LLC_SNAPFRAMELEN) f # fs) })"
  by pat_completeness auto
termination
  by (relation "measure (\<lambda>(c, m). length m)") (auto simp: roundup4_def ETHER_HDR_def LLC_SNAPFRAMELEN_def)

declare amsdu_loop.simps [simp del]

text \<open>The buffer starts with an Ethernet header that is dropped.\<close>

definition wifi_mac_amsdu_input :: "(nat \<Rightarrow> bool) \<Rightarrow> u8 list \<Rightarrow> u8 list list option" where
  "wifi_mac_amsdu_input clone m = (if length m < ETHER_HDR then None else amsdu_loop clone (drop ETHER_HDR m))"

end
