(* ===== verification/AmsduInv.thy ===== *)
theory AmsduInv
  imports Amsdu
begin

text \<open>
  The A-MSDU path as a queue: what an A-MSDU looks like, that a receiver gets the frames back, and what each operation
  does to the frames of a queue.
\<close>

section \<open>The layout of an A-MSDU\<close>

lemma roundup4_bounds: "n \<le> roundup4 n" "roundup4 n < n + 4" "4 dvd roundup4 n"
  by (auto simp: roundup4_def)

lemma roundup4_add: "4 dvd a \<Longrightarrow> roundup4 (a + x) = a + roundup4 x"
proof -
  assume "4 dvd a"
  then obtain k where "a = 4 * k" by (rule dvdE)
  moreover have "(4 * k + (x + 3)) div 4 = k + (x + 3) div 4" by presburger
  ultimately show ?thesis by (simp add: roundup4_def add.assoc distrib_right)
qed

lemma roundup4_dvd: "4 dvd a \<Longrightarrow> roundup4 a = a"
  by (auto simp: roundup4_def elim!: dvdE)

text \<open>A frame that can be aggregated: it has an Ethernet header, and its subframe a length of 16 bits.\<close>

definition frame_ok :: "u8 list \<Rightarrow> bool" where "frame_ok m \<longleftrightarrow> ETHER_HDR \<le> length m \<and> length m \<le> 65000"

definition subframe :: "u8 list \<Rightarrow> u8 list" where
  "subframe m = take 12 m @ be16_bytes (of_nat (length m + LLC_SNAPFRAMELEN) - of_nat ETHER_HDR) @ llc_snap @ take 2 (drop 12 m) @ drop ETHER_HDR m"

lemma subframe_length: "frame_ok m \<Longrightarrow> length (subframe m) = length m + LLC_SNAPFRAMELEN"
  by (auto simp: subframe_def frame_ok_def be16_bytes_def llc_snap_def ETHER_HDR_def LLC_SNAPFRAMELEN_def)

lemma be16_of_bytes: "be16 (be16_bytes w ! 0) (be16_bytes w ! 1) = unat w"
proof -
  have "unat (ucast (drop_bit 8 w) :: u8) = unat w div 256"
  proof -
    have "unat w < 2 ^ LENGTH(16)" by (rule unsigned_less)
    then have "unat w div 256 < 256" by simp
    then show ?thesis by (simp add: unsigned_ucast_eq unat_drop_bit_eq drop_bit_eq_div [where 'a = nat] take_bit_eq_mod)
  qed
  moreover have "unat (ucast w :: u8) = unat w mod 256" by (simp add: unsigned_ucast_eq take_bit_eq_mod)
  ultimately show ?thesis by (simp add: be16_def be16_bytes_def)
qed

lemma subframe_len_field:
  assumes "frame_ok m"
  shows "be16 (subframe m ! 12) (subframe m ! 13) = length m + LLC_SNAPFRAMELEN - ETHER_HDR"
proof -
  let ?w = "of_nat (length m + LLC_SNAPFRAMELEN) - of_nat ETHER_HDR :: u16"
  have l: "12 \<le> length m" using assms by (simp add: frame_ok_def ETHER_HDR_def)
  have sf: "subframe m ! 12 = be16_bytes ?w ! 0" "subframe m ! 13 = be16_bytes ?w ! 1"
    using l by (simp_all add: subframe_def nth_append be16_bytes_def)
  have "?w = of_nat (length m + LLC_SNAPFRAMELEN - ETHER_HDR)"
    using assms by (simp add: frame_ok_def of_nat_diff)
  moreover have "length m + LLC_SNAPFRAMELEN - ETHER_HDR < 2 ^ LENGTH(16)"
    using assms unfolding frame_ok_def LLC_SNAPFRAMELEN_def ETHER_HDR_def by (simp, arith)
  ultimately have "unat ?w = length m + LLC_SNAPFRAMELEN - ETHER_HDR" by (simp only: unat_of_nat mod_less)
  then show ?thesis unfolding sf be16_of_bytes .
qed

lemma subframe_decap:
  assumes "frame_ok m"
  shows "\<exists>f. wifi_mac_amsdu_subframe_decap (subframe m @ r) = Some f \<and> take (length m) f = m \<and> (r = [] \<longrightarrow> f = m)"
proof -
  have l: "14 \<le> length m" using assms by (simp add: frame_ok_def ETHER_HDR_def)
  have "take 12 (subframe m @ r) = take 12 m" using l by (simp add: subframe_def)
  moreover have "take 2 (drop 20 (subframe m @ r)) = take 2 (drop 12 m)"
    using l by (simp add: subframe_def be16_bytes_def llc_snap_def)
  moreover have "drop 22 (subframe m @ r) = drop 14 m @ r"
    using l by (simp add: subframe_def be16_bytes_def llc_snap_def ETHER_HDR_def)
  moreover have "take 12 m @ take 2 (drop 12 m) @ drop 14 m = m"
    using append_take_drop_id [of 12 m] append_take_drop_id [of 2 "drop 12 m"] by simp
  ultimately have "wifi_mac_amsdu_subframe_decap (subframe m @ r) = Some (m @ r)"
    using subframe_length [OF assms] l by (simp add: wifi_mac_amsdu_subframe_decap_def ETHER_HDR_def LLC_SNAPFRAMELEN_def)
  then show ?thesis by simp
qed

text \<open>The subframes of a list of frames: all but the last are padded.\<close>

inductive amsdu_body :: "u8 list list \<Rightarrow> u8 list \<Rightarrow> bool" where
  body_last: "frame_ok m \<Longrightarrow> amsdu_body [m] (subframe m)"
| body_more: "frame_ok m \<Longrightarrow> length pad = roundup4 (length (subframe m)) - length (subframe m) \<Longrightarrow> amsdu_body ms b
     \<Longrightarrow> amsdu_body (m # ms) (subframe m @ pad @ b)"

lemma body_snoc:
  assumes "amsdu_body ms b" "frame_ok m" "length pad = roundup4 (length b) - length b"
  shows "amsdu_body (ms @ [m]) (b @ pad @ subframe m)"
  using assms
proof (induction ms b rule: amsdu_body.induct)
  case (body_last m')
  then show ?case by (auto intro: amsdu_body.intros)
next
  case (body_more m' pad' ms b)
  let ?r = "roundup4 (length (subframe m'))"
  have sp: "length (subframe m') + length pad' = ?r" using body_more(2) roundup4_bounds(1) [of "length (subframe m')"] by simp
  have "length (subframe m' @ pad' @ b) = ?r + length b" unfolding length_append using sp by simp
  then have "length pad = roundup4 (?r + length b) - (?r + length b)" using body_more.prems(2) by (simp only:)
  then have "length pad = roundup4 (length b) - length b" unfolding roundup4_add [OF roundup4_bounds(3)] by simp
  with body_more.IH body_more.prems(1) have "amsdu_body (ms @ [m]) (b @ pad @ subframe m)" by blast
  from amsdu_body.body_more [OF body_more(1,2) this] show ?case by simp
qed

lemma body_split: "amsdu_body ms b \<Longrightarrow> amsdu_loop (\<lambda>_. True) b = Some ms"
proof (induction ms b rule: amsdu_body.induct)
  case (body_last m)
  have l: "length (subframe m) = length m + 8" "14 \<le> length m"
    using subframe_length [OF body_last] body_last by (simp_all add: frame_ok_def LLC_SNAPFRAMELEN_def ETHER_HDR_def)
  from subframe_decap [OF body_last, of "[]"] have "wifi_mac_amsdu_subframe_decap (subframe m) = Some m" by auto
  with subframe_len_field [OF body_last] l show ?case
    by (subst amsdu_loop.simps) (simp add: Let_def LLC_SNAPFRAMELEN_def ETHER_HDR_def)
next
  case (body_more m pad ms b)
  have l: "length (subframe m) = length m + 8" "14 \<le> length m"
    using subframe_length [OF body_more(1)] body_more(1) by (simp_all add: frame_ok_def LLC_SNAPFRAMELEN_def ETHER_HDR_def)
  let ?m = "subframe m @ pad @ b"
  define M where "M = ?m"
  have n: "be16 (M ! 12) (M ! 13) = length m + 8 - 14"
    using subframe_len_field [OF body_more(1)] l by (simp add: M_def nth_append LLC_SNAPFRAMELEN_def ETHER_HDR_def)
  have sl: "22 \<le> length (subframe x)" if "frame_ok x" for x
    using subframe_length [OF that] that by (simp add: frame_ok_def LLC_SNAPFRAMELEN_def ETHER_HDR_def)
  have b: "22 \<le> length b" using body_more(3) by (cases rule: amsdu_body.cases) (auto dest: sl)
  have r: "length (subframe m @ pad) = roundup4 (length m + 8)"
    using body_more(2) roundup4_bounds(1) [of "length (subframe m)"] l by simp
  then have d: "drop (roundup4 (length m + 8)) M = b" unfolding M_def by (metis append.assoc append_eq_conv_conj)
  from subframe_decap [OF body_more(1), of "pad @ b"] obtain f where
    f: "wifi_mac_amsdu_subframe_decap M = Some f" "take (length m) f = m" unfolding M_def by blast
  have len: "length M = roundup4 (length m + 8) + length b" using r by (simp add: M_def)
  have lt: "length m + 8 \<le> roundup4 (length m + 8)" by (rule roundup4_bounds)
  have s: "length m + 8 - 14 + 14 = length m + 8" using l by simp
  have "amsdu_loop (\<lambda>_. True) M = Some (m # ms)"
    by (subst amsdu_loop.simps, unfold Let_def LLC_SNAPFRAMELEN_def ETHER_HDR_def n s)
      (use l b len lt in \<open>simp add: f d body_more.IH\<close>)
  then show ?case by (simp add: M_def)
qed

lemma body_length: "amsdu_body ms b \<Longrightarrow> roundup4 (length b) = sum_list (map (\<lambda>m. SUBFRAME_TOTAL_LEN (length m)) ms)"
proof (induction ms b rule: amsdu_body.induct)
  case (body_last m)
  then show ?case by (simp add: subframe_length SUBFRAME_TOTAL_LEN_def)
next
  case (body_more m pad ms b)
  let ?r = "roundup4 (length (subframe m))"
  have "length (subframe m @ pad @ b) = ?r + length b"
    using body_more(2) roundup4_bounds(1) [of "length (subframe m)"] by simp
  then have "roundup4 (length (subframe m @ pad @ b)) = ?r + roundup4 (length b)" by (simp only: roundup4_add [OF roundup4_bounds(3)])
  then show ?case using body_more.IH subframe_length [OF body_more(1)] by (simp add: SUBFRAME_TOTAL_LEN_def)
qed

section \<open>Building it\<close>

lemma ether_type_ok:
  assumes "frame_ok m"
  shows "ether_type m = Some (m ! 12, m ! 13)" "take 2 (drop 12 m) = [m ! 12, m ! 13]"
proof -
  have l: "12 < length m" "13 < length m" using assms by (simp_all add: frame_ok_def ETHER_HDR_def)
  show "ether_type m = Some (m ! 12, m ! 13)" using l by (simp add: ether_type_def)
  have "drop 12 m = m ! 12 # drop (Suc 12) m" "drop 13 m = m ! 13 # drop (Suc 13) m"
    using l by (simp_all only: Cons_nth_drop_Suc)
  then have "drop 12 m = m ! 12 # m ! 13 # drop 14 m" by simp
  then show "take 2 (drop 12 m) = [m ! 12, m ! 13]" by (simp add: numeral_2_eq_2)
qed

lemma encap_result:
  assumes "frame_ok m" "length buf' + (length m + LLC_SNAPFRAMELEN) \<le> cap"
    and "buf' = (if prepend then take ETHER_HDR m
         else buf @ map (\<lambda>i. mem (length buf + i))
                [0..<unat (of_nat (roundup4 (length buf - ETHER_HDR)) - of_nat (length buf - ETHER_HDR) :: u16)])"
  shows "wifi_mac_amsdu_encap mem cap buf m prepend = Some (buf' @ subframe m)"
proof -
  have "unat (of_nat (length m + LLC_SNAPFRAMELEN) :: u16) = length m + LLC_SNAPFRAMELEN"
  proof -
    have "length m + LLC_SNAPFRAMELEN < 2 ^ LENGTH(16)" using assms(1) by (simp add: frame_ok_def LLC_SNAPFRAMELEN_def)
    then show ?thesis by (simp only: unat_of_nat mod_less)
  qed
  note n = this
  have "take 12 m @ be16_bytes (of_nat (length m + LLC_SNAPFRAMELEN) - of_nat ETHER_HDR) @ llc_snap
      @ [fst (m ! 12, m ! 13), snd (m ! 12, m ! 13)] @ drop ETHER_HDR m = subframe m"
    by (simp add: subframe_def ether_type_ok(2) [OF assms(1)])
  then have "wifi_mac_amsdu_encap mem cap buf m prepend =
      (if cap < length buf' + length (subframe m) then None
       else Some (take (length buf' + (length m + LLC_SNAPFRAMELEN)) (buf' @ subframe m)))"
    unfolding wifi_mac_amsdu_encap_def ether_type_ok(1) [OF assms(1)] Let_def assms(3) [symmetric] Option.bind.bind_lunit
    by (simp only: n)
  then show ?thesis using assms(2) subframe_length [OF assms(1)] by simp
qed

lemma pad_length: "unat (of_nat (roundup4 n) - of_nat n :: u16) = roundup4 n - n"
proof -
  have "(of_nat (roundup4 n) - of_nat n :: u16) = of_nat (roundup4 n - n)" using roundup4_bounds(1) [of n] by (simp add: of_nat_diff)
  moreover have "roundup4 n - n < 65536" using roundup4_bounds(2) [of n] by arith
  then have "roundup4 n - n < 2 ^ LENGTH(16)" by simp
  ultimately show ?thesis by (simp only: unat_of_nat mod_less)
qed

definition msdu_ok :: "skb \<Rightarrow> bool" where "msdu_ok x \<longleftrightarrow> frame_ok (sk_data x) \<and> \<not> sk_amsdu x \<and> sk_infos x \<noteq> []"

abbreviation total_len :: "skb list \<Rightarrow> nat" where
  "total_len xs \<equiv> sum_list (map (\<lambda>x. SUBFRAME_TOTAL_LEN (length (sk_data x))) xs)"

lemma put_info_length: "put_info p xs = Some ys \<Longrightarrow> length ys = length xs + 1"
  by (auto simp: put_info_def split: if_splits list.splits)

lemma put_info_Some: "length xs < SUB_MAX \<Longrightarrow> put_info p xs \<noteq> None"
  by (simp add: put_info_def)

lemma aggr_fold:
  assumes "xs \<noteq> []" "length xs \<le> SUB_MAX" "\<forall>x \<in> set xs. msdu_ok x" "ETHER_HDR + total_len xs \<le> cap"
  shows "\<exists>y b. foldo (aggr_step mem cap) (map Some xs) None = Some (Some y) \<and> sk_data y = take ETHER_HDR (sk_data (hd xs)) @ b
    \<and> amsdu_body (map sk_data xs) b \<and> length (sk_infos y) = length xs \<and> sk_amsdu y \<and> skb_key y = skb_key (hd xs)"
  using assms
proof (induction xs rule: rev_induct)
  case (snoc x xs)
  have x: "frame_ok (sk_data x)" "sk_infos x \<noteq> []" using snoc.prems(3) by (auto simp: msdu_ok_def)
  then obtain p where p: "nth_opt (sk_infos x) 0 = Some p" by (cases "sk_infos x") (auto simp: nth_opt_def)
  have total: "length (sk_data x) + LLC_SNAPFRAMELEN \<le> SUBFRAME_TOTAL_LEN (length (sk_data x))"
    unfolding SUBFRAME_TOTAL_LEN_def by (rule roundup4_bounds)
  show ?case
  proof (cases "xs = []")
    case True
    have "wifi_mac_amsdu_encap mem cap [] (sk_data x) True = Some (take ETHER_HDR (sk_data x) @ subframe (sk_data x))"
      by (rule encap_result [where buf' = "take ETHER_HDR (sk_data x)", OF x(1)])
        (use total snoc.prems(4) True x(1) in \<open>simp_all add: frame_ok_def\<close>)
    moreover obtain i where i: "put_info p [] = Some i" "length i = 1"
      using put_info_Some [of "[]" p] put_info_length [of p "[]"] by (auto simp: SUB_MAX_def)
    ultimately show ?thesis using True p x(1) by (auto simp: aggr_step_def skb_key_def intro: body_last)
  next
    case False
    from snoc.IH [OF this] snoc.prems obtain y b where y: "foldo (aggr_step mem cap) (map Some xs) None = Some (Some y)"
      "sk_data y = take ETHER_HDR (sk_data (hd xs)) @ b" "amsdu_body (map sk_data xs) b" "length (sk_infos y) = length xs" "sk_amsdu y"
      "skb_key y = skb_key (hd xs)" by auto
    have hd: "length (take ETHER_HDR (sk_data (hd xs))) = ETHER_HDR"
      using False snoc.prems(3) hd_in_set [OF False] by (auto simp: msdu_ok_def frame_ok_def)
    have lb: "length (sk_data y) - ETHER_HDR = length b" using y(2) hd by simp
    define pad where "pad = map (\<lambda>i. mem (length (sk_data y) + i)) [0..<roundup4 (length b) - length b]"
    have padl: "length pad = roundup4 (length b) - length b" by (simp add: pad_def)
    have fit: "length (sk_data y @ pad) + (length (sk_data x) + LLC_SNAPFRAMELEN) \<le> cap"
      using y(2) hd padl roundup4_bounds(1) [of "length b"] body_length [OF y(3)] total snoc.prems(4) by (simp add: comp_def)
    have e: "wifi_mac_amsdu_encap mem cap (sk_data y) (sk_data x) False = Some ((sk_data y @ pad) @ subframe (sk_data x))"
      by (rule encap_result [OF x(1) fit]) (simp add: lb pad_length pad_def)
    have "length (sk_infos y) < SUB_MAX" using y(4) snoc.prems(2) by simp
    then obtain i where i: "put_info p (sk_infos y) = Some i" "length i = length xs + 1"
      using put_info_Some [of "sk_infos y" p] put_info_length [of p "sk_infos y"] y(4) by auto
    have "amsdu_body (map sk_data xs @ [sk_data x]) (b @ pad @ subframe (sk_data x))" by (rule body_snoc [OF y(3) x(1) padl])
    moreover have "aggr_step mem cap (Some x) (Some y) =
        Some (Some (y\<lparr>sk_data := (sk_data y @ pad) @ subframe (sk_data x), sk_infos := i\<rparr>))"
      by (simp add: aggr_step_def p e i(1) del: append_assoc)
    then have "foldo (aggr_step mem cap) (map Some (xs @ [x])) None =
        Some (Some (y\<lparr>sk_data := (sk_data y @ pad) @ subframe (sk_data x), sk_infos := i\<rparr>))"
      by (simp only: map_append list.map foldo_append y(1) foldo.simps option.case)
    ultimately show ?thesis using y i(2) False by (auto simp: skb_key_def)
  qed
qed simp

section \<open>What is in a queue\<close>

definition held :: "amsdu_tx \<Rightarrow> skb list" where "held a = somes (take (amsdunum a) (msdu_tmp_buf a))"

definition queue_ok :: "amsdu_key \<Rightarrow> amsdu_tx \<Rightarrow> bool" where
  "queue_ok k a \<longleftrightarrow> amsdu_tx_buf a = None \<and> length (msdu_tmp_buf a) = 8 \<and> amsdunum a \<le> SUB_MAX
     \<and> take (amsdunum a) (msdu_tmp_buf a) = map Some (held a) \<and> framelen a = total_len (held a)
     \<and> (\<forall>x \<in> set (held a) \<union> set (at_msdus a). msdu_ok x \<and> skb_key x = k)"

definition env_ok :: "amsdu_env \<Rightarrow> bool" where
  "env_ok e \<longleftrightarrow> (\<forall>n. am_alloc e n) \<and> (\<forall>b. am_encap e b \<and> am_txinfo e b)"

text \<open>The frames a receiver gets from a buffer.\<close>

definition contents :: "skb \<Rightarrow> u8 list list" where
  "contents b = (if sk_amsdu b then the (wifi_mac_amsdu_input (\<lambda>_. True) (sk_data b)) else [sk_data b])"

fun sent :: "amsdu_key \<Rightarrow> amsdu_event list \<Rightarrow> u8 list list" where
  "sent k [] = []"
| "sent k (Tx_start b # es) = (if skb_key b = k then contents b else []) @ sent k es"
| "sent k (_ # es) = sent k es"

lemma sent_append [simp]: "sent k (xs @ ys) = sent k xs @ sent k ys"
  by (induction xs rule: sent.induct) simp_all

lemma sent_complete [simp]: "sent k (map Complete_wbuf xs) = []"
  by (induction xs) simp_all

lemma held_length: "queue_ok k a \<Longrightarrow> length (held a) = amsdunum a"
proof -
  assume q: "queue_ok k a"
  then have "length (take (amsdunum a) (msdu_tmp_buf a)) = length (held a)" by (simp add: queue_ok_def)
  then show ?thesis using q by (simp add: queue_ok_def SUB_MAX_def)
qed

lemma held_zero [simp]: "held (a\<lparr>amsdunum := 0, framelen := n, msdu_tmp_buf := t\<rparr>) = []" "amsdunum a = 0 \<Longrightarrow> held a = []"
  by (simp_all add: held_def)

lemma other_fields [simp]:
  "held (a\<lparr>in_time := t\<rparr>) = held a" "queue_ok k (a\<lparr>in_time := t\<rparr>) = queue_ok k a"
  "held (a\<lparr>b_work := w\<rparr>) = held a" "queue_ok k (a\<lparr>b_work := w\<rparr>) = queue_ok k a"
  "held (a\<lparr>at_msdus := xs\<rparr>) = held a"
  by (simp_all add: held_def queue_ok_def)

text \<open>All queues are well formed; the frames of a queue that were sent or are held; how an operation moves frames of one queue
  into them.\<close>

definition good :: "amsdu_sys \<Rightarrow> bool" where "good s \<longleftrightarrow> (\<forall>k. queue_ok k (amsdutx s k))"

definition passed :: "amsdu_key \<Rightarrow> amsdu_sys \<Rightarrow> u8 list list" where
  "passed k s = sent k (am_log s) @ map sk_data (held (amsdutx s k))"

definition waiting :: "amsdu_key \<Rightarrow> amsdu_sys \<Rightarrow> skb list" where "waiting k s = at_msdus (amsdutx s k)"

definition moved :: "amsdu_key \<Rightarrow> u8 list list \<Rightarrow> amsdu_sys \<Rightarrow> amsdu_sys \<Rightarrow> bool" where
  "moved k fs s s' \<longleftrightarrow> good s' \<and> (\<forall>j. passed j s' = passed j s @ (if j = k then fs else [])) \<and> (\<forall>j. waiting j s' = waiting j s)"

lemma moved_trans: "moved k fs s s1 \<Longrightarrow> moved k gs s1 s2 \<Longrightarrow> moved k (fs @ gs) s s2"
  by (auto simp: moved_def)

lemma moved_refl: "good s \<Longrightarrow> moved k [] s s"
  by (simp add: moved_def)

lemma goodD: "good s \<Longrightarrow> queue_ok k (amsdutx s k)"
  unfolding good_def by blast

lemma goodI: "(\<And>k. queue_ok k (amsdutx s k)) \<Longrightarrow> good s"
  unfolding good_def by blast

lemma movedI:
  "good s' \<Longrightarrow> (\<And>j. passed j s' = passed j s @ (if j = k then fs else [])) \<Longrightarrow> (\<And>j. waiting j s' = waiting j s) \<Longrightarrow> moved k fs s s'"
  unfolding moved_def by blast

lemma upd_at_simps [simp]:
  "amsdutx (upd_at k f s) j = (if j = k then f (amsdutx s k) else amsdutx s j)" "am_log (upd_at k f s) = am_log s"
  "n_alloc (upd_at k f s) = n_alloc s" "msdu_cnt (upd_at k f s) = msdu_cnt s" "free_nodes (upd_at k f s) = free_nodes s"
  "wm_amsdu_txq (upd_at k f s) = wm_amsdu_txq s" "free_amsdu_list (upd_at k f s) = free_amsdu_list s"
  by (simp_all add: upd_at_def)

lemma am_emit_simps [simp]:
  "amsdutx (am_emit es s) = amsdutx s" "am_log (am_emit es s) = am_log s @ es" "free_nodes (am_emit es s) = free_nodes s"
  by (simp_all add: am_emit_def)

text \<open>Aggregating and sending what is held.\<close>

lemma tx2drvlay_sends:
  assumes "env_ok e" "amsdu_tx_buf (amsdutx s k) = Some b"
  shows "\<exists>s'. wifi_mac_amsdu_tx2drvlay e k s = Some s' \<and> am_log s' = am_log s @ [Tx_start b]
    \<and> amsdutx s' = (amsdutx s)(k := (amsdutx s k)\<lparr>amsdu_tx_buf := None\<rparr>) \<and> n_alloc s' = n_alloc s"
  using assms by (simp add: wifi_mac_amsdu_tx2drvlay_def env_ok_def Let_def upd_at_def am_emit_def)

lemma aggregate_contents:
  assumes "sk_data y = take ETHER_HDR (sk_data x) @ b" "amsdu_body ms b" "msdu_ok x" "sk_amsdu y"
  shows "wifi_mac_amsdu_input (\<lambda>_. True) (sk_data y) = Some ms" "contents y = ms"
proof -
  have "length (take ETHER_HDR (sk_data x)) = ETHER_HDR" using assms(3) by (simp add: msdu_ok_def frame_ok_def)
  then show i: "wifi_mac_amsdu_input (\<lambda>_. True) (sk_data y) = Some ms"
    using assms body_split [OF assms(2)] by (simp add: wifi_mac_amsdu_input_def)
  then show "contents y = ms" using assms(4) by (simp add: contents_def)
qed

text \<open>Held frames become one buffer from which a receiver gets them back.\<close>

lemma aggr_aggregates:
  assumes "am_alloc e (n_alloc s)" "h \<noteq> []" "length h \<le> SUB_MAX" "\<forall>x \<in> set h. msdu_ok x"
    and a: "amsdunum (amsdutx s k) = length h" "take (length h) (msdu_tmp_buf (amsdutx s k)) = map Some h"
      "length h \<le> length (msdu_tmp_buf (amsdutx s k))" "framelen (amsdutx s k) = total_len h" "amsdu_tx_buf (amsdutx s k) = None"
  shows "\<exists>y. wifi_mac_amsdu_aggr e k s = Some (True, am_emit (map Complete_wbuf h)
            (upd_at k (\<lambda>a. a\<lparr>amsdu_tx_buf := Some y, amsdunum := 0, framelen := 0,
               msdu_tmp_buf := replicate (length h) None @ drop (length h) (msdu_tmp_buf a)\<rparr>) (s\<lparr>n_alloc := n_alloc s + 1\<rparr>)))
    \<and> wifi_mac_amsdu_input (\<lambda>_. True) (sk_data y) = Some (map sk_data h) \<and> contents y = map sk_data h \<and> skb_key y = skb_key (hd h)"
proof -
  let ?a = "amsdutx s k"
  have "ETHER_HDR + total_len h \<le> amsdu_room (framelen ?a)"
    using a(4) by (simp add: amsdu_room_def ETHER_HDR_def AMSDU_BUFFER_HEADROOM_def)
  from aggr_fold [OF assms(2-4) this, of "am_memory e"] obtain y b where
    y: "foldo (aggr_step (am_memory e) (amsdu_room (framelen ?a))) (map Some h) None = Some (Some y)"
      "sk_data y = take ETHER_HDR (sk_data (hd h)) @ b" "amsdu_body (map sk_data h) b" "sk_amsdu y" "skb_key y = skb_key (hd h)" by auto
  let ?y = "y\<lparr>sk_num := length h\<rparr>"
  have "wifi_mac_amsdu_input (\<lambda>_. True) (sk_data ?y) = Some (map sk_data h)" "contents ?y = map sk_data h"
    by (rule aggregate_contents [OF _ y(3), of _ "hd h"]; use y assms(2,4) in simp)+
  moreover have "nth_opt (msdu_tmp_buf ?a) 0 = Some (Some (hd h))"
    using a(2) assms(2) by (cases h; cases "msdu_tmp_buf ?a") (auto simp: nth_opt_def)
  ultimately show ?thesis using y assms(1,2) a
    by (intro exI [of _ ?y]) (simp add: wifi_mac_amsdu_aggr_def Let_def upd_at_def skb_key_def)
qed

lemma flush_moves:
  assumes "env_ok e" "good s"
  shows "\<exists>s'. flush_aggr e k s = Some s' \<and> moved k [] s s' \<and> held (amsdutx s' k) = [] \<and> amsdunum (amsdutx s' k) = 0"
proof (cases "amsdunum (amsdutx s k) = 0")
  case True
  then show ?thesis using assms(2) by (auto simp: flush_aggr_def wifi_mac_amsdu_aggr_def Let_def intro: moved_refl)
next
  case False
  let ?a = "amsdutx s k" let ?h = "held ?a"
  note q = goodD [OF assms(2), of k]
  have h: "amsdunum ?a = length ?h" "?h \<noteq> []" using held_length [OF q] False by auto
  have t: "take (length ?h) (msdu_tmp_buf ?a) = map Some ?h" "length (msdu_tmp_buf ?a) = 8" "length ?h \<le> SUB_MAX" "length ?h \<le> 8"
    "framelen ?a = total_len ?h" "amsdu_tx_buf ?a = None" "\<forall>x \<in> set ?h. msdu_ok x \<and> skb_key x = k"
    using q by (auto simp: queue_ok_def h(1) SUB_MAX_def)
  obtain y where
    y: "wifi_mac_amsdu_aggr e k s = Some (True, am_emit (map Complete_wbuf ?h)
            (upd_at k (\<lambda>a. a\<lparr>amsdu_tx_buf := Some y, amsdunum := 0, framelen := 0,
               msdu_tmp_buf := replicate (length ?h) None @ drop (length ?h) (msdu_tmp_buf a)\<rparr>) (s\<lparr>n_alloc := n_alloc s + 1\<rparr>)))"
      "contents y = map sk_data ?h" "skb_key y = skb_key (hd ?h)"
    using aggr_aggregates [of e s ?h k] assms(1) h t by (auto simp: env_ok_def)
  let ?s = "am_emit (map Complete_wbuf ?h)
            (upd_at k (\<lambda>a. a\<lparr>amsdu_tx_buf := Some y, amsdunum := 0, framelen := 0,
               msdu_tmp_buf := replicate (length ?h) None @ drop (length ?h) (msdu_tmp_buf a)\<rparr>) (s\<lparr>n_alloc := n_alloc s + 1\<rparr>))"
  have yk: "skb_key y = k" using t(7) hd_in_set [OF h(2)] y(3) by simp
  obtain s' where s': "wifi_mac_amsdu_tx2drvlay e k ?s = Some s'" "am_log s' = am_log ?s @ [Tx_start y]"
    "amsdutx s' = (amsdutx ?s)(k := (amsdutx ?s k)\<lparr>amsdu_tx_buf := None\<rparr>)"
    using tx2drvlay_sends [OF assms(1), of ?s k y] by auto
  have "sent j (am_log s') = sent j (am_log s) @ (if j = k then map sk_data ?h else [])" for j
    using s'(2) y(2) yk by simp
  moreover have "good s'"
    using assms(2) q t(2,4) unfolding good_def by (auto simp: s'(3) queue_ok_def SUB_MAX_def)
  moreover have "waiting j s' = waiting j s" for j by (simp add: waiting_def s'(3))
  ultimately have "moved k [] s s'" by (auto simp: moved_def passed_def s'(3))
  moreover have "flush_aggr e k s = Some s'"
    unfolding flush_aggr_def y(1) by (simp only: Option.bind.bind_lunit prod.case s'(1) if_True)
  ultimately show ?thesis by (simp add: s'(3))
qed

text \<open>Holding a frame, or sending it by itself.\<close>

lemma tmp_add_moves:
  assumes "good s" "msdu_ok x" "skb_key x = k" "amsdunum (amsdutx s k) < SUB_MAX"
  shows "\<exists>s'. tmp_add k x s = Some s' \<and> moved k [sk_data x] s s'"
proof -
  let ?a = "amsdutx s k" let ?n = "amsdunum ?a"
  note q = goodD [OF assms(1), of k]
  then have l: "length (msdu_tmp_buf ?a) = 8" "take ?n (msdu_tmp_buf ?a) = map Some (held ?a)" "framelen ?a = total_len (held ?a)"
    by (simp_all add: queue_ok_def)
  have n: "?n < 8" using assms(4) by (simp add: SUB_MAX_def)
  define a where "a = ?a\<lparr>msdu_tmp_buf := (msdu_tmp_buf ?a)[?n := Some x],
    framelen := framelen ?a + SUBFRAME_TOTAL_LEN (length (sk_data x)), amsdunum := ?n + 1\<rparr>"
  have t: "take (?n + 1) ((msdu_tmp_buf ?a)[?n := Some x]) = map Some (held ?a @ [x])"
    using n l(1,2) by (simp add: take_Suc_conv_app_nth)
  then have t: "take (amsdunum a) (msdu_tmp_buf a) = map Some (held ?a @ [x])" by (simp add: a_def)
  have h: "held a = held ?a @ [x]" unfolding held_def [of a] t by (rule somes_map_Some)
  have "queue_ok k a" unfolding queue_ok_def h t
    using q assms(2-4) l(3) by (auto simp: a_def queue_ok_def)
  then have "good (upd_at k (\<lambda>_. a) s)" using assms(1) by (simp add: good_def)
  moreover have "tmp_add k x s = Some (upd_at k (\<lambda>_. a) s)" using n l(1) by (simp add: tmp_add_def Let_def a_def upd_at_def)
  ultimately show ?thesis by (simp add: moved_def passed_def waiting_def h) (simp add: a_def)
qed

lemma direct_moves:
  assumes "env_ok e" "good s" "msdu_ok x" "skb_key x = k" "held (amsdutx s k) = []"
  shows "\<exists>s'. wifi_mac_amsdu_tx2drvlay e k (upd_at k (\<lambda>a. a\<lparr>amsdu_tx_buf := Some x\<rparr>) s) = Some s' \<and> moved k [sk_data x] s s'"
proof -
  have n: "amsdu_tx_buf (amsdutx s k) = None" using goodD [OF assms(2), of k] by (simp add: queue_ok_def)
  let ?s = "upd_at k (\<lambda>a. a\<lparr>amsdu_tx_buf := Some x\<rparr>) s"
  obtain s' where s': "wifi_mac_amsdu_tx2drvlay e k ?s = Some s'" "am_log s' = am_log s @ [Tx_start x]"
    "amsdutx s' = (amsdutx ?s)(k := (amsdutx ?s k)\<lparr>amsdu_tx_buf := None\<rparr>)"
    using tx2drvlay_sends [OF assms(1), of ?s k x] by auto
  have a: "amsdutx s' = amsdutx s"
  proof
    fix j show "amsdutx s' j = amsdutx s j" using n by (cases "amsdutx s k") (simp add: s'(3))
  qed
  have "contents x = [sk_data x]" using assms(3) by (simp add: contents_def msdu_ok_def)
  then have "moved k [sk_data x] s s'" using assms(2,4,5) by (simp add: moved_def good_def a passed_def waiting_def s'(2))
  with s'(1) show ?thesis by blast
qed

lemma check_ok: "msdu_ok x \<Longrightarrow> \<exists>d. wifi_mac_amsdu_check x = Some d"
  by (cases "sk_ps x") (auto simp: wifi_mac_amsdu_check_def msdu_ok_def ether_type_ok)

lemma sub_max_le: "tx_amsdu_sub_max e x \<le> SUB_MAX"
  by (simp add: tx_amsdu_sub_max_def SUB_MAX_def SUB_MAX_BW80_def)

lemma tmp_drop_empty: "amsdunum (amsdutx s k) = 0 \<Longrightarrow> tmp_drop k s = s"
  by (simp add: tmp_drop_def SUB_MAX_BW80_def)

lemma stamp_moves: "good s \<Longrightarrow> moved k [] s (upd_at k (\<lambda>a. a\<lparr>in_time := t\<rparr>) s)"
  by (rule movedI, rule goodI) (simp_all add: passed_def waiting_def goodD)

lemma ex_moves:
  assumes "env_ok e" "good s" "msdu_ok x" "skb_key x = k"
  shows "\<exists>s'. wifi_mac_amsdu_ex e x s = Some s' \<and> moved k [sk_data x] s s'"
proof -
  obtain d where d: "wifi_mac_amsdu_check x = Some d" using check_ok [OF assms(3)] by blast
  show ?thesis
  proof (cases "AMSDU_MAX_SUBFRM_LEN < SUBFRAME_TOTAL_LEN (length (sk_data x)) \<or> d")
    case True
    obtain s1 where s1: "(if 0 < amsdunum (amsdutx s k) then flush_aggr e k s else Some s) = Some s1" "moved k [] s s1"
      "held (amsdutx s1 k) = []"
      using flush_moves [OF assms(1,2), of k] moved_refl [OF assms(2)] by (cases "0 < amsdunum (amsdutx s k)") auto
    have "good s1" using s1(2) by (simp add: moved_def)
    from direct_moves [OF assms(1) this assms(3,4) s1(3)] obtain s' where
      s': "wifi_mac_amsdu_tx2drvlay e k (upd_at k (\<lambda>a. a\<lparr>amsdu_tx_buf := Some x\<rparr>) s1) = Some s'" "moved k [sk_data x] s1 s'" by blast
    have "wifi_mac_amsdu_ex e x s = Some s'"
      unfolding wifi_mac_amsdu_ex_def Let_def assms(4) d Option.bind.bind_lunit if_P [OF True] s1(1) by (rule s'(1))
    then show ?thesis using moved_trans [OF s1(2) s'(2)] by simp
  next
    case False
    let ?s = "if amsdunum (amsdutx s k) = 0 then upd_at k (\<lambda>a. a\<lparr>in_time := am_jiffies e\<rparr>) s else s"
    let ?a = "amsdutx ?s k"
    have m: "moved k [] s ?s" using moved_refl [OF assms(2)] stamp_moves [OF assms(2)] by simp
    then have g: "good ?s" by (simp only: moved_def)
    note ex = wifi_mac_amsdu_ex_def [of e x s, unfolded Let_def assms(4) d Option.bind.bind_lunit if_not_P [OF False]]
    show ?thesis
    proof (cases "SUBFRAME_TOTAL_LEN (length (sk_data x)) + framelen ?a + ETHER_HDR \<le> amsdu_max_len e x
        \<and> amsdunum ?a + 1 \<le> tx_amsdu_sub_max e x \<and> \<not> amsdu_expired e ?a")
      case True
      then have "amsdunum ?a < SUB_MAX" using sub_max_le [of e x] by linarith
      from tmp_add_moves [OF g assms(3,4) this] obtain s1 where s1: "tmp_add k x ?s = Some s1" "moved k [sk_data x] ?s s1" by blast
      note m1 = moved_trans [OF m s1(2), unfolded append_Nil]
      have g1: "good s1" using s1(2) by (simp only: moved_def)
      from flush_moves [OF assms(1) g1, of k] obtain s2 where s2: "flush_aggr e k s1 = Some s2" "moved k [] s1 s2" by blast
      show ?thesis unfolding ex if_P [OF True] s1(1) Option.bind.bind_lunit s2(1)
        using m1 moved_trans [OF m1 s2(2), unfolded append_Nil2] by (simp split: if_split)
    next
      case False
      from flush_moves [OF assms(1) g, of k] obtain s1 where
        s1: "flush_aggr e k ?s = Some s1" "moved k [] ?s s1" "amsdunum (amsdutx s1 k) = 0" by blast
      have g1: "good s1" using s1(2) by (simp only: moved_def)
      have "amsdunum (amsdutx s1 k) < SUB_MAX" using s1(3) by (simp add: SUB_MAX_def)
      from tmp_add_moves [OF g1 assms(3,4) this] obtain s2 where s2: "tmp_add k x s1 = Some s2" "moved k [sk_data x] s1 s2" by blast
      show ?thesis unfolding ex if_not_P [OF False] s1(1) Option.bind.bind_lunit tmp_drop_empty [OF s1(3)] s2(1)
        using moved_trans [OF m moved_trans [OF s1(2) s2(2)], unfolded append_Nil] by blast
    qed
  qed
qed

section \<open>The frames of a queue, in order\<close>

definition stream :: "amsdu_key \<Rightarrow> amsdu_sys \<Rightarrow> u8 list list" where
  "stream k s = passed k s @ map sk_data (waiting k s)"

definition keeps :: "amsdu_sys \<Rightarrow> amsdu_sys \<Rightarrow> bool" where
  "keeps s s' \<longleftrightarrow> good s' \<and> (\<forall>j. stream j s' = stream j s)"

lemma keeps_trans: "keeps s s1 \<Longrightarrow> keeps s1 s2 \<Longrightarrow> keeps s s2"
  by (auto simp: keeps_def)

lemma keeps_refl: "good s \<Longrightarrow> keeps s s"
  by (simp add: keeps_def)

lemma keepsI: "good s' \<Longrightarrow> (\<And>j. stream j s' = stream j s) \<Longrightarrow> keeps s s'"
  unfolding keeps_def by blast

lemma keepsD: "keeps s s' \<Longrightarrow> good s'" "keeps s s' \<Longrightarrow> stream j s' = stream j s"
  unfolding keeps_def by blast+

lemma movedD: "moved k fs s s' \<Longrightarrow> good s'" "moved k fs s s' \<Longrightarrow> passed j s' = passed j s @ (if j = k then fs else [])"
  "moved k fs s s' \<Longrightarrow> waiting j s' = waiting j s"
  unfolding moved_def by blast+

lemma moved_keeps: "moved k [] s s' \<Longrightarrow> keeps s s'"
  by (rule keepsI) (simp_all add: movedD stream_def)

lemma mark_keeps: "good s \<Longrightarrow> keeps s (upd_at k (\<lambda>a. a\<lparr>b_work := w\<rparr>) (s\<lparr>wm_amsdu_txq := q\<rparr>))"
  by (rule keepsI, rule goodI) (simp_all add: goodD stream_def passed_def waiting_def)

lemma schedule_keeps: "good s \<Longrightarrow> keeps s (s\<lparr>tasklet_scheduled := w\<rparr>)"
  by (rule keepsI, rule goodI) (simp_all add: goodD stream_def passed_def waiting_def)

lemma pop_good:
  assumes "good s"
  shows "good (upd_at k (\<lambda>a. a\<lparr>at_msdus := tl (at_msdus a)\<rparr>) s)"
proof (rule goodI)
  fix j
  have "set (tl (at_msdus (amsdutx s k))) \<subseteq> set (at_msdus (amsdutx s k))" by (cases "at_msdus (amsdutx s k)") auto
  then show "queue_ok j (amsdutx (upd_at k (\<lambda>a. a\<lparr>at_msdus := tl (at_msdus a)\<rparr>) s) j)"
    using goodD [OF assms, of j] by (simp add: queue_ok_def) blast
qed

lemma drain_keeps:
  assumes "env_ok e" "good s"
  shows "\<exists>s'. drain_msdus e k s = Some s' \<and> keeps s s' \<and> waiting k s' = []"
proof -
  have "\<exists>s'. foldo (\<lambda>x s. do {
      s \<leftarrow> wifi_mac_amsdu_ex e x (upd_at k (\<lambda>a. a\<lparr>at_msdus := tl (at_msdus a)\<rparr>) s);
      Some (s\<lparr>free_nodes := free_nodes s + 1\<rparr>) }) xs s = Some s' \<and> keeps s s' \<and> waiting k s' = []"
    if "good s" "waiting k s = xs" for xs s using that
  proof (induction xs arbitrary: s)
    case Nil
    then show ?case by (simp add: keeps_refl)
  next
    case (Cons x xs)
    let ?s1 = "upd_at k (\<lambda>a. a\<lparr>at_msdus := tl (at_msdus a)\<rparr>) s"
    have x: "msdu_ok x" "skb_key x = k"
      using goodD [OF Cons.prems(1), of k] Cons.prems(2) by (auto simp: queue_ok_def waiting_def)
    from ex_moves [OF assms(1) pop_good [OF Cons.prems(1)] x] obtain s2 where
      s2: "wifi_mac_amsdu_ex e x ?s1 = Some s2" "moved k [sk_data x] ?s1 s2" by blast
    have w0: "waiting k ?s1 = xs" using Cons.prems(2) by (simp add: waiting_def)
    have w1: "passed j ?s1 = passed j s" "j \<noteq> k \<Longrightarrow> waiting j ?s1 = waiting j s" for j
      by (simp_all add: waiting_def passed_def)
    have st: "stream j s2 = stream j s" for j
      using movedD(2,3) [OF s2(2), of j] w1 [of j] w0 Cons.prems(2) by (cases "j = k") (simp_all add: stream_def)
    let ?s3 = "s2\<lparr>free_nodes := free_nodes s2 + 1\<rparr>"
    have eq3: "amsdutx ?s3 = amsdutx s2" "am_log ?s3 = am_log s2" by simp_all
    have k3: "keeps s ?s3"
    proof (rule keepsI)
      show "good ?s3" using movedD(1) [OF s2(2)] unfolding good_def eq3 .
      have "stream j ?s3 = stream j s2" for j by (simp only: stream_def passed_def waiting_def eq3)
      then show "stream j ?s3 = stream j s" for j by (simp only: st)
    qed
    have "waiting k ?s3 = xs" using movedD(3) [OF s2(2), of k] w0 by (simp add: waiting_def)
    from Cons.IH [OF keepsD(1) [OF k3] this] s2(1) keeps_trans [OF k3] show ?case by auto
  qed
  from this [OF assms(2) refl] show ?thesis unfolding drain_msdus_def waiting_def .
qed

lemma loop_keeps: "env_ok e \<Longrightarrow> good s \<Longrightarrow> \<exists>l' s'. tasklet_loop e ks l s = Some (l', s') \<and> keeps s s'"
proof (induction ks arbitrary: l s)
  case (Cons k ks)
  from drain_keeps [OF Cons.prems, of k] obtain s1 where s1: "drain_msdus e k s = Some s1" "keeps s s1" by blast
  show ?case
  proof (cases "amsdunum (amsdutx s1 k) = 0")
    case True
    let ?s2 = "upd_at k (\<lambda>a. a\<lparr>b_work := False\<rparr>) (s1\<lparr>wm_amsdu_txq := ks\<rparr>)"
    note k2 = mark_keeps [OF keepsD(1) [OF s1(2)], of k False ks]
    from Cons.IH [OF Cons.prems(1) keepsD(1) [OF k2], of "Some k"] keeps_trans [OF keeps_trans [OF s1(2) k2]] s1(1) True
    show ?thesis by auto
  next
    case False
    with s1 show ?thesis by simp
  qed
qed (simp add: keeps_refl)

lemma tasklet_keeps:
  assumes "env_ok e" "good s"
  shows "\<exists>s'. wifi_mac_amsdu_tasklet e s = Some s' \<and> keeps s s'"
proof -
  from loop_keeps [OF assms, of "wm_amsdu_txq s" None] obtain l s1 where
    s1: "tasklet_loop e (wm_amsdu_txq s) None s = Some (l, s1)" "keeps s s1" by blast
  let ?s2 = "am_emit (map Complete_wbuf (free_amsdu_list s1))
               (s1\<lparr>free_amsdu_list := [], free_nodes := free_nodes s1 + length (free_amsdu_list s1)\<rparr>)"
  have k2: "keeps s1 ?s2"
    by (rule keepsI, rule goodI) (use keepsD(1) [OF s1(2)] in \<open>simp_all add: goodD stream_def passed_def waiting_def\<close>)
  note k = keeps_trans [OF s1(2) k2]
  show ?thesis
  proof (cases l)
    case None
    with k s1(1) show ?thesis by (simp add: wifi_mac_amsdu_tasklet_def Let_def)
  next
    case (Some j)
    from flush_moves [OF assms(1) keepsD(1) [OF k], of j] obtain s3 where
      s3: "flush_aggr e j ?s2 = Some s3" "moved j [] ?s2 s3" by blast
    then show ?thesis using k keeps_trans [OF k moved_keeps [OF s3(2)]] s1(1) Some
      by (auto simp: wifi_mac_amsdu_tasklet_def Let_def)
  qed
qed

end
