(* ===== verification/AmsduProps.thy ===== *)
theory AmsduProps
  imports AmsduInv "HOL-Library.Code_Target_Nat"
begin

text \<open>
  What the A-MSDU path promises: a receiver gets back the frames of an aggregate; over any sequence of frames and runs of the
  task each queue is first in, first out; and what happens when memory was missing twice.
\<close>

section \<open>Sequences of operations\<close>

datatype amsdu_op = Op_send skb | Op_task

text \<open>Each operation has its environment.  The result are the frames that were accepted.\<close>

fun am_run :: "(amsdu_env \<times> amsdu_op) list \<Rightarrow> amsdu_sys \<Rightarrow> (skb list \<times> amsdu_sys) option" where
  "am_run [] s = Some ([], s)"
| "am_run ((e, Op_send x) # ops) s = do {
     (ok, s) \<leftarrow> wifi_mac_amsdu_send e x s;
     (acc, s) \<leftarrow> am_run ops s;
     Some (if ok then x # acc else acc, s) }"
| "am_run ((e, Op_task) # ops) s = do { s \<leftarrow> run_amsdu_tasklet e s; am_run ops s }"

definition amsdu_blank :: amsdu_sys where
  "amsdu_blank = \<lparr>amsdutx = (\<lambda>_. amsdu_tx_zero 0), wm_amsdu_txq = [], free_amsdu_list = [], free_nodes = 0,
     msdu_cnt = (\<lambda>_. 0), n_alloc = 0, tasklet_scheduled = False, am_log = []\<rparr>"

text \<open>The layer is attached and the stations have joined.\<close>

definition amsdu_boot :: "(nat \<times> nat) list \<Rightarrow> amsdu_sys" where
  "amsdu_boot stas = foldl (\<lambda>s (vid, sta). wifi_mac_alloc_amsdu_node vid sta s) (wifi_mac_amsdu_attach amsdu_blank) stas"

definition op_ok :: "amsdu_env \<times> amsdu_op \<Rightarrow> bool" where
  "op_ok p = (case snd p of Op_send x \<Rightarrow> msdu_ok x \<and> sk_tid x < NUM_TID | Op_task \<Rightarrow> True)"

lemma zero_ok: "queue_ok k (amsdu_tx_zero v)" "held (amsdu_tx_zero v) = []" "at_msdus (amsdu_tx_zero v) = []"
  by (simp_all add: queue_ok_def amsdu_tx_zero_def held_def SUB_MAX_BW80_def)

lemma boot_good: "good (amsdu_boot stas) \<and> (\<forall>k. stream k (amsdu_boot stas) = [])"
proof -
  define P where "P = (\<lambda>s :: amsdu_sys. am_log s = [] \<and> (\<forall>k. \<exists>v. amsdutx s k = amsdu_tx_zero v))"
  have "P (wifi_mac_alloc_amsdu_node vid sta s)" if "P s" for vid sta s
    using that unfolding P_def wifi_mac_alloc_amsdu_node_def by (cases s) auto
  then have "P (foldl (\<lambda>s (vid, sta). wifi_mac_alloc_amsdu_node vid sta s) s stas)" if "P s" for s
    using that by (induction stas arbitrary: s) auto
  moreover have "P (wifi_mac_amsdu_attach amsdu_blank)" by (auto simp: P_def wifi_mac_amsdu_attach_def amsdu_blank_def)
  ultimately have "P (amsdu_boot stas)" unfolding amsdu_boot_def by blast
  then have l: "am_log (amsdu_boot stas) = []" and z: "\<exists>v. amsdutx (amsdu_boot stas) k = amsdu_tx_zero v" for k
    unfolding P_def by blast+
  have "queue_ok k (amsdutx (amsdu_boot stas) k)" "stream k (amsdu_boot stas) = []" for k
    using z [of k] l by (auto simp: zero_ok stream_def passed_def waiting_def)
  then show ?thesis using goodI by blast
qed

lemma queue_ok_enqueue: "queue_ok k a \<Longrightarrow> msdu_ok x \<Longrightarrow> skb_key x = k \<Longrightarrow> queue_ok k (a\<lparr>at_msdus := at_msdus a @ [x]\<rparr>)"
  unfolding queue_ok_def by auto

text \<open>A frame that is accepted joins the stream of its queue, at the end.\<close>

lemma send_stream:
  assumes "env_ok e" "good s" "msdu_ok x" "sk_tid x < NUM_TID"
  shows "\<exists>ok s'. wifi_mac_amsdu_send e x s = Some (ok, s') \<and> good s'
    \<and> (\<forall>j. stream j s' = stream j s @ (if ok \<and> j = skb_key x then [sk_data x] else []))"
proof (cases "\<not> am_attached e (sk_sta x) \<or> am_fragthreshold e (sk_sta x) < FRAGMT_THRESHOLD_MAX \<or> \<not> am_opmode_ok e (sk_sta x)
         \<or> free_nodes s = 0")
  case True
  then show ?thesis using assms(2) by (intro exI [of _ False] exI [of _ s]) (simp add: wifi_mac_amsdu_send_def)
next
  case False
  let ?k = "skb_key x" let ?t = "sk_tid x"
  let ?s1 = "upd_at ?k (\<lambda>a. a\<lparr>at_msdus := at_msdus a @ [x]\<rparr>)
               (s\<lparr>free_nodes := free_nodes s - 1, msdu_cnt := (msdu_cnt s)(?t := msdu_cnt s ?t + 1)\<rparr>)"
  let ?s2 = "if b_work (amsdutx ?s1 ?k) then ?s1 else upd_at ?k (\<lambda>a. a\<lparr>b_work := True\<rparr>) (?s1\<lparr>wm_amsdu_txq := wm_amsdu_txq ?s1 @ [?k]\<rparr>)"
  have g1: "good ?s1"
  proof (rule goodI)
    fix j show "queue_ok j (amsdutx ?s1 j)"
      using goodD [OF assms(2), of j] queue_ok_enqueue [OF goodD [OF assms(2)] assms(3) refl] by (cases "j = ?k") simp_all
  qed
  have st1: "stream j ?s1 = stream j s @ (if j = ?k then [sk_data x] else [])" for j
    by (simp add: stream_def passed_def waiting_def)
  have k2: "keeps ?s1 ?s2"
  proof (cases "b_work (amsdutx ?s1 ?k)")
    case True
    then show ?thesis by (simp only: if_True keeps_refl [OF g1])
  next
    case False
    note mark_keeps [OF g1, of ?k True "wm_amsdu_txq ?s1 @ [?k]"]
    then show ?thesis by (simp only: False if_False)
  qed
  have "\<exists>s'. (if 1 < msdu_cnt ?s2 ?t then wifi_mac_amsdu_tasklet e ?s2 else Some (?s2\<lparr>tasklet_scheduled := True\<rparr>)) = Some s'
      \<and> keeps ?s2 s'"
  proof (cases "1 < msdu_cnt ?s2 ?t")
    case True
    then show ?thesis using tasklet_keeps [OF assms(1) keepsD(1) [OF k2]] by (simp only: if_True)
  next
    case False
    note schedule_keeps [OF keepsD(1) [OF k2], of True]
    then show ?thesis using False by (simp only: if_False) blast
  qed
  then obtain s' where s': "(if 1 < msdu_cnt ?s2 ?t then wifi_mac_amsdu_tasklet e ?s2 else Some (?s2\<lparr>tasklet_scheduled := True\<rparr>)) = Some s'"
    "keeps ?s2 s'" by blast
  have "wifi_mac_amsdu_send e x s = Some (True, s')"
    using assms(4) unfolding wifi_mac_amsdu_send_def if_not_P [OF False] Let_def s'(1) by simp
  moreover have "good s'" "stream j s' = stream j s @ (if True \<and> j = ?k then [sk_data x] else [])" for j
    using keepsD [OF keeps_trans [OF k2 s'(2)]] st1 by (simp_all only: simp_thms)
  ultimately show ?thesis by blast
qed

lemma run_stream:
  assumes "\<forall>p \<in> set ops. env_ok (fst p) \<and> op_ok p" "good s"
  shows "\<exists>acc s'. am_run ops s = Some (acc, s') \<and> good s' \<and> (\<forall>k. stream k s' = stream k s @ map sk_data (filter (\<lambda>x. skb_key x = k) acc))"
  using assms
proof (induction ops s rule: am_run.induct)
  case (2 e x ops s)
  then have x: "env_ok e" "msdu_ok x" "sk_tid x < NUM_TID" by (auto simp: op_ok_def)
  from send_stream [OF x(1) 2(3) x(2,3)] obtain ok s1 where s1: "wifi_mac_amsdu_send e x s = Some (ok, s1)" "good s1"
    "\<And>j. stream j s1 = stream j s @ (if ok \<and> j = skb_key x then [sk_data x] else [])" by blast
  from 2(1) [OF s1(1) refl _ s1(2)] 2(2) obtain acc s2 where s2: "am_run ops s1 = Some (acc, s2)" "good s2"
    "\<And>k. stream k s2 = stream k s1 @ map sk_data (filter (\<lambda>x. skb_key x = k) acc)" by fastforce
  show ?case using s1 s2 by (intro exI [of _ "if ok then x # acc else acc"] exI [of _ s2]) auto
next
  case (3 e ops s)
  note k = schedule_keeps [OF 3(3), of False]
  have e: "env_ok e" using 3(2) by simp
  from tasklet_keeps [OF e keepsD(1) [OF k]] obtain s1 where s1: "run_amsdu_tasklet e s = Some s1" "keeps (s\<lparr>tasklet_scheduled := False\<rparr>) s1"
    unfolding run_amsdu_tasklet_def by blast
  have st: "stream k s1 = stream k s" for k by (rule keepsD(2) [OF keeps_trans [OF k s1(2)]])
  from 3(1) [OF s1(1) _ keepsD(1) [OF s1(2)]] 3(2) s1(1) st show ?case by simp
qed simp

section \<open>An example\<close>

definition demo_frame :: "u8 \<Rightarrow> nat \<Rightarrow> skb" where
  "demo_frame c n = \<lparr>sk_data = replicate 12 7 @ [8, 0] @ replicate n c, sk_prio = 0, sk_tid = 0, sk_sta = 1, sk_ps = False,
     sk_csum = False, sk_amsdu = False, sk_num = 0,
     sk_infos = [\<lparr>b_tcp_ack_del = False, tcp_src_port = 0, tcp_dst_port = 0\<rparr>]\<rparr>"

definition demo_env :: "(nat \<Rightarrow> bool) \<Rightarrow> amsdu_env" where
  "demo_env mem_ok = \<lparr>am_alloc = mem_ok, am_encap = (\<lambda>_. True), am_txinfo = (\<lambda>_. True), am_bw80 = (\<lambda>_. False),
     amsdu_max_length = (\<lambda>_. 3839), txlist_all_qcnt = (\<lambda>_. 9), am_memory = (\<lambda>_. 0), am_hz = 100, am_jiffies = 5,
     am_attached = (\<lambda>_. True), am_fragthreshold = (\<lambda>_. 2346), am_opmode_ok = (\<lambda>_. True)\<rparr>"

abbreviation demo_ops :: "(amsdu_env \<times> amsdu_op) list" where
  "demo_ops \<equiv> [(demo_env (\<lambda>_. True), Op_send (demo_frame 1 3)), (demo_env (\<lambda>_. True), Op_send (demo_frame 2 5)),
     (demo_env (\<lambda>_. True), Op_task), (demo_env (\<lambda>_. True), Op_send (demo_frame 3 4))]"

section \<open>Properties\<close>

text \<open>C39: A receiver that takes the A-MSDU apart which was built from the held frames of a queue gets back these frames, byte for
  byte and in order.\<close>

lemma amsdu_roundtrip:
  assumes "am_alloc e (n_alloc s)" "xs \<noteq> []" "length xs \<le> SUB_MAX" "\<forall>x \<in> set xs. msdu_ok x"
    and "amsdutx s k = (amsdu_tx_zero v)\<lparr>msdu_tmp_buf := map Some xs @ replicate (8 - length xs) None, amsdunum := length xs,
           framelen := total_len xs\<rparr>"
  shows "\<exists>s' b. wifi_mac_amsdu_aggr e k s = Some (True, s') \<and> amsdu_tx_buf (amsdutx s' k) = Some b
    \<and> wifi_mac_amsdu_input (\<lambda>_. True) (sk_data b) = Some (map sk_data xs)"
proof -
  from assms(2,3,5) obtain y where
    "wifi_mac_amsdu_aggr e k s = Some (True, am_emit (map Complete_wbuf xs)
            (upd_at k (\<lambda>a. a\<lparr>amsdu_tx_buf := Some y, amsdunum := 0, framelen := 0,
               msdu_tmp_buf := replicate (length xs) None @ drop (length xs) (msdu_tmp_buf a)\<rparr>) (s\<lparr>n_alloc := n_alloc s + 1\<rparr>)))"
    "wifi_mac_amsdu_input (\<lambda>_. True) (sk_data y) = Some (map sk_data xs)"
    using aggr_aggregates [OF assms(1-4), of k] by (auto simp: amsdu_tx_zero_def)
  then show ?thesis by (intro exI conjI) (assumption, simp, assumption)
qed

lemma demo_ok: "msdu_ok (demo_frame c n) \<longleftrightarrow> n \<le> 64986" "sk_tid (demo_frame c n) = 0" "skb_key (demo_frame c n) = (1, 0)"
  by (auto simp: msdu_ok_def frame_ok_def demo_frame_def ETHER_HDR_def skb_key_def)

lemma amsdu_roundtrip_witness:
  "\<exists>s' b. wifi_mac_amsdu_aggr (demo_env (\<lambda>_. True)) (1, 0)
      (amsdu_blank\<lparr>amsdutx := (\<lambda>_. (amsdu_tx_zero 0)\<lparr>msdu_tmp_buf := map Some [demo_frame 1 3, demo_frame 2 5] @ replicate 6 None,
         amsdunum := 2, framelen := total_len [demo_frame 1 3, demo_frame 2 5]\<rparr>)\<rparr>) = Some (True, s')
    \<and> amsdu_tx_buf (amsdutx s' (1, 0)) = Some b
    \<and> wifi_mac_amsdu_input (\<lambda>_. True) (sk_data b) = Some (map sk_data [demo_frame 1 3, demo_frame 2 5])"
  by (rule amsdu_roundtrip [where v = 0]) (simp_all add: demo_env_def demo_ok SUB_MAX_def amsdu_tx_zero_def)

text \<open>C38: Over any sequence of frames and runs of the task, in which no allocation of an aggregate fails, the encapsulation and
  the transmit information of every buffer are built, and the frames have an Ethernet header, at most 65000 bytes and a traffic
  id of the table, every operation returns, and for each queue the frames the receiver gets, followed by those held for the next
  aggregate and those that wait, are the frames that were accepted, in order: under these conditions nothing is lost, duplicated or
  reordered.  (Without transmit information a buffer is freed, and after a failed allocation held frames are dropped or the next
  aggregate overflows its descriptor.)\<close>

lemma amsdu_fifo:
  assumes "\<forall>p \<in> set ops. env_ok (fst p) \<and> op_ok p"
  shows "\<exists>acc s'. am_run ops (amsdu_boot stas) = Some (acc, s')
    \<and> (\<forall>k. sent k (am_log s') @ map sk_data (held (amsdutx s' k)) @ map sk_data (at_msdus (amsdutx s' k))
         = map sk_data (filter (\<lambda>x. skb_key x = k) acc))"
proof -
  from run_stream [OF assms conjunct1 [OF boot_good], of stas] obtain acc s' where
    r: "am_run ops (amsdu_boot stas) = Some (acc, s')"
      "\<And>k. stream k s' = stream k (amsdu_boot stas) @ map sk_data (filter (\<lambda>x. skb_key x = k) acc)" by blast
  have "stream k (amsdu_boot stas) = []" for k using boot_good [of stas] by blast
  with r(2) have "sent k (am_log s') @ map sk_data (held (amsdutx s' k)) @ map sk_data (at_msdus (amsdutx s' k))
      = map sk_data (filter (\<lambda>x. skb_key x = k) acc)" for k
    by (simp add: stream_def passed_def waiting_def)
  with r(1) show ?thesis by blast
qed

lemma amsdu_fifo_witness:
  "(\<exists>acc s'. am_run demo_ops (amsdu_boot [(0, 1)]) = Some (acc, s')
    \<and> (\<forall>k. sent k (am_log s') @ map sk_data (held (amsdutx s' k)) @ map sk_data (at_msdus (amsdutx s' k))
         = map sk_data (filter (\<lambda>x. skb_key x = k) acc)))
   \<and> map_option (\<lambda>(acc, s). (length acc, sent (1, 0) (am_log s))) (am_run demo_ops (amsdu_boot [(0, 1)]))
       = Some (3, [sk_data (demo_frame 1 3), sk_data (demo_frame 2 5)])"
proof (rule conjI, rule amsdu_fifo)
  show "\<forall>p \<in> set demo_ops. env_ok (fst p) \<and> op_ok p"
    by (simp add: env_ok_def op_ok_def demo_env_def demo_ok NUM_TID_def)
qed code_simp

text \<open>Each step of the aggregation uses a slot for packet information; there are two.\<close>

lemma aggr_fold_slots:
  "foldo (aggr_step mem cap) xs y = Some z \<Longrightarrow>
    length (case z of None \<Rightarrow> [] | Some b \<Rightarrow> sk_infos b) = length (case y of None \<Rightarrow> [] | Some b \<Rightarrow> sk_infos b) + length xs
    \<and> (xs \<noteq> [] \<longrightarrow> length (case z of None \<Rightarrow> [] | Some b \<Rightarrow> sk_infos b) \<le> SUB_MAX)"
proof (induction xs arbitrary: y)
  case (Cons x xs)
  let ?n = "\<lambda>u. length (case u of None \<Rightarrow> [] | Some b \<Rightarrow> sk_infos b)"
  from Cons.prems obtain w where w: "aggr_step mem cap x y = Some w" "foldo (aggr_step mem cap) xs w = Some z"
    by (auto split: option.splits)
  then obtain p i where i: "put_info p (case y of None \<Rightarrow> [] | Some b \<Rightarrow> sk_infos b) = Some i" "?n w = length i"
    by (auto simp: aggr_step_def bind_eq_Some_conv split: option.splits)
  have "?n w = ?n y + 1" using put_info_length [OF i(1)] i(2) by simp
  moreover have "?n w \<le> SUB_MAX" using put_info_length [OF i(1)] i by (auto simp: put_info_def split: if_splits)
  ultimately show ?case using Cons.IH [OF w(2)] w(2) by (cases "xs = []") auto
qed simp

lemma flush_overflows:
  assumes "SUB_MAX < amsdunum (amsdutx s k)" "am_alloc e (n_alloc s)"
  shows "flush_aggr e k s = None"
proof -
  let ?a = "amsdutx s k" let ?n = "amsdunum ?a"
  have "foldo (aggr_step (am_memory e) (amsdu_room (framelen ?a))) (take ?n (msdu_tmp_buf ?a)) None = None" if "?n \<le> length (msdu_tmp_buf ?a)"
  proof (rule ccontr)
    assume "\<not> ?thesis"
    then obtain z where z: "foldo (aggr_step (am_memory e) (amsdu_room (framelen ?a))) (take ?n (msdu_tmp_buf ?a)) None = Some z" by blast
    have "take ?n (msdu_tmp_buf ?a) \<noteq> []" using that assms(1) by auto
    with aggr_fold_slots [OF z] that assms(1) show False by simp
  qed
  then have "wifi_mac_amsdu_aggr e k s = None"
    using assms by (auto simp: wifi_mac_amsdu_aggr_def Let_def bind_eq_None_conv am_emit_def split: option.splits)
  then show ?thesis by (simp add: flush_aggr_def)
qed

lemma ex_overflows:
  assumes "SUB_MAX < amsdunum (amsdutx s (skb_key y))" "am_alloc e (n_alloc s)"
  shows "wifi_mac_amsdu_ex e y s = None"
proof -
  have "\<not> amsdunum (amsdutx s (skb_key y)) + 1 \<le> tx_amsdu_sub_max e y" using assms(1) sub_max_le [of e y] by linarith
  then show ?thesis using assms(1) flush_overflows [OF assms]
    by (cases "wifi_mac_amsdu_check y") (simp_all add: wifi_mac_amsdu_ex_def Let_def)
qed

text \<open>Without memory the frames stay.\<close>

lemma flush_without_memory:
  assumes "flush_aggr e k s = Some s'" "\<not> am_alloc e (n_alloc s)" "amsdunum (amsdutx s k) \<noteq> 0"
  shows "n_alloc s' = Suc (n_alloc s)" "amsdunum (amsdutx s' k) = amsdunum (amsdutx s k)"
  using assms by (auto simp: flush_aggr_def wifi_mac_amsdu_aggr_def Let_def bind_eq_Some_conv am_emit_def upd_at_def split: option.splits if_splits)

lemma third_frame_held:
  assumes "wifi_mac_amsdu_ex e x s = Some s'" "\<not> am_alloc e (n_alloc s)" "amsdunum (amsdutx s (skb_key x)) = SUB_MAX"
    and "wifi_mac_amsdu_check x = Some False" "SUBFRAME_TOTAL_LEN (length (sk_data x)) \<le> AMSDU_MAX_SUBFRM_LEN"
  shows "n_alloc s' = Suc (n_alloc s)" "amsdunum (amsdutx s' (skb_key x)) = Suc SUB_MAX"
proof -
  let ?k = "skb_key x"
  have n: "amsdunum (amsdutx s ?k) \<noteq> 0" using assms(3) by (simp add: SUB_MAX_def)
  have c: "\<not> amsdunum (amsdutx s ?k) + 1 \<le> tx_amsdu_sub_max e x" using assms(3) sub_max_le [of e x] by linarith
  from assms(1,4,5) n c obtain s1 where s1: "flush_aggr e ?k s = Some s1" "tmp_add ?k x (tmp_drop ?k s1) = Some s'"
    by (auto simp: wifi_mac_amsdu_ex_def Let_def bind_eq_Some_conv)
  note f = flush_without_memory [OF s1(1) assms(2) n]
  have "tmp_drop ?k s1 = s1" using f(2) assms(3) by (simp add: tmp_drop_def SUB_MAX_def SUB_MAX_BW80_def)
  with s1(2) f assms(3) show "n_alloc s' = Suc (n_alloc s)" "amsdunum (amsdutx s' ?k) = Suc SUB_MAX"
    by (auto simp: tmp_add_def Let_def split: if_splits)
qed

text \<open>C40: When the allocation of a buffer fails while two frames are held, the next frame is held as a third; the next allocation
  that succeeds writes the information of the third frame behind the two slots of the descriptor.\<close>

lemma amsdu_overflow:
  assumes "\<not> am_alloc e (n_alloc s)" "am_alloc e' (Suc (n_alloc s))" "skb_key y = skb_key x" "amsdunum (amsdutx s (skb_key x)) = SUB_MAX"
    and "wifi_mac_amsdu_check x = Some False" "SUBFRAME_TOTAL_LEN (length (sk_data x)) \<le> AMSDU_MAX_SUBFRM_LEN"
  shows "do { s' \<leftarrow> wifi_mac_amsdu_ex e x s; wifi_mac_amsdu_ex e' y s' } = None"
proof (cases "wifi_mac_amsdu_ex e x s")
  case (Some s')
  have "SUB_MAX < amsdunum (amsdutx s' (skb_key y))" "am_alloc e' (n_alloc s')"
    using third_frame_held [OF Some assms(1,4,5,6)] assms(2,3) by simp_all
  then show ?thesis using ex_overflows by (simp add: Some)
qed simp

text \<open>Two frames come while there is no memory: the state is reached by the code itself.\<close>

definition demo_full :: amsdu_sys where
  "demo_full = the (do { s \<leftarrow> wifi_mac_amsdu_ex (demo_env (\<lambda>_. False)) (demo_frame 1 3) (amsdu_boot [(0, 1)]);
     wifi_mac_amsdu_ex (demo_env (\<lambda>_. False)) (demo_frame 2 5) s })"

lemma amsdu_overflow_witness:
  "do { s' \<leftarrow> wifi_mac_amsdu_ex (demo_env (\<lambda>n. n = 2)) (demo_frame 3 4) demo_full;
        wifi_mac_amsdu_ex (demo_env (\<lambda>n. n = 2)) (demo_frame 4 4) s' } = None
   \<and> map_option (\<lambda>s. amsdunum (amsdutx s (1, 0))) (wifi_mac_amsdu_ex (demo_env (\<lambda>n. n = 2)) (demo_frame 3 4) demo_full) = Some 3"
proof (rule conjI, rule amsdu_overflow)
  show "\<not> am_alloc (demo_env (\<lambda>n. n = 2)) (n_alloc demo_full)" by code_simp
  show "am_alloc (demo_env (\<lambda>n. n = 2)) (Suc (n_alloc demo_full))" by code_simp
  show "skb_key (demo_frame 4 4) = skb_key (demo_frame 3 4)" by (simp add: demo_ok)
  show "amsdunum (amsdutx demo_full (skb_key (demo_frame 3 4))) = SUB_MAX" by code_simp
  show "wifi_mac_amsdu_check (demo_frame 3 4) = Some False" by code_simp
  show "SUBFRAME_TOTAL_LEN (length (sk_data (demo_frame 3 4))) \<le> AMSDU_MAX_SUBFRM_LEN" by code_simp
qed code_simp

end
