(* ===== verification/Spec2Isabelle.thy ===== *)
theory Spec2Isabelle
  imports SharedFifo RxReorder Rates Acl Pmksa WorkQueue Michael TxWindow Elements RsnIe KeyInstall ChanUse ConnProps ScanProps AmsduProps
begin

text \<open>
  Verification of the core logic of the Amlogic W1 wireless driver: the C code under
  \<^verbatim>\<open>src/project_w1/vmac\<close>.

  \<^bold>\<open>The program.\<close>  The driver is a full software MAC below the cfg80211 interface of the Linux kernel.  A received frame
  comes from the bus into the reorder buffer of its traffic id (\<^verbatim>\<open>wifi_drv_recv.c\<close>), is checked against the
  packet numbers of its sender (\<^verbatim>\<open>wifi_hal.c\<close>) and goes to the receive path (\<^verbatim>\<open>wifi_mac_recv.c\<close>),
  which walks over the information elements of management frames, judges the security elements and drives the connection
  state machine of the interface (\<^verbatim>\<open>wifi_mac_if.c\<close>, \<^verbatim>\<open>wifi_mac_sta.c\<close>).  A frame to be sent
  gets its key (\<^verbatim>\<open>wifi_mac_encrypt.c\<close>) and, when a block-ack session is open, a place in the transmit window
  (\<^verbatim>\<open>wifi_drv_xmit.c\<close>).  Work that must not run in an interrupt goes through a queue of tasks over a shared FIFO
  (\<^verbatim>\<open>wifi_drv_if.c\<close>, \<^verbatim>\<open>wifi_share_fifo.c\<close>).  Around these stand the channel list
  (\<^verbatim>\<open>wifi_mac_chan.c\<close>), rate sets (\<^verbatim>\<open>wifi_mac_rate.c\<close>), the access control list
  (\<^verbatim>\<open>wifi_mac_acl.c\<close>) and the cache of master key identifiers (\<^verbatim>\<open>wifi_mac_sae.c\<close>).

  \<^bold>\<open>Conventions.\<close>  C integers are words of their width where wrap-around can matter (\<open>u8\<close>, \<open>u16\<close>,
  \<open>u32\<close>, \<open>u64\<close> of theory Prelude) and otherwise int or nat.  A structure is a record with the fields that the
  modelled code reads or writes, an array is a list of its length and is read through a checked access.  A result
  \<open>None\<close> of type option is undefined behaviour (an index outside an array, a null pointer), a failed KASSERT, which is
  BUG() here, or a loop that does not return; so a theorem that an operation returns \<open>Some\<close> says that none of these
  happens.  Error codes are the values the code returns.  Operations pass the state explicitly.  Locks and debug output have
  no effect; calls into the kernel, the firmware or a part that is not modelled are entries of an event log or of a queue of
  tasks, and what such a call answers is a parameter or a field of an environment record.

  \<^bold>\<open>The theories, and the code each models.\<close>
  \<^item> Prelude: names for the integer types, checked access to arrays, loops that may fail (\<open>foldo\<close>), the counters
    of \<^verbatim>\<open>osdep.h\<close> that run in a circle, and the facts on lists, maps, words and rings that the components share.
  \<^item> SlotChannel: the interface, as a locale, between a bounded pool of slots that two parties share and the code that
    passes values through it.  SharedFifo (\<^verbatim>\<open>wifi_share_fifo.c\<close>) interprets it: the pool is cut into blocks of
    three producers or consumers; get and put are refinements of the removal and insertion of elements in queues, and the
    blocks partition the pool.  WorkQueue (\<^verbatim>\<open>wifi_drv_if.c\<close>) uses the interface for the task queue.
  \<^item> OsTimer (\<^verbatim>\<open>wifi_drv_timer.c\<close>): timers over a kernel timer.  A wait for a running handler is bounded by a
    parameter, the number of polls for which the other core holds on.
  \<^item> Aggr, RxReorder (\<^verbatim>\<open>wifi_drv_recv.c\<close>): the scoreboards with their ring of 128 descriptors.  The frames
    handed up are in sequence order and are neither lost nor duplicated, the code refines an abstract buffer that maps sequence
    numbers to frames, and every operation is defined in every state that can be reached.
  \<^item> Rates (\<^verbatim>\<open>wifi_mac_rate.c\<close>): parsing, sorting, intersecting and checking rate sets.
  \<^item> Acl (\<^verbatim>\<open>wifi_mac_acl.c\<close>): the list with its hash chains refines a finite set of addresses.
  \<^item> Pmksa (\<^verbatim>\<open>wifi_mac_sae.c\<close>): the cache of sixteen entries.
  \<^item> Michael (\<^verbatim>\<open>wifi_mac_encrypt.c\<close>): the integrity code over the fragments of a buffer chain agrees with the
    code of the whole message.
  \<^item> TxWindow (\<^verbatim>\<open>wifi_drv_xmit.c\<close>): the window of a traffic id, the building of aggregates, the handshake and
    the teardown, which completes.
  \<^item> Elements (\<^verbatim>\<open>wifi_mac_recv.c\<close>, \<^verbatim>\<open>wifi_mac_p2p.c\<close>): the walk over the elements of a
    frame.  Every pointer it leaves lies with its element inside the frame, and is the element of its kind that the
    declarative description picks.
  \<^item> RsnIe (\<^verbatim>\<open>wifi_mac_recv.c\<close>): the WPA and RSN elements, with what the parsers read and which network is
    judged acceptable.
  \<^item> Replay (\<^verbatim>\<open>wifi_hal.c\<close>, \<^verbatim>\<open>wifi_hal_txdesc.c\<close>): packet numbers as numbers of 48 or 128
    bits, the sliding window against a set of received numbers, and that no transmit nonce repeats.
  \<^item> KeyHal (\<^verbatim>\<open>wifi_drv_main.c\<close>, \<^verbatim>\<open>wifi_hal.c\<close>, \<^verbatim>\<open>wifi_hal_cmd.c\<close>), Keys
    (\<^verbatim>\<open>wifi_mac_encrypt.c\<close>, \<^verbatim>\<open>wifi_cfg80211.c\<close>, \<^verbatim>\<open>wifi_mac_sta.c\<close>) and KeyInstall:
    keys from the call of cfg80211 down to the command for the firmware, their removal with a station, and which key protects
    which frame.
  \<^item> ChanTab, ChanSort, Chan, ChanUse (\<^verbatim>\<open>wifi_mac_chan.c\<close>): tables of classes and countries, the quicksort in
    place, the set-up of the list for a country, and lookups, conversions, radar marks and the overlap map.  Plain char is
    signed or unsigned by the parameter \<open>sg\<close>.
  \<^item> ConnSm (\<^verbatim>\<open>wifi_mac_if.c\<close>, \<^verbatim>\<open>wifi_mac_sta.c\<close>, \<^verbatim>\<open>wifi_mac_concurrent.c\<close>) and
    ConnRx (\<^verbatim>\<open>wifi_mac_recv.c\<close>): the connection state machine, the timers, tasks and calls that drive it, and the
    frames that do.  ConnInv proves that no other operation touches the part of the state that belongs to the machine (its
    frame), ConnStep defines the runs of the system as a labelled step relation with a table of the switches each label can
    make, ConnProps holds the properties.
  \<^item> ScanTab (\<^verbatim>\<open>wifi_mac_scan.c\<close>, \<^verbatim>\<open>wifi_mac_recv.c\<close>): the table of networks heard,
    how frames fill it, which network is chosen and which channels are worth roaming to; ScanInv proves that list and hash
    chains stay one table.  ScanSm (\<^verbatim>\<open>wifi_mac_scan.c\<close>): the scan with its timer handlers, its start,
    cancellation and end.  ScanLive gives the measure by which every run of the handler brings the end closer (four runs per
    channel), ScanProps holds the properties.
  \<^item> Amsdu (\<^verbatim>\<open>wifi_mac_amsdu.c\<close>, \<^verbatim>\<open>wifi_mac_recv.c\<close>): the queue of each traffic id of a station,
    the A-MSDU built from it, the task, and how a receiver takes an A-MSDU apart.  AmsduInv describes the layout of an A-MSDU
    and shows how each operation moves frames; AmsduProps has the round trip, the order of the frames over any sequence of
    operations, and the overflow when memory is missing.

  \<^bold>\<open>How the parts meet.\<close>  The task queue is a client of the FIFO through the locale.  The transmit window and the reorder
  buffer share the ring arithmetic of Prelude and Aggr.  The elements found by the walk are what the parsers of RsnIe read.
  The key management calls the driver operations of KeyHal, and the properties of KeyInstall run the whole path from the
  command to the choice of the key of a frame.  The connection machine uses the channel list through the lookups of ChanUse;
  the control list is a function in its environment.  The state of the scan holds that of the connection machine: a request of the
  machine to start or cancel a scan is taken from its event log, and the end of a scan calls the machine to connect.  The
  scan reads the elements that the walk of Elements found, the rate checks of Rates and the cipher suites of RsnIe.

  \<^bold>\<open>Bounds and fuel.\<close>  Loops are structural recursions, folds over lists, or functions with a termination proof; no result
  depends on a fuel that could run out.  Waits on other threads are bounded by the code: 100 polls for a key command and for a
  timer.  Where the code asserts a bound the model has the assertion, and where it does not the theorems name the
  bound as a hypothesis (the number of channels, the length of a frame, the range of an index).  A scan is run for four times the
  number of its channels and four runs more, which is proved to be enough.  The runs of ConnStep assume
  that a main station can be allocated, that a task runs with the arguments it was queued with, and that a station belongs
  to the interface that its record names; besides the tasks and the frames their steps are all other callers of
  \<^verbatim>\<open>wifi_mac_top_sm\<close> (with the requests they make), the report of an external authentication and the two places that
  set the state by hand.  The account of the running interfaces is kept by the calm steps only, which leave out a scan of an
  access point without channel and name and setting the state of a connected interface by hand.  Where a text names
  conditions, the theorem below it holds under these, and a theorem near it shows what happens outside them.

  \<^bold>\<open>Properties\<close> are marked C1, C2 and so on, each in the theory of its component, followed by a run it applies to.

  \<^bold>\<open>Not modelled.\<close>  Frame construction, monitor mode and beacons work on kernel buffers and
  have little logic beside copying.  The bus, the host interface, register access and the firmware image are I/O or data.  The
  minstrel rate control and the cryptography are vendored code.  Statistics, production test and private commands are glue.
  Power save, P2P group negotiation and the notice of absence, scheduling over access categories and defragmentation
  have state machines of their own and are open work.  Interrupts and preemption appear only as the order of steps: each
  operation of the model is atomic.
\<close>

end
